(* ===== verification/Prelude.thy ===== *)
theory Prelude
  imports Complex_Main "HOL-Library.Word" "HOL-Library.AList" "HOL-Library.Sublist"
begin

text \<open>
  Shared vocabulary of the development: the machine types the Rust sources use, the JSON
  values that cross every public boundary, string helpers of the Rust standard library
  (\<^verbatim>\<open>str::contains\<close>, \<^verbatim>\<open>str::to_lowercase\<close>, \<^verbatim>\<open>str::trim\<close>,
  decimal formatting) and the laws of the hash maps of the sources.

  Strings are lists of bytes (\<open>char\<close>), so \<open>length\<close> is Rust's \<^verbatim>\<open>len()\<close>.
  Lower-casing and trimming act on ASCII letters and ASCII white space only.
  \<^verbatim>\<open>u64\<close> and \<^verbatim>\<open>u32\<close> counters are words, whose addition wraps as in a
  release build; \<^verbatim>\<open>usize\<close> lengths and indices are natural numbers;
  \<^verbatim>\<open>f64\<close> amounts are real numbers, so no theorem here speaks about rounding.
\<close>

section \<open>Machine types\<close>

type_synonym u64 = "64 word"
type_synonym u32 = "32 word"
type_synonym usize = nat
type_synonym f64 = real
type_synonym duration = nat
type_synonym ('e, 'a) result = "'e + 'a"

named_theorems world_simps "what the primitive effects do to each field of the world"
named_theorems frame "fields an operation leaves alone"

section \<open>Results\<close>

text \<open>The \<^verbatim>\<open>?\<close> operator and \<^verbatim>\<open>Option::ok_or\<close>; a Rust slice's \<^verbatim>\<open>get\<close>.\<close>

fun rbind :: "('e, 'a) result \<Rightarrow> ('a \<Rightarrow> ('e, 'b) result) \<Rightarrow> ('e, 'b) result" where
  "rbind (Inl e) f = Inl e"
| "rbind (Inr x) f = f x"

fun ok_or :: "'a option \<Rightarrow> 'e \<Rightarrow> ('e, 'a) result" where
  "ok_or None e = Inl e"
| "ok_or (Some x) e = Inr x"

definition slice_get :: "'a list \<Rightarrow> usize \<Rightarrow> 'a option" where
  "slice_get xs i = (if i < length xs then Some (xs ! i) else None)"

lemma rbind_Inr_iff: "rbind r f = Inr y \<longleftrightarrow> (\<exists>x. r = Inr x \<and> f x = Inr y)"
  by (cases r) auto

lemma ok_or_Inr_iff [simp]: "ok_or opt e = Inr x \<longleftrightarrow> opt = Some x"
  by (cases opt) auto

lemma slice_get_Some_iff [simp]: "slice_get xs i = Some x \<longleftrightarrow> i < length xs \<and> xs ! i = x"
  by (auto simp: slice_get_def)

section \<open>JSON values\<close>

datatype json =
    JNull
  | JBool bool
  | JNumber real
  | JString string
  | JArray "json list"
  | JObject "(string \<times> json) list"

fun is_object :: "json \<Rightarrow> bool" where
  "is_object (JObject _) = True"
| "is_object _ = False"

text \<open>\<^verbatim>\<open>Value::get\<close>, \<^verbatim>\<open>as_str\<close> and \<^verbatim>\<open>as_u64\<close>.\<close>

fun json_get :: "json \<Rightarrow> string \<Rightarrow> json option" where
  "json_get (JObject kvs) k = map_of kvs k"
| "json_get _ k = None"

fun json_as_str :: "json option \<Rightarrow> string option" where
  "json_as_str (Some (JString s)) = Some s"
| "json_as_str _ = None"

fun json_as_u64 :: "json option \<Rightarrow> nat option" where
  "json_as_u64 (Some (JNumber x)) = (if 0 \<le> x \<and> x = of_int \<lfloor>x\<rfloor> \<and> x < 2 ^ 64 then Some (nat \<lfloor>x\<rfloor>) else None)"
| "json_as_u64 _ = None"

section \<open>Strings\<close>

fun str_contains :: "string \<Rightarrow> string \<Rightarrow> bool" where
  "str_contains [] p = (p = [])"
| "str_contains (c # cs) p = (prefix p (c # cs) \<or> str_contains cs p)"

lemma str_contains_iff: "str_contains s p \<longleftrightarrow> (\<exists>a b. s = a @ p @ b)"
proof (induction s)
  case Nil
  then show ?case by auto
next
  case (Cons c cs)
  have "(\<exists>a b. c # cs = a @ p @ b) \<longleftrightarrow> prefix p (c # cs) \<or> (\<exists>a b. cs = a @ p @ b)"
    by (auto simp: prefix_def Cons_eq_append_conv)
  with Cons show ?case by simp
qed

lemma str_contains_append_left: "str_contains b p \<Longrightarrow> str_contains (a @ b) p"
  by (metis append.assoc str_contains_iff)

lemma str_contains_append_right: "str_contains a p \<Longrightarrow> str_contains (a @ b) p"
  by (metis append.assoc str_contains_iff)

definition lower_char :: "char \<Rightarrow> char" where
  "lower_char c =
     (let n = of_char c :: nat in if 65 \<le> n \<and> n \<le> 90 then char_of (n + 32) else c)"

definition to_lowercase :: "string \<Rightarrow> string" where
  "to_lowercase s = map lower_char s"

lemma to_lowercase_append: "to_lowercase (a @ b) = to_lowercase a @ to_lowercase b"
  by (simp add: to_lowercase_def)

definition is_space :: "char \<Rightarrow> bool" where
  "is_space c = (let n = of_char c :: nat in n = 32 \<or> (9 \<le> n \<and> n \<le> 13))"

definition str_trim :: "string \<Rightarrow> string" where
  "str_trim s = rev (dropWhile is_space (rev (dropWhile is_space s)))"

lemma str_trim_empty_iff: "str_trim s = [] \<longleftrightarrow> list_all is_space s"
proof -
  have "str_trim s = [] \<longleftrightarrow> (\<forall>c \<in> set (dropWhile is_space s). is_space c)"
    by (simp add: str_trim_def)
  also have "\<dots> \<longleftrightarrow> (\<forall>c \<in> set s. is_space c)"
    by (metis dropWhile_eq_Nil_conv list.set_intros(1) neq_Nil_conv
        hd_dropWhile list.sel(1) set_dropWhileD)
  finally show ?thesis by (simp add: list_all_iff)
qed

text \<open>Decimal rendering of a natural number, as \<^verbatim>\<open>format!\<close> prints it.\<close>

fun show_nat :: "nat \<Rightarrow> string" where
  "show_nat n = (if n < 10 then [char_of (48 + n)] else show_nat (n div 10) @ [char_of (48 + n mod 10)])"

declare show_nat.simps [simp del]

lemma show_nat_nonempty: "show_nat n \<noteq> []"
  by (subst show_nat.simps) simp

section \<open>Hash maps\<close>

text \<open>
  A \<^verbatim>\<open>HashMap\<close> is an association list; only \<open>map_of\<close>, insertion and removal
  are observed, and the representation keeps its keys distinct.
\<close>

type_synonym ('k, 'v) hashmap = "('k \<times> 'v) list"

abbreviation hm_get :: "('k, 'v) hashmap \<Rightarrow> 'k \<Rightarrow> 'v option" where
  "hm_get m k \<equiv> map_of m k"

abbreviation hm_insert :: "'k \<Rightarrow> 'v \<Rightarrow> ('k, 'v) hashmap \<Rightarrow> ('k, 'v) hashmap" where
  "hm_insert k v m \<equiv> AList.update k v m"

abbreviation hm_remove :: "'k \<Rightarrow> ('k, 'v) hashmap \<Rightarrow> ('k, 'v) hashmap" where
  "hm_remove k m \<equiv> AList.delete k m"

definition hm_ok :: "('k, 'v) hashmap \<Rightarrow> bool" where
  "hm_ok m = distinct (map fst m)"

text \<open>The map contract the components rely on.\<close>

locale hash_map =
  fixes empty :: "'m"
    and get :: "'m \<Rightarrow> 'k \<Rightarrow> 'v option"
    and ins :: "'k \<Rightarrow> 'v \<Rightarrow> 'm \<Rightarrow> 'm"
    and rem :: "'k \<Rightarrow> 'm \<Rightarrow> 'm"
    and ok :: "'m \<Rightarrow> bool"
  assumes get_empty: "get empty k = None"
    and get_ins: "get (ins k v m) = (get m)(k \<mapsto> v)"
    and get_rem: "get (rem k m) = (get m)(k := None)"
    and ok_empty: "ok empty"
    and ok_ins: "ok m \<Longrightarrow> ok (ins k v m)"
    and ok_rem: "ok m \<Longrightarrow> ok (rem k m)"
begin

lemma get_ins_same: "get (ins k v m) k = Some v"
  by (simp add: get_ins)

lemma get_rem_same: "get (rem k m) k = None"
  by (simp add: get_rem)

text \<open>Inserting a batch of bindings, the later ones winning.\<close>

lemma get_fold_ins:
  "get (fold (\<lambda>k. ins k v) ks m) k = (if k \<in> set ks then Some v else get m k)"
  by (induction ks arbitrary: m) (auto simp: get_ins)

lemma ok_fold_ins: "ok m \<Longrightarrow> ok (fold (\<lambda>k. ins k v) ks m)"
  by (induction ks arbitrary: m) (auto simp: ok_ins)

end

interpretation hm: hash_map "[]" hm_get hm_insert hm_remove hm_ok
proof unfold_locales
  show "map_of (AList.update k v m) = (map_of m)(k \<mapsto> v)"
    for k :: 'k and v :: 'v and m by (simp add: update_conv')
  show "map_of (AList.delete k m) = (map_of m)(k := None)"
    for k :: 'k and m :: "('k \<times> 'v) list" by (simp add: delete_conv')
qed (auto simp: hm_ok_def intro: distinct_update distinct_delete)

text \<open>A batch of bindings folded over a map: a key not in the batch keeps its binding.\<close>

lemma map_of_fold_update:
  "map_of (fold (\<lambda>(k, v). hm_insert k v) kvs m) = map_of m ++ map_of (rev kvs)"
  by (induction kvs arbitrary: m) (auto simp: update_conv' map_add_def fun_eq_iff split: option.splits)

section \<open>Lists\<close>

lemma take_append_drop_mid: "a \<le> b \<Longrightarrow> xs = take a xs @ drop a (take b xs) @ drop b xs"
  by (metis append.assoc append_take_drop_id min.absorb1 take_take)

lemma sum_list_map_append3:
  "sum_list (map f (xs @ ys @ zs)) = sum_list (map f xs) + sum_list (map f ys) + (sum_list (map f zs) :: nat)"
  by simp

lemma filter_Some_map: "List.map_filter f (xs @ ys) = List.map_filter f xs @ List.map_filter f ys"
  by (simp add: List.map_filter_def)

end
