(* ===== verification/Agent_Types.thy ===== *)
theory Agent_Types
  imports Prelude
begin

text \<open>
  The foundation types of \<^verbatim>\<open>src/src/types\<close>: content blocks, the three LLM message
  roles, custom messages, token usage and cost, stop reasons, model specifications, and the
  structured stream-error kinds. A Rust struct is a record whose fields carry a short prefix
  (\<open>um_\<close>, \<open>am_\<close>, \<open>tr_\<close>, \<open>u_\<close>, \<open>c_\<close>, \<open>ms_\<close>); an enum is
  a datatype whose constructors carry the enum's prefix where two enums share a name.

  A \<^verbatim>\<open>Box<dyn CustomMessage>\<close> is the record of what its trait methods answer:
  \<^verbatim>\<open>type_name()\<close>, \<^verbatim>\<open>to_json()\<close> and whether \<^verbatim>\<open>clone_box()\<close>
  returns a copy.
\<close>

section \<open>Content blocks\<close>

datatype image_source =
    Base64 string string
  | Url string string
  | File string string

datatype content_block =
    Text string
  | Thinking string "string option"
  | ToolCall (tc_id: string) (tc_name: string) (tc_arguments: json) (tc_partial_json: "string option")
  | Image image_source
  | Extension string json

fun extract_text :: "content_block list \<Rightarrow> string" where
  "extract_text [] = []"
| "extract_text (b # bs) = (case b of Text t \<Rightarrow> t @ extract_text bs | _ \<Rightarrow> extract_text bs)"

fun is_tool_call_block :: "content_block \<Rightarrow> bool" where
  "is_tool_call_block (ToolCall _ _ _ _) = True"
| "is_tool_call_block _ = False"

section \<open>Usage and cost\<close>

record usage =
  u_input :: u64
  u_output :: u64
  u_cache_read :: u64
  u_cache_write :: u64
  u_total :: u64
  u_extra :: "(string, u64) hashmap"

definition usage_default :: usage where
  "usage_default =
     \<lparr>u_input = 0, u_output = 0, u_cache_read = 0, u_cache_write = 0, u_total = 0, u_extra = []\<rparr>"

text \<open>The loop \<^verbatim>\<open>for (k, v) in rhs.extra { *self.extra.entry(k).or_insert(0) += v }\<close>.\<close>

fun extra_add :: "(string, 'n::{zero,plus}) hashmap \<Rightarrow> (string, 'n) hashmap \<Rightarrow> (string, 'n) hashmap" where
  "extra_add self [] = self"
| "extra_add self ((k, v) # kvs) =
     extra_add (hm_insert k ((case hm_get self k of None \<Rightarrow> 0 | Some x \<Rightarrow> x) + v) self) kvs"

definition usage_add :: "usage \<Rightarrow> usage \<Rightarrow> usage" where
  "usage_add self rhs =
     \<lparr>u_input = u_input self + u_input rhs,
      u_output = u_output self + u_output rhs,
      u_cache_read = u_cache_read self + u_cache_read rhs,
      u_cache_write = u_cache_write self + u_cache_write rhs,
      u_total = u_total self + u_total rhs,
      u_extra = extra_add (u_extra self) (u_extra rhs)\<rparr>"

record cost =
  c_input :: f64
  c_output :: f64
  c_cache_read :: f64
  c_cache_write :: f64
  c_total :: f64
  c_extra :: "(string, f64) hashmap"

definition cost_default :: cost where
  "cost_default =
     \<lparr>c_input = 0, c_output = 0, c_cache_read = 0, c_cache_write = 0, c_total = 0, c_extra = []\<rparr>"

definition cost_add :: "cost \<Rightarrow> cost \<Rightarrow> cost" where
  "cost_add self rhs =
     \<lparr>c_input = c_input self + c_input rhs,
      c_output = c_output self + c_output rhs,
      c_cache_read = c_cache_read self + c_cache_read rhs,
      c_cache_write = c_cache_write self + c_cache_write rhs,
      c_total = c_total self + c_total rhs,
      c_extra = extra_add (c_extra self) (c_extra rhs)\<rparr>"

definition cost_is_zero :: "cost \<Rightarrow> bool" where
  "cost_is_zero c =
     (c_input c = 0 \<and> c_output c = 0 \<and> c_cache_read c = 0 \<and> c_cache_write c = 0 \<and>
      c_total c = 0 \<and> list_all (\<lambda>(_, v). v = 0) (c_extra c))"

section \<open>Messages\<close>

datatype cache_hint = CacheWrite duration | CacheRead

datatype stop_reason = SrStop | SrLength | SrToolUse | SrAborted | SrError | SrTransfer

datatype stream_error_kind =
    Throttled | ContextWindowExceeded | AuthKind | NetworkKind | ContentFilteredKind | ModelRetiredKind

record user_message =
  um_content :: "content_block list"
  um_timestamp :: u64
  um_cache_hint :: "cache_hint option"

record assistant_message =
  am_content :: "content_block list"
  am_provider :: string
  am_model_id :: string
  am_usage :: usage
  am_cost :: cost
  am_stop_reason :: stop_reason
  am_error_message :: "string option"
  am_error_kind :: "stream_error_kind option"
  am_timestamp :: u64
  am_cache_hint :: "cache_hint option"

record tool_result_message =
  tr_tool_call_id :: string
  tr_content :: "content_block list"
  tr_is_error :: bool
  tr_timestamp :: u64
  tr_details :: json
  tr_cache_hint :: "cache_hint option"

datatype llm_message =
    User user_message
  | Assistant assistant_message
  | ToolResult tool_result_message

record custom_message =
  cm_type_name :: "string option"
  cm_to_json :: "json option"
  cm_cloneable :: bool

definition clone_box :: "custom_message \<Rightarrow> custom_message option" where
  "clone_box c = (if cm_cloneable c then Some c else None)"

datatype agent_message = Llm llm_message | Custom custom_message

fun block_visible :: "content_block \<Rightarrow> bool" where
  "block_visible (Text t) = (str_trim t \<noteq> [])"
| "block_visible (Thinking _ _) = False"
| "block_visible _ = True"

definition has_visible_content :: "assistant_message \<Rightarrow> bool" where
  "has_visible_content m = list_ex block_visible (am_content m)"

fun is_thinking_block :: "content_block \<Rightarrow> bool" where
  "is_thinking_block (Thinking _ _) = True"
| "is_thinking_block _ = False"

definition is_reasoning_only :: "assistant_message \<Rightarrow> bool" where
  "is_reasoning_only m = (\<not> has_visible_content m \<and> list_ex is_thinking_block (am_content m))"

text \<open>Cache hints of a message; custom messages carry none.\<close>

fun llm_cache_hint :: "llm_message \<Rightarrow> cache_hint option" where
  "llm_cache_hint (User m) = um_cache_hint m"
| "llm_cache_hint (Assistant m) = am_cache_hint m"
| "llm_cache_hint (ToolResult m) = tr_cache_hint m"

fun put_llm_cache_hint :: "cache_hint option \<Rightarrow> llm_message \<Rightarrow> llm_message" where
  "put_llm_cache_hint h (User m) = User (m\<lparr>um_cache_hint := h\<rparr>)"
| "put_llm_cache_hint h (Assistant m) = Assistant (m\<lparr>am_cache_hint := h\<rparr>)"
| "put_llm_cache_hint h (ToolResult m) = ToolResult (m\<lparr>tr_cache_hint := h\<rparr>)"

definition set_llm_cache_hint :: "llm_message \<Rightarrow> cache_hint \<Rightarrow> llm_message" where
  "set_llm_cache_hint m h = put_llm_cache_hint (Some h) m"

fun set_cache_hint :: "cache_hint \<Rightarrow> agent_message \<Rightarrow> agent_message" where
  "set_cache_hint h (Llm m) = Llm (put_llm_cache_hint (Some h) m)"
| "set_cache_hint h (Custom c) = Custom c"

fun clear_cache_hint :: "agent_message \<Rightarrow> agent_message" where
  "clear_cache_hint (Llm m) = Llm (put_llm_cache_hint None m)"
| "clear_cache_hint (Custom c) = Custom c"

fun message_cache_hint :: "agent_message \<Rightarrow> cache_hint option" where
  "message_cache_hint (Llm m) = llm_cache_hint m"
| "message_cache_hint (Custom _) = None"

text \<open>The projection \<^verbatim>\<open>filter_map\<close> uses everywhere: the LLM messages of a history.\<close>

fun as_llm :: "agent_message \<Rightarrow> llm_message option" where
  "as_llm (Llm m) = Some m"
| "as_llm (Custom _) = None"

definition llm_of :: "agent_message list \<Rightarrow> llm_message list" where
  "llm_of ms = List.map_filter as_llm ms"

text \<open>
  \<^verbatim>\<open>clone_messages\<close> of \<^verbatim>\<open>pause_state.rs\<close> and
  \<^verbatim>\<open>clone_messages_for_policy_snapshot\<close> of \<^verbatim>\<open>turn.rs\<close>: LLM messages always
  clone, a custom message only when \<^verbatim>\<open>clone_box\<close> answers.
\<close>

fun clone_message :: "agent_message \<Rightarrow> agent_message option" where
  "clone_message (Llm m) = Some (Llm m)"
| "clone_message (Custom c) = map_option Custom (clone_box c)"

definition clone_messages :: "agent_message list \<Rightarrow> agent_message list" where
  "clone_messages ms = List.map_filter clone_message ms"

section \<open>Model specifications\<close>

datatype thinking_level = TlOff | TlMinimal | TlLow | TlMedium | TlHigh | TlExtraHigh

record model_capabilities =
  mc_supports_thinking :: bool
  mc_supports_vision :: bool
  mc_supports_tool_use :: bool
  mc_supports_streaming :: bool
  mc_supports_structured_output :: bool
  mc_max_context_window :: "u64 option"
  mc_max_output_tokens :: "u64 option"
  mc_reasoning_levels :: "8 word option"

record model_spec =
  ms_provider :: string
  ms_model_id :: string
  ms_thinking_level :: thinking_level
  ms_thinking_budgets :: "(thinking_level, u64) hashmap option"
  ms_provider_config :: "json option"
  ms_capabilities :: "model_capabilities option"

definition model_spec_new :: "string \<Rightarrow> string \<Rightarrow> model_spec" where
  "model_spec_new provider model_id =
     \<lparr>ms_provider = provider, ms_model_id = model_id, ms_thinking_level = TlOff,
      ms_thinking_budgets = None, ms_provider_config = None, ms_capabilities = None\<rparr>"

section \<open>Lemmas\<close>

lemma llm_of_Nil [simp]: "llm_of [] = []"
  by (simp add: llm_of_def)

lemma llm_of_Cons: "llm_of (m # ms) = (case m of Llm l \<Rightarrow> l # llm_of ms | Custom _ \<Rightarrow> llm_of ms)"
  by (cases m) (auto simp: llm_of_def)

lemma llm_of_Cons_simps [simp]:
  "llm_of (Llm l # ms) = l # llm_of ms"
  "llm_of (Custom c # ms) = llm_of ms"
  by (simp_all add: llm_of_Cons)

lemma llm_of_append [simp]: "llm_of (xs @ ys) = llm_of xs @ llm_of ys"
  by (simp add: llm_of_def filter_Some_map)

lemma llm_of_map_Llm [simp]: "llm_of (map Llm ms) = ms"
  by (induction ms) auto

lemma clone_messages_simps [simp]:
  "clone_messages [] = []"
  "clone_messages (Llm l # ms) = Llm l # clone_messages ms"
  "clone_messages (Custom c # ms) =
     (if cm_cloneable c then Custom c # clone_messages ms else clone_messages ms)"
  by (simp_all add: clone_messages_def clone_box_def)

lemma clone_messages_append [simp]:
  "clone_messages (xs @ ys) = clone_messages xs @ clone_messages ys"
  by (simp add: clone_messages_def filter_Some_map)

lemma llm_of_clone [simp]: "llm_of (clone_messages ms) = llm_of ms"
proof (induction ms)
  case (Cons m ms)
  then show ?case by (cases m) auto
qed simp

lemma put_llm_cache_hint_get [simp]: "llm_cache_hint (put_llm_cache_hint h m) = h"
  by (cases m) auto

lemma extra_add_get:
  fixes self kvs :: "(string, 'n::comm_monoid_add) hashmap"
  assumes "distinct (map fst kvs)"
  shows "hm_get (extra_add self kvs) k =
     (case hm_get kvs k of
        None \<Rightarrow> hm_get self k
      | Some v \<Rightarrow> Some ((case hm_get self k of None \<Rightarrow> 0 | Some x \<Rightarrow> x) + v))"
  using assms
proof (induction self kvs rule: extra_add.induct)
  case (2 self k' v kvs)
  then have "hm_get kvs k' = None" by (simp add: map_of_eq_None_iff)
  with 2 show ?case by (auto simp: update_conv' split: option.splits)
qed simp

lemma extra_add_ok: "hm_ok self \<Longrightarrow> hm_ok (extra_add self kvs)"
  by (induction self kvs rule: extra_add.induct) (auto intro: hm.ok_ins)

end
