(* ===== verification/Errors_Retry.thy ===== *)
theory Errors_Retry
  imports Agent_Types
begin

text \<open>
  Errors and the default retry strategy: \<^verbatim>\<open>AgentError\<close> and its messages
  (\<^verbatim>\<open>error.rs\<close>), the classification of stream errors and the terminal assistant messages
  built from them (\<^verbatim>\<open>loop_/mod.rs\<close>), and the exponential back-off of
  \<^verbatim>\<open>retry.rs\<close>.

  A boxed source error is its chain of messages, outermost first, as \<^verbatim>\<open>source()\<close> walks it.
  The random factor of the jitter and the wall clock are arguments.
\<close>

section \<open>Errors\<close>

type_synonym error_chain = "string list"

datatype agent_error =
    ContextWindowOverflow (ae_model: string)
  | ModelThrottled
  | NetworkError (ae_source: error_chain)
  | StructuredOutputFailed (ae_attempts: usize) (ae_last_error: string)
  | AlreadyRunning
  | NoMessages
  | InvalidContinue
  | StreamError (ae_source: error_chain)
  | Aborted
  | PluginError (ae_name: string) (ae_source: error_chain)
  | CacheMiss
  | ContentFiltered
  | ModelRetired (ae_message: string)
  | SyncInAsyncContext
  | RuntimeInit (ae_source: error_chain)
  | AuthError (ae_message: string)

definition em_dash :: string where
  "em_dash = [CHR 0xE2, CHR 0x80, CHR 0x94]"

fun error_to_string :: "agent_error \<Rightarrow> string" where
  "error_to_string (ContextWindowOverflow model) = ''context window overflow for model: '' @ model"
| "error_to_string ModelThrottled = ''model request throttled (rate limited)''"
| "error_to_string (NetworkError _) = ''network error''"
| "error_to_string (StructuredOutputFailed attempts last_error) =
     ''structured output failed after '' @ show_nat attempts @ '' attempts: '' @ last_error"
| "error_to_string AlreadyRunning = ''agent is already running''"
| "error_to_string NoMessages = ''cannot continue with empty message history''"
| "error_to_string InvalidContinue = ''cannot continue when last message is an assistant message''"
| "error_to_string (StreamError _) = ''stream error''"
| "error_to_string Aborted = ''operation aborted via cancellation token''"
| "error_to_string (PluginError name _) = ''plugin error ('' @ name @ '')''"
| "error_to_string CacheMiss = ''provider cache miss''"
| "error_to_string ContentFiltered = ''content filtered by provider safety policy''"
| "error_to_string (ModelRetired message) = ''model retired by provider: '' @ message"
| "error_to_string SyncInAsyncContext =
     ''sync API called inside an active Tokio runtime '' @ em_dash @ '' use the async variant instead''"
| "error_to_string (RuntimeInit _) = ''failed to create Tokio runtime for sync API''"
| "error_to_string (AuthError message) = ''authentication failed: '' @ message"

fun error_source :: "agent_error \<Rightarrow> error_chain" where
  "error_source (NetworkError s) = s"
| "error_source (StreamError s) = s"
| "error_source (PluginError _ s) = s"
| "error_source (RuntimeInit s) = s"
| "error_source _ = []"

fun is_retryable :: "agent_error \<Rightarrow> bool" where
  "is_retryable ModelThrottled = True"
| "is_retryable (NetworkError _) = True"
| "is_retryable _ = False"

section \<open>Messages built from errors\<close>

definition push_source :: "string \<Rightarrow> string \<Rightarrow> string" where
  "push_source message source_message =
     (if source_message \<noteq> [] \<and> \<not> str_contains message source_message
      then message @ '': '' @ source_message else message)"

definition format_error_with_sources :: "agent_error \<Rightarrow> string" where
  "format_error_with_sources e = foldl push_source (error_to_string e) (error_source e)"

definition build_terminal_message :: "u64 \<Rightarrow> model_spec \<Rightarrow> stop_reason \<Rightarrow> string \<Rightarrow> assistant_message" where
  "build_terminal_message now model sr msg =
     \<lparr>am_content = [], am_provider = ms_provider model, am_model_id = ms_model_id model,
      am_usage = usage_default, am_cost = cost_default, am_stop_reason = sr,
      am_error_message = Some msg, am_error_kind = None, am_timestamp = now, am_cache_hint = None\<rparr>"

definition build_abort_message :: "u64 \<Rightarrow> model_spec \<Rightarrow> assistant_message" where
  "build_abort_message now model =
     build_terminal_message now model SrAborted ''operation aborted via cancellation token''"

definition build_error_message :: "u64 \<Rightarrow> model_spec \<Rightarrow> agent_error \<Rightarrow> assistant_message" where
  "build_error_message now model e =
     build_terminal_message now model SrError (format_error_with_sources e)"

section \<open>Classification of stream errors\<close>

fun classify_kind :: "string \<Rightarrow> string \<Rightarrow> stream_error_kind \<Rightarrow> agent_error" where
  "classify_kind model_id msg Throttled = ModelThrottled"
| "classify_kind model_id msg ContextWindowExceeded = ContextWindowOverflow model_id"
| "classify_kind model_id msg AuthKind = AuthError msg"
| "classify_kind model_id msg NetworkKind = NetworkError [msg]"
| "classify_kind model_id msg ContentFilteredKind = ContentFiltered"
| "classify_kind model_id msg ModelRetiredKind = ModelRetired msg"

definition contains_any :: "string \<Rightarrow> string list \<Rightarrow> bool" where
  "contains_any s ps = list_ex (str_contains s) ps"

definition classify_stream_error_for_model ::
  "string \<Rightarrow> string \<Rightarrow> stop_reason \<Rightarrow> stream_error_kind option \<Rightarrow> agent_error" where
  "classify_stream_error_for_model model_id msg sr kind =
     (case kind of
        Some k \<Rightarrow> classify_kind model_id msg k
      | None \<Rightarrow>
         let lower = to_lowercase msg in
         if contains_any lower [''context window'', ''context_length_exceeded''] then ContextWindowOverflow model_id
         else if contains_any lower [''rate limit'', ''429'', ''throttl''] then ModelThrottled
         else if contains_any lower [''cache miss'', ''cache not found'', ''cache_miss''] then CacheMiss
         else if contains_any lower [''content filter'', ''content_filter''] then ContentFiltered
         else if contains_any lower [''model_not_found'', ''model_decommissioned'']
              \<or> (str_contains lower ''model'' \<and> contains_any lower [''decommissioned'', ''has been retired''])
           then ModelRetired msg
         else if contains_any lower [''unauthorized'', ''invalid api key'', ''authentication'', ''forbidden'']
           then AuthError msg
         else if sr = SrAborted then Aborted
         else StreamError [msg])"

definition classify_stream_error :: "string \<Rightarrow> stop_reason \<Rightarrow> stream_error_kind option \<Rightarrow> agent_error" where
  "classify_stream_error msg sr kind = classify_stream_error_for_model [] msg sr kind"

section \<open>The default retry strategy\<close>

record default_retry_strategy =
  rs_max_attempts :: u32
  rs_base_delay :: real
  rs_max_delay :: real
  rs_multiplier :: f64
  rs_jitter :: bool

definition default_retry :: default_retry_strategy where
  "default_retry = \<lparr>rs_max_attempts = 3, rs_base_delay = 1, rs_max_delay = 60, rs_multiplier = 2, rs_jitter = True\<rparr>"

definition should_retry :: "default_retry_strategy \<Rightarrow> agent_error \<Rightarrow> u32 \<Rightarrow> bool" where
  "should_retry rs e attempt = (if attempt \<ge> rs_max_attempts rs then False else is_retryable e)"

text \<open>
  \<^verbatim>\<open>Duration::from_secs_f64\<close> panics on a negative or too large argument; that is the value
  \<open>None\<close>. \<open>rnd\<close> is what \<^verbatim>\<open>rand::random\<close> returned.
\<close>

definition from_secs_f64 :: "real \<Rightarrow> real option" where
  "from_secs_f64 s = (if s < 0 \<or> 2 ^ 64 \<le> s then None else Some s)"

definition retry_delay :: "default_retry_strategy \<Rightarrow> u32 \<Rightarrow> real \<Rightarrow> real option" where
  "retry_delay rs attempt rnd =
     (let exp = rs_multiplier rs ^ min (unat attempt - 1) (2 ^ 31 - 1);
          base_secs = rs_base_delay rs * exp;
          capped_secs = min base_secs (rs_max_delay rs);
          final_secs = (if rs_jitter rs then capped_secs * (1 / 2 + rnd) else capped_secs)
      in from_secs_f64 final_secs)"

section \<open>What the classification promises\<close>

lemma build_terminal_message_simps [simp]:
  "am_content (build_terminal_message now model sr msg) = []"
  "am_stop_reason (build_terminal_message now model sr msg) = sr"
  "am_error_message (build_terminal_message now model sr msg) = Some msg"
  "am_error_kind (build_terminal_message now model sr msg) = None"
  "am_usage (build_terminal_message now model sr msg) = usage_default"
  "am_cost (build_terminal_message now model sr msg) = cost_default"
  "am_cache_hint (build_terminal_message now model sr msg) = None"
  by (simp_all add: build_terminal_message_def)

lemma build_abort_message_simps [simp]:
  "am_content (build_abort_message now model) = []"
  "am_stop_reason (build_abort_message now model) = SrAborted"
  by (simp_all add: build_abort_message_def)

lemma build_error_message_simps [simp]:
  "am_content (build_error_message now model e) = []"
  "am_stop_reason (build_error_message now model e) = SrError"
  "am_error_message (build_error_message now model e) = Some (format_error_with_sources e)"
  "am_error_kind (build_error_message now model e) = None"
  by (simp_all add: build_error_message_def)

lemma push_source_prefix: "prefix m (push_source m s)"
  by (simp add: push_source_def)

lemma push_source_contains: "s = [] \<or> str_contains (push_source m s) s"
proof (cases "s = [] \<or> str_contains m s")
  case True
  then show ?thesis by (auto simp: push_source_def)
next
  case False
  then have "push_source m s = (m @ '': '') @ s @ []" by (simp add: push_source_def)
  then show ?thesis unfolding str_contains_iff by blast
qed

lemma foldl_push_prefix: "prefix m (foldl push_source m ss)"
  by (induction ss arbitrary: m) (auto intro: prefix_order.trans push_source_prefix)

lemma str_contains_prefix: "prefix a b \<Longrightarrow> str_contains a p \<Longrightarrow> str_contains b p"
  by (auto simp: str_contains_iff prefix_def) (metis append.assoc)

text \<open>
  An error message keeps its whole source chain: it starts with the error's own display
  text, and every non-empty source message of the chain occurs in it.
\<close>

theorem error_message_keeps_sources:
  "prefix (error_to_string e) (format_error_with_sources e)
   \<and> (\<forall>s \<in> set (error_source e). str_contains (format_error_with_sources e) s)"
proof -
  have "\<forall>s \<in> set ss. str_contains (foldl push_source m ss) s" for m ss
  proof (induction ss arbitrary: m)
    case (Cons s ss)
    have "str_contains (foldl push_source (push_source m s) ss) s"
      using push_source_contains[of s m] str_contains_prefix[OF foldl_push_prefix]
      by (cases "s = []") (auto simp: str_contains_iff)
    with Cons show ?case by simp
  qed simp
  then show ?thesis
    by (simp add: format_error_with_sources_def foldl_push_prefix)
qed

theorem error_message_keeps_sources_witness:
  "str_contains (format_error_with_sources (NetworkError [''reset'', ''broken pipe''])) ''broken pipe''"
  using error_message_keeps_sources [of "NetworkError [''reset'', ''broken pipe'']"] by simp

text \<open>
  Bounds of the back-off: with a non-negative base delay and multiplier, and the random
  factor in the unit interval, the delay never panics as long as one and a half times the
  ceiling is a representable duration; it is non-negative, stays within the ceiling without
  jitter and within one and a half times the ceiling with it; without
  jitter it is the capped exponential, and with a multiplier of at least one it never shrinks
  from one attempt to a later one.
\<close>

theorem retry_delay_bounds:
  assumes "0 \<le> rs_base_delay rs" "0 \<le> rs_multiplier rs" "0 \<le> rs_max_delay rs"
    and "rs_max_delay rs * (3 / 2) < 2 ^ 64" and "0 \<le> rnd" "rnd < 1"
  shows "\<exists>d. retry_delay rs attempt rnd = Some d \<and> 0 \<le> d
      \<and> d \<le> rs_max_delay rs * (if rs_jitter rs then 3 / 2 else 1)
      \<and> (\<not> rs_jitter rs \<longrightarrow> d = min (rs_base_delay rs * rs_multiplier rs ^ min (unat attempt - 1) (2 ^ 31 - 1)) (rs_max_delay rs))
      \<and> (\<not> rs_jitter rs \<and> 1 \<le> rs_multiplier rs \<longrightarrow>
           (\<forall>later d'. attempt \<le> later \<and> retry_delay rs later rnd = Some d' \<longrightarrow> d \<le> d'))"
proof -
  let ?c = "\<lambda>a. min (rs_base_delay rs * rs_multiplier rs ^ min (unat a - 1) (2 ^ 31 - 1)) (rs_max_delay rs)"
  have c: "0 \<le> ?c a" "?c a \<le> rs_max_delay rs" for a using assms(1-3) by auto
  have big: "rs_max_delay rs < 2 ^ 64" using assms(3,4) by (simp add: field_simps)
  have jit: "?c a * (1 / 2 + rnd) \<le> rs_max_delay rs * (3 / 2)" for a
    using c[of a] assms(5,6) by (intro mult_mono) auto
  have jit0: "0 \<le> ?c a * (1 / 2 + rnd)" for a using c(1)[of a] assms(5) by (intro mult_nonneg_nonneg) auto
  have mono: "?c attempt \<le> ?c later" if "attempt \<le> later" "1 \<le> rs_multiplier rs" for later
  proof -
    have "min (unat attempt - 1) (2 ^ 31 - 1) \<le> min (unat later - 1) (2 ^ 31 - 1)"
      using that(1) by (auto simp: word_le_nat_alt min_def)
    then have "rs_multiplier rs ^ min (unat attempt - 1) (2 ^ 31 - 1) \<le> rs_multiplier rs ^ min (unat later - 1) (2 ^ 31 - 1)"
      using that(2) by (rule power_increasing)
    then have "rs_base_delay rs * rs_multiplier rs ^ min (unat attempt - 1) (2 ^ 31 - 1)
        \<le> rs_base_delay rs * rs_multiplier rs ^ min (unat later - 1) (2 ^ 31 - 1)"
      using assms(1) by (rule mult_left_mono)
    then show ?thesis by (rule min.mono) simp
  qed
  have ev: "retry_delay rs a rnd = (if rs_jitter rs then Some (?c a * (1 / 2 + rnd)) else Some (?c a))" for a
  proof -
    have "\<not> ?c a < 0" "\<not> 2 ^ 64 \<le> ?c a" using c[of a] big by linarith+
    moreover have "\<not> ?c a * (1 / 2 + rnd) < 0" "\<not> 2 ^ 64 \<le> ?c a * (1 / 2 + rnd)"
      using jit[of a] jit0[of a] assms(4) by linarith+
    ultimately show ?thesis by (cases "rs_jitter rs") (simp_all only: retry_delay_def Let_def from_secs_f64_def simp_thms if_True if_False)
  qed
  show ?thesis using jit[of attempt] jit0[of attempt] c[of attempt] mono by (auto simp: ev)
qed

theorem retry_delay_bounds_witness:
  "\<exists>d. retry_delay (default_retry\<lparr>rs_jitter := False\<rparr>) 3 0 = Some d \<and> 0 \<le> d \<and> d \<le> 60"
  using retry_delay_bounds [of "default_retry\<lparr>rs_jitter := False\<rparr>" 0 3] by (auto simp: default_retry_def)

end
