(* ===== verification/Stream_Accumulate.thy ===== *)
theory Stream_Accumulate
  imports Agent_Types
begin

text \<open>
  \<^verbatim>\<open>stream.rs\<close>: the events a provider streams, \<^verbatim>\<open>accumulate_message\<close>, which
  rebuilds the assistant message from them, and \<^verbatim>\<open>sanitize_incomplete_tool_calls\<close>.

  The local variables of \<^verbatim>\<open>accumulate_message\<close> are the record \<open>acc\<close>, one arm of its
  \<^verbatim>\<open>match\<close> is one definition, and \<open>acc_event\<close> is the loop body. \<open>from_str\<close> stands
  for \<^verbatim>\<open>serde_json::from_str::<Value>\<close> (its error is the displayed message) and
  \<open>now\<close> for the clock.
\<close>

section \<open>Stream events\<close>

datatype assistant_message_event =
    Start
  | TextStart usize
  | TextDelta usize string
  | TextEnd usize
  | ThinkingStart usize
  | ThinkingDelta usize string
  | ThinkingEnd usize "string option"
  | ToolCallStart usize string string
  | ToolCallDelta usize string
  | ToolCallEnd usize
  | Done stop_reason usage cost
  | Error stop_reason string "usage option" "stream_error_kind option" "duration option"

definition event_error :: "string \<Rightarrow> stream_error_kind option \<Rightarrow> assistant_message_event" where
  "event_error message kind = Error SrError message None kind None"

definition text_response :: "string \<Rightarrow> assistant_message_event list" where
  "text_response text =
     [Start, TextStart 0, TextDelta 0 text, TextEnd 0, Done SrStop usage_default cost_default]"

type_synonym json_parser = "string \<Rightarrow> (string, json) result"

section \<open>Sanitizing incomplete tool calls\<close>

fun needs_fix :: "content_block \<Rightarrow> bool" where
  "needs_fix (ToolCall _ _ arguments partial_json) = (partial_json \<noteq> None \<or> \<not> is_object arguments)"
| "needs_fix _ = False"

fun sanitize_block :: "content_block \<Rightarrow> content_block" where
  "sanitize_block (ToolCall i n arguments partial_json) =
     (if partial_json \<noteq> None \<or> \<not> is_object arguments
      then ToolCall i n (JObject []) None else ToolCall i n arguments partial_json)"
| "sanitize_block b = b"

fun sanitize_blocks :: "content_block list \<Rightarrow> usize \<Rightarrow> content_block list \<times> usize" where
  "sanitize_blocks [] fixed = ([], fixed)"
| "sanitize_blocks (b # bs) fixed =
     (let (bs', n) = sanitize_blocks bs (if needs_fix b then fixed + 1 else fixed)
      in (sanitize_block b # bs', n))"

definition sanitize_incomplete_tool_calls :: "assistant_message \<Rightarrow> assistant_message \<times> usize" where
  "sanitize_incomplete_tool_calls m =
     (let (bs, n) = sanitize_blocks (am_content m) 0 in (m\<lparr>am_content := bs\<rparr>, n))"

section \<open>Accumulation\<close>

record acc =
  acc_content :: "content_block list option"
  acc_open :: "bool list"
  acc_stop_reason :: "stop_reason option"
  acc_usage :: "usage option"
  acc_cost :: "cost option"
  acc_error_message :: "string option"
  acc_error_kind :: "stream_error_kind option"
  acc_saw_start :: bool
  acc_saw_terminal :: bool

definition acc_init :: acc where
  "acc_init = \<lparr>acc_content = None, acc_open = [], acc_stop_reason = None, acc_usage = None, acc_cost = None,
     acc_error_message = None, acc_error_kind = None, acc_saw_start = False, acc_saw_terminal = False\<rparr>"

definition ensure_block_open :: "bool list \<Rightarrow> usize \<Rightarrow> string \<Rightarrow> (string, unit) result" where
  "ensure_block_open open_blocks i name =
     (if slice_get open_blocks i = Some False
      then Inl (name @ '': block at index '' @ show_nat i @ '' is already closed'') else Inr ())"

definition all_open_blocks_are_tool_calls :: "content_block list \<Rightarrow> bool list \<Rightarrow> bool" where
  "all_open_blocks_are_tool_calls content open_blocks =
     list_all (\<lambda>(i, open). open \<longrightarrow>
        (case slice_get content i of Some b \<Rightarrow> is_tool_call_block b | None \<Rightarrow> False))
      (enumerate 0 open_blocks)"

fun first_open :: "bool list \<Rightarrow> usize \<Rightarrow> usize option" where
  "first_open [] i = None"
| "first_open (b # bs) i = (if b then Some i else first_open bs (i + 1))"

definition validate_terminal_open_blocks ::
  "string \<Rightarrow> content_block list option \<Rightarrow> bool list \<Rightarrow> bool \<Rightarrow> (string, unit) result" where
  "validate_terminal_open_blocks name content open_blocks tolerate =
     (case first_open open_blocks 0 of
        None \<Rightarrow> Inr ()
      | Some idx \<Rightarrow> rbind (ok_or content (name @ '' before Start'')) (\<lambda>blocks.
          if tolerate \<and> all_open_blocks_are_tool_calls blocks open_blocks then Inr ()
          else Inl (name @ '' received with unterminated content block at index '' @ show_nat idx)))"

definition close_block :: "usize \<Rightarrow> acc \<Rightarrow> acc" where
  "close_block i s = s\<lparr>acc_open := (acc_open s)[i := False]\<rparr>"

definition put_block :: "usize \<Rightarrow> content_block list \<Rightarrow> content_block \<Rightarrow> acc \<Rightarrow> acc" where
  "put_block i blocks b s = s\<lparr>acc_content := Some (blocks[i := b])\<rparr>"

text \<open>The three \<^verbatim>\<open>*Start\<close> arms differ in the event name and the new block only.\<close>

definition block_start :: "string \<Rightarrow> usize \<Rightarrow> content_block \<Rightarrow> acc \<Rightarrow> (string, acc) result" where
  "block_start name i b s =
     rbind (ok_or (acc_content s) (name @ '' before Start'')) (\<lambda>blocks.
       if i \<noteq> length blocks
       then Inl (name @ '' content_index '' @ show_nat i @ '' != content length '' @ show_nat (length blocks))
       else Inr (s\<lparr>acc_content := Some (blocks @ [b]), acc_open := acc_open s @ [True]\<rparr>))"

definition on_start :: "acc \<Rightarrow> (string, acc) result" where
  "on_start s = (if acc_saw_start s then Inl ''duplicate Start event''
     else Inr (s\<lparr>acc_saw_start := True, acc_content := Some []\<rparr>))"

definition on_text_delta :: "usize \<Rightarrow> string \<Rightarrow> acc \<Rightarrow> (string, acc) result" where
  "on_text_delta i delta s =
     rbind (ok_or (acc_content s) ''TextDelta before Start'') (\<lambda>blocks.
     rbind (ensure_block_open (acc_open s) i ''TextDelta'') (\<lambda>_.
     rbind (ok_or (slice_get blocks i) (''TextDelta: invalid content_index '' @ show_nat i)) (\<lambda>block.
     case block of
       Text text \<Rightarrow> Inr (put_block i blocks (Text (text @ delta)) s)
     | _ \<Rightarrow> Inl (''TextDelta: block at index '' @ show_nat i @ '' is not Text''))))"

definition on_text_end :: "usize \<Rightarrow> acc \<Rightarrow> (string, acc) result" where
  "on_text_end i s =
     rbind (ok_or (acc_content s) ''TextEnd before Start'') (\<lambda>blocks.
     rbind (ok_or (slice_get blocks i) (''TextEnd: invalid content_index '' @ show_nat i)) (\<lambda>block.
     case block of
       Text _ \<Rightarrow> rbind (ensure_block_open (acc_open s) i ''TextEnd'') (\<lambda>_. Inr (close_block i s))
     | _ \<Rightarrow> Inl (''TextEnd: block at index '' @ show_nat i @ '' is not Text'')))"

definition on_thinking_delta :: "usize \<Rightarrow> string \<Rightarrow> acc \<Rightarrow> (string, acc) result" where
  "on_thinking_delta i delta s =
     rbind (ok_or (acc_content s) ''ThinkingDelta before Start'') (\<lambda>blocks.
     rbind (ensure_block_open (acc_open s) i ''ThinkingDelta'') (\<lambda>_.
     rbind (ok_or (slice_get blocks i) (''ThinkingDelta: invalid content_index '' @ show_nat i)) (\<lambda>block.
     case block of
       Thinking thinking sig \<Rightarrow> Inr (put_block i blocks (Thinking (thinking @ delta) sig) s)
     | _ \<Rightarrow> Inl (''ThinkingDelta: block at index '' @ show_nat i @ '' is not Thinking''))))"

definition on_thinking_end :: "usize \<Rightarrow> string option \<Rightarrow> acc \<Rightarrow> (string, acc) result" where
  "on_thinking_end i signature s =
     rbind (ok_or (acc_content s) ''ThinkingEnd before Start'') (\<lambda>blocks.
     rbind (ensure_block_open (acc_open s) i ''ThinkingEnd'') (\<lambda>_.
     rbind (ok_or (slice_get blocks i) (''ThinkingEnd: invalid content_index '' @ show_nat i)) (\<lambda>block.
     case block of
       Thinking thinking _ \<Rightarrow> Inr (close_block i (put_block i blocks (Thinking thinking signature) s))
     | _ \<Rightarrow> Inl (''ThinkingEnd: block at index '' @ show_nat i @ '' is not Thinking''))))"

definition on_tool_call_delta :: "usize \<Rightarrow> string \<Rightarrow> acc \<Rightarrow> (string, acc) result" where
  "on_tool_call_delta i delta s =
     rbind (ok_or (acc_content s) ''ToolCallDelta before Start'') (\<lambda>blocks.
     rbind (ensure_block_open (acc_open s) i ''ToolCallDelta'') (\<lambda>_.
     rbind (ok_or (slice_get blocks i) (''ToolCallDelta: invalid content_index '' @ show_nat i)) (\<lambda>block.
     case block of
       ToolCall cid name arguments partial_json \<Rightarrow>
         rbind (ok_or partial_json ''ToolCallDelta: partial_json already consumed'') (\<lambda>pj.
           Inr (put_block i blocks (ToolCall cid name arguments (Some (pj @ delta))) s))
     | _ \<Rightarrow> Inl (''ToolCallDelta: block at index '' @ show_nat i @ '' is not ToolCall''))))"

definition finish_arguments ::
  "json_parser \<Rightarrow> bool \<Rightarrow> json \<Rightarrow> string \<Rightarrow> (string, json \<times> string option) result" where
  "finish_arguments from_str tolerate arguments json_str =
     (if json_str = [] then Inr (JObject [], None)
      else case from_str json_str of
             Inr v \<Rightarrow> Inr (v, None)
           | Inl e \<Rightarrow> if tolerate then Inr (arguments, Some json_str)
                       else Inl (''ToolCallEnd: failed to parse arguments JSON: '' @ e))"

definition on_tool_call_end :: "json_parser \<Rightarrow> bool \<Rightarrow> usize \<Rightarrow> acc \<Rightarrow> (string, acc) result" where
  "on_tool_call_end from_str tolerate i s =
     rbind (ok_or (acc_content s) ''ToolCallEnd before Start'') (\<lambda>blocks.
     rbind (ok_or (slice_get blocks i) (''ToolCallEnd: invalid content_index '' @ show_nat i)) (\<lambda>block.
     rbind (ensure_block_open (acc_open s) i ''ToolCallEnd'') (\<lambda>_.
     case block of
       ToolCall cid name arguments partial_json \<Rightarrow>
         rbind (ok_or partial_json ''ToolCallEnd: partial_json already consumed'') (\<lambda>json_str.
         rbind (finish_arguments from_str tolerate arguments json_str) (\<lambda>(args, pj).
           Inr (close_block i (put_block i blocks (ToolCall cid name args pj) s))))
     | _ \<Rightarrow> Inl (''ToolCallEnd: block at index '' @ show_nat i @ '' is not ToolCall''))))"

definition on_done :: "bool \<Rightarrow> stop_reason \<Rightarrow> usage \<Rightarrow> cost \<Rightarrow> acc \<Rightarrow> (string, acc) result" where
  "on_done tolerate sr u c s =
     rbind (validate_terminal_open_blocks ''Done'' (acc_content s) (acc_open s) tolerate) (\<lambda>_.
       Inr (s\<lparr>acc_stop_reason := Some sr, acc_usage := Some u, acc_cost := Some c, acc_saw_terminal := True\<rparr>))"

definition on_error ::
  "stop_reason \<Rightarrow> string \<Rightarrow> usage option \<Rightarrow> stream_error_kind option \<Rightarrow> acc \<Rightarrow> (string, acc) result" where
  "on_error sr em u ek s =
     rbind (validate_terminal_open_blocks ''Error'' (acc_content s) (acc_open s) False) (\<lambda>_.
       Inr (s\<lparr>acc_stop_reason := Some sr, acc_error_message := Some em, acc_error_kind := ek,
              acc_usage := (case u of Some x \<Rightarrow> Some x | None \<Rightarrow> acc_usage s), acc_saw_terminal := True\<rparr>))"

fun after_terminal_error :: "assistant_message_event \<Rightarrow> string" where
  "after_terminal_error Start = ''Start event after terminal event''"
| "after_terminal_error (Done _ _ _) = ''duplicate terminal event''"
| "after_terminal_error (Error _ _ _ _ _) = ''duplicate terminal event''"
| "after_terminal_error _ = ''content event after terminal event''"

fun dispatch_event :: "json_parser \<Rightarrow> bool \<Rightarrow> assistant_message_event \<Rightarrow> acc \<Rightarrow> (string, acc) result" where
  "dispatch_event from_str tol Start s = on_start s"
| "dispatch_event from_str tol (TextStart i) s = block_start ''TextStart'' i (Text []) s"
| "dispatch_event from_str tol (TextDelta i d) s = on_text_delta i d s"
| "dispatch_event from_str tol (TextEnd i) s = on_text_end i s"
| "dispatch_event from_str tol (ThinkingStart i) s = block_start ''ThinkingStart'' i (Thinking [] None) s"
| "dispatch_event from_str tol (ThinkingDelta i d) s = on_thinking_delta i d s"
| "dispatch_event from_str tol (ThinkingEnd i sig) s = on_thinking_end i sig s"
| "dispatch_event from_str tol (ToolCallStart i cid name) s =
     block_start ''ToolCallStart'' i (ToolCall cid name JNull (Some [])) s"
| "dispatch_event from_str tol (ToolCallDelta i d) s = on_tool_call_delta i d s"
| "dispatch_event from_str tol (ToolCallEnd i) s = on_tool_call_end from_str tol i s"
| "dispatch_event from_str tol (Done sr u c) s = on_done tol sr u c s"
| "dispatch_event from_str tol (Error sr em u ek ra) s = on_error sr em u ek s"

definition acc_event :: "json_parser \<Rightarrow> bool \<Rightarrow> assistant_message_event \<Rightarrow> acc \<Rightarrow> (string, acc) result" where
  "acc_event from_str tol e s =
     (if acc_saw_terminal s then Inl (after_terminal_error e) else dispatch_event from_str tol e s)"

fun acc_events :: "json_parser \<Rightarrow> bool \<Rightarrow> assistant_message_event list \<Rightarrow> acc \<Rightarrow> (string, acc) result" where
  "acc_events from_str tol [] s = Inr s"
| "acc_events from_str tol (e # es) s = rbind (acc_event from_str tol e s) (acc_events from_str tol es)"

fun is_done_length :: "assistant_message_event \<Rightarrow> bool" where
  "is_done_length (Done sr _ _) = (sr = SrLength)"
| "is_done_length _ = False"

definition acc_finish :: "string \<Rightarrow> string \<Rightarrow> u64 \<Rightarrow> acc \<Rightarrow> (string, assistant_message) result" where
  "acc_finish provider model_id now s =
     rbind (ok_or (acc_content s) ''no Start event found'') (\<lambda>content.
     rbind (ok_or (acc_stop_reason s) ''no terminal event (Done or Error) found'') (\<lambda>sr.
     Inr \<lparr>am_content = content, am_provider = provider, am_model_id = model_id,
          am_usage = (case acc_usage s of Some u \<Rightarrow> u | None \<Rightarrow> usage_default),
          am_cost = (case acc_cost s of Some c \<Rightarrow> c | None \<Rightarrow> cost_default),
          am_stop_reason = sr, am_error_message = acc_error_message s, am_error_kind = acc_error_kind s,
          am_timestamp = now, am_cache_hint = None\<rparr>))"

definition accumulate_message ::
  "json_parser \<Rightarrow> u64 \<Rightarrow> assistant_message_event list \<Rightarrow> string \<Rightarrow> string \<Rightarrow> (string, assistant_message) result" where
  "accumulate_message from_str now events provider model_id =
     rbind (acc_events from_str (list_ex is_done_length events) events acc_init)
       (acc_finish provider model_id now)"

section \<open>Sanitized messages\<close>

fun well_formed_call :: "content_block \<Rightarrow> bool" where
  "well_formed_call (ToolCall _ _ arguments partial_json) = (partial_json = None \<and> is_object arguments)"
| "well_formed_call _ = True"

lemma sanitize_blocks_eq: "sanitize_blocks bs n = (map sanitize_block bs, n + length (filter needs_fix bs))"
  by (induction bs arbitrary: n) auto

lemma sanitize_block_well_formed: "well_formed_call (sanitize_block b)"
  by (cases b) auto

lemma sanitize_block_id: "well_formed_call b \<Longrightarrow> sanitize_block b = b"
  by (cases b) auto

lemma needs_fix_iff: "needs_fix b \<longleftrightarrow> \<not> well_formed_call b"
  by (cases b) auto

text \<open>
  Sanitizing leaves every tool call with object arguments and no partial JSON, keeps the
  well-formed blocks and every other field as they are, reports exactly the number of blocks it
  had to change, and finds nothing to do a second time.
\<close>

theorem sanitize_well_formed:
  assumes "sanitize_incomplete_tool_calls m = (m', n)"
  shows "list_all well_formed_call (am_content m')
    \<and> length (am_content m') = length (am_content m)
    \<and> (\<forall>i < length (am_content m). well_formed_call (am_content m ! i) \<longrightarrow> am_content m' ! i = am_content m ! i)
    \<and> m' = m\<lparr>am_content := am_content m'\<rparr>
    \<and> n = length (filter (\<lambda>b. \<not> well_formed_call b) (am_content m))
    \<and> sanitize_incomplete_tool_calls m' = (m', 0)"
proof -
  let ?bs = "map sanitize_block (am_content m)"
  have m': "m' = m\<lparr>am_content := ?bs\<rparr>" and n: "n = length (filter needs_fix (am_content m))"
    using assms by (auto simp: sanitize_incomplete_tool_calls_def sanitize_blocks_eq)
  have wf: "list_all well_formed_call ?bs" by (simp add: list_all_iff sanitize_block_well_formed)
  have "map sanitize_block ?bs = ?bs" by (simp add: sanitize_block_id sanitize_block_well_formed)
  moreover have "filter needs_fix ?bs = []"
    by (auto simp: filter_empty_conv needs_fix_iff sanitize_block_well_formed)
  ultimately have "sanitize_incomplete_tool_calls m' = (m', 0)"
    unfolding m' sanitize_incomplete_tool_calls_def sanitize_blocks_eq by simp
  moreover have "filter needs_fix (am_content m) = filter (\<lambda>b. \<not> well_formed_call b) (am_content m)"
    by (rule filter_cong) (simp_all add: needs_fix_iff)
  ultimately show ?thesis using wf n by (simp add: m' sanitize_block_id)
qed

definition example_assistant :: "content_block list \<Rightarrow> assistant_message" where
  "example_assistant bs = \<lparr>am_content = bs, am_provider = ''p'', am_model_id = ''m'', am_usage = usage_default,
     am_cost = cost_default, am_stop_reason = SrLength, am_error_message = None, am_error_kind = None,
     am_timestamp = 0, am_cache_hint = None\<rparr>"

theorem sanitize_well_formed_witness:
  "list_all well_formed_call (am_content (fst (sanitize_incomplete_tool_calls
      (example_assistant [Text ''a'', ToolCall ''1'' ''t'' JNull (Some ''x'')]))))
   \<and> snd (sanitize_incomplete_tool_calls (example_assistant [Text ''a'', ToolCall ''1'' ''t'' JNull (Some ''x'')])) = 1"
proof -
  let ?m = "example_assistant [Text ''a'', ToolCall ''1'' ''t'' JNull (Some ''x'')]"
  have "sanitize_incomplete_tool_calls ?m = (fst (sanitize_incomplete_tool_calls ?m), snd (sanitize_incomplete_tool_calls ?m))"
    by simp
  from sanitize_well_formed [OF this] show ?thesis by (simp add: example_assistant_def)
qed

section \<open>The shape of an accepted stream\<close>

fun is_terminal :: "assistant_message_event \<Rightarrow> bool" where
  "is_terminal (Done _ _ _) = True"
| "is_terminal (Error _ _ _ _ _) = True"
| "is_terminal _ = False"

lemmas arm_defs = on_start_def block_start_def on_text_delta_def on_text_end_def on_thinking_delta_def
  on_thinking_end_def on_tool_call_delta_def on_tool_call_end_def on_done_def on_error_def
  close_block_def put_block_def

lemma acc_events_append:
  "acc_events from_str tol (xs @ ys) s = rbind (acc_events from_str tol xs s) (acc_events from_str tol ys)"
proof (induction xs arbitrary: s)
  case (Cons x xs)
  then show ?case by (cases "acc_event from_str tol x s") auto
qed simp

text \<open>When each arm accepts, and the state it leaves.\<close>

lemma ensure_block_open_Inr [simp]:
  "ensure_block_open os i name = Inr x \<longleftrightarrow> slice_get os i \<noteq> Some False"
  by (simp add: ensure_block_open_def del: slice_get_Some_iff)

lemma block_start_Inr:
  "block_start name i b s = Inr s' \<longleftrightarrow>
     (\<exists>blocks. acc_content s = Some blocks \<and> i = length blocks
        \<and> s' = s\<lparr>acc_content := Some (blocks @ [b]), acc_open := acc_open s @ [True]\<rparr>)"
  by (auto simp: block_start_def rbind_Inr_iff split: if_splits)

lemma on_start_Inr:
  "on_start s = Inr s' \<longleftrightarrow> \<not> acc_saw_start s \<and> s' = s\<lparr>acc_saw_start := True, acc_content := Some []\<rparr>"
  by (auto simp: on_start_def)

lemma on_text_delta_Inr:
  "on_text_delta i d s = Inr s' \<longleftrightarrow>
     (\<exists>blocks t. acc_content s = Some blocks \<and> i < length blocks \<and> slice_get (acc_open s) i \<noteq> Some False
        \<and> blocks ! i = Text t \<and> s' = put_block i blocks (Text (t @ d)) s)"
  by (cases "acc_content s"; cases "the (acc_content s) ! i")
     (auto simp: on_text_delta_def slice_get_def ensure_block_open_def split: if_splits prod.splits)

lemma on_text_end_Inr:
  "on_text_end i s = Inr s' \<longleftrightarrow>
     (\<exists>blocks t. acc_content s = Some blocks \<and> i < length blocks \<and> slice_get (acc_open s) i \<noteq> Some False
        \<and> blocks ! i = Text t \<and> s' = close_block i s)"
  by (cases "acc_content s"; cases "the (acc_content s) ! i")
     (auto simp: on_text_end_def slice_get_def ensure_block_open_def split: if_splits prod.splits)

lemma on_thinking_delta_Inr:
  "on_thinking_delta i d s = Inr s' \<longleftrightarrow>
     (\<exists>blocks t sig. acc_content s = Some blocks \<and> i < length blocks \<and> slice_get (acc_open s) i \<noteq> Some False
        \<and> blocks ! i = Thinking t sig \<and> s' = put_block i blocks (Thinking (t @ d) sig) s)"
  by (cases "acc_content s"; cases "the (acc_content s) ! i")
     (auto simp: on_thinking_delta_def slice_get_def ensure_block_open_def split: if_splits prod.splits)

lemma on_thinking_end_Inr:
  "on_thinking_end i sig s = Inr s' \<longleftrightarrow>
     (\<exists>blocks t sig'. acc_content s = Some blocks \<and> i < length blocks \<and> slice_get (acc_open s) i \<noteq> Some False
        \<and> blocks ! i = Thinking t sig' \<and> s' = close_block i (put_block i blocks (Thinking t sig) s))"
  by (cases "acc_content s"; cases "the (acc_content s) ! i")
     (auto simp: on_thinking_end_def slice_get_def ensure_block_open_def split: if_splits prod.splits)

lemma on_tool_call_delta_Inr:
  "on_tool_call_delta i d s = Inr s' \<longleftrightarrow>
     (\<exists>blocks cid name args pj. acc_content s = Some blocks \<and> i < length blocks \<and> slice_get (acc_open s) i \<noteq> Some False
        \<and> blocks ! i = ToolCall cid name args (Some pj)
        \<and> s' = put_block i blocks (ToolCall cid name args (Some (pj @ d))) s)"
  by (cases "acc_content s"; cases "the (acc_content s) ! i")
     (auto simp: on_tool_call_delta_def slice_get_def ensure_block_open_def rbind_Inr_iff split: if_splits prod.splits)

lemma on_tool_call_end_Inr:
  "on_tool_call_end from_str tol i s = Inr s' \<longleftrightarrow>
     (\<exists>blocks cid name args json_str args' pj'. acc_content s = Some blocks \<and> i < length blocks
        \<and> slice_get (acc_open s) i \<noteq> Some False \<and> blocks ! i = ToolCall cid name args (Some json_str)
        \<and> finish_arguments from_str tol args json_str = Inr (args', pj')
        \<and> s' = close_block i (put_block i blocks (ToolCall cid name args' pj') s))"
  by (cases "acc_content s"; cases "the (acc_content s) ! i")
     (auto simp: on_tool_call_end_def slice_get_def ensure_block_open_def rbind_Inr_iff split: if_splits prod.splits)

lemmas arm_Inr = on_start_Inr block_start_Inr on_text_delta_Inr on_text_end_Inr on_thinking_delta_Inr
  on_thinking_end_Inr on_tool_call_delta_Inr on_tool_call_end_Inr

lemma acc_event_flags:
  assumes "acc_event from_str tol e s = Inr s'"
  shows "\<not> acc_saw_terminal s" "acc_saw_terminal s' = is_terminal e"
    "acc_saw_start s' \<longleftrightarrow> acc_saw_start s \<or> e = Start" "e = Start \<Longrightarrow> \<not> acc_saw_start s"
    "acc_content s = None \<Longrightarrow> e = Start \<or> (is_terminal e \<and> acc_content s' = None)"
  using assms
  by (cases e; auto simp: acc_event_def arm_Inr on_done_def on_error_def rbind_Inr_iff put_block_def close_block_def
      split: if_splits)+

lemma acc_events_terminal: "acc_saw_terminal s \<Longrightarrow> acc_events from_str tol es s = Inr s' \<Longrightarrow> es = []"
  by (cases es) (auto simp: rbind_Inr_iff acc_event_def)

text \<open>Once started, an accepted stream has content events only, up to one terminal event.\<close>

lemma acc_events_started:
  assumes "acc_events from_str tol es s = Inr s'" "acc_saw_start s" "\<not> acc_saw_terminal s" "acc_saw_terminal s'"
  shows "\<exists>mid t. es = mid @ [t] \<and> is_terminal t \<and> list_all (\<lambda>e. e \<noteq> Start \<and> \<not> is_terminal e) mid"
  using assms
proof (induction es arbitrary: s)
  case (Cons e es)
  then obtain s1 where e: "acc_event from_str tol e s = Inr s1" and es: "acc_events from_str tol es s1 = Inr s'"
    by (auto simp: rbind_Inr_iff)
  note fl = acc_event_flags[OF e]
  show ?case
  proof (cases "is_terminal e")
    case True
    then have "es = []" using es fl(2) by (metis acc_events_terminal)
    with True show ?thesis by (intro exI[of _ "[]"] exI[of _ e]) simp
  next
    case False
    then obtain mid t where "es = mid @ [t]" "is_terminal t" "list_all (\<lambda>e. e \<noteq> Start \<and> \<not> is_terminal e) mid"
      using Cons.IH[OF es] fl(2,3) Cons.prems by auto
    with False fl(4) Cons.prems(2) show ?thesis by (intro exI[of _ "e # mid"] exI[of _ t]) auto
  qed
qed simp

lemma acc_event_stop: "acc_event from_str tol e s = Inr s' \<Longrightarrow>
    (acc_stop_reason s \<noteq> None \<longleftrightarrow> acc_saw_terminal s) \<Longrightarrow> (acc_stop_reason s' \<noteq> None \<longleftrightarrow> acc_saw_terminal s')"
  by (cases e) (auto simp: acc_event_def arm_Inr on_done_def on_error_def rbind_Inr_iff put_block_def close_block_def
      split: if_splits)

lemma acc_events_stop: "acc_events from_str tol es s = Inr s' \<Longrightarrow>
    (acc_stop_reason s \<noteq> None \<longleftrightarrow> acc_saw_terminal s) \<Longrightarrow> (acc_stop_reason s' \<noteq> None \<longleftrightarrow> acc_saw_terminal s')"
proof (induction es arbitrary: s)
  case (Cons e es)
  then obtain s1 where "acc_event from_str tol e s = Inr s1" "acc_events from_str tol es s1 = Inr s'"
    by (auto simp: rbind_Inr_iff)
  with Cons show ?case by (metis acc_event_stop)
qed simp

lemma acc_init_simps [simp]:
  "acc_content acc_init = None" "acc_open acc_init = []" "acc_stop_reason acc_init = None"
  "acc_saw_start acc_init = False" "acc_saw_terminal acc_init = False"
  by (simp_all add: acc_init_def)

lemma accepted_brackets:
  assumes "accumulate_message from_str now events provider model_id = Inr m"
  shows "\<exists>mid t. events = Start # mid @ [t] \<and> is_terminal t \<and> list_all (\<lambda>e. e \<noteq> Start \<and> \<not> is_terminal e) mid"
proof -
  let ?tol = "list_ex is_done_length events"
  obtain s' blocks sr where run: "acc_events from_str ?tol events acc_init = Inr s'"
    and c: "acc_content s' = Some blocks" and sr: "acc_stop_reason s' = Some sr"
    using assms by (auto simp: accumulate_message_def acc_finish_def rbind_Inr_iff)
  have t: "acc_saw_terminal s'" using acc_events_stop[OF run] sr by simp
  from run c obtain e es s1 where ev: "events = e # es" and e: "acc_event from_str ?tol e acc_init = Inr s1"
    and es: "acc_events from_str ?tol es s1 = Inr s'"
    by (cases events) (auto simp: rbind_Inr_iff)
  note fl = acc_event_flags[OF e]
  have "e = Start"
  proof (rule ccontr)
    assume "e \<noteq> Start"
    with fl(5) have tm: "is_terminal e" "acc_content s1 = None" by auto
    then have "es = []" using acc_events_terminal[OF _ es] fl(2) by simp
    with es tm(2) c show False by simp
  qed
  with fl acc_events_started[OF es _ _ t] ev show ?thesis by auto
qed

text \<open>
  Only well-bracketed streams are accepted: a stream that \<open>accumulate_message\<close> turns
  into a message is one \<open>Start\<close>, then content events only, then exactly one terminal event,
  which comes last.
\<close>

theorem accepted_stream_shape:
  assumes "accumulate_message from_str now events provider model_id = Inr m"
  shows "\<exists>mid t. events = Start # mid @ [t] \<and> is_terminal t \<and> list_all (\<lambda>e. e \<noteq> Start \<and> \<not> is_terminal e) mid"
  using assms by (rule accepted_brackets)

theorem accepted_stream_shape_witness:
  "\<exists>mid t. text_response ''hi'' = Start # mid @ [t] \<and> is_terminal t"
proof -
  have "\<exists>m. accumulate_message (\<lambda>_. Inl []) 0 (text_response ''hi'') ''p'' ''m'' = Inr m"
    by (simp add: accumulate_message_def text_response_def acc_event_def arm_defs ensure_block_open_def
        slice_get_def acc_init_def validate_terminal_open_blocks_def acc_finish_def)
  then obtain m where "accumulate_message (\<lambda>_. Inl []) 0 (text_response ''hi'') ''p'' ''m'' = Inr m" ..
  from accepted_stream_shape [OF this] show ?thesis by blast
qed

section \<open>What the message holds\<close>

text \<open>
  The abstract reading of a stream: the blocks its \<open>*Start\<close> events open, in order, and the
  text its deltas spell for each index.
\<close>

datatype block_head = HText | HThinking | HToolCall string string

fun head_of :: "content_block \<Rightarrow> block_head option" where
  "head_of (Text _) = Some HText"
| "head_of (Thinking _ _) = Some HThinking"
| "head_of (ToolCall cid name _ _) = Some (HToolCall cid name)"
| "head_of _ = None"

fun opened :: "assistant_message_event \<Rightarrow> block_head option list" where
  "opened (TextStart _) = [Some HText]"
| "opened (ThinkingStart _) = [Some HThinking]"
| "opened (ToolCallStart _ cid name) = [Some (HToolCall cid name)]"
| "opened _ = []"

fun delta_at :: "usize \<Rightarrow> assistant_message_event \<Rightarrow> string" where
  "delta_at i (TextDelta j d) = (if i = j then d else [])"
| "delta_at i (ThinkingDelta j d) = (if i = j then d else [])"
| "delta_at i (ToolCallDelta j d) = (if i = j then d else [])"
| "delta_at i _ = []"

definition spelled :: "assistant_message_event list \<Rightarrow> usize \<Rightarrow> string" where
  "spelled es i = concat (map (delta_at i) es)"

fun block_matches :: "json_parser \<Rightarrow> bool \<Rightarrow> string \<Rightarrow> content_block \<Rightarrow> bool" where
  "block_matches from_str tol raw (Text t) = (t = raw)"
| "block_matches from_str tol raw (Thinking t _) = (t = raw)"
| "block_matches from_str tol raw (ToolCall _ _ args None) =
     (if raw = [] then args = JObject [] else from_str raw = Inr args)"
| "block_matches from_str tol raw (ToolCall _ _ args (Some pj)) = (pj = raw \<and> args = JNull)"
| "block_matches from_str tol raw _ = False"

definition acc_inv :: "json_parser \<Rightarrow> bool \<Rightarrow> assistant_message_event list \<Rightarrow> acc \<Rightarrow> bool" where
  "acc_inv from_str tol es s =
     ((acc_saw_start s \<longleftrightarrow> acc_content s \<noteq> None) \<and>
     (case acc_content s of
        None \<Rightarrow> acc_open s = [] \<and> concat (map opened es) = [] \<and> (\<forall>i. spelled es i = [])
      | Some blocks \<Rightarrow> length (acc_open s) = length blocks \<and> map head_of blocks = concat (map opened es)
          \<and> (\<forall>i \<ge> length blocks. spelled es i = [])
          \<and> (\<forall>i < length blocks. block_matches from_str tol (spelled es i) (blocks ! i))
          \<and> (\<forall>i < length blocks. is_tool_call_block (blocks ! i) \<and> tc_partial_json (blocks ! i) \<noteq> None
               \<and> \<not> tol \<longrightarrow> acc_open s ! i)))"

lemma spelled_snoc: "spelled (es @ [e]) i = spelled es i @ delta_at i e"
  by (simp add: spelled_def)

lemma finish_arguments_Inr:
  "finish_arguments from_str tol args str = Inr (args', pj) \<longleftrightarrow>
     (str = [] \<and> args' = JObject [] \<and> pj = None)
     \<or> (str \<noteq> [] \<and> from_str str = Inr args' \<and> pj = None)
     \<or> (str \<noteq> [] \<and> tol \<and> (\<exists>e. from_str str = Inl e) \<and> args' = args \<and> pj = Some str)"
  by (auto simp: finish_arguments_def split: sum.splits if_splits)

text \<open>Replacing one block keeps the heads when the new block has the old one's head.\<close>

lemma heads_update: "i < length bs \<Longrightarrow> head_of b = head_of (bs ! i) \<Longrightarrow> map head_of (bs[i := b]) = map head_of bs"
  by (simp add: map_update list_update_same_conv)

lemma acc_inv_update:
  assumes inv: "acc_inv from_str tol es s" and c: "acc_content s = Some blocks" and i: "i < length blocks"
    and hd: "head_of b = head_of (blocks ! i)" and new: "block_matches from_str tol (spelled es i @ delta_at i e) b"
    and opn: "opened e = []" and d: "\<And>j. j \<noteq> i \<Longrightarrow> delta_at j e = []"
    and closed: "is_tool_call_block b \<Longrightarrow> tc_partial_json b \<noteq> None \<Longrightarrow> \<not> tol \<Longrightarrow> os ! i"
    and os: "length os = length (acc_open s)" "\<And>j. j \<noteq> i \<Longrightarrow> os ! j = acc_open s ! j"
  shows "acc_inv from_str tol (es @ [e]) (s\<lparr>acc_content := Some (blocks[i := b]), acc_open := os\<rparr>)"
proof -
  have "block_matches from_str tol (spelled (es @ [e]) j) (blocks[i := b] ! j)" if "j < length blocks" for j
    using inv c that new d[of j] by (cases "j = i") (auto simp: acc_inv_def spelled_snoc)
  moreover have "spelled (es @ [e]) j = []" if "length blocks \<le> j" for j
    using inv c that d[of j] i by (auto simp: acc_inv_def spelled_snoc)
  moreover have "os ! j" if "j < length blocks" "is_tool_call_block (blocks[i := b] ! j)"
      "tc_partial_json (blocks[i := b] ! j) \<noteq> None" "\<not> tol" for j
    using inv c that closed os(2)[of j] by (cases "j = i") (auto simp: acc_inv_def)
  ultimately show ?thesis
    using inv c opn os(1) heads_update[OF i hd] by (simp add: acc_inv_def)
qed

lemma acc_inv_append_block:
  assumes "acc_inv from_str tol es s" "acc_content s = Some blocks"
    and "opened e = [head_of b]" "\<And>j. delta_at j e = []" "block_matches from_str tol [] b"
  shows "acc_inv from_str tol (es @ [e]) (s\<lparr>acc_content := Some (blocks @ [b]), acc_open := acc_open s @ [True]\<rparr>)"
  using assms by (auto simp: acc_inv_def spelled_snoc nth_append less_Suc_eq)

lemma acc_inv_terminal:
  assumes "acc_inv from_str tol es s" "opened e = []" "\<And>j. delta_at j e = []"
    and "acc_content s' = acc_content s" "acc_open s' = acc_open s" "acc_saw_start s' = acc_saw_start s"
  shows "acc_inv from_str tol (es @ [e]) s'"
  using assms by (auto simp: acc_inv_def spelled_snoc split: option.splits)

lemma acc_inv_at:
  assumes "acc_inv from_str tol es s" "acc_content s = Some blocks" "i < length blocks"
  shows "block_matches from_str tol (spelled es i) (blocks ! i)" "i < length (acc_open s)"
  using assms by (auto simp: acc_inv_def)

lemma acc_inv_event:
  assumes inv: "acc_inv from_str tol es s" and ev: "acc_event from_str tol e s = Inr s'"
  shows "acc_inv from_str tol (es @ [e]) s'"
proof (cases e)
  case Start
  with inv ev show ?thesis
    by (auto simp: acc_event_def arm_Inr acc_inv_def spelled_snoc split: if_splits)
next
  case (TextStart i)
  with inv ev show ?thesis
    by (auto simp: acc_event_def arm_Inr split: if_splits intro!: acc_inv_append_block)
next
  case (ThinkingStart i)
  with inv ev show ?thesis
    by (auto simp: acc_event_def arm_Inr split: if_splits intro!: acc_inv_append_block)
next
  case (ToolCallStart i cid name)
  with inv ev show ?thesis
    by (auto simp: acc_event_def arm_Inr split: if_splits intro!: acc_inv_append_block)
next
  case (Done sr u c)
  with inv ev show ?thesis
    by (auto simp: acc_event_def on_done_def rbind_Inr_iff split: if_splits intro!: acc_inv_terminal)
next
  case (Error sr em u ek ra)
  with inv ev show ?thesis
    by (auto simp: acc_event_def on_error_def rbind_Inr_iff split: if_splits intro!: acc_inv_terminal)
next
  case (TextDelta i d)
  with ev obtain blocks t where c: "acc_content s = Some blocks" and i: "i < length blocks" and b: "blocks ! i = Text t"
    and s': "s' = s\<lparr>acc_content := Some (blocks[i := Text (t @ d)]), acc_open := acc_open s\<rparr>"
    by (auto simp: acc_event_def arm_Inr put_block_def split: if_splits)
  show ?thesis unfolding s' using acc_inv_at(1)[OF inv c i] b TextDelta
    by (intro acc_inv_update[OF inv c i]) auto
next
  case (ThinkingDelta i d)
  with ev obtain blocks t sig where c: "acc_content s = Some blocks" and i: "i < length blocks"
    and b: "blocks ! i = Thinking t sig"
    and s': "s' = s\<lparr>acc_content := Some (blocks[i := Thinking (t @ d) sig]), acc_open := acc_open s\<rparr>"
    by (auto simp: acc_event_def arm_Inr put_block_def split: if_splits)
  show ?thesis unfolding s' using acc_inv_at(1)[OF inv c i] b ThinkingDelta
    by (intro acc_inv_update[OF inv c i]) auto
next
  case (ToolCallDelta i d)
  with ev obtain blocks cid name args pj where c: "acc_content s = Some blocks" and i: "i < length blocks"
    and b: "blocks ! i = ToolCall cid name args (Some pj)" and o: "slice_get (acc_open s) i \<noteq> Some False"
    and s': "s' = s\<lparr>acc_content := Some (blocks[i := ToolCall cid name args (Some (pj @ d))]), acc_open := acc_open s\<rparr>"
    by (auto simp: acc_event_def arm_Inr put_block_def split: if_splits)
  show ?thesis unfolding s' using acc_inv_at[OF inv c i] b o ToolCallDelta
    by (intro acc_inv_update[OF inv c i]) auto
next
  case (TextEnd i)
  with ev obtain blocks t where c: "acc_content s = Some blocks" and i: "i < length blocks" and b: "blocks ! i = Text t"
    and s': "s' = s\<lparr>acc_open := (acc_open s)[i := False]\<rparr>"
    by (auto simp: acc_event_def arm_Inr close_block_def split: if_splits)
  have "s' = s\<lparr>acc_content := Some (blocks[i := Text t]), acc_open := (acc_open s)[i := False]\<rparr>"
    using c b s' by (metis list_update_id acc.surjective acc.update_convs(1,2))
  then show ?thesis using acc_inv_at(1)[OF inv c i] b TextEnd
    by (auto intro!: acc_inv_update[OF inv c i])
next
  case (ThinkingEnd i sig)
  with ev obtain blocks t sig' where c: "acc_content s = Some blocks" and i: "i < length blocks"
    and b: "blocks ! i = Thinking t sig'"
    and s': "s' = s\<lparr>acc_content := Some (blocks[i := Thinking t sig]), acc_open := (acc_open s)[i := False]\<rparr>"
    by (auto simp: acc_event_def arm_Inr put_block_def close_block_def split: if_splits)
  show ?thesis unfolding s' using acc_inv_at(1)[OF inv c i] b ThinkingEnd
    by (intro acc_inv_update[OF inv c i]) auto
next
  case (ToolCallEnd i)
  with ev obtain blocks cid name args str args' pj' where c: "acc_content s = Some blocks" and i: "i < length blocks"
    and b: "blocks ! i = ToolCall cid name args (Some str)"
    and f: "finish_arguments from_str tol args str = Inr (args', pj')"
    and s': "s' = s\<lparr>acc_content := Some (blocks[i := ToolCall cid name args' pj']), acc_open := (acc_open s)[i := False]\<rparr>"
    by (auto simp: acc_event_def arm_Inr put_block_def close_block_def split: if_splits)
  show ?thesis unfolding s' using acc_inv_at(1)[OF inv c i] b f ToolCallEnd
    by (intro acc_inv_update[OF inv c i]) (auto simp: finish_arguments_Inr)
qed

lemma acc_inv_events:
  "acc_inv from_str tol es s \<Longrightarrow> acc_events from_str tol es' s = Inr s' \<Longrightarrow> acc_inv from_str tol (es @ es') s'"
proof (induction es' arbitrary: es s)
  case (Cons e es')
  then obtain s1 where "acc_event from_str tol e s = Inr s1" "acc_events from_str tol es' s1 = Inr s'"
    by (auto simp: rbind_Inr_iff)
  with Cons.IH[of "es @ [e]" s1] acc_inv_event[OF Cons.prems(1)] show ?case by simp
qed simp

lemma acc_inv_init: "acc_inv from_str tol [] acc_init"
  by (simp add: acc_inv_def spelled_def)

lemma accumulate_Inr:
  assumes "accumulate_message from_str now events provider model_id = Inr m"
  obtains s where "acc_events from_str (list_ex is_done_length events) events acc_init = Inr s"
    "acc_content s = Some (am_content m)" "acc_stop_reason s = Some (am_stop_reason m)"
    "acc_inv from_str (list_ex is_done_length events) events s"
proof -
  obtain s where run: "acc_events from_str (list_ex is_done_length events) events acc_init = Inr s"
    and "acc_content s = Some (am_content m)" "acc_stop_reason s = Some (am_stop_reason m)"
    using assms by (auto simp: accumulate_message_def acc_finish_def rbind_Inr_iff)
  with acc_inv_events[OF acc_inv_init run] show ?thesis using that by simp
qed

text \<open>
  The message is exactly what the stream spelled: its blocks are those the \<open>*Start\<close>
  events opened, in that order and with their ids and names; the text and thinking of a block
  are the concatenation of the deltas sent for its index; a completed tool call's arguments are
  the parse of its concatenated JSON deltas (the empty object when there were none), and an
  incomplete one still holds that text and null arguments.
\<close>

theorem accumulated_content:
  assumes "accumulate_message from_str now events provider model_id = Inr m"
  shows "map head_of (am_content m) = concat (map opened events)
    \<and> (\<forall>i < length (am_content m).
         block_matches from_str (list_ex is_done_length events) (spelled events i) (am_content m ! i))"
  using assms by (rule accumulate_Inr) (simp add: acc_inv_def)

lemmas accumulate_eval = accumulate_message_def acc_event_def arm_defs ensure_block_open_def
  slice_get_def acc_init_def validate_terminal_open_blocks_def acc_finish_def finish_arguments_def

theorem accumulated_content_witness:
  "\<exists>m. accumulate_message (\<lambda>_. Inl []) 0 (text_response ''hi'') ''p'' ''m'' = Inr m
     \<and> map head_of (am_content m) = [Some HText]"
proof -
  have "\<exists>m. accumulate_message (\<lambda>_. Inl []) 0 (text_response ''hi'') ''p'' ''m'' = Inr m"
    by (simp add: accumulate_eval text_response_def)
  then obtain m where m: "accumulate_message (\<lambda>_. Inl []) 0 (text_response ''hi'') ''p'' ''m'' = Inr m" ..
  from accumulated_content [OF this] m show ?thesis by (simp add: text_response_def)
qed

section \<open>Incomplete blocks\<close>

lemma first_open_None: "first_open bs i = None \<longleftrightarrow> True \<notin> set bs"
  by (induction bs arbitrary: i) auto

lemma all_open_tool_calls_at:
  "all_open_blocks_are_tool_calls content os \<Longrightarrow> i < length os \<Longrightarrow> os ! i \<Longrightarrow>
     i < length content \<and> is_tool_call_block (content ! i)"
  by (auto simp: all_open_blocks_are_tool_calls_def list_all_length nth_enumerate_eq slice_get_def split: if_splits)

lemma validate_Inr:
  assumes "validate_terminal_open_blocks name (Some blocks) os tol = Inr u" "length os = length blocks"
    and "i < length blocks" "os ! i"
  shows "tol \<and> is_tool_call_block (blocks ! i)"
proof -
  have "first_open os 0 \<noteq> None" using assms(2-4) by (auto simp: first_open_None in_set_conv_nth)
  with assms(1) have "tol" "all_open_blocks_are_tool_calls blocks os"
    by (auto simp: validate_terminal_open_blocks_def split: option.splits if_splits)
  with all_open_tool_calls_at[of blocks os i] assms(2-4) show ?thesis by simp
qed

text \<open>What the terminal event checked: the open blocks of the state it left.\<close>

lemma terminal_event_open:
  assumes "acc_event from_str tol t s = Inr s'" "is_terminal t" "acc_content s' = Some blocks"
    and "length (acc_open s') = length blocks" "i < length blocks" "acc_open s' ! i"
  shows "tol \<and> is_tool_call_block (blocks ! i) \<and> \<not> (\<exists>sr em u ek ra. t = Error sr em u ek ra)"
proof (cases t)
  case (Done sr u c)
  with assms show ?thesis
    by (auto simp: acc_event_def on_done_def rbind_Inr_iff split: if_splits dest: validate_Inr)
next
  case (Error sr em u ek ra)
  with assms show ?thesis
    by (auto simp: acc_event_def on_error_def rbind_Inr_iff split: if_splits dest: validate_Inr)
qed (use assms(2) in auto)

lemma accepted_last_event:
  assumes run: "acc_events from_str tol events acc_init = Inr s" and "acc_stop_reason s \<noteq> None"
  obtains xs t s0 where "events = xs @ [t]" "is_terminal t" "acc_event from_str tol t s0 = Inr s"
proof (cases events rule: rev_cases)
  case Nil
  with assms show ?thesis by simp
next
  case (snoc xs t)
  then obtain s0 where t: "acc_event from_str tol t s0 = Inr s"
    using run by (auto simp: acc_events_append rbind_Inr_iff)
  moreover have "acc_saw_terminal s" using acc_events_stop[OF run] assms(2) by simp
  ultimately show ?thesis using that snoc acc_event_flags(2)[OF t] by simp
qed

text \<open>
  Tool calls are complete: in an accepted message every tool call has its arguments parsed
  and no partial JSON left, unless the provider reported that it stopped at the token limit
  (a \<open>Done\<close> event with \<open>Length\<close>); the recovery of incomplete calls is only ever
  needed after such a stop.
\<close>

theorem tool_calls_complete:
  assumes "accumulate_message from_str now events provider model_id = Inr m"
    and "ToolCall cid name args (Some pj) \<in> set (am_content m)"
  shows "am_stop_reason m = SrLength \<and> (\<exists>u c. last events = Done SrLength u c)"
proof -
  let ?tol = "list_ex is_done_length events"
  obtain s where run: "acc_events from_str ?tol events acc_init = Inr s"
    and c: "acc_content s = Some (am_content m)" and sr: "acc_stop_reason s = Some (am_stop_reason m)"
    and inv: "acc_inv from_str ?tol events s" using assms(1) by (rule accumulate_Inr)
  obtain i where i: "i < length (am_content m)" "am_content m ! i = ToolCall cid name args (Some pj)"
    using assms(2) by (auto simp: in_set_conv_nth)
  have "acc_stop_reason s \<noteq> None" using sr by simp
  with run obtain xs t s0 where ev: "events = xs @ [t]" and t: "is_terminal t" "acc_event from_str ?tol t s0 = Inr s"
    by (rule accepted_last_event)
  have tol: ?tol
  proof (rule ccontr)
    assume n: "\<not> ?tol"
    with inv c i have "acc_open s ! i" "length (acc_open s) = length (am_content m)" by (auto simp: acc_inv_def)
    with terminal_event_open[OF t(2,1) c] i(1) n show False by simp
  qed
  obtain mid t' where "events = Start # mid @ [t']" "list_all (\<lambda>e. e \<noteq> Start \<and> \<not> is_terminal e) mid"
    using accepted_brackets[OF assms(1)] by blast
  with ev have "events = Start # mid @ [t]" "list_all (\<lambda>e. \<not> is_terminal e) mid" by (auto simp: list_all_iff)
  moreover have "is_done_length e \<Longrightarrow> is_terminal e" for e by (cases e) auto
  ultimately have "is_done_length t" using tol by (auto simp: list_ex_iff list_all_iff)
  then obtain u k where "t = Done SrLength u k" by (cases t) auto
  with t(2) sr ev show ?thesis by (auto simp: acc_event_def on_done_def rbind_Inr_iff split: if_splits)
qed

theorem tool_calls_complete_witness:
  "\<exists>m. accumulate_message (\<lambda>_. Inl []) 0
       [Start, ToolCallStart 0 ''1'' ''t'', ToolCallDelta 0 ''{'', Done SrLength usage_default cost_default] ''p'' ''m'' = Inr m
     \<and> ToolCall ''1'' ''t'' JNull (Some ''{'') \<in> set (am_content m) \<and> am_stop_reason m = SrLength"
proof -
  let ?es = "[Start, ToolCallStart 0 ''1'' ''t'', ToolCallDelta 0 ''{'', Done SrLength usage_default cost_default]"
  have "\<exists>m. accumulate_message (\<lambda>_. Inl []) 0 ?es ''p'' ''m'' = Inr m \<and> am_content m = [ToolCall ''1'' ''t'' JNull (Some ''{'')]"
    by (simp add: accumulate_eval all_open_blocks_are_tool_calls_def)
  then obtain m where m: "accumulate_message (\<lambda>_. Inl []) 0 ?es ''p'' ''m'' = Inr m"
    and "am_content m = [ToolCall ''1'' ''t'' JNull (Some ''{'')]" by blast
  then have i: "ToolCall ''1'' ''t'' JNull (Some ''{'') \<in> set (am_content m)" by simp
  from tool_calls_complete [OF m i] m i show ?thesis by blast
qed

section \<open>Round trip\<close>

text \<open>
  A provider that streams a list of finished blocks, each cut into chunks at will: the events it
  sends, block after block.
\<close>

fun stream_block :: "usize \<Rightarrow> content_block \<times> string list \<Rightarrow> assistant_message_event list" where
  "stream_block i (Text _, chunks) = TextStart i # map (TextDelta i) chunks @ [TextEnd i]"
| "stream_block i (Thinking _ sig, chunks) = ThinkingStart i # map (ThinkingDelta i) chunks @ [ThinkingEnd i sig]"
| "stream_block i (ToolCall cid name _ _, chunks) =
     ToolCallStart i cid name # map (ToolCallDelta i) chunks @ [ToolCallEnd i]"
| "stream_block i _ = []"

fun stream_blocks :: "usize \<Rightarrow> (content_block \<times> string list) list \<Rightarrow> assistant_message_event list" where
  "stream_blocks i [] = []"
| "stream_blocks i (b # bs) = stream_block i b @ stream_blocks (i + 1) bs"

text \<open>A block that \<open>chunks\<close> spell, with its arguments parsed.\<close>

fun spells :: "json_parser \<Rightarrow> content_block \<times> string list \<Rightarrow> bool" where
  "spells from_str (Text t, chunks) = (concat chunks = t)"
| "spells from_str (Thinking t _, chunks) = (concat chunks = t)"
| "spells from_str (ToolCall _ _ args pj, chunks) =
     (pj = None \<and> (if concat chunks = [] then args = JObject [] else from_str (concat chunks) = Inr args))"
| "spells from_str _ = False"

text \<open>The deltas of one block, sent to the last and still open block.\<close>

lemma acc_deltas:
  assumes "\<And>t d. acc_event from_str tol (ev d) (s\<lparr>acc_content := Some (blocks @ [blk t]), acc_open := os @ [True]\<rparr>)
      = Inr (s\<lparr>acc_content := Some (blocks @ [blk (t @ d)]), acc_open := os @ [True]\<rparr>)"
  shows "acc_events from_str tol (map ev chunks) (s\<lparr>acc_content := Some (blocks @ [blk t]), acc_open := os @ [True]\<rparr>)
      = Inr (s\<lparr>acc_content := Some (blocks @ [blk (t @ concat chunks)]), acc_open := os @ [True]\<rparr>)"
  by (induction chunks arbitrary: t) (simp_all add: assms)

lemmas last_block_eval = acc_event_def arm_defs ensure_block_open_def slice_get_def finish_arguments_def nth_append list_update_append

lemma acc_stream_block:
  assumes "acc_content s = Some blocks" "length (acc_open s) = length blocks" "\<not> acc_saw_terminal s"
    and "spells from_str (b, chunks)"
  shows "acc_events from_str tol (stream_block (length blocks) (b, chunks)) s
    = Inr (s\<lparr>acc_content := Some (blocks @ [b]), acc_open := acc_open s @ [False]\<rparr>)"
proof (cases b)
  case (Text t)
  have "acc_events from_str tol (map (TextDelta (length blocks)) chunks)
      (s\<lparr>acc_content := Some (blocks @ [content_block.Text []]), acc_open := acc_open s @ [True]\<rparr>)
      = Inr (s\<lparr>acc_content := Some (blocks @ [content_block.Text ([] @ concat chunks)]), acc_open := acc_open s @ [True]\<rparr>)"
    using assms(2,3) by (intro acc_deltas) (simp add: last_block_eval)
  with Text assms show ?thesis by (simp add: acc_events_append last_block_eval)
next
  case (Thinking t sig)
  have "acc_events from_str tol (map (ThinkingDelta (length blocks)) chunks)
      (s\<lparr>acc_content := Some (blocks @ [content_block.Thinking [] None]), acc_open := acc_open s @ [True]\<rparr>)
      = Inr (s\<lparr>acc_content := Some (blocks @ [content_block.Thinking ([] @ concat chunks) None]), acc_open := acc_open s @ [True]\<rparr>)"
    using assms(2,3) by (intro acc_deltas) (simp add: last_block_eval)
  with Thinking assms show ?thesis by (simp add: acc_events_append last_block_eval)
next
  case (ToolCall cid name args pj)
  have "acc_events from_str tol (map (ToolCallDelta (length blocks)) chunks)
      (s\<lparr>acc_content := Some (blocks @ [content_block.ToolCall cid name JNull (Some [])]), acc_open := acc_open s @ [True]\<rparr>)
      = Inr (s\<lparr>acc_content := Some (blocks @ [content_block.ToolCall cid name JNull (Some ([] @ concat chunks))]), acc_open := acc_open s @ [True]\<rparr>)"
    using assms(2,3) by (intro acc_deltas[where blk = "\<lambda>t. content_block.ToolCall cid name JNull (Some t)"]) (simp add: last_block_eval)
  with ToolCall assms show ?thesis by (simp add: acc_events_append last_block_eval split: if_splits)
qed (use assms(4) in auto)

lemma acc_stream_blocks:
  assumes "acc_content s = Some blocks" "length (acc_open s) = length blocks" "\<not> acc_saw_terminal s"
    and "list_all (spells from_str) bs"
  shows "acc_events from_str tol (stream_blocks (length blocks) bs) s
    = Inr (s\<lparr>acc_content := Some (blocks @ map fst bs), acc_open := acc_open s @ replicate (length bs) False\<rparr>)"
  using assms
proof (induction bs arbitrary: s blocks)
  case (Cons x bs)
  obtain b chunks where x: "x = (b, chunks)" by (cases x)
  let ?s = "s\<lparr>acc_content := Some (blocks @ [b]), acc_open := acc_open s @ [False]\<rparr>"
  have "acc_events from_str tol (stream_blocks (length (blocks @ [b])) bs) ?s
      = Inr (?s\<lparr>acc_content := Some ((blocks @ [b]) @ map fst bs), acc_open := acc_open ?s @ replicate (length bs) False\<rparr>)"
    using Cons.prems by (intro Cons.IH) auto
  with Cons.prems x acc_stream_block[of s blocks from_str b chunks tol] show ?case
    by (simp add: acc_events_append)
qed simp

lemma first_open_replicate [simp]: "first_open (replicate n False) i = None"
  by (simp add: first_open_None)

text \<open>
  C12. Streaming round trip: whatever text, thinking and tool-call blocks a provider streams and
  however it cuts their text into deltas, the accumulated message has exactly those blocks, with
  the stop reason, usage and cost of the final event.
\<close>

theorem stream_roundtrip:
  assumes "list_all (spells from_str) bs"
  shows "accumulate_message from_str now (Start # stream_blocks 0 bs @ [Done sr u c]) provider model_id
    = Inr \<lparr>am_content = map fst bs, am_provider = provider, am_model_id = model_id, am_usage = u, am_cost = c,
           am_stop_reason = sr, am_error_message = None, am_error_kind = None, am_timestamp = now, am_cache_hint = None\<rparr>"
proof -
  let ?s = "acc_init\<lparr>acc_saw_start := True, acc_content := Some []\<rparr>"
  have "acc_events from_str tol (stream_blocks (length ([] :: content_block list)) bs) ?s
      = Inr (?s\<lparr>acc_content := Some ([] @ map fst bs), acc_open := acc_open ?s @ replicate (length bs) False\<rparr>)" for tol
    using assms by (intro acc_stream_blocks) auto
  then show ?thesis
    by (simp add: accumulate_message_def acc_events_append acc_event_def on_start_def on_done_def
        validate_terminal_open_blocks_def acc_finish_def acc_init_def)
qed

theorem stream_roundtrip_witness:
  "\<exists>m. accumulate_message (\<lambda>s. if s = ''{}'' then Inr (JObject []) else Inl ''bad'') 7
       (Start # stream_blocks 0 [(Text ''hello'', [''he'', ''llo'']), (ToolCall ''1'' ''t'' (JObject []) None, [''{'', ''}''])]
          @ [Done SrToolUse usage_default cost_default]) ''p'' ''m'' = Inr m
     \<and> am_content m = [Text ''hello'', ToolCall ''1'' ''t'' (JObject []) None]"
  by (subst stream_roundtrip) simp_all

end
