(* ===== verification/Context_Messages.thy ===== *)
theory Context_Messages
  imports Agent_Types
begin

text \<open>
  The loop's conversation history, \<^verbatim>\<open>ContextMessages\<close> of \<^verbatim>\<open>loop_/types.rs\<close>:
  a message vector with a lazily extended mirror of its LLM payloads, and the provider-cache life
  cycle of \<^verbatim>\<open>context_cache.rs\<close>.

  Sharing by \<^verbatim>\<open>Arc\<close> is not observable, so a mirrored payload is a value. The contract of
  a history is the locale \<open>message_history\<close>: seen through \<open>view\<close>, every operation is
  the one on plain lists and a snapshot is the list of LLM payloads.
\<close>

section \<open>The mirrored history\<close>

record context_messages =
  ctx_messages :: "agent_message list"
  ctx_mirror :: "llm_message option list"

definition ctx_new :: "agent_message list \<Rightarrow> context_messages" where
  "ctx_new ms = \<lparr>ctx_messages = ms, ctx_mirror = []\<rparr>"

definition ctx_push :: "agent_message \<Rightarrow> context_messages \<Rightarrow> context_messages" where
  "ctx_push m c = c\<lparr>ctx_messages := ctx_messages c @ [m]\<rparr>"

definition ctx_extend :: "agent_message list \<Rightarrow> context_messages \<Rightarrow> context_messages" where
  "ctx_extend ms c = c\<lparr>ctx_messages := ctx_messages c @ ms\<rparr>"

text \<open>\<^verbatim>\<open>set\<close> panics on an index out of bounds: the value \<open>None\<close>.\<close>

definition ctx_set :: "usize \<Rightarrow> agent_message \<Rightarrow> context_messages \<Rightarrow> context_messages option" where
  "ctx_set i m c =
     (if i < length (ctx_messages c)
      then Some (c\<lparr>ctx_messages := (ctx_messages c)[i := m],
                   ctx_mirror := (if i < length (ctx_mirror c) then take i (ctx_mirror c) else ctx_mirror c)\<rparr>)
      else None)"

definition ctx_make_mut :: "(agent_message list \<Rightarrow> agent_message list) \<Rightarrow> context_messages \<Rightarrow> context_messages" where
  "ctx_make_mut f c = \<lparr>ctx_messages = f (ctx_messages c), ctx_mirror = []\<rparr>"

definition ctx_take_vec :: "context_messages \<Rightarrow> agent_message list \<times> context_messages" where
  "ctx_take_vec c = (ctx_messages c, \<lparr>ctx_messages = [], ctx_mirror = []\<rparr>)"

definition ctx_snapshot_llm :: "context_messages \<Rightarrow> llm_message list \<times> context_messages" where
  "ctx_snapshot_llm c =
     (let start = length (ctx_mirror c);
          mirror = ctx_mirror c @ map as_llm (drop start (ctx_messages c))
      in (List.map_filter id mirror, c\<lparr>ctx_mirror := mirror\<rparr>))"

definition ctx_inv :: "context_messages \<Rightarrow> bool" where
  "ctx_inv c = (length (ctx_mirror c) \<le> length (ctx_messages c)
     \<and> ctx_mirror c = map as_llm (take (length (ctx_mirror c)) (ctx_messages c)))"

section \<open>The contract of a history\<close>

datatype history_op =
    HPush agent_message
  | HExtend "agent_message list"
  | HSet usize agent_message
  | HMutate "agent_message list \<Rightarrow> agent_message list"
  | HTake
  | HSnapshot

fun list_op :: "history_op \<Rightarrow> agent_message list \<Rightarrow> (llm_message list option \<times> agent_message list) option" where
  "list_op (HPush m) ms = Some (None, ms @ [m])"
| "list_op (HExtend xs) ms = Some (None, ms @ xs)"
| "list_op (HSet i m) ms = (if i < length ms then Some (None, ms[i := m]) else None)"
| "list_op (HMutate f) ms = Some (None, f ms)"
| "list_op HTake ms = Some (None, [])"
| "list_op HSnapshot ms = Some (Some (llm_of ms), ms)"

text \<open>Running a sequence of operations, collecting the snapshots taken.\<close>

fun run_ops :: "('op \<Rightarrow> 's \<Rightarrow> (llm_message list option \<times> 's) option) \<Rightarrow> 'op list \<Rightarrow> 's
    \<Rightarrow> (llm_message list list \<times> 's) option" where
  "run_ops step [] s = Some ([], s)"
| "run_ops step (p # ps) s =
     (case step p s of
        None \<Rightarrow> None
      | Some (out, s') \<Rightarrow> (case run_ops step ps s' of
            None \<Rightarrow> None
          | Some (outs, s'') \<Rightarrow> Some ((case out of None \<Rightarrow> outs | Some x \<Rightarrow> x # outs), s'')))"

locale message_history =
  fixes view :: "'s \<Rightarrow> agent_message list"
    and ok :: "'s \<Rightarrow> bool"
    and step :: "history_op \<Rightarrow> 's \<Rightarrow> (llm_message list option \<times> 's) option"
  assumes step_refines: "ok s \<Longrightarrow> map_option (map_prod id view) (step p s) = list_op p (view s)"
    and step_ok: "ok s \<Longrightarrow> step p s = Some (out, s') \<Longrightarrow> ok s'"
begin

lemma run_refines:
  "ok s \<Longrightarrow> map_option (map_prod id view) (run_ops step ps s) = run_ops list_op ps (view s)"
proof (induction ps arbitrary: s)
  case (Cons p ps)
  show ?case
  proof (cases "step p s")
    case None
    with step_refines[OF Cons.prems, of p] show ?thesis by simp
  next
    case (Some r)
    obtain out s' where r: "r = (out, s')" by (cases r)
    have "list_op p (view s) = Some (out, view s')"
      using step_refines[OF Cons.prems, of p] Some r by simp
    moreover have "ok s'" using step_ok[OF Cons.prems, of p out s'] Some r by simp
    note Cons.IH[OF this, symmetric]
    ultimately show ?thesis using Some r by (cases "run_ops step ps s'") (auto split: option.splits)
  qed
qed simp

end

fun ctx_op :: "history_op \<Rightarrow> context_messages \<Rightarrow> (llm_message list option \<times> context_messages) option" where
  "ctx_op (HPush m) c = Some (None, ctx_push m c)"
| "ctx_op (HExtend ms) c = Some (None, ctx_extend ms c)"
| "ctx_op (HSet i m) c = map_option (Pair None) (ctx_set i m c)"
| "ctx_op (HMutate f) c = Some (None, ctx_make_mut f c)"
| "ctx_op HTake c = Some (None, snd (ctx_take_vec c))"
| "ctx_op HSnapshot c = (case ctx_snapshot_llm c of (ms, c') \<Rightarrow> Some (Some ms, c'))"

lemma map_filter_as_llm: "List.map_filter id (map as_llm ms) = llm_of ms"
  by (simp add: llm_of_def List.map_filter_def comp_def filter_map)

lemma ctx_inv_new [simp]: "ctx_inv (ctx_new ms)"
  by (simp add: ctx_inv_def ctx_new_def)

lemma ctx_inv_append: "ctx_inv c \<Longrightarrow> ctx_inv (c\<lparr>ctx_messages := ctx_messages c @ ms\<rparr>)"
  by (simp add: ctx_inv_def)

lemma ctx_snapshot_exact:
  assumes "ctx_inv c"
  shows "ctx_snapshot_llm c = (llm_of (ctx_messages c), c\<lparr>ctx_mirror := map as_llm (ctx_messages c)\<rparr>)"
proof -
  have "ctx_mirror c @ map as_llm (drop (length (ctx_mirror c)) (ctx_messages c)) = map as_llm (ctx_messages c)"
    using assms by (metis append_take_drop_id ctx_inv_def map_append)
  then show ?thesis by (simp add: ctx_snapshot_llm_def Let_def map_filter_as_llm)
qed

lemma ctx_set_inv: "ctx_inv c \<Longrightarrow> ctx_set i m c = Some c' \<Longrightarrow> ctx_inv c'"
proof -
  assume inv: "ctx_inv c" and set: "ctx_set i m c = Some c'"
  have k: "ctx_mirror c = map as_llm (take (length (ctx_mirror c)) (ctx_messages c))" and
    le: "length (ctx_mirror c) \<le> length (ctx_messages c)" using inv by (auto simp: ctx_inv_def)
  show "ctx_inv c'"
  proof (cases "i < length (ctx_mirror c)")
    case True
    have "take i (ctx_mirror c) = map as_llm (take i (ctx_messages c))"
      using k True by (metis take_map take_take min.absorb1 less_imp_le)
    with True le set show ?thesis by (auto simp: ctx_inv_def ctx_set_def split: if_splits)
  next
    case False
    with k le set show ?thesis by (auto simp: ctx_inv_def ctx_set_def split: if_splits)
  qed
qed

interpretation ctx: message_history ctx_messages ctx_inv ctx_op
proof unfold_locales
  fix c :: context_messages and p assume inv: "ctx_inv c"
  show "map_option (map_prod id ctx_messages) (ctx_op p c) = list_op p (ctx_messages c)"
    by (cases p) (auto simp: ctx_push_def ctx_extend_def ctx_set_def ctx_make_mut_def ctx_take_vec_def
        ctx_snapshot_exact[OF inv])
next
  fix c c' :: context_messages and p out assume inv: "ctx_inv c" and s: "ctx_op p c = Some (out, c')"
  show "ctx_inv c'"
  proof (cases p)
    case (HSet i m)
    with s inv show ?thesis by (auto intro: ctx_set_inv)
  next
    case HSnapshot
    with s inv show ?thesis by (auto simp: ctx_snapshot_exact[OF inv] ctx_inv_def)
  qed (use s inv in \<open>auto simp: ctx_push_def ctx_extend_def ctx_make_mut_def ctx_take_vec_def ctx_inv_append
        ctx_inv_def[of "\<lparr>ctx_messages = _, ctx_mirror = []\<rparr>"]\<close>)
qed

text \<open>
  The mirrored history is a plain list to its users: for every sequence of pushes,
  replacements, bulk mutations, takes and snapshots, the run panics exactly when the same run on
  a plain list does, ends with the same messages, and every snapshot taken on the way is exactly
  the LLM payloads of the messages at that moment, however much of the mirror was reused.
\<close>

theorem context_history_refines:
  "map_option (map_prod id ctx_messages) (run_ops ctx_op ops (ctx_new ms)) = run_ops list_op ops ms"
  using ctx.run_refines[OF ctx_inv_new, of ops ms] by (simp add: ctx_new_def)

section \<open>The provider cache\<close>

record cache_config =
  cc_ttl :: duration
  cc_min_tokens :: usize
  cc_cache_intervals :: usize

record cache_state =
  cs_turns_since_write :: usize
  cs_cached_prefix_len :: usize

definition cache_new :: cache_state where
  "cache_new = \<lparr>cs_turns_since_write = 0, cs_cached_prefix_len = 0\<rparr>"

definition advance_turn :: "cache_config \<Rightarrow> cache_state \<Rightarrow> cache_hint \<times> cache_state" where
  "advance_turn config s =
     (if cs_turns_since_write s = 0 then (CacheWrite (cc_ttl config), s\<lparr>cs_turns_since_write := 1\<rparr>)
      else if cs_turns_since_write s \<ge> cc_cache_intervals config
           then (CacheWrite (cc_ttl config), s\<lparr>cs_turns_since_write := 1\<rparr>)
      else (CacheRead, s\<lparr>cs_turns_since_write := cs_turns_since_write s + 1\<rparr>))"

definition cache_reset :: "cache_state \<Rightarrow> cache_state" where
  "cache_reset s = s\<lparr>cs_turns_since_write := 0, cs_cached_prefix_len := 0\<rparr>"

fun cache_hints :: "cache_config \<Rightarrow> nat \<Rightarrow> cache_state \<Rightarrow> cache_hint list" where
  "cache_hints config 0 s = []"
| "cache_hints config (Suc n) s = (case advance_turn config s of (h, s') \<Rightarrow> h # cache_hints config n s')"

lemma cache_hints_length [simp]: "length (cache_hints config n s) = n"
  by (induction n arbitrary: s) (auto split: prod.splits)

lemma advance_turn_cycle:
  assumes "1 \<le> cs_turns_since_write s" "cs_turns_since_write s \<le> max 1 (cc_cache_intervals config)"
  shows "advance_turn config s =
    (if cs_turns_since_write s = max 1 (cc_cache_intervals config)
     then (CacheWrite (cc_ttl config), s\<lparr>cs_turns_since_write := 1\<rparr>)
     else (CacheRead, s\<lparr>cs_turns_since_write := cs_turns_since_write s + 1\<rparr>))"
  using assms by (auto simp: advance_turn_def max_def split: if_splits)

lemma cache_hints_nth:
  assumes "1 \<le> cs_turns_since_write s" "cs_turns_since_write s \<le> max 1 (cc_cache_intervals config)" "k < n"
  shows "cache_hints config n s ! k =
    (if (k + cs_turns_since_write s) mod max 1 (cc_cache_intervals config) = 0 then CacheWrite (cc_ttl config) else CacheRead)"
  using assms
proof (induction n arbitrary: s k)
  case (Suc n)
  let ?p = "max 1 (cc_cache_intervals config)"
  let ?t = "cs_turns_since_write s"
  note adv = advance_turn_cycle[OF Suc.prems(1,2)]
  show ?case
  proof (cases "?t = ?p")
    case True
    then have "(Suc j + ?t) mod ?p = Suc j mod ?p" for j by (metis mod_add_self2)
    with True Suc adv show ?thesis by (cases k) (simp_all add: Suc.IH)
  next
    case False
    with Suc.prems(2) have "?t < ?p" by simp
    then have "?t mod ?p = ?t" by simp
    with False \<open>?t < ?p\<close> Suc adv show ?thesis by (cases k) (simp_all add: Suc.IH)
  qed
qed simp

text \<open>
  The cache refresh cycle: from a fresh or reset cache state the hints of successive turns
  are periodic, one \<open>Write\<close> with the configured time to live followed by \<open>Read\<close>s
  until \<open>cache_intervals\<close> turns have passed since that write, so that a cycle has
  \<open>cache_intervals - 1\<close> reads (and no read at all for intervals zero and one).
\<close>

theorem cache_refresh_cycle:
  assumes "k < n"
  shows "cache_hints config n (cache_reset s) ! k =
    (if k mod max 1 (cc_cache_intervals config) = 0 then CacheWrite (cc_ttl config) else CacheRead)"
proof (cases n)
  case (Suc m)
  let ?s = "(cache_reset s)\<lparr>cs_turns_since_write := 1\<rparr>"
  have "cache_hints config n (cache_reset s) = CacheWrite (cc_ttl config) # cache_hints config m ?s"
    by (simp add: Suc advance_turn_def cache_reset_def)
  then show ?thesis using assms Suc cache_hints_nth[of ?s config "k - 1" m] by (cases k) simp_all
qed (use assms in simp)

theorem cache_refresh_cycle_witness:
  "cache_hints \<lparr>cc_ttl = 300, cc_min_tokens = 0, cc_cache_intervals = 3\<rparr> 5 (cache_reset cache_new) ! 3 = CacheWrite 300
   \<and> cache_hints \<lparr>cc_ttl = 300, cc_min_tokens = 0, cc_cache_intervals = 3\<rparr> 5 (cache_reset cache_new) ! 2 = CacheRead"
  using cache_refresh_cycle [of 3 5 "\<lparr>cc_ttl = 300, cc_min_tokens = 0, cc_cache_intervals = 3\<rparr>" cache_new]
    cache_refresh_cycle [of 2 5 "\<lparr>cc_ttl = 300, cc_min_tokens = 0, cc_cache_intervals = 3\<rparr>" cache_new]
  by simp

end
