(* ===== verification/Agent_Transfer.thy ===== *)
theory Agent_Transfer
  imports Agent_Types
begin

text \<open>
  Agent hand-off: tool results (\<^verbatim>\<open>AgentToolResult\<close> of \<^verbatim>\<open>tool.rs\<close>), the transfer
  signal, the transfer chain that keeps hand-offs finite, and the transfer tool
  (\<^verbatim>\<open>transfer.rs\<close>).

  Parsing the tool's parameters is the job of \<^verbatim>\<open>serde_json::from_value\<close>, a parameter
  here; the agent registry is the set of registered names.
\<close>

section \<open>Debug formatting\<close>

text \<open>Rust's \<^verbatim>\<open>{:?}\<close> of a string, byte by byte; bytes above 127 are copied.\<close>

fun show_hex :: "nat \<Rightarrow> string" where
  "show_hex n =
     (let d = (\<lambda>k. char_of (if k < 10 then 48 + k else 87 + k))
      in if n < 16 then [d n] else show_hex (n div 16) @ [d (n mod 16)])"

declare show_hex.simps [simp del]

definition debug_char :: "char \<Rightarrow> string" where
  "debug_char c =
     (let n = of_char c :: nat in
      if c = CHR 0x22 then [CHR 0x5C, CHR 0x22]
      else if c = CHR 0x5C then [CHR 0x5C, CHR 0x5C]
      else if n = 0 then [CHR 0x5C, CHR ''0'']
      else if n = 9 then [CHR 0x5C, CHR ''t'']
      else if n = 10 then [CHR 0x5C, CHR ''n'']
      else if n = 13 then [CHR 0x5C, CHR ''r'']
      else if n < 32 \<or> n = 127 then [CHR 0x5C] @ ''u{'' @ show_hex n @ ''}''
      else [c])"

definition debug_str :: "string \<Rightarrow> string" where
  "debug_str s = [CHR 0x22] @ concat (map debug_char s) @ [CHR 0x22]"

fun join_with :: "string \<Rightarrow> string list \<Rightarrow> string" where
  "join_with sep [] = []"
| "join_with sep [s] = s"
| "join_with sep (s # ss) = s @ sep @ join_with sep ss"

definition debug_list :: "string list \<Rightarrow> string" where
  "debug_list ss = ''['' @ join_with '', '' (map debug_str ss) @ '']''"

section \<open>Transfer chains\<close>

record transfer_chain =
  chain_names :: "string list"
  chain_max_depth :: usize

datatype transfer_error =
    CircularTransfer string "string list"
  | MaxDepthExceeded usize usize

fun transfer_error_to_string :: "transfer_error \<Rightarrow> string" where
  "transfer_error_to_string (CircularTransfer agent_name chain) =
     ''circular transfer detected: agent '' @ [CHR 0x27] @ agent_name @ [CHR 0x27] @ '' already in chain '' @ debug_list chain"
| "transfer_error_to_string (MaxDepthExceeded depth mx) =
     ''max transfer depth exceeded: depth '' @ show_nat depth @ '' >= max '' @ show_nat mx"

definition chain_new :: "usize \<Rightarrow> transfer_chain" where
  "chain_new max_depth = \<lparr>chain_names = [], chain_max_depth = max_depth\<rparr>"

definition chain_default :: transfer_chain where
  "chain_default = chain_new 5"

definition chain_push :: "string \<Rightarrow> transfer_chain \<Rightarrow> (transfer_error, transfer_chain) result" where
  "chain_push name c =
     (if name \<in> set (chain_names c) then Inl (CircularTransfer name (chain_names c))
      else if length (chain_names c) \<ge> chain_max_depth c
           then Inl (MaxDepthExceeded (length (chain_names c)) (chain_max_depth c))
      else Inr (c\<lparr>chain_names := chain_names c @ [name]\<rparr>))"

definition chain_depth :: "transfer_chain \<Rightarrow> usize" where
  "chain_depth c = length (chain_names c)"

definition chain_contains :: "transfer_chain \<Rightarrow> string \<Rightarrow> bool" where
  "chain_contains c name = list_ex (\<lambda>n. n = name) (chain_names c)"

section \<open>Transfer signals and tool results\<close>

record transfer_signal =
  sig_target_agent :: string
  sig_reason :: string
  sig_context_summary :: "string option"
  sig_conversation_history :: "llm_message list"
  sig_transfer_chain :: "transfer_chain option"

definition signal_new :: "string \<Rightarrow> string \<Rightarrow> transfer_signal" where
  "signal_new target reason =
     \<lparr>sig_target_agent = target, sig_reason = reason, sig_context_summary = None,
      sig_conversation_history = [], sig_transfer_chain = None\<rparr>"

record agent_tool_result =
  atr_content :: "content_block list"
  atr_details :: json
  atr_is_error :: bool
  atr_transfer_signal :: "transfer_signal option"

definition result_new :: "content_block list \<Rightarrow> bool \<Rightarrow> agent_tool_result" where
  "result_new content is_error =
     \<lparr>atr_content = content, atr_details = JNull, atr_is_error = is_error, atr_transfer_signal = None\<rparr>"

definition result_text :: "string \<Rightarrow> agent_tool_result" where
  "result_text text =
     \<lparr>atr_content = [Text text], atr_details = JNull, atr_is_error = False, atr_transfer_signal = None\<rparr>"

definition result_error :: "string \<Rightarrow> agent_tool_result" where
  "result_error message =
     \<lparr>atr_content = [Text message], atr_details = JNull, atr_is_error = True, atr_transfer_signal = None\<rparr>"

definition result_transfer :: "transfer_signal \<Rightarrow> agent_tool_result" where
  "result_transfer signal =
     \<lparr>atr_content = [Text (''Transfer to '' @ sig_target_agent signal @ '' initiated.'')], atr_details = JNull,
      atr_is_error = False, atr_transfer_signal = Some signal\<rparr>"

definition is_transfer :: "agent_tool_result \<Rightarrow> bool" where
  "is_transfer r = (atr_transfer_signal r \<noteq> None)"

section \<open>The transfer tool\<close>

record transfer_params =
  tp_agent_name :: string
  tp_reason :: string
  tp_context_summary :: "string option"

record transfer_tool =
  tt_registry :: "string list"
  tt_allowed_targets :: "string list option"

fun str_less_eq :: "string \<Rightarrow> string \<Rightarrow> bool" where
  "str_less_eq [] _ = True"
| "str_less_eq (_ # _) [] = False"
| "str_less_eq (a # as) (b # bs) =
     (if a = b then str_less_eq as bs else (of_char a :: nat) < of_char b)"

fun str_insert :: "string \<Rightarrow> string list \<Rightarrow> string list" where
  "str_insert s [] = [s]"
| "str_insert s (t # ts) = (if str_less_eq s t then s # t # ts else t # str_insert s ts)"

definition str_sort :: "string list \<Rightarrow> string list" where
  "str_sort ss = foldr str_insert ss []"

definition transfer_execute ::
  "(json \<Rightarrow> (string, transfer_params) result) \<Rightarrow> transfer_tool \<Rightarrow> json \<Rightarrow> bool \<Rightarrow> agent_tool_result" where
  "transfer_execute from_value tool params cancelled =
     (case from_value params of
        Inl e \<Rightarrow> result_error (''invalid parameters: '' @ e)
      | Inr parsed \<Rightarrow>
         if cancelled then result_error ''cancelled''
         else if (case tt_allowed_targets tool of Some allowed \<Rightarrow> tp_agent_name parsed \<notin> set allowed | None \<Rightarrow> False)
           then result_error (''transfer to '' @ [CHR 0x27] @ tp_agent_name parsed @ [CHR 0x27]
                  @ '' not allowed. Allowed targets: '' @ debug_list (str_sort (the (tt_allowed_targets tool))))
         else if tp_agent_name parsed \<notin> set (tt_registry tool)
           then result_error (''agent '' @ [CHR 0x27] @ tp_agent_name parsed @ [CHR 0x27] @ '' not found in registry'')
         else result_transfer ((signal_new (tp_agent_name parsed) (tp_reason parsed))
                \<lparr>sig_context_summary := tp_context_summary parsed\<rparr>))"

section \<open>Hand-offs are finite and acyclic\<close>

definition chain_ok :: "transfer_chain \<Rightarrow> bool" where
  "chain_ok c = (distinct (chain_names c) \<and> length (chain_names c) \<le> chain_max_depth c)"

lemma chain_push_Inr:
  "chain_push n c = Inr c' \<longleftrightarrow> n \<notin> set (chain_names c) \<and> length (chain_names c) < chain_max_depth c
     \<and> c' = c\<lparr>chain_names := chain_names c @ [n]\<rparr>"
  by (auto simp: chain_push_def)

lemma chain_push_ok: "chain_ok c \<Longrightarrow> chain_push n c = Inr c' \<Longrightarrow> chain_ok c'"
  by (auto simp: chain_push_Inr chain_ok_def)

lemma chain_ok_new [simp]: "chain_ok (chain_new d)"
  by (simp add: chain_ok_def chain_new_def)

text \<open>A conversation handed from agent to agent: each hop pushes its name, or is refused.\<close>

fun handoffs :: "string list \<Rightarrow> transfer_chain \<Rightarrow> string list \<times> transfer_chain" where
  "handoffs [] c = ([], c)"
| "handoffs (n # ns) c =
     (case chain_push n c of
        Inl _ \<Rightarrow> handoffs ns c
      | Inr c' \<Rightarrow> (case handoffs ns c' of (acc, c'') \<Rightarrow> (n # acc, c'')))"

lemma handoffs_chain:
  "chain_ok c \<Longrightarrow> handoffs ns c = (hops, c') \<Longrightarrow>
     chain_ok c' \<and> chain_names c' = chain_names c @ hops \<and> chain_max_depth c' = chain_max_depth c
     \<and> set ns \<subseteq> set (chain_names c') \<or> chain_ok c' \<and> chain_names c' = chain_names c @ hops
     \<and> chain_max_depth c' = chain_max_depth c \<and> length (chain_names c') = chain_max_depth c"
proof (induction ns arbitrary: c hops)
  case (Cons n ns)
  show ?case
  proof (cases "chain_push n c")
    case (Inl e)
    with Cons show ?thesis
      by (auto simp: chain_push_def chain_ok_def split: if_splits) (fastforce simp: chain_ok_def)+
  next
    case (Inr c1)
    with Cons.prems obtain hops1 where h: "handoffs ns c1 = (hops1, c')" "hops = n # hops1"
      by (auto split: prod.splits)
    have "chain_ok c1" using chain_push_ok[OF Cons.prems(1) Inr] .
    from Cons.IH[OF this h(1)] Inr h(2) show ?thesis by (auto simp: chain_push_Inr)
  qed
qed simp

text \<open>
  Hand-offs are acyclic and bounded: from a new chain, whatever agents request a hand-off
  and in whatever order, no agent is entered twice, at most \<open>max_depth\<close> hops are accepted, the
  chain lists exactly the accepted hops in order, and a request is refused only because its
  agent is already in the chain or the depth limit is reached.
\<close>

theorem handoffs_acyclic_bounded:
  assumes "handoffs requests (chain_new d) = (hops, c)"
  shows "chain_names c = hops \<and> distinct hops \<and> length hops \<le> d
    \<and> (length hops < d \<longrightarrow> set requests \<subseteq> set hops)
    \<and> (\<forall>n. (\<exists>e. chain_push n c = Inl e) \<longleftrightarrow> n \<in> set hops \<or> length hops = d)"
proof -
  have "chain_names (chain_new d) = []" "chain_max_depth (chain_new d) = d" by (simp_all add: chain_new_def)
  with handoffs_chain[OF chain_ok_new assms]
  have c: "chain_ok c" "chain_names c = hops" "chain_max_depth c = d"
    and req: "set requests \<subseteq> set hops \<or> length hops = d" by auto
  have "(\<exists>e. chain_push n c = Inl e) \<longleftrightarrow> n \<in> set hops \<or> length hops = d" for n
    using c by (auto simp: chain_push_def chain_ok_def)
  with c req show ?thesis by (auto simp: chain_ok_def)
qed

theorem handoffs_acyclic_bounded_witness:
  "\<exists>hops c. handoffs [''a'', ''b'', ''a'', ''c''] (chain_new 2) = (hops, c) \<and> distinct hops \<and> length hops \<le> 2"
proof -
  obtain hops c where h: "handoffs [''a'', ''b'', ''a'', ''c''] (chain_new 2) = (hops, c)" by force
  from handoffs_acyclic_bounded [OF h] h show ?thesis by blast
qed

text \<open>
  The transfer tool only signals a hand-off to a registered and permitted agent: its result
  carries a signal exactly when the parameters parse, the call is not cancelled, the target is in
  the allowed set (if there is one) and in the registry; the signal then names that target, with
  no history and no chain yet; in every other case the result is an error.
\<close>

theorem transfer_tool_guards:
  "case atr_transfer_signal (transfer_execute from_value tool params cancelled) of
     Some signal \<Rightarrow> \<exists>p. from_value params = Inr p \<and> \<not> cancelled \<and> tp_agent_name p \<in> set (tt_registry tool)
        \<and> (\<forall>allowed. tt_allowed_targets tool = Some allowed \<longrightarrow> tp_agent_name p \<in> set allowed)
        \<and> signal = (signal_new (tp_agent_name p) (tp_reason p))\<lparr>sig_context_summary := tp_context_summary p\<rparr>
        \<and> \<not> atr_is_error (transfer_execute from_value tool params cancelled)
   | None \<Rightarrow> atr_is_error (transfer_execute from_value tool params cancelled)
        \<and> (\<forall>p. from_value params = Inr p \<and> \<not> cancelled \<and> tp_agent_name p \<in> set (tt_registry tool) \<longrightarrow>
             (\<exists>allowed. tt_allowed_targets tool = Some allowed \<and> tp_agent_name p \<notin> set allowed))"
  by (auto simp: transfer_execute_def result_error_def result_transfer_def
      split: sum.splits option.splits if_splits)

theorem transfer_tool_guards_witness:
  "is_transfer (transfer_execute (\<lambda>_. Inr \<lparr>tp_agent_name = ''b'', tp_reason = [], tp_context_summary = None\<rparr>)
      \<lparr>tt_registry = [''b''], tt_allowed_targets = None\<rparr> JNull False)"
proof -
  let ?r = "transfer_execute (\<lambda>_. Inr \<lparr>tp_agent_name = ''b'', tp_reason = [], tp_context_summary = None\<rparr>)
      \<lparr>tt_registry = [''b''], tt_allowed_targets = None\<rparr> JNull False"
  from transfer_tool_guards [of "\<lambda>_. Inr \<lparr>tp_agent_name = ''b'', tp_reason = [], tp_context_summary = None\<rparr>"
      "\<lparr>tt_registry = [''b''], tt_allowed_targets = None\<rparr>" JNull False]
  show ?thesis by (auto simp: is_transfer_def split: option.splits)
qed

end
