(* ===== verification/Session_State.thy ===== *)
theory Session_State
  imports Prelude
begin

text \<open>
  The session key-value store of \<^verbatim>\<open>src/src/state.rs\<close>: \<open>session_state\<close> holds the
  materialised data and the delta of changes since the last flush. The abstract view of a
  store is its lookup function; a delta acts on such a view by \<open>apply_changes\<close>. The main
  result is that the flushed deltas, replayed in order, rebuild the data.
\<close>

section \<open>State and operations\<close>

record state_delta =
  sd_changes :: "(string, json option) hashmap"

definition delta_new :: state_delta where
  "delta_new = \<lparr>sd_changes = []\<rparr>"

definition delta_with_change :: "state_delta \<Rightarrow> string \<Rightarrow> json option \<Rightarrow> state_delta" where
  "delta_with_change d key v = d\<lparr>sd_changes := hm_insert key v (sd_changes d)\<rparr>"

definition delta_is_empty :: "state_delta \<Rightarrow> bool" where
  "delta_is_empty d = (sd_changes d = [])"

definition delta_len :: "state_delta \<Rightarrow> usize" where
  "delta_len d = length (sd_changes d)"

record session_state =
  ss_data :: "(string, json) hashmap"
  ss_delta :: state_delta

definition session_new :: session_state where
  "session_new = \<lparr>ss_data = [], ss_delta = delta_new\<rparr>"

definition session_with_data :: "(string, json) hashmap \<Rightarrow> session_state" where
  "session_with_data d = \<lparr>ss_data = d, ss_delta = delta_new\<rparr>"

definition session_get_raw :: "session_state \<Rightarrow> string \<Rightarrow> json option" where
  "session_get_raw s key = hm_get (ss_data s) key"

definition session_contains :: "session_state \<Rightarrow> string \<Rightarrow> bool" where
  "session_contains s key = (hm_get (ss_data s) key \<noteq> None)"

definition session_apply_baseline :: "session_state \<Rightarrow> session_state \<Rightarrow> session_state" where
  "session_apply_baseline s baseline =
     s\<lparr>ss_data := fold (\<lambda>(key, v) d. if hm_get d key = None then hm_insert key v d else d)
                  (ss_data baseline) (ss_data s)\<rparr>"

text \<open>\<^verbatim>\<open>set\<close> receives the outcome of \<^verbatim>\<open>serde_json::to_value\<close>.\<close>

definition session_set :: "session_state \<Rightarrow> string \<Rightarrow> ('e, json) result \<Rightarrow> ('e, session_state) result" where
  "session_set s key value =
     (case value of
        Inl e \<Rightarrow> Inl e
      | Inr val \<Rightarrow> Inr (s\<lparr>ss_data := hm_insert key val (ss_data s),
                        ss_delta := delta_with_change (ss_delta s) key (Some val)\<rparr>))"

definition session_remove :: "session_state \<Rightarrow> string \<Rightarrow> session_state" where
  "session_remove s key =
     (if hm_get (ss_data s) key \<noteq> None
      then s\<lparr>ss_data := hm_remove key (ss_data s), ss_delta := delta_with_change (ss_delta s) key None\<rparr>
      else s)"

definition session_clear :: "session_state \<Rightarrow> session_state" where
  "session_clear s =
     s\<lparr>ss_data := [],
       ss_delta := fold (\<lambda>(key, _) d. delta_with_change d key None) (ss_data s) (ss_delta s)\<rparr>"

definition session_flush_delta :: "session_state \<Rightarrow> session_state \<times> state_delta" where
  "session_flush_delta s = (s\<lparr>ss_delta := delta_new\<rparr>, ss_delta s)"

definition session_snapshot :: "session_state \<Rightarrow> json" where
  "session_snapshot s = JObject (ss_data s)"

definition session_restore :: "json \<Rightarrow> (string, session_state) result" where
  "session_restore snapshot =
     (case snapshot of
        JObject kvs \<Rightarrow> Inr (session_with_data (fold (\<lambda>(k, v). hm_insert k v) kvs []))
      | _ \<Rightarrow> Inl ''invalid type: expected a map'')"

section \<open>Representation invariant\<close>

definition session_ok :: "session_state \<Rightarrow> bool" where
  "session_ok s = (hm_ok (ss_data s) \<and> hm_ok (sd_changes (ss_delta s)))"

lemma delta_changes_simps [simp]:
  "sd_changes delta_new = []"
  "sd_changes (delta_with_change d k v) = hm_insert k v (sd_changes d)"
  by (simp_all add: delta_new_def delta_with_change_def)

lemma delta_fold_changes:
  "sd_changes (fold (\<lambda>(key, _) d. delta_with_change d key None) kvs d) =
     fold (\<lambda>k. hm_insert k None) (map fst kvs) (sd_changes d)"
  by (induction kvs arbitrary: d) auto

lemma baseline_get:
  assumes "distinct (map fst kvs)"
  shows "hm_get (fold (\<lambda>(key, v) d. if hm_get d key = None then hm_insert key v d else d) kvs d) k =
     (case hm_get d k of Some v \<Rightarrow> Some v | None \<Rightarrow> hm_get kvs k)"
  using assms
proof (induction kvs arbitrary: d)
  case (Cons kv kvs)
  obtain k' v' where kv: "kv = (k', v')" by force
  with Cons.prems have "hm_get kvs k' = None" by (simp add: map_of_eq_None_iff)
  with Cons kv show ?case by (auto simp: update_conv' split: option.splits)
qed (simp split: option.splits)

lemma baseline_ok:
  "hm_ok d \<Longrightarrow> hm_ok (fold (\<lambda>(key, v) d. if hm_get d key = None then hm_insert key v d else d) kvs d)"
  by (induction kvs arbitrary: d) (auto simp: hm.ok_ins)

lemma session_ok_new: "session_ok session_new"
  by (simp add: session_ok_def session_new_def hm_ok_def)

lemma session_ok_with_data: "hm_ok d \<Longrightarrow> session_ok (session_with_data d)"
  by (simp add: session_ok_def session_with_data_def hm_ok_def)

lemma session_ok_set: "session_ok s \<Longrightarrow> session_set s k v = Inr s' \<Longrightarrow> session_ok s'"
  by (auto simp: session_ok_def session_set_def intro: hm.ok_ins split: sum.splits)

lemma session_ok_remove: "session_ok s \<Longrightarrow> session_ok (session_remove s k)"
  by (auto simp: session_ok_def session_remove_def intro: hm.ok_ins hm.ok_rem)

lemma session_ok_clear: "session_ok s \<Longrightarrow> session_ok (session_clear s)"
  by (auto simp: session_ok_def session_clear_def delta_fold_changes hm.ok_empty intro: hm.ok_fold_ins)

lemma session_ok_flush: "session_ok s \<Longrightarrow> session_ok (fst (session_flush_delta s))"
  by (simp add: session_ok_def session_flush_delta_def hm_ok_def)

lemma session_ok_baseline: "session_ok s \<Longrightarrow> session_ok (session_apply_baseline s b)"
  by (simp add: session_ok_def session_apply_baseline_def baseline_ok)

section \<open>Deltas replay\<close>

text \<open>The abstract view of a store, and the effect of a delta on it.\<close>

definition apply_changes :: "(string \<rightharpoonup> json) \<Rightarrow> state_delta \<Rightarrow> (string \<rightharpoonup> json)" where
  "apply_changes m d = (\<lambda>k. case hm_get (sd_changes d) k of None \<Rightarrow> m k | Some v \<Rightarrow> v)"

definition tracks :: "(string \<rightharpoonup> json) \<Rightarrow> session_state \<Rightarrow> bool" where
  "tracks base s \<longleftrightarrow> hm_get (ss_data s) = apply_changes base (ss_delta s)"

lemma apply_changes_new [simp]: "apply_changes m delta_new = m"
  by (simp add: apply_changes_def)

lemma apply_changes_empty: "delta_is_empty d \<Longrightarrow> apply_changes m d = m"
  by (simp add: apply_changes_def delta_is_empty_def)

lemma tracks_refl: "ss_delta s = delta_new \<Longrightarrow> tracks (hm_get (ss_data s)) s"
  by (simp add: tracks_def)

lemma tracks_set: "tracks base s \<Longrightarrow> session_set s k v = Inr s' \<Longrightarrow> tracks base s'"
  by (auto simp: tracks_def session_set_def apply_changes_def fun_eq_iff update_conv' split: sum.splits)

lemma tracks_remove: "tracks base s \<Longrightarrow> tracks base (session_remove s k)"
  by (auto simp: tracks_def session_remove_def apply_changes_def fun_eq_iff update_conv' delete_conv')

lemma tracks_clear:
  assumes "tracks base s"
  shows "tracks base (session_clear s)"
proof -
  have "hm_get (sd_changes (ss_delta (session_clear s))) k =
      (if hm_get (ss_data s) k \<noteq> None then Some None else hm_get (sd_changes (ss_delta s)) k)" for k
    by (simp add: session_clear_def delta_fold_changes hm.get_fold_ins map_of_eq_None_iff)
  moreover have "hm_get (ss_data s) k = apply_changes base (ss_delta s) k" for k
    using assms by (simp add: tracks_def)
  ultimately show ?thesis
    by (auto simp: tracks_def apply_changes_def fun_eq_iff session_clear_def split: option.splits if_splits)
qed

text \<open>The writes a tool can do between two flushes.\<close>

datatype session_op = OpSet string json | OpRemove string | OpClear

fun session_step :: "session_op \<Rightarrow> session_state \<Rightarrow> session_state" where
  "session_step (OpSet k v) s = (case session_set s k (Inr v :: (unit, json) result) of Inl _ \<Rightarrow> s | Inr s' \<Rightarrow> s')"
| "session_step (OpRemove k) s = session_remove s k"
| "session_step OpClear s = session_clear s"

lemma session_set_Inr: "session_set s k (Inr v) = Inr (s\<lparr>ss_data := hm_insert k v (ss_data s),
    ss_delta := delta_with_change (ss_delta s) k (Some v)\<rparr>)"
  by (simp add: session_set_def)

lemma tracks_step: "tracks base s \<Longrightarrow> tracks base (session_step op s)"
  by (cases op) (auto intro: tracks_set tracks_remove tracks_clear simp: session_set_Inr
      intro!: tracks_set[of base s, OF _ session_set_Inr])

lemma session_ok_step: "session_ok s \<Longrightarrow> session_ok (session_step op s)"
  by (cases op) (auto intro: session_ok_remove session_ok_clear simp: session_set_Inr
      intro!: session_ok_set[OF _ session_set_Inr])

lemma tracks_steps: "tracks base s \<Longrightarrow> tracks base (fold session_step ops s)"
  by (induction ops arbitrary: s) (auto intro: tracks_step)

text \<open>A turn: its writes, then the flush at its end. A run is a list of turns.\<close>

fun session_turns :: "session_op list list \<Rightarrow> session_state \<Rightarrow> session_state \<times> state_delta list" where
  "session_turns [] s = (s, [])"
| "session_turns (ops # turns) s =
     (let (s', d) = session_flush_delta (fold session_step ops s);
          (s'', ds) = session_turns turns s'
      in (s'', d # ds))"

lemma flush_tracks:
  assumes "tracks base s" and "session_flush_delta s = (s', d)"
  shows "hm_get (ss_data s') = apply_changes base d" and "ss_delta s' = delta_new"
  using assms by (auto simp: session_flush_delta_def tracks_def)

text \<open>
  Replaying the deltas flushed at the turn boundaries, in order, over the data the
  session started with gives exactly the data the session ends with, whatever sets, removals
  and clears the tools made in each turn; and the delta is empty again after each flush.
\<close>

theorem flushed_deltas_replay:
  assumes "ss_delta s = delta_new" and "session_turns turns s = (s', ds)"
  shows "hm_get (ss_data s') = foldl apply_changes (hm_get (ss_data s)) ds \<and> ss_delta s' = delta_new"
  using assms
proof (induction turns arbitrary: s ds)
  case Nil
  then show ?case by simp
next
  case (Cons ops turns)
  obtain s1 d where f: "session_flush_delta (fold session_step ops s) = (s1, d)" by force
  obtain ds' where ds: "session_turns turns s1 = (s', ds')" "ds = d # ds'"
    using Cons.prems f by (auto simp: Let_def split: prod.splits)
  have "tracks (hm_get (ss_data s)) (fold session_step ops s)"
    using Cons.prems by (intro tracks_steps tracks_refl)
  from flush_tracks[OF this f] Cons.IH[OF _ ds(1)] ds(2) show ?case by simp
qed

theorem flushed_deltas_replay_witness:
  "let (s', ds) = session_turns [[OpSet ''a'' JNull, OpSet ''b'' (JBool True)], [OpRemove ''a'']] session_new
   in hm_get (ss_data s') = foldl apply_changes (hm_get (ss_data session_new)) ds
      \<and> ss_delta s' = delta_new \<and> length ds = 2 \<and> hm_get (ss_data s') ''a'' = None"
proof -
  let ?turns = "[[OpSet ''a'' JNull, OpSet ''b'' (JBool True)], [OpRemove ''a'']]"
  obtain s' ds where r: "session_turns ?turns session_new = (s', ds)" by force
  have h: "ss_delta session_new = delta_new" by (simp add: session_new_def)
  have "length ds = 2 \<and> hm_get (ss_data s') ''a'' = None"
    using r by (auto simp: session_flush_delta_def session_set_def session_remove_def session_new_def)
  with flushed_deltas_replay [OF h r] r show ?thesis by simp
qed

text \<open>Snapshot and restore are inverse on the data; a restored store starts with an empty delta.\<close>

lemma restored_snapshot:
  assumes "session_ok s"
  shows "\<exists>s'. session_restore (session_snapshot s) = Inr s'
      \<and> (\<forall>k. session_get_raw s' k = session_get_raw s k) \<and> ss_delta s' = delta_new"
proof -
  have d: "distinct (map fst (ss_data s))" using assms by (simp add: session_ok_def hm_ok_def)
  then have "map_of (rev (ss_data s)) = map_of (ss_data s)"
    by (simp add: map_of_inject_set rev_map[symmetric])
  then show ?thesis
    by (simp add: session_restore_def session_snapshot_def session_with_data_def
        session_get_raw_def map_of_fold_update)
qed

text \<open>
  Baseline entries appear underneath the existing data and never in the delta.
\<close>

lemma apply_baseline_layers:
  assumes "session_ok b"
  shows "session_get_raw (session_apply_baseline s b) k =
     (case session_get_raw s k of Some v \<Rightarrow> Some v | None \<Rightarrow> session_get_raw b k)"
    and "ss_delta (session_apply_baseline s b) = ss_delta s"
  using assms
  by (auto simp: session_apply_baseline_def session_get_raw_def baseline_get session_ok_def hm_ok_def
      split: option.splits)

end
