(* ===== verification/Policy_Slots.thy ===== *)
theory Policy_Slots
  imports Session_State Agent_Types
begin

text \<open>
  The policy slots of \<^verbatim>\<open>policy.rs\<close>: verdicts, the contexts a policy sees, and the slot
  runners of the loop.

  A policy is a record of its name and its evaluation. Policies may keep state behind
  \<^verbatim>\<open>&self\<close>, so an evaluation also takes the moment it happens at (a tick of the loop); a
  panic, which the runner catches, is the value \<open>None\<close>. A pre-dispatch evaluation returns the
  arguments it left in the context beside its verdict.
\<close>

section \<open>Verdicts and contexts\<close>

type_synonym tick = nat

datatype policy_verdict =
    Continue
  | Stop string
  | Inject "agent_message list"

datatype pre_dispatch_verdict =
    PdContinue
  | PdStop string
  | PdInject "agent_message list"
  | PdSkip string

record policy_context =
  pc_turn_index :: usize
  pc_accumulated_usage :: usage
  pc_accumulated_cost :: cost
  pc_message_count :: usize
  pc_overflow_signal :: bool
  pc_new_messages :: "agent_message list"
  pc_state :: session_state

record tool_dispatch_context =
  tdc_tool_name :: string
  tdc_tool_call_id :: string
  tdc_arguments :: json
  tdc_execution_root :: "string option"
  tdc_state :: session_state

record turn_policy_context =
  tpc_assistant_message :: assistant_message
  tpc_tool_results :: "tool_result_message list"
  tpc_stop_reason :: stop_reason
  tpc_system_prompt :: string
  tpc_model_spec :: model_spec
  tpc_context_messages :: "agent_message list"

record 'c policy =
  pol_name :: string
  pol_evaluate :: "tick \<Rightarrow> 'c \<Rightarrow> policy_verdict option"

record pre_dispatch_policy =
  pd_name :: string
  pd_evaluate :: "tick \<Rightarrow> tool_dispatch_context \<Rightarrow> pre_dispatch_verdict option \<times> json"

type_synonym pre_turn_policy = "policy_context policy"
type_synonym post_turn_policy = "(policy_context \<times> turn_policy_context) policy"
type_synonym post_loop_policy = "policy_context policy"

section \<open>Slot runners\<close>

fun run_slot :: "'c policy list \<Rightarrow> tick \<Rightarrow> 'c \<Rightarrow> agent_message list \<Rightarrow> policy_verdict" where
  "run_slot [] now ctx injections = (if injections = [] then Continue else Inject injections)"
| "run_slot (p # ps) now ctx injections =
     (case pol_evaluate p now ctx of
        Some Continue \<Rightarrow> run_slot ps now ctx injections
      | Some (Stop reason) \<Rightarrow> Stop reason
      | Some (Inject msgs) \<Rightarrow> run_slot ps now ctx (injections @ msgs)
      | None \<Rightarrow> run_slot ps now ctx injections)"

definition run_policies :: "pre_turn_policy list \<Rightarrow> tick \<Rightarrow> policy_context \<Rightarrow> policy_verdict" where
  "run_policies policies now ctx = run_slot policies now ctx []"

definition run_post_turn_policies ::
  "post_turn_policy list \<Rightarrow> tick \<Rightarrow> policy_context \<Rightarrow> turn_policy_context \<Rightarrow> policy_verdict" where
  "run_post_turn_policies policies now ctx turn = run_slot policies now (ctx, turn) []"

definition run_post_loop_policies :: "post_loop_policy list \<Rightarrow> tick \<Rightarrow> policy_context \<Rightarrow> policy_verdict" where
  "run_post_loop_policies policies now ctx = run_slot policies now ctx []"

fun run_pre_dispatch :: "pre_dispatch_policy list \<Rightarrow> tick \<Rightarrow> tool_dispatch_context \<Rightarrow> agent_message list
    \<Rightarrow> pre_dispatch_verdict \<times> json" where
  "run_pre_dispatch [] now ctx injections =
     ((if injections = [] then PdContinue else PdInject injections), tdc_arguments ctx)"
| "run_pre_dispatch (p # ps) now ctx injections =
     (case pd_evaluate p now ctx of
        (Some PdContinue, args) \<Rightarrow> run_pre_dispatch ps now (ctx\<lparr>tdc_arguments := args\<rparr>) injections
      | (Some (PdStop reason), args) \<Rightarrow> (PdStop reason, args)
      | (Some (PdSkip error_text), args) \<Rightarrow> (PdSkip error_text, args)
      | (Some (PdInject msgs), args) \<Rightarrow> run_pre_dispatch ps now (ctx\<lparr>tdc_arguments := args\<rparr>) (injections @ msgs)
      | (None, args) \<Rightarrow> run_pre_dispatch ps now ctx injections)"

definition run_pre_dispatch_policies ::
  "pre_dispatch_policy list \<Rightarrow> tick \<Rightarrow> tool_dispatch_context \<Rightarrow> pre_dispatch_verdict \<times> json" where
  "run_pre_dispatch_policies policies now ctx = run_pre_dispatch policies now ctx []"

section \<open>The contract of a slot\<close>

text \<open>
  The reference reading of the verdicts of a slot: the first stop decides, otherwise the
  injected messages are concatenated.
\<close>

fun stop_reason_of :: "policy_verdict option \<Rightarrow> string option" where
  "stop_reason_of (Some (Stop r)) = Some r"
| "stop_reason_of _ = None"

fun injected_of :: "policy_verdict option \<Rightarrow> agent_message list" where
  "injected_of (Some (Inject ms)) = ms"
| "injected_of _ = []"

definition combine_verdicts :: "policy_verdict option list \<Rightarrow> policy_verdict" where
  "combine_verdicts vs =
     (case List.map_filter stop_reason_of vs of
        r # _ \<Rightarrow> Stop r
      | [] \<Rightarrow> (let ms = concat (map injected_of vs) in if ms = [] then Continue else Inject ms))"

lemma run_slot_acc:
  "run_slot ps now ctx injections =
     (case List.map_filter stop_reason_of (map (\<lambda>p. pol_evaluate p now ctx) ps) of
        r # _ \<Rightarrow> Stop r
      | [] \<Rightarrow> (let ms = injections @ concat (map injected_of (map (\<lambda>p. pol_evaluate p now ctx) ps))
               in if ms = [] then Continue else Inject ms))"
  by (induction ps arbitrary: injections)
     (auto simp: List.map_filter_simps Let_def split: option.splits policy_verdict.splits list.splits)

lemma run_slot_combine: "run_slot ps now ctx [] = combine_verdicts (map (\<lambda>p. pol_evaluate p now ctx) ps)"
  by (subst run_slot_acc) (simp add: combine_verdicts_def Let_def split: list.split)

text \<open>
  Slot verdicts: every slot runner stops with the reason of the first policy that stops,
  in configuration order; with no stop it injects the messages of all policies in that order, and
  continues when there are none. A policy that panics counts as one that continued.
\<close>

theorem slot_verdict:
  "run_policies pre now ctx = combine_verdicts (map (\<lambda>p. pol_evaluate p now ctx) pre)
   \<and> run_post_turn_policies post now ctx turn = combine_verdicts (map (\<lambda>p. pol_evaluate p now (ctx, turn)) post)
   \<and> run_post_loop_policies postl now ctx = combine_verdicts (map (\<lambda>p. pol_evaluate p now ctx) postl)"
  by (simp add: run_policies_def run_post_turn_policies_def run_post_loop_policies_def run_slot_combine)

lemma run_slot_stops:
  assumes "p \<in> set ps" "pol_evaluate p now ctx = Some (Stop r)"
  shows "\<exists>r'. run_slot ps now ctx injections = Stop r'"
  using assms by (induction ps arbitrary: injections) (auto split: option.splits policy_verdict.splits)

lemma run_slot_Inject_nonempty: "run_slot ps now ctx injections = Inject ms \<Longrightarrow> ms \<noteq> []"
  by (induction ps arbitrary: injections) (auto split: if_splits option.splits policy_verdict.splits)

fun pd_refuses :: "pre_dispatch_verdict option \<Rightarrow> bool" where
  "pd_refuses (Some (PdStop _)) = True"
| "pd_refuses (Some (PdSkip _)) = True"
| "pd_refuses _ = False"

text \<open>A policy whose refusal does not depend on the arguments is never overridden by the others.\<close>

lemma run_pre_dispatch_refuses:
  assumes "p \<in> set ps" "\<And>args. pd_refuses (fst (pd_evaluate p now (ctx\<lparr>tdc_arguments := args\<rparr>)))"
  shows "pd_refuses (Some (fst (run_pre_dispatch ps now (ctx\<lparr>tdc_arguments := args\<rparr>) injections)))"
  using assms
proof (induction ps arbitrary: args injections)
  case (Cons q qs)
  show ?case
  proof (cases "p = q")
    case True
    then show ?thesis using Cons.prems(2)[of args]
      by (auto split: prod.splits option.splits pre_dispatch_verdict.splits)
  next
    case False
    with Cons.prems have "p \<in> set qs" by simp
    with Cons.IH Cons.prems(2) show ?thesis
      by (auto split: prod.splits option.splits pre_dispatch_verdict.splits)
  qed
qed simp

text \<open>
  A policy that panics changes nothing: removing it from the pre-dispatch list leaves the
  verdict and the arguments the tool will run with exactly as they are, whatever the panicking
  policy had written into the arguments.
\<close>

theorem pre_dispatch_panic_rolls_back:
  assumes "\<And>args. fst (pd_evaluate p now (ctx\<lparr>tdc_arguments := args\<rparr>)) = None"
  shows "run_pre_dispatch_policies (ps @ p # qs) now ctx = run_pre_dispatch_policies (ps @ qs) now ctx"
proof -
  have "run_pre_dispatch (ps @ p # qs) now (ctx\<lparr>tdc_arguments := args\<rparr>) inj
      = run_pre_dispatch (ps @ qs) now (ctx\<lparr>tdc_arguments := args\<rparr>) inj" for args inj
  proof (induction ps arbitrary: args inj)
    case Nil
    then show ?case using assms[of args] by (auto split: prod.splits)
  qed (auto split: prod.splits option.splits pre_dispatch_verdict.splits)
  from this[of "tdc_arguments ctx" "[]"] show ?thesis by (simp add: run_pre_dispatch_policies_def)
qed

theorem pre_dispatch_panic_rolls_back_witness:
  "run_pre_dispatch_policies ([] @ \<lparr>pd_name = ''p'', pd_evaluate = \<lambda>_ _. (None, JBool True)\<rparr> # []) 0
     \<lparr>tdc_tool_name = ''t'', tdc_tool_call_id = ''1'', tdc_arguments = JNull, tdc_execution_root = None, tdc_state = session_new\<rparr>
   = (PdContinue, JNull)"
  by (subst pre_dispatch_panic_rolls_back) (simp_all add: run_pre_dispatch_policies_def)

end
