(* ===== verification/Compaction.thy ===== *)
theory Compaction
  imports Agent_Types
begin

text \<open>
  Context compaction of \<^verbatim>\<open>src/src/context.rs\<close> and the transformers of
  \<^verbatim>\<open>src/src/context_transformer.rs\<close>. The token counter is a parameter
  (\<^verbatim>\<open>TokenCounter\<close> is a trait); the default counter takes the length of a rendered JSON
  value from \<open>json_len\<close>, which stands for \<^verbatim>\<open>serde_json\<close>'s \<^verbatim>\<open>to_string\<close>.

  The results: the compacted history is the anchor prefix followed by a suffix of the old
  history, both cut at the boundary of a tool-call group, and the report counts exactly what
  was dropped.
\<close>

section \<open>Token counting\<close>

fun content_blocks :: "llm_message \<Rightarrow> content_block list" where
  "content_blocks (User m) = um_content m"
| "content_blocks (Assistant m) = am_content m"
| "content_blocks (ToolResult m) = tr_content m"

fun block_chars :: "(json \<Rightarrow> nat) \<Rightarrow> content_block \<Rightarrow> nat" where
  "block_chars json_len (Text t) = length t"
| "block_chars json_len (Thinking t _) = length t"
| "block_chars json_len (ToolCall _ _ arguments _) = json_len arguments"
| "block_chars json_len (Image _) = 0"
| "block_chars json_len (Extension _ d) = json_len d"

fun default_count_tokens :: "(json \<Rightarrow> nat) \<Rightarrow> agent_message \<Rightarrow> usize" where
  "default_count_tokens json_len (Llm llm) =
     sum_list (map (block_chars json_len) (content_blocks llm)) div 4"
| "default_count_tokens json_len (Custom _) = 100"

definition tokens_of :: "(agent_message \<Rightarrow> usize) \<Rightarrow> agent_message list \<Rightarrow> usize" where
  "tokens_of count ms = sum_list (map count ms)"

section \<open>Tool-call groups\<close>

definition is_tool_result :: "agent_message list \<Rightarrow> usize \<Rightarrow> bool" where
  "is_tool_result ms idx =
     (idx < length ms \<and> (case ms ! idx of Llm (ToolResult _) \<Rightarrow> True | _ \<Rightarrow> False))"

fun block_call_id :: "content_block \<Rightarrow> string option" where
  "block_call_id (ToolCall i _ _ _) = Some i"
| "block_call_id _ = None"

fun tool_call_ids :: "agent_message \<Rightarrow> string list option" where
  "tool_call_ids (Llm (Assistant a)) =
     (let ids = List.map_filter block_call_id (am_content a) in if ids \<noteq> [] then Some ids else None)"
| "tool_call_ids _ = None"

fun tool_result_id :: "agent_message \<Rightarrow> string option" where
  "tool_result_id (Llm (ToolResult r)) = Some (tr_tool_call_id r)"
| "tool_result_id _ = None"

text \<open>
  The two loops of \<^verbatim>\<open>extend_anchor_for_tool_results\<close>: walking back over the tool
  results to the message that requested them (\<open>None\<close>: reached index 0), then forward over
  the results that answer its calls.
\<close>

fun assistant_before :: "agent_message list \<Rightarrow> usize \<Rightarrow> usize option" where
  "assistant_before ms 0 = (if is_tool_result ms 0 then None else Some 0)"
| "assistant_before ms (Suc i) = (if is_tool_result ms (Suc i) then assistant_before ms i else Some (Suc i))"

function group_end :: "agent_message list \<Rightarrow> string list \<Rightarrow> usize \<Rightarrow> usize" where
  "group_end ms call_ids e =
     (if e < length ms
      then (case tool_result_id (ms ! e) of
              None \<Rightarrow> e
            | Some result_id \<Rightarrow> if result_id \<notin> set call_ids then e else group_end ms call_ids (Suc e))
      else e)"
  by pat_completeness auto
termination by (relation "measure (\<lambda>(ms, _, e). length ms - e)") auto

declare group_end.simps [simp del]

definition extend_anchor_for_tool_results :: "agent_message list \<Rightarrow> usize \<Rightarrow> usize" where
  "extend_anchor_for_tool_results ms anchor_end =
     (if anchor_end = 0 \<or> length ms \<le> anchor_end then anchor_end
      else case assistant_before ms (anchor_end - 1) of
             None \<Rightarrow> anchor_end
           | Some assistant_idx \<Rightarrow>
               (case tool_call_ids (ms ! assistant_idx) of
                  None \<Rightarrow> anchor_end
                | Some call_ids \<Rightarrow> max anchor_end (group_end ms call_ids (assistant_idx + 1))))"

section \<open>Sliding-window compaction\<close>

record compaction_report =
  cr_dropped_count :: usize
  cr_tokens_before :: usize
  cr_tokens_after :: usize
  cr_overflow :: bool
  cr_dropped_messages :: "llm_message list"

text \<open>
  \<open>tail_walk i tokens start\<close> is the loop \<^verbatim>\<open>for i in (effective_anchor..len).rev()\<close>,
  entered with \<open>i\<close> one above the next index to look at.
\<close>

fun tail_walk :: "(agent_message \<Rightarrow> usize) \<Rightarrow> agent_message list \<Rightarrow> usize \<Rightarrow> usize \<Rightarrow> usize \<Rightarrow> usize \<Rightarrow> usize \<Rightarrow> usize" where
  "tail_walk count ms anchor_len remaining 0 tail_tokens tail_start = tail_start"
| "tail_walk count ms anchor_len remaining (Suc i) tail_tokens tail_start =
     (if i < anchor_len then tail_start
      else let msg_tokens = count (ms ! i) in
        if tail_tokens + msg_tokens > remaining then tail_start
        else tail_walk count ms anchor_len remaining i (tail_tokens + msg_tokens) i)"

fun adjust_tail :: "agent_message list \<Rightarrow> usize \<Rightarrow> usize \<Rightarrow> usize" where
  "adjust_tail ms anchor_len 0 = 0"
| "adjust_tail ms anchor_len (Suc i) =
     (if anchor_len < Suc i \<and> Suc i < length ms \<and> is_tool_result ms (Suc i)
      then adjust_tail ms anchor_len i else Suc i)"

definition compact_sliding_window_with ::
  "(agent_message \<Rightarrow> usize) \<Rightarrow> agent_message list \<Rightarrow> usize \<Rightarrow> usize
     \<Rightarrow> agent_message list \<times> compaction_report option" where
  "compact_sliding_window_with count ms budget anchor =
     (let tokens_before = tokens_of count ms in
      if tokens_before \<le> budget then (ms, None)
      else
        let len = length ms;
            effective_anchor = extend_anchor_for_tool_results ms (min anchor len);
            anchor_tokens = tokens_of count (take effective_anchor ms);
            remaining_budget = budget - anchor_tokens;
            walked = tail_walk count ms effective_anchor remaining_budget len 0 len;
            tail_start = adjust_tail ms effective_anchor walked
        in if tail_start \<le> effective_anchor then (ms, None)
           else
             let dropped_count = tail_start - effective_anchor;
                 dropped_messages = llm_of (drop effective_anchor (take tail_start ms));
                 ms' = take effective_anchor ms @ drop tail_start ms
             in (ms', Some \<lparr>cr_dropped_count = dropped_count, cr_tokens_before = tokens_before,
                  cr_tokens_after = tokens_of count ms', cr_overflow = False,
                  cr_dropped_messages = dropped_messages\<rparr>))"

definition compact_sliding_window ::
  "(json \<Rightarrow> nat) \<Rightarrow> agent_message list \<Rightarrow> usize \<Rightarrow> usize \<Rightarrow> agent_message list \<times> compaction_report option" where
  "compact_sliding_window json_len ms budget anchor =
     compact_sliding_window_with (default_count_tokens json_len) ms budget anchor"

definition sliding_window ::
  "(json \<Rightarrow> nat) \<Rightarrow> usize \<Rightarrow> usize \<Rightarrow> usize \<Rightarrow> agent_message list \<Rightarrow> bool \<Rightarrow> agent_message list" where
  "sliding_window json_len normal_budget overflow_budget anchor ms overflow =
     (let budget = if overflow then overflow_budget else normal_budget
      in fst (compact_sliding_window json_len ms budget anchor))"

definition is_context_overflow ::
  "(agent_message \<Rightarrow> usize) \<Rightarrow> agent_message list \<Rightarrow> model_spec \<Rightarrow> bool" where
  "is_context_overflow count ms model =
     (case Option.bind (ms_capabilities model) mc_max_context_window of
        None \<Rightarrow> False
      | Some max_window \<Rightarrow> tokens_of count ms > unat max_window)"

section \<open>Transformers\<close>

text \<open>The blanket implementation for bare closures.\<close>

definition closure_transform ::
  "(agent_message list \<Rightarrow> bool \<Rightarrow> agent_message list) \<Rightarrow> agent_message list \<Rightarrow> bool
     \<Rightarrow> agent_message list \<times> compaction_report option" where
  "closure_transform f ms overflow =
     (let ms' = f ms overflow in
      if length ms' < length ms
      then (ms', Some \<lparr>cr_dropped_count = length ms - length ms', cr_tokens_before = 0,
             cr_tokens_after = 0, cr_overflow = overflow, cr_dropped_messages = []\<rparr>)
      else (ms', None))"

record sliding_window_transformer =
  sw_normal_budget :: usize
  sw_overflow_budget :: usize
  sw_anchor :: usize
  sw_token_counter :: "(agent_message \<Rightarrow> usize) option"
  sw_cached_prefix_len :: usize
  sw_published_prefix :: usize

definition sw_new :: "usize \<Rightarrow> usize \<Rightarrow> usize \<Rightarrow> sliding_window_transformer" where
  "sw_new normal_budget overflow_budget anchor =
     \<lparr>sw_normal_budget = normal_budget, sw_overflow_budget = overflow_budget, sw_anchor = anchor,
      sw_token_counter = None, sw_cached_prefix_len = 0, sw_published_prefix = 0\<rparr>"

definition publish_cached_prefix :: "sliding_window_transformer \<Rightarrow> usize \<Rightarrow> sliding_window_transformer" where
  "publish_cached_prefix sw len = sw\<lparr>sw_published_prefix := len\<rparr>"

definition effective_cached_prefix_len :: "sliding_window_transformer \<Rightarrow> usize" where
  "effective_cached_prefix_len sw =
     (let published = sw_published_prefix sw in
      if published > 0 then published else sw_cached_prefix_len sw)"

definition sw_transform ::
  "(json \<Rightarrow> nat) \<Rightarrow> sliding_window_transformer \<Rightarrow> agent_message list \<Rightarrow> bool
     \<Rightarrow> agent_message list \<times> compaction_report option" where
  "sw_transform json_len sw ms overflow =
     (let budget = if overflow then sw_overflow_budget sw else sw_normal_budget sw;
          cached_prefix = effective_cached_prefix_len sw;
          effective_anchor = max (sw_anchor sw) cached_prefix;
          counter = (case sw_token_counter sw of None \<Rightarrow> default_count_tokens json_len | Some c \<Rightarrow> c)
      in case compact_sliding_window_with counter ms budget effective_anchor of
           (ms', None) \<Rightarrow> (ms', None)
         | (ms', Some report) \<Rightarrow> (ms', Some (report\<lparr>cr_overflow := overflow\<rparr>)))"

section \<open>The cut points\<close>

lemma tokens_of_simps [simp]:
  "tokens_of count [] = 0"
  "tokens_of count (m # ms) = count m + tokens_of count ms"
  "tokens_of count (xs @ ys) = tokens_of count xs + tokens_of count ys"
  by (simp_all add: tokens_of_def)

lemma is_tool_result_iff: "is_tool_result ms i \<longleftrightarrow> i < length ms \<and> tool_result_id (ms ! i) \<noteq> None"
  by (auto simp: is_tool_result_def split: agent_message.splits llm_message.splits)

lemma assistant_before_Some:
  "assistant_before ms i = Some j \<Longrightarrow>
     j \<le> i \<and> \<not> is_tool_result ms j \<and> (\<forall>k. j < k \<and> k \<le> i \<longrightarrow> is_tool_result ms k)"
  by (induction i) (auto split: if_splits simp: le_Suc_eq)

lemma assistant_before_None:
  "assistant_before ms i = None \<Longrightarrow> \<forall>k \<le> i. is_tool_result ms k"
  by (induction i) (auto split: if_splits simp: le_Suc_eq)

lemma group_end_bounds:
  "e \<le> length ms \<Longrightarrow> e \<le> group_end ms ids e \<and> group_end ms ids e \<le> length ms"
proof (induction ms ids e rule: group_end.induct)
  case (1 ms ids e)
  then show ?case by (fastforce simp: group_end.simps[of ms ids e] split: option.splits)
qed

lemma group_end_stop:
  "group_end ms ids e < length ms \<Longrightarrow>
     case tool_result_id (ms ! group_end ms ids e) of None \<Rightarrow> True | Some i \<Rightarrow> i \<notin> set ids"
proof (induction ms ids e rule: group_end.induct)
  case (1 ms ids e)
  then show ?case
    by (cases "e < length ms"; cases "tool_result_id (ms ! e)")
      (auto simp: group_end.simps[of ms ids e] split: if_splits)
qed

lemma group_end_results:
  "e \<le> k \<Longrightarrow> k < group_end ms ids e \<Longrightarrow> is_tool_result ms k"
proof (induction ms ids e rule: group_end.induct)
  case (1 ms ids e)
  show ?case
  proof (cases "k = e")
    case True
    with 1 show ?thesis
      by (auto simp: group_end.simps[of ms ids e] is_tool_result_iff split: if_splits option.splits)
  next
    case False
    with 1 show ?thesis
      by (auto simp: group_end.simps[of ms ids e] split: if_splits option.splits)
  qed
qed

text \<open>
  A history is well paired when every tool result answers a call of the assistant message
  its run of results follows.
\<close>

definition call_ids_of :: "agent_message \<Rightarrow> string list" where
  "call_ids_of m = (case tool_call_ids m of None \<Rightarrow> [] | Some ids \<Rightarrow> ids)"

fun paired_from :: "string list \<Rightarrow> agent_message list \<Rightarrow> bool" where
  "paired_from ids [] = True"
| "paired_from ids (m # ms) =
     (case tool_result_id m of
        Some i \<Rightarrow> i \<in> set ids \<and> paired_from ids ms
      | None \<Rightarrow> paired_from (call_ids_of m) ms)"

abbreviation well_paired :: "agent_message list \<Rightarrow> bool" where
  "well_paired ms \<equiv> paired_from [] ms"

fun open_ids :: "string list \<Rightarrow> agent_message list \<Rightarrow> string list" where
  "open_ids ids [] = ids"
| "open_ids ids (m # ms) =
     open_ids (case tool_result_id m of Some _ \<Rightarrow> ids | None \<Rightarrow> call_ids_of m) ms"

lemma paired_from_append:
  "paired_from ids (xs @ ys) \<longleftrightarrow> paired_from ids xs \<and> paired_from (open_ids ids xs) ys"
  by (induction xs arbitrary: ids) (auto split: option.splits)

lemma open_ids_append: "open_ids ids (xs @ ys) = open_ids (open_ids ids xs) ys"
  by (induction xs arbitrary: ids) auto

lemma paired_from_boundary:
  "ys = [] \<or> tool_result_id (hd ys) = None \<Longrightarrow> paired_from ids ys = paired_from ids' ys"
  by (cases ys) auto

lemma open_ids_assistant_before:
  "i < length ms \<Longrightarrow> open_ids ids (take (Suc i) ms) =
     (case assistant_before ms i of None \<Rightarrow> ids | Some j \<Rightarrow> call_ids_of (ms ! j))"
proof (induction i)
  case 0
  then show ?case by (cases ms) (auto simp: is_tool_result_iff)
next
  case (Suc i)
  then show ?case
    by (auto simp: take_Suc_conv_app_nth[of "Suc i"] open_ids_append is_tool_result_iff split: option.splits)
qed

lemma assistant_before_run:
  assumes "j \<le> k" and "\<not> is_tool_result ms j" and "\<forall>l. j < l \<and> l \<le> k \<longrightarrow> is_tool_result ms l"
  shows "assistant_before ms k = Some j"
  using assms
proof (induction k)
  case (Suc k)
  then show ?case by (cases "j = Suc k") auto
qed simp

lemma well_paired_head: "well_paired ms \<Longrightarrow> \<not> is_tool_result ms 0"
  by (cases ms) (auto simp: is_tool_result_iff split: option.splits)

text \<open>In a well-paired history a result answers the message before its run of results.\<close>

lemma well_paired_result:
  assumes "well_paired ms" and "Suc i < length ms" and "tool_result_id (ms ! Suc i) = Some r"
    and "assistant_before ms i = Some j"
  shows "r \<in> set (call_ids_of (ms ! j))"
proof -
  have "ms = take (Suc i) ms @ ms ! Suc i # drop (Suc (Suc i)) ms"
    using assms(2) by (simp add: id_take_nth_drop)
  with assms have "r \<in> set (open_ids [] (take (Suc i) ms))"
    by (metis (no_types, lifting) option.simps(5) paired_from.simps(2) paired_from_append)
  then show ?thesis
    using assms(2,4) by (simp add: open_ids_assistant_before)
qed

lemma well_paired_run:
  assumes "well_paired ms" and "\<not> is_tool_result ms j" and "j < k" and "is_tool_result ms k"
    and "\<forall>l. j < l \<and> l < k \<longrightarrow> is_tool_result ms l"
  shows "\<exists>r. tool_result_id (ms ! k) = Some r \<and> r \<in> set (call_ids_of (ms ! j))"
proof -
  obtain k' where k': "k = Suc k'" "j \<le> k'" using assms(3) by (cases k) auto
  then have "assistant_before ms k' = Some j" using assms by (intro assistant_before_run) auto
  with well_paired_result[OF assms(1), of k'] assms(4) k' show ?thesis
    by (auto simp: is_tool_result_iff)
qed

text \<open>In a well-paired history the extended anchor ends where a group ends.\<close>

lemma group_end_boundary:
  assumes "well_paired ms" and "\<not> is_tool_result ms j" and "j < length ms"
    and "tool_call_ids (ms ! j) = Some ids"
  shows "\<not> is_tool_result ms (group_end ms ids (Suc j))"
proof
  let ?g = "group_end ms ids (Suc j)"
  assume g: "is_tool_result ms ?g"
  have "j < ?g" using group_end_bounds[of "Suc j" ms ids] assms(3) by simp
  moreover have "\<forall>l. j < l \<and> l < ?g \<longrightarrow> is_tool_result ms l"
    using group_end_results[of "Suc j" _ ms ids] by simp
  ultimately obtain r where "tool_result_id (ms ! ?g) = Some r" "r \<in> set ids"
    using well_paired_run[OF assms(1,2) _ g] assms(4) by (auto simp: call_ids_of_def)
  then show False using group_end_stop[of ms ids "Suc j"] g by (simp add: is_tool_result_iff)
qed

lemma extended_anchor_boundary:
  assumes "well_paired ms"
  shows "\<not> is_tool_result ms (extend_anchor_for_tool_results ms a)"
proof (cases "a = 0 \<or> length ms \<le> a")
  case True
  with well_paired_head[OF assms] show ?thesis
    by (auto simp: extend_anchor_for_tool_results_def is_tool_result_iff)
next
  case False
  then obtain i where a: "a = Suc i" "Suc i < length ms" by (cases a) auto
  have "assistant_before ms i \<noteq> None"
    using assistant_before_None[of ms i] well_paired_head[OF assms] by blast
  then obtain j where ab: "assistant_before ms i = Some j" by blast
  note j = assistant_before_Some[OF ab]
  show ?thesis
  proof (cases "tool_call_ids (ms ! j)")
    case None
    with ab a well_paired_result[OF assms a(2) _ ab] show ?thesis
      by (cases "tool_result_id (ms ! Suc i)")
        (auto simp: extend_anchor_for_tool_results_def is_tool_result_iff call_ids_of_def)
  next
    case (Some ids)
    let ?g = "group_end ms ids (Suc j)"
    have "j < length ms" using j a by simp
    note g = group_end_boundary[OF assms _ this Some] group_end_bounds[of "Suc j" ms ids]
    have "a \<le> ?g"
    proof (rule ccontr)
      assume "\<not> a \<le> ?g"
      then have "?g \<le> i" "j < ?g" using g(2) j a by auto
      then show False using g(1) j by blast
    qed
    then have "extend_anchor_for_tool_results ms a = ?g"
      using a ab Some by (simp add: extend_anchor_for_tool_results_def)
    then show ?thesis using g(1) j by simp
  qed
qed

lemma extended_anchor_bounds:
  "a \<le> length ms \<Longrightarrow>
     a \<le> extend_anchor_for_tool_results ms a \<and> extend_anchor_for_tool_results ms a \<le> length ms"
  using assistant_before_Some[of ms "a - 1"] group_end_bounds[of _ ms]
  by (fastforce simp: extend_anchor_for_tool_results_def split: option.splits)

section \<open>The tail\<close>

lemma tail_walk_bounds:
  "i \<le> s \<Longrightarrow> anchor_len \<le> s \<Longrightarrow>
     anchor_len \<le> tail_walk count ms anchor_len remaining i tt s
     \<and> tail_walk count ms anchor_len remaining i tt s \<le> s"
proof (induction i arbitrary: tt s)
  case (Suc i)
  show ?case
  proof (cases "anchor_len \<le> i")
    case True
    with Suc.prems Suc.IH[of i "tt + count (ms ! i)"] show ?thesis by (auto simp: Let_def)
  qed (use Suc.prems in auto)
qed simp

text \<open>The walk keeps the running total equal to the tokens of the suffix, within the budget.\<close>

lemma tail_walk_tokens:
  assumes "i \<le> length ms" and "tt = tokens_of count (drop i ms)" and "tt \<le> remaining"
  shows "tokens_of count (drop (tail_walk count ms anchor_len remaining i tt i) ms) \<le> remaining"
  using assms
proof (induction i arbitrary: tt)
  case (Suc i)
  have "drop i ms = ms ! i # drop (Suc i) ms" using Suc.prems by (simp add: Cons_nth_drop_Suc)
  with Suc show ?case by (auto simp: Let_def add.commute)
qed simp

text \<open>The walk stops only at the anchor or at a message that does not fit any more.\<close>

lemma tail_walk_maximal:
  assumes "i \<le> length ms" and "tt = tokens_of count (drop i ms)" and "anchor_len \<le> i"
  shows "let w = tail_walk count ms anchor_len remaining i tt i in
     anchor_len < w \<longrightarrow> remaining < tokens_of count (drop (w - 1) ms)"
  using assms
proof (induction i arbitrary: tt)
  case (Suc i)
  have d: "drop i ms = ms ! i # drop (Suc i) ms" using Suc.prems by (simp add: Cons_nth_drop_Suc)
  show ?case
  proof (cases "anchor_len \<le> i \<and> tt + count (ms ! i) \<le> remaining")
    case True
    with Suc.IH[of "tt + count (ms ! i)"] Suc.prems d show ?thesis by (auto simp: Let_def)
  next
    case False
    with Suc.prems d show ?thesis by (auto simp: Let_def)
  qed
qed simp

lemma adjust_tail_le: "adjust_tail ms anchor_len t \<le> t"
  by (induction t) auto

lemma adjust_tail_boundary:
  "anchor_len < adjust_tail ms anchor_len t \<Longrightarrow> \<not> is_tool_result ms (adjust_tail ms anchor_len t)"
  by (induction t) (auto simp: is_tool_result_iff)

lemma adjust_tail_results:
  "adjust_tail ms anchor_len t < k \<Longrightarrow> k \<le> t \<Longrightarrow> is_tool_result ms k"
  by (induction t) (auto split: if_splits simp: le_Suc_eq)

section \<open>Correctness of compaction\<close>

text \<open>
  What a compaction that dropped something did: the new history is the first \<open>a\<close>
  messages and the messages from \<open>b\<close> on.
\<close>

definition cuts :: "(agent_message \<Rightarrow> usize) \<Rightarrow> agent_message list \<Rightarrow> usize \<Rightarrow> usize \<Rightarrow> usize \<times> usize" where
  "cuts count ms budget anchor =
     (let a = extend_anchor_for_tool_results ms (min anchor (length ms));
          rest = budget - tokens_of count (take a ms)
      in (a, adjust_tail ms a (tail_walk count ms a rest (length ms) 0 (length ms))))"

lemma cuts_bounds:
  assumes "cuts count ms budget anchor = (a, b)"
  shows "min anchor (length ms) \<le> a" and "a \<le> length ms" and "b \<le> length ms"
    and "a < b \<Longrightarrow> \<not> is_tool_result ms b"
    and "well_paired ms \<Longrightarrow> \<not> is_tool_result ms a"
proof -
  let ?rest = "budget - tokens_of count (take a ms)"
  have a: "a = extend_anchor_for_tool_results ms (min anchor (length ms))"
    and b: "b = adjust_tail ms a (tail_walk count ms a ?rest (length ms) 0 (length ms))"
    using assms by (auto simp: cuts_def Let_def)
  show "min anchor (length ms) \<le> a" and al: "a \<le> length ms"
    using extended_anchor_bounds[of "min anchor (length ms)" ms] a by auto
  show "b \<le> length ms"
    using tail_walk_bounds[OF le_refl al, of count ms ?rest 0] adjust_tail_le b by (metis order_trans)
  show "a < b \<Longrightarrow> \<not> is_tool_result ms b" using adjust_tail_boundary b by blast
  show "well_paired ms \<Longrightarrow> \<not> is_tool_result ms a" using extended_anchor_boundary a by simp
qed

lemma compact_unfold:
  assumes "cuts count ms budget anchor = (a, b)"
  shows "compact_sliding_window_with count ms budget anchor =
     (if tokens_of count ms \<le> budget \<or> b \<le> a then (ms, None)
      else (take a ms @ drop b ms,
            Some \<lparr>cr_dropped_count = b - a, cr_tokens_before = tokens_of count ms,
              cr_tokens_after = tokens_of count (take a ms @ drop b ms), cr_overflow = False,
              cr_dropped_messages = llm_of (drop a (take b ms))\<rparr>))"
  using assms by (auto simp: compact_sliding_window_with_def cuts_def Let_def)

lemma compact_Some:
  assumes "compact_sliding_window_with count ms budget anchor = (ms', Some report)"
  obtains a b where "cuts count ms budget anchor = (a, b)" and "a < b"
    and "ms' = take a ms @ drop b ms" and "budget < tokens_of count ms"
    and "report = \<lparr>cr_dropped_count = b - a, cr_tokens_before = tokens_of count ms,
           cr_tokens_after = tokens_of count ms', cr_overflow = False,
           cr_dropped_messages = llm_of (drop a (take b ms))\<rparr>"
proof -
  obtain a b where c: "cuts count ms budget anchor = (a, b)" by force
  with assms that show thesis by (auto simp: compact_unfold split: if_splits)
qed

lemma compact_None:
  assumes "compact_sliding_window_with count ms budget anchor = (ms', None)"
  shows "ms' = ms"
proof -
  obtain a b where c: "cuts count ms budget anchor = (a, b)" by force
  with assms show ?thesis by (auto simp: compact_unfold split: if_splits)
qed

text \<open>
  Example histories: three user messages of four tokens each, and a history with an answered
  tool call.
\<close>

definition user_text :: "string \<Rightarrow> agent_message" where
  "user_text t = Llm (User \<lparr>um_content = [Text t], um_timestamp = 0, um_cache_hint = None\<rparr>)"

definition calling :: "string \<Rightarrow> agent_message" where
  "calling i = Llm (Assistant \<lparr>am_content = [ToolCall i ''t'' (JObject []) None], am_provider = [],
     am_model_id = [], am_usage = usage_default, am_cost = cost_default, am_stop_reason = SrToolUse,
     am_error_message = None, am_error_kind = None, am_timestamp = 0, am_cache_hint = None\<rparr>)"

definition answering :: "string \<Rightarrow> agent_message" where
  "answering i = Llm (ToolResult \<lparr>tr_tool_call_id = i, tr_content = [], tr_is_error = False,
     tr_timestamp = 0, tr_details = JNull, tr_cache_hint = None\<rparr>)"

lemmas example_msgs = user_text_def calling_def answering_def
lemmas compact_eval = compact_sliding_window_with_def extend_anchor_for_tool_results_def
  is_tool_result_def Let_def group_end.simps

text \<open>
  Compaction that drops messages keeps the anchor: the first \<open>min anchor len\<close>
  messages are still there in place. It drops one contiguous middle part, the report counts
  exactly the dropped messages and the tokens before and after, lists exactly the dropped LLM
  messages in order, and at least one message was dropped.
\<close>

theorem compaction_drops_middle:
  assumes "compact_sliding_window_with count ms budget anchor = (ms', Some report)"
  shows "\<exists>mid tail. ms = take (length ms' - length tail) ms @ mid @ tail
      \<and> ms' = take (length ms' - length tail) ms @ tail
      \<and> min anchor (length ms) \<le> length ms' - length tail
      \<and> cr_dropped_count report = length mid \<and> mid \<noteq> []
      \<and> cr_dropped_messages report = llm_of mid
      \<and> cr_tokens_before report = tokens_of count ms \<and> cr_tokens_after report = tokens_of count ms'
      \<and> cr_tokens_before report = cr_tokens_after report + tokens_of count mid"
proof -
  obtain a b where c: "cuts count ms budget anchor = (a, b)" and ab: "a < b"
    and ms': "ms' = take a ms @ drop b ms"
    and rep: "report = \<lparr>cr_dropped_count = b - a, cr_tokens_before = tokens_of count ms,
           cr_tokens_after = tokens_of count ms', cr_overflow = False,
           cr_dropped_messages = llm_of (drop a (take b ms))\<rparr>"
    using assms by (rule compact_Some)
  note bnds = cuts_bounds(1-3)[OF c]
  have len: "length ms' - length (drop b ms) = a" using ms' bnds by simp
  have split: "ms = take a ms @ drop a (take b ms) @ drop b ms"
    using ab by (simp add: take_append_drop_mid)
  have "tokens_of count ms =
      tokens_of count (take a ms) + tokens_of count (drop a (take b ms)) + tokens_of count (drop b ms)"
    using arg_cong[OF split, of "tokens_of count"] by simp
  moreover have "drop a (take b ms) \<noteq> []" using ab bnds by simp
  ultimately show ?thesis
    by (intro exI[of _ "drop a (take b ms)"] exI[of _ "drop b ms"], unfold len)
      (use split ms' rep bnds ab in auto)
qed

theorem compaction_drops_middle_witness:
  "\<exists>ms' report mid tail.
      compact_sliding_window_with (\<lambda>_. 4) [user_text ''a'', user_text ''b'', user_text ''c''] 8 1 = (ms', Some report)
      \<and> [user_text ''a'', user_text ''b'', user_text ''c''] = take (length ms' - length tail) [user_text ''a'', user_text ''b'', user_text ''c''] @ mid @ tail
      \<and> cr_dropped_count report = length mid \<and> mid \<noteq> []"
proof -
  obtain ms' report where c:
    "compact_sliding_window_with (\<lambda>_. 4) [user_text ''a'', user_text ''b'', user_text ''c''] 8 1 = (ms', Some report)"
    by (simp add: compact_eval example_msgs eval_nat_numeral)
  from compaction_drops_middle [OF c] c show ?thesis by blast
qed

lemma compacted_paired:
  assumes "well_paired ms"
    and "compact_sliding_window_with count ms budget anchor = (ms', Some report)"
  shows "well_paired ms'"
proof -
  obtain a b where c: "cuts count ms budget anchor = (a, b)" and ab: "a < b"
    and ms': "ms' = take a ms @ drop b ms"
    using assms(2) by (rule compact_Some)
  note bnd = cuts_bounds[OF c]
  have "ms = take b ms @ drop b ms" by simp
  then have "paired_from (open_ids [] (take b ms)) (drop b ms)"
    using assms(1) by (metis paired_from_append)
  moreover have "drop b ms = [] \<or> tool_result_id (hd (drop b ms)) = None"
    using bnd(4)[OF ab] by (cases "b < length ms") (auto simp: is_tool_result_iff hd_drop_conv_nth)
  ultimately have "paired_from (open_ids [] (take a ms)) (drop b ms)"
    using paired_from_boundary by blast
  moreover have "well_paired (take a ms)"
    using assms(1) by (metis append_take_drop_id paired_from_append)
  ultimately show ?thesis using ms' by (simp add: paired_from_append)
qed

text \<open>
  C11. Compaction never splits a tool-call group: on a well-paired history both cut points
  lie between groups, so every kept assistant message keeps all its results, every kept result
  keeps its call, and the compacted history is well paired again.
\<close>

theorem compaction_keeps_groups:
  assumes "well_paired ms"
    and "compact_sliding_window_with count ms budget anchor = (ms', Some report)"
  shows "well_paired ms' \<and> (\<exists>a b. a < b \<and> b \<le> length ms \<and> ms' = take a ms @ drop b ms
      \<and> \<not> is_tool_result ms a \<and> \<not> is_tool_result ms b)"
proof -
  obtain a b where c: "cuts count ms budget anchor = (a, b)" and ab: "a < b"
    and ms': "ms' = take a ms @ drop b ms"
    using assms(2) by (rule compact_Some)
  from ms' ab cuts_bounds(3,4,5)[OF c] compacted_paired[OF assms] assms(1) show ?thesis by blast
qed

theorem compaction_keeps_groups_witness:
  "\<exists>ms' report. compact_sliding_window_with (\<lambda>_. 4)
        [user_text ''a'', user_text ''b'', calling ''i'', answering ''i''] 12 1 = (ms', Some report)
      \<and> well_paired ms' \<and> ms' = [user_text ''a'', calling ''i'', answering ''i'']"
proof -
  let ?ms = "[user_text ''a'', user_text ''b'', calling ''i'', answering ''i'']"
  have p: "well_paired ?ms" by (simp add: example_msgs call_ids_of_def)
  have c: "\<exists>report. compact_sliding_window_with (\<lambda>_. 4) ?ms 12 1 =
      ([user_text ''a'', calling ''i'', answering ''i''], Some report)"
    by (simp add: compact_eval example_msgs eval_nat_numeral)
  then show ?thesis using compaction_keeps_groups [OF p] by blast
qed

text \<open>
  The token budget. Without tool results in the history, a compaction leaves at most
  \<open>budget\<close> tokens, or the anchor's tokens where the anchor alone exceeds the budget; and it
  keeps the longest suffix that fits: one more message would exceed the budget left by the
  anchor.
\<close>

theorem compaction_within_budget:
  assumes "list_all (\<lambda>m. tool_result_id m = None) ms"
    and "compact_sliding_window_with count ms budget anchor = (ms', Some report)"
  shows "\<exists>a b. ms' = take a ms @ drop b ms \<and> a < b
      \<and> cr_tokens_after report \<le> max budget (tokens_of count (take a ms))
      \<and> budget - tokens_of count (take a ms) < tokens_of count (drop (b - 1) ms)"
proof -
  obtain a b where c: "cuts count ms budget anchor = (a, b)" and ab: "a < b"
    and ms': "ms' = take a ms @ drop b ms" and over: "budget < tokens_of count ms"
    and after: "cr_tokens_after report = tokens_of count ms'"
    using assms(2) by (rule compact_Some) auto
  let ?rest = "budget - tokens_of count (take a ms)"
  let ?w = "tail_walk count ms a ?rest (length ms) 0 (length ms)"
  have "\<not> is_tool_result ms k" for k
    using assms(1) by (auto simp: is_tool_result_iff list_all_length)
  then have b: "b = ?w"
    using c adjust_tail_results[of ms a ?w ?w] adjust_tail_le[of ms a ?w]
    by (auto simp: cuts_def Let_def) (metis le_neq_implies_less order_refl)
  have "tokens_of count (drop b ms) \<le> ?rest"
    using tail_walk_tokens[of "length ms" ms 0 count ?rest a] b by simp
  moreover have "?rest < tokens_of count (drop (b - 1) ms)"
    using tail_walk_maximal[of "length ms" ms 0 count a ?rest] b ab cuts_bounds(2)[OF c] by (simp add: Let_def)
  ultimately show ?thesis using ms' ab after by (intro exI[of _ a] exI[of _ b]) auto
qed

theorem compaction_within_budget_witness:
  "\<exists>ms' report a. compact_sliding_window_with (\<lambda>_. 4) [user_text ''a'', user_text ''b'', user_text ''c''] 8 1 = (ms', Some report)
      \<and> cr_tokens_after report \<le> max 8 (tokens_of (\<lambda>_. 4) (take a [user_text ''a'', user_text ''b'', user_text ''c'']))"
proof -
  let ?ms = "[user_text ''a'', user_text ''b'', user_text ''c'']"
  obtain ms' report where c: "compact_sliding_window_with (\<lambda>_. 4) ?ms 8 1 = (ms', Some report)"
    by (simp add: compact_eval example_msgs eval_nat_numeral)
  have p: "list_all (\<lambda>m. tool_result_id m = None) ?ms" by (simp add: example_msgs)
  from compaction_within_budget [OF p c] c show ?thesis by blast
qed

text \<open>
  The cached prefix is protected: when the turn pipeline has published a prefix length,
  the sliding-window transformer leaves the first \<open>max anchor prefix\<close> messages (as many
  as there are) untouched, whatever the budgets, in normal and in overflow mode.
\<close>

theorem published_prefix_protected:
  assumes "0 < prefix_len" and "sw_transform json_len (publish_cached_prefix sw prefix_len) ms overflow = (ms', r)"
  shows "take (max (sw_anchor sw) prefix_len) ms' = take (max (sw_anchor sw) prefix_len) ms
      \<or> (length ms \<le> max (sw_anchor sw) prefix_len \<and> ms' = ms)"
proof -
  let ?n = "max (sw_anchor sw) prefix_len"
  let ?counter = "case sw_token_counter sw of None \<Rightarrow> default_count_tokens json_len | Some c \<Rightarrow> c"
  let ?budget = "if overflow then sw_overflow_budget sw else sw_normal_budget sw"
  obtain r0 where c: "compact_sliding_window_with ?counter ms ?budget ?n = (ms', r0)"
    using assms by (cases overflow) (auto simp: sw_transform_def publish_cached_prefix_def
        effective_cached_prefix_len_def Let_def split: prod.splits option.splits)
  show ?thesis
  proof (cases r0)
    case None
    with c show ?thesis using compact_None by blast
  next
    case (Some report)
    with c obtain a b where ab: "cuts ?counter ms ?budget ?n = (a, b)" "a < b" "ms' = take a ms @ drop b ms"
      by (metis compact_Some)
    have "?n \<le> a" using cuts_bounds(1-3)[OF ab(1)] ab(2) by linarith
    moreover have "a \<le> length ms" using cuts_bounds(2)[OF ab(1)] .
    ultimately have "take ?n ms' = take ?n ms" unfolding ab(3) by (simp add: min_def)
    then show ?thesis by simp
  qed
qed

theorem published_prefix_protected_witness:
  "\<exists>ms' r. sw_transform (\<lambda>_. 0) (publish_cached_prefix (sw_new 0 0 0) 1) [user_text ''abcd'', user_text ''efgh''] True = (ms', r)
      \<and> (take 1 ms' = take 1 [user_text ''abcd'', user_text ''efgh'']
         \<or> (length [user_text ''abcd'', user_text ''efgh''] \<le> 1 \<and> ms' = [user_text ''abcd'', user_text ''efgh'']))"
proof -
  obtain ms' r where c: "sw_transform (\<lambda>_. 0) (publish_cached_prefix (sw_new 0 0 0) 1)
      [user_text ''abcd'', user_text ''efgh''] True = (ms', r)" by force
  have "0 < (1::nat)" by simp
  from published_prefix_protected [OF this c] c show ?thesis by (simp add: sw_new_def)
qed

end
