(* ===== verification/Loop_World.thy ===== *)
theory Loop_World
  imports Errors_Retry Stream_Accumulate Context_Messages Agent_Transfer Policy_Slots Compaction
begin

text \<open>
  What the agent loop sees of the outside: the events it emits (\<^verbatim>\<open>loop_/event.rs\<close>), its
  configuration (\<^verbatim>\<open>loop_/config.rs\<close>) and the mutable world its tasks share.

  Every call to code outside the loop (provider, policy, tool, message provider, clock,
  cancellation token) is a field of the configuration that takes the tick at which it is called;
  the loop advances the tick at every such call, so an implementation may answer differently each
  time. The event channel delivers events until its receiver is dropped: \<open>w_rx_limit\<close> is the
  number of events delivered before that, \<open>None\<close> when the receiver stays.
\<close>

section \<open>Events\<close>

datatype turn_end_reason =
    TeComplete | TeToolsExecuted | TeSteeringInterrupt | TeError | TeCancelled | TeAborted | TeTransfer | TeReasoningOnly

datatype transfer_rejection_reason = Circular | MaxDepth

datatype assistant_message_delta =
    DeltaText usize string
  | DeltaThinking usize string
  | DeltaToolCall usize string

record turn_snapshot =
  ts_turn_index :: usize
  ts_messages :: "llm_message list"
  ts_usage :: usage
  ts_cost :: cost
  ts_stop_reason :: stop_reason
  ts_state_delta :: "state_delta option"

datatype agent_event =
    AgentStart
  | AgentEnd "agent_message list"
  | TurnStart
  | TurnEnd assistant_message "tool_result_message list" turn_end_reason turn_snapshot
  | BeforeLlmCall string "llm_message list" model_spec
  | MessageStart
  | MessageUpdate assistant_message_delta
  | MessageEnd assistant_message
  | ToolExecutionStart string string json
  | ToolExecutionUpdate string string agent_tool_result
  | ToolApprovalRequested string string json
  | ToolApprovalResolved string string bool
  | ToolExecutionEnd string string agent_tool_result bool
  | ContextCompacted compaction_report
  | ModelFallback model_spec model_spec
  | ModelCycled model_spec model_spec string
  | StateChanged state_delta
  | CacheAction cache_hint usize
  | McpServerConnected string
  | McpServerDisconnected string string
  | McpToolsDiscovered string usize
  | McpToolCallStarted string string
  | McpToolCallCompleted string string bool
  | ArtifactSaved string string u32
  | TransferInitiated transfer_signal
  | TransferRejected string string transfer_rejection_reason
  | CustomEvent string json

section \<open>Tools and approvals\<close>

datatype credential_type = CtApiKey | CtBearer | CtOAuth2

datatype resolved_credential = RcApiKey string | RcBearer string | RcOAuth2AccessToken string

record auth_config =
  ac_credential_key :: string
  ac_credential_type :: credential_type

text \<open>
  One execution of a tool as the loop observes it: the session writes and the partial updates it
  makes on the way, in order, and how it ends: with a result, or with a panic and its message.
\<close>

datatype run_step = RunSession session_op | RunUpdate agent_tool_result

record tool_run =
  run_steps :: "run_step list"
  run_result :: "(string, agent_tool_result) result"

text \<open>
  \<open>at_validate\<close> is the JSON-schema validation of the tool's arguments against its own schema
  (the error strings, none when valid); a panic of \<^verbatim>\<open>approval_context\<close> counts as no context.
\<close>

record agent_tool =
  at_name :: string
  at_requires_approval :: bool
  at_execution_root :: "string option"
  at_approval_context :: "json \<Rightarrow> json option"
  at_auth_config :: "auth_config option"
  at_validate :: "json \<Rightarrow> string list"
  at_execute :: "tick \<Rightarrow> string \<Rightarrow> json \<Rightarrow> resolved_credential option \<Rightarrow> tool_run"

datatype tool_approval = Approved | Rejected | ApprovedWith json

record tool_approval_request =
  rq_tool_call_id :: string
  rq_tool_name :: string
  rq_arguments :: json
  rq_requires_approval :: bool
  rq_context :: "json option"

text \<open>What calling the approval callback comes to; a panic may hit the call or its future.\<close>

datatype approval_call = CallPanics string | FuturePanics string | Decides tool_approval

datatype approval_mode = ModeEnabled | ModeSmart | ModeBypassed

record tool_call_summary =
  sum_id :: string
  sum_name :: string
  sum_arguments :: json

datatype tool_execution_policy =
    Concurrent
  | Sequential
  | Priority "tool_call_summary \<Rightarrow> int"
  | CustomStrategy "tick \<Rightarrow> tool_call_summary list \<Rightarrow> usize list list"

section \<open>Configuration\<close>

record message_provider =
  mp_poll_steering :: "tick \<Rightarrow> agent_message list"
  mp_poll_follow_up :: "tick \<Rightarrow> agent_message list"
  mp_has_steering :: "tick \<Rightarrow> bool"

record agent_context =
  ac_system_prompt :: string
  ac_messages :: "agent_message list"
  ac_tools :: "agent_tool list"

type_synonym stream_fn = "tick \<Rightarrow> model_spec \<Rightarrow> agent_context \<Rightarrow> string option \<Rightarrow> assistant_message_event list"

type_synonym transform_fn = "tick \<Rightarrow> agent_message list \<Rightarrow> bool \<Rightarrow> agent_message list \<times> compaction_report option"

datatype context_transformer =
    SlidingWindow sliding_window_transformer
  | OtherTransformer transform_fn

record retry_strategy =
  retry_should :: "tick \<Rightarrow> agent_error \<Rightarrow> u32 \<Rightarrow> bool"
  retry_delay_of :: "tick \<Rightarrow> u32 \<Rightarrow> duration"

text \<open>One move of the scheduler between the tool tasks of a batch and the loop that joins them.\<close>

datatype sched_move = AdvanceTask nat | JoinTask nat | SeeCancel

record agent_loop_config =
  cfg_agent_name :: "string option"
  cfg_transfer_chain :: "transfer_chain option"
  cfg_model :: model_spec
  cfg_retry_strategy :: retry_strategy
  cfg_stream_fn :: stream_fn
  cfg_tools :: "agent_tool list"
  cfg_convert_to_llm :: "agent_message \<Rightarrow> llm_message option"
  cfg_transform_context :: "context_transformer option"
  cfg_async_transform_context :: "transform_fn option"
  cfg_get_api_key :: "(tick \<Rightarrow> string \<Rightarrow> string option) option"
  cfg_message_provider :: "message_provider option"
  cfg_approve_tool :: "(tick \<Rightarrow> tool_approval_request \<Rightarrow> approval_call) option"
  cfg_approval_mode :: approval_mode
  cfg_pre_turn_policies :: "pre_turn_policy list"
  cfg_pre_dispatch_policies :: "pre_dispatch_policy list"
  cfg_post_turn_policies :: "post_turn_policy list"
  cfg_post_loop_policies :: "post_loop_policy list"
  cfg_fallback :: "(model_spec \<times> stream_fn) list option"
  cfg_tool_execution_policy :: tool_execution_policy
  cfg_credential_resolver :: "(tick \<Rightarrow> string \<Rightarrow> (string, resolved_credential) result option) option"
  cfg_cache_config :: "cache_config option"
  cfg_dynamic_system_prompt :: "(tick \<Rightarrow> string) option"
  cfg_cost_calculator :: "(string \<Rightarrow> usage \<Rightarrow> cost option) option"
  cfg_catalog_cost :: "string \<Rightarrow> string \<Rightarrow> usage \<Rightarrow> cost"
  cfg_reasoning_only_nudge :: bool
  cfg_cancelled :: "tick \<Rightarrow> bool"
  cfg_clock :: "tick \<Rightarrow> u64"
  cfg_from_str :: json_parser
  cfg_json_len :: "json \<Rightarrow> nat"
  cfg_schedule :: "tick \<Rightarrow> sched_move list"

section \<open>The world\<close>

record world =
  w_sent :: "agent_event list"
  w_rx_limit :: "nat option"
  w_tick :: tick
  w_session :: session_state
  w_cache :: cache_state
  w_published_prefix :: usize
  w_pending_snapshot :: "agent_message list"
  w_loop_context :: "agent_message list option"

definition rx_open :: "world \<Rightarrow> bool" where
  "rx_open w = (case w_rx_limit w of None \<Rightarrow> True | Some n \<Rightarrow> length (w_sent w) < n)"

definition emit :: "agent_event \<Rightarrow> world \<Rightarrow> bool \<times> world" where
  "emit e w = (if rx_open w then (True, w\<lparr>w_sent := w_sent w @ [e]\<rparr>) else (False, w))"

abbreviation emit_ignored :: "agent_event \<Rightarrow> world \<Rightarrow> world" where
  "emit_ignored e w \<equiv> snd (emit e w)"

definition tock :: "world \<Rightarrow> world" where
  "tock w = w\<lparr>w_tick := w_tick w + 1\<rparr>"

definition is_cancelled :: "agent_loop_config \<Rightarrow> world \<Rightarrow> bool \<times> world" where
  "is_cancelled cfg w = (cfg_cancelled cfg (w_tick w), tock w)"

definition now_timestamp :: "agent_loop_config \<Rightarrow> world \<Rightarrow> u64" where
  "now_timestamp cfg w = cfg_clock cfg (w_tick w)"

definition clear_pending_message_snapshot :: "world \<Rightarrow> world" where
  "clear_pending_message_snapshot w = w\<lparr>w_pending_snapshot := []\<rparr>"

definition replace_pending_messages :: "agent_message list \<Rightarrow> world \<Rightarrow> world" where
  "replace_pending_messages ms w = w\<lparr>w_pending_snapshot := clone_messages ms\<rparr>"

definition replace_loop_context :: "agent_message list \<Rightarrow> world \<Rightarrow> world" where
  "replace_loop_context ms w = w\<lparr>w_loop_context := Some (clone_messages ms)\<rparr>"

section \<open>A configuration for examples\<close>

definition example_cfg :: "stream_fn \<Rightarrow> (tick \<Rightarrow> bool) \<Rightarrow> agent_loop_config" where
  "example_cfg provider cancelled =
     \<lparr>cfg_agent_name = None, cfg_transfer_chain = None, cfg_model = model_spec_new ''p'' ''m'',
      cfg_retry_strategy = \<lparr>retry_should = \<lambda>_ e a. should_retry default_retry e a, retry_delay_of = \<lambda>_ _. 0\<rparr>,
      cfg_stream_fn = provider, cfg_tools = [], cfg_convert_to_llm = as_llm, cfg_transform_context = None,
      cfg_async_transform_context = None, cfg_get_api_key = None, cfg_message_provider = None,
      cfg_approve_tool = None, cfg_approval_mode = ModeSmart, cfg_pre_turn_policies = [],
      cfg_pre_dispatch_policies = [], cfg_post_turn_policies = [], cfg_post_loop_policies = [],
      cfg_fallback = None, cfg_tool_execution_policy = Concurrent, cfg_credential_resolver = None,
      cfg_cache_config = None, cfg_dynamic_system_prompt = None, cfg_cost_calculator = None,
      cfg_catalog_cost = \<lambda>_ _ _. cost_default, cfg_reasoning_only_nudge = False,
      cfg_cancelled = cancelled, cfg_clock = \<lambda>_. 0, cfg_from_str = \<lambda>_. Inl ''bad'', cfg_json_len = \<lambda>_. 0,
      cfg_schedule = \<lambda>_. []\<rparr>"

definition example_world :: world where
  "example_world = \<lparr>w_sent = [], w_rx_limit = None, w_tick = 0, w_session = session_new, w_cache = cache_new,
     w_published_prefix = 0, w_pending_snapshot = [], w_loop_context = None\<rparr>"

section \<open>What was sent\<close>

text \<open>
  \<open>sends P w w'\<close>: between \<open>w\<close> and \<open>w'\<close> only events that satisfy \<open>P\<close> were
  added to the stream, and time did not run backwards. Every operation of the loop has one such
  lemma.
\<close>

definition sends :: "(agent_event \<Rightarrow> bool) \<Rightarrow> world \<Rightarrow> world \<Rightarrow> bool" where
  "sends P w w' = (w_rx_limit w' = w_rx_limit w \<and> w_tick w \<le> w_tick w' \<and> (\<exists>es. w_sent w' = w_sent w @ es \<and> list_all P es))"

lemma sends_refl [simp]: "sends P w w"
  by (auto simp: sends_def intro: exI[of _ "[]"])

lemma sends_trans: "sends P w w' \<Longrightarrow> sends P w' w'' \<Longrightarrow> sends P w w''"
  by (auto simp: sends_def)

lemma sends_mono: "sends P w w' \<Longrightarrow> (\<And>e. P e \<Longrightarrow> Q e) \<Longrightarrow> sends Q w w'"
  by (auto simp: sends_def list_all_iff)

lemma sends_emit: "P e \<Longrightarrow> emit e w = (ok, w') \<Longrightarrow> sends P w w'"
  by (auto simp: emit_def sends_def split: if_splits)

lemma sends_emit_ignored: "P e \<Longrightarrow> sends P w (emit_ignored e w)"
  by (auto simp: emit_def sends_def)

lemma emit_fst: "fst (emit e w) = rx_open w"
  by (simp add: emit_def)

lemma emit_sent: "w_sent (emit_ignored e w) = (if rx_open w then w_sent w @ [e] else w_sent w)"
  by (simp add: emit_def)

lemma emit_fields [simp]:
  "w_rx_limit (snd (emit e w)) = w_rx_limit w" "w_tick (snd (emit e w)) = w_tick w"
  "w_session (snd (emit e w)) = w_session w" "w_cache (snd (emit e w)) = w_cache w"
  "w_published_prefix (snd (emit e w)) = w_published_prefix w"
  "w_pending_snapshot (snd (emit e w)) = w_pending_snapshot w" "w_loop_context (snd (emit e w)) = w_loop_context w"
  by (simp_all add: emit_def)

text \<open>An operation that leaves the stream and the receiver alone.\<close>

definition quiet :: "world \<Rightarrow> world \<Rightarrow> bool" where
  "quiet w w' = (w_sent w' = w_sent w \<and> w_rx_limit w' = w_rx_limit w \<and> w_tick w \<le> w_tick w')"

lemma quiet_sends: "quiet w w' \<Longrightarrow> sends P w w'"
  by (auto simp: quiet_def sends_def intro: exI[of _ "[]"])

lemma quiet_simps [simp]:
  "quiet w w" "quiet w (tock w)" "quiet w (clear_pending_message_snapshot w)"
  "quiet w (replace_pending_messages ms w)" "quiet w (replace_loop_context ms w)"
  "quiet w (w\<lparr>w_session := s\<rparr>)" "quiet w (w\<lparr>w_cache := c\<rparr>)" "quiet w (w\<lparr>w_published_prefix := p\<rparr>)"
  by (simp_all add: quiet_def tock_def clear_pending_message_snapshot_def replace_pending_messages_def
      replace_loop_context_def)

lemma sends_quiet_trans: "sends P w w' \<Longrightarrow> quiet w' w'' \<Longrightarrow> sends P w w''"
  by (blast intro: sends_trans quiet_sends)

lemma quiet_sends_trans: "quiet w w' \<Longrightarrow> sends P w' w'' \<Longrightarrow> sends P w w''"
  by (blast intro: sends_trans quiet_sends)

text \<open>Open receivers: with no limit every emission succeeds.\<close>

lemma rx_open_unlimited: "w_rx_limit w = None \<Longrightarrow> rx_open w"
  by (simp add: rx_open_def)

lemma emit_unlimited: "w_rx_limit w = None \<Longrightarrow> emit e w = (True, w\<lparr>w_sent := w_sent w @ [e]\<rparr>)"
  by (simp add: emit_def rx_open_unlimited)

lemma sends_limit: "sends P w w' \<Longrightarrow> w_rx_limit w' = w_rx_limit w"
  by (simp add: sends_def)

end
