(* ===== verification/Stream_Retry.thy ===== *)
theory Stream_Retry
  imports Loop_World
begin

text \<open>
  Streaming one assistant response: \<^verbatim>\<open>loop_/stream.rs\<close> and the pricing of
  \<^verbatim>\<open>model_catalog.rs\<close>.

  A provider stream is the finite list of events it yields; the cancellation token is asked
  before and after every event, as in the \<^verbatim>\<open>select!\<close> of the source. The retry loop is a
  \<open>partial_function\<close>: a strategy that always asks for another attempt on a provider that
  always fails is the value \<open>None\<close>. Waiting for the delay has no effect on the state. The
  compiled price catalog is a parameter of the configuration.
\<close>

section \<open>Results\<close>

datatype stream_result =
    ResMessage assistant_message
  | ResContextOverflow
  | ResAborted
  | ResChannelClosed

record stream_error_info =
  ei_stop_reason :: stop_reason
  ei_error_message :: string
  ei_usage :: "usage option"
  ei_error_kind :: "stream_error_kind option"
  ei_retry_after :: "duration option"

datatype stream_error_action =
    ActContextOverflow
  | ActRetry duration "usize option"
  | ActFatalError stream_result assistant_message

datatype stream_attempt_result =
    Collected "assistant_message_event list" "stream_error_info option"
  | EarlyExit stream_result "assistant_message_event list"

text \<open>The arguments that stay fixed over the attempts of one model call.\<close>

record model_call =
  call_model :: model_spec
  call_stream_fn :: stream_fn
  call_tools :: "agent_tool list"
  call_system_prompt :: string
  call_api_key :: "string option"
  call_emit_message_start :: bool
  call_defer_fatal :: bool

section \<open>Capabilities and pricing\<close>

definition apply_capability_overrides :: "model_spec \<Rightarrow> model_spec" where
  "apply_capability_overrides model =
     (case ms_capabilities model of
        None \<Rightarrow> model
      | Some caps \<Rightarrow>
          if \<not> mc_supports_thinking caps \<and> ms_thinking_level model \<noteq> TlOff
          then model\<lparr>ms_thinking_level := TlOff\<rparr> else model)"

definition capability_filter_tools :: "model_spec \<Rightarrow> agent_tool list \<Rightarrow> agent_tool list" where
  "capability_filter_tools model tools =
     (case ms_capabilities model of
        Some caps \<Rightarrow> if \<not> mc_supports_tool_use caps \<and> tools \<noteq> [] then [] else tools
      | None \<Rightarrow> tools)"

definition price_assistant_message_with :: "agent_loop_config \<Rightarrow> assistant_message \<Rightarrow> assistant_message" where
  "price_assistant_message_with cfg m =
     (if \<not> cost_is_zero (am_cost m) then m
      else let declared = (case cfg_cost_calculator cfg of
                             None \<Rightarrow> None
                           | Some calculate \<Rightarrow> calculate (am_model_id m) (am_usage m));
               priced = (case declared of
                           Some c \<Rightarrow> if cost_is_zero c then cfg_catalog_cost cfg (am_provider m) (am_model_id m) (am_usage m) else c
                         | None \<Rightarrow> cfg_catalog_cost cfg (am_provider m) (am_model_id m) (am_usage m))
           in if cost_is_zero priced then m else m\<lparr>am_cost := priced\<rparr>)"

section \<open>One attempt\<close>

fun error_info :: "assistant_message_event \<Rightarrow> stream_error_info option" where
  "error_info (Error sr em u ek ra) =
     Some \<lparr>ei_stop_reason = sr, ei_error_message = em, ei_usage = u, ei_error_kind = ek, ei_retry_after = ra\<rparr>"
| "error_info _ = None"

fun attempt_loop :: "agent_loop_config \<Rightarrow> assistant_message_event list \<Rightarrow> assistant_message_event list
    \<Rightarrow> stream_error_info option \<Rightarrow> world \<Rightarrow> stream_attempt_result \<times> world" where
  "attempt_loop cfg [] events had_error w =
     (case is_cancelled cfg w of (c, w) \<Rightarrow>
        ((if c then EarlyExit ResAborted events else Collected events had_error), w))"
| "attempt_loop cfg (e # es) events had_error w =
     (case is_cancelled cfg w of (c, w) \<Rightarrow>
        if c then (EarlyExit ResAborted events, w)
        else case is_cancelled cfg w of (c, w) \<Rightarrow>
          if c then (EarlyExit ResAborted events, w)
          else attempt_loop cfg es (events @ [e])
                 (case error_info e of Some i \<Rightarrow> Some i | None \<Rightarrow> had_error) w)"

definition stream_single_attempt :: "agent_loop_config \<Rightarrow> model_call \<Rightarrow> llm_message list \<Rightarrow> world
    \<Rightarrow> stream_attempt_result \<times> world" where
  "stream_single_attempt cfg call msgs w =
     (let ctx = \<lparr>ac_system_prompt = call_system_prompt call, ac_messages = map Llm msgs, ac_tools = call_tools call\<rparr>;
          events = call_stream_fn call (w_tick w) (apply_capability_overrides (call_model call)) ctx (call_api_key call)
      in attempt_loop cfg events [] None (tock w))"

fun delta_of :: "assistant_message_event \<Rightarrow> assistant_message_delta option" where
  "delta_of (TextDelta i d) = Some (DeltaText i d)"
| "delta_of (ThinkingDelta i d) = Some (DeltaThinking i d)"
| "delta_of (ToolCallDelta i d) = Some (DeltaToolCall i d)"
| "delta_of _ = None"

definition emit_delta_event :: "assistant_message_event \<Rightarrow> world \<Rightarrow> stream_result option \<times> world" where
  "emit_delta_event e w =
     (case delta_of e of
        None \<Rightarrow> (None, w)
      | Some d \<Rightarrow> (case emit (MessageUpdate d) w of (ok, w) \<Rightarrow> ((if ok then None else Some ResChannelClosed), w)))"

fun emit_attempt_deltas :: "assistant_message_event list \<Rightarrow> world \<Rightarrow> stream_result option \<times> world" where
  "emit_attempt_deltas [] w = (None, w)"
| "emit_attempt_deltas (e # es) w =
     (case emit_delta_event e w of
        (Some r, w) \<Rightarrow> (Some r, w)
      | (None, w) \<Rightarrow> emit_attempt_deltas es w)"

section \<open>Errors of an attempt\<close>

definition is_fallback_eligible_error :: "assistant_message \<Rightarrow> bool" where
  "is_fallback_eligible_error m =
     (case am_error_message m of
        None \<Rightarrow> False
      | Some em \<Rightarrow> is_retryable (classify_stream_error em SrError (am_error_kind m)))"

definition fatal_error :: "agent_loop_config \<Rightarrow> model_spec \<Rightarrow> agent_error \<Rightarrow> world \<Rightarrow> stream_error_action \<times> world" where
  "fatal_error cfg model e w =
     (let m = build_error_message (now_timestamp cfg w) model e in (ActFatalError (ResMessage m) m, w))"

definition handle_stream_error ::
  "agent_loop_config \<Rightarrow> model_spec \<Rightarrow> stream_error_info \<Rightarrow> u32 \<Rightarrow> world \<Rightarrow> stream_error_action \<times> world" where
  "handle_stream_error cfg model err attempt w =
     (let e = classify_stream_error_for_model (ms_model_id model) (ei_error_message err) (ei_stop_reason err) (ei_error_kind err);
          strategy = cfg_retry_strategy cfg
      in case e of
           ContextWindowOverflow _ \<Rightarrow> (ActContextOverflow, w)
         | CacheMiss \<Rightarrow>
             let prior = cs_cached_prefix_len (w_cache w);
                 w = w\<lparr>w_cache := cache_reset (w_cache w)\<rparr>
             in if retry_should strategy (w_tick w) e attempt
                then (ActRetry (retry_delay_of strategy (w_tick w) attempt) (Some prior), tock w)
                else fatal_error cfg model e (tock w)
         | Aborted \<Rightarrow>
             let m = build_abort_message (now_timestamp cfg w) model in (ActFatalError ResAborted m, w)
         | _ \<Rightarrow>
             if retry_should strategy (w_tick w) e attempt
             then (ActRetry (case ei_retry_after err of Some d \<Rightarrow> d | None \<Rightarrow> retry_delay_of strategy (w_tick w) attempt) None, tock w)
             else fatal_error cfg model e (tock w))"

definition prepare_cache_miss_retry ::
  "agent_loop_config \<Rightarrow> llm_message list \<Rightarrow> usize \<Rightarrow> world \<Rightarrow> llm_message list \<times> world" where
  "prepare_cache_miss_retry cfg msgs prior w =
     (case cfg_cache_config cfg of
        None \<Rightarrow> (msgs, w)
      | Some cc \<Rightarrow>
          let saw = list_ex (\<lambda>m. llm_cache_hint m \<noteq> None) msgs;
              msgs' = map (\<lambda>m. if llm_cache_hint m \<noteq> None then set_llm_cache_hint m (CacheWrite (cc_ttl cc)) else m) msgs
          in if \<not> saw \<and> prior = 0 then (msgs', w)
             else (msgs', w\<lparr>w_cache := (snd (advance_turn cc (w_cache w)))\<lparr>cs_cached_prefix_len := prior\<rparr>\<rparr>))"

definition finalize_stream_message ::
  "agent_loop_config \<Rightarrow> model_spec \<Rightarrow> assistant_message_event list \<Rightarrow> world \<Rightarrow> stream_result \<times> world" where
  "finalize_stream_message cfg model events w =
     (case accumulate_message (cfg_from_str cfg) (now_timestamp cfg w) events (ms_provider model) (ms_model_id model) of
        Inl e \<Rightarrow>
          let m = build_error_message (now_timestamp cfg w) model (StreamError [e])
          in (ResMessage m, emit_ignored (MessageEnd m) w)
      | Inr m \<Rightarrow>
          let m = price_assistant_message_with cfg m
          in case emit (MessageEnd m) w of (ok, w) \<Rightarrow> ((if ok then ResMessage m else ResChannelClosed), w))"

section \<open>The retry loop\<close>

definition finish_early_exit :: "agent_loop_config \<Rightarrow> model_spec \<Rightarrow> stream_result \<Rightarrow> assistant_message_event list
    \<Rightarrow> world \<Rightarrow> stream_result \<times> world" where
  "finish_early_exit cfg model result events w =
     (case emit_attempt_deltas events w of
        (Some exit, w) \<Rightarrow> (exit, w)
      | (None, w) \<Rightarrow>
          if result = ResAborted
          then (case emit (MessageEnd (build_abort_message (now_timestamp cfg w) model)) w of (ok, w) \<Rightarrow>
                  ((if ok then result else ResChannelClosed), w))
          else (result, w))"

definition finish_fatal :: "model_call \<Rightarrow> stream_result \<Rightarrow> assistant_message \<Rightarrow> assistant_message_event list
    \<Rightarrow> world \<Rightarrow> stream_result \<times> world" where
  "finish_fatal call result message events w =
     (if \<not> call_defer_fatal call \<or> \<not> is_fallback_eligible_error message
      then (case emit_attempt_deltas events w of
              (Some exit, w) \<Rightarrow> (exit, w)
            | (None, w) \<Rightarrow> (case emit (MessageEnd message) w of (ok, w) \<Rightarrow>
                ((if ok then result else ResChannelClosed), w)))
      else (result, w))"

definition finish_success :: "agent_loop_config \<Rightarrow> model_spec \<Rightarrow> assistant_message_event list \<Rightarrow> world
    \<Rightarrow> stream_result \<times> world" where
  "finish_success cfg model events w =
     (case emit_attempt_deltas events w of
        (Some exit, w) \<Rightarrow> (exit, w)
      | (None, w) \<Rightarrow> finalize_stream_message cfg model events w)"

text \<open>
  One iteration of the loop: \<open>Inl\<close> when it returns, \<open>Inr\<close> with the messages of the
  next attempt when it continues.
\<close>

definition retry_step :: "agent_loop_config \<Rightarrow> model_call \<Rightarrow> u32 \<Rightarrow> llm_message list \<Rightarrow> world
    \<Rightarrow> (stream_result \<times> world) + (llm_message list \<times> world)" where
  "retry_step cfg call attempt msgs w =
     (case is_cancelled cfg w of (c, w) \<Rightarrow>
      if c then Inl (ResAborted, w)
      else case (if call_emit_message_start call \<and> attempt = 1 then emit MessageStart w else (True, w)) of (ok, w) \<Rightarrow>
      if \<not> ok then Inl (ResChannelClosed, w)
      else case stream_single_attempt cfg call msgs w of (r, w) \<Rightarrow>
      case r of
        EarlyExit result events \<Rightarrow> Inl (finish_early_exit cfg (call_model call) result events w)
      | Collected events None \<Rightarrow> Inl (finish_success cfg (call_model call) events w)
      | Collected events (Some err) \<Rightarrow>
         (case handle_stream_error cfg (call_model call) err attempt w of (act, w) \<Rightarrow>
          case act of
            ActContextOverflow \<Rightarrow> Inl (ResContextOverflow, w)
          | ActRetry delay None \<Rightarrow> Inr (msgs, w)
          | ActRetry delay (Some prior) \<Rightarrow> Inr (prepare_cache_miss_retry cfg msgs prior w)
          | ActFatalError result message \<Rightarrow> Inl (finish_fatal call result message events w)))"

partial_function (option) retry_loop :: "agent_loop_config \<Rightarrow> model_call \<Rightarrow> u32 \<Rightarrow> llm_message list \<Rightarrow> world
    \<Rightarrow> (stream_result \<times> world) option" where
  "retry_loop cfg call attempt msgs w =
     (case retry_step cfg call (attempt + 1) msgs w of
        Inl r \<Rightarrow> Some r
      | Inr (msgs', w') \<Rightarrow> retry_loop cfg call (attempt + 1) msgs' w')"

definition stream_with_retry_single :: "agent_loop_config \<Rightarrow> model_call \<Rightarrow> llm_message list \<Rightarrow> world
    \<Rightarrow> (stream_result \<times> world) option" where
  "stream_with_retry_single cfg call msgs w = retry_loop cfg call 0 msgs w"

section \<open>Model fallback\<close>

fun falls_back :: "stream_result \<Rightarrow> bool" where
  "falls_back (ResMessage m) = (am_stop_reason m = SrError \<and> is_fallback_eligible_error m)"
| "falls_back _ = False"

fun try_fallbacks :: "agent_loop_config \<Rightarrow> model_call \<Rightarrow> llm_message list \<Rightarrow> (model_spec \<times> stream_fn) list
    \<Rightarrow> stream_result \<Rightarrow> world \<Rightarrow> (stream_result \<times> world) option" where
  "try_fallbacks cfg call msgs [] last_result w = Some (last_result, w)"
| "try_fallbacks cfg call msgs ((fb_model, fb_stream_fn) # rest) last_result w =
     (case emit (ModelFallback (cfg_model cfg) fb_model) w of (ok, w) \<Rightarrow>
      if \<not> ok then Some (ResChannelClosed, w)
      else case stream_with_retry_single cfg
             (call\<lparr>call_model := fb_model, call_stream_fn := fb_stream_fn, call_emit_message_start := False,
                   call_defer_fatal := rest \<noteq> []\<rparr>) msgs w of
             None \<Rightarrow> None
           | Some (r, w) \<Rightarrow> if falls_back r then try_fallbacks cfg call msgs rest r w else Some (r, w))"

definition fallback_models :: "agent_loop_config \<Rightarrow> (model_spec \<times> stream_fn) list" where
  "fallback_models cfg = (case cfg_fallback cfg of None \<Rightarrow> [] | Some fb \<Rightarrow> fb)"

definition stream_with_retry :: "agent_loop_config \<Rightarrow> agent_tool list \<Rightarrow> llm_message list \<Rightarrow> string
    \<Rightarrow> string option \<Rightarrow> bool \<Rightarrow> world \<Rightarrow> (stream_result \<times> world) option" where
  "stream_with_retry cfg tools msgs system_prompt api_key emit_message_start w =
     (let call = \<lparr>call_model = cfg_model cfg, call_stream_fn = cfg_stream_fn cfg, call_tools = tools,
                  call_system_prompt = system_prompt, call_api_key = api_key,
                  call_emit_message_start = emit_message_start,
                  call_defer_fatal = fallback_models cfg \<noteq> []\<rparr>
      in case stream_with_retry_single cfg call msgs w of
           None \<Rightarrow> None
         | Some (r, w) \<Rightarrow> if falls_back r then try_fallbacks cfg call msgs (fallback_models cfg) r w else Some (r, w))"

section \<open>Frame: what streaming may touch\<close>

fun is_stream_event :: "agent_event \<Rightarrow> bool" where
  "is_stream_event MessageStart = True"
| "is_stream_event (MessageUpdate _) = True"
| "is_stream_event (MessageEnd _) = True"
| "is_stream_event (ModelFallback _ _) = True"
| "is_stream_event _ = False"

text \<open>Streaming sends stream events only and leaves the session and the pause snapshots alone.\<close>

definition streams :: "world \<Rightarrow> world \<Rightarrow> bool" where
  "streams w w' = (sends is_stream_event w w' \<and> w_session w' = w_session w
     \<and> w_pending_snapshot w' = w_pending_snapshot w \<and> w_loop_context w' = w_loop_context w
     \<and> w_published_prefix w' = w_published_prefix w)"

lemma streams_refl [simp]: "streams w w"
  by (simp add: streams_def)

lemma streams_trans [trans]: "streams w w' \<Longrightarrow> streams w' w'' \<Longrightarrow> streams w w''"
  by (auto simp: streams_def intro: sends_trans)

lemma streams_tock [simp]: "streams w (tock w)"
  by (simp add: streams_def tock_def sends_def)

lemma streams_cache [simp]: "streams w (w\<lparr>w_cache := c\<rparr>)"
  by (simp add: streams_def sends_def)

lemma streams_cache_tock [simp]: "streams w (tock (w\<lparr>w_cache := c\<rparr>))"
  by (simp add: streams_def sends_def tock_def)

lemma streams_emit: "is_stream_event e \<Longrightarrow> streams w (snd (emit e w))"
  by (simp add: streams_def sends_emit_ignored)

lemma streams_emit_eq: "is_stream_event e \<Longrightarrow> emit e w = (ok, w') \<Longrightarrow> streams w w'"
  by (metis snd_conv streams_emit)

lemma streams_cancelled: "is_cancelled cfg w = (c, w') \<Longrightarrow> streams w w'"
  by (auto simp: is_cancelled_def)

lemma streams_attempt_loop: "attempt_loop cfg es events err w = (r, w') \<Longrightarrow> streams w w'"
proof (induction es arbitrary: events err w)
  case Nil
  then show ?case by (auto split: prod.splits dest: streams_cancelled)
next
  case (Cons e es)
  obtain c1 w1 where c1: "is_cancelled cfg w = (c1, w1)" by force
  obtain c2 w2 where c2: "is_cancelled cfg w1 = (c2, w2)" by force
  show ?case
    using Cons c1 c2 streams_cancelled[OF c1] streams_cancelled[OF c2]
    by (auto split: if_splits intro: streams_trans)
qed

lemma streams_single_attempt: "stream_single_attempt cfg call msgs w = (r, w') \<Longrightarrow> streams w w'"
  by (auto simp: stream_single_attempt_def Let_def dest!: streams_attempt_loop intro: streams_trans[OF streams_tock])

lemma streams_delta: "emit_delta_event e w = (r, w') \<Longrightarrow> streams w w'"
  by (auto simp: emit_delta_event_def split: option.splits prod.splits dest: streams_emit_eq[rotated])

lemma streams_deltas: "emit_attempt_deltas es w = (r, w') \<Longrightarrow> streams w w'"
proof (induction es arbitrary: w)
  case (Cons e es)
  obtain r1 w1 where e: "emit_delta_event e w = (r1, w1)" by force
  with Cons show ?case by (auto split: option.splits intro: streams_trans[OF streams_delta[OF e]])
qed simp

lemma streams_handle_error: "handle_stream_error cfg model err a w = (act, w') \<Longrightarrow> streams w w'"
  by (auto simp: handle_stream_error_def fatal_error_def Let_def split: agent_error.splits if_splits
      intro: streams_trans[OF streams_cache])

lemma streams_prepare: "prepare_cache_miss_retry cfg msgs prior w = (msgs', w') \<Longrightarrow> streams w w'"
  by (auto simp: prepare_cache_miss_retry_def Let_def split: option.splits if_splits)

lemma streams_finalize: "finalize_stream_message cfg model events w = (r, w') \<Longrightarrow> streams w w'"
  by (auto simp: finalize_stream_message_def Let_def split: sum.splits prod.splits
      intro: streams_emit dest: streams_emit_eq[rotated])

lemma streams_finish_early: "finish_early_exit cfg model result events w = (r, w') \<Longrightarrow> streams w w'"
  by (auto simp: finish_early_exit_def split: prod.splits option.splits if_splits
      intro: streams_trans dest!: streams_deltas dest: streams_emit_eq[rotated])

lemma streams_finish_fatal: "finish_fatal call result message events w = (r, w') \<Longrightarrow> streams w w'"
  by (auto simp: finish_fatal_def split: prod.splits option.splits if_splits
      intro: streams_trans dest!: streams_deltas dest: streams_emit_eq[rotated])

lemma streams_finish_success: "finish_success cfg model events w = (r, w') \<Longrightarrow> streams w w'"
  by (auto simp: finish_success_def split: prod.splits option.splits
      intro: streams_trans dest!: streams_deltas dest: streams_finalize)

lemma streams_retry_step_tock:
  "(case retry_step cfg call a msgs w of Inl (r, w') \<Rightarrow> streams (tock w) w' | Inr (m', w') \<Rightarrow> streams (tock w) w')"
proof -
  obtain c w1 where c: "is_cancelled cfg w = (c, w1)" by force
  obtain ok w2 where ok: "(if call_emit_message_start call \<and> a = 1 then emit MessageStart w1 else (True, w1)) = (ok, w2)" by force
  obtain r w3 where r: "stream_single_attempt cfg call msgs w2 = (r, w3)" by force
  have s1: "streams (tock w) w1" using c by (auto simp: is_cancelled_def)
  have s2: "streams (tock w) w2" using s1 ok by (auto split: if_splits intro: streams_trans dest: streams_emit_eq[rotated])
  have s3: "streams (tock w) w3" using s2 streams_single_attempt[OF r] by (rule streams_trans)
  show ?thesis
  proof (cases "c \<or> \<not> ok")
    case True
    with c ok s1 s2 show ?thesis by (auto simp: retry_step_def)
  next
    case False
    with c ok r have unf: "retry_step cfg call a msgs w = (case r of
        EarlyExit result events \<Rightarrow> Inl (finish_early_exit cfg (call_model call) result events w3)
      | Collected events None \<Rightarrow> Inl (finish_success cfg (call_model call) events w3)
      | Collected events (Some err) \<Rightarrow>
         (case handle_stream_error cfg (call_model call) err a w3 of (act, w) \<Rightarrow>
          case act of
            ActContextOverflow \<Rightarrow> Inl (ResContextOverflow, w)
          | ActRetry delay None \<Rightarrow> Inr (msgs, w)
          | ActRetry delay (Some prior) \<Rightarrow> Inr (prepare_cache_miss_retry cfg msgs prior w)
          | ActFatalError result message \<Rightarrow> Inl (finish_fatal call result message events w)))"
      by (simp add: retry_step_def)
    show ?thesis unfolding unf
      using s3 by (auto split: stream_attempt_result.splits option.splits prod.splits stream_error_action.splits
        dest!: streams_finish_early streams_finish_success streams_handle_error streams_prepare streams_finish_fatal
        intro: streams_trans)
  qed
qed

lemma streams_retry_step:
  "(case retry_step cfg call a msgs w of Inl (r, w') \<Rightarrow> streams w w' | Inr (m', w') \<Rightarrow> streams w w')"
  using streams_retry_step_tock[where cfg = cfg and call = call and a = a and msgs = msgs and w = w]
  by (auto split: sum.splits intro: streams_trans[OF streams_tock])

lemma retry_step_advances: "retry_step cfg call a msgs w = Inr (msgs', w') \<Longrightarrow> w_tick w < w_tick w'"
  using streams_retry_step_tock[where cfg = cfg and call = call and a = a and msgs = msgs and w = w] by (simp add: streams_def sends_def tock_def)

lemma streams_retry_loop: "retry_loop cfg call a msgs w = Some p \<Longrightarrow> streams w (snd p)"
proof (rule retry_loop.raw_induct[where P = "\<lambda>cfg call a msgs w p. streams w (snd p)"])
  fix loop :: "agent_loop_config \<Rightarrow> model_call \<Rightarrow> u32 \<Rightarrow> llm_message list \<Rightarrow> world \<Rightarrow> (stream_result \<times> world) option"
  fix cfg call a msgs w p
  assume ih: "\<And>cfg call a msgs w p. loop cfg call a msgs w = Some p \<Longrightarrow> streams w (snd p)"
    and run: "(case retry_step cfg call (a + 1) msgs w of Inl r \<Rightarrow> Some r
        | Inr (msgs', w') \<Rightarrow> loop cfg call (a + 1) msgs' w') = Some p"
  show "streams w (snd p)"
    using streams_retry_step[where cfg = cfg and call = call and a = "a + 1" and msgs = msgs and w = w] run
    by (auto split: sum.splits prod.splits dest!: ih intro: streams_trans)
qed

lemma streams_single: "stream_with_retry_single cfg call msgs w = Some (r, w') \<Longrightarrow> streams w w'"
  by (auto simp: stream_with_retry_single_def dest: streams_retry_loop)

lemma streams_fallbacks: "try_fallbacks cfg call msgs fbs lr w = Some (r, w') \<Longrightarrow> streams w w'"
proof (induction cfg call msgs fbs lr w rule: try_fallbacks.induct)
  case (2 cfg call msgs fb_model fb_stream_fn rest last_result w)
  obtain ok w1 where e: "emit (ModelFallback (cfg_model cfg) fb_model) w = (ok, w1)" by force
  have s: "streams w w1" using streams_emit_eq[OF _ e] by simp
  show ?case using 2 e s
    by (auto split: if_splits option.splits dest!: streams_single intro: streams_trans)
qed simp

lemma streams_stream_with_retry:
  "stream_with_retry cfg tools msgs sys key start w = Some (r, w') \<Longrightarrow> streams w w'"
  by (auto simp: stream_with_retry_def Let_def split: option.splits if_splits
      dest!: streams_single streams_fallbacks intro: streams_trans)

section \<open>The message life cycle\<close>

text \<open>
  What one model call adds to the stream after its \<open>MessageStart\<close>: the deltas of its last
  attempt and one closing \<open>MessageEnd\<close>, or nothing when the error is left to a fallback model.
\<close>

definition message_tail :: "bool \<Rightarrow> stream_result \<Rightarrow> agent_event list \<Rightarrow> bool" where
  "message_tail defer r es =
     (case r of
        ResMessage m \<Rightarrow> (\<exists>ds. es = map MessageUpdate ds @ [MessageEnd m]) \<or> (defer \<and> falls_back r \<and> es = [])
      | ResContextOverflow \<Rightarrow> es = []
      | ResAborted \<Rightarrow> es = [] \<or> (\<exists>ds m. es = map MessageUpdate ds @ [MessageEnd m] \<and> am_stop_reason m = SrAborted)
      | ResChannelClosed \<Rightarrow> False)"

lemma emit_attempt_deltas_open:
  "w_rx_limit w = None \<Longrightarrow>
     emit_attempt_deltas es w = (None, w\<lparr>w_sent := w_sent w @ map MessageUpdate (List.map_filter delta_of es)\<rparr>)"
proof (induction es arbitrary: w)
  case (Cons e es)
  then show ?case
    by (cases "delta_of e") (simp_all add: emit_delta_event_def emit_unlimited List.map_filter_simps)
qed (simp add: List.map_filter_simps)

lemma sent_attempt_loop: "w_sent (snd (attempt_loop cfg es events err w)) = w_sent w
    \<and> (\<forall>r evs. fst (attempt_loop cfg es events err w) = EarlyExit r evs \<longrightarrow> r = ResAborted)"
  by (induction es arbitrary: events err w) (auto simp: is_cancelled_def tock_def split: if_splits)

lemma single_attempt_quiet:
  assumes "stream_single_attempt cfg call msgs w = (r, w')"
  shows "w_sent w' = w_sent w" "w_rx_limit w' = w_rx_limit w" "r = EarlyExit res evs \<Longrightarrow> res = ResAborted"
proof -
  from streams_single_attempt[OF assms] show "w_rx_limit w' = w_rx_limit w" by (simp add: streams_def sends_def)
  from assms obtain es where "attempt_loop cfg es [] None (tock w) = (r, w')" by (auto simp: stream_single_attempt_def Let_def)
  with sent_attempt_loop[of cfg es "[]" None "tock w"]
  show "w_sent w' = w_sent w" "r = EarlyExit res evs \<Longrightarrow> res = ResAborted" by (auto simp: tock_def)
qed

definition error_of :: "model_spec \<Rightarrow> stream_error_info \<Rightarrow> agent_error" where
  "error_of model err =
     classify_stream_error_for_model (ms_model_id model) (ei_error_message err) (ei_stop_reason err) (ei_error_kind err)"

fun plain_error :: "agent_error \<Rightarrow> bool" where
  "plain_error (ContextWindowOverflow _) = False"
| "plain_error CacheMiss = False"
| "plain_error Aborted = False"
| "plain_error _ = True"

lemma handle_stream_error_overflow:
  "error_of model err = ContextWindowOverflow x \<Longrightarrow> handle_stream_error cfg model err a w = (ActContextOverflow, w)"
  by (simp add: handle_stream_error_def error_of_def Let_def)

lemma handle_stream_error_aborted:
  "error_of model err = Aborted \<Longrightarrow> handle_stream_error cfg model err a w =
     (ActFatalError ResAborted (build_abort_message (now_timestamp cfg w) model), w)"
  by (simp add: handle_stream_error_def error_of_def Let_def)

lemma handle_stream_error_cache_miss:
  "error_of model err = CacheMiss \<Longrightarrow> handle_stream_error cfg model err a w =
     (let w' = w\<lparr>w_cache := cache_reset (w_cache w)\<rparr> in
      if retry_should (cfg_retry_strategy cfg) (w_tick w) CacheMiss a
      then (ActRetry (retry_delay_of (cfg_retry_strategy cfg) (w_tick w) a) (Some (cs_cached_prefix_len (w_cache w))), tock w')
      else fatal_error cfg model CacheMiss (tock w'))"
  by (simp add: handle_stream_error_def error_of_def Let_def)

lemma handle_stream_error_plain:
  "plain_error (error_of model err) \<Longrightarrow> handle_stream_error cfg model err a w =
     (if retry_should (cfg_retry_strategy cfg) (w_tick w) (error_of model err) a
      then (ActRetry (case ei_retry_after err of Some d \<Rightarrow> d
              | None \<Rightarrow> retry_delay_of (cfg_retry_strategy cfg) (w_tick w) a) None, tock w)
      else fatal_error cfg model (error_of model err) (tock w))"
  unfolding handle_stream_error_def error_of_def[symmetric] Let_def
  by (cases "error_of model err") simp_all

fun act_ok :: "(agent_error \<Rightarrow> bool) \<Rightarrow> stream_error_action \<Rightarrow> bool" where
  "act_ok should ActContextOverflow = True"
| "act_ok should (ActRetry _ _) = (\<exists>e. should e)"
| "act_ok should (ActFatalError (ResMessage m) m') = (m = m' \<and> am_stop_reason m = SrError)"
| "act_ok should (ActFatalError ResAborted m) = (am_stop_reason m = SrAborted)"
| "act_ok should _ = False"

lemma handle_error_cases:
  "quiet w (snd (handle_stream_error cfg model err a w))
   \<and> act_ok (\<lambda>e. retry_should (cfg_retry_strategy cfg) (w_tick w) e a) (fst (handle_stream_error cfg model err a w))"
proof -
  consider x where "error_of model err = ContextWindowOverflow x" | "error_of model err = CacheMiss"
    | "error_of model err = Aborted" | "plain_error (error_of model err)"
    by (cases "error_of model err") simp_all
  then show ?thesis
  proof cases
    case 1
    then show ?thesis by (simp add: handle_stream_error_overflow)
  next
    case 2
    then show ?thesis by (auto simp: handle_stream_error_cache_miss Let_def fatal_error_def quiet_def tock_def)
  next
    case 3
    then show ?thesis by (simp add: handle_stream_error_aborted)
  next
    case 4
    then show ?thesis by (auto simp: handle_stream_error_plain Let_def fatal_error_def quiet_def tock_def)
  qed
qed

lemma prepare_quiet:
  assumes "prepare_cache_miss_retry cfg msgs prior w = (msgs', w')"
  shows "w_sent w' = w_sent w" "w_rx_limit w' = w_rx_limit w"
  using assms by (auto simp: prepare_cache_miss_retry_def Let_def split: option.splits if_splits)

lemma finish_tails:
  assumes "w_rx_limit w = None"
  shows "\<exists>es. w_sent (snd (finish_success cfg model events w)) = w_sent w @ es
      \<and> message_tail False (fst (finish_success cfg model events w)) es"
    and "\<exists>es. w_sent (snd (finish_early_exit cfg model ResAborted events w)) = w_sent w @ es
      \<and> message_tail False (fst (finish_early_exit cfg model ResAborted events w)) es"
    and "(res = ResMessage m \<and> am_stop_reason m = SrError) \<or> (res = ResAborted \<and> am_stop_reason m = SrAborted) \<Longrightarrow>
      \<exists>es. w_sent (snd (finish_fatal call res m events w)) = w_sent w @ es
      \<and> message_tail (call_defer_fatal call) (fst (finish_fatal call res m events w)) es"
  using assms
  by (auto simp: finish_success_def finish_early_exit_def finish_fatal_def finalize_stream_message_def Let_def
      emit_attempt_deltas_open emit_unlimited message_tail_def split: sum.splits)

lemma message_tail_mono: "message_tail False r es \<Longrightarrow> message_tail d r es"
  by (auto simp: message_tail_def split: stream_result.splits)

lemma streams_early: "streams w (snd (finish_early_exit cfg model result events w))"
  by (rule streams_finish_early[of _ _ _ _ _ "fst (finish_early_exit cfg model result events w)"]) simp

lemma streams_success: "streams w (snd (finish_success cfg model events w))"
  by (rule streams_finish_success[of _ _ _ _ "fst (finish_success cfg model events w)"]) simp

lemma streams_fatal: "streams w (snd (finish_fatal call result message events w))"
  by (rule streams_finish_fatal[of _ _ _ _ _ "fst (finish_fatal call result message events w)"]) simp

text \<open>
  A whole call: its last tail, after the tails of the models that failed before it, each followed
  by the notice of the next fallback.
\<close>

inductive call_trace :: "model_spec \<Rightarrow> stream_result \<Rightarrow> agent_event list \<Rightarrow> bool" for c where
  final: "message_tail False r es \<Longrightarrow> call_trace c r es"
| fallback: "message_tail True r' es' \<Longrightarrow> falls_back r' \<Longrightarrow> call_trace c r es \<Longrightarrow>
     call_trace c r (es' @ ModelFallback c m # es)"

text \<open>What one iteration adds to the stream, and when it asks for another one.\<close>

lemma retry_step_open:
  assumes "w_rx_limit w = None"
  shows "case retry_step cfg call a msgs w of
      Inl (r, w') \<Rightarrow> w_rx_limit w' = None \<and> (r = ResAborted \<and> w_sent w' = w_sent w \<or>
        (\<exists>es. w_sent w' = w_sent w @ (if call_emit_message_start call \<and> a = 1 then [MessageStart] else []) @ es
              \<and> message_tail (call_defer_fatal call) r es))
    | Inr (msgs', w') \<Rightarrow> w_rx_limit w' = None
        \<and> w_sent w' = w_sent w @ (if call_emit_message_start call \<and> a = 1 then [MessageStart] else [])
        \<and> (\<exists>t e. retry_should (cfg_retry_strategy cfg) t e a)"
proof -
  let ?pre = "if call_emit_message_start call \<and> a = 1 then [MessageStart] else []"
  let ?w1 = "tock w"
  let ?w2 = "?w1\<lparr>w_sent := w_sent w @ ?pre\<rparr>"
  have w1: "w_rx_limit ?w1 = None" "w_sent ?w1 = w_sent w" using assms by (simp_all add: tock_def)
  have pre: "(if call_emit_message_start call \<and> a = 1 then emit MessageStart ?w1 else (True, ?w1)) = (True, ?w2)"
    using w1 by (simp add: emit_unlimited)
  obtain r w3 where r: "stream_single_attempt cfg call msgs ?w2 = (r, w3)" by force
  have w3: "w_rx_limit w3 = None" "w_sent w3 = w_sent w @ ?pre"
    using single_attempt_quiet(1,2)[OF r] w1(1) by simp_all
  have tails: "case Inl p of
      Inl (r, w') \<Rightarrow> w_rx_limit w' = None \<and> (r = ResAborted \<and> w_sent w' = w_sent w \<or>
        (\<exists>es. w_sent w' = w_sent w @ ?pre @ es \<and> message_tail (call_defer_fatal call) r es)) | Inr q \<Rightarrow> R q"
    if "\<exists>es. w_sent (snd p) = w_sent w3 @ es \<and> message_tail False (fst p) es" "streams w3 (snd p)" for p R
    using that w3 message_tail_mono by (cases p) (auto simp: streams_def sends_def)
  show ?thesis
  proof (cases "cfg_cancelled cfg (w_tick w)")
    case True
    then show ?thesis using w1 by (simp add: retry_step_def is_cancelled_def)
  next
    case False
    note step = retry_step_def[of cfg call a msgs w, unfolded is_cancelled_def prod.case pre r]
    show ?thesis
    proof (cases r)
      case (EarlyExit res events)
      then have "res = ResAborted" using single_attempt_quiet(3)[OF r] by simp
      with EarlyExit False have st: "retry_step cfg call a msgs w = Inl (finish_early_exit cfg (call_model call) ResAborted events w3)"
        by (simp add: step)
      show ?thesis unfolding st by (rule tails[OF finish_tails(2)[OF w3(1)] streams_early])
    next
      case (Collected events had)
      show ?thesis
      proof (cases had)
        case None
        with Collected False have st: "retry_step cfg call a msgs w = Inl (finish_success cfg (call_model call) events w3)"
          by (simp add: step)
        show ?thesis unfolding st by (rule tails[OF finish_tails(1)[OF w3(1)] streams_success])
      next
        case (Some err)
        obtain act w4 where act: "handle_stream_error cfg (call_model call) err a w3 = (act, w4)" by force
        have w4: "w_rx_limit w4 = None" "w_sent w4 = w_sent w @ ?pre"
          and ok: "act_ok (\<lambda>e. retry_should (cfg_retry_strategy cfg) (w_tick w3) e a) act"
          using handle_error_cases[of w3 cfg "call_model call" err a] w3 by (auto simp: act quiet_def)
        show ?thesis
        proof (cases act)
          case ActContextOverflow
          with Collected Some False act w4 show ?thesis by (simp add: step message_tail_def)
        next
          case (ActRetry d pr)
          with Collected Some False act w4 ok show ?thesis
            by (cases pr) (auto simp: step split: prod.splits dest: prepare_quiet)
        next
          case (ActFatalError res m)
          have "(res = ResMessage m \<and> am_stop_reason m = SrError) \<or> (res = ResAborted \<and> am_stop_reason m = SrAborted)"
            using ok ActFatalError by (cases res) auto
          note t = finish_tails(3)[OF w4(1) this, of call events]
          from Collected Some False act ActFatalError
          have st: "retry_step cfg call a msgs w = Inl (finish_fatal call res m events w4)" by (simp add: step)
          show ?thesis unfolding st
            using t streams_fatal[of w4 call res m events] w4
            by (cases "finish_fatal call res m events w4") (auto simp: streams_def sends_def)
        qed
      qed
    qed
  qed
qed

section \<open>Bounded strategies\<close>

text \<open>
  The contract the loop relies on to terminate: from some attempt on, the strategy does not ask
  for another one.
\<close>

locale bounded_retry =
  fixes cfg :: agent_loop_config and limit :: u32
  assumes gives_up: "limit \<le> a \<Longrightarrow> \<not> retry_should (cfg_retry_strategy cfg) t e a"
begin

lemma retry_loop_lifecycle:
  assumes "w_rx_limit w = None" "a = 0 \<or> a < limit"
  shows "\<exists>r w'. retry_loop cfg call a msgs w = Some (r, w') \<and> w_rx_limit w' = None
    \<and> (r = ResAborted \<and> w_sent w' = w_sent w \<or>
       (\<exists>es. w_sent w' = w_sent w @ (if call_emit_message_start call \<and> a = 0 then [MessageStart] else []) @ es
             \<and> message_tail (call_defer_fatal call) r es))"
  using assms
proof (induction "unat limit - unat a" arbitrary: a msgs w rule: less_induct)
  case less
  have one: "a + 1 = 1 \<longleftrightarrow> a = 0" by (metis add.right_neutral add.commute add_left_cancel)
  note step = retry_step_open[OF less.prems(1), where cfg = cfg and call = call and a = "a + 1" and msgs = msgs]
  show ?case
  proof (cases "retry_step cfg call (a + 1) msgs w")
    case (Inl p)
    then show ?thesis using step by (cases p) (simp add: retry_loop.simps one)
  next
    case (Inr q)
    obtain msgs' w1 where q: "q = (msgs', w1)" by (cases q)
    from step Inr q obtain t e where w1: "w_rx_limit w1 = None"
      and s1: "w_sent w1 = w_sent w @ (if call_emit_message_start call \<and> a = 0 then [MessageStart] else [])"
      and again: "retry_should (cfg_retry_strategy cfg) t e (a + 1)" by (auto simp: one)
    from again gives_up[of "a + 1" t e] have lt: "a + 1 < limit" by (meson not_le)
    have "a + 1 \<noteq> 0"
    proof
      assume "a + 1 = 0"
      then have "a = - 1" by (simp add: eq_neg_iff_add_eq_0)
      with less.prems(2) word_n1_ge[of limit] show False by auto
    qed
    then have "unat (a + 1) = unat a + 1" by (metis Suc_eq_plus1 add.commute unatSuc)
    moreover have "unat (a + 1) < unat limit" using lt by (simp add: word_less_nat_alt)
    ultimately have "unat limit - unat (a + 1) < unat limit - unat a" by linarith
    from less.hyps[OF this w1, of msgs'] lt \<open>a + 1 \<noteq> 0\<close> obtain r w' where
      run: "retry_loop cfg call (a + 1) msgs' w1 = Some (r, w')" and lim: "w_rx_limit w' = None"
      and sh: "r = ResAborted \<and> w_sent w' = w_sent w1 \<or>
         (\<exists>es. w_sent w' = w_sent w1 @ es \<and> message_tail (call_defer_fatal call) r es)" by auto
    have "retry_loop cfg call a msgs w = Some (r, w')" using Inr q run by (simp add: retry_loop.simps)
    moreover have "message_tail (call_defer_fatal call) ResAborted []" by (simp add: message_tail_def)
    ultimately show ?thesis using lim sh s1 by (intro exI[of _ r] exI[of _ w']) auto
  qed
qed

lemma single_lifecycle:
  assumes "w_rx_limit w = None"
  shows "\<exists>r w'. stream_with_retry_single cfg call msgs w = Some (r, w') \<and> w_rx_limit w' = None
    \<and> (r = ResAborted \<and> w_sent w' = w_sent w \<or>
       (\<exists>es. w_sent w' = w_sent w @ (if call_emit_message_start call then [MessageStart] else []) @ es
             \<and> message_tail (call_defer_fatal call) r es))"
  using retry_loop_lifecycle[OF assms, of 0 call msgs] by (simp add: stream_with_retry_single_def)

lemma fallbacks_lifecycle:
  assumes "w_rx_limit w = None" "fbs \<noteq> []"
  shows "\<exists>r w' es m. try_fallbacks cfg call msgs fbs lr w = Some (r, w') \<and> w_rx_limit w' = None
    \<and> w_sent w' = w_sent w @ ModelFallback (cfg_model cfg) m # es \<and> call_trace (cfg_model cfg) r es"
  using assms
proof (induction fbs arbitrary: lr w)
  case (Cons fb rest)
  obtain fm fs where fb: "fb = (fm, fs)" by (cases fb)
  let ?call = "call\<lparr>call_model := fm, call_stream_fn := fs, call_emit_message_start := False, call_defer_fatal := rest \<noteq> []\<rparr>"
  let ?w = "w\<lparr>w_sent := w_sent w @ [ModelFallback (cfg_model cfg) fm]\<rparr>"
  have "w_rx_limit ?w = None" using Cons.prems(1) by simp
  from single_lifecycle[OF this, of ?call msgs] obtain r w1 where
    run: "stream_with_retry_single cfg ?call msgs ?w = Some (r, w1)" and lim: "w_rx_limit w1 = None"
    and sh: "r = ResAborted \<and> w_sent w1 = w_sent ?w \<or> (\<exists>es. w_sent w1 = w_sent ?w @ es \<and> message_tail (rest \<noteq> []) r es)"
    by auto
  from sh obtain es where es: "w_sent w1 = w_sent w @ ModelFallback (cfg_model cfg) fm # es" "message_tail (rest \<noteq> []) r es"
    by (auto simp: message_tail_def)
  have unf: "try_fallbacks cfg call msgs (fb # rest) lr w =
      (if falls_back r then try_fallbacks cfg call msgs rest r w1 else Some (r, w1))"
    using Cons.prems(1) fb run by (simp add: emit_unlimited)
  show ?case
  proof (cases "falls_back r \<and> rest \<noteq> []")
    case True
    then have "rest \<noteq> []" by simp
    from Cons.IH[OF lim this, of r] obtain r' w' es' m where rec:
      "try_fallbacks cfg call msgs rest r w1 = Some (r', w')" "w_rx_limit w' = None"
      "w_sent w' = w_sent w1 @ ModelFallback (cfg_model cfg) m # es'" "call_trace (cfg_model cfg) r' es'" by blast
    have "call_trace (cfg_model cfg) r' (es @ ModelFallback (cfg_model cfg) m # es')"
      using es(2) True rec(4) by (intro call_trace.fallback[of r]) auto
    with True unf es(1) rec show ?thesis by auto
  next
    case False
    then have "message_tail False r es" using es(2) by (auto simp: message_tail_def split: stream_result.splits)
    then have "call_trace (cfg_model cfg) r es" by (rule call_trace.final)
    moreover have "try_fallbacks cfg call msgs (fb # rest) lr w = Some (r, w1)" using False unf by auto
    ultimately show ?thesis using lim es(1) by auto
  qed
qed simp

lemma stream_with_retry_lifecycle:
  assumes "w_rx_limit w = None"
  shows "\<exists>r w'. stream_with_retry cfg tools msgs sys key start w = Some (r, w') \<and> w_rx_limit w' = None
    \<and> (r = ResAborted \<and> w_sent w' = w_sent w \<or>
       (\<exists>es. w_sent w' = w_sent w @ (if start then [MessageStart] else []) @ es \<and> call_trace (cfg_model cfg) r es
          \<and> (fallback_models cfg = [] \<longrightarrow> message_tail False r es)))"
proof -
  let ?fbs = "fallback_models cfg"
  let ?call = "\<lparr>call_model = cfg_model cfg, call_stream_fn = cfg_stream_fn cfg, call_tools = tools,
                  call_system_prompt = sys, call_api_key = key,
                  call_emit_message_start = start, call_defer_fatal = ?fbs \<noteq> []\<rparr>"
  from single_lifecycle[OF assms, of ?call msgs] obtain r w1 where
    run: "stream_with_retry_single cfg ?call msgs w = Some (r, w1)" and lim: "w_rx_limit w1 = None"
    and sh: "r = ResAborted \<and> w_sent w1 = w_sent w \<or>
      (\<exists>es. w_sent w1 = w_sent w @ (if start then [MessageStart] else []) @ es \<and> message_tail (?fbs \<noteq> []) r es)" by auto
  show ?thesis
  proof (cases "falls_back r \<and> ?fbs \<noteq> []")
    case True
    then have ne: "?fbs \<noteq> []" by simp
    from fallbacks_lifecycle[OF lim ne, of ?call msgs r] obtain r' w' es' m where rec:
      "try_fallbacks cfg ?call msgs ?fbs r w1 = Some (r', w')" "w_rx_limit w' = None"
      "w_sent w' = w_sent w1 @ ModelFallback (cfg_model cfg) m # es'" "call_trace (cfg_model cfg) r' es'" by blast
    from True sh obtain es where es: "w_sent w1 = w_sent w @ (if start then [MessageStart] else []) @ es"
      "message_tail True r es" by (cases r) auto
    have "call_trace (cfg_model cfg) r' (es @ ModelFallback (cfg_model cfg) m # es')"
      using es(2) True rec(4) by (intro call_trace.fallback[of r]) auto
    moreover have "stream_with_retry cfg tools msgs sys key start w = Some (r', w')"
      using run True rec(1) by (simp add: stream_with_retry_def)
    ultimately show ?thesis using rec es(1) ne by auto
  next
    case False
    have "stream_with_retry cfg tools msgs sys key start w = Some (r, w1)"
      using run False by (auto simp: stream_with_retry_def)
    moreover have "message_tail (?fbs \<noteq> []) r es \<Longrightarrow> message_tail False r es" for es
      using False by (auto simp: message_tail_def split: stream_result.splits)
    ultimately show ?thesis using lim sh call_trace.final[of r _ "cfg_model cfg"] by blast
  qed
qed

end

text \<open>The strategy of \<^verbatim>\<open>retry.rs\<close>, with any delays, meets the contract.\<close>

definition with_default_retry ::
  "default_retry_strategy \<Rightarrow> (tick \<Rightarrow> u32 \<Rightarrow> duration) \<Rightarrow> agent_loop_config \<Rightarrow> agent_loop_config" where
  "with_default_retry rs delay cfg =
     cfg\<lparr>cfg_retry_strategy := \<lparr>retry_should = \<lambda>_ e a. should_retry rs e a, retry_delay_of = delay\<rparr>\<rparr>"

interpretation default_retry: bounded_retry "with_default_retry rs delay cfg" "rs_max_attempts rs"
  for rs delay cfg
  by unfold_locales (simp add: with_default_retry_def should_retry_def)

lemma call_trace_events:
  "call_trace c r es \<Longrightarrow> r \<noteq> ResChannelClosed \<and> list_all (\<lambda>e. is_stream_event e \<and> e \<noteq> MessageStart) es
     \<and> (\<forall>m. r = ResMessage m \<longrightarrow> es \<noteq> [] \<and> last es = MessageEnd m)"
proof (induction rule: call_trace.induct)
  case (final r es)
  then show ?case by (auto simp: message_tail_def list_all_iff split: stream_result.splits)
next
  case (fallback r' es' r es m)
  then show ?case by (auto simp: message_tail_def list_all_iff split: stream_result.splits)
qed



section \<open>An open channel\<close>

text \<open>With the receiver in place no call ends with a closed channel, whatever the retry strategy.\<close>

lemma retry_loop_not_closed:
  "retry_loop cfg call a msgs w = Some p \<Longrightarrow> w_rx_limit w = None \<longrightarrow> fst p \<noteq> ResChannelClosed"
proof (rule retry_loop.raw_induct[where P = "\<lambda>cfg call a msgs w p. w_rx_limit w = None \<longrightarrow> fst p \<noteq> ResChannelClosed"])
  fix loop :: "agent_loop_config \<Rightarrow> model_call \<Rightarrow> u32 \<Rightarrow> llm_message list \<Rightarrow> world \<Rightarrow> (stream_result \<times> world) option"
  fix cfg call a msgs w p
  assume ih: "\<And>cfg call a msgs w p. loop cfg call a msgs w = Some p \<Longrightarrow> w_rx_limit w = None \<longrightarrow> fst p \<noteq> ResChannelClosed"
    and run: "(case retry_step cfg call (a + 1) msgs w of Inl r \<Rightarrow> Some r
        | Inr (msgs', w') \<Rightarrow> loop cfg call (a + 1) msgs' w') = Some p"
  show "w_rx_limit w = None \<longrightarrow> fst p \<noteq> ResChannelClosed"
  proof
    assume "w_rx_limit w = None"
    note step = retry_step_open[OF this, where cfg = cfg and call = call and a = "a + 1" and msgs = msgs]
    show "fst p \<noteq> ResChannelClosed"
    proof (cases "retry_step cfg call (a + 1) msgs w")
      case (Inl r)
      with run step show ?thesis by (auto simp: message_tail_def)
    next
      case (Inr q)
      with run step show ?thesis by (cases q) (auto dest!: ih)
    qed
  qed
qed

lemma fallbacks_not_closed:
  "try_fallbacks cfg call msgs fbs lr w = Some (r, w') \<Longrightarrow> w_rx_limit w = None \<Longrightarrow> lr \<noteq> ResChannelClosed \<Longrightarrow> r \<noteq> ResChannelClosed"
proof (induction cfg call msgs fbs lr w rule: try_fallbacks.induct)
  case (2 cfg call msgs fb_model fb_stream_fn rest last_result w)
  let ?w = "w\<lparr>w_sent := w_sent w @ [ModelFallback (cfg_model cfg) fb_model]\<rparr>"
  let ?call = "call\<lparr>call_model := fb_model, call_stream_fn := fb_stream_fn, call_emit_message_start := False,
    call_defer_fatal := rest \<noteq> []\<rparr>"
  from 2(2,3) obtain r1 w1 where run: "stream_with_retry_single cfg ?call msgs ?w = Some (r1, w1)"
    by (auto simp: emit_unlimited split: option.splits)
  have r1: "r1 \<noteq> ResChannelClosed"
    using retry_loop_not_closed[of cfg ?call 0 msgs ?w "(r1, w1)"] run 2(3) by (simp add: stream_with_retry_single_def)
  have "w_rx_limit w1 = None" using streams_single[OF run] 2(3) by (simp add: streams_def sends_def)
  then show ?case using 2(1)[of True ?w "(r1, w1)" r1 w1] 2(2,3) run r1
    by (auto simp: emit_unlimited split: if_splits)
qed auto

lemma stream_not_closed:
  assumes "stream_with_retry cfg tools msgs sys key start w = Some (r, w')" "w_rx_limit w = None"
  shows "r \<noteq> ResChannelClosed"
proof -
  from assms(1) obtain call r1 w1 where run: "stream_with_retry_single cfg call msgs w = Some (r1, w1)"
    and rest: "(if falls_back r1 then try_fallbacks cfg call msgs (fallback_models cfg) r1 w1 else Some (r1, w1)) = Some (r, w')"
    by (auto simp: stream_with_retry_def Let_def split: option.splits)
  have r1: "r1 \<noteq> ResChannelClosed"
    using retry_loop_not_closed[of cfg call 0 msgs w "(r1, w1)"] run assms(2) by (simp add: stream_with_retry_single_def)
  have "w_rx_limit w1 = None" using streams_single[OF run] assms(2) by (simp add: streams_def sends_def)
  with r1 rest show ?thesis by (auto split: if_splits dest: fallbacks_not_closed)
qed

section \<open>Where the error text decides\<close>

text \<open>
  Only throttling is eligible for a model fallback: once retries are exhausted the error
  kind is gone and the message text decides. The message of a throttled call is eligible; any
  error message is eligible only if its text reads as throttling, so the network error of a
  dropped connection, retryable until then, never reaches the fallback models.
\<close>

theorem network_errors_not_fallback_eligible:
  "is_fallback_eligible_error (build_error_message now model ModelThrottled)
   \<and> (is_fallback_eligible_error (build_error_message now model e) \<longleftrightarrow>
        classify_stream_error (format_error_with_sources e) SrError None = ModelThrottled)
   \<and> is_retryable (NetworkError [''connection reset by peer''])
   \<and> \<not> is_fallback_eligible_error (build_error_message now model (NetworkError [''connection reset by peer'']))"
proof -
  have el: "is_fallback_eligible_error (build_error_message now model e) \<longleftrightarrow>
      is_retryable (classify_stream_error (format_error_with_sources e) SrError None)" for e
    by (simp add: is_fallback_eligible_error_def)
  have thr: "is_retryable (classify_stream_error s SrError None) \<longleftrightarrow> classify_stream_error s SrError None = ModelThrottled" for s
    by (simp add: classify_stream_error_def classify_stream_error_for_model_def Let_def)
  have "classify_stream_error (format_error_with_sources ModelThrottled) SrError None = ModelThrottled" by code_simp
  moreover have "is_retryable (classify_stream_error
      (format_error_with_sources (NetworkError [''connection reset by peer''])) SrError None) = False" by code_simp
  ultimately show ?thesis by (simp add: el thr)
qed

text \<open>
  A malformed response can be taken for throttling: when the collected events do not form a
  message, the description of the defect goes through the same text matching, so a JSON syntax
  error at column 429 closes the message with \<open>MessageEnd\<close> and then still counts as a
  throttled call that moves on to the next model.
\<close>

theorem malformed_response_reads_as_throttled:
  assumes "accumulate_message (cfg_from_str cfg) (now_timestamp cfg w) events (ms_provider model) (ms_model_id model)
      = Inl ''ToolCallEnd: failed to parse arguments JSON: EOF while parsing a string at line 1 column 429''"
    and "finalize_stream_message cfg model events w = (r, w')"
  shows "falls_back r \<and> (rx_open w \<longrightarrow> (\<exists>m. r = ResMessage m \<and> w_sent w' = w_sent w @ [MessageEnd m]))"
proof -
  let ?e = "StreamError [''ToolCallEnd: failed to parse arguments JSON: EOF while parsing a string at line 1 column 429'']"
  have "is_retryable (classify_stream_error (format_error_with_sources ?e) SrError None) = True" by code_simp
  with assms show ?thesis
    by (auto simp: finalize_stream_message_def Let_def is_fallback_eligible_error_def emit_def)
qed

theorem malformed_response_reads_as_throttled_witness:
  "falls_back (fst (finalize_stream_message
      ((example_cfg (\<lambda>_ _ _ _. []) (\<lambda>_. False))\<lparr>cfg_from_str := \<lambda>_. Inl ''EOF while parsing a string at line 1 column 429''\<rparr>)
      (model_spec_new ''p'' ''m'') [Start, ToolCallStart 0 ''1'' ''t'', ToolCallDelta 0 ''{'', ToolCallEnd 0, Done SrToolUse usage_default cost_default]
      example_world))"
proof -
  let ?cfg = "(example_cfg (\<lambda>_ _ _ _. []) (\<lambda>_. False))\<lparr>cfg_from_str := \<lambda>_. Inl ''EOF while parsing a string at line 1 column 429''\<rparr>"
  let ?es = "[Start, ToolCallStart 0 ''1'' ''t'', ToolCallDelta 0 ''{'', ToolCallEnd 0, Done SrToolUse usage_default cost_default]"
  have a: "accumulate_message (cfg_from_str ?cfg) (now_timestamp ?cfg example_world) ?es
      (ms_provider (model_spec_new ''p'' ''m'')) (ms_model_id (model_spec_new ''p'' ''m''))
      = Inl ''ToolCallEnd: failed to parse arguments JSON: EOF while parsing a string at line 1 column 429''"
    by (simp add: accumulate_eval)
  have f: "finalize_stream_message ?cfg (model_spec_new ''p'' ''m'') ?es example_world
      = (fst (finalize_stream_message ?cfg (model_spec_new ''p'' ''m'') ?es example_world),
         snd (finalize_stream_message ?cfg (model_spec_new ''p'' ''m'') ?es example_world))" by simp
  from malformed_response_reads_as_throttled [OF a f] show ?thesis by blast
qed

text \<open>
  Cancelling during the back-off leaves the message open: when the first attempt asked for a
  retry and the token is cancelled before the second one, the call returns aborted with its
  \<open>MessageStart\<close> as the only event, and no \<open>MessageEnd\<close> is sent for it.
\<close>

theorem cancelled_backoff_leaves_message_open:
  assumes "w_rx_limit w = None" "call_emit_message_start call"
    and "retry_step cfg call 1 msgs w = Inr (msgs', w1)" "cfg_cancelled cfg (w_tick w1)"
  shows "\<exists>w'. stream_with_retry_single cfg call msgs w = Some (ResAborted, w') \<and> w_sent w' = w_sent w @ [MessageStart]"
proof -
  have s: "w_sent w1 = w_sent w @ [MessageStart]"
    using retry_step_open[OF assms(1), where cfg = cfg and call = call and a = 1 and msgs = msgs] assms(2,3) by simp
  have "retry_step cfg call 2 msgs' w1 = Inl (ResAborted, tock w1)"
    using assms(4) by (simp add: retry_step_def is_cancelled_def)
  with assms(3) s show ?thesis
    by (simp add: stream_with_retry_single_def retry_loop.simps[of _ _ 0] retry_loop.simps[of _ _ 1] tock_def)
qed

theorem cancelled_backoff_leaves_message_open_witness:
  "\<exists>w'. stream_with_retry_single
      (example_cfg (\<lambda>_ _ _ _. [Error SrError ''slow down'' None (Some Throttled) None]) (\<lambda>t. t = 6))
      \<lparr>call_model = model_spec_new ''p'' ''m'',
       call_stream_fn = \<lambda>_ _ _ _. [Error SrError ''slow down'' None (Some Throttled) None], call_tools = [],
       call_system_prompt = [], call_api_key = None, call_emit_message_start = True, call_defer_fatal = False\<rparr>
      [] example_world = Some (ResAborted, w') \<and> w_sent w' = [MessageStart]"
proof -
  let ?sf = "\<lambda>_ _ _ _. [Error SrError ''slow down'' None (Some Throttled) None]"
  let ?cfg = "example_cfg ?sf (\<lambda>t. t = 6)"
  let ?call = "\<lparr>call_model = model_spec_new ''p'' ''m'', call_stream_fn = ?sf, call_tools = [],
       call_system_prompt = [], call_api_key = None, call_emit_message_start = True, call_defer_fatal = False\<rparr>"
  have lim: "w_rx_limit example_world = None" by (simp add: example_world_def)
  have three: "\<not> (3 :: u32) \<le> 1" by code_simp
  have r: "retry_step ?cfg ?call 1 [] example_world
      = Inr ([], example_world\<lparr>w_sent := [MessageStart], w_tick := 6\<rparr>)"
    by (simp add: retry_step_def example_cfg_def example_world_def is_cancelled_def tock_def emit_unlimited
        stream_single_attempt_def handle_stream_error_def classify_stream_error_for_model_def should_retry_def
        default_retry_def Let_def three eval_nat_numeral)
  have c: "cfg_cancelled ?cfg (w_tick (example_world\<lparr>w_sent := [MessageStart], w_tick := 6\<rparr>))"
    by (simp add: example_cfg_def)
  have s: "call_emit_message_start ?call" by simp
  from cancelled_backoff_leaves_message_open [OF lim s r c] show ?thesis by (simp add: example_world_def)
qed

end
