(* ===== verification/Policies.thy ===== *)
theory Policies
  imports Policy_Slots Agent_Transfer
begin

text \<open>
  The governance policies of the \<^verbatim>\<open>policies\<close> crate: budget, maximum turns, tool deny list
  and loop detection. \<open>fmt4\<close> renders an \<^verbatim>\<open>f64\<close> with four decimals and
  \<open>content_json\<close> serializes content blocks; both only reach message texts and fingerprints.
\<close>

section \<open>Budget\<close>

record budget_policy =
  bp_max_cost :: "f64 option"
  bp_max_input :: "u64 option"
  bp_max_output :: "u64 option"

definition budget_evaluate :: "(f64 \<Rightarrow> string) \<Rightarrow> budget_policy \<Rightarrow> policy_context \<Rightarrow> policy_verdict" where
  "budget_evaluate fmt4 bp ctx =
     (let cost = c_total (pc_accumulated_cost ctx);
          input = u_input (pc_accumulated_usage ctx);
          output = u_output (pc_accumulated_usage ctx)
      in if (case bp_max_cost bp of Some m \<Rightarrow> cost \<ge> m | None \<Rightarrow> False)
           then Stop (''budget exceeded: cost '' @ fmt4 cost @ '' >= limit '' @ fmt4 (the (bp_max_cost bp)))
         else if (case bp_max_input bp of Some m \<Rightarrow> input \<ge> m | None \<Rightarrow> False)
           then Stop (''budget exceeded: input tokens '' @ show_nat (unat input)
                  @ '' >= limit '' @ show_nat (unat (the (bp_max_input bp))))
         else if (case bp_max_output bp of Some m \<Rightarrow> output \<ge> m | None \<Rightarrow> False)
           then Stop (''budget exceeded: output tokens '' @ show_nat (unat output)
                  @ '' >= limit '' @ show_nat (unat (the (bp_max_output bp))))
         else Continue)"

definition budget_policy_of :: "(f64 \<Rightarrow> string) \<Rightarrow> budget_policy \<Rightarrow> pre_turn_policy" where
  "budget_policy_of fmt4 bp = \<lparr>pol_name = ''budget'', pol_evaluate = \<lambda>_ ctx. Some (budget_evaluate fmt4 bp ctx)\<rparr>"

section \<open>Maximum turns\<close>

definition max_turns_verdict :: "usize \<Rightarrow> usize \<Rightarrow> policy_verdict" where
  "max_turns_verdict max_turns turn_index =
     (if turn_index \<ge> max_turns
      then Stop (''max turns reached: '' @ show_nat turn_index @ '' >= '' @ show_nat max_turns)
      else Continue)"

definition max_turns_pre :: "usize \<Rightarrow> pre_turn_policy" where
  "max_turns_pre n = \<lparr>pol_name = ''max_turns'', pol_evaluate = \<lambda>_ ctx. Some (max_turns_verdict n (pc_turn_index ctx))\<rparr>"

definition max_turns_post :: "usize \<Rightarrow> post_turn_policy" where
  "max_turns_post n =
     \<lparr>pol_name = ''max_turns'', pol_evaluate = \<lambda>_ (ctx, turn). Some (max_turns_verdict n (pc_turn_index ctx))\<rparr>"

section \<open>Tool deny list\<close>

definition deny_list_evaluate :: "string list \<Rightarrow> tool_dispatch_context \<Rightarrow> pre_dispatch_verdict" where
  "deny_list_evaluate denied ctx =
     (if tdc_tool_name ctx \<in> set denied
      then PdSkip (''tool '' @ [CHR 0x27] @ tdc_tool_name ctx @ [CHR 0x27] @ '' is denied by policy'')
      else PdContinue)"

definition deny_list_policy :: "string list \<Rightarrow> pre_dispatch_policy" where
  "deny_list_policy denied =
     \<lparr>pd_name = ''tool_deny_list'', pd_evaluate = \<lambda>_ ctx. (Some (deny_list_evaluate denied ctx), tdc_arguments ctx)\<rparr>"

section \<open>Loop detection\<close>

datatype loop_detection_action = LdStop | LdInject string

type_synonym fingerprint = "(string \<times> json) list"

record loop_detection =
  ld_lookback :: usize
  ld_on_detect :: loop_detection_action
  ld_history :: "fingerprint list"

definition ld_new :: "usize \<Rightarrow> loop_detection" where
  "ld_new lookback = \<lparr>ld_lookback = lookback, ld_on_detect = LdStop, ld_history = []\<rparr>"

fun call_entry :: "content_block \<Rightarrow> (string \<times> string \<times> json) option" where
  "call_entry (ToolCall cid name arguments _) = Some (cid, name, arguments)"
| "call_entry _ = None"

definition extract_fingerprint ::
  "(content_block list \<Rightarrow> json) \<Rightarrow> turn_policy_context \<Rightarrow> fingerprint" where
  "extract_fingerprint content_json turn =
     (let tool_calls = map_of (rev (List.map_filter call_entry (am_content (tpc_assistant_message turn))))
      in map (\<lambda>tr. case tool_calls (tr_tool_call_id tr) of
                     Some (name, args) \<Rightarrow> (name, args)
                   | None \<Rightarrow> (''_unknown'', content_json (tr_content tr)))
             (tpc_tool_results turn))"

definition ld_is_stuck :: "loop_detection \<Rightarrow> bool" where
  "ld_is_stuck ld =
     (if length (ld_history ld) < ld_lookback ld then False
      else case take (ld_lookback ld) (rev (ld_history ld)) of
             [] \<Rightarrow> False
           | first # rest \<Rightarrow> list_all (\<lambda>turn. turn = first) rest)"

text \<open>The loop \<^verbatim>\<open>while history.len() > lookback + 1 { history.pop_front() }\<close>.\<close>

definition ld_push :: "fingerprint \<Rightarrow> loop_detection \<Rightarrow> loop_detection" where
  "ld_push fp ld =
     (let h = ld_history ld @ [fp] in ld\<lparr>ld_history := drop (length h - (ld_lookback ld + 1)) h\<rparr>)"

definition ld_evaluate :: "u64 \<Rightarrow> (content_block list \<Rightarrow> json) \<Rightarrow> turn_policy_context \<Rightarrow> loop_detection
    \<Rightarrow> policy_verdict \<times> loop_detection" where
  "ld_evaluate now content_json turn ld =
     (let ld' = ld_push (extract_fingerprint content_json turn) ld
      in ((if ld_is_stuck ld'
           then (case ld_on_detect ld' of
                   LdStop \<Rightarrow> Stop ''loop detected: repeated tool call pattern''
                 | LdInject message \<Rightarrow> Inject [Llm (User \<lparr>um_content = [Text message], um_timestamp = now,
                                                          um_cache_hint = None\<rparr>)])
           else Continue), ld'))"

section \<open>Limits are enforced whatever the other policies say\<close>

definition over_budget :: "budget_policy \<Rightarrow> policy_context \<Rightarrow> bool" where
  "over_budget bp ctx =
     ((\<exists>m. bp_max_cost bp = Some m \<and> m \<le> c_total (pc_accumulated_cost ctx))
      \<or> (\<exists>m. bp_max_input bp = Some m \<and> m \<le> u_input (pc_accumulated_usage ctx))
      \<or> (\<exists>m. bp_max_output bp = Some m \<and> m \<le> u_output (pc_accumulated_usage ctx)))"

lemma budget_evaluate_iff: "(\<exists>r. budget_evaluate fmt4 bp ctx = Stop r) \<longleftrightarrow> over_budget bp ctx"
  by (auto simp: budget_evaluate_def over_budget_def Let_def split: option.splits)

lemma budget_evaluate_Continue: "\<not> over_budget bp ctx \<Longrightarrow> budget_evaluate fmt4 bp ctx = Continue"
  by (auto simp: budget_evaluate_def over_budget_def Let_def split: option.splits)

text \<open>
  The budget is enforced: a pre-turn slot that contains the budget policy stops the loop as
  soon as the accumulated cost, input tokens or output tokens reach a configured limit, whatever
  the other policies of the slot say or inject; and the budget policy by itself never interferes
  below its limits.
\<close>

theorem budget_enforced:
  assumes "budget_policy_of fmt4 bp \<in> set policies" "over_budget bp ctx"
  shows "(\<exists>r. run_policies policies now ctx = Stop r)
    \<and> (\<forall>ctx'. \<not> over_budget bp ctx' \<longrightarrow> run_policies [budget_policy_of fmt4 bp] now ctx' = Continue)"
proof -
  obtain r where "pol_evaluate (budget_policy_of fmt4 bp) now ctx = Some (Stop r)"
    using assms(2) budget_evaluate_iff[of fmt4 bp ctx] by (auto simp: budget_policy_of_def)
  from run_slot_stops[OF assms(1) this] show ?thesis
    by (auto simp: run_policies_def budget_policy_of_def budget_evaluate_Continue)
qed

definition example_ctx :: "usize \<Rightarrow> u64 \<Rightarrow> policy_context" where
  "example_ctx turn out = \<lparr>pc_turn_index = turn, pc_accumulated_usage = usage_default\<lparr>u_output := out\<rparr>,
     pc_accumulated_cost = cost_default, pc_message_count = 0, pc_overflow_signal = False,
     pc_new_messages = [], pc_state = session_new\<rparr>"

theorem budget_enforced_witness:
  "\<exists>r. run_policies [budget_policy_of (\<lambda>_. []) \<lparr>bp_max_cost = None, bp_max_input = None, bp_max_output = Some 10\<rparr>] 0
      (example_ctx 0 12) = Stop r"
  using budget_enforced [of "\<lambda>_. []" "\<lparr>bp_max_cost = None, bp_max_input = None, bp_max_output = Some 10\<rparr>"
      "[budget_policy_of (\<lambda>_. []) \<lparr>bp_max_cost = None, bp_max_input = None, bp_max_output = Some 10\<rparr>]"
      "example_ctx 0 12" 0]
  by (auto simp: over_budget_def example_ctx_def)

text \<open>The deny list refuses its tools whatever the other policies of the slot say.\<close>

lemma deny_list_refuses:
  assumes "deny_list_policy denied \<in> set policies" "tdc_tool_name ctx \<in> set denied"
  shows "pd_refuses (Some (fst (run_pre_dispatch_policies policies now ctx)))"
proof -
  have "pd_refuses (fst (pd_evaluate (deny_list_policy denied) now (ctx\<lparr>tdc_arguments := args\<rparr>)))" for args
    using assms(2) by (simp add: deny_list_policy_def deny_list_evaluate_def)
  from run_pre_dispatch_refuses[OF assms(1) this, of "tdc_arguments ctx" "[]"] show ?thesis
    by (simp add: run_pre_dispatch_policies_def)
qed

section \<open>The bounded history of loop detection is enough\<close>

text \<open>The reference: the last \<open>n\<close> of all the fingerprints seen so far are equal.\<close>

definition repeats :: "nat \<Rightarrow> fingerprint list \<Rightarrow> bool" where
  "repeats n fps = (0 < n \<and> n \<le> length fps \<and> (\<forall>x \<in> set (take n (rev fps)). x = last fps))"

fun ld_run :: "u64 \<Rightarrow> (content_block list \<Rightarrow> json) \<Rightarrow> turn_policy_context list \<Rightarrow> loop_detection
    \<Rightarrow> policy_verdict list \<times> loop_detection" where
  "ld_run now content_json [] ld = ([], ld)"
| "ld_run now content_json (t # ts) ld =
     (case ld_evaluate now content_json t ld of (v, ld') \<Rightarrow>
        (case ld_run now content_json ts ld' of (vs, ld'') \<Rightarrow> (v # vs, ld'')))"

definition ld_window :: "loop_detection \<Rightarrow> fingerprint list \<Rightarrow> bool" where
  "ld_window ld fps = (ld_history ld = drop (length fps - (ld_lookback ld + 1)) fps)"

lemma ld_push_window: "ld_window ld fps \<Longrightarrow> ld_window (ld_push fp ld) (fps @ [fp])"
  unfolding ld_window_def ld_push_def Let_def
  by (simp add: drop_append) (rule arg_cong2[where f = drop], arith, rule refl)

lemma ld_is_stuck_iff:
  assumes "ld_window ld fps" "fps \<noteq> []"
  shows "ld_is_stuck ld \<longleftrightarrow> repeats (ld_lookback ld) fps"
proof -
  let ?n = "ld_lookback ld"
  have len: "length (ld_history ld) < ?n \<longleftrightarrow> length fps < ?n" using assms(1) by (auto simp: ld_window_def)
  have tk: "take ?n (rev (ld_history ld)) = take ?n (rev fps)"
    using assms(1) by (simp add: ld_window_def rev_drop min_def take_take[symmetric])
  obtain fp rest where r: "rev fps = fp # rest" using assms(2) by (cases "rev fps") auto
  then have l: "last fps = fp" by (metis last_rev list.sel(1) rev_rev_ident hd_rev)
  show ?thesis unfolding ld_is_stuck_def tk len using r l
    by (cases ?n) (auto simp: repeats_def list_all_iff not_less)
qed

definition ld_verdict :: "u64 \<Rightarrow> loop_detection_action \<Rightarrow> policy_verdict" where
  "ld_verdict now action =
     (case action of
        LdStop \<Rightarrow> Stop ''loop detected: repeated tool call pattern''
      | LdInject message \<Rightarrow> Inject [Llm (User \<lparr>um_content = [Text message], um_timestamp = now, um_cache_hint = None\<rparr>)])"

lemma ld_push_same [simp]:
  "ld_lookback (ld_push fp ld) = ld_lookback ld" "ld_on_detect (ld_push fp ld) = ld_on_detect ld"
  by (simp_all add: ld_push_def Let_def)

lemma ld_evaluate_eq:
  assumes "ld_window ld fps"
  shows "ld_evaluate now content_json turn ld =
    ((if repeats (ld_lookback ld) (fps @ [extract_fingerprint content_json turn])
      then ld_verdict now (ld_on_detect ld) else Continue), ld_push (extract_fingerprint content_json turn) ld)"
  using ld_is_stuck_iff[OF ld_push_window[OF assms, of "extract_fingerprint content_json turn"]]
  by (simp add: ld_evaluate_def Let_def ld_verdict_def split: loop_detection_action.split)

lemma ld_run_verdicts:
  assumes "ld_window ld fps" "ld_run now content_json turns ld = (vs, ld')"
  shows "length vs = length turns \<and> (\<forall>k < length turns. vs ! k =
    (if repeats (ld_lookback ld) (fps @ map (extract_fingerprint content_json) (take (Suc k) turns))
     then ld_verdict now (ld_on_detect ld) else Continue))
    \<and> ld_window ld' (fps @ map (extract_fingerprint content_json) turns) \<and> ld_lookback ld' = ld_lookback ld"
  using assms
proof (induction turns arbitrary: ld fps vs)
  case (Cons t ts)
  let ?fp = "extract_fingerprint content_json t"
  from Cons.prems(2) obtain v ld1 vs1 where e: "ld_evaluate now content_json t ld = (v, ld1)"
    and r: "ld_run now content_json ts ld1 = (vs1, ld')" and vs: "vs = v # vs1"
    by (auto split: prod.splits)
  have ld1: "ld1 = ld_push ?fp ld" and v: "v = (if repeats (ld_lookback ld) (fps @ [?fp])
      then ld_verdict now (ld_on_detect ld) else Continue)"
    using e ld_evaluate_eq[OF Cons.prems(1), of now content_json t] by auto
  have "ld_window ld1 (fps @ [?fp])" unfolding ld1 by (rule ld_push_window[OF Cons.prems(1)])
  note ih = Cons.IH[OF this r]
  show ?case using ih v unfolding vs ld1
    by (auto simp: less_Suc_eq_0_disj)
qed simp

text \<open>
  Loop detection is exact: although the policy remembers only the last
  \<open>lookback + 1\<close> turns, its verdict after every turn is the one that comparing all the turns
  so far would give: it acts exactly when \<open>lookback\<close> is positive and the fingerprints (tool
  names and arguments, in result order) of the last \<open>lookback\<close> turns are equal.
\<close>

theorem loop_detection_exact:
  assumes "ld_run now content_json turns (ld_new n\<lparr>ld_on_detect := action\<rparr>) = (vs, ld)"
  shows "length vs = length turns \<and> (\<forall>k < length turns. vs ! k =
    (if repeats n (map (extract_fingerprint content_json) (take (Suc k) turns)) then ld_verdict now action else Continue))
    \<and> length (ld_history ld) \<le> n + 1"
proof -
  have "ld_window (ld_new n\<lparr>ld_on_detect := action\<rparr>) []" by (simp add: ld_window_def ld_new_def)
  from ld_run_verdicts[OF this assms] show ?thesis
    by (auto simp: ld_new_def ld_window_def)
qed

definition example_turn :: "tool_result_message list \<Rightarrow> turn_policy_context" where
  "example_turn trs = \<lparr>tpc_assistant_message = \<lparr>am_content = [Text ''ok''], am_provider = [], am_model_id = [],
     am_usage = usage_default, am_cost = cost_default, am_stop_reason = SrStop, am_error_message = None,
     am_error_kind = None, am_timestamp = 0, am_cache_hint = None\<rparr>, tpc_tool_results = trs,
     tpc_stop_reason = SrStop, tpc_system_prompt = [], tpc_model_spec = model_spec_new [] [],
     tpc_context_messages = []\<rparr>"

theorem loop_detection_exact_witness:
  "\<exists>vs ld. ld_run 0 (\<lambda>_. JNull) [example_turn [], example_turn []] (ld_new 3\<lparr>ld_on_detect := LdStop\<rparr>) = (vs, ld)
     \<and> vs ! 1 = Continue"
proof -
  obtain vs ld where r: "ld_run 0 (\<lambda>_. JNull) [example_turn [], example_turn []] (ld_new 3\<lparr>ld_on_detect := LdStop\<rparr>) = (vs, ld)"
    by force
  from loop_detection_exact [OF r] r show ?thesis by (simp add: repeats_def)
qed

text \<open>
  Loop detection also fires without any tool call: a turn that has no tool results has the
  empty fingerprint, so \<open>lookback\<close> consecutive turns of plain text are reported as a
  repeated tool call pattern and, with the default action, stop the loop.
\<close>

theorem loop_detection_fires_on_text_turns:
  assumes "0 < n" "length turns = n" "\<forall>t \<in> set turns. tpc_tool_results t = []"
  shows "last (fst (ld_run now content_json turns (ld_new n))) = Stop ''loop detected: repeated tool call pattern''"
proof -
  obtain vs ld where r: "ld_run now content_json turns (ld_new n) = (vs, ld)" by force
  have "ld_window (ld_new n) []" by (simp add: ld_window_def ld_new_def)
  note run = ld_run_verdicts[OF this r]
  have "map (extract_fingerprint content_json) turns = replicate n []"
    unfolding assms(2)[symmetric] map_replicate_const[symmetric]
    using assms(3) by (intro map_cong refl) (simp add: extract_fingerprint_def)
  then have "repeats n (map (extract_fingerprint content_json) (take (Suc (n - 1)) turns))"
    using assms(1,2) by (auto simp: repeats_def)
  moreover have "last vs = vs ! (n - 1)" using run assms(1,2) by (metis last_conv_nth length_greater_0_conv)
  ultimately show ?thesis using run assms(1,2) r by (simp add: ld_new_def ld_verdict_def)
qed

theorem loop_detection_fires_on_text_turns_witness:
  "last (fst (ld_run 0 (\<lambda>_. JNull) [example_turn [], example_turn []] (ld_new 2))) = Stop ''loop detected: repeated tool call pattern''"
  by (rule loop_detection_fires_on_text_turns) (simp_all add: example_turn_def)

end
