(* ===== verification/Tool_Preprocess.thy ===== *)
theory Tool_Preprocess
  imports Loop_World Policies
begin

text \<open>
  Tool dispatch, first phase: the shared helpers (\<^verbatim>\<open>loop_/tool_dispatch/shared.rs\<close>), the
  outcomes a batch can end with (\<^verbatim>\<open>collect.rs\<close>), and the pre-dispatch policies and approval
  gate of \<^verbatim>\<open>preprocess.rs\<close>.

  The mutable cells that the tasks of a batch share are the record \<open>batch\<close>. Timings of
  tools, which only reach the metrics collector, are left out.
\<close>

section \<open>Data\<close>

record tool_call_info =
  tci_id :: string
  tci_name :: string
  tci_arguments :: json
  tci_is_incomplete :: bool

record prepared_tool_call =
  prep_idx :: usize
  prep_arguments :: json

datatype tool_exec_outcome =
    ExCompleted "tool_result_message list" "transfer_signal option" "agent_message list"
  | ExStopped "tool_result_message list" string "agent_message list"
  | ExSteeringInterrupt "tool_result_message list" "tool_result_message list" "agent_message list" "agent_message list"
  | ExAborted "tool_result_message list" "agent_message list"
  | ExChannelClosed

record batch =
  b_results :: "(usize \<times> tool_result_message) list"
  b_steering :: bool
  b_transfer_flag :: bool
  b_transfer_signal :: "transfer_signal option"
  b_cancelled :: bool

definition batch_new :: batch where
  "batch_new = \<lparr>b_results = [], b_steering = False, b_transfer_flag = False, b_transfer_signal = None, b_cancelled = False\<rparr>"

definition batch_is_cancelled :: "agent_loop_config \<Rightarrow> world \<Rightarrow> batch \<Rightarrow> bool \<times> world" where
  "batch_is_cancelled cfg w b = (b_cancelled b \<or> cfg_cancelled cfg (w_tick w), tock w)"

section \<open>Shared helpers\<close>

definition result_message :: "u64 \<Rightarrow> string \<Rightarrow> content_block list \<Rightarrow> bool \<Rightarrow> json \<Rightarrow> tool_result_message" where
  "result_message now cid content is_error details =
     \<lparr>tr_tool_call_id = cid, tr_content = content, tr_is_error = is_error, tr_timestamp = now,
      tr_details = details, tr_cache_hint = None\<rparr>"

definition push_result :: "usize \<Rightarrow> tool_result_message \<Rightarrow> batch \<Rightarrow> batch" where
  "push_result idx m b = b\<lparr>b_results := b_results b @ [(idx, m)]\<rparr>"

definition emit_error_result :: "agent_loop_config \<Rightarrow> tool_call_info \<Rightarrow> agent_tool_result \<Rightarrow> usize
    \<Rightarrow> world \<Rightarrow> batch \<Rightarrow> world \<times> batch" where
  "emit_error_result cfg tc r idx w b =
     (let w = emit_ignored (ToolExecutionEnd (tci_id tc) (tci_name tc) r True) w
      in (w, push_result idx (result_message (now_timestamp cfg w) (tci_id tc) (atr_content r) True JNull) b))"

fun emit_stops :: "agent_loop_config \<Rightarrow> string \<Rightarrow> string set \<Rightarrow> (usize \<times> tool_call_info) list
    \<Rightarrow> world \<Rightarrow> batch \<Rightarrow> world \<times> batch" where
  "emit_stops cfg reason resolved [] w b = (w, b)"
| "emit_stops cfg reason resolved ((idx, tc) # rest) w b =
     (if tci_id tc \<in> resolved then emit_stops cfg reason resolved rest w b
      else case emit_error_result cfg tc (result_error (''policy stopped tool batch before dispatch: '' @ reason)) idx w b of
             (w, b) \<Rightarrow> emit_stops cfg reason resolved rest w b)"

definition emit_batch_stop_results :: "agent_loop_config \<Rightarrow> tool_call_info list \<Rightarrow> string \<Rightarrow> world \<Rightarrow> batch \<Rightarrow> world \<times> batch" where
  "emit_batch_stop_results cfg calls reason w b =
     emit_stops cfg reason (set (map (\<lambda>(_, r). tr_tool_call_id r) (b_results b))) (enumerate 0 calls) w b"

text \<open>Collecting into a hash map by call id: the last result pushed for an id is the one found.\<close>

definition result_map :: "(usize \<times> tool_result_message) list \<Rightarrow> string \<Rightarrow> tool_result_message option" where
  "result_map results = map_of (rev (map (\<lambda>(_, r). (tr_tool_call_id r, r)) results))"

definition order_results_by_tool_calls ::
  "tool_call_info list \<Rightarrow> (usize \<times> tool_result_message) list \<Rightarrow> tool_result_message list" where
  "order_results_by_tool_calls calls results = List.map_filter (\<lambda>tc. result_map results (tci_id tc)) calls"

definition fill_results :: "u64 \<Rightarrow> string \<Rightarrow> tool_call_info list \<Rightarrow> (usize \<times> tool_result_message) list
    \<Rightarrow> tool_result_message list" where
  "fill_results now reason calls results =
     map (\<lambda>tc. case result_map results (tci_id tc) of
                 Some r \<Rightarrow> r
               | None \<Rightarrow> result_message now (tci_id tc) [Text reason] True JNull) calls"

fun build_tool_map :: "agent_tool list \<Rightarrow> (string \<rightharpoonup> agent_tool) \<Rightarrow> (string \<rightharpoonup> agent_tool)" where
  "build_tool_map [] m = m"
| "build_tool_map (t # ts) m =
     (if m (at_name t) \<noteq> None then build_tool_map ts m else build_tool_map ts (m(at_name t \<mapsto> t)))"

abbreviation tool_map :: "agent_loop_config \<Rightarrow> string \<rightharpoonup> agent_tool" where
  "tool_map cfg \<equiv> build_tool_map (cfg_tools cfg) Map.empty"

section \<open>Outcomes\<close>

definition build_aborted_outcome :: "agent_loop_config \<Rightarrow> tool_call_info list \<Rightarrow> agent_message list \<Rightarrow> world \<Rightarrow> batch \<Rightarrow> tool_exec_outcome" where
  "build_aborted_outcome cfg calls injected w b =
     ExAborted (fill_results (now_timestamp cfg w) ''tool call cancelled: operation aborted'' calls (b_results b)) injected"

definition build_transfer_outcome :: "agent_loop_config \<Rightarrow> tool_call_info list \<Rightarrow> agent_message list \<Rightarrow> world \<Rightarrow> batch \<Rightarrow> tool_exec_outcome" where
  "build_transfer_outcome cfg calls injected w b =
     ExCompleted (fill_results (now_timestamp cfg w) ''tool call cancelled: transfer initiated'' calls (b_results b))
       (b_transfer_signal b) injected"

definition build_steering_outcome :: "agent_loop_config \<Rightarrow> tool_call_info list \<Rightarrow> agent_message list \<Rightarrow> world \<Rightarrow> batch
    \<Rightarrow> tool_exec_outcome \<times> world" where
  "build_steering_outcome cfg calls injected w b =
     (let completed = List.map_filter (\<lambda>tc. result_map (b_results b) (tci_id tc)) calls;
          cancelled = List.map_filter (\<lambda>tc. case result_map (b_results b) (tci_id tc) of
              Some _ \<Rightarrow> None
            | None \<Rightarrow> Some (result_message (now_timestamp cfg w) (tci_id tc)
                 [Text ''tool call cancelled: user requested steering interrupt''] True JNull)) calls;
          steering = (case cfg_message_provider cfg of None \<Rightarrow> [] | Some p \<Rightarrow> mp_poll_steering p (w_tick w))
      in (ExSteeringInterrupt completed cancelled steering injected, tock w))"

definition stopped_preprocess_outcome :: "agent_loop_config \<Rightarrow> tool_call_info list \<Rightarrow> string \<Rightarrow> agent_message list \<Rightarrow> world \<Rightarrow> batch
    \<Rightarrow> tool_exec_outcome \<times> world \<times> batch" where
  "stopped_preprocess_outcome cfg calls reason injected w b =
     (case emit_batch_stop_results cfg calls reason w b of
        (w, b) \<Rightarrow> (ExStopped (order_results_by_tool_calls calls (b_results b)) reason injected, w, b))"

section \<open>Pre-processing\<close>

datatype pass_result = PassReady usize json | PassSkip usize string

definition dispatch_context :: "agent_loop_config \<Rightarrow> session_state \<Rightarrow> tool_call_info \<Rightarrow> json \<Rightarrow> tool_dispatch_context" where
  "dispatch_context cfg st tc args =
     \<lparr>tdc_tool_name = tci_name tc, tdc_tool_call_id = tci_id tc, tdc_arguments = args,
      tdc_execution_root = (case tool_map cfg (tci_name tc) of None \<Rightarrow> None | Some t \<Rightarrow> at_execution_root t),
      tdc_state = st\<rparr>"

fun pre_dispatch_pass :: "agent_loop_config \<Rightarrow> session_state \<Rightarrow> tool_call_info list \<Rightarrow> (usize \<times> tool_call_info) list
    \<Rightarrow> pass_result list \<Rightarrow> agent_message list \<Rightarrow> world \<Rightarrow> batch
    \<Rightarrow> (tool_exec_outcome + pass_result list \<times> agent_message list) \<times> world \<times> batch" where
  "pre_dispatch_pass cfg st calls [] passed injected w b = (Inr (passed, injected), w, b)"
| "pre_dispatch_pass cfg st calls ((idx, tc) # rest) passed injected w b =
     (case batch_is_cancelled cfg w b of (c, w) \<Rightarrow>
      if c then (Inl (build_aborted_outcome cfg calls injected w b), w, b)
      else case run_pre_dispatch_policies (cfg_pre_dispatch_policies cfg) (w_tick w)
                  (dispatch_context cfg st tc (tci_arguments tc)) of
        (PdContinue, args) \<Rightarrow> pre_dispatch_pass cfg st calls rest (passed @ [PassReady idx args]) injected (tock w) b
      | (PdInject msgs, args) \<Rightarrow>
          pre_dispatch_pass cfg st calls rest (passed @ [PassReady idx args]) (injected @ msgs) (tock w) b
      | (PdStop reason, args) \<Rightarrow>
          (case stopped_preprocess_outcome cfg calls reason injected (tock w) b of (r, w, b) \<Rightarrow> (Inl r, w, b))
      | (PdSkip error_text, args) \<Rightarrow>
          pre_dispatch_pass cfg st calls rest (passed @ [PassSkip idx error_text]) injected (tock w) b)"

datatype approval_outcome = OutApproved | OutApprovedWith json | OutRejected | OutCancelled | OutChannelClosed

definition emit_approval_resolved :: "tool_call_info \<Rightarrow> bool \<Rightarrow> world \<Rightarrow> bool \<times> world" where
  "emit_approval_resolved tc approved w = emit (ToolApprovalResolved (tci_id tc) (tci_name tc) approved) w"

definition reject_approval_panic :: "agent_loop_config \<Rightarrow> tool_call_info \<Rightarrow> usize \<Rightarrow> string \<Rightarrow> world \<Rightarrow> batch
    \<Rightarrow> approval_outcome \<times> world \<times> batch" where
  "reject_approval_panic cfg tc idx panic_message w b =
     (case emit_approval_resolved tc False w of (ok, w) \<Rightarrow>
      if \<not> ok then (OutChannelClosed, w, b)
      else case emit_error_result cfg tc (result_error (''Tool call '' @ [CHR 0x27] @ tci_name tc @ [CHR 0x27]
                  @ '' was rejected because the approval callback panicked: '' @ panic_message)) idx w b of
             (w, b) \<Rightarrow> (OutRejected, w, b))"

definition resolve_decision :: "agent_loop_config \<Rightarrow> tool_call_info \<Rightarrow> usize \<Rightarrow> tool_approval \<Rightarrow> world \<Rightarrow> batch
    \<Rightarrow> approval_outcome \<times> world \<times> batch" where
  "resolve_decision cfg tc idx decision w b =
     (case emit_approval_resolved tc (decision \<noteq> Rejected) w of (ok, w) \<Rightarrow>
      if \<not> ok then (OutChannelClosed, w, b)
      else case decision of
             Approved \<Rightarrow> (OutApproved, w, b)
           | ApprovedWith args \<Rightarrow> (OutApprovedWith args, w, b)
           | Rejected \<Rightarrow>
               (case emit_error_result cfg tc (result_error (''Tool call '' @ [CHR 0x27] @ tci_name tc @ [CHR 0x27]
                      @ '' was rejected by the approval gate.'')) idx w b of
                  (w, b) \<Rightarrow> (OutRejected, w, b)))"

definition approval_request :: "agent_loop_config \<Rightarrow> tool_call_info \<Rightarrow> json \<Rightarrow> bool \<Rightarrow> tool_approval_request" where
  "approval_request cfg tc args requires_approval =
     \<lparr>rq_tool_call_id = tci_id tc, rq_tool_name = tci_name tc, rq_arguments = args,
      rq_requires_approval = requires_approval,
      rq_context = (case tool_map cfg (tci_name tc) of None \<Rightarrow> None | Some t \<Rightarrow> at_approval_context t args)\<rparr>"

definition check_approval :: "agent_loop_config \<Rightarrow> (tick \<Rightarrow> tool_approval_request \<Rightarrow> approval_call) \<Rightarrow> tool_call_info
    \<Rightarrow> json \<Rightarrow> usize \<Rightarrow> bool \<Rightarrow> world \<Rightarrow> batch \<Rightarrow> approval_outcome \<times> world \<times> batch" where
  "check_approval cfg approve tc args idx requires_approval w b =
     (case batch_is_cancelled cfg w b of (c, w) \<Rightarrow>
      if c then (OutCancelled, w, b)
      else case emit (ToolApprovalRequested (tci_id tc) (tci_name tc) args) w of (ok, w) \<Rightarrow>
      if \<not> ok then (OutChannelClosed, w, b)
      else let request = approval_request cfg tc args requires_approval;
               answer = approve (w_tick w) request;
               w = tock w
           in case answer of
                CallPanics msg \<Rightarrow> reject_approval_panic cfg tc idx msg w b
              | _ \<Rightarrow>
                 (case batch_is_cancelled cfg w b of (c, w) \<Rightarrow>
                  if c then (case emit_approval_resolved tc False w of (ok, w) \<Rightarrow>
                               ((if ok then OutCancelled else OutChannelClosed), w, b))
                  else case answer of
                         Decides decision \<Rightarrow> resolve_decision cfg tc idx decision w b
                       | FuturePanics msg \<Rightarrow> reject_approval_panic cfg tc idx msg w b
                       | CallPanics msg \<Rightarrow> reject_approval_panic cfg tc idx msg w b))"

text \<open>Whether the approval callback is called for a tool at all.\<close>

definition requires_approval_of :: "agent_loop_config \<Rightarrow> string \<Rightarrow> bool" where
  "requires_approval_of cfg name = (case tool_map cfg name of None \<Rightarrow> False | Some t \<Rightarrow> at_requires_approval t)"

definition should_call_approval :: "agent_loop_config \<Rightarrow> string \<Rightarrow> bool" where
  "should_call_approval cfg name =
     (case cfg_approval_mode cfg of
        ModeSmart \<Rightarrow> requires_approval_of cfg name | ModeEnabled \<Rightarrow> True | ModeBypassed \<Rightarrow> False)"

definition skip_result :: "string \<Rightarrow> agent_tool_result" where
  "skip_result error_text =
     \<lparr>atr_content = [Text error_text], atr_details = JNull, atr_is_error = True, atr_transfer_signal = None\<rparr>"

text \<open>
  The gate of one call that passed the first policy pass: early exit, dropped (its result is
  pushed) or prepared, with the messages injected on the way.
\<close>

datatype gate_result = GateExit tool_exec_outcome | GateDropped | GatePrepared json "agent_message list"

definition approval_gate :: "agent_loop_config \<Rightarrow> session_state \<Rightarrow> tool_call_info list \<Rightarrow> usize \<Rightarrow> tool_call_info \<Rightarrow> json
    \<Rightarrow> agent_message list \<Rightarrow> world \<Rightarrow> batch \<Rightarrow> gate_result \<times> world \<times> batch" where
  "approval_gate cfg st calls idx tc args injected w b =
     (case cfg_approve_tool cfg of
        None \<Rightarrow> (GatePrepared args injected, w, b)
      | Some approve \<Rightarrow>
         if \<not> should_call_approval cfg (tci_name tc) then (GatePrepared args injected, w, b)
         else case check_approval cfg approve tc args idx (requires_approval_of cfg (tci_name tc)) w b of (out, w, b) \<Rightarrow>
            case out of
              OutApproved \<Rightarrow> (GatePrepared args injected, w, b)
            | OutApprovedWith new_args \<Rightarrow>
                (case run_pre_dispatch_policies (cfg_pre_dispatch_policies cfg) (w_tick w)
                        (dispatch_context cfg st tc new_args) of
                   (PdContinue, args) \<Rightarrow> (GatePrepared args injected, tock w, b)
                 | (PdInject msgs, args) \<Rightarrow> (GatePrepared args (injected @ msgs), tock w, b)
                 | (PdSkip error_text, args) \<Rightarrow>
                     (case emit_error_result cfg tc (skip_result error_text) idx (tock w) b of (w, b) \<Rightarrow> (GateDropped, w, b))
                 | (PdStop reason, args) \<Rightarrow>
                     (case stopped_preprocess_outcome cfg calls reason injected (tock w) b of (r, w, b) \<Rightarrow> (GateExit r, w, b)))
            | OutRejected \<Rightarrow> (GateDropped, w, b)
            | OutCancelled \<Rightarrow> (GateExit (build_aborted_outcome cfg calls injected w b), w, b)
            | OutChannelClosed \<Rightarrow> (GateExit ExChannelClosed, w, b))"

fun approval_pass :: "agent_loop_config \<Rightarrow> session_state \<Rightarrow> tool_call_info list \<Rightarrow> pass_result list
    \<Rightarrow> prepared_tool_call list \<Rightarrow> agent_message list \<Rightarrow> world \<Rightarrow> batch
    \<Rightarrow> (tool_exec_outcome + prepared_tool_call list \<times> agent_message list) \<times> world \<times> batch" where
  "approval_pass cfg st calls [] prepared injected w b = (Inr (prepared, injected), w, b)"
| "approval_pass cfg st calls (p # ps) prepared injected w b =
     (case batch_is_cancelled cfg w b of (c, w) \<Rightarrow>
      if c then (Inl (build_aborted_outcome cfg calls injected w b), w, b)
      else case p of
        PassSkip idx error_text \<Rightarrow>
          (case emit_error_result cfg (calls ! idx) (skip_result error_text) idx w b of
             (w, b) \<Rightarrow> approval_pass cfg st calls ps prepared injected w b)
      | PassReady idx args \<Rightarrow>
          (case approval_gate cfg st calls idx (calls ! idx) args injected w b of (g, w, b) \<Rightarrow>
           case g of
             GateExit r \<Rightarrow> (Inl r, w, b)
           | GateDropped \<Rightarrow> approval_pass cfg st calls ps prepared injected w b
           | GatePrepared args injected \<Rightarrow>
               approval_pass cfg st calls ps (prepared @ [\<lparr>prep_idx = idx, prep_arguments = args\<rparr>]) injected w b))"

definition preprocess_tool_calls :: "agent_loop_config \<Rightarrow> tool_call_info list \<Rightarrow> world \<Rightarrow> batch
    \<Rightarrow> (tool_exec_outcome + prepared_tool_call list \<times> agent_message list) \<times> world \<times> batch" where
  "preprocess_tool_calls cfg calls w b =
     (let st = w_session w in
      case pre_dispatch_pass cfg st calls (enumerate 0 calls) [] [] w b of
        (Inl r, w, b) \<Rightarrow> (Inl r, w, b)
      | (Inr (passed, injected), w, b) \<Rightarrow> approval_pass cfg st calls passed [] injected w b)"

section \<open>What pre-processing guarantees\<close>

text \<open>
  \<open>dispatches P w b w' b'\<close>: the operation sent only events that satisfy \<open>P\<close>, left
  the loop's own cells of the world alone, and only added results to the batch.
\<close>

definition dispatches :: "(agent_event \<Rightarrow> bool) \<Rightarrow> world \<Rightarrow> batch \<Rightarrow> world \<Rightarrow> batch \<Rightarrow> bool" where
  "dispatches P w b w' b' =
     (sends P w w' \<and> w_cache w' = w_cache w \<and> w_published_prefix w' = w_published_prefix w
      \<and> w_pending_snapshot w' = w_pending_snapshot w \<and> w_loop_context w' = w_loop_context w
      \<and> prefix (b_results b) (b_results b'))"

lemma dispatches_refl [simp]: "dispatches P w b w b"
  by (simp add: dispatches_def)

lemma dispatches_trans [trans]: "dispatches P w b w' b' \<Longrightarrow> dispatches P w' b' w'' b'' \<Longrightarrow> dispatches P w b w'' b''"
  by (auto simp: dispatches_def intro: sends_trans prefix_order.trans)

lemma dispatches_mono: "dispatches P w b w' b' \<Longrightarrow> (\<And>e. P e \<Longrightarrow> Q e) \<Longrightarrow> dispatches Q w b w' b'"
  by (auto simp: dispatches_def intro: sends_mono)

lemma dispatches_tock [simp]: "dispatches P w b (tock w) b"
  by (simp add: dispatches_def tock_def sends_def)

lemma dispatches_emit: "P e \<Longrightarrow> dispatches P w b (snd (emit e w)) b"
  by (simp add: dispatches_def sends_emit_ignored)

lemma dispatches_emit_eq: "P e \<Longrightarrow> emit e w = (ok, w') \<Longrightarrow> dispatches P w b w' b"
  by (metis dispatches_emit snd_conv)

lemma dispatches_push [simp]: "dispatches P w b w (push_result idx m b)"
  by (simp add: dispatches_def push_result_def)

lemma dispatches_cancelled: "batch_is_cancelled cfg w b = (c, w') \<Longrightarrow> dispatches P w b w' b"
  by (auto simp: batch_is_cancelled_def)

lemma dispatches_limit: "dispatches P w b w' b' \<Longrightarrow> w_rx_limit w' = w_rx_limit w"
  by (auto simp: dispatches_def dest: sends_limit)

text \<open>The call ids that have a result.\<close>

definition answered :: "batch \<Rightarrow> string set" where
  "answered b = set (map (\<lambda>(_, r). tr_tool_call_id r) (b_results b))"

lemma answered_mono: "dispatches P w b w' b' \<Longrightarrow> answered b \<subseteq> answered b'"
  by (auto simp: dispatches_def answered_def prefix_def)

lemma answered_push [simp]: "answered (push_result idx m b) = insert (tr_tool_call_id m) (answered b)"
  by (simp add: answered_def push_result_def)

fun is_gate_event :: "agent_event \<Rightarrow> bool" where
  "is_gate_event (ToolApprovalRequested _ _ _) = True"
| "is_gate_event (ToolApprovalResolved _ _ _) = True"
| "is_gate_event (ToolExecutionEnd _ _ _ _) = True"
| "is_gate_event _ = False"

lemma emit_error_result_spec:
  assumes "emit_error_result cfg tc r idx w b = (w', b')"
  shows "dispatches is_gate_event w b w' b'" "answered b' = insert (tci_id tc) (answered b)"
proof -
  show "dispatches is_gate_event w b w' b'"
    using assms dispatches_emit[of is_gate_event "ToolExecutionEnd (tci_id tc) (tci_name tc) r True" w b]
    by (auto simp: emit_error_result_def Let_def intro: dispatches_trans)
  show "answered b' = insert (tci_id tc) (answered b)"
    using assms by (auto simp: emit_error_result_def Let_def result_message_def)
qed

lemma emit_stops_spec:
  "emit_stops cfg reason resolved tcs w b = (w', b') \<Longrightarrow>
     dispatches is_gate_event w b w' b'
     \<and> answered b' = answered b \<union> ((tci_id ` snd ` set tcs) - resolved)"
proof (induction tcs arbitrary: w b)
  case (Cons p tcs)
  obtain idx tc where p: "p = (idx, tc)" by fastforce
  let ?r = "result_error (''policy stopped tool batch before dispatch: '' @ reason)"
  obtain w1 b1 where e: "emit_error_result cfg tc ?r idx w b = (w1, b1)" by fastforce
  show ?case
  proof (cases "tci_id tc \<in> resolved")
    case True
    with Cons p show ?thesis by auto
  next
    case False
    with Cons.prems p e have "emit_stops cfg reason resolved tcs w1 b1 = (w', b')" by simp
    from Cons.IH[OF this] emit_error_result_spec[OF e] False p show ?thesis
      by (auto intro: dispatches_trans)
  qed
qed simp

lemma result_map_id: "result_map rs i = Some r \<Longrightarrow> tr_tool_call_id r = i"
  by (auto simp: result_map_def dest!: map_of_SomeD)

lemma result_map_defined: "(\<exists>r. result_map (b_results b) i = Some r) \<longleftrightarrow> i \<in> answered b"
proof -
  have "dom (result_map (b_results b)) = answered b"
    by (auto simp: result_map_def answered_def dom_map_of_conv_image_fst image_iff) force+
  then show ?thesis by blast
qed

text \<open>An outcome answers the batch: one result for each call, in the order of the calls.\<close>

abbreviation ids_of :: "tool_result_message list \<Rightarrow> string list" where
  "ids_of \<equiv> map tr_tool_call_id"

fun answers :: "tool_call_info list \<Rightarrow> tool_exec_outcome \<Rightarrow> bool" where
  "answers calls (ExCompleted rs _ _) = (ids_of rs = map tci_id calls)"
| "answers calls (ExStopped rs _ _) = (ids_of rs = map tci_id calls)"
| "answers calls (ExAborted rs _) = (ids_of rs = map tci_id calls)"
| "answers calls (ExSteeringInterrupt completed cancelled _ _) =
     (ids_of completed = filter (\<lambda>i. i \<in> set (ids_of completed)) (map tci_id calls)
      \<and> ids_of cancelled = filter (\<lambda>i. i \<notin> set (ids_of completed)) (map tci_id calls))"
| "answers calls ExChannelClosed = True"

lemma fill_results_ids: "ids_of (fill_results now reason calls rs) = map tci_id calls"
  by (auto simp: fill_results_def result_message_def split: option.splits dest: result_map_id)

lemma order_results_ids:
  assumes "tci_id ` set calls \<subseteq> answered b"
  shows "ids_of (order_results_by_tool_calls calls (b_results b)) = map tci_id calls"
proof -
  have "ids_of (List.map_filter (\<lambda>tc. result_map (b_results b) (tci_id tc)) cs) = map tci_id cs"
    if "set cs \<subseteq> set calls" for cs
    using that
  proof (induction cs)
    case (Cons c cs)
    then obtain r where "result_map (b_results b) (tci_id c) = Some r"
      using assms result_map_defined[of b "tci_id c"] by auto
    with Cons show ?case by (auto simp: List.map_filter_simps dest: result_map_id)
  qed (simp add: List.map_filter_simps)
  then show ?thesis by (simp add: order_results_by_tool_calls_def)
qed

lemma aborted_answers [simp]: "answers calls (build_aborted_outcome cfg calls injected w b)"
  by (simp add: build_aborted_outcome_def fill_results_ids)

lemma transfer_answers [simp]: "answers calls (build_transfer_outcome cfg calls injected w b)"
  by (simp add: build_transfer_outcome_def fill_results_ids)

lemma steering_ids:
  "ids_of (List.map_filter (\<lambda>tc. result_map rs (tci_id tc)) calls)
     = filter (\<lambda>i. result_map rs i \<noteq> None) (map tci_id calls)"
  "ids_of (List.map_filter (\<lambda>tc. case result_map rs (tci_id tc) of Some _ \<Rightarrow> None
        | None \<Rightarrow> Some (result_message now (tci_id tc) c e d)) calls)
     = filter (\<lambda>i. result_map rs i = None) (map tci_id calls)"
  by (induction calls)
     (auto simp: List.map_filter_simps result_message_def dest: result_map_id split: option.splits)

lemma steering_answers: "build_steering_outcome cfg calls injected w b = (out, w') \<Longrightarrow> answers calls out"
  by (auto simp: build_steering_outcome_def Let_def steering_ids intro!: filter_cong)

lemma stopped_spec:
  assumes "stopped_preprocess_outcome cfg calls reason injected w b = (out, w', b')"
  shows "answers calls out" "dispatches is_gate_event w b w' b'" "out \<noteq> ExChannelClosed"
proof -
  obtain w1 b1 where e: "emit_batch_stop_results cfg calls reason w b = (w1, b1)" by fastforce
  note spec = emit_stops_spec[OF e[unfolded emit_batch_stop_results_def]]
  have "snd ` set (enumerate 0 calls) = set calls"
    by (metis map_snd_enumerate list.set_map)
  with spec have "tci_id ` set calls \<subseteq> answered b1"
    by (auto simp: answered_def)
  with e assms spec show "answers calls out" "dispatches is_gate_event w b w' b'" "out \<noteq> ExChannelClosed"
    by (auto simp: stopped_preprocess_outcome_def order_results_ids)
qed

text \<open>
  The authority a call runs on: the pre-dispatch policies let it through, and where the approval
  gate applies the callback approved exactly the arguments it runs with, or replaced them by
  arguments that passed the policies again.
\<close>

definition admits :: "agent_loop_config \<Rightarrow> session_state \<Rightarrow> tool_call_info \<Rightarrow> json \<Rightarrow> json \<Rightarrow> bool" where
  "admits cfg st tc given args =
     (\<exists>t v. run_pre_dispatch_policies (cfg_pre_dispatch_policies cfg) t (dispatch_context cfg st tc given) = (v, args)
            \<and> \<not> pd_refuses (Some v))"

definition approver :: "agent_loop_config \<Rightarrow> string \<Rightarrow> (tick \<Rightarrow> tool_approval_request \<Rightarrow> approval_call) option" where
  "approver cfg name = (if should_call_approval cfg name then cfg_approve_tool cfg else None)"

definition approves :: "agent_loop_config \<Rightarrow> tool_call_info \<Rightarrow> (tick \<Rightarrow> tool_approval_request \<Rightarrow> approval_call)
    \<Rightarrow> json \<Rightarrow> tool_approval \<Rightarrow> bool" where
  "approves cfg tc approve args decision =
     (\<exists>t. approve t (approval_request cfg tc args (requires_approval_of cfg (tci_name tc))) = Decides decision)"

definition authorized :: "agent_loop_config \<Rightarrow> session_state \<Rightarrow> tool_call_info \<Rightarrow> json \<Rightarrow> bool" where
  "authorized cfg st tc args =
     (\<exists>a. admits cfg st tc (tci_arguments tc) a \<and>
        (case approver cfg (tci_name tc) of
           None \<Rightarrow> args = a
         | Some approve \<Rightarrow>
             approves cfg tc approve a Approved \<and> args = a
             \<or> (\<exists>a'. approves cfg tc approve a (ApprovedWith a') \<and> admits cfg st tc a' args)))"

text \<open>The event was sent after the first \<open>k\<close> ones.\<close>

definition sent_since :: "nat \<Rightarrow> world \<Rightarrow> agent_event \<Rightarrow> bool" where
  "sent_since k w e = (e \<in> set (drop k (w_sent w)))"

definition resolved_if_gated :: "agent_loop_config \<Rightarrow> nat \<Rightarrow> tool_call_info \<Rightarrow> world \<Rightarrow> bool" where
  "resolved_if_gated cfg k tc w =
     (approver cfg (tci_name tc) = None \<or> sent_since k w (ToolApprovalResolved (tci_id tc) (tci_name tc) True))"

lemma sent_since_mono: "dispatches P w b w' b' \<Longrightarrow> sent_since k w e \<Longrightarrow> sent_since k w' e"
  by (auto simp: dispatches_def sends_def sent_since_def)

lemma dispatches_length: "dispatches P w b w' b' \<Longrightarrow> length (w_sent w) \<le> length (w_sent w')"
  by (auto simp: dispatches_def sends_def)

lemma resolved_mono: "dispatches P w b w' b' \<Longrightarrow> resolved_if_gated cfg k tc w \<Longrightarrow> resolved_if_gated cfg k tc w'"
  by (auto simp: resolved_if_gated_def dest: sent_since_mono)

lemma emit_ok_sent: "emit e w = (True, w') \<Longrightarrow> k \<le> length (w_sent w) \<Longrightarrow> sent_since k w' e"
  by (auto simp: emit_def sent_since_def split: if_splits)

lemma emit_failed_limited: "emit e w = (False, w') \<Longrightarrow> w_rx_limit w \<noteq> None"
  by (auto simp: emit_def rx_open_def split: if_splits option.splits)

fun pass_idx :: "pass_result \<Rightarrow> usize" where
  "pass_idx (PassReady i _) = i"
| "pass_idx (PassSkip i _) = i"

fun pass_ok :: "agent_loop_config \<Rightarrow> session_state \<Rightarrow> tool_call_info list \<Rightarrow> pass_result \<Rightarrow> bool" where
  "pass_ok cfg st calls (PassReady i args) =
     (i < length calls \<and> admits cfg st (calls ! i) (tci_arguments (calls ! i)) args)"
| "pass_ok cfg st calls (PassSkip i _) = (i < length calls)"

lemma pre_dispatch_pass_spec:
  assumes "pre_dispatch_pass cfg st calls rest passed injected w b = (r, w', b')"
    "\<forall>(i, tc) \<in> set rest. i < length calls \<and> calls ! i = tc"
  shows "dispatches is_gate_event w b w' b'
    \<and> (case r of
         Inl out \<Rightarrow> answers calls out \<and> out \<noteq> ExChannelClosed
       | Inr (passed', _) \<Rightarrow> \<exists>new. passed' = passed @ new \<and> map pass_idx new = map fst rest \<and> list_all (pass_ok cfg st calls) new)"
  using assms
proof (induction rest arbitrary: passed injected w)
  case Nil
  then show ?case by auto
next
  case (Cons p rest)
  obtain idx tc where p: "p = (idx, tc)" by fastforce
  obtain c w1 where c: "batch_is_cancelled cfg w b = (c, w1)" by fastforce
  note d1 = dispatches_cancelled[OF c, of is_gate_event]
  have d2: "dispatches is_gate_event w b (tock w1) b" by (rule dispatches_trans[OF d1]) simp
  obtain v args where v: "run_pre_dispatch_policies (cfg_pre_dispatch_policies cfg) (w_tick w1)
      (dispatch_context cfg st tc (tci_arguments tc)) = (v, args)" by fastforce
  have ok: "\<not> pd_refuses (Some v) \<Longrightarrow> pass_ok cfg st calls (PassReady idx args)"
    using v p Cons.prems(2) by (auto simp: admits_def)
  have step: ?case if "pre_dispatch_pass cfg st calls rest (passed @ [q]) inj' (tock w1) b = (r, w', b')"
    "pass_idx q = idx" "pass_ok cfg st calls q" for q inj'
    using Cons.IH[OF that(1)] Cons.prems(2) that(2,3) p d2
    by (fastforce intro: dispatches_trans split: sum.splits)
  show ?case
  proof (cases c)
    case True
    with Cons.prems c p d1 show ?thesis by (auto simp: build_aborted_outcome_def fill_results_ids)
  next
    case False
    show ?thesis
    proof (cases v)
      case PdContinue
      with False Cons.prems c p v ok show ?thesis by (intro step) auto
    next
      case PdInject
      with False Cons.prems c p v ok show ?thesis by (intro step) auto
    next
      case PdSkip
      with False Cons.prems c p v show ?thesis by (intro step) auto
    next
      case (PdStop reason)
      with False Cons.prems c p v d2 show ?thesis
        by (auto split: prod.splits dest: stopped_spec intro: dispatches_trans)
    qed
  qed
qed

lemma emit_resolved_spec:
  assumes "emit_approval_resolved tc ok w = (s, w')"
  shows "dispatches is_gate_event w b w' b" "s \<Longrightarrow> k \<le> length (w_sent w) \<Longrightarrow> sent_since k w' (ToolApprovalResolved (tci_id tc) (tci_name tc) ok)"
    "\<not> s \<Longrightarrow> w_rx_limit w \<noteq> None"
  using assms by (auto simp: emit_approval_resolved_def intro: dispatches_emit_eq[rotated] emit_ok_sent dest: emit_failed_limited)

lemma reject_panic_spec:
  assumes "reject_approval_panic cfg tc idx msg w b = (out, w', b')"
  shows "dispatches is_gate_event w b w' b'"
    "out = OutRejected \<and> tci_id tc \<in> answered b' \<or> out = OutChannelClosed \<and> w_rx_limit w \<noteq> None"
proof -
  obtain s w1 where e: "emit_approval_resolved tc False w = (s, w1)" by fastforce
  note r = emit_resolved_spec[OF e]
  show "dispatches is_gate_event w b w' b'"
    "out = OutRejected \<and> tci_id tc \<in> answered b' \<or> out = OutChannelClosed \<and> w_rx_limit w \<noteq> None"
    using assms e r
    by (auto simp: reject_approval_panic_def split: if_splits prod.splits dest: emit_error_result_spec intro: dispatches_trans)
qed

text \<open>What the outcome of the approval callback means.\<close>

definition outcome_ok :: "agent_loop_config \<Rightarrow> tool_call_info \<Rightarrow> (tick \<Rightarrow> tool_approval_request \<Rightarrow> approval_call)
    \<Rightarrow> json \<Rightarrow> nat \<Rightarrow> approval_outcome \<Rightarrow> world \<Rightarrow> batch \<Rightarrow> bool" where
  "outcome_ok cfg tc approve args k out w b =
     (case out of
        OutApproved \<Rightarrow> approves cfg tc approve args Approved \<and> sent_since k w (ToolApprovalResolved (tci_id tc) (tci_name tc) True)
      | OutApprovedWith a \<Rightarrow>
          approves cfg tc approve args (ApprovedWith a) \<and> sent_since k w (ToolApprovalResolved (tci_id tc) (tci_name tc) True)
      | OutRejected \<Rightarrow> tci_id tc \<in> answered b
      | OutCancelled \<Rightarrow> True
      | OutChannelClosed \<Rightarrow> w_rx_limit w \<noteq> None)"

lemma reject_panic_ok:
  assumes "reject_approval_panic cfg tc idx msg w b = (out, w', b')"
  shows "outcome_ok cfg tc approve args k out w' b'"
  using reject_panic_spec[OF assms] by (auto simp: outcome_ok_def dest: dispatches_limit)

lemma resolve_decision_spec:
  assumes "resolve_decision cfg tc idx decision w b = (out, w', b')" "approves cfg tc approve args decision"
    "k \<le> length (w_sent w)"
  shows "dispatches is_gate_event w b w' b' \<and> outcome_ok cfg tc approve args k out w' b'"
proof -
  obtain s w1 where e: "emit_approval_resolved tc (decision \<noteq> Rejected) w = (s, w1)" by fastforce
  note r = emit_resolved_spec[OF e]
  show ?thesis using assms e r(2,3) r(1)[of b] dispatches_limit[OF r(1)[of b]]
    by (cases decision)
       (auto simp: resolve_decision_def outcome_ok_def split: if_splits prod.splits
         dest: emit_error_result_spec intro: dispatches_trans)
qed

lemma check_approval_spec:
  assumes "check_approval cfg approve tc args idx (requires_approval_of cfg (tci_name tc)) w b = (out, w', b')"
    "k \<le> length (w_sent w)"
  shows "dispatches is_gate_event w b w' b' \<and> outcome_ok cfg tc approve args k out w' b'"
proof -
  obtain c w1 where c: "batch_is_cancelled cfg w b = (c, w1)" by fastforce
  obtain s w2 where e: "emit (ToolApprovalRequested (tci_id tc) (tci_name tc) args) w1 = (s, w2)" by fastforce
  obtain c2 w3 where c2: "batch_is_cancelled cfg (tock w2) b = (c2, w3)" by fastforce
  let ?rq = "approval_request cfg tc args (requires_approval_of cfg (tci_name tc))"
  let ?ans = "approve (w_tick w2) ?rq"
  have d1: "dispatches is_gate_event w b w1 b" by (rule dispatches_cancelled[OF c])
  have "dispatches is_gate_event w1 b w2 b" by (rule dispatches_emit_eq[OF _ e]) simp
  with d1 have d2: "dispatches is_gate_event w b w2 b" by (rule dispatches_trans)
  have d2': "dispatches is_gate_event w b (tock w2) b" by (rule dispatches_trans[OF d2]) simp
  from d2' dispatches_cancelled[OF c2] have d3: "dispatches is_gate_event w b w3 b" by (rule dispatches_trans)
  show ?thesis
  proof (cases "c \<or> \<not> s")
    case True
    have "\<not> s \<Longrightarrow> w_rx_limit w2 \<noteq> None"
      using e emit_failed_limited[of _ w1 w2] dispatches_limit[OF d1] dispatches_limit[OF d2] by auto
    with True assms c e d1 d2 show ?thesis
      by (auto simp: check_approval_def outcome_ok_def split: if_splits)
  next
    case False
    have panic: ?thesis if "reject_approval_panic cfg tc idx m w4 b = (out, w', b')" "dispatches is_gate_event w b w4 b" for m w4
      using reject_panic_spec(1)[OF that(1)] reject_panic_ok[OF that(1)] that(2) by (blast intro: dispatches_trans)
    have cancel: ?thesis if "c2" "?ans \<noteq> CallPanics m" "\<And>m. ?ans \<noteq> CallPanics m" for m
    proof -
      obtain s4 w4 where e4: "emit_approval_resolved tc False w3 = (s4, w4)" by fastforce
      have "w_rx_limit w4 = w_rx_limit w3" by (rule dispatches_limit[OF emit_resolved_spec(1)[OF e4]])
      then show ?thesis using assms False c e c2 that e4 emit_resolved_spec[OF e4] d3
        by (auto simp: check_approval_def Let_def outcome_ok_def split: approval_call.splits if_splits
             intro: dispatches_trans dest: dispatches_limit)
    qed
    show ?thesis
    proof (cases ?ans)
      case (CallPanics m)
      with assms False c e have "reject_approval_panic cfg tc idx m (tock w2) b = (out, w', b')"
        by (simp add: check_approval_def Let_def)
      then show ?thesis using d2' by (rule panic)
    next
      case (FuturePanics m)
      show ?thesis
      proof (cases c2)
        case True then show ?thesis using FuturePanics by (intro cancel[of "[]"]) auto
      next
        case nc: False
        with assms False c e c2 FuturePanics have "reject_approval_panic cfg tc idx m w3 b = (out, w', b')"
          by (simp add: check_approval_def Let_def)
        then show ?thesis using d3 by (rule panic)
      qed
    next
      case (Decides d)
      show ?thesis
      proof (cases c2)
        case True then show ?thesis using Decides by (intro cancel[of "[]"]) auto
      next
        case nc: False
        with assms False c e c2 Decides have r: "resolve_decision cfg tc idx d w3 b = (out, w', b')"
          by (simp add: check_approval_def Let_def)
        have "approves cfg tc approve args d" using Decides by (auto simp: approves_def)
        from resolve_decision_spec[OF r this le_trans[OF assms(2) dispatches_length[OF d3]]] d3
        show ?thesis by (blast intro: dispatches_trans)
      qed
    qed
  qed
qed

fun gate_ok :: "agent_loop_config \<Rightarrow> nat \<Rightarrow> session_state \<Rightarrow> tool_call_info list \<Rightarrow> tool_call_info \<Rightarrow> gate_result \<Rightarrow> world \<Rightarrow> batch \<Rightarrow> bool" where
  "gate_ok cfg k st calls tc (GateExit out) w b = (answers calls out \<and> (out \<noteq> ExChannelClosed \<or> w_rx_limit w \<noteq> None))"
| "gate_ok cfg k st calls tc GateDropped w b = (tci_id tc \<in> answered b)"
| "gate_ok cfg k st calls tc (GatePrepared args _) w b = (authorized cfg st tc args \<and> resolved_if_gated cfg k tc w)"

lemma approval_gate_spec:
  assumes "approval_gate cfg st calls idx tc args injected w b = (g, w', b')" "admits cfg st tc (tci_arguments tc) args"
    "k \<le> length (w_sent w)"
  shows "dispatches is_gate_event w b w' b' \<and> gate_ok cfg k st calls tc g w' b'"
proof (cases "approver cfg (tci_name tc)")
  case None
  with assms show ?thesis
    by (auto simp: approval_gate_def approver_def authorized_def resolved_if_gated_def split: option.splits if_splits)
next
  case (Some approve)
  then have cfg: "cfg_approve_tool cfg = Some approve" "should_call_approval cfg (tci_name tc)"
    by (auto simp: approver_def split: if_splits)
  obtain out w1 b1 where ck: "check_approval cfg approve tc args idx (requires_approval_of cfg (tci_name tc)) w b = (out, w1, b1)"
    by (metis prod_cases3)
  note ok = check_approval_spec[OF ck assms(3)]
  show ?thesis
  proof (cases out)
    case (OutApprovedWith a)
    obtain v args' where v: "run_pre_dispatch_policies (cfg_pre_dispatch_policies cfg) (w_tick w1) (dispatch_context cfg st tc a) = (v, args')"
      by fastforce
    have d: "dispatches is_gate_event w b (tock w1) b1" by (rule dispatches_trans[OF conjunct1[OF ok]]) simp
    have auth: "authorized cfg st tc args'" if "\<not> pd_refuses (Some v)"
    proof -
      from v that have "admits cfg st tc a args'" unfolding admits_def by blast
      moreover have "approves cfg tc approve args (ApprovedWith a)" using ok OutApprovedWith by (simp add: outcome_ok_def)
      ultimately show ?thesis using Some assms(2) unfolding authorized_def by auto
    qed
    have res: "resolved_if_gated cfg k tc (tock w1)"
      using ok OutApprovedWith by (auto simp: outcome_ok_def resolved_if_gated_def sent_since_def tock_def)
    show ?thesis using assms cfg ck OutApprovedWith v auth res d
      by (cases v) (auto simp: approval_gate_def split: prod.splits dest: stopped_spec emit_error_result_spec intro: dispatches_trans)
  next
    case OutApproved
    with ok Some assms(2) have "authorized cfg st tc args" "resolved_if_gated cfg k tc w1"
      by (auto simp: authorized_def outcome_ok_def resolved_if_gated_def)
    with assms cfg ck ok OutApproved show ?thesis by (auto simp: approval_gate_def)
  qed (use assms cfg ck ok in \<open>auto simp: approval_gate_def outcome_ok_def build_aborted_outcome_def fill_results_ids\<close>)
qed

text \<open>
  The pass over the calls that reached the gate: everything prepared is authorised, everything
  dropped has its result.
\<close>

definition prep_ok :: "agent_loop_config \<Rightarrow> nat \<Rightarrow> session_state \<Rightarrow> tool_call_info list \<Rightarrow> world \<Rightarrow> prepared_tool_call \<Rightarrow> bool" where
  "prep_ok cfg k st calls w p =
     (prep_idx p < length calls \<and> authorized cfg st (calls ! prep_idx p) (prep_arguments p)
      \<and> resolved_if_gated cfg k (calls ! prep_idx p) w)"

lemma prep_ok_mono: "dispatches P w b w' b' \<Longrightarrow> prep_ok cfg k st calls w p \<Longrightarrow> prep_ok cfg k st calls w' p"
  by (auto simp: prep_ok_def intro: resolved_mono)

lemma approval_pass_spec:
  assumes "approval_pass cfg st calls ps prepared injected w b = (r, w', b')" "list_all (pass_ok cfg st calls) ps"
    "list_all (prep_ok cfg k st calls w) prepared" "k \<le> length (w_sent w)"
  shows "dispatches is_gate_event w b w' b'
    \<and> (case r of
         Inl out \<Rightarrow> answers calls out \<and> (out \<noteq> ExChannelClosed \<or> w_rx_limit w \<noteq> None)
       | Inr (prepared', _) \<Rightarrow> list_all (prep_ok cfg k st calls w') prepared' \<and> set prepared \<subseteq> set prepared'
           \<and> (\<forall>q \<in> set ps. pass_idx q \<in> prep_idx ` set prepared' \<or> tci_id (calls ! pass_idx q) \<in> answered b'))"
  using assms
proof (induction ps arbitrary: prepared injected w b)
  case Nil
  then show ?case by auto
next
  case (Cons p ps)
  obtain c w1 where c: "batch_is_cancelled cfg w b = (c, w1)" by fastforce
  note d1 = dispatches_cancelled[OF c, of is_gate_event]
  have step: ?case
    if run: "approval_pass cfg st calls ps prepared2 inj2 w2 b2 = (r, w', b')"
      and d: "dispatches is_gate_event w b w2 b2" and more: "set prepared \<subseteq> set prepared2"
      and ok2: "list_all (prep_ok cfg k st calls w2) prepared2"
      and done1: "pass_idx p \<in> prep_idx ` set prepared2 \<or> tci_id (calls ! pass_idx p) \<in> answered b2"
    for prepared2 inj2 w2 b2
  proof -
    from Cons.prems(2) have "list_all (pass_ok cfg st calls) ps" by simp
    note ih = Cons.IH[OF run this ok2 le_trans[OF Cons.prems(4) dispatches_length[OF d]]]
    have "dispatches is_gate_event w b w' b'" using d ih by (blast intro: dispatches_trans)
    moreover have "answered b2 \<subseteq> answered b'" using ih answered_mono by blast
    ultimately show ?thesis using ih done1 more dispatches_limit[OF d] by (auto split: sum.splits)
  qed
  show ?case
  proof (cases c)
    case True
    with Cons.prems c d1 show ?thesis by (auto simp: build_aborted_outcome_def fill_results_ids)
  next
    case False
    have keep: "list_all (prep_ok cfg k st calls w2) prepared" if "dispatches is_gate_event w b w2 b2" for w2 b2
      using Cons.prems(3) prep_ok_mono[OF that] by (auto simp: list_all_iff)
    show ?thesis
    proof (cases p)
      case (PassSkip idx t)
      obtain w2 b2 where e: "emit_error_result cfg (calls ! idx) (skip_result t) idx w1 b = (w2, b2)" by fastforce
      note s = emit_error_result_spec[OF e]
      have d: "dispatches is_gate_event w b w2 b2" by (rule dispatches_trans[OF d1 s(1)])
      show ?thesis using False Cons.prems c PassSkip e s(2) d keep[OF d] by (intro step[of prepared injected w2 b2]) auto
    next
      case (PassReady idx args)
      obtain g w2 b2 where e: "approval_gate cfg st calls idx (calls ! idx) args injected w1 b = (g, w2, b2)" by (metis prod_cases3)
      from Cons.prems(2) PassReady have "idx < length calls" "admits cfg st (calls ! idx) (tci_arguments (calls ! idx)) args"
        by auto
      note s = approval_gate_spec[OF e this(2) le_trans[OF Cons.prems(4) dispatches_length[OF d1]]]
      have d: "dispatches is_gate_event w b w2 b2" using d1 s by (blast intro: dispatches_trans)
      show ?thesis
      proof (cases g)
        case (GateExit out)
        with False Cons.prems c PassReady e s d dispatches_limit[OF d] show ?thesis by auto
      next
        case GateDropped
        with False Cons.prems c PassReady e s d keep[OF d] show ?thesis by (intro step[of prepared injected w2 b2]) auto
      next
        case (GatePrepared args2 inj2)
        with False Cons.prems c PassReady e s d keep[OF d] \<open>idx < length calls\<close> show ?thesis
          by (intro step[of "prepared @ [\<lparr>prep_idx = idx, prep_arguments = args2\<rparr>]" inj2 w2 b2]) (auto simp: prep_ok_def)
      qed
    qed
  qed
qed

lemma preprocess_spec:
  assumes "preprocess_tool_calls cfg calls w b = (r, w', b')"
  shows "dispatches is_gate_event w b w' b'
    \<and> (case r of
         Inl out \<Rightarrow> answers calls out \<and> (out \<noteq> ExChannelClosed \<or> w_rx_limit w \<noteq> None)
       | Inr (prepared, _) \<Rightarrow> list_all (prep_ok cfg (length (w_sent w)) (w_session w) calls w') prepared
           \<and> (\<forall>i < length calls. i \<in> prep_idx ` set prepared \<or> tci_id (calls ! i) \<in> answered b'))"
proof -
  let ?st = "w_session w"
  obtain r1 w1 b1 where p1: "pre_dispatch_pass cfg ?st calls (enumerate 0 calls) [] [] w b = (r1, w1, b1)"
    by (metis prod_cases3)
  have "\<forall>(i, tc) \<in> set (enumerate 0 calls). i < length calls \<and> calls ! i = tc"
    by (auto simp: in_set_enumerate_eq)
  note s1 = pre_dispatch_pass_spec[OF p1 this]
  show ?thesis
  proof (cases r1)
    case (Inl out)
    with assms p1 s1 show ?thesis by (auto simp: preprocess_tool_calls_def Let_def)
  next
    case (Inr q)
    obtain passed inj' where q: "q = (passed, inj')" by fastforce
    with Inr s1 have ps: "map pass_idx passed = map fst (enumerate 0 calls)" "list_all (pass_ok cfg ?st calls) passed" by auto
    from assms p1 Inr q have "approval_pass cfg ?st calls passed [] inj' w1 b1 = (r, w', b')"
      by (simp add: preprocess_tool_calls_def Let_def)
    note s2 = approval_pass_spec[OF this ps(2) _ dispatches_length[OF conjunct1[OF s1]], simplified]
    have "pass_idx ` set passed = {0..<length calls}"
      using arg_cong[OF ps(1), of set] by (simp only: map_fst_enumerate list.set_map[symmetric] set_upt) simp
    then have ex: "\<exists>q \<in> set passed. pass_idx q = i" if "i < length calls" for i
      using that by (metis atLeastLessThan_iff imageE le0)
    have d: "dispatches is_gate_event w b w' b'" using s1 s2 by (auto intro: dispatches_trans)
    show ?thesis
    proof (cases r)
      case (Inl out)
      with s2 s1 d show ?thesis by (auto dest: dispatches_limit)
    next
      case (Inr z)
      obtain prepared j where z: "z = (prepared, j)" by fastforce
      have "i \<in> prep_idx ` set prepared \<or> tci_id (calls ! i) \<in> answered b'" if "i < length calls" for i
        using ex[OF that] s2 Inr z by auto
      with s2 Inr z d show ?thesis by simp
    qed
  qed
qed

end
