(* ===== verification/Tool_Execute.thy ===== *)
theory Tool_Execute
  imports Tool_Preprocess
begin

text \<open>
  Tool dispatch, second phase: execution groups and single-tool dispatch
  (\<^verbatim>\<open>loop_/tool_dispatch/execute.rs\<close>), the collection of a group's results
  (\<^verbatim>\<open>collect.rs\<close>) and the entry point \<^verbatim>\<open>execute_tools_concurrently\<close>
  (\<^verbatim>\<open>mod.rs\<close>).

  A spawned task is the list of its atomic steps. The scheduler is a list of moves from the
  configuration that advances tasks, lets the collector join a finished task or wakes it up for a
  cancellation, in any order; when the moves run out, the remaining tasks run to their end one
  after the other. A tool that never returns is only represented in a batch that is cancelled,
  and a task abandoned after a cancellation takes no further step.
\<close>

section \<open>Execution groups\<close>

definition call_summary :: "tool_call_info list \<Rightarrow> prepared_tool_call \<Rightarrow> tool_call_summary" where
  "call_summary calls prep =
     (let tc = calls ! prep_idx prep in \<lparr>sum_id = tci_id tc, sum_name = tci_name tc, sum_arguments = prep_arguments prep\<rparr>)"

fun group_scored :: "(usize \<times> int) list \<Rightarrow> int option \<Rightarrow> usize list list \<Rightarrow> usize list list" where
  "group_scored [] current groups = groups"
| "group_scored ((i, p) # rest) current groups =
     (if current = Some p
      then group_scored rest current (if groups = [] then [] else butlast groups @ [last groups @ [i]])
      else group_scored rest (Some p) (groups @ [[i]]))"

text \<open>The assignment recorded for each prepared index: its group and position.\<close>

type_synonym seen_slots = "(usize \<times> usize) option list"

fun validate_group :: "usize \<Rightarrow> usize \<Rightarrow> (usize \<times> usize) list \<Rightarrow> seen_slots \<Rightarrow> (string, seen_slots) result" where
  "validate_group n g [] seen = Inr seen"
| "validate_group n g ((pos, i) # rest) seen =
     (if n \<le> i then Inl (''group '' @ show_nat g @ '' position '' @ show_nat pos @ '' referenced prepared index ''
          @ show_nat i @ '', but the prepared tool-call slice has length '' @ show_nat n)
      else case seen ! i of
             Some (pg, pp) \<Rightarrow> Inl (''group '' @ show_nat g @ '' position '' @ show_nat pos @ '' repeated prepared index ''
               @ show_nat i @ '', which was already assigned at group '' @ show_nat pg @ '' position '' @ show_nat pp)
           | None \<Rightarrow> validate_group n g rest (seen[i := Some (g, pos)]))"

fun validate_groups :: "usize \<Rightarrow> (usize \<times> usize list) list \<Rightarrow> seen_slots \<Rightarrow> (string, seen_slots) result" where
  "validate_groups n [] seen = Inr seen"
| "validate_groups n ((g, grp) # rest) seen =
     rbind (validate_group n g (enumerate 0 grp) seen) (validate_groups n rest)"

definition validate_custom_execution_groups :: "usize list list \<Rightarrow> usize \<Rightarrow> (string, unit) result" where
  "validate_custom_execution_groups groups n =
     rbind (validate_groups n (enumerate 0 groups) (replicate n None)) (\<lambda>seen.
       let missing = map fst (filter (\<lambda>(_, slot). slot = None) (enumerate 0 seen))
       in if missing \<noteq> [] then Inl (''the custom strategy omitted prepared indices '' @ join_with '', '' (map show_nat missing))
          else Inr ())"

definition compute_execution_groups :: "tool_execution_policy \<Rightarrow> tool_call_info list \<Rightarrow> prepared_tool_call list \<Rightarrow> tick
    \<Rightarrow> (string, usize list list) result" where
  "compute_execution_groups policy calls prepared now =
     (if prepared = [] then Inr []
      else case policy of
        Concurrent \<Rightarrow> Inr [[0..<length prepared]]
      | Sequential \<Rightarrow> Inr (map (\<lambda>i. [i]) [0..<length prepared])
      | Priority priority_fn \<Rightarrow>
          let scored = map (\<lambda>(i, prep). (i, priority_fn (call_summary calls prep))) (enumerate 0 prepared)
          in Inr (group_scored (sort_key (\<lambda>(_, p). - p) scored) None [])
      | CustomStrategy strategy \<Rightarrow>
          let groups = strategy now (map (call_summary calls) prepared)
          in rbind (validate_custom_execution_groups groups (length prepared)) (\<lambda>_. Inr groups))"

section \<open>Tasks\<close>

fun cred_type_of :: "resolved_credential \<Rightarrow> credential_type" where
  "cred_type_of (RcApiKey _) = CtApiKey"
| "cred_type_of (RcBearer _) = CtBearer"
| "cred_type_of (RcOAuth2AccessToken _) = CtOAuth2"

fun debug_credential_type :: "credential_type \<Rightarrow> string" where
  "debug_credential_type CtApiKey = ''ApiKey''"
| "debug_credential_type CtBearer = ''Bearer''"
| "debug_credential_type CtOAuth2 = ''OAuth2''"

text \<open>The error is the text of the \<^verbatim>\<open>CredentialError\<close>; a resolver that times out is \<open>None\<close>.\<close>

definition resolve_credential :: "agent_loop_config \<Rightarrow> agent_tool \<Rightarrow> tick \<Rightarrow> (string, resolved_credential option) result" where
  "resolve_credential cfg tool now =
     (case at_auth_config tool of
        None \<Rightarrow> Inr None
      | Some auth \<Rightarrow>
         (case cfg_credential_resolver cfg of
            None \<Rightarrow> Inl (''credential not found: '' @ ac_credential_key auth)
          | Some resolve \<Rightarrow>
             (case resolve now (ac_credential_key auth) of
                None \<Rightarrow> Inl (''credential resolution timed out for '' @ ac_credential_key auth)
              | Some (Inl e) \<Rightarrow> Inl e
              | Some (Inr credential) \<Rightarrow>
                  if cred_type_of credential \<noteq> ac_credential_type auth
                  then Inl (''credential type mismatch for '' @ ac_credential_key auth @ '': expected ''
                         @ debug_credential_type (ac_credential_type auth) @ '', got ''
                         @ debug_credential_type (cred_type_of credential))
                  else Inr (Some credential))))"

definition unknown_tool_result :: "string \<Rightarrow> agent_tool_result" where
  "unknown_tool_result name = result_error (''unknown tool: '' @ name)"

definition validation_error_result :: "string list \<Rightarrow> agent_tool_result" where
  "validation_error_result errors = result_error (join_with [CHR 0x0A] errors)"

datatype task_step =
    StSession session_op
  | StUpdate agent_tool_result
  | StPanic string
  | StTransfer agent_tool_result
  | StArtifact agent_tool_result bool
  | StEnd agent_tool_result bool
  | StPush agent_tool_result bool
  | StSteering

record task =
  tk_idx :: usize
  tk_call :: tool_call_info
  tk_steps :: "task_step list"
  tk_panic :: "string option"

definition finish_steps :: "agent_tool_result \<Rightarrow> bool \<Rightarrow> task_step list" where
  "finish_steps r is_error = [StTransfer r, StArtifact r is_error, StEnd r is_error, StPush r is_error, StSteering]"

fun of_run_step :: "run_step \<Rightarrow> task_step" where
  "of_run_step (RunSession p) = StSession p"
| "of_run_step (RunUpdate r) = StUpdate r"

definition run_task_steps :: "tool_run \<Rightarrow> task_step list" where
  "run_task_steps run =
     map of_run_step (run_steps run) @
     (case run_result run of Inl panic \<Rightarrow> [StPanic panic] | Inr r \<Rightarrow> finish_steps r (atr_is_error r))"

definition task_body :: "agent_loop_config \<Rightarrow> agent_tool \<Rightarrow> tool_call_info \<Rightarrow> json \<Rightarrow> tick \<Rightarrow> task_step list" where
  "task_body cfg tool tc args now =
     (if at_validate tool args \<noteq> [] then finish_steps (validation_error_result (at_validate tool args)) True
      else case resolve_credential cfg tool now of
             Inl cred_error \<Rightarrow> finish_steps (result_error cred_error) True
           | Inr credential \<Rightarrow> run_task_steps (at_execute tool now (tci_id tc) args credential))"

definition artifact_saved :: "agent_tool_result \<Rightarrow> agent_event option" where
  "artifact_saved r =
     (case json_get (atr_details r) ''artifact_saved'' of
        None \<Rightarrow> None
      | Some saved \<Rightarrow>
         (case (json_as_str (json_get saved ''session_id''), json_as_str (json_get saved ''name''), json_as_u64 (json_get saved ''version'')) of
            (Some session_id, Some name, Some version) \<Rightarrow>
              Some (ArtifactSaved session_id name (if version < 2 ^ 32 then of_nat version else - 1))
          | _ \<Rightarrow> None))"

fun task_step_effect :: "agent_loop_config \<Rightarrow> usize \<Rightarrow> tool_call_info \<Rightarrow> task_step \<Rightarrow> world \<Rightarrow> batch \<Rightarrow> world \<times> batch" where
  "task_step_effect cfg idx tc (StSession p) w b = (w\<lparr>w_session := session_step p (w_session w)\<rparr>, b)"
| "task_step_effect cfg idx tc (StUpdate r) w b =
     (emit_ignored (ToolExecutionUpdate (tci_id tc) (tci_name tc) r) w, b)"
| "task_step_effect cfg idx tc (StPanic _) w b = (w, b)"
| "task_step_effect cfg idx tc (StTransfer r) w b =
     (w, if is_transfer r
         then b\<lparr>b_transfer_signal := (case b_transfer_signal b of None \<Rightarrow> atr_transfer_signal r | Some s \<Rightarrow> Some s),
                b_transfer_flag := True\<rparr>
         else b)"
| "task_step_effect cfg idx tc (StArtifact r is_error) w b =
     ((if is_error then w else case artifact_saved r of None \<Rightarrow> w | Some e \<Rightarrow> emit_ignored e w), b)"
| "task_step_effect cfg idx tc (StEnd r is_error) w b =
     (emit_ignored (ToolExecutionEnd (tci_id tc) (tci_name tc) r is_error) w, b)"
| "task_step_effect cfg idx tc (StPush r is_error) w b =
     (w, push_result idx (result_message (now_timestamp cfg w) (tci_id tc) (atr_content r) is_error (atr_details r)) b)"
| "task_step_effect cfg idx tc StSteering w b =
     (case cfg_message_provider cfg of
        None \<Rightarrow> (w, b)
      | Some p \<Rightarrow> (tock w, b\<lparr>b_steering := b_steering b \<or> mp_has_steering p (w_tick w)\<rparr>))"

definition advance_task :: "agent_loop_config \<Rightarrow> task \<Rightarrow> world \<Rightarrow> batch \<Rightarrow> task \<times> world \<times> batch" where
  "advance_task cfg t w b =
     (case tk_steps t of
        [] \<Rightarrow> (t, w, b)
      | StPanic m # _ \<Rightarrow> (t\<lparr>tk_steps := [], tk_panic := Some m\<rparr>, w, b)
      | s # rest \<Rightarrow> (case task_step_effect cfg (tk_idx t) (tk_call t) s w b of (w, b) \<Rightarrow> (t\<lparr>tk_steps := rest\<rparr>, w, b)))"

datatype dispatch_result = Spawned task | Inline | DispatchClosed

definition dispatch_single_tool :: "agent_loop_config \<Rightarrow> tool_call_info \<Rightarrow> json \<Rightarrow> usize \<Rightarrow> world \<Rightarrow> batch
    \<Rightarrow> dispatch_result \<times> world \<times> batch" where
  "dispatch_single_tool cfg tc args idx w b =
     (case tool_map cfg (tci_name tc) of
        None \<Rightarrow> (case emit_error_result cfg tc (unknown_tool_result (tci_name tc)) idx w b of (w, b) \<Rightarrow> (Inline, w, b))
      | Some tool \<Rightarrow>
         (case (if at_validate tool args = [] then emit (ToolExecutionStart (tci_id tc) (tci_name tc) args) w else (True, w)) of
            (ok, w) \<Rightarrow>
            if \<not> ok then (DispatchClosed, w, b)
            else (Spawned \<lparr>tk_idx = idx, tk_call = tc, tk_steps = task_body cfg tool tc args (w_tick w), tk_panic = None\<rparr>, tock w, b)))"

section \<open>Scheduling\<close>

fun advance_nth :: "agent_loop_config \<Rightarrow> nat \<Rightarrow> task list \<Rightarrow> world \<Rightarrow> batch \<Rightarrow> task list \<times> world \<times> batch" where
  "advance_nth cfg n [] w b = ([], w, b)"
| "advance_nth cfg 0 (t # ts) w b = (case advance_task cfg t w b of (t, w, b) \<Rightarrow> (t # ts, w, b))"
| "advance_nth cfg (Suc n) (t # ts) w b = (case advance_nth cfg n ts w b of (ts, w, b) \<Rightarrow> (t # ts, w, b))"

text \<open>Tasks run concurrently with the loop that is still dispatching: their advances only.\<close>

fun background :: "agent_loop_config \<Rightarrow> sched_move list \<Rightarrow> task list \<Rightarrow> world \<Rightarrow> batch \<Rightarrow> task list \<times> world \<times> batch" where
  "background cfg [] ts w b = (ts, w, b)"
| "background cfg (AdvanceTask n # ms) ts w b = (case advance_nth cfg n ts w b of (ts, w, b) \<Rightarrow> background cfg ms ts w b)"
| "background cfg (_ # ms) ts w b = background cfg ms ts w b"

definition run_background :: "agent_loop_config \<Rightarrow> task list \<Rightarrow> world \<Rightarrow> batch \<Rightarrow> task list \<times> world \<times> batch" where
  "run_background cfg ts w b = background cfg (cfg_schedule cfg (w_tick w)) ts (tock w) b"

definition finished :: "task \<Rightarrow> bool" where
  "finished t = (tk_steps t = [])"

definition remove_nth :: "nat \<Rightarrow> 'a list \<Rightarrow> 'a list" where
  "remove_nth n xs = take n xs @ drop (Suc n) xs"

definition emit_join_failure :: "agent_loop_config \<Rightarrow> task \<Rightarrow> string \<Rightarrow> world \<Rightarrow> batch \<Rightarrow> world \<times> batch" where
  "emit_join_failure cfg t msg w b =
     emit_error_result cfg (tk_call t) (result_error (''tool execution panicked: '' @ msg)) (tk_idx t) w b"

fun emit_failures :: "agent_loop_config \<Rightarrow> task list \<Rightarrow> world \<Rightarrow> batch \<Rightarrow> world \<times> batch" where
  "emit_failures cfg [] w b = (w, b)"
| "emit_failures cfg (t # ts) w b =
     (case tk_panic t of
        None \<Rightarrow> emit_failures cfg ts w b
      | Some m \<Rightarrow> (case emit_join_failure cfg t m w b of (w, b) \<Rightarrow> emit_failures cfg ts w b))"

fun drain :: "agent_loop_config \<Rightarrow> sched_move list \<Rightarrow> task list \<Rightarrow> task list \<Rightarrow> world \<Rightarrow> batch \<Rightarrow> world \<times> batch" where
  "drain cfg [] ts completed w b = emit_failures cfg completed w b"
| "drain cfg (AdvanceTask n # ms) ts completed w b =
     (case advance_nth cfg n ts w b of (ts, w, b) \<Rightarrow> drain cfg ms ts completed w b)"
| "drain cfg (JoinTask n # ms) ts completed w b =
     (if n < length ts \<and> finished (ts ! n) then drain cfg ms (remove_nth n ts) (completed @ [ts ! n]) w b
      else drain cfg ms ts completed w b)"
| "drain cfg (SeeCancel # ms) ts completed w b = drain cfg ms ts completed w b"

datatype group_outcome = GrContinue | GrSteeringInterrupt | GrTransferInterrupt | GrAborted

definition handle_join :: "agent_loop_config \<Rightarrow> task \<Rightarrow> sched_move list \<Rightarrow> task list \<Rightarrow> world \<Rightarrow> batch
    \<Rightarrow> group_outcome option \<times> world \<times> batch" where
  "handle_join cfg t moves ts w b =
     (case tk_panic t of
        Some m \<Rightarrow> (case emit_join_failure cfg t m w b of (w, b) \<Rightarrow> (None, w, b))
      | None \<Rightarrow>
          if b_steering b
          then (case drain cfg moves ts [] w (b\<lparr>b_cancelled := True\<rparr>) of (w, b) \<Rightarrow> (Some GrSteeringInterrupt, w, b))
          else if b_transfer_flag b
          then (case drain cfg moves ts [] w (b\<lparr>b_cancelled := True\<rparr>) of (w, b) \<Rightarrow> (Some GrTransferInterrupt, w, b))
          else (None, w, b))"

fun run_steps_to_end :: "agent_loop_config \<Rightarrow> usize \<Rightarrow> tool_call_info \<Rightarrow> task_step list \<Rightarrow> world \<Rightarrow> batch
    \<Rightarrow> string option \<times> world \<times> batch" where
  "run_steps_to_end cfg idx tc [] w b = (None, w, b)"
| "run_steps_to_end cfg idx tc (s # ss) w b =
     (case s of
        StPanic m \<Rightarrow> (Some m, w, b)
      | _ \<Rightarrow> (case task_step_effect cfg idx tc s w b of (w, b) \<Rightarrow> run_steps_to_end cfg idx tc ss w b))"

definition run_to_end :: "agent_loop_config \<Rightarrow> task \<Rightarrow> world \<Rightarrow> batch \<Rightarrow> task \<times> world \<times> batch" where
  "run_to_end cfg t w b =
     (if finished t then (t, w, b)
      else case run_steps_to_end cfg (tk_idx t) (tk_call t) (tk_steps t) w b of
             (p, w, b) \<Rightarrow> (t\<lparr>tk_steps := [], tk_panic := p\<rparr>, w, b))"

text \<open>One pass of the collector's \<^verbatim>\<open>select!\<close>, which prefers the cancellation.\<close>

definition select_join :: "agent_loop_config \<Rightarrow> task \<Rightarrow> sched_move list \<Rightarrow> task list \<Rightarrow> task list \<Rightarrow> world \<Rightarrow> batch
    \<Rightarrow> group_outcome option \<times> world \<times> batch" where
  "select_join cfg t moves all rest w b =
     (case batch_is_cancelled cfg w b of (c, w) \<Rightarrow>
      if c then (case drain cfg moves all [] w b of (w, b) \<Rightarrow> (Some GrAborted, w, b))
      else handle_join cfg t moves rest w b)"

fun collect_rest :: "agent_loop_config \<Rightarrow> task list \<Rightarrow> world \<Rightarrow> batch \<Rightarrow> group_outcome \<times> world \<times> batch" where
  "collect_rest cfg [] w b = (GrContinue, w, b)"
| "collect_rest cfg (t # ts) w b =
     (case run_to_end cfg t w b of (t, w, b) \<Rightarrow>
      case select_join cfg t [] (t # ts) ts w b of
        (Some r, w, b) \<Rightarrow> (r, w, b)
      | (None, w, b) \<Rightarrow> collect_rest cfg ts w b)"

fun collect_moves :: "agent_loop_config \<Rightarrow> sched_move list \<Rightarrow> task list \<Rightarrow> world \<Rightarrow> batch \<Rightarrow> group_outcome \<times> world \<times> batch" where
  "collect_moves cfg [] ts w b = collect_rest cfg ts w b"
| "collect_moves cfg (AdvanceTask n # ms) ts w b =
     (case advance_nth cfg n ts w b of (ts, w, b) \<Rightarrow> collect_moves cfg ms ts w b)"
| "collect_moves cfg (JoinTask n # ms) ts w b =
     (if n < length ts \<and> finished (ts ! n)
      then (case select_join cfg (ts ! n) ms ts (remove_nth n ts) w b of
              (Some r, w, b) \<Rightarrow> (r, w, b)
            | (None, w, b) \<Rightarrow> collect_moves cfg ms (remove_nth n ts) w b)
      else collect_moves cfg ms ts w b)"
| "collect_moves cfg (SeeCancel # ms) ts w b =
     (if ts = [] then (GrContinue, w, b)
      else case batch_is_cancelled cfg w b of (c, w) \<Rightarrow>
        if c then (case drain cfg ms ts [] w b of (w, b) \<Rightarrow> (GrAborted, w, b))
        else collect_moves cfg ms ts w b)"

definition collect_group_results :: "agent_loop_config \<Rightarrow> task list \<Rightarrow> world \<Rightarrow> batch \<Rightarrow> group_outcome \<times> world \<times> batch" where
  "collect_group_results cfg ts w b = collect_moves cfg (cfg_schedule cfg (w_tick w)) ts (tock w) b"

section \<open>The batch\<close>

datatype group_dispatch = GdSpawned "task list" | GdAborted | GdClosed

fun dispatch_group :: "agent_loop_config \<Rightarrow> tool_call_info list \<Rightarrow> prepared_tool_call list \<Rightarrow> usize list \<Rightarrow> task list
    \<Rightarrow> world \<Rightarrow> batch \<Rightarrow> group_dispatch \<times> world \<times> batch" where
  "dispatch_group cfg calls prepared [] ts w b = (GdSpawned ts, w, b)"
| "dispatch_group cfg calls prepared (i # is) ts w b =
     (case batch_is_cancelled cfg w b of (c, w) \<Rightarrow>
      if c then (case run_background cfg ts w b of (ts, w, b) \<Rightarrow> (GdAborted, w, b))
      else case dispatch_single_tool cfg (calls ! prep_idx (prepared ! i)) (prep_arguments (prepared ! i)) (prep_idx (prepared ! i)) w b of
             (Spawned t, w, b) \<Rightarrow>
               (case run_background cfg (ts @ [t]) w b of (ts, w, b) \<Rightarrow> dispatch_group cfg calls prepared is ts w b)
           | (Inline, w, b) \<Rightarrow>
               (case run_background cfg ts w b of (ts, w, b) \<Rightarrow> dispatch_group cfg calls prepared is ts w b)
           | (DispatchClosed, w, b) \<Rightarrow>
               (case run_background cfg ts w (b\<lparr>b_cancelled := True\<rparr>) of (ts, w, b) \<Rightarrow> (GdClosed, w, b)))"

fun run_groups :: "agent_loop_config \<Rightarrow> tool_call_info list \<Rightarrow> prepared_tool_call list \<Rightarrow> agent_message list \<Rightarrow> usize list list
    \<Rightarrow> world \<Rightarrow> batch \<Rightarrow> tool_exec_outcome \<times> world" where
  "run_groups cfg calls prepared injected [] w b =
     (ExCompleted (order_results_by_tool_calls calls (b_results b)) (b_transfer_signal b) injected, w)"
| "run_groups cfg calls prepared injected (g # gs) w b =
     (case batch_is_cancelled cfg w b of (c, w) \<Rightarrow>
      if c then (build_aborted_outcome cfg calls injected w b, w)
      else case dispatch_group cfg calls prepared g [] w b of
        (GdAborted, w, b) \<Rightarrow> (build_aborted_outcome cfg calls injected w b, w)
      | (GdClosed, w, b) \<Rightarrow> (ExChannelClosed, w)
      | (GdSpawned ts, w, b) \<Rightarrow>
         (case collect_group_results cfg ts w b of (r, w, b) \<Rightarrow>
          case r of
            GrContinue \<Rightarrow> run_groups cfg calls prepared injected gs w b
          | GrSteeringInterrupt \<Rightarrow> build_steering_outcome cfg calls injected w b
          | GrAborted \<Rightarrow> (build_aborted_outcome cfg calls injected w b, w)
          | GrTransferInterrupt \<Rightarrow> (build_transfer_outcome cfg calls injected w b, w)))"

fun emit_partition_errors :: "agent_loop_config \<Rightarrow> tool_call_info list \<Rightarrow> string \<Rightarrow> prepared_tool_call list \<Rightarrow> world \<Rightarrow> batch
    \<Rightarrow> world \<times> batch" where
  "emit_partition_errors cfg calls reason [] w b = (w, b)"
| "emit_partition_errors cfg calls reason (p # ps) w b =
     (case emit_error_result cfg (calls ! prep_idx p)
             (result_error (''custom tool execution strategy returned an invalid partition: '' @ reason)) (prep_idx p) w b of
        (w, b) \<Rightarrow> emit_partition_errors cfg calls reason ps w b)"

definition execute_tools_concurrently :: "agent_loop_config \<Rightarrow> tool_call_info list \<Rightarrow> world \<Rightarrow> tool_exec_outcome \<times> world" where
  "execute_tools_concurrently cfg calls w =
     (case preprocess_tool_calls cfg calls w batch_new of
        (Inl early, w, b) \<Rightarrow> (early, w)
      | (Inr (prepared, injected), w, b) \<Rightarrow>
         (case batch_is_cancelled cfg w b of (c, w) \<Rightarrow>
          if c then (build_aborted_outcome cfg calls injected w b, w)
          else case compute_execution_groups (cfg_tool_execution_policy cfg) calls prepared (w_tick w) of
            Inl reason \<Rightarrow>
              (case emit_partition_errors cfg calls reason prepared (tock w) b of (w, b) \<Rightarrow>
                 (ExCompleted (order_results_by_tool_calls calls (b_results b)) None injected, w))
          | Inr groups \<Rightarrow> run_groups cfg calls prepared injected groups (tock w) b))"

section \<open>Execution groups partition the prepared calls\<close>

text \<open>The indices a validation has already seen.\<close>

definition assigned :: "seen_slots \<Rightarrow> usize set" where
  "assigned seen = {i. i < length seen \<and> seen ! i \<noteq> None}"

lemma assigned_update: "i < length seen \<Longrightarrow> assigned (seen[i := Some x]) = insert i (assigned seen)"
  by (auto simp: assigned_def nth_list_update)

lemma validate_group_spec:
  "length seen = n \<Longrightarrow>
   (case validate_group n g xs seen of
      Inr seen' \<Rightarrow> length seen' = n \<and> distinct (map snd xs) \<and> set (map snd xs) \<subseteq> {..<n} - assigned seen
        \<and> assigned seen' = assigned seen \<union> set (map snd xs)
    | Inl _ \<Rightarrow> \<not> (distinct (map snd xs) \<and> set (map snd xs) \<subseteq> {..<n} - assigned seen))"
proof (induction n g xs seen rule: validate_group.induct)
  case (2 n g pos i rest seen)
  show ?case
  proof (cases "i < n \<and> seen ! i = None")
    case True
    then have "assigned (seen[i := Some (g, pos)]) = insert i (assigned seen)"
      using 2 by (intro assigned_update) simp
    moreover have "i \<notin> assigned seen" using True by (simp add: assigned_def)
    ultimately show ?thesis using 2 True
      by (cases "validate_group n g rest (seen[i := Some (g, pos)])") auto
  next
    case False
    then show ?thesis using 2 by (auto simp: assigned_def)
  qed
qed simp

lemma validate_groups_spec:
  "length seen = n \<Longrightarrow>
   (case validate_groups n gs seen of
      Inr seen' \<Rightarrow> length seen' = n \<and> distinct (concat (map snd gs)) \<and> set (concat (map snd gs)) \<subseteq> {..<n} - assigned seen
        \<and> assigned seen' = assigned seen \<union> set (concat (map snd gs))
    | Inl _ \<Rightarrow> \<not> (distinct (concat (map snd gs)) \<and> set (concat (map snd gs)) \<subseteq> {..<n} - assigned seen))"
proof (induction gs arbitrary: seen)
  case (Cons x gs)
  obtain g grp where x: "x = (g, grp)" by fastforce
  have v: "map snd (enumerate 0 grp) = grp" by simp
  show ?case
  proof (cases "validate_group n g (enumerate 0 grp) seen")
    case (Inl e)
    then show ?thesis using validate_group_spec[OF Cons.prems, where g = g and xs = "enumerate 0 grp"] x unfolding v by auto
  next
    case (Inr seen1)
    note v1 = validate_group_spec[OF Cons.prems, where g = g and xs = "enumerate 0 grp", unfolded v Inr sum.case]
    from v1 Cons.IH[of seen1] Inr x show ?thesis
      by (cases "validate_groups n gs seen1") auto
  qed
qed simp

definition is_partition :: "usize list list \<Rightarrow> nat \<Rightarrow> bool" where
  "is_partition groups n = (distinct (concat groups) \<and> set (concat groups) = {..<n})"

lemma validate_custom_spec: "validate_custom_execution_groups groups n = Inr () \<longleftrightarrow> is_partition groups n"
proof -
  have none: "assigned (replicate n None) = {}" by (auto simp: assigned_def)
  note spec = validate_groups_spec[of "replicate n None" n "enumerate 0 groups", simplified none, simplified]
  show ?thesis
  proof (cases "validate_groups n (enumerate 0 groups) (replicate n None)")
    case (Inl e)
    with spec show ?thesis by (auto simp: validate_custom_execution_groups_def is_partition_def)
  next
    case (Inr seen)
    with spec have s: "length seen = n" "distinct (concat groups)" "set (concat groups) \<subseteq> {..<n}" "assigned seen = set (concat groups)"
      by auto
    have "filter (\<lambda>(_, slot). slot = None) (enumerate 0 seen) = [] \<longleftrightarrow> (\<forall>i < length seen. seen ! i \<noteq> None)"
      by (auto simp: filter_empty_conv in_set_enumerate_eq)
    also have "\<dots> \<longleftrightarrow> assigned seen = {..<n}" unfolding s(1)[symmetric] by (simp add: assigned_def set_eq_iff) blast
    finally show ?thesis using s Inr
      by (auto simp: validate_custom_execution_groups_def is_partition_def Let_def)
  qed
qed

text \<open>Priority groups: the classes of equal priority, the highest first, each in prepared order.\<close>

definition priority_groups :: "(usize \<Rightarrow> int) \<Rightarrow> nat \<Rightarrow> usize list list" where
  "priority_groups prio n =
     map (\<lambda>k. filter (\<lambda>i. prio i = k) [0..<n]) (rev (sorted_list_of_set (prio ` {..<n})))"

lemma sorted_list_of_set_insert_max:
  fixes p :: int
  assumes "finite A" "\<forall>a \<in> A. a < p"
  shows "sorted_list_of_set (insert p A) = sorted_list_of_set A @ [p]"
proof -
  have "sorted (sorted_list_of_set A @ [p])" "distinct (sorted_list_of_set A @ [p])" "set (sorted_list_of_set A @ [p]) = insert p A"
    using assms by (auto simp: sorted_append less_imp_le)
  then show ?thesis by (metis sorted_list_of_set.idem_if_sorted_distinct)
qed

abbreviation class_of :: "(usize \<times> int) list \<Rightarrow> int \<Rightarrow> usize list" where
  "class_of xs k \<equiv> map fst (filter (\<lambda>(_, p). p = k) xs)"

lemma group_scored_spec:
  assumes "sorted_wrt (\<ge>) (map snd xs)" "\<forall>p \<in> snd ` set xs. p \<le> c"
  shows "group_scored xs (Some c) (gs @ [g]) =
    gs @ [g @ class_of xs c] @ map (class_of xs) (rev (sorted_list_of_set (snd ` set xs - {c})))"
  using assms
proof (induction xs arbitrary: c gs g)
  case (Cons x r)
  obtain i p where x: "x = (i, p)" by fastforce
  show ?case
  proof (cases "p = c")
    case True
    have "insert c (snd ` set r) - {c} = snd ` set r - {c}" by auto
    moreover have "map (class_of (x # r)) ks = map (class_of r) ks" if "c \<notin> set ks" for ks
      using x True that by (auto intro!: map_cong)
    ultimately show ?thesis using Cons True x by auto
  next
    case False
    with Cons.prems x have lt: "p < c" and le: "\<forall>q \<in> snd ` set r. q \<le> p" by auto
    let ?A = "snd ` set r - {p}"
    from le have max: "\<forall>a \<in> ?A. a < p" by force
    have "snd ` set (x # r) - {c} = insert p ?A" using x lt le by auto
    then have "sorted_list_of_set (snd ` set (x # r) - {c}) = sorted_list_of_set ?A @ [p]"
      using sorted_list_of_set_insert_max[OF _ max] by simp
    moreover have "class_of (x # r) c = []" using x lt le by (auto simp: filter_empty_conv)
    moreover have "map (class_of (x # r)) (rev (sorted_list_of_set ?A)) = map (class_of r) (rev (sorted_list_of_set ?A))"
      using x by (auto intro!: map_cong)
    ultimately show ?thesis using Cons.IH[of p "gs @ [g]" "[i]"] Cons.prems False x le by auto
  qed
qed simp

lemma group_scored_start:
  assumes "sorted_wrt (\<ge>) (map snd xs)"
  shows "group_scored xs None [] = map (class_of xs) (rev (sorted_list_of_set (snd ` set xs)))"
proof (cases xs)
  case (Cons x r)
  obtain i p where x: "x = (i, p)" by fastforce
  from assms Cons x have le: "\<forall>q \<in> snd ` set r. q \<le> p" "sorted_wrt (\<ge>) (map snd r)" by auto
  let ?A = "snd ` set r - {p}"
  have max: "\<forall>a \<in> ?A. a < p" using le by force
  have "snd ` set xs = insert p ?A" using Cons x by auto
  then have "sorted_list_of_set (snd ` set xs) = sorted_list_of_set ?A @ [p]"
    using sorted_list_of_set_insert_max[OF _ max] by simp
  moreover have "map (class_of xs) (rev (sorted_list_of_set ?A)) = map (class_of r) (rev (sorted_list_of_set ?A))"
    using Cons x by (auto intro!: map_cong)
  ultimately show ?thesis using group_scored_spec[OF le(2,1), of "[]" "[i]"] Cons x by simp
qed simp

lemma priority_groups_eq:
  "group_scored (sort_key (\<lambda>(_, p). - p) (map (\<lambda>i. (i, prio i)) [0..<n])) None [] = priority_groups prio n"
proof -
  let ?xs = "map (\<lambda>i. (i, prio i)) [0..<n]"
  let ?s = "sort_key (\<lambda>(_, p). - p) ?xs"
  have "sorted (map (\<lambda>(_, p). - p) ?s)" by simp
  then have "sorted_wrt (\<ge>) (map snd ?s)"
    by (simp add: sorted_map sorted_wrt_map case_prod_beta)
  note start = group_scored_start[OF this]
  have "filter (\<lambda>(_, p). p = k) ?s = filter (\<lambda>(_, p). p = k) ?xs" for k
  proof -
    have eq: "(\<lambda>(_ :: nat, p). p = k) = (\<lambda>y. (case y of (_ :: nat, p) \<Rightarrow> - p) = - k)" by auto
    show ?thesis unfolding eq by (rule sort_key_stable)
  qed
  moreover have "map fst (filter (\<lambda>(_, p). p = k) ?xs) = filter (\<lambda>i. prio i = k) [0..<n]" for k
    by (simp add: filter_map comp_def)
  ultimately have "class_of ?s = (\<lambda>k. filter (\<lambda>i. prio i = k) [0..<n])" by auto
  moreover have "snd ` set ?s = prio ` {..<n}" by force
  ultimately show ?thesis using start by (simp add: priority_groups_def)
qed

lemma priority_groups_partition: "is_partition (priority_groups prio n) n"
proof -
  let ?ks = "rev (sorted_list_of_set (prio ` {..<n}))"
  have "distinct (concat (map (\<lambda>k. filter (\<lambda>i. prio i = k) [0..<n]) ks))" if "distinct ks" for ks
    using that by (induction ks) auto
  moreover have "set (concat (priority_groups prio n)) = {..<n}"
    by (auto simp: priority_groups_def)
  ultimately show ?thesis by (simp add: is_partition_def priority_groups_def)
qed

lemma execution_groups:
  "case compute_execution_groups policy calls prepared now of
     Inr groups \<Rightarrow> is_partition groups (length prepared)
       \<and> (case policy of
            Concurrent \<Rightarrow> groups = (if prepared = [] then [] else [[0..<length prepared]])
          | Sequential \<Rightarrow> groups = map (\<lambda>i. [i]) [0..<length prepared]
          | Priority f \<Rightarrow> groups = priority_groups (\<lambda>i. f (call_summary calls (prepared ! i))) (length prepared)
          | CustomStrategy s \<Rightarrow> groups = (if prepared = [] then [] else s now (map (call_summary calls) prepared)))
   | Inl _ \<Rightarrow> prepared \<noteq> []
       \<and> (\<exists>s. policy = CustomStrategy s \<and> \<not> is_partition (s now (map (call_summary calls) prepared)) (length prepared))"
proof (cases "prepared = []")
  case True
  then show ?thesis
    by (auto simp: compute_execution_groups_def is_partition_def priority_groups_def split: tool_execution_policy.splits)
next
  case False
  let ?n = "length prepared"
  show ?thesis
  proof (cases policy)
    case (Priority f)
    let ?prio = "\<lambda>i. f (call_summary calls (prepared ! i))"
    have "map (\<lambda>(i, prep). (i, f (call_summary calls prep))) (enumerate 0 prepared) = map (\<lambda>i. (i, ?prio i)) [0..<?n]"
      by (rule nth_equalityI) (auto simp: nth_enumerate_eq)
    with False Priority show ?thesis
      using priority_groups_eq[of ?prio ?n] priority_groups_partition[of ?prio ?n]
      by (simp add: compute_execution_groups_def Let_def)
  next
    case (CustomStrategy s)
    let ?gs = "s now (map (call_summary calls) prepared)"
    show ?thesis using False CustomStrategy validate_custom_spec[of ?gs ?n]
      by (cases "validate_custom_execution_groups ?gs ?n") (auto simp: compute_execution_groups_def Let_def)
  qed (use False in \<open>auto simp: compute_execution_groups_def is_partition_def concat_map_singleton\<close>)
qed

text \<open>
  Execution groups: whatever the policy, the groups that are run contain every prepared call
  exactly once. Concurrent execution is one group and sequential execution runs the calls one by
  one in order; priority execution runs the classes of equal priority from the highest down, each
  in the order of the calls; and a custom strategy is refused exactly when its answer is not such
  a partition.
\<close>

theorem execution_groups_partition:
  "case compute_execution_groups policy calls prepared now of
     Inr groups \<Rightarrow> is_partition groups (length prepared)
       \<and> (case policy of
            Concurrent \<Rightarrow> groups = (if prepared = [] then [] else [[0..<length prepared]])
          | Sequential \<Rightarrow> groups = map (\<lambda>i. [i]) [0..<length prepared]
          | Priority f \<Rightarrow> groups = priority_groups (\<lambda>i. f (call_summary calls (prepared ! i))) (length prepared)
          | CustomStrategy s \<Rightarrow> groups = (if prepared = [] then [] else s now (map (call_summary calls) prepared)))
   | Inl _ \<Rightarrow> prepared \<noteq> []
       \<and> (\<exists>s. policy = CustomStrategy s \<and> \<not> is_partition (s now (map (call_summary calls) prepared)) (length prepared))"
  by (rule execution_groups)

section \<open>Every call is answered\<close>

fun is_task_event :: "agent_event \<Rightarrow> bool" where
  "is_task_event (ToolExecutionUpdate _ _ _) = True"
| "is_task_event (ToolExecutionEnd _ _ _ _) = True"
| "is_task_event (ArtifactSaved _ _ _) = True"
| "is_task_event _ = False"

abbreviation works :: "world \<Rightarrow> batch \<Rightarrow> world \<Rightarrow> batch \<Rightarrow> bool" where
  "works \<equiv> dispatches is_task_event"

lemma dispatches_session [simp]: "dispatches P w b (w\<lparr>w_session := s\<rparr>) b"
  by (simp add: dispatches_def sends_def)

lemma dispatches_flags [simp]:
  "dispatches P w b w (b\<lparr>b_steering := x\<rparr>)" "dispatches P w b w (b\<lparr>b_cancelled := x\<rparr>)"
  "dispatches P w b w (b\<lparr>b_transfer_signal := y, b_transfer_flag := x\<rparr>)" "dispatches P w b (tock w) (b\<lparr>b_steering := x\<rparr>)"
  by (simp_all add: dispatches_def sends_def tock_def)

lemma works_error: "emit_error_result cfg tc r idx w b = (w', b') \<Longrightarrow> works w b w' b'"
  using dispatches_emit[of is_task_event "ToolExecutionEnd (tci_id tc) (tci_name tc) r True" w b]
  by (auto simp: emit_error_result_def Let_def intro: dispatches_trans)

lemma works_step: "task_step_effect cfg idx tc s w b = (w', b') \<Longrightarrow> works w b w' b'"
  by (cases s) (auto simp: artifact_saved_def Let_def split: option.splits if_splits prod.splits
      intro!: dispatches_emit)

text \<open>A task still owes its result, or has delivered it.\<close>

fun delivers :: "task_step \<Rightarrow> bool" where
  "delivers (StPush _ _) = True"
| "delivers (StPanic _) = True"
| "delivers _ = False"

definition accounted :: "batch \<Rightarrow> task \<Rightarrow> bool" where
  "accounted b t = (tk_panic t \<noteq> None \<and> tk_steps t = [] \<or> tci_id (tk_call t) \<in> answered b \<or> list_ex delivers (tk_steps t))"

lemma accounted_mono: "dispatches P w b w' b' \<Longrightarrow> accounted b t \<Longrightarrow> accounted b' t"
  using answered_mono[of P w b w' b'] by (auto simp: accounted_def)

lemma accounted_mono_list: "dispatches P w b w' b' \<Longrightarrow> list_all (accounted b) ts \<Longrightarrow> list_all (accounted b') ts"
  by (auto simp: list_all_iff intro: accounted_mono)

lemma finished_accounted: "finished t \<Longrightarrow> accounted b t \<Longrightarrow> tk_panic t \<noteq> None \<or> tci_id (tk_call t) \<in> answered b"
  by (auto simp: finished_def accounted_def)

lemma step_delivers: "task_step_effect cfg idx tc s w b = (w', b') \<Longrightarrow> delivers s \<Longrightarrow> (\<forall>m. s \<noteq> StPanic m)
    \<Longrightarrow> tci_id tc \<in> answered b'"
  by (cases s) (auto simp: result_message_def)

lemma advance_task_cases:
  assumes "advance_task cfg t w b = (t', w', b')"
  obtains "tk_steps t = []" "t' = t" "w' = w" "b' = b"
  | m rest where "tk_steps t = StPanic m # rest" "t' = t\<lparr>tk_steps := [], tk_panic := Some m\<rparr>" "w' = w" "b' = b"
  | s rest where "tk_steps t = s # rest" "\<forall>m. s \<noteq> StPanic m" "t' = t\<lparr>tk_steps := rest\<rparr>"
      "task_step_effect cfg (tk_idx t) (tk_call t) s w b = (w', b')"
  using assms by (auto simp: advance_task_def simp del: task_step_effect.simps split: list.splits task_step.splits prod.splits)

lemma advance_task_spec:
  assumes "advance_task cfg t w b = (t', w', b')"
  shows "works w b w' b'" "tk_call t' = tk_call t" "accounted b t \<Longrightarrow> accounted b' t'"
proof -
  show d: "works w b w' b'" using assms by (rule advance_task_cases) (auto dest: works_step)
  show "tk_call t' = tk_call t" using assms by (rule advance_task_cases) auto
  show "accounted b t \<Longrightarrow> accounted b' t'"
    using assms by (rule advance_task_cases) (use answered_mono[OF d] step_delivers in \<open>auto simp: accounted_def\<close>)
qed

lemma advance_nth_spec:
  assumes "advance_nth cfg n ts w b = (ts', w', b')"
  shows "works w b w' b' \<and> map tk_call ts' = map tk_call ts \<and> (list_all (accounted b) ts \<longrightarrow> list_all (accounted b') ts')"
  using assms
proof (induction cfg n ts w b arbitrary: ts' w' b' rule: advance_nth.induct)
  case (2 cfg t ts w b)
  obtain t1 w1 b1 where a: "advance_task cfg t w b = (t1, w1, b1)" by (metis prod_cases3)
  with 2 advance_task_spec[OF a] accounted_mono_list[OF advance_task_spec(1)[OF a]] show ?case by auto
next
  case (3 cfg n t ts w b)
  obtain ts1 w1 b1 where a: "advance_nth cfg n ts w b = (ts1, w1, b1)" by (metis prod_cases3)
  with 3 accounted_mono[of is_task_event w b w1 b1 t] show ?case by auto
qed simp

lemma background_spec:
  assumes "background cfg ms ts w b = (ts', w', b')"
  shows "works w b w' b' \<and> map tk_call ts' = map tk_call ts \<and> (list_all (accounted b) ts \<longrightarrow> list_all (accounted b') ts')"
  using assms
proof (induction cfg ms ts w b arbitrary: ts' w' b' rule: background.induct)
  case (2 cfg n ms ts w b)
  obtain ts1 w1 b1 where a: "advance_nth cfg n ts w b = (ts1, w1, b1)" by (metis prod_cases3)
  with 2 advance_nth_spec[OF a] show ?case by (auto intro: dispatches_trans)
qed auto

lemma run_background_spec:
  assumes "run_background cfg ts w b = (ts', w', b')"
  shows "works w b w' b'" "map tk_call ts' = map tk_call ts" "list_all (accounted b) ts \<Longrightarrow> list_all (accounted b') ts'"
  using background_spec[OF assms[unfolded run_background_def]] by (auto intro: dispatches_trans[OF dispatches_tock])

lemma works_failures: "emit_failures cfg ts w b = (w', b') \<Longrightarrow> works w b w' b'"
  by (induction ts arbitrary: w b)
     (auto simp: emit_join_failure_def split: option.splits prod.splits dest!: works_error intro: dispatches_trans)

lemma works_drain: "drain cfg ms ts completed w b = (w', b') \<Longrightarrow> works w b w' b'"
proof (induction cfg ms ts completed w b rule: drain.induct)
  case (2 cfg n ms ts completed w b)
  obtain ts1 w1 b1 where a: "advance_nth cfg n ts w b = (ts1, w1, b1)" by (metis prod_cases3)
  with 2 advance_nth_spec[OF a] show ?case by (auto intro: dispatches_trans)
qed (auto split: if_splits dest: works_failures)

text \<open>A join that lets the collection go on leaves its call answered.\<close>

lemma works_drain_cancel:
  assumes "drain cfg ms ts completed w (b\<lparr>b_cancelled := True\<rparr>) = (w', b')"
  shows "works w b w' b'"
  by (rule dispatches_trans[OF _ works_drain[OF assms]]) simp

lemma handle_join_spec:
  assumes "handle_join cfg t ms ts w b = (r, w', b')"
  shows "works w b w' b'" "r \<noteq> Some GrContinue" "r = None \<Longrightarrow> finished t \<Longrightarrow> accounted b t \<Longrightarrow> tci_id (tk_call t) \<in> answered b'"
  using assms
  by (auto simp: handle_join_def emit_join_failure_def split: option.splits if_splits prod.splits
      dest: works_error works_drain_cancel emit_error_result_spec finished_accounted)

lemma select_join_spec:
  assumes "select_join cfg t ms all rest w b = (r, w', b')"
  shows "works w b w' b'" "r \<noteq> Some GrContinue" "r = None \<Longrightarrow> finished t \<Longrightarrow> accounted b t \<Longrightarrow> tci_id (tk_call t) \<in> answered b'"
proof -
  obtain c w1 where c: "batch_is_cancelled cfg w b = (c, w1)" by fastforce
  note d = dispatches_cancelled[OF c, of is_task_event]
  show "works w b w' b'" "r \<noteq> Some GrContinue"
    "r = None \<Longrightarrow> finished t \<Longrightarrow> accounted b t \<Longrightarrow> tci_id (tk_call t) \<in> answered b'"
    using assms c d by (auto simp: select_join_def split: if_splits prod.splits
        dest: works_drain handle_join_spec intro: dispatches_trans)
qed

lemma run_steps_to_end_spec:
  assumes "run_steps_to_end cfg idx tc ss w b = (p, w', b')"
  shows "works w b w' b' \<and> (list_ex delivers ss \<longrightarrow> p \<noteq> None \<or> tci_id tc \<in> answered b')"
  using assms
proof (induction ss arbitrary: w b)
  case (Cons s ss)
  show ?case
  proof (cases "\<exists>m. s = StPanic m")
    case True
    with Cons.prems show ?thesis by auto
  next
    case False
    obtain w1 b1 where e: "task_step_effect cfg idx tc s w b = (w1, b1)" by fastforce
    with False Cons.prems have run: "run_steps_to_end cfg idx tc ss w1 b1 = (p, w', b')" by (cases s) auto
    note ih = Cons.IH[OF run]
    have "delivers s \<Longrightarrow> tci_id tc \<in> answered b'" using step_delivers[OF e] False ih answered_mono[of _ w1 b1 w' b'] by blast
    with ih works_step[OF e] show ?thesis by (auto intro: dispatches_trans)
  qed
qed simp

lemma run_to_end_spec:
  assumes "run_to_end cfg t w b = (t', w', b')"
  shows "works w b w' b'" "finished t'" "tk_call t' = tk_call t" "accounted b t \<Longrightarrow> accounted b' t'"
proof -
  obtain p w1 b1 where r: "run_steps_to_end cfg (tk_idx t) (tk_call t) (tk_steps t) w b = (p, w1, b1)" by (metis prod_cases3)
  note s = run_steps_to_end_spec[OF r]
  then have "answered b \<subseteq> answered b1" using answered_mono by blast
  with assms r s show "works w b w' b'" "finished t'" "tk_call t' = tk_call t" "accounted b t \<Longrightarrow> accounted b' t'"
    by (auto simp: run_to_end_def finished_def accounted_def split: if_splits)
qed

definition all_answered :: "task list \<Rightarrow> batch \<Rightarrow> bool" where
  "all_answered ts b = (\<forall>t \<in> set ts. tci_id (tk_call t) \<in> answered b)"

lemma all_answered_calls: "all_answered ts b = (tci_id ` set (map tk_call ts) \<subseteq> answered b)"
  by (auto simp: all_answered_def)

lemma collect_rest_spec:
  assumes "collect_rest cfg ts w b = (r, w', b')" "list_all (accounted b) ts"
  shows "works w b w' b' \<and> (r = GrContinue \<longrightarrow> all_answered ts b')"
  using assms
proof (induction ts arbitrary: w b)
  case (Cons t ts)
  obtain t1 w1 b1 where e: "run_to_end cfg t w b = (t1, w1, b1)" by (metis prod_cases3)
  obtain r2 w2 b2 where j: "select_join cfg t1 [] (t1 # ts) ts w1 b1 = (r2, w2, b2)" by (metis prod_cases3)
  note e' = run_to_end_spec[OF e] and j' = select_join_spec[OF j]
  have d: "works w b w2 b2" by (rule dispatches_trans[OF e'(1) j'(1)])
  show ?case
  proof (cases r2)
    case None
    with Cons.prems e j have rest: "collect_rest cfg ts w2 b2 = (r, w', b')" by simp
    have "list_all (accounted b2) ts" using Cons.prems(2) accounted_mono_list[OF d] by simp
    note ih = Cons.IH[OF rest this]
    have "tci_id (tk_call t) \<in> answered b2" using j'(3)[OF None e'(2)] e'(3,4) Cons.prems(2) by simp
    with ih d answered_mono[of is_task_event w2 b2 w' b'] show ?thesis
      by (auto simp: all_answered_def intro: dispatches_trans)
  qed (use Cons.prems e j d j'(2) in auto)
qed (simp add: all_answered_def)

lemma set_remove_nth: "n < length xs \<Longrightarrow> set xs = insert (xs ! n) (set (remove_nth n xs))"
  by (metis Un_insert_right id_take_nth_drop list.simps(15) remove_nth_def set_append)

lemma list_all_remove_nth: "n < length xs \<Longrightarrow> list_all P xs \<Longrightarrow> list_all P (remove_nth n xs)"
  by (auto simp: list_all_iff set_remove_nth)

lemma collect_moves_spec:
  assumes "collect_moves cfg ms ts w b = (r, w', b')" "list_all (accounted b) ts"
  shows "works w b w' b' \<and> (r = GrContinue \<longrightarrow> all_answered ts b')"
  using assms
proof (induction cfg ms ts w b rule: collect_moves.induct)
  case (1 cfg ts w b)
  then show ?case by (simp add: collect_rest_spec)
next
  case (2 cfg n ms ts w b)
  obtain ts1 w1 b1 where a: "advance_nth cfg n ts w b = (ts1, w1, b1)" by (metis prod_cases3)
  note a' = advance_nth_spec[OF a]
  with 2 a have ih: "works w1 b1 w' b' \<and> (r = GrContinue \<longrightarrow> all_answered ts1 b')" by simp
  have "all_answered ts1 b' = all_answered ts b'"
    using a' by (simp add: all_answered_calls)
  with ih a' show ?case by (auto intro: dispatches_trans)
next
  case (3 cfg n ms ts w b)
  show ?case
  proof (cases "n < length ts \<and> finished (ts ! n)")
    case False
    with 3 show ?thesis by auto
  next
    case True
    obtain r2 w2 b2 where j: "select_join cfg (ts ! n) ms ts (remove_nth n ts) w b = (r2, w2, b2)" by (metis prod_cases3)
    note j' = select_join_spec[OF j]
    show ?thesis
    proof (cases r2)
      case None
      have acc: "accounted b (ts ! n)" "list_all (accounted b2) (remove_nth n ts)"
        using 3(4) True accounted_mono_list[OF j'(1)] list_all_remove_nth[of n ts] by (auto simp: list_all_length)
      have run: "collect_moves cfg ms (remove_nth n ts) w2 b2 = (r, w', b')" using 3(3) True j None by simp
      from 3(1)[OF True j[symmetric] None refl run acc(2)]
      have ih: "works w2 b2 w' b' \<and> (r = GrContinue \<longrightarrow> all_answered (remove_nth n ts) b')" .
      have "tci_id (tk_call (ts ! n)) \<in> answered b2" using j'(3)[OF None] True acc(1) by simp
      with ih j'(1) answered_mono[of is_task_event w2 b2 w' b'] set_remove_nth[of n ts] True show ?thesis
        by (auto simp: all_answered_def intro: dispatches_trans)
    qed (use 3(3) True j j' in auto)
  qed
next
  case (4 cfg ms ts w b)
  obtain c w1 where c: "batch_is_cancelled cfg w b = (c, w1)" by fastforce
  note d = dispatches_cancelled[OF c, of is_task_event]
  show ?case using 4 c d
    by (auto simp: all_answered_def split: if_splits prod.splits dest: works_drain intro: dispatches_trans)
qed

lemma collect_group_spec:
  assumes "collect_group_results cfg ts w b = (r, w', b')" "list_all (accounted b) ts"
  shows "works w b w' b'" "r = GrContinue \<Longrightarrow> all_answered ts b'"
  using collect_moves_spec[OF assms(1)[unfolded collect_group_results_def] assms(2)]
  by (auto intro: dispatches_trans[OF dispatches_tock])

text \<open>Events of the execution phase: those of tasks, and starts under the authority \<open>A\<close>.\<close>

definition exec_event :: "(tool_call_info \<Rightarrow> json \<Rightarrow> bool) \<Rightarrow> agent_event \<Rightarrow> bool" where
  "exec_event A e = (is_task_event e \<or> (\<exists>tc args. e = ToolExecutionStart (tci_id tc) (tci_name tc) args \<and> A tc args))"

lemma works_exec: "works w b w' b' \<Longrightarrow> dispatches (exec_event A) w b w' b'"
  by (erule dispatches_mono) (simp add: exec_event_def)

definition runnable :: "agent_loop_config \<Rightarrow> string \<Rightarrow> json \<Rightarrow> bool" where
  "runnable cfg name args = (case tool_map cfg name of None \<Rightarrow> False | Some tool \<Rightarrow> at_validate tool args = [])"

lemma task_body_accounted: "tk_steps t = task_body cfg tool tc args now \<Longrightarrow> accounted b t"
  by (auto simp: accounted_def task_body_def run_task_steps_def finish_steps_def split: sum.splits)

lemma dispatch_single_spec:
  assumes "dispatch_single_tool cfg tc args idx w b = (r, w', b')" "runnable cfg (tci_name tc) args \<Longrightarrow> A tc args"
  shows "dispatches (exec_event A) w b w' b'
    \<and> (case r of Spawned t \<Rightarrow> tk_call t = tc \<and> accounted b' t | Inline \<Rightarrow> tci_id tc \<in> answered b'
       | DispatchClosed \<Rightarrow> w_rx_limit w \<noteq> None)"
proof (cases "tool_map cfg (tci_name tc)")
  case None
  obtain w1 b1 where "emit_error_result cfg tc (unknown_tool_result (tci_name tc)) idx w b = (w1, b1)" by fastforce
  with None assms(1) emit_error_result_spec(2)[OF this] works_exec[OF works_error[OF this]] show ?thesis
    by (auto simp: dispatch_single_tool_def)
next
  case (Some tool)
  obtain ok w1 where e: "(if at_validate tool args = [] then emit (ToolExecutionStart (tci_id tc) (tci_name tc) args) w else (True, w)) = (ok, w1)"
    by fastforce
  have d: "dispatches (exec_event A) w b w1 b"
  proof (cases "at_validate tool args = []")
    case True
    with Some assms(2) have "exec_event A (ToolExecutionStart (tci_id tc) (tci_name tc) args)"
      by (auto simp: runnable_def exec_event_def)
    with True e show ?thesis by (auto intro: dispatches_emit_eq)
  qed (use e in auto)
  have "dispatches (exec_event A) w b (tock w1) b" by (rule dispatches_trans[OF d]) simp
  moreover have "\<not> ok \<Longrightarrow> w_rx_limit w \<noteq> None" using e by (auto split: if_splits dest: emit_failed_limited)
  ultimately show ?thesis using assms(1) Some e d
    by (cases ok) (auto simp: dispatch_single_tool_def simp del: build_tool_map.simps intro!: task_body_accounted)
qed

abbreviation prep_id :: "tool_call_info list \<Rightarrow> prepared_tool_call list \<Rightarrow> usize \<Rightarrow> string" where
  "prep_id calls prepared k \<equiv> tci_id (calls ! prep_idx (prepared ! k))"

definition allowed :: "agent_loop_config \<Rightarrow> (tool_call_info \<Rightarrow> json \<Rightarrow> bool) \<Rightarrow> tool_call_info list \<Rightarrow> prepared_tool_call \<Rightarrow> bool" where
  "allowed cfg A calls p =
     (runnable cfg (tci_name (calls ! prep_idx p)) (prep_arguments p) \<longrightarrow> A (calls ! prep_idx p) (prep_arguments p))"

lemma covers_step: "insert x T \<subseteq> A \<union> T2 \<Longrightarrow> A \<subseteq> B \<Longrightarrow> K \<union> T2 \<subseteq> B \<union> T' \<Longrightarrow> insert x K \<union> T \<subseteq> B \<union> T'"
  by blast

lemma dispatch_group_spec:
  assumes "dispatch_group cfg calls prepared is ts w b = (r, w', b')"
    "\<forall>k \<in> set is. allowed cfg A calls (prepared ! k)" "list_all (accounted b) ts"
  shows "dispatches (exec_event A) w b w' b'
    \<and> (case r of
         GdSpawned ts' \<Rightarrow> list_all (accounted b') ts'
           \<and> prep_id calls prepared ` set is \<union> tci_id ` set (map tk_call ts) \<subseteq> answered b' \<union> tci_id ` set (map tk_call ts')
       | GdAborted \<Rightarrow> True
       | GdClosed \<Rightarrow> w_rx_limit w \<noteq> None)"
  using assms
proof (induction "is" arbitrary: ts w b)
  case Nil
  then show ?case by auto
next
  case (Cons i ks)
  obtain c w1 where c: "batch_is_cancelled cfg w b = (c, w1)" by fastforce
  note d1 = dispatches_cancelled[OF c, of "exec_event A"]
  let ?tc = "calls ! prep_idx (prepared ! i)"
  obtain r2 w2 b2 where s: "dispatch_single_tool cfg ?tc (prep_arguments (prepared ! i)) (prep_idx (prepared ! i)) w1 b = (r2, w2, b2)"
    by (metis prod_cases3)
  have "runnable cfg (tci_name ?tc) (prep_arguments (prepared ! i)) \<Longrightarrow> A ?tc (prep_arguments (prepared ! i))"
    using Cons.prems(2) by (simp add: allowed_def)
  note s' = dispatch_single_spec[where A = A, OF s this]
  have d2: "dispatches (exec_event A) w b w2 b2" using d1 s' by (blast intro: dispatches_trans)
  have go: ?case
    if bg: "run_background cfg ts2 w2 b2 = (ts3, w3, b3)" and run: "dispatch_group cfg calls prepared ks ts3 w3 b3 = (r, w', b')"
      and acc: "list_all (accounted b2) ts2" and cov: "insert (tci_id ?tc) (tci_id ` set (map tk_call ts)) \<subseteq> answered b2 \<union> tci_id ` set (map tk_call ts2)"
    for ts2 ts3 w3 b3
  proof -
    note bg' = run_background_spec[OF bg]
    have d3: "dispatches (exec_event A) w b w3 b3" by (rule dispatches_trans[OF d2 works_exec[OF bg'(1)]])
    have ih: "dispatches (exec_event A) w3 b3 w' b'
      \<and> (case r of GdSpawned ts' \<Rightarrow> list_all (accounted b') ts'
             \<and> prep_id calls prepared ` set ks \<union> tci_id ` set (map tk_call ts3) \<subseteq> answered b' \<union> tci_id ` set (map tk_call ts')
          | GdAborted \<Rightarrow> True | GdClosed \<Rightarrow> w_rx_limit w3 \<noteq> None)"
      using Cons.IH[OF run _ bg'(3)[OF acc]] Cons.prems(2) by simp
    have mono: "answered b2 \<subseteq> answered b'" using answered_mono[OF bg'(1)] answered_mono[OF conjunct1[OF ih]] by blast
    have d: "dispatches (exec_event A) w b w' b'" using d3 ih by (blast intro: dispatches_trans)
    have same: "set (map tk_call ts3) = set (map tk_call ts2)" using bg'(2) by simp
    show ?thesis
    proof (cases r)
      case (GdSpawned ts')
      with ih have acc': "list_all (accounted b') ts'" and
        sub: "prep_id calls prepared ` set ks \<union> tci_id ` set (map tk_call ts2) \<subseteq> answered b' \<union> tci_id ` set (map tk_call ts')"
        unfolding same by simp_all
      have "prep_id calls prepared ` set (i # ks) \<union> tci_id ` set (map tk_call ts) \<subseteq> answered b' \<union> tci_id ` set (map tk_call ts')"
        using cov mono sub unfolding list.set(2) image_insert by (rule covers_step)
      with acc' d GdSpawned show ?thesis by simp
    qed (use ih d dispatches_limit[OF d3] in auto)
  qed
  show ?case
  proof (cases c)
    case True
    obtain ts3 w3 b3 where bg: "run_background cfg ts w1 b = (ts3, w3, b3)" by (metis prod_cases3)
    with True Cons.prems c dispatches_trans[OF d1 works_exec[OF run_background_spec(1)[OF bg]]] show ?thesis by auto
  next
    case False
    show ?thesis
    proof (cases r2)
      case (Spawned t)
      obtain ts3 w3 b3 where bg: "run_background cfg (ts @ [t]) w2 b2 = (ts3, w3, b3)" by (metis prod_cases3)
      show ?thesis using False Cons.prems c s bg Spawned s' accounted_mono_list[OF d2 Cons.prems(3)] by (intro go[OF bg]) auto
    next
      case Inline
      obtain ts3 w3 b3 where bg: "run_background cfg ts w2 b2 = (ts3, w3, b3)" by (metis prod_cases3)
      show ?thesis using False Cons.prems c s bg Inline s' accounted_mono_list[OF d2 Cons.prems(3)] by (intro go[OF bg]) auto
    next
      case DispatchClosed
      obtain ts3 w3 b3 where bg: "run_background cfg ts w2 (b2\<lparr>b_cancelled := True\<rparr>) = (ts3, w3, b3)" by (metis prod_cases3)
      have "dispatches (exec_event A) w b w2 (b2\<lparr>b_cancelled := True\<rparr>)" by (rule dispatches_trans[OF d2]) simp
      from dispatches_trans[OF this works_exec[OF run_background_spec(1)[OF bg]]]
      show ?thesis using False Cons.prems c s DispatchClosed bg s' dispatches_limit[OF d1] by auto
    qed
  qed
qed

text \<open>The frame of a whole batch, seen from outside.\<close>

definition batch_frame :: "(agent_event \<Rightarrow> bool) \<Rightarrow> world \<Rightarrow> world \<Rightarrow> bool" where
  "batch_frame P w w' = dispatches P w batch_new w' batch_new"

lemma batch_frame_of: "dispatches P w b w' b' \<Longrightarrow> batch_frame P w w'"
  by (simp add: batch_frame_def dispatches_def)

lemma batch_frame_to: "batch_frame P w w' \<Longrightarrow> dispatches P w b w' b"
  by (simp add: batch_frame_def dispatches_def)

lemma batch_frame_trans [trans]: "batch_frame P w w' \<Longrightarrow> batch_frame P w' w'' \<Longrightarrow> batch_frame P w w''"
  unfolding batch_frame_def by (rule dispatches_trans)

lemma batch_frame_mono: "batch_frame P w w' \<Longrightarrow> (\<And>e. P e \<Longrightarrow> Q e) \<Longrightarrow> batch_frame Q w w'"
  unfolding batch_frame_def by (rule dispatches_mono)

lemma steering_frame: "build_steering_outcome cfg calls injected w b = (out, w') \<Longrightarrow> batch_frame P w w' \<and> out \<noteq> ExChannelClosed"
  by (auto simp: build_steering_outcome_def Let_def batch_frame_def)

lemma outcome_not_closed [simp]:
  "build_aborted_outcome cfg calls injected w b \<noteq> ExChannelClosed"
  "build_transfer_outcome cfg calls injected w b \<noteq> ExChannelClosed"
  by (simp_all add: build_aborted_outcome_def build_transfer_outcome_def)

lemma run_groups_spec:
  assumes "run_groups cfg calls prepared injected gs w b = (out, w')"
    "\<forall>k \<in> set (concat gs). allowed cfg A calls (prepared ! k)"
    "tci_id ` set calls \<subseteq> answered b \<union> prep_id calls prepared ` set (concat gs)"
  shows "batch_frame (exec_event A) w w' \<and> answers calls out \<and> (out \<noteq> ExChannelClosed \<or> w_rx_limit w \<noteq> None)"
  using assms
proof (induction gs arbitrary: w b)
  case Nil
  then show ?case by (auto simp: order_results_ids batch_frame_def)
next
  case (Cons g gs)
  obtain c w1 where c: "batch_is_cancelled cfg w b = (c, w1)" by fastforce
  note d1 = dispatches_cancelled[OF c, of "exec_event A"]
  obtain r2 w2 b2 where g: "dispatch_group cfg calls prepared g [] w1 b = (r2, w2, b2)" by (metis prod_cases3)
  have "\<forall>k \<in> set g. allowed cfg A calls (prepared ! k)" using Cons.prems(2) by auto
  note g' = dispatch_group_spec[OF g this, simplified]
  have d2: "dispatches (exec_event A) w b w2 b2" using d1 g' by (blast intro: dispatches_trans)
  show ?case
  proof (cases c)
    case True
    with Cons.prems c d1 show ?thesis by (auto intro: batch_frame_of)
  next
    case nc: False
    show ?thesis
    proof (cases r2)
      case GdAborted
      with nc Cons.prems c g d2 show ?thesis by (auto intro: batch_frame_of)
    next
      case GdClosed
      with nc Cons.prems c g d2 g' dispatches_limit[OF d1] show ?thesis by (auto intro: batch_frame_of)
    next
      case (GdSpawned ts)
      obtain r3 w3 b3 where k: "collect_group_results cfg ts w2 b2 = (r3, w3, b3)" by (metis prod_cases3)
      have acc: "list_all (accounted b2) ts" using g' GdSpawned by simp
      note k' = collect_group_spec[OF k acc]
      have d3: "dispatches (exec_event A) w b w3 b3" by (rule dispatches_trans[OF d2 works_exec[OF k'(1)]])
      have mono: "answered b \<subseteq> answered b3" "answered b2 \<subseteq> answered b3"
        using answered_mono[OF d3] answered_mono[OF k'(1)] .
      show ?thesis
      proof (cases r3)
        case GrContinue
        with k'(2) have "all_answered ts b3" by simp
        moreover have "prep_id calls prepared ` set g \<subseteq> answered b2 \<union> tci_id ` set (map tk_call ts)"
          using g' GdSpawned by simp
        ultimately have "prep_id calls prepared ` set g \<subseteq> answered b3"
          using mono(2) unfolding all_answered_calls by blast
        then have "tci_id ` set calls \<subseteq> answered b3 \<union> prep_id calls prepared ` set (concat gs)"
          using Cons.prems(3) mono(1) unfolding concat.simps set_append image_Un by blast
        moreover have "run_groups cfg calls prepared injected gs w3 b3 = (out, w')"
          using Cons.prems(1) nc c g GdSpawned k GrContinue by simp
        ultimately have "batch_frame (exec_event A) w3 w' \<and> answers calls out \<and> (out \<noteq> ExChannelClosed \<or> w_rx_limit w3 \<noteq> None)"
          using Cons.IH[of w3 b3] Cons.prems(2) by simp
        with batch_frame_of[OF d3] dispatches_limit[OF d3] show ?thesis by (auto intro: batch_frame_trans)
      next
        case GrSteeringInterrupt
        with Cons.prems(1) nc c g GdSpawned k have "build_steering_outcome cfg calls injected w3 b3 = (out, w')" by simp
        with steering_answers[OF this] steering_frame[OF this] batch_frame_of[OF d3] show ?thesis by (auto intro: batch_frame_trans)
      qed (use Cons.prems(1) nc c g GdSpawned k d3 in \<open>auto intro: batch_frame_of\<close>)
    qed
  qed
qed

lemma partition_errors_spec:
  "emit_partition_errors cfg calls reason ps w b = (w', b') \<Longrightarrow>
     dispatches is_gate_event w b w' b' \<and> answered b' = answered b \<union> (\<lambda>p. tci_id (calls ! prep_idx p)) ` set ps"
proof (induction ps arbitrary: w b)
  case (Cons p ps)
  let ?r = "result_error (''custom tool execution strategy returned an invalid partition: '' @ reason)"
  obtain w1 b1 where e: "emit_error_result cfg (calls ! prep_idx p) ?r (prep_idx p) w b = (w1, b1)" by fastforce
  with Cons.prems have "emit_partition_errors cfg calls reason ps w1 b1 = (w', b')" by simp
  from Cons.IH[OF this] emit_error_result_spec[OF e] show ?case by (auto intro: dispatches_trans)
qed simp

lemma groups_partition:
  assumes "compute_execution_groups policy calls prepared now = Inr groups"
  shows "is_partition groups (length prepared)"
  using execution_groups[where policy = policy and calls = calls and prepared = prepared and now = now] assms by simp

text \<open>The authority of a started call, and the event that recorded its approval.\<close>

definition may_start :: "agent_loop_config \<Rightarrow> world \<Rightarrow> tool_call_info list \<Rightarrow> world \<Rightarrow> tool_call_info \<Rightarrow> json \<Rightarrow> bool" where
  "may_start cfg w calls w1 tc args =
     (tc \<in> set calls \<and> authorized cfg (w_session w) tc args \<and> runnable cfg (tci_name tc) args
      \<and> resolved_if_gated cfg (length (w_sent w)) tc w1)"

lemma execute_spec:
  assumes "execute_tools_concurrently cfg calls w = (out, w')"
  shows "answers calls out \<and> (out \<noteq> ExChannelClosed \<or> w_rx_limit w \<noteq> None)
    \<and> (\<exists>w1. batch_frame is_gate_event w w1 \<and> batch_frame (exec_event (may_start cfg w calls w1)) w1 w')"
proof -
  obtain r w1 b1 where p: "preprocess_tool_calls cfg calls w batch_new = (r, w1, b1)" by (metis prod_cases3)
  note p' = preprocess_spec[OF p]
  have f1: "batch_frame is_gate_event w w1" using p' batch_frame_of by blast
  have self: "batch_frame P v v" for P v by (simp add: batch_frame_def)
  show ?thesis
  proof (cases r)
    case (Inl early)
    with assms p p' f1 self show ?thesis by (auto simp: execute_tools_concurrently_def)
  next
    case (Inr q)
    obtain prepared injected where q: "q = (prepared, injected)" by fastforce
    with p' Inr have ok: "list_all (prep_ok cfg (length (w_sent w)) (w_session w) calls w1) prepared"
      and cov: "\<forall>i < length calls. i \<in> prep_idx ` set prepared \<or> tci_id (calls ! i) \<in> answered b1" by auto
    have ids: "tci_id ` set calls \<subseteq> answered b1 \<union> (\<lambda>p. tci_id (calls ! prep_idx p)) ` set prepared"
    proof (rule subsetI, elim imageE)
      fix x tc assume "x = tci_id tc" "tc \<in> set calls"
      then obtain i where "i < length calls" "x = tci_id (calls ! i)" by (auto simp: in_set_conv_nth)
      with cov show "x \<in> answered b1 \<union> (\<lambda>p. tci_id (calls ! prep_idx p)) ` set prepared" by auto
    qed
    obtain c w2 where c: "batch_is_cancelled cfg w1 b1 = (c, w2)" by fastforce
    have f2: "batch_frame P w1 w2" "batch_frame P w1 (tock w2)" for P
      using dispatches_cancelled[OF c, of P] by (auto intro: batch_frame_of dispatches_trans[OF _ dispatches_tock])
    show ?thesis
    proof (cases "compute_execution_groups (cfg_tool_execution_policy cfg) calls prepared (w_tick w2)")
      case (Inl reason)
      obtain w3 b3 where e: "emit_partition_errors cfg calls reason prepared (tock w2) b1 = (w3, b3)" by fastforce
      note e' = partition_errors_spec[OF e]
      have "batch_frame is_gate_event w w3"
        by (rule batch_frame_trans[OF batch_frame_trans[OF f1 f2(2)] batch_frame_of[OF conjunct1[OF e']]])
      with Inl assms p Inr q c e ids e' f1 f2(1) self show ?thesis
        by (cases c) (auto simp: execute_tools_concurrently_def order_results_ids)
    next
      case gs: (Inr groups)
      let ?A = "may_start cfg w calls w1"
      have part: "set (concat groups) = {..<length prepared}"
        using groups_partition[OF gs] by (simp add: is_partition_def)
      have "allowed cfg ?A calls (prepared ! k)" if "k \<in> set (concat groups)" for k
      proof -
        from that have "k < length prepared" unfolding part by simp
        with ok have "prep_ok cfg (length (w_sent w)) (w_session w) calls w1 (prepared ! k)" by (simp add: list_all_length)
        then show ?thesis by (simp add: allowed_def may_start_def prep_ok_def)
      qed
      moreover have "(\<lambda>p. tci_id (calls ! prep_idx p)) ` set prepared = prep_id calls prepared ` set (concat groups)"
        unfolding part by (simp add: set_conv_nth lessThan_def image_Collect) blast
      ultimately have "batch_frame (exec_event ?A) (tock w2) w' \<and> answers calls out \<and> (out \<noteq> ExChannelClosed \<or> w_rx_limit (tock w2) \<noteq> None)"
        if "\<not> c" using that assms p Inr q c gs ids
        by (intro run_groups_spec[of cfg calls prepared injected groups "tock w2" b1]) (auto simp: execute_tools_concurrently_def)
      moreover have "w_rx_limit (tock w2) = w_rx_limit w"
        using f1 f2(2)[of is_gate_event] dispatches_limit unfolding batch_frame_def by metis
      ultimately show ?thesis using f1 f2 assms p Inr q c
        by (cases c) (auto simp: execute_tools_concurrently_def intro: batch_frame_trans)
    qed
  qed
qed

lemma execute_sends:
  assumes "execute_tools_concurrently cfg calls w = (out, w')" "\<And>e. is_gate_event e \<Longrightarrow> Q e" "\<And>A e. exec_event A e \<Longrightarrow> Q e"
  shows "sends Q w w'"
proof -
  from execute_spec[OF assms(1)] obtain w1 where "sends is_gate_event w w1" "sends (exec_event (may_start cfg w calls w1)) w1 w'"
    by (auto simp: batch_frame_def dispatches_def)
  then have "sends Q w w1" "sends Q w1 w'" using assms(2,3) by (auto intro: sends_mono)
  then show ?thesis by (rule sends_trans)
qed

lemma execute_events:
  assumes "execute_tools_concurrently cfg calls w = (out, w')"
  obtains w1 gs xs where "w_sent w1 = w_sent w @ gs" "w_sent w' = w_sent w1 @ xs"
    "list_all is_gate_event gs" "list_all (exec_event (may_start cfg w calls w1)) xs"
  using execute_spec[OF assms] by (auto simp: batch_frame_def dispatches_def sends_def)

text \<open>
  C9. Every tool call gets exactly one answer. Whatever the tools, policies and approval
  callbacks do, however the tasks are scheduled and wherever the run is cancelled, steered,
  transferred or stopped, the outcome of a batch carries one result for each call, with the
  call's id and in the order of the calls; a steering interrupt splits them into the completed
  and the cancelled ones. The only outcome without results is the closed channel, which takes a
  receiver that was dropped.
\<close>

theorem tool_calls_answered:
  assumes "execute_tools_concurrently cfg calls w = (out, w')"
  shows "answers calls out \<and> (out = ExChannelClosed \<longrightarrow> w_rx_limit w \<noteq> None)"
  using execute_spec[OF assms] by blast

text \<open>
  C10. No tool starts without authority. A \<^verbatim>\<open>ToolExecutionStart\<close> sent by a batch
  belongs to one of its calls; the tool exists and its arguments passed the schema; the
  pre-dispatch policies let the call through; and where the approval gate applies, the callback
  approved exactly these arguments (or replaced them by arguments that passed the policies again)
  and its approval was announced earlier in the same batch.
\<close>

theorem tool_starts_authorized:
  assumes "execute_tools_concurrently cfg calls w = (out, w')"
    "w_sent w' = w_sent w @ before @ ToolExecutionStart i n args # after"
  shows "\<exists>tc. tc \<in> set calls \<and> tci_id tc = i \<and> tci_name tc = n
    \<and> runnable cfg n args \<and> authorized cfg (w_session w) tc args
    \<and> (approver cfg n = None \<or> ToolApprovalResolved i n True \<in> set before)"
proof -
  from execute_events[OF assms(1)] obtain w1 gs xs where sent: "w_sent w1 = w_sent w @ gs" "w_sent w' = w_sent w1 @ xs"
    and gs: "list_all is_gate_event gs" and xs: "list_all (exec_event (may_start cfg w calls w1)) xs" .
  let ?e = "ToolExecutionStart i n args"
  from sent assms(2) have split: "gs @ xs = before @ ?e # after" by simp
  have "?e \<notin> set gs" using gs by (auto simp: list_all_iff)
  with split have "\<exists>mid. before = gs @ mid \<and> xs = mid @ ?e # after"
    by (auto simp: append_eq_append_conv2) (metis append_Nil append_eq_Cons_conv list.set_intros(1))+
  then obtain mid where mid: "before = gs @ mid" "xs = mid @ ?e # after" by blast
  with xs have "exec_event (may_start cfg w calls w1) ?e" by simp
  then obtain tc where "tci_id tc = i" "tci_name tc = n" "may_start cfg w calls w1 tc args"
    by (auto simp: exec_event_def)
  then show ?thesis using mid(1) sent(1) by (auto simp: may_start_def resolved_if_gated_def sent_since_def)
qed

text \<open>
  A denied tool never starts: with the deny-list policy anywhere in the pre-dispatch slot,
  no batch sends a \<^verbatim>\<open>ToolExecutionStart\<close> for a tool on its list, whatever the other
  policies rewrite or inject and whatever the approval callback answers.
\<close>

theorem denied_tool_never_starts:
  assumes "execute_tools_concurrently cfg calls w = (out, w')"
    "deny_list_policy denied \<in> set (cfg_pre_dispatch_policies cfg)" "n \<in> set denied"
    "w_sent w' = w_sent w @ es"
  shows "ToolExecutionStart i n args \<notin> set es"
proof
  assume "ToolExecutionStart i n args \<in> set es"
  moreover from execute_events[OF assms(1)] obtain w1 gs xs where "w_sent w1 = w_sent w @ gs" "w_sent w' = w_sent w1 @ xs"
    "list_all is_gate_event gs" "list_all (exec_event (may_start cfg w calls w1)) xs" .
  moreover from this assms(4) have "es = gs @ xs" by simp
  ultimately have "exec_event (may_start cfg w calls w1) (ToolExecutionStart i n args)"
    by (auto simp: list_all_iff)
  then obtain tc where tc: "tci_name tc = n" "authorized cfg (w_session w) tc args"
    by (auto simp: exec_event_def may_start_def)
  then obtain a where "admits cfg (w_session w) tc (tci_arguments tc) a" by (auto simp: authorized_def)
  then obtain t v where "run_pre_dispatch_policies (cfg_pre_dispatch_policies cfg) t
      (dispatch_context cfg (w_session w) tc (tci_arguments tc)) = (v, a)" "\<not> pd_refuses (Some v)"
    by (auto simp: admits_def)
  with deny_list_refuses[OF assms(2), of "dispatch_context cfg (w_session w) tc (tci_arguments tc)" t] tc(1) assms(3)
  show False by (simp add: dispatch_context_def)
qed

section \<open>A concrete batch\<close>

text \<open>Two tools, the first on the deny list and the second behind an approval callback.\<close>

definition example_tool :: "string \<Rightarrow> agent_tool" where
  "example_tool name = \<lparr>at_name = name, at_requires_approval = True, at_execution_root = None, at_approval_context = \<lambda>_. None,
     at_auth_config = None, at_validate = \<lambda>_. [],
     at_execute = \<lambda>_ _ _ _. \<lparr>run_steps = [], run_result = Inr \<lparr>atr_content = [Text ''ok''], atr_details = JNull,
        atr_is_error = False, atr_transfer_signal = None\<rparr>\<rparr>\<rparr>"

definition example_tool_cfg :: agent_loop_config where
  "example_tool_cfg = (example_cfg (\<lambda>_ _ _ _. []) (\<lambda>_. False))
     \<lparr>cfg_tools := [example_tool ''bash'', example_tool ''read''], cfg_approve_tool := Some (\<lambda>_ _. Decides Approved),
      cfg_pre_dispatch_policies := [deny_list_policy [''bash'']]\<rparr>"

definition example_calls :: "tool_call_info list" where
  "example_calls = [\<lparr>tci_id = ''1'', tci_name = ''bash'', tci_arguments = JNull, tci_is_incomplete = False\<rparr>,
                    \<lparr>tci_id = ''2'', tci_name = ''read'', tci_arguments = JNull, tci_is_incomplete = False\<rparr>]"

lemmas dispatch_simps =
  execute_tools_concurrently_def preprocess_tool_calls_def dispatch_context_def batch_is_cancelled_def tock_def
  run_pre_dispatch_policies_def deny_list_policy_def deny_list_evaluate_def approval_gate_def should_call_approval_def
  requires_approval_of_def check_approval_def approval_request_def resolve_decision_def emit_approval_resolved_def
  emit_error_result_def push_result_def result_message_def skip_result_def emit_def rx_open_def now_timestamp_def
  compute_execution_groups_def dispatch_single_tool_def task_body_def run_task_steps_def finish_steps_def
  resolve_credential_def run_background_def collect_group_results_def run_to_end_def finished_def select_join_def
  handle_join_def is_transfer_def artifact_saved_def order_results_by_tool_calls_def result_map_def batch_new_def Let_def

lemma example_batch:
  "map tr_tool_call_id (case fst (execute_tools_concurrently example_tool_cfg example_calls example_world) of
      ExCompleted rs _ _ \<Rightarrow> rs | _ \<Rightarrow> []) = [''1'', ''2'']"
  "\<exists>r1 r2. w_sent (snd (execute_tools_concurrently example_tool_cfg example_calls example_world)) =
    [ToolExecutionEnd ''1'' ''bash'' r1 True,
     ToolApprovalRequested ''2'' ''read'' JNull, ToolApprovalResolved ''2'' ''read'' True,
     ToolExecutionStart ''2'' ''read'' JNull, ToolExecutionEnd ''2'' ''read'' r2 False]"
  by (simp_all add: dispatch_simps example_tool_cfg_def example_cfg_def example_calls_def example_world_def example_tool_def
      List.map_filter_simps)

abbreviation example_run :: "tool_exec_outcome \<times> world" where
  "example_run \<equiv> execute_tools_concurrently example_tool_cfg example_calls example_world"

theorem tool_calls_answered_witness:
  "\<exists>rs sig inj'. fst example_run = ExCompleted rs sig inj' \<and> ids_of rs = [''1'', ''2'']"
proof -
  obtain out w' where run: "example_run = (out, w')" by fastforce
  from tool_calls_answered [OF run] have "answers example_calls out" by simp
  with example_batch(1) run show ?thesis by (cases out) (auto simp: example_calls_def)
qed

theorem tool_starts_authorized_witness:
  "authorized example_tool_cfg session_new
     \<lparr>tci_id = ''2'', tci_name = ''read'', tci_arguments = JNull, tci_is_incomplete = False\<rparr> JNull"
proof -
  obtain out w' where run: "example_run = (out, w')" by fastforce
  from example_batch(2) run obtain r1 r2 where "w_sent w' = w_sent example_world
    @ [ToolExecutionEnd ''1'' ''bash'' r1 True, ToolApprovalRequested ''2'' ''read'' JNull, ToolApprovalResolved ''2'' ''read'' True]
    @ ToolExecutionStart ''2'' ''read'' JNull # [ToolExecutionEnd ''2'' ''read'' r2 False]"
    by (auto simp: example_world_def)
  from tool_starts_authorized [OF run this] show ?thesis by (auto simp: example_calls_def example_world_def)
qed

theorem denied_tool_never_starts_witness:
  "ToolExecutionStart ''1'' ''bash'' JNull \<notin> set (w_sent (snd example_run)) \<and> w_sent (snd example_run) \<noteq> []"
proof -
  obtain out w' where run: "example_run = (out, w')" by fastforce
  have "w_sent w' = w_sent example_world @ w_sent w'" by (simp add: example_world_def)
  from denied_tool_never_starts [OF run _ _ this, of "[''bash'']" "''bash''" "''1''" JNull] example_batch(2) run
  show ?thesis by (auto simp: example_tool_cfg_def)
qed

end
