(* ===== verification/Turn.thy ===== *)
theory Turn
  imports Stream_Retry Tool_Execute
begin

text \<open>
  One turn of the agent loop (\<^verbatim>\<open>loop_/turn.rs\<close>) with its overflow recovery
  (\<^verbatim>\<open>loop_/overflow.rs\<close>): pending messages, context transformers, pre-turn policies,
  cache hints, the model call, and what follows it for errors, plain answers, tool calls and
  transfers.

  A turn takes the loop state and the world and gives its outcome with both; it is \<open>None\<close>
  when the model call does not return. Metrics and tracing are left out.
\<close>

section \<open>State and outcomes\<close>

record loop_state =
  ls_context :: context_messages
  ls_pending :: "agent_message list"
  ls_initial_new_len :: usize
  ls_overflow_signal :: bool
  ls_overflow_attempted :: bool
  ls_turn_index :: usize
  ls_usage :: usage
  ls_cost :: cost
  ls_last_assistant :: "assistant_message option"
  ls_last_tool_results :: "tool_result_message list"
  ls_transfer_chain :: transfer_chain
  ls_reasoning_only_nudged :: bool

datatype turn_outcome = ContinueInner | BreakInner | Return

type_synonym turn_step = "turn_outcome \<times> loop_state \<times> world"

abbreviation context_of :: "loop_state \<Rightarrow> agent_message list" where
  "context_of ls \<equiv> ctx_messages (ls_context ls)"

definition push_context :: "agent_message \<Rightarrow> loop_state \<Rightarrow> loop_state" where
  "push_context m ls = ls\<lparr>ls_context := ctx_push m (ls_context ls)\<rparr>"

text \<open>
  Replacing a committed message. The index was taken before a push of the same turn and the
  context only grows after it, so it is in bounds.
\<close>

definition set_context :: "usize \<Rightarrow> agent_message \<Rightarrow> loop_state \<Rightarrow> loop_state" where
  "set_context i m ls = (case ctx_set i m (ls_context ls) of None \<Rightarrow> ls | Some c \<Rightarrow> ls\<lparr>ls_context := c\<rparr>)"

definition extend_pending :: "agent_message list \<Rightarrow> loop_state \<Rightarrow> loop_state" where
  "extend_pending ms ls = ls\<lparr>ls_pending := ls_pending ls @ ms\<rparr>"

definition sync_pending_message_snapshot :: "loop_state \<Rightarrow> world \<Rightarrow> world" where
  "sync_pending_message_snapshot ls w = replace_pending_messages (ls_pending ls) w"

definition sync_loop_context_snapshot :: "loop_state \<Rightarrow> world \<Rightarrow> world" where
  "sync_loop_context_snapshot ls w = replace_loop_context (context_of ls) w"

section \<open>Shared helpers\<close>

definition build_dynamic_system_prompt_message :: "agent_loop_config \<Rightarrow> world \<Rightarrow> llm_message option \<times> world" where
  "build_dynamic_system_prompt_message cfg w =
     (case cfg_dynamic_system_prompt cfg of
        None \<Rightarrow> (None, w)
      | Some dynamic_fn \<Rightarrow>
         (let dynamic_text = dynamic_fn (w_tick w); w = tock w in
          if dynamic_text = [] then (None, w)
          else (Some (User \<lparr>um_content = [Text dynamic_text], um_timestamp = now_timestamp cfg w, um_cache_hint = None\<rparr>), w)))"

definition build_llm_messages :: "agent_loop_config \<Rightarrow> agent_message list \<Rightarrow> llm_message option \<Rightarrow> llm_message list" where
  "build_llm_messages cfg ms dynamic_prompt =
     (let llm_messages = List.map_filter (cfg_convert_to_llm cfg) ms
      in case dynamic_prompt of None \<Rightarrow> llm_messages | Some p \<Rightarrow> p # llm_messages)"

fun apply_transformer :: "agent_loop_config \<Rightarrow> context_transformer \<Rightarrow> agent_message list \<Rightarrow> bool \<Rightarrow> world
    \<Rightarrow> (agent_message list \<times> compaction_report option) \<times> world" where
  "apply_transformer cfg (SlidingWindow sw) ms overflow w =
     (sw_transform (cfg_json_len cfg) (publish_cached_prefix sw (w_published_prefix w)) ms overflow, w)"
| "apply_transformer cfg (OtherTransformer f) ms overflow w = (f (w_tick w) ms overflow, tock w)"

definition note_compaction :: "agent_message list \<Rightarrow> compaction_report option \<Rightarrow> world \<Rightarrow> bool \<times> world" where
  "note_compaction ms report w =
     (let w = replace_loop_context ms w
      in case report of None \<Rightarrow> (False, w) | Some r \<Rightarrow> (True, emit_ignored (ContextCompacted r) w))"

definition transform_stage :: "agent_loop_config \<Rightarrow> context_transformer option \<Rightarrow> agent_message list \<Rightarrow> bool \<Rightarrow> world
    \<Rightarrow> bool \<times> agent_message list \<times> world" where
  "transform_stage cfg transformer ms overflow w =
     (case transformer of
        None \<Rightarrow> (False, ms, w)
      | Some t \<Rightarrow>
         (case apply_transformer cfg t ms overflow w of ((ms, report), w) \<Rightarrow>
          case note_compaction ms report w of (b, w) \<Rightarrow> (b, ms, w)))"

definition run_context_transformers :: "agent_loop_config \<Rightarrow> context_messages \<Rightarrow> bool \<Rightarrow> world
    \<Rightarrow> bool \<times> context_messages \<times> world" where
  "run_context_transformers cfg c overflow w =
     (if cfg_async_transform_context cfg = None \<and> cfg_transform_context cfg = None then (False, c, w)
      else case transform_stage cfg (map_option OtherTransformer (cfg_async_transform_context cfg)) (ctx_messages c) overflow w of
        (compacted1, ms, w) \<Rightarrow>
          (case transform_stage cfg (cfg_transform_context cfg) ms overflow w of
             (compacted2, ms, w) \<Rightarrow> (compacted1 \<or> compacted2, ctx_make_mut (\<lambda>_. ms) c, w)))"

definition mark_assistant_message_aborted :: "u64 \<Rightarrow> assistant_message \<Rightarrow> assistant_message" where
  "mark_assistant_message_aborted now m =
     m\<lparr>am_stop_reason := SrAborted, am_error_message := Some ''operation aborted via cancellation token'',
       am_error_kind := None, am_timestamp := now\<rparr>"

definition accumulate_turn_state :: "assistant_message \<Rightarrow> loop_state \<Rightarrow> loop_state" where
  "accumulate_turn_state m ls =
     ls\<lparr>ls_usage := usage_add (ls_usage ls) (am_usage m), ls_cost := cost_add (ls_cost ls) (am_cost m),
        ls_last_assistant := Some m\<rparr>"

definition emit_agent_end :: "loop_state \<Rightarrow> world \<Rightarrow> turn_step" where
  "emit_agent_end ls w =
     (case ctx_take_vec (ls_context ls) of (ms, c) \<Rightarrow> (Return, ls\<lparr>ls_context := c\<rparr>, emit_ignored (AgentEnd ms) w))"

definition emit_turn_end_and_agent_end :: "assistant_message \<Rightarrow> tool_result_message list \<Rightarrow> turn_end_reason
    \<Rightarrow> turn_snapshot \<Rightarrow> loop_state \<Rightarrow> world \<Rightarrow> turn_step" where
  "emit_turn_end_and_agent_end m tool_results reason snapshot ls w =
     (case emit (TurnEnd m tool_results reason snapshot) w of (ok, w) \<Rightarrow>
      if \<not> ok then (Return, ls, w) else emit_agent_end ls w)"

definition build_snapshot :: "stop_reason \<Rightarrow> state_delta option \<Rightarrow> loop_state \<Rightarrow> turn_snapshot \<times> loop_state" where
  "build_snapshot stop delta ls =
     (case ctx_snapshot_llm (ls_context ls) of (ms, c) \<Rightarrow>
        (\<lparr>ts_turn_index = ls_turn_index ls, ts_messages = ms, ts_usage = ls_usage ls, ts_cost = ls_cost ls,
          ts_stop_reason = stop, ts_state_delta = delta\<rparr>, ls\<lparr>ls_context := c\<rparr>))"

definition flush_state_delta :: "world \<Rightarrow> state_delta option \<times> world" where
  "flush_state_delta w =
     (case session_flush_delta (w_session w) of (s, delta) \<Rightarrow>
        let w = w\<lparr>w_session := s\<rparr>
        in if delta_is_empty delta then (None, w) else (Some delta, emit_ignored (StateChanged delta) w))"

section \<open>Post-turn policies\<close>

definition assistant_replacement_preserves_tool_calls :: "assistant_message \<Rightarrow> assistant_message \<Rightarrow> bool" where
  "assistant_replacement_preserves_tool_calls original replacement =
     (filter is_tool_call_block (am_content original) = filter is_tool_call_block (am_content replacement))"

fun apply_injections :: "assistant_message \<Rightarrow> agent_message list \<Rightarrow> assistant_message \<Rightarrow> loop_state \<Rightarrow> world
    \<Rightarrow> assistant_message \<times> loop_state \<times> world" where
  "apply_injections original [] replaced ls w = (replaced, ls, w)"
| "apply_injections original (m # ms) replaced ls w =
     (case m of
        Llm (Assistant new_msg) \<Rightarrow>
          apply_injections original ms
            (if assistant_replacement_preserves_tool_calls original new_msg then new_msg else replaced) ls w
      | other \<Rightarrow>
          (let ls = extend_pending [other] ls
           in apply_injections original ms replaced ls (sync_pending_message_snapshot ls w)))"

definition policy_context_of :: "agent_message list \<Rightarrow> loop_state \<Rightarrow> world \<Rightarrow> policy_context" where
  "policy_context_of new_messages ls w =
     \<lparr>pc_turn_index = ls_turn_index ls, pc_accumulated_usage = ls_usage ls, pc_accumulated_cost = ls_cost ls,
      pc_message_count = length (context_of ls), pc_overflow_signal = ls_overflow_signal ls,
      pc_new_messages = new_messages, pc_state = w_session w\<rparr>"

definition run_post_turn_policy_check :: "agent_loop_config \<Rightarrow> string \<Rightarrow> assistant_message \<Rightarrow> tool_result_message list
    \<Rightarrow> loop_state \<Rightarrow> world \<Rightarrow> assistant_message \<times> string option \<times> loop_state \<times> world" where
  "run_post_turn_policy_check cfg system_prompt m tool_results ls w =
     (if cfg_post_turn_policies cfg = [] then (m, None, ls, w)
      else
        let turn_ctx = \<lparr>tpc_assistant_message = m, tpc_tool_results = tool_results, tpc_stop_reason = am_stop_reason m,
              tpc_system_prompt = system_prompt, tpc_model_spec = cfg_model cfg, tpc_context_messages = context_of ls\<rparr>;
            verdict = run_post_turn_policies (cfg_post_turn_policies cfg) (w_tick w) (policy_context_of [] ls w) turn_ctx;
            w = tock w
        in case verdict of
             Continue \<Rightarrow> (m, None, ls, w)
           | Stop reason \<Rightarrow> (m, Some reason, ls, w)
           | Inject msgs \<Rightarrow>
              (case apply_injections m msgs m ls w of
                 (replaced, ls, w) \<Rightarrow> (replaced, None, ls\<lparr>ls_last_assistant := Some replaced\<rparr>, w)))"

section \<open>Cancellation and errors\<close>

definition assistant :: "assistant_message \<Rightarrow> agent_message" where
  "assistant m = Llm (Assistant m)"

definition emit_cancellation_for_turn :: "agent_loop_config \<Rightarrow> bool \<Rightarrow> bool \<Rightarrow> loop_state \<Rightarrow> world \<Rightarrow> turn_step" where
  "emit_cancellation_for_turn cfg emit_turn_start emit_message_start ls w =
     (let abort_msg = build_abort_message (now_timestamp cfg w) (cfg_model cfg);
          ls = push_context (assistant abort_msg) ls
      in case (if emit_turn_start then emit TurnStart w else (True, w)) of (ok, w) \<Rightarrow>
         if \<not> ok then (Return, ls, w)
         else case (if emit_message_start then emit MessageStart w else (True, w)) of (ok, w) \<Rightarrow>
         if \<not> ok then (Return, ls, w)
         else case emit (MessageEnd abort_msg) w of (ok, w) \<Rightarrow>
         if \<not> ok then (Return, ls, w)
         else case build_snapshot SrAborted None ls of (snapshot, ls) \<Rightarrow>
           emit_turn_end_and_agent_end abort_msg [] TeCancelled snapshot ls w)"

definition handle_cancellation :: "agent_loop_config \<Rightarrow> loop_state \<Rightarrow> world \<Rightarrow> turn_step" where
  "handle_cancellation cfg ls w = emit_cancellation_for_turn cfg True True ls w"

definition handle_started_turn_cancellation :: "agent_loop_config \<Rightarrow> loop_state \<Rightarrow> world \<Rightarrow> turn_step" where
  "handle_started_turn_cancellation cfg ls w = emit_cancellation_for_turn cfg False False ls w"

text \<open>The tail shared by aborted streams, error stops and overflow errors: commit, policies, end.\<close>

definition end_with_message :: "agent_loop_config \<Rightarrow> string \<Rightarrow> assistant_message \<Rightarrow> usize \<Rightarrow> stop_reason \<Rightarrow> turn_end_reason
    \<Rightarrow> loop_state \<Rightarrow> world \<Rightarrow> turn_step" where
  "end_with_message cfg system_prompt m i stop reason ls w =
     (case run_post_turn_policy_check cfg system_prompt m [] ls w of (m, policy_stop, ls, w) \<Rightarrow>
      case build_snapshot stop None (set_context i (assistant m) ls) of (snapshot, ls) \<Rightarrow>
        emit_turn_end_and_agent_end m [] reason snapshot ls w)"

definition handle_stream_result :: "agent_loop_config \<Rightarrow> string \<Rightarrow> stream_result \<Rightarrow> loop_state \<Rightarrow> world
    \<Rightarrow> assistant_message option \<times> loop_state \<times> world" where
  "handle_stream_result cfg system_prompt r ls w =
     (case r of
        ResMessage m \<Rightarrow> (Some m, ls, w)
      | ResContextOverflow \<Rightarrow> (None, ls, w)
      | ResAborted \<Rightarrow>
          (let abort_msg = build_abort_message (now_timestamp cfg w) (cfg_model cfg);
               i = length (context_of ls)
           in case end_with_message cfg system_prompt abort_msg i SrAborted TeAborted
                     (push_context (assistant abort_msg) ls) w of (_, ls, w) \<Rightarrow> (None, ls, w))
      | ResChannelClosed \<Rightarrow> (None, ls, w))"

definition handle_error_stop :: "agent_loop_config \<Rightarrow> string \<Rightarrow> assistant_message \<Rightarrow> loop_state \<Rightarrow> world \<Rightarrow> turn_step" where
  "handle_error_stop cfg system_prompt m ls w =
     (let m = fst (sanitize_incomplete_tool_calls m);
          is_abort = (am_stop_reason m = SrAborted);
          i = length (context_of ls)
      in end_with_message cfg system_prompt m i (am_stop_reason m) (if is_abort then TeAborted else TeError)
           (push_context (assistant m) ls) w)"

section \<open>Overflow recovery\<close>

datatype overflow_recovery_result = Recovered stream_result | Failed turn_outcome

definition overflow_error :: "agent_loop_config \<Rightarrow> string \<Rightarrow> loop_state \<Rightarrow> world \<Rightarrow> overflow_recovery_result \<times> loop_state \<times> world" where
  "overflow_error cfg system_prompt ls w =
     (let error_msg = build_error_message (now_timestamp cfg w) (cfg_model cfg) (ContextWindowOverflow (ms_model_id (cfg_model cfg)));
          ls = push_context (assistant error_msg) ls;
          w = emit_ignored (MessageEnd error_msg) w
      in case end_with_message cfg system_prompt error_msg (length (context_of ls) - 1) SrError TeError ls w of
           (out, ls, w) \<Rightarrow> (Failed out, ls, w))"

definition attempt_overflow_recovery :: "agent_loop_config \<Rightarrow> string \<Rightarrow> agent_tool list \<Rightarrow> llm_message option \<Rightarrow> string option
    \<Rightarrow> loop_state \<Rightarrow> world \<Rightarrow> (overflow_recovery_result \<times> loop_state \<times> world) option" where
  "attempt_overflow_recovery cfg system_prompt tools dynamic_prompt api_key ls w =
     (if ls_overflow_attempted ls then Some (overflow_error cfg system_prompt ls w)
      else if cfg_async_transform_context cfg = None \<and> cfg_transform_context cfg = None
           then Some (overflow_error cfg system_prompt ls w)
      else
        let ls = ls\<lparr>ls_overflow_attempted := True, ls_overflow_signal := True\<rparr>
        in case run_context_transformers cfg (ls_context ls) True w of (any_compacted, c, w) \<Rightarrow>
           let ls = ls\<lparr>ls_context := c, ls_overflow_signal := False\<rparr>
           in if \<not> any_compacted then Some (overflow_error cfg system_prompt ls w)
              else case is_cancelled cfg w of (cancelled, w) \<Rightarrow>
              if cancelled then
                Some (case handle_started_turn_cancellation cfg ls w of (out, ls, w) \<Rightarrow> (Failed out, ls, w))
              else
                (case stream_with_retry cfg tools (build_llm_messages cfg (context_of ls) dynamic_prompt) system_prompt api_key False w of
                   None \<Rightarrow> None
                 | Some (r, w) \<Rightarrow>
                     if r = ResContextOverflow then Some (overflow_error cfg system_prompt ls w)
                     else Some (Recovered r, ls, w)))"

section \<open>Turns without tool calls\<close>

definition extract_tool_calls :: "assistant_message \<Rightarrow> tool_call_info list" where
  "extract_tool_calls m =
     List.map_filter (\<lambda>b. case b of
         ToolCall i n args partial \<Rightarrow>
           Some \<lparr>tci_id = i, tci_name = n, tci_arguments = args, tci_is_incomplete = (partial \<noteq> None)\<rparr>
       | _ \<Rightarrow> None) (am_content m)"

definition reasoning_only_nudge_text :: string where
  "reasoning_only_nudge_text =
     ''Your previous turn produced only hidden reasoning '' @ em_dash @ '' no visible text and no tool call '' @ em_dash
     @ '' so the user saw no reply. Respond again now with your answer as visible text (or a tool call if action is needed).''"

definition poll_steering :: "agent_loop_config \<Rightarrow> loop_state \<Rightarrow> world \<Rightarrow> loop_state \<times> world" where
  "poll_steering cfg ls w =
     (case cfg_message_provider cfg of
        None \<Rightarrow> (ls, w)
      | Some provider \<Rightarrow>
         (let msgs = mp_poll_steering provider (w_tick w); w = tock w in
          if msgs = [] then (ls, w)
          else let ls = extend_pending msgs ls in (ls, sync_pending_message_snapshot ls w)))"

definition apply_nudge :: "agent_loop_config \<Rightarrow> bool \<Rightarrow> loop_state \<Rightarrow> world \<Rightarrow> loop_state \<times> world" where
  "apply_nudge cfg reasoning_only ls w =
     (if reasoning_only then
        (if cfg_reasoning_only_nudge cfg \<and> \<not> ls_reasoning_only_nudged ls
         then let ls = extend_pending [Llm (User \<lparr>um_content = [Text reasoning_only_nudge_text],
                         um_timestamp = now_timestamp cfg w, um_cache_hint = None\<rparr>)] (ls\<lparr>ls_reasoning_only_nudged := True\<rparr>)
              in (ls, sync_pending_message_snapshot ls w)
         else (ls, w))
      else (ls\<lparr>ls_reasoning_only_nudged := False\<rparr>, w))"

definition handle_no_tool_calls :: "agent_loop_config \<Rightarrow> string \<Rightarrow> assistant_message \<Rightarrow> loop_state \<Rightarrow> world \<Rightarrow> turn_step" where
  "handle_no_tool_calls cfg system_prompt m ls w =
     (let ls = (accumulate_turn_state m ls)\<lparr>ls_last_tool_results := []\<rparr>;
          i = length (context_of ls);
          ls = push_context (assistant m) ls
      in case run_post_turn_policy_check cfg system_prompt m [] ls w of (m, policy_stop, ls, w) \<Rightarrow>
         let ls = set_context i (assistant m) ls;
             w = sync_loop_context_snapshot ls w;
             reasoning_only = is_reasoning_only m
         in case flush_state_delta w of (delta, w) \<Rightarrow>
            case build_snapshot (am_stop_reason m) delta ls of (snapshot, ls) \<Rightarrow>
            case emit (TurnEnd m [] (if reasoning_only then TeReasoningOnly else TeComplete) snapshot) w of (ok, w) \<Rightarrow>
            if \<not> ok then (Return, ls, w)
            else case policy_stop of
              Some reason \<Rightarrow> emit_agent_end ls w
            | None \<Rightarrow>
               (case apply_nudge cfg reasoning_only ls w of (ls, w) \<Rightarrow>
                case poll_steering cfg ls w of (ls, w) \<Rightarrow>
                ((if ls_pending ls = [] then BreakInner else ContinueInner), ls, w)))"

section \<open>Turns with tool calls\<close>

definition recover_incomplete_tool_calls :: "u64 \<Rightarrow> tool_call_info list \<Rightarrow> stop_reason
    \<Rightarrow> tool_call_info list \<times> tool_result_message list" where
  "recover_incomplete_tool_calls now calls stop =
     (if stop = SrLength
      then (filter (\<lambda>tc. \<not> tci_is_incomplete tc) calls,
            map (\<lambda>tc. result_message now (tci_id tc) [Text ''error: tool call was incomplete due to max tokens reached''] True JNull)
              (filter tci_is_incomplete calls))
      else (calls, []))"

definition rewrite_tool_result_as_rejected :: "string \<Rightarrow> string \<Rightarrow> tool_result_message \<Rightarrow> tool_result_message option" where
  "rewrite_tool_result_as_rejected confirmation rejection tr =
     (if \<not> tr_is_error tr \<and> tr_content tr = [Text confirmation]
      then Some (tr\<lparr>tr_is_error := True, tr_content := [Text rejection]\<rparr>) else None)"

fun rewrite_first_result :: "string \<Rightarrow> string \<Rightarrow> tool_result_message list \<Rightarrow> tool_result_message list" where
  "rewrite_first_result confirmation rejection [] = []"
| "rewrite_first_result confirmation rejection (tr # trs) =
     (case rewrite_tool_result_as_rejected confirmation rejection tr of
        Some tr' \<Rightarrow> tr' # trs
      | None \<Rightarrow> tr # rewrite_first_result confirmation rejection trs)"

fun rewrite_first_message :: "string \<Rightarrow> string \<Rightarrow> agent_message list \<Rightarrow> agent_message list" where
  "rewrite_first_message confirmation rejection [] = []"
| "rewrite_first_message confirmation rejection (m # ms) =
     (case m of
        Llm (ToolResult tr) \<Rightarrow>
          (case rewrite_tool_result_as_rejected confirmation rejection tr of
             Some tr' \<Rightarrow> Llm (ToolResult tr') # ms
           | None \<Rightarrow> m # rewrite_first_message confirmation rejection ms)
      | _ \<Rightarrow> m # rewrite_first_message confirmation rejection ms)"

definition push_results :: "tool_result_message list \<Rightarrow> loop_state \<Rightarrow> loop_state" where
  "push_results trs ls = fold (\<lambda>tr. push_context (Llm (ToolResult tr))) trs ls"

fun rejection_reason_of :: "transfer_error \<Rightarrow> transfer_rejection_reason" where
  "rejection_reason_of (CircularTransfer _ _) = Circular"
| "rejection_reason_of (transfer_error.MaxDepthExceeded _ _) = MaxDepth"

definition agent_name_or_default :: "agent_loop_config \<Rightarrow> string" where
  "agent_name_or_default cfg = (case cfg_agent_name cfg of None \<Rightarrow> [] | Some n \<Rightarrow> n)"

definition turn_end_of :: "bool \<Rightarrow> turn_end_reason" where
  "turn_end_of steering_interrupted = (if steering_interrupted then TeSteeringInterrupt else TeToolsExecuted)"

definition reject_transfer :: "agent_loop_config \<Rightarrow> transfer_signal \<Rightarrow> transfer_error \<Rightarrow> assistant_message
    \<Rightarrow> tool_result_message list \<Rightarrow> bool \<Rightarrow> string option \<Rightarrow> loop_state \<Rightarrow> world \<Rightarrow> turn_step" where
  "reject_transfer cfg signal err m tool_results steering_interrupted policy_stop ls w =
     (let rejection = ''transfer rejected: '' @ transfer_error_to_string err;
          confirmation = ''Transfer to '' @ sig_target_agent signal @ '' initiated.'';
          tool_results = rewrite_first_result confirmation rejection tool_results;
          ls = ls\<lparr>ls_context := ctx_make_mut (rewrite_first_message confirmation rejection) (ls_context ls)\<rparr>;
          w = sync_loop_context_snapshot ls w;
          w = emit_ignored (TransferRejected (agent_name_or_default cfg) (sig_target_agent signal) (rejection_reason_of err)) w
      in case flush_state_delta w of (delta, w) \<Rightarrow>
         case build_snapshot (am_stop_reason m) delta ls of (snapshot, ls) \<Rightarrow>
         case emit (TurnEnd m tool_results (turn_end_of steering_interrupted) snapshot) w of (ok, w) \<Rightarrow>
         if \<not> ok then (Return, ls, w)
         else case policy_stop of Some reason \<Rightarrow> emit_agent_end ls w | None \<Rightarrow> (ContinueInner, ls, w))"

definition complete_transfer :: "transfer_signal \<Rightarrow> transfer_chain \<Rightarrow> assistant_message \<Rightarrow> tool_result_message list
    \<Rightarrow> loop_state \<Rightarrow> world \<Rightarrow> turn_step" where
  "complete_transfer signal chain m tool_results ls w =
     (let ls = ls\<lparr>ls_transfer_chain := chain\<rparr>;
          signal = signal\<lparr>sig_conversation_history := llm_of (context_of ls), sig_transfer_chain := Some chain\<rparr>;
          w = emit_ignored (TransferInitiated signal) w
      in case flush_state_delta w of (delta, w) \<Rightarrow>
         case build_snapshot SrTransfer delta ls of (snapshot, ls) \<Rightarrow>
           emit_turn_end_and_agent_end m tool_results TeTransfer snapshot ls w)"

text \<open>From step xii on: the batch is over and its results are committed.\<close>

definition finish_tool_turn :: "agent_loop_config \<Rightarrow> string \<Rightarrow> assistant_message \<Rightarrow> usize \<Rightarrow> tool_result_message list \<Rightarrow> bool
    \<Rightarrow> transfer_signal option \<Rightarrow> string option \<Rightarrow> loop_state \<Rightarrow> world \<Rightarrow> turn_step" where
  "finish_tool_turn cfg system_prompt m i tool_results steering_interrupted transfer dispatch_stop ls w =
     (let ls = (push_results tool_results ls)\<lparr>ls_last_tool_results := tool_results\<rparr>
      in case run_post_turn_policy_check cfg system_prompt m tool_results ls w of (m, policy_stop, ls, w) \<Rightarrow>
         let ls = set_context i (assistant m) ls;
             w = sync_loop_context_snapshot ls w
         in case transfer of
              Some signal \<Rightarrow>
                (case chain_push (sig_target_agent signal) (ls_transfer_chain ls) of
                   Inl err \<Rightarrow> reject_transfer cfg signal err m tool_results steering_interrupted policy_stop ls w
                 | Inr chain \<Rightarrow> complete_transfer signal chain m tool_results ls w)
            | None \<Rightarrow>
               (case flush_state_delta w of (delta, w) \<Rightarrow>
                case build_snapshot (am_stop_reason m) delta ls of (snapshot, ls) \<Rightarrow>
                case emit (TurnEnd m tool_results (turn_end_of steering_interrupted) snapshot) w of (ok, w) \<Rightarrow>
                if \<not> ok then (Return, ls, w)
                else if dispatch_stop \<noteq> None then emit_agent_end ls w
                else if policy_stop \<noteq> None then emit_agent_end ls w
                else case (if steering_interrupted then (ls, w) else poll_steering cfg ls w) of
                       (ls, w) \<Rightarrow> (ContinueInner, ls, w)))"

definition abort_tool_turn :: "agent_loop_config \<Rightarrow> string \<Rightarrow> assistant_message \<Rightarrow> usize \<Rightarrow> tool_result_message list
    \<Rightarrow> loop_state \<Rightarrow> world \<Rightarrow> turn_step" where
  "abort_tool_turn cfg system_prompt m i tool_results ls w =
     (let ls = (push_results tool_results ls)\<lparr>ls_last_tool_results := tool_results\<rparr>;
          aborted = mark_assistant_message_aborted (now_timestamp cfg w) m
      in case run_post_turn_policy_check cfg system_prompt aborted tool_results ls w of (aborted, _, ls, w) \<Rightarrow>
         let ls = set_context i (assistant aborted) ls
         in case flush_state_delta w of (delta, w) \<Rightarrow>
            case build_snapshot SrAborted delta ls of (snapshot, ls) \<Rightarrow>
              emit_turn_end_and_agent_end aborted tool_results TeCancelled snapshot ls w)"

definition inject_pending :: "agent_message list \<Rightarrow> loop_state \<Rightarrow> world \<Rightarrow> loop_state \<times> world" where
  "inject_pending ms ls w = (let ls = extend_pending ms ls in (ls, sync_pending_message_snapshot ls w))"

definition handle_tool_calls :: "agent_loop_config \<Rightarrow> string \<Rightarrow> assistant_message \<Rightarrow> tool_call_info list \<Rightarrow> loop_state \<Rightarrow> world
    \<Rightarrow> turn_step" where
  "handle_tool_calls cfg system_prompt m calls ls w =
     (let ls = accumulate_turn_state m ls;
          i = length (context_of ls);
          ls = push_context (assistant m) ls;
          (calls, max_token_results) = recover_incomplete_tool_calls (now_timestamp cfg w) calls (am_stop_reason m);
          ls = push_results max_token_results ls
      in if calls = [] then finish_tool_turn cfg system_prompt m i max_token_results False None None ls w
         else case execute_tools_concurrently cfg calls w of (out, w) \<Rightarrow>
           case out of
             ExCompleted results transfer injected \<Rightarrow>
               (case inject_pending injected ls w of (ls, w) \<Rightarrow>
                  finish_tool_turn cfg system_prompt m i (max_token_results @ results) False transfer None ls w)
           | ExStopped results reason injected \<Rightarrow>
               (case inject_pending injected ls w of (ls, w) \<Rightarrow>
                  finish_tool_turn cfg system_prompt m i (max_token_results @ results) False None (Some reason) ls w)
           | ExSteeringInterrupt completed cancelled steering injected \<Rightarrow>
               (case inject_pending (injected @ steering) ls w of (ls, w) \<Rightarrow>
                  finish_tool_turn cfg system_prompt m i (max_token_results @ completed @ cancelled) True None None ls w)
           | ExAborted results injected \<Rightarrow>
               (case inject_pending injected ls w of (ls, w) \<Rightarrow>
                  abort_tool_turn cfg system_prompt m i (max_token_results @ results) ls w)
           | ExChannelClosed \<Rightarrow> (Return, ls, w))"

section \<open>The turn\<close>

definition take_pending :: "agent_loop_config \<Rightarrow> loop_state \<Rightarrow> world \<Rightarrow> agent_message list \<times> loop_state \<times> world" where
  "take_pending cfg ls w =
     (let ls = ls\<lparr>ls_overflow_attempted := False\<rparr>;
          fresh_start = (if ls_turn_index ls = 0 then length (context_of ls) - ls_initial_new_len ls else length (context_of ls));
          ls = ls\<lparr>ls_context := ctx_extend (ls_pending ls) (ls_context ls), ls_pending := []\<rparr>;
          fresh = clone_messages (drop fresh_start (context_of ls));
          ls = ls\<lparr>ls_initial_new_len := 0\<rparr>;
          w = sync_loop_context_snapshot ls (clear_pending_message_snapshot w)
      in (fresh, ls, w))"

definition publish_prefix :: "agent_loop_config \<Rightarrow> loop_state \<Rightarrow> world \<Rightarrow> world" where
  "publish_prefix cfg ls w =
     (case (cfg_cache_config cfg, cfg_transform_context cfg) of
        (Some _, Some (SlidingWindow _)) \<Rightarrow>
          w\<lparr>w_published_prefix := min (cs_cached_prefix_len (w_cache w)) (length (context_of ls))\<rparr>
      | _ \<Rightarrow> w)"

definition annotate_cache :: "agent_loop_config \<Rightarrow> loop_state \<Rightarrow> world \<Rightarrow> loop_state \<times> world" where
  "annotate_cache cfg ls w =
     (case cfg_cache_config cfg of
        None \<Rightarrow> (ls, w)
      | Some cache_config \<Rightarrow>
         (case advance_turn cache_config (w_cache w) of (hint, cache) \<Rightarrow>
          let ms = context_of ls;
              prior_prefix = min (cs_cached_prefix_len cache) (length ms);
              prefix_len = (case hint of CacheWrite _ \<Rightarrow> length ms | CacheRead \<Rightarrow> prior_prefix);
              prefix_tokens = tokens_of (default_count_tokens (cfg_json_len cfg)) (take prefix_len ms)
          in if prefix_tokens \<ge> cc_min_tokens cache_config \<and> prefix_len > 0
             then let ls = ls\<lparr>ls_context := ctx_make_mut (\<lambda>ms. map (set_cache_hint hint) (take prefix_len ms)
                               @ map clear_cache_hint (drop prefix_len ms)) (ls_context ls)\<rparr>;
                      w = sync_loop_context_snapshot ls (w\<lparr>w_cache := cache\<lparr>cs_cached_prefix_len := prefix_len\<rparr>\<rparr>)
                  in (ls, emit_ignored (CacheAction hint prefix_tokens) w)
             else let ls = ls\<lparr>ls_context := ctx_make_mut (map clear_cache_hint) (ls_context ls)\<rparr>
                  in (ls, sync_loop_context_snapshot ls (w\<lparr>w_cache := cache\<rparr>))))"

definition resolve_api_key :: "agent_loop_config \<Rightarrow> world \<Rightarrow> string option \<times> world" where
  "resolve_api_key cfg w =
     (case cfg_get_api_key cfg of None \<Rightarrow> (None, w) | Some get_key \<Rightarrow> (get_key (w_tick w) (ms_provider (cfg_model cfg)), tock w))"

definition handle_assistant_message :: "agent_loop_config \<Rightarrow> string \<Rightarrow> assistant_message \<Rightarrow> loop_state \<Rightarrow> world \<Rightarrow> turn_step" where
  "handle_assistant_message cfg system_prompt m ls w =
     (let m = price_assistant_message_with cfg m
      in if am_stop_reason m = SrError \<or> am_stop_reason m = SrAborted then handle_error_stop cfg system_prompt m ls w
         else let calls = extract_tool_calls m;
                  m = fst (sanitize_incomplete_tool_calls m)
              in if calls = [] then handle_no_tool_calls cfg system_prompt m ls w
                 else handle_tool_calls cfg system_prompt m calls ls w)"

definition settle_call :: "agent_loop_config \<Rightarrow> string \<Rightarrow> overflow_recovery_result \<Rightarrow> loop_state \<Rightarrow> world \<Rightarrow> turn_step" where
  "settle_call cfg system_prompt r ls w =
     (case r of
        Failed out \<Rightarrow> (out, ls, w)
      | Recovered r \<Rightarrow>
         (case handle_stream_result cfg system_prompt r ls w of
            (None, ls, w) \<Rightarrow> (Return, ls, w)
          | (Some m, ls, w) \<Rightarrow> handle_assistant_message cfg system_prompt m ls w))"

text \<open>From the model call on; the recovery from an overflow is part of the call.\<close>

definition call_and_handle :: "agent_loop_config \<Rightarrow> string \<Rightarrow> llm_message option \<Rightarrow> llm_message list \<Rightarrow> string option
    \<Rightarrow> loop_state \<Rightarrow> world \<Rightarrow> turn_step option" where
  "call_and_handle cfg system_prompt dynamic_prompt llm_messages api_key ls w =
     (let tools = capability_filter_tools (cfg_model cfg) (cfg_tools cfg) in
      case stream_with_retry cfg tools llm_messages system_prompt api_key True w of
        None \<Rightarrow> None
      | Some (r, w) \<Rightarrow>
         (case (if r = ResContextOverflow
                then attempt_overflow_recovery cfg system_prompt tools dynamic_prompt api_key ls w
                else Some (Recovered r, ls, w)) of
            None \<Rightarrow> None
          | Some (r, ls, w) \<Rightarrow> Some (settle_call cfg system_prompt r ls w)))"

definition start_turn :: "agent_loop_config \<Rightarrow> string \<Rightarrow> loop_state \<Rightarrow> world \<Rightarrow> turn_step option" where
  "start_turn cfg system_prompt ls w =
     (case emit TurnStart w of (ok, w) \<Rightarrow>
      if \<not> ok then Some (Return, ls, w)
      else case annotate_cache cfg ls w of (ls, w) \<Rightarrow>
           case build_dynamic_system_prompt_message cfg w of (dynamic_prompt, w) \<Rightarrow>
           let llm_messages = build_llm_messages cfg (context_of ls) dynamic_prompt
           in case resolve_api_key cfg w of (api_key, w) \<Rightarrow>
              case emit (BeforeLlmCall system_prompt llm_messages (cfg_model cfg)) w of (ok, w) \<Rightarrow>
              if \<not> ok then Some (Return, ls, w)
              else call_and_handle cfg system_prompt dynamic_prompt llm_messages api_key ls w)"

definition run_single_turn :: "agent_loop_config \<Rightarrow> string \<Rightarrow> loop_state \<Rightarrow> world \<Rightarrow> turn_step option" where
  "run_single_turn cfg system_prompt ls w =
     (case take_pending cfg ls w of (fresh, ls, w) \<Rightarrow>
      case is_cancelled cfg w of (cancelled, w) \<Rightarrow>
      if cancelled then Some (handle_cancellation cfg ls w)
      else case run_context_transformers cfg (ls_context ls) (ls_overflow_signal ls) (publish_prefix cfg ls w) of
        (_, c, w) \<Rightarrow>
          let ls = ls\<lparr>ls_context := c, ls_overflow_signal := False\<rparr>;
              verdict = run_policies (cfg_pre_turn_policies cfg) (w_tick w) (policy_context_of fresh ls w);
              w = tock w
          in case verdict of
               Stop reason \<Rightarrow> Some (emit_agent_end ls w)
             | Continue \<Rightarrow> start_turn cfg system_prompt ls w
             | Inject msgs \<Rightarrow>
                 (let ls = ls\<lparr>ls_context := ctx_extend msgs (ls_context ls)\<rparr>
                  in start_turn cfg system_prompt ls (sync_loop_context_snapshot ls w)))"

end
