(* ===== verification/Turn_Protocol.thy ===== *)
theory Turn_Protocol
  imports Turn
begin

text \<open>
  The order of the events of a turn. The contract a consumer of the event stream relies on is the
  automaton \<open>protocol_step\<close>; every operation of a turn is shown to follow it while the
  receiver is there.
\<close>

section \<open>The event protocol\<close>

datatype phase = Idle | Opened | Called | Done | Ended

text \<open>
  Before a turn; in it before the model call; from the model call on; and after its end, where
  only the end of the run may follow. A consumer of the whole run sees the next turn start there.
\<close>

fun idle_step :: "agent_event \<Rightarrow> phase option" where
  "idle_step TurnStart = Some Opened"
| "idle_step (ContextCompacted _) = Some Idle"
| "idle_step (AgentEnd _) = Some Ended"
| "idle_step _ = None"

fun opened_step :: "agent_event \<Rightarrow> phase option" where
  "opened_step (CacheAction _ _) = Some Opened"
| "opened_step MessageStart = Some Opened"
| "opened_step (MessageEnd _) = Some Opened"
| "opened_step (BeforeLlmCall _ _ _) = Some Called"
| "opened_step (TurnEnd _ _ _ _) = Some Done"
| "opened_step _ = None"

fun called_step :: "agent_event \<Rightarrow> phase option" where
  "called_step MessageStart = Some Called"
| "called_step (MessageUpdate _) = Some Called"
| "called_step (MessageEnd _) = Some Called"
| "called_step (ModelFallback _ _) = Some Called"
| "called_step (ContextCompacted _) = Some Called"
| "called_step (ToolExecutionStart _ _ _) = Some Called"
| "called_step (ToolExecutionUpdate _ _ _) = Some Called"
| "called_step (ToolExecutionEnd _ _ _ _) = Some Called"
| "called_step (ToolApprovalRequested _ _ _) = Some Called"
| "called_step (ToolApprovalResolved _ _ _) = Some Called"
| "called_step (ArtifactSaved _ _ _) = Some Called"
| "called_step (StateChanged _) = Some Called"
| "called_step (TransferInitiated _) = Some Called"
| "called_step (TransferRejected _ _ _) = Some Called"
| "called_step (TurnEnd _ _ _ _) = Some Done"
| "called_step _ = None"

fun done_step :: "agent_event \<Rightarrow> phase option" where
  "done_step (AgentEnd _) = Some Ended"
| "done_step _ = None"

primrec protocol_step :: "phase \<Rightarrow> agent_event \<Rightarrow> phase option" where
  "protocol_step Idle = idle_step"
| "protocol_step Opened = opened_step"
| "protocol_step Called = called_step"
| "protocol_step Done = done_step"
| "protocol_step Ended = (\<lambda>_. None)"

fun protocol :: "phase \<Rightarrow> agent_event list \<Rightarrow> phase option" where
  "protocol p [] = Some p"
| "protocol p (e # es) = (case protocol_step p e of None \<Rightarrow> None | Some q \<Rightarrow> protocol q es)"

lemma protocol_append: "protocol p (xs @ ys) = (case protocol p xs of None \<Rightarrow> None | Some q \<Rightarrow> protocol q ys)"
  by (induction xs arbitrary: p) (auto split: option.splits)

lemma protocol_stays: "list_all (\<lambda>e. protocol_step p e = Some p) es \<Longrightarrow> protocol p es = Some p"
  by (induction es) auto

text \<open>Going from one phase to another with the receiver in place.\<close>

definition goes :: "phase \<Rightarrow> world \<Rightarrow> phase \<Rightarrow> world \<Rightarrow> bool" where
  "goes p w q w' = (w_rx_limit w' = None \<and> w_tick w \<le> w_tick w' \<and> (\<exists>es. w_sent w' = w_sent w @ es \<and> protocol p es = Some q))"

lemma goes_trans [trans]: "goes p w q w' \<Longrightarrow> goes q w' r w'' \<Longrightarrow> goes p w r w''"
  by (auto simp: goes_def protocol_append)

lemma goes_quiet: "w_rx_limit w = None \<Longrightarrow> quiet w w' \<Longrightarrow> goes p w p w'"
  by (auto simp: goes_def quiet_def)

lemma goes_sends:
  "w_rx_limit w = None \<Longrightarrow> sends P w w' \<Longrightarrow> (\<And>e. P e \<Longrightarrow> protocol_step p e = Some p) \<Longrightarrow> goes p w p w'"
  by (auto simp: goes_def sends_def list_all_iff intro!: protocol_stays)

lemma goes_emit: "w_rx_limit w = None \<Longrightarrow> protocol_step p e = Some q \<Longrightarrow> goes p w q (snd (emit e w))"
  by (auto simp: goes_def emit_unlimited)

lemma goes_limit: "goes p w q w' \<Longrightarrow> w_rx_limit w' = None"
  by (simp add: goes_def)

lemma emit_open: "w_rx_limit w = None \<Longrightarrow> emit e w = (ok, w') \<Longrightarrow> ok \<and> w' = snd (emit e w)"
  by (auto simp: emit_unlimited)

fun phase_after :: "turn_outcome \<Rightarrow> phase" where
  "phase_after Return = Ended"
| "phase_after _ = Done"

lemma goes_stream:
  assumes "w_rx_limit w = None" "stream_with_retry cfg tools msgs sys key start w = Some (r, w')"
  shows "goes Called w Called w'" "r \<noteq> ResChannelClosed"
proof -
  from streams_stream_with_retry[OF assms(2)] have "sends is_stream_event w w'" by (simp add: streams_def)
  moreover have "is_stream_event e \<Longrightarrow> protocol_step Called e = Some Called" for e by (cases e) auto
  ultimately show "goes Called w Called w'" using assms(1) by (blast intro: goes_sends)
  show "r \<noteq> ResChannelClosed" by (rule stream_not_closed[OF assms(2,1)])
qed

lemma goes_execute:
  assumes "w_rx_limit w = None" "execute_tools_concurrently cfg calls w = (out, w')"
  shows "goes Called w Called w'" "out \<noteq> ExChannelClosed"
proof -
  let ?Q = "\<lambda>e. protocol_step Called e = Some Called"
  have "?Q e" if "is_gate_event e" for e using that by (cases e) auto
  moreover have "?Q e" if "exec_event A e" for A e using that by (cases e) (auto simp: exec_event_def)
  ultimately have "sends ?Q w w'" by (rule execute_sends[OF assms(2)])
  then show "goes Called w Called w'" using assms(1) by (blast intro: goes_sends)
  show "out \<noteq> ExChannelClosed" using execute_spec[OF assms(2)] assms(1) by simp
qed

section \<open>Quiet helpers\<close>

lemma sync_quiet [simp]: "quiet w (sync_pending_message_snapshot ls w)" "quiet w (sync_loop_context_snapshot ls w)"
  by (simp_all add: sync_pending_message_snapshot_def sync_loop_context_snapshot_def)

lemma quiet_trans [trans]: "quiet w w' \<Longrightarrow> quiet w' w'' \<Longrightarrow> quiet w w''"
  by (simp add: quiet_def)

lemma quiet_limit: "quiet w w' \<Longrightarrow> w_rx_limit w' = w_rx_limit w"
  by (simp add: quiet_def)

lemma injections_quiet: "apply_injections original ms replaced ls w = (m, ls', w') \<Longrightarrow> quiet w w'"
  by (induction original ms replaced ls w rule: apply_injections.induct)
     (auto simp: Let_def split: agent_message.splits llm_message.splits intro: quiet_trans[OF sync_quiet(1)])

lemma policy_check_quiet: "run_post_turn_policy_check cfg sys m trs ls w = (m', stop, ls', w') \<Longrightarrow> quiet w w'"
  by (auto simp: run_post_turn_policy_check_def Let_def split: if_splits policy_verdict.splits prod.splits
      dest!: injections_quiet intro: quiet_trans[OF quiet_simps(2)])

lemma inject_pending_quiet: "inject_pending ms ls w = (ls', w') \<Longrightarrow> quiet w w'"
  by (auto simp: inject_pending_def Let_def)

lemma poll_steering_quiet: "poll_steering cfg ls w = (ls', w') \<Longrightarrow> quiet w w'"
  by (auto simp: poll_steering_def Let_def split: option.splits if_splits intro: quiet_trans[OF quiet_simps(2)])

lemma nudge_quiet: "apply_nudge cfg r ls w = (ls', w') \<Longrightarrow> quiet w w'"
  by (auto simp: apply_nudge_def Let_def split: if_splits)

lemma flush_goes:
  assumes "w_rx_limit w = None" "flush_state_delta w = (d, w')"
  shows "goes Called w Called w'"
proof -
  obtain s delta where f: "session_flush_delta (w_session w) = (s, delta)" by fastforce
  have q: "goes Called w Called (w\<lparr>w_session := s\<rparr>)" using assms(1) by (intro goes_quiet) simp_all
  with goes_emit[of "w\<lparr>w_session := s\<rparr>" Called "StateChanged delta" Called] assms f show ?thesis
    by (auto simp: flush_state_delta_def Let_def split: if_splits intro: goes_trans)
qed

section \<open>The ends of a turn\<close>

lemma agent_end_goes:
  assumes "w_rx_limit w = None" "emit_agent_end ls w = (out, ls', w')" "p = Idle \<or> p = Done"
  shows "goes p w Ended w'" "out = Return"
  using assms goes_emit[of w p "AgentEnd (context_of ls)" Ended] by (auto simp: emit_agent_end_def ctx_take_vec_def)

lemma turn_end_goes:
  assumes "w_rx_limit w = None" "emit_turn_end_and_agent_end m trs reason snap ls w = (out, ls', w')" "p = Opened \<or> p = Called"
  shows "goes p w (phase_after out) w'"
proof -
  let ?w = "snd (emit (TurnEnd m trs reason snap) w)"
  have t: "goes p w Done ?w" using assms(1,3) by (intro goes_emit) auto
  have "emit_agent_end ls ?w = (out, ls', w')"
    using assms(1,2) by (simp add: emit_turn_end_and_agent_end_def emit_unlimited)
  from agent_end_goes[OF goes_limit[OF t] this, of Done] t show ?thesis by (auto intro: goes_trans)
qed

lemma end_with_message_goes:
  assumes "w_rx_limit w = None" "end_with_message cfg sys m i stop reason ls w = (out, ls', w')" "p = Opened \<or> p = Called"
  shows "goes p w (phase_after out) w'"
proof -
  obtain m1 ps ls1 w1 where c: "run_post_turn_policy_check cfg sys m [] ls w = (m1, ps, ls1, w1)" by (metis prod_cases4)
  have q: "goes p w p w1" using policy_check_quiet[OF c] assms(1) by (intro goes_quiet)
  obtain snap ls2 where b: "build_snapshot stop None (set_context i (assistant m1) ls1) = (snap, ls2)" by fastforce
  have "emit_turn_end_and_agent_end m1 [] reason snap ls2 w1 = (out, ls', w')"
    using assms(2) c b by (simp add: end_with_message_def)
  from turn_end_goes[OF goes_limit[OF q] this assms(3)] q show ?thesis by (blast intro: goes_trans)
qed

lemma cancellation_goes:
  assumes "w_rx_limit w = None" "emit_cancellation_for_turn cfg ts ms ls w = (out, ls', w')"
    "p = (if ts then Idle else Called)"
  shows "goes p w (phase_after out) w'"
proof -
  let ?q = "if ts then Opened else Called"
  let ?m = "build_abort_message (now_timestamp cfg w) (cfg_model cfg)"
  let ?w1 = "if ts then snd (emit TurnStart w) else w"
  let ?w2 = "if ms then snd (emit MessageStart ?w1) else ?w1"
  let ?w3 = "snd (emit (MessageEnd ?m) ?w2)"
  have g1: "goes p w ?q ?w1" using assms(1,3) goes_emit[of w Idle TurnStart Opened] goes_quiet[of w w] by auto
  have "goes ?q ?w1 ?q ?w2" using goes_limit[OF g1] goes_emit[of ?w1 ?q MessageStart ?q] goes_quiet[of ?w1 ?w1] by auto
  with g1 have g2: "goes p w ?q ?w2" by (rule goes_trans)
  have "goes ?q ?w2 ?q ?w3" using goes_limit[OF g2] by (intro goes_emit) auto
  with g2 have g3: "goes p w ?q ?w3" by (rule goes_trans)
  obtain snap ls2 where b: "build_snapshot SrAborted None (push_context (assistant ?m) ls) = (snap, ls2)" by fastforce
  have "emit_turn_end_and_agent_end ?m [] TeCancelled snap ls2 ?w3 = (out, ls', w')"
    using assms(1,2) b
    by (simp add: emit_cancellation_for_turn_def Let_def emit_unlimited split: if_splits)
  from turn_end_goes[OF goes_limit[OF g3] this, of ?q] g3 show ?thesis by (auto intro: goes_trans)
qed

lemma stream_result_goes:
  assumes "w_rx_limit w = None" "handle_stream_result cfg sys r ls w = (m, ls', w')" "r \<noteq> ResChannelClosed" "r \<noteq> ResContextOverflow"
  shows "case m of None \<Rightarrow> goes Called w Ended w' | Some _ \<Rightarrow> goes Called w Called w'"
proof (cases r)
  case ResAborted
  obtain out ls1 w1 where e: "end_with_message cfg sys (build_abort_message (now_timestamp cfg w) (cfg_model cfg)) (length (context_of ls))
      SrAborted TeAborted (push_context (assistant (build_abort_message (now_timestamp cfg w) (cfg_model cfg))) ls) w = (out, ls1, w1)"
    by (metis prod_cases3)
  have "out = Return" using e
    by (auto simp: end_with_message_def emit_turn_end_and_agent_end_def emit_agent_end_def split: prod.splits if_splits)
  with e assms ResAborted end_with_message_goes[OF assms(1) e, of Called] show ?thesis
    by (simp add: handle_stream_result_def Let_def)
qed (use assms goes_quiet[of w w] in \<open>auto simp: handle_stream_result_def\<close>)

lemma error_stop_goes:
  assumes "w_rx_limit w = None" "handle_error_stop cfg sys m ls w = (out, ls', w')"
  shows "goes Called w (phase_after out) w'"
  using end_with_message_goes[OF assms(1), of cfg sys _ _ _ _ _ out ls' w' Called] assms(2)
  by (auto simp: handle_error_stop_def Let_def)

lemma transformer_quiet: "apply_transformer cfg t ms overflow w = (r, w') \<Longrightarrow> quiet w w'"
  by (cases t) auto

lemma compaction_goes:
  assumes "w_rx_limit w = None" "note_compaction ms report w = (b, w')" "p = Idle \<or> p = Called"
  shows "goes p w p w'"
proof -
  have "goes p w p (replace_loop_context ms w)" using assms(1) by (intro goes_quiet) simp_all
  with assms goes_emit[OF goes_limit[OF this], of p _ p] show ?thesis
    by (auto simp: note_compaction_def Let_def split: option.splits intro: goes_trans)
qed

lemma stage_goes:
  assumes "w_rx_limit w = None" "transform_stage cfg topt ms overflow w = (b, ms', w')" "p = Idle \<or> p = Called"
  shows "goes p w p w'"
proof (cases topt)
  case None
  with assms show ?thesis by (auto simp: transform_stage_def intro: goes_quiet)
next
  case (Some t)
  obtain ms1 report w1 where a: "apply_transformer cfg t ms overflow w = ((ms1, report), w1)" by (metis surj_pair)
  have g: "goes p w p w1" using transformer_quiet[OF a] assms(1) by (intro goes_quiet)
  from Some a assms(2) have "note_compaction ms1 report w1 = (b, w')"
    by (auto simp: transform_stage_def split: prod.splits)
  from goes_trans[OF g compaction_goes[OF goes_limit[OF g] this assms(3)]] show ?thesis .
qed

lemma transformers_goes:
  assumes "w_rx_limit w = None" "run_context_transformers cfg c overflow w = (b, c', w')" "p = Idle \<or> p = Called"
  shows "goes p w p w'"
proof (cases "cfg_async_transform_context cfg = None \<and> cfg_transform_context cfg = None")
  case True
  with assms show ?thesis by (auto simp: run_context_transformers_def intro: goes_quiet)
next
  case False
  obtain b1 ms1 w1 where s1: "transform_stage cfg (map_option OtherTransformer (cfg_async_transform_context cfg)) (ctx_messages c) overflow w
      = (b1, ms1, w1)" by (metis prod_cases3)
  obtain b2 ms2 w2 where s2: "transform_stage cfg (cfg_transform_context cfg) ms1 overflow w1 = (b2, ms2, w2)" by (metis prod_cases3)
  note g1 = stage_goes[OF assms(1) s1 assms(3)]
  have "w' = w2" using assms(2) False s1 s2 by (auto simp: run_context_transformers_def)
  with goes_trans[OF g1 stage_goes[OF goes_limit[OF g1] s2 assms(3)]] show ?thesis by simp
qed

lemma overflow_error_goes:
  assumes "w_rx_limit w = None" "overflow_error cfg sys ls w = (r, ls', w')"
  shows "\<exists>out. r = Failed out \<and> goes Called w (phase_after out) w'"
proof -
  let ?m = "build_error_message (now_timestamp cfg w) (cfg_model cfg) (ContextWindowOverflow (ms_model_id (cfg_model cfg)))"
  let ?w = "snd (emit (MessageEnd ?m) w)"
  have g: "goes Called w Called ?w" using assms(1) by (intro goes_emit) simp_all
  obtain out ls1 w1 where e: "end_with_message cfg sys ?m (length (context_of (push_context (assistant ?m) ls)) - 1) SrError TeError
      (push_context (assistant ?m) ls) ?w = (out, ls1, w1)" by (metis prod_cases3)
  from end_with_message_goes[OF goes_limit[OF g] e, of Called] g assms(2) e show ?thesis
    by (auto simp: overflow_error_def Let_def intro: goes_trans)
qed

lemma overflow_recovery_goes:
  assumes "w_rx_limit w = None" "attempt_overflow_recovery cfg sys tools dyn key ls w = Some (r, ls', w')"
  shows "case r of Failed out \<Rightarrow> goes Called w (phase_after out) w'
    | Recovered res \<Rightarrow> goes Called w Called w' \<and> res \<noteq> ResChannelClosed \<and> res \<noteq> ResContextOverflow"
proof -
  have overflow: ?thesis if "overflow_error cfg sys ls1 w1 = (r, ls', w')" "goes Called w Called w1" for ls1 w1
    using overflow_error_goes[OF goes_limit[OF that(2)] that(1)] that(2) by (auto intro: goes_trans)
  have self: "goes Called w Called w" using assms(1) by (intro goes_quiet) simp_all
  obtain b c w1 where t: "run_context_transformers cfg (ls_context ls) True w = (b, c, w1)" by (metis prod_cases3)
  have g1: "goes Called w Called w1" using transformers_goes[OF assms(1) t] by simp
  let ?ls = "ls\<lparr>ls_overflow_attempted := True, ls_context := c, ls_overflow_signal := False\<rparr>"
  obtain k w2 where k: "is_cancelled cfg w1 = (k, w2)" by fastforce
  have g2: "goes Called w Called w2"
    using g1 goes_quiet[OF goes_limit[OF g1], of w2 Called] k by (auto simp: is_cancelled_def intro: goes_trans)
  consider (err) ls1 w1 where "overflow_error cfg sys ls1 w1 = (r, ls', w')" "goes Called w Called w1"
    | (cancel) out where "r = Failed out" "handle_started_turn_cancellation cfg ?ls w2 = (out, ls', w')"
    | (again) res where "r = Recovered res" "res \<noteq> ResContextOverflow"
        "stream_with_retry cfg tools (build_llm_messages cfg (context_of ?ls) dyn) sys key False w2 = Some (res, w')"
  proof -
    show thesis
      using assms(2) t k self g1 g2 that goes_trans[OF g2 goes_stream(1)[OF goes_limit[OF g2]]]
      by (auto simp: attempt_overflow_recovery_def Let_def split: if_splits option.splits prod.splits)
  qed
  then show ?thesis
  proof cases
    case err
    then show ?thesis by (rule overflow)
  next
    case cancel
    with cancellation_goes[OF goes_limit[OF g2], of cfg False False ?ls out ls' w' Called] g2 show ?thesis
      by (auto simp: handle_started_turn_cancellation_def intro: goes_trans)
  next
    case again
    with goes_stream[OF goes_limit[OF g2] again(3)] g2 show ?thesis by (auto intro: goes_trans)
  qed
qed

text \<open>A turn that goes on or stops after its \<open>TurnEnd\<close>.\<close>

lemma ended_turn_goes:
  assumes "goes Called w Done w1" "stop \<Longrightarrow> emit_agent_end ls w1 = (out, ls', w')"
    "\<not> stop \<Longrightarrow> quiet w1 w' \<and> out \<noteq> Return"
  shows "goes Called w (phase_after out) w'"
proof (cases stop)
  case True
  with agent_end_goes[OF goes_limit[OF assms(1)] assms(2), of Done] assms(1) show ?thesis by (auto intro: goes_trans)
next
  case False
  then have "goes Done w1 Done w'" "phase_after out = Done"
    using assms(3) goes_limit[OF assms(1)] by (auto intro: goes_quiet) (cases out; simp)
  with assms(1) show ?thesis by (auto intro: goes_trans)
qed

lemma no_tool_calls_goes:
  assumes "w_rx_limit w = None" "handle_no_tool_calls cfg sys m ls w = (out, ls', w')"
  shows "goes Called w (phase_after out) w'"
proof -
  let ?ls = "push_context (assistant m) ((accumulate_turn_state m ls)\<lparr>ls_last_tool_results := []\<rparr>)"
  let ?i = "length (context_of ((accumulate_turn_state m ls)\<lparr>ls_last_tool_results := []\<rparr>))"
  obtain m1 ps ls1 w1 where c: "run_post_turn_policy_check cfg sys m [] ?ls w = (m1, ps, ls1, w1)" by (metis prod_cases4)
  let ?ls2 = "set_context ?i (assistant m1) ls1"
  let ?w2 = "sync_loop_context_snapshot ?ls2 w1"
  have "quiet w ?w2" using policy_check_quiet[OF c] by (rule quiet_trans) simp
  then have g2: "goes Called w Called ?w2" using assms(1) by (intro goes_quiet)
  obtain d w3 where f: "flush_state_delta ?w2 = (d, w3)" by fastforce
  have g3: "goes Called w Called w3" using g2 flush_goes[OF goes_limit[OF g2] f] by (rule goes_trans)
  obtain snap ls3 where b: "build_snapshot (am_stop_reason m1) d ?ls2 = (snap, ls3)" by fastforce
  let ?e = "TurnEnd m1 [] (if is_reasoning_only m1 then TeReasoningOnly else TeComplete) snap"
  let ?w4 = "snd (emit ?e w3)"
  have "goes Called w3 Done ?w4" using goes_limit[OF g3] by (intro goes_emit) simp_all
  with g3 have g4: "goes Called w Done ?w4" by (rule goes_trans)
  obtain ls5 w5 where n: "apply_nudge cfg (is_reasoning_only m1) ls3 ?w4 = (ls5, w5)" by fastforce
  obtain ls6 w6 where s: "poll_steering cfg ls5 w5 = (ls6, w6)" by fastforce
  have q: "quiet ?w4 w6" using nudge_quiet[OF n] poll_steering_quiet[OF s] by (rule quiet_trans)
  have run: "(case ps of Some reason \<Rightarrow> emit_agent_end ls3 ?w4
      | None \<Rightarrow> ((if ls_pending ls6 = [] then BreakInner else ContinueInner), ls6, w6)) = (out, ls', w')"
    using assms(2) c f b goes_limit[OF g3] n s
    by (cases ps) (auto simp: handle_no_tool_calls_def Let_def emit_unlimited)
  show ?thesis
    by (rule ended_turn_goes[OF g4, of "ps \<noteq> None" ls3]) (use run q in \<open>auto split: option.splits if_splits\<close>)
qed

lemma reject_transfer_goes:
  assumes "w_rx_limit w = None" "reject_transfer cfg signal err m trs si ps ls w = (out, ls', w')"
  shows "goes Called w (phase_after out) w'"
proof -
  let ?rej = "''transfer rejected: '' @ transfer_error_to_string err"
  let ?conf = "''Transfer to '' @ sig_target_agent signal @ '' initiated.''"
  let ?trs = "rewrite_first_result ?conf ?rej trs"
  let ?ls = "ls\<lparr>ls_context := ctx_make_mut (rewrite_first_message ?conf ?rej) (ls_context ls)\<rparr>"
  let ?w1 = "sync_loop_context_snapshot ?ls w"
  let ?w2 = "snd (emit (TransferRejected (agent_name_or_default cfg) (sig_target_agent signal) (rejection_reason_of err)) ?w1)"
  have g1: "goes Called w Called ?w1" using assms(1) by (intro goes_quiet) simp_all
  have "goes Called ?w1 Called ?w2" using goes_limit[OF g1] by (intro goes_emit) simp_all
  with g1 have g2: "goes Called w Called ?w2" by (rule goes_trans)
  obtain d w3 where f: "flush_state_delta ?w2 = (d, w3)" by fastforce
  have g3: "goes Called w Called w3" using g2 flush_goes[OF goes_limit[OF g2] f] by (rule goes_trans)
  obtain snap ls3 where b: "build_snapshot (am_stop_reason m) d ?ls = (snap, ls3)" by fastforce
  let ?w4 = "snd (emit (TurnEnd m ?trs (turn_end_of si) snap) w3)"
  have "goes Called w3 Done ?w4" using goes_limit[OF g3] by (intro goes_emit) simp_all
  with g3 have g4: "goes Called w Done ?w4" by (rule goes_trans)
  have run: "(case ps of Some reason \<Rightarrow> emit_agent_end ls3 ?w4 | None \<Rightarrow> (ContinueInner, ls3, ?w4)) = (out, ls', w')"
    using assms(2) f b goes_limit[OF g3] by (cases ps) (simp_all add: reject_transfer_def Let_def emit_unlimited[of w3])
  show ?thesis
    by (rule ended_turn_goes[OF g4, of "ps \<noteq> None" ls3]) (use run in \<open>auto split: option.splits\<close>)
qed

lemma complete_transfer_goes:
  assumes "w_rx_limit w = None" "complete_transfer signal chain m trs ls w = (out, ls', w')"
  shows "goes Called w (phase_after out) w'"
proof -
  let ?sig = "signal\<lparr>sig_conversation_history := llm_of (context_of ls), sig_transfer_chain := Some chain\<rparr>"
  let ?w1 = "snd (emit (TransferInitiated ?sig) w)"
  have g1: "goes Called w Called ?w1" using assms(1) by (intro goes_emit) simp_all
  obtain d w2 where f: "flush_state_delta ?w1 = (d, w2)" by fastforce
  have g2: "goes Called w Called w2" using g1 flush_goes[OF goes_limit[OF g1] f] by (rule goes_trans)
  obtain snap ls2 where b: "build_snapshot SrTransfer d (ls\<lparr>ls_transfer_chain := chain\<rparr>) = (snap, ls2)" by fastforce
  have "emit_turn_end_and_agent_end m trs TeTransfer snap ls2 w2 = (out, ls', w')"
    using assms(2) f b by (simp add: complete_transfer_def Let_def)
  from goes_trans[OF g2 turn_end_goes[OF goes_limit[OF g2] this, of Called]] show ?thesis by simp
qed

lemma finish_tool_turn_goes:
  assumes "w_rx_limit w = None" "finish_tool_turn cfg sys m i trs si tr ds ls w = (out, ls', w')"
  shows "goes Called w (phase_after out) w'"
proof -
  let ?ls = "(push_results trs ls)\<lparr>ls_last_tool_results := trs\<rparr>"
  obtain m1 ps ls1 w1 where c: "run_post_turn_policy_check cfg sys m trs ?ls w = (m1, ps, ls1, w1)" by (metis prod_cases4)
  let ?ls2 = "set_context i (assistant m1) ls1"
  let ?w2 = "sync_loop_context_snapshot ?ls2 w1"
  have "quiet w ?w2" using policy_check_quiet[OF c] by (rule quiet_trans) simp
  then have g2: "goes Called w Called ?w2" using assms(1) by (intro goes_quiet)
  note open2 = goes_limit[OF g2]
  show ?thesis
  proof (cases tr)
    case (Some signal)
    then have "(case chain_push (sig_target_agent signal) (ls_transfer_chain ?ls2) of
        Inl err \<Rightarrow> reject_transfer cfg signal err m1 trs si ps ?ls2 ?w2
      | Inr chain \<Rightarrow> complete_transfer signal chain m1 trs ?ls2 ?w2) = (out, ls', w')"
      using assms(2) c by (simp add: finish_tool_turn_def Let_def)
    then have "goes Called ?w2 (phase_after out) w'"
      using reject_transfer_goes[OF open2] complete_transfer_goes[OF open2] by (auto split: sum.splits)
    with g2 show ?thesis by (rule goes_trans)
  next
    case None
    obtain d w3 where f: "flush_state_delta ?w2 = (d, w3)" by fastforce
    have g3: "goes Called w Called w3" using g2 flush_goes[OF open2 f] by (rule goes_trans)
    obtain snap ls3 where b: "build_snapshot (am_stop_reason m1) d ?ls2 = (snap, ls3)" by fastforce
    let ?w4 = "snd (emit (TurnEnd m1 trs (turn_end_of si) snap) w3)"
    have "goes Called w3 Done ?w4" using goes_limit[OF g3] by (intro goes_emit) simp_all
    with g3 have g4: "goes Called w Done ?w4" by (rule goes_trans)
    obtain ls5 w5 where s: "(if si then (ls3, ?w4) else poll_steering cfg ls3 ?w4) = (ls5, w5)" by fastforce
    have q: "quiet ?w4 w5" using s poll_steering_quiet[of cfg ls3 ?w4 ls5 w5] by (auto split: if_splits)
    have run: "(if ds \<noteq> None \<or> ps \<noteq> None then emit_agent_end ls3 ?w4 else (ContinueInner, ls5, w5)) = (out, ls', w')"
      using assms(2) None c f b s goes_limit[OF g3]
      by (auto simp: finish_tool_turn_def Let_def emit_unlimited[of w3] split: if_splits)
    show ?thesis
      by (rule ended_turn_goes[OF g4, of "ds \<noteq> None \<or> ps \<noteq> None" ls3]) (use run q in \<open>auto split: if_splits\<close>)
  qed
qed

lemma abort_tool_turn_goes:
  assumes "w_rx_limit w = None" "abort_tool_turn cfg sys m i trs ls w = (out, ls', w')"
  shows "goes Called w (phase_after out) w'"
proof -
  let ?ls = "(push_results trs ls)\<lparr>ls_last_tool_results := trs\<rparr>"
  obtain m1 ps ls1 w1 where c: "run_post_turn_policy_check cfg sys (mark_assistant_message_aborted (now_timestamp cfg w) m) trs ?ls w
      = (m1, ps, ls1, w1)" by (metis prod_cases4)
  have g1: "goes Called w Called w1" using policy_check_quiet[OF c] assms(1) by (intro goes_quiet)
  obtain d w2 where f: "flush_state_delta w1 = (d, w2)" by fastforce
  have g2: "goes Called w Called w2" using g1 flush_goes[OF goes_limit[OF g1] f] by (rule goes_trans)
  obtain snap ls2 where b: "build_snapshot SrAborted d (set_context i (assistant m1) ls1) = (snap, ls2)" by fastforce
  have "emit_turn_end_and_agent_end m1 trs TeCancelled snap ls2 w2 = (out, ls', w')"
    using assms(2) c f b by (simp add: abort_tool_turn_def Let_def)
  from goes_trans[OF g2 turn_end_goes[OF goes_limit[OF g2] this, of Called]] show ?thesis by simp
qed

lemma tool_calls_goes:
  assumes "w_rx_limit w = None" "handle_tool_calls cfg sys m calls ls w = (out, ls', w')"
  shows "goes Called w (phase_after out) w'"
proof -
  obtain calls' mtr where r: "recover_incomplete_tool_calls (now_timestamp cfg w) calls (am_stop_reason m) = (calls', mtr)" by fastforce
  obtain res w1 where x: "execute_tools_concurrently cfg calls' w = (res, w1)" by fastforce
  note g1 = goes_execute[OF assms(1) x]
  have after: "goes Called w (phase_after out) w'"
    if "inject_pending inj' ls1 w1 = (ls2, w2)" "goes Called w2 (phase_after out) w'" for inj' ls1 ls2 w2
  proof -
    have "goes Called w1 Called w2" using inject_pending_quiet[OF that(1)] goes_limit[OF g1(1)] by (intro goes_quiet)
    from goes_trans[OF goes_trans[OF g1(1) this] that(2)] show ?thesis .
  qed
  have limit2: "w_rx_limit w2 = None" if "inject_pending inj' ls1 w1 = (ls2, w2)" for inj' ls1 ls2 w2
    using quiet_limit[OF inject_pending_quiet[OF that]] goes_limit[OF g1(1)] by simp
  show ?thesis
  proof (cases "calls' = []")
    case True
    with assms r finish_tool_turn_goes[OF assms(1)] show ?thesis by (auto simp: handle_tool_calls_def Let_def)
  next
    case False
    with assms(2) r x g1(2) show ?thesis
      by (auto simp: handle_tool_calls_def Let_def split: tool_exec_outcome.splits prod.splits
          intro: after finish_tool_turn_goes[OF limit2] abort_tool_turn_goes[OF limit2])
  qed
qed

section \<open>The whole turn\<close>

lemma assistant_message_goes:
  assumes "w_rx_limit w = None" "handle_assistant_message cfg sys m ls w = (out, ls', w')"
  shows "goes Called w (phase_after out) w'"
  using assms(2) error_stop_goes[OF assms(1)] no_tool_calls_goes[OF assms(1)] tool_calls_goes[OF assms(1)]
  by (auto simp: handle_assistant_message_def Let_def split: if_splits)

lemma call_goes:
  assumes "w_rx_limit w = None" "call_and_handle cfg sys dyn msgs key ls w = Some (out, ls', w')"
  shows "goes Called w (phase_after out) w'"
proof -
  let ?tools = "capability_filter_tools (cfg_model cfg) (cfg_tools cfg)"
  obtain r w1 where s: "stream_with_retry cfg ?tools msgs sys key True w = Some (r, w1)"
    using assms(2) by (auto simp: call_and_handle_def settle_call_def Let_def split: option.splits)
  note g1 = goes_stream[OF assms(1) s]
  let ?rec = "if r = ResContextOverflow then attempt_overflow_recovery cfg sys ?tools dyn key ls w1 else Some (Recovered r, ls, w1)"
  obtain r2 ls2 w2 where r2: "?rec = Some (r2, ls2, w2)"
    using assms(2) s by (auto simp: call_and_handle_def settle_call_def Let_def split: option.splits)
  have self: "goes Called w1 Called w1" using goes_limit[OF g1(1)] by (intro goes_quiet) simp_all
  have g2: "case r2 of Failed out \<Rightarrow> goes Called w1 (phase_after out) w2
    | Recovered res \<Rightarrow> goes Called w1 Called w2 \<and> res \<noteq> ResChannelClosed \<and> res \<noteq> ResContextOverflow"
    using r2 self g1(2) overflow_recovery_goes[OF goes_limit[OF g1(1)], of cfg sys ?tools dyn key ls r2 ls2 w2]
    by (auto split: if_splits)
  show ?thesis
  proof (cases r2)
    case (Failed out2)
    with assms(2) s r2 g2 goes_trans[OF g1(1)] show ?thesis by (auto simp: call_and_handle_def settle_call_def Let_def)
  next
    case (Recovered res)
    with g2 have g2': "goes Called w Called w2" "res \<noteq> ResChannelClosed" "res \<noteq> ResContextOverflow"
      using goes_trans[OF g1(1)] by auto
    obtain mo ls3 w3 where h: "handle_stream_result cfg sys res ls2 w2 = (mo, ls3, w3)" by (metis prod_cases3)
    note g3 = stream_result_goes[OF goes_limit[OF g2'(1)] h g2'(2,3)]
    show ?thesis
    proof (cases mo)
      case None
      with assms(2) s r2 Recovered h g3 goes_trans[OF g2'(1)] show ?thesis by (auto simp: call_and_handle_def settle_call_def Let_def)
    next
      case (Some m)
      with g3 have g3': "goes Called w Called w3" using goes_trans[OF g2'(1)] by auto
      from Some assms(2) s r2 Recovered h have "handle_assistant_message cfg sys m ls3 w3 = (out, ls', w')"
        by (auto simp: call_and_handle_def settle_call_def Let_def)
      from goes_trans[OF g3' assistant_message_goes[OF goes_limit[OF g3'] this]] show ?thesis .
    qed
  qed
qed

lemma annotate_goes:
  assumes "w_rx_limit w = None" "annotate_cache cfg ls w = (ls', w')"
  shows "goes Opened w Opened w'"
proof -
  have q: "goes Opened w Opened (sync_loop_context_snapshot ls1 (w\<lparr>w_cache := c\<rparr>))" for ls1 c
    using assms(1) by (intro goes_quiet) (simp_all add: quiet_def sync_loop_context_snapshot_def replace_loop_context_def)
  have "goes Opened w Opened (snd (emit (CacheAction h n) (sync_loop_context_snapshot ls1 (w\<lparr>w_cache := c\<rparr>))))" for h n ls1 c
    using goes_trans[OF q goes_emit[OF goes_limit[OF q]]] by simp
  moreover have "goes Opened w Opened w" using assms(1) by (intro goes_quiet) simp_all
  ultimately show ?thesis using assms(2) q
    by (auto simp: annotate_cache_def Let_def split: option.splits prod.splits if_splits)
qed

lemma start_turn_goes:
  assumes "w_rx_limit w = None" "start_turn cfg sys ls w = Some (out, ls', w')"
  shows "goes Idle w (phase_after out) w'"
proof -
  let ?w1 = "snd (emit TurnStart w)"
  have g1: "goes Idle w Opened ?w1" using assms(1) by (intro goes_emit) simp_all
  obtain ls2 w2 where a: "annotate_cache cfg ls ?w1 = (ls2, w2)" by fastforce
  have g2: "goes Idle w Opened w2" using g1 annotate_goes[OF goes_limit[OF g1] a] by (rule goes_trans)
  obtain dyn w3 where d: "build_dynamic_system_prompt_message cfg w2 = (dyn, w3)" by fastforce
  obtain key w4 where k: "resolve_api_key cfg w3 = (key, w4)" by fastforce
  have "quiet w2 w3" using d by (auto simp: build_dynamic_system_prompt_message_def Let_def split: option.splits if_splits)
  moreover have "quiet w3 w4" using k by (auto simp: resolve_api_key_def split: option.splits)
  ultimately have "quiet w2 w4" by (rule quiet_trans)
  then have "goes Opened w2 Opened w4" using goes_limit[OF g2] by (intro goes_quiet)
  with g2 have g4: "goes Idle w Opened w4" by (rule goes_trans)
  let ?msgs = "build_llm_messages cfg (context_of ls2) dyn"
  let ?w5 = "snd (emit (BeforeLlmCall sys ?msgs (cfg_model cfg)) w4)"
  have "goes Opened w4 Called ?w5" using goes_limit[OF g4] by (intro goes_emit) simp_all
  with g4 have g5: "goes Idle w Called ?w5" by (rule goes_trans)
  have "call_and_handle cfg sys dyn ?msgs key ls2 ?w5 = Some (out, ls', w')"
    using assms a d k goes_limit[OF g4] by (simp add: start_turn_def Let_def emit_unlimited)
  from goes_trans[OF g5 call_goes[OF goes_limit[OF g5] this]] show ?thesis .
qed

lemma run_single_turn_ticks:
  assumes "w_rx_limit w = None" "run_single_turn cfg sys ls w = Some (out, ls', w')"
  shows "goes Idle (tock w) (phase_after out) w'"
proof -
  obtain fresh ls1 w1 where t: "take_pending cfg ls w = (fresh, ls1, w1)" by (metis prod_cases3)
  obtain k w2 where k: "is_cancelled cfg w1 = (k, w2)" by fastforce
  have "w_sent w1 = w_sent w \<and> w_rx_limit w1 = w_rx_limit w \<and> w_tick w1 = w_tick w"
    using t by (auto simp: take_pending_def Let_def sync_loop_context_snapshot_def replace_loop_context_def clear_pending_message_snapshot_def)
  then have "quiet (tock w) w2" using k by (auto simp: is_cancelled_def tock_def quiet_def)
  moreover have "quiet w2 (publish_prefix cfg ls1 w2)"
    by (auto simp: publish_prefix_def split: option.splits context_transformer.splits)
  ultimately have q: "quiet (tock w) w2" "quiet (tock w) (publish_prefix cfg ls1 w2)" using quiet_trans by blast+
  have g2: "goes Idle (tock w) Idle w2" "goes Idle (tock w) Idle (publish_prefix cfg ls1 w2)" using q assms(1) by (auto intro!: goes_quiet simp: tock_def)
  obtain b c w3 where x: "run_context_transformers cfg (ls_context ls1) (ls_overflow_signal ls1) (publish_prefix cfg ls1 w2) = (b, c, w3)"
    by (metis prod_cases3)
  have "goes Idle (publish_prefix cfg ls1 w2) Idle w3" using transformers_goes[OF goes_limit[OF g2(2)] x] by simp
  with g2(2) have "goes Idle (tock w) Idle w3" by (rule goes_trans)
  then have g4: "goes Idle (tock w) Idle (tock w3)" by (rule goes_trans) (simp add: goes_quiet goes_limit[OF \<open>goes Idle (tock w) Idle w3\<close>])
  show ?thesis
  proof (cases k)
    case True
    with assms(2) t k have "handle_cancellation cfg ls1 w2 = (out, ls', w')" by (simp add: run_single_turn_def)
    from goes_trans[OF g2(1) cancellation_goes[OF goes_limit[OF g2(1)] this[unfolded handle_cancellation_def], of Idle]]
    show ?thesis by simp
  next
    case False
    let ?ls = "ls1\<lparr>ls_context := c, ls_overflow_signal := False\<rparr>"
    show ?thesis
    proof (cases "run_policies (cfg_pre_turn_policies cfg) (w_tick w3) (policy_context_of fresh ?ls w3)")
      case (Stop reason)
      with assms(2) t k x False have "emit_agent_end ?ls (tock w3) = (out, ls', w')" by (simp add: run_single_turn_def Let_def)
      from agent_end_goes[OF goes_limit[OF g4] this, of Idle] goes_trans[OF g4] show ?thesis by auto
    next
      case Continue
      with assms(2) t k x False have "start_turn cfg sys ?ls (tock w3) = Some (out, ls', w')" by (simp add: run_single_turn_def Let_def)
      from goes_trans[OF g4 start_turn_goes[OF goes_limit[OF g4] this]] show ?thesis .
    next
      case (Inject msgs)
      let ?ls2 = "?ls\<lparr>ls_context := ctx_extend msgs (ls_context ?ls)\<rparr>"
      let ?w4 = "sync_loop_context_snapshot ?ls2 (tock w3)"
      have "goes Idle (tock w3) Idle ?w4" using goes_limit[OF g4] by (intro goes_quiet) simp_all
      with g4 have g5: "goes Idle (tock w) Idle ?w4" by (rule goes_trans)
      from Inject assms(2) t k x False have "start_turn cfg sys ?ls2 ?w4 = Some (out, ls', w')"
        by (simp add: run_single_turn_def Let_def)
      from goes_trans[OF g5 start_turn_goes[OF goes_limit[OF g5] this]] show ?thesis .
    qed
  qed
qed

lemma run_single_turn_goes:
  assumes "w_rx_limit w = None" "run_single_turn cfg sys ls w = Some (out, ls', w')"
  shows "goes Idle w (phase_after out) w'"
  by (rule goes_trans[OF goes_quiet[OF assms(1) quiet_simps(2)] run_single_turn_ticks[OF assms]])

end
