(* ===== verification/Agent_Loop.thy ===== *)
theory Agent_Loop
  imports Turn_Protocol
begin

text \<open>
  The agent loop (\<^verbatim>\<open>run_loop_inner\<close> of \<^verbatim>\<open>loop_/mod.rs\<close>): turns until one of
  them returns, post-loop policies and follow-up messages in between.

  The two nested loops of the source are one recursion over turns: leaving the inner loop and
  continuing the outer one starts the next turn. The loop has no bound of its own, so it is a
  partial function whose value \<open>None\<close> is a run that never ends.
\<close>

section \<open>The loop\<close>

definition initial_chain :: "agent_loop_config \<Rightarrow> transfer_chain" where
  "initial_chain cfg =
     (let chain = (case cfg_transfer_chain cfg of None \<Rightarrow> chain_default | Some c \<Rightarrow> c)
      in case cfg_agent_name cfg of
           None \<Rightarrow> chain
         | Some name \<Rightarrow> (case chain_push name chain of Inl _ \<Rightarrow> chain | Inr chain \<Rightarrow> chain))"

definition initial_state :: "agent_loop_config \<Rightarrow> agent_message list \<Rightarrow> usize \<Rightarrow> loop_state" where
  "initial_state cfg messages initial_new_messages_len =
     \<lparr>ls_context = ctx_new messages, ls_pending = [], ls_initial_new_len = initial_new_messages_len,
      ls_overflow_signal = False, ls_overflow_attempted = False, ls_turn_index = 0, ls_usage = usage_default,
      ls_cost = cost_default, ls_last_assistant = None, ls_last_tool_results = [],
      ls_transfer_chain = initial_chain cfg, ls_reasoning_only_nudged = False\<rparr>"

definition poll_follow_up :: "agent_loop_config \<Rightarrow> world \<Rightarrow> agent_message list \<times> world" where
  "poll_follow_up cfg w =
     (case cfg_message_provider cfg of None \<Rightarrow> ([], w) | Some provider \<Rightarrow> (mp_poll_follow_up provider (w_tick w), tock w))"

definition continue_with :: "agent_message list \<Rightarrow> loop_state \<Rightarrow> world \<Rightarrow> loop_state \<times> world" where
  "continue_with msgs ls w = (let ls = extend_pending msgs ls in (ls, replace_pending_messages (ls_pending ls) w))"

text \<open>After the inner loop: the end of the run (\<open>Inl\<close>) or another round (\<open>Inr\<close>).\<close>

definition after_inner :: "agent_loop_config \<Rightarrow> loop_state \<Rightarrow> world \<Rightarrow> world + loop_state \<times> world" where
  "after_inner cfg ls w =
     (let verdict = run_post_loop_policies (cfg_post_loop_policies cfg) (w_tick w) (policy_context_of [] ls w);
          w = tock w
      in case verdict of
           Stop reason \<Rightarrow> Inl (emit_ignored (AgentEnd (context_of ls)) w)
         | Inject msgs \<Rightarrow> Inr (continue_with msgs ls w)
         | Continue \<Rightarrow>
            (case poll_follow_up cfg w of (msgs, w) \<Rightarrow>
             if msgs \<noteq> [] then Inr (continue_with msgs ls w)
             else Inl (emit_ignored (AgentEnd (context_of ls)) w)))"

definition next_turn :: "loop_state \<Rightarrow> loop_state" where
  "next_turn ls = ls\<lparr>ls_turn_index := ls_turn_index ls + 1\<rparr>"

definition loop_step :: "agent_loop_config \<Rightarrow> string \<Rightarrow> loop_state \<Rightarrow> world \<Rightarrow> (world + loop_state \<times> world) option" where
  "loop_step cfg system_prompt ls w =
     (case run_single_turn cfg system_prompt ls w of
        None \<Rightarrow> None
      | Some (Return, ls, w) \<Rightarrow> Some (Inl w)
      | Some (ContinueInner, ls, w) \<Rightarrow> Some (Inr (next_turn ls, w))
      | Some (BreakInner, ls, w) \<Rightarrow> Some (after_inner cfg (next_turn ls) w))"

partial_function (option) agent_turns :: "agent_loop_config \<Rightarrow> string \<Rightarrow> loop_state \<Rightarrow> world \<Rightarrow> world option" where
  "agent_turns cfg system_prompt ls w =
     (case loop_step cfg system_prompt ls w of
        None \<Rightarrow> None
      | Some r \<Rightarrow> (case r of Inl w \<Rightarrow> Some w | Inr (ls, w) \<Rightarrow> agent_turns cfg system_prompt ls w))"

definition run_loop_inner :: "agent_loop_config \<Rightarrow> agent_message list \<Rightarrow> usize \<Rightarrow> string \<Rightarrow> world \<Rightarrow> world option" where
  "run_loop_inner cfg messages initial_new_messages_len system_prompt w =
     (case emit AgentStart w of (ok, w) \<Rightarrow>
      if \<not> ok then Some w
      else agent_turns cfg system_prompt (initial_state cfg messages initial_new_messages_len) w)"

section \<open>The events of a run\<close>

text \<open>What a consumer of the whole run sees: after the end of a turn the next one may start.\<close>

definition consumer_step :: "phase \<Rightarrow> agent_event \<Rightarrow> phase option" where
  "consumer_step p e = (case p of Done \<Rightarrow> idle_step e | _ \<Rightarrow> protocol_step p e)"

fun run_protocol :: "phase \<Rightarrow> agent_event list \<Rightarrow> phase option" where
  "run_protocol p [] = Some p"
| "run_protocol p (e # es) = (case consumer_step p e of None \<Rightarrow> None | Some q \<Rightarrow> run_protocol q es)"

lemma run_protocol_append:
  "run_protocol p (xs @ ys) = (case run_protocol p xs of None \<Rightarrow> None | Some q \<Rightarrow> run_protocol q ys)"
  by (induction xs arbitrary: p) (auto split: option.splits)

lemma step_consumer: "protocol_step p e = Some q \<Longrightarrow> consumer_step p e = Some q"
  by (cases p; cases e) (auto simp: consumer_step_def)

lemma protocol_run_protocol: "protocol p es = Some q \<Longrightarrow> run_protocol p es = Some q"
  by (induction es arbitrary: p) (auto split: option.splits dest: step_consumer)

lemma run_protocol_done: "es \<noteq> [] \<Longrightarrow> run_protocol Done es = run_protocol Idle es"
  by (cases es) (simp_all add: consumer_step_def)

lemma consumer_end: "consumer_step p (AgentEnd ms) = Some q \<Longrightarrow> q = Ended"
  by (cases p) (auto simp: consumer_step_def)

lemma consumer_to_end: "consumer_step p e = Some Ended \<Longrightarrow> \<exists>ms. e = AgentEnd ms"
  by (cases p; cases e) (auto simp: consumer_step_def)

lemma run_protocol_ended: "run_protocol Ended es = Some q \<Longrightarrow> es = []"
  by (cases es) (auto simp: consumer_step_def)

lemma ended_runs_end:
  "run_protocol p es = Some Ended \<Longrightarrow> p \<noteq> Ended \<Longrightarrow>
     \<exists>body ms. es = body @ [AgentEnd ms] \<and> list_all (\<lambda>e. \<forall>ms. e \<noteq> AgentEnd ms) body"
proof (induction es arbitrary: p)
  case (Cons e es)
  then obtain q where q: "consumer_step p e = Some q" "run_protocol q es = Some Ended" by (auto split: option.splits)
  show ?case
  proof (cases "q = Ended")
    case True
    with q run_protocol_ended have "es = []" by blast
    with q(1) True consumer_to_end[of p e] show ?thesis by (auto intro!: exI[of _ "[]"])
  next
    case False
    with Cons.IH[OF q(2)] obtain body ms where "es = body @ [AgentEnd ms]" "list_all (\<lambda>e. \<forall>ms. e \<noteq> AgentEnd ms) body" by auto
    with q(1) False consumer_end show ?thesis by (intro exI[of _ "e # body"] exI[of _ ms]) auto
  qed
qed simp

section \<open>The turn index\<close>

text \<open>Only the loop itself advances the turn index.\<close>

lemma context_ops_turn_index [simp]:
  "ls_turn_index (push_context m ls) = ls_turn_index ls"
  "ls_turn_index (set_context i m ls) = ls_turn_index ls"
  "ls_turn_index (extend_pending ms ls) = ls_turn_index ls"
  "ls_turn_index (accumulate_turn_state a ls) = ls_turn_index ls"
  by (simp_all add: push_context_def set_context_def extend_pending_def accumulate_turn_state_def split: option.splits)

lemma push_results_turn_index [simp]: "ls_turn_index (push_results trs ls) = ls_turn_index ls"
  by (induction trs arbitrary: ls) (auto simp: push_results_def)

lemma small_ops_turn_index:
  "emit_agent_end ls w = (out, ls', w') \<Longrightarrow> ls_turn_index ls' = ls_turn_index ls"
  "build_snapshot stop d ls = (snap, ls') \<Longrightarrow> ls_turn_index ls' = ls_turn_index ls"
  "poll_steering cfg ls w = (ls', w') \<Longrightarrow> ls_turn_index ls' = ls_turn_index ls"
  "apply_nudge cfg b ls w = (ls', w') \<Longrightarrow> ls_turn_index ls' = ls_turn_index ls"
  "inject_pending ms ls w = (ls', w') \<Longrightarrow> ls_turn_index ls' = ls_turn_index ls"
  "annotate_cache cfg ls w = (ls', w') \<Longrightarrow> ls_turn_index ls' = ls_turn_index ls"
  "take_pending cfg ls w = (fresh, ls', w') \<Longrightarrow> ls_turn_index ls' = ls_turn_index ls"
  by (auto simp: emit_agent_end_def build_snapshot_def poll_steering_def apply_nudge_def inject_pending_def annotate_cache_def
      take_pending_def Let_def split: prod.splits option.splits if_splits)

lemma injections_turn_index:
  "apply_injections original ms replaced ls w = (m, ls', w') \<Longrightarrow> ls_turn_index ls' = ls_turn_index ls"
  by (induction original ms replaced ls w rule: apply_injections.induct)
     (auto simp: Let_def split: agent_message.splits llm_message.splits)

lemma policy_check_turn_index:
  "run_post_turn_policy_check cfg sys m trs ls w = (m', stop, ls', w') \<Longrightarrow> ls_turn_index ls' = ls_turn_index ls"
  by (auto simp: run_post_turn_policy_check_def Let_def split: if_splits policy_verdict.splits prod.splits
      dest: injections_turn_index)

lemma turn_end_turn_index:
  "emit_turn_end_and_agent_end m trs reason snap ls w = (out, ls', w') \<Longrightarrow> ls_turn_index ls' = ls_turn_index ls"
  by (auto simp: emit_turn_end_and_agent_end_def split: prod.splits if_splits dest: small_ops_turn_index)

lemmas turn_index_rules = small_ops_turn_index policy_check_turn_index turn_end_turn_index

lemma end_with_message_turn_index:
  "end_with_message cfg sys m i stop reason ls w = (out, ls', w') \<Longrightarrow> ls_turn_index ls' = ls_turn_index ls"
  by (auto simp: end_with_message_def split: prod.splits dest!: turn_index_rules)

lemma cancellation_turn_index:
  "emit_cancellation_for_turn cfg ts ms ls w = (out, ls', w') \<Longrightarrow> ls_turn_index ls' = ls_turn_index ls"
  by (auto simp: emit_cancellation_for_turn_def Let_def split: prod.splits if_splits dest!: turn_index_rules)

lemma transfer_turn_index:
  "reject_transfer cfg signal err m trs si ps ls w = (out, ls', w') \<Longrightarrow> ls_turn_index ls' = ls_turn_index ls"
  "complete_transfer signal chain m trs ls w = (out, ls', w') \<Longrightarrow> ls_turn_index ls' = ls_turn_index ls"
  by (auto simp: reject_transfer_def complete_transfer_def Let_def split: prod.splits if_splits option.splits dest!: turn_index_rules)

lemma finish_tool_turn_index:
  "finish_tool_turn cfg sys m i trs si tr ds ls w = (out, ls', w') \<Longrightarrow> ls_turn_index ls' = ls_turn_index ls"
  by (auto simp: finish_tool_turn_def Let_def split: prod.splits if_splits option.splits sum.splits
      dest!: turn_index_rules transfer_turn_index)

lemma abort_tool_turn_index:
  "abort_tool_turn cfg sys m i trs ls w = (out, ls', w') \<Longrightarrow> ls_turn_index ls' = ls_turn_index ls"
  by (auto simp: abort_tool_turn_def Let_def split: prod.splits dest!: turn_index_rules)

lemma tool_calls_turn_index:
  "handle_tool_calls cfg sys m calls ls w = (out, ls', w') \<Longrightarrow> ls_turn_index ls' = ls_turn_index ls"
  by (auto simp: handle_tool_calls_def Let_def split: prod.splits if_splits tool_exec_outcome.splits
      dest!: turn_index_rules finish_tool_turn_index abort_tool_turn_index)

lemma no_tool_calls_turn_index:
  "handle_no_tool_calls cfg sys m ls w = (out, ls', w') \<Longrightarrow> ls_turn_index ls' = ls_turn_index ls"
  by (auto simp: handle_no_tool_calls_def Let_def split: prod.splits if_splits option.splits dest!: turn_index_rules)

lemma assistant_message_turn_index:
  "handle_assistant_message cfg sys m ls w = (out, ls', w') \<Longrightarrow> ls_turn_index ls' = ls_turn_index ls"
  by (auto simp: handle_assistant_message_def handle_error_stop_def Let_def split: if_splits
      dest!: tool_calls_turn_index no_tool_calls_turn_index end_with_message_turn_index)

lemma stream_result_turn_index:
  "handle_stream_result cfg sys r ls w = (m, ls', w') \<Longrightarrow> ls_turn_index ls' = ls_turn_index ls"
  by (auto simp: handle_stream_result_def Let_def split: stream_result.splits prod.splits dest!: end_with_message_turn_index)

lemma overflow_turn_index:
  "overflow_error cfg sys ls w = (r, ls', w') \<Longrightarrow> ls_turn_index ls' = ls_turn_index ls"
  "attempt_overflow_recovery cfg sys tools dyn key ls w = Some (r, ls', w') \<Longrightarrow> ls_turn_index ls' = ls_turn_index ls"
proof -
  show err: "ls_turn_index ls' = ls_turn_index ls" if "overflow_error cfg sys ls w = (r, ls', w')" for ls w
    using that by (auto simp: overflow_error_def Let_def split: prod.splits dest!: end_with_message_turn_index)
  show "attempt_overflow_recovery cfg sys tools dyn key ls w = Some (r, ls', w') \<Longrightarrow> ls_turn_index ls' = ls_turn_index ls"
    by (auto simp: attempt_overflow_recovery_def handle_started_turn_cancellation_def Let_def
        split: if_splits option.splits prod.splits dest!: err cancellation_turn_index)
qed

lemma call_turn_index:
  "call_and_handle cfg sys dyn msgs key ls w = Some (out, ls', w') \<Longrightarrow> ls_turn_index ls' = ls_turn_index ls"
  by (auto simp: call_and_handle_def settle_call_def Let_def split: option.splits prod.splits if_splits overflow_recovery_result.splits
      dest!: overflow_turn_index stream_result_turn_index assistant_message_turn_index)

lemma start_turn_index:
  "start_turn cfg sys ls w = Some (out, ls', w') \<Longrightarrow> ls_turn_index ls' = ls_turn_index ls"
  by (auto simp: start_turn_def Let_def split: prod.splits if_splits dest!: turn_index_rules call_turn_index)

lemma run_single_turn_index:
  "run_single_turn cfg sys ls w = Some (out, ls', w') \<Longrightarrow> ls_turn_index ls' = ls_turn_index ls"
  by (auto simp: run_single_turn_def handle_cancellation_def Let_def split: prod.splits if_splits policy_verdict.splits
      dest!: turn_index_rules start_turn_index cancellation_turn_index)

section \<open>Every finished run follows the protocol\<close>

lemma after_inner_goes:
  assumes "w_rx_limit w = None"
  shows "case after_inner cfg ls w of Inl w' \<Rightarrow> goes Done w Ended w' | Inr (ls', w') \<Rightarrow> goes Done w Done w' \<and> ls_turn_index ls' = ls_turn_index ls"
proof -
  obtain msgs w2 where f: "poll_follow_up cfg (tock w) = (msgs, w2)" by fastforce
  have "quiet (tock w) w2" using f by (auto simp: poll_follow_up_def split: option.splits)
  with quiet_simps(2) have q: "quiet w (tock w)" "quiet w w2" by (blast intro: quiet_trans)+
  have stay: "goes Done w Done v" if "quiet w v" for v using goes_quiet[OF assms that] .
  have fin: "goes Done w Ended (snd (emit (AgentEnd ms) v))" if "quiet w v" for v ms
    using goes_trans[OF stay[OF that] goes_emit[OF goes_limit[OF stay[OF that]], of Done "AgentEnd ms" Ended]] by simp
  have cont: "goes Done w Done (snd (continue_with ms ls v)) \<and> ls_turn_index (fst (continue_with ms ls v)) = ls_turn_index ls"
    if "quiet w v" for v ms
    by (auto simp: continue_with_def Let_def intro!: stay quiet_trans[OF that])
  show ?thesis using f fin q cont[OF q(1)] cont[OF q(2)]
    by (auto simp: after_inner_def Let_def split: policy_verdict.splits prod.splits) (metis fst_conv snd_conv)+
qed

lemma loop_step_goes:
  assumes "w_rx_limit w = None" "loop_step cfg sys ls w = Some r"
  shows "case r of Inl w' \<Rightarrow> goes Idle w Ended w' \<or> (\<exists>w1. goes Idle w Done w1 \<and> goes Done w1 Ended w')
    | Inr (ls', w') \<Rightarrow> goes Idle w Done w' \<and> ls_turn_index ls' = Suc (ls_turn_index ls)"
proof -
  obtain out ls1 w1 where t: "run_single_turn cfg sys ls w = Some (out, ls1, w1)"
    using assms(2) by (auto simp: loop_step_def split: option.splits)
  note g = run_single_turn_goes[OF assms(1) t]
  note a = after_inner_goes[OF goes_limit[OF g], where cfg = cfg and ls = "next_turn ls1"]
  show ?thesis
  proof (cases out)
    case BreakInner
    then have r: "r = after_inner cfg (next_turn ls1) w1" and g': "goes Idle w Done w1"
      using assms(2) t g by (auto simp: loop_step_def)
    show ?thesis unfolding r using a g' run_single_turn_index[OF t]
      by (auto simp: next_turn_def split: sum.splits prod.splits intro: goes_trans)
  qed (use assms(2) t g run_single_turn_index[OF t] in \<open>auto simp: loop_step_def next_turn_def\<close>)
qed

text \<open>What a finished run adds to the stream.\<close>

definition completes :: "world \<Rightarrow> world \<Rightarrow> bool" where
  "completes w w' = (\<exists>es. w_sent w' = w_sent w @ es \<and> run_protocol Idle es = Some Ended)"

lemma completes_end: "goes p w Ended w' \<Longrightarrow> p = Idle \<or> p = Done \<Longrightarrow> completes w w'"
proof -
  assume "goes p w Ended w'" and p: "p = Idle \<or> p = Done"
  then obtain es where es: "w_sent w' = w_sent w @ es" "protocol p es = Some Ended" by (auto simp: goes_def)
  with p have "es \<noteq> []" by auto
  with es p protocol_run_protocol[OF es(2)] run_protocol_done[of es] show ?thesis by (auto simp: completes_def)
qed

lemma completes_more: "goes Idle w Done w1 \<Longrightarrow> completes w1 w' \<Longrightarrow> completes w w'"
proof -
  assume "goes Idle w Done w1" "completes w1 w'"
  then obtain es fs where es: "w_sent w1 = w_sent w @ es" "protocol Idle es = Some Done"
    and fs: "w_sent w' = w_sent w1 @ fs" "run_protocol Idle fs = Some Ended" by (auto simp: goes_def completes_def)
  have "fs \<noteq> []" using fs(2) by auto
  with fs(2) run_protocol_done have "run_protocol Done fs = Some Ended" by simp
  with protocol_run_protocol[OF es(2)] have "run_protocol Idle (es @ fs) = Some Ended" by (simp add: run_protocol_append)
  with es fs show ?thesis by (auto simp: completes_def)
qed

lemma agent_turns_complete:
  "agent_turns cfg sys ls w = Some w' \<Longrightarrow> w_rx_limit w = None \<longrightarrow> completes w w'"
proof (rule agent_turns.raw_induct[where P = "\<lambda>cfg sys ls w w'. w_rx_limit w = None \<longrightarrow> completes w w'"])
  fix turns :: "agent_loop_config \<Rightarrow> string \<Rightarrow> loop_state \<Rightarrow> world \<Rightarrow> world option"
  fix cfg sys ls w w'
  assume ih: "\<And>cfg sys ls w w'. turns cfg sys ls w = Some w' \<Longrightarrow> w_rx_limit w = None \<longrightarrow> completes w w'"
    and run: "(case loop_step cfg sys ls w of None \<Rightarrow> None
        | Some r \<Rightarrow> (case r of Inl w \<Rightarrow> Some w | Inr (ls, w) \<Rightarrow> turns cfg sys ls w)) = Some w'"
  show "w_rx_limit w = None \<longrightarrow> completes w w'"
  proof
    assume lim: "w_rx_limit w = None"
    from run obtain r where r: "loop_step cfg sys ls w = Some r" by (auto split: option.splits)
    note g = loop_step_goes[OF lim r]
    show "completes w w'"
    proof (cases r)
      case (Inl w1)
      with run r g show ?thesis by (auto intro: completes_end completes_more)
    next
      case (Inr q)
      obtain ls1 w1 where q: "q = (ls1, w1)" by fastforce
      with Inr g have g1: "goes Idle w Done w1" by simp
      from Inr q run r have "turns cfg sys ls1 w1 = Some w'" by simp
      with ih goes_limit[OF g1] have "completes w1 w'" by blast
      with g1 show ?thesis by (rule completes_more)
    qed
  qed
qed

lemma run_body:
  assumes "w_rx_limit w = None" "run_loop_inner cfg messages n sys w = Some w'"
  obtains body ms where "w_sent w' = w_sent w @ AgentStart # body @ [AgentEnd ms]"
    "run_protocol Idle (body @ [AgentEnd ms]) = Some Ended" "list_all (\<lambda>e. \<forall>ms. e \<noteq> AgentEnd ms) body"
proof -
  let ?w = "w\<lparr>w_sent := w_sent w @ [AgentStart]\<rparr>"
  have "agent_turns cfg sys (initial_state cfg messages n) ?w = Some w'"
    using assms by (simp add: run_loop_inner_def emit_unlimited)
  with agent_turns_complete[OF this] assms(1) obtain es where
    es: "w_sent w' = w_sent ?w @ es" "run_protocol Idle es = Some Ended" by (auto simp: completes_def)
  with ended_runs_end[OF es(2)] that show ?thesis by auto
qed

lemma run_ends_with:
  assumes "w_rx_limit w = None" "run_loop_inner cfg messages n sys w = Some w'"
  shows "\<exists>ms. last (w_sent w') = AgentEnd ms"
  by (rule run_body[OF assms]) auto

text \<open>
  C1. The event protocol of a run. Whatever the model, the tools, the policies and the user do,
  the events of a run that ends, sent to a consumer that stays, are: \<open>AgentStart\<close>; then
  turns, one after the other, each opened by \<open>TurnStart\<close>, calling the model at most once
  before its other events and closed by \<open>TurnEnd\<close>; and one \<open>AgentEnd\<close>, the last
  event, with no other before it. Between turns only compaction notices are sent.
\<close>

theorem run_follows_protocol:
  assumes "w_rx_limit w = None" "run_loop_inner cfg messages n sys w = Some w'"
  shows "\<exists>body ms. w_sent w' = w_sent w @ AgentStart # body @ [AgentEnd ms]
    \<and> run_protocol Idle (body @ [AgentEnd ms]) = Some Ended
    \<and> list_all (\<lambda>e. \<forall>ms. e \<noteq> AgentEnd ms) body"
  by (rule run_body[OF assms]) auto

section \<open>A capped run ends\<close>

fun is_model_call :: "agent_event \<Rightarrow> bool" where
  "is_model_call (BeforeLlmCall _ _ _) = True"
| "is_model_call _ = False"

definition model_calls :: "agent_event list \<Rightarrow> nat" where
  "model_calls es = length (filter is_model_call es)"

lemma model_calls_append [simp]: "model_calls (xs @ ys) = model_calls xs + model_calls ys"
  by (simp add: model_calls_def)

text \<open>The phases before the model call of a turn, in which one call is still to come.\<close>

definition credit :: "phase \<Rightarrow> nat" where
  "credit p = (if p = Idle \<or> p = Opened then 1 else 0)"

lemma protocol_model_calls: "protocol p es = Some q \<Longrightarrow> model_calls es + credit q \<le> credit p"
proof (induction es arbitrary: p)
  case (Cons e es)
  then obtain p' where p': "protocol_step p e = Some p'" "protocol p' es = Some q" by (auto split: option.splits)
  from p'(1) have "(if is_model_call e then 1 else 0) + credit p' \<le> credit p"
    by (cases p; cases e) (auto simp: credit_def)
  with Cons.IH[OF p'(2)] show ?case by (auto simp: model_calls_def)
qed (simp add: model_calls_def)

lemma goes_model_calls:
  assumes "goes p w q w'"
  shows "\<exists>es. w_sent w' = w_sent w @ es \<and> model_calls es + credit q \<le> credit p"
  using assms unfolding goes_def by (blast dest: protocol_model_calls)

lemmas credit_simps [simp] =
  credit_def[of Idle, simplified] credit_def[of Opened, simplified] credit_def[of Called, simplified]
  credit_def[of Done, simplified] credit_def[of Ended, simplified]

text \<open>
  What the loop needs of its model calls: each one returns. A bounded retry strategy gives this,
  and so does a token that is cancelled some day.
\<close>

locale responsive_stream =
  fixes cfg :: agent_loop_config
  assumes stream_returns:
    "w_rx_limit w = None \<Longrightarrow> \<exists>r w'. stream_with_retry cfg tools msgs sys key start w = Some (r, w')"
begin

lemma recovery_returns:
  assumes "w_rx_limit w = None"
  shows "\<exists>r. attempt_overflow_recovery cfg sys tools dyn key ls w = Some r"
proof -
  obtain b c w1 where t: "run_context_transformers cfg (ls_context ls) True w = (b, c, w1)" by (metis prod_cases3)
  obtain k w2 where k: "is_cancelled cfg w1 = (k, w2)" by fastforce
  have "w_rx_limit w2 = None"
    using goes_limit[OF transformers_goes[OF assms t, of Called]] k by (auto simp: is_cancelled_def tock_def)
  then obtain r w3 where "stream_with_retry cfg tools (build_llm_messages cfg (ctx_messages c) dyn) sys key False w2 = Some (r, w3)"
    using stream_returns by blast
  with t k show ?thesis by (simp add: attempt_overflow_recovery_def Let_def del: split_paired_Ex)
qed

lemma call_returns:
  assumes "w_rx_limit w = None"
  shows "\<exists>r. call_and_handle cfg sys dyn msgs key ls w = Some r"
proof -
  let ?tools = "capability_filter_tools (cfg_model cfg) (cfg_tools cfg)"
  obtain r w1 where s: "stream_with_retry cfg ?tools msgs sys key True w = Some (r, w1)"
    using stream_returns[OF assms] by blast
  obtain q where "attempt_overflow_recovery cfg sys ?tools dyn key ls w1 = Some q"
    using recovery_returns[OF goes_limit[OF goes_stream(1)[OF assms s]]] by blast
  then show ?thesis using s by (cases q) (simp add: call_and_handle_def Let_def del: split_paired_Ex)
qed

lemma start_turn_returns:
  assumes "w_rx_limit w = None"
  shows "\<exists>r. start_turn cfg sys ls w = Some r"
proof -
  let ?w1 = "snd (emit TurnStart w)"
  obtain ls2 w2 where a: "annotate_cache cfg ls ?w1 = (ls2, w2)" by fastforce
  obtain dyn w3 where d: "build_dynamic_system_prompt_message cfg w2 = (dyn, w3)" by fastforce
  obtain key w4 where k: "resolve_api_key cfg w3 = (key, w4)" by fastforce
  have "w_rx_limit w2 = None" using goes_limit[OF annotate_goes[OF _ a]] assms by simp
  moreover have "w_rx_limit w3 = w_rx_limit w2"
    using d by (auto simp: build_dynamic_system_prompt_message_def Let_def tock_def split: option.splits if_splits)
  moreover have "w_rx_limit w4 = w_rx_limit w3" using k by (auto simp: resolve_api_key_def tock_def split: option.splits)
  ultimately show ?thesis using assms a d k call_returns by (simp add: start_turn_def Let_def emit_unlimited)
qed

lemma run_single_turn_returns:
  assumes "w_rx_limit w = None"
  shows "\<exists>out ls' w'. run_single_turn cfg sys ls w = Some (out, ls', w')"
proof -
  obtain fresh ls1 w1 where t: "take_pending cfg ls w = (fresh, ls1, w1)" by (metis prod_cases3)
  let ?w2 = "publish_prefix cfg ls1 (tock w1)"
  obtain b c w3 where x: "run_context_transformers cfg (ls_context ls1) (ls_overflow_signal ls1) ?w2 = (b, c, w3)" by (metis prod_cases3)
  have "w_rx_limit w1 = None" using t assms
    by (auto simp: take_pending_def Let_def sync_loop_context_snapshot_def replace_loop_context_def clear_pending_message_snapshot_def)
  then have "w_rx_limit ?w2 = None"
    by (auto simp: publish_prefix_def tock_def split: option.splits context_transformer.splits)
  from goes_limit[OF transformers_goes[OF this x, of Called]] have w3: "w_rx_limit (tock w3) = None" by (simp add: tock_def)
  have go: "\<exists>out ls' w'. start_turn cfg sys ls2 v = Some (out, ls', w')" if "quiet (tock w3) v" for ls2 v
    using start_turn_returns[of v sys ls2] w3 quiet_limit[OF that] by auto
  show ?thesis
  proof (cases "cfg_cancelled cfg (w_tick w1)")
    case True
    then show ?thesis using t by (cases "handle_cancellation cfg ls1 (tock w1)") (simp add: run_single_turn_def is_cancelled_def)
  next
    case False
    let ?ls = "ls1\<lparr>ls_context := c, ls_overflow_signal := False\<rparr>"
    show ?thesis using False t x go
      by (cases "run_policies (cfg_pre_turn_policies cfg) (w_tick w3) (policy_context_of fresh ?ls w3)";
          cases "emit_agent_end ?ls (tock w3)") (simp_all add: run_single_turn_def is_cancelled_def Let_def)
  qed
qed

end

sublocale bounded_retry \<subseteq> responsive_stream cfg
  using stream_with_retry_lifecycle by unfold_locales blast

lemma cancellation_no_call:
  assumes "w_rx_limit w = None" "emit_cancellation_for_turn cfg ts ms ls w = (out, ls', w')"
  shows "out = Return \<and> (\<exists>es. w_sent w' = w_sent w @ es \<and> model_calls es = 0)"
  using assms
  by (auto simp: emit_cancellation_for_turn_def emit_turn_end_and_agent_end_def emit_agent_end_def ctx_take_vec_def Let_def
      emit_unlimited model_calls_def split: prod.splits if_splits)

text \<open>Past the cap a turn calls no model and ends the run.\<close>

lemma capped_turn:
  assumes "w_rx_limit w = None" "max_turns_pre n \<in> set (cfg_pre_turn_policies cfg)" "n \<le> ls_turn_index ls"
    "run_single_turn cfg sys ls w = Some (out, ls', w')"
  shows "out = Return \<and> (\<exists>es. w_sent w' = w_sent w @ es \<and> model_calls es = 0)"
proof -
  obtain fresh ls1 w1 where t: "take_pending cfg ls w = (fresh, ls1, w1)" by (metis prod_cases3)
  have "quiet w w1" using t by (auto simp: take_pending_def Let_def intro: quiet_trans[OF quiet_simps(3)])
  with quiet_simps(2) have q1: "quiet w (tock w1)" by (blast intro: quiet_trans)
  let ?w2 = "publish_prefix cfg ls1 (tock w1)"
  have "quiet (tock w1) ?w2" by (auto simp: publish_prefix_def split: option.splits context_transformer.splits)
  with q1 have q2: "quiet w ?w2" by (rule quiet_trans)
  then have g2: "goes Idle w Idle ?w2" by (rule goes_quiet[OF assms(1)])
  obtain b c w3 where x: "run_context_transformers cfg (ls_context ls1) (ls_overflow_signal ls1) ?w2 = (b, c, w3)" by (metis prod_cases3)
  have g3: "goes Idle w Idle w3" using goes_trans[OF g2 transformers_goes[OF goes_limit[OF g2] x]] by simp
  then obtain es where es: "w_sent w3 = w_sent w @ es" "model_calls es = 0" using goes_model_calls[of Idle w Idle w3] by auto
  let ?ls = "ls1\<lparr>ls_context := c, ls_overflow_signal := False\<rparr>"
  have "n \<le> pc_turn_index (policy_context_of fresh ?ls w3)"
    using assms(3) small_ops_turn_index(7)[OF t] by (simp add: policy_context_of_def)
  then obtain r0 where "pol_evaluate (max_turns_pre n) (w_tick w3) (policy_context_of fresh ?ls w3) = Some (Stop r0)"
    by (auto simp: max_turns_pre_def max_turns_verdict_def)
  from run_slot_stops[OF assms(2) this, of "[]"]
  obtain r where stop: "run_policies (cfg_pre_turn_policies cfg) (w_tick w3) (policy_context_of fresh ?ls w3) = Stop r"
    by (auto simp: run_policies_def)
  show ?thesis
  proof (cases "cfg_cancelled cfg (w_tick w1)")
    case True
    with assms(4) t have "emit_cancellation_for_turn cfg True True ls1 (tock w1) = (out, ls', w')"
      by (simp add: run_single_turn_def is_cancelled_def handle_cancellation_def)
    from cancellation_no_call[OF _ this] q1 assms(1) show ?thesis by (auto simp: quiet_def)
  next
    case False
    with stop assms(4) t x have "emit_agent_end ?ls (tock w3) = (out, ls', w')"
      by (simp add: run_single_turn_def is_cancelled_def Let_def)
    with es goes_limit[OF g3] show ?thesis
      by (auto simp: emit_agent_end_def ctx_take_vec_def emit_def rx_open_def tock_def model_calls_def)
  qed
qed

context responsive_stream
begin

lemma loop_step_returns:
  assumes "w_rx_limit w = None"
  shows "\<exists>r. loop_step cfg sys ls w = Some r"
proof -
  obtain out ls' w' where "run_single_turn cfg sys ls w = Some (out, ls', w')" using run_single_turn_returns[OF assms] by blast
  then show ?thesis by (cases out) (simp_all add: loop_step_def)
qed

lemma capped_turns_end:
  assumes "w_rx_limit w = None" "max_turns_pre n \<in> set (cfg_pre_turn_policies cfg)"
  shows "\<exists>w' es. agent_turns cfg sys ls w = Some w' \<and> w_sent w' = w_sent w @ es \<and> model_calls es \<le> n - ls_turn_index ls"
  using assms(1)
proof (induction "n - ls_turn_index ls" arbitrary: ls w rule: less_induct)
  case less
  obtain r where r: "loop_step cfg sys ls w = Some r" using loop_step_returns[OF less.prems] by blast
  note g = loop_step_goes[OF less.prems r]
  show ?case
  proof (cases "n \<le> ls_turn_index ls")
    case True
    obtain out ls' w' where t: "run_single_turn cfg sys ls w = Some (out, ls', w')" using run_single_turn_returns[OF less.prems] by blast
    from capped_turn[OF less.prems assms(2) True t] t show ?thesis
      by (auto simp: agent_turns.simps loop_step_def)
  next
    case False
    show ?thesis
    proof (cases r)
      case (Inl w')
      have "\<exists>es. w_sent w' = w_sent w @ es \<and> model_calls es \<le> 1"
        using g Inl goes_model_calls[of Idle w Ended w'] goes_model_calls[of Idle w Done] goes_model_calls[of Done _ Ended w']
        by fastforce
      with Inl r False show ?thesis by (auto simp: agent_turns.simps)
    next
      case (Inr q)
      obtain ls1 w1 where q: "q = (ls1, w1)" by fastforce
      with Inr g have g1: "goes Idle w Done w1" and i: "ls_turn_index ls1 = Suc (ls_turn_index ls)" by auto
      obtain es where es: "w_sent w1 = w_sent w @ es" "model_calls es \<le> 1" using goes_model_calls[OF g1] by auto
      have "n - ls_turn_index ls1 < n - ls_turn_index ls" using False i by arith
      from less.hyps[OF this goes_limit[OF g1]] obtain w' fs where
        fs: "agent_turns cfg sys ls1 w1 = Some w'" "w_sent w' = w_sent w1 @ fs" "model_calls fs \<le> n - ls_turn_index ls1" by blast
      have "agent_turns cfg sys ls w = Some w'" using r Inr q fs(1) by (simp add: agent_turns.simps)
      with es fs i False show ?thesis by (intro exI[of _ w'] exI[of _ "es @ fs"]) auto
    qed
  qed
qed

lemma capped_run_ends:
  assumes "w_rx_limit w = None" "max_turns_pre n \<in> set (cfg_pre_turn_policies cfg)"
  shows "\<exists>w' es. run_loop_inner cfg messages k sys w = Some w' \<and> w_sent w' = w_sent w @ es \<and> model_calls es \<le> n"
proof -
  let ?w = "w\<lparr>w_sent := w_sent w @ [AgentStart]\<rparr>"
  have "w_rx_limit ?w = None" using assms(1) by simp
  from capped_turns_end[OF this assms(2), of sys "initial_state cfg messages k"] obtain w' es where
    "agent_turns cfg sys (initial_state cfg messages k) ?w = Some w'" "w_sent w' = w_sent ?w @ es" "model_calls es \<le> n"
    by (auto simp: initial_state_def)
  then show ?thesis using assms(1)
    by (intro exI[of _ w'] exI[of _ "AgentStart # es"]) (simp add: run_loop_inner_def emit_unlimited model_calls_def)
qed

end

text \<open>
  C2. A capped run ends. With the default retry strategy and the maximum-turns policy in the
  pre-turn slot, every run ends, whatever the provider answers, however often the tools,
  policies and follow-up messages ask for another turn, and it prepares at most as many model
  calls as the policy allows turns.
\<close>

theorem capped_run_terminates:
  assumes "w_rx_limit w = None" "max_turns_pre n \<in> set (cfg_pre_turn_policies cfg)"
  shows "\<exists>w' es. run_loop_inner (with_default_retry rs delay cfg) messages k sys w = Some w'
    \<and> w_sent w' = w_sent w @ es \<and> model_calls es \<le> n"
  by (rule default_retry.capped_run_ends[OF assms(1)]) (simp add: with_default_retry_def assms(2))

section \<open>A concrete run\<close>

definition example_run_cfg :: agent_loop_config where
  "example_run_cfg = (example_cfg (\<lambda>_ _ _ _. text_response ''hi'') (\<lambda>_. False))\<lparr>cfg_pre_turn_policies := [max_turns_pre 3]\<rparr>"

theorem capped_run_terminates_witness:
  "\<exists>w' es. run_loop_inner (with_default_retry default_retry (\<lambda>_ _. 0) example_run_cfg) [user_text ''hello''] 1 [] example_world = Some w'
     \<and> w_sent w' = w_sent example_world @ es \<and> model_calls es \<le> 3"
  by (rule capped_run_terminates) (simp_all add: example_world_def example_run_cfg_def)

theorem run_follows_protocol_witness:
  "\<exists>w' body ms. run_loop_inner (with_default_retry default_retry (\<lambda>_ _. 0) example_run_cfg) [user_text ''hello''] 1 [] example_world = Some w'
     \<and> w_sent w' = AgentStart # body @ [AgentEnd ms]"
proof -
  have unlimited: "w_rx_limit example_world = None" by (simp add: example_world_def)
  have "max_turns_pre 3 \<in> set (cfg_pre_turn_policies (with_default_retry default_retry (\<lambda>_ _. 0) example_run_cfg))"
    by (simp add: example_run_cfg_def with_default_retry_def)
  from default_retry.capped_run_ends[OF unlimited this] obtain w' where
    run: "run_loop_inner (with_default_retry default_retry (\<lambda>_ _. 0) example_run_cfg) [user_text ''hello''] 1 [] example_world = Some w'"
    by blast
  from run_follows_protocol [OF unlimited run] run show ?thesis by (auto simp: example_world_def)
qed

end
