(* ===== verification/Turn_History.thy ===== *)
theory Turn_History
  imports Agent_Loop
begin

text \<open>
  The histories a run shows to the outside. A provider refuses a request in which a tool call has
  no result or a result has no call; this theory shows that the loop never sends one, across
  compaction, cache annotation, policies that rewrite the answer, interrupted batches, rejected
  transfers and overflow recovery, as long as the code around the loop injects plain messages.
\<close>

section \<open>Answered histories\<close>

text \<open>
  Reading a history from left to right: the ids the current run of results may answer, and those
  that still wait for one. \<open>None\<close> is a result without call, or a message that comes before
  the results of a call.
\<close>

type_synonym open_calls = "string list \<times> string set"

fun settle :: "open_calls \<Rightarrow> agent_message list \<Rightarrow> open_calls option" where
  "settle s [] = Some s"
| "settle (ids, waiting) (m # ms) =
     (case tool_result_id m of
        Some i \<Rightarrow> if i \<in> set ids then settle (ids, waiting - {i}) ms else None
      | None \<Rightarrow> if waiting = {} then settle (call_ids_of m, set (call_ids_of m)) ms else None)"

definition paired_history :: "agent_message list \<Rightarrow> bool" where
  "paired_history ms = (settle ([], {}) ms \<noteq> None)"

definition answered_history :: "agent_message list \<Rightarrow> bool" where
  "answered_history ms = (case settle ([], {}) ms of None \<Rightarrow> False | Some (_, waiting) \<Rightarrow> waiting = {})"

lemma settle_append: "settle s (xs @ ys) = (case settle s xs of None \<Rightarrow> None | Some s' \<Rightarrow> settle s' ys)"
  by (induction s xs rule: settle.induct) (auto split: option.splits)

lemma answered_paired: "answered_history ms \<Longrightarrow> paired_history ms"
  by (auto simp: answered_history_def paired_history_def split: option.splits)

lemma answered_obtains:
  assumes "answered_history ms" obtains ids where "settle ([], {}) ms = Some (ids, {})"
  using assms by (auto simp: answered_history_def split: option.splits)

lemma answered_intro: "settle ([], {}) ms = Some (ids, {}) \<Longrightarrow> answered_history ms"
  by (simp add: answered_history_def)

lemma answered_Nil [simp]: "answered_history []"
  by (simp add: answered_history_def)

lemma settle_paired_from: "settle (ids, waiting) ms = Some s \<Longrightarrow> paired_from ids ms"
proof (induction ms arbitrary: ids waiting)
  case (Cons m ms)
  then show ?case by (cases "tool_result_id m") (auto split: if_splits)
qed simp

lemma answered_well_paired: "answered_history ms \<Longrightarrow> well_paired ms"
  by (erule answered_obtains) (rule settle_paired_from)

text \<open>Only the shape of the messages counts.\<close>

definition shape :: "agent_message \<Rightarrow> string option \<times> string list" where
  "shape m = (tool_result_id m, call_ids_of m)"

lemma settle_shape: "map shape ms = map shape ms' \<Longrightarrow> settle s ms = settle s ms'"
proof (induction ms arbitrary: ms' s)
  case (Cons m ms)
  then obtain m' rest where "ms' = m' # rest" "shape m = shape m'" "map shape ms = map shape rest" by (cases ms') auto
  moreover from this have "settle s' ms = settle s' rest" for s' using Cons.IH by blast
  ultimately show ?case by (cases s) (auto simp: shape_def split: option.split)
qed simp

lemma answered_shape: "map shape ms = map shape ms' \<Longrightarrow> answered_history ms = answered_history ms'"
  unfolding answered_history_def by (metis settle_shape)

definition plain :: "agent_message \<Rightarrow> bool" where
  "plain m = (tool_result_id m = None \<and> call_ids_of m = [])"

lemma plain_simps [simp]: "plain (Llm (User u))" "plain (Custom c)" "plain (Llm (Assistant a)) = (call_ids_of (Llm (Assistant a)) = [])"
  by (simp_all add: plain_def call_ids_of_def)

lemma settle_plain: "list_all plain ms \<Longrightarrow> \<exists>ids'. settle (ids, {}) ms = Some (ids', {})"
  by (induction ms arbitrary: ids) (auto simp: plain_def)

lemma answered_append_plain: "answered_history ms \<Longrightarrow> list_all plain ps \<Longrightarrow> answered_history (ms @ ps)"
  by (metis answered_obtains answered_intro settle_append settle_plain option.simps(5))

lemma settle_first: "xs = [] \<or> tool_result_id (hd xs) = None \<Longrightarrow> xs \<noteq> [] \<Longrightarrow> settle (ids, w) xs = settle (ids', w) xs"
  by (cases xs) auto

lemma settle_results:
  "ids_of rs = is \<Longrightarrow> set is \<subseteq> set ids \<Longrightarrow>
     settle (ids, waiting) (map (\<lambda>r. Llm (ToolResult r)) rs) = Some (ids, waiting - set is)"
  by (induction rs arbitrary: "is" waiting) auto

text \<open>A message with calls, followed by results for exactly these calls.\<close>

lemma answered_tool_turn:
  assumes "answered_history ms" "tool_result_id m = None" "set (ids_of rs) = set (call_ids_of m)"
  shows "answered_history (ms @ m # map (\<lambda>r. Llm (ToolResult r)) rs)"
proof -
  obtain ids where "settle ([], {}) ms = Some (ids, {})" using assms(1) by (rule answered_obtains)
  with assms(2) settle_results[OF refl, of rs "call_ids_of m" "set (call_ids_of m)"] assms(3)
  show ?thesis by (intro answered_intro[of _ "call_ids_of m"]) (simp add: settle_append)
qed

lemma paired_push: "answered_history ms \<Longrightarrow> tool_result_id m = None \<Longrightarrow> paired_history (ms @ [m])"
  by (erule answered_obtains) (simp add: paired_history_def settle_append)

lemma answered_snoc: "answered_history ms \<Longrightarrow> plain m \<Longrightarrow> answered_history (ms @ [m])"
  by (rule answered_append_plain) simp_all

text \<open>Conversions that drop only plain messages.\<close>

definition converts_faithfully :: "(agent_message \<Rightarrow> llm_message option) \<Rightarrow> bool" where
  "converts_faithfully f = (\<forall>m. case f m of None \<Rightarrow> plain m | Some l \<Rightarrow> shape (Llm l) = shape m)"

lemma as_llm_faithful [simp]: "converts_faithfully as_llm"
proof -
  have "case as_llm m of None \<Rightarrow> plain m | Some l \<Rightarrow> shape (Llm l) = shape m" for m by (cases m) simp_all
  then show ?thesis by (simp add: converts_faithfully_def)
qed

text \<open>Filters and conversions that keep the shape of what they keep and drop only plain messages.\<close>

definition keeps_shapes :: "(agent_message \<Rightarrow> agent_message option) \<Rightarrow> bool" where
  "keeps_shapes g = (\<forall>m. case g m of None \<Rightarrow> plain m | Some m' \<Rightarrow> shape m' = shape m)"

lemma settle_sieve:
  assumes "keeps_shapes g"
  shows "settle (ids, waiting) ms = Some (ids1, waiting1) \<Longrightarrow> set ids \<subseteq> set ids' \<Longrightarrow>
     \<exists>ids1'. settle (ids', waiting) (List.map_filter g ms) = Some (ids1', waiting1)"
proof (induction ms arbitrary: ids ids' waiting)
  case Nil
  then show ?case by (simp add: List.map_filter_simps)
next
  case (Cons m ms)
  have g: "case g m of None \<Rightarrow> plain m | Some m' \<Rightarrow> shape m' = shape m" using assms by (simp add: keeps_shapes_def)
  show ?case
  proof (cases "g m")
    case None
    with g have "tool_result_id m = None" "call_ids_of m = []" by (simp_all add: plain_def)
    with Cons.prems have "settle ([], {}) ms = Some (ids1, waiting1)" "waiting = {}" by (auto split: if_splits)
    with Cons.IH[of "[]" "{}" ids'] None show ?thesis by (simp add: List.map_filter_simps)
  next
    case (Some l)
    with g have "tool_result_id l = tool_result_id m" "call_ids_of l = call_ids_of m" by (simp_all add: shape_def)
    with Some Cons.prems Cons.IH[of ids _ ids'] Cons.IH[of "call_ids_of m" _ "call_ids_of m"] show ?thesis
      by (auto simp: List.map_filter_simps split: option.splits if_splits)
  qed
qed

lemma sieve_histories:
  assumes "keeps_shapes g"
  shows "answered_history ms \<Longrightarrow> answered_history (List.map_filter g ms)"
    "paired_history ms \<Longrightarrow> paired_history (List.map_filter g ms)"
  using settle_sieve[OF assms, of "[]" "{}" ms _ _ "[]"]
  by (auto simp: answered_history_def paired_history_def split: option.splits)

lemma keeps_shapes_clone: "keeps_shapes clone_message"
proof -
  have "case clone_message m of None \<Rightarrow> plain m | Some m' \<Rightarrow> shape m' = shape m" for m
    by (cases m) (auto simp: clone_box_def)
  then show ?thesis by (simp add: keeps_shapes_def)
qed

lemma settle_convert:
  assumes "converts_faithfully f"
  shows "settle (ids, waiting) ms = Some (ids1, waiting1) \<Longrightarrow> set ids \<subseteq> set ids' \<Longrightarrow>
     \<exists>ids1'. settle (ids', waiting) (map Llm (List.map_filter f ms)) = Some (ids1', waiting1)"
proof -
  have "keeps_shapes (\<lambda>m. map_option Llm (f m))"
  proof -
    have "case map_option Llm (f m) of None \<Rightarrow> plain m | Some m' \<Rightarrow> shape m' = shape m" for m
    proof -
      from assms have "case f m of None \<Rightarrow> plain m | Some l \<Rightarrow> shape (Llm l) = shape m" by (simp add: converts_faithfully_def)
      then show ?thesis by (simp split: option.splits)
    qed
    then show ?thesis by (simp add: keeps_shapes_def)
  qed
  note sieve = settle_sieve[OF this, of ids waiting ms ids1 waiting1 ids']
  have "List.map_filter (\<lambda>m. map_option Llm (f m)) ms = map Llm (List.map_filter f ms)" for ms
    by (induction ms) (auto simp: List.map_filter_simps split: option.splits)
  with sieve show "settle (ids, waiting) ms = Some (ids1, waiting1) \<Longrightarrow> set ids \<subseteq> set ids' \<Longrightarrow>
     \<exists>ids1'. settle (ids', waiting) (map Llm (List.map_filter f ms)) = Some (ids1', waiting1)" by simp
qed

lemma answered_convert: "converts_faithfully f \<Longrightarrow> answered_history ms \<Longrightarrow> answered_history (map Llm (List.map_filter f ms))"
  by (elim answered_obtains) (auto dest!: settle_convert[where ids' = "[]"] intro: answered_intro)

lemma paired_llm_of: "paired_history ms \<Longrightarrow> paired_history (map Llm (llm_of ms))"
  unfolding paired_history_def llm_of_def using settle_convert[OF as_llm_faithful, of "[]" "{}" ms _ _ "[]"] by fastforce

lemma answered_llm_of: "answered_history ms \<Longrightarrow> answered_history (map Llm (llm_of ms))"
  unfolding llm_of_def by (rule answered_convert[OF as_llm_faithful])

text \<open>Compaction cuts between groups.\<close>

lemma settle_closed_at:
  assumes "settle s ms = Some s'" "snd s' = {}" "b \<le> length ms" "\<not> is_tool_result ms b"
  obtains ids where "settle s (take b ms) = Some (ids, {})" "settle (ids, {}) (drop b ms) = Some s'"
proof -
  from assms(1) have "settle s (take b ms @ drop b ms) = Some s'" by simp
  then obtain ids w where s: "settle s (take b ms) = Some (ids, w)" "settle (ids, w) (drop b ms) = Some s'"
    by (auto simp: settle_append simp del: append_take_drop_id split: option.splits)
  have "w = {}"
  proof (cases "b < length ms")
    case True
    with assms(4) have "tool_result_id (ms ! b) = None" by (simp add: is_tool_result_iff)
    with s(2) True show ?thesis by (auto simp: Cons_nth_drop_Suc[symmetric] split: if_splits)
  next
    case False
    with s(2) assms(2) show ?thesis by auto
  qed
  with s that show ?thesis by blast
qed

lemma compaction_answered:
  assumes "answered_history ms" "compact_sliding_window_with count ms budget anchor = (ms', r)"
  shows "answered_history ms'"
proof (cases r)
  case None
  with assms compact_None show ?thesis by metis
next
  case (Some report)
  with assms(2) obtain a b where c: "cuts count ms budget anchor = (a, b)" "a < b" "ms' = take a ms @ drop b ms"
    by (metis compact_Some)
  obtain ids where ids: "settle ([], {}) ms = Some (ids, {})" using assms(1) by (rule answered_obtains)
  have bnd: "a \<le> length ms" "b \<le> length ms" "\<not> is_tool_result ms a" "\<not> is_tool_result ms b"
    using cuts_bounds[OF c(1)] c(2) answered_well_paired[OF assms(1)] by auto
  from ids have "settle ([], {}) ms = Some (ids, {})" "snd (ids, {}) = {}" by simp_all
  then obtain ia ib where a: "settle ([], {}) (take a ms) = Some (ia, {})"
    and b: "settle (ib, {}) (drop b ms) = Some (ids, {})"
    by (metis settle_closed_at bnd)
  show ?thesis
  proof (cases "drop b ms = []")
    case True
    with a c(3) show ?thesis by (auto intro: answered_intro)
  next
    case False
    have "tool_result_id (hd (drop b ms)) = None"
      using bnd(4) False by (auto simp: is_tool_result_iff hd_drop_conv_nth)
    with settle_first[of "drop b ms" ia "{}" ib] False a b c(3) show ?thesis
      by (intro answered_intro[of _ ids]) (simp add: settle_append)
  qed
qed

lemma sliding_window_answered:
  "answered_history ms \<Longrightarrow> sw_transform json_len sw ms overflow = (ms', r) \<Longrightarrow> answered_history ms'"
  by (auto simp: sw_transform_def Let_def split: prod.splits option.splits dest: compaction_answered)

section \<open>Plain surroundings\<close>

text \<open>
  What the loop's environment may do: policies, providers and transformers that add or rewrite
  messages without adding tool calls or results of their own. A post-turn policy may also inject
  an assistant message, which replaces the answer where its tool calls are the same.
\<close>

fun is_assistant :: "agent_message \<Rightarrow> bool" where
  "is_assistant (Llm (Assistant _)) = True"
| "is_assistant _ = False"

definition injects :: "(agent_message \<Rightarrow> bool) \<Rightarrow> 'c policy list \<Rightarrow> bool" where
  "injects ok ps = (\<forall>p \<in> set ps. \<forall>now ctx ms. pol_evaluate p now ctx = Some (Inject ms) \<longrightarrow> list_all ok ms)"

definition pd_injects :: "(agent_message \<Rightarrow> bool) \<Rightarrow> pre_dispatch_policy list \<Rightarrow> bool" where
  "pd_injects ok ps = (\<forall>p \<in> set ps. \<forall>now ctx ms args. pd_evaluate p now ctx = (Some (PdInject ms), args) \<longrightarrow> list_all ok ms)"

definition keeps_answered :: "transform_fn \<Rightarrow> bool" where
  "keeps_answered f = (\<forall>now ms overflow. answered_history ms \<longrightarrow> answered_history (fst (f now ms overflow)))"

fun transformer_plain :: "context_transformer \<Rightarrow> bool" where
  "transformer_plain (SlidingWindow _) = True"
| "transformer_plain (OtherTransformer f) = keeps_answered f"

definition plain_surroundings :: "agent_loop_config \<Rightarrow> bool" where
  "plain_surroundings cfg =
     (converts_faithfully (cfg_convert_to_llm cfg)
      \<and> pred_option keeps_answered (cfg_async_transform_context cfg)
      \<and> pred_option transformer_plain (cfg_transform_context cfg)
      \<and> injects plain (cfg_pre_turn_policies cfg) \<and> injects plain (cfg_post_loop_policies cfg)
      \<and> injects (\<lambda>m. plain m \<or> is_assistant m) (cfg_post_turn_policies cfg)
      \<and> pd_injects plain (cfg_pre_dispatch_policies cfg)
      \<and> pred_option (\<lambda>p. \<forall>now. list_all plain (mp_poll_steering p now) \<and> list_all plain (mp_poll_follow_up p now))
          (cfg_message_provider cfg))"

lemma run_slot_injects:
  "injects ok ps \<Longrightarrow> list_all ok injections \<Longrightarrow> run_slot ps now ctx injections = Inject ms \<Longrightarrow> list_all ok ms"
proof (induction ps arbitrary: injections)
  case (Cons p ps)
  then have "injects ok ps" by (simp add: injects_def)
  moreover have "list_all ok msgs" if "pol_evaluate p now ctx = Some (Inject msgs)" for msgs
    using Cons.prems(1) that by (auto simp: injects_def)
  ultimately show ?case using Cons.prems(2,3) by (auto split: option.splits policy_verdict.splits dest: Cons.IH[rotated 2])
qed (auto split: if_splits)

lemma run_pre_dispatch_injects:
  "pd_injects ok ps \<Longrightarrow> list_all ok injections \<Longrightarrow> run_pre_dispatch ps now ctx injections = (PdInject ms, args) \<Longrightarrow> list_all ok ms"
proof (induction ps arbitrary: injections ctx)
  case (Cons p ps)
  then have "pd_injects ok ps" by (simp add: pd_injects_def)
  moreover have "list_all ok msgs" if "pd_evaluate p now ctx = (Some (PdInject msgs), a)" for msgs a
    using Cons.prems(1) that by (auto simp: pd_injects_def)
  ultimately show ?case using Cons.prems(2,3)
    by (auto split: prod.splits option.splits pre_dispatch_verdict.splits dest: Cons.IH[rotated 2])
qed (auto split: if_splits)

text \<open>The messages a batch hands back to the loop.\<close>

fun outcome_plain :: "tool_exec_outcome \<Rightarrow> bool" where
  "outcome_plain (ExCompleted _ _ injected) = list_all plain injected"
| "outcome_plain (ExStopped _ _ injected) = list_all plain injected"
| "outcome_plain (ExAborted _ injected) = list_all plain injected"
| "outcome_plain (ExSteeringInterrupt _ _ steering injected) = (list_all plain steering \<and> list_all plain injected)"
| "outcome_plain ExChannelClosed = True"

fun preprocess_plain :: "tool_exec_outcome + 'a \<times> agent_message list \<Rightarrow> bool" where
  "preprocess_plain (Inl out) = outcome_plain out"
| "preprocess_plain (Inr (_, injected)) = list_all plain injected"

lemma provider_plain:
  assumes "plain_surroundings cfg" "cfg_message_provider cfg = Some p"
  shows "list_all plain (mp_poll_steering p now)" "list_all plain (mp_poll_follow_up p now)"
  using assms by (auto simp: plain_surroundings_def)

lemma pd_inject_plain:
  assumes "plain_surroundings cfg" "run_pre_dispatch_policies (cfg_pre_dispatch_policies cfg) now ctx = (PdInject ms, args)"
  shows "list_all plain ms"
  using assms run_pre_dispatch_injects[of plain "cfg_pre_dispatch_policies cfg" "[]" now ctx ms args]
  by (simp add: plain_surroundings_def run_pre_dispatch_policies_def)

lemma stopped_outcome_plain:
  "stopped_preprocess_outcome cfg calls reason injected w b = (out, w', b') \<Longrightarrow> list_all plain injected \<Longrightarrow> outcome_plain out"
  by (auto simp: stopped_preprocess_outcome_def split: prod.splits)

lemma aborted_outcome_plain [simp]:
  "outcome_plain (build_aborted_outcome cfg calls injected w b) = list_all plain injected"
  "outcome_plain (build_transfer_outcome cfg calls injected w b) = list_all plain injected"
  by (simp_all add: build_aborted_outcome_def build_transfer_outcome_def)

lemma pre_dispatch_pass_plain:
  assumes "plain_surroundings cfg"
  shows "pre_dispatch_pass cfg st calls rest passed injected w b = (r, w', b') \<Longrightarrow> list_all plain injected \<Longrightarrow>
     preprocess_plain r"
proof (induction rest arbitrary: passed injected w b)
  case (Cons x rest)
  obtain idx tc where x: "x = (idx, tc)" by fastforce
  obtain c w1 where c: "batch_is_cancelled cfg w b = (c, w1)" by fastforce
  obtain v args where v: "run_pre_dispatch_policies (cfg_pre_dispatch_policies cfg) (w_tick w1)
      (dispatch_context cfg st tc (tci_arguments tc)) = (v, args)" by fastforce
  show ?case
  proof (cases c)
    case True
    with Cons.prems x c show ?thesis by auto
  next
    case False
    with Cons.prems x c v pd_inject_plain[OF assms, where now = "w_tick w1"] show ?thesis
      by (cases v) (auto split: prod.splits dest: stopped_outcome_plain dest!: Cons.IH)
  qed
qed auto

lemma approval_gate_plain:
  assumes "plain_surroundings cfg" "approval_gate cfg st calls idx tc args injected w b = (g, w', b')" "list_all plain injected"
  shows "case g of GateExit out \<Rightarrow> outcome_plain out | GateDropped \<Rightarrow> True | GatePrepared _ injected' \<Rightarrow> list_all plain injected'"
  using assms(2,3)
  by (auto simp: approval_gate_def split: option.splits if_splits prod.splits approval_outcome.splits pre_dispatch_verdict.splits
      dest: stopped_outcome_plain pd_inject_plain[OF assms(1)])

lemma approval_pass_plain:
  assumes "plain_surroundings cfg"
  shows "approval_pass cfg st calls ps prepared injected w b = (r, w', b') \<Longrightarrow> list_all plain injected \<Longrightarrow>
     preprocess_plain r"
proof (induction ps arbitrary: prepared injected w b)
  case (Cons p ps)
  obtain c w1 where c: "batch_is_cancelled cfg w b = (c, w1)" by fastforce
  show ?case
  proof (cases c)
    case True
    with Cons.prems c show ?thesis by auto
  next
    case False
    show ?thesis
    proof (cases p)
      case (PassSkip idx error_text)
      with False Cons.prems c show ?thesis by (auto split: prod.splits dest!: Cons.IH)
    next
      case (PassReady idx args)
      obtain g w2 b2 where g: "approval_gate cfg st calls idx (calls ! idx) args injected w1 b = (g, w2, b2)" by (metis prod_cases3)
      from approval_gate_plain[OF assms g Cons.prems(2)] False PassReady Cons.prems c g show ?thesis
        by (cases g) (auto dest!: Cons.IH)
    qed
  qed
qed auto

lemma steering_outcome_plain:
  assumes "plain_surroundings cfg" "build_steering_outcome cfg calls injected w b = (out, w')" "list_all plain injected"
  shows "outcome_plain out"
  using assms(2,3) provider_plain(1)[OF assms(1)] by (auto simp: build_steering_outcome_def Let_def split: option.splits)

lemma run_groups_plain:
  assumes "plain_surroundings cfg"
  shows "run_groups cfg calls prepared injected gs w b = (out, w') \<Longrightarrow> list_all plain injected \<Longrightarrow> outcome_plain out"
proof (induction gs arbitrary: w b)
  case (Cons g gs)
  then show ?case
    by (auto split: prod.splits if_splits group_dispatch.splits group_outcome.splits dest: Cons.IH steering_outcome_plain[OF assms])
qed auto

lemma execute_plain:
  assumes "plain_surroundings cfg" "execute_tools_concurrently cfg calls w = (out, w')"
  shows "outcome_plain out"
proof -
  obtain r w1 b1 where p: "preprocess_tool_calls cfg calls w batch_new = (r, w1, b1)" by (metis prod_cases3)
  have r: "preprocess_plain r"
    using p by (auto simp: preprocess_tool_calls_def Let_def split: prod.splits sum.splits
        dest!: pre_dispatch_pass_plain[OF assms(1)] approval_pass_plain[OF assms(1)])
  show ?thesis
  proof (cases r)
    case (Inl early)
    with r p assms(2) show ?thesis by (simp add: execute_tools_concurrently_def)
  next
    case (Inr q)
    obtain prepared injected where q: "q = (prepared, injected)" by fastforce
    with Inr r p assms(2) show ?thesis
      by (auto simp: execute_tools_concurrently_def split: prod.splits if_splits sum.splits dest: run_groups_plain[OF assms(1)])
  qed
qed

section \<open>The shapes a turn keeps\<close>

lemma assistant_shape:
  "tool_result_id (assistant m) = None"
  "call_ids_of (assistant m) = List.map_filter block_call_id (am_content m)"
  by (auto simp: assistant_def call_ids_of_def Let_def)

lemma shape_assistant: "shape (assistant m) = (None, List.map_filter block_call_id (am_content m))"
  by (simp add: shape_def assistant_shape)

lemma map_filter_calls: "List.map_filter block_call_id bs = List.map_filter block_call_id (filter is_tool_call_block bs)"
  by (induction bs) (auto simp: List.map_filter_simps elim: is_tool_call_block.elims split: option.splits elim!: block_call_id.elims)

lemma replacement_shape:
  "assistant_replacement_preserves_tool_calls m m' \<Longrightarrow> shape (assistant m') = shape (assistant m)"
  by (metis shape_assistant map_filter_calls assistant_replacement_preserves_tool_calls_def)

lemma sanitize_shape: "shape (assistant (fst (sanitize_incomplete_tool_calls m))) = shape (assistant m)"
proof -
  have b: "block_call_id (sanitize_block b) = block_call_id b" for b by (cases b) simp_all
  have "List.map_filter block_call_id (map sanitize_block bs) = List.map_filter block_call_id bs" for bs
    by (induction bs) (auto simp: List.map_filter_simps b split: option.split)
  then show ?thesis by (simp add: shape_assistant sanitize_incomplete_tool_calls_def sanitize_blocks_eq)
qed

lemma extracted_ids: "map tci_id (extract_tool_calls m) = call_ids_of (assistant m)"
proof -
  have "map tci_id (List.map_filter (\<lambda>b. case b of
         ToolCall i n args partial \<Rightarrow> Some \<lparr>tci_id = i, tci_name = n, tci_arguments = args, tci_is_incomplete = (partial \<noteq> None)\<rparr>
       | _ \<Rightarrow> None) bs) = List.map_filter block_call_id bs" for bs
    by (induction bs) (auto simp: List.map_filter_simps split: content_block.splits)
  then show ?thesis by (simp add: extract_tool_calls_def assistant_shape)
qed

lemma priced_content [simp]: "am_content (price_assistant_message_with cfg m) = am_content m"
  by (simp add: price_assistant_message_with_def Let_def)

lemma aborted_content [simp]: "am_content (mark_assistant_message_aborted now m) = am_content m"
  by (simp add: mark_assistant_message_aborted_def)

lemma terminal_plain: "am_content m = [] \<Longrightarrow> plain (assistant m)"
  by (simp add: plain_def assistant_shape List.map_filter_simps)

lemma hint_shape [simp]: "shape (set_cache_hint h m) = shape m" "shape (clear_cache_hint m) = shape m"
proof -
  have "shape (Llm (put_llm_cache_hint h l)) = shape (Llm l)" for h l
    by (cases l) (simp_all add: shape_def call_ids_of_def)
  then show "shape (set_cache_hint h m) = shape m" "shape (clear_cache_hint m) = shape m" by (cases m; simp)+
qed

lemma rewrite_shape: "map shape (rewrite_first_message c r ms) = map shape ms"
proof (induction ms)
  case (Cons m ms)
  have "shape (Llm (ToolResult t')) = shape (Llm (ToolResult t))" if "rewrite_tool_result_as_rejected c r t = Some t'" for t t'
    using that by (auto simp: rewrite_tool_result_as_rejected_def shape_def call_ids_of_def split: if_splits)
  with Cons show ?case by (auto split: agent_message.splits llm_message.splits option.splits)
qed simp

lemma update_shape: "i < length ms \<Longrightarrow> shape (ms ! i) = shape m \<Longrightarrow> map shape (ms[i := m]) = map shape ms"
  by (metis list_update_id map_update)

section \<open>Tidy states\<close>

definition tidy :: "loop_state \<Rightarrow> bool" where
  "tidy ls = (ctx_inv (ls_context ls) \<and> answered_history (context_of ls) \<and> list_all plain (ls_pending ls))"

text \<open>What the events of a run show of its history.\<close>

fun shows_history :: "agent_event \<Rightarrow> bool" where
  "shows_history (BeforeLlmCall _ ms _) = answered_history (map Llm ms)"
| "shows_history (TurnEnd _ _ reason snapshot) =
     (paired_history (map Llm (ts_messages snapshot))
      \<and> (reason \<notin> {TeError, TeAborted} \<longrightarrow> answered_history (map Llm (ts_messages snapshot))))"
| "shows_history (TransferInitiated signal) = answered_history (map Llm (sig_conversation_history signal))"
| "shows_history (AgentEnd ms) = paired_history ms"
| "shows_history _ = True"

abbreviation good :: "world \<Rightarrow> world \<Rightarrow> bool" where
  "good \<equiv> sends shows_history"

lemma good_quiet: "quiet w w' \<Longrightarrow> good w w'"
  by (rule quiet_sends)

lemma good_emit: "shows_history e \<Longrightarrow> good w (snd (emit e w))"
  by (rule sends_emit_ignored)

lemma context_ops [simp]:
  "context_of (push_context m ls) = context_of ls @ [m]" "ls_pending (push_context m ls) = ls_pending ls"
  "ls_pending (set_context i m ls) = ls_pending ls"
  "context_of (accumulate_turn_state a ls) = context_of ls" "ls_pending (accumulate_turn_state a ls) = ls_pending ls"
  "ls_context (accumulate_turn_state a ls) = ls_context ls"
  "ls_context (extend_pending ms ls) = ls_context ls" "ls_pending (extend_pending ms ls) = ls_pending ls @ ms"
  "i < length (context_of ls) \<Longrightarrow> context_of (set_context i m ls) = (context_of ls)[i := m]"
  by (auto simp: push_context_def set_context_def accumulate_turn_state_def extend_pending_def ctx_push_def ctx_set_def split: option.splits)

lemma ctx_inv_ops [simp]:
  "ctx_inv (ls_context ls) \<Longrightarrow> ctx_inv (ls_context (push_context m ls))"
  "ctx_inv (ls_context ls) \<Longrightarrow> ctx_inv (ls_context (set_context i m ls))"
  "ctx_inv (ctx_make_mut f c)"
  by (auto simp: push_context_def set_context_def ctx_push_def ctx_inv_append ctx_make_mut_def ctx_inv_def[of "\<lparr>ctx_messages = _, ctx_mirror = []\<rparr>"]
      split: option.splits dest: ctx_set_inv)

lemma push_results_context:
  "context_of (push_results rs ls) = context_of ls @ map (\<lambda>r. Llm (ToolResult r)) rs"
  "ls_pending (push_results rs ls) = ls_pending ls"
  "ctx_inv (ls_context ls) \<Longrightarrow> ctx_inv (ls_context (push_results rs ls))"
  by (induction rs arbitrary: ls) (auto simp: push_results_def)

lemma snapshot_exact:
  assumes "ctx_inv (ls_context ls)" "build_snapshot stop d ls = (snap, ls')"
  shows "ts_messages snap = llm_of (context_of ls)" "context_of ls' = context_of ls" "ctx_inv (ls_context ls')"
    "ls_pending ls' = ls_pending ls"
  using assms ctx_snapshot_exact[OF assms(1)] by (auto simp: build_snapshot_def ctx_inv_def)

section \<open>The ends of a turn\<close>

lemma snapshot_shows:
  assumes "ctx_inv (ls_context ls)" "build_snapshot stop d ls = (snap, ls')" "paired_history (context_of ls)"
    "reason \<notin> {TeError, TeAborted} \<Longrightarrow> answered_history (context_of ls)"
  shows "shows_history (TurnEnd m trs reason snap)" "paired_history (context_of ls')"
  using assms(3,4) paired_llm_of[of "context_of ls"] answered_llm_of[of "context_of ls"] snapshot_exact(1,2)[OF assms(1,2)]
  by auto

lemma agent_end_good:
  assumes "paired_history (context_of ls)" "emit_agent_end ls w = (out, ls', w')"
  shows "good w w'" "out = Return"
  using assms good_emit[of "AgentEnd (context_of ls)" w] by (auto simp: emit_agent_end_def ctx_take_vec_def)

lemma turn_end_good:
  assumes "paired_history (context_of ls)" "shows_history (TurnEnd m trs reason snap)"
    "emit_turn_end_and_agent_end m trs reason snap ls w = (out, ls', w')"
  shows "good w w'" "out = Return"
proof -
  obtain ok w1 where e: "emit (TurnEnd m trs reason snap) w = (ok, w1)" by fastforce
  have g: "good w w1" using sends_emit[of shows_history, OF assms(2) e] .
  show "good w w'" "out = Return"
    using assms(3) e g agent_end_good[OF assms(1), of w1 out ls' w'] sends_trans[OF g]
    by (auto simp: emit_turn_end_and_agent_end_def split: if_splits)
qed

lemma injections_keep:
  "apply_injections original ms replaced ls w = (m, ls', w') \<Longrightarrow> list_all (\<lambda>m. plain m \<or> is_assistant m) ms \<Longrightarrow>
     shape (assistant replaced) = shape (assistant original) \<Longrightarrow>
     shape (assistant m) = shape (assistant original) \<and> ls_context ls' = ls_context ls
       \<and> (list_all plain (ls_pending ls) \<longrightarrow> list_all plain (ls_pending ls'))"
proof (induction original ms replaced ls w rule: apply_injections.induct)
  case (2 original m ms replaced ls w)
  then show ?case
    by (cases m) (auto simp: Let_def replacement_shape split: llm_message.splits if_splits)
qed simp

lemma policy_check_keeps:
  assumes "plain_surroundings cfg" "run_post_turn_policy_check cfg sys m trs ls w = (m', stop, ls', w')"
  shows "shape (assistant m') = shape (assistant m)" "ls_context ls' = ls_context ls"
    "list_all plain (ls_pending ls) \<Longrightarrow> list_all plain (ls_pending ls')"
proof -
  let ?ok = "\<lambda>m. plain m \<or> is_assistant m"
  have "list_all ?ok ms" if "run_slot (cfg_post_turn_policies cfg) now c [] = Inject ms" for now c ms
    using run_slot_injects[OF _ _ that, of ?ok] assms(1) by (simp add: plain_surroundings_def)
  then have "shape (assistant m') = shape (assistant m) \<and> ls_context ls' = ls_context ls
      \<and> (list_all plain (ls_pending ls) \<longrightarrow> list_all plain (ls_pending ls'))"
    using assms(2)
    by (auto simp: run_post_turn_policy_check_def Let_def run_post_turn_policies_def
        split: if_splits policy_verdict.splits prod.splits dest: injections_keep)
  then show "shape (assistant m') = shape (assistant m)" "ls_context ls' = ls_context ls"
    "list_all plain (ls_pending ls) \<Longrightarrow> list_all plain (ls_pending ls')" by auto
qed

text \<open>The committed message sits at its index, whatever the policies made of it.\<close>

definition holds_at :: "usize \<Rightarrow> assistant_message \<Rightarrow> loop_state \<Rightarrow> bool" where
  "holds_at i m ls = (ctx_inv (ls_context ls) \<and> i < length (context_of ls) \<and> shape (context_of ls ! i) = shape (assistant m))"

lemma holds_push: "ctx_inv (ls_context ls) \<Longrightarrow> holds_at (length (context_of ls)) m (push_context (assistant m) ls)"
  by (simp add: holds_at_def)

lemma recommit:
  assumes "plain_surroundings cfg" "holds_at i m ls" "run_post_turn_policy_check cfg sys m trs ls w = (m', stop, ls', w')"
  shows "map shape (context_of (set_context i (assistant m') ls')) = map shape (context_of ls)"
    "ctx_inv (ls_context (set_context i (assistant m') ls'))"
  using assms(2) policy_check_keeps(1,2)[OF assms(1,3)] update_shape[of i "context_of ls" "assistant m'"]
  by (simp_all add: holds_at_def)

lemma paired_shape: "map shape ms = map shape ms' \<Longrightarrow> paired_history ms = paired_history ms'"
  unfolding paired_history_def by (metis settle_shape)

lemma end_with_message_good:
  assumes "plain_surroundings cfg" "holds_at i m ls" "paired_history (context_of ls)"
    "reason \<notin> {TeError, TeAborted} \<Longrightarrow> answered_history (context_of ls)"
    "end_with_message cfg sys m i stop reason ls w = (out, ls', w')"
  shows "good w w'" "out = Return"
proof -
  obtain m1 ps ls1 w1 where c: "run_post_turn_policy_check cfg sys m [] ls w = (m1, ps, ls1, w1)" by (metis prod_cases4)
  note r = recommit[OF assms(1,2) c]
  obtain snap ls2 where b: "build_snapshot stop None (set_context i (assistant m1) ls1) = (snap, ls2)" by fastforce
  have "shows_history (TurnEnd m1 [] reason snap)" "paired_history (context_of ls2)"
    using snapshot_shows[OF r(2) b, of reason] assms(3,4) paired_shape[OF r(1)] answered_shape[OF r(1)] by auto
  moreover have "emit_turn_end_and_agent_end m1 [] reason snap ls2 w1 = (out, ls', w')"
    using assms(5) c b by (simp add: end_with_message_def)
  ultimately have "good w1 w'" "out = Return" using turn_end_good by blast+
  then show "good w w'" "out = Return" using quiet_sends_trans[OF policy_check_quiet[OF c]] by auto
qed

lemma cancellation_good:
  assumes "ctx_inv (ls_context ls)" "answered_history (context_of ls)"
    "emit_cancellation_for_turn cfg ts ms ls w = (out, ls', w')"
  shows "good w w'" "out = Return"
proof -
  let ?m = "build_abort_message (now_timestamp cfg w) (cfg_model cfg)"
  let ?ls = "push_context (assistant ?m) ls"
  obtain ok1 w1 where e1: "(if ts then emit TurnStart w else (True, w)) = (ok1, w1)" by fastforce
  obtain ok2 w2 where e2: "(if ms then emit MessageStart w1 else (True, w1)) = (ok2, w2)" by fastforce
  obtain ok3 w3 where e3: "emit (MessageEnd ?m) w2 = (ok3, w3)" by fastforce
  have g1: "good w w1" using e1 sends_emit[of shows_history TurnStart w ok1 w1] by (auto split: if_splits)
  have "good w1 w2" using e2 sends_emit[of shows_history MessageStart w1 ok2 w2] by (auto split: if_splits)
  with g1 have g2: "good w w2" by (rule sends_trans)
  have g3: "good w w3" using g2 sends_emit[OF _ e3, of shows_history] by (auto intro: sends_trans)
  obtain snap ls2 where b: "build_snapshot SrAborted None ?ls = (snap, ls2)" by fastforce
  have "plain (assistant ?m)" by (rule terminal_plain) (simp add: build_abort_message_def)
  then have a: "answered_history (context_of ?ls)" using assms(2) by (simp add: answered_snoc)
  note s = snapshot_shows[OF ctx_inv_ops(1)[OF assms(1)] b answered_paired[OF a] a]
  note t = turn_end_good[OF s(2,1), where w = w3 and out = out and ls' = ls' and w' = w']
  show "good w w'" "out = Return"
    using assms(3) e1 e2 e3 b g1 g2 g3 t sends_trans[OF g3]
    by (auto simp: emit_cancellation_for_turn_def Let_def split: if_splits)
qed

lemma stream_result_good:
  assumes "plain_surroundings cfg" "tidy ls" "handle_stream_result cfg sys r ls w = (mo, ls', w')"
  shows "good w w' \<and> (mo \<noteq> None \<longrightarrow> ls' = ls \<and> w' = w)"
proof (cases r)
  case ResAborted
  let ?m = "build_abort_message (now_timestamp cfg w) (cfg_model cfg)"
  obtain out ls1 w1 where e: "end_with_message cfg sys ?m (length (context_of ls)) SrAborted TeAborted
      (push_context (assistant ?m) ls) w = (out, ls1, w1)" by (metis prod_cases3)
  have "holds_at (length (context_of ls)) ?m (push_context (assistant ?m) ls)"
    using assms(2) by (intro holds_push) (simp add: tidy_def)
  moreover have "paired_history (context_of (push_context (assistant ?m) ls))"
    using assms(2) by (simp add: tidy_def paired_push assistant_shape)
  ultimately have "good w w1" using end_with_message_good(1)[OF assms(1) _ _ _ e] by simp
  with e ResAborted assms(3) show ?thesis by (simp add: handle_stream_result_def Let_def)
qed (use assms(3) in \<open>auto simp: handle_stream_result_def\<close>)

lemma error_stop_good:
  assumes "plain_surroundings cfg" "tidy ls" "handle_error_stop cfg sys m ls w = (out, ls', w')"
  shows "good w w'" "out = Return"
proof -
  let ?m = "fst (sanitize_incomplete_tool_calls m)"
  let ?reason = "if am_stop_reason ?m = SrAborted then TeAborted else TeError"
  have e: "end_with_message cfg sys ?m (length (context_of ls)) (am_stop_reason ?m) ?reason
      (push_context (assistant ?m) ls) w = (out, ls', w')"
    using assms(3) by (simp add: handle_error_stop_def Let_def)
  have h: "holds_at (length (context_of ls)) ?m (push_context (assistant ?m) ls)"
    using assms(2) by (intro holds_push) (simp add: tidy_def)
  have p: "paired_history (context_of (push_context (assistant ?m) ls))"
    using assms(2) by (simp add: tidy_def paired_push assistant_shape)
  have "?reason \<in> {TeError, TeAborted}" by simp
  then show "good w w'" "out = Return" using end_with_message_good[OF assms(1) h p _ e] by blast+
qed

section \<open>Transformers and overflow\<close>

lemma stage_good:
  assumes "pred_option transformer_plain topt" "answered_history ms" "transform_stage cfg topt ms overflow w = (b, ms', w')"
  shows "good w w'" "answered_history ms'"
proof -
  have "good w w' \<and> answered_history ms'"
  proof (cases topt)
    case None
    with assms show ?thesis by (simp add: transform_stage_def)
  next
    case (Some t)
    obtain ms1 report w1 where a: "apply_transformer cfg t ms overflow w = ((ms1, report), w1)" by (metis surj_pair)
    have "answered_history ms1"
    proof (cases t)
      case (SlidingWindow sw)
      with a show ?thesis using sliding_window_answered[OF assms(2)] by auto
    next
      case (OtherTransformer f)
      with Some assms(1,2) a show ?thesis by (auto simp: keeps_answered_def) (metis fst_conv)
    qed
    moreover have "good w1 (snd (note_compaction ms1 report w1))"
      using good_quiet[of w1 "replace_loop_context ms1 w1"] sends_trans good_emit[of _ "replace_loop_context ms1 w1"]
      by (auto simp: note_compaction_def Let_def split: option.splits)
    moreover have "good w w1" using transformer_quiet[OF a] by (rule good_quiet)
    ultimately show ?thesis using Some assms(3) a
      by (auto simp: transform_stage_def split: prod.splits intro: sends_trans)
  qed
  then show "good w w'" "answered_history ms'" by auto
qed

lemma transformers_good:
  assumes "plain_surroundings cfg" "ctx_inv c" "answered_history (ctx_messages c)"
    "run_context_transformers cfg c overflow w = (b, c', w')"
  shows "good w w'" "answered_history (ctx_messages c')" "ctx_inv c'"
proof -
  obtain b1 ms1 w1 where s1: "transform_stage cfg (map_option OtherTransformer (cfg_async_transform_context cfg)) (ctx_messages c) overflow w
      = (b1, ms1, w1)" by (metis prod_cases3)
  obtain b2 ms2 w2 where s2: "transform_stage cfg (cfg_transform_context cfg) ms1 overflow w1 = (b2, ms2, w2)" by (metis prod_cases3)
  have p: "pred_option transformer_plain (map_option OtherTransformer (cfg_async_transform_context cfg))"
    "pred_option transformer_plain (cfg_transform_context cfg)"
    using assms(1) by (auto simp: plain_surroundings_def option.pred_map comp_def)
  note g1 = stage_good[OF p(1) assms(3) s1]
  note g2 = stage_good[OF p(2) g1(2) s2]
  show "good w w'" "answered_history (ctx_messages c')" "ctx_inv c'"
    using assms(2-4) s1 s2 g2 sends_trans[OF g1(1) g2(1)]
    by (auto simp: run_context_transformers_def ctx_make_mut_def ctx_inv_def[of "\<lparr>ctx_messages = _, ctx_mirror = []\<rparr>"] split: if_splits)
qed

lemma overflow_error_good:
  assumes "plain_surroundings cfg" "tidy ls" "overflow_error cfg sys ls w = (r, ls', w')"
  shows "good w w'" "r = Failed Return"
proof -
  let ?m = "build_error_message (now_timestamp cfg w) (cfg_model cfg) (ContextWindowOverflow (ms_model_id (cfg_model cfg)))"
  let ?ls = "push_context (assistant ?m) ls"
  let ?w = "snd (emit (MessageEnd ?m) w)"
  obtain out ls1 w1 where e: "end_with_message cfg sys ?m (length (context_of ?ls) - 1) SrError TeError ?ls ?w = (out, ls1, w1)"
    by (metis prod_cases3)
  have h: "holds_at (length (context_of ?ls) - 1) ?m ?ls" using holds_push[of ls ?m] assms(2) by (simp add: tidy_def)
  have p: "paired_history (context_of ?ls)" using assms(2) by (simp add: tidy_def paired_push assistant_shape)
  note g = end_with_message_good[OF assms(1) h p _ e]
  have "good w ?w" by (rule good_emit) simp
  then show "good w w'" "r = Failed Return"
    using assms(3) e g by (auto simp: overflow_error_def Let_def intro: sends_trans)
qed

lemma stream_good: "stream_with_retry cfg tools msgs sys key start w = Some (r, w') \<Longrightarrow> good w w'"
proof -
  assume "stream_with_retry cfg tools msgs sys key start w = Some (r, w')"
  from streams_stream_with_retry[OF this] have "sends is_stream_event w w'" by (simp add: streams_def)
  then show ?thesis by (rule sends_mono) (auto elim: is_stream_event.elims)
qed

lemma overflow_recovery_good:
  assumes "plain_surroundings cfg" "tidy ls" "attempt_overflow_recovery cfg sys tools dyn key ls w = Some (r, ls', w')"
  shows "good w w' \<and> (case r of Failed out \<Rightarrow> out = Return | Recovered _ \<Rightarrow> tidy ls')"
proof -
  obtain b c w1 where t: "run_context_transformers cfg (ls_context ls) True w = (b, c, w1)" by (metis prod_cases3)
  let ?ls = "ls\<lparr>ls_overflow_attempted := True, ls_context := c, ls_overflow_signal := False\<rparr>"
  have i: "ctx_inv (ls_context ls)" "answered_history (context_of ls)" using assms(2) by (simp_all add: tidy_def)
  note g1 = transformers_good[OF assms(1) i t]
  have tidy1: "tidy ?ls" using g1 assms(2) by (simp add: tidy_def)
  have overflow: ?thesis if "overflow_error cfg sys ls1 v = (r, ls', w')" "tidy ls1" "good w v" for ls1 v
    using overflow_error_good[OF assms(1) that(2,1)] sends_trans[OF that(3)] by auto
  obtain k w2 where k: "is_cancelled cfg w1 = (k, w2)" by fastforce
  have g2: "good w w2" using sends_quiet_trans[OF g1(1), of w2] k by (auto simp: is_cancelled_def)
  consider (err) ls1 v where "overflow_error cfg sys ls1 v = (r, ls', w')" "tidy ls1" "good w v"
    | (cancel) out where "r = Failed out" "emit_cancellation_for_turn cfg False False ?ls w2 = (out, ls', w')"
    | (again) res where "r = Recovered res" "ls' = ?ls"
        "stream_with_retry cfg tools (build_llm_messages cfg (context_of ?ls) dyn) sys key False w2 = Some (res, w')"
  proof -
    show thesis
      using assms(2,3) t k g1(1) g2 tidy1 that sends_trans[OF g2 stream_good]
      by (auto simp: attempt_overflow_recovery_def handle_started_turn_cancellation_def Let_def split: if_splits option.splits prod.splits)
  qed
  then show ?thesis
  proof cases
    case err
    then show ?thesis by (rule overflow)
  next
    case cancel
    have "ctx_inv (ls_context ?ls)" "answered_history (context_of ?ls)" using tidy1 by (simp_all only: tidy_def)
    from cancellation_good[OF this cancel(2)] cancel(1) show ?thesis using sends_trans[OF g2] by auto
  next
    case again
    with sends_trans[OF g2 stream_good[OF again(3)]] tidy1 show ?thesis by simp
  qed
qed

section \<open>Turns that go on\<close>

text \<open>What a turn leaves behind: only good events, and a tidy state where the loop goes on.\<close>

definition leaves :: "world \<Rightarrow> turn_step \<Rightarrow> bool" where
  "leaves w r = (case r of (out, ls', w') \<Rightarrow> good w w' \<and> (out \<noteq> Return \<longrightarrow> tidy ls'))"

lemma leaves_after: "good w w1 \<Longrightarrow> leaves w1 r \<Longrightarrow> leaves w r"
  by (auto simp: leaves_def split: prod.splits intro: sends_trans)

lemma leaves_return: "good w w' \<Longrightarrow> leaves w (Return, ls', w')"
  by (simp add: leaves_def)

lemma leaves_agent_end: "paired_history (context_of ls) \<Longrightarrow> leaves w (emit_agent_end ls w)"
  by (cases "emit_agent_end ls w") (auto simp: leaves_def dest: agent_end_good)

lemma leaves_turn_end:
  "paired_history (context_of ls) \<Longrightarrow> shows_history (TurnEnd m trs reason snap) \<Longrightarrow>
     leaves w (emit_turn_end_and_agent_end m trs reason snap ls w)"
  by (cases "emit_turn_end_and_agent_end m trs reason snap ls w") (auto simp: leaves_def dest: turn_end_good)

lemma flush_good: "flush_state_delta w = (d, w') \<Longrightarrow> good w w'"
  using good_emit[of "StateChanged _" "w\<lparr>w_session := _\<rparr>"]
  by (auto simp: flush_state_delta_def Let_def split: prod.splits if_splits intro: good_quiet quiet_sends_trans[OF quiet_simps(6)])

lemma poll_steering_tidy:
  assumes "plain_surroundings cfg" "tidy ls" "poll_steering cfg ls w = (ls', w')"
  shows "tidy ls'"
  using assms(2,3) provider_plain(1)[OF assms(1)]
  by (auto simp: poll_steering_def Let_def tidy_def split: option.splits if_splits)

lemma nudge_tidy: "tidy ls \<Longrightarrow> apply_nudge cfg r ls w = (ls', w') \<Longrightarrow> tidy ls'"
  by (auto simp: apply_nudge_def Let_def tidy_def extend_pending_def split: if_splits)

lemma no_tool_calls_leaves:
  assumes "plain_surroundings cfg" "tidy ls" "call_ids_of (assistant m) = []"
  shows "leaves w (handle_no_tool_calls cfg sys m ls w)"
proof -
  let ?acc = "(accumulate_turn_state m ls)\<lparr>ls_last_tool_results := []\<rparr>"
  let ?ls = "push_context (assistant m) ?acc"
  let ?i = "length (context_of ?acc)"
  have t0: "tidy ?acc" using assms(2) by (simp add: tidy_def)
  have h: "holds_at ?i m ?ls" using t0 by (intro holds_push) (simp add: tidy_def)
  have "plain (assistant m)" using assms(3) by (simp add: plain_def assistant_shape(1))
  then have a: "answered_history (context_of ?ls)" using t0 answered_snoc[of "context_of ls" "assistant m"] by (simp add: tidy_def)
  have pend: "list_all plain (ls_pending ?ls)" using t0 by (simp add: tidy_def)
  obtain m1 ps ls1 w1 where c: "run_post_turn_policy_check cfg sys m [] ?ls w = (m1, ps, ls1, w1)" by (metis prod_cases4)
  note r = recommit[OF assms(1) h c]
  let ?ls2 = "set_context ?i (assistant m1) ls1"
  let ?w2 = "sync_loop_context_snapshot ?ls2 w1"
  have a2: "answered_history (context_of ?ls2)" using a answered_shape[OF r(1)] by simp
  obtain d w3 where f: "flush_state_delta ?w2 = (d, w3)" by fastforce
  have g3: "good w w3" using quiet_trans[OF policy_check_quiet[OF c] sync_quiet(2)] flush_good[OF f] by (rule quiet_sends_trans)
  obtain snap ls3 where b: "build_snapshot (am_stop_reason m1) d ?ls2 = (snap, ls3)" by fastforce
  let ?e = "TurnEnd m1 [] (if is_reasoning_only m1 then TeReasoningOnly else TeComplete) snap"
  have s: "shows_history ?e" "paired_history (context_of ls3)"
    using snapshot_shows[OF r(2) b] a2 answered_paired by blast+
  have tidy3: "tidy ls3"
    using snapshot_exact[OF r(2) b] a2 policy_check_keeps(3)[OF assms(1) c pend] by (simp add: tidy_def)
  obtain ok w4 where e: "emit ?e w3 = (ok, w4)" by fastforce
  have g4: "good w w4" using g3 sends_emit[of shows_history, OF s(1) e] by (rule sends_trans)
  obtain ls5 w5 where n: "apply_nudge cfg (is_reasoning_only m1) ls3 w4 = (ls5, w5)" by fastforce
  obtain ls6 w6 where p: "poll_steering cfg ls5 w5 = (ls6, w6)" by fastforce
  have g6: "good w w6" using g4 quiet_trans[OF nudge_quiet[OF n] poll_steering_quiet[OF p]] by (rule sends_quiet_trans)
  have "tidy ls6" using poll_steering_tidy[OF assms(1) nudge_tidy[OF tidy3 n] p] .
  with g6 have go: "leaves w (out, ls6, w6)" for out by (simp add: leaves_def)
  have "handle_no_tool_calls cfg sys m ls w = (if \<not> ok then (Return, ls3, w4) else case ps of
      Some _ \<Rightarrow> emit_agent_end ls3 w4 | None \<Rightarrow> (if ls_pending ls6 = [] then BreakInner else ContinueInner, ls6, w6))"
    using c f b e n p by (cases ps) (simp_all add: handle_no_tool_calls_def Let_def)
  then show ?thesis using go leaves_return[OF g4] leaves_after[OF g4 leaves_agent_end[OF s(2)]]
    by (auto split: option.splits)
qed

section \<open>Tool turns\<close>

lemma reject_transfer_leaves:
  assumes "tidy ls"
  shows "leaves w (reject_transfer cfg signal err m trs si ps ls w)"
proof -
  let ?rej = "''transfer rejected: '' @ transfer_error_to_string err"
  let ?conf = "''Transfer to '' @ sig_target_agent signal @ '' initiated.''"
  let ?ls = "ls\<lparr>ls_context := ctx_make_mut (rewrite_first_message ?conf ?rej) (ls_context ls)\<rparr>"
  let ?w1 = "sync_loop_context_snapshot ?ls w"
  let ?w2 = "snd (emit (TransferRejected (agent_name_or_default cfg) (sig_target_agent signal) (rejection_reason_of err)) ?w1)"
  have i: "ctx_inv (ls_context ?ls)" by simp
  have a: "answered_history (context_of ?ls)"
    using assms answered_shape[OF rewrite_shape] by (simp add: tidy_def ctx_make_mut_def)
  have "good ?w1 ?w2" by (rule good_emit) simp
  then have g2: "good w ?w2" by (rule quiet_sends_trans[OF sync_quiet(2)])
  obtain d w3 where f: "flush_state_delta ?w2 = (d, w3)" by fastforce
  have g3: "good w w3" using g2 flush_good[OF f] by (rule sends_trans)
  obtain snap ls3 where b: "build_snapshot (am_stop_reason m) d ?ls = (snap, ls3)" by fastforce
  let ?e = "TurnEnd m (rewrite_first_result ?conf ?rej trs) (turn_end_of si) snap"
  have s: "shows_history ?e" "paired_history (context_of ls3)" using snapshot_shows[OF i b answered_paired[OF a] a] .
  have tidy3: "tidy ls3" using snapshot_exact[OF i b] a assms by (simp add: tidy_def)
  obtain ok w4 where e: "emit ?e w3 = (ok, w4)" by fastforce
  have g4: "good w w4" using g3 sends_emit[of shows_history, OF s(1) e] by (rule sends_trans)
  have "reject_transfer cfg signal err m trs si ps ls w = (if \<not> ok then (Return, ls3, w4) else case ps of
      Some _ \<Rightarrow> emit_agent_end ls3 w4 | None \<Rightarrow> (ContinueInner, ls3, w4))"
    using f b e by (cases ps) (simp_all add: reject_transfer_def Let_def)
  then show ?thesis using leaves_return[OF g4] leaves_after[OF g4 leaves_agent_end[OF s(2)]] g4 tidy3
    by (auto simp: leaves_def split: option.splits)
qed

lemma complete_transfer_leaves:
  assumes "tidy ls"
  shows "leaves w (complete_transfer signal chain m trs ls w)"
proof -
  let ?sig = "signal\<lparr>sig_conversation_history := llm_of (context_of ls), sig_transfer_chain := Some chain\<rparr>"
  let ?ls = "ls\<lparr>ls_transfer_chain := chain\<rparr>"
  have i: "ctx_inv (ls_context ?ls)" and a: "answered_history (context_of ?ls)" using assms by (simp_all add: tidy_def)
  have g1: "good w (snd (emit (TransferInitiated ?sig) w))" using a by (intro good_emit) (simp add: answered_llm_of)
  obtain d w2 where f: "flush_state_delta (snd (emit (TransferInitiated ?sig) w)) = (d, w2)" by fastforce
  have g2: "good w w2" using g1 flush_good[OF f] by (rule sends_trans)
  obtain snap ls2 where b: "build_snapshot SrTransfer d ?ls = (snap, ls2)" by fastforce
  have s: "shows_history (TurnEnd m trs TeTransfer snap)" "paired_history (context_of ls2)"
    using snapshot_shows[OF i b answered_paired[OF a] a] .
  have "complete_transfer signal chain m trs ls w = emit_turn_end_and_agent_end m trs TeTransfer snap ls2 w2"
    using f b by (simp add: complete_transfer_def Let_def)
  then show ?thesis using leaves_after[OF g2 leaves_turn_end[OF s(2,1)]] by simp
qed

text \<open>A batch whose results are about to be committed behind their message.\<close>

definition batch_over :: "usize \<Rightarrow> assistant_message \<Rightarrow> tool_result_message list \<Rightarrow> loop_state \<Rightarrow> bool" where
  "batch_over i m trs ls =
     (holds_at i m ls \<and> answered_history (context_of ls @ map (\<lambda>r. Llm (ToolResult r)) trs) \<and> list_all plain (ls_pending ls))"

lemma batch_over_commit:
  assumes "batch_over i m trs ls"
  shows "holds_at i m ((push_results trs ls)\<lparr>ls_last_tool_results := trs\<rparr>)"
    "tidy ((push_results trs ls)\<lparr>ls_last_tool_results := trs\<rparr>)"
  using assms by (auto simp: batch_over_def holds_at_def tidy_def push_results_context nth_append)

lemma finish_tool_turn_leaves:
  assumes "plain_surroundings cfg" "batch_over i m trs ls"
  shows "leaves w (finish_tool_turn cfg sys m i trs si tr ds ls w)"
proof -
  let ?ls = "(push_results trs ls)\<lparr>ls_last_tool_results := trs\<rparr>"
  note h = batch_over_commit[OF assms(2)]
  obtain m1 ps ls1 w1 where c: "run_post_turn_policy_check cfg sys m trs ?ls w = (m1, ps, ls1, w1)" by (metis prod_cases4)
  note r = recommit[OF assms(1) h(1) c]
  let ?ls2 = "set_context i (assistant m1) ls1"
  let ?w2 = "sync_loop_context_snapshot ?ls2 w1"
  have a2: "answered_history (context_of ?ls2)" using h(2) answered_shape[OF r(1)] by (simp add: tidy_def)
  have "list_all plain (ls_pending ?ls)" using h(2) by (simp add: tidy_def)
  with a2 r(2) policy_check_keeps(3)[OF assms(1) c] have tidy2: "tidy ?ls2" by (simp add: tidy_def)
  have g2: "good w ?w2" using quiet_trans[OF policy_check_quiet[OF c] sync_quiet(2)] by (rule good_quiet)
  show ?thesis
  proof (cases tr)
    case (Some signal)
    then have "finish_tool_turn cfg sys m i trs si tr ds ls w = (case chain_push (sig_target_agent signal) (ls_transfer_chain ?ls2) of
        Inl err \<Rightarrow> reject_transfer cfg signal err m1 trs si ps ?ls2 ?w2
      | Inr chain \<Rightarrow> complete_transfer signal chain m1 trs ?ls2 ?w2)"
      using c by (simp add: finish_tool_turn_def Let_def)
    then show ?thesis using leaves_after[OF g2] reject_transfer_leaves[OF tidy2] complete_transfer_leaves[OF tidy2]
      by (simp split: sum.splits)
  next
    case None
    obtain d w3 where f: "flush_state_delta ?w2 = (d, w3)" by fastforce
    have g3: "good w w3" using g2 flush_good[OF f] by (rule sends_trans)
    obtain snap ls3 where b: "build_snapshot (am_stop_reason m1) d ?ls2 = (snap, ls3)" by fastforce
    let ?e = "TurnEnd m1 trs (turn_end_of si) snap"
    have s: "shows_history ?e" "paired_history (context_of ls3)" using snapshot_shows[OF r(2) b answered_paired[OF a2] a2] .
    have tidy3: "tidy ls3" using snapshot_exact[OF r(2) b] tidy2 by (simp add: tidy_def)
    obtain ok w4 where e: "emit ?e w3 = (ok, w4)" by fastforce
    have g4: "good w w4" using g3 sends_emit[of shows_history, OF s(1) e] by (rule sends_trans)
    obtain ls5 w5 where p: "(if si then (ls3, w4) else poll_steering cfg ls3 w4) = (ls5, w5)" by fastforce
    have "quiet w4 w5" "tidy ls5" using p tidy3 poll_steering_quiet[of cfg ls3 w4] poll_steering_tidy[OF assms(1) tidy3]
      by (auto split: if_splits)
    with g4 have go: "leaves w (ContinueInner, ls5, w5)" by (auto simp: leaves_def intro: sends_quiet_trans)
    have "finish_tool_turn cfg sys m i trs si tr ds ls w = (if \<not> ok then (Return, ls3, w4)
        else if ds \<noteq> None \<or> ps \<noteq> None then emit_agent_end ls3 w4 else (ContinueInner, ls5, w5))"
      using None c f b e p by (simp add: finish_tool_turn_def Let_def)
    then show ?thesis using go leaves_return[OF g4] leaves_after[OF g4 leaves_agent_end[OF s(2)]] by auto
  qed
qed

lemma abort_tool_turn_leaves:
  assumes "plain_surroundings cfg" "batch_over i m trs ls"
  shows "leaves w (abort_tool_turn cfg sys m i trs ls w)"
proof -
  let ?ls = "(push_results trs ls)\<lparr>ls_last_tool_results := trs\<rparr>"
  let ?m = "mark_assistant_message_aborted (now_timestamp cfg w) m"
  note h = batch_over_commit[OF assms(2)]
  have h1: "holds_at i ?m ?ls" using h(1) by (simp add: holds_at_def shape_assistant)
  obtain m1 ps ls1 w1 where c: "run_post_turn_policy_check cfg sys ?m trs ?ls w = (m1, ps, ls1, w1)" by (metis prod_cases4)
  note r = recommit[OF assms(1) h1 c]
  have a2: "answered_history (context_of (set_context i (assistant m1) ls1))"
    using h(2) answered_shape[OF r(1)] by (simp add: tidy_def)
  obtain d w2 where f: "flush_state_delta w1 = (d, w2)" by fastforce
  have g2: "good w w2" using policy_check_quiet[OF c] flush_good[OF f] by (rule quiet_sends_trans)
  obtain snap ls2 where b: "build_snapshot SrAborted d (set_context i (assistant m1) ls1) = (snap, ls2)" by fastforce
  have s: "shows_history (TurnEnd m1 trs TeCancelled snap)" "paired_history (context_of ls2)"
    using snapshot_shows[OF r(2) b answered_paired[OF a2] a2] .
  have "abort_tool_turn cfg sys m i trs ls w = emit_turn_end_and_agent_end m1 trs TeCancelled snap ls2 w2"
    using c f b by (simp add: abort_tool_turn_def Let_def)
  then show ?thesis using leaves_after[OF g2 leaves_turn_end[OF s(2,1)]] by simp
qed

text \<open>The results of a batch, incomplete calls included, answer exactly the calls of the message.\<close>

lemma recovered_ids:
  assumes "recover_incomplete_tool_calls now calls stop = (calls', mtr)"
  shows "set (ids_of mtr) \<union> set (map tci_id calls') = set (map tci_id calls)"
  using assms by (auto simp: recover_incomplete_tool_calls_def result_message_def image_image image_iff split: if_splits) blast+

fun outcome_results :: "tool_exec_outcome \<Rightarrow> tool_result_message list" where
  "outcome_results (ExCompleted rs _ _) = rs"
| "outcome_results (ExStopped rs _ _) = rs"
| "outcome_results (ExAborted rs _) = rs"
| "outcome_results (ExSteeringInterrupt completed cancelled _ _) = completed @ cancelled"
| "outcome_results ExChannelClosed = []"

lemma answers_ids: "answers calls out \<Longrightarrow> out \<noteq> ExChannelClosed \<Longrightarrow> set (ids_of (outcome_results out)) = set (map tci_id calls)"
proof (cases out)
  case (ExSteeringInterrupt completed cancelled st inj')
  assume "answers calls out"
  with ExSteeringInterrupt have "set (ids_of completed) = {i \<in> set (map tci_id calls). i \<in> set (ids_of completed)}"
    "set (ids_of cancelled) = {i \<in> set (map tci_id calls). i \<notin> set (ids_of completed)}"
    by (metis answers.simps(4) set_filter)+
  with ExSteeringInterrupt show ?thesis by auto
qed auto

lemma batch_over_intro:
  assumes "tidy ls" "set (ids_of mtr) \<union> set (ids_of trs) = set (call_ids_of (assistant m))" "set (ids_of mtr) \<subseteq> set (ids_of trs)"
    "list_all plain injected"
  shows "batch_over (length (context_of ls)) m trs (extend_pending injected (push_results mtr (push_context (assistant m) ls)))"
proof -
  have "answered_history (context_of ls @ assistant m # map (\<lambda>r. Llm (ToolResult r)) (mtr @ trs))"
    using assms(1-3) by (intro answered_tool_turn) (auto simp: tidy_def assistant_shape(1))
  with assms(1,4) show ?thesis
    by (simp add: batch_over_def holds_at_def tidy_def push_results_context nth_append)
qed

lemma tool_calls_leaves:
  assumes "plain_surroundings cfg" "tidy ls" "map tci_id calls = call_ids_of (assistant m)"
  shows "leaves w (handle_tool_calls cfg sys m calls ls w)"
proof -
  obtain calls' mtr where r: "recover_incomplete_tool_calls (now_timestamp cfg w) calls (am_stop_reason m) = (calls', mtr)" by fastforce
  let ?i = "length (context_of ls)"
  let ?pushed = "push_results mtr (push_context (assistant m) (accumulate_turn_state m ls))"
  have tidy1: "tidy (accumulate_turn_state m ls)" using assms(2) by (simp add: tidy_def)
  have ids: "set (ids_of mtr) \<union> set (map tci_id calls') = set (call_ids_of (assistant m))"
    using recovered_ids[OF r] assms(3) by simp
  have over: "batch_over ?i m (mtr @ rs) (extend_pending injected ?pushed)"
    if "set (ids_of rs) = set (map tci_id calls')" "list_all plain injected" for rs injected
    using batch_over_intro[OF tidy1, of mtr "mtr @ rs" m injected] ids that by auto
  show ?thesis
  proof (cases "calls' = []")
    case True
    with over[of "[]" "[]"] have "batch_over ?i m mtr ?pushed" by (simp add: extend_pending_def)
    with True r show ?thesis
      by (simp add: handle_tool_calls_def Let_def finish_tool_turn_leaves[OF assms(1)])
  next
    case False
    obtain out w1 where x: "execute_tools_concurrently cfg calls' w = (out, w1)" by fastforce
    have "shows_history e" if "is_gate_event e" for e using that by (cases e) auto
    moreover have "shows_history e" if "exec_event A e" for A e using that by (cases e) (auto simp: exec_event_def)
    ultimately have g1: "good w w1" by (rule execute_sends[OF x])
    have ans: "out \<noteq> ExChannelClosed \<Longrightarrow> set (ids_of (outcome_results out)) = set (map tci_id calls')"
      using answers_ids execute_spec[OF x] by blast
    note pl = execute_plain[OF assms(1) x]
    have q: "good w (sync_pending_message_snapshot ls1 w1)" for ls1 using g1 sync_quiet(1) by (rule sends_quiet_trans)
    note fin = leaves_after[OF q finish_tool_turn_leaves[OF assms(1)]]
    note ab = leaves_after[OF q abort_tool_turn_leaves[OF assms(1)]]
    show ?thesis
    proof (cases out)
      case (ExCompleted rs sig inj')
      with ans pl over[of rs inj'] False r x fin show ?thesis by (simp add: handle_tool_calls_def inject_pending_def Let_def)
    next
      case (ExStopped rs reason inj')
      with ans pl over[of rs inj'] False r x fin show ?thesis by (simp add: handle_tool_calls_def inject_pending_def Let_def)
    next
      case (ExAborted rs inj')
      with ans pl over[of rs inj'] False r x ab show ?thesis by (simp add: handle_tool_calls_def inject_pending_def Let_def)
    next
      case (ExSteeringInterrupt completed cancelled st inj')
      with ans pl over[of "completed @ cancelled" "inj' @ st"] False r x fin show ?thesis
        by (simp add: handle_tool_calls_def inject_pending_def Let_def)
    next
      case ExChannelClosed
      with False r x leaves_return[OF g1] show ?thesis by (simp add: handle_tool_calls_def Let_def)
    qed
  qed
qed

section \<open>The whole turn and the whole run\<close>

lemma assistant_message_leaves:
  assumes "plain_surroundings cfg" "tidy ls"
  shows "leaves w (handle_assistant_message cfg sys m ls w)"
proof -
  let ?m = "price_assistant_message_with cfg m"
  let ?s = "fst (sanitize_incomplete_tool_calls ?m)"
  have ids: "map tci_id (extract_tool_calls ?m) = call_ids_of (assistant ?s)"
    using extracted_ids[of ?m] sanitize_shape[of ?m] by (simp add: shape_def)
  obtain out ls' w' where e: "handle_error_stop cfg sys ?m ls w = (out, ls', w')" by (metis prod_cases3)
  have "leaves w (handle_error_stop cfg sys ?m ls w)" using error_stop_good[OF assms e] e by (simp add: leaves_def)
  moreover have "extract_tool_calls ?m = [] \<Longrightarrow> leaves w (handle_no_tool_calls cfg sys ?s ls w)"
    using ids by (intro no_tool_calls_leaves[OF assms]) simp
  ultimately show ?thesis using tool_calls_leaves[OF assms ids]
    by (auto simp: handle_assistant_message_def Let_def)
qed

lemma settle_call_leaves:
  assumes "plain_surroundings cfg" "case r of Failed out \<Rightarrow> out = Return | Recovered _ \<Rightarrow> tidy ls"
  shows "leaves w (settle_call cfg sys r ls w)"
proof (cases r)
  case (Failed out)
  with assms(2) show ?thesis by (simp add: settle_call_def leaves_return)
next
  case (Recovered res)
  with assms(2) have t: "tidy ls" by simp
  obtain mo ls1 w1 where h: "handle_stream_result cfg sys res ls w = (mo, ls1, w1)" by (metis prod_cases3)
  with stream_result_good[OF assms(1) t h] Recovered show ?thesis
    using assistant_message_leaves[OF assms(1) t] leaves_return by (cases mo) (auto simp: settle_call_def)
qed

lemma call_leaves:
  assumes "plain_surroundings cfg" "tidy ls" "call_and_handle cfg sys dyn msgs key ls w = Some r"
  shows "leaves w r"
proof -
  let ?tools = "capability_filter_tools (cfg_model cfg) (cfg_tools cfg)"
  obtain res w1 where s: "stream_with_retry cfg ?tools msgs sys key True w = Some (res, w1)"
    using assms(3) by (auto simp: call_and_handle_def Let_def split: option.splits)
  have g1: "good w w1" using stream_good[OF s] .
  obtain r2 ls2 w2 where r2: "(if res = ResContextOverflow then attempt_overflow_recovery cfg sys ?tools dyn key ls w1
      else Some (Recovered res, ls, w1)) = Some (r2, ls2, w2)" "r = settle_call cfg sys r2 ls2 w2"
    using assms(3) s by (auto simp: call_and_handle_def Let_def split: option.splits)
  have "good w1 w2 \<and> (case r2 of Failed out \<Rightarrow> out = Return | Recovered _ \<Rightarrow> tidy ls2)"
    using r2(1) assms(2) overflow_recovery_good[OF assms(1,2)] by (auto split: if_splits)
  then show ?thesis using r2(2) settle_call_leaves[OF assms(1)] leaves_after sends_trans[OF g1] by blast
qed

lemma annotate_tidy:
  assumes "tidy ls" "annotate_cache cfg ls w = (ls', w')"
  shows "tidy ls'" "good w w'"
proof -
  have sh: "map shape (map (set_cache_hint h) (take n ms) @ map clear_cache_hint (drop n ms)) = map shape ms"
    "map shape (map clear_cache_hint ms) = map shape ms" for h n ms
    using map_append[of shape "take n ms" "drop n ms"] by (simp_all add: comp_def)
  have t: "tidy (ls\<lparr>ls_context := ctx_make_mut f (ls_context ls)\<rparr>)" if "map shape (f (context_of ls)) = map shape (context_of ls)" for f
    using assms(1) answered_shape[OF that] by (simp add: tidy_def ctx_make_mut_def[of f])
      (simp add: ctx_inv_def)
  have q: "good w (sync_loop_context_snapshot ls1 (w\<lparr>w_cache := c\<rparr>))" for ls1 c
    by (rule good_quiet[OF quiet_trans[OF quiet_simps(7) sync_quiet(2)]])
  have e: "good w (snd (emit (CacheAction h n) (sync_loop_context_snapshot ls1 (w\<lparr>w_cache := c\<rparr>))))" for h n ls1 c
    by (rule sends_trans[OF q good_emit]) simp
  show "tidy ls'" "good w w'"
    using assms(2) assms(1) q e by (auto simp: annotate_cache_def Let_def split: option.splits prod.splits if_splits intro!: t sh)
qed

lemma llm_messages_answered:
  assumes "plain_surroundings cfg" "tidy ls" "build_dynamic_system_prompt_message cfg w = (dyn, w')"
  shows "answered_history (map Llm (build_llm_messages cfg (context_of ls) dyn))"
proof -
  let ?ms = "map Llm (List.map_filter (cfg_convert_to_llm cfg) (context_of ls))"
  have a: "answered_history ?ms" using assms(1,2) answered_convert by (auto simp: plain_surroundings_def tidy_def)
  have "answered_history (Llm (User u) # ?ms)" for u
    using a by (simp add: answered_history_def call_ids_of_def)
  with a assms(3) show ?thesis
    by (auto simp: build_llm_messages_def build_dynamic_system_prompt_message_def Let_def split: option.splits if_splits)
qed

lemma start_turn_leaves:
  assumes "plain_surroundings cfg" "tidy ls" "start_turn cfg sys ls w = Some r"
  shows "leaves w r"
proof -
  obtain ok1 w1 where e1: "emit TurnStart w = (ok1, w1)" by fastforce
  have g1: "good w w1" using sends_emit[OF _ e1, of shows_history] by simp
  obtain ls2 w2 where a: "annotate_cache cfg ls w1 = (ls2, w2)" by fastforce
  note t2 = annotate_tidy[OF assms(2) a]
  obtain dyn w3 where d: "build_dynamic_system_prompt_message cfg w2 = (dyn, w3)" by fastforce
  obtain key w4 where k: "resolve_api_key cfg w3 = (key, w4)" by fastforce
  have "quiet w2 w3" using d by (auto simp: build_dynamic_system_prompt_message_def Let_def split: option.splits if_splits)
  moreover have "quiet w3 w4" using k by (auto simp: resolve_api_key_def split: option.splits)
  ultimately have g4: "good w w4" using sends_trans[OF g1 t2(2)] by (blast intro: sends_quiet_trans)
  let ?e = "BeforeLlmCall sys (build_llm_messages cfg (context_of ls2) dyn) (cfg_model cfg)"
  obtain ok5 w5 where e5: "emit ?e w4 = (ok5, w5)" by fastforce
  have "shows_history ?e" using llm_messages_answered[OF assms(1) t2(1) d] by simp
  from sends_trans[OF g4 sends_emit[of shows_history, OF this e5]] have g5: "good w w5" .
  show ?thesis
    using assms(3) e1 a d k e5 leaves_return[OF g1] leaves_return[OF g5] leaves_after[OF g5 call_leaves[OF assms(1) t2(1)]]
    by (auto simp: start_turn_def Let_def split: if_splits)
qed

lemma run_single_turn_leaves:
  assumes "plain_surroundings cfg" "tidy ls" "run_single_turn cfg sys ls w = Some r"
  shows "leaves w r"
proof -
  obtain fresh ls1 w1 where t: "take_pending cfg ls w = (fresh, ls1, w1)" by (metis prod_cases3)
  obtain k w2 where k: "is_cancelled cfg w1 = (k, w2)" by fastforce
  have tidy1: "tidy ls1"
    using t assms(2) by (auto simp: take_pending_def Let_def tidy_def ctx_extend_def ctx_inv_append answered_append_plain)
  have "quiet w w1" using t by (auto simp: take_pending_def Let_def intro: quiet_trans[OF quiet_simps(3)])
  moreover have "quiet w1 w2" using k by (auto simp: is_cancelled_def)
  moreover have "quiet w2 (publish_prefix cfg ls1 w2)"
    by (auto simp: publish_prefix_def split: option.splits context_transformer.splits)
  ultimately have q: "quiet w w2" "quiet w (publish_prefix cfg ls1 w2)" using quiet_trans by blast+
  obtain b c w3 where x: "run_context_transformers cfg (ls_context ls1) (ls_overflow_signal ls1) (publish_prefix cfg ls1 w2) = (b, c, w3)"
    by (metis prod_cases3)
  have i: "ctx_inv (ls_context ls1)" "answered_history (context_of ls1)" using tidy1 by (simp_all add: tidy_def)
  note g3 = transformers_good[OF assms(1) i x]
  let ?ls = "ls1\<lparr>ls_context := c, ls_overflow_signal := False\<rparr>"
  have tidy3: "tidy ?ls" using g3 tidy1 by (simp add: tidy_def)
  have g4: "good w (tock w3)" using sends_quiet_trans[OF quiet_sends_trans[OF q(2) g3(1)] quiet_simps(2)] .
  show ?thesis
  proof (cases k)
    case True
    obtain out ls' w' where h: "handle_cancellation cfg ls1 w2 = (out, ls', w')" by (metis prod_cases3)
    from cancellation_good[OF i h[unfolded handle_cancellation_def]] True assms(3) t k h quiet_sends_trans[OF q(1)] show ?thesis
      by (auto simp: run_single_turn_def leaves_def)
  next
    case False
    show ?thesis
    proof (cases "run_policies (cfg_pre_turn_policies cfg) (w_tick w3) (policy_context_of fresh ?ls w3)")
      case (Stop reason)
      have "leaves (tock w3) (emit_agent_end ?ls (tock w3))" using g3(2) by (intro leaves_agent_end answered_paired) simp
      with Stop False assms(3) t k x leaves_after[OF g4] show ?thesis by (simp add: run_single_turn_def Let_def)
    next
      case Continue
      with assms(3) t k x False have "start_turn cfg sys ?ls (tock w3) = Some r" by (simp add: run_single_turn_def Let_def)
      from leaves_after[OF g4 start_turn_leaves[OF assms(1) tidy3 this]] show ?thesis .
    next
      case (Inject msgs)
      let ?ls2 = "?ls\<lparr>ls_context := ctx_extend msgs (ls_context ?ls)\<rparr>"
      let ?w4 = "sync_loop_context_snapshot ?ls2 (tock w3)"
      have "list_all plain msgs" using run_slot_injects[OF _ _ Inject[unfolded run_policies_def], of plain] assms(1)
        by (simp add: plain_surroundings_def)
      then have tidy4: "tidy ?ls2" using tidy3 by (simp add: tidy_def ctx_extend_def ctx_inv_append answered_append_plain)
      have g5: "good w ?w4" using g4 sync_quiet(2) by (rule sends_quiet_trans)
      from Inject assms(3) t k x False have "start_turn cfg sys ?ls2 ?w4 = Some r" by (simp add: run_single_turn_def Let_def)
      from leaves_after[OF g5 start_turn_leaves[OF assms(1) tidy4 this]] show ?thesis .
    qed
  qed
qed

lemma continue_with_tidy: "tidy ls \<Longrightarrow> list_all plain ms \<Longrightarrow> continue_with ms ls w = (ls', w') \<Longrightarrow> tidy ls' \<and> quiet w w'"
  by (auto simp: continue_with_def Let_def tidy_def)

lemma after_inner_good:
  assumes "plain_surroundings cfg" "tidy ls"
  shows "case after_inner cfg ls w of Inl w' \<Rightarrow> good w w' | Inr (ls', w') \<Rightarrow> good w w' \<and> tidy ls'"
proof -
  have "shows_history (AgentEnd (context_of ls))" using assms(2) by (simp add: tidy_def answered_paired)
  then have stop: "quiet w v \<Longrightarrow> good w (snd (emit (AgentEnd (context_of ls)) v))" for v
    by (blast intro: quiet_sends_trans good_emit)
  have go: "good w w'" "tidy ls'" if "quiet w v" "list_all plain ms" "continue_with ms ls v = (ls', w')" for v ms ls' w'
    using continue_with_tidy[OF assms(2) that(2,3)] that(1) by (auto intro: good_quiet quiet_trans)
  have inject: "list_all plain ms" if "run_post_loop_policies (cfg_post_loop_policies cfg) now c = Inject ms" for now c ms
    using run_slot_injects[OF _ _ that[unfolded run_post_loop_policies_def], of plain] assms(1) by (simp add: plain_surroundings_def)
  have poll: "list_all plain ms" "quiet w v" if "poll_follow_up cfg (tock w) = (ms, v)" for ms v
    using that provider_plain(2)[OF assms(1)]
    by (auto simp: poll_follow_up_def split: option.splits intro: quiet_trans[OF quiet_simps(2) quiet_simps(2)])
  note go1 = go[OF quiet_simps(2) inject]
  note go2 = go[OF poll(2) poll(1)]
  show ?thesis
    by (auto simp: after_inner_def Let_def stop split: policy_verdict.splits prod.splits if_splits intro: go1 go2 stop poll(2))
qed

lemma loop_step_good:
  assumes "plain_surroundings cfg" "tidy ls" "loop_step cfg sys ls w = Some r"
  shows "case r of Inl w' \<Rightarrow> good w w' | Inr (ls', w') \<Rightarrow> good w w' \<and> tidy ls'"
proof -
  obtain out ls1 w1 where s: "run_single_turn cfg sys ls w = Some (out, ls1, w1)"
    using assms(3) by (auto simp: loop_step_def split: option.splits)
  from run_single_turn_leaves[OF assms(1,2) s] have g: "good w w1" "out \<noteq> Return \<longrightarrow> tidy (next_turn ls1)"
    by (simp_all add: leaves_def tidy_def next_turn_def)
  then show ?thesis using assms(3) s after_inner_good[OF assms(1), of "next_turn ls1" w1]
    by (cases out) (auto simp: loop_step_def split: sum.splits intro: sends_trans)
qed

lemma agent_turns_good:
  "agent_turns cfg sys ls w = Some w' \<Longrightarrow> plain_surroundings cfg \<and> tidy ls \<longrightarrow> good w w'"
proof (rule agent_turns.raw_induct[where P = "\<lambda>cfg sys ls w w'. plain_surroundings cfg \<and> tidy ls \<longrightarrow> good w w'"])
  fix turns :: "agent_loop_config \<Rightarrow> string \<Rightarrow> loop_state \<Rightarrow> world \<Rightarrow> world option"
  fix cfg sys ls w w'
  assume ih: "\<And>cfg sys ls w w'. turns cfg sys ls w = Some w' \<Longrightarrow> plain_surroundings cfg \<and> tidy ls \<longrightarrow> good w w'"
    and run: "(case loop_step cfg sys ls w of None \<Rightarrow> None
        | Some r \<Rightarrow> (case r of Inl w \<Rightarrow> Some w | Inr (ls, w) \<Rightarrow> turns cfg sys ls w)) = Some w'"
  show "plain_surroundings cfg \<and> tidy ls \<longrightarrow> good w w'"
  proof
    assume ok: "plain_surroundings cfg \<and> tidy ls"
    from run obtain r where r: "loop_step cfg sys ls w = Some r" by (auto split: option.splits)
    with loop_step_good[OF _ _ r] ok run ih show "good w w'"
      by (cases r) (auto intro: sends_trans)
  qed
qed

lemma run_shows_histories:
  assumes "plain_surroundings cfg" "answered_history messages" "run_loop_inner cfg messages n sys w = Some w'"
  shows "\<exists>es. w_sent w' = w_sent w @ es \<and> list_all shows_history es"
proof -
  obtain ok w1 where e: "emit AgentStart w = (ok, w1)" by fastforce
  have g: "good w w1" using sends_emit[OF _ e, of shows_history] by simp
  have "tidy (initial_state cfg messages n)" using assms(2) by (simp add: tidy_def initial_state_def) (simp add: ctx_new_def)
  with assms(1,3) e g agent_turns_good[of cfg sys "initial_state cfg messages n" w1 w'] have "good w w'"
    by (auto simp: run_loop_inner_def split: if_splits intro: sends_trans)
  then show ?thesis by (simp add: sends_def)
qed



end
