(* ===== verification/Run_Liveness.thy ===== *)
theory Run_Liveness
  imports Turn_History
begin

text \<open>
  Cancellation is honoured: a run whose token is cancelled some day ends, whatever the retry
  strategy, the provider, the tools and the policies do until then.

  The token is a function of the loop's ticks, and every check of it takes one. Between two
  checks the loop cannot go round: each iteration of the retry loop and each turn begins with one.
\<close>

section \<open>A token that is cancelled\<close>

locale eventually_cancelled =
  fixes cfg :: agent_loop_config and deadline :: tick
  assumes cancelled: "deadline \<le> t \<Longrightarrow> cfg_cancelled cfg t"
begin

lemma retry_loop_returns: "\<exists>p. retry_loop cfg call a msgs w = Some p"
proof (induction "deadline - w_tick w" arbitrary: a msgs w rule: less_induct)
  case less
  show ?case
  proof (cases "retry_step cfg call (a + 1) msgs w")
    case (Inl p)
    then show ?thesis by (simp add: retry_loop.simps)
  next
    case (Inr q)
    obtain msgs' w1 where q: "q = (msgs', w1)" by fastforce
    have "\<not> cfg_cancelled cfg (w_tick w)" using Inr by (auto simp: retry_step_def is_cancelled_def)
    then have "w_tick w < deadline" using cancelled[of "w_tick w"] by (meson not_le)
    moreover have "w_tick w < w_tick w1" using retry_step_advances Inr q by blast
    ultimately have "deadline - w_tick w1 < deadline - w_tick w" by arith
    from less.hyps[OF this, of "a + 1" msgs'] Inr q show ?thesis by (simp add: retry_loop.simps)
  qed
qed

lemma fallbacks_return: "\<exists>p. try_fallbacks cfg call msgs fbs lr w = Some p"
proof (induction fbs arbitrary: lr w)
  case (Cons fb rest)
  obtain fm fs where fb: "fb = (fm, fs)" by fastforce
  obtain ok w1 where e: "emit (ModelFallback (cfg_model cfg) fm) w = (ok, w1)" by fastforce
  let ?call = "call\<lparr>call_model := fm, call_stream_fn := fs, call_emit_message_start := False, call_defer_fatal := rest \<noteq> []\<rparr>"
  obtain r w2 where "stream_with_retry_single cfg ?call msgs w1 = Some (r, w2)"
    using retry_loop_returns by (fastforce simp: stream_with_retry_single_def)
  with fb e Cons.IH[of r w2] show ?case by (simp del: split_paired_Ex)
qed (simp del: split_paired_Ex)

end

sublocale eventually_cancelled \<subseteq> responsive_stream cfg
proof
  fix w :: world and tools msgs sys key start
  let ?call = "\<lparr>call_model = cfg_model cfg, call_stream_fn = cfg_stream_fn cfg, call_tools = tools,
                  call_system_prompt = sys, call_api_key = key,
                  call_emit_message_start = start, call_defer_fatal = fallback_models cfg \<noteq> []\<rparr>"
  obtain r w1 where s: "stream_with_retry_single cfg ?call msgs w = Some (r, w1)"
    using retry_loop_returns[of ?call 0 msgs w] by (auto simp: stream_with_retry_single_def)
  obtain p where "try_fallbacks cfg ?call msgs (fallback_models cfg) r w1 = Some p" using fallbacks_return by blast
  with s show "\<exists>r w'. stream_with_retry cfg tools msgs sys key start w = Some (r, w')"
    by (cases p) (auto simp: stream_with_retry_def)
qed

section \<open>Ticks of a turn\<close>

lemma turn_advances:
  assumes "w_rx_limit w = None" "run_single_turn cfg sys ls w = Some (out, ls', w')"
  shows "w_tick w < w_tick w'"
  using run_single_turn_ticks[OF assms] by (simp add: goes_def tock_def)

lemma after_inner_ticks: "after_inner cfg ls w = Inr (ls', w') \<Longrightarrow> w_tick w \<le> w_tick w'"
  by (auto simp: after_inner_def poll_follow_up_def continue_with_def Let_def tock_def replace_pending_messages_def
      split: policy_verdict.splits prod.splits if_splits option.splits)

lemma loop_step_advances:
  assumes "w_rx_limit w = None" "loop_step cfg sys ls w = Some (Inr (ls', w'))"
  shows "w_tick w < w_tick w'"
proof -
  obtain out ls1 w1 where s: "run_single_turn cfg sys ls w = Some (out, ls1, w1)"
    using assms(2) by (auto simp: loop_step_def split: option.splits)
  with turn_advances[OF assms(1) s] assms(2) show ?thesis
    by (cases out) (auto simp: loop_step_def dest!: after_inner_ticks)
qed

text \<open>A turn that finds its token cancelled ends the run without calling the model.\<close>

lemma cancelled_turn:
  assumes "w_rx_limit w = None" "cfg_cancelled cfg (w_tick w)"
  shows "\<exists>w'. loop_step cfg sys ls w = Some (Inl w')"
proof -
  obtain fresh ls1 w1 where t: "take_pending cfg ls w = (fresh, ls1, w1)" by (metis prod_cases3)
  then have w1: "w_tick w1 = w_tick w" "w_rx_limit w1 = None" using assms(1)
    by (auto simp: take_pending_def Let_def sync_loop_context_snapshot_def replace_loop_context_def clear_pending_message_snapshot_def)
  obtain out ls2 w2 where h: "emit_cancellation_for_turn cfg True True ls1 (tock w1) = (out, ls2, w2)" by (metis prod_cases3)
  have "out = Return" using cancellation_no_call[OF _ h] w1(2) by (simp add: tock_def)
  with t h w1(1) assms(2) show ?thesis
    by (simp add: loop_step_def run_single_turn_def is_cancelled_def handle_cancellation_def)
qed

context eventually_cancelled
begin

lemma agent_turns_return:
  "w_rx_limit w = None \<Longrightarrow> \<exists>w'. agent_turns cfg sys ls w = Some w'"
proof (induction "deadline - w_tick w" arbitrary: ls w rule: less_induct)
  case less
  obtain r where r: "loop_step cfg sys ls w = Some r" using loop_step_returns[OF less.prems] by blast
  show ?case
  proof (cases r)
    case (Inl w')
    with r show ?thesis by (simp add: agent_turns.simps)
  next
    case (Inr q)
    obtain ls1 w1 where q: "q = (ls1, w1)" by fastforce
    have "w_tick w < deadline"
    proof (rule ccontr)
      assume "\<not> w_tick w < deadline"
      then have "cfg_cancelled cfg (w_tick w)" by (intro cancelled) simp
      from cancelled_turn[OF less.prems this, of sys ls] r Inr show False by simp
    qed
    moreover have "w_tick w < w_tick w1" using loop_step_advances[OF less.prems, of cfg sys ls ls1 w1] r Inr q by simp
    ultimately have "deadline - w_tick w1 < deadline - w_tick w" by arith
    moreover have "w_rx_limit w1 = None" using loop_step_goes[OF less.prems r] Inr q by (auto dest: goes_limit)
    ultimately have "\<exists>w'. agent_turns cfg sys ls1 w1 = Some w'" by (rule less.hyps)
    with r Inr q show ?thesis by (simp add: agent_turns.simps)
  qed
qed

lemma run_returns: "w_rx_limit w = None \<Longrightarrow> \<exists>w'. run_loop_inner cfg messages n sys w = Some w'"
  using agent_turns_return[of "w\<lparr>w_sent := w_sent w @ [AgentStart]\<rparr>"] by (simp add: run_loop_inner_def emit_unlimited)

end

text \<open>The configuration of a run whose token is cancelled at a tick.\<close>

definition cancelled_at :: "tick \<Rightarrow> agent_loop_config \<Rightarrow> agent_loop_config" where
  "cancelled_at deadline cfg = cfg\<lparr>cfg_cancelled := \<lambda>t. deadline \<le> t \<or> cfg_cancelled cfg t\<rparr>"

interpretation cancelled_run: eventually_cancelled "cancelled_at deadline cfg" deadline for deadline cfg
  by unfold_locales (simp add: cancelled_at_def)

text \<open>
  C4. Cancellation is honoured. Whatever the provider, the retry strategy (even one that retries
  for ever), the tools, the policies and the message sources do, a run whose token is cancelled
  at some moment ends, and its last event is \<open>AgentEnd\<close>.
\<close>

theorem cancelled_run_ends:
  assumes "w_rx_limit w = None"
  shows "\<exists>w' ms. run_loop_inner (cancelled_at deadline cfg) messages n sys w = Some w' \<and> last (w_sent w') = AgentEnd ms"
proof -
  obtain w' where run: "run_loop_inner (cancelled_at deadline cfg) messages n sys w = Some w'"
    using cancelled_run.run_returns[OF assms] by blast
  with run_ends_with[OF assms run] show ?thesis by blast
qed

text \<open>A provider that always fails, a strategy that always retries, a token cancelled at tick 40.\<close>

theorem cancelled_run_ends_witness:
  "\<exists>w' ms. run_loop_inner (cancelled_at 40 ((example_cfg (\<lambda>_ _ _ _. []) (\<lambda>_. False))
        \<lparr>cfg_retry_strategy := \<lparr>retry_should = \<lambda>_ _ _. True, retry_delay_of = \<lambda>_ _. 0\<rparr>\<rparr>))
      [user_text ''hello''] 1 [] example_world = Some w' \<and> last (w_sent w') = AgentEnd ms"
  by (rule cancelled_run_ends) (simp add: example_world_def)

end
