(* ===== verification/Turn_Effects.thy ===== *)
theory Turn_Effects
  imports Turn_History
begin

text \<open>
  Two effects of a tool turn on the history: what becomes of calls cut off by the token limit, and
  which result a rejected transfer rewrites.
\<close>

section \<open>Calls cut off by the token limit\<close>

lemma no_policies_check [simp]:
  "cfg_post_turn_policies cfg = [] \<Longrightarrow> run_post_turn_policy_check cfg sys m trs ls w = (m, None, ls, w)"
  by (simp add: run_post_turn_policy_check_def)

lemma flush_limit: "w_rx_limit w = None \<Longrightarrow> flush_state_delta w = (d, w') \<Longrightarrow> w_rx_limit w' = None"
  using flush_goes goes_limit by blast

lemma sync_limit [simp]: "w_rx_limit (sync_loop_context_snapshot ls w) = w_rx_limit w"
  by (simp add: sync_loop_context_snapshot_def replace_loop_context_def)

lemma snapshot_context [simp]: "build_snapshot stop d ls = (snap, ls') \<Longrightarrow> context_of ls' = context_of ls"
  by (auto simp: build_snapshot_def ctx_snapshot_llm_def Let_def)

lemma poll_context: "poll_steering cfg ls w = (ls', w') \<Longrightarrow> context_of ls' = context_of ls"
  by (auto simp: poll_steering_def Let_def split: option.splits if_splits)

text \<open>Without a transfer, a stop or post-turn policies the results are committed and the run goes on.\<close>

lemma plain_tool_turn:
  assumes "w_rx_limit w = None" "cfg_post_turn_policies cfg = []" "i < length (context_of ls)" "context_of ls ! i = assistant m"
    "finish_tool_turn cfg sys m i trs False None None ls w = (out, ls', w')"
  shows "out = ContinueInner" "context_of ls' = context_of ls @ map (\<lambda>r. Llm (ToolResult r)) trs"
proof -
  let ?ls = "set_context i (assistant m) ((push_results trs ls)\<lparr>ls_last_tool_results := trs\<rparr>)"
  have c: "context_of ?ls = context_of ls @ map (\<lambda>r. Llm (ToolResult r)) trs"
    using assms(3,4) by (simp add: push_results_context list_update_append) (metis list_update_id)
  obtain d w1 where f: "flush_state_delta (sync_loop_context_snapshot ?ls w) = (d, w1)" by fastforce
  have lim: "w_rx_limit w1 = None" using flush_limit[OF _ f] assms(1) by simp
  obtain snap ls2 where b: "build_snapshot (am_stop_reason m) d ?ls = (snap, ls2)" by fastforce
  let ?w2 = "snd (emit (TurnEnd m trs (turn_end_of False) snap) w1)"
  obtain ls3 w3 where p: "poll_steering cfg ls2 ?w2 = (ls3, w3)" by fastforce
  have "(out, ls', w') = (ContinueInner, ls3, w3)"
    using assms(2,5) f b p lim by (simp add: finish_tool_turn_def Let_def emit_unlimited)
  then show "out = ContinueInner" "context_of ls' = context_of ls @ map (\<lambda>r. Llm (ToolResult r)) trs"
    using c poll_context[OF p] snapshot_context[OF b] by simp_all
qed

text \<open>
  C24. Calls cut off by the token limit are answered twice. When every call of an answer that
  stopped at the token limit is incomplete, the history after the turn holds the error result of
  each call two times in a row, so the next request carries two results for one call id.
\<close>

theorem incomplete_calls_answered_twice:
  assumes "w_rx_limit w = None" "cfg_post_turn_policies cfg = []"
    "am_stop_reason m = SrLength" "list_all tci_is_incomplete calls"
    "handle_tool_calls cfg sys m calls ls w = (out, ls', w')"
  shows "\<exists>rs. ids_of rs = map tci_id calls
    \<and> context_of ls' = context_of ls @ assistant m # map (\<lambda>r. Llm (ToolResult r)) (rs @ rs)"
proof -
  obtain mtr where r: "recover_incomplete_tool_calls (now_timestamp cfg w) calls (am_stop_reason m) = ([], mtr)"
    and ids: "ids_of mtr = map tci_id calls"
    using assms(3,4) by (auto simp: recover_incomplete_tool_calls_def result_message_def list_all_iff filter_id_conv comp_def)
  let ?ls = "push_results mtr (push_context (assistant m) (accumulate_turn_state m ls))"
  have run: "finish_tool_turn cfg sys m (length (context_of ls)) mtr False None None ?ls w = (out, ls', w')"
    using assms(5) r by (simp add: handle_tool_calls_def Let_def)
  have "length (context_of ls) < length (context_of ?ls)" "context_of ?ls ! length (context_of ls) = assistant m"
    by (simp_all add: push_results_context nth_append)
  from plain_tool_turn(2)[OF assms(1,2) this run] ids show ?thesis
    by (intro exI[of _ mtr]) (simp add: push_results_context)
qed

definition cut_off_call :: assistant_message where
  "cut_off_call = \<lparr>am_content = [ToolCall ''1'' ''bash'' (JObject []) None], am_provider = [], am_model_id = [], am_usage = usage_default,
     am_cost = cost_default, am_stop_reason = SrLength, am_error_message = None, am_error_kind = None, am_timestamp = 0,
     am_cache_hint = None\<rparr>"

theorem incomplete_calls_answered_twice_witness:
  "\<exists>ls' w' r. handle_tool_calls (example_cfg (\<lambda>_ _ _ _. []) (\<lambda>_. False)) [] cut_off_call
      [\<lparr>tci_id = ''1'', tci_name = ''bash'', tci_arguments = JObject [], tci_is_incomplete = True\<rparr>]
      (initial_state example_run_cfg [user_text ''hello''] 1) example_world = (ContinueInner, ls', w')
    \<and> context_of ls' = [user_text ''hello'', assistant cut_off_call, Llm (ToolResult r), Llm (ToolResult r)] \<and> tr_tool_call_id r = ''1''"
proof -
  let ?cfg = "example_cfg (\<lambda>_ _ _ _. []) (\<lambda>_. False)"
  let ?calls = "[\<lparr>tci_id = ''1'', tci_name = ''bash'', tci_arguments = JObject [], tci_is_incomplete = True\<rparr>]"
  let ?ls = "initial_state example_run_cfg [user_text ''hello''] 1"
  have p: "w_rx_limit example_world = None" "cfg_post_turn_policies ?cfg = []" "am_stop_reason cut_off_call = SrLength"
    "list_all tci_is_incomplete ?calls"
    by (simp_all add: example_world_def example_cfg_def cut_off_call_def)
  obtain out ls' w' where run: "handle_tool_calls ?cfg [] cut_off_call ?calls ?ls example_world = (out, ls', w')" by (metis prod_cases3)
  have "out = ContinueInner" using run p
    by (auto simp: handle_tool_calls_def recover_incomplete_tool_calls_def Let_def push_results_context nth_append
        dest!: plain_tool_turn(1)[rotated 4])
  with incomplete_calls_answered_twice [OF p run] run show ?thesis
    by (auto simp: initial_state_def ctx_new_def length_Suc_conv map_eq_Cons_conv)
qed

section \<open>Rejected transfers\<close>

definition confirms :: "string \<Rightarrow> tool_result_message \<Rightarrow> bool" where
  "confirms target tr = (\<not> tr_is_error tr \<and> tr_content tr = [Text (''Transfer to '' @ target @ '' initiated.'')])"

definition rejected :: "transfer_error \<Rightarrow> tool_result_message \<Rightarrow> tool_result_message" where
  "rejected err tr = tr\<lparr>tr_is_error := True, tr_content := [Text (''transfer rejected: '' @ transfer_error_to_string err)]\<rparr>"

lemma rewrite_confirmed:
  "rewrite_tool_result_as_rejected (''Transfer to '' @ target @ '' initiated.'') (''transfer rejected: '' @ transfer_error_to_string err) tr
     = (if confirms target tr then Some (rejected err tr) else None)"
  by (simp add: rewrite_tool_result_as_rejected_def confirms_def rejected_def)

lemma rewrite_skips:
  "list_all (\<lambda>m. case m of Llm (ToolResult tr) \<Rightarrow> \<not> confirms target tr | _ \<Rightarrow> True) before \<Longrightarrow>
   confirms target old \<Longrightarrow>
   rewrite_first_message (''Transfer to '' @ target @ '' initiated.'') (''transfer rejected: '' @ transfer_error_to_string err)
     (before @ Llm (ToolResult old) # after) = before @ Llm (ToolResult (rejected err old)) # after"
  using rewrite_confirmed[of target err]
  by (induction before) (auto split: agent_message.splits llm_message.splits)

text \<open>
  A rejected transfer rewrites the oldest confirmation. When the history already holds a
  confirmed transfer to the same agent, the rejection is written over that old result; the result
  of the rejected call keeps reading as a success in the history the model sees next, while the
  end-of-turn event reports it as an error.
\<close>

theorem rejection_rewrites_oldest:
  assumes "w_rx_limit w = None"
    "context_of ls = before @ Llm (ToolResult old) # mid @ [Llm (ToolResult new)]"
    "list_all (\<lambda>m. case m of Llm (ToolResult tr) \<Rightarrow> \<not> confirms (sig_target_agent signal) tr | _ \<Rightarrow> True) before"
    "confirms (sig_target_agent signal) old" "confirms (sig_target_agent signal) new"
    "reject_transfer cfg signal err m [new] si None ls w = (out, ls', w')"
  shows "context_of ls' = before @ Llm (ToolResult (rejected err old)) # mid @ [Llm (ToolResult new)]
    \<and> (\<exists>reason snap. last (w_sent w') = TurnEnd m [rejected err new] reason snap)"
proof -
  let ?rej = "''transfer rejected: '' @ transfer_error_to_string err"
  let ?conf = "''Transfer to '' @ sig_target_agent signal @ '' initiated.''"
  let ?ls = "ls\<lparr>ls_context := ctx_make_mut (rewrite_first_message ?conf ?rej) (ls_context ls)\<rparr>"
  let ?w1 = "snd (emit (TransferRejected (agent_name_or_default cfg) (sig_target_agent signal) (rejection_reason_of err))
      (sync_loop_context_snapshot ?ls w))"
  have c: "context_of ?ls = before @ Llm (ToolResult (rejected err old)) # mid @ [Llm (ToolResult new)]"
    using rewrite_skips[OF assms(3,4), of err "mid @ [Llm (ToolResult new)]"] assms(2) by (simp add: ctx_make_mut_def)
  have trs: "rewrite_first_result ?conf ?rej [new] = [rejected err new]"
    using assms(5) rewrite_confirmed[of "sig_target_agent signal" err new] by simp
  obtain d w2 where f: "flush_state_delta ?w1 = (d, w2)" by fastforce
  have lim: "w_rx_limit w2 = None" using flush_limit[OF _ f] assms(1) by simp
  obtain snap ls2 where b: "build_snapshot (am_stop_reason m) d ?ls = (snap, ls2)" by fastforce
  have "(out, ls', w') = (ContinueInner, ls2, snd (emit (TurnEnd m [rejected err new] (turn_end_of si) snap) w2))"
    using assms(6) f b lim trs by (simp add: reject_transfer_def Let_def emit_unlimited[of w2])
  then show ?thesis using c snapshot_context[OF b] lim by (simp add: emit_unlimited)
qed

definition confirmation :: "string \<Rightarrow> tool_result_message" where
  "confirmation i = result_message 0 i [Text ''Transfer to b initiated.''] False JNull"

theorem rejection_rewrites_oldest_witness:
  "\<exists>out ls' w'. reject_transfer example_run_cfg (signal_new ''b'' []) (CircularTransfer ''b'' [''a'', ''b'']) cut_off_call
        [confirmation ''2''] False None
        (initial_state example_run_cfg [Llm (ToolResult (confirmation ''1'')), Llm (ToolResult (confirmation ''2''))] 0) example_world
        = (out, ls', w')
      \<and> context_of ls' = [Llm (ToolResult (rejected (CircularTransfer ''b'' [''a'', ''b'']) (confirmation ''1''))),
        Llm (ToolResult (confirmation ''2''))]
      \<and> (\<exists>reason snap. last (w_sent w') = TurnEnd cut_off_call [rejected (CircularTransfer ''b'' [''a'', ''b'']) (confirmation ''2'')] reason snap)"
proof -
  let ?err = "CircularTransfer ''b'' [''a'', ''b'']"
  let ?signal = "signal_new ''b'' []"
  let ?ls = "initial_state example_run_cfg [Llm (ToolResult (confirmation ''1'')), Llm (ToolResult (confirmation ''2''))] 0"
  obtain out ls' w' where run: "reject_transfer example_run_cfg ?signal ?err cut_off_call [confirmation ''2''] False None ?ls example_world
      = (out, ls', w')" by (metis prod_cases3)
  have p: "w_rx_limit example_world = None"
    "context_of ?ls = [] @ Llm (ToolResult (confirmation ''1'')) # [] @ [Llm (ToolResult (confirmation ''2''))]"
    "list_all (\<lambda>m. case m of Llm (ToolResult tr) \<Rightarrow> \<not> confirms (sig_target_agent ?signal) tr | _ \<Rightarrow> True) []"
    "confirms (sig_target_agent ?signal) (confirmation ''1'')" "confirms (sig_target_agent ?signal) (confirmation ''2'')"
    by (simp_all add: example_world_def initial_state_def ctx_new_def confirms_def confirmation_def result_message_def signal_new_def)
  from rejection_rewrites_oldest [OF p run] run show ?thesis by auto
qed

end
