(* ===== verification/Message_Codec.thy ===== *)
theory Message_Codec
  imports Compaction
begin

text \<open>
  Saving and restoring conversations: the envelopes of custom messages
  (\<^verbatim>\<open>types/custom_message.rs\<close>) and the codec of message batches
  (\<^verbatim>\<open>types/message_codec.rs\<close>), which keeps LLM and custom messages apart and records how
  they were interleaved.

  A custom message is known by what its trait methods answer. The deserializers of a registry are
  application code: a registry maps type names to functions from JSON to a message or an error.
\<close>

section \<open>Custom-message envelopes\<close>

type_synonym deserializer = "json \<Rightarrow> (string, custom_message) result"
type_synonym custom_message_registry = "(string, deserializer) hashmap"

definition registry_new :: custom_message_registry where
  "registry_new = []"

definition registry_register :: "string \<Rightarrow> deserializer \<Rightarrow> custom_message_registry \<Rightarrow> custom_message_registry" where
  "registry_register type_name d reg = hm_insert type_name d reg"

definition registry_deserialize :: "custom_message_registry \<Rightarrow> string \<Rightarrow> json \<Rightarrow> (string, custom_message) result" where
  "registry_deserialize reg type_name payload =
     rbind (ok_or (hm_get reg type_name) (''no deserializer registered for custom message type: '' @ type_name))
       (\<lambda>deser. deser payload)"

definition registry_has_type_name :: "custom_message_registry \<Rightarrow> string \<Rightarrow> bool" where
  "registry_has_type_name reg type_name = (hm_get reg type_name \<noteq> None)"

definition serialize_custom_message :: "custom_message \<Rightarrow> json option" where
  "serialize_custom_message msg =
     (case cm_type_name msg of
        None \<Rightarrow> None
      | Some type_name \<Rightarrow>
         (case cm_to_json msg of
            None \<Rightarrow> None
          | Some payload \<Rightarrow> Some (JObject [(''type'', JString type_name), (''data'', payload)])))"

definition deserialize_custom_message :: "custom_message_registry \<Rightarrow> json \<Rightarrow> (string, custom_message) result" where
  "deserialize_custom_message reg envelope =
     rbind (ok_or (json_as_str (json_get envelope ''type'')) ''missing 'type' field in custom message envelope'') (\<lambda>type_name.
     rbind (ok_or (json_get envelope ''data'') ''missing 'data' field in custom message envelope'') (\<lambda>data.
       registry_deserialize reg type_name data))"

section \<open>Batches\<close>

datatype message_slot = LlmSlot usize | CustomSlot usize

record serialized_messages =
  sm_llm_messages :: "llm_message list"
  sm_custom_messages :: "json list"
  sm_message_order :: "message_slot list"

fun serialize_loop :: "agent_message list \<Rightarrow> serialized_messages \<Rightarrow> serialized_messages" where
  "serialize_loop [] s = s"
| "serialize_loop (m # ms) s =
     serialize_loop ms (case m of
        Llm llm \<Rightarrow> s\<lparr>sm_message_order := sm_message_order s @ [LlmSlot (length (sm_llm_messages s))],
                    sm_llm_messages := sm_llm_messages s @ [llm]\<rparr>
      | Custom custom \<Rightarrow>
         (case serialize_custom_message custom of
            Some envelope \<Rightarrow> s\<lparr>sm_message_order := sm_message_order s @ [CustomSlot (length (sm_custom_messages s))],
                              sm_custom_messages := sm_custom_messages s @ [envelope]\<rparr>
          | None \<Rightarrow> s))"

definition serialize_messages :: "agent_message list \<Rightarrow> serialized_messages" where
  "serialize_messages ms = serialize_loop ms \<lparr>sm_llm_messages = [], sm_custom_messages = [], sm_message_order = []\<rparr>"

definition revive :: "custom_message_registry option \<Rightarrow> json \<Rightarrow> agent_message option" where
  "revive registry envelope =
     (case registry of
        None \<Rightarrow> None
      | Some reg \<Rightarrow> (case deserialize_custom_message reg envelope of Inl _ \<Rightarrow> None | Inr custom \<Rightarrow> Some (Custom custom)))"

fun restore_slot :: "llm_message list \<Rightarrow> json list \<Rightarrow> custom_message_registry option \<Rightarrow> message_slot \<Rightarrow> agent_message option" where
  "restore_slot llms customs registry (LlmSlot index) = map_option Llm (slice_get llms index)"
| "restore_slot llms customs registry (CustomSlot index) =
     (case slice_get customs index of None \<Rightarrow> None | Some envelope \<Rightarrow> revive registry envelope)"

definition restore_messages :: "llm_message list \<Rightarrow> json list \<Rightarrow> message_slot list \<Rightarrow> custom_message_registry option
    \<Rightarrow> agent_message list" where
  "restore_messages llms customs order registry =
     (if order \<noteq> [] then List.map_filter (restore_slot llms customs registry) order
      else map Llm llms @ List.map_filter (revive registry) customs)"

definition restore_single_custom :: "custom_message_registry option \<Rightarrow> json \<Rightarrow> (string, custom_message option) result" where
  "restore_single_custom registry envelope =
     (case registry of
        None \<Rightarrow> Inr None
      | Some reg \<Rightarrow> (case deserialize_custom_message reg envelope of Inl e \<Rightarrow> Inl e | Inr c \<Rightarrow> Inr (Some c)))"

section \<open>Snapshots of custom messages\<close>

definition serialized_custom_new :: "string \<Rightarrow> json \<Rightarrow> custom_message" where
  "serialized_custom_new name payload = \<lparr>cm_type_name = Some name, cm_to_json = Some payload, cm_cloneable = True\<rparr>"

definition from_custom :: "custom_message \<Rightarrow> custom_message option" where
  "from_custom msg =
     (case cm_type_name msg of
        None \<Rightarrow> None
      | Some name \<Rightarrow> (case cm_to_json msg of None \<Rightarrow> None | Some payload \<Rightarrow> Some (serialized_custom_new name payload)))"

fun snapshot_message :: "agent_message \<Rightarrow> agent_message option" where
  "snapshot_message (Llm llm) = Some (Llm llm)"
| "snapshot_message (Custom custom) = map_option Custom (from_custom custom)"

definition clone_messages_for_send :: "agent_message list \<Rightarrow> agent_message list" where
  "clone_messages_for_send ms = List.map_filter snapshot_message ms"

fun try_clone :: "agent_message \<Rightarrow> agent_message option" where
  "try_clone (Llm llm) = Some (Llm llm)"
| "try_clone (Custom custom) =
     (case clone_box custom of Some c \<Rightarrow> Some (Custom c) | None \<Rightarrow> map_option Custom (from_custom custom))"

section \<open>The round trip\<close>

lemma envelope_fields:
  assumes "serialize_custom_message c = Some envelope"
  obtains name payload where "cm_type_name c = Some name" "cm_to_json c = Some payload"
    "deserialize_custom_message reg envelope = registry_deserialize reg name payload"
  using assms by (auto simp: serialize_custom_message_def deserialize_custom_message_def split: option.splits)

text \<open>What comes back of one message.\<close>

fun survivor :: "custom_message_registry option \<Rightarrow> agent_message \<Rightarrow> agent_message option" where
  "survivor registry (Llm llm) = Some (Llm llm)"
| "survivor registry (Custom c) =
     (case serialize_custom_message c of None \<Rightarrow> None | Some envelope \<Rightarrow> revive registry envelope)"

lemma serialize_loop_grows:
  "\<exists>ls cs os. sm_llm_messages (serialize_loop ms s) = sm_llm_messages s @ ls
     \<and> sm_custom_messages (serialize_loop ms s) = sm_custom_messages s @ cs
     \<and> sm_message_order (serialize_loop ms s) = sm_message_order s @ os"
proof (induction ms arbitrary: s)
  case (Cons m ms)
  show ?case
  proof (cases m)
    case (Llm llm)
    with Cons.IH[of "s\<lparr>sm_message_order := sm_message_order s @ [LlmSlot (length (sm_llm_messages s))],
        sm_llm_messages := sm_llm_messages s @ [llm]\<rparr>"] show ?thesis by auto
  next
    case (Custom c)
    then show ?thesis
    proof (cases "serialize_custom_message c")
      case None
      with Custom Cons.IH[of s] show ?thesis by auto
    next
      case (Some envelope)
      with Custom Cons.IH[of "s\<lparr>sm_message_order := sm_message_order s @ [CustomSlot (length (sm_custom_messages s))],
          sm_custom_messages := sm_custom_messages s @ [envelope]\<rparr>"] show ?thesis by auto
    qed
  qed
qed simp

definition restored :: "custom_message_registry option \<Rightarrow> serialized_messages \<Rightarrow> message_slot list \<Rightarrow> agent_message list" where
  "restored registry s order = List.map_filter (restore_slot (sm_llm_messages s) (sm_custom_messages s) registry) order"

lemma serialize_loop_restored:
  "\<exists>os. sm_message_order (serialize_loop ms s) = sm_message_order s @ os
     \<and> restored registry (serialize_loop ms s) os = List.map_filter (survivor registry) ms"
proof (induction ms arbitrary: s)
  case Nil
  then show ?case by (simp add: restored_def List.map_filter_simps)
next
  case (Cons m ms)
  show ?case
  proof (cases m)
    case (Llm llm)
    let ?s = "s\<lparr>sm_message_order := sm_message_order s @ [LlmSlot (length (sm_llm_messages s))],
        sm_llm_messages := sm_llm_messages s @ [llm]\<rparr>"
    from Cons.IH[of ?s] obtain os where os: "sm_message_order (serialize_loop ms ?s) = sm_message_order ?s @ os"
      "restored registry (serialize_loop ms ?s) os = List.map_filter (survivor registry) ms" by blast
    have "slice_get (sm_llm_messages (serialize_loop ms ?s)) (length (sm_llm_messages s)) = Some llm"
      using serialize_loop_grows[of ms ?s] by auto
    with os Llm show ?thesis
      by (intro exI[of _ "LlmSlot (length (sm_llm_messages s)) # os"]) (simp add: restored_def List.map_filter_simps slice_get_def)
  next
    case (Custom c)
    show ?thesis
    proof (cases "serialize_custom_message c")
      case None
      with Custom Cons.IH[of s] show ?thesis by (simp add: List.map_filter_simps)
    next
      case (Some envelope)
      let ?s = "s\<lparr>sm_message_order := sm_message_order s @ [CustomSlot (length (sm_custom_messages s))],
          sm_custom_messages := sm_custom_messages s @ [envelope]\<rparr>"
      from Cons.IH[of ?s] obtain os where os: "sm_message_order (serialize_loop ms ?s) = sm_message_order ?s @ os"
        "restored registry (serialize_loop ms ?s) os = List.map_filter (survivor registry) ms" by blast
      have "slice_get (sm_custom_messages (serialize_loop ms ?s)) (length (sm_custom_messages s)) = Some envelope"
        using serialize_loop_grows[of ms ?s] by auto
      with os Custom Some show ?thesis
        by (intro exI[of _ "CustomSlot (length (sm_custom_messages s)) # os"])
          (auto simp: restored_def List.map_filter_simps slice_get_def split: option.splits)
    qed
  qed
qed

lemma no_slots:
  "sm_message_order (serialize_loop ms s) = [] \<Longrightarrow>
     sm_llm_messages (serialize_loop ms s) = sm_llm_messages s \<and> sm_custom_messages (serialize_loop ms s) = sm_custom_messages s"
proof (induction ms arbitrary: s)
  case (Cons m ms)
  then show ?case
    using serialize_loop_grows[of ms "case m of
        Llm llm \<Rightarrow> s\<lparr>sm_message_order := sm_message_order s @ [LlmSlot (length (sm_llm_messages s))],
                    sm_llm_messages := sm_llm_messages s @ [llm]\<rparr>
      | Custom custom \<Rightarrow>
         (case serialize_custom_message custom of
            Some envelope \<Rightarrow> s\<lparr>sm_message_order := sm_message_order s @ [CustomSlot (length (sm_custom_messages s))],
                              sm_custom_messages := sm_custom_messages s @ [envelope]\<rparr>
          | None \<Rightarrow> s)"]
    by (auto split: agent_message.splits option.splits)
qed simp

abbreviation restore_serialized :: "serialized_messages \<Rightarrow> custom_message_registry option \<Rightarrow> agent_message list" where
  "restore_serialized s \<equiv> restore_messages (sm_llm_messages s) (sm_custom_messages s) (sm_message_order s)"

lemma restore_serialize:
  "restore_serialized (serialize_messages ms) registry = List.map_filter (survivor registry) ms"
proof -
  let ?s = "\<lparr>sm_llm_messages = [], sm_custom_messages = [], sm_message_order = []\<rparr>"
  obtain os where os: "sm_message_order (serialize_loop ms ?s) = os"
    "restored registry (serialize_loop ms ?s) os = List.map_filter (survivor registry) ms"
    using serialize_loop_restored[of ms ?s registry] by auto
  show ?thesis
  proof (cases "os = []")
    case True
    with os no_slots[of ms ?s] show ?thesis
      by (simp add: serialize_messages_def restore_messages_def restored_def List.map_filter_simps)
  next
    case False
    with os show ?thesis by (simp add: serialize_messages_def restore_messages_def restored_def)
  qed
qed

text \<open>A registry that rebuilds the messages of a conversation, and the messages it cannot lose.\<close>

definition storable :: "agent_message \<Rightarrow> bool" where
  "storable m = (case m of Llm _ \<Rightarrow> True | Custom c \<Rightarrow> cm_type_name c \<noteq> None \<and> cm_to_json c \<noteq> None)"

definition rebuilds :: "custom_message_registry \<Rightarrow> custom_message \<Rightarrow> bool" where
  "rebuilds reg c = (\<forall>name payload. cm_type_name c = Some name \<longrightarrow> cm_to_json c = Some payload
     \<longrightarrow> registry_deserialize reg name payload = Inr c)"

lemma survivor_storable:
  assumes "\<And>c. m = Custom c \<Longrightarrow> rebuilds reg c"
  shows "survivor (Some reg) m = (if storable m then Some m else None)"
proof (cases m)
  case (Custom c)
  show ?thesis
  proof (cases "serialize_custom_message c")
    case None
    with Custom show ?thesis by (auto simp: storable_def serialize_custom_message_def split: option.splits)
  next
    case (Some envelope)
    from envelope_fields[OF Some] obtain name payload where f: "cm_type_name c = Some name" "cm_to_json c = Some payload"
      "deserialize_custom_message reg envelope = registry_deserialize reg name payload" .
    with assms[OF Custom] Custom Some show ?thesis by (simp add: storable_def rebuilds_def revive_def)
  qed
qed (simp add: storable_def)

lemma map_filter_filter: "(\<And>x. x \<in> set xs \<Longrightarrow> f x = (if P x then Some x else None)) \<Longrightarrow> List.map_filter f xs = filter P xs"
  by (induction xs) (auto simp: List.map_filter_simps)

lemma codec_restores:
  assumes "\<forall>c. Custom c \<in> set ms \<longrightarrow> rebuilds reg c"
  shows "restore_serialized (serialize_messages ms) (Some reg) = filter storable ms"
  unfolding restore_serialize using assms by (intro map_filter_filter survivor_storable) auto

lemma codec_llm_only: "restore_serialized (serialize_messages ms) None = map Llm (llm_of ms)"
proof -
  have "List.map_filter (survivor None) ms = map Llm (llm_of ms)"
  proof (induction ms)
    case (Cons m ms)
    then show ?case by (cases m) (auto simp: List.map_filter_simps revive_def split: option.splits)
  qed (simp add: List.map_filter_simps)
  then show ?thesis by (simp add: restore_serialize)
qed

text \<open>
  C23. The codec's round trip. Splitting a conversation into LLM messages, custom envelopes and
  slots and restoring it gives back the conversation in its order: every LLM message, and every
  custom message that has a type name and a payload when the registry can rebuild it; without a
  registry, exactly the LLM messages.
\<close>

theorem codec_roundtrip:
  assumes "\<forall>c. Custom c \<in> set ms \<longrightarrow> rebuilds reg c"
  shows "restore_serialized (serialize_messages ms) (Some reg) = filter storable ms
    \<and> restore_serialized (serialize_messages ms) None = map Llm (llm_of ms)"
  using codec_restores[OF assms] codec_llm_only by blast

definition tagged :: custom_message where
  "tagged = \<lparr>cm_type_name = Some ''Tagged'', cm_to_json = Some (JString ''v''), cm_cloneable = True\<rparr>"

definition tagged_registry :: custom_message_registry where
  "tagged_registry = registry_register ''Tagged'' (\<lambda>v. Inr \<lparr>cm_type_name = Some ''Tagged'', cm_to_json = Some v, cm_cloneable = True\<rparr>) registry_new"

theorem codec_roundtrip_witness:
  "restore_serialized (serialize_messages [user_text ''a'', Custom tagged, user_text ''b'']) (Some tagged_registry)
     = [user_text ''a'', Custom tagged, user_text ''b'']"
proof -
  have "\<forall>c. Custom c \<in> set [user_text ''a'', Custom tagged, user_text ''b''] \<longrightarrow> rebuilds tagged_registry c"
    by (auto simp: user_text_def rebuilds_def tagged_def tagged_registry_def registry_register_def registry_new_def registry_deserialize_def)
  from codec_roundtrip [OF this] show ?thesis by (simp add: storable_def user_text_def tagged_def)
qed

section \<open>Snapshots keep what can be stored\<close>

lemma snapshot_survives: "snapshot_message m = Some m' \<Longrightarrow> serialize_messages [m'] = serialize_messages [m]"
  by (cases m) (auto simp: from_custom_def serialized_custom_new_def serialize_messages_def serialize_custom_message_def split: option.splits)

lemma snapshot_llm [simp]: "llm_of (clone_messages_for_send ms) = llm_of ms"
proof (induction ms)
  case (Cons m ms)
  then show ?case by (cases m) (auto simp: clone_messages_for_send_def List.map_filter_simps split: option.splits)
qed (simp add: clone_messages_for_send_def List.map_filter_simps)

end
