(* ===== verification/Checkpoint.thy ===== *)
theory Checkpoint
  imports Message_Codec Session_State
begin

text \<open>
  Snapshots of a conversation (\<^verbatim>\<open>checkpoint.rs\<close>): \<open>checkpoint\<close> for storage and
  \<open>loop_checkpoint\<close> for pausing a running loop. Both keep their messages in the split form of
  the codec. The creation time is an argument.
\<close>

section \<open>Checkpoint\<close>

record checkpoint =
  cp_id :: string
  cp_system_prompt :: string
  cp_provider :: string
  cp_model_id :: string
  cp_messages :: "llm_message list"
  cp_custom_messages :: "json list"
  cp_message_order :: "message_slot list"
  cp_turn_count :: usize
  cp_usage :: usage
  cp_cost :: cost
  cp_created_at :: u64
  cp_metadata :: "(string, json) hashmap"
  cp_state :: "json option"

definition checkpoint_new :: "u64 \<Rightarrow> string \<Rightarrow> string \<Rightarrow> string \<Rightarrow> string \<Rightarrow> agent_message list \<Rightarrow> checkpoint" where
  "checkpoint_new now ident system_prompt provider model_id messages =
     (let serialized = serialize_messages messages in
      \<lparr>cp_id = ident, cp_system_prompt = system_prompt, cp_provider = provider, cp_model_id = model_id,
       cp_messages = sm_llm_messages serialized, cp_custom_messages = sm_custom_messages serialized,
       cp_message_order = sm_message_order serialized, cp_turn_count = 0, cp_usage = usage_default,
       cp_cost = cost_default, cp_created_at = now, cp_metadata = [], cp_state = None\<rparr>)"

definition with_state :: "json \<Rightarrow> checkpoint \<Rightarrow> checkpoint" where
  "with_state state c = c\<lparr>cp_state := Some state\<rparr>"

definition with_turn_count :: "usize \<Rightarrow> checkpoint \<Rightarrow> checkpoint" where
  "with_turn_count n c = c\<lparr>cp_turn_count := n\<rparr>"

definition with_usage :: "usage \<Rightarrow> checkpoint \<Rightarrow> checkpoint" where
  "with_usage u c = c\<lparr>cp_usage := u\<rparr>"

definition with_cost :: "cost \<Rightarrow> checkpoint \<Rightarrow> checkpoint" where
  "with_cost k c = c\<lparr>cp_cost := k\<rparr>"

definition with_metadata :: "string \<Rightarrow> json \<Rightarrow> checkpoint \<Rightarrow> checkpoint" where
  "with_metadata key v c = c\<lparr>cp_metadata := hm_insert key v (cp_metadata c)\<rparr>"

definition checkpoint_messages :: "custom_message_registry option \<Rightarrow> checkpoint \<Rightarrow> agent_message list" where
  "checkpoint_messages registry c = restore_messages (cp_messages c) (cp_custom_messages c) (cp_message_order c) registry"

section \<open>Loop checkpoint\<close>

record loop_checkpoint =
  lc_messages :: "llm_message list"
  lc_custom_messages :: "json list"
  lc_message_order :: "message_slot list"
  lc_pending_messages :: "llm_message list"
  lc_pending_custom_messages :: "json list"
  lc_pending_message_order :: "message_slot list"
  lc_steering_messages :: "llm_message list"
  lc_steering_custom_messages :: "json list"
  lc_steering_message_order :: "message_slot list"
  lc_system_prompt :: string
  lc_provider :: string
  lc_model_id :: string
  lc_created_at :: u64
  lc_metadata :: "(string, json) hashmap"
  lc_state :: "json option"

definition loop_checkpoint_new :: "u64 \<Rightarrow> string \<Rightarrow> string \<Rightarrow> string \<Rightarrow> agent_message list \<Rightarrow> loop_checkpoint" where
  "loop_checkpoint_new now system_prompt provider model_id messages =
     (let serialized = serialize_messages messages in
      \<lparr>lc_messages = sm_llm_messages serialized, lc_custom_messages = sm_custom_messages serialized,
       lc_message_order = sm_message_order serialized,
       lc_pending_messages = [], lc_pending_custom_messages = [], lc_pending_message_order = [],
       lc_steering_messages = [], lc_steering_custom_messages = [], lc_steering_message_order = [],
       lc_system_prompt = system_prompt, lc_provider = provider, lc_model_id = model_id,
       lc_created_at = now, lc_metadata = [], lc_state = None\<rparr>)"

definition lc_with_state :: "json \<Rightarrow> loop_checkpoint \<Rightarrow> loop_checkpoint" where
  "lc_with_state state c = c\<lparr>lc_state := Some state\<rparr>"

definition with_pending_messages :: "llm_message list \<Rightarrow> loop_checkpoint \<Rightarrow> loop_checkpoint" where
  "with_pending_messages pending c =
     c\<lparr>lc_pending_messages := pending, lc_pending_custom_messages := [], lc_pending_message_order := []\<rparr>"

definition with_pending_steering_messages :: "llm_message list \<Rightarrow> loop_checkpoint \<Rightarrow> loop_checkpoint" where
  "with_pending_steering_messages pending c =
     c\<lparr>lc_steering_messages := pending, lc_steering_custom_messages := [], lc_steering_message_order := []\<rparr>"

definition with_pending_message_batch :: "agent_message list \<Rightarrow> loop_checkpoint \<Rightarrow> loop_checkpoint" where
  "with_pending_message_batch pending c =
     (let serialized = serialize_messages pending in
      c\<lparr>lc_pending_messages := sm_llm_messages serialized, lc_pending_custom_messages := sm_custom_messages serialized,
        lc_pending_message_order := sm_message_order serialized\<rparr>)"

definition with_pending_steering_message_batch :: "agent_message list \<Rightarrow> loop_checkpoint \<Rightarrow> loop_checkpoint" where
  "with_pending_steering_message_batch pending c =
     (let serialized = serialize_messages pending in
      c\<lparr>lc_steering_messages := sm_llm_messages serialized, lc_steering_custom_messages := sm_custom_messages serialized,
        lc_steering_message_order := sm_message_order serialized\<rparr>)"

definition lc_with_metadata :: "string \<Rightarrow> json \<Rightarrow> loop_checkpoint \<Rightarrow> loop_checkpoint" where
  "lc_with_metadata key v c = c\<lparr>lc_metadata := hm_insert key v (lc_metadata c)\<rparr>"

definition restore_loop_messages :: "custom_message_registry option \<Rightarrow> loop_checkpoint \<Rightarrow> agent_message list" where
  "restore_loop_messages registry c = restore_messages (lc_messages c) (lc_custom_messages c) (lc_message_order c) registry"

definition restore_pending_messages :: "custom_message_registry option \<Rightarrow> loop_checkpoint \<Rightarrow> agent_message list" where
  "restore_pending_messages registry c =
     restore_messages (lc_pending_messages c) (lc_pending_custom_messages c) (lc_pending_message_order c) registry"

definition restore_pending_steering_messages :: "custom_message_registry option \<Rightarrow> loop_checkpoint \<Rightarrow> agent_message list" where
  "restore_pending_steering_messages registry c =
     restore_messages (lc_steering_messages c) (lc_steering_custom_messages c) (lc_steering_message_order c) registry"

definition to_checkpoint :: "string \<Rightarrow> loop_checkpoint \<Rightarrow> checkpoint" where
  "to_checkpoint ident c =
     \<lparr>cp_id = ident, cp_system_prompt = lc_system_prompt c, cp_provider = lc_provider c, cp_model_id = lc_model_id c,
      cp_messages = lc_messages c, cp_custom_messages = lc_custom_messages c, cp_message_order = lc_message_order c,
      cp_turn_count = 0, cp_usage = usage_default, cp_cost = cost_default, cp_created_at = lc_created_at c,
      cp_metadata = lc_metadata c, cp_state = lc_state c\<rparr>"

section \<open>What a checkpoint gives back\<close>

text \<open>What restoring the serialized form of a batch gives under a registry.\<close>

definition kept :: "custom_message_registry option \<Rightarrow> agent_message list \<Rightarrow> agent_message list" where
  "kept registry ms = List.map_filter (survivor registry) ms"

lemma kept_append [simp]: "kept r (xs @ ys) = kept r xs @ kept r ys"
  by (simp add: kept_def List.map_filter_def)

lemma kept_storable:
  assumes "\<forall>c. Custom c \<in> set ms \<longrightarrow> rebuilds reg c"
  shows "kept (Some reg) ms = filter storable ms"
  using codec_restores[OF assms] by (simp add: restore_serialize kept_def)

lemma kept_none: "kept None ms = map Llm (llm_of ms)"
  using codec_llm_only[of ms] by (simp add: restore_serialize kept_def)

lemma checkpoint_new_messages [simp]:
  "checkpoint_messages registry (checkpoint_new now ident sys p m ms) = kept registry ms"
  by (simp add: checkpoint_messages_def checkpoint_new_def restore_serialize kept_def Let_def)

lemma restore_nothing [simp]: "restore_messages [] [] [] registry = []"
  by (simp add: restore_messages_def List.map_filter_simps)

lemma loop_checkpoint_messages [simp]:
  "restore_loop_messages registry (loop_checkpoint_new now sys p m ms) = kept registry ms"
  "restore_pending_messages registry (loop_checkpoint_new now sys p m ms) = []"
  "restore_pending_steering_messages registry (loop_checkpoint_new now sys p m ms) = []"
  by (simp_all add: restore_loop_messages_def restore_pending_messages_def restore_pending_steering_messages_def
      loop_checkpoint_new_def restore_serialize kept_def Let_def)

lemma batches_independent [simp]:
  "restore_loop_messages registry (with_pending_message_batch ms c) = restore_loop_messages registry c"
  "restore_loop_messages registry (with_pending_steering_message_batch ms c) = restore_loop_messages registry c"
  "restore_pending_messages registry (with_pending_message_batch ms c) = kept registry ms"
  "restore_pending_messages registry (with_pending_steering_message_batch ms c) = restore_pending_messages registry c"
  "restore_pending_steering_messages registry (with_pending_message_batch ms c) = restore_pending_steering_messages registry c"
  "restore_pending_steering_messages registry (with_pending_steering_message_batch ms c) = kept registry ms"
  by (simp_all add: restore_loop_messages_def restore_pending_messages_def restore_pending_steering_messages_def
      with_pending_message_batch_def with_pending_steering_message_batch_def restore_serialize kept_def Let_def)

lemma lc_with_state_simps [simp]:
  "restore_loop_messages registry (c\<lparr>lc_state := s\<rparr>) = restore_loop_messages registry c"
  "restore_pending_messages registry (c\<lparr>lc_state := s\<rparr>) = restore_pending_messages registry c"
  "restore_pending_steering_messages registry (c\<lparr>lc_state := s\<rparr>) = restore_pending_steering_messages registry c"
  by (simp_all add: restore_loop_messages_def restore_pending_messages_def restore_pending_steering_messages_def)

text \<open>
  Turning a loop checkpoint into a stored one keeps the conversation; the queued messages have no
  place there.
\<close>

lemma to_checkpoint_messages [simp]: "checkpoint_messages registry (to_checkpoint ident c) = restore_loop_messages registry c"
  by (simp add: checkpoint_messages_def to_checkpoint_def restore_loop_messages_def)

end
