(* ===== verification/Agent_State.thy ===== *)
theory Agent_State
  imports Agent_Loop Checkpoint
begin

text \<open>
  The stateful wrapper over the loop (\<^verbatim>\<open>agent.rs\<close> and \<^verbatim>\<open>agent/*.rs\<close>): the
  observable state, the steering and follow-up queues, listeners, settings, the life cycle of a
  run and its checkpoints.

  Values shared between the agent and its loop task (queues, snapshots, session, activity flag,
  generation counter, cancellation tokens) are fields of the record, since every operation on
  them is atomic. A cancellation token is the number of tokens created before it, and
  \<open>ag_cancelled\<close> holds the tokens that were cancelled. \<open>ag_wakeups\<close> counts the calls of
  \<^verbatim>\<open>notify_waiters\<close>. The settings that an agent only passes on to the loop are kept as a
  loop configuration. A listener is known by the events it panics on.
\<close>

section \<open>State\<close>

datatype steering_mode = SteerAll | SteerOneAtATime
datatype follow_up_mode = FollowAll | FollowOneAtATime

type_synonym listener = "agent_event \<Rightarrow> bool"
type_synonym subscription_id = u64

record agent =
  ag_system_prompt :: string
  ag_model :: model_spec
  ag_tools :: "agent_tool list"
  ag_messages :: "agent_message list"
  ag_is_running :: bool
  ag_stream_message :: "agent_message option"
  ag_pending_tool_calls :: "string set"
  ag_error :: "string option"
  ag_available_models :: "model_spec list"
  ag_steering_queue :: "agent_message list"
  ag_follow_up_queue :: "agent_message list"
  ag_listeners :: "(subscription_id, listener) hashmap"
  ag_abort_controller :: "nat option"
  ag_steering_mode :: steering_mode
  ag_follow_up_mode :: follow_up_mode
  ag_stream_fn :: stream_fn
  ag_structured_output_max_retries :: usize
  ag_wakeups :: nat
  ag_pending_snapshot :: "agent_message list"
  ag_loop_context :: "agent_message list option"
  ag_model_stream_fns :: "(model_spec \<times> stream_fn) list"
  ag_event_forwarders :: "listener list"
  ag_registry :: "custom_message_registry option"
  ag_external_provider :: "message_provider option"
  ag_plan_mode_addendum :: "string option"
  ag_session :: session_state
  ag_loop_active :: bool
  ag_loop_generation :: u64
  ag_settings :: agent_loop_config
  ag_published_prefix :: usize
  ag_tokens :: nat
  ag_cancelled :: "nat set"

definition default_convert :: "agent_message \<Rightarrow> llm_message option" where
  "default_convert m = (case m of Llm llm \<Rightarrow> Some llm | Custom _ \<Rightarrow> None)"

section \<open>Queues\<close>

definition steer :: "agent_message \<Rightarrow> agent \<Rightarrow> agent" where
  "steer m a = a\<lparr>ag_steering_queue := ag_steering_queue a @ [m]\<rparr>"

definition follow_up :: "agent_message \<Rightarrow> agent \<Rightarrow> agent" where
  "follow_up m a = a\<lparr>ag_follow_up_queue := ag_follow_up_queue a @ [m]\<rparr>"

definition clear_steering :: "agent \<Rightarrow> agent" where
  "clear_steering a = a\<lparr>ag_steering_queue := []\<rparr>"

definition clear_follow_up :: "agent \<Rightarrow> agent" where
  "clear_follow_up a = a\<lparr>ag_follow_up_queue := []\<rparr>"

definition clear_queues :: "agent \<Rightarrow> agent" where
  "clear_queues a = clear_follow_up (clear_steering a)"

definition has_pending_messages :: "agent \<Rightarrow> bool" where
  "has_pending_messages a = (ag_steering_queue a \<noteq> [] \<or> ag_follow_up_queue a \<noteq> [])"

text \<open>What is drained, and what stays.\<close>

definition drain_queue :: "agent_message list \<Rightarrow> bool \<Rightarrow> agent_message list \<times> agent_message list" where
  "drain_queue queue one_at_a_time =
     (if queue = [] then ([], []) else if one_at_a_time then ([hd queue], tl queue) else (queue, []))"

definition append_pending :: "agent_message list \<Rightarrow> agent \<Rightarrow> agent" where
  "append_pending ms a = a\<lparr>ag_pending_snapshot := ag_pending_snapshot a @ clone_messages ms\<rparr>"

definition queue_poll_steering :: "agent \<Rightarrow> agent_message list \<times> agent" where
  "queue_poll_steering a =
     (case drain_queue (ag_steering_queue a) (ag_steering_mode a = SteerOneAtATime) of
        (drained, queue) \<Rightarrow> (drained, append_pending drained (a\<lparr>ag_steering_queue := queue\<rparr>)))"

definition queue_poll_follow_up :: "agent \<Rightarrow> agent_message list \<times> agent" where
  "queue_poll_follow_up a =
     (case drain_queue (ag_follow_up_queue a) (ag_follow_up_mode a = FollowOneAtATime) of
        (drained, queue) \<Rightarrow> (drained, append_pending drained (a\<lparr>ag_follow_up_queue := queue\<rparr>)))"

definition queue_has_steering :: "agent \<Rightarrow> bool" where
  "queue_has_steering a = (ag_steering_queue a \<noteq> [])"

definition composed_provider :: "message_provider \<Rightarrow> message_provider \<Rightarrow> message_provider" where
  "composed_provider primary secondary =
     \<lparr>mp_poll_steering = \<lambda>now. mp_poll_steering primary now @ mp_poll_steering secondary now,
      mp_poll_follow_up = \<lambda>now. mp_poll_follow_up primary now @ mp_poll_follow_up secondary now,
      mp_has_steering = \<lambda>now. mp_has_steering primary now \<or> mp_has_steering secondary now\<rparr>"

section \<open>Listeners and forwarders\<close>

text \<open>Subscription ids come from a counter of the process, handed in and returned.\<close>

definition subscribe :: "u64 \<Rightarrow> listener \<Rightarrow> agent \<Rightarrow> subscription_id \<times> u64 \<times> agent" where
  "subscribe counter callback a = (counter, counter + 1, a\<lparr>ag_listeners := hm_insert counter callback (ag_listeners a)\<rparr>)"

definition unsubscribe :: "subscription_id \<Rightarrow> agent \<Rightarrow> bool \<times> agent" where
  "unsubscribe sid a = (hm_get (ag_listeners a) sid \<noteq> None, a\<lparr>ag_listeners := hm_remove sid (ag_listeners a)\<rparr>)"

definition listeners_dispatch :: "agent_event \<Rightarrow> (subscription_id, listener) hashmap \<Rightarrow> (subscription_id, listener) hashmap" where
  "listeners_dispatch e ls = fold hm_remove (map fst (filter (\<lambda>(_, panics). panics e) ls)) ls"

definition agent_dispatch :: "agent_event \<Rightarrow> agent \<Rightarrow> agent" where
  "agent_dispatch e a =
     a\<lparr>ag_listeners := listeners_dispatch e (ag_listeners a),
       ag_event_forwarders := filter (\<lambda>panics. \<not> panics e) (ag_event_forwarders a)\<rparr>"

definition add_event_forwarder :: "listener \<Rightarrow> agent \<Rightarrow> agent" where
  "add_event_forwarder f a = a\<lparr>ag_event_forwarders := ag_event_forwarders a @ [f]\<rparr>"

definition forward_event :: "agent_event \<Rightarrow> agent \<Rightarrow> agent" where
  "forward_event e a = agent_dispatch e a"

definition agent_emit :: "string \<Rightarrow> json \<Rightarrow> agent \<Rightarrow> agent" where
  "agent_emit name payload a = agent_dispatch (CustomEvent name payload) a"

section \<open>Settings\<close>

definition set_system_prompt :: "string \<Rightarrow> agent \<Rightarrow> agent" where
  "set_system_prompt prompt a = a\<lparr>ag_system_prompt := prompt\<rparr>"

definition set_model :: "model_spec \<Rightarrow> agent \<Rightarrow> agent" where
  "set_model model a =
     (let old = ag_model a;
          a = (case find (\<lambda>(m, _). m = model) (ag_model_stream_fns a) of
                 Some (_, f) \<Rightarrow> a\<lparr>ag_stream_fn := f\<rparr> | None \<Rightarrow> a);
          a = a\<lparr>ag_model := model\<rparr>
      in if old \<noteq> model then agent_dispatch (ModelCycled old model ''set_model'') a else a)"

definition set_model_with_stream :: "model_spec \<Rightarrow> stream_fn \<Rightarrow> agent \<Rightarrow> agent" where
  "set_model_with_stream model f a =
     (let old = ag_model a; a = a\<lparr>ag_model := model, ag_stream_fn := f\<rparr>
      in if old \<noteq> model then agent_dispatch (ModelCycled old model ''set_model_with_stream'') a else a)"

definition set_thinking_level :: "thinking_level \<Rightarrow> agent \<Rightarrow> agent" where
  "set_thinking_level level a = a\<lparr>ag_model := (ag_model a)\<lparr>ms_thinking_level := level\<rparr>\<rparr>"

fun duplicate_names :: "string list \<Rightarrow> string list \<Rightarrow> string list" where
  "duplicate_names seen [] = []"
| "duplicate_names seen (n # ns) = (if n \<in> set seen then n # duplicate_names seen ns else duplicate_names (n # seen) ns)"

text \<open>A panic is the left value, with its message.\<close>

definition assert_unique_tool_names :: "agent_tool list \<Rightarrow> (string, unit) result" where
  "assert_unique_tool_names tools =
     (let duplicates = duplicate_names [] (map at_name tools)
      in if duplicates = [] then Inr ()
         else Inl (''duplicate tool names are not allowed after composition: ''
                   @ join_with '', '' (remdups_adj (str_sort duplicates))))"

definition set_tools :: "agent_tool list \<Rightarrow> agent \<Rightarrow> (string, agent) result" where
  "set_tools tools a = rbind (assert_unique_tool_names tools) (\<lambda>_. Inr (a\<lparr>ag_tools := tools\<rparr>))"

definition add_tool :: "agent_tool \<Rightarrow> agent \<Rightarrow> agent" where
  "add_tool tool a = a\<lparr>ag_tools := filter (\<lambda>t. at_name t \<noteq> at_name tool) (ag_tools a) @ [tool]\<rparr>"

definition remove_tool :: "string \<Rightarrow> agent \<Rightarrow> bool \<times> agent" where
  "remove_tool name a =
     (let tools = filter (\<lambda>t. at_name t \<noteq> name) (ag_tools a)
      in (length tools < length (ag_tools a), a\<lparr>ag_tools := tools\<rparr>))"

definition find_tool :: "string \<Rightarrow> agent \<Rightarrow> agent_tool option" where
  "find_tool name a = find (\<lambda>t. at_name t = name) (ag_tools a)"

definition set_approval_mode :: "approval_mode \<Rightarrow> agent \<Rightarrow> agent" where
  "set_approval_mode mode a = a\<lparr>ag_settings := (ag_settings a)\<lparr>cfg_approval_mode := mode\<rparr>\<rparr>"

definition set_messages :: "agent_message list \<Rightarrow> agent \<Rightarrow> agent" where
  "set_messages ms a = a\<lparr>ag_messages := ms\<rparr>"

definition append_messages :: "agent_message list \<Rightarrow> agent \<Rightarrow> agent" where
  "append_messages ms a = a\<lparr>ag_messages := ag_messages a @ ms\<rparr>"

definition clear_messages :: "agent \<Rightarrow> agent" where
  "clear_messages a = a\<lparr>ag_messages := []\<rparr>"

definition DEFAULT_PLAN_MODE_ADDENDUM :: string where
  "DEFAULT_PLAN_MODE_ADDENDUM = [CHR 0x0A, CHR 0x0A] @
     ''You are in planning mode. Analyze the request and produce a step-by-step plan. Do not make any modifications or execute any write operations.''"

definition enter_plan_mode :: "agent \<Rightarrow> (agent_tool list \<times> string) \<times> agent" where
  "enter_plan_mode a =
     ((ag_tools a, ag_system_prompt a),
      a\<lparr>ag_tools := filter (\<lambda>t. \<not> at_requires_approval t) (ag_tools a),
        ag_system_prompt := ag_system_prompt a @
          (case ag_plan_mode_addendum a of None \<Rightarrow> DEFAULT_PLAN_MODE_ADDENDUM | Some addendum \<Rightarrow> addendum)\<rparr>)"

definition exit_plan_mode :: "agent_tool list \<Rightarrow> string \<Rightarrow> agent \<Rightarrow> agent" where
  "exit_plan_mode saved_tools saved_prompt a = a\<lparr>ag_tools := saved_tools, ag_system_prompt := saved_prompt\<rparr>"

section \<open>State updates from events\<close>

definition notify_idle :: "agent \<Rightarrow> agent" where
  "notify_idle a = a\<lparr>ag_wakeups := ag_wakeups a + 1\<rparr>"

definition clear_snapshots :: "agent \<Rightarrow> agent" where
  "clear_snapshots a = a\<lparr>ag_pending_snapshot := [], ag_loop_context := None\<rparr>"

fun update_state_from_event :: "agent_event \<Rightarrow> agent \<Rightarrow> agent" where
  "update_state_from_event MessageStart a = a\<lparr>ag_stream_message := None\<rparr>"
| "update_state_from_event (MessageEnd m) a = a\<lparr>ag_stream_message := Some (Llm (Assistant m))\<rparr>"
| "update_state_from_event (ToolExecutionStart tid _ _) a = a\<lparr>ag_pending_tool_calls := insert tid (ag_pending_tool_calls a)\<rparr>"
| "update_state_from_event (TurnEnd _ _ _ _) a = a\<lparr>ag_pending_tool_calls := {}, ag_stream_message := None\<rparr>"
| "update_state_from_event (AgentEnd _) a =
     a\<lparr>ag_is_running := False, ag_loop_active := False, ag_pending_tool_calls := {}, ag_stream_message := None\<rparr>"
| "update_state_from_event _ a = a"

definition turn_messages :: "assistant_message \<Rightarrow> tool_result_message list \<Rightarrow> agent_message list" where
  "turn_messages m trs = Llm (Assistant m) # map (\<lambda>tr. Llm (ToolResult tr)) trs"

fun apply_stream_event :: "agent_event \<Rightarrow> agent \<Rightarrow> agent" where
  "apply_stream_event (TurnEnd m trs _ _) a =
     (let a = a\<lparr>ag_messages := ag_messages a @ turn_messages m trs\<rparr>
      in case am_error_message m of None \<Rightarrow> a | Some err \<Rightarrow> a\<lparr>ag_error := Some err\<rparr>)"
| "apply_stream_event (AgentEnd ms) a = notify_idle (clear_snapshots (a\<lparr>ag_messages := clone_messages ms\<rparr>))"
| "apply_stream_event _ a = a"

definition handle_stream_event :: "agent_event \<Rightarrow> agent \<Rightarrow> agent" where
  "handle_stream_event e a = apply_stream_event e (update_state_from_event e (agent_dispatch e a))"

record agent_result =
  res_messages :: "agent_message list"
  res_stop_reason :: stop_reason
  res_usage :: usage
  res_cost :: cost
  res_error :: "string option"
  res_transfer_signal :: "transfer_signal option"

definition agent_result_init :: agent_result where
  "agent_result_init = \<lparr>res_messages = [], res_stop_reason = SrStop, res_usage = usage_default, res_cost = cost_default,
     res_error = None, res_transfer_signal = None\<rparr>"

text \<open>
  One event of \<^verbatim>\<open>collect_stream\<close>. Whether \<^verbatim>\<open>Arc::try_unwrap\<close> finds the only
  reference to the final history is the argument \<open>unique\<close>.
\<close>

fun collect_event :: "bool \<Rightarrow> agent_event \<Rightarrow> agent_result \<times> agent \<Rightarrow> agent_result \<times> agent" where
  "collect_event unique e (r, a) =
     (let a = update_state_from_event e (agent_dispatch e a) in
      case e of
        TransferInitiated signal \<Rightarrow> (r\<lparr>res_transfer_signal := Some signal, res_stop_reason := SrTransfer\<rparr>, a)
      | TurnEnd m trs _ _ \<Rightarrow>
          (r\<lparr>res_stop_reason := (if res_transfer_signal r = None then am_stop_reason m else res_stop_reason r),
             res_usage := usage_add (res_usage r) (am_usage m), res_cost := cost_add (res_cost r) (am_cost m),
             res_error := (case am_error_message m of None \<Rightarrow> res_error r | Some err \<Rightarrow> Some err),
             res_messages := res_messages r @ turn_messages m trs\<rparr>,
           a\<lparr>ag_messages := ag_messages a @ turn_messages m trs\<rparr>)
      | AgentEnd ms \<Rightarrow> (r, a\<lparr>ag_messages := (if unique then ms else clone_messages ms)\<rparr>)
      | _ \<Rightarrow> (r, a))"

definition collect_stream :: "bool \<Rightarrow> agent_event list \<Rightarrow> agent \<Rightarrow> agent_result \<times> agent" where
  "collect_stream unique events a =
     (case fold (collect_event unique) events (agent_result_init, a) of
        (r, a) \<Rightarrow>
          (r, notify_idle ((clear_snapshots (a\<lparr>ag_is_running := False, ag_loop_active := False\<rparr>))\<lparr>ag_error := res_error r\<rparr>)))"

section \<open>Control\<close>

definition cancel_run :: "agent \<Rightarrow> agent" where
  "cancel_run a = (case ag_abort_controller a of None \<Rightarrow> a | Some token \<Rightarrow> a\<lparr>ag_cancelled := insert token (ag_cancelled a)\<rparr>)"

definition clear_transient_runtime_state :: "agent \<Rightarrow> agent" where
  "clear_transient_runtime_state a =
     clear_snapshots (a\<lparr>ag_is_running := False, ag_stream_message := None, ag_pending_tool_calls := {}, ag_error := None,
       ag_abort_controller := None\<rparr>)"

definition abort :: "agent \<Rightarrow> agent" where
  "abort a = cancel_run a"

definition reset :: "agent \<Rightarrow> agent" where
  "reset a =
     (let a = cancel_run a;
          a = a\<lparr>ag_loop_generation := ag_loop_generation a + 1, ag_messages := [], ag_loop_active := False\<rparr>
      in notify_idle (clear_queues (clear_transient_runtime_state a)))"

text \<open>
  \<^verbatim>\<open>wait_for_idle\<close>: a waiter that registered after \<open>n\<close> notifications looks at the flag and
  goes to sleep until the count has moved on.
\<close>

datatype waiter = Registered nat | Sleeping nat | Returned

fun waiter_poll :: "agent \<Rightarrow> waiter \<Rightarrow> waiter" where
  "waiter_poll a (Registered n) = (if \<not> ag_loop_active a then Returned else Sleeping n)"
| "waiter_poll a (Sleeping n) = (if n < ag_wakeups a then Registered (ag_wakeups a) else Sleeping n)"
| "waiter_poll a Returned = Returned"

section \<open>Invocation\<close>

text \<open>What a run receives: its configuration, its messages and how many of them are new.\<close>

record loop_guard =
  lg_generation :: u64
  lg_token :: nat

record loop_input =
  li_messages :: "agent_message list"
  li_new_len :: usize
  li_system_prompt :: string
  li_config :: agent_loop_config

definition guard_drop :: "loop_guard \<Rightarrow> agent \<Rightarrow> agent" where
  "guard_drop g a =
     (if ag_loop_generation a = lg_generation g
      then notify_idle (clear_snapshots (a\<lparr>ag_cancelled := insert (lg_token g) (ag_cancelled a), ag_loop_active := False\<rparr>))
      else a)"

definition check_not_running :: "agent \<Rightarrow> (agent_error, unit) result \<times> agent" where
  "check_not_running a =
     (let active = ag_loop_active a; a = a\<lparr>ag_is_running := active\<rparr>
      in if active then (Inl AlreadyRunning, a) else (Inr (), a))"

definition ends_with_assistant :: "agent_message list \<Rightarrow> bool" where
  "ends_with_assistant ms = (ms \<noteq> [] \<and> (case List.last ms of Llm (Assistant _) \<Rightarrow> True | _ \<Rightarrow> False))"

definition validate_continue :: "agent \<Rightarrow> (agent_error, unit) result" where
  "validate_continue a =
     (if ag_messages a = [] then Inl NoMessages
      else if ends_with_assistant (ag_messages a) \<and> \<not> has_pending_messages a then Inl InvalidContinue
      else Inr ())"

text \<open>
  The configuration of a run. What the queue provider answers while the run goes on, what it leaves
  in the queues, when its token reads as cancelled, the clock and the scheduler are the run's
  environment.
\<close>

record run_env =
  re_queue_provider :: message_provider
  re_steering_left :: "agent_message list"
  re_follow_up_left :: "agent_message list"
  re_cancelled :: "tick \<Rightarrow> bool"
  re_clock :: "tick \<Rightarrow> u64"
  re_schedule :: "tick \<Rightarrow> sched_move list"

definition build_loop_config :: "run_env \<Rightarrow> agent \<Rightarrow> agent_loop_config" where
  "build_loop_config env a =
     (ag_settings a)\<lparr>cfg_model := ag_model a, cfg_stream_fn := ag_stream_fn a, cfg_tools := ag_tools a,
       cfg_message_provider := Some (case ag_external_provider a of
           Some external \<Rightarrow> composed_provider (re_queue_provider env) external | None \<Rightarrow> re_queue_provider env),
       cfg_cancelled := re_cancelled env, cfg_clock := re_clock env, cfg_schedule := re_schedule env\<rparr>"

definition start_loop :: "run_env \<Rightarrow> agent_message list \<Rightarrow> bool \<Rightarrow> agent \<Rightarrow> (loop_guard \<times> loop_input) \<times> agent" where
  "start_loop env input is_continue a =
     (let a = (clear_snapshots (a\<lparr>ag_is_running := True, ag_error := None\<rparr>))\<lparr>ag_loop_active := True\<rparr>;
          generation = ag_loop_generation a + 1;
          token = ag_tokens a;
          a = a\<lparr>ag_loop_generation := generation, ag_tokens := token + 1, ag_abort_controller := Some token\<rparr>;
          config = build_loop_config env a;
          system_prompt = ag_system_prompt a;
          (msgs, new_len, a) =
            (if is_continue then
               if ends_with_assistant (ag_messages a)
               then (ag_messages a @ ag_steering_queue a @ ag_follow_up_queue a,
                     length (ag_steering_queue a) + length (ag_follow_up_queue a),
                     a\<lparr>ag_steering_queue := [], ag_follow_up_queue := []\<rparr>)
               else (ag_messages a, length input, a)
             else (ag_messages a @ input, length input, a));
          a = a\<lparr>ag_messages := clone_messages_for_send msgs\<rparr>
      in ((\<lparr>lg_generation = generation, lg_token = token\<rparr>,
           \<lparr>li_messages = msgs, li_new_len = new_len, li_system_prompt = system_prompt, li_config = config\<rparr>), a))"

type_synonym started = "(agent_error, loop_guard \<times> loop_input) result \<times> agent"

definition prompt_stream :: "run_env \<Rightarrow> agent_message list \<Rightarrow> agent \<Rightarrow> started" where
  "prompt_stream env input a =
     (case check_not_running a of
        (Inl e, a) \<Rightarrow> (Inl e, a)
      | (Inr _, a) \<Rightarrow> (case start_loop env input False a of (s, a) \<Rightarrow> (Inr s, a)))"

definition continue_stream :: "run_env \<Rightarrow> agent \<Rightarrow> started" where
  "continue_stream env a =
     (case check_not_running a of
        (Inl e, a) \<Rightarrow> (Inl e, a)
      | (Inr _, a) \<Rightarrow>
         (case validate_continue a of
            Inl e \<Rightarrow> (Inl e, a)
          | Inr _ \<Rightarrow> (case start_loop env [] True a of (s, a) \<Rightarrow> (Inr s, a))))"

section \<open>Checkpointing\<close>

definition restore_session_state :: "json option \<Rightarrow> (string, session_state) result" where
  "restore_session_state snapshot =
     (case snapshot of
        None \<Rightarrow> Inr session_new
      | Some v \<Rightarrow> (case session_restore v of
          Inl e \<Rightarrow> Inl (''corrupted session state snapshot: '' @ e) | Inr s \<Rightarrow> Inr s))"

definition rebind_stream_fn_for_current_model :: "agent \<Rightarrow> agent" where
  "rebind_stream_fn_for_current_model a =
     (case find (\<lambda>(m, _). ms_provider m = ms_provider (ag_model a) \<and> ms_model_id m = ms_model_id (ag_model a))
             (ag_model_stream_fns a) of
        Some (_, f) \<Rightarrow> a\<lparr>ag_stream_fn := f\<rparr> | None \<Rightarrow> a)"

definition session_to_save :: "session_state \<Rightarrow> json option" where
  "session_to_save s = (if ss_data s = [] then None else Some (session_snapshot s))"

text \<open>The store, when there is one, answers with an error or with success.\<close>

definition save_checkpoint :: "(checkpoint \<Rightarrow> (string, unit) result) option \<Rightarrow> u64 \<Rightarrow> string \<Rightarrow> agent
    \<Rightarrow> (string, checkpoint) result" where
  "save_checkpoint store now ident a =
     (let checkpoint = (checkpoint_new now ident (ag_system_prompt a) (ms_provider (ag_model a)) (ms_model_id (ag_model a))
            (ag_messages a))\<lparr>cp_state := session_to_save (ag_session a)\<rparr>
      in case store of
           None \<Rightarrow> Inr checkpoint
         | Some save \<Rightarrow> rbind (save checkpoint) (\<lambda>_. Inr checkpoint))"

definition noop_message :: "string \<Rightarrow> string" where
  "noop_message name = ''Tool '' @ [CHR 0x27] @ name @ [CHR 0x27]
     @ '' is no longer available. It may have been removed or renamed.''"

text \<open>The placeholder tool; its permissive schema accepts every object.\<close>

definition noop_tool :: "string \<Rightarrow> agent_tool" where
  "noop_tool name =
     \<lparr>at_name = name, at_requires_approval = False, at_execution_root = None, at_approval_context = \<lambda>_. None,
      at_auth_config = None, at_validate = \<lambda>v. if is_object v then [] else [''not an object''],
      at_execute = \<lambda>_ _ _ _. \<lparr>run_steps = [], run_result = Inr (result_error (noop_message name))\<rparr>\<rparr>"

fun called_names :: "agent_message \<Rightarrow> string list" where
  "called_names (Llm (Assistant m)) = List.map_filter (\<lambda>b. case b of ToolCall _ name _ _ \<Rightarrow> Some name | _ \<Rightarrow> None) (am_content m)"
| "called_names _ = []"

fun first_seen :: "string set \<Rightarrow> string list \<Rightarrow> string list" where
  "first_seen known [] = []"
| "first_seen known (n # ns) = (if n \<in> known then first_seen known ns else n # first_seen (insert n known) ns)"

definition inject_noop_tools_for_missing_references :: "agent \<Rightarrow> agent" where
  "inject_noop_tools_for_missing_references a =
     (let missing = first_seen (set (map at_name (ag_tools a))) (concat (map called_names (ag_messages a)))
      in a\<lparr>ag_tools := ag_tools a @ map noop_tool missing\<rparr>)"

text \<open>The part of a restore that both kinds of checkpoint share.\<close>

definition restore_conversation :: "agent_message list \<Rightarrow> string \<Rightarrow> string \<Rightarrow> string \<Rightarrow> session_state \<Rightarrow> agent \<Rightarrow> agent" where
  "restore_conversation ms system_prompt provider model_id session a =
     (let a = inject_noop_tools_for_missing_references ((clear_transient_runtime_state a)\<lparr>ag_messages := ms\<rparr>);
          a = a\<lparr>ag_system_prompt := system_prompt, ag_model := (ag_model a)\<lparr>ms_provider := provider, ms_model_id := model_id\<rparr>\<rparr>
      in (rebind_stream_fn_for_current_model a)\<lparr>ag_session := session\<rparr>)"

definition restore_from_checkpoint :: "checkpoint \<Rightarrow> agent \<Rightarrow> (string, unit) result \<times> agent" where
  "restore_from_checkpoint c a =
     (case check_not_running a of
        (Inl _, a) \<Rightarrow> (Inl ''cannot restore checkpoint while agent is running'', a)
      | (Inr _, a) \<Rightarrow>
         (case restore_session_state (cp_state c) of
            Inl e \<Rightarrow> (Inl e, a)
          | Inr session \<Rightarrow>
             (Inr (), restore_conversation (checkpoint_messages (ag_registry a) c) (cp_system_prompt c) (cp_provider c)
                (cp_model_id c) session a)))"

definition load_and_restore_checkpoint :: "(string \<Rightarrow> (string, checkpoint option) result) option \<Rightarrow> string \<Rightarrow> agent
    \<Rightarrow> (string, checkpoint option) result \<times> agent" where
  "load_and_restore_checkpoint store ident a =
     (case check_not_running a of
        (Inl _, a) \<Rightarrow> (Inl ''cannot restore checkpoint while agent is running'', a)
      | (Inr _, a) \<Rightarrow>
         (case store of
            None \<Rightarrow> (Inl ''no checkpoint store configured'', a)
          | Some load \<Rightarrow>
             (case load ident of
                Inl e \<Rightarrow> (Inl e, a)
              | Inr None \<Rightarrow> (Inr None, a)
              | Inr (Some c) \<Rightarrow> (case restore_from_checkpoint c a of (Inl e, a) \<Rightarrow> (Inl e, a) | (Inr _, a) \<Rightarrow> (Inr (Some c), a)))))"

definition pause :: "u64 \<Rightarrow> agent \<Rightarrow> loop_checkpoint option \<times> agent" where
  "pause now a =
     (if \<not> ag_loop_active a then (None, a)
      else
        let a = cancel_run a;
            pending = clone_messages (ag_pending_snapshot a) @ ag_follow_up_queue a;
            messages = (case ag_loop_context a of Some ctx \<Rightarrow> clone_messages ctx | None \<Rightarrow> ag_messages a);
            checkpoint = with_pending_steering_message_batch (ag_steering_queue a) (with_pending_message_batch pending
              (loop_checkpoint_new now (ag_system_prompt a) (ms_provider (ag_model a)) (ms_model_id (ag_model a)) messages))
        in (Some (checkpoint\<lparr>lc_state := session_to_save (ag_session a)\<rparr>),
            a\<lparr>ag_follow_up_queue := [], ag_steering_queue := []\<rparr>))"

definition restore_from_loop_checkpoint :: "loop_checkpoint \<Rightarrow> agent \<Rightarrow> (agent_error, unit) result \<times> agent" where
  "restore_from_loop_checkpoint c a =
     (let restored = restore_loop_messages (ag_registry a) c in
      if restored = [] then (Inl NoMessages, a)
      else case restore_session_state (lc_state c) of
             Inl e \<Rightarrow> (Inl (StreamError [e]), a)
           | Inr session \<Rightarrow>
              (let a = restore_conversation restored (lc_system_prompt c) (lc_provider c) (lc_model_id c) session a;
                   a = clear_queues a;
                   a = fold follow_up (restore_pending_messages (ag_registry a) c) a
               in (Inr (), fold steer (restore_pending_steering_messages (ag_registry a) c) a)))"

definition resume_stream :: "run_env \<Rightarrow> loop_checkpoint \<Rightarrow> agent \<Rightarrow> started" where
  "resume_stream env c a =
     (case check_not_running a of
        (Inl e, a) \<Rightarrow> (Inl e, a)
      | (Inr _, a) \<Rightarrow>
         (case restore_from_loop_checkpoint c a of
            (Inl e, a) \<Rightarrow> (Inl e, a)
          | (Inr _, a) \<Rightarrow> continue_stream env a))"

section \<open>Compaction on demand\<close>

fun agent_transform :: "agent_loop_config \<Rightarrow> tick \<Rightarrow> context_transformer option \<Rightarrow> agent \<Rightarrow> compaction_report option \<times> agent" where
  "agent_transform cfg now None a = (None, a)"
| "agent_transform cfg now (Some (SlidingWindow sw)) a =
     (case sw_transform (cfg_json_len cfg) (publish_cached_prefix sw (ag_published_prefix a)) (ag_messages a) True of
        (ms, report) \<Rightarrow> (report, a\<lparr>ag_messages := ms\<rparr>))"
| "agent_transform cfg now (Some (OtherTransformer f)) a =
     (case f now (ag_messages a) True of (ms, report) \<Rightarrow> (report, a\<lparr>ag_messages := ms\<rparr>))"

definition report_compaction :: "compaction_report option \<Rightarrow> agent \<Rightarrow> agent" where
  "report_compaction report a = (case report of None \<Rightarrow> a | Some r \<Rightarrow> agent_dispatch (ContextCompacted r) a)"

definition compact_context :: "tick \<Rightarrow> agent \<Rightarrow> (agent_error, compaction_report option) result \<times> agent" where
  "compact_context now a =
     (case check_not_running a of
        (Inl e, a) \<Rightarrow> (Inl e, a)
      | (Inr _, a) \<Rightarrow>
         (let cfg = ag_settings a in
          case agent_transform cfg now (map_option OtherTransformer (cfg_async_transform_context cfg)) a of
            (async_report, a) \<Rightarrow>
             (case agent_transform cfg now (cfg_transform_context cfg) (report_compaction async_report a) of
                (sync_report, a) \<Rightarrow>
                  (Inr (case sync_report of None \<Rightarrow> async_report | Some r \<Rightarrow> Some r), report_compaction sync_report a))))"

end
