(* ===== verification/Agent_Runs.thy ===== *)
theory Agent_Runs
  imports Agent_State
begin

text \<open>
  The life cycle of runs. A \<open>system\<close> is an agent with the event streams its callers hold, the
  runs whose end they have seen and the tasks that wait for it to become idle; \<open>agent_step\<close> is
  one call of the public interface, one atomic action of the loop task on shared state, or one
  poll of a waiter. Callers hand events to \<^verbatim>\<open>handle_stream_event\<close> from the stream of
  the latest run only; \<open>stale_end_frees_agent\<close> shows why they have to.

  \<open>sy_epoch\<close> counts runs and resets. The generation counter of the agent is the same number in
  64 bits, so the results are about systems whose epoch is below \<open>2 ^ 64\<close>.
\<close>

section \<open>Frames\<close>

text \<open>The fields the life cycle is about.\<close>

definition life :: "agent \<Rightarrow> bool \<times> u64 \<times> nat option \<times> nat \<times> nat set \<times> nat" where
  "life a = (ag_loop_active a, ag_loop_generation a, ag_abort_controller a, ag_tokens a, ag_cancelled a, ag_wakeups a)"

lemma life_eq:
  "life a = life b \<longleftrightarrow> ag_loop_active a = ag_loop_active b \<and> ag_loop_generation a = ag_loop_generation b
     \<and> ag_abort_controller a = ag_abort_controller b \<and> ag_tokens a = ag_tokens b \<and> ag_cancelled a = ag_cancelled b
     \<and> ag_wakeups a = ag_wakeups b"
  by (simp add: life_def)

text \<open>Operations of the interface and of the loop task that leave the life cycle alone.\<close>

datatype agent_op =
    OpSteer agent_message | OpFollowUp agent_message | OpClearQueues
  | OpPollSteering | OpPollFollowUp | OpLoopSnapshots "agent_message list" "agent_message list option"
  | OpDispatch agent_event | OpSetPrompt string | OpSetModel model_spec | OpAddTool agent_tool | OpRemoveTool string
  | OpSetMessages "agent_message list" | OpAppendMessages "agent_message list"
  | OpEnterPlanMode | OpExitPlanMode "agent_tool list" string | OpCompact tick

fun do_op :: "agent_op \<Rightarrow> agent \<Rightarrow> agent" where
  "do_op (OpSteer m) a = steer m a"
| "do_op (OpFollowUp m) a = follow_up m a"
| "do_op OpClearQueues a = clear_queues a"
| "do_op OpPollSteering a = snd (queue_poll_steering a)"
| "do_op OpPollFollowUp a = snd (queue_poll_follow_up a)"
| "do_op (OpLoopSnapshots pending context) a = a\<lparr>ag_pending_snapshot := pending, ag_loop_context := context\<rparr>"
| "do_op (OpDispatch e) a = agent_dispatch e a"
| "do_op (OpSetPrompt p) a = set_system_prompt p a"
| "do_op (OpSetModel m) a = set_model m a"
| "do_op (OpAddTool t) a = add_tool t a"
| "do_op (OpRemoveTool n) a = snd (remove_tool n a)"
| "do_op (OpSetMessages ms) a = set_messages ms a"
| "do_op (OpAppendMessages ms) a = append_messages ms a"
| "do_op OpEnterPlanMode a = snd (enter_plan_mode a)"
| "do_op (OpExitPlanMode ts p) a = exit_plan_mode ts p a"
| "do_op (OpCompact now) a = snd (compact_context now a)"

lemma life_dispatch [simp]: "life (agent_dispatch e a) = life a"
  by (simp add: life_def agent_dispatch_def)

lemma life_small [simp]:
  "life (steer m a) = life a" "life (follow_up m a) = life a" "life (clear_queues a) = life a"
  "life (snd (queue_poll_steering a)) = life a" "life (snd (queue_poll_follow_up a)) = life a"
  by (simp_all add: life_def steer_def follow_up_def clear_queues_def clear_steering_def clear_follow_up_def
      queue_poll_steering_def queue_poll_follow_up_def append_pending_def split: prod.splits)

lemma life_transform [simp]: "life (snd (agent_transform cfg now t a)) = life a"
  by (cases "(cfg, now, t, a)" rule: agent_transform.cases) (simp_all add: life_def split: prod.splits)

lemma life_report [simp]: "life (report_compaction r a) = life a"
  by (simp add: report_compaction_def split: option.splits)

lemma life_check [simp]: "life (snd (check_not_running a)) = life a"
  by (simp add: life_def check_not_running_def Let_def)

lemma life_compact: "life (snd (compact_context now a)) = life a"
proof (cases "check_not_running a")
  case (Pair r b)
  with life_check[of a] have b: "life b = life a" by simp
  obtain ar c where c: "agent_transform (ag_settings b) now (map_option OtherTransformer (cfg_async_transform_context (ag_settings b))) b
      = (ar, c)" by fastforce
  with life_transform have lc: "life c = life a" using b by (metis snd_conv)
  obtain sr d where d: "agent_transform (ag_settings b) now (cfg_transform_context (ag_settings b)) (report_compaction ar c) = (sr, d)"
    by fastforce
  with life_transform have "life d = life a" using lc by (metis life_report snd_conv)
  with Pair b c d show ?thesis by (cases r) (simp_all add: compact_context_def Let_def)
qed

lemma life_set_model [simp]: "life (set_model m a) = life a"
  by (auto simp: set_model_def Let_def split: option.splits) (simp_all add: life_def)

lemma life_do_op [simp]: "life (do_op op a) = life a"
  by (cases op)
    (simp_all add: life_compact, simp_all add: life_def set_system_prompt_def add_tool_def remove_tool_def set_messages_def
      append_messages_def enter_plan_mode_def exit_plan_mode_def Let_def)

lemma life_inject [simp]: "life (inject_noop_tools_for_missing_references a) = life a"
  by (simp add: inject_noop_tools_for_missing_references_def life_def Let_def)

lemma life_rebind [simp]: "life (rebind_stream_fn_for_current_model a) = life a"
  by (simp add: rebind_stream_fn_for_current_model_def life_def split: option.splits)

lemma life_fold [simp]: "life (fold follow_up ms a) = life a" "life (fold steer ms a) = life a"
  by (induction ms arbitrary: a) simp_all

text \<open>Restoring a conversation forgets the token of the last run and touches nothing else of its life.\<close>

lemma life_restore_conversation:
  "life (restore_conversation ms sys p m session a) = life (a\<lparr>ag_abort_controller := None\<rparr>)"
proof -
  let ?b = "inject_noop_tools_for_missing_references ((clear_transient_runtime_state a)\<lparr>ag_messages := ms\<rparr>)"
  have "life ?b = life (a\<lparr>ag_abort_controller := None\<rparr>)"
    by (simp, simp add: life_def clear_transient_runtime_state_def clear_snapshots_def)
  moreover have "life (restore_conversation ms sys p m session a) = life (rebind_stream_fn_for_current_model
      (?b\<lparr>ag_system_prompt := sys, ag_model := (ag_model ?b)\<lparr>ms_provider := p, ms_model_id := m\<rparr>\<rparr>))"
    by (simp only: restore_conversation_def Let_def) (simp add: life_def)
  ultimately show ?thesis by (simp, simp add: life_def)
qed

lemma update_state_life:
  "(\<forall>ms. e \<noteq> AgentEnd ms) \<Longrightarrow> life (update_state_from_event e a) = life a"
  "(\<forall>ms. e \<noteq> AgentEnd ms) \<Longrightarrow> life (apply_stream_event e a) = life a"
  by (cases e; simp add: life_def Let_def split: option.splits)+

section \<open>Starting runs\<close>

datatype start_call = StartPrompt "agent_message list" | StartContinue | StartResume loop_checkpoint

fun invoke :: "run_env \<Rightarrow> start_call \<Rightarrow> agent \<Rightarrow> started" where
  "invoke env (StartPrompt input) a = prompt_stream env input a"
| "invoke env StartContinue a = continue_stream env a"
| "invoke env (StartResume c) a = resume_stream env c a"

text \<open>What starting a run does to the life cycle.\<close>

definition launched :: "agent \<Rightarrow> loop_guard \<Rightarrow> agent \<Rightarrow> bool" where
  "launched a g a' =
     (\<not> ag_loop_active a \<and> g = \<lparr>lg_generation = ag_loop_generation a + 1, lg_token = ag_tokens a\<rparr>
      \<and> life a' = (True, ag_loop_generation a + 1, Some (ag_tokens a), ag_tokens a + 1, ag_cancelled a, ag_wakeups a))"

lemma start_loop_life:
  assumes "start_loop env input cont a = ((g, li), a')"
  shows "g = \<lparr>lg_generation = ag_loop_generation a + 1, lg_token = ag_tokens a\<rparr>
    \<and> life a' = (True, ag_loop_generation a + 1, Some (ag_tokens a), ag_tokens a + 1, ag_cancelled a, ag_wakeups a)"
  using assms by (auto simp: start_loop_def Let_def clear_snapshots_def life_def split: if_splits)

lemma check_not_running_cases:
  obtains (running) b where "ag_loop_active a" "check_not_running a = (Inl AlreadyRunning, b)" "b = a\<lparr>ag_is_running := True\<rparr>"
  | (idle) b where "\<not> ag_loop_active a" "check_not_running a = (Inr (), b)" "b = a\<lparr>ag_is_running := False\<rparr>"
  by (cases "ag_loop_active a") (simp_all add: check_not_running_def)

lemma prompt_launched: "prompt_stream env input a = (Inr (g, li), a') \<Longrightarrow> launched a g a'"
  by (cases a rule: check_not_running_cases) (auto simp: prompt_stream_def launched_def dest: start_loop_life split: prod.splits)

lemma continue_launched: "continue_stream env a = (Inr (g, li), a') \<Longrightarrow> launched a g a'"
  by (cases a rule: check_not_running_cases)
    (auto simp: continue_stream_def launched_def dest: start_loop_life split: prod.splits sum.splits)

lemma launched_life: "launched a g a' \<Longrightarrow> life b = life (a\<lparr>ag_abort_controller := x\<rparr>) \<Longrightarrow> launched b g a'"
  by (simp add: launched_def life_def)

lemma launched_from: "launched b g a' \<Longrightarrow> life b = life (a\<lparr>ag_abort_controller := x\<rparr>) \<Longrightarrow> launched a g a'"
  by (simp add: launched_def life_def)

lemma restore_loop_life:
  assumes "restore_from_loop_checkpoint c a = (r, a')"
  shows "life a' = life (a\<lparr>ag_abort_controller := (if r = Inr () then None else ag_abort_controller a)\<rparr>)"
proof (cases "restore_loop_messages (ag_registry a) c = []")
  case True
  with assms show ?thesis by (auto simp: restore_from_loop_checkpoint_def life_def)
next
  case False
  show ?thesis
  proof (cases "restore_session_state (lc_state c)")
    case (Inl e)
    with assms False show ?thesis by (auto simp: restore_from_loop_checkpoint_def life_def)
  next
    case (Inr session)
    with assms False have "r = Inr ()" "life a' = life (restore_conversation (restore_loop_messages (ag_registry a) c)
        (lc_system_prompt c) (lc_provider c) (lc_model_id c) session a)"
      by (auto simp: restore_from_loop_checkpoint_def Let_def)
    then show ?thesis by (simp add: life_restore_conversation)
  qed
qed

lemma resume_launched:
  assumes "resume_stream env c a = (Inr (g, li), a')"
  shows "launched a g a'"
proof (cases a rule: check_not_running_cases)
  case (running b)
  with assms show ?thesis by (simp add: resume_stream_def)
next
  case (idle b)
  with assms obtain d where d: "restore_from_loop_checkpoint c b = (Inr (), d)" "continue_stream env d = (Inr (g, li), a')"
    by (auto simp: resume_stream_def split: prod.splits sum.splits)
  from restore_loop_life[OF d(1)] idle(3) have "life d = life (a\<lparr>ag_abort_controller := None\<rparr>)" by (simp add: life_def)
  with continue_launched[OF d(2)] show ?thesis by (rule launched_from)
qed

lemma invoke_launched: "invoke env call a = (Inr (g, li), a') \<Longrightarrow> launched a g a'"
  by (cases call) (auto dest: prompt_launched continue_launched resume_launched)

text \<open>A refused start: at most the token of an earlier run is forgotten, and only while idle.\<close>

definition refused :: "agent \<Rightarrow> agent \<Rightarrow> bool" where
  "refused a a' = (life a' = life a \<or> \<not> ag_loop_active a \<and> life a' = life (a\<lparr>ag_abort_controller := None\<rparr>))"

lemma simple_refused:
  "prompt_stream env input a = (Inl e, a') \<Longrightarrow> life a' = life a"
  "continue_stream env a = (Inl e, a') \<Longrightarrow> life a' = life a"
  by (cases a rule: check_not_running_cases;
      auto simp: prompt_stream_def continue_stream_def life_def split: prod.splits sum.splits)+

lemma invoke_refused:
  assumes "invoke env call a = (Inl e, a')"
  shows "refused a a'"
proof (cases call)
  case (StartResume c)
  show ?thesis
  proof (cases a rule: check_not_running_cases)
    case (running b)
    with assms StartResume show ?thesis by (auto simp: resume_stream_def refused_def life_def)
  next
    case (idle b)
    obtain r d where d: "restore_from_loop_checkpoint c b = (r, d)" by fastforce
    with restore_loop_life idle(3) have "life d = life (a\<lparr>ag_abort_controller := (if r = Inr () then None else ag_abort_controller a)\<rparr>)"
      by (fastforce simp: life_def)
    moreover have "life a' = life d"
      using assms StartResume idle d by (auto simp: resume_stream_def dest: simple_refused(2) split: sum.splits)
    ultimately show ?thesis using idle(1) by (auto simp: refused_def life_def split: if_splits)
  qed
qed (use assms in \<open>auto simp: refused_def dest: simple_refused\<close>)

section \<open>Steps\<close>

record system =
  sy_agent :: agent
  sy_streams :: "(nat \<times> loop_guard) list"
  sy_epoch :: nat
  sy_ended :: "nat set"
  sy_waiters :: "waiter list"

definition is_agent_end :: "agent_event \<Rightarrow> bool" where
  "is_agent_end e = (case e of AgentEnd _ \<Rightarrow> True | _ \<Rightarrow> False)"

inductive agent_step :: "system \<Rightarrow> system \<Rightarrow> bool" where
  start: "invoke env call (sy_agent s) = (Inr (g, li), a') \<Longrightarrow>
    agent_step s (s\<lparr>sy_agent := a', sy_streams := (sy_epoch s + 1, g) # sy_streams s, sy_epoch := sy_epoch s + 1\<rparr>)"
| start_refused: "invoke env call (sy_agent s) = (Inl e, a') \<Longrightarrow> agent_step s (s\<lparr>sy_agent := a'\<rparr>)"
| event: "(k, g) \<in> set (sy_streams s) \<Longrightarrow> lg_generation g = ag_loop_generation (sy_agent s) \<Longrightarrow>
    agent_step s (s\<lparr>sy_agent := handle_stream_event e (sy_agent s),
      sy_ended := (if is_agent_end e then insert (lg_token g) (sy_ended s) else sy_ended s)\<rparr>)"
| collect: "(k, g) \<in> set (sy_streams s) \<Longrightarrow> lg_generation g = ag_loop_generation (sy_agent s) \<Longrightarrow>
    agent_step s (s\<lparr>sy_agent := guard_drop g (snd (collect_stream unique es (sy_agent s))),
      sy_streams := remove1 (k, g) (sy_streams s)\<rparr>)"
| collect_abandoned: "(k, g) \<in> set (sy_streams s) \<Longrightarrow> lg_generation g = ag_loop_generation (sy_agent s) \<Longrightarrow>
    agent_step s (s\<lparr>sy_agent := guard_drop g (snd (fold (collect_event unique) es (agent_result_init, sy_agent s))),
      sy_streams := remove1 (k, g) (sy_streams s)\<rparr>)"
| drop: "(k, g) \<in> set (sy_streams s) \<Longrightarrow>
    agent_step s (s\<lparr>sy_agent := guard_drop g (sy_agent s), sy_streams := remove1 (k, g) (sy_streams s)\<rparr>)"
| op: "agent_step s (s\<lparr>sy_agent := do_op oper (sy_agent s)\<rparr>)"
| abort: "agent_step s (s\<lparr>sy_agent := abort (sy_agent s)\<rparr>)"
| pause: "agent_step s (s\<lparr>sy_agent := snd (pause now (sy_agent s))\<rparr>)"
| reset: "agent_step s (s\<lparr>sy_agent := reset (sy_agent s), sy_epoch := sy_epoch s + 1\<rparr>)"
| restore: "agent_step s (s\<lparr>sy_agent := snd (restore_from_checkpoint c (sy_agent s))\<rparr>)"
| wait: "agent_step s (s\<lparr>sy_waiters := sy_waiters s @ [Registered (ag_wakeups (sy_agent s))]\<rparr>)"
| poll: "i < length (sy_waiters s) \<Longrightarrow>
    agent_step s (s\<lparr>sy_waiters := (sy_waiters s)[i := waiter_poll (sy_agent s) (sy_waiters s ! i)]\<rparr>)"

definition fresh_agent :: "agent \<Rightarrow> bool" where
  "fresh_agent a = (life a = (False, 0, None, 0, {}, 0))"

inductive reachable :: "system \<Rightarrow> bool" where
  init: "fresh_agent a \<Longrightarrow> reachable \<lparr>sy_agent = a, sy_streams = [], sy_epoch = 0, sy_ended = {}, sy_waiters = []\<rparr>"
| step: "reachable s \<Longrightarrow> agent_step s s' \<Longrightarrow> reachable s'"

section \<open>Invariant\<close>

definition waiter_ok :: "agent \<Rightarrow> waiter \<Rightarrow> bool" where
  "waiter_ok a w = (case w of Registered n \<Rightarrow> n \<le> ag_wakeups a
     | Sleeping n \<Rightarrow> n \<le> ag_wakeups a \<and> (ag_loop_active a \<or> n < ag_wakeups a) | Returned \<Rightarrow> True)"

definition streams_ok :: "system \<Rightarrow> bool" where
  "streams_ok s = (\<forall>(k, g) \<in> set (sy_streams s).
     lg_generation g = of_nat k \<and> k \<le> sy_epoch s \<and> lg_token g < ag_tokens (sy_agent s)
     \<and> (k = sy_epoch s \<longrightarrow> ag_abort_controller (sy_agent s) \<in> {None, Some (lg_token g)}))"

definition runs_ok :: "system \<Rightarrow> bool" where
  "runs_ok s =
     (let a = sy_agent s in
      ag_loop_generation a = of_nat (sy_epoch s) \<and> streams_ok s
      \<and> (ag_loop_active a \<longrightarrow> (\<exists>g. (sy_epoch s, g) \<in> set (sy_streams s) \<and> ag_abort_controller a = Some (lg_token g)))
      \<and> (\<forall>t < ag_tokens a. t \<in> ag_cancelled a \<or> t \<in> sy_ended s \<or> ag_loop_active a \<and> ag_abort_controller a = Some t)
      \<and> list_all (waiter_ok a) (sy_waiters s))"

lemma runs_okI:
  assumes "ag_loop_generation (sy_agent s) = of_nat (sy_epoch s)" "streams_ok s"
    "ag_loop_active (sy_agent s) \<Longrightarrow> \<exists>g. (sy_epoch s, g) \<in> set (sy_streams s) \<and> ag_abort_controller (sy_agent s) = Some (lg_token g)"
    "\<And>t. t < ag_tokens (sy_agent s) \<Longrightarrow> t \<in> ag_cancelled (sy_agent s) \<or> t \<in> sy_ended s
      \<or> ag_loop_active (sy_agent s) \<and> ag_abort_controller (sy_agent s) = Some t"
    "list_all (waiter_ok (sy_agent s)) (sy_waiters s)"
  shows "runs_ok s"
  using assms by (simp add: runs_ok_def)

lemma runs_okD:
  assumes "runs_ok s"
  shows "ag_loop_generation (sy_agent s) = of_nat (sy_epoch s)" "streams_ok s"
    "ag_loop_active (sy_agent s) \<Longrightarrow> \<exists>g. (sy_epoch s, g) \<in> set (sy_streams s) \<and> ag_abort_controller (sy_agent s) = Some (lg_token g)"
    "\<And>t. t < ag_tokens (sy_agent s) \<Longrightarrow> t \<in> ag_cancelled (sy_agent s) \<or> t \<in> sy_ended s
      \<or> ag_loop_active (sy_agent s) \<and> ag_abort_controller (sy_agent s) = Some t"
    "list_all (waiter_ok (sy_agent s)) (sy_waiters s)"
  using assms by (simp_all add: runs_ok_def Let_def)

lemma waiter_ok_life: "life a = life b \<Longrightarrow> waiter_ok a = waiter_ok b"
  by (rule ext) (simp add: waiter_ok_def life_def split: waiter.splits)

lemma waiter_ok_later:
  assumes "waiter_ok a w" "ag_wakeups a \<le> ag_wakeups b" "ag_loop_active b \<or> ag_wakeups a < ag_wakeups b"
  shows "waiter_ok b w"
  using assms by (auto simp: waiter_ok_def split: waiter.splits)

lemma waiter_ok_poll: "waiter_ok a w \<Longrightarrow> waiter_ok a (waiter_poll a w)"
  by (cases w) (auto simp: waiter_ok_def)

lemma runs_ok_life: "runs_ok s \<Longrightarrow> life a = life (sy_agent s) \<Longrightarrow> runs_ok (s\<lparr>sy_agent := a\<rparr>)"
  using waiter_ok_life[of a "sy_agent s"] by (simp add: runs_ok_def streams_ok_def life_eq Let_def)

text \<open>An idle agent may forget the token of its last run.\<close>

lemma runs_ok_forget:
  assumes "runs_ok s" "\<not> ag_loop_active (sy_agent s)" "life a = life ((sy_agent s)\<lparr>ag_abort_controller := None\<rparr>)"
  shows "runs_ok (s\<lparr>sy_agent := a\<rparr>)"
proof -
  have "waiter_ok a = waiter_ok (sy_agent s)" by (rule ext) (use assms(3) in \<open>simp add: waiter_ok_def life_def split: waiter.splits\<close>)
  with assms show ?thesis by (auto simp: runs_ok_def streams_ok_def life_eq Let_def)
qed

text \<open>
  The current run is over: the agent is idle, its waiters are notified, and the run's token counts as
  cancelled or its end was seen. Streams may have been dropped.
\<close>

lemma runs_ok_over:
  assumes ok: "runs_ok s"
    and a: "\<not> ag_loop_active a" "ag_loop_generation a = of_nat (sy_epoch s')" "ag_abort_controller a \<in> {None, ag_abort_controller (sy_agent s)}"
      "ag_tokens a = ag_tokens (sy_agent s)" "ag_cancelled (sy_agent s) \<subseteq> ag_cancelled a" "ag_wakeups (sy_agent s) < ag_wakeups a"
    and s': "sy_agent s' = a" "sy_epoch s \<le> sy_epoch s'" "set (sy_streams s') \<subseteq> set (sy_streams s)" "sy_ended s \<subseteq> sy_ended s'"
      "sy_waiters s' = sy_waiters s"
    and over: "\<And>t. ag_loop_active (sy_agent s) \<Longrightarrow> ag_abort_controller (sy_agent s) = Some t \<Longrightarrow> t \<in> ag_cancelled a \<or> t \<in> sy_ended s'"
  shows "runs_ok s'"
proof (rule runs_okI)
  show "ag_loop_generation (sy_agent s') = of_nat (sy_epoch s')" using a s' by simp
  show "streams_ok s'" using runs_okD(2)[OF ok] a s' by (fastforce simp: streams_ok_def)
  show "t \<in> ag_cancelled (sy_agent s') \<or> t \<in> sy_ended s'
      \<or> ag_loop_active (sy_agent s') \<and> ag_abort_controller (sy_agent s') = Some t" if "t < ag_tokens (sy_agent s')" for t
    using runs_okD(3)[OF ok] runs_okD(4)[OF ok, of t] that a s' over by auto
  show "list_all (waiter_ok (sy_agent s')) (sy_waiters s')"
    using runs_okD(5)[OF ok] a s' by (auto simp: list_all_iff intro: waiter_ok_later[where a = "sy_agent s"])
qed (use a s' in simp)

section \<open>Preservation\<close>

text \<open>Below the wrap-around of the counter, a guard of the current generation belongs to the latest run.\<close>

lemma current_stream:
  assumes "runs_ok s" "sy_epoch s < 2 ^ 64" "(k, g) \<in> set (sy_streams s)" "lg_generation g = ag_loop_generation (sy_agent s)"
  shows "k = sy_epoch s" "ag_abort_controller (sy_agent s) \<in> {None, Some (lg_token g)}"
proof -
  from runs_okD(1,2)[OF assms(1)] assms(3) have k: "lg_generation g = of_nat k" "k \<le> sy_epoch s"
    and gen: "ag_loop_generation (sy_agent s) = of_nat (sy_epoch s)"
    and c: "k = sy_epoch s \<longrightarrow> ag_abort_controller (sy_agent s) \<in> {None, Some (lg_token g)}"
    by (auto simp: streams_ok_def)
  from k gen assms(4) have "(of_nat k :: u64) = of_nat (sy_epoch s)" by simp
  with k(2) assms(2) show "k = sy_epoch s" by (simp add: word_unat_eq_iff unat_of_nat)
  with c show "ag_abort_controller (sy_agent s) \<in> {None, Some (lg_token g)}" by simp
qed

lemma runs_ok_start:
  assumes ok: "runs_ok s" and l: "launched (sy_agent s) g a'"
  shows "runs_ok (s\<lparr>sy_agent := a', sy_streams := (sy_epoch s + 1, g) # sy_streams s, sy_epoch := sy_epoch s + 1\<rparr>)"
proof (rule runs_okI, goal_cases)
  case 1
  from l runs_okD(1)[OF ok] show ?case by (simp add: launched_def life_def)
next
  case 2
  from l runs_okD(1,2)[OF ok] show ?case by (fastforce simp: launched_def life_def streams_ok_def)
next
  case 3
  from l show ?case by (auto simp: launched_def life_def)
next
  case (4 t)
  then have "t < ag_tokens (sy_agent s) \<or> t = ag_tokens (sy_agent s)" using l by (auto simp: launched_def life_def)
  with l runs_okD(4)[OF ok, of t] show ?case by (auto simp: launched_def life_def)
next
  case 5
  from l runs_okD(5)[OF ok] show ?case
    by (auto simp: list_all_iff launched_def life_def intro: waiter_ok_later[where a = "sy_agent s"])
qed

lemma runs_ok_refused: "runs_ok s \<Longrightarrow> refused (sy_agent s) a \<Longrightarrow> runs_ok (s\<lparr>sy_agent := a\<rparr>)"
  by (auto simp: refused_def intro: runs_ok_life runs_ok_forget)

lemma runs_ok_cancel: "runs_ok s \<Longrightarrow> life a = life (cancel_run (sy_agent s)) \<Longrightarrow> runs_ok (s\<lparr>sy_agent := a\<rparr>)"
proof -
  assume ok: "runs_ok s" and l: "life a = life (cancel_run (sy_agent s))"
  then have "life a = life ((sy_agent s)\<lparr>ag_cancelled := ag_cancelled a\<rparr>) \<and> ag_cancelled (sy_agent s) \<subseteq> ag_cancelled a"
    by (auto simp: cancel_run_def life_eq split: option.splits)
  moreover from this have "waiter_ok a = waiter_ok (sy_agent s)"
    by (intro ext) (simp add: waiter_ok_def life_def split: waiter.splits)
  ultimately show ?thesis using ok by (auto simp: runs_ok_def streams_ok_def life_eq Let_def)
qed

lemma pause_life: "life (snd (pause now a)) = life a \<or> life (snd (pause now a)) = life (cancel_run a)"
  by (simp add: pause_def Let_def life_def)

lemma reset_life:
  "life (reset a) = (False, ag_loop_generation a + 1, None, ag_tokens a, ag_cancelled (cancel_run a), ag_wakeups a + 1)"
  by (simp add: reset_def Let_def life_def notify_idle_def clear_queues_def clear_follow_up_def clear_steering_def
      clear_transient_runtime_state_def clear_snapshots_def cancel_run_def split: option.splits)

lemma runs_ok_reset:
  assumes ok: "runs_ok s"
  shows "runs_ok (s\<lparr>sy_agent := reset (sy_agent s), sy_epoch := sy_epoch s + 1\<rparr>)"
proof -
  have "ag_cancelled (sy_agent s) \<subseteq> ag_cancelled (cancel_run (sy_agent s))"
    and "ag_abort_controller (sy_agent s) = Some t \<Longrightarrow> t \<in> ag_cancelled (cancel_run (sy_agent s))" for t
    by (auto simp: cancel_run_def split: option.splits)
  with reset_life[of "sy_agent s"] runs_okD(1)[OF ok] show ?thesis
    by (intro runs_ok_over[OF ok, where a = "reset (sy_agent s)"]) (auto simp: life_def)
qed

lemma handle_end_life:
  "life (handle_stream_event (AgentEnd ms) a) =
     (False, ag_loop_generation a, ag_abort_controller a, ag_tokens a, ag_cancelled a, ag_wakeups a + 1)"
  by (simp add: handle_stream_event_def agent_dispatch_def notify_idle_def clear_snapshots_def life_def)

lemma handle_other_life: "\<not> is_agent_end e \<Longrightarrow> life (handle_stream_event e a) = life a"
  by (subgoal_tac "\<forall>ms. e \<noteq> AgentEnd ms") (auto simp: handle_stream_event_def update_state_life is_agent_end_def)

lemma runs_ok_event:
  assumes ok: "runs_ok s" "sy_epoch s < 2 ^ 64" and g: "(k, g) \<in> set (sy_streams s)" "lg_generation g = ag_loop_generation (sy_agent s)"
  shows "runs_ok (s\<lparr>sy_agent := handle_stream_event e (sy_agent s),
      sy_ended := (if is_agent_end e then insert (lg_token g) (sy_ended s) else sy_ended s)\<rparr>)"
proof (cases "is_agent_end e")
  case False
  with runs_ok_life[OF ok(1) handle_other_life[OF False]] show ?thesis by simp
next
  case True
  then obtain ms where e: "e = AgentEnd ms" by (auto simp: is_agent_end_def split: agent_event.splits)
  show ?thesis
    by (rule runs_ok_over[OF ok(1), where a = "handle_stream_event e (sy_agent s)"])
      (use handle_end_life[of ms "sy_agent s"] runs_okD(1)[OF ok(1)] current_stream(2)[OF ok g] True e in \<open>auto simp: life_def\<close>)
qed

text \<open>Collecting events may end the run; it changes nothing else of the life cycle.\<close>

lemma collect_event_life:
  "life (snd (collect_event u e (r, a))) = life (a\<lparr>ag_loop_active := ag_loop_active (snd (collect_event u e (r, a)))\<rparr>)"
  by (cases e) (simp_all add: life_def Let_def agent_dispatch_def)

lemma collect_fold_life:
  "\<exists>b. life (snd (fold (collect_event u) es (r, a))) = life (a\<lparr>ag_loop_active := b\<rparr>)"
proof (induction es arbitrary: r a)
  case (Cons e es)
  obtain r' a' where c: "collect_event u e (r, a) = (r', a')" by fastforce
  with collect_event_life[of u e r a] have "life a' = life (a\<lparr>ag_loop_active := ag_loop_active a'\<rparr>)" by simp
  moreover from Cons obtain b where "life (snd (fold (collect_event u) es (r', a'))) = life (a'\<lparr>ag_loop_active := b\<rparr>)" by blast
  ultimately show ?case using c by (auto simp: life_def simp del: collect_event.simps)
qed (auto simp: life_def intro: exI[of _ "ag_loop_active a"])

lemma collect_stream_life:
  "life (snd (collect_stream u es a)) =
     (False, ag_loop_generation a, ag_abort_controller a, ag_tokens a, ag_cancelled a, ag_wakeups a + 1)"
proof (cases "fold (collect_event u) es (agent_result_init, a)")
  case (Pair r b)
  with collect_fold_life[of u es agent_result_init a] obtain x where "life b = life (a\<lparr>ag_loop_active := x\<rparr>)" by auto
  with Pair show ?thesis by (simp add: collect_stream_def notify_idle_def clear_snapshots_def life_def)
qed

lemma runs_ok_dropped:
  assumes ok: "runs_ok s" "sy_epoch s < 2 ^ 64" and g: "(k, g) \<in> set (sy_streams s)" "lg_generation g = ag_loop_generation (sy_agent s)"
    and b: "ag_loop_generation b = ag_loop_generation (sy_agent s)" "ag_abort_controller b = ag_abort_controller (sy_agent s)"
      "ag_tokens b = ag_tokens (sy_agent s)" "ag_cancelled b = ag_cancelled (sy_agent s)" "ag_wakeups (sy_agent s) \<le> ag_wakeups b"
  shows "runs_ok (s\<lparr>sy_agent := guard_drop g b, sy_streams := remove1 (k, g) (sy_streams s)\<rparr>)"
  using set_remove1_subset[of "(k, g)" "sy_streams s"] runs_okD(1)[OF ok(1)] current_stream(2)[OF ok g] b g(2)
  by (intro runs_ok_over[OF ok(1), where a = "guard_drop g b"])
    (auto simp: guard_drop_def notify_idle_def clear_snapshots_def)

lemma runs_ok_stale:
  assumes ok: "runs_ok s" and g: "lg_generation g \<noteq> ag_loop_generation (sy_agent s)"
  shows "runs_ok (s\<lparr>sy_agent := guard_drop g (sy_agent s), sy_streams := remove1 (k, g) (sy_streams s)\<rparr>)"
proof (rule runs_okI, goal_cases)
  case 2
  from runs_okD(2)[OF ok] g set_remove1_subset[of "(k, g)" "sy_streams s"] show ?case by (auto simp: streams_ok_def guard_drop_def)
next
  case 3
  with runs_okD(3)[OF ok] g obtain h where h: "(sy_epoch s, h) \<in> set (sy_streams s)"
    "ag_abort_controller (sy_agent s) = Some (lg_token h)" by (auto simp: guard_drop_def)
  with runs_okD(1,2)[OF ok] g have "(sy_epoch s, h) \<noteq> (k, g)" by (auto simp: streams_ok_def)
  with h(1) have "(sy_epoch s, h) \<in> set (remove1 (k, g) (sy_streams s))" by (simp add: in_set_remove1)
  with h(2) g show ?case by (auto simp: guard_drop_def)
qed (use runs_okD[OF ok] g in \<open>auto simp: guard_drop_def\<close>)

lemma restore_checkpoint_refused: "refused a (snd (restore_from_checkpoint c a))"
proof (cases a rule: check_not_running_cases)
  case (running b)
  then show ?thesis by (simp add: restore_from_checkpoint_def refused_def life_def)
next
  case (idle b)
  then have "life (b\<lparr>ag_abort_controller := None\<rparr>) = life (a\<lparr>ag_abort_controller := None\<rparr>)" "life b = life a"
    by (simp_all add: life_def)
  with idle show ?thesis
    by (auto simp: restore_from_checkpoint_def refused_def life_restore_conversation split: sum.splits)
qed

lemma step_epoch: "agent_step s s' \<Longrightarrow> sy_epoch s \<le> sy_epoch s'"
  by (induction rule: agent_step.induct) auto

lemma step_runs_ok:
  assumes "agent_step s s'" "runs_ok s" "sy_epoch s < 2 ^ 64"
  shows "runs_ok s'"
  using assms
proof (induction rule: agent_step.induct)
  case (collect k g s unique es)
  then show ?case using collect_stream_life[of unique es "sy_agent s"] by (intro runs_ok_dropped) (auto simp: life_def)
next
  case (collect_abandoned k g s unique es)
  then show ?case using collect_fold_life[of unique es agent_result_init "sy_agent s"] by (intro runs_ok_dropped) (auto simp: life_def)
next
  case (drop k g s)
  then show ?case by (cases "lg_generation g = ag_loop_generation (sy_agent s)") (auto intro: runs_ok_dropped runs_ok_stale)
next
  case (pause s now)
  then show ?case using pause_life[of now "sy_agent s"] by (auto intro: runs_ok_life runs_ok_cancel)
next
  case (wait s)
  then show ?case by (simp add: runs_ok_def streams_ok_def Let_def waiter_ok_def)
next
  case (poll i s)
  then have "waiter_ok (sy_agent s) (sy_waiters s ! i)" by (simp add: runs_ok_def Let_def list_all_length)
  with poll show ?case
    by (auto simp: runs_ok_def streams_ok_def Let_def list_all_length nth_list_update intro: waiter_ok_poll)
next
  case (start env call s g li a')
  from runs_ok_start[OF start(2) invoke_launched[OF start(1)]] show ?case .
next
  case (event k g s e)
  from runs_ok_event[OF event(3,4,1,2)] show ?case .
next
  case (reset s)
  from runs_ok_reset[OF reset(1)] show ?case .
next
  case (restore s c)
  from runs_ok_refused[OF restore(1) restore_checkpoint_refused] show ?case .
qed (auto simp: abort_def intro: runs_ok_refused runs_ok_life runs_ok_cancel invoke_refused)

lemma reachable_runs_ok: "reachable s \<Longrightarrow> sy_epoch s < 2 ^ 64 \<Longrightarrow> runs_ok s"
proof (induction rule: reachable.induct)
  case (init a)
  then show ?case by (simp add: fresh_agent_def runs_ok_def streams_ok_def life_def)
next
  case (step s s')
  with step_epoch[of s s'] show ?case by (auto intro: step_runs_ok)
qed

section \<open>One run at a time\<close>

lemma active_start_refused:
  assumes "ag_loop_active a"
  shows "invoke env call a = (Inl AlreadyRunning, a\<lparr>ag_is_running := True\<rparr>)"
  using assms by (cases call) (simp_all add: prompt_stream_def continue_stream_def resume_stream_def check_not_running_def)

text \<open>A run that was started, was not cancelled, and whose end its caller has not seen.\<close>

definition live_run :: "system \<Rightarrow> nat \<Rightarrow> bool" where
  "live_run s t = (t < ag_tokens (sy_agent s) \<and> t \<notin> ag_cancelled (sy_agent s) \<and> t \<notin> sy_ended s)"


definition example_agent :: agent where
  "example_agent =
     \<lparr>ag_system_prompt = ''sys'', ag_model = model_spec_new ''p'' ''m'', ag_tools = [], ag_messages = [], ag_is_running = False,
      ag_stream_message = None, ag_pending_tool_calls = {}, ag_error = None, ag_available_models = [model_spec_new ''p'' ''m''],
      ag_steering_queue = [], ag_follow_up_queue = [], ag_listeners = [], ag_abort_controller = None,
      ag_steering_mode = SteerOneAtATime, ag_follow_up_mode = FollowOneAtATime, ag_stream_fn = \<lambda>_ _ _ _. [],
      ag_structured_output_max_retries = 3, ag_wakeups = 0, ag_pending_snapshot = [], ag_loop_context = None,
      ag_model_stream_fns = [], ag_event_forwarders = [], ag_registry = None, ag_external_provider = None,
      ag_plan_mode_addendum = None, ag_session = session_new, ag_loop_active = False, ag_loop_generation = 0,
      ag_settings = example_cfg (\<lambda>_ _ _ _. []) (\<lambda>_. False), ag_published_prefix = 0, ag_tokens = 0, ag_cancelled = {}\<rparr>"

definition example_env :: run_env where
  "example_env = \<lparr>re_queue_provider = \<lparr>mp_poll_steering = \<lambda>_. [], mp_poll_follow_up = \<lambda>_. [], mp_has_steering = \<lambda>_. False\<rparr>,
     re_steering_left = [], re_follow_up_left = [], re_cancelled = \<lambda>_. False, re_clock = \<lambda>_. 0, re_schedule = \<lambda>_. []\<rparr>"

definition example_system :: system where
  "example_system = \<lparr>sy_agent = example_agent, sy_streams = [], sy_epoch = 0, sy_ended = {}, sy_waiters = []\<rparr>"

lemma fresh_example: "fresh_agent example_agent"
  by (simp add: fresh_agent_def life_def example_agent_def)

lemma reachable_example: "reachable example_system"
  unfolding example_system_def by (rule reachable.init[OF fresh_example])

lemma example_prompt:
  obtains g li a' where "invoke example_env (StartPrompt [user_text ''hi'']) example_agent = (Inr (g, li), a')"
    "launched example_agent g a'"
  using prompt_launched[of example_env "[user_text ''hi'']" example_agent]
  by (cases "prompt_stream example_env [user_text ''hi''] example_agent")
    (auto simp: prompt_stream_def check_not_running_def example_agent_def split: prod.splits)

text \<open>A system with a live run.\<close>

lemma example_running:
  obtains s where "reachable s" "sy_epoch s = 1" "live_run s 0"
proof -
  obtain g li a' where p: "invoke example_env (StartPrompt [user_text ''hi'']) example_agent = (Inr (g, li), a')"
    and l: "launched example_agent g a'" by (rule example_prompt)
  let ?s = "example_system\<lparr>sy_agent := a', sy_streams := [(1, g)], sy_epoch := 1\<rparr>"
  have "agent_step example_system ?s"
    using agent_step.start[of example_env "StartPrompt [user_text ''hi'']" example_system g li a'] p by (simp add: example_system_def)
  with reachable_example have "reachable ?s" by (rule reachable.step)
  moreover from l have "live_run ?s 0" by (simp add: launched_def live_run_def life_def example_agent_def example_system_def)
  ultimately show thesis using that[of ?s] by simp
qed


text \<open>
  C13. Nobody waits for an idle agent for ever. In every reachable state in which the agent is
  idle, each task inside \<^verbatim>\<open>wait_for_idle\<close> returns within two polls: a task that went to
  sleep while a run was active has been notified since.
\<close>

theorem idle_waiters_return:
  assumes "reachable s" "sy_epoch s < 2 ^ 64" "\<not> ag_loop_active (sy_agent s)" "w \<in> set (sy_waiters s)"
  shows "waiter_poll (sy_agent s) (waiter_poll (sy_agent s) w) = Returned"
proof -
  from runs_okD(5)[OF reachable_runs_ok[OF assms(1,2)]] assms(4) have "waiter_ok (sy_agent s) w" by (simp add: list_all_iff)
  with assms(3) show ?thesis by (cases w) (auto simp: waiter_ok_def)
qed

theorem idle_waiters_return_witness:
  "\<exists>s. reachable s \<and> sy_waiters s = [Registered 0] \<and> waiter_poll (sy_agent s) (waiter_poll (sy_agent s) (Registered 0)) = Returned"
proof -
  let ?s = "example_system\<lparr>sy_waiters := [Registered 0]\<rparr>"
  have "agent_step example_system ?s"
    using agent_step.wait[of example_system] by (simp add: example_system_def example_agent_def)
  with reachable_example have r: "reachable ?s" by (rule reachable.step)
  from idle_waiters_return [OF r, of "Registered 0"] r show ?thesis
    by (intro exI[of _ ?s]) (simp add: example_system_def example_agent_def)
qed

section \<open>A stale stream\<close>

lemma prompt_idle:
  assumes "\<not> ag_loop_active a"
  obtains g li a' where "prompt_stream env input a = (Inr (g, li), a')" "launched a g a'"
  using assms prompt_launched[of env input a]
  by (cases "prompt_stream env input a") (auto simp: prompt_stream_def check_not_running_def split: prod.splits)

text \<open>
  C25. The end of a stale run frees an agent that is running. After a reset the caller may still
  hold the stream of the cancelled run; its guard is stale and harmless, but when the caller
  hands that stream's AgentEnd to \<^verbatim>\<open>handle_stream_event\<close> while a new run is active, the
  agent takes itself for idle and starts a third run beside the second, which nobody cancelled.
\<close>

theorem stale_end_frees_agent:
  assumes "fresh_agent a" "prompt_stream env1 in1 a = (Inr (g1, li1), a1)" "prompt_stream env2 in2 (reset a1) = (Inr (g2, li2), a2)"
  shows "guard_drop g1 a2 = a2 \<and> ag_loop_active a2
    \<and> (\<exists>g3 li3 a3. prompt_stream env3 in3 (handle_stream_event (AgentEnd ms) a2) = (Inr (g3, li3), a3)
         \<and> lg_token g3 \<noteq> lg_token g2 \<and> lg_token g2 \<notin> ag_cancelled a3)"
proof -
  from prompt_launched[OF assms(2)] assms(1) have 1: "g1 = \<lparr>lg_generation = 1, lg_token = 0\<rparr>" "life a1 = (True, 1, Some 0, 1, {}, 0)"
    by (auto simp: launched_def fresh_agent_def life_def)
  from reset_life[of a1] 1 have r: "life (reset a1) = (False, 2, None, 1, {0}, 1)" by (simp add: life_def cancel_run_def)
  with prompt_launched[OF assms(3)] have 2: "g2 = \<lparr>lg_generation = 3, lg_token = 1\<rparr>" "life a2 = (True, 3, Some 1, 2, {0}, 1)"
    by (auto simp: launched_def life_def)
  let ?b = "handle_stream_event (AgentEnd ms) a2"
  from handle_end_life[of ms a2] 2 have b: "life ?b = (False, 3, Some 1, 2, {0}, 2)" by (simp add: life_def)
  then obtain g3 li3 a3 where 3: "prompt_stream env3 in3 ?b = (Inr (g3, li3), a3)" "launched ?b g3 a3"
    by (auto simp: life_def intro: prompt_idle[of ?b env3 in3])
  from 3(2) b have "lg_token g3 = 2" "ag_cancelled a3 = {0}" by (auto simp: launched_def life_def)
  with 1 2 3(1) show ?thesis by (auto simp: guard_drop_def life_def)
qed

theorem stale_end_frees_agent_witness:
  "\<exists>g2 li2 a2. prompt_stream example_env [] (reset (snd (prompt_stream example_env [] example_agent))) = (Inr (g2, li2), a2)
     \<and> (\<exists>g3 li3 a3. prompt_stream example_env [] (handle_stream_event (AgentEnd []) a2) = (Inr (g3, li3), a3)
          \<and> lg_token g3 \<noteq> lg_token g2 \<and> lg_token g2 \<notin> ag_cancelled a3)"
proof -
  obtain g1 li1 a1 where 1: "prompt_stream example_env [] example_agent = (Inr (g1, li1), a1)"
    by (rule prompt_idle[of example_agent]) (simp add: example_agent_def)
  obtain g2 li2 a2 where 2: "prompt_stream example_env [] (reset a1) = (Inr (g2, li2), a2)"
    using reset_life[of a1] by (auto simp: life_def intro: prompt_idle[of "reset a1"])
  from stale_end_frees_agent [OF fresh_example 1 2, of example_env "[]" "[]"] 1 2 show ?thesis by auto
qed

end
