(* ===== verification/Agent_Resume.thy ===== *)
theory Agent_Resume
  imports Agent_Runs
begin

text \<open>
  What survives a pause and a resume, and a save and a restore: the conversation, the messages
  that were waiting, the prompt, the model and the session.
\<close>

section \<open>Restoring a conversation\<close>

lemma first_seen_names: "set (first_seen known ns) = set ns - known"
  by (induction ns arbitrary: known) auto

lemma inject_noop_fields [simp]:
  "ag_messages (inject_noop_tools_for_missing_references a) = ag_messages a"
  "ag_registry (inject_noop_tools_for_missing_references a) = ag_registry a"
  "ag_model (inject_noop_tools_for_missing_references a) = ag_model a"
  by (simp_all add: inject_noop_tools_for_missing_references_def Let_def)

lemma noop_tool_name [simp]: "at_name (noop_tool n) = n"
  by (simp add: noop_tool_def)

text \<open>After the placeholders are in, every tool the history calls can be dispatched.\<close>

definition tools_known :: "agent \<Rightarrow> bool" where
  "tools_known a = (\<forall>m \<in> set (ag_messages a). set (called_names m) \<subseteq> at_name ` set (ag_tools a))"

lemma inject_noop_known: "tools_known (inject_noop_tools_for_missing_references a)"
  by (auto simp: tools_known_def inject_noop_tools_for_missing_references_def Let_def image_Un image_image first_seen_names)

text \<open>The registered tools stay in front, so a placeholder never shadows one.\<close>

lemma inject_noop_keeps: "prefix (ag_tools a) (ag_tools (inject_noop_tools_for_missing_references a))"
  by (simp add: inject_noop_tools_for_missing_references_def Let_def)

lemma rebind_fields [simp]:
  "ag_messages (rebind_stream_fn_for_current_model a) = ag_messages a"
  "ag_tools (rebind_stream_fn_for_current_model a) = ag_tools a"
  "ag_registry (rebind_stream_fn_for_current_model a) = ag_registry a"
  "ag_model (rebind_stream_fn_for_current_model a) = ag_model a"
  "ag_system_prompt (rebind_stream_fn_for_current_model a) = ag_system_prompt a"
  by (simp_all add: rebind_stream_fn_for_current_model_def split: option.splits)

lemma restore_conversation_fields [simp]:
  "ag_messages (restore_conversation ms sys p m s a) = ms"
  "ag_system_prompt (restore_conversation ms sys p m s a) = sys"
  "ms_provider (ag_model (restore_conversation ms sys p m s a)) = p"
  "ms_model_id (ag_model (restore_conversation ms sys p m s a)) = m"
  "ag_session (restore_conversation ms sys p m s a) = s"
  "ag_registry (restore_conversation ms sys p m s a) = ag_registry a"
  by (simp_all add: restore_conversation_def Let_def clear_transient_runtime_state_def clear_snapshots_def)

lemma restore_conversation_known: "tools_known (restore_conversation ms sys p m s a)"
proof -
  let ?a = "inject_noop_tools_for_missing_references ((clear_transient_runtime_state a)\<lparr>ag_messages := ms\<rparr>)"
  have "tools_known ?a" by (rule inject_noop_known)
  then show ?thesis by (simp add: tools_known_def restore_conversation_def Let_def)
qed

lemma queue_ops_fields [simp]:
  "ag_messages (clear_queues a) = ag_messages a" "ag_tools (clear_queues a) = ag_tools a"
  "ag_system_prompt (clear_queues a) = ag_system_prompt a" "ag_model (clear_queues a) = ag_model a"
  "ag_session (clear_queues a) = ag_session a" "ag_registry (clear_queues a) = ag_registry a"
  "ag_steering_queue (clear_queues a) = []" "ag_follow_up_queue (clear_queues a) = []"
  by (simp_all add: clear_queues_def clear_steering_def clear_follow_up_def)

lemma fold_follow_up: "fold follow_up ms a = a\<lparr>ag_follow_up_queue := ag_follow_up_queue a @ ms\<rparr>"
  by (induction ms arbitrary: a) (simp_all add: follow_up_def)

lemma fold_steer: "fold steer ms a = a\<lparr>ag_steering_queue := ag_steering_queue a @ ms\<rparr>"
  by (induction ms arbitrary: a) (simp_all add: steer_def)

lemma session_saved:
  assumes "session_ok s"
  shows "\<exists>s'. restore_session_state (session_to_save s) = Inr s' \<and> (\<forall>k. session_get_raw s' k = session_get_raw s k)
    \<and> ss_delta s' = delta_new"
  using restored_snapshot[OF assms]
  by (cases "ss_data s = []")
    (auto simp: restore_session_state_def session_to_save_def session_get_raw_def session_new_def)

section \<open>Pause and resume\<close>

text \<open>What a pause captures: the context the loop published, or else the observable history.\<close>

definition paused_context :: "agent \<Rightarrow> agent_message list" where
  "paused_context a = (case ag_loop_context a of Some ctx \<Rightarrow> clone_messages ctx | None \<Rightarrow> ag_messages a)"

definition paused_pending :: "agent \<Rightarrow> agent_message list" where
  "paused_pending a = clone_messages (ag_pending_snapshot a) @ ag_follow_up_queue a"

lemma cancel_run_fields [simp]:
  "ag_messages (cancel_run a) = ag_messages a" "ag_loop_context (cancel_run a) = ag_loop_context a"
  "ag_pending_snapshot (cancel_run a) = ag_pending_snapshot a" "ag_follow_up_queue (cancel_run a) = ag_follow_up_queue a"
  "ag_steering_queue (cancel_run a) = ag_steering_queue a" "ag_system_prompt (cancel_run a) = ag_system_prompt a"
  "ag_model (cancel_run a) = ag_model a" "ag_session (cancel_run a) = ag_session a"
  by (simp_all add: cancel_run_def split: option.splits)

lemma batch_fields [simp]:
  "lc_system_prompt (with_pending_message_batch ms c) = lc_system_prompt c"
  "lc_provider (with_pending_message_batch ms c) = lc_provider c"
  "lc_model_id (with_pending_message_batch ms c) = lc_model_id c"
  "lc_system_prompt (with_pending_steering_message_batch ms c) = lc_system_prompt c"
  "lc_provider (with_pending_steering_message_batch ms c) = lc_provider c"
  "lc_model_id (with_pending_steering_message_batch ms c) = lc_model_id c"
  "lc_system_prompt (loop_checkpoint_new now sys p m ms) = sys"
  "lc_provider (loop_checkpoint_new now sys p m ms) = p"
  "lc_model_id (loop_checkpoint_new now sys p m ms) = m"
  by (simp_all add: with_pending_message_batch_def with_pending_steering_message_batch_def loop_checkpoint_new_def Let_def)

lemma pause_captures:
  assumes "pause now a = (Some c, a')"
  shows "restore_loop_messages r c = kept r (paused_context a)" "restore_pending_messages r c = kept r (paused_pending a)"
    "restore_pending_steering_messages r c = kept r (ag_steering_queue a)"
    "lc_system_prompt c = ag_system_prompt a" "lc_provider c = ms_provider (ag_model a)" "lc_model_id c = ms_model_id (ag_model a)"
    "lc_state c = session_to_save (ag_session a)"
    "ag_follow_up_queue a' = []" "ag_steering_queue a' = []" "ag_loop_active a' = ag_loop_active a" "ag_loop_active a"
  using assms by (auto simp: pause_def Let_def paused_context_def paused_pending_def cancel_run_def split: if_splits option.splits)

lemma restore_loop_result:
  assumes "restore_loop_messages (ag_registry b) c \<noteq> []" "restore_session_state (lc_state c) = Inr s"
  shows "\<exists>b'. restore_from_loop_checkpoint c b = (Inr (), b')
    \<and> ag_messages b' = restore_loop_messages (ag_registry b) c
    \<and> ag_follow_up_queue b' = restore_pending_messages (ag_registry b) c
    \<and> ag_steering_queue b' = restore_pending_steering_messages (ag_registry b) c
    \<and> ag_system_prompt b' = lc_system_prompt c \<and> ms_provider (ag_model b') = lc_provider c
    \<and> ms_model_id (ag_model b') = lc_model_id c \<and> ag_session b' = s \<and> tools_known b'"
  using assms restore_conversation_known
  by (simp add: restore_from_loop_checkpoint_def Let_def fold_follow_up fold_steer tools_known_def)


definition example_paused :: agent where
  "example_paused = example_agent\<lparr>ag_loop_active := True, ag_messages := [user_text ''a'', Custom tagged],
     ag_follow_up_queue := [user_text ''b''], ag_steering_queue := [user_text ''c'']\<rparr>"


section \<open>Save and restore\<close>

lemma checkpoint_state_messages [simp]: "checkpoint_messages r (c\<lparr>cp_state := x\<rparr>) = checkpoint_messages r c"
  by (simp add: checkpoint_messages_def)

text \<open>
  Saving an agent and restoring the checkpoint into an idle agent gives the conversation and the
  session back; a running agent refuses and keeps everything but its copied running flag.
\<close>

lemma save_restore:
  assumes "save_checkpoint store now ident a = Inr c" "session_ok (ag_session a)" "\<not> ag_loop_active b"
  shows "\<exists>b'. restore_from_checkpoint c b = (Inr (), b') \<and> ag_messages b' = kept (ag_registry b) (ag_messages a)
    \<and> ag_system_prompt b' = ag_system_prompt a \<and> (\<forall>k. session_get_raw (ag_session b') k = session_get_raw (ag_session a) k)
    \<and> tools_known b' \<and> ag_steering_queue b' = ag_steering_queue b \<and> ag_follow_up_queue b' = ag_follow_up_queue b"
proof -
  from assms(1) have c: "c = (checkpoint_new now ident (ag_system_prompt a) (ms_provider (ag_model a)) (ms_model_id (ag_model a))
      (ag_messages a))\<lparr>cp_state := session_to_save (ag_session a)\<rparr>"
    by (auto simp: save_checkpoint_def Let_def rbind_Inr_iff split: option.splits)
  then have f: "cp_state c = session_to_save (ag_session a)" "cp_system_prompt c = ag_system_prompt a"
    "checkpoint_messages r c = kept r (ag_messages a)" for r by (simp_all add: checkpoint_new_def Let_def checkpoint_messages_def
        restore_serialize kept_def)
  obtain s where s: "restore_session_state (cp_state c) = Inr s" "\<forall>k. session_get_raw s k = session_get_raw (ag_session a) k"
    using session_saved[OF assms(2)] f(1) by auto
  have q: "ag_steering_queue (restore_conversation ms sys p m s d) = ag_steering_queue d"
    "ag_follow_up_queue (restore_conversation ms sys p m s d) = ag_follow_up_queue d" for ms sys p m s d
    by (simp_all add: restore_conversation_def rebind_stream_fn_for_current_model_def Let_def
        inject_noop_tools_for_missing_references_def clear_transient_runtime_state_def clear_snapshots_def split: option.splits)
  from assms(3) s f restore_conversation_known show ?thesis by (simp add: restore_from_checkpoint_def check_not_running_def q)
qed

end
