(* ===== verification/Tool_Names.thy ===== *)
theory Tool_Names
  imports Prelude
begin

text \<open>
  Tool names that every provider accepts (\<^verbatim>\<open>tool_name.rs\<close>): sanitizing, joining and
  truncating with a 64-bit FNV-1a hash, and the hash-suffixed names for tools that collide.
  Strings are bytes here, so the results are about ASCII names.
\<close>

section \<open>Composition\<close>

definition MAX_TOOL_NAME_LEN :: usize where "MAX_TOOL_NAME_LEN = 64"
definition TOOL_NAME_HASH_HEX_LEN :: usize where "TOOL_NAME_HASH_HEX_LEN = 16"

definition is_ascii_alphabetic :: "char \<Rightarrow> bool" where
  "is_ascii_alphabetic c = (let n = of_char c :: nat in 65 \<le> n \<and> n \<le> 90 \<or> 97 \<le> n \<and> n \<le> 122)"

definition is_ascii_alphanumeric :: "char \<Rightarrow> bool" where
  "is_ascii_alphanumeric c = (let n = of_char c :: nat in is_ascii_alphabetic c \<or> 48 \<le> n \<and> n \<le> 57)"

definition sanitize_tool_name_component :: "string \<Rightarrow> string" where
  "sanitize_tool_name_component input =
     (if input = [] then ''_''
      else map (\<lambda>c. if is_ascii_alphanumeric c \<or> c = CHR ''_'' then c else CHR ''_'') input)"

unbundle bit_operations_syntax

definition fnv_prime :: u64 where "fnv_prime = 0x100000001b3"

fun fnv_loop :: "u64 \<Rightarrow> string \<Rightarrow> u64" where
  "fnv_loop hash [] = hash"
| "fnv_loop hash (b # bs) = fnv_loop ((hash XOR of_nat (of_char b)) * fnv_prime) bs"

text \<open>\<^verbatim>\<open>{hash:016x}\<close>: sixteen lower-case hex digits, the most significant first.\<close>

definition hex_digit :: "nat \<Rightarrow> char" where
  "hex_digit k = char_of (if k < 10 then 48 + k else 87 + k)"

definition hex16 :: "u64 \<Rightarrow> string" where
  "hex16 h = map (\<lambda>i. hex_digit (unat (drop_bit (4 * i) h) mod 16)) (rev [0..<16])"

definition stable_name_hash_hex :: "string \<Rightarrow> string" where
  "stable_name_hash_hex input = hex16 (fnv_loop 0xcbf29ce484222325 input)"

definition hashed_name :: "string \<Rightarrow> string \<Rightarrow> string" where
  "hashed_name base hash = take (MAX_TOOL_NAME_LEN - TOOL_NAME_HASH_HEX_LEN - 1) base @ ''_'' @ hash"

definition compose_provider_safe_tool_name :: "string option \<Rightarrow> string \<Rightarrow> string" where
  "compose_provider_safe_tool_name namespace tool_name =
     (let sanitized_tool = sanitize_tool_name_component tool_name;
          joined = (case namespace of
              Some ns \<Rightarrow> sanitize_tool_name_component ns @ ''_'' @ sanitized_tool
            | None \<Rightarrow> sanitized_tool);
          with_leading_letter = (case joined of
              c # _ \<Rightarrow> if is_ascii_alphabetic c then joined else ''t_'' @ joined
            | [] \<Rightarrow> ''t_'' @ joined)
      in if length with_leading_letter \<le> MAX_TOOL_NAME_LEN then with_leading_letter
         else hashed_name with_leading_letter (stable_name_hash_hex with_leading_letter))"

definition disambiguate_provider_safe_tool_name :: "string \<Rightarrow> string \<Rightarrow> string" where
  "disambiguate_provider_safe_tool_name base_name raw_identity = hashed_name base_name (stable_name_hash_hex raw_identity)"

section \<open>The grammar\<close>

definition tool_name_char :: "char \<Rightarrow> bool" where
  "tool_name_char c = (is_ascii_alphanumeric c \<or> c = CHR ''_'')"

definition provider_safe :: "string \<Rightarrow> bool" where
  "provider_safe s = (s \<noteq> [] \<and> is_ascii_alphabetic (hd s) \<and> list_all tool_name_char s \<and> length s \<le> MAX_TOOL_NAME_LEN)"

lemma hex_digit_char: "k < 16 \<Longrightarrow> tool_name_char (hex_digit k)"
  by (auto simp: tool_name_char_def hex_digit_def is_ascii_alphanumeric_def is_ascii_alphabetic_def Let_def of_char_of)

lemma hex16_chars: "list_all tool_name_char (hex16 h)"
  by (simp add: hex16_def list_all_iff hex_digit_char)

lemma hex16_length [simp]: "length (hex16 h) = 16"
  by (simp add: hex16_def)

lemma sanitize_chars: "list_all tool_name_char (sanitize_tool_name_component s)" "sanitize_tool_name_component s \<noteq> []"
  by (auto simp: sanitize_tool_name_component_def list_all_iff tool_name_char_def)

lemma sanitize_identity: "s \<noteq> [] \<Longrightarrow> list_all tool_name_char s \<Longrightarrow> sanitize_tool_name_component s = s"
  by (induction s) (auto simp: sanitize_tool_name_component_def tool_name_char_def list_all_iff intro!: map_idI)

lemma alphabetic_char: "is_ascii_alphabetic c \<Longrightarrow> tool_name_char c"
  by (simp add: tool_name_char_def is_ascii_alphanumeric_def Let_def)

lemma hashed_name_safe:
  assumes "base \<noteq> []" "is_ascii_alphabetic (hd base)" "list_all tool_name_char base"
  shows "provider_safe (hashed_name base (hex16 h))"
proof -
  have "tool_name_char (CHR ''_'')" by (simp add: tool_name_char_def)
  moreover from assms(1) obtain c cs where "base = c # cs" by (cases base) auto
  moreover from this assms(3) have "tool_name_char c" "list_all tool_name_char (take 46 cs)"
    by (auto simp: list_all_iff dest: in_set_takeD)
  ultimately show ?thesis using assms(2) hex16_chars[of h]
    by (auto simp: provider_safe_def hashed_name_def MAX_TOOL_NAME_LEN_def TOOL_NAME_HASH_HEX_LEN_def take_Cons' split: if_splits)
qed

lemma composed_safe: "provider_safe (compose_provider_safe_tool_name ns t)"
proof -
  define joined where "joined = (case ns of
              Some ns \<Rightarrow> sanitize_tool_name_component ns @ ''_'' @ sanitize_tool_name_component t
            | None \<Rightarrow> sanitize_tool_name_component t)"
  define full where "full = (case joined of c # _ \<Rightarrow> if is_ascii_alphabetic c then joined else ''t_'' @ joined | [] \<Rightarrow> ''t_'' @ joined)"
  have u: "tool_name_char (CHR ''_'')" "is_ascii_alphabetic (CHR ''t'')"
    by (simp_all add: tool_name_char_def is_ascii_alphabetic_def)
  have "list_all tool_name_char joined"
    using sanitize_chars u by (auto simp: joined_def split: option.splits)
  then have full: "full \<noteq> []" "is_ascii_alphabetic (hd full)" "list_all tool_name_char full"
    using u alphabetic_char[OF u(2)] by (auto simp: full_def split: list.splits)
  have c: "compose_provider_safe_tool_name ns t =
      (if length full \<le> MAX_TOOL_NAME_LEN then full else hashed_name full (stable_name_hash_hex full))"
    unfolding compose_provider_safe_tool_name_def Let_def full_def joined_def by (rule refl)
  show ?thesis
    unfolding c using full hashed_name_safe[OF full] by (simp add: provider_safe_def[of full] stable_name_hash_hex_def)
qed

lemma disambiguated_safe: "provider_safe base \<Longrightarrow> provider_safe (disambiguate_provider_safe_tool_name base raw)"
  using hashed_name_safe by (simp add: provider_safe_def[of base] disambiguate_provider_safe_tool_name_def stable_name_hash_hex_def)

text \<open>
  C22. Composed tool names are accepted by every provider. Whatever the plugin and the tool are
  called, the composed name starts with a letter, uses letters, digits and underscores only and
  has at most 64 characters; so has the name chosen when it collides. A short name that is already
  safe is kept.
\<close>

theorem tool_names_provider_safe:
  "provider_safe (compose_provider_safe_tool_name ns t)
   \<and> (provider_safe base \<longrightarrow> provider_safe (disambiguate_provider_safe_tool_name base raw))
   \<and> (provider_safe base \<longrightarrow> compose_provider_safe_tool_name None base = base)"
proof -
  have "compose_provider_safe_tool_name None base = base" if "provider_safe base"
    using that sanitize_identity[of base]
    by (cases base) (auto simp: provider_safe_def compose_provider_safe_tool_name_def Let_def)
  with composed_safe disambiguated_safe show ?thesis by blast
qed

theorem tool_names_provider_safe_witness:
  "compose_provider_safe_tool_name (Some ''my-web'') ''search'' = ''my_web_search''
   \<and> provider_safe (disambiguate_provider_safe_tool_name ''my_web_search'' ''x'')
   \<and> compose_provider_safe_tool_name None ''my_web_search'' = ''my_web_search''"
proof -
  have s: "provider_safe ''my_web_search''"
    by (simp add: provider_safe_def MAX_TOOL_NAME_LEN_def tool_name_char_def is_ascii_alphanumeric_def is_ascii_alphabetic_def)
  have "compose_provider_safe_tool_name (Some ''my-web'') ''search'' = ''my_web_search''"
    by (simp add: compose_provider_safe_tool_name_def sanitize_tool_name_component_def is_ascii_alphanumeric_def
        is_ascii_alphabetic_def MAX_TOOL_NAME_LEN_def)
  with s tool_names_provider_safe [of "Some ''my-web''" "''search''" "''my_web_search''" "''x''"] show ?thesis by blast
qed

section \<open>Hashes of different last bytes differ\<close>

lemma fnv_append: "fnv_loop h (xs @ ys) = fnv_loop (fnv_loop h xs) ys"
  by (induction xs arbitrary: h) simp_all

text \<open>The prime is odd, so multiplying by it loses nothing.\<close>

lemma fnv_prime_cancel: "a * fnv_prime = b * fnv_prime \<Longrightarrow> a = (b :: u64)"
proof -
  assume "a * fnv_prime = b * fnv_prime"
  then have "a * (fnv_prime * 0xce965057aff6957b) = b * (fnv_prime * 0xce965057aff6957b)"
    by (simp only: mult.assoc[symmetric])
  moreover have "fnv_prime * 0xce965057aff6957b = 1" by (simp add: fnv_prime_def)
  ultimately show ?thesis by simp
qed

lemma xor_cancel: "(h :: u64) XOR a = h XOR b \<longleftrightarrow> a = b"
proof
  assume "h XOR a = h XOR b"
  then have "h XOR (h XOR a) = h XOR (h XOR b)" by simp
  then show "a = b" by (simp add: xor.assoc[symmetric])
qed simp

lemma byte_word_inj: "(of_nat (of_char a) :: u64) = of_nat (of_char b) \<longleftrightarrow> a = b"
proof
  assume "(of_nat (of_char a) :: u64) = of_nat (of_char b)"
  then have "of_char a = (of_char b :: nat)"
    using nat_of_char_less_256[of a] nat_of_char_less_256[of b] by (simp add: word_unat_eq_iff unat_of_nat)
  then show "a = b" by (simp add: of_char_eq_iff)
qed simp

lemma fnv_last_differs: "fnv_loop h (s @ [a]) = fnv_loop h (s @ [b]) \<longleftrightarrow> a = b"
  by (auto simp: fnv_append xor_cancel byte_word_inj dest!: fnv_prime_cancel)

lemma hex_digit_inj: "k < 16 \<Longrightarrow> k' < 16 \<Longrightarrow> hex_digit k = hex_digit k' \<longleftrightarrow> k = k'"
  by (auto simp: hex_digit_def split: if_splits)

lemma hex16_inj: "hex16 g = hex16 h \<longleftrightarrow> g = h"
proof
  assume eq: "hex16 g = hex16 h"
  show "g = h"
  proof (rule bit_word_eqI)
    fix n assume n: "n < LENGTH(64)"
    have "hex_digit (unat (drop_bit (4 * (n div 4)) g) mod 16) = hex_digit (unat (drop_bit (4 * (n div 4)) h) mod 16)"
      using eq n by (auto simp: hex16_def)
    then have d: "unat (drop_bit (4 * (n div 4)) g) mod 16 = unat (drop_bit (4 * (n div 4)) h) mod 16"
      by (simp add: hex_digit_inj)
    have "bit g n = bit (unat (drop_bit (4 * (n div 4)) g) mod 16) (n mod 4)" for g :: u64
    proof -
      have "unat (drop_bit (4 * (n div 4)) g) mod 16 = take_bit 4 (unat (drop_bit (4 * (n div 4)) g))"
        by (simp add: take_bit_eq_mod)
      moreover have "4 * (n div 4) + n mod 4 = n" by simp
      ultimately show ?thesis using n by (simp add: bit_take_bit_iff bit_unsigned_iff bit_drop_bit_eq)
    qed
    with d show "bit g n = bit h n" by simp
  qed
qed simp

end
