(* ===== verification/Agent_Build.thy ===== *)
theory Agent_Build
  imports Agent_Runs Tool_Names
begin

text \<open>
  Constructing an agent: options (\<^verbatim>\<open>agent_options.rs\<close>), plugins and their collection
  (\<^verbatim>\<open>plugin.rs\<close>), and \<^verbatim>\<open>Agent::new\<close> with the merge of plugin contributions
  (\<^verbatim>\<open>agent.rs\<close>). A panic of the constructor is the left value; the search for a free tool
  name has no bound, so it is a partial function.
\<close>

section \<open>Plugins\<close>

record plugin =
  pl_name :: string
  pl_priority :: int
  pl_pre_turn_policies :: "pre_turn_policy list"
  pl_pre_dispatch_policies :: "pre_dispatch_policy list"
  pl_post_turn_policies :: "post_turn_policy list"
  pl_post_loop_policies :: "post_loop_policy list"
  pl_on_event :: listener
  pl_tools :: "agent_tool list"

fun dedup_insert_plugin :: "plugin \<Rightarrow> plugin list \<Rightarrow> plugin list" where
  "dedup_insert_plugin p [] = [p]"
| "dedup_insert_plugin p (q # qs) = (if pl_name q = pl_name p then p # qs else q # dedup_insert_plugin p qs)"

definition priority_desc :: "plugin \<Rightarrow> int" where
  "priority_desc p = - pl_priority p"

definition plugins_unregister :: "string \<Rightarrow> plugin list \<Rightarrow> plugin list" where
  "plugins_unregister name ps = filter (\<lambda>p. pl_name p \<noteq> name) ps"

definition plugins_get :: "string \<Rightarrow> plugin list \<Rightarrow> plugin option" where
  "plugins_get name ps = find (\<lambda>p. pl_name p = name) ps"

definition plugins_list :: "plugin list \<Rightarrow> plugin list" where
  "plugins_list ps = sort_key priority_desc ps"

section \<open>Options\<close>

record agent_options =
  opt_system_prompt :: string
  opt_static_system_prompt :: "string option"
  opt_model :: model_spec
  opt_tools :: "agent_tool list"
  opt_stream_fn :: stream_fn
  opt_steering_mode :: steering_mode
  opt_follow_up_mode :: follow_up_mode
  opt_structured_output_max_retries :: usize
  opt_available_models :: "(model_spec \<times> stream_fn) list"
  opt_event_forwarders :: "listener list"
  opt_custom_message_registry :: "custom_message_registry option"
  opt_token_counter :: "(agent_message \<Rightarrow> usize) option"
  opt_external_provider :: "message_provider option"
  opt_plan_mode_addendum :: "string option"
  opt_session_state :: "session_state option"
  opt_plugins :: "plugin list"
  opt_settings :: agent_loop_config

text \<open>
  \<open>AgentOptions::new\<close>: every setting at its default. \<open>base\<close> holds what a loop configuration has
  beside settings: parser, catalog, clock and scheduler.
\<close>

definition options_new :: "agent_loop_config \<Rightarrow> string \<Rightarrow> model_spec \<Rightarrow> stream_fn \<Rightarrow> (agent_message \<Rightarrow> llm_message option)
    \<Rightarrow> agent_options" where
  "options_new base system_prompt model f convert =
     \<lparr>opt_system_prompt = system_prompt, opt_static_system_prompt = None, opt_model = model, opt_tools = [], opt_stream_fn = f,
      opt_steering_mode = SteerOneAtATime, opt_follow_up_mode = FollowOneAtATime, opt_structured_output_max_retries = 3,
      opt_available_models = [], opt_event_forwarders = [], opt_custom_message_registry = None, opt_token_counter = None,
      opt_external_provider = None, opt_plan_mode_addendum = None, opt_session_state = None, opt_plugins = [],
      opt_settings = base\<lparr>cfg_agent_name := None, cfg_transfer_chain := None,
        cfg_retry_strategy := \<lparr>retry_should = \<lambda>_ e a. should_retry default_retry e a,
          retry_delay_of = retry_delay_of (cfg_retry_strategy base)\<rparr>,
        cfg_convert_to_llm := convert, cfg_transform_context := Some (SlidingWindow (sw_new 100000 50000 2)),
        cfg_async_transform_context := None, cfg_get_api_key := None, cfg_approve_tool := None, cfg_approval_mode := ModeSmart,
        cfg_pre_turn_policies := [], cfg_pre_dispatch_policies := [], cfg_post_turn_policies := [], cfg_post_loop_policies := [],
        cfg_fallback := None, cfg_tool_execution_policy := Concurrent, cfg_credential_resolver := None, cfg_cache_config := None,
        cfg_dynamic_system_prompt := None, cfg_cost_calculator := None, cfg_reasoning_only_nudge := False\<rparr>\<rparr>"

definition options_new_simple :: "agent_loop_config \<Rightarrow> string \<Rightarrow> model_spec \<Rightarrow> stream_fn \<Rightarrow> agent_options" where
  "options_new_simple base system_prompt model f = options_new base system_prompt model f default_convert"

definition with_tools :: "agent_tool list \<Rightarrow> agent_options \<Rightarrow> agent_options" where
  "with_tools tools o' = o'\<lparr>opt_tools := tools\<rparr>"

definition with_token_counter :: "(agent_message \<Rightarrow> usize) \<Rightarrow> agent_options \<Rightarrow> agent_options" where
  "with_token_counter counter o' = o'\<lparr>opt_token_counter := Some counter\<rparr>"

definition with_plugin :: "plugin \<Rightarrow> agent_options \<Rightarrow> agent_options" where
  "with_plugin p o' = o'\<lparr>opt_plugins := dedup_insert_plugin p (opt_plugins o')\<rparr>"

definition with_plugins :: "plugin list \<Rightarrow> agent_options \<Rightarrow> agent_options" where
  "with_plugins ps o' = fold with_plugin ps o'"

definition effective_system_prompt :: "agent_options \<Rightarrow> string" where
  "effective_system_prompt o' = (case opt_static_system_prompt o' of Some s \<Rightarrow> s | None \<Rightarrow> opt_system_prompt o')"

section \<open>Merging plugins\<close>

definition raw_identity :: "string \<Rightarrow> string \<Rightarrow> usize \<Rightarrow> string" where
  "raw_identity plugin_name raw_name attempt =
     (if attempt = 0 then plugin_name @ [CHR 0x00] @ raw_name
      else plugin_name @ [CHR 0x00] @ raw_name @ [CHR 0x00] @ show_nat attempt)"

text \<open>The name of a colliding tool, \<open>Some None\<close> when a direct tool owns it and the tool is skipped.\<close>

partial_function (option) free_name :: "string list \<Rightarrow> string list \<Rightarrow> string \<Rightarrow> (usize \<Rightarrow> string) \<Rightarrow> usize \<Rightarrow> string option option" where
  "free_name direct taken base identity attempt =
     (let name = disambiguate_provider_safe_tool_name base (identity attempt)
      in if name \<in> set direct then Some None
         else if name \<notin> set taken then Some (Some name)
         else free_name direct taken base identity (attempt + 1))"

definition plugin_tool_name :: "string list \<Rightarrow> string list \<Rightarrow> string \<Rightarrow> string \<Rightarrow> string option option" where
  "plugin_tool_name direct taken plugin_name raw_name =
     (let name = compose_provider_safe_tool_name (Some plugin_name) raw_name
      in if name \<in> set direct then Some None
         else if name \<in> set taken then free_name direct taken name (raw_identity plugin_name raw_name) 0
         else Some (Some name))"

definition namespaced_tool :: "string \<Rightarrow> agent_tool \<Rightarrow> agent_tool" where
  "namespaced_tool name inner = inner\<lparr>at_name := name\<rparr>"

fun merge_tools :: "string list \<Rightarrow> (string \<times> agent_tool) list \<Rightarrow> agent_tool list \<Rightarrow> agent_tool list option" where
  "merge_tools direct [] plugin_tools = Some plugin_tools"
| "merge_tools direct ((plugin_name, inner) # rest) plugin_tools =
     (case plugin_tool_name direct (map at_name plugin_tools) plugin_name (at_name inner) of
        None \<Rightarrow> None
      | Some None \<Rightarrow> merge_tools direct rest plugin_tools
      | Some (Some name) \<Rightarrow> merge_tools direct rest (plugin_tools @ [namespaced_tool name inner]))"

definition contributed_tools :: "plugin list \<Rightarrow> (string \<times> agent_tool) list" where
  "contributed_tools ps = concat (map (\<lambda>p. map (\<lambda>t. (pl_name p, t)) (pl_tools p)) ps)"

definition merge_plugin_contributions :: "agent_options \<Rightarrow> agent_options option" where
  "merge_plugin_contributions o' =
     (let ps = sort_key priority_desc (opt_plugins o');
          s = opt_settings o'
      in map_option (\<lambda>plugin_tools.
           o'\<lparr>opt_plugins := ps, opt_tools := opt_tools o' @ plugin_tools,
              opt_event_forwarders := map pl_on_event ps @ opt_event_forwarders o',
              opt_settings := s\<lparr>
                cfg_pre_turn_policies := concat (map pl_pre_turn_policies ps) @ cfg_pre_turn_policies s,
                cfg_pre_dispatch_policies := concat (map pl_pre_dispatch_policies ps) @ cfg_pre_dispatch_policies s,
                cfg_post_turn_policies := concat (map pl_post_turn_policies ps) @ cfg_post_turn_policies s,
                cfg_post_loop_policies := concat (map pl_post_loop_policies ps) @ cfg_post_loop_policies s\<rparr>\<rparr>)
         (merge_tools (map at_name (opt_tools o')) (contributed_tools ps) []))"

section \<open>The constructor\<close>

definition available_models_and_stream_fns :: "agent_options \<Rightarrow> model_spec list \<times> (model_spec \<times> stream_fn) list" where
  "available_models_and_stream_fns o' =
     (opt_model o' # map fst (opt_available_models o'), (opt_model o', opt_stream_fn o') # opt_available_models o')"

definition effective_transformer :: "agent_options \<Rightarrow> context_transformer option" where
  "effective_transformer o' =
     (case (opt_token_counter o', cfg_transform_context (opt_settings o')) of
        (Some counter, None) \<Rightarrow> Some (SlidingWindow ((sw_new 100000 50000 2)\<lparr>sw_token_counter := Some counter\<rparr>))
      | (_, tc) \<Rightarrow> tc)"

definition assemble :: "agent_options \<Rightarrow> agent" where
  "assemble o' =
     (case available_models_and_stream_fns o' of (available_models, model_stream_fns) \<Rightarrow>
      \<lparr>ag_system_prompt = effective_system_prompt o', ag_model = opt_model o', ag_tools = opt_tools o', ag_messages = [],
       ag_is_running = False, ag_stream_message = None, ag_pending_tool_calls = {}, ag_error = None,
       ag_available_models = available_models, ag_steering_queue = [], ag_follow_up_queue = [], ag_listeners = [],
       ag_abort_controller = None, ag_steering_mode = opt_steering_mode o', ag_follow_up_mode = opt_follow_up_mode o',
       ag_stream_fn = opt_stream_fn o', ag_structured_output_max_retries = opt_structured_output_max_retries o',
       ag_wakeups = 0, ag_pending_snapshot = [], ag_loop_context = None, ag_model_stream_fns = model_stream_fns,
       ag_event_forwarders = opt_event_forwarders o', ag_registry = opt_custom_message_registry o',
       ag_external_provider = opt_external_provider o', ag_plan_mode_addendum = opt_plan_mode_addendum o',
       ag_session = (case opt_session_state o' of Some s \<Rightarrow> s | None \<Rightarrow> session_new), ag_loop_active = False,
       ag_loop_generation = 0, ag_settings = (opt_settings o')\<lparr>cfg_transform_context := effective_transformer o'\<rparr>,
       ag_published_prefix = 0, ag_tokens = 0, ag_cancelled = {}\<rparr>)"

definition agent_new :: "agent_options \<Rightarrow> (string, agent) result option" where
  "agent_new o' =
     map_option (\<lambda>o'. rbind (assert_unique_tool_names (opt_tools o')) (\<lambda>_. Inr (assemble o'))) (merge_plugin_contributions o')"

section \<open>Names stay unique\<close>

lemma duplicate_names_distinct: "duplicate_names seen ns = [] \<longleftrightarrow> distinct ns \<and> set seen \<inter> set ns = {}"
  by (induction ns arbitrary: seen) auto

lemma assert_unique: "assert_unique_tool_names ts = Inr () \<longleftrightarrow> distinct (map at_name ts)"
  using duplicate_names_distinct[of "[]" "map at_name ts"] by (simp add: assert_unique_tool_names_def Let_def)

definition fresh_name :: "string list \<Rightarrow> string list \<Rightarrow> string \<Rightarrow> string option \<Rightarrow> bool" where
  "fresh_name direct taken base r = (\<forall>name. r = Some name \<longrightarrow>
     name \<notin> set direct \<and> name \<notin> set taken \<and> (\<exists>raw. name = disambiguate_provider_safe_tool_name base raw))"

lemma free_name_result: "free_name direct taken base identity attempt = Some r \<Longrightarrow> fresh_name direct taken base r"
proof (rule free_name.raw_induct[where P = "\<lambda>direct taken base identity attempt r. fresh_name direct taken base r"])
  fix free :: "string list \<Rightarrow> string list \<Rightarrow> string \<Rightarrow> (usize \<Rightarrow> string) \<Rightarrow> usize \<Rightarrow> string option option"
  fix direct taken base identity attempt r
  assume ih: "\<And>direct taken base identity attempt r. free direct taken base identity attempt = Some r \<Longrightarrow> fresh_name direct taken base r"
    and run: "(let name = disambiguate_provider_safe_tool_name base (identity attempt)
      in if name \<in> set direct then Some None
         else if name \<notin> set taken then Some (Some name)
         else free direct taken base identity (attempt + 1)) = Some r"
  then show "fresh_name direct taken base r" by (auto simp: Let_def fresh_name_def split: if_splits)
qed

lemma plugin_tool_name_result:
  assumes "plugin_tool_name direct taken p raw = Some (Some name)"
  shows "name \<notin> set direct" "name \<notin> set taken" "provider_safe name"
  using assms composed_safe disambiguated_safe
  by (auto simp: plugin_tool_name_def Let_def fresh_name_def split: if_splits dest!: free_name_result)

definition plugin_tools_ok :: "string list \<Rightarrow> agent_tool list \<Rightarrow> bool" where
  "plugin_tools_ok direct ts = (distinct (map at_name ts) \<and> set (map at_name ts) \<inter> set direct = {} \<and> list_all (provider_safe \<circ> at_name) ts)"

lemma merge_tools_ok:
  "merge_tools direct rest ts = Some ts' \<Longrightarrow> plugin_tools_ok direct ts \<Longrightarrow> plugin_tools_ok direct ts'"
proof (induction direct rest ts rule: merge_tools.induct)
  case (2 direct p inner rest ts)
  show ?case
  proof (cases "plugin_tool_name direct (map at_name ts) p (at_name inner)")
    case (Some r)
    then show ?thesis
    proof (cases r)
      case (Some name)
      with \<open>plugin_tool_name _ _ _ _ = _\<close> plugin_tool_name_result[of direct "map at_name ts" p "at_name inner" name]
      have "plugin_tools_ok direct (ts @ [namespaced_tool name inner])"
        using 2(4) by (auto simp: plugin_tools_ok_def namespaced_tool_def)
      with 2 Some \<open>plugin_tool_name _ _ _ _ = _\<close> show ?thesis by simp
    qed (use 2 in simp)
  qed (use 2 in simp)
qed simp

section \<open>A free name is found\<close>

lemma free_name_returns:
  assumes "attempt \<le> i" "disambiguate_provider_safe_tool_name base (identity i) \<notin> set taken"
  shows "\<exists>r. free_name direct taken base identity attempt = Some r"
  using assms
proof (induction "i - attempt" arbitrary: attempt)
  case 0
  then have "attempt = i" by simp
  with 0 show ?case by (simp add: free_name.simps[of _ _ _ _ i] Let_def)
next
  case (Suc n)
  then have "n = i - (attempt + 1)" "attempt + 1 \<le> i" by simp_all
  with Suc.hyps(1)[OF this Suc.prems(2)] show ?case by (subst free_name.simps) (simp add: Let_def)
qed

definition one_char :: char where
  "one_char = char_of (49::nat)"

lemma two_digits: "d < 10 \<Longrightarrow> show_nat (10 + d) = [one_char, char_of (48 + d)]"
  by (simp add: show_nat.simps one_char_def)

lemma attempts_differ:
  assumes "d < 10" "e < 10"
    "disambiguate_provider_safe_tool_name base (raw_identity p raw (10 + d))
       = disambiguate_provider_safe_tool_name base (raw_identity p raw (10 + e))"
  shows "d = e"
proof -
  have r: "raw_identity p raw (10 + k) = (p @ [CHR 0x00] @ raw @ [CHR 0x00, one_char]) @ [char_of (48 + k)]" if "k < 10" for k
    using that by (simp add: raw_identity_def two_digits)
  from assms have "char_of (48 + d) = (char_of (48 + e) :: char)"
    by (simp only: disambiguate_provider_safe_tool_name_def hashed_name_def stable_name_hash_hex_def same_append_eq hex16_inj
        r fnv_last_differs)
  then have "of_char (char_of (48 + d) :: char) = (of_char (char_of (48 + e) :: char) :: nat)" by simp
  with assms(1,2) show ?thesis by (simp add: of_char_of)
qed

lemma plugin_tool_name_returns:
  assumes "length taken < 10"
  shows "\<exists>r. plugin_tool_name direct taken p raw = Some r"
proof -
  let ?base = "compose_provider_safe_tool_name (Some p) raw"
  let ?name = "\<lambda>d. disambiguate_provider_safe_tool_name ?base (raw_identity p raw (10 + d))"
  have "inj_on ?name {..<10}" by (rule inj_onI) (auto dest: attempts_differ)
  then have "card (?name ` {..<10}) = 10" by (simp add: card_image)
  moreover have "card (set taken) < 10" using assms card_length[of taken] by simp
  ultimately have "\<not> ?name ` {..<10} \<subseteq> set taken" by (metis List.finite_set card_mono not_le)
  then obtain d where "?name d \<notin> set taken" by blast
  from free_name_returns[where attempt = 0 and i = "10 + d" and identity = "raw_identity p raw", OF _ this] show ?thesis by (simp add: plugin_tool_name_def Let_def)
qed

lemma merge_tools_returns:
  "length ts + length rest \<le> 10 \<Longrightarrow> \<exists>ts'. merge_tools direct rest ts = Some ts'"
proof (induction direct rest ts rule: merge_tools.induct)
  case (2 direct p inner rest ts)
  then have "length (map at_name ts) < 10" by simp
  from plugin_tool_name_returns[OF this] obtain r where r: "plugin_tool_name direct (map at_name ts) p (at_name inner) = Some r" by blast
  show ?case
  proof (cases r)
    case None
    with 2(1)[OF r None] 2(3) r show ?thesis by simp
  next
    case (Some name)
    with 2(2)[OF r Some] 2(3) r show ?thesis by simp
  qed
qed simp

text \<open>
  C21. Plugins never take a tool's name. When the direct tools have distinct names, constructing an
  agent that returns does not panic: the direct tools stay in front and unchanged, and the names of
  all its tools are distinct, those of the plugin tools accepted by every provider. The search for
  free names ends when the plugins contribute at most ten tools; for more it is only known that
  an agent that is built is right, since 64-bit hashes could go on colliding.
\<close>

theorem plugin_tools_never_collide:
  assumes "distinct (map at_name (opt_tools o'))"
  shows "(\<forall>r. agent_new o' = Some r \<longrightarrow>
       (\<exists>a ts. r = Inr a \<and> ag_tools a = opt_tools o' @ ts \<and> distinct (map at_name (ag_tools a))
          \<and> list_all (provider_safe \<circ> at_name) ts))
    \<and> (length (contributed_tools (sort_key priority_desc (opt_plugins o'))) \<le> 10 \<longrightarrow> agent_new o' \<noteq> None)"
proof (intro conjI allI impI)
  let ?tools = "contributed_tools (sort_key priority_desc (opt_plugins o'))"
  let ?direct = "map at_name (opt_tools o')"
  fix r assume "agent_new o' = Some r"
  then obtain m where m: "merge_plugin_contributions o' = Some m"
    "r = rbind (assert_unique_tool_names (opt_tools m)) (\<lambda>_. Inr (assemble m))" by (auto simp: agent_new_def)
  from m(1) obtain ts where ts: "merge_tools ?direct ?tools [] = Some ts" "opt_tools m = opt_tools o' @ ts"
    by (auto simp: merge_plugin_contributions_def Let_def)
  from merge_tools_ok[OF ts(1)] have ok: "plugin_tools_ok ?direct ts" by (simp add: plugin_tools_ok_def)
  with assms ts(2) have d: "distinct (map at_name (opt_tools m))" by (auto simp: plugin_tools_ok_def)
  with m(2) assert_unique[of "opt_tools m"] have "r = Inr (assemble m)" by simp
  moreover have "ag_tools (assemble m) = opt_tools m" by (simp add: assemble_def available_models_and_stream_fns_def)
  ultimately show "\<exists>a ts. r = Inr a \<and> ag_tools a = opt_tools o' @ ts \<and> distinct (map at_name (ag_tools a))
          \<and> list_all (provider_safe \<circ> at_name) ts"
    using d ts(2) ok by (auto simp: plugin_tools_ok_def)
next
  let ?tools = "contributed_tools (sort_key priority_desc (opt_plugins o'))"
  assume "length ?tools \<le> 10"
  with merge_tools_returns[of "[]" ?tools "map at_name (opt_tools o')"] show "agent_new o' \<noteq> None"
    by (auto simp: agent_new_def merge_plugin_contributions_def Let_def)
qed

definition example_plugin :: "string \<Rightarrow> plugin" where
  "example_plugin name = \<lparr>pl_name = name, pl_priority = 0, pl_pre_turn_policies = [], pl_pre_dispatch_policies = [],
     pl_post_turn_policies = [], pl_post_loop_policies = [], pl_on_event = \<lambda>_. False, pl_tools = [noop_tool ''search'']\<rparr>"

definition example_options :: agent_options where
  "example_options = with_plugin (example_plugin ''my.web'') (with_plugin (example_plugin ''my-web'')
     (options_new_simple (example_cfg (\<lambda>_ _ _ _. []) (\<lambda>_. False)) ''sys'' (model_spec_new ''p'' ''m'') (\<lambda>_ _ _ _. [])))"

text \<open>Two plugins whose tools sanitize to the same name.\<close>

theorem plugin_tools_never_collide_witness:
  "\<exists>a. agent_new example_options = Some (Inr a) \<and> distinct (map at_name (ag_tools a))"
proof -
  have t: "opt_tools example_options = []" by (simp add: example_options_def with_plugin_def options_new_simple_def options_new_def)
  have d: "distinct (map at_name (opt_tools example_options))" by (simp add: t)
  have "length (contributed_tools (sort_key priority_desc (opt_plugins example_options))) \<le> 10"
    by (simp add: example_options_def with_plugin_def options_new_simple_def options_new_def example_plugin_def
        contributed_tools_def priority_desc_def)
  with plugin_tools_never_collide [OF d] show ?thesis by auto
qed

section \<open>The token counter of the options\<close>

text \<open>
  The configured token counter is ignored. \<^verbatim>\<open>with_token_counter\<close> promises a counter
  for the default sliding window, but \<^verbatim>\<open>AgentOptions::new\<close> has already installed that
  transformer, so the constructor takes it for a custom one: an agent built with a counter is the
  agent built without it.
\<close>

theorem token_counter_ignored:
  "agent_new (with_token_counter counter (with_plugins ps (options_new base system_prompt model f convert)))
     = agent_new (with_plugins ps (options_new base system_prompt model f convert))
   \<and> effective_transformer (with_token_counter counter (options_new base system_prompt model f convert))
     = Some (SlidingWindow (sw_new 100000 50000 2))"
proof -
  let ?o = "with_plugins ps (options_new base system_prompt model f convert)"
  have keeps: "opt_settings (with_plugins ps q) = opt_settings q \<and> opt_token_counter (with_plugins ps q) = opt_token_counter q" for q
    unfolding with_plugins_def by (induction ps arbitrary: q) (simp_all add: with_plugin_def)
  then have s: "cfg_transform_context (opt_settings ?o) = Some (SlidingWindow (sw_new 100000 50000 2))"
    by (simp add: options_new_def)
  let ?c = "\<lambda>o'. o'\<lparr>opt_token_counter := Some counter\<rparr>"
  have m: "merge_plugin_contributions (?c q) = map_option ?c (merge_plugin_contributions q)" for q
    by (cases "merge_tools (map at_name (opt_tools q)) (contributed_tools (sort_key priority_desc (opt_plugins q))) []")
      (simp_all add: merge_plugin_contributions_def Let_def)
  have a: "rbind (assert_unique_tool_names (opt_tools (?c q))) (\<lambda>_. Inr (assemble (?c q)))
      = rbind (assert_unique_tool_names (opt_tools q)) (\<lambda>_. Inr (assemble q))"
    if "cfg_transform_context (opt_settings q) = Some t" for q t
    using that by (simp add: assemble_def effective_transformer_def available_models_and_stream_fns_def effective_system_prompt_def
        split: option.split)
  have t: "cfg_transform_context (opt_settings q) = Some (SlidingWindow (sw_new 100000 50000 2))"
    if "merge_plugin_contributions ?o = Some q" for q
    using that s by (auto simp: merge_plugin_contributions_def Let_def)
  have "agent_new (?c ?o) = agent_new ?o"
    using a t by (cases "merge_plugin_contributions ?o") (simp_all add: agent_new_def m)
  moreover have "effective_transformer (with_token_counter counter (options_new base system_prompt model f convert))
     = Some (SlidingWindow (sw_new 100000 50000 2))"
    by (simp add: effective_transformer_def with_token_counter_def options_new_def)
  ultimately show ?thesis by (simp add: with_token_counter_def)
qed

text \<open>A new agent starts a system.\<close>

lemma agent_new_fresh: "agent_new o' = Some (Inr a) \<Longrightarrow> fresh_agent a"
  by (auto simp: agent_new_def assemble_def available_models_and_stream_fns_def fresh_agent_def life_def rbind_Inr_iff)

end
