(* ===== verification/Agent_Prompt.thy ===== *)
theory Agent_Prompt
  imports Agent_Runs Turn_History Run_Liveness
begin

text \<open>
  Whole runs through the agent: \<^verbatim>\<open>prompt_async\<close> and \<^verbatim>\<open>continue_async\<close> start the
  loop of \<open>Agent_Loop\<close> and collect its events; \<^verbatim>\<open>structured_output\<close>
  (\<^verbatim>\<open>agent/structured_output.rs\<close>) repeats them until an answer fits a schema. A run that
  never ends is the value \<open>None\<close>.
\<close>

section \<open>Collected runs\<close>

definition run_world :: "agent \<Rightarrow> world" where
  "run_world a = \<lparr>w_sent = [], w_rx_limit = None, w_tick = 0, w_session = ag_session a, w_cache = cache_new,
     w_published_prefix = ag_published_prefix a, w_pending_snapshot = [], w_loop_context = None\<rparr>"

text \<open>The loop task runs beside the collector, which sees all its events and then drops the stream.\<close>

definition collect_run :: "run_env \<Rightarrow> bool \<Rightarrow> loop_guard \<times> loop_input \<Rightarrow> agent \<Rightarrow> (agent_result \<times> agent) option" where
  "collect_run env unique started a =
     (case started of (g, li) \<Rightarrow>
      case run_loop_inner (li_config li) (li_messages li) (li_new_len li) (li_system_prompt li) (run_world a) of
        None \<Rightarrow> None
      | Some w \<Rightarrow>
         (let a = a\<lparr>ag_session := w_session w, ag_published_prefix := w_published_prefix w,
                ag_steering_queue := re_steering_left env, ag_follow_up_queue := re_follow_up_left env\<rparr>
          in case collect_stream unique (w_sent w) a of (res, a) \<Rightarrow> Some (res, guard_drop g a)))"

type_synonym collected = "((agent_error, agent_result) result \<times> agent) option"

definition collect_started :: "run_env \<Rightarrow> bool \<Rightarrow> started \<Rightarrow> collected" where
  "collect_started env unique s =
     (case s of
        (Inl e, a) \<Rightarrow> Some (Inl e, a)
      | (Inr started, a) \<Rightarrow> map_option (\<lambda>(res, a). (Inr res, a)) (collect_run env unique started a))"

definition prompt_async :: "run_env \<Rightarrow> bool \<Rightarrow> agent_message list \<Rightarrow> agent \<Rightarrow> collected" where
  "prompt_async env unique input a = collect_started env unique (prompt_stream env input a)"

definition continue_async :: "run_env \<Rightarrow> bool \<Rightarrow> agent \<Rightarrow> collected" where
  "continue_async env unique a = collect_started env unique (continue_stream env a)"

definition resume :: "run_env \<Rightarrow> bool \<Rightarrow> loop_checkpoint \<Rightarrow> agent \<Rightarrow> collected" where
  "resume env unique c a = collect_started env unique (resume_stream env c a)"

definition user_prompt :: "u64 \<Rightarrow> string \<Rightarrow> image_source list \<Rightarrow> agent_message" where
  "user_prompt now text_of images =
     Llm (User \<lparr>um_content = Text text_of # map Image images, um_timestamp = now, um_cache_hint = None\<rparr>)"

definition prompt_text_with_images :: "run_env \<Rightarrow> bool \<Rightarrow> u64 \<Rightarrow> string \<Rightarrow> image_source list \<Rightarrow> agent \<Rightarrow> collected" where
  "prompt_text_with_images env unique now s images a = prompt_async env unique [user_prompt now s images] a"

definition prompt_text :: "run_env \<Rightarrow> bool \<Rightarrow> u64 \<Rightarrow> string \<Rightarrow> agent \<Rightarrow> collected" where
  "prompt_text env unique now s a = prompt_async env unique [user_prompt now s []] a"

section \<open>Structured output\<close>

definition STRUCTURED_OUTPUT :: string where
  "STRUCTURED_OUTPUT = ''__structured_output''"

text \<open>The first call of the synthetic tool among the messages of a run: its id and its arguments.\<close>

definition output_calls :: "agent_result \<Rightarrow> (string \<times> json) list" where
  "output_calls res = concat (map (\<lambda>m. case m of
       Llm (Assistant am) \<Rightarrow> List.map_filter (\<lambda>b. case b of
           ToolCall tid name args _ \<Rightarrow> if name = STRUCTURED_OUTPUT then Some (tid, args) else None | _ \<Rightarrow> None) (am_content am)
     | _ \<Rightarrow> []) (res_messages res))"

text \<open>\<open>validate\<close> is the schema validation of the tools, with the errors it reports.\<close>

definition extract_structured_output :: "(json \<Rightarrow> string list) \<Rightarrow> agent_result \<Rightarrow> (string, json) result" where
  "extract_structured_output validate res =
     (case output_calls res of
        [] \<Rightarrow> Inl ''no __structured_output tool call found in response''
      | (_, args) # _ \<Rightarrow> (case validate args of [] \<Rightarrow> Inr args | errors \<Rightarrow> Inl (join_with ''; '' errors)))"

definition find_structured_output_call_id :: "agent_result \<Rightarrow> string option" where
  "find_structured_output_call_id res = (case output_calls res of [] \<Rightarrow> None | (tid, _) # _ \<Rightarrow> Some tid)"

definition feedback_message :: "u64 \<Rightarrow> string \<Rightarrow> agent_result \<Rightarrow> tool_result_message" where
  "feedback_message now e res =
     \<lparr>tr_tool_call_id = (case find_structured_output_call_id res of None \<Rightarrow> [] | Some tid \<Rightarrow> tid),
      tr_content = [Text (''Validation failed: '' @ e @ ''. Please try again with valid output.'')],
      tr_is_error = True, tr_timestamp = now, tr_details = JNull, tr_cache_hint = None\<rparr>"

definition push_feedback :: "u64 \<Rightarrow> string \<Rightarrow> agent_result \<Rightarrow> agent \<Rightarrow> agent" where
  "push_feedback now e res a = a\<lparr>ag_messages := ag_messages a @ [Llm (ToolResult (feedback_message now e res))]\<rparr>"

text \<open>The attempts, with the number of retries left and the environment of each run.\<close>

fun structured_attempts :: "(usize \<Rightarrow> run_env \<times> bool \<times> u64) \<Rightarrow> (json \<Rightarrow> string list) \<Rightarrow> string \<Rightarrow> usize \<Rightarrow> usize \<Rightarrow> agent
    \<Rightarrow> ((agent_error, json) result \<times> agent) option" where
  "structured_attempts envs validate prompt left attempt a =
     (case envs attempt of (env, unique, now) \<Rightarrow>
      case (if attempt = 0 then prompt_async env unique [user_prompt now prompt []] a else continue_async env unique a) of
        None \<Rightarrow> None
      | Some (Inl e, a) \<Rightarrow> Some (Inl e, a)
      | Some (Inr res, a) \<Rightarrow>
         (case extract_structured_output validate res of
            Inr v \<Rightarrow> Some (Inr v, a)
          | Inl e \<Rightarrow>
             (case left of
                0 \<Rightarrow> Some (Inl (StructuredOutputFailed (attempt + 1) e), a)
              | Suc left \<Rightarrow> structured_attempts envs validate prompt left (attempt + 1) (push_feedback now e res a))))"

declare structured_attempts.simps [simp del]

definition structured_output_tool :: "(json \<Rightarrow> string list) \<Rightarrow> (json \<Rightarrow> string) \<Rightarrow> agent_tool" where
  "structured_output_tool validate to_text =
     \<lparr>at_name = STRUCTURED_OUTPUT, at_requires_approval = False, at_execution_root = None, at_approval_context = \<lambda>_. None,
      at_auth_config = None, at_validate = validate,
      at_execute = \<lambda>_ _ params _. \<lparr>run_steps = [], run_result = Inr (result_text (to_text params))\<rparr>\<rparr>"

definition remove_structured_output_tool :: "agent \<Rightarrow> agent" where
  "remove_structured_output_tool a = a\<lparr>ag_tools := filter (\<lambda>t. at_name t \<noteq> STRUCTURED_OUTPUT) (ag_tools a)\<rparr>"

definition structured_output :: "(usize \<Rightarrow> run_env \<times> bool \<times> u64) \<Rightarrow> (json \<Rightarrow> string list) \<Rightarrow> (json \<Rightarrow> string) \<Rightarrow> string \<Rightarrow> agent
    \<Rightarrow> ((agent_error, json) result \<times> agent) option" where
  "structured_output envs validate to_text prompt a =
     map_option (\<lambda>(r, a). (r, remove_structured_output_tool a))
       (structured_attempts envs validate prompt (ag_structured_output_max_retries a) 0
          (a\<lparr>ag_tools := ag_tools a @ [structured_output_tool validate to_text]\<rparr>))"

section \<open>What a collected run leaves\<close>

text \<open>The turns the events of a run report.\<close>

fun turn_ends :: "agent_event list \<Rightarrow> (assistant_message \<times> tool_result_message list) list" where
  "turn_ends [] = []"
| "turn_ends (TurnEnd m trs reason snapshot # es) = (m, trs) # turn_ends es"
| "turn_ends (_ # es) = turn_ends es"

lemma turn_ends_append: "turn_ends (xs @ ys) = turn_ends xs @ turn_ends ys"
  by (induction xs rule: turn_ends.induct) auto

definition turns_messages :: "(assistant_message \<times> tool_result_message list) list \<Rightarrow> agent_message list" where
  "turns_messages ts = concat (map (\<lambda>(m, trs). turn_messages m trs) ts)"

definition reports :: "agent_result \<Rightarrow> (assistant_message \<times> tool_result_message list) list \<Rightarrow> agent_result \<Rightarrow> bool" where
  "reports r ts r' =
     (res_messages r' = res_messages r @ turns_messages ts
      \<and> res_usage r' = fold (\<lambda>(m, _) u. usage_add u (am_usage m)) ts (res_usage r)
      \<and> res_cost r' = fold (\<lambda>(m, _) k. cost_add k (am_cost m)) ts (res_cost r)
      \<and> res_error r' = fold (\<lambda>(m, _) x. case am_error_message m of None \<Rightarrow> x | Some err \<Rightarrow> Some err) ts (res_error r))"

lemma collect_event_reports:
  assumes "collect_event u e (r, a) = (r', a')"
  shows "reports r (turn_ends [e]) r'"
  using assms by (cases e) (auto simp: Let_def reports_def turns_messages_def)

lemma collect_reports:
  "fold (collect_event u) es (r, a) = (r', a') \<Longrightarrow> reports r (turn_ends es) r'"
proof (induction es arbitrary: r a)
  case (Cons e es)
  obtain r1 a1 where c: "collect_event u e (r, a) = (r1, a1)" by fastforce
  with Cons have "reports r1 (turn_ends es) r'" by simp
  with collect_event_reports[OF c] turn_ends_append[of "[e]" es] show ?case
    by (auto simp: reports_def turns_messages_def)
qed (simp add: reports_def turns_messages_def)

lemma collect_keeps:
  "fold (collect_event u) es (r, a) = (r', a') \<Longrightarrow>
     ag_session a' = ag_session a \<and> ag_steering_queue a' = ag_steering_queue a \<and> ag_follow_up_queue a' = ag_follow_up_queue a
     \<and> ag_loop_generation a' = ag_loop_generation a"
proof (induction es arbitrary: r a)
  case (Cons e es)
  obtain r1 a1 where c: "collect_event u e (r, a) = (r1, a1)" by fastforce
  then have "ag_session a1 = ag_session a \<and> ag_steering_queue a1 = ag_steering_queue a \<and> ag_follow_up_queue a1 = ag_follow_up_queue a
     \<and> ag_loop_generation a1 = ag_loop_generation a"
    by (cases e) (auto simp: Let_def agent_dispatch_def)
  with c Cons show ?case by (simp del: collect_event.simps)
qed simp

lemma guard_drop_fields [simp]:
  "ag_messages (guard_drop g a) = ag_messages a" "ag_session (guard_drop g a) = ag_session a"
  "ag_is_running (guard_drop g a) = ag_is_running a" "ag_error (guard_drop g a) = ag_error a"
  "ag_settings (guard_drop g a) = ag_settings a" "ag_loop_active (guard_drop g a) \<longleftrightarrow> ag_loop_active a \<and> ag_loop_generation a \<noteq> lg_generation g"
  by (simp_all add: guard_drop_def notify_idle_def clear_snapshots_def)

text \<open>The final history replaces the observable one.\<close>

lemma collect_history:
  assumes "collect_stream u (body @ [AgentEnd ms]) a = (res, a')"
  shows "ag_messages a' = (if u then ms else clone_messages ms)" "\<not> ag_loop_active a'" "\<not> ag_is_running a'"
    "ag_error a' = res_error res" "reports agent_result_init (turn_ends body) res" "ag_session a' = ag_session a"
proof -
  obtain r1 a1 where c: "fold (collect_event u) body (agent_result_init, a) = (r1, a1)" by fastforce
  note f = collect_reports[OF c] collect_keeps[OF c]
  from assms c f show "ag_messages a' = (if u then ms else clone_messages ms)" "\<not> ag_loop_active a'" "\<not> ag_is_running a'"
    "ag_error a' = res_error res" "reports agent_result_init (turn_ends body) res" "ag_session a' = ag_session a"
    by (auto simp: collect_stream_def notify_idle_def clear_snapshots_def agent_dispatch_def Let_def)
qed

lemma paired_clone: "paired_history ms \<Longrightarrow> paired_history (clone_messages ms)"
  unfolding clone_messages_def by (rule sieve_histories(2)[OF keeps_shapes_clone])

section \<open>Prompting\<close>

lemma prompt_started:
  assumes "\<not> ag_loop_active a"
  obtains g a1 where "prompt_stream env input a = (Inr (g, \<lparr>li_messages = ag_messages a @ input, li_new_len = length input,
      li_system_prompt = ag_system_prompt a, li_config = build_loop_config env a\<rparr>), a1)"
    "run_world a1 = run_world a" "ag_settings a1 = ag_settings a" "ag_session a1 = ag_session a" "ag_tools a1 = ag_tools a"
  using assms by (simp add: prompt_stream_def check_not_running_def start_loop_def build_loop_config_def run_world_def
      clear_snapshots_def Let_def)

text \<open>
  C7. What a prompt leaves. Prompting an idle agent runs the loop on the stored history followed
  by the input; when the run ends, the agent is idle again, its history is the final history of
  that run, its error and the returned messages, usage, cost and error are exactly those of the
  turns the run reported, and its session is the one the run left. When the conversation was
  answered and the code around the loop injects plain messages only, no tool result of the new
  history is without its call.
\<close>

theorem prompt_returns_history:
  assumes "\<not> ag_loop_active a" "prompt_async env unique input a = Some (r, a')"
  shows "\<exists>res w body ms. r = Inr res
    \<and> run_loop_inner (build_loop_config env a) (ag_messages a @ input) (length input) (ag_system_prompt a) (run_world a) = Some w
    \<and> w_sent w = AgentStart # body @ [AgentEnd ms]
    \<and> ag_messages a' = (if unique then ms else clone_messages ms) \<and> \<not> ag_loop_active a' \<and> \<not> ag_is_running a'
    \<and> ag_error a' = res_error res \<and> reports agent_result_init (turn_ends body) res \<and> ag_session a' = w_session w
    \<and> (plain_surroundings (build_loop_config env a) \<and> answered_history (ag_messages a @ input) \<longrightarrow> paired_history (ag_messages a'))"
proof -
  obtain g a1 where p: "prompt_stream env input a = (Inr (g, \<lparr>li_messages = ag_messages a @ input, li_new_len = length input,
      li_system_prompt = ag_system_prompt a, li_config = build_loop_config env a\<rparr>), a1)" "run_world a1 = run_world a"
    using prompt_started[OF assms(1)] by metis
  from assms(2) p obtain w where
    run: "run_loop_inner (build_loop_config env a) (ag_messages a @ input) (length input) (ag_system_prompt a) (run_world a) = Some w"
    by (auto simp: prompt_async_def collect_started_def collect_run_def split: option.splits)
  have lim: "w_rx_limit (run_world a) = None" and s0: "w_sent (run_world a) = []" by (simp_all add: run_world_def)
  obtain body ms where sent: "w_sent w = AgentStart # body @ [AgentEnd ms]"
    using run_body[OF lim run] s0 by (metis append_Nil)
  let ?a = "a1\<lparr>ag_session := w_session w, ag_published_prefix := w_published_prefix w,
                ag_steering_queue := re_steering_left env, ag_follow_up_queue := re_follow_up_left env\<rparr>"
  obtain res a2 where c: "collect_stream unique (w_sent w) ?a = (res, a2)" by fastforce
  with assms(2) p run have r: "r = Inr res" "a' = guard_drop g a2"
    by (auto simp: prompt_async_def collect_started_def collect_run_def Let_def)
  note h = collect_history[of unique "AgentStart # body" ms ?a res a2]
  from c sent have c': "collect_stream unique ((AgentStart # body) @ [AgentEnd ms]) ?a = (res, a2)" by simp
  have idle: "\<not> ag_loop_active a'" using h(2)[OF c'] r by simp
  have paired: "paired_history (ag_messages a')"
    if "plain_surroundings (build_loop_config env a)" "answered_history (ag_messages a @ input)"
  proof -
    from run_shows_histories[OF that run] sent s0 have "paired_history ms" by auto
    with h(1)[OF c'] r paired_clone show ?thesis by simp
  qed
  from h[OF c'] r run sent idle paired show ?thesis by auto
qed

section \<open>Prompts return\<close>

text \<open>An agent with the default retry strategy and the maximum-turns policy in the pre-turn slot.\<close>

definition capped :: "agent \<Rightarrow> bool" where
  "capped a = (\<exists>rs delay n. ag_settings a = with_default_retry rs delay (ag_settings a)
     \<and> max_turns_pre n \<in> set (cfg_pre_turn_policies (ag_settings a)))"

lemma capped_run:
  assumes "capped a"
  shows "\<exists>w. run_loop_inner (build_loop_config env a) messages k sys (run_world a) = Some w"
proof -
  from assms obtain rs delay n where c: "ag_settings a = with_default_retry rs delay (ag_settings a)"
    "max_turns_pre n \<in> set (cfg_pre_turn_policies (ag_settings a))" by (auto simp: capped_def)
  let ?cfg = "build_loop_config env a"
  have "?cfg = with_default_retry rs delay ?cfg"
    using arg_cong[OF c(1), of cfg_retry_strategy] by (simp add: build_loop_config_def with_default_retry_def)
  moreover have "max_turns_pre n \<in> set (cfg_pre_turn_policies (with_default_retry rs delay ?cfg))"
    using c(2) by (simp add: build_loop_config_def with_default_retry_def)
  moreover have "w_rx_limit (run_world a) = None" by (simp add: run_world_def)
  ultimately show ?thesis using default_retry.capped_run_ends by metis
qed

lemma collect_settings:
  "fold (collect_event u) es (r, a) = (r', a') \<Longrightarrow> ag_settings a' = ag_settings a"
proof (induction es arbitrary: r a)
  case (Cons e es)
  obtain r1 a1 where c: "collect_event u e (r, a) = (r1, a1)" by fastforce
  then have "ag_settings a1 = ag_settings a" by (cases e) (auto simp: Let_def agent_dispatch_def)
  with c Cons show ?case by (simp del: collect_event.simps)
qed simp

lemma collect_run_idle:
  assumes "collect_run env unique started a = Some (res, a')"
  shows "\<not> ag_loop_active a' \<and> ag_settings a' = ag_settings a"
proof -
  obtain g li where s: "started = (g, li)" by fastforce
  with assms obtain w where
    "run_loop_inner (li_config li) (li_messages li) (li_new_len li) (li_system_prompt li) (run_world a) = Some w"
    by (auto simp: collect_run_def split: option.splits)
  let ?a = "a\<lparr>ag_session := w_session w, ag_published_prefix := w_published_prefix w,
                ag_steering_queue := re_steering_left env, ag_follow_up_queue := re_follow_up_left env\<rparr>"
  obtain r b where f: "fold (collect_event unique) (w_sent w) (agent_result_init, ?a) = (r, b)" by fastforce
  with assms s \<open>run_loop_inner _ _ _ _ _ = Some w\<close> collect_settings[OF f] show ?thesis
    by (auto simp: collect_run_def collect_stream_def notify_idle_def clear_snapshots_def Let_def)
qed

text \<open>A started run of a capped agent is collected.\<close>

definition runs_as :: "run_env \<Rightarrow> agent \<Rightarrow> started \<Rightarrow> bool" where
  "runs_as env a s = (\<exists>g li a1. s = (Inr (g, li), a1) \<and> li_config li = build_loop_config env a
     \<and> run_world a1 = run_world a \<and> ag_settings a1 = ag_settings a)"

lemma collected_when_capped:
  assumes "capped a" "runs_as env a s"
  obtains res a' where "collect_started env unique s = Some (Inr res, a')" "\<not> ag_loop_active a'" "ag_settings a' = ag_settings a"
proof -
  from assms(2) obtain g li a1 where s: "s = (Inr (g, li), a1)" "li_config li = build_loop_config env a"
    "run_world a1 = run_world a" "ag_settings a1 = ag_settings a" by (auto simp: runs_as_def)
  from capped_run[OF assms(1), of env "li_messages li" "li_new_len li" "li_system_prompt li"] s obtain w where
    "run_loop_inner (li_config li) (li_messages li) (li_new_len li) (li_system_prompt li) (run_world a1) = Some w" by auto
  then obtain res a' where c: "collect_run env unique (g, li) a1 = Some (res, a')"
    by (fastforce simp: collect_run_def Let_def split: prod.splits)
  with collect_run_idle[OF c] s that show thesis by (simp add: collect_started_def)
qed

lemma prompt_runs_as: "\<not> ag_loop_active a \<Longrightarrow> runs_as env a (prompt_stream env input a)"
  by (erule prompt_started[of a env input]) (auto simp: runs_as_def)

lemma continue_runs_as:
  "\<not> ag_loop_active a \<Longrightarrow> ag_messages a \<noteq> [] \<Longrightarrow> \<not> ends_with_assistant (ag_messages a) \<Longrightarrow> runs_as env a (continue_stream env a)"
  by (simp add: runs_as_def continue_stream_def check_not_running_def validate_continue_def start_loop_def build_loop_config_def
      run_world_def clear_snapshots_def Let_def)

lemma push_feedback_simps [simp]:
  "ag_loop_active (push_feedback now e res a) = ag_loop_active a" "ag_settings (push_feedback now e res a) = ag_settings a"
  "ag_messages (push_feedback now e res a) \<noteq> []" "\<not> ends_with_assistant (ag_messages (push_feedback now e res a))"
  by (simp_all add: push_feedback_def ends_with_assistant_def)

definition attempt_over :: "(json \<Rightarrow> string list) \<Rightarrow> usize \<Rightarrow> (agent_error, json) result \<Rightarrow> bool" where
  "attempt_over validate attempts r = (case r of Inr v \<Rightarrow> validate v = [] | Inl e \<Rightarrow> (\<exists>msg. e = StructuredOutputFailed attempts msg))"

lemma extracted_valid: "extract_structured_output validate res = Inr v \<Longrightarrow> validate v = []"
  by (auto simp: extract_structured_output_def split: list.splits)

lemma capped_cong: "ag_settings a = ag_settings b \<Longrightarrow> capped a = capped b"
  by (simp add: capped_def)

lemma attempt_runs:
  assumes "capped a" "\<not> ag_loop_active a" "attempt = (0::nat) \<or> ag_messages a \<noteq> [] \<and> \<not> ends_with_assistant (ag_messages a)"
  obtains res b where "(if attempt = 0 then prompt_async env unique [user_prompt now prompt []] a else continue_async env unique a)
      = Some (Inr res, b)" "\<not> ag_loop_active b" "ag_settings b = ag_settings a"
proof (cases "attempt = 0")
  case True
  with collected_when_capped[OF assms(1) prompt_runs_as[OF assms(2)]] that show ?thesis by (auto simp: prompt_async_def)
next
  case False
  with assms(3) collected_when_capped[OF assms(1) continue_runs_as[OF assms(2)]] that show ?thesis
    by (auto simp: continue_async_def)
qed

lemma attempts_return:
  assumes "capped a" "\<not> ag_loop_active a" "attempt = 0 \<or> ag_messages a \<noteq> [] \<and> \<not> ends_with_assistant (ag_messages a)"
  shows "\<exists>r a'. structured_attempts envs validate prompt left attempt a = Some (r, a')
    \<and> attempt_over validate (attempt + left + 1) r \<and> \<not> ag_loop_active a'"
  using assms
proof (induction left arbitrary: attempt a)
  case 0
  obtain env unique now where e: "envs attempt = (env, unique, now)" by (cases "envs attempt")
  from attempt_runs[OF 0, of env unique now prompt] obtain res b where
    "(if attempt = 0 then prompt_async env unique [user_prompt now prompt []] a else continue_async env unique a) = Some (Inr res, b)"
    "\<not> ag_loop_active b" by metis
  with e show ?case
    by (simp add: structured_attempts.simps[of _ _ _ 0] attempt_over_def extracted_valid split: sum.splits del: split_paired_Ex)
next
  case (Suc left)
  obtain env unique now where e: "envs attempt = (env, unique, now)" by (cases "envs attempt")
  from attempt_runs[OF Suc.prems, of env unique now prompt] obtain res b where
    b: "(if attempt = 0 then prompt_async env unique [user_prompt now prompt []] a else continue_async env unique a) = Some (Inr res, b)"
      "\<not> ag_loop_active b" "ag_settings b = ag_settings a" by metis
  show ?case
  proof (cases "extract_structured_output validate res")
    case (Inr v)
    with e b show ?thesis
      by (simp add: structured_attempts.simps[of _ _ _ "Suc left"] attempt_over_def extracted_valid del: split_paired_Ex)
  next
    case (Inl err)
    have "capped (push_feedback now err res b)" using Suc.prems(1) b(3) capped_cong[of "push_feedback now err res b" a] by simp
    from Suc.IH[OF this, of "attempt + 1"] b(2) obtain r c where
      "structured_attempts envs validate prompt left (attempt + 1) (push_feedback now err res b) = Some (r, c)"
      "attempt_over validate (attempt + 1 + left + 1) r" "\<not> ag_loop_active c" by auto
    with e b(1) Inl show ?thesis
      by (simp add: structured_attempts.simps[of _ _ _ "Suc left"] del: split_paired_Ex)
  qed
qed

text \<open>
  C14. Structured output returns, with an answer that fits. On an idle agent with the default retry
  strategy and a maximum-turns policy, however often the provider answers wrongly, the request
  ends after at most the configured number of retries, with arguments the schema accepts or with
  the error that counts the attempts; the agent is idle again and the synthetic tool is gone.
\<close>

theorem structured_output_returns:
  assumes "capped a" "\<not> ag_loop_active a"
  shows "\<exists>r a'. structured_output envs validate to_text prompt a = Some (r, a')
    \<and> attempt_over validate (ag_structured_output_max_retries a + 1) r
    \<and> \<not> ag_loop_active a' \<and> find_tool STRUCTURED_OUTPUT a' = None"
proof -
  let ?a = "a\<lparr>ag_tools := ag_tools a @ [structured_output_tool validate to_text]\<rparr>"
  have "capped ?a" using assms(1) capped_cong[of ?a a] by simp
  from attempts_return[OF this, of 0 envs validate prompt "ag_structured_output_max_retries a"] assms(2) obtain r b where
    b: "structured_attempts envs validate prompt (ag_structured_output_max_retries a) 0 ?a = Some (r, b)"
    "attempt_over validate (ag_structured_output_max_retries a + 1) r" "\<not> ag_loop_active b" by auto
  have "find_tool STRUCTURED_OUTPUT (remove_structured_output_tool b) = None"
    by (simp add: find_tool_def remove_structured_output_tool_def find_None_iff)
  with b show ?thesis
    by (intro exI[of _ r] exI[of _ "remove_structured_output_tool b"])
      (simp add: structured_output_def remove_structured_output_tool_def)
qed

text \<open>
  The feedback of a failed attempt is an orphan. After a run whose last message is an answer
  without tool calls (as every run that ends by itself has), the validation error is appended as a
  tool result; the next attempt starts from a history in which that result follows no call, which
  providers refuse.
\<close>

theorem structured_feedback_is_orphan:
  assumes "\<not> ag_loop_active a" "ends_with_assistant (ag_messages a)" "call_ids_of (List.last (ag_messages a)) = []"
    and "continue_stream env (push_feedback now e res a) = (Inr (g, li), a')"
  shows "li_messages li = ag_messages a @ [Llm (ToolResult (feedback_message now e res))] \<and> \<not> paired_history (li_messages li)"
proof -
  from assms(1,4) have li: "li_messages li = ag_messages a @ [Llm (ToolResult (feedback_message now e res))]"
    by (auto simp: continue_stream_def check_not_running_def validate_continue_def push_feedback_def ends_with_assistant_def
        start_loop_def clear_snapshots_def Let_def)
  from assms(2) obtain ms am where ms: "ag_messages a = ms @ [Llm (Assistant am)]"
    by (cases "ag_messages a" rule: rev_cases) (auto simp: ends_with_assistant_def split: agent_message.splits llm_message.splits)
  have "call_ids_of (Llm (Assistant am)) = []" using assms(3) ms by simp
  then have "settle x [Llm (Assistant am)] \<in> {None, Some ([], {})}" for x by (cases x) simp
  then have "settle ([], {}) (ag_messages a) \<in> {None, Some ([], {})}"
    by (cases "settle ([], {}) ms") (simp_all add: settle_append ms)
  then have "settle ([], {}) (ag_messages a @ [Llm (ToolResult (feedback_message now e res))]) = None"
    by (auto simp: settle_append)
  with li show ?thesis by (simp add: paired_history_def)
qed

section \<open>A capped agent\<close>

definition capped_agent :: agent where
  "capped_agent = example_agent\<lparr>ag_settings := with_default_retry default_retry (\<lambda>_ _. 0) example_run_cfg\<rparr>"

lemma capped_example: "capped capped_agent" "\<not> ag_loop_active capped_agent"
proof -
  have "max_turns_pre 3 \<in> set (cfg_pre_turn_policies (ag_settings capped_agent))"
    by (simp add: capped_agent_def with_default_retry_def example_run_cfg_def)
  moreover have "ag_settings capped_agent = with_default_retry default_retry (\<lambda>_ _. 0) (ag_settings capped_agent)"
    by (simp add: capped_agent_def with_default_retry_def)
  ultimately show "capped capped_agent" by (auto simp: capped_def)
qed (simp add: capped_agent_def example_agent_def)

theorem prompt_returns_history_witness:
  "\<exists>res a' ms. prompt_async example_env True [user_text ''hello''] capped_agent = Some (Inr res, a')
     \<and> ag_messages a' = ms \<and> paired_history ms \<and> \<not> ag_loop_active a' \<and> ag_error a' = res_error res"
proof -
  obtain res a' where p: "prompt_async example_env True [user_text ''hello''] capped_agent = Some (Inr res, a')"
    unfolding prompt_async_def by (rule collected_when_capped[OF capped_example(1) prompt_runs_as[OF capped_example(2)]])
  have plain: "plain_surroundings (build_loop_config example_env capped_agent)"
    by (simp add: plain_surroundings_def build_loop_config_def capped_agent_def with_default_retry_def example_run_cfg_def
        example_cfg_def injects_def pd_injects_def max_turns_pre_def max_turns_verdict_def example_env_def example_agent_def)
  have answered: "answered_history (ag_messages capped_agent @ [user_text ''hello''])"
    by (simp add: answered_history_def user_text_def call_ids_of_def capped_agent_def example_agent_def)
  from prompt_returns_history [OF capped_example(2) p] plain answered p show ?thesis by auto
qed

theorem structured_output_returns_witness:
  "\<exists>r a'. structured_output (\<lambda>_. (example_env, True, 0)) (\<lambda>_. [''bad'']) (\<lambda>_. []) ''go'' capped_agent = Some (r, a')
     \<and> (\<exists>msg. r = Inl (StructuredOutputFailed 4 msg)) \<and> \<not> ag_loop_active a'"
proof -
  have "ag_structured_output_max_retries capped_agent = 3" by (simp add: capped_agent_def example_agent_def)
  with structured_output_returns [OF capped_example, of "\<lambda>_. (example_env, True, 0)" "\<lambda>_. [''bad'']" "\<lambda>_. []" "''go''"]
  obtain r a' where r: "structured_output (\<lambda>_. (example_env, True, 0)) (\<lambda>_. [''bad'']) (\<lambda>_. []) ''go'' capped_agent = Some (r, a')"
    "attempt_over (\<lambda>_. [''bad'']) 4 r" "\<not> ag_loop_active a'" by auto
  then have "\<exists>msg. r = Inl (StructuredOutputFailed 4 msg)" by (cases r) (auto simp: attempt_over_def)
  with r show ?thesis by blast
qed

theorem structured_feedback_is_orphan_witness:
  "\<exists>g li a'. continue_stream example_env (push_feedback 0 ''e'' agent_result_init (example_agent\<lparr>ag_messages := [Llm (Assistant (example_assistant [Text ''hi'']))]\<rparr>))
       = (Inr (g, li), a') \<and> \<not> paired_history (li_messages li)"
proof -
  let ?a = "example_agent\<lparr>ag_messages := [Llm (Assistant (example_assistant [Text ''hi'']))]\<rparr>"
  have idle: "\<not> ag_loop_active ?a" by (simp add: example_agent_def)
  obtain g li a' where c: "continue_stream example_env (push_feedback 0 ''e'' agent_result_init ?a) = (Inr (g, li), a')"
    using continue_runs_as[of "push_feedback 0 ''e'' agent_result_init ?a" example_env] idle by (auto simp: runs_as_def)
  have "ends_with_assistant (ag_messages ?a)" "call_ids_of (List.last (ag_messages ?a)) = []"
    by (simp_all add: ends_with_assistant_def example_assistant_def call_ids_of_def)
  from structured_feedback_is_orphan [OF idle this c] c show ?thesis by blast
qed

end
