(* ===== verification/Pipelines.thy ===== *)
theory Pipelines
  imports Agent_Prompt
begin

text \<open>
  Multi-agent pipelines (\<^verbatim>\<open>patterns/src/pipeline/\<close>): sequential chains, parallel branches
  with their merge strategies, loops with an exit condition, the registry and the tool that runs a
  pipeline. The steps run whole agents, by \<open>prompt_async\<close>.

  The factory, the environment of each run, what the cancellation token reads at each check and the
  order in which the branches of a parallel pipeline report are the pipeline's environment; the
  number of an agent is the index of its step or branch. Wall-clock durations are left out, and so
  are the step events of parallel branches, which interleave freely. A step whose agent never
  returns makes the pipeline \<open>None\<close>.
\<close>

section \<open>Definitions, errors and events\<close>

type_synonym pipeline_id = string

datatype merge_strategy = Concat string | First | Fastest usize | CustomMerge string

text \<open>A compiled regular expression is the predicate it matches.\<close>

datatype exit_condition = ToolCalled string | OutputContains "string \<Rightarrow> bool" | MaxIterations

datatype pipeline =
    PSequential (pipeline_ident: pipeline_id) (pipeline_name: string) "string list" bool
  | PParallel (pipeline_ident: pipeline_id) (pipeline_name: string) "string list" merge_strategy
  | PLoop (pipeline_ident: pipeline_id) (pipeline_name: string) string exit_condition usize

datatype pipeline_error =
    AgentNotFound string
  | PipelineNotFound pipeline_id
  | StepFailed usize string string
  | MaxIterationsReached usize
  | PipelineCancelled
  | InvalidExitCondition string

fun pipeline_error_to_string :: "pipeline_error \<Rightarrow> string" where
  "pipeline_error_to_string (AgentNotFound name) = ''agent not found: '' @ name"
| "pipeline_error_to_string (PipelineNotFound pid) = ''pipeline not found: '' @ pid"
| "pipeline_error_to_string (StepFailed i name source) = ''step '' @ show_nat i @ '' ('' @ name @ '') failed: '' @ source"
| "pipeline_error_to_string (MaxIterationsReached n) = ''max iterations reached: '' @ show_nat n"
| "pipeline_error_to_string PipelineCancelled = ''pipeline cancelled''"
| "pipeline_error_to_string (InvalidExitCondition message) = ''invalid exit condition: '' @ message"

datatype pipeline_event =
    PeStarted pipeline_id string
  | PeStepStarted pipeline_id usize string
  | PeStepCompleted pipeline_id usize string usage
  | PeCompleted pipeline_id usage
  | PeFailed pipeline_id string

record step_result =
  sr_agent_name :: string
  sr_response :: string
  sr_usage :: usage

record pipeline_output =
  po_pipeline_id :: pipeline_id
  po_final_response :: string
  po_steps :: "step_result list"
  po_total_usage :: usage

definition output_contains :: "(string \<Rightarrow> (string, string \<Rightarrow> bool) result) \<Rightarrow> string \<Rightarrow> (string, exit_condition) result" where
  "output_contains compile pattern =
     (case compile pattern of
        Inl e \<Rightarrow> Inl (''invalid regex '' @ [CHR 0x27] @ pattern @ [CHR 0x27] @ '': '' @ e)
      | Inr compiled \<Rightarrow> Inr (OutputContains compiled))"

definition pipeline_loop :: "pipeline_id \<Rightarrow> string \<Rightarrow> string \<Rightarrow> exit_condition \<Rightarrow> pipeline" where
  "pipeline_loop pid name body exit = PLoop pid name body exit 10"

fun with_id :: "pipeline_id \<Rightarrow> pipeline \<Rightarrow> pipeline" where
  "with_id i (PSequential _ name steps pass_context) = PSequential i name steps pass_context"
| "with_id i (PParallel _ name branches merge) = PParallel i name branches merge"
| "with_id i (PLoop _ name body exit n) = PLoop i name body exit n"

section \<open>Registry and factory\<close>

type_synonym pipeline_registry = "(pipeline_id, pipeline) hashmap"

definition pipelines_register :: "pipeline \<Rightarrow> pipeline_registry \<Rightarrow> pipeline_registry" where
  "pipelines_register p reg = hm_insert (pipeline_ident p) p reg"

definition pipelines_get :: "pipeline_registry \<Rightarrow> pipeline_id \<Rightarrow> pipeline option" where
  "pipelines_get reg pid = hm_get reg pid"

definition pipelines_list :: "pipeline_registry \<Rightarrow> (pipeline_id \<times> string) list" where
  "pipelines_list reg = map (\<lambda>(_, p). (pipeline_ident p, pipeline_name p)) reg"

definition pipelines_remove :: "pipeline_id \<Rightarrow> pipeline_registry \<Rightarrow> bool \<times> pipeline_registry" where
  "pipelines_remove pid reg = (hm_get reg pid \<noteq> None, hm_remove pid reg)"

text \<open>A builder may build another agent each time it is called.\<close>

type_synonym agent_builders = "(string, nat \<Rightarrow> agent) hashmap"

definition factory_register :: "string \<Rightarrow> (nat \<Rightarrow> agent) \<Rightarrow> agent_builders \<Rightarrow> agent_builders" where
  "factory_register name builder fs = hm_insert name builder fs"

definition factory_create :: "agent_builders \<Rightarrow> nat \<Rightarrow> string \<Rightarrow> (pipeline_error, agent) result" where
  "factory_create fs call name = rbind (ok_or (hm_get fs name) (AgentNotFound name)) (\<lambda>builder. Inr (builder call))"

section \<open>One step\<close>

record pipeline_env =
  pe_create :: "usize \<Rightarrow> string \<Rightarrow> (pipeline_error, agent) result"
  pe_run :: "usize \<Rightarrow> run_env \<times> bool"
  pe_cancelled :: "usize \<Rightarrow> bool"
  pe_branch_cancelled :: "usize \<Rightarrow> bool"
  pe_branch_panics :: "usize \<Rightarrow> bool"
  pe_now :: u64

definition text_message :: "u64 \<Rightarrow> string \<Rightarrow> agent_message" where
  "text_message now s = Llm (User \<lparr>um_content = [Text s], um_timestamp = now, um_cache_hint = None\<rparr>)"

fun last_assistant :: "agent_message list \<Rightarrow> assistant_message option" where
  "last_assistant [] = None"
| "last_assistant (m # ms) =
     (case last_assistant ms of
        Some a \<Rightarrow> Some a
      | None \<Rightarrow> (case m of Llm (Assistant a) \<Rightarrow> Some a | _ \<Rightarrow> None))"

definition assistant_text :: "agent_result \<Rightarrow> string" where
  "assistant_text res = (case last_assistant (res_messages res) of None \<Rightarrow> [] | Some a \<Rightarrow> extract_text (am_content a))"

definition check_tool_called :: "agent_result \<Rightarrow> string \<Rightarrow> bool" where
  "check_tool_called res tool_name =
     list_ex (\<lambda>m. case m of
        Llm (Assistant a) \<Rightarrow> list_ex (\<lambda>b. case b of ToolCall _ name _ _ \<Rightarrow> name = tool_name | _ \<Rightarrow> False) (am_content a)
      | _ \<Rightarrow> False) (res_messages res)"

definition run_agent :: "pipeline_env \<Rightarrow> usize \<Rightarrow> string \<Rightarrow> agent_message list \<Rightarrow> (pipeline_error, agent_result) result option" where
  "run_agent env index name messages =
     (case pe_create env index name of
        Inl e \<Rightarrow> Some (Inl e)
      | Inr a \<Rightarrow>
         (let (renv, unique) = pe_run env index
          in map_option (\<lambda>(r, _). case r of
               Inl e \<Rightarrow> Inl (StepFailed index name (error_to_string e))
             | Inr res \<Rightarrow> Inr res)
             (prompt_async renv unique messages a)))"

definition step_of :: "string \<Rightarrow> agent_result \<Rightarrow> step_result" where
  "step_of name res = \<lparr>sr_agent_name = name, sr_response = assistant_text res, sr_usage = res_usage res\<rparr>"

type_synonym 'a piped = "((pipeline_error, 'a) result \<times> pipeline_event list) option"

section \<open>Sequential pipelines\<close>

record seq_state =
  sq_input :: string
  sq_context :: "llm_message list"
  sq_steps :: "step_result list"
  sq_usage :: usage

definition seq_messages :: "bool \<Rightarrow> seq_state \<Rightarrow> agent_message list" where
  "seq_messages pass_context s =
     (if pass_context \<and> sq_context s \<noteq> [] then map Llm (sq_context s) @ [text_message 0 (sq_input s)]
      else [text_message 0 (sq_input s)])"

definition assistants_of :: "agent_result \<Rightarrow> llm_message list" where
  "assistants_of res = List.map_filter (\<lambda>m. case m of Llm (Assistant a) \<Rightarrow> Some (Assistant a) | _ \<Rightarrow> None) (res_messages res)"

definition seq_advance :: "bool \<Rightarrow> string \<Rightarrow> agent_result \<Rightarrow> seq_state \<Rightarrow> seq_state" where
  "seq_advance pass_context name res s =
     \<lparr>sq_input = assistant_text res,
      sq_context = (if pass_context
          then sq_context s @ [User \<lparr>um_content = [Text (sq_input s)], um_timestamp = 0, um_cache_hint = None\<rparr>] @ assistants_of res
          else sq_context s),
      sq_steps = sq_steps s @ [step_of name res], sq_usage = usage_add (sq_usage s) (res_usage res)\<rparr>"

fun seq_steps :: "pipeline_env \<Rightarrow> pipeline_id \<Rightarrow> bool \<Rightarrow> string list \<Rightarrow> usize \<Rightarrow> seq_state \<Rightarrow> pipeline_event list \<Rightarrow> seq_state piped" where
  "seq_steps env pid pass_context [] index s es = Some (Inr s, es)"
| "seq_steps env pid pass_context (name # names) index s es =
     (if pe_cancelled env index then Some (Inl PipelineCancelled, es)
      else
        let es = es @ [PeStepStarted pid index name]
        in case run_agent env index name (seq_messages pass_context s) of
             None \<Rightarrow> None
           | Some (Inl e) \<Rightarrow> Some (Inl e, es)
           | Some (Inr res) \<Rightarrow>
               seq_steps env pid pass_context names (index + 1) (seq_advance pass_context name res s)
                 (es @ [PeStepCompleted pid index name (res_usage res)]))"

definition run_sequential :: "pipeline_env \<Rightarrow> pipeline_id \<Rightarrow> string \<Rightarrow> string list \<Rightarrow> bool \<Rightarrow> string \<Rightarrow> pipeline_output piped" where
  "run_sequential env pid name steps pass_context input =
     (case seq_steps env pid pass_context steps 0
             \<lparr>sq_input = input, sq_context = [], sq_steps = [], sq_usage = usage_default\<rparr> [PeStarted pid name] of
        None \<Rightarrow> None
      | Some (Inl e, es) \<Rightarrow> Some (Inl e, es)
      | Some (Inr s, es) \<Rightarrow>
         Some (Inr \<lparr>po_pipeline_id = pid,
                    po_final_response = (if sq_steps s = [] then [] else sr_response (List.last (sq_steps s))),
                    po_steps = sq_steps s, po_total_usage = sq_usage s\<rparr>,
               es @ [PeCompleted pid (sq_usage s)]))"

section \<open>Parallel pipelines\<close>

record branch_result =
  br_index :: usize
  br_agent_name :: string
  br_response :: string
  br_usage :: usage

type_synonym arrival = "(pipeline_error, branch_result) result"

definition missing_branch_result_error :: "usize \<Rightarrow> pipeline_error" where
  "missing_branch_result_error index =
     StepFailed index (''parallel-branch-'' @ show_nat index) ''parallel branch exited without producing a result''"

definition branch_panic_error :: "usize \<Rightarrow> string \<Rightarrow> pipeline_error" where
  "branch_panic_error index name = StepFailed index name ''parallel branch panicked''"

text \<open>What the task of a branch sends; \<open>None\<close> when its agent never returns.\<close>

definition run_branch :: "pipeline_env \<Rightarrow> string \<Rightarrow> usize \<Rightarrow> string \<Rightarrow> arrival option" where
  "run_branch env input index name =
     (if pe_branch_panics env index then Some (Inl (branch_panic_error index name))
      else if pe_branch_cancelled env index then Some (Inl PipelineCancelled)
      else map_option (\<lambda>r. case r of
             Inl e \<Rightarrow> Inl e
           | Inr res \<Rightarrow> Inr \<lparr>br_index = index, br_agent_name = name, br_response = assistant_text res, br_usage = res_usage res\<rparr>)
           (run_agent env index name [text_message (pe_now env) input]))"

definition branch_step :: "branch_result \<Rightarrow> step_result" where
  "branch_step b = \<lparr>sr_agent_name = br_agent_name b, sr_response = br_response b, sr_usage = br_usage b\<rparr>"

definition merged_output :: "pipeline_id \<Rightarrow> string \<Rightarrow> branch_result list \<Rightarrow> pipeline_output" where
  "merged_output pid sep bs =
     \<lparr>po_pipeline_id = pid, po_final_response = join_with sep (map br_response bs), po_steps = map branch_step bs,
      po_total_usage = fold (\<lambda>b u. usage_add u (br_usage b)) bs usage_default\<rparr>"

text \<open>Receiving everything into the slots; an error returns at once, a branch that never sends blocks.\<close>

fun receive_all :: "arrival option list \<Rightarrow> branch_result option list \<Rightarrow> (pipeline_error, branch_result option list) result option" where
  "receive_all [] slots = Some (Inr slots)"
| "receive_all (None # rest) slots = None"
| "receive_all (Some (Inl e) # rest) slots = Some (Inl e)"
| "receive_all (Some (Inr b) # rest) slots = receive_all rest (slots[br_index b := Some b])"

fun slots_in_order :: "usize \<Rightarrow> branch_result option list \<Rightarrow> (pipeline_error, branch_result list) result" where
  "slots_in_order index [] = Inr []"
| "slots_in_order index (None # slots) = Inl (missing_branch_result_error index)"
| "slots_in_order index (Some b # slots) = rbind (slots_in_order (index + 1) slots) (\<lambda>bs. Inr (b # bs))"

definition collect_branches :: "arrival option list \<Rightarrow> usize \<Rightarrow> (pipeline_error, branch_result list) result option" where
  "collect_branches arrivals branch_count =
     map_option (\<lambda>r. rbind r (slots_in_order 0)) (receive_all arrivals (replicate branch_count None))"

definition merge_concat :: "pipeline_id \<Rightarrow> string \<Rightarrow> arrival option list \<Rightarrow> usize \<Rightarrow> (pipeline_error, pipeline_output) result option" where
  "merge_concat pid separator arrivals branch_count =
     map_option (\<lambda>r. rbind r (\<lambda>bs. Inr (merged_output pid separator bs))) (collect_branches arrivals branch_count)"

fun first_success :: "arrival option list \<Rightarrow> pipeline_error option \<Rightarrow> (pipeline_error option, branch_result) result option" where
  "first_success [] first_error = Some (Inl first_error)"
| "first_success (None # rest) first_error = None"
| "first_success (Some (Inr b) # rest) first_error = Some (Inr b)"
| "first_success (Some (Inl e) # rest) first_error =
     first_success rest (case first_error of None \<Rightarrow> Some e | Some e' \<Rightarrow> Some e')"

definition merge_first :: "pipeline_id \<Rightarrow> arrival option list \<Rightarrow> (pipeline_error, pipeline_output) result option" where
  "merge_first pid arrivals =
     map_option (\<lambda>r. case r of
         Inr b \<Rightarrow> Inr \<lparr>po_pipeline_id = pid, po_final_response = br_response b, po_steps = [branch_step b], po_total_usage = br_usage b\<rparr>
       | Inl (Some e) \<Rightarrow> Inl e
       | Inl None \<Rightarrow> Inl (StepFailed 0 ''parallel'' ''all parallel branches failed''))
     (first_success arrivals None)"

fun collect_fastest :: "usize \<Rightarrow> arrival option list \<Rightarrow> branch_result list \<Rightarrow> pipeline_error option
    \<Rightarrow> (branch_result list \<times> pipeline_error option) option" where
  "collect_fastest n [] collected first_error = Some (collected, first_error)"
| "collect_fastest n (None # rest) collected first_error = None"
| "collect_fastest n (Some (Inr b) # rest) collected first_error =
     (let collected = collected @ [b]
      in if n \<le> length collected then Some (collected, first_error) else collect_fastest n rest collected first_error)"
| "collect_fastest n (Some (Inl e) # rest) collected first_error =
     collect_fastest n rest collected (case first_error of None \<Rightarrow> Some e | Some e' \<Rightarrow> Some e')"

definition merge_fastest :: "pipeline_id \<Rightarrow> usize \<Rightarrow> arrival option list \<Rightarrow> (pipeline_error, pipeline_output) result option" where
  "merge_fastest pid n arrivals =
     map_option (\<lambda>(collected, first_error).
         if collected = []
         then Inl (case first_error of Some e \<Rightarrow> e
                | None \<Rightarrow> StepFailed 0 ''parallel'' ''no parallel branches completed successfully'')
         else Inr (merged_output pid [CHR 0x0A] (sort_key br_index collected)))
     (collect_fastest n arrivals [] None)"

definition branch_section :: "branch_result \<Rightarrow> string" where
  "branch_section b = ''['' @ br_agent_name b @ '']: '' @ br_response b"

definition merge_custom :: "pipeline_env \<Rightarrow> pipeline_id \<Rightarrow> string \<Rightarrow> arrival option list \<Rightarrow> usize
    \<Rightarrow> (pipeline_error, pipeline_output) result option" where
  "merge_custom env pid aggregator arrivals branch_count =
     (case collect_branches arrivals branch_count of
        None \<Rightarrow> None
      | Some (Inl e) \<Rightarrow> Some (Inl e)
      | Some (Inr bs) \<Rightarrow>
         map_option (\<lambda>r. rbind r (\<lambda>res.
             let out = merged_output pid [] bs
             in Inr (out\<lparr>po_final_response := assistant_text res, po_steps := po_steps out @ [step_of aggregator res],
                        po_total_usage := usage_add (po_total_usage out) (res_usage res)\<rparr>)))
           (run_agent env branch_count aggregator
              [text_message (pe_now env) (join_with [CHR 0x0A, CHR 0x0A] (map branch_section bs))]))"

text \<open>\<open>order\<close> is the order in which the branches report, those that never do at its end.\<close>

definition run_parallel :: "pipeline_env \<Rightarrow> usize list \<Rightarrow> pipeline_id \<Rightarrow> string \<Rightarrow> string list \<Rightarrow> merge_strategy \<Rightarrow> string
    \<Rightarrow> pipeline_output piped" where
  "run_parallel env order pid name branches merge_strategy input =
     (if pe_cancelled env 0 then Some (Inl PipelineCancelled, [])
      else
        let arrivals = map (\<lambda>i. run_branch env input i (branches ! i)) order;
            n = length branches;
            r = (case merge_strategy of
                   Concat separator \<Rightarrow> merge_concat pid separator arrivals n
                 | First \<Rightarrow> merge_first pid arrivals
                 | Fastest k \<Rightarrow> merge_fastest pid k arrivals
                 | CustomMerge aggregator \<Rightarrow> merge_custom env pid aggregator arrivals n)
        in map_option (\<lambda>r. (r, PeStarted pid name # (case r of Inl _ \<Rightarrow> [] | Inr out \<Rightarrow> [PeCompleted pid (po_total_usage out)]))) r)"

section \<open>Loop pipelines\<close>

definition loop_prompt :: "string \<Rightarrow> string list \<Rightarrow> string" where
  "loop_prompt input responses =
     (if responses = [] then input
      else input @ [CHR 0x0A, CHR 0x0A] @ ''Previous iterations:'' @ [CHR 0x0A]
        @ join_with [CHR 0x0A] (map (\<lambda>(i, r). ''Iteration '' @ show_nat (i + 1) @ '': '' @ r) (enumerate 0 responses)))"

definition should_exit :: "exit_condition \<Rightarrow> agent_result \<Rightarrow> bool" where
  "should_exit exit res =
     (case exit of
        ToolCalled tool_name \<Rightarrow> check_tool_called res tool_name
      | OutputContains matches \<Rightarrow> matches (assistant_text res)
      | MaxIterations \<Rightarrow> False)"

definition loop_output :: "pipeline_id \<Rightarrow> step_result list \<Rightarrow> usage \<Rightarrow> pipeline_output" where
  "loop_output pid steps total_usage =
     \<lparr>po_pipeline_id = pid, po_final_response = (if steps = [] then [] else sr_response (List.last steps)),
      po_steps = steps, po_total_usage = total_usage\<rparr>"

text \<open>\<open>left\<close> iterations remain; the responses so far are those of the steps.\<close>

fun loop_iterations :: "pipeline_env \<Rightarrow> pipeline_id \<Rightarrow> string \<Rightarrow> exit_condition \<Rightarrow> usize \<Rightarrow> string \<Rightarrow> usize \<Rightarrow> step_result list \<Rightarrow> usage
    \<Rightarrow> pipeline_event list \<Rightarrow> pipeline_output piped" where
  "loop_iterations env pid body exit max_iterations input 0 steps total_usage es =
     (if exit \<noteq> MaxIterations then Some (Inl (MaxIterationsReached max_iterations), es)
      else Some (Inr (loop_output pid steps total_usage), es @ [PeCompleted pid total_usage]))"
| "loop_iterations env pid body exit max_iterations input (Suc left) steps total_usage es =
     (let iteration = length steps in
      if pe_cancelled env iteration then Some (Inl PipelineCancelled, es)
      else
        let es = es @ [PeStepStarted pid iteration body]
        in case run_agent env iteration body [text_message 0 (loop_prompt input (map sr_response steps))] of
             None \<Rightarrow> None
           | Some (Inl e) \<Rightarrow> Some (Inl e, es)
           | Some (Inr res) \<Rightarrow>
              (let steps = steps @ [step_of body res];
                   total_usage = usage_add total_usage (res_usage res);
                   es = es @ [PeStepCompleted pid iteration body (res_usage res)]
               in if should_exit exit res then Some (Inr (loop_output pid steps total_usage), es @ [PeCompleted pid total_usage])
                  else loop_iterations env pid body exit max_iterations input left steps total_usage es))"

definition run_loop :: "pipeline_env \<Rightarrow> pipeline_id \<Rightarrow> string \<Rightarrow> string \<Rightarrow> exit_condition \<Rightarrow> usize \<Rightarrow> string \<Rightarrow> pipeline_output piped" where
  "run_loop env pid name body exit max_iterations input =
     loop_iterations env pid body exit max_iterations input max_iterations [] usage_default [PeStarted pid name]"

section \<open>The executor and its tool\<close>

definition executor_run :: "pipeline_env \<Rightarrow> usize list \<Rightarrow> pipeline_registry \<Rightarrow> pipeline_id \<Rightarrow> string \<Rightarrow> pipeline_output piped" where
  "executor_run env order reg pid input =
     (case pipelines_get reg pid of
        None \<Rightarrow>
          (let err = PipelineNotFound pid in Some (Inl err, [PeFailed pid (pipeline_error_to_string err)]))
      | Some p \<Rightarrow>
         map_option (\<lambda>(r, es). (r, es @ (case r of Inl err \<Rightarrow> [PeFailed pid (pipeline_error_to_string err)] | Inr _ \<Rightarrow> [])))
          (case p of
             PSequential i name steps pass_context \<Rightarrow> run_sequential env i name steps pass_context input
           | PParallel i name branches merge \<Rightarrow> run_parallel env order i name branches merge input
           | PLoop i name body exit n \<Rightarrow> run_loop env i name body exit n input))"

text \<open>\<open>parse\<close> is the deserialization of the tool's parameters.\<close>

definition pipeline_tool_execute :: "(json \<Rightarrow> (string, string) result) \<Rightarrow> pipeline_env \<Rightarrow> usize list \<Rightarrow> pipeline_registry
    \<Rightarrow> pipeline_id \<Rightarrow> json \<Rightarrow> agent_tool_result option" where
  "pipeline_tool_execute parse env order reg pid params =
     (case parse params of
        Inl e \<Rightarrow> Some (result_error (''invalid parameters: '' @ e))
      | Inr input \<Rightarrow>
         map_option (\<lambda>(r, es). case r of
             Inr out \<Rightarrow> result_text (po_final_response out)
           | Inl e \<Rightarrow> result_error (''pipeline error: '' @ pipeline_error_to_string e))
         (executor_run env order reg pid input))"

section \<open>Sequential pipelines chain their agents\<close>

fun chain_context :: "string \<Rightarrow> agent_result list \<Rightarrow> llm_message list" where
  "chain_context input [] = []"
| "chain_context input (res # rs) =
     User \<lparr>um_content = [Text input], um_timestamp = 0, um_cache_hint = None\<rparr> # assistants_of res @ chain_context (assistant_text res) rs"

definition chain_input :: "string \<Rightarrow> agent_result list \<Rightarrow> string" where
  "chain_input input results = List.last (input # map assistant_text results)"

definition seq_after :: "bool \<Rightarrow> string list \<Rightarrow> agent_result list \<Rightarrow> seq_state \<Rightarrow> seq_state" where
  "seq_after pass_context names results s = fold (\<lambda>(n, r). seq_advance pass_context n r) (zip names results) s"

definition usages :: "agent_result list \<Rightarrow> usage \<Rightarrow> usage" where
  "usages results u = fold (\<lambda>r u. usage_add u (res_usage r)) results u"

definition step_events :: "pipeline_id \<Rightarrow> usize \<Rightarrow> (string \<times> agent_result) list \<Rightarrow> pipeline_event list" where
  "step_events pid index steps =
     concat (map (\<lambda>(i, n, r). [PeStepStarted pid i n, PeStepCompleted pid i n (res_usage r)]) (enumerate index steps))"

lemma seq_after_Cons: "seq_after pc (n # names) (r # rs) s = seq_after pc names rs (seq_advance pc n r s)"
  by (simp add: seq_after_def)

lemma seq_after_fields:
  "length names = length results \<Longrightarrow>
     seq_after pc names results s =
       \<lparr>sq_input = chain_input (sq_input s) results,
        sq_context = (if pc then sq_context s @ chain_context (sq_input s) results else sq_context s),
        sq_steps = sq_steps s @ map2 step_of names results, sq_usage = usages results (sq_usage s)\<rparr>"
  by (induction names results arbitrary: s rule: list_induct2)
    (simp_all add: seq_after_Cons, simp_all add: seq_after_def seq_advance_def usages_def chain_input_def)

lemma seq_steps_trace:
  assumes "seq_steps env pid pc names index s es = Some (r, es')"
  shows "\<exists>results. length results \<le> length names
    \<and> (\<forall>i < length results. \<not> pe_cancelled env (index + i)
         \<and> run_agent env (index + i) (names ! i) (seq_messages pc (seq_after pc (take i names) (take i results) s)) = Some (Inr (results ! i)))
    \<and> (case r of
         Inr s' \<Rightarrow> length results = length names \<and> s' = seq_after pc names results s
           \<and> es' = es @ step_events pid index (zip names results)
       | Inl e \<Rightarrow> length results < length names
           \<and> (if pe_cancelled env (index + length results)
              then e = PipelineCancelled \<and> es' = es @ step_events pid index (zip names results)
              else run_agent env (index + length results) (names ! length results)
                     (seq_messages pc (seq_after pc (take (length results) names) results s)) = Some (Inl e)
                 \<and> es' = es @ step_events pid index (zip names results)
                     @ [PeStepStarted pid (index + length results) (names ! length results)]))"
  using assms
proof (induction names arbitrary: index s es)
  case Nil
  then show ?case by (intro exI[of _ "[]"]) (auto simp: step_events_def seq_after_def)
next
  case (Cons n names)
  show ?case
  proof (cases "pe_cancelled env index")
    case True
    with Cons.prems show ?thesis by (intro exI[of _ "[]"]) (auto simp: step_events_def seq_after_def)
  next
    case False
    show ?thesis
    proof (cases "run_agent env index n (seq_messages pc s)")
      case None
      with Cons.prems False show ?thesis by simp
    next
      case (Some x)
      show ?thesis
      proof (cases x)
        case (Inl e)
        with Some Cons.prems False show ?thesis by (intro exI[of _ "[]"]) (auto simp: step_events_def seq_after_def)
      next
        case (Inr res)
        let ?es = "es @ [PeStepStarted pid index n, PeStepCompleted pid index n (res_usage res)]"
        from Inr Some Cons.prems False
        have "seq_steps env pid pc names (index + 1) (seq_advance pc n res s) ?es = Some (r, es')" by simp
        from Cons.IH[OF this] obtain results where t:
          "length results \<le> length names"
          "\<forall>i < length results. \<not> pe_cancelled env (index + 1 + i) \<and> run_agent env (index + 1 + i) (names ! i)
             (seq_messages pc (seq_after pc (take i names) (take i results) (seq_advance pc n res s))) = Some (Inr (results ! i))"
          "(case r of
             Inr s' \<Rightarrow> length results = length names \<and> s' = seq_after pc names results (seq_advance pc n res s)
               \<and> es' = ?es @ step_events pid (index + 1) (zip names results)
           | Inl e \<Rightarrow> length results < length names
               \<and> (if pe_cancelled env (index + 1 + length results)
                  then e = PipelineCancelled \<and> es' = ?es @ step_events pid (index + 1) (zip names results)
                  else run_agent env (index + 1 + length results) (names ! length results)
                         (seq_messages pc (seq_after pc (take (length results) names) results (seq_advance pc n res s))) = Some (Inl e)
                     \<and> es' = ?es @ step_events pid (index + 1) (zip names results)
                         @ [PeStepStarted pid (index + 1 + length results) (names ! length results)]))" by blast
        have ev: "step_events pid index ((n, res) # zip names results)
            = [PeStepStarted pid index n, PeStepCompleted pid index n (res_usage res)] @ step_events pid (index + 1) (zip names results)"
          by (simp add: step_events_def)
        have head: "seq_after pc [] [] s = s" by (simp add: seq_after_def)
        have runs: "\<forall>i < length (res # results). \<not> pe_cancelled env (index + i) \<and> run_agent env (index + i) ((n # names) ! i)
             (seq_messages pc (seq_after pc (take i (n # names)) (take i (res # results)) s)) = Some (Inr ((res # results) ! i))"
          using t(2) Some Inr False by (auto simp: seq_after_Cons head less_Suc_eq_0_disj)
        from t(1) t(3) runs show ?thesis
          by (intro exI[of _ "res # results"]) (simp add: ev seq_after_Cons split: sum.splits if_splits)
      qed
    qed
  qed
qed

text \<open>
  C19. A sequential pipeline is the chain of its agents. Whatever it returns, there is a list of
  results of the first steps in order: step \<open>i\<close> ran the agent named there on the answer of the
  step before (the input, for the first), after all earlier prompts and answers when the context
  is passed on. With a result for every step the output lists them, its response is the last
  answer and its usage the sum; otherwise the error is the cancellation seen before the next step
  or the error of that step. The events tell exactly that story.
\<close>

theorem sequential_chain:
  assumes "run_sequential env pid name steps pc input = Some (r, es)"
  shows "\<exists>results. length results \<le> length steps
    \<and> (\<forall>i < length results. \<not> pe_cancelled env i
         \<and> run_agent env i (steps ! i) (map Llm (if pc then chain_context input (take i results) else [])
             @ [text_message 0 (chain_input input (take i results))]) = Some (Inr (results ! i)))
    \<and> (case r of
         Inr out \<Rightarrow> length results = length steps
           \<and> out = \<lparr>po_pipeline_id = pid, po_final_response = (if steps = [] then [] else chain_input input results),
                    po_steps = map2 step_of steps results, po_total_usage = usages results usage_default\<rparr>
           \<and> es = [PeStarted pid name] @ step_events pid 0 (zip steps results) @ [PeCompleted pid (usages results usage_default)]
       | Inl e \<Rightarrow> length results < length steps
           \<and> (if pe_cancelled env (length results)
              then e = PipelineCancelled \<and> es = [PeStarted pid name] @ step_events pid 0 (zip steps results)
              else run_agent env (length results) (steps ! length results)
                     (map Llm (if pc then chain_context input results else []) @ [text_message 0 (chain_input input results)]) = Some (Inl e)
                 \<and> es = [PeStarted pid name] @ step_events pid 0 (zip steps results)
                     @ [PeStepStarted pid (length results) (steps ! length results)]))"
proof -
  let ?s = "\<lparr>sq_input = input, sq_context = [], sq_steps = [], sq_usage = usage_default\<rparr>"
  have messages: "seq_messages pc (seq_after pc ns rs ?s) = map Llm (if pc then chain_context input rs else []) @ [text_message 0 (chain_input input rs)]"
    if "length ns = length rs" for ns rs using that by (simp add: seq_after_fields seq_messages_def)
  from assms obtain r' es' where q: "seq_steps env pid pc steps 0 ?s [PeStarted pid name] = Some (r', es')"
    by (auto simp: run_sequential_def split: option.splits)
  from seq_steps_trace[OF q, unfolded add_0] obtain results where t: "length results \<le> length steps"
    "\<forall>i < length results. \<not> pe_cancelled env i
       \<and> run_agent env i (steps ! i) (seq_messages pc (seq_after pc (take i steps) (take i results) ?s)) = Some (Inr (results ! i))"
    "(case r' of
       Inr s' \<Rightarrow> length results = length steps \<and> s' = seq_after pc steps results ?s
         \<and> es' = [PeStarted pid name] @ step_events pid 0 (zip steps results)
     | Inl e \<Rightarrow> length results < length steps
         \<and> (if pe_cancelled env (length results)
            then e = PipelineCancelled \<and> es' = [PeStarted pid name] @ step_events pid 0 (zip steps results)
            else run_agent env (length results) (steps ! length results)
                   (seq_messages pc (seq_after pc (take (length results) steps) results ?s)) = Some (Inl e)
               \<and> es' = [PeStarted pid name] @ step_events pid 0 (zip steps results)
                   @ [PeStepStarted pid (length results) (steps ! length results)]))" by blast
  have runs: "\<forall>i < length results. \<not> pe_cancelled env i
     \<and> run_agent env i (steps ! i) (map Llm (if pc then chain_context input (take i results) else [])
         @ [text_message 0 (chain_input input (take i results))]) = Some (Inr (results ! i))"
    using t(1,2) by (simp add: messages)
  show ?thesis
  proof (cases r')
    case (Inl e)
    with assms q have "r = Inl e" "es = es'" by (simp_all add: run_sequential_def)
    with Inl t(1,3) runs show ?thesis
      by (intro exI[of _ results]) (simp add: messages split: if_splits)
  next
    case (Inr s')
    have final: "sr_response (List.last (map2 step_of steps results)) = chain_input input results"
      if "length results = length steps" "steps \<noteq> []"
    proof -
      from that have "results \<noteq> []" "zip steps results \<noteq> []" by auto
      with that show ?thesis by (simp add: last_map last_zip step_of_def chain_input_def case_prod_beta)
    qed
    from Inr assms q have "r = Inr \<lparr>po_pipeline_id = pid,
        po_final_response = (if sq_steps s' = [] then [] else sr_response (List.last (sq_steps s'))),
        po_steps = sq_steps s', po_total_usage = sq_usage s'\<rparr>" "es = es' @ [PeCompleted pid (sq_usage s')]"
      by (simp_all add: run_sequential_def)
    moreover from Inr t(3) have "length results = length steps" "s' = seq_after pc steps results ?s"
      "es' = [PeStarted pid name] @ step_events pid 0 (zip steps results)" by simp_all
    ultimately show ?thesis using runs final by (intro exI[of _ results]) (auto simp: seq_after_fields)
  qed
qed

section \<open>Parallel pipelines do not depend on the arrival order\<close>

lemma run_branch_index: "run_branch env input i n = Some (Inr b) \<Longrightarrow> br_index b = i"
  by (cases "run_agent env i n [text_message (pe_now env) input]")
    (auto simp: run_branch_def split: if_splits sum.split_asm)

definition failures :: "arrival list \<Rightarrow> pipeline_error list" where
  "failures arrivals = List.map_filter (\<lambda>r. case r of Inl e \<Rightarrow> Some e | Inr _ \<Rightarrow> None) arrivals"

definition successes :: "arrival list \<Rightarrow> branch_result list" where
  "successes arrivals = List.map_filter (\<lambda>r. case r of Inl _ \<Rightarrow> None | Inr b \<Rightarrow> Some b) arrivals"

lemma arrivals_split [simp]:
  "failures [] = []" "failures (Inl e # rs) = e # failures rs" "failures (Inr b # rs) = failures rs"
  "successes [] = []" "successes (Inl e # rs) = successes rs" "successes (Inr b # rs) = b # successes rs"
  by (simp_all add: failures_def successes_def)

lemma receive_all_arrived:
  "receive_all (map Some rs) slots =
     Some (case failures rs of [] \<Rightarrow> Inr (fold (\<lambda>b s. s[br_index b := Some b]) (successes rs) slots) | e # _ \<Rightarrow> Inl e)"
proof (induction rs arbitrary: slots)
  case (Cons r rs)
  then show ?case by (cases r) (auto split: list.splits)
qed simp

lemma no_failure: "failures rs = [] \<Longrightarrow> r \<in> set rs \<Longrightarrow> failures [r] = []"
proof (induction rs)
  case (Cons r' rs)
  then show ?case by (cases r') auto
qed simp

lemma all_successes: "successes (map (\<lambda>i. Inr (B i)) ks) = map B ks"
  by (induction ks) auto

lemma fold_slots:
  assumes "distinct ks" "\<And>i. i \<in> set ks \<Longrightarrow> br_index (B i) = i"
  shows "j < length slots \<Longrightarrow> fold (\<lambda>b s. s[br_index b := Some b]) (map B ks) slots ! j
    = (if j \<in> set ks then Some (B j) else slots ! j)"
    and "length (fold (\<lambda>b s. s[br_index b := Some b]) (map B ks) slots) = length slots"
  using assms by (induction ks arbitrary: slots) (auto simp: nth_list_update)

lemma slots_in_order_full: "slots_in_order i (map Some bs) = Inr bs"
  by (induction bs arbitrary: i) auto

lemma collect_arrived:
  assumes "distinct order" "set order = {..<n}" "\<And>i. i < n \<Longrightarrow> R i = Inr (B i) \<Longrightarrow> br_index (B i) = i"
    "\<And>i. i < n \<Longrightarrow> failures [R i] = [] \<Longrightarrow> R i = Inr (B i)"
  shows "collect_branches (map (\<lambda>i. Some (R i)) order) n =
    Some (case failures (map R order) of [] \<Rightarrow> Inr (map B [0..<n]) | e # _ \<Rightarrow> Inl e)"
proof (cases "failures (map R order)")
  have eq: "map (\<lambda>i. Some (R i)) order = map Some (map R order)" by simp
  case Nil
  have all: "R i = Inr (B i)" if "i \<in> set order" for i
    using no_failure[OF Nil, of "R i"] assms(4)[of i] that assms(2) by simp
  then have "map R order = map (\<lambda>i. Inr (B i)) order" by simp
  then have s: "successes (map R order) = map B order" by (simp only: all_successes)
  have idx: "br_index (B i) = i" if "i \<in> set order" for i using all[OF that] assms(3) that assms(2) by auto
  let ?slots = "fold (\<lambda>b s. s[br_index b := Some b]) (map B order) (replicate n None)"
  have filled: "?slots ! j = (if j \<in> set order then Some (B j) else None)" if "j < n" for j
    using fold_slots(1)[OF assms(1), where B = B and slots = "replicate n None" and j = j] idx that by simp
  have len: "length ?slots = n"
    using fold_slots(2)[OF assms(1), where B = B and slots = "replicate n None"] idx by simp
  have "?slots = map Some (map B [0..<n])"
    by (rule nth_equalityI) (simp_all add: filled len assms(2) del: map_map)
  then show ?thesis using receive_all_arrived[of "map R order" "replicate n None"] Nil s
    by (simp add: collect_branches_def eq slots_in_order_full del: map_map)
next
  case (Cons e es)
  then show ?thesis using receive_all_arrived[of "map R order" "replicate n None"]
    by (simp add: collect_branches_def comp_def)
qed

definition all_arrive :: "pipeline_env \<Rightarrow> string \<Rightarrow> string list \<Rightarrow> usize list \<Rightarrow> (usize \<Rightarrow> arrival) \<Rightarrow> bool" where
  "all_arrive env input branches order R = (distinct order \<and> set order = {..<length branches} \<and> \<not> pe_cancelled env 0
     \<and> (\<forall>i < length branches. run_branch env input i (branches ! i) = Some (R i)))"

definition finished :: "pipeline_id \<Rightarrow> string \<Rightarrow> (pipeline_error, pipeline_output) result \<Rightarrow> pipeline_output piped" where
  "finished pid name r =
     Some (r, PeStarted pid name # (case r of Inl _ \<Rightarrow> [] | Inr out \<Rightarrow> [PeCompleted pid (po_total_usage out)]))"

lemma run_parallel_arrived:
  assumes "all_arrive env input branches order R"
  shows "run_parallel env order pid name branches ms input =
    Option.bind (case ms of
         Concat separator \<Rightarrow> merge_concat pid separator (map Some (map R order)) (length branches)
       | First \<Rightarrow> merge_first pid (map Some (map R order))
       | Fastest k \<Rightarrow> merge_fastest pid k (map Some (map R order))
       | CustomMerge aggregator \<Rightarrow> merge_custom env pid aggregator (map Some (map R order)) (length branches))
      (finished pid name)"
proof -
  have eq: "map (\<lambda>i. run_branch env input i (branches ! i)) order = map Some (map R order)"
    using assms by (auto simp: all_arrive_def)
  from assms show ?thesis unfolding run_parallel_def eq Let_def
    by (simp add: all_arrive_def finished_def[abs_def] map_conv_bind_option comp_def del: map_map)
qed

text \<open>
  The concatenation of parallel branches does not depend on who answers first. Whatever the
  order in which the branches report, if none fails the output has every branch exactly once in
  the order of declaration, with the usages summed in that order; if some fail, the pipeline
  returns the error that arrived first.
\<close>

theorem concat_declaration_order:
  assumes "all_arrive env input branches order R"
  shows "run_parallel env order pid name branches (Concat sep) input =
    finished pid name (case failures (map R order) of
        [] \<Rightarrow> Inr (merged_output pid sep (map (\<lambda>i. projr (R i)) [0..<length branches]))
      | e # _ \<Rightarrow> Inl e)"
proof -
  note a = assms[unfolded all_arrive_def]
  have "br_index (projr (R i)) = i" if "i < length branches" "R i = Inr (projr (R i))" for i
    using a that run_branch_index by metis
  moreover have "R i = Inr (projr (R i))" if "failures [R i] = []" for i
    using that by (cases "R i") auto
  ultimately have "collect_branches (map Some (map R order)) (length branches) =
      Some (case failures (map R order) of [] \<Rightarrow> Inr (map (\<lambda>i. projr (R i)) [0..<length branches]) | e # _ \<Rightarrow> Inl e)"
    using collect_arrived[of order "length branches" R "\<lambda>i. projr (R i)"] a
    by (simp add: comp_def)
  then show ?thesis
    by (simp add: run_parallel_arrived[OF assms] merge_concat_def del: map_map split: list.splits)
qed

lemma first_success_arrived:
  "first_success (map Some rs) fe = Some (case successes rs of
       b # _ \<Rightarrow> Inr b
     | [] \<Rightarrow> Inl (case fe of Some e \<Rightarrow> Some e | None \<Rightarrow> (case failures rs of [] \<Rightarrow> None | e # _ \<Rightarrow> Some e)))"
proof (induction rs arbitrary: fe)
  case Nil
  then show ?case by (simp split: option.splits)
next
  case (Cons r rs)
  then show ?case by (cases r) (auto split: list.splits option.splits)
qed

lemma collect_fastest_arrived:
  assumes "length bs < max 1 k"
  shows "\<exists>fe'. collect_fastest k (map Some rs) bs fe = Some (bs @ take (max 1 k - length bs) (successes rs), fe')
    \<and> (successes rs = [] \<longrightarrow> fe' = (case fe of Some e \<Rightarrow> Some e | None \<Rightarrow> (case failures rs of [] \<Rightarrow> None | e # _ \<Rightarrow> Some e)))"
  using assms
proof (induction rs arbitrary: bs fe)
  case Nil
  then show ?case by (simp split: option.splits)
next
  case (Cons r rs)
  show ?case
  proof (cases r)
    case (Inl e)
    with Cons.IH[OF Cons.prems, of "case fe of None \<Rightarrow> Some e | Some e' \<Rightarrow> Some e'"] show ?thesis
      by (auto split: option.splits)
  next
    case (Inr b)
    show ?thesis
    proof (cases "k \<le> length (bs @ [b])")
      case True
      with Cons.prems have "max 1 k - length bs = 1" by auto
      with True Inr show ?thesis by auto
    next
      case False
      then have "length (bs @ [b]) < max 1 k" "max 1 k - length bs = Suc (max 1 k - length (bs @ [b]))" by auto
      with Cons.IH[OF this(1), of fe] False Inr show ?thesis by auto
    qed
  qed
qed

text \<open>
  Racing the branches. The first strategy returns the first branch that succeeds, the fastest
  strategy the first \<open>k\<close> that do, put in the order of declaration; zero counts as one. Only when
  no branch succeeds they return an error: the one that arrived first.
\<close>

theorem fastest_branches:
  assumes "all_arrive env input branches order R"
  shows "run_parallel env order pid name branches First input =
      finished pid name (case successes (map R order) of
          b # _ \<Rightarrow> Inr \<lparr>po_pipeline_id = pid, po_final_response = br_response b, po_steps = [branch_step b], po_total_usage = br_usage b\<rparr>
        | [] \<Rightarrow> Inl (case failures (map R order) of e # _ \<Rightarrow> e | [] \<Rightarrow> StepFailed 0 ''parallel'' ''all parallel branches failed''))
    \<and> run_parallel env order pid name branches (Fastest k) input =
      finished pid name (case take (max 1 k) (successes (map R order)) of
          b # bs \<Rightarrow> Inr (merged_output pid [CHR 0x0A] (sort_key br_index (b # bs)))
        | [] \<Rightarrow> Inl (case failures (map R order) of e # _ \<Rightarrow> e
            | [] \<Rightarrow> StepFailed 0 ''parallel'' ''no parallel branches completed successfully''))"
proof -
  note a = assms[unfolded all_arrive_def]
  obtain fe where f: "collect_fastest k (map Some (map R order)) [] None = Some (take (max 1 k) (successes (map R order)), fe)"
    "successes (map R order) = [] \<Longrightarrow> fe = (case failures (map R order) of [] \<Rightarrow> None | e # _ \<Rightarrow> Some e)"
    using collect_fastest_arrived[of "[]" k "map R order" None] by (auto simp: less_max_iff_disj simp del: map_map)
  have "run_parallel env order pid name branches First input =
      finished pid name (case successes (map R order) of
          b # _ \<Rightarrow> Inr \<lparr>po_pipeline_id = pid, po_final_response = br_response b, po_steps = [branch_step b], po_total_usage = br_usage b\<rparr>
        | [] \<Rightarrow> Inl (case failures (map R order) of e # _ \<Rightarrow> e | [] \<Rightarrow> StepFailed 0 ''parallel'' ''all parallel branches failed''))"
    by (simp add: run_parallel_arrived[OF assms] merge_first_def first_success_arrived del: map_map split: list.splits)
  moreover have "run_parallel env order pid name branches (Fastest k) input =
      finished pid name (case take (max 1 k) (successes (map R order)) of
          b # bs \<Rightarrow> Inr (merged_output pid [CHR 0x0A] (sort_key br_index (b # bs)))
        | [] \<Rightarrow> Inl (case failures (map R order) of e # _ \<Rightarrow> e
            | [] \<Rightarrow> StepFailed 0 ''parallel'' ''no parallel branches completed successfully''))"
  proof (cases "successes (map R order)")
    case Nil
    with f show ?thesis
      by (simp add: run_parallel_arrived[OF assms] merge_fastest_def del: map_map split: list.splits)
  next
    case (Cons b bs)
    then obtain bs' where "take (max 1 k) (successes (map R order)) = b # bs'" by (cases "max 1 k") auto
    with f(1) show ?thesis
      by (simp add: run_parallel_arrived[OF assms] merge_fastest_def del: map_map sort_key_simps)
  qed
  ultimately show ?thesis by blast
qed

section \<open>Loops end at the first exit\<close>

definition iteration_input :: "string \<Rightarrow> agent_result list \<Rightarrow> agent_message list" where
  "iteration_input input results = [text_message 0 (loop_prompt input (map assistant_text results))]"

definition loop_ran :: "pipeline_env \<Rightarrow> string \<Rightarrow> string \<Rightarrow> agent_result list \<Rightarrow> bool" where
  "loop_ran env body input results = (\<forall>i < length results. \<not> pe_cancelled env i
     \<and> run_agent env i body (iteration_input input (take i results)) = Some (Inr (results ! i)))"

definition loop_verdict :: "pipeline_env \<Rightarrow> pipeline_id \<Rightarrow> string \<Rightarrow> exit_condition \<Rightarrow> usize \<Rightarrow> string \<Rightarrow> agent_result list
    \<Rightarrow> (pipeline_error, pipeline_output) result \<Rightarrow> bool" where
  "loop_verdict env pid body exit n input results r =
     (case r of
        Inr out \<Rightarrow> out = loop_output pid (map (step_of body) results) (usages results usage_default)
          \<and> (if exit = MaxIterations then length results = n else results \<noteq> [] \<and> should_exit exit (List.last results))
      | Inl e \<Rightarrow> (\<forall>res \<in> set results. \<not> should_exit exit res)
          \<and> (if length results = n then exit \<noteq> MaxIterations \<and> e = MaxIterationsReached n
             else if pe_cancelled env (length results) then e = PipelineCancelled
             else run_agent env (length results) body (iteration_input input results) = Some (Inl e)))"

lemma loop_ran_snoc:
  "loop_ran env body input (results @ [res]) \<longleftrightarrow> loop_ran env body input results \<and> \<not> pe_cancelled env (length results)
     \<and> run_agent env (length results) body (iteration_input input results) = Some (Inr res)"
  by (auto simp: loop_ran_def nth_append less_Suc_eq)

lemma loop_iterations_trace:
  assumes "loop_iterations env pid body exit n input left (map (step_of body) done) (usages done usage_default) es = Some (r, es')"
    "\<forall>res \<in> set done. \<not> should_exit exit res" "loop_ran env body input done" "n = length done + left"
  shows "\<exists>results. length results \<le> n \<and> loop_ran env body input results
    \<and> (\<forall>res \<in> set (butlast results). \<not> should_exit exit res) \<and> loop_verdict env pid body exit n input results r"
  using assms
proof (induction left arbitrary: "done" es)
  case 0
  then show ?case
    by (intro exI[of _ "done"]) (auto simp: loop_verdict_def dest: in_set_butlastD split: if_splits)
next
  case (Suc left)
  have inp: "[text_message 0 (loop_prompt input (map sr_response (map (step_of body) done)))] = iteration_input input done"
    by (simp add: iteration_input_def step_of_def comp_def)
  show ?case
  proof (cases "pe_cancelled env (length done)")
    case True
    with Suc.prems show ?thesis
      by (intro exI[of _ "done"]) (auto simp: loop_verdict_def dest: in_set_butlastD)
  next
    case False
    show ?thesis
    proof (cases "run_agent env (length done) body (iteration_input input done)")
      case None
      with Suc.prems False inp show ?thesis by (simp add: Let_def del: map_map)
    next
      case (Some x)
      show ?thesis
      proof (cases x)
        case (Inl e)
        with Some Suc.prems False inp show ?thesis
          by (intro exI[of _ "done"]) (auto simp: loop_verdict_def Let_def dest: in_set_butlastD simp del: map_map)
      next
        case (Inr res)
        have ran: "loop_ran env body input (done @ [res])" using Suc.prems(3) False Some Inr by (simp add: loop_ran_snoc)
        have u: "usages (done @ [res]) usage_default = usage_add (usages done usage_default) (res_usage res)"
          by (simp add: usages_def)
        show ?thesis
        proof (cases "should_exit exit res")
          case True
          then have "exit \<noteq> MaxIterations" by (auto simp: should_exit_def)
          with True Inr Some Suc.prems False inp u ran show ?thesis
            by (intro exI[of _ "done @ [res]"]) (auto simp: loop_verdict_def Let_def simp del: map_map)
        next
          case no: False
          with Inr Some Suc.prems(1) False inp u have
            "loop_iterations env pid body exit n input left (map (step_of body) (done @ [res])) (usages (done @ [res]) usage_default)
               (es @ [PeStepStarted pid (length done) body, PeStepCompleted pid (length done) body (res_usage res)])
               = Some (r, es')" by (simp add: Let_def del: map_map)
          then show ?thesis by (rule Suc.IH) (use Suc.prems(2,4) no ran in auto)
        qed
      qed
    qed
  qed
qed

text \<open>
  A loop pipeline stops at the first iteration that meets its exit condition. It runs at most
  the given number of iterations, each on the input followed by all earlier answers. It succeeds
  at the first answer that meets the condition, and with no condition only after all iterations;
  when the iterations are used up without meeting the condition it fails with that number,
  otherwise with the cancellation or the error of the next step. No iteration follows one that met
  the condition.
\<close>

theorem loop_until_exit:
  assumes "run_loop env pid name body exit n input = Some (r, es)"
  shows "\<exists>results. length results \<le> n \<and> loop_ran env body input results
    \<and> (\<forall>res \<in> set (butlast results). \<not> should_exit exit res) \<and> loop_verdict env pid body exit n input results r"
proof (rule loop_iterations_trace)
  show "loop_iterations env pid body exit n input n (map (step_of body) []) (usages [] usage_default) [PeStarted pid name] = Some (r, es)"
    using assms unfolding run_loop_def usages_def by (simp only: list.map fold_simps)
qed (simp_all add: loop_ran_def)

section \<open>Pipelines return\<close>

text \<open>A factory whose agents are idle, retry by the default strategy and have their turns capped.\<close>

definition ready :: "pipeline_env \<Rightarrow> bool" where
  "ready env = (\<forall>i name. case pe_create env i name of
      Inl e \<Rightarrow> e = AgentNotFound name
    | Inr a \<Rightarrow> capped a \<and> \<not> ag_loop_active a)"

lemma run_agent_returns:
  assumes "ready env"
  obtains res where "run_agent env i name ms = Some (Inr res)" | "run_agent env i name ms = Some (Inl (AgentNotFound name))"
proof (cases "pe_create env i name")
  case (Inl e)
  with assms have "e = AgentNotFound name" using spec[OF spec[OF assms[unfolded ready_def], of i], of name] by simp
  with Inl that show thesis by (simp add: run_agent_def)
next
  case (Inr a)
  with assms have a: "capped a" "\<not> ag_loop_active a" using spec[OF spec[OF assms[unfolded ready_def], of i], of name] by simp_all
  obtain renv unique where e: "pe_run env i = (renv, unique)" by fastforce
  from collected_when_capped[OF a(1) prompt_runs_as[OF a(2), where env = renv and input = ms], where unique = unique]
  obtain res a' where "collect_started renv unique (prompt_stream renv ms a) = Some (Inr res, a')" by blast
  with Inr e that show thesis by (simp add: run_agent_def prompt_async_def)
qed

definition not_step_failed :: "(pipeline_error, 'a) result \<Rightarrow> bool" where
  "not_step_failed r = (\<forall>i n m. r \<noteq> Inl (StepFailed i n m))"

lemma seq_steps_return:
  "ready env \<Longrightarrow> \<exists>r es'. seq_steps env pid pc names index s es = Some (r, es') \<and> not_step_failed r"
proof (induction names arbitrary: index s es)
  case (Cons n names)
  then show ?case
    by (cases rule: run_agent_returns[OF Cons.prems, of index n "seq_messages pc s"]) (auto simp: not_step_failed_def Let_def)
qed (simp add: not_step_failed_def)

lemma run_sequential_returns:
  assumes "ready env"
  shows "\<exists>r es. run_sequential env pid name steps pc input = Some (r, es) \<and> not_step_failed r"
proof -
  obtain r es where q: "seq_steps env pid pc steps 0 \<lparr>sq_input = input, sq_context = [], sq_steps = [], sq_usage = usage_default\<rparr>
      [PeStarted pid name] = Some (r, es)" "not_step_failed r" using seq_steps_return[OF assms] by blast
  then show ?thesis by (cases r) (auto simp: run_sequential_def not_step_failed_def)
qed

lemma loop_iterations_return:
  "ready env \<Longrightarrow> \<exists>r es'. loop_iterations env pid body exit n input left steps u es = Some (r, es') \<and> not_step_failed r"
proof (induction left arbitrary: steps u es)
  case (Suc left)
  then show ?case
    by (cases rule: run_agent_returns[OF Suc.prems, of "length steps" body
          "[text_message 0 (loop_prompt input (map sr_response steps))]"]) (auto simp: not_step_failed_def Let_def)
qed (simp add: not_step_failed_def)

lemma run_branch_returns: "ready env \<Longrightarrow> \<exists>r. run_branch env input i n = Some r"
  by (cases rule: run_agent_returns[of env i n "[text_message (pe_now env) input]"]) (auto simp: run_branch_def)

lemma merges_return:
  "\<exists>r. merge_concat pid sep (map Some rs) n = Some r" "\<exists>r. merge_first pid (map Some rs) = Some r"
  "\<exists>r. merge_fastest pid k (map Some rs) = Some r"
  using collect_fastest_arrived[of "[]" k rs None]
  by (auto simp: merge_concat_def collect_branches_def receive_all_arrived merge_first_def first_success_arrived merge_fastest_def
      less_max_iff_disj)

lemma merge_custom_returns: "ready env \<Longrightarrow> \<exists>r. merge_custom env pid agg (map Some rs) n = Some r"
proof -
  assume e: "ready env"
  obtain r where c: "collect_branches (map Some rs) n = Some r" by (auto simp: collect_branches_def receive_all_arrived)
  show ?thesis
  proof (cases r)
    case (Inr bs)
    then show ?thesis using c
      by (cases rule: run_agent_returns[OF e, of n agg "[text_message (pe_now env) (join_with [CHR 0x0A, CHR 0x0A] (map branch_section bs))]"])
        (simp_all add: merge_custom_def)
  qed (simp add: c merge_custom_def)
qed

lemma run_parallel_returns:
  assumes "ready env"
  shows "\<exists>r es. run_parallel env order pid name branches ms input = Some (r, es)"
proof -
  have "\<forall>i. \<exists>r. run_branch env input i (branches ! i) = Some r" using run_branch_returns[OF assms] by blast
  from choice[OF this] obtain R where "\<forall>i. run_branch env input i (branches ! i) = Some (R i)" by blast
  then have eq: "map (\<lambda>i. run_branch env input i (branches ! i)) order = map Some (map R order)" by simp
  have "\<exists>r. (case ms of Concat separator \<Rightarrow> merge_concat pid separator (map Some (map R order)) (length branches)
         | First \<Rightarrow> merge_first pid (map Some (map R order)) | Fastest k \<Rightarrow> merge_fastest pid k (map Some (map R order))
         | CustomMerge aggregator \<Rightarrow> merge_custom env pid aggregator (map Some (map R order)) (length branches)) = Some r"
    by (cases ms) (simp_all del: map_map add: merges_return merge_custom_returns[OF assms])
  then show ?thesis unfolding run_parallel_def eq Let_def by (auto simp del: map_map)
qed

text \<open>
  C20. Pipelines of capped agents always return. When the factory builds idle agents with the
  default retry strategy and a cap on their turns, every pipeline ends with an output or an error.
  A sequential or looping one never reports a failed step: when the model of a step fails, its
  agent still returns a result, so that the text of that result becomes the answer of the step.
\<close>

theorem pipelines_return:
  assumes "ready env"
  shows "\<exists>r es. executor_run env order reg pid input = Some (r, es)
    \<and> (\<forall>i n m. r = Inl (StepFailed i n m) \<longrightarrow> (\<exists>id' name branches ms. pipelines_get reg pid = Some (PParallel id' name branches ms)))"
proof (cases "pipelines_get reg pid")
  case None
  then show ?thesis by (simp add: executor_run_def Let_def)
next
  case (Some p)
  show ?thesis
  proof (cases p)
    case (PSequential i name steps pc)
    obtain r es where "run_sequential env i name steps pc input = Some (r, es)" "not_step_failed r"
      using run_sequential_returns[OF assms] by blast
    with Some PSequential show ?thesis by (simp add: executor_run_def not_step_failed_def)
  next
    case (PParallel i name branches ms)
    with Some run_parallel_returns[OF assms, of order i name branches ms input] show ?thesis
      by (auto simp: executor_run_def)
  next
    case (PLoop i name body exit n)
    with Some loop_iterations_return[OF assms, of i body exit n input n "[]" usage_default "[PeStarted i name]"] show ?thesis
      by (auto simp: executor_run_def run_loop_def not_step_failed_def)
  qed
qed

section \<open>What the passed context loses\<close>

lemma settle_unanswered:
  assumes "\<forall>m \<in> set ms. tool_result_id m = None" "m \<in> set ms" "call_ids_of m \<noteq> []"
  shows "settle s (ms @ [text_message t x]) = None"
proof -
  from assms(2) obtain xs ys where ms: "ms = xs @ m # ys" by (meson split_list)
  obtain z zs where z: "ys @ [text_message t x] = z # zs" by (cases ys) auto
  have "tool_result_id z = None"
    using z assms(1) ms by (cases ys) (auto simp: text_message_def)
  with assms ms z show ?thesis
    by (simp add: settle_append split: option.splits)
qed

lemma assistants_plain: "m \<in> set (assistants_of res) \<Longrightarrow> tool_result_id (Llm m) = None"
proof -
  have "set (List.map_filter (\<lambda>m. case m of Llm (Assistant a) \<Rightarrow> Some (Assistant a) | _ \<Rightarrow> None) ms) \<subseteq> range Assistant" for ms
    by (induction ms) (auto simp: List.map_filter_simps split: agent_message.splits llm_message.splits option.splits)
  moreover assume "m \<in> set (assistants_of res)"
  ultimately have "m \<in> range Assistant" unfolding assistants_of_def by blast
  then show ?thesis by auto
qed

lemma chain_context_plain: "\<forall>m \<in> set (map Llm (chain_context input results)). tool_result_id m = None"
  by (induction results arbitrary: input) (auto simp: assistants_plain)

text \<open>
  Passing the context on breaks the conversation of agents that used tools. The context keeps
  the prompts and the assistant messages of earlier steps and drops their tool results, so as soon
  as one of those messages called a tool, the request of every later step, made to a fresh agent,
  has a call without its result.
\<close>

theorem passed_context_unanswered:
  assumes "\<not> ag_loop_active a" "ag_messages a = []"
    "res \<in> set results" "m \<in> set (assistants_of res)" "call_ids_of (Llm m) \<noteq> []"
    "prompt_stream env (map Llm (chain_context input results) @ [text_message 0 (chain_input input results)]) a = (Inr (g, li), a')"
  shows "\<not> paired_history (li_messages li)"
proof -
  have li: "li_messages li = map Llm (chain_context input results) @ [text_message 0 (chain_input input results)]"
    using assms(2,6)
    by (cases rule: prompt_started[OF assms(1), of env "map Llm (chain_context input results) @ [text_message 0 (chain_input input results)]"])
      (auto simp del: map_append)
  have "m \<in> set (chain_context input results)"
    using assms(3,4) by (induction results arbitrary: input) auto
  then have "Llm m \<in> set (map Llm (chain_context input results))" by simp
  from settle_unanswered[OF chain_context_plain this assms(5)] show ?thesis unfolding li paired_history_def by (simp only: not_not)
qed

section \<open>Witnesses\<close>

text \<open>A factory that knows one agent, and nothing cancelled.\<close>

definition example_pipe_env :: pipeline_env where
  "example_pipe_env = \<lparr>pe_create = \<lambda>_ name. if name = ''w'' then Inr capped_agent else Inl (AgentNotFound name),
     pe_run = \<lambda>_. (example_env, True), pe_cancelled = \<lambda>_. False, pe_branch_cancelled = \<lambda>_. False,
     pe_branch_panics = \<lambda>_. False, pe_now = 0\<rparr>"

lemma example_pipe_env_simps [simp]:
  "pe_cancelled example_pipe_env i = False" "pe_branch_cancelled example_pipe_env i = False"
  "pe_branch_panics example_pipe_env i = False" "pe_now example_pipe_env = 0"
  by (simp_all add: example_pipe_env_def)

lemma ready_example: "ready example_pipe_env"
  using capped_example by (simp add: ready_def example_pipe_env_def)

lemma example_step: "\<exists>res. run_agent example_pipe_env i ''w'' ms = Some (Inr res)"
proof (rule run_agent_returns[OF ready_example, of i "''w''" ms])
  assume "run_agent example_pipe_env i ''w'' ms = Some (Inl (AgentNotFound ''w''))"
  then obtain r :: "(agent_error, agent_result) result" where
    "(case r of Inl e \<Rightarrow> Inl (StepFailed i ''w'' (error_to_string e)) | Inr res \<Rightarrow> Inr res) = Inl (AgentNotFound ''w'')"
    by (auto simp: run_agent_def example_pipe_env_def)
  then show ?thesis by (cases r) auto
qed blast

lemma example_branch: "\<exists>b. run_branch example_pipe_env input i ''w'' = Some (Inr b) \<and> br_index b = i"
  using example_step[of i "[text_message 0 input]"] by (auto simp: run_branch_def)

theorem sequential_chain_witness:
  "\<exists>out es. run_sequential example_pipe_env ''p'' ''chain'' [''w'', ''w''] True ''go'' = Some (Inr out, es) \<and> length (po_steps out) = 2"
proof -
  obtain r es where q: "run_sequential example_pipe_env ''p'' ''chain'' [''w'', ''w''] True ''go'' = Some (r, es)"
    using run_sequential_returns[OF ready_example] by blast
  note c = sequential_chain [OF q]
  have "r \<noteq> Inl e" for e
  proof
    assume "r = Inl e"
    with c obtain n ms where "n < 2" "run_agent example_pipe_env n ([''w'', ''w''] ! n) ms = Some (Inl e)"
      by (auto simp: numeral_2_eq_2)
    then have "run_agent example_pipe_env n ''w'' ms = Some (Inl e)" by (auto simp: less_2_cases_iff)
    with example_step[of n ms] show False by simp
  qed
  then obtain out where "r = Inr out" by (cases r) auto
  with c q show ?thesis by auto
qed

theorem concat_declaration_order_witness:
  "\<exists>b0 b1. br_index b0 = 0 \<and> br_index b1 = 1
     \<and> run_parallel example_pipe_env [1, 0] ''p'' ''par'' [''w'', ''w''] (Concat '', '') ''go''
       = finished ''p'' ''par'' (Inr (merged_output ''p'' '', '' [b0, b1]))"
proof -
  obtain b0 b1 where b: "run_branch example_pipe_env ''go'' 0 ''w'' = Some (Inr b0)" "br_index b0 = 0"
    "run_branch example_pipe_env ''go'' 1 ''w'' = Some (Inr b1)" "br_index b1 = 1"
    using example_branch by meson
  let ?R = "\<lambda>i. if i = 0 then Inr b0 else Inr b1"
  have "all_arrive example_pipe_env ''go'' [''w'', ''w''] [1, 0] ?R"
    using b by (auto simp: all_arrive_def less_Suc_eq)
  from concat_declaration_order [OF this, of "''p''" "''par''" "'', ''"] b show ?thesis by auto
qed

theorem fastest_branches_witness:
  "\<exists>b. br_index b = 0 \<and> run_parallel example_pipe_env [1, 0] ''p'' ''par'' [''w'', ''x''] First ''go''
     = finished ''p'' ''par'' (Inr \<lparr>po_pipeline_id = ''p'', po_final_response = br_response b, po_steps = [branch_step b],
         po_total_usage = br_usage b\<rparr>)"
proof -
  obtain b where b: "run_branch example_pipe_env ''go'' 0 ''w'' = Some (Inr b)" "br_index b = 0"
    using example_branch by meson
  have x: "run_branch example_pipe_env ''go'' 1 ''x'' = Some (Inl (AgentNotFound ''x''))"
    by (simp add: run_branch_def run_agent_def example_pipe_env_def)
  let ?R = "\<lambda>i. if i = 0 then Inr b else Inl (AgentNotFound ''x'')"
  have "all_arrive example_pipe_env ''go'' [''w'', ''x''] [1, 0] ?R"
    using b x by (auto simp: all_arrive_def less_Suc_eq)
  from fastest_branches [OF this, of "''p''" "''par''"] b show ?thesis by auto
qed

theorem loop_until_exit_witness:
  "\<exists>out es. run_loop example_pipe_env ''p'' ''loop'' ''w'' MaxIterations 2 ''go'' = Some (Inr out, es) \<and> length (po_steps out) = 2"
proof -
  obtain r es where q: "run_loop example_pipe_env ''p'' ''loop'' ''w'' MaxIterations 2 ''go'' = Some (r, es)"
    using loop_iterations_return[OF ready_example] by (fastforce simp: run_loop_def)
  from loop_until_exit [OF q] obtain results where l: "length results \<le> 2"
    "loop_verdict example_pipe_env ''p'' ''w'' MaxIterations 2 ''go'' results r" by blast
  show ?thesis
  proof (cases r)
    case (Inl e)
    with l example_step[of "length results" "iteration_input ''go'' results"] show ?thesis
      by (auto simp: loop_verdict_def split: if_splits)
  next
    case (Inr out)
    with l q show ?thesis by (auto simp: loop_verdict_def loop_output_def)
  qed
qed

theorem pipelines_return_witness:
  "\<exists>r es. executor_run example_pipe_env [] [(''p'', PLoop ''p'' ''loop'' ''w'' (ToolCalled ''stop'') 3)] ''p'' ''go'' = Some (r, es)
     \<and> (\<forall>i n m. r \<noteq> Inl (StepFailed i n m))"
  using pipelines_return [OF ready_example, of "[]" "[(''p'', PLoop ''p'' ''loop'' ''w'' (ToolCalled ''stop'') 3)]" "''p''" "''go''"]
  by (auto simp: pipelines_get_def)

theorem passed_context_unanswered_witness:
  "\<exists>results g li a'. prompt_stream example_env (map Llm (chain_context ''go'' results) @ [text_message 0 (chain_input ''go'' results)])
       example_agent = (Inr (g, li), a') \<and> \<not> paired_history (li_messages li)"
proof -
  let ?m = "example_assistant [ToolCall ''t1'' ''bash'' (JObject []) None]"
  let ?res = "agent_result_init\<lparr>res_messages := [Llm (Assistant ?m)]\<rparr>"
  let ?input = "map Llm (chain_context ''go'' [?res]) @ [text_message 0 (chain_input ''go'' [?res])]"
  have idle: "\<not> ag_loop_active example_agent" "ag_messages example_agent = []" by (simp_all add: example_agent_def)
  obtain g li a' where p: "prompt_stream example_env ?input example_agent = (Inr (g, li), a')"
    using prompt_runs_as[OF idle(1), of example_env ?input] by (auto simp: runs_as_def)
  have "Assistant ?m \<in> set (assistants_of ?res)" by (simp add: assistants_of_def List.map_filter_simps)
  moreover have "call_ids_of (Llm (Assistant ?m)) \<noteq> []" by (simp add: call_ids_of_def example_assistant_def)
  ultimately show ?thesis using passed_context_unanswered [OF idle, of ?res "[?res]" "Assistant ?m" example_env "''go''" g li a'] p
    by (meson list.set_intros(1))
qed

end
