(* ===== verification/Byte_Lines.thy ===== *)
theory Byte_Lines
  imports Prelude
begin

text \<open>
  Bytes, UTF-8 and lines, as the persisted sessions and the streaming adapters read them:
  \<^verbatim>\<open>str::from_utf8\<close>, \<^verbatim>\<open>read_raw_line\<close> of the session log and
  \<^verbatim>\<open>str::lines\<close>.
\<close>

section \<open>Bytes and lines\<close>

abbreviation nl :: char where "nl \<equiv> CHR 0x0A"
abbreviation cr :: char where "cr \<equiv> CHR 0x0D"
abbreviation blank :: char where "blank \<equiv> CHR 0x20"

text \<open>\<^verbatim>\<open>str::from_utf8\<close>: the well-formed byte sequences of the Unicode standard.\<close>

definition in_range :: "nat \<Rightarrow> nat \<Rightarrow> char \<Rightarrow> bool" where
  "in_range lo hi c = (lo \<le> of_char c \<and> of_char c \<le> hi)"

definition second_ok :: "char \<Rightarrow> char \<Rightarrow> bool" where
  "second_ok a b =
     (let n = of_char a :: nat in
      if n = 0xE0 then in_range 0xA0 0xBF b
      else if n = 0xED then in_range 0x80 0x9F b
      else if n = 0xF0 then in_range 0x90 0xBF b
      else if n = 0xF4 then in_range 0x80 0x8F b
      else in_range 0x80 0xBF b)"

fun valid_utf8 :: "string \<Rightarrow> bool" where
  "valid_utf8 [] = True"
| "valid_utf8 (a # s) =
     (if in_range 0 0x7F a then valid_utf8 s
      else if in_range 0xC2 0xDF a then (case s of b # s' \<Rightarrow> second_ok a b \<and> valid_utf8 s' | _ \<Rightarrow> False)
      else if in_range 0xE0 0xEF a then
        (case s of b # c # s' \<Rightarrow> second_ok a b \<and> in_range 0x80 0xBF c \<and> valid_utf8 s' | _ \<Rightarrow> False)
      else if in_range 0xF0 0xF4 a then
        (case s of b # c # d # s' \<Rightarrow> second_ok a b \<and> in_range 0x80 0xBF c \<and> in_range 0x80 0xBF d \<and> valid_utf8 s' | _ \<Rightarrow> False)
      else False)"

definition strip_cr :: "string \<Rightarrow> string" where
  "strip_cr l = (if l \<noteq> [] \<and> List.last l = cr then butlast l else l)"

definition read_raw_line :: "string \<Rightarrow> (string \<times> string) option" where
  "read_raw_line s =
     (if s = [] then None
      else let l = takeWhile (\<lambda>c. c \<noteq> nl) s in
        (case dropWhile (\<lambda>c. c \<noteq> nl) s of
           [] \<Rightarrow> Some (l, [])
         | _ # rest \<Rightarrow> Some (strip_cr l, rest)))"

lemma read_raw_line_shorter: "read_raw_line s = Some (l, rest) \<Longrightarrow> length rest < length s"
  using dropWhile_eq_drop[of "\<lambda>c. c \<noteq> nl" s]
  by (cases s) (auto simp: read_raw_line_def Let_def split: list.splits dest!: arg_cong[where f = length])

function raw_lines :: "string \<Rightarrow> string list" where
  "raw_lines s = (case read_raw_line s of None \<Rightarrow> [] | Some (l, rest) \<Rightarrow> l # raw_lines rest)"
  by auto
termination by (relation "measure length") (auto dest: read_raw_line_shorter)

declare raw_lines.simps [simp del]

fun split_lines :: "string \<Rightarrow> string list" where
  "split_lines [] = [[]]"
| "split_lines (c # cs) = (if c = nl then [] # split_lines cs else (case split_lines cs of l # ls \<Rightarrow> (c # l) # ls | [] \<Rightarrow> [[c]]))"

definition unlines :: "string list \<Rightarrow> string" where
  "unlines ls = concat (map (\<lambda>l. l @ [nl]) ls)"

section \<open>Decoding in chunks\<close>

text \<open>
  What \<^verbatim>\<open>str::from_utf8\<close> says of a byte string it rejects: \<^verbatim>\<open>valid_up_to\<close>
  is the length of the decoded prefix, and \<^verbatim>\<open>error_len\<close> is \<^verbatim>\<open>None\<close>
  when the input ends within a sequence (\<open>Utf8Short\<close> with the bytes of that sequence).
\<close>

datatype utf8_lead = Utf8Char nat | Utf8More | Utf8Wrong

definition continues :: "(char \<Rightarrow> bool) \<Rightarrow> string \<Rightarrow> (string \<Rightarrow> utf8_lead) \<Rightarrow> utf8_lead" where
  "continues ok s f = (case s of [] \<Rightarrow> Utf8More | c # s' \<Rightarrow> if ok c then f s' else Utf8Wrong)"

fun utf8_first :: "string \<Rightarrow> utf8_lead" where
  "utf8_first [] = Utf8More"
| "utf8_first (a # s) =
     (if in_range 0 0x7F a then Utf8Char 1
      else if in_range 0xC2 0xDF a then continues (second_ok a) s (\<lambda>_. Utf8Char 2)
      else if in_range 0xE0 0xEF a then continues (second_ok a) s (\<lambda>s. continues (in_range 0x80 0xBF) s (\<lambda>_. Utf8Char 3))
      else if in_range 0xF0 0xF4 a then
        continues (second_ok a) s (\<lambda>s. continues (in_range 0x80 0xBF) s (\<lambda>s. continues (in_range 0x80 0xBF) s (\<lambda>_. Utf8Char 4)))
      else Utf8Wrong)"

datatype utf8_stop = Utf8End | Utf8Short string | Utf8Bad

lemma continues_append:
  assumes "continues ok s f \<noteq> Utf8More" "\<And>s'. f s' \<noteq> Utf8More \<Longrightarrow> f (s' @ t) = f s'"
  shows "continues ok (s @ t) f = continues ok s f"
  using assms by (cases s) (auto simp: continues_def split: if_splits)

lemma utf8_first_append: "utf8_first s \<noteq> Utf8More \<Longrightarrow> utf8_first (s @ t) = utf8_first s"
  by (cases s) (auto simp: intro!: continues_append)

lemma utf8_first_Char:
  assumes "utf8_first s = Utf8Char n"
  shows "0 < n" "n \<le> length s"
proof -
  have "1 \<le> n \<and> n \<le> length s"
    using assms
    by (cases s) (auto simp: continues_def split: if_splits list.splits)
  then show "0 < n" "n \<le> length s" by auto
qed

function utf8_decode :: "string \<Rightarrow> string \<times> utf8_stop" where
  "utf8_decode s =
     (if s = [] then ([], Utf8End)
      else case utf8_first s of
             Utf8Char n \<Rightarrow> let (v, st) = utf8_decode (drop n s) in (take n s @ v, st)
           | Utf8More \<Rightarrow> ([], Utf8Short s)
           | Utf8Wrong \<Rightarrow> ([], Utf8Bad))"
  by auto
termination by (relation "measure length") (auto dest: utf8_first_Char)

declare utf8_decode.simps [simp del]

text \<open>\<^verbatim>\<open>from_utf8\<close> accepts exactly what decodes to the end.\<close>

lemma utf8_decode_valid: "valid_utf8 s \<longleftrightarrow> snd (utf8_decode s) = Utf8End"
proof (induction s rule: valid_utf8.induct)
  case (2 a s)
  then show ?case
    by (subst utf8_decode.simps) (auto simp: continues_def split: list.splits prod.splits)
qed (simp add: utf8_decode.simps)

text \<open>Decoding goes on where a chunk ended.\<close>

fun utf8_resume :: "string \<times> utf8_stop \<Rightarrow> string \<Rightarrow> string \<times> utf8_stop" where
  "utf8_resume (v, Utf8Bad) t = (v, Utf8Bad)"
| "utf8_resume (v, Utf8End) t = (let (w, st) = utf8_decode t in (v @ w, st))"
| "utf8_resume (v, Utf8Short c) t = (let (w, st) = utf8_decode (c @ t) in (v @ w, st))"

lemma utf8_decode_append: "utf8_decode (s @ t) = utf8_resume (utf8_decode s) t"
proof (induction s rule: utf8_decode.induct)
  case (1 s)
  show ?case
  proof (cases "s = []")
    case True
    then show ?thesis by (simp add: utf8_decode.simps[of "[]"])
  next
    case False
    show ?thesis
    proof (cases "utf8_first s")
      case (Utf8Char n)
      note n = utf8_first_Char[OF Utf8Char]
      have step: "utf8_decode s = (let (v, st) = utf8_decode (drop n s) in (take n s @ v, st))"
        using False Utf8Char by (subst utf8_decode.simps) simp
      have "utf8_decode (s @ t) = (let (v, st) = utf8_decode (drop n s @ t) in (take n s @ v, st))"
        using False Utf8Char n by (subst utf8_decode.simps) (simp add: utf8_first_append)
      also have "utf8_decode (drop n s @ t) = utf8_resume (utf8_decode (drop n s)) t"
        using 1 False Utf8Char by simp
      finally show ?thesis
        unfolding step by (cases "utf8_decode (drop n s)"; cases "snd (utf8_decode (drop n s))") (auto split: prod.splits)
    next
      case Utf8More
      with False show ?thesis
        by (subst (2) utf8_decode.simps) (simp split: prod.splits)
    next
      case Utf8Wrong
      with False show ?thesis
        by (subst (2) utf8_decode.simps, subst utf8_decode.simps) (simp add: utf8_first_append)
    qed
  qed
qed

lemma utf8_short: "utf8_decode s = (v, Utf8Short c) \<Longrightarrow> c \<noteq> [] \<and> utf8_decode c = ([], Utf8Short c)"
proof (induction s arbitrary: v rule: utf8_decode.induct)
  case (1 s)
  show ?case
  proof (cases "s \<noteq> [] \<and> utf8_first s = Utf8More")
    case True
    then have s: "utf8_decode s = ([], Utf8Short s)" by (subst utf8_decode.simps) simp
    with 1(2) have "c = s" by simp
    with s True show ?thesis by simp
  next
    case False
    with 1(2) have "s \<noteq> []" by (auto simp: utf8_decode.simps[of s])
    with False 1(2) obtain n where n: "utf8_first s = Utf8Char n"
      by (cases "utf8_first s") (auto simp: utf8_decode.simps[of s])
    with \<open>s \<noteq> []\<close> 1(2) obtain w where "utf8_decode (drop n s) = (w, Utf8Short c)"
      by (auto simp: utf8_decode.simps[of s] split: prod.splits)
    with 1(1)[OF \<open>s \<noteq> []\<close> n] show ?thesis by simp
  qed
qed

end
