(* ===== verification/Session_Log.thy ===== *)
theory Session_Log
  imports Message_Codec Byte_Lines
begin

text \<open>
  The file of a persisted session (\<^verbatim>\<open>memory/src/jsonl.rs\<close>): the records of its lines, how a
  file is read, how it is written and appended to, and what a crash in the middle of an append
  leaves behind. A file is the list of its bytes.

  Parsing and printing of JSON and the derived conversions of the stored types belong to serde:
  they are the fields of a record that every definition takes. An instant is its number of
  nanoseconds. Log lines are left out.
\<close>

section \<open>Stored types\<close>

datatype io_kind = IoNotFound | IoAlreadyExists | IoInvalidData | IoInvalidInput | IoOther

datatype io_error = IoError io_kind string

record session_meta =
  mt_id :: string
  mt_title :: string
  mt_created_at :: int
  mt_updated_at :: int
  mt_version :: u32
  mt_sequence :: u64

definition session_meta_new :: "string \<Rightarrow> string \<Rightarrow> int \<Rightarrow> int \<Rightarrow> session_meta" where
  "session_meta_new sid title created updated =
     \<lparr>mt_id = sid, mt_title = title, mt_created_at = created, mt_updated_at = updated, mt_version = 1, mt_sequence = 0\<rparr>"

datatype session_entry =
    EMessage llm_message
  | EModelChange model_spec model_spec u64
  | EThinkingLevelChange string string u64
  | ECompaction usize usize usize u64
  | ELabel string usize u64
  | ECustom string json u64

record pending_tool_call =
  pt_tool_call_id :: string
  pt_tool_name :: string
  pt_arguments :: json

record interrupt_state =
  is_interrupted_at :: u64
  is_pending_tool_calls :: "pending_tool_call list"
  is_context_snapshot :: "llm_message list"
  is_system_prompt :: string
  is_model :: model_spec

text \<open>What serde does: texts of JSON values, and the derived conversions with their error texts.\<close>

record serde =
  sd_parse :: "string \<Rightarrow> (string, json) result"
  sd_print :: "json \<Rightarrow> string"
  sd_meta_of :: "json \<Rightarrow> (string, session_meta) result"
  sd_meta_to :: "session_meta \<Rightarrow> json"
  sd_llm_of :: "json \<Rightarrow> (string, llm_message) result"
  sd_llm_to :: "llm_message \<Rightarrow> json"
  sd_entry_of :: "json \<Rightarrow> (string, session_entry) result"
  sd_entry_to :: "session_entry \<Rightarrow> json"
  sd_interrupt_print :: "interrupt_state \<Rightarrow> string"
  sd_interrupt_parse :: "string \<Rightarrow> (string, interrupt_state) result"
  sd_utf8_error :: "string \<Rightarrow> string"

definition other :: "(string, 'a) result \<Rightarrow> (io_error, 'a) result" where
  "other r = (case r of Inl e \<Rightarrow> Inl (IoError IoOther e) | Inr x \<Rightarrow> Inr x)"

definition marked :: "json \<Rightarrow> string \<Rightarrow> bool" where
  "marked j key = (json_get j key = Some (JBool True))"

definition json_data :: "json \<Rightarrow> json" where
  "json_data j = (case json_get j ''data'' of Some d \<Rightarrow> d | None \<Rightarrow> JNull)"

section \<open>Records\<close>

datatype session_record =
    RecLlm llm_message
  | RecCustom json
  | RecAppendBegin
  | RecMeta session_meta
  | RecState json

fun record_json :: "serde \<Rightarrow> session_record \<Rightarrow> json" where
  "record_json sd (RecLlm m) = sd_llm_to sd m"
| "record_json sd (RecCustom envelope) = envelope"
| "record_json sd RecAppendBegin = JObject [(''_append'', JBool True), (''phase'', JString ''begin'')]"
| "record_json sd (RecMeta meta) = JObject [(''_meta'', JBool True), (''data'', sd_meta_to sd meta)]"
| "record_json sd (RecState state) = JObject [(''_state'', JBool True), (''data'', state)]"

definition to_json_line :: "serde \<Rightarrow> session_record \<Rightarrow> string" where
  "to_json_line sd r = sd_print sd (record_json sd r)"

definition record_of :: "serde \<Rightarrow> json \<Rightarrow> (io_error, session_record) result" where
  "record_of sd value =
     (if marked value ''_state'' then Inr (RecState (json_data value))
      else if marked value ''_append'' then Inr RecAppendBegin
      else if marked value ''_meta'' then rbind (other (sd_meta_of sd (json_data value))) (\<lambda>m. Inr (RecMeta m))
      else if marked value ''_custom'' then Inr (RecCustom value)
      else rbind (other (sd_llm_of sd value)) (\<lambda>m. Inr (RecLlm m)))"

definition record_parse :: "serde \<Rightarrow> string \<Rightarrow> (io_error, session_record) result" where
  "record_parse sd line = rbind (other (sd_parse sd line)) (record_of sd)"

definition entry_parse :: "serde \<Rightarrow> string \<Rightarrow> (string, session_entry) result" where
  "entry_parse sd line =
     rbind (sd_parse sd line) (\<lambda>value.
       if json_get value ''entry_type'' \<noteq> None then sd_entry_of sd value
       else rbind (sd_llm_of sd value) (\<lambda>m. Inr (EMessage m)))"

definition encode_jsonl_message_line :: "serde \<Rightarrow> agent_message \<Rightarrow> string option" where
  "encode_jsonl_message_line sd m =
     (case m of
        Llm llm \<Rightarrow> Some (sd_print sd (sd_llm_to sd llm))
      | Custom custom \<Rightarrow>
         (case serialize_custom_message custom of
            Some (JObject envelope) \<Rightarrow> Some (sd_print sd (JObject (hm_insert ''_custom'' (JBool True) envelope)))
          | _ \<Rightarrow> None))"

text \<open>\<open>None\<close> for lines without a message; a custom message without a registry is skipped.\<close>

definition decode_jsonl_message_line :: "serde \<Rightarrow> string \<Rightarrow> custom_message_registry option
    \<Rightarrow> (io_error, agent_message option) result" where
  "decode_jsonl_message_line sd line registry =
     rbind (other (sd_parse sd line)) (\<lambda>value.
       if marked value ''_state'' then Inr None
       else if marked value ''_custom'' then
         rbind (other (restore_single_custom registry value)) (\<lambda>c. Inr (map_option Custom c))
       else
         (case sd_llm_of sd value of
            Inr m \<Rightarrow> Inr (Some (Llm m))
          | Inl _ \<Rightarrow> rbind (other (entry_parse sd line)) (\<lambda>e. case e of EMessage m \<Rightarrow> Inr (Some (Llm m)) | _ \<Rightarrow> Inr None)))"

definition record_from_message :: "serde \<Rightarrow> agent_message \<Rightarrow> session_record option" where
  "record_from_message sd m =
     (case encode_jsonl_message_line sd m of
        None \<Rightarrow> None
      | Some line \<Rightarrow>
         (case record_parse sd line of
            Inr (RecLlm llm) \<Rightarrow> Some (RecLlm llm)
          | Inr (RecCustom envelope) \<Rightarrow> Some (RecCustom envelope)
          | _ \<Rightarrow> None))"

section \<open>Reading a session file\<close>

definition canonical_meta :: "string \<Rightarrow> session_meta \<Rightarrow> session_meta" where
  "canonical_meta sid meta = meta\<lparr>mt_id := sid\<rparr>"

definition session_not_found :: "string \<Rightarrow> io_error" where
  "session_not_found sid = IoError IoNotFound (''session not found: '' @ sid)"

definition sequence_conflict :: "string \<Rightarrow> u64 \<Rightarrow> u64 \<Rightarrow> io_error" where
  "sequence_conflict sid expected actual =
     IoError IoAlreadyExists (''sequence conflict for session '' @ sid @ '': expected '' @ show_nat (unat expected)
       @ '', found '' @ show_nat (unat actual))"

definition empty_file :: io_error where
  "empty_file = IoError IoInvalidData ''empty session file''"

definition invalid_meta :: "string \<Rightarrow> io_error" where
  "invalid_meta e = IoError IoInvalidData (''invalid session metadata: '' @ e)"

definition parse_meta :: "serde \<Rightarrow> string \<Rightarrow> (io_error, session_meta) result" where
  "parse_meta sd line =
     (case rbind (sd_parse sd line) (sd_meta_of sd) of Inl e \<Rightarrow> Inl (invalid_meta e) | Inr m \<Rightarrow> Inr m)"

text \<open>The contents of the file that opening it finds.\<close>

definition open_session_file :: "string option \<Rightarrow> string \<Rightarrow> (io_error, string) result" where
  "open_session_file file sid =
     (case file of None \<Rightarrow> Inl (session_not_found sid) | Some bytes \<Rightarrow> if bytes = [] then Inl empty_file else Inr bytes)"

type_synonym log_scan = "session_meta \<times> string list \<times> string list option"

definition scan_line :: "serde \<Rightarrow> string \<Rightarrow> string \<Rightarrow> log_scan \<Rightarrow> log_scan" where
  "scan_line sd sid raw s =
     (let (meta, remaining, pending) = s in
      if \<not> valid_utf8 raw then s
      else
        (case record_parse sd raw of
           Inr RecAppendBegin \<Rightarrow> (meta, remaining, Some [])
         | Inr (RecMeta m) \<Rightarrow> (canonical_meta sid m, remaining @ (case pending of Some ls \<Rightarrow> ls | None \<Rightarrow> []), None)
         | _ \<Rightarrow> (case pending of
              Some ls \<Rightarrow> (meta, remaining, Some (ls @ [raw]))
            | None \<Rightarrow> (meta, remaining @ [raw], None))))"

definition read_meta_and_message_lines :: "serde \<Rightarrow> string \<Rightarrow> string option \<Rightarrow> (io_error, session_meta \<times> string list) result" where
  "read_meta_and_message_lines sd sid file =
     rbind (open_session_file file sid) (\<lambda>bytes.
       case raw_lines bytes of
         [] \<Rightarrow> Inl empty_file
       | meta_bytes # rest \<Rightarrow>
           if \<not> valid_utf8 meta_bytes then Inl (invalid_meta (sd_utf8_error sd meta_bytes))
           else rbind (parse_meta sd meta_bytes) (\<lambda>m.
             case fold (scan_line sd sid) rest (canonical_meta sid m, [], None) of
               (meta, remaining, _) \<Rightarrow> Inr (meta, remaining)))"

fun last_meta_rev :: "serde \<Rightarrow> string list \<Rightarrow> session_meta option" where
  "last_meta_rev sd [] = None"
| "last_meta_rev sd (line # ls) =
     (let line = strip_cr line in
      if line = [] \<or> \<not> valid_utf8 line then last_meta_rev sd ls
      else (case record_parse sd line of Inr (RecMeta m) \<Rightarrow> Some m | _ \<Rightarrow> last_meta_rev sd ls))"

definition last_meta_in_complete_lines :: "serde \<Rightarrow> string \<Rightarrow> session_meta option" where
  "last_meta_in_complete_lines sd bytes = last_meta_rev sd (rev (split_lines bytes))"

definition meta_of_line :: "serde \<Rightarrow> string \<Rightarrow> session_meta option" where
  "meta_of_line sd raw = (if valid_utf8 raw then (case record_parse sd raw of Inr (RecMeta m) \<Rightarrow> Some m | _ \<Rightarrow> None) else None)"

definition forward_meta :: "serde \<Rightarrow> string \<Rightarrow> session_meta option" where
  "forward_meta sd body = fold (\<lambda>raw acc. case meta_of_line sd raw of Some m \<Rightarrow> Some m | None \<Rightarrow> acc) (raw_lines body) None"

definition META_TAIL_WINDOW :: nat where
  "META_TAIL_WINDOW = 64 * 1024"

text \<open>
  The growing windows. A file is shorter than \<open>2 ^ 64\<close> bytes, so the saturating doubling never
  saturates below its length.
\<close>

function window_scan :: "serde \<Rightarrow> string \<Rightarrow> nat \<Rightarrow> nat \<Rightarrow> session_meta option" where
  "window_scan sd file body_start window =
     (let body_len = length file - body_start in
      if 0 < window \<and> window < body_len then
        (let buf = drop (length file - window) file in
         case dropWhile (\<lambda>c. c \<noteq> nl) buf of
           [] \<Rightarrow> window_scan sd file body_start (2 * window)
         | _ # whole \<Rightarrow>
            (case last_meta_in_complete_lines sd whole of
               Some m \<Rightarrow> Some m
             | None \<Rightarrow> window_scan sd file body_start (2 * window)))
      else forward_meta sd (drop body_start file))"
  by auto
termination
proof (relation "measure (\<lambda>(sd, file, body_start, window). length file - body_start - window)", goal_cases)
qed (simp, (simp only: in_measure prod.case, arith)+)

declare window_scan.simps [simp del]

definition find_last_meta_commit :: "serde \<Rightarrow> string \<Rightarrow> nat \<Rightarrow> session_meta option" where
  "find_last_meta_commit sd file body_start = window_scan sd file body_start META_TAIL_WINDOW"

definition trim_end :: "string \<Rightarrow> string" where
  "trim_end s = rev (dropWhile is_space (rev s))"

text \<open>The first line with its newline, as \<^verbatim>\<open>read_line\<close> returns it.\<close>

definition first_line :: "string \<Rightarrow> string" where
  "first_line bytes = takeWhile (\<lambda>c. c \<noteq> nl) bytes @ take 1 (dropWhile (\<lambda>c. c \<noteq> nl) bytes)"

definition read_meta_with_line_len :: "serde \<Rightarrow> string \<Rightarrow> string option \<Rightarrow> (io_error, session_meta \<times> nat) result" where
  "read_meta_with_line_len sd sid file =
     rbind (open_session_file file sid) (\<lambda>bytes.
       let line = first_line bytes in
       if \<not> valid_utf8 line then Inl (IoError IoInvalidData ''stream did not contain valid UTF-8'')
       else rbind (parse_meta sd (trim_end line)) (\<lambda>m.
         case find_last_meta_commit sd bytes (length line) of
           Some update \<Rightarrow> Inr (canonical_meta sid update, length line)
         | None \<Rightarrow> Inr (canonical_meta sid m, length line)))"

section \<open>Writing and appending\<close>

definition META_LINE_PADDING :: nat where
  "META_LINE_PADDING = 64"

definition meta_line :: "serde \<Rightarrow> session_meta \<Rightarrow> nat \<Rightarrow> string" where
  "meta_line sd meta padding = sd_print sd (sd_meta_to sd meta) @ replicate padding blank @ [nl]"

definition nonempty_lines :: "string list \<Rightarrow> string" where
  "nonempty_lines ls = unlines (filter (\<lambda>l. l \<noteq> []) ls)"

definition rewrite_session_file :: "serde \<Rightarrow> session_meta \<Rightarrow> string list \<Rightarrow> string" where
  "rewrite_session_file sd meta ls = meta_line sd meta META_LINE_PADDING @ nonempty_lines ls"

definition message_lines :: "serde \<Rightarrow> agent_message list \<Rightarrow> string list" where
  "message_lines sd ms = List.map_filter (\<lambda>m. map_option (to_json_line sd) (record_from_message sd m)) ms"

definition write_messages_with_preserved_lines :: "serde \<Rightarrow> session_meta \<Rightarrow> agent_message list \<Rightarrow> string list \<Rightarrow> string" where
  "write_messages_with_preserved_lines sd meta ms preserved =
     meta_line sd meta META_LINE_PADDING @ unlines (message_lines sd ms) @ nonempty_lines preserved"

text \<open>What an append writes at the end of the file, and then over its first line.\<close>

definition append_tail :: "serde \<Rightarrow> session_meta \<Rightarrow> string list \<Rightarrow> string" where
  "append_tail sd meta record_lines =
     unlines (to_json_line sd RecAppendBegin # filter (\<lambda>l. l \<noteq> []) record_lines @ [to_json_line sd (RecMeta meta)])"

definition meta_patch :: "string \<Rightarrow> nat \<Rightarrow> string" where
  "meta_patch line existing_line_len = line @ replicate (existing_line_len - 1 - length line) blank @ [nl]"

definition overwrite :: "string \<Rightarrow> string \<Rightarrow> string" where
  "overwrite bytes file = bytes @ drop (length bytes) file"

definition append_records_in_place :: "serde \<Rightarrow> session_meta \<Rightarrow> nat \<Rightarrow> string list \<Rightarrow> string \<Rightarrow> string option" where
  "append_records_in_place sd meta line_len record_lines file =
     (let line = sd_print sd (sd_meta_to sd meta) in
      if line_len < length line + 1 then None
      else Some (overwrite (meta_patch line line_len) (file @ append_tail sd meta record_lines)))"

text \<open>The file after a crash that let \<open>n\<close> bytes of an append in place through.\<close>

definition crashed_append :: "serde \<Rightarrow> session_meta \<Rightarrow> nat \<Rightarrow> string list \<Rightarrow> string \<Rightarrow> nat \<Rightarrow> string" where
  "crashed_append sd meta line_len record_lines file n =
     (let tail_bytes = append_tail sd meta record_lines;
          patch = meta_patch (sd_print sd (sd_meta_to sd meta)) line_len
      in if n \<le> length tail_bytes then file @ take n tail_bytes
         else overwrite (take (n - length tail_bytes) patch) (file @ tail_bytes))"

section \<open>Classified lines and migrations\<close>

datatype classified_line = ClEntry session_entry | ClCustom json | ClState

definition classify_line :: "serde \<Rightarrow> string \<Rightarrow> (io_error, classified_line) result" where
  "classify_line sd line =
     rbind (other (sd_parse sd line)) (\<lambda>value.
       if marked value ''_state'' then Inr ClState
       else if marked value ''_custom'' then Inr (ClCustom value)
       else rbind (other (entry_parse sd line)) (\<lambda>e. Inr (ClEntry e)))"

record migrator =
  mg_source_version :: u32
  mg_target_version :: u32
  mg_migrate :: "session_meta \<Rightarrow> session_entry list \<Rightarrow> (io_error, session_entry list) result"

definition CURRENT_VERSION :: u32 where
  "CURRENT_VERSION = 1"

text \<open>A migrator that does not raise the version would be run for ever.\<close>

partial_function (option) migrate_loop :: "migrator list \<Rightarrow> session_meta \<Rightarrow> session_entry list
    \<Rightarrow> (io_error, session_meta \<times> session_entry list) result option" where
  "migrate_loop migrators meta entries =
     (if mt_version meta < CURRENT_VERSION then
        (case List.find (\<lambda>m. mg_source_version m = mt_version meta) migrators of
           None \<Rightarrow> Some (Inl (IoError IoInvalidData (''no migrator found for version '' @ show_nat (unat (mt_version meta))
             @ '' -> '' @ show_nat (unat (mt_version meta + 1)))))
         | Some m \<Rightarrow>
            (case mg_migrate m meta entries of
               Inl e \<Rightarrow> Some (Inl e)
             | Inr entries' \<Rightarrow> migrate_loop migrators (meta\<lparr>mt_version := mg_target_version m\<rparr>) entries'))
      else Some (Inr (meta, entries)))"

definition run_migrations :: "migrator list \<Rightarrow> session_meta \<Rightarrow> session_entry list
    \<Rightarrow> (io_error, session_meta \<times> session_entry list) result option" where
  "run_migrations migrators meta entries =
     (if CURRENT_VERSION < mt_version meta
      then Some (Inl (IoError IoInvalidData (''unsupported session version '' @ show_nat (unat (mt_version meta))
             @ '' (current: '' @ show_nat (unat CURRENT_VERSION) @ '')'')))
      else migrate_loop migrators meta entries)"

definition entries_of :: "classified_line list \<Rightarrow> session_entry list" where
  "entries_of cs = List.map_filter (\<lambda>c. case c of ClEntry e \<Rightarrow> Some e | _ \<Rightarrow> None) cs"

fun weave_slots :: "classified_line list \<Rightarrow> session_entry list \<Rightarrow> classified_line list" where
  "weave_slots [] migrated = []"
| "weave_slots (ClEntry _ # cs) [] = weave_slots cs []"
| "weave_slots (ClEntry _ # cs) (e # es) = ClEntry e # weave_slots cs es"
| "weave_slots (c # cs) es = c # weave_slots cs es"

fun weave_block :: "bool \<Rightarrow> classified_line list \<Rightarrow> session_entry list \<Rightarrow> classified_line list" where
  "weave_block drained [] es = map ClEntry es"
| "weave_block drained (ClEntry _ # cs) es = (if drained then weave_block True cs es else map ClEntry es @ weave_block True cs [])"
| "weave_block drained (c # cs) es = c # weave_block drained cs es"

definition weave_migrated_entries :: "classified_line list \<Rightarrow> session_entry list \<Rightarrow> nat \<Rightarrow> classified_line list" where
  "weave_migrated_entries cs migrated original_entry_count =
     (if length migrated = original_entry_count then weave_slots cs migrated else weave_block False cs migrated)"

definition classified_of :: "serde \<Rightarrow> string list \<Rightarrow> classified_line list" where
  "classified_of sd ls = List.map_filter (\<lambda>l. case classify_line sd l of Inr c \<Rightarrow> Some c | Inl _ \<Rightarrow> None)
     (filter (\<lambda>l. str_trim l \<noteq> []) ls)"

definition classify_and_migrate :: "serde \<Rightarrow> migrator list \<Rightarrow> session_meta \<Rightarrow> string list
    \<Rightarrow> (io_error, session_meta \<times> classified_line list) result option" where
  "classify_and_migrate sd migrators meta ls =
     (let cs = classified_of sd ls in
      map_option (\<lambda>r. rbind r (\<lambda>(meta, migrated). Inr (meta, weave_migrated_entries cs migrated (length (entries_of cs)))))
        (run_migrations migrators meta (entries_of cs)))"

definition custom_envelope_to_message :: "serde \<Rightarrow> json \<Rightarrow> custom_message_registry option \<Rightarrow> (io_error, agent_message option) result" where
  "custom_envelope_to_message sd envelope registry = decode_jsonl_message_line sd (sd_print sd envelope) registry"

definition classified_lines_to_messages :: "serde \<Rightarrow> custom_message_registry option \<Rightarrow> classified_line list \<Rightarrow> agent_message list" where
  "classified_lines_to_messages sd registry cs =
     List.map_filter (\<lambda>c. case c of
         ClEntry (EMessage m) \<Rightarrow> Some (Llm m)
       | ClCustom envelope \<Rightarrow> (case custom_envelope_to_message sd envelope registry of Inr (Some m) \<Rightarrow> Some m | _ \<Rightarrow> None)
       | _ \<Rightarrow> None) cs"

text \<open>What loading a file yields.\<close>

definition load_file :: "serde \<Rightarrow> migrator list \<Rightarrow> string \<Rightarrow> custom_message_registry option \<Rightarrow> string option
    \<Rightarrow> (io_error, session_meta \<times> agent_message list) result option" where
  "load_file sd migrators sid registry file =
     (case read_meta_and_message_lines sd sid file of
        Inl e \<Rightarrow> Some (Inl e)
      | Inr (meta, ls) \<Rightarrow>
          map_option (\<lambda>r. rbind r (\<lambda>(meta, cs). Inr (meta, classified_lines_to_messages sd registry cs)))
            (classify_and_migrate sd migrators meta ls))"

section \<open>Lines of a file\<close>

definition line_like :: "string \<Rightarrow> bool" where
  "line_like l = (nl \<notin> set l)"

lemma unlines_simps [simp]: "unlines [] = []" "unlines (l # ls) = l @ nl # unlines ls" "unlines (xs @ ys) = unlines xs @ unlines ys"
  by (simp_all add: unlines_def)

lemma raw_lines_Nil [simp]: "raw_lines [] = []"
  by (simp add: raw_lines.simps read_raw_line_def)

lemma raw_lines_open [simp]: "line_like l \<Longrightarrow> raw_lines l = (if l = [] then [] else [l])"
proof -
  assume "line_like l"
  then have "takeWhile (\<lambda>c. c \<noteq> nl) l = l" "dropWhile (\<lambda>c. c \<noteq> nl) l = []" by (auto simp: line_like_def)
  note w = this
  show ?thesis by (simp add: raw_lines.simps[of l] read_raw_line_def Let_def w)
qed

lemma raw_lines_line [simp]: "line_like l \<Longrightarrow> raw_lines (l @ nl # rest) = strip_cr l # raw_lines rest"
proof -
  assume l: "line_like l"
  have "takeWhile (\<lambda>c. c \<noteq> nl) (l @ nl # rest) = l" "dropWhile (\<lambda>c. c \<noteq> nl) (l @ nl # rest) = nl # rest"
    using l by (auto simp: line_like_def takeWhile_append dropWhile_append dropWhile_eq_Nil_conv)
  note w = this
  show ?thesis by (simp add: raw_lines.simps[of "l @ nl # rest"] read_raw_line_def Let_def w)
qed

lemma raw_lines_unlines: "list_all line_like ls \<Longrightarrow> raw_lines (unlines ls @ rest) = map strip_cr ls @ raw_lines rest"
  by (induction ls) auto

lemma bytes_as_lines:
  obtains ls l where "s = unlines ls @ l" "list_all line_like ls" "line_like l" "split_lines s = ls @ [l]"
proof (induction s arbitrary: thesis)
  case Nil
  show ?case by (rule Nil[of "[]" "[]"]) (simp_all add: line_like_def)
next
  case (Cons c s)
  then obtain ls l where s: "s = unlines ls @ l" "list_all line_like ls" "line_like l" "split_lines s = ls @ [l]" by blast
  show ?case
  proof (cases "c = nl")
    case True
    with s show ?thesis by (intro Cons.prems[of "[] # ls" l]) (simp_all add: line_like_def[abs_def])
  next
    case False
    show ?thesis
    proof (cases ls)
      case Nil
      with s False show ?thesis by (intro Cons.prems[of "[]" "c # l"]) (auto simp: line_like_def)
    next
      case (Cons l1 ls')
      with s False show ?thesis by (intro Cons.prems[of "(c # l1) # ls'" l]) (simp_all add: line_like_def[abs_def])
    qed
  qed
qed

lemma raw_lines_append_line: "raw_lines (a @ nl # b) = raw_lines (a @ [nl]) @ raw_lines b"
proof -
  obtain ls l where a: "a = unlines ls @ l" "list_all line_like ls" "line_like l" by (rule bytes_as_lines[of a]) auto
  then show ?thesis using raw_lines_unlines[of ls "l @ nl # b"] raw_lines_unlines[of ls "l @ [nl]"] by simp
qed

definition closed_bytes :: "string \<Rightarrow> bool" where
  "closed_bytes s = (s = [] \<or> List.last s = nl)"

lemma raw_lines_append: "closed_bytes a \<Longrightarrow> raw_lines (a @ b) = raw_lines a @ raw_lines b"
proof (cases "a = []")
  case False
  moreover assume "closed_bytes a"
  ultimately obtain a' where "a = a' @ [nl]" by (metis append_butlast_last_id closed_bytes_def)
  then show ?thesis using raw_lines_append_line[of a' b] by simp
qed simp

lemma closed_unlines [simp]: "closed_bytes (unlines ls)"
  by (induction ls rule: rev_induct) (auto simp: closed_bytes_def)

text \<open>A cut through complete lines leaves complete lines and the beginning of one.\<close>

lemma take_unlines:
  assumes "n \<le> length (unlines ls)"
  obtains i j where "i \<le> length ls" "take n (unlines ls) = unlines (take i ls) @ (if i < length ls then take j (ls ! i) else [])"
    "i < length ls \<longrightarrow> j \<le> length (ls ! i)"
  using assms
proof (induction ls arbitrary: n thesis)
  case Nil
  then show ?case by (intro Nil.prems(1)[of 0 0]) simp_all
next
  case (Cons l ls)
  show ?case
  proof (cases "n \<le> length l")
    case True
    then show ?thesis by (intro Cons.prems(1)[of 0 n]) simp_all
  next
    case False
    with Cons.prems have "n - Suc (length l) \<le> length (unlines ls)" by simp
    from Cons.IH[OF _ this] obtain i j where ij: "i \<le> length ls"
      "take (n - Suc (length l)) (unlines ls) = unlines (take i ls) @ (if i < length ls then take j (ls ! i) else [])"
      "i < length ls \<longrightarrow> j \<le> length (ls ! i)" by blast
    moreover from False have "n - length l = Suc (n - Suc (length l))" by simp
    ultimately show ?thesis by (intro Cons.prems(1)[of "Suc i" j]) (simp_all add: False)
  qed
qed

section \<open>The tail windows find the last commit\<close>

text \<open>White space after a JSON text does not matter, and white space alone is not a JSON text.\<close>

definition lenient :: "serde \<Rightarrow> bool" where
  "lenient sd = ((\<forall>l v. sd_parse sd (l @ [cr]) = Inr v \<longleftrightarrow> sd_parse sd l = Inr v)
     \<and> (\<forall>l v. sd_parse sd (l @ [blank]) = Inr v \<longleftrightarrow> sd_parse sd l = Inr v)
     \<and> (\<forall>l v. sd_parse sd l = Inr v \<longrightarrow> sd_parse sd (trim_end l) = Inr v)
     \<and> (\<forall>l v. str_trim l = [] \<longrightarrow> sd_parse sd l \<noteq> Inr v))"

lemma lenient_Nil: "lenient sd \<Longrightarrow> sd_parse sd [] \<noteq> Inr v"
  unfolding lenient_def by (metis str_trim_empty_iff list.pred_inject(1))

fun last_some :: "'a option list \<Rightarrow> 'a option" where
  "last_some [] = None"
| "last_some (x # xs) = (case last_some xs of Some y \<Rightarrow> Some y | None \<Rightarrow> x)"

lemma last_some_append [simp]: "last_some (xs @ ys) = (case last_some ys of Some y \<Rightarrow> Some y | None \<Rightarrow> last_some xs)"
  by (induction xs) (auto split: option.splits)

definition commit_of :: "serde \<Rightarrow> string \<Rightarrow> session_meta option" where
  "commit_of sd body = last_some (map (meta_of_line sd) (raw_lines body))"

lemma forward_commit: "forward_meta sd body = commit_of sd body"
proof -
  have "fold (\<lambda>raw acc. case meta_of_line sd raw of Some m \<Rightarrow> Some m | None \<Rightarrow> acc) ls acc
      = (case last_some (map (meta_of_line sd) ls) of Some m \<Rightarrow> Some m | None \<Rightarrow> acc)" for ls acc
    by (induction ls arbitrary: acc) (auto split: option.splits)
  then show ?thesis by (simp add: forward_meta_def commit_of_def split: option.splits)
qed

lemma record_parse_Inr: "record_parse sd l = Inr r \<longleftrightarrow> (\<exists>v. sd_parse sd l = Inr v \<and> record_of sd v = Inr r)"
  by (auto simp: record_parse_def other_def split: sum.splits)

lemma utf8_cr: "valid_utf8 (l @ [cr]) = valid_utf8 l"
  by (induction l rule: valid_utf8.induct) (auto simp: in_range_def second_ok_def Let_def split: list.splits)

lemma meta_of_line_Some: "meta_of_line sd l = Some m \<longleftrightarrow> valid_utf8 l \<and> record_parse sd l = Inr (RecMeta m)"
  by (auto simp: meta_of_line_def split: sum.splits session_record.splits)

lemma meta_of_line_cr:
  assumes "lenient sd"
  shows "meta_of_line sd (l @ [cr]) = meta_of_line sd l"
proof -
  from assms have c: "\<And>l v. sd_parse sd (l @ [cr]) = Inr v \<longleftrightarrow> sd_parse sd l = Inr v" unfolding lenient_def by blast
  have "meta_of_line sd (l @ [cr]) = Some m \<longleftrightarrow> meta_of_line sd l = Some m" for m
    unfolding meta_of_line_Some record_parse_Inr utf8_cr c by (rule refl)
  then show ?thesis by (metis not_Some_eq)
qed

lemma meta_of_line_strip: "lenient sd \<Longrightarrow> meta_of_line sd (strip_cr l) = meta_of_line sd l"
  using meta_of_line_cr[of sd "butlast l"] by (auto simp: strip_cr_def) (metis append_butlast_last_id)

lemma meta_of_line_Nil: "lenient sd \<Longrightarrow> meta_of_line sd [] = None"
  using lenient_Nil[of sd] by (auto simp: meta_of_line_def record_parse_def other_def split: sum.splits)

lemma last_meta_rev: "lenient sd \<Longrightarrow> last_meta_rev sd ls = last_some (map (meta_of_line sd) (rev ls))"
proof (induction ls)
  case (Cons l ls)
  then show ?case
    using meta_of_line_strip[OF Cons.prems, of l] meta_of_line_Nil[OF Cons.prems]
    by (auto simp: Let_def meta_of_line_def split: sum.splits session_record.splits)
qed simp

lemma complete_lines_commit:
  assumes "lenient sd"
  shows "last_meta_in_complete_lines sd bytes = commit_of sd bytes"
proof -
  obtain ls l where b: "bytes = unlines ls @ l" "list_all line_like ls" "line_like l" "split_lines bytes = ls @ [l]"
    by (rule bytes_as_lines)
  have strip: "map (\<lambda>l. meta_of_line sd (strip_cr l)) ls = map (meta_of_line sd) ls"
    using meta_of_line_strip[OF assms] by simp
  have "last_meta_in_complete_lines sd bytes = last_some (map (meta_of_line sd) (ls @ [l]))"
    using last_meta_rev[OF assms, of "rev (split_lines bytes)"] b(4) by (simp add: last_meta_in_complete_lines_def)
  moreover have "commit_of sd bytes = last_some (map (meta_of_line sd) (map strip_cr ls @ (if l = [] then [] else [l])))"
    using b raw_lines_unlines[OF b(2), of l] by (simp add: commit_of_def)
  ultimately show ?thesis using meta_of_line_Nil[OF assms] strip by (auto simp: comp_def split: option.splits)
qed

lemma window_scan_forward:
  assumes "lenient sd"
  shows "window_scan sd file body_start window = forward_meta sd (drop body_start file)"
proof (induction "length file - body_start - window" arbitrary: window rule: less_induct)
  case less
  show ?case
  proof (cases "0 < window \<and> window < length file - body_start")
    case True
    have next_window: "window_scan sd file body_start (2 * window) = forward_meta sd (drop body_start file)"
      using True by (intro less) arith
    let ?buf = "drop (length file - window) file"
    obtain pre where body: "drop body_start file = pre @ ?buf"
    proof -
      have "drop body_start file = take (length file - window - body_start) (drop body_start file)
          @ drop (length file - window - body_start) (drop body_start file)" by (rule append_take_drop_id[symmetric])
      also have "drop (length file - window - body_start) (drop body_start file) = ?buf"
      proof -
        have "length file - window - body_start + body_start = length file - window" using True by arith
        then show ?thesis by (simp only: drop_drop)
      qed
      finally show thesis by (rule that)
    qed
    show ?thesis
    proof (cases "dropWhile (\<lambda>c. c \<noteq> nl) ?buf")
      case Nil
      from True next_window show ?thesis by (simp add: window_scan.simps[of sd "file" body_start window] Let_def Nil)
    next
      case (Cons c whole)
      then have "c = nl" by (metis (mono_tags, lifting) hd_dropWhile list.sel(1) list.distinct(1))
      then have "drop body_start file = (pre @ takeWhile (\<lambda>c. c \<noteq> nl) ?buf) @ nl # whole"
        using body Cons by (metis append.assoc takeWhile_dropWhile_id)
      then have "commit_of sd (drop body_start file) =
          (case commit_of sd whole of Some m \<Rightarrow> Some m
           | None \<Rightarrow> commit_of sd ((pre @ takeWhile (\<lambda>c. c \<noteq> nl) ?buf) @ [nl]))"
        by (simp only: commit_of_def raw_lines_append_line[of _ whole] map_append last_some_append)
      moreover have "window_scan sd file body_start window =
          (case last_meta_in_complete_lines sd whole of Some m \<Rightarrow> Some m | None \<Rightarrow> window_scan sd file body_start (2 * window))"
        using True by (simp add: window_scan.simps[of sd "file" body_start window] Let_def Cons)
      ultimately show ?thesis
        unfolding next_window complete_lines_commit[OF assms] forward_commit by (cases "commit_of sd whole") simp_all
    qed
  next
    case False
    then show ?thesis by (auto simp: window_scan.simps[of sd "file" body_start window] Let_def)
  qed
qed

text \<open>
  Scanning backwards through growing windows finds exactly the commit record that scanning the
  whole file forwards finds: the last line that parses as metadata, wherever the windows happen to
  cut the file, whatever lines are torn, and whatever the size of the first window.
\<close>

theorem tail_windows_exact:
  assumes "lenient sd"
  shows "find_last_meta_commit sd bytes body_start = forward_meta sd (drop body_start bytes)
    \<and> window_scan sd bytes body_start window = forward_meta sd (drop body_start bytes)"
  using window_scan_forward[OF assms] by (simp add: find_last_meta_commit_def)

end
