(* ===== verification/Session_Crash.thy ===== *)
theory Session_Crash
  imports Session_Log
begin

text \<open>
  Appending to a session file and crashing while doing so. An append in place writes its records
  between an opening line and a commit line at the end of the file, then writes the new metadata
  over the first line; a crash lets a prefix of these bytes through.
\<close>

section \<open>Scanning lines\<close>

definition whole_line :: "serde \<Rightarrow> string \<Rightarrow> bool" where
  "whole_line sd l = (line_like l \<and> valid_utf8 l \<and> strip_cr l = l \<and> (\<forall>p v. strict_prefix p l \<longrightarrow> sd_parse sd p \<noteq> Inr v))"

definition plain_line :: "serde \<Rightarrow> string \<Rightarrow> bool" where
  "plain_line sd l = (\<forall>r. record_parse sd l = Inr r \<longrightarrow> r \<noteq> RecAppendBegin \<and> (\<forall>m. r \<noteq> RecMeta m))"

definition torn_line :: "serde \<Rightarrow> string \<Rightarrow> bool" where
  "torn_line sd l = (\<forall>v. sd_parse sd l \<noteq> Inr v)"

lemma torn_plain: "torn_line sd l \<Longrightarrow> plain_line sd l"
  by (auto simp: torn_line_def plain_line_def record_parse_Inr)

lemma scan_begin: "valid_utf8 l \<Longrightarrow> record_parse sd l = Inr RecAppendBegin \<Longrightarrow> scan_line sd sid l (m, r, p) = (m, r, Some [])"
  by (simp add: scan_line_def)

lemma scan_commit:
  "valid_utf8 l \<Longrightarrow> record_parse sd l = Inr (RecMeta m') \<Longrightarrow>
     scan_line sd sid l (m, r, p) = (canonical_meta sid m', r @ (case p of Some ls \<Rightarrow> ls | None \<Rightarrow> []), None)"
  by (simp add: scan_line_def)

lemma scan_plain:
  assumes "plain_line sd l"
  shows "scan_line sd sid l (m, r, p) =
    (if valid_utf8 l then (case p of Some ls \<Rightarrow> (m, r, Some (ls @ [l])) | None \<Rightarrow> (m, r @ [l], None)) else (m, r, p))"
  using assms by (auto simp: scan_line_def plain_line_def split: sum.splits session_record.splits)

lemma scan_plains:
  "\<forall>l \<in> set ls. plain_line sd l \<and> valid_utf8 l \<Longrightarrow> fold (scan_line sd sid) ls (m, r, Some ps) = (m, r, Some (ps @ ls))"
  by (induction ls arbitrary: ps) (auto simp: scan_plain)

text \<open>The metadata a scan starts with does not change which lines it keeps.\<close>

lemma scan_any_meta:
  "\<exists>m2. fold (scan_line sd sid) ls (m', r, p) = (m2, snd (fold (scan_line sd sid) ls (m, r, p)))"
proof (induction ls arbitrary: m m' r p)
  case (Cons l ls)
  obtain m1 s where s: "scan_line sd sid l (m, r, p) = (m1, s)" by (cases "scan_line sd sid l (m, r, p)")
  then obtain m2 where "scan_line sd sid l (m', r, p) = (m2, s)"
    by (auto simp: scan_line_def Let_def split: if_splits sum.splits session_record.splits option.splits)
  with s Cons[of m2 "fst s" "snd s" m1] show ?case by simp
qed simp

section \<open>Settled files\<close>

text \<open>A file without an open append: its metadata and the lines it keeps.\<close>

definition settled :: "serde \<Rightarrow> string \<Rightarrow> string \<Rightarrow> session_meta \<Rightarrow> string list \<Rightarrow> bool" where
  "settled sd sid bytes meta ls = (\<exists>fl body m0. bytes = fl @ nl # body \<and> line_like fl \<and> valid_utf8 (strip_cr fl)
     \<and> parse_meta sd (strip_cr fl) = Inr m0 \<and> closed_bytes body
     \<and> fold (scan_line sd sid) (raw_lines body) (canonical_meta sid m0, [], None) = (meta, ls, None))"

lemma read_file:
  assumes "line_like fl"
  shows "read_meta_and_message_lines sd sid (Some (fl @ nl # body)) =
    (if \<not> valid_utf8 (strip_cr fl) then Inl (invalid_meta (sd_utf8_error sd (strip_cr fl)))
     else rbind (parse_meta sd (strip_cr fl)) (\<lambda>m.
       case fold (scan_line sd sid) (raw_lines body) (canonical_meta sid m, [], None) of (meta, remaining, _) \<Rightarrow> Inr (meta, remaining)))"
  using assms by (simp add: read_meta_and_message_lines_def open_session_file_def)

lemma settled_read: "settled sd sid bytes meta ls \<Longrightarrow> read_meta_and_message_lines sd sid (Some bytes) = Inr (meta, ls)"
  by (auto simp: settled_def read_file)

lemma settled_extend:
  assumes "settled sd sid bytes meta ls"
  shows "read_meta_and_message_lines sd sid (Some (bytes @ extra)) =
    (case fold (scan_line sd sid) (raw_lines extra) (meta, ls, None) of (m, r, _) \<Rightarrow> Inr (m, r))"
  using assms by (auto simp: settled_def read_file raw_lines_append)

text \<open>What is loaded depends on the kept lines only through those that parse.\<close>

definition load_lines :: "serde \<Rightarrow> migrator list \<Rightarrow> custom_message_registry option \<Rightarrow> session_meta \<times> string list
    \<Rightarrow> (io_error, session_meta \<times> agent_message list) result option" where
  "load_lines sd migrators registry p =
     map_option (\<lambda>r. rbind r (\<lambda>(meta, cs). Inr (meta, classified_lines_to_messages sd registry cs)))
       (classify_and_migrate sd migrators (fst p) (snd p))"

lemma load_file_lines:
  "load_file sd migrators sid registry bytes =
     (case read_meta_and_message_lines sd sid bytes of Inl e \<Rightarrow> Some (Inl e) | Inr p \<Rightarrow> load_lines sd migrators registry p)"
  by (auto simp: load_file_def load_lines_def split: sum.splits)

lemma classified_of_append: "classified_of sd (xs @ ys) = classified_of sd xs @ classified_of sd ys"
  by (simp add: classified_of_def filter_Some_map)

lemma classified_torn: "torn_line sd l \<Longrightarrow> classified_of sd [l] = []"
  by (auto simp: classified_of_def classify_line_def other_def torn_line_def List.map_filter_simps split: sum.splits)

lemma load_lines_torn: "torn_line sd l \<Longrightarrow> load_lines sd migrators registry (meta, ls @ [l]) = load_lines sd migrators registry (meta, ls)"
  by (simp add: load_lines_def classify_and_migrate_def classified_of_append classified_torn)

section \<open>Appends\<close>

text \<open>What serde promises of the lines an append writes.\<close>

definition appendable :: "serde \<Rightarrow> session_meta \<Rightarrow> string list \<Rightarrow> bool" where
  "appendable sd meta record_lines =
     (lenient sd
      \<and> whole_line sd (to_json_line sd RecAppendBegin) \<and> record_parse sd (to_json_line sd RecAppendBegin) = Inr RecAppendBegin
      \<and> (\<forall>l \<in> set record_lines. whole_line sd l \<and> plain_line sd l)
      \<and> whole_line sd (to_json_line sd (RecMeta meta)) \<and> record_parse sd (to_json_line sd (RecMeta meta)) = Inr (RecMeta meta)
      \<and> whole_line sd (sd_print sd (sd_meta_to sd meta)) \<and> parse_meta sd (sd_print sd (sd_meta_to sd meta)) = Inr meta)"

definition kept_records :: "string list \<Rightarrow> string list" where
  "kept_records ls = filter (\<lambda>l. l \<noteq> []) ls"

lemma strict_prefix_torn: "whole_line sd l \<Longrightarrow> strict_prefix p l \<Longrightarrow> torn_line sd p"
  by (simp add: whole_line_def torn_line_def)

lemma map_strip_whole: "\<forall>l \<in> set ls. whole_line sd l \<Longrightarrow> map strip_cr ls = ls"
  by (induction ls) (auto simp: whole_line_def)

lemma all_line_like: "\<forall>l \<in> set ls. whole_line sd l \<Longrightarrow> list_all line_like ls"
  by (auto simp: whole_line_def list_all_iff)

text \<open>The lines a cut of whole lines shows: some of them, and a torn one.\<close>

lemma cut_lines:
  assumes "\<forall>l \<in> set ls. whole_line sd l" "n \<le> length (unlines ls)"
  obtains i torn where "i \<le> length ls" "raw_lines (take n (unlines ls)) = take i ls @ torn"
    "torn = [] \<or> (\<exists>t. torn = [t] \<and> i < length ls \<and> strict_prefix t (ls ! i))"
proof (rule take_unlines[OF assms(2)])
  fix i j
  assume ij: "i \<le> length ls" "take n (unlines ls) = unlines (take i ls) @ (if i < length ls then take j (ls ! i) else [])"
    "i < length ls \<longrightarrow> j \<le> length (ls ! i)"
  have pre: "\<forall>l \<in> set (take i ls). whole_line sd l" using assms(1) in_set_takeD by fast
  show thesis
  proof (cases "i < length ls")
    case False
    with ij pre raw_lines_unlines[OF all_line_like[OF pre], of "[]"] show thesis
      by (intro that[of i "[]"]) (simp_all add: map_strip_whole)
  next
    case True
    let ?l = "ls ! i" and ?t = "take j (ls ! i)"
    have whole: "whole_line sd ?l" using True assms(1) by simp
    have t: "line_like ?t" using whole by (auto simp: whole_line_def line_like_def dest: in_set_takeD)
    have lines: "raw_lines (take n (unlines ls)) = take i ls @ (if ?t = [] then [] else [?t])"
      using ij(2) True raw_lines_unlines[OF all_line_like[OF pre], of ?t] t by (simp add: map_strip_whole[OF pre])
    show thesis
    proof (cases "?t = ?l \<and> ?t \<noteq> []")
      case True
      then have "raw_lines (take n (unlines ls)) = take (Suc i) ls"
        using lines \<open>i < length ls\<close> by (simp add: take_Suc_conv_app_nth)
      then show thesis using \<open>i < length ls\<close> by (intro that[of "Suc i" "[]"]) simp_all
    next
      case False
      then have "?t = [] \<or> strict_prefix ?t ?l" by (auto simp: strict_prefix_def take_is_prefix)
      with lines \<open>i < length ls\<close> show thesis by (intro that[of i "if ?t = [] then [] else [?t]"]) auto
    qed
  qed
qed

lemma scan_full_append:
  assumes "appendable sd meta recs"
  shows "fold (scan_line sd sid) (raw_lines (append_tail sd meta recs)) (m, ls, None) = (canonical_meta sid meta, ls @ kept_records recs, None)"
proof -
  let ?B = "to_json_line sd RecAppendBegin" and ?C = "to_json_line sd (RecMeta meta)" and ?R = "kept_records recs"
  note a = assms[unfolded appendable_def]
  have whole: "\<forall>l \<in> set (?B # ?R @ [?C]). whole_line sd l" using a by (auto simp: kept_records_def)
  have "raw_lines (append_tail sd meta recs) = ?B # ?R @ [?C]"
    using raw_lines_unlines[OF all_line_like[OF whole], of "[]"] map_strip_whole[OF whole] by (simp add: append_tail_def kept_records_def)
  moreover have "scan_line sd sid ?B (m, ls, None) = (m, ls, Some [])"
    using a by (intro scan_begin) (auto simp: whole_line_def)
  moreover have "fold (scan_line sd sid) ?R (m, ls, Some []) = (m, ls, Some ?R)"
    using scan_plains[of ?R sd sid m ls "[]"] a by (auto simp: kept_records_def whole_line_def)
  moreover have "scan_line sd sid ?C (m, ls, Some ?R) = (canonical_meta sid meta, ls @ ?R, None)"
    using a scan_commit[of ?C sd meta sid m ls "Some ?R"] by (auto simp: whole_line_def)
  ultimately show ?thesis by simp
qed

text \<open>Reading a file with a cut append: nothing but torn lines is added, or everything is.\<close>

lemma read_cut_append:
  assumes "settled sd sid bytes old ls" "appendable sd meta recs" "n \<le> length (append_tail sd meta recs)"
  shows "(\<exists>torn. list_all (torn_line sd) torn \<and> length torn \<le> 1
      \<and> read_meta_and_message_lines sd sid (Some (bytes @ take n (append_tail sd meta recs))) = Inr (old, ls @ torn))
    \<or> read_meta_and_message_lines sd sid (Some (bytes @ take n (append_tail sd meta recs)))
      = Inr (canonical_meta sid meta, ls @ kept_records recs)"
proof -
  let ?B = "to_json_line sd RecAppendBegin" and ?C = "to_json_line sd (RecMeta meta)" and ?R = "kept_records recs"
  let ?LS = "?B # ?R @ [?C]"
  note a = assms(2)[unfolded appendable_def]
  have whole: "\<forall>l \<in> set ?LS. whole_line sd l" using a by (auto simp: kept_records_def)
  have tail: "append_tail sd meta recs = unlines ?LS" by (simp add: append_tail_def kept_records_def)
  have R: "\<forall>l \<in> set ?R. plain_line sd l \<and> valid_utf8 l" using a by (auto simp: kept_records_def whole_line_def)
  have B: "scan_line sd sid ?B (old, ls, None) = (old, ls, Some [])"
    using a by (intro scan_begin) (auto simp: whole_line_def)
  obtain i torn where c: "i \<le> length ?LS" "raw_lines (take n (unlines ?LS)) = take i ?LS @ torn"
    "torn = [] \<or> (\<exists>t. torn = [t] \<and> i < length ?LS \<and> strict_prefix t (?LS ! i))"
    by (rule cut_lines[OF whole]) (use assms(3) tail in auto)
  have torn: "list_all (torn_line sd) torn" "length torn \<le> 1"
    using c(3) strict_prefix_torn[OF bspec[OF whole nth_mem]] by auto
  have torn_scan: "\<exists>p'. fold (scan_line sd sid) torn (m, r, Some p) = (m, r, Some p')" for m r p
    using torn by (cases torn) (auto simp: scan_plain[OF torn_plain])
  note read = settled_extend[OF assms(1), of "take n (append_tail sd meta recs)"]
  consider (none) "i = 0" | (some) "0 < i" "i < length ?LS" | (all) "i = length ?LS" using c(1) by linarith
  then show ?thesis
  proof cases
    case none
    with c(2) have "raw_lines (take n (append_tail sd meta recs)) = torn" by (simp add: tail)
    moreover have "\<exists>x. list_all (torn_line sd) x \<and> length x \<le> 1 \<and> fold (scan_line sd sid) torn (old, ls, None) = (old, ls @ x, None)"
    proof (cases torn)
      case (Cons t ts)
      with torn have "torn = [t]" "torn_line sd t" by auto
      then show ?thesis
        by (cases "valid_utf8 t") (auto simp: scan_plain[OF torn_plain] intro: exI[of _ "[t]"])
    qed (auto intro: exI[of _ "[]"])
    ultimately show ?thesis using read by auto
  next
    case some
    then have "take i ?LS = ?B # take (i - 1) ?R" by (cases i) auto
    with c(2) have "raw_lines (take n (append_tail sd meta recs)) = ?B # take (i - 1) ?R @ torn" by (simp add: tail)
    moreover have "fold (scan_line sd sid) (take (i - 1) ?R) (old, ls, Some []) = (old, ls, Some (take (i - 1) ?R))"
    proof -
      have "\<forall>l \<in> set (take (i - 1) ?R). plain_line sd l \<and> valid_utf8 l" using R by (meson in_set_takeD)
      from scan_plains[OF this, of sid old ls "[]"] show ?thesis by simp
    qed
    moreover obtain p' where "fold (scan_line sd sid) torn (old, ls, Some (take (i - 1) ?R)) = (old, ls, Some p')"
      using torn_scan by blast
    ultimately show ?thesis using read B by (intro disjI1 exI[of _ "[]"]) simp
  next
    case all
    with c(2,3) have "raw_lines (take n (append_tail sd meta recs)) = ?LS" by (auto simp: tail)
    moreover have "raw_lines (append_tail sd meta recs) = ?LS"
      using raw_lines_unlines[OF all_line_like[OF whole], of "[]"] map_strip_whole[OF whole] by (simp add: tail)
    ultimately show ?thesis using read scan_full_append[OF assms(2), of sid old ls] by simp
  qed
qed

section \<open>Writing over the first line\<close>

lemma utf8_ascii: "in_range 0 0x7F c \<Longrightarrow> valid_utf8 (l @ [c]) = valid_utf8 l"
  by (induction l rule: valid_utf8.induct) (auto simp: in_range_def second_ok_def Let_def split: list.splits)

lemma parse_meta_Inr: "parse_meta sd l = Inr m \<longleftrightarrow> (\<exists>v. sd_parse sd l = Inr v \<and> sd_meta_of sd v = Inr m)"
  by (cases "sd_parse sd l") (auto simp: parse_meta_def split: sum.splits)

lemma pad_ok:
  assumes "lenient sd" "whole_line sd l" "parse_meta sd l = Inr m"
  shows "line_like (l @ replicate n blank) \<and> valid_utf8 (l @ replicate n blank) \<and> strip_cr (l @ replicate n blank) = l @ replicate n blank
    \<and> parse_meta sd (l @ replicate n blank) = Inr m"
proof (induction n)
  case 0
  with assms show ?case by (simp add: whole_line_def)
next
  case (Suc n)
  have shape: "l @ replicate (Suc n) blank = (l @ replicate n blank) @ [blank]" by (simp add: replicate_append_same)
  from assms(1) have b: "\<And>l v. sd_parse sd (l @ [blank]) = Inr v \<longleftrightarrow> sd_parse sd l = Inr v" unfolding lenient_def by blast
  have "parse_meta sd ((l @ replicate n blank) @ [blank]) = Inr m"
    using Suc unfolding parse_meta_Inr b by blast
  then show ?case unfolding shape using Suc utf8_ascii[of blank "l @ replicate n blank"]
    by (simp add: line_like_def strip_cr_def in_range_def)
qed

lemma first_line_bytes: "line_like fl \<Longrightarrow> first_line (fl @ nl # body) = fl @ [nl]"
proof -
  assume fl: "line_like fl"
  have "takeWhile (\<lambda>c. c \<noteq> nl) (fl @ nl # body) = fl" "dropWhile (\<lambda>c. c \<noteq> nl) (fl @ nl # body) = nl # body"
    using fl by (auto simp: line_like_def takeWhile_append dropWhile_append dropWhile_eq_Nil_conv)
  note w = this
  show ?thesis by (simp add: first_line_def w)
qed

lemma overwrite_first_line:
  assumes "length pl = length fl"
  shows "overwrite (take k (pl @ [nl])) (fl @ nl # rest) = (take k pl @ drop k fl) @ nl # rest"
proof (cases "k \<le> length fl")
  case True
  with assms show ?thesis by (simp add: overwrite_def)
next
  case False
  with assms show ?thesis by (simp add: overwrite_def)
qed

text \<open>The first line while \<open>k\<close> bytes of the new metadata are written over it.\<close>

lemma read_patched:
  assumes "settled sd sid bytes old ls" "appendable sd meta recs" "line_len = length (first_line bytes)"
    "length (sd_print sd (sd_meta_to sd meta)) < line_len"
  defines "written \<equiv> \<lambda>k. overwrite (take k (meta_patch (sd_print sd (sd_meta_to sd meta)) line_len)) (bytes @ append_tail sd meta recs)"
  shows "read_meta_and_message_lines sd sid (Some (written k)) = Inr (canonical_meta sid meta, ls @ kept_records recs)
      \<or> (\<exists>e. read_meta_and_message_lines sd sid (Some (written k)) = Inl (invalid_meta e))"
    and "line_len \<le> k \<Longrightarrow> settled sd sid (written k) (canonical_meta sid meta) (ls @ kept_records recs)"
proof -
  let ?p = "sd_print sd (sd_meta_to sd meta)"
  note a = assms(2)[unfolded appendable_def]
  obtain fl body m0 where f: "bytes = fl @ nl # body" "line_like fl" "closed_bytes body"
    "fold (scan_line sd sid) (raw_lines body) (canonical_meta sid m0, [], None) = (old, ls, None)"
    using assms(1) by (auto simp: settled_def)
  let ?pl = "?p @ replicate (length fl - length ?p) blank"
  have len: "line_len = Suc (length fl)" "length ?p \<le> length fl" using assms(3,4) f by (simp_all add: first_line_bytes)
  have pl: "length ?pl = length fl" using len by simp
  have img: "written k = (take k ?pl @ drop k fl) @ nl # body @ append_tail sd meta recs" for k
    using overwrite_first_line[OF pl, of k "body @ append_tail sd meta recs"] by (simp add: written_def meta_patch_def len f(1))
  have pad: "line_like ?pl \<and> valid_utf8 ?pl \<and> strip_cr ?pl = ?pl \<and> parse_meta sd ?pl = Inr meta"
    using pad_ok a by blast
  have like: "line_like (take k ?pl @ drop k fl)" for k
    using pad f(2) by (auto simp: line_like_def dest: in_set_takeD in_set_dropD)
  have body: "fold (scan_line sd sid) (raw_lines (body @ append_tail sd meta recs)) (m, [], None)
      = (canonical_meta sid meta, ls @ kept_records recs, None)" for m
  proof -
    obtain m2 where "fold (scan_line sd sid) (raw_lines body) (m, [], None) = (m2, ls, None)"
      using scan_any_meta[of sd sid "raw_lines body" m "[]" None "canonical_meta sid m0"] f(4) by auto
    then show ?thesis using scan_full_append[OF assms(2)] by (simp add: raw_lines_append[OF f(3)])
  qed
  show "read_meta_and_message_lines sd sid (Some (written k)) = Inr (canonical_meta sid meta, ls @ kept_records recs)
      \<or> (\<exists>e. read_meta_and_message_lines sd sid (Some (written k)) = Inl (invalid_meta e))"
  proof (cases "parse_meta sd (strip_cr (take k ?pl @ drop k fl))")
    case (Inl e)
    then show ?thesis unfolding img read_file[OF like] by (auto simp: parse_meta_def split: sum.splits)
  next
    case (Inr m)
    then show ?thesis unfolding img read_file[OF like] by (auto simp: body)
  qed
  show "settled sd sid (written k) (canonical_meta sid meta) (ls @ kept_records recs)" if "line_len \<le> k"
  proof -
    have "take k ?pl @ drop k fl = ?pl" using that len pl by simp
    moreover have "closed_bytes (body @ append_tail sd meta recs)"
      using f(3) closed_unlines by (auto simp: closed_bytes_def append_tail_def)
    ultimately show ?thesis unfolding settled_def img using pad body by (intro exI[of _ ?pl] exI) auto
  qed
qed

section \<open>Crash atomicity\<close>


section \<open>What the next append does with a torn record\<close>

lemma load_lines_skip: "torn_line sd l \<Longrightarrow> load_lines sd migrators registry (meta, xs @ l # ys) = load_lines sd migrators registry (meta, xs @ ys)"
  using classified_torn[of sd l] classified_of_append[of sd xs "l # ys"] classified_of_append[of sd "[l]" ys]
  by (simp add: load_lines_def classify_and_migrate_def classified_of_append)

lemma begin_nonempty: "appendable sd meta recs \<Longrightarrow> to_json_line sd RecAppendBegin \<noteq> []"
  by (auto simp: appendable_def record_parse_Inr lenient_Nil)

lemma strip_cr_glued: "b \<noteq> [] \<Longrightarrow> strip_cr b = b \<Longrightarrow> strip_cr (a @ b) = a @ b"
  by (cases b rule: rev_cases) (auto simp: strip_cr_def split: if_splits)

text \<open>
  C26. A torn record brings discarded records back. When an append is cut inside a record, loading
  the file discards what that append wrote, as it should; but the torn record has no newline, so
  the opening line of the next append is glued to it and lost, and the commit of that append
  commits the records that had been discarded together with its own.
\<close>

theorem torn_record_resurrects:
  assumes "settled sd sid bytes old ls" "appendable sd meta recs" "appendable sd meta' recs'"
    and cut: "i < length (kept_records recs)" "0 < j" "j < length (kept_records recs ! i)"
      "n = length (unlines (to_json_line sd RecAppendBegin # take i (kept_records recs))) + j"
    and glued: "torn_line sd (take j (kept_records recs ! i) @ to_json_line sd RecAppendBegin)"
    and "line_len = length (first_line bytes)"
      "append_records_in_place sd meta' line_len recs' (crashed_append sd meta line_len recs bytes n) = Some done"
  shows "load_file sd migrators sid registry (Some (crashed_append sd meta line_len recs bytes n)) = load_lines sd migrators registry (old, ls)
    \<and> load_file sd migrators sid registry (Some done)
      = load_lines sd migrators registry (canonical_meta sid meta', ls @ take i (kept_records recs) @ kept_records recs')"
proof -
  let ?B = "to_json_line sd RecAppendBegin" and ?R = "kept_records recs" and ?R' = "kept_records recs'"
  let ?C' = "to_json_line sd (RecMeta meta')" and ?t = "take j (?R ! i)" and ?p = "sd_print sd (sd_meta_to sd meta')"
  note a = assms(2)[unfolded appendable_def] and a' = assms(3)[unfolded appendable_def]
  have whole: "\<forall>l \<in> set (?B # take i ?R). whole_line sd l"
    using a by (auto simp: kept_records_def dest: in_set_takeD)
  have tail: "append_tail sd meta recs = unlines (?B # take i ?R) @ (?R ! i) @ nl # unlines (drop (Suc i) ?R @ [to_json_line sd (RecMeta meta)])"
    using id_take_nth_drop[OF cut(1)] by (simp add: append_tail_def kept_records_def[symmetric])
      (metis (no_types, lifting) append.assoc append_Cons unlines_simps(2,3))
  have n: "n \<le> length (append_tail sd meta recs)" "take n (append_tail sd meta recs) = unlines (?B # take i ?R) @ ?t"
    using cut by (simp_all add: tail)
  have crashed: "crashed_append sd meta line_len recs bytes n = bytes @ unlines (?B # take i ?R) @ ?t"
    using n by (simp add: crashed_append_def)
  have ri: "whole_line sd (?R ! i)" using a nth_mem[OF cut(1)] by (auto simp: kept_records_def)
  have torn: "torn_line sd ?t" using strict_prefix_torn[OF ri] cut(3) by (simp add: strict_prefix_def take_is_prefix)
  have like: "line_like ?t" "line_like ?B" "line_like (?t @ ?B)"
    using ri a by (auto simp: whole_line_def line_like_def dest: in_set_takeD)
  obtain fl body m0 where f: "bytes = fl @ nl # body" "line_like fl" "closed_bytes body"
    "fold (scan_line sd sid) (raw_lines body) (canonical_meta sid m0, [], None) = (old, ls, None)"
    using assms(1) by (auto simp: settled_def)
  have B: "scan_line sd sid ?B (m, r, p) = (m, r, Some [])" for m r p
    using a by (intro scan_begin) (auto simp: whole_line_def)
  have R: "fold (scan_line sd sid) (take i ?R) (m, r, Some []) = (m, r, Some (take i ?R))" for m r
  proof -
    have "\<forall>l \<in> set (take i ?R). plain_line sd l \<and> valid_utf8 l" using a by (auto simp: kept_records_def whole_line_def dest: in_set_takeD)
    from scan_plains[OF this, of sid m r "[]"] show ?thesis by simp
  qed
  have torn_scan: "\<exists>x. list_all (torn_line sd) x \<and> length x \<le> 1 \<and> scan_line sd sid l (m, r, Some p) = (m, r, Some (p @ x))"
    if "torn_line sd l" for l m r p
    using that by (cases "valid_utf8 l") (auto simp: scan_plain[OF torn_plain] intro: exI[of _ "[l]"])
  have first: "load_file sd migrators sid registry (Some (crashed_append sd meta line_len recs bytes n)) = load_lines sd migrators registry (old, ls)"
  proof -
    obtain x where "scan_line sd sid ?t (old, ls, Some (take i ?R)) = (old, ls, Some (take i ?R @ x))" using torn_scan[OF torn] by blast
    moreover have "raw_lines (unlines (?B # take i ?R) @ ?t) = (?B # take i ?R) @ [?t]"
      using raw_lines_unlines[OF all_line_like[OF whole], of ?t] map_strip_whole[OF whole] like cut by auto
    ultimately show ?thesis
      using settled_extend[OF assms(1), of "unlines (?B # take i ?R) @ ?t"] by (simp add: load_file_lines crashed B R)
  qed
  from assms(10) have len: "length ?p < line_len"
    and d: "done = overwrite (meta_patch ?p line_len) (crashed_append sd meta line_len recs bytes n @ append_tail sd meta' recs')"
    by (auto simp: append_records_in_place_def Let_def split: if_splits)
  let ?rest = "body @ unlines (?B # take i ?R) @ ?t @ append_tail sd meta' recs'"
  let ?pl = "?p @ replicate (length fl - length ?p) blank"
  have ll: "line_len = Suc (length fl)" using assms(9) f by (simp add: first_line_bytes)
  have "done = ?pl @ nl # ?rest"
    using overwrite_first_line[of ?pl fl "Suc (length fl)" ?rest] len ll
    by (simp add: d[unfolded crashed] f(1) meta_patch_def)
  moreover have pad: "line_like ?pl \<and> valid_utf8 ?pl \<and> strip_cr ?pl = ?pl \<and> parse_meta sd ?pl = Inr meta'"
    using pad_ok a' by blast
  ultimately have read: "read_meta_and_message_lines sd sid (Some done) =
      (case fold (scan_line sd sid) (raw_lines ?rest) (canonical_meta sid meta', [], None) of (m, r, _) \<Rightarrow> Inr (m, r))"
    using read_file[of ?pl] by simp
  have whole': "\<forall>l \<in> set (?R' @ [?C']). whole_line sd l" using a' by (auto simp: kept_records_def)
  have lines: "raw_lines ?rest = raw_lines body @ (?B # take i ?R) @ strip_cr (?t @ ?B) # ?R' @ [?C']"
  proof -
    have "append_tail sd meta' recs' = ?B @ nl # unlines (?R' @ [?C'])" by (simp add: append_tail_def kept_records_def)
    moreover have "raw_lines ((?t @ ?B) @ nl # unlines (?R' @ [?C'])) = strip_cr (?t @ ?B) # ?R' @ [?C']"
      using raw_lines_line[OF like(3), of "unlines (?R' @ [?C'])"] raw_lines_unlines[OF all_line_like[OF whole'], of "[]"]
        map_strip_whole[OF whole'] by simp
    ultimately show ?thesis
      using raw_lines_unlines[OF all_line_like[OF whole], of "(?t @ ?B) @ nl # unlines (?R' @ [?C'])"] map_strip_whole[OF whole]
      by (simp add: raw_lines_append[OF f(3)])
  qed
  have glue: "strip_cr (?t @ ?B) = ?t @ ?B"
    using a strip_cr_glued[OF begin_nonempty[OF assms(2)]] by (simp add: whole_line_def)
  obtain m2 where b: "fold (scan_line sd sid) (raw_lines body) (canonical_meta sid meta', [], None) = (m2, ls, None)"
    using scan_any_meta[of sd sid "raw_lines body" "canonical_meta sid meta'" "[]" None "canonical_meta sid m0"] f(4) by auto
  obtain x where x: "list_all (torn_line sd) x" "length x \<le> 1"
    "scan_line sd sid (?t @ ?B) (m2, ls, Some (take i ?R)) = (m2, ls, Some (take i ?R @ x))"
    using torn_scan[OF glued] by blast
  have "fold (scan_line sd sid) ?R' (m2, ls, Some (take i ?R @ x)) = (m2, ls, Some ((take i ?R @ x) @ ?R'))"
    using a' by (intro scan_plains) (auto simp: kept_records_def whole_line_def)
  moreover have "scan_line sd sid ?C' (m2, ls, Some p) = (canonical_meta sid meta', ls @ p, None)" for p
    using a' scan_commit[of ?C' sd meta' sid m2 ls "Some p"] by (auto simp: whole_line_def)
  ultimately have "read_meta_and_message_lines sd sid (Some done) = Inr (canonical_meta sid meta', ls @ (take i ?R @ x) @ ?R')"
    unfolding read lines glue using b x(3) by (simp add: B R)
  moreover have "load_lines sd migrators registry (canonical_meta sid meta', ls @ (take i ?R @ x) @ ?R')
      = load_lines sd migrators registry (canonical_meta sid meta', ls @ take i ?R @ ?R')"
    using x(1,2) load_lines_skip[of sd "hd x" migrators registry "canonical_meta sid meta'" "ls @ take i ?R" ?R'] by (cases x) auto
  ultimately show ?thesis using first by (simp add: load_file_lines)
qed

section \<open>Witnesses\<close>

text \<open>A serde that knows a handful of texts, each a letter between braces.\<close>

definition example_meta :: "u64 \<Rightarrow> session_meta" where
  "example_meta n = (session_meta_new ''s'' ''t'' 0 0)\<lparr>mt_sequence := n\<rparr>"

definition example_texts :: "(json \<times> string) list" where
  "example_texts =
     [(JObject [(''_append'', JBool True), (''phase'', JString ''begin'')], ''{b}''),
      (JNumber 1, ''{1}''), (JNumber 2, ''{2}''), (JNumber 3, ''{3}''),
      (JObject [(''_meta'', JBool True), (''data'', JNumber 2)], ''{C}''),
      (JObject [(''_meta'', JBool True), (''data'', JNumber 3)], ''{D}''),
      (JString ''r'', ''{r}''), (JString ''s'', ''{s}''),
      (JObject [(''_state'', JBool True), (''data'', JNumber 7)], ''{S}'')]"

definition rstrip :: "string \<Rightarrow> string" where
  "rstrip l = rev (dropWhile (\<lambda>c. c = cr \<or> c = blank) (rev l))"

definition example_serde :: serde where
  "example_serde =
     \<lparr>sd_parse = \<lambda>s. ok_or (map_of (map (\<lambda>(j, t). (t, j)) example_texts) (rstrip s)) ''no such text'',
      sd_print = \<lambda>j. case map_of example_texts j of Some t \<Rightarrow> t | None \<Rightarrow> ''{?}'',
      sd_meta_of = \<lambda>j. case j of JNumber x \<Rightarrow> Inr (example_meta (if x = 1 then 1 else if x = 2 then 2 else 3)) | _ \<Rightarrow> Inl ''not a number'',
      sd_meta_to = \<lambda>m. JNumber (if mt_sequence m = 1 then 1 else if mt_sequence m = 2 then 2 else 3),
      sd_llm_of = \<lambda>j. case j of JString t \<Rightarrow> Inr (User \<lparr>um_content = [Text t], um_timestamp = 0, um_cache_hint = None\<rparr>) | _ \<Rightarrow> Inl ''not a message'',
      sd_llm_to = \<lambda>m. case m of User u \<Rightarrow> JString (extract_text (um_content u)) | _ \<Rightarrow> JNull,
      sd_entry_of = \<lambda>_. Inl ''no entries'', sd_entry_to = \<lambda>_. JNull,
      sd_interrupt_print = \<lambda>_. [], sd_interrupt_parse = \<lambda>_. Inl ''no interrupts'', sd_utf8_error = \<lambda>_. ''invalid utf-8''\<rparr>"

lemma spaces: "is_space cr" "is_space blank" "\<not> is_space (CHR ''}'')"
  by (simp_all add: is_space_def)

lemma drop_spaces: "\<forall>c \<in> set t. c = cr \<or> c = blank \<Longrightarrow> dropWhile is_space (t @ CHR ''}'' # y) = CHR ''}'' # y"
proof -
  assume t: "\<forall>c \<in> set t. c = cr \<or> c = blank"
  have "is_space c" if "c \<in> set t" for c using bspec[OF t that] spaces by metis
  then have "dropWhile is_space (t @ CHR ''}'' # y) = dropWhile is_space (CHR ''}'' # y)" by (rule dropWhile_append2)
  then show ?thesis using spaces(3) by (simp only: dropWhile.simps if_False)
qed

lemma rstrip_ends:
  assumes "rstrip l = x @ [CHR ''}'']"
  shows "trim_end l = x @ [CHR ''}'']" "CHR ''}'' \<in> set l"
proof -
  let ?P = "\<lambda>c. c = cr \<or> c = blank"
  from assms have d: "dropWhile ?P (rev l) = CHR ''}'' # rev x" by (simp add: rstrip_def rev_swap)
  have "rev l = takeWhile ?P (rev l) @ CHR ''}'' # rev x" using d by (metis takeWhile_dropWhile_id)
  moreover have "\<forall>c \<in> set (takeWhile ?P (rev l)). ?P c" by (auto dest: set_takeWhileD)
  note drop_spaces[OF this, of "rev x"]
  ultimately have "dropWhile is_space (rev l) = CHR ''}'' # rev x" by (simp only:)
  then show "trim_end l = x @ [CHR ''}'']" by (simp add: trim_end_def)
  have "CHR ''}'' \<in> set (rev l)" using d by (metis list.set_intros(1) set_dropWhileD)
  then show "CHR ''}'' \<in> set l" by simp
qed

lemma example_parse_Inr: "sd_parse example_serde l = Inr v \<longleftrightarrow> map_of (map (\<lambda>(j, t). (t, j)) example_texts) (rstrip l) = Some v"
  by (simp add: example_serde_def)

lemma example_known:
  assumes "sd_parse example_serde l = Inr v"
  shows "\<exists>x. rstrip l = x @ [CHR ''}''] \<and> rstrip (rstrip l) = rstrip l"
proof -
  have "(rstrip l, v) \<in> set (map (\<lambda>(j, t). (t, j)) example_texts)"
    using assms unfolding example_parse_Inr by (rule map_of_SomeD)
  then have "rstrip l \<in> snd ` set example_texts" by (auto simp: image_iff) (metis snd_conv)
  also have "snd ` set example_texts = (\<lambda>c. ''{'' @ [c] @ ''}'') ` {CHR ''b'', CHR ''1'', CHR ''2'', CHR ''3'', CHR ''C'', CHR ''D'', CHR ''r'', CHR ''s'', CHR ''S''}"
    by (simp add: example_texts_def)
  finally obtain c where c: "rstrip l = ''{'' @ [c] @ ''}''" by blast
  have "rstrip (''{'' @ [c] @ ''}'') = ''{'' @ [c] @ ''}''" by (simp add: rstrip_def)
  with c show ?thesis by (intro exI[of _ "''{'' @ [c]"]) simp
qed

lemma example_lenient: "lenient example_serde"
proof -
  have "sd_parse example_serde (trim_end l) = Inr v" if "sd_parse example_serde l = Inr v" for l v
    using that example_known[OF that] rstrip_ends(1)[of l] by (auto simp: example_parse_Inr)
  moreover have "sd_parse example_serde l \<noteq> Inr v" if "str_trim l = []" for l v
  proof
    assume "sd_parse example_serde l = Inr v"
    then have "CHR ''}'' \<in> set l" using example_known rstrip_ends(2) by blast
    with that show False by (auto simp: str_trim_empty_iff list_all_iff is_space_def)
  qed
  ultimately show ?thesis by (simp add: lenient_def) (simp add: example_parse_Inr rstrip_def)
qed

lemma example_parse:
  "sd_parse example_serde ''{b}'' = Inr (JObject [(''_append'', JBool True), (''phase'', JString ''begin'')])"
  "sd_parse example_serde ''{1}'' = Inr (JNumber 1)" "sd_parse example_serde ''{2}'' = Inr (JNumber 2)"
  "sd_parse example_serde ''{3}'' = Inr (JNumber 3)"
  "sd_parse example_serde ''{C}'' = Inr (JObject [(''_meta'', JBool True), (''data'', JNumber 2)])"
  "sd_parse example_serde ''{D}'' = Inr (JObject [(''_meta'', JBool True), (''data'', JNumber 3)])"
  "sd_parse example_serde ''{r}'' = Inr (JString ''r'')" "sd_parse example_serde ''{s}'' = Inr (JString ''s'')"
  "sd_parse example_serde ''{S}'' = Inr (JObject [(''_state'', JBool True), (''data'', JNumber 7)])"
  by (simp_all add: example_serde_def example_texts_def rstrip_def)

lemma example_torn: "torn_line example_serde []" "torn_line example_serde ''{''" "c \<noteq> cr \<Longrightarrow> c \<noteq> blank \<Longrightarrow> torn_line example_serde [CHR ''{'', c]"
  "torn_line example_serde ''{{b}''"
  by (simp_all add: torn_line_def example_serde_def example_texts_def rstrip_def)

lemma example_whole: "c \<notin> {cr, blank, nl} \<Longrightarrow> of_char c < (128 :: nat) \<Longrightarrow> whole_line example_serde [CHR ''{'', c, CHR ''}'']"
proof -
  assume c: "c \<notin> {cr, blank, nl}" "of_char c < (128 :: nat)"
  have "torn_line example_serde p" if "strict_prefix p [CHR ''{'', c, CHR ''}'']" for p
  proof -
    from that have "p = [] \<or> p = ''{'' \<or> p = [CHR ''{'', c]" by (auto simp: strict_prefix_def prefix_Cons)
    then show ?thesis using example_torn c by auto
  qed
  then show ?thesis using c by (auto simp: whole_line_def torn_line_def line_like_def strip_cr_def in_range_def)
qed

lemma example_lines:
  "to_json_line example_serde RecAppendBegin = ''{b}''"
  "to_json_line example_serde (RecMeta (example_meta 2)) = ''{C}''" "to_json_line example_serde (RecMeta (example_meta 3)) = ''{D}''"
  "sd_print example_serde (sd_meta_to example_serde (example_meta 2)) = ''{2}''"
  "sd_print example_serde (sd_meta_to example_serde (example_meta 3)) = ''{3}''"
  by (simp_all add: to_json_line_def example_serde_def example_texts_def example_meta_def)

lemma example_records:
  "record_parse example_serde ''{b}'' = Inr RecAppendBegin" "record_parse example_serde ''{C}'' = Inr (RecMeta (example_meta 2))"
  "record_parse example_serde ''{D}'' = Inr (RecMeta (example_meta 3))"
  "\<exists>m. record_parse example_serde ''{r}'' = Inr (RecLlm m)" "\<exists>m. record_parse example_serde ''{s}'' = Inr (RecLlm m)"
  by (simp_all add: record_parse_def example_parse other_def record_of_def marked_def json_data_def)
    (simp_all add: example_serde_def)

lemma example_meta_lines:
  "parse_meta example_serde ''{1}'' = Inr (example_meta 1)" "parse_meta example_serde ''{2}'' = Inr (example_meta 2)"
  "parse_meta example_serde ''{3}'' = Inr (example_meta 3)"
  by (simp_all add: parse_meta_def example_parse) (simp_all add: example_serde_def)

lemma example_appendable:
  assumes "set recs \<subseteq> {''{r}'', ''{s}''}"
  shows "appendable example_serde (example_meta 2) recs" "appendable example_serde (example_meta 3) recs"
proof -
  have "whole_line example_serde l \<and> plain_line example_serde l" if "l \<in> set recs" for l
  proof -
    from that assms have l: "l = ''{r}'' \<or> l = ''{s}''" by auto
    then show ?thesis using example_whole[of "CHR ''r''"] example_whole[of "CHR ''s''"] example_records(4,5)
      by (auto simp: plain_line_def)
  qed
  then show "appendable example_serde (example_meta 2) recs" "appendable example_serde (example_meta 3) recs"
    by (simp_all add: appendable_def example_lenient example_lines example_records example_meta_lines example_whole)
qed

lemma example_settled: "settled example_serde ''s'' (''{1}'' @ [nl]) (example_meta 1) []"
proof -
  have "canonical_meta ''s'' (example_meta 1) = example_meta 1"
    by (simp add: canonical_meta_def example_meta_def session_meta_new_def)
  then show ?thesis unfolding settled_def
    by (intro exI[of _ "''{1}''"] exI[of _ "[]"] exI[of _ "example_meta 1"])
      (simp add: line_like_def strip_cr_def in_range_def example_meta_lines closed_bytes_def)
qed

lemma example_first_line: "length (first_line (''{1}'' @ [nl])) = 4" "length (first_line (''{1}'' @ nl # rest)) = 4"
  by (simp_all add: first_line_def)


theorem torn_record_resurrects_witness:
  "\<exists>done. append_records_in_place example_serde (example_meta 3) 4 [''{s}'']
       (crashed_append example_serde (example_meta 2) 4 [''{r}'', ''{s}''] (''{1}'' @ [nl]) 9) = Some done
     \<and> load_file example_serde [] ''s'' None (Some (crashed_append example_serde (example_meta 2) 4 [''{r}'', ''{s}''] (''{1}'' @ [nl]) 9))
       = load_lines example_serde [] None (example_meta 1, [])
     \<and> load_file example_serde [] ''s'' None (Some done) = load_lines example_serde [] None (canonical_meta ''s'' (example_meta 3), [''{r}'', ''{s}''])"
proof -
  let ?c = "crashed_append example_serde (example_meta 2) 4 [''{r}'', ''{s}''] (''{1}'' @ [nl]) 9"
  have ok: "appendable example_serde (example_meta 2) [''{r}'', ''{s}'']" "appendable example_serde (example_meta 3) [''{s}'']"
    by (auto intro!: example_appendable)
  obtain "done" where d: "append_records_in_place example_serde (example_meta 3) 4 [''{s}''] ?c = Some done"
    by (simp add: append_records_in_place_def example_lines)
  have k: "kept_records [''{r}'', ''{s}''] = [''{r}'', ''{s}'']" "kept_records [''{s}''] = [''{s}'']" by (simp_all add: kept_records_def)
  from torn_record_resurrects [OF example_settled ok, of 1 1 9 4 "done" "[]" None] d show ?thesis
    by (simp add: k example_lines example_torn first_line_def)
qed

text \<open>Windows of three bytes, over a file with a commit and a torn line after it.\<close>

theorem tail_windows_exact_witness:
  "window_scan example_serde (unlines [''{1}'', ''{b}'', ''{r}'', ''{C}''] @ ''{r'') 4 3 = Some (example_meta 2)"
proof -
  let ?b = "unlines [''{1}'', ''{b}'', ''{r}'', ''{C}''] @ ''{r''"
  have "drop 4 ?b = unlines [''{b}'', ''{r}'', ''{C}''] @ ''{r''" by simp
  moreover have "raw_lines (unlines [''{b}'', ''{r}'', ''{C}''] @ ''{r'') = [''{b}'', ''{r}'', ''{C}'', ''{r'']"
    using raw_lines_unlines[of "[''{b}'', ''{r}'', ''{C}'']" "''{r''"] raw_lines_open[of "''{r''"]
    by (simp add: line_like_def strip_cr_def)
  moreover have "record_parse example_serde ''{r'' \<noteq> Inr r" for r
    using example_torn(3)[of "CHR ''r''"] by (simp add: torn_line_def record_parse_Inr)
  then have "meta_of_line example_serde ''{r'' = None" by (simp add: meta_of_line_def split: sum.splits session_record.splits)
  ultimately have "forward_meta example_serde (drop 4 ?b) = Some (example_meta 2)"
    using example_records
    by (auto simp: forward_meta_def meta_of_line_def[of _ "''{b}''"] meta_of_line_def[of _ "''{r}''"] meta_of_line_def[of _ "''{C}''"] in_range_def)
  with tail_windows_exact [OF example_lenient, of ?b 4 3] show ?thesis by simp
qed

end
