(* ===== verification/Session_Store.thy ===== *)
theory Session_Store
  imports Session_Crash
begin

text \<open>
  The session store (\<^verbatim>\<open>memory/src/jsonl.rs\<close>): every operation of
  \<^verbatim>\<open>JsonlSessionStore\<close> on a directory of session files and interrupt files, with the
  optimistic concurrency check, the rewriting saves, the appends and the loads.

  The directory is a map from session ids to bytes, one for \<^verbatim>\<open>.jsonl\<close> and one for
  \<^verbatim>\<open>.interrupt.json\<close> files; the path of a file is determined by its id. The clock is an
  argument. The per-path lock makes each operation atomic towards the others of the process. The
  optional search index is left out.
\<close>

section \<open>State and identifiers\<close>

record jsonl_store =
  js_sessions :: "(string, string) hashmap"
  js_interrupts :: "(string, string) hashmap"
  js_migrators :: "migrator list"

definition jsonl_new :: jsonl_store where
  "jsonl_new = \<lparr>js_sessions = [], js_interrupts = [], js_migrators = []\<rparr>"

definition with_migrators :: "migrator list \<Rightarrow> jsonl_store \<Rightarrow> jsonl_store" where
  "with_migrators ms s = s\<lparr>js_migrators := ms\<rparr>"

definition is_ascii_control :: "char \<Rightarrow> bool" where
  "is_ascii_control c = (of_char c < (32 :: nat) \<or> of_char c = (127 :: nat))"

definition validate_session_id :: "(string \<Rightarrow> string) \<Rightarrow> string \<Rightarrow> (io_error, unit) result" where
  "validate_session_id debug sid =
     (if sid = [] then Inl (IoError IoInvalidInput ''session ID must not be empty'')
      else if str_contains sid ''/'' \<or> str_contains sid [CHR 0x5C] \<or> str_contains sid ''..''
           \<or> list_ex (\<lambda>c. c = CHR '':'' \<or> is_ascii_control c) sid
      then Inl (IoError IoInvalidInput (''session ID contains unsafe characters: '' @ debug sid))
      else Inr ())"

definition session_path :: "string \<Rightarrow> string \<Rightarrow> string" where
  "session_path sessions_dir sid = sessions_dir @ ''/'' @ sid @ ''.jsonl''"

definition interrupt_path :: "string \<Rightarrow> string \<Rightarrow> string" where
  "interrupt_path sessions_dir sid = sessions_dir @ ''/'' @ sid @ ''.interrupt.json''"

text \<open>The printing of an id in an error message, and serde.\<close>

record store_env =
  se_debug :: "string \<Rightarrow> string"
  se_serde :: serde

section \<open>Saving\<close>

definition check_sequence :: "serde \<Rightarrow> string option \<Rightarrow> string \<Rightarrow> u64 \<Rightarrow> (io_error, unit) result" where
  "check_sequence sd bytes sid caller_sequence =
     (case bytes of
        None \<Rightarrow> Inr ()
      | Some _ \<Rightarrow>
         rbind (read_meta_with_line_len sd sid bytes) (\<lambda>(stored, _).
           if mt_sequence stored \<noteq> caller_sequence then Inl (sequence_conflict sid caller_sequence (mt_sequence stored)) else Inr ()))"

definition bumped :: "string \<Rightarrow> int \<Rightarrow> session_meta \<Rightarrow> session_meta" where
  "bumped sid now meta = meta\<lparr>mt_id := sid, mt_updated_at := now, mt_sequence := mt_sequence meta + 1\<rparr>"

definition preserve_existing_lines :: "serde \<Rightarrow> string option \<Rightarrow> string \<Rightarrow> (string \<Rightarrow> bool) \<Rightarrow> (io_error, string list) result" where
  "preserve_existing_lines sd bytes sid should_preserve =
     (case bytes of
        None \<Rightarrow> Inr []
      | Some _ \<Rightarrow> rbind (read_meta_and_message_lines sd sid bytes) (\<lambda>(_, ls). Inr (filter should_preserve ls)))"

definition preserve_for_message_save :: "serde \<Rightarrow> string \<Rightarrow> bool" where
  "preserve_for_message_save sd line =
     (case record_parse sd line of
        Inr (RecState _) \<Rightarrow> True
      | Inr _ \<Rightarrow> False
      | Inl _ \<Rightarrow> (case entry_parse sd line of Inr (EMessage _) \<Rightarrow> False | Inr _ \<Rightarrow> True | Inl _ \<Rightarrow> False))"

definition preserve_for_entry_save :: "serde \<Rightarrow> string \<Rightarrow> bool" where
  "preserve_for_entry_save sd line =
     (case record_parse sd line of Inr (RecState _) \<Rightarrow> True | Inr (RecCustom _) \<Rightarrow> True | _ \<Rightarrow> False)"

fun upsert_state_line :: "serde \<Rightarrow> json \<Rightarrow> string list \<Rightarrow> string list" where
  "upsert_state_line sd state [] = [to_json_line sd (RecState state)]"
| "upsert_state_line sd state (l # ls) =
     (case record_parse sd l of
        Inr (RecState _) \<Rightarrow> to_json_line sd (RecState state) # ls
      | _ \<Rightarrow> l # upsert_state_line sd state ls)"

definition put_session :: "string \<Rightarrow> string \<Rightarrow> jsonl_store \<Rightarrow> jsonl_store" where
  "put_session sid bytes s = s\<lparr>js_sessions := hm_insert sid bytes (js_sessions s)\<rparr>"

definition js_save :: "store_env \<Rightarrow> int \<Rightarrow> string \<Rightarrow> session_meta \<Rightarrow> agent_message list \<Rightarrow> jsonl_store
    \<Rightarrow> (io_error, unit) result \<times> jsonl_store" where
  "js_save env now sid meta ms s =
     (let sd = se_serde env; old = hm_get (js_sessions s) sid in
      case rbind (validate_session_id (se_debug env) sid) (\<lambda>_.
           rbind (check_sequence sd old sid (mt_sequence meta)) (\<lambda>_.
             preserve_existing_lines sd old sid (preserve_for_message_save sd))) of
        Inl e \<Rightarrow> (Inl e, s)
      | Inr preserved \<Rightarrow>
          (Inr (), put_session sid (write_messages_with_preserved_lines sd (bumped sid now meta) ms preserved) s))"

definition js_save_full :: "store_env \<Rightarrow> int \<Rightarrow> string \<Rightarrow> session_meta \<Rightarrow> agent_message list \<Rightarrow> json \<Rightarrow> jsonl_store
    \<Rightarrow> (io_error, session_meta) result \<times> jsonl_store" where
  "js_save_full env now sid meta ms state s =
     (let sd = se_serde env; old = hm_get (js_sessions s) sid in
      case rbind (validate_session_id (se_debug env) sid) (\<lambda>_.
           rbind (check_sequence sd old sid (mt_sequence meta)) (\<lambda>_.
             preserve_existing_lines sd old sid (preserve_for_message_save sd))) of
        Inl e \<Rightarrow> (Inl e, s)
      | Inr preserved \<Rightarrow>
          (Inr (bumped sid now meta),
           put_session sid (write_messages_with_preserved_lines sd (bumped sid now meta) ms (upsert_state_line sd state preserved)) s))"

text \<open>The rich save writes its metadata without padding.\<close>

definition js_save_entries :: "store_env \<Rightarrow> int \<Rightarrow> string \<Rightarrow> session_meta \<Rightarrow> session_entry list \<Rightarrow> jsonl_store
    \<Rightarrow> (io_error, unit) result \<times> jsonl_store" where
  "js_save_entries env now sid meta entries s =
     (let sd = se_serde env; old = hm_get (js_sessions s) sid in
      case rbind (validate_session_id (se_debug env) sid) (\<lambda>_.
           rbind (check_sequence sd old sid (mt_sequence meta)) (\<lambda>_.
             preserve_existing_lines sd old sid (preserve_for_entry_save sd))) of
        Inl e \<Rightarrow> (Inl e, s)
      | Inr preserved \<Rightarrow>
          (Inr (), put_session sid (meta_line sd (bumped sid now meta) 0
             @ unlines (map (\<lambda>e. sd_print sd (sd_entry_to sd e)) entries) @ nonempty_lines preserved) s))"

section \<open>Appending\<close>

text \<open>In place when the new metadata fits over the old, otherwise by rewriting the file.\<close>

definition append_or_rewrite :: "serde \<Rightarrow> string \<Rightarrow> session_meta \<Rightarrow> nat \<Rightarrow> string list \<Rightarrow> string \<Rightarrow> (io_error, string) result" where
  "append_or_rewrite sd sid meta line_len record_lines bytes =
     (case append_records_in_place sd meta line_len record_lines bytes of
        Some bytes' \<Rightarrow> Inr bytes'
      | None \<Rightarrow>
         rbind (read_meta_and_message_lines sd sid (Some bytes)) (\<lambda>(_, existing).
           Inr (rewrite_session_file sd meta (existing @ record_lines))))"

definition js_append :: "store_env \<Rightarrow> int \<Rightarrow> string \<Rightarrow> agent_message list \<Rightarrow> jsonl_store
    \<Rightarrow> (io_error, unit) result \<times> jsonl_store" where
  "js_append env now sid ms s =
     (let sd = se_serde env; old = hm_get (js_sessions s) sid in
      case rbind (validate_session_id (se_debug env) sid) (\<lambda>_.
           rbind (read_meta_with_line_len sd sid old) (\<lambda>(meta, line_len).
             append_or_rewrite sd sid (meta\<lparr>mt_updated_at := now, mt_sequence := mt_sequence meta + 1\<rparr>) line_len
               (message_lines sd ms) (case old of Some bytes \<Rightarrow> bytes | None \<Rightarrow> []))) of
        Inl e \<Rightarrow> (Inl e, s)
      | Inr bytes \<Rightarrow> (Inr (), put_session sid bytes s))"

definition js_append_entries :: "store_env \<Rightarrow> int \<Rightarrow> string \<Rightarrow> session_meta \<Rightarrow> session_entry list \<Rightarrow> jsonl_store
    \<Rightarrow> (io_error, session_meta) result \<times> jsonl_store" where
  "js_append_entries env now sid meta entries s =
     (let sd = se_serde env; old = hm_get (js_sessions s) sid in
      case rbind (validate_session_id (se_debug env) sid) (\<lambda>_.
           rbind (check_sequence sd old sid (mt_sequence meta)) (\<lambda>_.
           rbind (read_meta_with_line_len sd sid old) (\<lambda>(_, line_len).
             append_or_rewrite sd sid (bumped sid now meta) line_len (map (\<lambda>e. sd_print sd (sd_entry_to sd e)) entries)
               (case old of Some bytes \<Rightarrow> bytes | None \<Rightarrow> [])))) of
        Inl e \<Rightarrow> (Inl e, s)
      | Inr bytes \<Rightarrow> (Inr (bumped sid now meta), put_session sid bytes s))"

section \<open>Loading\<close>

definition js_load :: "store_env \<Rightarrow> string \<Rightarrow> custom_message_registry option \<Rightarrow> jsonl_store
    \<Rightarrow> (io_error, session_meta \<times> agent_message list) result option" where
  "js_load env sid registry s =
     (case validate_session_id (se_debug env) sid of
        Inl e \<Rightarrow> Some (Inl e)
      | Inr _ \<Rightarrow> load_file (se_serde env) (js_migrators s) sid registry (hm_get (js_sessions s) sid))"

definition parse_state_line :: "serde \<Rightarrow> string \<Rightarrow> string \<Rightarrow> (io_error, json option) result" where
  "parse_state_line sd sid line =
     (case sd_parse sd line of
        Inl e \<Rightarrow>
          (if str_contains line [CHR 0x22, CHR ''_'', CHR ''s'', CHR ''t'', CHR ''a'', CHR ''t'', CHR ''e'', CHR 0x22]
           then Inl (IoError IoInvalidData (''corrupted state line in session '' @ sid @ '': '' @ e)) else Inr None)
      | Inr value \<Rightarrow>
          (case json_get value ''_state'' of
             None \<Rightarrow> Inr None
           | Some marker \<Rightarrow>
               if marker \<noteq> JBool True
               then Inl (IoError IoInvalidData (''invalid state marker in session '' @ sid @ '': expected `_state: true`''))
               else Inr (Some (json_data value))))"

fun extract_state_from_lines :: "serde \<Rightarrow> string \<Rightarrow> string list \<Rightarrow> (io_error, json option) result" where
  "extract_state_from_lines sd sid [] = Inr None"
| "extract_state_from_lines sd sid (l # ls) =
     rbind (parse_state_line sd sid l) (\<lambda>st. case st of Some v \<Rightarrow> Inr (Some v) | None \<Rightarrow> extract_state_from_lines sd sid ls)"

definition js_load_full :: "store_env \<Rightarrow> string \<Rightarrow> custom_message_registry option \<Rightarrow> jsonl_store
    \<Rightarrow> (io_error, session_meta \<times> agent_message list \<times> json option) result option" where
  "js_load_full env sid registry s =
     (let sd = se_serde env; bytes = hm_get (js_sessions s) sid in
      case rbind (validate_session_id (se_debug env) sid) (\<lambda>_.
           rbind (read_meta_and_message_lines sd sid bytes) (\<lambda>(meta, ls).
           rbind (extract_state_from_lines sd sid ls) (\<lambda>state. Inr (meta, ls, state)))) of
        Inl e \<Rightarrow> Some (Inl e)
      | Inr (meta, ls, state) \<Rightarrow>
          map_option (\<lambda>r. rbind r (\<lambda>(meta, cs). Inr (meta, classified_lines_to_messages sd registry cs, state)))
            (classify_and_migrate sd (js_migrators s) meta ls))"

definition js_load_entries :: "store_env \<Rightarrow> string \<Rightarrow> jsonl_store \<Rightarrow> (io_error, session_meta \<times> session_entry list) result option" where
  "js_load_entries env sid s =
     (let sd = se_serde env in
      case rbind (validate_session_id (se_debug env) sid) (\<lambda>_. read_meta_and_message_lines sd sid (hm_get (js_sessions s) sid)) of
        Inl e \<Rightarrow> Some (Inl e)
      | Inr (meta, ls) \<Rightarrow>
          map_option (\<lambda>r. rbind r (\<lambda>(meta, cs). Inr (meta, entries_of cs))) (classify_and_migrate sd (js_migrators s) meta ls))"

fun entry_type_name :: "session_entry \<Rightarrow> string" where
  "entry_type_name (EMessage _) = ''message''"
| "entry_type_name (EModelChange _ _ _) = ''model_change''"
| "entry_type_name (EThinkingLevelChange _ _ _) = ''thinking_level_change''"
| "entry_type_name (ECompaction _ _ _ _) = ''compaction''"
| "entry_type_name (ELabel _ _ _) = ''label''"
| "entry_type_name (ECustom _ _ _) = ''custom''"

fun entry_timestamp :: "session_entry \<Rightarrow> u64" where
  "entry_timestamp (EMessage (User m)) = um_timestamp m"
| "entry_timestamp (EMessage (Assistant m)) = am_timestamp m"
| "entry_timestamp (EMessage (ToolResult m)) = tr_timestamp m"
| "entry_timestamp (EModelChange _ _ t) = t"
| "entry_timestamp (EThinkingLevelChange _ _ t) = t"
| "entry_timestamp (ECompaction _ _ _ t) = t"
| "entry_timestamp (ELabel _ _ t) = t"
| "entry_timestamp (ECustom _ _ t) = t"

record load_options =
  lo_last_n_entries :: "usize option"
  lo_after_timestamp :: "int option"
  lo_entry_types :: "string list option"

text \<open>Whole seconds of an instant, as an unsigned number.\<close>

definition seconds_of :: "int \<Rightarrow> u64" where
  "seconds_of t = word_of_int (t div 10 ^ 9)"

definition filter_entries :: "load_options \<Rightarrow> session_entry list \<Rightarrow> session_entry list" where
  "filter_entries options es =
     (let es = (case lo_entry_types options of Some types \<Rightarrow> filter (\<lambda>e. entry_type_name e \<in> set types) es | None \<Rightarrow> es);
          es = (case lo_after_timestamp options of Some after \<Rightarrow> filter (\<lambda>e. seconds_of after < entry_timestamp e) es | None \<Rightarrow> es)
      in case lo_last_n_entries options of Some n \<Rightarrow> if n < length es then drop (length es - n) es else es | None \<Rightarrow> es)"

definition js_load_with_options :: "store_env \<Rightarrow> string \<Rightarrow> load_options \<Rightarrow> jsonl_store
    \<Rightarrow> (io_error, session_meta \<times> session_entry list) result option" where
  "js_load_with_options env sid options s =
     map_option (\<lambda>r. rbind r (\<lambda>(meta, es). Inr (meta, filter_entries options es))) (js_load_entries env sid s)"

section \<open>Listing, deleting, session state and interrupts\<close>

definition js_list :: "store_env \<Rightarrow> jsonl_store \<Rightarrow> session_meta list" where
  "js_list env s =
     (let read = (\<lambda>(sid, bytes). case rbind (validate_session_id (se_debug env) sid) (\<lambda>_. read_meta_with_line_len (se_serde env) sid (Some bytes)) of
                     Inl _ \<Rightarrow> None | Inr (meta, _) \<Rightarrow> Some (canonical_meta sid meta))
      in rev (sort_key mt_updated_at (rev (List.map_filter read (js_sessions s)))))"

definition js_delete :: "store_env \<Rightarrow> string \<Rightarrow> jsonl_store \<Rightarrow> (io_error, unit) result \<times> jsonl_store" where
  "js_delete env sid s =
     (case validate_session_id (se_debug env) sid of
        Inl e \<Rightarrow> (Inl e, s)
      | Inr _ \<Rightarrow>
          if hm_get (js_sessions s) sid = None then (Inl (IoError IoNotFound ''no such file''), s)
          else (Inr (), s\<lparr>js_sessions := hm_remove sid (js_sessions s), js_interrupts := hm_remove sid (js_interrupts s)\<rparr>))"

definition js_save_state :: "store_env \<Rightarrow> int \<Rightarrow> string \<Rightarrow> json \<Rightarrow> jsonl_store \<Rightarrow> (io_error, unit) result \<times> jsonl_store" where
  "js_save_state env now sid state s =
     (let sd = se_serde env; old = hm_get (js_sessions s) sid in
      case rbind (validate_session_id (se_debug env) sid) (\<lambda>_.
           if old = None then Inl (session_not_found sid) else read_meta_and_message_lines sd sid old) of
        Inl e \<Rightarrow> (Inl e, s)
      | Inr (meta, ls) \<Rightarrow>
          (Inr (), put_session sid (rewrite_session_file sd (meta\<lparr>mt_updated_at := now, mt_sequence := mt_sequence meta + 1\<rparr>)
             (upsert_state_line sd state ls)) s))"

definition js_load_state :: "store_env \<Rightarrow> string \<Rightarrow> jsonl_store \<Rightarrow> (io_error, json option) result" where
  "js_load_state env sid s =
     rbind (validate_session_id (se_debug env) sid) (\<lambda>_.
       case hm_get (js_sessions s) sid of
         None \<Rightarrow> Inr None
       | Some bytes \<Rightarrow> rbind (read_meta_and_message_lines (se_serde env) sid (Some bytes)) (\<lambda>(_, ls).
           extract_state_from_lines (se_serde env) sid ls))"

definition js_save_interrupt :: "store_env \<Rightarrow> string \<Rightarrow> interrupt_state \<Rightarrow> jsonl_store \<Rightarrow> (io_error, unit) result \<times> jsonl_store" where
  "js_save_interrupt env sid interrupt s =
     (case rbind (validate_session_id (se_debug env) sid) (\<lambda>_.
           if hm_get (js_sessions s) sid = None then Inl (session_not_found sid) else Inr ()) of
        Inl e \<Rightarrow> (Inl e, s)
      | Inr _ \<Rightarrow> (Inr (), s\<lparr>js_interrupts := hm_insert sid (sd_interrupt_print (se_serde env) interrupt) (js_interrupts s)\<rparr>))"

definition js_load_interrupt :: "store_env \<Rightarrow> string \<Rightarrow> jsonl_store \<Rightarrow> (io_error, interrupt_state option) result" where
  "js_load_interrupt env sid s =
     rbind (validate_session_id (se_debug env) sid) (\<lambda>_.
       case hm_get (js_interrupts s) sid of
         None \<Rightarrow> Inr None
       | Some contents \<Rightarrow>
          if hm_get (js_sessions s) sid = None then Inr None
          else (case sd_interrupt_parse (se_serde env) contents of
              Inl e \<Rightarrow> Inl (IoError IoInvalidData (''corrupted interrupt file for session '' @ sid @ '': '' @ e))
            | Inr interrupt \<Rightarrow> Inr (Some interrupt)))"

definition js_clear_interrupt :: "store_env \<Rightarrow> string \<Rightarrow> jsonl_store \<Rightarrow> (io_error, unit) result \<times> jsonl_store" where
  "js_clear_interrupt env sid s =
     (case validate_session_id (se_debug env) sid of
        Inl e \<Rightarrow> (Inl e, s)
      | Inr _ \<Rightarrow> (Inr (), s\<lparr>js_interrupts := hm_remove sid (js_interrupts s)\<rparr>))"

section \<open>Settled files\<close>

lemma lenient_cr: "lenient sd \<Longrightarrow> sd_parse sd (strip_cr l) = Inr v \<longleftrightarrow> sd_parse sd l = Inr v"
proof -
  assume "lenient sd"
  then have c: "sd_parse sd (l' @ [cr]) = Inr v \<longleftrightarrow> sd_parse sd l' = Inr v" for l' unfolding lenient_def by blast
  show ?thesis
  proof (cases "l \<noteq> [] \<and> List.last l = cr")
    case True
    then obtain l' where "l = l' @ [cr]" by (metis append_butlast_last_id)
    with c[of l'] show ?thesis by (simp add: strip_cr_def)
  qed (auto simp: strip_cr_def)
qed

lemma record_parse_strip: "lenient sd \<Longrightarrow> record_parse sd (strip_cr l) = Inr r \<longleftrightarrow> record_parse sd l = Inr r"
  by (simp add: record_parse_Inr lenient_cr)

lemma plain_strip: "lenient sd \<Longrightarrow> plain_line sd (strip_cr l) = plain_line sd l"
  by (simp add: plain_line_def record_parse_strip)

lemma utf8_strip: "valid_utf8 (strip_cr l) = valid_utf8 l"
  using utf8_cr[of "butlast l"] unfolding strip_cr_def by (metis append_butlast_last_id)

lemma entry_parse_Inr: "entry_parse sd l = Inr e \<longleftrightarrow> (\<exists>v. sd_parse sd l = Inr v \<and>
    (if json_get v ''entry_type'' \<noteq> None then sd_entry_of sd v = Inr e else (\<exists>m. sd_llm_of sd v = Inr m \<and> e = EMessage m)))"
  by (cases "sd_parse sd l") (auto simp: entry_parse_def rbind_Inr_iff)

lemma classify_line_Inr: "classify_line sd l = Inr c \<longleftrightarrow> (\<exists>v. sd_parse sd l = Inr v \<and>
    (if marked v ''_state'' then c = ClState else if marked v ''_custom'' then c = ClCustom v
     else (\<exists>e. entry_parse sd l = Inr e \<and> c = ClEntry e)))"
  by (cases "sd_parse sd l") (auto simp: classify_line_def other_def rbind_Inr_iff split: sum.splits)

lemma classify_strip: "lenient sd \<Longrightarrow> classify_line sd (strip_cr l) = Inr c \<longleftrightarrow> classify_line sd l = Inr c"
  unfolding classify_line_Inr entry_parse_Inr by (simp only: lenient_cr)

lemma is_space_cr [simp]: "is_space cr"
  by (simp add: is_space_def)

lemma blank_line_strip: "str_trim (strip_cr l) = [] \<longleftrightarrow> str_trim l = []"
proof (cases "l \<noteq> [] \<and> List.last l = cr")
  case True
  then obtain l' where "l = l' @ [cr]" by (metis append_butlast_last_id)
  then show ?thesis by (simp add: strip_cr_def str_trim_empty_iff)
qed (auto simp: strip_cr_def)

definition classified_line :: "serde \<Rightarrow> string \<Rightarrow> classified_line list" where
  "classified_line sd l = (if str_trim l = [] then [] else case classify_line sd l of Inr c \<Rightarrow> [c] | Inl _ \<Rightarrow> [])"

lemma classified_of_concat: "classified_of sd ls = concat (map (classified_line sd) ls)"
  by (induction ls) (auto simp: classified_of_def classified_line_def List.map_filter_simps split: sum.splits)

lemma classified_line_strip: "lenient sd \<Longrightarrow> classified_line sd (strip_cr l) = classified_line sd l"
proof -
  assume "lenient sd"
  note c = classify_strip[OF this, of l]
  have "(case x of Inr c \<Rightarrow> [c] | Inl _ \<Rightarrow> []) = (case y of Inr c \<Rightarrow> [c] | Inl _ \<Rightarrow> [])" if "\<And>c. x = Inr c \<longleftrightarrow> y = Inr c"
    for x y :: "(io_error, classified_line) result"
    using that[of "projr x"] that[of "projr y"] by (cases x; cases y) auto
  from this[OF c] show ?thesis by (simp add: classified_line_def blank_line_strip)
qed

lemma classified_of_strip: "lenient sd \<Longrightarrow> classified_of sd (map strip_cr (filter (\<lambda>l. l \<noteq> []) ls)) = classified_of sd ls"
proof (induction ls)
  case (Cons l ls)
  moreover have "str_trim [] = []" by (simp add: str_trim_empty_iff)
  then have "classified_line sd [] = []" by (simp add: classified_line_def)
  ultimately show ?case by (simp add: classified_of_concat classified_line_strip)
qed simp

text \<open>The metadata a scan ends with, and the lines it keeps.\<close>

lemma scan_last_meta:
  "fst (fold (scan_line sd sid) ls (m, r, p)) = (case last_some (map (meta_of_line sd) ls) of Some m' \<Rightarrow> canonical_meta sid m' | None \<Rightarrow> m)"
proof (induction ls arbitrary: m r p)
  case (Cons l ls)
  obtain m1 r1 p1 where s: "scan_line sd sid l (m, r, p) = (m1, r1, p1)" by (cases "scan_line sd sid l (m, r, p)")
  then have "m1 = (case meta_of_line sd l of Some m' \<Rightarrow> canonical_meta sid m' | None \<Rightarrow> m)"
    by (auto simp: scan_line_def meta_of_line_def split: if_splits sum.splits session_record.splits option.splits)
  with s Cons[of m1 r1 p1] show ?case by (auto split: option.splits)
qed simp

definition keepable :: "serde \<Rightarrow> string \<Rightarrow> bool" where
  "keepable sd l = (line_like l \<and> valid_utf8 l \<and> plain_line sd l)"

lemma scan_keeps:
  assumes "\<forall>l \<in> set ls. line_like l" "\<forall>l \<in> set r. keepable sd l" "\<forall>l \<in> set (case p of Some ps \<Rightarrow> ps | None \<Rightarrow> []). keepable sd l"
    "fold (scan_line sd sid) ls (m, r, p) = (m', r', p')"
  shows "\<forall>l \<in> set r'. keepable sd l"
  using assms
proof (induction ls arbitrary: m r p)
  case (Cons l ls)
  obtain m1 r1 p1 where s: "scan_line sd sid l (m, r, p) = (m1, r1, p1)" by (cases "scan_line sd sid l (m, r, p)")
  have keep: "keepable sd l" if "valid_utf8 l" "plain_line sd l" using that Cons.prems(1) by (simp add: keepable_def)
  have "(\<forall>l \<in> set r1. keepable sd l) \<and> (\<forall>l \<in> set (case p1 of Some ps \<Rightarrow> ps | None \<Rightarrow> []). keepable sd l)"
  proof (cases "valid_utf8 l \<and> plain_line sd l")
    case True
    with s keep Cons.prems(2,3) show ?thesis by (auto simp: scan_plain split: option.splits)
  next
    case False
    with s Cons.prems(2,3) show ?thesis
      by (auto simp: scan_line_def plain_line_def split: if_splits sum.splits session_record.splits option.splits)
  qed
  with Cons.IH[of r1 p1 m1] Cons.prems(1,4) s show ?case by simp
qed simp

lemma raw_lines_like: "l \<in> set (raw_lines s) \<Longrightarrow> line_like l"
proof -
  obtain ls t where s: "s = unlines ls @ t" "list_all line_like ls" "line_like t" by (rule bytes_as_lines[of s]) auto
  assume "l \<in> set (raw_lines s)"
  then have "l \<in> set (map strip_cr ls) \<or> l = t" using raw_lines_unlines[OF s(2), of t] s by (auto split: if_splits)
  then show ?thesis using s by (auto simp: line_like_def list_all_iff strip_cr_def dest: in_set_butlastD)
qed

lemma settled_keepable: "settled sd sid bytes meta ls \<Longrightarrow> l \<in> set ls \<Longrightarrow> keepable sd l"
  unfolding settled_def using scan_keeps[of _ "[]" sd None] raw_lines_like by fastforce

lemma trim_end_line:
  "trim_end (fl @ [nl]) = trim_end (strip_cr fl)"
proof (cases "fl \<noteq> [] \<and> List.last fl = cr")
  case True
  then obtain l' where "fl = l' @ [cr]" by (metis append_butlast_last_id)
  then show ?thesis by (simp add: trim_end_def strip_cr_def is_space_def)
next
  case False
  then have "strip_cr fl = fl" by (auto simp: strip_cr_def)
  then show ?thesis by (simp add: trim_end_def is_space_def)
qed

text \<open>Both ways of reading the metadata agree on a settled file.\<close>

lemma settled_meta:
  assumes "lenient sd" "settled sd sid bytes meta ls"
  shows "read_meta_with_line_len sd sid (Some bytes) = Inr (meta, length (first_line bytes))" "mt_id meta = sid"
proof -
  obtain fl body m0 where f: "bytes = fl @ nl # body" "line_like fl" "valid_utf8 (strip_cr fl)" "parse_meta sd (strip_cr fl) = Inr m0"
    "fold (scan_line sd sid) (raw_lines body) (canonical_meta sid m0, [], None) = (meta, ls, None)"
    using assms(2) by (auto simp: settled_def)
  have meta: "meta = (case commit_of sd body of Some m' \<Rightarrow> canonical_meta sid m' | None \<Rightarrow> canonical_meta sid m0)"
    using scan_last_meta[of sd sid "raw_lines body" "canonical_meta sid m0" "[]" None] f(5) by (simp add: commit_of_def)
  then show "mt_id meta = sid" by (simp add: canonical_meta_def split: option.splits)
  have utf8: "valid_utf8 (fl @ [nl])" using f(3) utf8_ascii[of nl fl] by (simp add: utf8_strip in_range_def)
  have "parse_meta sd (trim_end (strip_cr fl)) = Inr m0"
    using f(4) assms(1) unfolding parse_meta_Inr lenient_def by blast
  then have "parse_meta sd (trim_end (fl @ [nl])) = Inr m0" by (simp add: trim_end_line)
  moreover have "find_last_meta_commit sd bytes (length (fl @ [nl])) = commit_of sd body"
    using window_scan_forward[OF assms(1), of bytes "length (fl @ [nl])"] by (simp add: find_last_meta_commit_def forward_commit f(1))
  ultimately show "read_meta_with_line_len sd sid (Some bytes) = Inr (meta, length (first_line bytes))"
    using meta utf8 by (auto simp: read_meta_with_line_len_def open_session_file_def Let_def f(1) first_line_bytes[OF f(2)] canonical_meta_def
        split: option.splits)
qed

end
