(* ===== verification/File_Checkpoints.thy ===== *)
theory File_Checkpoints
  imports Checkpoint Policies Session_Store "HOL-Library.List_Lexorder" "HOL-Library.Char_ord" "HOL-Library.Product_Lexorder"
begin

text \<open>
  Checkpoints in files (\<^verbatim>\<open>memory/src/checkpoint_store.rs\<close>): the store with its retention,
  and the two policies that save a checkpoint after each turn (\<^verbatim>\<open>policies/src/checkpoint.rs\<close>)
  with the tasks they spawn.

  The directory is a map from file names to bytes; foreign files may lie in it. Printing and parsing
  a checkpoint is serde's and a parameter.
\<close>

section \<open>The store\<close>

record checkpoint_env =
  ce_debug :: "string \<Rightarrow> string"
  ce_print :: "checkpoint \<Rightarrow> string"
  ce_parse :: "string \<Rightarrow> (string, checkpoint) result"

record file_checkpoint_store =
  fc_files :: "(string, string) hashmap"
  fc_max_checkpoints :: "usize option"

definition fcs_new :: file_checkpoint_store where
  "fcs_new = \<lparr>fc_files = [], fc_max_checkpoints = None\<rparr>"

definition with_max_checkpoints :: "usize \<Rightarrow> file_checkpoint_store \<Rightarrow> file_checkpoint_store" where
  "with_max_checkpoints n s = s\<lparr>fc_max_checkpoints := Some n\<rparr>"

definition unbounded :: "file_checkpoint_store \<Rightarrow> file_checkpoint_store" where
  "unbounded s = s\<lparr>fc_max_checkpoints := None\<rparr>"

definition checkpoint_path :: "string \<Rightarrow> string" where
  "checkpoint_path ident = ident @ ''.json''"

definition validate_checkpoint_id :: "(string \<Rightarrow> string) \<Rightarrow> string \<Rightarrow> (io_error, unit) result" where
  "validate_checkpoint_id debug ident =
     (if ident = [] then Inl (IoError IoInvalidInput ''checkpoint ID must not be empty'')
      else if str_contains ident ''/'' \<or> str_contains ident [CHR 0x5C] \<or> str_contains ident ''..''
           \<or> list_ex (\<lambda>c. c = CHR '':'' \<or> is_ascii_control c) ident
      then Inl (IoError IoInvalidInput (''checkpoint ID contains unsafe characters: '' @ debug ident))
      else Inr ())"

text \<open>A leading dot does not begin an extension.\<close>

definition has_json_extension :: "string \<Rightarrow> bool" where
  "has_json_extension name = (suffix ''.json'' name \<and> name \<noteq> ''.json'')"

definition read_checkpoint :: "checkpoint_env \<Rightarrow> string \<times> string \<Rightarrow> (string \<times> checkpoint) option" where
  "read_checkpoint env file =
     (let (name, contents) = file in
      if has_json_extension name \<and> valid_utf8 contents
      then (case ce_parse env contents of Inr c \<Rightarrow> Some (name, c) | Inl _ \<Rightarrow> None) else None)"

definition checkpoint_files :: "checkpoint_env \<Rightarrow> (string, string) hashmap \<Rightarrow> (string \<times> checkpoint) list" where
  "checkpoint_files env files = List.map_filter (read_checkpoint env) files"

definition age_key :: "string \<times> checkpoint \<Rightarrow> u64 \<times> string" where
  "age_key f = (cp_created_at (snd f), cp_id (snd f))"

text \<open>A stable descending sort.\<close>

definition newest_first :: "(string \<times> checkpoint) list \<Rightarrow> (string \<times> checkpoint) list" where
  "newest_first cs = rev (sort_key age_key (rev cs))"

definition prune_to :: "checkpoint_env \<Rightarrow> usize \<Rightarrow> (string, string) hashmap \<Rightarrow> (string, string) hashmap" where
  "prune_to env keep files =
     (let checkpoints = checkpoint_files env files in
      if length checkpoints \<le> keep then files
      else fold (\<lambda>(name, _). hm_remove name) (drop keep (newest_first checkpoints)) files)"

definition fcs_save :: "checkpoint_env \<Rightarrow> checkpoint \<Rightarrow> file_checkpoint_store \<Rightarrow> (io_error, unit) result \<times> file_checkpoint_store" where
  "fcs_save env c s =
     (case validate_checkpoint_id (ce_debug env) (cp_id c) of
        Inl e \<Rightarrow> (Inl e, s)
      | Inr _ \<Rightarrow>
          let files = hm_insert (checkpoint_path (cp_id c)) (ce_print env c) (fc_files s) in
          (Inr (), s\<lparr>fc_files := (case fc_max_checkpoints s of Some keep \<Rightarrow> prune_to env keep files | None \<Rightarrow> files)\<rparr>))"

definition fcs_load :: "checkpoint_env \<Rightarrow> string \<Rightarrow> file_checkpoint_store \<Rightarrow> (io_error, checkpoint option) result" where
  "fcs_load env ident s =
     rbind (validate_checkpoint_id (ce_debug env) ident) (\<lambda>_.
       case hm_get (fc_files s) (checkpoint_path ident) of
         None \<Rightarrow> Inr None
       | Some contents \<Rightarrow>
           if \<not> valid_utf8 contents then Inl (IoError IoInvalidData ''stream did not contain valid UTF-8'')
           else rbind (other (ce_parse env contents)) (\<lambda>c. Inr (Some c)))"

definition fcs_list :: "checkpoint_env \<Rightarrow> file_checkpoint_store \<Rightarrow> string list" where
  "fcs_list env s = map (\<lambda>f. cp_id (snd f)) (newest_first (checkpoint_files env (fc_files s)))"

definition fcs_delete :: "checkpoint_env \<Rightarrow> string \<Rightarrow> file_checkpoint_store \<Rightarrow> (io_error, unit) result \<times> file_checkpoint_store" where
  "fcs_delete env ident s =
     (case validate_checkpoint_id (ce_debug env) ident of
        Inl e \<Rightarrow> (Inl e, s)
      | Inr _ \<Rightarrow> (Inr (), s\<lparr>fc_files := hm_remove (checkpoint_path ident) (fc_files s)\<rparr>))"

section \<open>The checkpoint policies\<close>

definition build_checkpoint :: "u64 \<Rightarrow> string \<Rightarrow> policy_context \<Rightarrow> turn_policy_context \<Rightarrow> checkpoint" where
  "build_checkpoint now ident ctx turn =
     (let c = with_cost (pc_accumulated_cost ctx) (with_usage (pc_accumulated_usage ctx) (with_turn_count (pc_turn_index ctx)
            (checkpoint_new now ident (tpc_system_prompt turn) (ms_provider (tpc_model_spec turn)) (ms_model_id (tpc_model_spec turn))
               (tpc_context_messages turn))))
      in if ss_data (pc_state ctx) \<noteq> [] then with_state (session_snapshot (pc_state ctx)) c else c)"

definition checkpoint_policy_id :: "string option \<Rightarrow> usize \<Rightarrow> string" where
  "checkpoint_policy_id session turn_index =
     (case session of Some sid \<Rightarrow> sid @ ''-turn-'' @ show_nat turn_index | None \<Rightarrow> ''turn-'' @ show_nat turn_index)"

definition rolling_policy_id :: "string option \<Rightarrow> string" where
  "rolling_policy_id session = (case session of Some sid \<Rightarrow> sid @ ''-rolling'' | None \<Rightarrow> ''rolling'')"

text \<open>
  The spawned saves: each waits for the one it names, if any. The runtime may run any task whose
  predecessor has finished.
\<close>

record save_runtime =
  sr_tasks :: "(nat option \<times> checkpoint) list"
  sr_finished :: "nat list"
  sr_last_save :: "nat option"
  sr_store :: file_checkpoint_store

definition sr_new :: "file_checkpoint_store \<Rightarrow> save_runtime" where
  "sr_new s = \<lparr>sr_tasks = [], sr_finished = [], sr_last_save = None, sr_store = s\<rparr>"

definition checkpoint_policy_evaluate :: "u64 \<Rightarrow> string option \<Rightarrow> policy_context \<Rightarrow> turn_policy_context \<Rightarrow> save_runtime
    \<Rightarrow> policy_verdict \<times> save_runtime" where
  "checkpoint_policy_evaluate now session ctx turn r =
     (Continue, r\<lparr>sr_tasks := sr_tasks r @ [(None, build_checkpoint now (checkpoint_policy_id session (pc_turn_index ctx)) ctx turn)]\<rparr>)"

definition rolling_policy_evaluate :: "u64 \<Rightarrow> string option \<Rightarrow> policy_context \<Rightarrow> turn_policy_context \<Rightarrow> save_runtime
    \<Rightarrow> policy_verdict \<times> save_runtime" where
  "rolling_policy_evaluate now session ctx turn r =
     (Continue, r\<lparr>sr_tasks := sr_tasks r @ [(sr_last_save r, build_checkpoint now (rolling_policy_id session) ctx turn)],
                  sr_last_save := Some (length (sr_tasks r))\<rparr>)"

definition task_runnable :: "save_runtime \<Rightarrow> nat \<Rightarrow> bool" where
  "task_runnable r i =
     (i < length (sr_tasks r) \<and> i \<notin> set (sr_finished r)
      \<and> (case fst (sr_tasks r ! i) of Some p \<Rightarrow> p \<in> set (sr_finished r) | None \<Rightarrow> True))"

definition run_save_task :: "checkpoint_env \<Rightarrow> nat \<Rightarrow> save_runtime \<Rightarrow> save_runtime" where
  "run_save_task env i r =
     (let (_, s) = fcs_save env (snd (sr_tasks r ! i)) (sr_store r) in
      r\<lparr>sr_finished := sr_finished r @ [i], sr_store := s\<rparr>)"


section \<open>Retention\<close>

lemma checkpoint_path_inj [simp]: "checkpoint_path a = checkpoint_path b \<longleftrightarrow> a = b"
  by (simp add: checkpoint_path_def)

lemma checkpoint_path_json: "a \<noteq> [] \<Longrightarrow> has_json_extension (checkpoint_path a)"
  by (simp add: has_json_extension_def checkpoint_path_def suffix_def)

lemma set_newest_first [simp]: "set (newest_first cs) = set cs" "length (newest_first cs) = length cs"
  by (simp_all add: newest_first_def)

lemma newest_first_sorted: "sorted_wrt (\<lambda>a b. age_key b \<le> age_key a) (newest_first cs)"
proof -
  have "sorted (map age_key (sort_key age_key (rev cs)))" by simp
  then show ?thesis by (simp add: newest_first_def sorted_wrt_rev sorted_map)
qed

lemma read_checkpoint_Some: "read_checkpoint env (n, b) = Some (m, c) \<longleftrightarrow>
    m = n \<and> has_json_extension n \<and> valid_utf8 b \<and> ce_parse env b = Inr c"
  by (auto simp: read_checkpoint_def split: sum.splits)

lemma checkpoint_files_simps [simp]: "checkpoint_files env [] = []"
  "checkpoint_files env (f # fs) = (case read_checkpoint env f of Some x \<Rightarrow> x # checkpoint_files env fs | None \<Rightarrow> checkpoint_files env fs)"
  by (simp_all add: checkpoint_files_def List.map_filter_simps split: option.splits)

lemma checkpoint_files_iff:
  "(n, c) \<in> set (checkpoint_files env files) \<longleftrightarrow>
     (\<exists>b. (n, b) \<in> set files \<and> has_json_extension n \<and> valid_utf8 b \<and> ce_parse env b = Inr c)"
proof (induction files)
  case (Cons f files)
  obtain m b where f: "f = (m, b)" by (cases f)
  show ?case
  proof (cases "read_checkpoint env f")
    case None
    then have "\<not> (has_json_extension m \<and> valid_utf8 b \<and> ce_parse env b = Inr c)" using read_checkpoint_Some[of env m b m c] f by auto
    with None Cons f show ?thesis by auto
  next
    case (Some x)
    then obtain c' where "x = (m, c')" "has_json_extension m" "valid_utf8 b" "ce_parse env b = Inr c'"
      using f by (cases x) (auto simp: read_checkpoint_Some)
    with Some Cons f show ?thesis by auto
  qed
qed simp

lemma checkpoint_file_name: "f \<in> set (checkpoint_files env files) \<Longrightarrow> fst f \<in> fst ` set files"
  by (cases f) (auto simp: checkpoint_files_iff intro: rev_image_eqI)

lemma checkpoint_files_names: "hm_ok files \<Longrightarrow> distinct (map fst (checkpoint_files env files))"
proof (induction files)
  case (Cons f files)
  obtain n b where f: "f = (n, b)" by (cases f)
  have "n \<notin> fst ` set files" using Cons.prems f by (simp add: hm_ok_def)
  then have "n \<notin> fst ` set (checkpoint_files env files)" using checkpoint_file_name by fast
  with Cons f show ?case by (auto simp: hm_ok_def read_checkpoint_Some split: option.splits)
qed simp

lemma fold_remove_get: "hm_get (fold (\<lambda>(n, _). hm_remove n) fs files) k = (if k \<in> fst ` set fs then None else hm_get files k)"
  by (induction fs arbitrary: files) (auto simp: delete_conv')

lemma fold_remove_filter: "fold (\<lambda>(n, _). hm_remove n) fs files = filter (\<lambda>f. fst f \<notin> fst ` set fs) files"
proof (induction fs arbitrary: files)
  case (Cons f fs)
  then show ?case by (cases f) (auto simp: AList.delete_eq intro: filter_cong)
qed simp

lemma filter_read: "checkpoint_files env (filter (\<lambda>f. P (fst f)) files) = filter (\<lambda>f. P (fst f)) (checkpoint_files env files)"
proof (induction files)
  case (Cons f files)
  then show ?case by (cases f) (auto simp: read_checkpoint_Some split: option.splits)
qed simp

text \<open>What pruning keeps are the first files of the sorted list.\<close>

lemma pruned_files:
  assumes "hm_ok files" "keep < length (checkpoint_files env files)"
  shows "set (checkpoint_files env (prune_to env keep files)) = set (take keep (newest_first (checkpoint_files env files)))"
    "length (checkpoint_files env (prune_to env keep files)) = keep"
proof -
  let ?cs = "checkpoint_files env files" and ?dropped = "drop keep (newest_first (checkpoint_files env files))"
  have d: "distinct (map fst (newest_first ?cs))"
    using checkpoint_files_names[OF assms(1), of env] by (simp add: newest_first_def distinct_map rev_map[symmetric])
  have files: "checkpoint_files env (prune_to env keep files) = filter (\<lambda>f. fst f \<notin> fst ` set ?dropped) ?cs"
    using assms(2) filter_read[of env "\<lambda>n. n \<notin> fst ` set ?dropped" files]
    by (simp add: prune_to_def Let_def fold_remove_filter)
  have split: "newest_first ?cs = take keep (newest_first ?cs) @ ?dropped" by simp
  have apart: "fst ` set (take keep (newest_first ?cs)) \<inter> fst ` set ?dropped = {}"
    using d by (metis append_take_drop_id distinct_append map_append set_map)
  have "set ?cs = set (take keep (newest_first ?cs)) \<union> set ?dropped" by (metis set_append split set_newest_first(1))
  with apart show s: "set (checkpoint_files env (prune_to env keep files)) = set (take keep (newest_first ?cs))"
    unfolding files by (auto simp: image_iff)
  have "distinct (checkpoint_files env (prune_to env keep files))"
    unfolding files using checkpoint_files_names[OF assms(1), of env] by (simp add: distinct_map)
  then have "length (checkpoint_files env (prune_to env keep files)) = card (set (take keep (newest_first ?cs)))"
    using s by (metis distinct_card)
  also have "\<dots> = keep" using d assms(2) by (simp add: distinct_card distinct_take distinct_map)
  finally show "length (checkpoint_files env (prune_to env keep files)) = keep" .
qed


lemma hm_ok_insert [simp]: "hm_ok m \<Longrightarrow> hm_ok (hm_insert k v m)"
  by (simp add: hm_ok_def distinct_update)

lemma hm_get_iff: "hm_ok m \<Longrightarrow> hm_get m k = Some v \<longleftrightarrow> (k, v) \<in> set m"
  by (simp add: hm_ok_def map_of_eq_Some_iff)

lemma prune_ok: "hm_ok files \<Longrightarrow> hm_ok (prune_to env keep files)"
proof -
  have "distinct (map fst (filter P files))" if "distinct (map fst files)" for P and files :: "(string, string) hashmap"
    using that by (induction files) auto
  then show "hm_ok files \<Longrightarrow> hm_ok (prune_to env keep files)" by (simp add: prune_to_def Let_def fold_remove_filter hm_ok_def)
qed

lemma prune_dropped:
  assumes "hm_ok files" "f \<in> set (checkpoint_files env files)" "f \<notin> set (checkpoint_files env (prune_to env keep files))"
    "g \<in> set (checkpoint_files env (prune_to env keep files))"
  shows "age_key f \<le> age_key g"
proof -
  let ?l = "newest_first (checkpoint_files env files)"
  have keep: "keep < length (checkpoint_files env files)"
  proof (rule ccontr)
    assume "\<not> ?thesis"
    with assms(2,3) show False by (simp add: prune_to_def Let_def)
  qed
  note p = pruned_files(1)[OF assms(1) keep]
  have "set ?l = set (take keep ?l) \<union> set (drop keep ?l)" by (metis append_take_drop_id set_append)
  then have "f \<in> set (drop keep ?l)" "g \<in> set (take keep ?l)" using assms(2,3,4) p by auto
  moreover have "sorted_wrt (\<lambda>a b. age_key b \<le> age_key a) (take keep ?l @ drop keep ?l)" using newest_first_sorted by simp
  note this[unfolded sorted_wrt_append]
  ultimately show ?thesis by blast
qed

lemma prune_other: "hm_get files name = Some b \<Longrightarrow> hm_ok files \<Longrightarrow> read_checkpoint env (name, b) = None \<Longrightarrow> hm_get (prune_to env keep files) name = Some b"
proof -
  assume b: "hm_get files name = Some b" and ok: "hm_ok files" and none: "read_checkpoint env (name, b) = None"
  have "name \<noteq> fst f" if "f \<in> set (checkpoint_files env files)" for f
  proof
    assume "name = fst f"
    then obtain c where f: "f = (name, c)" by (cases f) simp
    from that[unfolded f checkpoint_files_iff] obtain b' where "(name, b') \<in> set files" "read_checkpoint env (name, b') = Some f"
      by (auto simp: f read_checkpoint_Some)
    moreover from this(1) have "b' = b" using b hm_get_iff[OF ok, of name b'] by simp
    ultimately show False using none by simp
  qed
  moreover have "set (drop keep (newest_first (checkpoint_files env files))) \<subseteq> set (checkpoint_files env files)"
    by (metis set_drop_subset set_newest_first(1))
  ultimately have "name \<notin> fst ` set (drop keep (newest_first (checkpoint_files env files)))" by blast
  with b show ?thesis by (simp add: prune_to_def Let_def fold_remove_get)
qed

definition saved_files :: "checkpoint_env \<Rightarrow> checkpoint \<Rightarrow> file_checkpoint_store \<Rightarrow> (string, string) hashmap" where
  "saved_files env c s = hm_insert (checkpoint_path (cp_id c)) (ce_print env c) (fc_files s)"

lemma fcs_save_Inr:
  "fcs_save env c s = (Inr u, s') \<longleftrightarrow> validate_checkpoint_id (ce_debug env) (cp_id c) = Inr ()
     \<and> s' = s\<lparr>fc_files := (case fc_max_checkpoints s of Some keep \<Rightarrow> prune_to env keep (saved_files env c s) | None \<Rightarrow> saved_files env c s)\<rparr>"
  by (cases "fc_max_checkpoints s"; cases "validate_checkpoint_id (ce_debug env) (cp_id c)")
    (auto simp: fcs_save_def saved_files_def Let_def)

text \<open>
  C27. Retention removes checkpoints only, and the oldest ones. After a save into a bounded store at
  most that many checkpoints are left, every one that was removed is no newer, by creation time and
  then by id, than every one that is left, and a file that does not parse as a checkpoint is never
  touched.
\<close>

theorem retention_keeps_newest:
  assumes "hm_ok (fc_files s)" "fc_max_checkpoints s = Some n" "fcs_save env c s = (Inr (), s')"
  shows "length (checkpoint_files env (fc_files s')) \<le> n
    \<and> (\<forall>f \<in> set (checkpoint_files env (saved_files env c s)) - set (checkpoint_files env (fc_files s')).
         \<forall>g \<in> set (checkpoint_files env (fc_files s')). age_key f \<le> age_key g)
    \<and> (\<forall>name b. name \<noteq> checkpoint_path (cp_id c) \<longrightarrow> hm_get (fc_files s) name = Some b \<longrightarrow> read_checkpoint env (name, b) = None
         \<longrightarrow> hm_get (fc_files s') name = Some b)"
proof -
  have files: "fc_files s' = prune_to env n (saved_files env c s)" using assms(2,3) by (simp add: fcs_save_Inr)
  have ok: "hm_ok (saved_files env c s)" using assms(1) by (simp add: saved_files_def)
  have "length (checkpoint_files env (fc_files s')) \<le> n"
    using pruned_files(2)[OF ok, of n env] by (cases "n < length (checkpoint_files env (saved_files env c s))") (simp_all add: files prune_to_def)
  moreover have "hm_get (fc_files s') name = Some b"
    if "name \<noteq> checkpoint_path (cp_id c)" "hm_get (fc_files s) name = Some b" "read_checkpoint env (name, b) = None" for name b
    using that prune_other[OF _ ok that(3)] by (simp add: files saved_files_def update_conv)
  moreover have "age_key f \<le> age_key g"
    if "f \<in> set (checkpoint_files env (saved_files env c s)) - set (checkpoint_files env (fc_files s'))"
      "g \<in> set (checkpoint_files env (fc_files s'))" for f g
    using that prune_dropped[OF ok, of f env n g] by (simp add: files)
  ultimately show ?thesis by blast
qed


text \<open>What serde promises of a checkpoint that is saved.\<close>

definition stores_checkpoint :: "checkpoint_env \<Rightarrow> checkpoint \<Rightarrow> bool" where
  "stores_checkpoint env c = (valid_utf8 (ce_print env c) \<and> ce_parse env (ce_print env c) = Inr c)"

lemma valid_nonempty: "validate_checkpoint_id d ident = Inr () \<Longrightarrow> ident \<noteq> []"
  by (auto simp: validate_checkpoint_id_def)

lemma checkpoint_file_loads:
  assumes "hm_ok (fc_files s)" "(checkpoint_path ident, c) \<in> set (checkpoint_files env (fc_files s))"
    "validate_checkpoint_id (ce_debug env) ident = Inr ()"
  shows "fcs_load env ident s = Inr (Some c)"
proof -
  from assms(2) obtain b where b: "(checkpoint_path ident, b) \<in> set (fc_files s)" "valid_utf8 b" "ce_parse env b = Inr c"
    by (auto simp: checkpoint_files_iff)
  from b(1) have "hm_get (fc_files s) (checkpoint_path ident) = Some b" by (rule hm_get_iff[OF assms(1), THEN iffD2])
  with b assms(3) show ?thesis by (simp add: fcs_load_def other_def)
qed

lemma saved_file_listed:
  assumes "hm_ok (fc_files s)" "stores_checkpoint env c" "validate_checkpoint_id (ce_debug env) (cp_id c) = Inr ()"
  shows "(checkpoint_path (cp_id c), c) \<in> set (checkpoint_files env (saved_files env c s))"
proof -
  have "hm_get (saved_files env c s) (checkpoint_path (cp_id c)) = Some (ce_print env c)" by (simp add: saved_files_def update_conv)
  then have "(checkpoint_path (cp_id c), ce_print env c) \<in> set (saved_files env c s)" by (rule map_of_SomeD)
  then show ?thesis using assms(2,3) checkpoint_path_json[OF valid_nonempty[OF assms(3)]]
    by (auto simp: checkpoint_files_iff stores_checkpoint_def)
qed

lemma saved_files_old:
  assumes "hm_ok (fc_files s)" "f \<in> set (checkpoint_files env (saved_files env c s))" "fst f \<noteq> checkpoint_path (cp_id c)"
  shows "f \<in> set (checkpoint_files env (fc_files s))"
proof -
  obtain n c' where f: "f = (n, c')" by (cases f)
  have ok: "hm_ok (saved_files env c s)" using assms(1) by (simp add: saved_files_def)
  from assms(2)[unfolded f checkpoint_files_iff] obtain b where b: "(n, b) \<in> set (saved_files env c s)"
    "has_json_extension n" "valid_utf8 b" "ce_parse env b = Inr c'" by blast
  then have "hm_get (fc_files s) n = Some b"
    using hm_get_iff[OF ok, of n b] assms(3) f by (simp add: saved_files_def update_conv)
  with b show ?thesis unfolding f checkpoint_files_iff using map_of_SomeD by fast
qed

lemma saved_checkpoint_loads_aux:
  assumes "hm_ok (fc_files s)" "stores_checkpoint env c" "fcs_save env c s = (Inr (), s')"
    "fc_max_checkpoints s = None \<or> (\<exists>n > 0. fc_max_checkpoints s = Some n
       \<and> (\<forall>f \<in> set (checkpoint_files env (fc_files s)). fst f \<noteq> checkpoint_path (cp_id c) \<longrightarrow> age_key f < (cp_created_at c, cp_id c)))"
  shows "fcs_load env (cp_id c) s' = Inr (Some c)"
proof -
  let ?f = "(checkpoint_path (cp_id c), c)"
  have v: "validate_checkpoint_id (ce_debug env) (cp_id c) = Inr ()" using assms(3) by (simp add: fcs_save_Inr)
  have ok: "hm_ok (saved_files env c s)" using assms(1) by (simp add: saved_files_def)
  note listed = saved_file_listed[OF assms(1,2) v]
  show ?thesis
  proof (cases "fc_max_checkpoints s")
    case None
    then have "fc_files s' = saved_files env c s" using assms(3) by (simp add: fcs_save_Inr)
    then show ?thesis using checkpoint_file_loads[of s' "cp_id c" c env] ok listed v by simp
  next
    case (Some n)
    with assms(4) have n: "0 < n" and new: "\<And>f. f \<in> set (checkpoint_files env (fc_files s)) \<Longrightarrow> fst f \<noteq> checkpoint_path (cp_id c)
        \<Longrightarrow> age_key f < age_key ?f" by (auto simp: age_key_def)
    have files: "fc_files s' = prune_to env n (saved_files env c s)" using assms(3) Some by (simp add: fcs_save_Inr)
    have "?f \<in> set (checkpoint_files env (fc_files s'))"
    proof (rule ccontr)
      assume out: "?f \<notin> set (checkpoint_files env (fc_files s'))"
      have more: "n < length (checkpoint_files env (saved_files env c s))"
      proof (rule ccontr)
        assume "\<not> ?thesis"
        with out listed show False by (simp add: files prune_to_def)
      qed
      with pruned_files(2)[OF ok more] n obtain g where g: "g \<in> set (checkpoint_files env (fc_files s'))"
        unfolding files by (metis gr_implies_not0 length_0_conv list.set_sel(1))
      then have "g \<in> set (checkpoint_files env (saved_files env c s))"
        using pruned_files(1)[OF ok more] by (metis files in_set_takeD set_newest_first(1))
      moreover from this have "fst g \<noteq> checkpoint_path (cp_id c)"
        using listed out g checkpoint_files_names[OF ok, of env] by (metis eq_key_imp_eq_value fst_conv prod.collapse)
      ultimately have "age_key g < age_key ?f" using new saved_files_old[OF assms(1)] by blast
      moreover have "age_key ?f \<le> age_key g" using prune_dropped[OF ok listed] out g by (simp add: files)
      ultimately show False by simp
    qed
    moreover have "hm_ok (fc_files s')" using prune_ok[OF ok] by (simp add: files)
    ultimately show ?thesis using checkpoint_file_loads v by blast
  qed
qed


text \<open>
  A saved checkpoint can be loaded, provided the store is unbounded or the checkpoint is newer
  than all others by creation time and id.
\<close>

theorem saved_checkpoint_loads:
  assumes "hm_ok (fc_files s)" "stores_checkpoint env c" "fcs_save env c s = (Inr (), s')"
    "fc_max_checkpoints s = None \<or> (\<exists>n > 0. fc_max_checkpoints s = Some n
       \<and> (\<forall>f \<in> set (checkpoint_files env (fc_files s)). fst f \<noteq> checkpoint_path (cp_id c) \<longrightarrow> age_key f < (cp_created_at c, cp_id c)))"
  shows "fcs_load env (cp_id c) s' = Inr (Some c)"
  by (rule saved_checkpoint_loads_aux[OF assms])

section \<open>Turns within one second\<close>

lemma update_fresh: "hm_get m k = None \<Longrightarrow> hm_insert k v m = m @ [(k, v)]"
  by (induction m) (auto split: if_splits)

lemma checkpoint_files_append: "checkpoint_files env (xs @ ys) = checkpoint_files env xs @ checkpoint_files env ys"
  by (induction xs) (auto split: option.splits)

lemma full_store_drops:
  assumes "hm_ok (fc_files s)" "fc_max_checkpoints s = Some n" "length (checkpoint_files env (fc_files s)) = n"
    "\<And>f. f \<in> set (checkpoint_files env (fc_files s)) \<Longrightarrow> (cp_created_at c, cp_id c) < age_key f"
    "hm_get (fc_files s) (checkpoint_path (cp_id c)) = None" "validate_checkpoint_id (ce_debug env) (cp_id c) = Inr ()" "stores_checkpoint env c"
  shows "fcs_save env c s = (Inr (), s)"
proof -
  let ?f = "(checkpoint_path (cp_id c), c)" and ?files = "saved_files env c s"
  let ?l = "newest_first (checkpoint_files env ?files)"
  have ok: "hm_ok ?files" using assms(1) by (simp add: saved_files_def)
  have files: "?files = fc_files s @ [(checkpoint_path (cp_id c), ce_print env c)]"
    by (simp add: saved_files_def update_fresh[OF assms(5)])
  have cs: "checkpoint_files env ?files = checkpoint_files env (fc_files s) @ [?f]"
    using assms(6,7) checkpoint_path_json[OF valid_nonempty[OF assms(6)]]
    by (simp add: files checkpoint_files_append stores_checkpoint_def read_checkpoint_def)
  then have len: "length ?l = Suc n" using assms(3) by simp
  have "length (drop n ?l) = 1" using len by simp
  then obtain g where g: "drop n ?l = [g]" by (cases "drop n ?l") auto
  have split: "?l = take n ?l @ [g]" using g by (metis append_take_drop_id)
  have "g = ?f"
  proof (rule ccontr)
    assume ne: "g \<noteq> ?f"
    have "set ?l = set (take n ?l) \<union> {g}" using split by (metis list.set(1) list.simps(15) set_append)
    then have "?f \<in> set (take n ?l)" "g \<in> set (checkpoint_files env ?files)" using ne by (auto simp: cs)
    moreover have "sorted_wrt (\<lambda>a b. age_key b \<le> age_key a) (take n ?l @ [g])" using newest_first_sorted split by metis
    ultimately have "age_key g \<le> age_key ?f" by (simp add: sorted_wrt_append)
    moreover have "age_key ?f < age_key g" using assms(4)[of g] ne \<open>g \<in> set (checkpoint_files env ?files)\<close> by (simp add: cs age_key_def)
    ultimately show False by simp
  qed
  then have "prune_to env n ?files = hm_remove (checkpoint_path (cp_id c)) ?files"
    using len g by (simp add: prune_to_def Let_def)
  also have "\<dots> = fc_files s"
  proof -
    have "\<forall>p \<in> set (fc_files s). fst p \<noteq> checkpoint_path (cp_id c)" using assms(5) by (force simp: map_of_eq_None_iff)
    then show ?thesis by (auto simp: files AList.delete_eq filter_id_conv)
  qed
  finally show ?thesis using assms(2,6) by (simp add: fcs_save_Inr)
qed

lemma build_checkpoint_simps [simp]:
  "cp_id (build_checkpoint now ident ctx turn) = ident" "cp_created_at (build_checkpoint now ident ctx turn) = now"
  by (simp_all add: build_checkpoint_def Let_def with_cost_def with_usage_def with_turn_count_def with_state_def checkpoint_new_def)

lemma append_less_cancel: "(xs @ ys < xs @ zs) = (ys < (zs :: string))"
  by (induction xs) simp_all

lemma turn_ids: "checkpoint_policy_id session 10 < checkpoint_policy_id session 9"
proof -
  have "show_nat 9 = ''9''" "show_nat 10 = ''10''" by code_simp+
  then have "x @ show_nat 10 < x @ show_nat 9" for x by (simp add: append_less_cancel less_char_def)
  from this[of "''turn-''"] this[of "sid @ ''-turn-''" for sid] show ?thesis by (auto simp: checkpoint_policy_id_def split: option.splits)
qed

text \<open>
  C28. Within one second the tenth turn is older than the ninth. The checkpoint policy numbers its
  checkpoints without padding and the store breaks ties of the creation second by comparing ids as
  strings, so a store bounded to one checkpoint that holds turn 9 answers the save of turn 10, made
  in the same second, with success and deletes what it has just written: turn 10 cannot be loaded
  and turn 9 is listed as the latest.
\<close>

theorem tenth_turn_pruned:
  assumes "stores_checkpoint env ninth" "stores_checkpoint env tenth"
    "\<forall>i \<in> {9, 10}. validate_checkpoint_id (ce_debug env) (checkpoint_policy_id session i) = Inr ()"
    "ninth = build_checkpoint now (checkpoint_policy_id session 9) ctx turn" "tenth = build_checkpoint now (checkpoint_policy_id session 10) ctx' turn'"
    "fcs_save env ninth (with_max_checkpoints 1 fcs_new) = (Inr (), s)"
  shows "fcs_save env tenth s = (Inr (), s) \<and> fcs_load env (checkpoint_policy_id session 10) s = Inr None
    \<and> fcs_list env s = [checkpoint_policy_id session 9]"
proof -
  have path: "checkpoint_path (checkpoint_policy_id session 10) \<noteq> checkpoint_path (checkpoint_policy_id session 9)"
    using turn_ids[of session] by auto
  have "prune_to env 1 [(checkpoint_path (cp_id ninth), ce_print env ninth)] = [(checkpoint_path (cp_id ninth), ce_print env ninth)]"
    by (simp add: prune_to_def Let_def split: option.splits)
  then have s: "fc_files s = [(checkpoint_path (checkpoint_policy_id session 9), ce_print env ninth)]" "fc_max_checkpoints s = Some 1"
    using assms(4,6) by (simp_all add: fcs_save_Inr saved_files_def with_max_checkpoints_def fcs_new_def)
  have "checkpoint_files env (fc_files s) = [(checkpoint_path (checkpoint_policy_id session 9), ninth)]"
    using assms(1,3) checkpoint_path_json[OF valid_nonempty[of "ce_debug env" "checkpoint_policy_id session 9"]]
    by (simp add: s stores_checkpoint_def read_checkpoint_def)
  note cs = this
  have "fcs_save env tenth s = (Inr (), s)"
    using turn_ids[of session] path assms(2,3) by (intro full_store_drops[where n = 1]) (simp_all only: cs, simp_all add: s assms(4,5) age_key_def hm_ok_def)
  moreover have "fcs_load env (checkpoint_policy_id session 10) s = Inr None" using assms(3) path by (simp add: fcs_load_def s)
  moreover have "fcs_list env s = [checkpoint_policy_id session 9]" by (simp add: fcs_list_def cs newest_first_def assms(4))
  ultimately show ?thesis by blast
qed

section \<open>The rolling checkpoint\<close>

text \<open>Turns and running tasks, in any order the runtime chooses.\<close>

inductive rolling_run :: "checkpoint_env \<Rightarrow> string option \<Rightarrow> file_checkpoint_store \<Rightarrow> save_runtime \<Rightarrow> bool" for env session s where
  start: "rolling_run env session s (sr_new s)"
| turn: "rolling_run env session s r \<Longrightarrow> rolling_run env session s (snd (rolling_policy_evaluate now session ctx turn r))"
| task: "rolling_run env session s r \<Longrightarrow> task_runnable r i \<Longrightarrow> rolling_run env session s (run_save_task env i r)"

definition save_all :: "checkpoint_env \<Rightarrow> (nat option \<times> checkpoint) list \<Rightarrow> file_checkpoint_store \<Rightarrow> file_checkpoint_store" where
  "save_all env tasks s = fold (\<lambda>(_, c) s. snd (fcs_save env c s)) tasks s"

definition chained :: "save_runtime \<Rightarrow> bool" where
  "chained r \<longleftrightarrow> sr_finished r = [0..<length (sr_finished r)] \<and> length (sr_finished r) \<le> length (sr_tasks r)
     \<and> (\<forall>i < length (sr_tasks r). fst (sr_tasks r ! i) = (if i = 0 then None else Some (i - 1)))
     \<and> sr_last_save r = (if sr_tasks r = [] then None else Some (length (sr_tasks r) - 1))"

lemma chained_next:
  assumes "chained r" "task_runnable r i"
  shows "i = length (sr_finished r)" "i < length (sr_tasks r)"
proof -
  have set: "set (sr_finished r) = {..<length (sr_finished r)}" using assms(1) by (metis atLeast0LessThan chained_def set_upt)
  from assms show i: "i < length (sr_tasks r)" by (simp add: task_runnable_def)
  from assms(1) i have dep: "fst (sr_tasks r ! i) = (if i = 0 then None else Some (i - 1))" by (simp add: chained_def)
  show "i = length (sr_finished r)"
    using assms(2) set dep by (cases i) (auto simp: task_runnable_def)
qed

lemma rolling_chained:
  assumes "rolling_run env session s r"
  shows "chained r" "sr_store r = save_all env (take (length (sr_finished r)) (sr_tasks r)) s"
proof -
  from assms have "chained r \<and> sr_store r = save_all env (take (length (sr_finished r)) (sr_tasks r)) s"
  proof induction
    case start
    show ?case by (simp add: chained_def sr_new_def save_all_def)
  next
    case (turn r now ctx turn)
    then show ?case by (auto simp: chained_def rolling_policy_evaluate_def nth_append)
  next
    case (task r i)
    note n = chained_next[OF conjunct1[OF task.IH] task.hyps(2)]
    have "take (Suc (length (sr_finished r))) (sr_tasks r) = take (length (sr_finished r)) (sr_tasks r) @ [sr_tasks r ! i]"
      using n by (simp add: take_Suc_conv_app_nth)
    with task.IH n show ?case
      by (auto simp: run_save_task_def chained_def save_all_def case_prod_beta)
  qed
  then show "chained r" "sr_store r = save_all env (take (length (sr_finished r)) (sr_tasks r)) s" by auto
qed

lemma rolling_ids: "rolling_run env session s r \<Longrightarrow> t \<in> set (sr_tasks r) \<Longrightarrow> cp_id (snd t) = rolling_policy_id session"
  by (induction rule: rolling_run.induct) (auto simp: sr_new_def rolling_policy_evaluate_def run_save_task_def case_prod_beta)

lemma save_all_ok:
  "hm_ok (fc_files s) \<Longrightarrow> fc_max_checkpoints s = None \<Longrightarrow>
     hm_ok (fc_files (save_all env ts s)) \<and> fc_max_checkpoints (save_all env ts s) = None"
proof (induction ts arbitrary: s)
  case (Cons t ts)
  obtain d c where t: "t = (d, c)" by (cases t)
  have "hm_ok (fc_files (snd (fcs_save env c s))) \<and> fc_max_checkpoints (snd (fcs_save env c s)) = None"
    using Cons.prems by (simp add: fcs_save_def Let_def split: sum.splits)
  with Cons.IH[of "snd (fcs_save env c s)"] show ?case by (simp add: save_all_def t)
qed (simp add: save_all_def)

text \<open>
  The rolling checkpoint never goes back. However the runtime orders the spawned saves, they
  finish in the order of their turns, and the checkpoint that is stored is the one of the last turn
  whose save has finished; once all have finished it is the one of the last turn.
\<close>

theorem rolling_checkpoint_monotone:
  assumes "rolling_run env session s r" "hm_ok (fc_files s)" "fc_max_checkpoints s = None"
    "validate_checkpoint_id (ce_debug env) (rolling_policy_id session) = Inr ()" "\<forall>t \<in> set (sr_tasks r). stores_checkpoint env (snd t)"
    "sr_finished r \<noteq> []"
  shows "sr_finished r = [0..<length (sr_finished r)]
    \<and> fcs_load env (rolling_policy_id session) (sr_store r) = Inr (Some (snd (sr_tasks r ! (length (sr_finished r) - 1))))"
proof -
  obtain k where k: "length (sr_finished r) = Suc k" using assms(6) by (cases "sr_finished r") auto
  have c: "chained r" and store: "sr_store r = save_all env (take (Suc k) (sr_tasks r)) s" using rolling_chained[OF assms(1)] k by auto
  have len: "k < length (sr_tasks r)" using c k by (simp add: chained_def)
  let ?t = "sr_tasks r ! k" and ?s = "save_all env (take k (sr_tasks r)) s"
  have t: "?t \<in> set (sr_tasks r)" using len by simp
  have last: "sr_store r = snd (fcs_save env (snd ?t) ?s)"
    using len by (simp add: store take_Suc_conv_app_nth save_all_def case_prod_beta)
  have save: "fcs_save env (snd ?t) ?s = (Inr (), sr_store r)"
    using rolling_ids[OF assms(1) t] assms(4) last by (auto simp: fcs_save_def Let_def)
  have "fcs_load env (cp_id (snd ?t)) (sr_store r) = Inr (Some (snd ?t))"
    using saved_checkpoint_loads_aux[OF _ _ save] save_all_ok[OF assms(2,3)] assms(5) t by blast
  then show ?thesis using c rolling_ids[OF assms(1) t] k by (auto simp: chained_def)
qed


section \<open>Witnesses\<close>

definition example_saved :: "string \<Rightarrow> usize \<Rightarrow> checkpoint" where
  "example_saved ident n = build_checkpoint 5 ident (example_ctx n 0) (example_turn [])"

text \<open>A serde that knows two checkpoints, of turns 9 and 10.\<close>

definition example_checkpoint_env :: "string \<Rightarrow> string \<Rightarrow> checkpoint_env" where
  "example_checkpoint_env a b =
     \<lparr>ce_debug = (\<lambda>s. s), ce_print = (\<lambda>c. if cp_turn_count c = 9 then ''9'' else ''10''),
      ce_parse = (\<lambda>t. if t = ''9'' then Inr (example_saved a 9) else if t = ''10'' then Inr (example_saved b 10) else Inl ''unknown'')\<rparr>"

lemma example_turn_count [simp]: "cp_turn_count (example_saved ident n) = n" "cp_id (example_saved ident n) = ident"
  "cp_created_at (example_saved ident n) = 5"
  by (simp_all add: example_saved_def)
    (simp add: build_checkpoint_def Let_def with_cost_def with_usage_def with_turn_count_def example_ctx_def session_new_def)

lemma example_stores [simp]:
  "stores_checkpoint (example_checkpoint_env a b) (example_saved a 9)" "stores_checkpoint (example_checkpoint_env a b) (example_saved b 10)"
  by (simp_all add: stores_checkpoint_def example_checkpoint_env_def in_range_def)

lemma example_ids [simp]:
  "checkpoint_policy_id None 9 = ''turn-9''" "checkpoint_policy_id None 10 = ''turn-10''" "rolling_policy_id None = ''rolling''"
proof -
  have "show_nat 9 = ''9''" "show_nat 10 = ''10''" by code_simp+
  then show "checkpoint_policy_id None 9 = ''turn-9''" "checkpoint_policy_id None 10 = ''turn-10''" "rolling_policy_id None = ''rolling''"
    by (simp_all add: checkpoint_policy_id_def rolling_policy_id_def)
qed

lemma example_valid [simp]:
  "validate_checkpoint_id d ''turn-9'' = Inr ()" "validate_checkpoint_id d ''turn-10'' = Inr ()" "validate_checkpoint_id d ''rolling'' = Inr ()"
  by (simp_all add: validate_checkpoint_id_def is_ascii_control_def)

lemma example_first_save:
  "\<exists>s. fcs_save env (example_saved ''turn-9'' 9) (with_max_checkpoints 1 fcs_new) = (Inr (), s)"
  by (simp add: fcs_save_Inr)

theorem retention_keeps_newest_witness:
  "\<exists>s. fcs_save (example_checkpoint_env ''turn-9'' ''turn-10'') (example_saved ''turn-9'' 9) (with_max_checkpoints 1 fcs_new) = (Inr (), s)
    \<and> length (checkpoint_files (example_checkpoint_env ''turn-9'' ''turn-10'') (fc_files s)) \<le> 1"
proof -
  obtain s where s: "fcs_save (example_checkpoint_env ''turn-9'' ''turn-10'') (example_saved ''turn-9'' 9) (with_max_checkpoints 1 fcs_new) = (Inr (), s)"
    using example_first_save by blast
  have "hm_ok (fc_files (with_max_checkpoints 1 fcs_new))" "fc_max_checkpoints (with_max_checkpoints 1 fcs_new) = Some 1"
    by (simp_all add: with_max_checkpoints_def fcs_new_def hm_ok_def)
  with retention_keeps_newest [OF _ _ s] s show ?thesis by blast
qed

theorem saved_checkpoint_loads_witness:
  "\<exists>s. fcs_save (example_checkpoint_env ''turn-9'' ''turn-10'') (example_saved ''turn-9'' 9) (with_max_checkpoints 1 fcs_new) = (Inr (), s)
    \<and> fcs_load (example_checkpoint_env ''turn-9'' ''turn-10'') ''turn-9'' s = Inr (Some (example_saved ''turn-9'' 9))"
proof -
  obtain s where s: "fcs_save (example_checkpoint_env ''turn-9'' ''turn-10'') (example_saved ''turn-9'' 9) (with_max_checkpoints 1 fcs_new) = (Inr (), s)"
    using example_first_save by blast
  have "fcs_load (example_checkpoint_env ''turn-9'' ''turn-10'') (cp_id (example_saved ''turn-9'' 9)) s = Inr (Some (example_saved ''turn-9'' 9))"
    by (rule saved_checkpoint_loads [OF _ _ s]) (simp_all add: with_max_checkpoints_def fcs_new_def hm_ok_def)
  with s show ?thesis by auto
qed

theorem tenth_turn_pruned_witness:
  "\<exists>s. fcs_save (example_checkpoint_env ''turn-9'' ''turn-10'') (example_saved ''turn-10'' 10) s = (Inr (), s)
    \<and> fcs_load (example_checkpoint_env ''turn-9'' ''turn-10'') ''turn-10'' s = Inr None
    \<and> fcs_list (example_checkpoint_env ''turn-9'' ''turn-10'') s = [''turn-9'']"
proof -
  let ?env = "example_checkpoint_env ''turn-9'' ''turn-10''"
  obtain s where s: "fcs_save ?env (example_saved ''turn-9'' 9) (with_max_checkpoints 1 fcs_new) = (Inr (), s)"
    using example_first_save by blast
  have "fcs_save ?env (example_saved ''turn-10'' 10) s = (Inr (), s) \<and> fcs_load ?env (checkpoint_policy_id None 10) s = Inr None
      \<and> fcs_list ?env s = [checkpoint_policy_id None 9]"
    by (rule tenth_turn_pruned [OF _ _ _ _ _ s]) (simp_all, simp_all add: example_saved_def)
  then show ?thesis by auto
qed

theorem rolling_checkpoint_monotone_witness:
  "\<exists>r. rolling_run (example_checkpoint_env ''rolling'' ''rolling'') None fcs_new r \<and> length (sr_finished r) = 2
    \<and> fcs_load (example_checkpoint_env ''rolling'' ''rolling'') ''rolling'' (sr_store r) = Inr (Some (example_saved ''rolling'' 10))"
proof -
  let ?env = "example_checkpoint_env ''rolling'' ''rolling''"
  let ?turn = "\<lambda>n r. snd (rolling_policy_evaluate 5 None (example_ctx n 0) (example_turn []) r)"
  define r where "r = run_save_task ?env 1 (run_save_task ?env 0 (?turn 10 (?turn 9 (sr_new fcs_new))))"
  have tasks: "sr_tasks r = [(None, example_saved ''rolling'' 9), (Some 0, example_saved ''rolling'' 10)]" "sr_finished r = [0, 1]"
    by (simp_all add: r_def run_save_task_def rolling_policy_evaluate_def sr_new_def case_prod_beta example_saved_def)
  have run: "rolling_run ?env None fcs_new r" unfolding r_def
    by (intro rolling_run.task rolling_run.turn rolling_run.start)
      (simp_all add: task_runnable_def run_save_task_def rolling_policy_evaluate_def sr_new_def case_prod_beta)
  have "hm_ok (fc_files fcs_new)" "fc_max_checkpoints fcs_new = None" by (simp_all add: fcs_new_def hm_ok_def)
  from rolling_checkpoint_monotone [OF run this] tasks
  have "fcs_load ?env ''rolling'' (sr_store r) = Inr (Some (example_saved ''rolling'' 10))" by simp
  with run tasks(2) show ?thesis by (intro exI[of _ r]) simp
qed

end
