(* ===== verification/Session_Saves.thy ===== *)
theory Session_Saves
  imports Session_Store
begin

text \<open>
  What the operations of the session store promise: what is saved is what is loaded, a save or an
  append with a stale sequence number is refused, an append extends the session by its records
  whichever way the file is written, and every file the store writes can be read again.
\<close>

section \<open>Written files\<close>

text \<open>What serde promises of the metadata, of a message and of a state that are written.\<close>

definition stores_meta :: "serde \<Rightarrow> session_meta \<Rightarrow> bool" where
  "stores_meta sd meta =
     (whole_line sd (sd_print sd (sd_meta_to sd meta)) \<and> parse_meta sd (sd_print sd (sd_meta_to sd meta)) = Inr meta)"

definition special_keys :: "string set" where
  "special_keys = {''_state'', ''_append'', ''_meta'', ''_custom'', ''entry_type''}"

definition stores_message :: "serde \<Rightarrow> agent_message \<Rightarrow> bool" where
  "stores_message sd m =
     (case m of
        Llm llm \<Rightarrow> whole_line sd (sd_print sd (sd_llm_to sd llm))
          \<and> sd_parse sd (sd_print sd (sd_llm_to sd llm)) = Inr (sd_llm_to sd llm) \<and> sd_llm_of sd (sd_llm_to sd llm) = Inr llm
          \<and> (\<forall>k \<in> special_keys. json_get (sd_llm_to sd llm) k = None)
      | Custom c \<Rightarrow>
         (case serialize_custom_message c of
            Some (JObject kvs) \<Rightarrow>
              let v = JObject (hm_insert ''_custom'' (JBool True) kvs) in whole_line sd (sd_print sd v) \<and> sd_parse sd (sd_print sd v) = Inr v
          | _ \<Rightarrow> True))"

definition stores_state :: "serde \<Rightarrow> json \<Rightarrow> bool" where
  "stores_state sd state =
     (whole_line sd (to_json_line sd (RecState state)) \<and> sd_parse sd (to_json_line sd (RecState state)) = Inr (record_json sd (RecState state)))"

lemma scan_plains_kept:
  "\<forall>l \<in> set ls. plain_line sd l \<and> valid_utf8 l \<Longrightarrow> fold (scan_line sd sid) ls (m, r, None) = (m, r @ ls, None)"
  by (induction ls arbitrary: r) (auto simp: scan_plain)

lemma keepable_strip: "lenient sd \<Longrightarrow> keepable sd l \<Longrightarrow> keepable sd (strip_cr l)"
proof -
  have "line_like (strip_cr l)" if "line_like l" using that by (auto simp: line_like_def strip_cr_def dest: in_set_butlastD)
  then show "lenient sd \<Longrightarrow> keepable sd l \<Longrightarrow> keepable sd (strip_cr l)" by (simp add: keepable_def plain_strip utf8_strip)
qed

lemma written_settled:
  assumes "lenient sd" "stores_meta sd meta" "\<forall>l \<in> set ls. keepable sd l"
  shows "settled sd sid (meta_line sd meta n @ unlines ls) (canonical_meta sid meta) (map strip_cr ls)"
proof -
  let ?fl = "sd_print sd (sd_meta_to sd meta) @ replicate n blank"
  have fl: "line_like ?fl \<and> valid_utf8 ?fl \<and> strip_cr ?fl = ?fl \<and> parse_meta sd ?fl = Inr meta"
    using assms(2) by (intro pad_ok[OF assms(1)]) (simp_all add: stores_meta_def)
  have "list_all line_like ls" using assms(3) by (auto simp: list_all_iff keepable_def)
  from raw_lines_unlines[OF this, of "[]"] have lines: "raw_lines (unlines ls) = map strip_cr ls" by simp
  have "\<forall>l \<in> set (map strip_cr ls). plain_line sd l \<and> valid_utf8 l"
    using keepable_strip[OF assms(1)] assms(3) by (auto simp: keepable_def)
  from scan_plains_kept[OF this] have "fold (scan_line sd sid) (raw_lines (unlines ls)) (canonical_meta sid meta, [], None)
      = (canonical_meta sid meta, map strip_cr ls, None)" by (simp add: lines)
  with fl show ?thesis unfolding settled_def meta_line_def by (intro exI[of _ ?fl] exI[of _ "unlines ls"]) auto
qed

text \<open>The lines that reading a file yields can be written again.\<close>

lemma read_keepable:
  assumes "read_meta_and_message_lines sd sid f = Inr (meta, ls)" "l \<in> set ls"
  shows "keepable sd l"
proof -
  obtain bytes fl rest m where f: "raw_lines bytes = fl # rest"
    "fst (snd (fold (scan_line sd sid) rest (canonical_meta sid m, [], None))) = ls"
  proof -
    from assms(1) obtain bytes where b: "(case raw_lines bytes of [] \<Rightarrow> Inl empty_file
       | meta_bytes # rest \<Rightarrow>
           if \<not> valid_utf8 meta_bytes then Inl (invalid_meta (sd_utf8_error sd meta_bytes))
           else rbind (parse_meta sd meta_bytes) (\<lambda>m.
             case fold (scan_line sd sid) rest (canonical_meta sid m, [], None) of
               (meta, remaining, _) \<Rightarrow> Inr (meta, remaining))) = Inr (meta, ls)"
      unfolding read_meta_and_message_lines_def rbind_Inr_iff by blast
    then obtain fl rest where r: "raw_lines bytes = fl # rest" by (cases "raw_lines bytes") auto
    with b obtain m where "(case fold (scan_line sd sid) rest (canonical_meta sid m, [], None) of (meta, remaining, _) \<Rightarrow> Inr (meta, remaining))
        = (Inr (meta, ls) :: (io_error, session_meta \<times> string list) result)"
      by (auto simp: rbind_Inr_iff split: if_splits)
    then show thesis by (intro that[OF r, of m]) (simp split: prod.splits)
  qed
  obtain m' p' where "fold (scan_line sd sid) rest (canonical_meta sid m, [], None) = (m', ls, p')"
    using f(2) by (cases "fold (scan_line sd sid) rest (canonical_meta sid m, [], None)") auto
  moreover have "\<forall>l \<in> set rest. line_like l" using raw_lines_like[of _ bytes] f(1) by simp
  ultimately show ?thesis using scan_keeps[of rest "[]" sd None] assms(2) by fastforce
qed

text \<open>Each written message is loaded as what survives of it.\<close>

lemma classified_to_messages_append:
  "classified_lines_to_messages sd registry (xs @ ys) = classified_lines_to_messages sd registry xs @ classified_lines_to_messages sd registry ys"
  by (simp add: classified_lines_to_messages_def filter_Some_map)

lemma custom_json_get:
  assumes "serialize_custom_message c = Some envelope"
  obtains kvs where "envelope = JObject kvs" "fst ` set kvs = {''type'', ''data''}"
    "\<forall>k. k \<noteq> ''_custom'' \<longrightarrow> json_get (JObject (hm_insert ''_custom'' (JBool True) kvs)) k = json_get envelope k"
    "json_get (JObject (hm_insert ''_custom'' (JBool True) kvs)) ''_custom'' = Some (JBool True)"
  using assms by (auto simp: serialize_custom_message_def update_conv split: option.splits)

lemma record_of_plain: "\<forall>k \<in> special_keys. json_get v k = None \<Longrightarrow> sd_llm_of sd v = Inr m \<Longrightarrow> record_of sd v = Inr (RecLlm m)"
  by (simp add: record_of_def marked_def special_keys_def other_def)

lemma written_message:
  assumes "stores_message sd m"
  shows "case map_option (to_json_line sd) (record_from_message sd m) of
      None \<Rightarrow> survivor registry m = None
    | Some l \<Rightarrow> whole_line sd l \<and> plain_line sd l
        \<and> (\<exists>v. sd_parse sd l = Inr v \<and> json_get v ''_state'' = None)
        \<and> (\<exists>c. classify_line sd l = Inr c
            \<and> classified_lines_to_messages sd registry [c] = (case survivor registry m of None \<Rightarrow> [] | Some x \<Rightarrow> [x]))"
proof (cases m)
  case (Llm llm)
  let ?v = "sd_llm_to sd llm"
  have v: "sd_parse sd (sd_print sd ?v) = Inr ?v" "sd_llm_of sd ?v = Inr llm" "\<forall>k \<in> special_keys. json_get ?v k = None"
    "whole_line sd (sd_print sd ?v)"
    using assms Llm by (simp_all add: stores_message_def)
  have rec: "record_parse sd (sd_print sd ?v) = Inr (RecLlm llm)"
    using v record_of_plain[OF v(3,2)] by (simp add: record_parse_def other_def)
  then have "record_from_message sd m = Some (RecLlm llm)"
    by (simp add: Llm record_from_message_def encode_jsonl_message_line_def)
  moreover have "classify_line sd (sd_print sd ?v) = Inr (ClEntry (EMessage llm))"
    using v by (simp add: classify_line_Inr entry_parse_Inr marked_def special_keys_def)
  ultimately show ?thesis using v rec
    by (auto simp: to_json_line_def Llm plain_line_def classified_lines_to_messages_def List.map_filter_simps special_keys_def)
next
  case (Custom c)
  show ?thesis
  proof (cases "serialize_custom_message c")
    case None
    with Custom show ?thesis by (simp add: record_from_message_def encode_jsonl_message_line_def)
  next
    case (Some envelope)
    then obtain kvs where f: "envelope = JObject kvs" "fst ` set kvs = {''type'', ''data''}"
      "\<forall>k. k \<noteq> ''_custom'' \<longrightarrow> json_get (JObject (hm_insert ''_custom'' (JBool True) kvs)) k = json_get envelope k"
      "json_get (JObject (hm_insert ''_custom'' (JBool True) kvs)) ''_custom'' = Some (JBool True)"
      by (rule custom_json_get)
    let ?v = "JObject (hm_insert ''_custom'' (JBool True) kvs)"
    have v: "sd_parse sd (sd_print sd ?v) = Inr ?v" "whole_line sd (sd_print sd ?v)"
      using assms Custom Some f(1) by (simp_all add: stores_message_def Let_def)
    have absent: "json_get envelope k = None" if "k \<notin> {''type'', ''data''}" for k
      using f(1,2) that by (simp add: map_of_eq_None_iff)
    have keys: "json_get ?v ''_state'' = None" "json_get ?v ''_append'' = None" "json_get ?v ''_meta'' = None"
      using spec[OF f(3), of "''_state''"] spec[OF f(3), of "''_append''"] spec[OF f(3), of "''_meta''"]
        absent[of "''_state''"] absent[of "''_append''"] absent[of "''_meta''"] by auto
    note [simp del] = json_get.simps
    have rec: "record_parse sd (sd_print sd ?v) = Inr (RecCustom ?v)"
      using v keys f(4) by (simp add: record_parse_def other_def record_of_def marked_def)
    then have "record_from_message sd m = Some (RecCustom ?v)"
      by (simp add: Custom Some f(1) record_from_message_def encode_jsonl_message_line_def)
    moreover have "classify_line sd (sd_print sd ?v) = Inr (ClCustom ?v)"
      using v keys f(4) by (simp add: classify_line_Inr marked_def)
    moreover have "deserialize_custom_message reg ?v = deserialize_custom_message reg envelope" for reg
      using spec[OF f(3), of "''type''"] spec[OF f(3), of "''data''"] by (simp add: deserialize_custom_message_def)
    then have "custom_envelope_to_message sd ?v registry = other (rbind (restore_single_custom registry envelope) (\<lambda>c. Inr (map_option Custom c)))"
      using v(1) keys f(4)
      by (simp add: custom_envelope_to_message_def decode_jsonl_message_line_def other_def marked_def restore_single_custom_def split: option.splits sum.splits)
    ultimately show ?thesis using v rec keys
      by (auto simp: to_json_line_def Custom Some plain_line_def classified_lines_to_messages_def List.map_filter_simps other_def
          restore_single_custom_def revive_def split: option.splits sum.splits)
  qed
qed


section \<open>Loading without migrations\<close>

lemma weave_same: "weave_slots cs (entries_of cs) = cs"
proof (induction cs)
  case (Cons c cs)
  then show ?case by (cases c) (simp_all add: entries_of_def List.map_filter_simps)
qed (simp add: entries_of_def List.map_filter_simps)

lemma classify_current:
  assumes "mt_version meta = CURRENT_VERSION"
  shows "classify_and_migrate sd migrators meta ls = Some (Inr (meta, classified_of sd ls))"
  using assms weave_same[of "classified_of sd ls"]
  by (simp add: classify_and_migrate_def Let_def run_migrations_def migrate_loop.simps[of _ meta] weave_migrated_entries_def)

definition file_messages :: "serde \<Rightarrow> custom_message_registry option \<Rightarrow> string list \<Rightarrow> agent_message list" where
  "file_messages sd registry ls = classified_lines_to_messages sd registry (classified_of sd ls)"

lemma file_messages_append: "file_messages sd registry (xs @ ys) = file_messages sd registry xs @ file_messages sd registry ys"
  by (simp add: file_messages_def classified_of_append classified_to_messages_append)

lemma file_messages_strip: "lenient sd \<Longrightarrow> file_messages sd registry (map strip_cr (filter (\<lambda>l. l \<noteq> []) ls)) = file_messages sd registry ls"
  by (simp add: file_messages_def classified_of_strip)

lemma file_messages_Nil [simp]: "file_messages sd registry [] = []"
  by (simp add: file_messages_def classified_of_concat classified_lines_to_messages_def List.map_filter_simps)

lemma settled_load:
  assumes "settled sd sid bytes meta ls" "mt_version meta = CURRENT_VERSION"
  shows "load_file sd migrators sid registry (Some bytes) = Some (Inr (meta, file_messages sd registry ls))"
  using settled_read[OF assms(1)] classify_current[OF assms(2)] by (simp add: load_file_def file_messages_def)

lemma message_lines_Cons:
  "message_lines sd (m # ms) = (case map_option (to_json_line sd) (record_from_message sd m) of None \<Rightarrow> [] | Some l \<Rightarrow> [l]) @ message_lines sd ms"
  by (cases "record_from_message sd m") (simp_all add: message_lines_def List.map_filter_simps)

lemma message_lines_load:
  assumes "lenient sd" "\<forall>m \<in> set ms. stores_message sd m"
  shows "file_messages sd registry (message_lines sd ms) = List.map_filter (survivor registry) ms"
    and "\<forall>l \<in> set (message_lines sd ms). whole_line sd l \<and> plain_line sd l \<and> (\<exists>v. sd_parse sd l = Inr v \<and> json_get v ''_state'' = None)"
proof -
  have "file_messages sd registry (message_lines sd ms) = List.map_filter (survivor registry) ms
    \<and> (\<forall>l \<in> set (message_lines sd ms). whole_line sd l \<and> plain_line sd l \<and> (\<exists>v. sd_parse sd l = Inr v \<and> json_get v ''_state'' = None))"
    using assms(2)
  proof (induction ms)
    case Nil
    show ?case by (simp add: message_lines_def List.map_filter_simps)
  next
    case (Cons m ms)
    note w = written_message[of sd m registry]
    have ih: "file_messages sd registry (message_lines sd ms) = List.map_filter (survivor registry) ms"
      "\<forall>l \<in> set (message_lines sd ms). whole_line sd l \<and> plain_line sd l \<and> (\<exists>v. sd_parse sd l = Inr v \<and> json_get v ''_state'' = None)"
      using Cons by auto
    show ?case
    proof (cases "map_option (to_json_line sd) (record_from_message sd m)")
      case None
      with w ih Cons.prems show ?thesis by (simp add: message_lines_Cons List.map_filter_simps)
    next
      case (Some l)
      with w Cons.prems obtain c v where l: "whole_line sd l" "plain_line sd l" "sd_parse sd l = Inr v" "json_get v ''_state'' = None"
        "classify_line sd l = Inr c" "classified_lines_to_messages sd registry [c] = (case survivor registry m of None \<Rightarrow> [] | Some x \<Rightarrow> [x])"
        by auto
      have "str_trim l \<noteq> []" using l(3) assms(1) unfolding lenient_def by blast
      then have "file_messages sd registry [l] = classified_lines_to_messages sd registry [c]"
        using l(5) by (simp add: file_messages_def classified_of_concat classified_line_def)
      then show ?thesis using ih l Some file_messages_append[of sd registry "[l]" "message_lines sd ms"]
        by (cases "survivor registry m") (auto simp: message_lines_Cons List.map_filter_simps)
    qed
  qed
  then show "file_messages sd registry (message_lines sd ms) = List.map_filter (survivor registry) ms"
    "\<forall>l \<in> set (message_lines sd ms). whole_line sd l \<and> plain_line sd l \<and> (\<exists>v. sd_parse sd l = Inr v \<and> json_get v ''_state'' = None)"
    by auto
qed

lemma whole_keepable: "lenient sd \<Longrightarrow> whole_line sd l \<Longrightarrow> plain_line sd l \<Longrightarrow> keepable sd l"
  by (simp add: whole_line_def keepable_def)

section \<open>Preserved lines\<close>

text \<open>A line marked both as metadata and as a custom message is read as the one or the other.\<close>

definition well_marked :: "serde \<Rightarrow> string \<Rightarrow> bool" where
  "well_marked sd l = (case sd_parse sd l of Inr v \<Rightarrow> \<not> (marked v ''_meta'' \<and> marked v ''_custom'') | Inl _ \<Rightarrow> True)"

definition well_marked_session :: "serde \<Rightarrow> string \<Rightarrow> string option \<Rightarrow> bool" where
  "well_marked_session sd sid bytes = (case read_meta_and_message_lines sd sid bytes of Inr (_, ls) \<Rightarrow> list_all (well_marked sd) ls | Inl _ \<Rightarrow> True)"

lemma preserved_plain: "preserve_for_message_save sd l \<Longrightarrow> plain_line sd l"
  by (auto simp: preserve_for_message_save_def plain_line_def split: sum.splits session_record.splits)

lemma preserved_no_messages:
  assumes "preserve_for_message_save sd l" "well_marked sd l"
  shows "file_messages sd registry [l] = []"
proof -
  have "classified_lines_to_messages sd registry [c] = []" if c: "classify_line sd l = Inr c" for c
  proof -
    from c obtain v where v: "sd_parse sd l = Inr v"
      "if marked v ''_state'' then c = ClState else if marked v ''_custom'' then c = ClCustom v else (\<exists>e. entry_parse sd l = Inr e \<and> c = ClEntry e)"
      unfolding classify_line_Inr by blast
    have rec: "record_parse sd l = record_of sd v" using v(1) by (simp add: record_parse_def other_def)
    show ?thesis
    proof (cases "marked v ''_state''")
      case True
      with v(2) show ?thesis by (simp add: classified_lines_to_messages_def List.map_filter_simps)
    next
      case False
      have "\<not> marked v ''_custom''"
      proof
        assume "marked v ''_custom''"
        with False assms v(1) rec show False
          by (auto simp: preserve_for_message_save_def record_of_def well_marked_def split: if_splits)
      qed
      with v(2) False obtain e where e: "entry_parse sd l = Inr e" "c = ClEntry e" by auto
      have "\<forall>m. e \<noteq> EMessage m"
        using assms(1) False e(1) rec \<open>\<not> marked v ''_custom''\<close>
        by (auto simp: preserve_for_message_save_def record_of_def rbind_Inr_iff split: sum.splits if_splits session_record.splits)
      with e(2) show ?thesis by (cases e) (auto simp: classified_lines_to_messages_def List.map_filter_simps)
    qed
  qed
  then show ?thesis
    by (cases "classify_line sd l")
      (simp_all add: file_messages_def classified_of_concat classified_line_def classified_lines_to_messages_def List.map_filter_simps)
qed

lemma preserved_messages:
  "\<forall>l \<in> set ls. preserve_for_message_save sd l \<and> well_marked sd l \<Longrightarrow> file_messages sd registry ls = []"
proof (induction ls)
  case (Cons l ls)
  then show ?case using preserved_no_messages[of sd l registry] file_messages_append[of sd registry "[l]" ls] by simp
qed simp

lemma preserve_existing:
  assumes "preserve_existing_lines sd bytes sid P = Inr ls" "l \<in> set ls"
  shows "keepable sd l \<and> P l \<and> (well_marked_session sd sid bytes \<longrightarrow> well_marked sd l)"
  using assms read_keepable by (auto simp: preserve_existing_lines_def rbind_Inr_iff well_marked_session_def list_all_iff split: option.splits)


section \<open>State lines\<close>

lemma state_line_iff: "parse_state_line sd sid l = Inr (Some v) \<longleftrightarrow> record_parse sd l = Inr (RecState v)"
  by (cases "sd_parse sd l")
    (auto simp: parse_state_line_def record_parse_def record_of_def other_def marked_def rbind_Inr_iff split: option.splits if_splits)

lemma state_line_none: "sd_parse sd l = Inr v \<Longrightarrow> json_get v ''_state'' = None \<Longrightarrow> parse_state_line sd sid l = Inr None"
  by (simp add: parse_state_line_def)

lemma strip_cr_cases: obtains "strip_cr l = l" | "l = strip_cr l @ [cr]"
  by (cases "l \<noteq> [] \<and> List.last l = cr") (auto simp: strip_cr_def, metis append_butlast_last_id)

lemma contains_strip: "str_contains (strip_cr l) p \<Longrightarrow> str_contains l p"
  by (cases rule: strip_cr_cases[of l]) (metis str_contains_append_right)+

lemma state_line_strip: "lenient sd \<Longrightarrow> parse_state_line sd sid l = Inr x \<Longrightarrow> parse_state_line sd sid (strip_cr l) = Inr x"
proof -
  assume a: "lenient sd" "parse_state_line sd sid l = Inr x"
  show ?thesis
  proof (cases "sd_parse sd l")
    case (Inr v)
    with lenient_cr[OF a(1), of l v] a(2) show ?thesis by (simp add: parse_state_line_def)
  next
    case (Inl e)
    with lenient_cr[OF a(1), of l] obtain e' where "sd_parse sd (strip_cr l) = Inl e'" by (cases "sd_parse sd (strip_cr l)") auto
    with Inl a(2) contains_strip[of l] show ?thesis by (auto simp: parse_state_line_def split: if_splits)
  qed
qed

lemma extract_strip: "lenient sd \<Longrightarrow> extract_state_from_lines sd sid ls = Inr st \<Longrightarrow> extract_state_from_lines sd sid (map strip_cr ls) = Inr st"
proof (induction ls)
  case (Cons l ls)
  then obtain x where x: "parse_state_line sd sid l = Inr x" by (auto simp: rbind_Inr_iff)
  with Cons state_line_strip[OF Cons.prems(1) x] show ?case by (auto split: option.splits)
qed simp

lemma extract_filter:
  assumes "\<And>l v. record_parse sd l = Inr (RecState v) \<Longrightarrow> P l"
  shows "extract_state_from_lines sd sid ls = Inr st \<Longrightarrow> extract_state_from_lines sd sid (filter P ls) = Inr st"
proof (induction ls)
  case (Cons l ls)
  then obtain x where x: "parse_state_line sd sid l = Inr x" by (auto simp: rbind_Inr_iff)
  with Cons show ?case
  proof (cases x)
    case (Some v)
    then have "P l" using x assms state_line_iff by fast
    with Cons.prems x Some show ?thesis by auto
  qed (use Cons x in auto)
qed simp

lemma extract_append_none:
  "\<forall>l \<in> set xs. parse_state_line sd sid l = Inr None \<Longrightarrow> extract_state_from_lines sd sid (xs @ ys) = extract_state_from_lines sd sid ys"
  by (induction xs) auto

lemma state_record: "stores_state sd state \<Longrightarrow> record_parse sd (to_json_line sd (RecState state)) = Inr (RecState state)"
  by (simp add: stores_state_def record_parse_def other_def record_of_def marked_def json_data_def)

lemma extract_upsert:
  "stores_state sd state \<Longrightarrow> extract_state_from_lines sd sid ls = Inr st \<Longrightarrow>
     extract_state_from_lines sd sid (upsert_state_line sd state ls) = Inr (Some state)"
proof (induction ls)
  case Nil
  then show ?case using state_line_iff[of sd sid "to_json_line sd (RecState state)" state] by (simp add: state_record)
next
  case (Cons l ls)
  then obtain x where x: "parse_state_line sd sid l = Inr x" by (auto simp: rbind_Inr_iff)
  show ?case
  proof (cases "\<exists>v. record_parse sd l = Inr (RecState v)")
    case True
    then show ?thesis using state_line_iff[of sd sid "to_json_line sd (RecState state)" state] by (auto simp: state_record[OF Cons.prems(1)])
  next
    case False
    then have "x = None" using x state_line_iff by (metis option.exhaust)
    then show ?thesis using Cons x False by (auto split: sum.splits session_record.splits)
  qed
qed

lemma set_upsert: "l \<in> set (upsert_state_line sd state ls) \<Longrightarrow> l \<in> set ls \<or> l = to_json_line sd (RecState state)"
  by (induction ls) (auto split: sum.splits session_record.splits)

lemma state_line_stored:
  assumes "lenient sd" "stores_state sd state"
  shows "keepable sd (to_json_line sd (RecState state)) \<and> preserve_for_message_save sd (to_json_line sd (RecState state))
    \<and> well_marked sd (to_json_line sd (RecState state))"
proof -
  have "plain_line sd (to_json_line sd (RecState state))" using state_record[OF assms(2)] by (simp add: plain_line_def)
  then show ?thesis using assms whole_keepable state_record[OF assms(2)]
    by (auto simp: stores_state_def preserve_for_message_save_def well_marked_def marked_def)
qed


section \<open>Saves\<close>

lemma bumped_simps [simp]:
  "mt_id (bumped sid now meta) = sid" "mt_sequence (bumped sid now meta) = mt_sequence meta + 1"
  "mt_version (bumped sid now meta) = mt_version meta" "canonical_meta sid (bumped sid now meta) = bumped sid now meta"
  by (simp_all add: bumped_def canonical_meta_def)

lemma canonical_same: "mt_id meta = sid \<Longrightarrow> canonical_meta sid meta = meta"
  by (cases meta) (simp add: canonical_meta_def)

lemma sessions_put [simp]: "hm_get (js_sessions (put_session sid bytes s)) k = (if k = sid then Some bytes else hm_get (js_sessions s) k)"
  "js_interrupts (put_session sid bytes s) = js_interrupts s" "js_migrators (put_session sid bytes s) = js_migrators s"
  by (simp_all add: put_session_def update_conv)

text \<open>The lines of a file written by a message save.\<close>

definition saved_lines :: "serde \<Rightarrow> agent_message list \<Rightarrow> string list \<Rightarrow> string list" where
  "saved_lines sd ms preserved = message_lines sd ms @ map strip_cr (filter (\<lambda>l. l \<noteq> []) preserved)"

lemma saved_settled:
  assumes "lenient sd" "stores_meta sd meta" "mt_id meta = sid" "\<forall>m \<in> set ms. stores_message sd m" "\<forall>l \<in> set preserved. keepable sd l"
  shows "settled sd sid (write_messages_with_preserved_lines sd meta ms preserved) meta (saved_lines sd ms preserved)"
proof -
  have msgs: "\<forall>l \<in> set (message_lines sd ms). whole_line sd l \<and> plain_line sd l" using message_lines_load(2)[OF assms(1,4)] by blast
  then have "map strip_cr (message_lines sd ms) = message_lines sd ms" using map_strip_whole by blast
  moreover have "\<forall>l \<in> set (message_lines sd ms @ filter (\<lambda>l. l \<noteq> []) preserved). keepable sd l"
    using msgs assms(5) whole_keepable[OF assms(1)] by auto
  ultimately show ?thesis
    using written_settled[OF assms(1,2), of "message_lines sd ms @ filter (\<lambda>l. l \<noteq> []) preserved" sid META_LINE_PADDING] assms(3)
    by (simp add: write_messages_with_preserved_lines_def nonempty_lines_def saved_lines_def canonical_same)
qed

lemma saved_messages:
  assumes "lenient sd" "\<forall>m \<in> set ms. stores_message sd m" "\<forall>l \<in> set preserved. preserve_for_message_save sd l \<and> well_marked sd l"
  shows "file_messages sd registry (saved_lines sd ms preserved) = List.map_filter (survivor registry) ms"
  using message_lines_load(1)[OF assms(1,2)] preserved_messages[OF assms(3)]
  by (simp add: saved_lines_def file_messages_append file_messages_strip[OF assms(1)])

lemma saved_state:
  assumes "lenient sd" "\<forall>m \<in> set ms. stores_message sd m" "extract_state_from_lines sd sid preserved = Inr st"
  shows "extract_state_from_lines sd sid (saved_lines sd ms preserved) = Inr st"
proof -
  have "\<forall>l \<in> set (message_lines sd ms). parse_state_line sd sid l = Inr None"
    using message_lines_load(2)[OF assms(1,2)] state_line_none by blast
  moreover have "extract_state_from_lines sd sid (filter (\<lambda>l. l \<noteq> []) preserved) = Inr st"
    by (rule extract_filter[OF _ assms(3)]) (use lenient_Nil[OF assms(1)] in \<open>auto simp: record_parse_Inr\<close>)
  ultimately show ?thesis
    using extract_strip[OF assms(1)] by (simp add: saved_lines_def extract_append_none)
qed

lemma preserved_extract:
  assumes "preserve_existing_lines sd bytes sid (preserve_for_message_save sd) = Inr preserved"
    "bytes = None \<or> rbind (read_meta_and_message_lines sd sid bytes) (\<lambda>(_, ls). extract_state_from_lines sd sid ls) = Inr st"
    "bytes = None \<longrightarrow> st = None"
  shows "extract_state_from_lines sd sid preserved = Inr st"
  using assms extract_filter[of sd "preserve_for_message_save sd" sid]
  by (auto simp: preserve_existing_lines_def rbind_Inr_iff preserve_for_message_save_def split: option.splits)

text \<open>A save that succeeds has read the old file and written the new one.\<close>

lemma preserved_state:
  assumes "validate_session_id (se_debug env) sid = Inr ()" "js_load_state env sid s = Inr st"
    "preserve_existing_lines (se_serde env) (hm_get (js_sessions s) sid) sid (preserve_for_message_save (se_serde env)) = Inr preserved"
  shows "extract_state_from_lines (se_serde env) sid preserved = Inr st"
proof (rule preserved_extract[OF assms(3)])
  show "hm_get (js_sessions s) sid = None \<or> rbind (read_meta_and_message_lines (se_serde env) sid (hm_get (js_sessions s) sid))
      (\<lambda>(_, ls). extract_state_from_lines (se_serde env) sid ls) = Inr st"
    using assms(1,2) by (cases "hm_get (js_sessions s) sid") (simp_all add: js_load_state_def)
  show "hm_get (js_sessions s) sid = None \<longrightarrow> st = None" using assms(1,2) by (auto simp: js_load_state_def)
qed

lemma js_save_Inr:
  assumes "js_save env now sid meta ms s = (Inr u, s')"
  obtains preserved where "validate_session_id (se_debug env) sid = Inr ()"
    "preserve_existing_lines (se_serde env) (hm_get (js_sessions s) sid) sid (preserve_for_message_save (se_serde env)) = Inr preserved"
    "s' = put_session sid (write_messages_with_preserved_lines (se_serde env) (bumped sid now meta) ms preserved) s"
  using assms by (auto simp: js_save_def Let_def rbind_Inr_iff split: sum.splits)

lemma js_save_full_Inr:
  assumes "js_save_full env now sid meta ms state s = (Inr meta', s')"
  obtains preserved where "validate_session_id (se_debug env) sid = Inr ()" "meta' = bumped sid now meta"
    "preserve_existing_lines (se_serde env) (hm_get (js_sessions s) sid) sid (preserve_for_message_save (se_serde env)) = Inr preserved"
    "s' = put_session sid (write_messages_with_preserved_lines (se_serde env) meta' ms (upsert_state_line (se_serde env) state preserved)) s"
  using assms by (auto simp: js_save_full_def Let_def rbind_Inr_iff split: sum.splits)

lemma settled_load_full:
  assumes "validate_session_id (se_debug env) sid = Inr ()" "hm_get (js_sessions s) sid = Some bytes"
    "settled (se_serde env) sid bytes meta ls" "mt_version meta = CURRENT_VERSION"
    "extract_state_from_lines (se_serde env) sid ls = Inr st"
  shows "js_load_full env sid registry s = Some (Inr (meta, file_messages (se_serde env) registry ls, st))"
  using settled_read[OF assms(3)] classify_current[OF assms(4)] assms by (simp add: js_load_full_def Let_def file_messages_def)



text \<open>
  A message save replaces the messages and nothing else. After a successful save, loading
  returns the saved messages in order, without the custom ones that cannot be serialized or
  revived; the stored state is the one that was there before, and no other session changes.
\<close>

theorem message_save_roundtrip:
  assumes "lenient (se_serde env)" "stores_meta (se_serde env) (bumped sid now meta)"
    "\<forall>m \<in> set ms. stores_message (se_serde env) m"
    "well_marked_session (se_serde env) sid (hm_get (js_sessions s) sid)" "js_load_state env sid s = Inr st"
    "mt_version meta = CURRENT_VERSION" "js_save env now sid meta ms s = (Inr (), s')"
  shows "js_load env sid registry s' = Some (Inr (bumped sid now meta, List.map_filter (survivor registry) ms))
    \<and> js_load_state env sid s' = Inr st \<and> (\<forall>k. k \<noteq> sid \<longrightarrow> hm_get (js_sessions s') k = hm_get (js_sessions s) k)"
proof -
  let ?sd = "se_serde env" and ?m = "bumped sid now meta"
  obtain preserved where w: "validate_session_id (se_debug env) sid = Inr ()"
    "preserve_existing_lines ?sd (hm_get (js_sessions s) sid) sid (preserve_for_message_save ?sd) = Inr preserved"
    "s' = put_session sid (write_messages_with_preserved_lines ?sd ?m ms preserved) s"
    by (rule js_save_Inr[OF assms(7)])
  have ok: "keepable ?sd l \<and> preserve_for_message_save ?sd l \<and> well_marked ?sd l" if "l \<in> set preserved" for l
    using preserve_existing[OF w(2) that] assms(4) by auto
  from preserved_state[OF w(1) assms(5) w(2)]
  have st: "extract_state_from_lines ?sd sid (saved_lines ?sd ms preserved) = Inr st" by (rule saved_state[OF assms(1,3)])
  have settled: "settled ?sd sid (write_messages_with_preserved_lines ?sd ?m ms preserved) ?m (saved_lines ?sd ms preserved)"
    using ok by (intro saved_settled assms(1,2,3)) auto
  have "js_load env sid registry s' = Some (Inr (?m, List.map_filter (survivor registry) ms))"
    using settled_load[OF settled, of "js_migrators s'" registry] saved_messages[OF assms(1,3), of preserved registry] ok assms(6) w(1,3)
    by (simp add: js_load_def)
  moreover have "js_load_state env sid s' = Inr st"
    using settled_read[OF settled] st w(1,3) by (simp add: js_load_state_def)
  ultimately show ?thesis using w(3) by simp
qed

section \<open>Stale writers\<close>

lemma stale_check:
  assumes "lenient sd" "settled sd sid bytes stored ls" "n \<noteq> mt_sequence stored"
  shows "check_sequence sd (Some bytes) sid n = Inl (sequence_conflict sid n (mt_sequence stored))"
  using assms settled_meta(1)[OF assms(1,2)] by (simp add: check_sequence_def)

text \<open>The four operations that check the sequence number.\<close>

datatype checked_write =
    WSave session_meta "agent_message list"
  | WSaveFull session_meta "agent_message list" json
  | WSaveEntries session_meta "session_entry list"
  | WAppendEntries session_meta "session_entry list"

fun write_meta :: "checked_write \<Rightarrow> session_meta" where
  "write_meta (WSave m _) = m"
| "write_meta (WSaveFull m _ _) = m"
| "write_meta (WSaveEntries m _) = m"
| "write_meta (WAppendEntries m _) = m"

definition forget :: "(io_error, 'a) result \<Rightarrow> (io_error, unit) result" where
  "forget r = rbind r (\<lambda>_. Inr ())"

fun js_write :: "store_env \<Rightarrow> int \<Rightarrow> string \<Rightarrow> checked_write \<Rightarrow> jsonl_store \<Rightarrow> (io_error, unit) result \<times> jsonl_store" where
  "js_write env now sid (WSave m ms) s = js_save env now sid m ms s"
| "js_write env now sid (WSaveFull m ms state) s = (let (r, s') = js_save_full env now sid m ms state s in (forget r, s'))"
| "js_write env now sid (WSaveEntries m es) s = js_save_entries env now sid m es s"
| "js_write env now sid (WAppendEntries m es) s = (let (r, s') = js_append_entries env now sid m es s in (forget r, s'))"

lemma refused_write:
  assumes "validate_session_id (se_debug env) sid = Inr ()" "check_sequence (se_serde env) (hm_get (js_sessions s) sid) sid (mt_sequence (write_meta w)) = Inl e"
  shows "js_write env now sid w s = (Inl e, s)"
  using assms by (cases w) (simp_all add: js_save_def js_save_full_def js_save_entries_def js_append_entries_def Let_def forget_def)

text \<open>
  Optimistic concurrency. Once a message save with a sequence number has succeeded, every write
  whose sequence number is not the successor, in particular a second write from the same metadata,
  is refused with a conflict that names both numbers, and leaves the store as it is, whichever of
  the four writing operations it is.
\<close>

theorem stale_write_refused:
  assumes "lenient (se_serde env)" "stores_meta (se_serde env) (bumped sid now meta)" "\<forall>m \<in> set ms. stores_message (se_serde env) m"
    "js_save env now sid meta ms s = (Inr (), s')" "mt_sequence (write_meta w) \<noteq> mt_sequence meta + 1"
  shows "js_write env later sid w s' = (Inl (sequence_conflict sid (mt_sequence (write_meta w)) (mt_sequence meta + 1)), s')"
proof -
  let ?sd = "se_serde env" and ?m = "bumped sid now meta"
  obtain preserved where p: "validate_session_id (se_debug env) sid = Inr ()"
    "preserve_existing_lines ?sd (hm_get (js_sessions s) sid) sid (preserve_for_message_save ?sd) = Inr preserved"
    "s' = put_session sid (write_messages_with_preserved_lines ?sd ?m ms preserved) s"
    by (rule js_save_Inr[OF assms(4)])
  have "settled ?sd sid (write_messages_with_preserved_lines ?sd ?m ms preserved) ?m (saved_lines ?sd ms preserved)"
    using preserve_existing[OF p(2)] by (intro saved_settled assms(1,2,3)) auto
  from stale_check[OF assms(1) this, of "mt_sequence (write_meta w)"] assms(5) p(3)
  have "check_sequence ?sd (hm_get (js_sessions s') sid) sid (mt_sequence (write_meta w))
      = Inl (sequence_conflict sid (mt_sequence (write_meta w)) (mt_sequence meta + 1))" by simp
  from refused_write[where w = w, OF p(1) this] show ?thesis .
qed


section \<open>Appends\<close>

text \<open>What serde promises of the records around an append.\<close>

definition stores_commit :: "serde \<Rightarrow> session_meta \<Rightarrow> bool" where
  "stores_commit sd meta =
     (stores_meta sd meta
      \<and> whole_line sd (to_json_line sd RecAppendBegin) \<and> record_parse sd (to_json_line sd RecAppendBegin) = Inr RecAppendBegin
      \<and> whole_line sd (to_json_line sd (RecMeta meta)) \<and> record_parse sd (to_json_line sd (RecMeta meta)) = Inr (RecMeta meta))"

lemma commit_appendable:
  "lenient sd \<Longrightarrow> stores_commit sd meta \<Longrightarrow> \<forall>l \<in> set recs. whole_line sd l \<and> plain_line sd l \<Longrightarrow> appendable sd meta recs"
  by (auto simp: appendable_def stores_commit_def stores_meta_def)

text \<open>In place or by rewriting, an append extends the lines of a settled file.\<close>

lemma append_settled:
  assumes "settled sd sid bytes old ls" "lenient sd" "stores_commit sd meta" "mt_id meta = sid"
    "\<forall>l \<in> set recs. whole_line sd l \<and> plain_line sd l" "line_len = length (first_line bytes)"
  obtains bytes' ls' where "append_or_rewrite sd sid meta line_len recs bytes = Inr bytes'" "settled sd sid bytes' meta ls'"
    "ls' = ls @ kept_records recs \<or> ls' = map strip_cr (filter (\<lambda>l. l \<noteq> []) (ls @ recs))"
proof (cases "append_records_in_place sd meta line_len recs bytes")
  case None
  have keep: "\<forall>l \<in> set (filter (\<lambda>l. l \<noteq> []) (ls @ recs)). keepable sd l"
    using settled_keepable[OF assms(1)] whole_keepable[OF assms(2)] assms(5) by auto
  have "stores_meta sd meta" using assms(3) by (simp add: stores_commit_def)
  from written_settled[OF assms(2) this keep, of sid META_LINE_PADDING]
  have "settled sd sid (rewrite_session_file sd meta (ls @ recs)) meta (map strip_cr (filter (\<lambda>l. l \<noteq> []) (ls @ recs)))"
    by (simp add: rewrite_session_file_def nonempty_lines_def canonical_same[OF assms(4)])
  moreover have "append_or_rewrite sd sid meta line_len recs bytes = Inr (rewrite_session_file sd meta (ls @ recs))"
    using None settled_read[OF assms(1)] by (simp add: append_or_rewrite_def)
  ultimately show ?thesis using that by blast
next
  case (Some bytes')
  let ?p = "sd_print sd (sd_meta_to sd meta)"
  from Some have len: "length ?p < line_len" and b: "bytes' = overwrite (meta_patch ?p line_len) (bytes @ append_tail sd meta recs)"
    by (auto simp: append_records_in_place_def Let_def split: if_splits)
  have "length (meta_patch ?p line_len) = line_len" using len by (simp add: meta_patch_def)
  then have "settled sd sid bytes' meta (ls @ kept_records recs)"
    using read_patched(2)[OF assms(1) commit_appendable[OF assms(2,3,5)] assms(6) len order_refl] b by (simp add: canonical_same[OF assms(4)])
  moreover have "append_or_rewrite sd sid meta line_len recs bytes = Inr bytes'" using Some by (simp add: append_or_rewrite_def)
  ultimately show ?thesis using that by blast
qed

lemma file_messages_kept: "lenient sd \<Longrightarrow> file_messages sd registry (kept_records ls) = file_messages sd registry ls"
proof (induction ls)
  case (Cons l ls)
  have "file_messages sd registry [[]] = []"
    using lenient_Nil[OF Cons.prems]
    by (simp add: file_messages_def classified_of_concat classified_line_def str_trim_empty_iff classified_lines_to_messages_def List.map_filter_simps)
  with Cons show ?case using file_messages_append[of sd registry "[l]" ls] file_messages_append[of sd registry "[l]" "kept_records ls"]
    by (cases "l = []") (simp_all add: kept_records_def)
qed (simp add: kept_records_def)

definition appended_meta :: "int \<Rightarrow> session_meta \<Rightarrow> session_meta" where
  "appended_meta now meta = meta\<lparr>mt_updated_at := now, mt_sequence := mt_sequence meta + 1\<rparr>"

lemma js_append_settled:
  assumes "lenient (se_serde env)" "validate_session_id (se_debug env) sid = Inr ()" "hm_get (js_sessions s) sid = Some bytes"
    "settled (se_serde env) sid bytes meta ls" "\<forall>m \<in> set ms. stores_message (se_serde env) m"
    "stores_commit (se_serde env) (appended_meta now meta)"
  obtains bytes' ls' where "js_append env now sid ms s = (Inr (), put_session sid bytes' s)"
    "settled (se_serde env) sid bytes' (appended_meta now meta) ls'"
    "\<And>registry. file_messages (se_serde env) registry ls' = file_messages (se_serde env) registry ls @ List.map_filter (survivor registry) ms"
proof -
  let ?sd = "se_serde env" and ?recs = "message_lines (se_serde env) ms"
  have lines: "\<forall>l \<in> set ?recs. whole_line ?sd l \<and> plain_line ?sd l" using message_lines_load(2)[OF assms(1,5)] by blast
  have sid: "mt_id (appended_meta now meta) = sid" using settled_meta(2)[OF assms(1,4)] by (simp add: appended_meta_def)
  obtain bytes' ls' where a: "append_or_rewrite ?sd sid (appended_meta now meta) (length (first_line bytes)) ?recs bytes = Inr bytes'"
    "settled ?sd sid bytes' (appended_meta now meta) ls'"
    "ls' = ls @ kept_records ?recs \<or> ls' = map strip_cr (filter (\<lambda>l. l \<noteq> []) (ls @ ?recs))"
    by (rule append_settled[OF assms(4,1,6) sid lines refl])
  have "js_append env now sid ms s = (Inr (), put_session sid bytes' s)"
    using assms(2,3) settled_meta(1)[OF assms(1,4)] a(1) by (simp add: js_append_def Let_def appended_meta_def)
  moreover have "file_messages ?sd registry ls' = file_messages ?sd registry ls @ List.map_filter (survivor registry) ms" for registry
    using a(3) message_lines_load(1)[OF assms(1,5)]
    by (auto simp: file_messages_append file_messages_kept[OF assms(1)] file_messages_strip[OF assms(1)])
  ultimately show ?thesis using that a(2) by blast
qed

text \<open>
  C18. An append extends the session. On a settled file it always succeeds, whether the new metadata
  fits over the old first line or the file has to be rewritten; loading then returns the messages
  loaded before followed by the appended ones, and the sequence number has grown by one.
\<close>

theorem append_extends:
  assumes "lenient (se_serde env)" "validate_session_id (se_debug env) sid = Inr ()" "hm_get (js_sessions s) sid = Some bytes"
    "settled (se_serde env) sid bytes meta ls" "mt_version meta = CURRENT_VERSION" "\<forall>m \<in> set ms. stores_message (se_serde env) m"
    "stores_commit (se_serde env) (appended_meta now meta)"
  shows "\<exists>s' old. js_append env now sid ms s = (Inr (), s')
    \<and> js_load env sid registry s = Some (Inr (meta, old))
    \<and> js_load env sid registry s' = Some (Inr (appended_meta now meta, old @ List.map_filter (survivor registry) ms))
    \<and> (\<forall>k. k \<noteq> sid \<longrightarrow> hm_get (js_sessions s') k = hm_get (js_sessions s) k)"
proof -
  obtain bytes' ls' where a: "js_append env now sid ms s = (Inr (), put_session sid bytes' s)"
    "settled (se_serde env) sid bytes' (appended_meta now meta) ls'"
    "file_messages (se_serde env) registry ls' = file_messages (se_serde env) registry ls @ List.map_filter (survivor registry) ms"
    by (rule js_append_settled[OF assms(1-4,6,7)]) blast
  have "js_load env sid registry s = Some (Inr (meta, file_messages (se_serde env) registry ls))"
    using settled_load[OF assms(4,5)] assms(2,3) by (simp add: js_load_def)
  moreover have "js_load env sid registry (put_session sid bytes' s) = Some (Inr (appended_meta now meta, file_messages (se_serde env) registry ls'))"
    using settled_load[OF a(2)] assms(2,5) by (simp add: js_load_def appended_meta_def)
  ultimately show ?thesis using a(1,3) by (intro exI[of _ "put_session sid bytes' s"] exI[of _ "file_messages (se_serde env) registry ls"]) simp
qed


section \<open>The store over time\<close>

datatype store_op =
    SWrite int string checked_write
  | SAppend int string "agent_message list"
  | SSaveState int string json
  | SDelete string
  | SSaveInterrupt string interrupt_state
  | SClearInterrupt string

fun js_op :: "store_env \<Rightarrow> store_op \<Rightarrow> jsonl_store \<Rightarrow> (io_error, unit) result \<times> jsonl_store" where
  "js_op env (SWrite now sid w) s = js_write env now sid w s"
| "js_op env (SAppend now sid ms) s = js_append env now sid ms s"
| "js_op env (SSaveState now sid state) s = js_save_state env now sid state s"
| "js_op env (SDelete sid) s = js_delete env sid s"
| "js_op env (SSaveInterrupt sid i) s = js_save_interrupt env sid i s"
| "js_op env (SClearInterrupt sid) s = js_clear_interrupt env sid s"

text \<open>What serde promises of the values an operation writes.\<close>

definition stores_entry :: "serde \<Rightarrow> session_entry \<Rightarrow> bool" where
  "stores_entry sd e = (whole_line sd (sd_print sd (sd_entry_to sd e)) \<and> plain_line sd (sd_print sd (sd_entry_to sd e)))"

fun stores_write :: "serde \<Rightarrow> session_meta \<Rightarrow> checked_write \<Rightarrow> bool" where
  "stores_write sd meta (WSave _ ms) = (stores_meta sd meta \<and> (\<forall>m \<in> set ms. stores_message sd m))"
| "stores_write sd meta (WSaveFull _ ms state) = (stores_meta sd meta \<and> (\<forall>m \<in> set ms. stores_message sd m) \<and> stores_state sd state)"
| "stores_write sd meta (WSaveEntries _ es) = (stores_meta sd meta \<and> (\<forall>e \<in> set es. stores_entry sd e))"
| "stores_write sd meta (WAppendEntries _ es) = (stores_commit sd meta \<and> (\<forall>e \<in> set es. stores_entry sd e))"

definition stored_meta :: "serde \<Rightarrow> string \<Rightarrow> jsonl_store \<Rightarrow> session_meta option" where
  "stored_meta sd sid s = (case read_meta_with_line_len sd sid (hm_get (js_sessions s) sid) of Inr (meta, _) \<Rightarrow> Some meta | Inl _ \<Rightarrow> None)"

fun stores_op :: "serde \<Rightarrow> jsonl_store \<Rightarrow> store_op \<Rightarrow> bool" where
  "stores_op sd s (SWrite now sid w) = stores_write sd (bumped sid now (write_meta w)) w"
| "stores_op sd s (SAppend now sid ms) =
     ((\<forall>m \<in> set ms. stores_message sd m) \<and> (case stored_meta sd sid s of Some meta \<Rightarrow> stores_commit sd (appended_meta now meta) | None \<Rightarrow> True))"
| "stores_op sd s (SSaveState now sid state) =
     (stores_state sd state \<and> (case stored_meta sd sid s of Some meta \<Rightarrow> stores_meta sd (appended_meta now meta) | None \<Rightarrow> True))"
| "stores_op sd s _ = True"

inductive js_reachable :: "store_env \<Rightarrow> jsonl_store \<Rightarrow> bool" for env where
  fresh: "js_reachable env jsonl_new"
| migrating: "js_reachable env s \<Longrightarrow> js_reachable env (with_migrators migrators s)"
| operation: "js_reachable env s \<Longrightarrow> stores_op (se_serde env) s op \<Longrightarrow> js_reachable env (snd (js_op env op s))"

definition store_ok :: "store_env \<Rightarrow> jsonl_store \<Rightarrow> bool" where
  "store_ok env s =
     ((\<forall>sid bytes. hm_get (js_sessions s) sid = Some bytes \<longrightarrow>
         validate_session_id (se_debug env) sid = Inr () \<and> (\<exists>meta ls. settled (se_serde env) sid bytes meta ls))
      \<and> (\<forall>sid. hm_get (js_interrupts s) sid \<noteq> None \<longrightarrow> hm_get (js_sessions s) sid \<noteq> None))"

lemma store_ok_put:
  assumes "store_ok env s" "validate_session_id (se_debug env) sid = Inr ()" "settled (se_serde env) sid bytes meta ls"
  shows "store_ok env (put_session sid bytes s)"
  using assms unfolding store_ok_def by auto

lemma store_ok_settled:
  "store_ok env s \<Longrightarrow> hm_get (js_sessions s) sid = Some bytes \<Longrightarrow> \<exists>meta ls. settled (se_serde env) sid bytes meta ls"
  by (auto simp: store_ok_def)

lemma save_ok:
  assumes "lenient (se_serde env)" "store_ok env s" "stores_meta (se_serde env) (bumped sid now meta)" "\<forall>m \<in> set ms. stores_message (se_serde env) m"
  shows "store_ok env (snd (js_save env now sid meta ms s))"
proof (cases "js_save env now sid meta ms s")
  case (Pair r s')
  show ?thesis
  proof (cases r)
    case (Inl e)
    with Pair assms(2) show ?thesis by (auto simp: js_save_def Let_def split: sum.splits)
  next
    case (Inr u)
    then obtain preserved where p: "validate_session_id (se_debug env) sid = Inr ()"
      "preserve_existing_lines (se_serde env) (hm_get (js_sessions s) sid) sid (preserve_for_message_save (se_serde env)) = Inr preserved"
      "s' = put_session sid (write_messages_with_preserved_lines (se_serde env) (bumped sid now meta) ms preserved) s"
      using js_save_Inr[of env now sid meta ms s u s'] Pair by blast
    from saved_settled[OF assms(1,3) _ assms(4), of sid preserved] preserve_existing[OF p(2)]
    show ?thesis using store_ok_put[OF assms(2) p(1)] Pair p(3) by simp
  qed
qed

lemma save_full_ok:
  assumes "lenient (se_serde env)" "store_ok env s" "stores_meta (se_serde env) (bumped sid now meta)"
    "\<forall>m \<in> set ms. stores_message (se_serde env) m" "stores_state (se_serde env) state"
  shows "store_ok env (snd (js_save_full env now sid meta ms state s))"
proof (cases "js_save_full env now sid meta ms state s")
  case (Pair r s')
  show ?thesis
  proof (cases r)
    case (Inl e)
    with Pair assms(2) show ?thesis by (auto simp: js_save_full_def Let_def split: sum.splits)
  next
    case (Inr u)
    let ?sd = "se_serde env"
    obtain preserved where p: "validate_session_id (se_debug env) sid = Inr ()" "u = bumped sid now meta"
      "preserve_existing_lines ?sd (hm_get (js_sessions s) sid) sid (preserve_for_message_save ?sd) = Inr preserved"
      "s' = put_session sid (write_messages_with_preserved_lines ?sd u ms (upsert_state_line ?sd state preserved)) s"
      using js_save_full_Inr[of env now sid meta ms state s u s'] Pair Inr by blast
    have "\<forall>l \<in> set (upsert_state_line ?sd state preserved). keepable ?sd l"
      using set_upsert preserve_existing[OF p(3)] state_line_stored[OF assms(1,5)] by fast
    from saved_settled[OF assms(1,3) _ assms(4) this, of sid] show ?thesis using store_ok_put[OF assms(2) p(1)] Pair p(2,4) by simp
  qed
qed

lemma entry_lines_ok:
  "\<forall>e \<in> set es. stores_entry sd e \<Longrightarrow> \<forall>l \<in> set (map (\<lambda>e. sd_print sd (sd_entry_to sd e)) es). whole_line sd l \<and> plain_line sd l"
  by (auto simp: stores_entry_def)

lemma save_entries_ok:
  assumes "lenient (se_serde env)" "store_ok env s" "stores_meta (se_serde env) (bumped sid now meta)" "\<forall>e \<in> set es. stores_entry (se_serde env) e"
  shows "store_ok env (snd (js_save_entries env now sid meta es s))"
proof (cases "js_save_entries env now sid meta es s")
  case (Pair r s')
  show ?thesis
  proof (cases r)
    case (Inl e)
    with Pair assms(2) show ?thesis by (auto simp: js_save_entries_def Let_def split: sum.splits)
  next
    case (Inr u)
    let ?sd = "se_serde env"
    let ?lines = "map (\<lambda>e. sd_print ?sd (sd_entry_to ?sd e)) es"
    from Pair Inr obtain preserved where p: "validate_session_id (se_debug env) sid = Inr ()"
      "preserve_existing_lines ?sd (hm_get (js_sessions s) sid) sid (preserve_for_entry_save ?sd) = Inr preserved"
      "s' = put_session sid (meta_line ?sd (bumped sid now meta) 0 @ unlines ?lines @ nonempty_lines preserved) s"
      by (auto simp: js_save_entries_def Let_def rbind_Inr_iff split: sum.splits)
    have "\<forall>l \<in> set (?lines @ filter (\<lambda>l. l \<noteq> []) preserved). keepable ?sd l"
      using entry_lines_ok[OF assms(4)] whole_keepable[OF assms(1)] preserve_existing[OF p(2)] by auto
    from written_settled[OF assms(1,3) this, of sid 0]
    have "\<exists>ls. settled ?sd sid (meta_line ?sd (bumped sid now meta) 0 @ unlines ?lines @ nonempty_lines preserved) (bumped sid now meta) ls"
      by (auto simp: nonempty_lines_def)
    then show ?thesis using store_ok_put[OF assms(2) p(1)] Pair p(3) by auto
  qed
qed


lemma stored_settled:
  "lenient sd \<Longrightarrow> settled sd sid bytes meta ls \<Longrightarrow> hm_get (js_sessions s) sid = Some bytes \<Longrightarrow> stored_meta sd sid s = Some meta"
  using settled_meta(1)[of sd sid bytes meta ls] by (simp add: stored_meta_def)

lemma append_ok:
  assumes "lenient (se_serde env)" "store_ok env s" "\<forall>m \<in> set ms. stores_message (se_serde env) m"
    "\<And>meta. stored_meta (se_serde env) sid s = Some meta \<Longrightarrow> stores_commit (se_serde env) (appended_meta now meta)"
  shows "store_ok env (snd (js_append env now sid ms s))"
proof (cases "hm_get (js_sessions s) sid")
  case None
  with assms(2) show ?thesis
    by (cases "validate_session_id (se_debug env) sid")
      (simp_all add: js_append_def Let_def read_meta_with_line_len_def open_session_file_def)
next
  case (Some bytes)
  then obtain meta ls where m: "validate_session_id (se_debug env) sid = Inr ()" "settled (se_serde env) sid bytes meta ls"
    using assms(2) unfolding store_ok_def by blast
  obtain bytes' ls' where "js_append env now sid ms s = (Inr (), put_session sid bytes' s)"
    "settled (se_serde env) sid bytes' (appended_meta now meta) ls'"
    using js_append_settled[OF assms(1) m(1) Some m(2) assms(3) assms(4)[OF stored_settled[OF assms(1) m(2) Some]]] by metis
  with store_ok_put[OF assms(2) m(1)] show ?thesis by simp
qed

lemma append_entries_ok:
  assumes "lenient (se_serde env)" "store_ok env s" "stores_commit (se_serde env) (bumped sid now meta)" "\<forall>e \<in> set es. stores_entry (se_serde env) e"
  shows "store_ok env (snd (js_append_entries env now sid meta es s))"
proof (cases "hm_get (js_sessions s) sid")
  case None
  with assms(2) show ?thesis
    by (cases "validate_session_id (se_debug env) sid")
      (simp_all add: js_append_entries_def Let_def check_sequence_def read_meta_with_line_len_def open_session_file_def)
next
  case (Some bytes)
  then obtain old ls where m: "validate_session_id (se_debug env) sid = Inr ()" "settled (se_serde env) sid bytes old ls"
    using assms(2) unfolding store_ok_def by blast
  obtain bytes' ls' where a: "append_or_rewrite (se_serde env) sid (bumped sid now meta) (length (first_line bytes))
      (map (\<lambda>e. sd_print (se_serde env) (sd_entry_to (se_serde env) e)) es) bytes = Inr bytes'"
    "settled (se_serde env) sid bytes' (bumped sid now meta) ls'"
    by (rule append_settled[OF m(2) assms(1,3) bumped_simps(1) entry_lines_ok[OF assms(4)] refl])
  from store_ok_put[OF assms(2) m(1) a(2)] assms(2) show ?thesis
    using Some m(1) a(1) settled_meta(1)[OF assms(1) m(2)]
    by (cases "check_sequence (se_serde env) (Some bytes) sid (mt_sequence meta)") (simp_all add: js_append_entries_def Let_def)
qed

lemma save_state_ok:
  assumes "lenient (se_serde env)" "store_ok env s" "stores_state (se_serde env) state"
    "\<And>meta. stored_meta (se_serde env) sid s = Some meta \<Longrightarrow> stores_meta (se_serde env) (appended_meta now meta)"
  shows "store_ok env (snd (js_save_state env now sid state s))"
proof (cases "hm_get (js_sessions s) sid")
  case None
  with assms(2) show ?thesis
    by (cases "validate_session_id (se_debug env) sid") (simp_all add: js_save_state_def Let_def)
next
  case (Some bytes)
  let ?sd = "se_serde env"
  obtain meta ls where m: "validate_session_id (se_debug env) sid = Inr ()" "settled ?sd sid bytes meta ls"
    using assms(2) Some unfolding store_ok_def by blast
  have "\<forall>l \<in> set (filter (\<lambda>l. l \<noteq> []) (upsert_state_line ?sd state ls)). keepable ?sd l"
    using set_upsert settled_keepable[OF m(2)] state_line_stored[OF assms(1,3)] by fastforce
  note w = written_settled[OF assms(1) assms(4)[OF stored_settled[OF assms(1) m(2) Some]] this, of sid META_LINE_PADDING]
  have "store_ok env (put_session sid (rewrite_session_file ?sd (appended_meta now meta) (upsert_state_line ?sd state ls)) s)"
    using store_ok_put[OF assms(2) m(1) w] by (simp add: rewrite_session_file_def nonempty_lines_def)
  with Some m(1) settled_read[OF m(2)] show ?thesis by (simp add: js_save_state_def Let_def appended_meta_def)
qed

lemma delete_ok: "store_ok env s \<Longrightarrow> store_ok env (snd (js_delete env sid s))"
  by (auto simp: store_ok_def js_delete_def delete_conv' split: sum.splits)

lemma interrupts_ok:
  "store_ok env s \<Longrightarrow> store_ok env (snd (js_save_interrupt env sid i s))"
  "store_ok env s \<Longrightarrow> store_ok env (snd (js_clear_interrupt env sid s))"
  by (auto simp: store_ok_def js_save_interrupt_def js_clear_interrupt_def delete_conv' update_conv rbind_Inr_iff split: sum.splits if_splits)

lemma write_ok:
  assumes "lenient (se_serde env)" "store_ok env s" "stores_write (se_serde env) (bumped sid now (write_meta w)) w"
  shows "store_ok env (snd (js_write env now sid w s))"
  using assms save_ok save_full_ok save_entries_ok append_entries_ok
  by (cases w) (simp_all add: Let_def case_prod_beta)

lemma op_ok:
  assumes "lenient (se_serde env)" "store_ok env s" "stores_op (se_serde env) s op"
  shows "store_ok env (snd (js_op env op s))"
proof (cases op)
  case (SWrite now sid w)
  with assms write_ok show ?thesis by simp
next
  case (SAppend now sid ms)
  with assms show ?thesis by (auto intro!: append_ok)
next
  case (SSaveState now sid state)
  with assms show ?thesis by (auto intro!: save_state_ok)
qed (use assms delete_ok interrupts_ok in auto)

lemma reachable_ok: "lenient (se_serde env) \<Longrightarrow> js_reachable env s \<Longrightarrow> store_ok env s"
proof (rotate_tac, induction rule: js_reachable.induct)
  case fresh
  show ?case by (simp add: store_ok_def jsonl_new_def)
next
  case (migrating s migrators)
  then show ?case by (simp add: store_ok_def with_migrators_def)
next
  case (operation s op)
  then show ?case using op_ok by blast
qed

text \<open>
  C16. Every file of the store stays readable. Whatever sequence of saves, rich saves, appends, state
  saves, deletions and interrupt operations has been carried out on a fresh store, successful or
  refused, every session of it has a valid id, a first line and a list of lines that are read back
  without an error, both readers of its metadata agree, and every stored interrupt belongs to a
  session that exists.
\<close>

theorem store_stays_readable:
  assumes "lenient (se_serde env)" "js_reachable env s"
  shows "(\<forall>sid bytes. hm_get (js_sessions s) sid = Some bytes \<longrightarrow>
        validate_session_id (se_debug env) sid = Inr ()
        \<and> (\<exists>meta ls. read_meta_and_message_lines (se_serde env) sid (Some bytes) = Inr (meta, ls)
            \<and> read_meta_with_line_len (se_serde env) sid (Some bytes) = Inr (meta, length (first_line bytes))))
    \<and> (\<forall>sid. hm_get (js_interrupts s) sid \<noteq> None \<longrightarrow> hm_get (js_sessions s) sid \<noteq> None)"
  using reachable_ok[OF assms] settled_read settled_meta(1)[OF assms(1)] unfolding store_ok_def by blast


section \<open>Witnesses\<close>

definition example_env :: store_env where
  "example_env = \<lparr>se_debug = (\<lambda>sid. sid), se_serde = example_serde\<rparr>"

definition example_text :: "string \<Rightarrow> agent_message" where
  "example_text t = Llm (User \<lparr>um_content = [Text t], um_timestamp = 0, um_cache_hint = None\<rparr>)"

lemma example_env_simps [simp]: "se_serde example_env = example_serde" "validate_session_id (se_debug example_env) ''s'' = Inr ()"
  by (simp_all add: example_env_def validate_session_id_def is_ascii_control_def)

lemma example_bumped: "bumped ''s'' 0 (example_meta 0) = example_meta 1" "bumped ''s'' 0 (example_meta 1) = example_meta 2"
  "appended_meta 0 (example_meta 1) = example_meta 2"
  by (simp_all add: bumped_def appended_meta_def example_meta_def session_meta_new_def)

lemma example_version [simp]: "mt_version (example_meta n) = CURRENT_VERSION" "mt_sequence (example_meta n) = n"
  by (simp_all add: example_meta_def session_meta_new_def CURRENT_VERSION_def)

lemma example_stores_meta: "stores_meta example_serde (example_meta 1)" "stores_commit example_serde (example_meta 2)"
proof -
  have "sd_print example_serde (sd_meta_to example_serde (example_meta 1)) = ''{1}''"
    by (simp add: example_serde_def example_texts_def)
  then show "stores_meta example_serde (example_meta 1)" by (simp add: stores_meta_def example_meta_lines example_whole)
  show "stores_commit example_serde (example_meta 2)"
    by (simp add: stores_commit_def stores_meta_def example_lines example_records example_meta_lines example_whole)
qed

lemma example_stores_message: "stores_message example_serde (example_text ''r'')" "stores_message example_serde (example_text ''s'')"
proof -
  have "sd_llm_to example_serde (User \<lparr>um_content = [Text t], um_timestamp = 0, um_cache_hint = None\<rparr>) = JString t"
    "sd_llm_of example_serde (JString t) = Inr (User \<lparr>um_content = [Text t], um_timestamp = 0, um_cache_hint = None\<rparr>)" for t
    by (simp_all add: example_serde_def)
  moreover have "sd_print example_serde (JString ''r'') = ''{r}''" "sd_print example_serde (JString ''s'') = ''{s}''"
    by (simp_all add: example_serde_def example_texts_def)
  ultimately show "stores_message example_serde (example_text ''r'')" "stores_message example_serde (example_text ''s'')"
    by (simp_all add: stores_message_def example_text_def example_parse example_whole)
qed

lemma example_stores_state: "stores_state example_serde (JNumber 7)"
proof -
  have "to_json_line example_serde (RecState (JNumber 7)) = ''{S}''"
    by (simp add: to_json_line_def example_serde_def example_texts_def)
  then show ?thesis by (simp add: stores_state_def example_parse example_whole)
qed

lemma example_fresh: "hm_get (js_sessions jsonl_new) sid = None" "js_load_state example_env ''s'' jsonl_new = Inr None"
  "well_marked_session example_serde ''s'' None"
  by (simp_all add: jsonl_new_def js_load_state_def well_marked_session_def read_meta_and_message_lines_def open_session_file_def)

lemma example_saves:
  "\<exists>s'. js_save_full example_env 0 ''s'' (example_meta 0) ms state jsonl_new = (Inr (example_meta 1), s')"
  "\<exists>s'. js_save example_env 0 ''s'' (example_meta 0) ms jsonl_new = (Inr (), s')"
  by (simp_all add: js_save_full_def js_save_def Let_def check_sequence_def preserve_existing_lines_def example_bumped example_fresh)


theorem message_save_roundtrip_witness:
  "\<exists>s'. js_save example_env 0 ''s'' (example_meta 0) [example_text ''r''] jsonl_new = (Inr (), s')
    \<and> js_load example_env ''s'' None s' = Some (Inr (example_meta 1, [example_text ''r'']))"
proof -
  obtain s' where s: "js_save example_env 0 ''s'' (example_meta 0) [example_text ''r''] jsonl_new = (Inr (), s')"
    using example_saves(2) by blast
  with message_save_roundtrip [of example_env "''s''" 0 "example_meta 0" "[example_text ''r'']" jsonl_new None s' None]
  show ?thesis
    by (simp add: example_lenient example_bumped example_stores_meta example_stores_message example_fresh List.map_filter_simps)
      (simp add: example_text_def)
qed

theorem stale_write_refused_witness:
  "\<exists>s'. js_save example_env 0 ''s'' (example_meta 0) [example_text ''r''] jsonl_new = (Inr (), s')
    \<and> js_write example_env 5 ''s'' (WAppendEntries (example_meta 0) []) s' = (Inl (sequence_conflict ''s'' 0 1), s')"
proof -
  obtain s' where s: "js_save example_env 0 ''s'' (example_meta 0) [example_text ''r''] jsonl_new = (Inr (), s')"
    using example_saves(2) by blast
  with stale_write_refused [of example_env "''s''" 0 "example_meta 0" "[example_text ''r'']" jsonl_new s' "WAppendEntries (example_meta 0) []" 5]
  show ?thesis by (simp add: example_lenient example_bumped example_stores_meta example_stores_message del: js_write.simps)
qed

theorem append_extends_witness:
  "\<exists>s'. js_append example_env 0 ''s'' [example_text ''r''] (put_session ''s'' (''{1}'' @ [nl]) jsonl_new) = (Inr (), s')
    \<and> js_load example_env ''s'' None s' = Some (Inr (example_meta 2, [example_text ''r'']))"
proof -
  define b where "b = ''{1}'' @ [nl]"
  let ?s = "put_session ''s'' b jsonl_new"
  have b: "settled example_serde ''s'' b (example_meta 1) []" using example_settled by (simp add: b_def)
  have "js_load example_env ''s'' None ?s = Some (Inr (example_meta 1, []))"
    using settled_load[OF b example_version(1), of "js_migrators ?s" None] by (simp add: js_load_def)
  with append_extends [of example_env "''s''" ?s b "example_meta 1" "[]" "[example_text ''r'']" 0 None] b
  show ?thesis unfolding b_def[symmetric]
    by (simp add: example_lenient example_bumped example_stores_meta example_stores_message List.map_filter_simps)
      (auto simp: example_text_def)
qed

theorem store_stays_readable_witness:
  "\<exists>s' bytes. js_save example_env 0 ''s'' (example_meta 0) [example_text ''r''] jsonl_new = (Inr (), s')
    \<and> hm_get (js_sessions s') ''s'' = Some bytes \<and> (\<exists>x. read_meta_and_message_lines example_serde ''s'' (Some bytes) = Inr x)"
proof -
  obtain s' where s: "js_save example_env 0 ''s'' (example_meta 0) [example_text ''r''] jsonl_new = (Inr (), s')"
    using example_saves(2) by blast
  have "js_reachable example_env (snd (js_op example_env (SWrite 0 ''s'' (WSave (example_meta 0) [example_text ''r''])) jsonl_new))"
    by (intro js_reachable.operation js_reachable.fresh) (simp add: example_bumped example_stores_meta example_stores_message)
  then have "js_reachable example_env s'" using s by simp
  moreover obtain bytes where "hm_get (js_sessions s') ''s'' = Some bytes"
    using js_save_Inr[OF s] by (metis sessions_put(1))
  ultimately show ?thesis using store_stays_readable [of example_env s'] s example_lenient by (metis example_env_simps(1))
qed

end
