(* ===== verification/Block_Accumulator.thy ===== *)
theory Block_Accumulator
  imports Stream_Accumulate
begin

text \<open>
  The incremental block accumulator of the streaming adapters
  (\<^verbatim>\<open>src/block_accumulator.rs\<close>), and the contract between it and
  \<^verbatim>\<open>accumulate_message\<close>: as long as an adapter sends only what the accumulator hands
  out, the message accumulation accepts every event.
\<close>

section \<open>State and operations\<close>

datatype open_block =
    OpenText usize
  | OpenThinking usize "string option"
  | OpenToolCall usize

record block_accumulator =
  ba_next_index :: usize
  ba_text_index :: "usize option"
  ba_thinking_index :: "(usize \<times> string option) option"
  ba_open_tool_calls :: "usize list"

definition ba_new :: block_accumulator where
  "ba_new = \<lparr>ba_next_index = 0, ba_text_index = None, ba_thinking_index = None, ba_open_tool_calls = []\<rparr>"

definition alloc_index :: "block_accumulator \<Rightarrow> usize \<times> block_accumulator" where
  "alloc_index b = (ba_next_index b, b\<lparr>ba_next_index := ba_next_index b + 1\<rparr>)"

definition ensure_text_open :: "block_accumulator \<Rightarrow> assistant_message_event list \<times> block_accumulator" where
  "ensure_text_open b =
     (case ba_text_index b of
        None \<Rightarrow> let (idx, b) = alloc_index b in ([TextStart idx], b\<lparr>ba_text_index := Some idx\<rparr>)
      | Some _ \<Rightarrow> ([], b))"

definition close_text :: "block_accumulator \<Rightarrow> assistant_message_event list \<times> block_accumulator" where
  "close_text b =
     (case ba_text_index b of None \<Rightarrow> ([], b) | Some idx \<Rightarrow> ([TextEnd idx], b\<lparr>ba_text_index := None\<rparr>))"

definition text_delta :: "block_accumulator \<Rightarrow> string \<Rightarrow> assistant_message_event list" where
  "text_delta b delta = (case ba_text_index b of None \<Rightarrow> [] | Some idx \<Rightarrow> [TextDelta idx delta])"

definition ensure_thinking_open :: "block_accumulator \<Rightarrow> assistant_message_event list \<times> block_accumulator" where
  "ensure_thinking_open b =
     (case ba_thinking_index b of
        None \<Rightarrow> let (idx, b) = alloc_index b in ([ThinkingStart idx], b\<lparr>ba_thinking_index := Some (idx, None)\<rparr>)
      | Some _ \<Rightarrow> ([], b))"

definition set_thinking_signature :: "string \<Rightarrow> block_accumulator \<Rightarrow> block_accumulator" where
  "set_thinking_signature signature b =
     (case ba_thinking_index b of None \<Rightarrow> b | Some (idx, _) \<Rightarrow> b\<lparr>ba_thinking_index := Some (idx, Some signature)\<rparr>)"

definition close_thinking :: "string option \<Rightarrow> block_accumulator \<Rightarrow> assistant_message_event list \<times> block_accumulator" where
  "close_thinking signature b =
     (case ba_thinking_index b of
        None \<Rightarrow> ([], b)
      | Some (idx, accumulated) \<Rightarrow>
          ([ThinkingEnd idx (case signature of Some s \<Rightarrow> Some s | None \<Rightarrow> accumulated)], b\<lparr>ba_thinking_index := None\<rparr>))"

definition thinking_delta :: "block_accumulator \<Rightarrow> string \<Rightarrow> assistant_message_event list" where
  "thinking_delta b delta = (case ba_thinking_index b of None \<Rightarrow> [] | Some (idx, _) \<Rightarrow> [ThinkingDelta idx delta])"

definition open_tool_call :: "string \<Rightarrow> string \<Rightarrow> block_accumulator \<Rightarrow> usize \<times> assistant_message_event \<times> block_accumulator" where
  "open_tool_call cid name b =
     (let (idx, b) = alloc_index b in (idx, ToolCallStart idx cid name, b\<lparr>ba_open_tool_calls := ba_open_tool_calls b @ [idx]\<rparr>))"

definition close_tool_call :: "usize \<Rightarrow> block_accumulator \<Rightarrow> assistant_message_event list \<times> block_accumulator" where
  "close_tool_call i b =
     (if i \<in> set (ba_open_tool_calls b)
      then ([ToolCallEnd i], b\<lparr>ba_open_tool_calls := remove1 i (ba_open_tool_calls b)\<rparr>) else ([], b))"

fun open_block_index :: "open_block \<Rightarrow> usize" where
  "open_block_index (OpenText i) = i"
| "open_block_index (OpenThinking i _) = i"
| "open_block_index (OpenToolCall i) = i"

definition drain_open_blocks :: "block_accumulator \<Rightarrow> open_block list \<times> block_accumulator" where
  "drain_open_blocks b =
     (sort_key open_block_index
        ((case ba_thinking_index b of Some (i, sig) \<Rightarrow> [OpenThinking i sig] | None \<Rightarrow> [])
         @ (case ba_text_index b of Some i \<Rightarrow> [OpenText i] | None \<Rightarrow> [])
         @ map OpenToolCall (ba_open_tool_calls b)),
      b\<lparr>ba_thinking_index := None, ba_text_index := None, ba_open_tool_calls := []\<rparr>)"

fun end_event :: "open_block \<Rightarrow> assistant_message_event" where
  "end_event (OpenText i) = TextEnd i"
| "end_event (OpenThinking i sig) = ThinkingEnd i sig"
| "end_event (OpenToolCall i) = ToolCallEnd i"

definition finalize_blocks :: "block_accumulator \<Rightarrow> assistant_message_event list \<times> block_accumulator" where
  "finalize_blocks b = (let (blocks, b) = drain_open_blocks b in (map end_event blocks, b))"

section \<open>Accepted events\<close>

text \<open>
  Events are accepted from a state of the accumulation with a postcondition; the one way they may
  fail is a tool call whose arguments are not JSON, which no block structure can prevent.
\<close>

definition arguments_error :: "string \<Rightarrow> bool" where
  "arguments_error e = prefix ''ToolCallEnd: failed to parse arguments JSON: '' e"

definition accepted :: "json_parser \<Rightarrow> bool \<Rightarrow> assistant_message_event list \<Rightarrow> acc \<Rightarrow> (acc \<Rightarrow> bool) \<Rightarrow> bool" where
  "accepted from_str tol es s Q = (case acc_events from_str tol es s of Inr s' \<Rightarrow> Q s' | Inl e \<Rightarrow> arguments_error e)"

lemma accepted_Nil [simp]: "accepted from_str tol [] s Q = Q s"
  by (simp add: accepted_def)

lemma accepted_mono: "accepted from_str tol es s P \<Longrightarrow> (\<And>s'. P s' \<Longrightarrow> Q s') \<Longrightarrow> accepted from_str tol es s Q"
  by (auto simp: accepted_def split: sum.splits)

lemma accepted_append:
  "accepted from_str tol es s P \<Longrightarrow> (\<And>s'. P s' \<Longrightarrow> accepted from_str tol es' s' Q) \<Longrightarrow> accepted from_str tol (es @ es') s Q"
  by (cases "acc_events from_str tol es s") (simp_all add: accepted_def acc_events_append)

lemma accepted_Cons:
  "accepted from_str tol [e] s P \<Longrightarrow> (\<And>s'. P s' \<Longrightarrow> accepted from_str tol es s' Q) \<Longrightarrow> accepted from_str tol (e # es) s Q"
  using accepted_append[of from_str tol "[e]" s P es Q] by simp

text \<open>The accumulation state that the adapter's state stands for.\<close>

fun is_text_block :: "content_block \<Rightarrow> bool" where
  "is_text_block (Text _) = True"
| "is_text_block _ = False"

fun is_pending_call :: "content_block \<Rightarrow> bool" where
  "is_pending_call (ToolCall _ _ _ pj) = (pj \<noteq> None)"
| "is_pending_call _ = False"

definition open_as :: "block_accumulator \<Rightarrow> usize \<Rightarrow> content_block \<Rightarrow> bool" where
  "open_as b i c \<longleftrightarrow> (ba_text_index b = Some i \<longrightarrow> is_text_block c)
     \<and> (map_option fst (ba_thinking_index b) = Some i \<longrightarrow> is_thinking_block c)
     \<and> (i \<in> set (ba_open_tool_calls b) \<longrightarrow> is_pending_call c)"

lemma block_kindE [elim]:
  "is_text_block c \<Longrightarrow> (\<And>t. c = Text t \<Longrightarrow> P) \<Longrightarrow> P"
  "is_thinking_block c \<Longrightarrow> (\<And>t sig. c = Thinking t sig \<Longrightarrow> P) \<Longrightarrow> P"
  "is_pending_call c \<Longrightarrow> (\<And>cid name args pj. c = ToolCall cid name args (Some pj) \<Longrightarrow> P) \<Longrightarrow> P"
  by (cases c; auto)+

definition ba_indices :: "block_accumulator \<Rightarrow> usize set" where
  "ba_indices b = set_option (ba_text_index b) \<union> set_option (map_option fst (ba_thinking_index b)) \<union> set (ba_open_tool_calls b)"

definition ba_tracks :: "block_accumulator \<Rightarrow> acc \<Rightarrow> bool" where
  "ba_tracks b s \<longleftrightarrow> \<not> acc_saw_terminal s \<and> distinct (ba_open_tool_calls b)
     \<and> (\<exists>blocks. acc_content s = Some blocks \<and> length (acc_open s) = length blocks \<and> ba_next_index b = length blocks
         \<and> (\<forall>i < length blocks. acc_open s ! i \<longleftrightarrow> i \<in> ba_indices b)
         \<and> (\<forall>i \<in> ba_indices b. i < length blocks \<and> open_as b i (blocks ! i)))"

lemmas accepted_eval = accepted_def acc_event_def ensure_block_open_def slice_get_def

lemma tracksE:
  assumes "ba_tracks b s"
  obtains blocks where "acc_content s = Some blocks" "length (acc_open s) = length blocks" "ba_next_index b = length blocks"
    "\<forall>i < length blocks. acc_open s ! i \<longleftrightarrow> i \<in> ba_indices b"
    "\<forall>i \<in> ba_indices b. i < length blocks \<and> open_as b i (blocks ! i)"
    "\<not> acc_saw_terminal s" "distinct (ba_open_tool_calls b)"
  using assms by (auto simp: ba_tracks_def)

lemma tracksI:
  assumes "acc_content s = Some blocks" "length (acc_open s) = length blocks" "ba_next_index b = length blocks"
    "\<And>i. i < length blocks \<Longrightarrow> acc_open s ! i \<longleftrightarrow> i \<in> ba_indices b"
    "\<And>i. i \<in> ba_indices b \<Longrightarrow> i < length blocks \<and> open_as b i (blocks ! i)"
    "\<not> acc_saw_terminal s" "distinct (ba_open_tool_calls b)"
  shows "ba_tracks b s"
  using assms by (auto simp: ba_tracks_def)

text \<open>Opening a block, adding to one, and closing one.\<close>

lemma accepted_open:
  assumes "ba_tracks b s" "\<And>s. dispatch_event from_str tol ev s = block_start name (ba_next_index b) blk s"
    "ba_next_index b' = Suc (ba_next_index b)" "ba_indices b' = insert (ba_next_index b) (ba_indices b)"
    "open_as b' (ba_next_index b) blk" "\<And>i c. i \<noteq> ba_next_index b \<Longrightarrow> open_as b i c \<Longrightarrow> open_as b' i c" "distinct (ba_open_tool_calls b')"
  shows "accepted from_str tol [ev] s (ba_tracks b')"
proof -
  obtain blocks where t: "acc_content s = Some blocks" "length (acc_open s) = length blocks" "ba_next_index b = length blocks"
    "\<forall>i < length blocks. acc_open s ! i \<longleftrightarrow> i \<in> ba_indices b"
    "\<forall>i \<in> ba_indices b. i < length blocks \<and> open_as b i (blocks ! i)" "\<not> acc_saw_terminal s"
    by (rule tracksE[OF assms(1)])
  let ?s = "s\<lparr>acc_content := Some (blocks @ [blk]), acc_open := acc_open s @ [True]\<rparr>"
  have "acc_events from_str tol [ev] s = Inr ?s"
    using t by (simp add: acc_event_def assms(2) block_start_def)
  moreover have "ba_tracks b' ?s"
  proof (rule tracksI)
    show "acc_content ?s = Some (blocks @ [blk])" by simp
    show "acc_open ?s ! i = (i \<in> ba_indices b')" if "i < length (blocks @ [blk])" for i
      using that t assms(3,4) by (auto simp: nth_append less_Suc_eq)
    show "i < length (blocks @ [blk]) \<and> open_as b' i ((blocks @ [blk]) ! i)" if "i \<in> ba_indices b'" for i
      using that t(3,5) assms(4,5,6) by (auto simp: nth_append less_Suc_eq)
  qed (use t assms(3,7) in simp_all)
  ultimately show ?thesis by (simp add: accepted_def)
qed

lemma accepted_delta:
  assumes "ba_tracks b s" "i \<in> ba_indices b"
    "\<And>blocks. acc_content s = Some blocks \<Longrightarrow> i < length blocks \<Longrightarrow> open_as b i (blocks ! i) \<Longrightarrow> acc_open s ! i \<Longrightarrow> length (acc_open s) = length blocks
       \<Longrightarrow> \<exists>c. acc_event from_str tol ev s = Inr (put_block i blocks c s) \<and> open_as b i c"
  shows "accepted from_str tol [ev] s (ba_tracks b)"
proof -
  obtain blocks where t: "acc_content s = Some blocks" "length (acc_open s) = length blocks" "ba_next_index b = length blocks"
    "\<forall>i < length blocks. acc_open s ! i \<longleftrightarrow> i \<in> ba_indices b"
    "\<forall>i \<in> ba_indices b. i < length blocks \<and> open_as b i (blocks ! i)" "\<not> acc_saw_terminal s" "distinct (ba_open_tool_calls b)"
    by (rule tracksE[OF assms(1)])
  then obtain c where c: "acc_event from_str tol ev s = Inr (put_block i blocks c s)" "open_as b i c"
    using assms(2) assms(3)[of blocks] by blast
  have i: "i < length blocks" using t(5) assms(2) by blast
  have "ba_tracks b (put_block i blocks c s)"
    by (rule tracksI[where blocks = "blocks[i := c]"]) (use t c(2) i in \<open>auto simp: put_block_def nth_list_update\<close>)
  then show ?thesis using c(1) by (simp add: accepted_def)
qed

lemma accepted_close:
  assumes "ba_tracks b s" "i \<in> ba_indices b" "ba_next_index b' = ba_next_index b" "ba_indices b' = ba_indices b - {i}"
    "\<And>j c. j \<noteq> i \<Longrightarrow> j \<in> ba_indices b \<Longrightarrow> open_as b j c \<Longrightarrow> open_as b' j c" "distinct (ba_open_tool_calls b')"
    "\<And>blocks. acc_content s = Some blocks \<Longrightarrow> i < length blocks \<Longrightarrow> open_as b i (blocks ! i) \<Longrightarrow> acc_open s ! i \<Longrightarrow> length (acc_open s) = length blocks
       \<Longrightarrow> (\<exists>c. acc_event from_str tol ev s = Inr (close_block i (put_block i blocks c s)))
         \<or> (\<exists>e. acc_event from_str tol ev s = Inl e \<and> arguments_error e)"
  shows "accepted from_str tol [ev] s (ba_tracks b')"
proof -
  obtain blocks where t: "acc_content s = Some blocks" "length (acc_open s) = length blocks" "ba_next_index b = length blocks"
    "\<forall>i < length blocks. acc_open s ! i \<longleftrightarrow> i \<in> ba_indices b"
    "\<forall>i \<in> ba_indices b. i < length blocks \<and> open_as b i (blocks ! i)" "\<not> acc_saw_terminal s" "distinct (ba_open_tool_calls b)"
    by (rule tracksE[OF assms(1)])
  have i: "i < length blocks" using t(5) assms(2) by blast
  consider (ok) c where "acc_event from_str tol ev s = Inr (close_block i (put_block i blocks c s))"
    | (err) e where "acc_event from_str tol ev s = Inl e" "arguments_error e"
    using assms(2) assms(7)[of blocks] t by blast
  then show ?thesis
  proof cases
    case ok
    have "ba_tracks b' (close_block i (put_block i blocks c s))"
    proof (rule tracksI[where blocks = "blocks[i := c]"])
      show "acc_open (close_block i (put_block i blocks c s)) ! j = (j \<in> ba_indices b')" if "j < length (blocks[i := c])" for j
        using that t(2,4) assms(2,4) i by (cases "j = i") (auto simp: close_block_def put_block_def)
      show "j < length (blocks[i := c]) \<and> open_as b' j (blocks[i := c] ! j)" if "j \<in> ba_indices b'" for j
        using that t(5) assms(4,5) by auto
    qed (use t assms(3,6) in \<open>simp_all add: close_block_def put_block_def\<close>)
    with ok show ?thesis by (simp add: accepted_def)
  next
    case err
    then show ?thesis by (simp add: accepted_def)
  qed
qed


lemma ba_indices_simps [simp]:
  "ba_indices (b\<lparr>ba_text_index := t\<rparr>) = set_option t \<union> set_option (map_option fst (ba_thinking_index b)) \<union> set (ba_open_tool_calls b)"
  "ba_indices (b\<lparr>ba_thinking_index := h\<rparr>) = set_option (ba_text_index b) \<union> set_option (map_option fst h) \<union> set (ba_open_tool_calls b)"
  "ba_indices (b\<lparr>ba_open_tool_calls := cs\<rparr>) = set_option (ba_text_index b) \<union> set_option (map_option fst (ba_thinking_index b)) \<union> set cs"
  "ba_indices (b\<lparr>ba_next_index := n\<rparr>) = ba_indices b"
  by (simp_all add: ba_indices_def)

lemma next_unused: "ba_tracks b s \<Longrightarrow> ba_next_index b \<notin> ba_indices b"
  by (auto simp: ba_tracks_def)

lemma text_opens:
  assumes "ba_tracks b s"
  shows "accepted from_str tol (fst (ensure_text_open b)) s (ba_tracks (snd (ensure_text_open b)))"
proof (cases "ba_text_index b")
  case None
  let ?b = "b\<lparr>ba_next_index := ba_next_index b + 1, ba_text_index := Some (ba_next_index b)\<rparr>"
  have "accepted from_str tol [TextStart (ba_next_index b)] s (ba_tracks ?b)"
    by (rule accepted_open[OF assms])
       (use None assms next_unused[OF assms] in \<open>auto simp: ba_indices_def ba_tracks_def open_as_def\<close>)
  with None show ?thesis by (simp add: ensure_text_open_def alloc_index_def)
qed (use assms in \<open>simp add: ensure_text_open_def\<close>)

lemma thinking_opens:
  assumes "ba_tracks b s"
  shows "accepted from_str tol (fst (ensure_thinking_open b)) s (ba_tracks (snd (ensure_thinking_open b)))"
proof (cases "ba_thinking_index b")
  case None
  let ?b = "b\<lparr>ba_next_index := ba_next_index b + 1, ba_thinking_index := Some (ba_next_index b, None)\<rparr>"
  have "accepted from_str tol [ThinkingStart (ba_next_index b)] s (ba_tracks ?b)"
    by (rule accepted_open[OF assms])
       (use None assms next_unused[OF assms] in \<open>auto simp: ba_indices_def ba_tracks_def open_as_def\<close>)
  with None show ?thesis by (simp add: ensure_thinking_open_def alloc_index_def)
qed (use assms in \<open>simp add: ensure_thinking_open_def\<close>)

lemma tool_call_opens:
  assumes "ba_tracks b s"
  shows "accepted from_str tol [ToolCallStart (ba_next_index b) cid name] s (ba_tracks (snd (snd (open_tool_call cid name b))))"
  by (rule accepted_open[OF assms])
     (use assms next_unused[OF assms] in \<open>auto simp: open_tool_call_def alloc_index_def ba_indices_def ba_tracks_def open_as_def\<close>)

lemma text_deltas:
  assumes "ba_tracks b s"
  shows "accepted from_str tol (text_delta b d) s (ba_tracks b)"
proof (cases "ba_text_index b")
  case (Some i)
  have "accepted from_str tol [TextDelta i d] s (ba_tracks b)"
  proof (rule accepted_delta[OF assms, of i])
    fix blocks
    assume "acc_content s = Some blocks" "i < length blocks" "open_as b i (blocks ! i)" "acc_open s ! i" "length (acc_open s) = length blocks"
    moreover from calculation Some obtain t where "blocks ! i = Text t" by (auto simp: open_as_def)
    ultimately show "\<exists>c. acc_event from_str tol (TextDelta i d) s = Inr (put_block i blocks c s) \<and> open_as b i c"
      using assms by (auto simp: accepted_eval on_text_delta_def ba_tracks_def open_as_def)
  qed (use Some in \<open>simp add: ba_indices_def\<close>)
  with Some show ?thesis by (simp add: text_delta_def)
qed (use assms in \<open>simp add: text_delta_def\<close>)

lemma thinking_deltas:
  assumes "ba_tracks b s"
  shows "accepted from_str tol (thinking_delta b d) s (ba_tracks b)"
proof (cases "ba_thinking_index b")
  case (Some p)
  obtain i sg where p: "p = (i, sg)" by (cases p)
  have "accepted from_str tol [ThinkingDelta i d] s (ba_tracks b)"
  proof (rule accepted_delta[OF assms, of i])
    fix blocks
    assume "acc_content s = Some blocks" "i < length blocks" "open_as b i (blocks ! i)" "acc_open s ! i" "length (acc_open s) = length blocks"
    moreover from calculation Some p obtain t sg' where "blocks ! i = Thinking t sg'" by (auto simp: open_as_def)
    ultimately show "\<exists>c. acc_event from_str tol (ThinkingDelta i d) s = Inr (put_block i blocks c s) \<and> open_as b i c"
      using assms by (auto simp: accepted_eval on_thinking_delta_def ba_tracks_def open_as_def)
  qed (use Some p in \<open>simp add: ba_indices_def\<close>)
  with Some p show ?thesis by (simp add: thinking_delta_def)
qed (use assms in \<open>simp add: thinking_delta_def\<close>)

lemma tool_call_deltas:
  assumes "ba_tracks b s" "i \<in> set (ba_open_tool_calls b)"
  shows "accepted from_str tol [ToolCallDelta i d] s (ba_tracks b)"
proof (rule accepted_delta[OF assms(1), of i])
  fix blocks
  assume "acc_content s = Some blocks" "i < length blocks" "open_as b i (blocks ! i)" "acc_open s ! i" "length (acc_open s) = length blocks"
  moreover from calculation assms(2) obtain cid name args pj where "blocks ! i = ToolCall cid name args (Some pj)"
    by (auto simp: open_as_def)
  ultimately show "\<exists>c. acc_event from_str tol (ToolCallDelta i d) s = Inr (put_block i blocks c s) \<and> open_as b i c"
    using assms by (auto simp: accepted_eval on_tool_call_delta_def ba_tracks_def open_as_def)
qed (use assms in \<open>simp add: ba_indices_def\<close>)

text \<open>Closing: an end event of the right kind for an open block is accepted.\<close>

definition end_matches :: "block_accumulator \<Rightarrow> usize \<Rightarrow> assistant_message_event \<Rightarrow> bool" where
  "end_matches b i ev \<longleftrightarrow> (ev = TextEnd i \<and> ba_text_index b = Some i)
     \<or> (\<exists>sg. ev = ThinkingEnd i sg \<and> map_option fst (ba_thinking_index b) = Some i)
     \<or> (ev = ToolCallEnd i \<and> i \<in> set (ba_open_tool_calls b))"

lemma end_accepted:
  assumes "ba_tracks b s" "end_matches b i ev" "ba_next_index b' = ba_next_index b" "ba_indices b' = ba_indices b - {i}"
    "\<And>j c. j \<noteq> i \<Longrightarrow> open_as b j c \<Longrightarrow> open_as b' j c" "distinct (ba_open_tool_calls b')"
  shows "accepted from_str tol [ev] s (ba_tracks b')"
proof (rule accepted_close[OF assms(1) _ assms(3,4) _ assms(6)])
  show "i \<in> ba_indices b" using assms(2) by (auto simp: end_matches_def ba_indices_def)
  fix blocks
  assume bl: "acc_content s = Some blocks" "i < length blocks" "open_as b i (blocks ! i)" "acc_open s ! i" "length (acc_open s) = length blocks"
  have t: "\<not> acc_saw_terminal s" using assms(1) by (simp add: ba_tracks_def)
  consider "ev = TextEnd i" "is_text_block (blocks ! i)" | sg where "ev = ThinkingEnd i sg" "is_thinking_block (blocks ! i)"
    | "ev = ToolCallEnd i" "is_pending_call (blocks ! i)"
    using assms(2) bl(3) by (auto simp: end_matches_def open_as_def)
  then show "(\<exists>c. acc_event from_str tol ev s = Inr (close_block i (put_block i blocks c s)))
         \<or> (\<exists>e. acc_event from_str tol ev s = Inl e \<and> arguments_error e)"
  proof cases
    case 1
    have "put_block i blocks (blocks ! i) s = s" using bl by (simp add: put_block_def)
    moreover obtain x where "blocks ! i = Text x" using 1 by blast
    moreover from this have "acc_event from_str tol ev s = Inr (close_block i s)"
      using 1 bl t by (simp add: accepted_eval on_text_end_def)
    ultimately show ?thesis by metis
  next
    case (2 sg)
    then obtain t sg' where "blocks ! i = Thinking t sg'" by (cases "blocks ! i") auto
    with 2 bl t have "acc_event from_str tol ev s = Inr (close_block i (put_block i blocks (Thinking t sg) s))"
      by (simp add: accepted_eval on_thinking_end_def)
    then show ?thesis by metis
  next
    case 3
    then obtain cid name args pj where "blocks ! i = ToolCall cid name args (Some pj)" by blast
    with 3 bl t have "acc_event from_str tol ev s = rbind (finish_arguments from_str tol args pj) (\<lambda>(args, pj).
           Inr (close_block i (put_block i blocks (ToolCall cid name args pj) s)))"
      by (simp add: accepted_eval on_tool_call_end_def)
    then show ?thesis
      by (auto simp: finish_arguments_def arguments_error_def split: sum.splits)
  qed
qed (use assms(5) in auto)

lemma tracks_signature [simp]: "ba_tracks (set_thinking_signature sg b) = ba_tracks b"
  by (rule ext, cases "ba_thinking_index b")
     (auto simp: set_thinking_signature_def ba_tracks_def open_as_def ba_indices_def split: prod.splits)

text \<open>What is left of the accumulator when only the blocks of \<open>I\<close> are still open.\<close>

definition keep_open :: "usize set \<Rightarrow> block_accumulator \<Rightarrow> block_accumulator" where
  "keep_open I b = b\<lparr>ba_text_index := (case ba_text_index b of Some i \<Rightarrow> if i \<in> I then Some i else None | None \<Rightarrow> None),
     ba_thinking_index := (case ba_thinking_index b of Some p \<Rightarrow> if fst p \<in> I then Some p else None | None \<Rightarrow> None),
     ba_open_tool_calls := filter (\<lambda>i. i \<in> I) (ba_open_tool_calls b)\<rparr>"

lemma keep_open_indices: "ba_indices (keep_open I b) = ba_indices b \<inter> I"
  by (auto simp: keep_open_def ba_indices_def split: option.splits)

lemma keep_open_all: "ba_indices b \<subseteq> I \<Longrightarrow> keep_open I b = b"
  by (cases b) (auto simp: keep_open_def ba_indices_def filter_id_conv split: option.splits)

lemma close_one:
  assumes "ba_tracks (keep_open I b) s" "i \<in> I" "end_matches b i ev" "distinct (ba_open_tool_calls b)"
  shows "accepted from_str tol [ev] s (ba_tracks (keep_open (I - {i}) b))"
proof (rule end_accepted[OF assms(1)])
  show "end_matches (keep_open I b) i ev"
    using assms(2,3) by (auto simp: end_matches_def keep_open_def)
  show "open_as (keep_open (I - {i}) b) j c" if "open_as (keep_open I b) j c" for j c
    using that by (cases "ba_text_index b"; cases "ba_thinking_index b") (auto simp: open_as_def keep_open_def split: if_splits)
  show "ba_indices (keep_open (I - {i}) b) = ba_indices (keep_open I b) - {i}"
    by (auto simp: keep_open_indices)
qed (use assms(4) in \<open>simp_all add: keep_open_def\<close>)

lemma close_many:
  assumes "ba_tracks (keep_open (set (map fst ps) \<union> J) b) s" "\<forall>(i, ev) \<in> set ps. end_matches b i ev" "distinct (map fst ps)"
    "set (map fst ps) \<inter> J = {}" "distinct (ba_open_tool_calls b)"
  shows "accepted from_str tol (map snd ps) s (ba_tracks (keep_open J b))"
  using assms
proof (induction ps arbitrary: s)
  case (Cons p ps)
  obtain i ev where p: "p = (i, ev)" by (cases p)
  let ?I = "set (map fst (p # ps)) \<union> J"
  have "accepted from_str tol [ev] s (ba_tracks (keep_open (?I - {i}) b))"
    by (rule close_one) (use Cons.prems p in auto)
  moreover have "?I - {i} = set (map fst ps) \<union> J" using Cons.prems(3,4) p by auto
  ultimately have "accepted from_str tol [ev] s (ba_tracks (keep_open (set (map fst ps) \<union> J) b))" by simp
  then have "accepted from_str tol (ev # map snd ps) s (ba_tracks (keep_open J b))"
    by (rule accepted_Cons) (rule Cons.IH, use Cons.prems p in auto)
  then show ?case by (simp add: p)
qed simp

lemma tracks_distinct: "ba_tracks b s \<Longrightarrow> distinct (ba_open_tool_calls b)"
  by (simp add: ba_tracks_def)

text \<open>No index is open in two roles.\<close>

lemma roles_disjoint:
  assumes "ba_tracks b s"
  shows "ba_text_index b = Some i \<Longrightarrow> map_option fst (ba_thinking_index b) \<noteq> Some i"
    "ba_text_index b = Some i \<Longrightarrow> i \<notin> set (ba_open_tool_calls b)"
    "map_option fst (ba_thinking_index b) = Some i \<Longrightarrow> i \<notin> set (ba_open_tool_calls b)"
proof -
  obtain blocks where bl: "\<forall>i \<in> ba_indices b. open_as b i (blocks ! i)" using assms by (auto simp: ba_tracks_def)
  show "map_option fst (ba_thinking_index b) \<noteq> Some i" if "ba_text_index b = Some i"
  proof
    assume "map_option fst (ba_thinking_index b) = Some i"
    with that bl show False by (cases "blocks ! i") (auto simp: open_as_def ba_indices_def dest!: bspec[of _ _ i])
  qed
  show "i \<notin> set (ba_open_tool_calls b)" if "ba_text_index b = Some i"
  proof
    assume "i \<in> set (ba_open_tool_calls b)"
    with that bl show False by (cases "blocks ! i") (auto simp: open_as_def ba_indices_def dest!: bspec[of _ _ i])
  qed
  show "i \<notin> set (ba_open_tool_calls b)" if "map_option fst (ba_thinking_index b) = Some i"
  proof
    assume "i \<in> set (ba_open_tool_calls b)"
    with that bl show False by (cases "blocks ! i") (auto simp: open_as_def ba_indices_def dest!: bspec[of _ _ i])
  qed
qed

lemma text_closes:
  assumes "ba_tracks b s"
  shows "accepted from_str tol (fst (close_text b)) s (ba_tracks (snd (close_text b)))"
proof (cases "ba_text_index b")
  case (Some i)
  have "accepted from_str tol [TextEnd i] s (ba_tracks (b\<lparr>ba_text_index := None\<rparr>))"
    by (rule end_accepted[OF assms, of i])
       (use assms Some roles_disjoint(1,2)[OF assms Some] in \<open>auto simp: end_matches_def ba_indices_def open_as_def tracks_distinct\<close>)
  with Some show ?thesis by (simp add: close_text_def)
qed (use assms in \<open>simp add: close_text_def\<close>)

lemma thinking_closes:
  assumes "ba_tracks b s"
  shows "accepted from_str tol (fst (close_thinking sg b)) s (ba_tracks (snd (close_thinking sg b)))"
proof (cases "ba_thinking_index b")
  case (Some p)
  then have th: "map_option fst (ba_thinking_index b) = Some (fst p)" by simp
  have "accepted from_str tol [ThinkingEnd (fst p) sg'] s (ba_tracks (b\<lparr>ba_thinking_index := None\<rparr>))" for sg'
    by (rule end_accepted[OF assms, of "fst p"])
       (use assms Some roles_disjoint(1)[OF assms, of "fst p"] roles_disjoint(3)[OF assms th] in
         \<open>auto simp: end_matches_def ba_indices_def open_as_def tracks_distinct\<close>)
  with Some show ?thesis by (cases p) (simp add: close_thinking_def)
qed (use assms in \<open>simp add: close_thinking_def\<close>)

lemma tool_call_closes:
  assumes "ba_tracks b s"
  shows "accepted from_str tol (fst (close_tool_call i b)) s (ba_tracks (snd (close_tool_call i b)))"
proof (cases "i \<in> set (ba_open_tool_calls b)")
  case True
  note d = tracks_distinct[OF assms]
  have "accepted from_str tol [ToolCallEnd i] s (ba_tracks (b\<lparr>ba_open_tool_calls := remove1 i (ba_open_tool_calls b)\<rparr>))"
    by (rule end_accepted[OF assms, of i])
       (use assms True d roles_disjoint(2,3)[OF assms, of i] in \<open>auto simp: end_matches_def ba_indices_def open_as_def\<close>)
  with True show ?thesis by (simp add: close_tool_call_def)
qed (use assms in \<open>simp add: close_tool_call_def\<close>)

lemma blocks_finalized:
  assumes "ba_tracks b s"
  shows "accepted from_str tol (fst (finalize_blocks b)) s (ba_tracks (snd (finalize_blocks b)))"
proof -
  let ?bs = "(case ba_thinking_index b of Some (i, sig) \<Rightarrow> [OpenThinking i sig] | None \<Rightarrow> [])
         @ (case ba_text_index b of Some i \<Rightarrow> [OpenText i] | None \<Rightarrow> []) @ map OpenToolCall (ba_open_tool_calls b)"
  let ?ps = "map (\<lambda>x. (open_block_index x, end_event x)) (sort_key open_block_index ?bs)"
  note d = tracks_distinct[OF assms]
  have idx: "map fst ?ps = map open_block_index (sort_key open_block_index ?bs)" by (simp add: comp_def)
  have "distinct (map open_block_index ?bs)"
    using d roles_disjoint[OF assms]
    by (cases "ba_thinking_index b"; cases "ba_text_index b")
       (auto simp: distinct_map inj_on_def split: prod.splits)
  then have dist: "distinct (map fst ?ps)"
    unfolding idx by (simp only: distinct_map distinct_sort set_sort)
  have "set (map fst ?ps) = open_block_index ` set ?bs"
    unfolding idx by (simp only: set_map set_sort)
  also have "\<dots> = ba_indices b"
    by (cases "ba_thinking_index b"; cases "ba_text_index b") (auto simp: ba_indices_def image_iff split: prod.splits)
  finally have set: "set (map fst ?ps) = ba_indices b" .
  have "accepted from_str tol (map snd ?ps) s (ba_tracks (keep_open {} b))"
  proof (rule close_many)
    show "ba_tracks (keep_open (set (map fst ?ps) \<union> {}) b) s" unfolding set using assms by (simp add: keep_open_all)
    have "\<forall>x \<in> set ?bs. end_matches b (open_block_index x) (end_event x)"
      by (cases "ba_thinking_index b"; cases "ba_text_index b") (auto simp: end_matches_def split: prod.splits)
    then show "\<forall>(i, ev) \<in> set ?ps. end_matches b i ev" by (simp only: set_map set_sort) blast
  qed (use dist d in simp_all)
  moreover have "keep_open {} b = snd (finalize_blocks b)"
    by (simp add: keep_open_def finalize_blocks_def drain_open_blocks_def option.case_eq_if)
  moreover have "map snd ?ps = fst (finalize_blocks b)"
    by (simp add: finalize_blocks_def drain_open_blocks_def comp_def)
  ultimately show ?thesis by simp
qed

lemma finalized_empty: "ba_indices (snd (finalize_blocks b)) = {}"
  by (simp add: finalize_blocks_def drain_open_blocks_def ba_indices_def)

text \<open>Once nothing is open, the terminal event is accepted; finalizing comes first in every adapter.\<close>

lemma first_open_None_iff: "first_open bs k = None \<longleftrightarrow> True \<notin> set bs"
  by (induction bs arbitrary: k) auto

lemma terminal_accepted:
  assumes "ba_tracks b s" "ba_indices b = {}" "is_terminal ev"
  shows "accepted from_str tol [ev] s acc_saw_terminal"
proof -
  have "first_open (acc_open s) 0 = None"
    using assms(1,2) by (auto simp: first_open_None_iff in_set_conv_nth ba_tracks_def)
  then show ?thesis
    using assms(1,3)
    by (cases ev) (auto simp: accepted_def acc_event_def on_done_def on_error_def validate_terminal_open_blocks_def ba_tracks_def)
qed

text \<open>
  Steps that hand out events, one after the other; a step is \<open>sound\<close> for a relation between its
  state and the accumulation when the relation lives through it.
\<close>

type_synonym 's emitter = "'s \<Rightarrow> assistant_message_event list \<times> 's"

definition both :: "'s emitter \<Rightarrow> 's emitter \<Rightarrow> 's emitter" where
  "both f g st = (let (evs, st) = f st; (evs', st) = g st in (evs @ evs', st))"

definition emits :: "('s \<Rightarrow> assistant_message_event list) \<Rightarrow> 's emitter" where
  "emits f st = (f st, st)"

definition sound :: "('s \<Rightarrow> acc \<Rightarrow> bool) \<Rightarrow> 's emitter \<Rightarrow> bool" where
  "sound R f \<longleftrightarrow> (\<forall>from_str tol st a. R st a \<longrightarrow> accepted from_str tol (fst (f st)) a (R (snd (f st))))"

lemma soundI:
  "(\<And>from_str tol st a. R st a \<Longrightarrow> accepted from_str tol (fst (f st)) a (R (snd (f st)))) \<Longrightarrow> sound R f"
  by (simp add: sound_def)

lemma soundD: "sound R f \<Longrightarrow> R st a \<Longrightarrow> accepted from_str tol (fst (f st)) a (R (snd (f st)))"
  by (simp add: sound_def)

lemma sound_both [intro]: "sound R f \<Longrightarrow> sound R g \<Longrightarrow> sound R (both f g)"
  by (rule soundI) (auto simp: both_def case_prod_beta intro: accepted_append soundD)

lemma sound_none [intro, simp]: "sound R (Pair [])"
  by (simp add: sound_def)

lemma sound_none' [intro, simp]: "sound R (\<lambda>st. ([], st))"
  by (simp add: sound_def)

definition keeps_calls :: "block_accumulator emitter \<Rightarrow> bool" where
  "keeps_calls f \<longleftrightarrow> (\<forall>b. set (ba_open_tool_calls (snd (f b))) = set (ba_open_tool_calls b))"

lemma keeps_callsD: "keeps_calls f \<Longrightarrow> set (ba_open_tool_calls (snd (f b))) = set (ba_open_tool_calls b)"
  by (simp add: keeps_calls_def)

lemma keeps_both: "keeps_calls f \<Longrightarrow> keeps_calls g \<Longrightarrow> keeps_calls (both f g)"
  by (simp add: keeps_calls_def both_def case_prod_beta)

lemma block_ops_sound:
  "sound ba_tracks ensure_text_open" "sound ba_tracks ensure_thinking_open"
  "sound ba_tracks close_text" "sound ba_tracks (close_thinking sg)" "sound ba_tracks (close_tool_call i)"
  "sound ba_tracks (emits (\<lambda>b. text_delta b d))" "sound ba_tracks (emits (\<lambda>b. thinking_delta b d))"
  "sound ba_tracks finalize_blocks"
  by (auto simp: sound_def emits_def text_opens thinking_opens text_closes thinking_closes tool_call_closes text_deltas
      thinking_deltas blocks_finalized)

lemma block_ops_keep:
  "keeps_calls ensure_text_open" "keeps_calls ensure_thinking_open" "keeps_calls close_text" "keeps_calls (close_thinking sg)"
  "keeps_calls (emits f)"
  by (auto simp: keeps_calls_def ensure_text_open_def ensure_thinking_open_def close_text_def close_thinking_def emits_def
      alloc_index_def split: option.split)

lemmas block_ops = sound_both keeps_both block_ops_sound block_ops_keep

text \<open>A message whose events are all accepted and whose last event is terminal is complete.\<close>

definition acc_started :: acc where
  "acc_started = acc_init\<lparr>acc_content := Some [], acc_saw_start := True\<rparr>"

lemma start_accepted: "acc_event from_str tol Start acc_init = Inr acc_started"
  by (simp add: acc_event_def acc_started_def acc_init_def on_start_def)

lemma tracks_started: "ba_tracks ba_new acc_started"
  by (simp add: ba_tracks_def acc_started_def acc_init_def ba_new_def ba_indices_def)

lemma acc_event_complete:
  "acc_event from_str tol e s = Inr s' \<Longrightarrow> (acc_content s \<noteq> None \<longrightarrow> acc_content s' \<noteq> None)
     \<and> (acc_saw_terminal s' \<longrightarrow> acc_stop_reason s' \<noteq> None)"
  by (cases e; auto simp: acc_event_def arm_Inr on_done_def on_error_def rbind_Inr_iff put_block_def close_block_def
      split: if_splits)

lemma acc_events_complete:
  "acc_events from_str tol es s = Inr s' \<Longrightarrow> acc_content s \<noteq> None \<Longrightarrow> \<not> acc_saw_terminal s
     \<Longrightarrow> acc_content s' \<noteq> None \<and> (acc_saw_terminal s' \<longrightarrow> acc_stop_reason s' \<noteq> None)"
proof (induction es arbitrary: s)
  case (Cons e es)
  then obtain s1 where s1: "acc_event from_str tol e s = Inr s1" "acc_events from_str tol es s1 = Inr s'"
    by (auto simp: rbind_Inr_iff)
  show ?case
  proof (cases "acc_saw_terminal s1")
    case True
    with s1(2) have "es = []" using acc_events_terminal by blast
    with acc_event_complete[OF s1(1)] Cons.prems(2) s1(2) show ?thesis by simp
  next
    case False
    with Cons.IH[OF s1(2)] acc_event_complete[OF s1(1)] Cons.prems(2) show ?thesis by blast
  qed
qed simp

definition is_message :: "(string, assistant_message) result \<Rightarrow> bool" where
  "is_message r = (case r of Inr _ \<Rightarrow> True | Inl e \<Rightarrow> arguments_error e)"

lemma accepted_message:
  assumes "\<And>tol. accepted from_str tol es acc_started acc_saw_terminal"
  shows "is_message (accumulate_message from_str now (Start # es) provider model)"
proof (cases "acc_events from_str (list_ex is_done_length es) es acc_started")
  case (Inl e)
  with assms[of "list_ex is_done_length es"] show ?thesis
    by (simp add: accumulate_message_def is_message_def start_accepted accepted_def)
next
  case (Inr a)
  with assms[of "list_ex is_done_length es"] have "acc_saw_terminal a" by (simp add: accepted_def)
  with acc_events_complete[OF Inr] obtain c sr where "acc_content a = Some c" "acc_stop_reason a = Some sr"
    by (auto simp: acc_started_def acc_init_def)
  then show ?thesis
    by (simp add: accumulate_message_def is_message_def start_accepted Inr acc_finish_def)
qed

end
