(* ===== verification/Sse.thy ===== *)
theory Sse
  imports Byte_Lines Block_Accumulator
begin

text \<open>
  The shared Server-Sent-Events layer of the adapters (\<^verbatim>\<open>adapters/src/sse.rs\<close>):
  the incremental parser from bytes to lines, the line and event streams over a byte stream, and
  the scaffolding that turns a line handler into a stream of assistant events.

  A byte stream is the list of its items, a chunk or the text of a transport error; after its
  last item it stays at its end. The panics of a raw-payload callback are caught by the code and
  have no effect on the lines, so the callback is left out.
\<close>

section \<open>The parser\<close>

datatype sse_line =
    SseEventLine string
  | SseData string
  | SseDone
  | SseEmpty
  | SseTransportError string
  | SseProtocolError string

record sse_parser =
  sp_buffer :: string
  sp_byte_carry :: string
  sp_pending_data :: "string option"
  sp_poisoned :: bool

definition sse_new :: sse_parser where
  "sse_new = \<lparr>sp_buffer = [], sp_byte_carry = [], sp_pending_data = None, sp_poisoned = False\<rparr>"

definition strip_prefix :: "string \<Rightarrow> string \<Rightarrow> string option" where
  "strip_prefix p s = (if prefix p s then Some (drop (length p) s) else None)"

definition parse_sse_field_value :: "string \<Rightarrow> string \<Rightarrow> string option" where
  "parse_sse_field_value line field_prefix =
     (case strip_prefix field_prefix line of
        None \<Rightarrow> None
      | Some value \<Rightarrow> Some (case strip_prefix '' '' value of Some v \<Rightarrow> v | None \<Rightarrow> value))"

definition take_pending :: "sse_parser \<Rightarrow> sse_line list \<times> sse_parser" where
  "take_pending p =
     (case sp_pending_data p of None \<Rightarrow> ([], p) | Some d \<Rightarrow> ([SseData d], p\<lparr>sp_pending_data := None\<rparr>))"

definition process_raw_line :: "string \<Rightarrow> sse_parser \<Rightarrow> sse_line list \<times> sse_parser" where
  "process_raw_line line p =
     (if line = [] then (let (ls, p) = take_pending p in (ls @ [SseEmpty], p))
      else if prefix '':'' line then ([], p)
      else case parse_sse_field_value line ''event:'' of
        Some event_type \<Rightarrow> (let (ls, p) = take_pending p in (ls @ [SseEventLine event_type], p))
      | None \<Rightarrow>
          (case parse_sse_field_value line ''data:'' of
             Some d \<Rightarrow>
               if d = ''[DONE]'' then (let (ls, p) = take_pending p in (ls @ [SseDone], p))
               else if d \<noteq> [] then
                 ([], p\<lparr>sp_pending_data := Some (case sp_pending_data p of Some pending \<Rightarrow> pending @ [nl] @ d | None \<Rightarrow> d)\<rparr>)
               else ([], p)
           | None \<Rightarrow> take_pending p))"

function drain_lines :: "sse_parser \<Rightarrow> sse_line list \<times> sse_parser" where
  "drain_lines p =
     (if nl \<in> set (sp_buffer p)
      then let line = strip_cr (takeWhile (\<lambda>c. c \<noteq> nl) (sp_buffer p));
               (ls, p) = process_raw_line line (p\<lparr>sp_buffer := tl (dropWhile (\<lambda>c. c \<noteq> nl) (sp_buffer p))\<rparr>);
               (ls', p) = drain_lines p
           in (ls @ ls', p)
      else ([], p))"
  by auto

definition protocol_error :: "string \<Rightarrow> sse_parser \<Rightarrow> sse_line list \<times> sse_parser" where
  "protocol_error message p =
     ([SseProtocolError message], p\<lparr>sp_buffer := [], sp_byte_carry := [], sp_pending_data := None, sp_poisoned := True\<rparr>)"

lemma take_pending_keeps [simp]:
  "sp_buffer (snd (take_pending p)) = sp_buffer p"
  "sp_byte_carry (snd (take_pending p)) = sp_byte_carry p"
  "sp_poisoned (snd (take_pending p)) = sp_poisoned p"
  by (simp_all add: take_pending_def split: option.splits)

lemma raw_line_keeps [simp]:
  "sp_buffer (snd (process_raw_line line p)) = sp_buffer p"
  "sp_byte_carry (snd (process_raw_line line p)) = sp_byte_carry p"
  "sp_poisoned (snd (process_raw_line line p)) = sp_poisoned p"
  by (simp_all add: process_raw_line_def case_prod_beta split: option.split)

lemma drop_line_shorter: "nl \<in> set s \<Longrightarrow> length (tl (dropWhile (\<lambda>c. c \<noteq> nl) s)) < length s"
  using length_dropWhile_le[of "\<lambda>c. c \<noteq> nl" s] by (cases s) auto

termination drain_lines
proof (relation "measure (length \<circ> sp_buffer)")
  fix p line x ls p'
  assume p: "nl \<in> set (sp_buffer p)"
    and x: "x = process_raw_line line (p\<lparr>sp_buffer := tl (dropWhile (\<lambda>c. c \<noteq> nl) (sp_buffer p))\<rparr>)" "(ls, p') = x"
  have "sp_buffer p' = sp_buffer (snd (process_raw_line line (p\<lparr>sp_buffer := tl (dropWhile (\<lambda>c. c \<noteq> nl) (sp_buffer p))\<rparr>)))"
    using x by (metis snd_conv)
  then have "sp_buffer p' = tl (dropWhile (\<lambda>c. c \<noteq> nl) (sp_buffer p))"
    by (simp only: raw_line_keeps) simp
  with p show "(p', p) \<in> measure (length \<circ> sp_buffer)"
    by (simp add: drop_line_shorter del: length_tl)
qed simp

declare drain_lines.simps [simp del]

text \<open>
  \<^verbatim>\<open>feed\<close>: one call of \<^verbatim>\<open>from_utf8\<close> decides the fate of all bytes, since
  every branch of the loop ends it.
\<close>

definition feed :: "string \<Rightarrow> sse_parser \<Rightarrow> sse_line list \<times> sse_parser" where
  "feed chunk p =
     (if sp_poisoned p then ([], p)
      else let (valid, stop) = utf8_decode (sp_byte_carry p @ chunk);
               p = p\<lparr>sp_byte_carry := [], sp_buffer := sp_buffer p @ valid\<rparr>
           in case stop of
                Utf8End \<Rightarrow> drain_lines p
              | Utf8Short rest \<Rightarrow> drain_lines (p\<lparr>sp_byte_carry := rest\<rparr>)
              | Utf8Bad \<Rightarrow>
                  let (ls, p) = drain_lines p;
                      (ls', p) = take_pending p;
                      (ls'', p) = protocol_error ''SSE stream contained invalid UTF-8 bytes'' p
                  in (ls @ ls' @ ls'', p))"

fun process_raw_lines :: "string list \<Rightarrow> sse_parser \<Rightarrow> sse_line list \<times> sse_parser" where
  "process_raw_lines [] p = ([], p)"
| "process_raw_lines (l # ls) p =
     (let (out, p) = process_raw_line l p; (out', p) = process_raw_lines ls p in (out @ out', p))"

definition flush :: "sse_parser \<Rightarrow> sse_line list \<times> sse_parser" where
  "flush p =
     (if sp_poisoned p then ([], p)
      else if sp_byte_carry p \<noteq> [] then
        let (ls, p) = take_pending p;
            (ls', p) = protocol_error ''SSE stream ended with an incomplete UTF-8 sequence'' p
        in (ls @ ls', p)
      else
        let (ls, p) = (if str_trim (sp_buffer p) \<noteq> [] then process_raw_lines (raw_lines (sp_buffer p)) (p\<lparr>sp_buffer := []\<rparr>)
                       else ([], p));
            p = p\<lparr>sp_buffer := []\<rparr>;
            (ls', p) = take_pending p
        in (ls @ ls', p))"

section \<open>Line and event streams\<close>

type_synonym byte_stream = "(string, string) result list"

fun sse_lines_from :: "byte_stream \<Rightarrow> sse_parser \<Rightarrow> sse_line list" where
  "sse_lines_from [] p = fst (flush p)"
| "sse_lines_from (Inr bytes # items) p = (let (ls, p) = feed bytes p in ls @ sse_lines_from items p)"
| "sse_lines_from (Inl err # items) p =
     (let (ls, p) = flush p in ls @ [SseTransportError (''SSE transport error: '' @ err)] @ sse_lines_from items p)"

definition sse_lines :: "byte_stream \<Rightarrow> sse_line list" where
  "sse_lines items = sse_lines_from items sse_new"

fun is_data_line :: "sse_line \<Rightarrow> bool" where
  "is_data_line (SseData _) = True"
| "is_data_line SseDone = True"
| "is_data_line (SseTransportError _) = True"
| "is_data_line (SseProtocolError _) = True"
| "is_data_line _ = False"

definition sse_data_lines :: "byte_stream \<Rightarrow> sse_line list" where
  "sse_data_lines items = filter is_data_line (sse_lines items)"

record sse_event =
  se_event_type :: string
  se_data :: string

definition SSE_TRANSPORT_ERROR_EVENT :: string where
  "SSE_TRANSPORT_ERROR_EVENT = ''__swink_transport_error__''"

definition SSE_PROTOCOL_ERROR_EVENT :: string where
  "SSE_PROTOCOL_ERROR_EVENT = ''__swink_protocol_error__''"

fun pair_events :: "sse_line list \<Rightarrow> string option \<Rightarrow> sse_event list" where
  "pair_events [] current_event = []"
| "pair_events (SseEmpty # ls) current_event = pair_events ls None"
| "pair_events (SseDone # ls) current_event = pair_events ls None"
| "pair_events (SseTransportError message # ls) current_event =
     \<lparr>se_event_type = SSE_TRANSPORT_ERROR_EVENT, se_data = message\<rparr> # pair_events ls current_event"
| "pair_events (SseProtocolError message # ls) current_event =
     \<lparr>se_event_type = SSE_PROTOCOL_ERROR_EVENT, se_data = message\<rparr> # pair_events ls current_event"
| "pair_events (SseEventLine event_type # ls) current_event = pair_events ls (Some event_type)"
| "pair_events (SseData d # ls) current_event =
     (if d \<noteq> []
      then \<lparr>se_event_type = (case current_event of Some t \<Rightarrow> t | None \<Rightarrow> ''unknown''), se_data = d\<rparr> # pair_events ls None
      else pair_events ls current_event)"

definition sse_paired_events :: "byte_stream \<Rightarrow> sse_event list" where
  "sse_paired_events items = pair_events (sse_lines items) None"

section \<open>Chunks do not matter\<close>

lemma take_pending_update [simp]:
  "take_pending (p\<lparr>sp_buffer := b\<rparr>) = (fst (take_pending p), snd (take_pending p)\<lparr>sp_buffer := b\<rparr>)"
  "take_pending (p\<lparr>sp_byte_carry := c\<rparr>) = (fst (take_pending p), snd (take_pending p)\<lparr>sp_byte_carry := c\<rparr>)"
  by (simp_all add: take_pending_def split: option.split)

lemma raw_line_update [simp]:
  "process_raw_line l (p\<lparr>sp_buffer := b\<rparr>) = (fst (process_raw_line l p), snd (process_raw_line l p)\<lparr>sp_buffer := b\<rparr>)"
  "process_raw_line l (p\<lparr>sp_byte_carry := c\<rparr>) = (fst (process_raw_line l p), snd (process_raw_line l p)\<lparr>sp_byte_carry := c\<rparr>)"
  by (simp_all add: process_raw_line_def case_prod_beta split: option.split)

lemma raw_lines_update [simp]:
  "process_raw_lines ls (p\<lparr>sp_buffer := b\<rparr>) = (fst (process_raw_lines ls p), snd (process_raw_lines ls p)\<lparr>sp_buffer := b\<rparr>)"
  "process_raw_lines ls (p\<lparr>sp_byte_carry := c\<rparr>) = (fst (process_raw_lines ls p), snd (process_raw_lines ls p)\<lparr>sp_byte_carry := c\<rparr>)"
  by (induction ls arbitrary: p) (simp_all add: case_prod_beta)

lemma raw_lines_keeps [simp]:
  "sp_buffer (snd (process_raw_lines ls p)) = sp_buffer p"
  "sp_byte_carry (snd (process_raw_lines ls p)) = sp_byte_carry p"
  "sp_poisoned (snd (process_raw_lines ls p)) = sp_poisoned p"
  by (induction ls arbitrary: p) (simp_all add: case_prod_beta)

lemma process_raw_lines_append:
  "process_raw_lines (ls @ ls') p =
     (let (out, p) = process_raw_lines ls p; (out', p) = process_raw_lines ls' p in (out @ out', p))"
  by (induction ls arbitrary: p) (simp_all add: case_prod_beta)

text \<open>Draining handles the finished lines of the buffer and leaves the unfinished one.\<close>

definition finished_lines :: "string \<Rightarrow> string list" where
  "finished_lines s = map strip_cr (butlast (split_lines s))"

definition unfinished_line :: "string \<Rightarrow> string" where
  "unfinished_line s = List.last (split_lines s)"

lemma split_lines_nonempty [simp]: "split_lines s \<noteq> []"
  by (induction s) (auto split: list.splits)

lemma split_lines_line: "nl \<notin> set l \<Longrightarrow> split_lines (l @ nl # s) = l # split_lines s"
  by (induction l) auto

lemma split_lines_one: "nl \<notin> set l \<Longrightarrow> split_lines l = [l]"
  by (induction l) auto

lemma split_lines_no_nl: "l \<in> set (split_lines s) \<Longrightarrow> nl \<notin> set l"
  by (induction s arbitrary: l) (auto split: list.splits if_splits)

lemma lines_step:
  assumes "nl \<in> set s"
  defines "l \<equiv> takeWhile (\<lambda>c. c \<noteq> nl) s" and "r \<equiv> tl (dropWhile (\<lambda>c. c \<noteq> nl) s)"
  shows "finished_lines s = strip_cr l # finished_lines r" "unfinished_line s = unfinished_line r"
    "s = l @ nl # r" "nl \<notin> set l"
proof -
  have "dropWhile (\<lambda>c. c \<noteq> nl) s = nl # r"
    using assms(1) hd_dropWhile[of "\<lambda>c. c \<noteq> nl" s] by (cases "dropWhile (\<lambda>c. c \<noteq> nl) s") (auto simp: r_def)
  then show s: "s = l @ nl # r" unfolding l_def using takeWhile_dropWhile_id by metis
  show l: "nl \<notin> set l" by (auto simp: l_def dest: set_takeWhileD)
  have "split_lines s = l # split_lines r" by (subst s) (rule split_lines_line[OF l])
  then show "finished_lines s = strip_cr l # finished_lines r" "unfinished_line s = unfinished_line r"
    by (simp_all add: finished_lines_def unfinished_line_def)
qed

lemma drain_lines_eq:
  "drain_lines p = process_raw_lines (finished_lines (sp_buffer p)) (p\<lparr>sp_buffer := unfinished_line (sp_buffer p)\<rparr>)"
proof (induction p rule: drain_lines.induct)
  case (1 p)
  show ?case
  proof (cases "nl \<in> set (sp_buffer p)")
    case True
    let ?l = "takeWhile (\<lambda>c. c \<noteq> nl) (sp_buffer p)" and ?r = "tl (dropWhile (\<lambda>c. c \<noteq> nl) (sp_buffer p))"
    have "drain_lines (snd (process_raw_line (strip_cr ?l) (p\<lparr>sp_buffer := ?r\<rparr>)))
        = process_raw_lines (finished_lines ?r) (snd (process_raw_line (strip_cr ?l) p)\<lparr>sp_buffer := unfinished_line ?r\<rparr>)"
      using 1[OF True refl refl] by (simp del: raw_lines_update)
    then show ?thesis
      using True lines_step[OF True] by (subst drain_lines.simps) (simp add: case_prod_beta Let_def)
  next
    case False
    then have "split_lines (sp_buffer p) = [sp_buffer p]" by (rule split_lines_one)
    with False show ?thesis by (subst drain_lines.simps) (simp add: finished_lines_def unfinished_line_def)
  qed
qed

lemma lines_append:
  "finished_lines (s @ t) = finished_lines s @ finished_lines (unfinished_line s @ t)"
  "unfinished_line (s @ t) = unfinished_line (unfinished_line s @ t)"
proof (induction s rule: measure_induct_rule[of length])
  case (less s)
  show "finished_lines (s @ t) = finished_lines s @ finished_lines (unfinished_line s @ t)"
    "unfinished_line (s @ t) = unfinished_line (unfinished_line s @ t)"
  proof -
    show "finished_lines (s @ t) = finished_lines s @ finished_lines (unfinished_line s @ t)"
    proof (cases "nl \<in> set s")
      case True
      note st = lines_step[OF True]
      have "finished_lines (s @ t) = strip_cr (takeWhile (\<lambda>c. c \<noteq> nl) s) # finished_lines (tl (dropWhile (\<lambda>c. c \<noteq> nl) s) @ t)"
        by (subst st(3)) (simp add: finished_lines_def split_lines_line[OF st(4)])
      with less[of "tl (dropWhile (\<lambda>c. c \<noteq> nl) s)"] show ?thesis
        using drop_line_shorter[OF True] by (simp add: st(1,2))
    next
      case False
      then show ?thesis using split_lines_one[OF False] by (simp add: finished_lines_def unfinished_line_def)
    qed
    show "unfinished_line (s @ t) = unfinished_line (unfinished_line s @ t)"
    proof (cases "nl \<in> set s")
      case True
      note st = lines_step[OF True]
      have "unfinished_line (s @ t) = unfinished_line (tl (dropWhile (\<lambda>c. c \<noteq> nl) s) @ t)"
        by (subst st(3)) (simp add: unfinished_line_def split_lines_line[OF st(4)])
      with less[of "tl (dropWhile (\<lambda>c. c \<noteq> nl) s)"] show ?thesis
        using drop_line_shorter[OF True] by (simp add: st(2))
    next
      case False
      then show ?thesis using split_lines_one[OF False] by (simp add: unfinished_line_def)
    qed
  qed
qed

lemma feed_append:
  "feed (a @ b) p = (let (out, p) = feed a p; (out', p) = feed b p in (out @ out', p))"
proof (cases "sp_poisoned p")
  case False
  obtain v st where d: "utf8_decode (sp_byte_carry p @ a) = (v, st)" by fastforce
  have app: "utf8_decode (sp_byte_carry p @ a @ b) = utf8_resume (v, st) b"
    using utf8_decode_append[of "sp_byte_carry p @ a" b] d by simp
  show ?thesis
  proof (cases st)
    case Utf8Bad
    with False d app show ?thesis
      by (simp add: feed_def drain_lines_eq protocol_error_def case_prod_beta)
  next
    case Utf8End
    obtain w st' where "utf8_decode b = (w, st')" by fastforce
    with Utf8End False d app show ?thesis
      by (cases st') (simp_all add: feed_def drain_lines_eq protocol_error_def case_prod_beta process_raw_lines_append
          lines_append[of "sp_buffer p @ v" w, unfolded append_assoc])
  next
    case (Utf8Short c)
    obtain w st' where "utf8_decode (c @ b) = (w, st')" by fastforce
    with Utf8Short False d app show ?thesis
      by (cases st') (simp_all add: feed_def drain_lines_eq protocol_error_def case_prod_beta process_raw_lines_append
          lines_append[of "sp_buffer p @ v" w, unfolded append_assoc])
  qed
qed (simp add: feed_def)

text \<open>Flushing twice is flushing once, so the end of the stream may be polled again.\<close>

lemma flush_flush: "flush (snd (flush p)) = ([], snd (flush p))"
proof -
  have pend: "sp_pending_data (snd (take_pending q)) = None" "take_pending (snd (take_pending q)) = ([], snd (take_pending q))" for q
    by (simp_all add: take_pending_def split: option.split)
  show ?thesis
    by (simp add: flush_def protocol_error_def case_prod_beta pend str_trim_def)
qed

text \<open>
  What the lines of a byte string are: decode it, cut it, interpret the finished lines and, unless
  the decoding failed, the unfinished one; no buffer, no carried bytes, no chunks.
\<close>

definition reference_lines :: "string \<Rightarrow> sse_line list" where
  "reference_lines bytes =
     (let (text, stop) = utf8_decode bytes;
          rest = unfinished_line text;
          (out, p) = process_raw_lines (finished_lines text @ (if stop = Utf8End \<and> str_trim rest \<noteq> [] then [rest] else [])) sse_new
      in out @ fst (take_pending p)
         @ (case stop of Utf8End \<Rightarrow> []
            | Utf8Short _ \<Rightarrow> [SseProtocolError ''SSE stream ended with an incomplete UTF-8 sequence'']
            | Utf8Bad \<Rightarrow> [SseProtocolError ''SSE stream contained invalid UTF-8 bytes'']))"

lemma raw_lines_one:
  assumes "nl \<notin> set l" "l \<noteq> []"
  shows "raw_lines l = [l]"
proof -
  have tw: "takeWhile (\<lambda>c. c \<noteq> nl) l = l" and dw: "dropWhile (\<lambda>c. c \<noteq> nl) l = []"
    using assms(1) by (auto simp: takeWhile_eq_all_conv)
  show ?thesis
    using assms(2) by (subst raw_lines.simps) (simp add: read_raw_line_def tw dw raw_lines.simps[of "[]"])
qed

lemma whole_stream: "(let (ls, p) = feed bytes sse_new in ls @ fst (flush p)) = reference_lines bytes"
proof -
  obtain v stop where d: "utf8_decode bytes = (v, stop)" by fastforce
  have un: "raw_lines (unfinished_line v) = [unfinished_line v]" if "str_trim (unfinished_line v) \<noteq> []"
    by (rule raw_lines_one) (use that split_lines_no_nl[of "unfinished_line v" v] in
        \<open>auto simp: str_trim_empty_iff unfinished_line_def\<close>)
  have new: "sse_new\<lparr>sp_byte_carry := [], sp_buffer := v\<rparr> = sse_new\<lparr>sp_buffer := v\<rparr>"
    "sp_byte_carry sse_new = []" "\<not> sp_poisoned sse_new" "sp_buffer sse_new = []"
    by (simp_all add: sse_new_def)
  show ?thesis
  proof (cases stop)
    case Utf8End
    then show ?thesis
      using d un
      by (cases "str_trim (unfinished_line v) = []")
         (simp_all add: feed_def reference_lines_def drain_lines_eq flush_def new case_prod_beta Let_def process_raw_lines_append)
  next
    case (Utf8Short c)
    then have "c \<noteq> []" using d utf8_short by blast
    with d Utf8Short show ?thesis
      by (simp add: feed_def reference_lines_def drain_lines_eq flush_def new case_prod_beta protocol_error_def)
  next
    case Utf8Bad
    with d show ?thesis
      by (simp add: feed_def reference_lines_def drain_lines_eq flush_def new case_prod_beta protocol_error_def)
  qed
qed

lemma sse_lines_chunks:
  "chunks \<noteq> [] \<Longrightarrow> sse_lines_from (map Inr chunks @ items) p = (let (ls, p) = feed (concat chunks) p in ls @ sse_lines_from items p)"
proof (induction chunks arbitrary: p)
  case (Cons c cs)
  then show ?case by (cases "cs = []") (simp_all add: feed_append case_prod_beta Let_def)
qed simp

text \<open>
  C29. However the bytes of a response are cut into chunks, even in the middle of a character, the
  lines are those of the whole byte string; corrupt bytes end them with one protocol error after
  everything that was finished before.
\<close>

theorem sse_chunks_do_not_matter: "sse_lines (map Inr chunks) = reference_lines (concat chunks)"
proof (cases "chunks = []")
  case True
  then show ?thesis
    by (simp add: sse_lines_def reference_lines_def utf8_decode.simps[of "[]"] finished_lines_def unfinished_line_def
        flush_def sse_new_def str_trim_def take_pending_def)
next
  case False
  then show ?thesis
    using sse_lines_chunks[OF False, of "[]" sse_new] whole_stream[of "concat chunks"]
    by (simp add: sse_lines_def)
qed

section \<open>Scaffolding of the adapter streams\<close>

datatype sse_action =
    ActContinue "assistant_message_event list"
  | ActDone "assistant_message_event list"
  | ActSkip

text \<open>
  The stream is polled; the events of the first \<open>k\<close> polls, and whether the stream is over
  then. The \<open>n\<close>-th poll looks at the cancellation token first (\<^verbatim>\<open>biased\<close>), then
  at the next line; a line stream stays at its end.
\<close>

fun next_item :: "'l list \<Rightarrow> 'l option \<times> 'l list" where
  "next_item [] = (None, [])"
| "next_item (l # ls) = (Some l, ls)"

fun adapter_polls :: "('l option \<Rightarrow> 's \<Rightarrow> sse_action \<times> 's) \<Rightarrow> ('s \<Rightarrow> assistant_message_event list) \<Rightarrow> (nat \<Rightarrow> bool)
    \<Rightarrow> nat \<Rightarrow> nat \<Rightarrow> 'l list \<Rightarrow> 's \<Rightarrow> assistant_message_event list \<times> bool" where
  "adapter_polls on_item on_cancel cancelled 0 n ls s = ([], False)"
| "adapter_polls on_item on_cancel cancelled (Suc k) n ls s =
     (if cancelled n then (on_cancel s, True)
      else let (item, ls) = next_item ls in
        (case on_item item s of
           (ActContinue events, s) \<Rightarrow>
             (let (evs, over) = adapter_polls on_item on_cancel cancelled k (n + 1) ls s in (events @ evs, over))
         | (ActDone events, s) \<Rightarrow> (events, True)
         | (ActSkip, s) \<Rightarrow> adapter_polls on_item on_cancel cancelled k (n + 1) ls s))"

definition sse_adapter_stream :: "('l option \<Rightarrow> 's \<Rightarrow> sse_action \<times> 's) \<Rightarrow> ('s \<Rightarrow> assistant_message_event list) \<Rightarrow> (nat \<Rightarrow> bool)
    \<Rightarrow> nat \<Rightarrow> 'l list \<Rightarrow> 's \<Rightarrow> assistant_message_event list \<times> bool" where
  "sse_adapter_stream on_item on_cancel cancelled k ls s =
     (if k = 0 then ([], False)
      else let (evs, over) = adapter_polls on_item on_cancel cancelled (k - 1) 0 ls s in (Start # evs, over))"

definition cancelled_event :: "string \<Rightarrow> assistant_message_event" where
  "cancelled_event message = Error SrAborted message None None None"

text \<open>
  The contract of a line handler: \<open>R s a\<close> says that the accumulation state \<open>a\<close> is what the
  adapter state \<open>s\<close> stands for, and \<open>ok s x\<close> is what the handler may expect of the next
  line \<open>x\<close>. Every event the handler emits is accepted, what it emits last ends the message, and
  the end of the lines ends the stream.
\<close>

fun inputs_ok :: "('s \<Rightarrow> 'l option \<Rightarrow> bool) \<Rightarrow> ('l option \<Rightarrow> 's \<Rightarrow> sse_action \<times> 's) \<Rightarrow> 'l list \<Rightarrow> 's \<Rightarrow> bool" where
  "inputs_ok ok on_item [] s = ok s None"
| "inputs_ok ok on_item (l # ls) s =
     (ok s (Some l) \<and> (case on_item (Some l) s of (ActDone _, _) \<Rightarrow> True | (_, s') \<Rightarrow> inputs_ok ok on_item ls s'))"

lemma inputs_ok_True [simp]: "inputs_ok (\<lambda>_ _. True) on_item ls s"
  by (induction ls arbitrary: s) (auto split: sse_action.splits prod.splits)

locale line_handler =
  fixes on_item :: "'l option \<Rightarrow> 's \<Rightarrow> sse_action \<times> 's"
    and on_cancel :: "'s \<Rightarrow> assistant_message_event list"
    and init :: "'s"
    and R :: "'s \<Rightarrow> acc \<Rightarrow> bool"
    and ok :: "'s \<Rightarrow> 'l option \<Rightarrow> bool"
  assumes starts: "R init acc_started"
    and continues: "R s a \<Longrightarrow> ok s x \<Longrightarrow> on_item x s = (ActContinue evs, s') \<Longrightarrow> accepted from_str tol evs a (R s')"
    and skips: "R s a \<Longrightarrow> ok s x \<Longrightarrow> on_item x s = (ActSkip, s') \<Longrightarrow> R s' a"
    and finishes: "R s a \<Longrightarrow> ok s x \<Longrightarrow> on_item x s = (ActDone evs, s') \<Longrightarrow> accepted from_str tol evs a acc_saw_terminal"
    and cancels: "R s a \<Longrightarrow> accepted from_str tol (on_cancel s) a acc_saw_terminal"
    and ends: "\<exists>evs s'. on_item None s = (ActDone evs, s')"
begin

lemma polls_accepted:
  assumes "R s a" "inputs_ok ok on_item ls s"
  shows "accepted from_str tol (fst (adapter_polls on_item on_cancel cancelled k n ls s)) a
           (\<lambda>a'. snd (adapter_polls on_item on_cancel cancelled k n ls s) \<longrightarrow> acc_saw_terminal a')"
  using assms
proof (induction k arbitrary: n ls s a)
  case (Suc k)
  obtain item ls' where it: "next_item ls = (item, ls')" by fastforce
  obtain act s' where act: "on_item item s = (act, s')" by fastforce
  have okay: "ok s item" using Suc.prems(2) it by (cases ls) auto
  have rest: "inputs_ok ok on_item ls' s'" if "\<forall>evs. act \<noteq> ActDone evs"
    using that Suc.prems(2) it act ends[of s] by (cases ls; cases act) auto
  show ?case
  proof (cases "cancelled n")
    case True
    then show ?thesis using cancels[OF Suc.prems(1)] by simp
  next
    case False
    show ?thesis
    proof (cases act)
      case (ActContinue evs)
      have "accepted from_str tol (evs @ fst (adapter_polls on_item on_cancel cancelled k (n + 1) ls' s')) a
          (\<lambda>a'. snd (adapter_polls on_item on_cancel cancelled k (n + 1) ls' s') \<longrightarrow> acc_saw_terminal a')"
        by (rule accepted_append[OF continues[OF Suc.prems(1) okay act[unfolded ActContinue]]])
           (rule Suc.IH, use rest ActContinue in simp_all)
      then show ?thesis using False it act ActContinue by (simp add: case_prod_beta)
    next
      case (ActDone evs)
      then show ?thesis using False it act finishes[OF Suc.prems(1) okay act[unfolded ActDone]] by simp
    next
      case ActSkip
      then show ?thesis using False it act Suc.IH[OF skips[OF Suc.prems(1) okay act[unfolded ActSkip]] rest] by simp
    qed
  qed
qed simp

lemma polls_end: "length ls < k \<Longrightarrow> snd (adapter_polls on_item on_cancel cancelled k n ls s)"
proof (induction k arbitrary: n ls s)
  case (Suc k)
  show ?case
  proof (cases ls)
    case Nil
    then show ?thesis using ends[of s] by auto
  next
    case (Cons l ls')
    with Suc.prems have "length ls' < k" by simp
    from Suc.IH[OF this] show ?thesis
      using Cons by (simp add: case_prod_beta split: sse_action.split)
  qed
qed simp

text \<open>
  The events of the whole stream are a message, whatever the lines were and whenever the token was
  cancelled, or fail for the text of the arguments of a tool call.
\<close>

lemma stream_is_message:
  assumes "length ls + 2 \<le> k" "inputs_ok ok on_item ls init"
  shows "snd (sse_adapter_stream on_item on_cancel cancelled k ls init)
    \<and> is_message (accumulate_message from_str now (fst (sse_adapter_stream on_item on_cancel cancelled k ls init)) provider model)"
proof -
  obtain j where j: "k = Suc j" "length ls < j" using assms(1) by (cases k) auto
  note over = polls_end[OF j(2)]
  have "accepted from_str tol (fst (adapter_polls on_item on_cancel cancelled j 0 ls init)) acc_started acc_saw_terminal" for tol
    by (rule accepted_mono[OF polls_accepted[OF starts assms(2)]]) (simp add: over)
  then have "is_message (accumulate_message from_str now (Start # fst (adapter_polls on_item on_cancel cancelled j 0 ls init)) provider model)"
    by (rule accepted_message)
  with j over show ?thesis by (simp add: sse_adapter_stream_def case_prod_beta)
qed

end

end
