(* ===== verification/OpenAI_Compat.thy ===== *)
theory OpenAI_Compat
  imports Sse
begin

text \<open>
  The OpenAI-compatible streaming protocol (\<^verbatim>\<open>adapters/src/openai_compat.rs\<close>), shared by
  the OpenAI, Azure, Mistral and xAI adapters: the chunk types, the state of a stream, how one chunk
  updates it and what is emitted at the end, on errors and on cancellation.

  \<open>parse_chunk\<close> stands for \<^verbatim>\<open>serde_json::from_str::<OaiChunk>\<close>. Entries of a
  \<^verbatim>\<open>HashMap\<close> are visited in the order of its association list.
\<close>

section \<open>Chunks\<close>

record oai_function_delta =
  fd_name :: "string option"
  fd_arguments :: "string option"

record oai_tool_call_delta =
  td_index :: usize
  td_id :: "string option"
  td_function :: "oai_function_delta option"

record oai_delta =
  dl_content :: "string option"
  dl_tool_calls :: "oai_tool_call_delta list option"
  dl_reasoning_content :: "string option"

record oai_choice =
  ch_delta :: oai_delta
  ch_finish_reason :: "string option"
  ch_content_filter_results :: "json option"

record oai_usage =
  ou_prompt_tokens :: u64
  ou_completion_tokens :: u64
  ou_total_tokens :: "u64 option"
  ou_extra :: "(string, json) hashmap"

record oai_chunk =
  ck_choices :: "oai_choice list"
  ck_usage :: "oai_usage option"

fun collect_numeric_usage_fields :: "string \<Rightarrow> json \<Rightarrow> (string, u64) hashmap \<Rightarrow> (string, u64) hashmap"
  and collect_fields_of :: "string \<Rightarrow> (string \<times> json) list \<Rightarrow> (string, u64) hashmap \<Rightarrow> (string, u64) hashmap" where
  "collect_numeric_usage_fields key (JNumber x) extra =
     (case json_as_u64 (Some (JNumber x)) of Some n \<Rightarrow> hm_insert key (of_nat n) extra | None \<Rightarrow> extra)"
| "collect_numeric_usage_fields key (JObject kvs) extra = collect_fields_of key kvs extra"
| "collect_numeric_usage_fields key JNull extra = extra"
| "collect_numeric_usage_fields key (JBool _) extra = extra"
| "collect_numeric_usage_fields key (JString _) extra = extra"
| "collect_numeric_usage_fields key (JArray _) extra = extra"
| "collect_fields_of key [] extra = extra"
| "collect_fields_of key ((k, v) # kvs) extra =
     collect_fields_of key kvs (collect_numeric_usage_fields (key @ ''.'' @ k) v extra)"

definition to_usage :: "oai_usage \<Rightarrow> usage" where
  "to_usage u =
     usage_default\<lparr>u_input := ou_prompt_tokens u, u_output := ou_completion_tokens u,
       u_total := (case ou_total_tokens u of Some t \<Rightarrow> t | None \<Rightarrow> ou_prompt_tokens u + ou_completion_tokens u),
       u_extra := fold (\<lambda>(key, v). collect_numeric_usage_fields key v) (ou_extra u) []\<rparr>"

fun content_filter_results_filtered :: "json \<Rightarrow> bool"
  and any_value_filtered :: "(string \<times> json) list \<Rightarrow> bool"
  and any_filtered :: "json list \<Rightarrow> bool" where
  "content_filter_results_filtered (JObject kvs) = (map_of kvs ''filtered'' = Some (JBool True) \<or> any_value_filtered kvs)"
| "content_filter_results_filtered (JArray vs) = any_filtered vs"
| "content_filter_results_filtered JNull = False"
| "content_filter_results_filtered (JBool _) = False"
| "content_filter_results_filtered (JNumber _) = False"
| "content_filter_results_filtered (JString _) = False"
| "any_value_filtered [] = False"
| "any_value_filtered ((k, v) # kvs) = (content_filter_results_filtered v \<or> any_value_filtered kvs)"
| "any_filtered [] = False"
| "any_filtered (v # vs) = (content_filter_results_filtered v \<or> any_filtered vs)"

section \<open>State of a stream\<close>

record oai_tool_call_entry =
  te_id :: string
  te_name :: "string option"
  te_arguments :: string
  te_content_index :: "usize option"

record oai_state =
  os_blocks :: block_accumulator
  os_tool_calls :: "(usize, oai_tool_call_entry) hashmap"
  os_usage :: "usage option"
  os_stop_reason :: "stop_reason option"
  os_terminal_error :: "assistant_message_event option"

definition oai_new :: oai_state where
  "oai_new = \<lparr>os_blocks = ba_new, os_tool_calls = [], os_usage = None, os_stop_reason = None, os_terminal_error = None\<rparr>"

record oai_parser_options =
  po_detect_content_filter_results :: bool
  po_error_finish_reason_is_error :: bool

text \<open>An operation of the block accumulator on the state of the stream.\<close>

definition on_blocks :: "(block_accumulator \<Rightarrow> assistant_message_event list \<times> block_accumulator) \<Rightarrow> oai_state \<Rightarrow> assistant_message_event list \<times> oai_state" where
  "on_blocks f st = (let (evs, b) = f (os_blocks st) in (evs, st\<lparr>os_blocks := b\<rparr>))"

definition oai_finalize :: "oai_state \<Rightarrow> assistant_message_event list \<times> oai_state" where
  "oai_finalize st = on_blocks finalize_blocks (st\<lparr>os_tool_calls := []\<rparr>)"

text \<open>Opening the call of an entry: the start event and the arguments buffered so far.\<close>

definition open_entry :: "usize \<Rightarrow> string \<Rightarrow> string \<Rightarrow> string \<Rightarrow> oai_state \<Rightarrow> assistant_message_event list \<times> oai_state" where
  "open_entry tc_index eid name arguments st =
     (let (content_index, start_ev, b) = open_tool_call eid name (os_blocks st);
          entry = the (hm_get (os_tool_calls st) tc_index)
      in (start_ev # (if arguments \<noteq> [] then [ToolCallDelta content_index arguments] else []),
          st\<lparr>os_blocks := b, os_tool_calls := hm_insert tc_index (entry\<lparr>te_content_index := Some content_index\<rparr>) (os_tool_calls st)\<rparr>))"

definition filled :: "string option \<Rightarrow> string option" where
  "filled s = (if s = Some [] then None else s)"

definition update_entry :: "oai_tool_call_delta \<Rightarrow> oai_tool_call_entry \<Rightarrow> oai_tool_call_entry" where
  "update_entry tc e =
     (let e = (case (te_content_index e, td_id tc) of (None, Some i) \<Rightarrow> e\<lparr>te_id := i\<rparr> | _ \<Rightarrow> e);
          e = (case filled (Option.bind (td_function tc) fd_name) of Some n \<Rightarrow> e\<lparr>te_name := Some n\<rparr> | None \<Rightarrow> e)
      in case filled (Option.bind (td_function tc) fd_arguments) of
           Some args \<Rightarrow> e\<lparr>te_arguments := te_arguments e @ args\<rparr> | None \<Rightarrow> e)"

definition process_oai_tool_call_delta :: "string \<Rightarrow> oai_tool_call_delta \<Rightarrow> oai_state \<Rightarrow> assistant_message_event list \<times> oai_state" where
  "process_oai_tool_call_delta provider tc st =
     (let tc_index = td_index tc;
          old = (case hm_get (os_tool_calls st) tc_index of
                   Some e \<Rightarrow> e
                 | None \<Rightarrow> \<lparr>te_id = (case td_id tc of Some i \<Rightarrow> i | None \<Rightarrow> provider @ ''-tool-'' @ show_nat tc_index),
                            te_name = None, te_arguments = [], te_content_index = None\<rparr>);
          e = update_entry tc old;
          st = st\<lparr>os_tool_calls := hm_insert tc_index e (os_tool_calls st)\<rparr>
      in case (te_content_index e, te_name e) of
           (None, Some name) \<Rightarrow> open_entry tc_index (te_id e) name (te_arguments e) st
         | (None, None) \<Rightarrow> ([], st)
         | (Some content_index, _) \<Rightarrow>
             ((case filled (Option.bind (td_function tc) fd_arguments) of
                 Some args \<Rightarrow> [ToolCallDelta content_index args] | None \<Rightarrow> []), st))"

definition pending_indices :: "oai_state \<Rightarrow> usize list" where
  "pending_indices st =
     sort (List.map_filter (\<lambda>(i, e). if te_content_index e = None then Some i else None) (os_tool_calls st))"

fun flush_entries :: "string \<Rightarrow> usize list \<Rightarrow> oai_state \<Rightarrow> assistant_message_event list \<times> assistant_message_event option \<times> oai_state" where
  "flush_entries provider [] st = ([], None, st)"
| "flush_entries provider (i # is') st =
     (let e = the (hm_get (os_tool_calls st) i)
      in case filled (te_name e) of
           None \<Rightarrow>
             ([], Some (event_error (provider @ '' stream ended with incomplete tool call '' @ te_id e @ '': missing function name'') None),
              st\<lparr>os_tool_calls := []\<rparr>)
         | Some name \<Rightarrow>
             let (evs, st) = open_entry i (te_id e) name (te_arguments e) st;
                 (evs', err, st) = flush_entries provider is' st
             in (evs @ evs', err, st))"

definition flush_pending_oai_tool_calls ::
  "string \<Rightarrow> oai_state \<Rightarrow> assistant_message_event list \<times> assistant_message_event option \<times> oai_state" where
  "flush_pending_oai_tool_calls provider st = flush_entries provider (pending_indices st) st"

text \<open>Flushing the pending calls and closing every block.\<close>

definition flush_and_finalize :: "string \<Rightarrow> oai_state \<Rightarrow> assistant_message_event list \<times> assistant_message_event option \<times> oai_state" where
  "flush_and_finalize provider st =
     (let (evs, err, st) = flush_pending_oai_tool_calls provider st; (evs', st) = oai_finalize st in (evs @ evs', err, st))"

definition emit_terminal_error :: "assistant_message_event \<Rightarrow> oai_state \<Rightarrow> assistant_message_event list \<times> oai_state" where
  "emit_terminal_error ev st = (let (evs, _, st) = flush_and_finalize ''OpenAI-compatible'' st in (evs @ [ev], st))"

definition emit_done_from_done_sentinel :: "oai_state \<Rightarrow> assistant_message_event list \<times> oai_state" where
  "emit_done_from_done_sentinel st =
     (let (evs, err, st) = flush_and_finalize ''OpenAI-compatible'' st
      in case err of
           Some e \<Rightarrow> (evs @ [e], st)
         | None \<Rightarrow>
             (case os_terminal_error st of
                Some e \<Rightarrow> (evs @ [e], st\<lparr>os_terminal_error := None\<rparr>)
              | None \<Rightarrow>
                  (evs @ [Done (case os_stop_reason st of Some r \<Rightarrow> r | None \<Rightarrow> SrStop)
                               (case os_usage st of Some u \<Rightarrow> u | None \<Rightarrow> usage_default) cost_default],
                   st\<lparr>os_stop_reason := None, os_usage := None\<rparr>)))"

section \<open>Processing a chunk\<close>

fun process_tool_calls :: "string \<Rightarrow> oai_tool_call_delta list \<Rightarrow> oai_state \<Rightarrow> assistant_message_event list \<times> oai_state" where
  "process_tool_calls provider [] st = ([], st)"
| "process_tool_calls provider (tc # tcs) st =
     (let (evs, st) = process_oai_tool_call_delta provider tc st;
          (evs', st) = process_tool_calls provider tcs st
      in (evs @ evs', st))"

definition choice_reasoning :: "oai_delta \<Rightarrow> oai_state \<Rightarrow> assistant_message_event list \<times> oai_state" where
  "choice_reasoning d st =
     (case filled (dl_reasoning_content d) of
        None \<Rightarrow> ([], st)
      | Some reasoning \<Rightarrow> on_blocks (both ensure_thinking_open (emits (\<lambda>b. thinking_delta b reasoning))) st)"

definition choice_content :: "oai_delta \<Rightarrow> oai_state \<Rightarrow> assistant_message_event list \<times> oai_state" where
  "choice_content d st =
     (case filled (dl_content d) of
        None \<Rightarrow> ([], st)
      | Some content \<Rightarrow>
          on_blocks (both (close_thinking None) (both ensure_text_open (emits (\<lambda>b. text_delta b content)))) st)"

definition choice_tool_calls :: "string \<Rightarrow> oai_delta \<Rightarrow> oai_state \<Rightarrow> assistant_message_event list \<times> oai_state" where
  "choice_tool_calls provider d st =
     (case dl_tool_calls d of
        None \<Rightarrow> ([], st)
      | Some tool_calls \<Rightarrow>
          both (on_blocks (both (close_thinking None) close_text)) (process_tool_calls provider tool_calls) st)"

definition choice_delta :: "string \<Rightarrow> oai_delta \<Rightarrow> oai_state \<Rightarrow> assistant_message_event list \<times> oai_state" where
  "choice_delta provider d = both (choice_reasoning d) (both (choice_content d) (choice_tool_calls provider d))"

definition map_finish_reason :: "string \<Rightarrow> stop_reason" where
  "map_finish_reason reason =
     (if reason = ''tool_calls'' then SrToolUse
      else if reason = ''length'' \<or> reason = ''model_length'' then SrLength else SrStop)"

text \<open>
  What a choice says about the end: the flushed and closed blocks with the terminal error or the
  stop reason, and whether the rest of the chunk is still looked at.
\<close>

definition content_filtered :: "string \<Rightarrow> assistant_message_event" where
  "content_filtered provider = event_error (provider @ '' response stopped by content filter'') (Some ContentFilteredKind)"

definition stop_with :: "string \<Rightarrow> assistant_message_event \<Rightarrow> oai_state \<Rightarrow> assistant_message_event list \<times> oai_state" where
  "stop_with provider ev st =
     (let (evs, _, st) = flush_and_finalize provider st in (evs, st\<lparr>os_terminal_error := Some ev\<rparr>))"

definition choice_finish ::
  "string \<Rightarrow> oai_parser_options \<Rightarrow> oai_choice \<Rightarrow> oai_state \<Rightarrow> assistant_message_event list \<times> oai_state \<times> bool" where
  "choice_finish provider opts c st =
     (if po_detect_content_filter_results opts \<and> (case ch_content_filter_results c of Some v \<Rightarrow> content_filter_results_filtered v | None \<Rightarrow> False)
      then (let (evs, st) = stop_with provider (content_filtered provider) st in (evs, st, True))
      else case ch_finish_reason c of
        None \<Rightarrow> ([], st, False)
      | Some reason \<Rightarrow>
          if reason = ''content_filter''
          then (let (evs, st) = stop_with provider (content_filtered provider) st in (evs, st, True))
          else if po_error_finish_reason_is_error opts \<and> reason = ''error''
          then (let (evs, st) = stop_with provider
                  (Error SrError (provider @ '' reported finish_reason=error'') (os_usage st) None None) st in (evs, st, True))
          else (let (evs, err, st) = flush_and_finalize provider st
                in case err of
                     Some e \<Rightarrow> (evs, st\<lparr>os_terminal_error := Some e\<rparr>, True)
                   | None \<Rightarrow> (evs, st\<lparr>os_stop_reason := Some (map_finish_reason reason)\<rparr>, False)))"

fun process_choices :: "string \<Rightarrow> oai_parser_options \<Rightarrow> oai_choice list \<Rightarrow> oai_state \<Rightarrow> assistant_message_event list \<times> oai_state" where
  "process_choices provider opts [] st = ([], st)"
| "process_choices provider opts (c # cs) st =
     (let (evs, st) = choice_delta provider (ch_delta c) st;
          (evs', st, return) = choice_finish provider opts c st
      in if return then (evs @ evs', st)
         else let (evs'', st) = process_choices provider opts cs st in (evs @ evs' @ evs'', st))"

definition process_oai_chunk ::
  "string \<Rightarrow> oai_parser_options \<Rightarrow> oai_chunk \<Rightarrow> oai_state \<Rightarrow> assistant_message_event list \<times> oai_state" where
  "process_oai_chunk provider opts chunk st =
     process_choices provider opts (ck_choices chunk)
       (case ck_usage chunk of Some u \<Rightarrow> st\<lparr>os_usage := Some (to_usage u)\<rparr> | None \<Rightarrow> st)"

section \<open>The stream\<close>

definition finish_with :: "assistant_message_event \<Rightarrow> oai_state \<Rightarrow> sse_action \<times> oai_state" where
  "finish_with ev st = (let (evs, st) = emit_terminal_error ev st in (ActDone evs, st))"

definition oai_on_item :: "(string \<Rightarrow> (string, oai_chunk) result) \<Rightarrow> string \<Rightarrow> oai_parser_options
    \<Rightarrow> sse_line option \<Rightarrow> oai_state \<Rightarrow> sse_action \<times> oai_state" where
  "oai_on_item parse_chunk provider opts item st =
     (case item of
        None \<Rightarrow>
          (case os_terminal_error st of
             Some e \<Rightarrow> finish_with e (st\<lparr>os_terminal_error := None\<rparr>)
           | None \<Rightarrow> finish_with (event_error (provider @ '' stream ended unexpectedly'') (Some NetworkKind)) st)
      | Some SseDone \<Rightarrow> (let (evs, st) = emit_done_from_done_sentinel st in (ActDone evs, st))
      | Some (SseData d) \<Rightarrow>
          (case parse_chunk d of
             Inl e \<Rightarrow> finish_with (event_error (provider @ '' JSON parse error: '' @ e) None) st
           | Inr chunk \<Rightarrow>
               (let (evs, st) = process_oai_chunk provider opts chunk st
                in case os_terminal_error st of
                     Some e \<Rightarrow> (ActDone (evs @ [e]), st\<lparr>os_terminal_error := None\<rparr>)
                   | None \<Rightarrow> (ActContinue evs, st)))
      | Some (SseTransportError m) \<Rightarrow> finish_with (event_error (provider @ '' '' @ m) (Some NetworkKind)) st
      | Some (SseProtocolError m) \<Rightarrow> finish_with (event_error (provider @ '' '' @ m) None) st
      | Some _ \<Rightarrow> (ActSkip, st))"

definition oai_on_cancel :: "oai_state \<Rightarrow> assistant_message_event list" where
  "oai_on_cancel st = fst (oai_finalize st) @ [cancelled_event ''operation cancelled'']"

definition parse_oai_sse_stream :: "(string \<Rightarrow> (string, oai_chunk) result) \<Rightarrow> string \<Rightarrow> oai_parser_options
    \<Rightarrow> (nat \<Rightarrow> bool) \<Rightarrow> nat \<Rightarrow> byte_stream \<Rightarrow> assistant_message_event list \<times> bool" where
  "parse_oai_sse_stream parse_chunk provider opts cancelled k response =
     sse_adapter_stream (oai_on_item parse_chunk provider opts) oai_on_cancel cancelled k (sse_data_lines response) oai_new"

section \<open>Every stream is a message\<close>

definition oai_tracks :: "oai_state \<Rightarrow> acc \<Rightarrow> bool" where
  "oai_tracks st a \<longleftrightarrow> ba_tracks (os_blocks st) a
     \<and> (\<forall>k e i. hm_get (os_tool_calls st) k = Some e \<longrightarrow> te_content_index e = Some i \<longrightarrow> i \<in> set (ba_open_tool_calls (os_blocks st)))"

lemma oai_tracks_fields [simp]:
  "oai_tracks (st\<lparr>os_usage := u\<rparr>) = oai_tracks st" "oai_tracks (st\<lparr>os_stop_reason := r\<rparr>) = oai_tracks st"
  "oai_tracks (st\<lparr>os_terminal_error := e\<rparr>) = oai_tracks st"
  by (simp_all add: oai_tracks_def fun_eq_iff)

lemma on_blocks_sound:
  assumes "sound ba_tracks f" "keeps_calls f"
  shows "sound oai_tracks (on_blocks f)"
proof (rule soundI)
  fix from_str tol st a
  assume st: "oai_tracks st a"
  then have "accepted from_str tol (fst (f (os_blocks st))) a (ba_tracks (snd (f (os_blocks st))))"
    using assms(1) by (auto simp: oai_tracks_def intro: soundD)
  then show "accepted from_str tol (fst (on_blocks f st)) a (oai_tracks (snd (on_blocks f st)))"
    using st keeps_callsD[OF assms(2)]
    by (auto simp: on_blocks_def case_prod_beta oai_tracks_def elim!: accepted_mono)
qed

lemma choice_text_sound: "sound oai_tracks (choice_reasoning d)" "sound oai_tracks (choice_content d)"
proof -
  show "sound oai_tracks (choice_reasoning d)"
    unfolding choice_reasoning_def[abs_def]
    by (cases "filled (dl_reasoning_content d)") (auto intro!: on_blocks_sound block_ops)
  show "sound oai_tracks (choice_content d)"
    unfolding choice_content_def[abs_def]
    by (cases "filled (dl_content d)") (auto intro!: on_blocks_sound block_ops)
qed

lemma open_entry_sound:
  "sound oai_tracks (open_entry i eid name arguments)"
proof (rule soundI)
  fix from_str tol st a
  assume st: "oai_tracks st a"
  let ?b = "os_blocks st" and ?b' = "snd (snd (open_tool_call eid name (os_blocks st)))"
  have n: "ba_next_index ?b \<in> set (ba_open_tool_calls ?b')" "set (ba_open_tool_calls ?b) \<subseteq> set (ba_open_tool_calls ?b')"
    by (auto simp: open_tool_call_def alloc_index_def)
  have "accepted from_str tol [ToolCallStart (ba_next_index ?b) eid name] a (ba_tracks ?b')"
    using st by (intro tool_call_opens) (simp add: oai_tracks_def)
  then have "accepted from_str tol (ToolCallStart (ba_next_index ?b) eid name
      # (if arguments \<noteq> [] then [ToolCallDelta (ba_next_index ?b) arguments] else [])) a (ba_tracks ?b')"
    by (rule accepted_Cons) (use n tool_call_deltas in auto)
  moreover have "oai_tracks (snd (open_entry i eid name arguments st)) a'" if "ba_tracks ?b' a'" for a'
    using that st n by (auto simp: oai_tracks_def open_entry_def case_prod_beta Let_def open_tool_call_def alloc_index_def
        hm.get_ins split: if_splits)
  ultimately show "accepted from_str tol (fst (open_entry i eid name arguments st)) a (oai_tracks (snd (open_entry i eid name arguments st)))"
    using accepted_mono[of from_str tol _ a "ba_tracks ?b'" "oai_tracks (snd (open_entry i eid name arguments st))"]
    by (auto simp: open_entry_def case_prod_beta Let_def open_tool_call_def alloc_index_def)
qed

lemma update_entry_index [simp]: "te_content_index (update_entry tc e) = te_content_index e"
  by (simp add: update_entry_def Let_def split: option.split)

lemma put_entry_tracks:
  "oai_tracks st a \<Longrightarrow> (\<And>j. te_content_index e = Some j \<Longrightarrow> j \<in> set (ba_open_tool_calls (os_blocks st)))
     \<Longrightarrow> oai_tracks (st\<lparr>os_tool_calls := hm_insert i e (os_tool_calls st)\<rparr>) a"
  by (auto simp: oai_tracks_def hm.get_ins split: if_splits)

lemma tool_call_delta_sound: "sound oai_tracks (process_oai_tool_call_delta provider tc)"
proof (rule soundI)
  fix from_str tol st a
  assume st: "oai_tracks st a"
  let ?i = "td_index tc"
  define old where "old = (case hm_get (os_tool_calls st) ?i of Some e \<Rightarrow> e
     | None \<Rightarrow> \<lparr>te_id = (case td_id tc of Some i \<Rightarrow> i | None \<Rightarrow> provider @ ''-tool-'' @ show_nat ?i),
                te_name = None, te_arguments = [], te_content_index = None\<rparr>)"
  define e where "e = update_entry tc old"
  define st' where "st' = st\<lparr>os_tool_calls := hm_insert ?i e (os_tool_calls st)\<rparr>"
  have opened: "j \<in> set (ba_open_tool_calls (os_blocks st))" if "te_content_index e = Some j" for j
    using st that by (auto simp: e_def old_def oai_tracks_def split: option.splits)
  have st': "oai_tracks st' a" unfolding st'_def by (rule put_entry_tracks[OF st opened])
  have eq: "process_oai_tool_call_delta provider tc st =
     (case (te_content_index e, te_name e) of
           (None, Some name) \<Rightarrow> open_entry ?i (te_id e) name (te_arguments e) st'
         | (None, None) \<Rightarrow> ([], st')
         | (Some content_index, _) \<Rightarrow>
             ((case filled (Option.bind (td_function tc) fd_arguments) of
                 Some args \<Rightarrow> [ToolCallDelta content_index args] | None \<Rightarrow> []), st'))"
    unfolding process_oai_tool_call_delta_def Let_def old_def[symmetric] e_def[symmetric] st'_def[symmetric] by (rule refl)
  have delta: "accepted from_str tol [ToolCallDelta j d] a (oai_tracks st')" if "te_content_index e = Some j" for j d
    by (rule accepted_mono[OF tool_call_deltas[of "os_blocks st"]]) (use st st' opened[OF that] in \<open>auto simp: oai_tracks_def st'_def\<close>)
  show "accepted from_str tol (fst (process_oai_tool_call_delta provider tc st)) a (oai_tracks (snd (process_oai_tool_call_delta provider tc st)))"
    unfolding eq using st' delta soundD[OF open_entry_sound st']
    by (auto split: option.split)
qed

lemma tool_calls_sound: "sound oai_tracks (process_tool_calls provider tcs)"
proof (induction tcs)
  case (Cons tc tcs)
  have "process_tool_calls provider (tc # tcs) = both (process_oai_tool_call_delta provider tc) (process_tool_calls provider tcs)"
    by (rule ext) (simp add: both_def)
  then show ?case using Cons tool_call_delta_sound by auto
qed (simp add: sound_def)

lemma choice_delta_sound: "sound oai_tracks (choice_delta provider d)"
proof -
  have "sound oai_tracks (choice_tool_calls provider d)"
    unfolding choice_tool_calls_def[abs_def]
    by (cases "dl_tool_calls d") (auto intro!: on_blocks_sound block_ops tool_calls_sound)
  then show ?thesis unfolding choice_delta_def using choice_text_sound by blast
qed

text \<open>Flushing and closing.\<close>

lemma flush_sound:
  assumes "oai_tracks st a"
  shows "accepted from_str tol (fst (flush_entries provider ns st)) a (oai_tracks (snd (snd (flush_entries provider ns st))))"
  using assms
proof (induction ns arbitrary: st a)
  case (Cons n ns)
  let ?e = "the (hm_get (os_tool_calls st) n)"
  show ?case
  proof (cases "filled (te_name ?e)")
    case None
    then show ?thesis using Cons.prems by (simp add: Let_def oai_tracks_def)
  next
    case (Some name)
    show ?thesis
      using Some accepted_append[OF soundD[OF open_entry_sound Cons.prems] Cons.IH]
      by (simp add: Let_def case_prod_beta)
  qed
qed simp

lemma flush_error_terminal: "fst (snd (flush_entries provider ns st)) = Some e \<Longrightarrow> is_terminal e"
  by (induction ns arbitrary: st) (auto simp: Let_def case_prod_beta event_error_def split: option.splits)

lemma terminal_error_kept [simp]:
  "os_terminal_error (snd (on_blocks f st)) = os_terminal_error st"
  "os_terminal_error (snd (open_entry i eid name arguments st)) = os_terminal_error st"
  "os_terminal_error (snd (snd (flush_entries provider ns st))) = os_terminal_error st"
proof -
  show open_entry: "os_terminal_error (snd (open_entry i eid name arguments st)) = os_terminal_error st" for i eid name arguments st
    by (simp add: open_entry_def case_prod_beta Let_def)
  show "os_terminal_error (snd (on_blocks f st)) = os_terminal_error st"
    by (simp add: on_blocks_def case_prod_beta)
  show "os_terminal_error (snd (snd (flush_entries provider ns st))) = os_terminal_error st"
    by (induction ns arbitrary: st) (auto simp: Let_def case_prod_beta open_entry split: option.split)
qed

definition oai_closed :: "oai_state \<Rightarrow> bool" where
  "oai_closed st \<longleftrightarrow> ba_indices (os_blocks st) = {}"

lemma finalize_sound: "sound oai_tracks oai_finalize" "oai_closed (snd (oai_finalize st))"
proof -
  show "sound oai_tracks oai_finalize"
  proof (rule soundI)
    fix from_str tol st a
    assume "oai_tracks st a"
    then have "accepted from_str tol (fst (finalize_blocks (os_blocks st))) a (ba_tracks (snd (finalize_blocks (os_blocks st))))"
      by (intro soundD[OF block_ops_sound(8)]) (simp add: oai_tracks_def)
    then have "accepted from_str tol (fst (finalize_blocks (os_blocks st))) a (oai_tracks (snd (oai_finalize st)))"
      by (rule accepted_mono) (simp add: oai_tracks_def oai_finalize_def on_blocks_def case_prod_beta)
    then show "accepted from_str tol (fst (oai_finalize st)) a (oai_tracks (snd (oai_finalize st)))"
      by (simp add: oai_finalize_def on_blocks_def case_prod_beta)
  qed
  show "oai_closed (snd (oai_finalize st))"
    by (simp add: oai_closed_def oai_finalize_def on_blocks_def case_prod_beta finalized_empty)
qed

lemma flush_and_finalize_sound:
  assumes "flush_and_finalize provider st = (evs, err, st')"
  shows "oai_tracks st a \<Longrightarrow> accepted from_str tol evs a (oai_tracks st')" "oai_closed st'" "err = Some e \<Longrightarrow> is_terminal e"
    "os_terminal_error st' = os_terminal_error st"
proof -
  let ?f = "flush_entries provider (pending_indices st) st"
  have st': "evs = fst ?f @ fst (oai_finalize (snd (snd ?f)))" "err = fst (snd ?f)" "st' = snd (oai_finalize (snd (snd ?f)))"
    using assms by (simp_all add: flush_and_finalize_def flush_pending_oai_tool_calls_def case_prod_beta)
  show "accepted from_str tol evs a (oai_tracks st')" if "oai_tracks st a"
    unfolding st' by (rule accepted_append[OF flush_sound[OF that] soundD[OF finalize_sound(1)]])
  show "oai_closed st'" "err = Some e \<Longrightarrow> is_terminal e" "os_terminal_error st' = os_terminal_error st"
    using flush_error_terminal by (auto simp: st' finalize_sound(2)) (simp add: oai_finalize_def)
qed

lemma closed_terminal: "oai_tracks st a \<Longrightarrow> oai_closed st \<Longrightarrow> is_terminal ev \<Longrightarrow> accepted from_str tol [ev] a acc_saw_terminal"
  by (rule terminal_accepted[of "os_blocks st"]) (simp_all add: oai_tracks_def oai_closed_def)

lemma terminal_error_emitted:
  assumes "oai_tracks st a" "is_terminal ev" "emit_terminal_error ev st = (evs, st')"
  shows "accepted from_str tol evs a acc_saw_terminal"
proof -
  obtain evs' err st1 where f: "flush_and_finalize ''OpenAI-compatible'' st = (evs', err, st1)" by (cases "flush_and_finalize ''OpenAI-compatible'' st")
  note s = flush_and_finalize_sound[OF f]
  have "accepted from_str tol (evs' @ [ev]) a acc_saw_terminal"
    by (rule accepted_append[OF s(1)[OF assms(1)]]) (rule closed_terminal[OF _ s(2) assms(2)])
  with assms(3) f show ?thesis by (simp add: emit_terminal_error_def)
qed

lemma done_emitted:
  assumes "oai_tracks st a" "os_terminal_error st = None" "emit_done_from_done_sentinel st = (evs, st')"
  shows "accepted from_str tol evs a acc_saw_terminal"
proof -
  obtain evs' err st1 where f: "flush_and_finalize ''OpenAI-compatible'' st = (evs', err, st1)" by (cases "flush_and_finalize ''OpenAI-compatible'' st")
  note s = flush_and_finalize_sound[OF f]
  have "accepted from_str tol (evs' @ [ev]) a acc_saw_terminal" if "is_terminal ev" for ev
    by (rule accepted_append[OF s(1)[OF assms(1)]]) (rule closed_terminal[OF _ s(2) that])
  then show ?thesis
    using assms(2,3) s(3,4) f by (auto simp: emit_done_from_done_sentinel_def split: option.splits)
qed

text \<open>The end of a choice: either the chunk goes on without an error, or everything is closed.\<close>

definition chunk_done :: "oai_state \<Rightarrow> bool" where
  "chunk_done st \<longleftrightarrow> (case os_terminal_error st of None \<Rightarrow> True | Some e \<Rightarrow> is_terminal e \<and> oai_closed st)"

lemma stop_with_sound:
  assumes "stop_with provider ev st = (evs, st')"
  shows "oai_tracks st a \<Longrightarrow> accepted from_str tol evs a (oai_tracks st')" "is_terminal ev \<Longrightarrow> chunk_done st'"
proof -
  obtain evs' err st1 where f: "flush_and_finalize provider st = (evs', err, st1)" by (cases "flush_and_finalize provider st")
  with assms have "evs = evs'" "st' = st1\<lparr>os_terminal_error := Some ev\<rparr>" by (auto simp: stop_with_def)
  with flush_and_finalize_sound(1,2)[OF f]
  show "oai_tracks st a \<Longrightarrow> accepted from_str tol evs a (oai_tracks st')" "is_terminal ev \<Longrightarrow> chunk_done st'"
    by (simp_all add: chunk_done_def oai_closed_def)
qed

lemma choice_finish_cases:
  assumes "choice_finish provider opts c st = (evs, st', ret)"
  obtains (stop) ev where "stop_with provider ev st = (evs, st')" "is_terminal ev" ret
  | (more) "evs = []" "st' = st" "\<not> ret"
  | (failed) e st1 where "flush_and_finalize provider st = (evs, Some e, st1)" "st' = st1\<lparr>os_terminal_error := Some e\<rparr>" ret
  | (finished) r st1 where "flush_and_finalize provider st = (evs, None, st1)" "st' = st1\<lparr>os_stop_reason := Some r\<rparr>" "\<not> ret"
proof -
  obtain evs' err st1 where f: "flush_and_finalize provider st = (evs', err, st1)" by (cases "flush_and_finalize provider st")
  then show thesis
    using assms stop more failed finished
    by (auto simp: choice_finish_def content_filtered_def event_error_def split: if_splits option.splits prod.splits)
qed

lemma choice_finish_sound:
  assumes "choice_finish provider opts c st = (evs, st', ret)"
  shows "oai_tracks st a \<Longrightarrow> accepted from_str tol evs a (oai_tracks st')"
    "os_terminal_error st = None \<Longrightarrow> chunk_done st' \<and> (\<not> ret \<longrightarrow> os_terminal_error st' = None)"
proof -
  show "accepted from_str tol evs a (oai_tracks st')" if "oai_tracks st a"
    using assms that
    by (cases rule: choice_finish_cases) (auto intro: stop_with_sound(1) flush_and_finalize_sound(1))
  show "chunk_done st' \<and> (\<not> ret \<longrightarrow> os_terminal_error st' = None)" if "os_terminal_error st = None"
    using assms
  proof (cases rule: choice_finish_cases)
    case (failed e st1)
    with flush_and_finalize_sound(2,3)[OF failed(1)] show ?thesis by (simp add: chunk_done_def oai_closed_def)
  next
    case (finished r st1)
    with flush_and_finalize_sound(4)[OF finished(1)] that show ?thesis by (simp add: chunk_done_def)
  qed (use that in \<open>auto simp: chunk_done_def dest: stop_with_sound(2)\<close>)
qed

lemma choice_delta_keeps: "os_terminal_error (snd (choice_delta provider d st)) = os_terminal_error st"
proof -
  have tc: "os_terminal_error (snd (process_oai_tool_call_delta provider tc st)) = os_terminal_error st" for tc st
    by (auto simp: process_oai_tool_call_delta_def Let_def split: option.split)
  have tcs: "os_terminal_error (snd (process_tool_calls provider tcs st)) = os_terminal_error st" for tcs st
    by (induction tcs arbitrary: st) (simp_all add: case_prod_beta tc)
  show ?thesis
    by (auto simp: choice_delta_def both_def case_prod_beta choice_reasoning_def choice_content_def choice_tool_calls_def tcs
        split: option.split)
qed

lemma choices_done: "os_terminal_error st = None \<Longrightarrow> chunk_done (snd (process_choices provider opts cs st))"
proof (induction cs arbitrary: st)
  case (Cons c cs)
  obtain evs1 st1 where d: "choice_delta provider (ch_delta c) st = (evs1, st1)" by fastforce
  obtain evs2 st2 ret where f: "choice_finish provider opts c st1 = (evs2, st2, ret)" by (cases "choice_finish provider opts c st1")
  have "os_terminal_error st1 = None" using choice_delta_keeps[of provider "ch_delta c" st] d Cons.prems by simp
  with choice_finish_sound(2)[OF f] Cons.IH[of st2] d f show ?case by (simp add: case_prod_beta)
qed (simp add: chunk_done_def)

lemma choices_sound: "sound oai_tracks (process_choices provider opts cs)"
proof (induction cs)
  case (Cons c cs)
  show ?case
  proof (rule soundI)
    fix from_str tol st a
    assume st: "oai_tracks st a"
    obtain evs1 st1 where d: "choice_delta provider (ch_delta c) st = (evs1, st1)" by fastforce
    obtain evs2 st2 ret where f: "choice_finish provider opts c st1 = (evs2, st2, ret)" by (cases "choice_finish provider opts c st1")
    have "accepted from_str tol evs1 a (oai_tracks st1)" using soundD[OF choice_delta_sound st] d by (metis fst_conv snd_conv)
    then have "accepted from_str tol (evs1 @ evs2) a (oai_tracks st2)"
      by (rule accepted_append) (rule choice_finish_sound(1)[OF f])
    moreover from this have "accepted from_str tol ((evs1 @ evs2) @ fst (process_choices provider opts cs st2)) a
        (oai_tracks (snd (process_choices provider opts cs st2)))"
      by (rule accepted_append) (rule soundD[OF Cons])
    ultimately show "accepted from_str tol (fst (process_choices provider opts (c # cs) st)) a
        (oai_tracks (snd (process_choices provider opts (c # cs) st)))"
      using d f by (simp add: case_prod_beta)
  qed
qed (simp add: sound_def)

text \<open>The handler keeps the contract of the scaffolding.\<close>

definition oai_ready :: "oai_state \<Rightarrow> acc \<Rightarrow> bool" where
  "oai_ready st a \<longleftrightarrow> oai_tracks st a \<and> os_terminal_error st = None"

lemma chunk_sound:
  assumes "oai_ready st a" "process_oai_chunk provider opts chunk st = (evs, st')"
  shows "accepted from_str tol evs a (oai_tracks st')" "chunk_done st'"
proof -
  let ?st = "case ck_usage chunk of Some u \<Rightarrow> st\<lparr>os_usage := Some (to_usage u)\<rparr> | None \<Rightarrow> st"
  have st: "oai_tracks ?st a" "os_terminal_error ?st = None"
    using assms(1) by (auto simp: oai_ready_def split: option.split)
  have eq: "evs = fst (process_choices provider opts (ck_choices chunk) ?st)" "st' = snd (process_choices provider opts (ck_choices chunk) ?st)"
    using assms(2) by (simp_all add: process_oai_chunk_def)
  show "accepted from_str tol evs a (oai_tracks st')" "chunk_done st'"
    unfolding eq by (rule soundD[OF choices_sound st(1)], rule choices_done[OF st(2)])
qed

lemma finish_with_sound:
  "oai_tracks st a \<Longrightarrow> is_terminal ev \<Longrightarrow> finish_with ev st = (ActDone evs, st') \<Longrightarrow> accepted from_str tol evs a acc_saw_terminal"
  by (auto simp: finish_with_def split: prod.splits intro: terminal_error_emitted)

lemma finish_with_done: "fst (finish_with ev st) \<noteq> ActContinue evs" "fst (finish_with ev st) \<noteq> ActSkip"
  "\<exists>evs st'. finish_with ev st = (ActDone evs, st')"
  by (auto simp: finish_with_def split: prod.splits)

interpretation oai: line_handler "oai_on_item parse_chunk provider opts" oai_on_cancel oai_new oai_ready "\<lambda>_ _. True"
proof
  note fw = finish_with_done
  show "oai_ready oai_new acc_started"
    using tracks_started by (simp add: oai_ready_def oai_tracks_def oai_new_def)
  show "accepted from_str tol evs a (oai_ready s')"
    if r: "oai_ready s a" and i: "oai_on_item parse_chunk provider opts x s = (ActContinue evs, s')" for s a x evs s' from_str tol
  proof -
    obtain d chunk where c: "x = Some (SseData d)" "process_oai_chunk provider opts chunk s = (evs, s')" "os_terminal_error s' = None"
      using i fw(1)
      by (auto simp: oai_on_item_def split: option.splits sse_line.splits sum.splits prod.splits dest: arg_cong[where f = fst])
    show ?thesis by (rule accepted_mono[OF chunk_sound(1)[OF r c(2)]]) (simp add: oai_ready_def c(3))
  qed
  show "oai_ready s' a" if "oai_ready s a" "oai_on_item parse_chunk provider opts x s = (ActSkip, s')" for s a x s'
    using that fw(2)
    by (auto simp: oai_on_item_def split: option.splits sse_line.splits sum.splits prod.splits dest: arg_cong[where f = fst])
  show "accepted from_str tol evs a acc_saw_terminal"
    if r: "oai_ready s a" and i: "oai_on_item parse_chunk provider opts x s = (ActDone evs, s')" for s a x evs s' from_str tol
  proof -
    have t: "oai_tracks s a" "os_terminal_error s = None" using r by (simp_all add: oai_ready_def)
    consider (err) m k where "finish_with (event_error m k) s = (ActDone evs, s')"
      | (sentinel) "emit_done_from_done_sentinel s = (evs, s')"
      | (chunk) chunk evs1 s1 e where "process_oai_chunk provider opts chunk s = (evs1, s1)" "os_terminal_error s1 = Some e" "evs = evs1 @ [e]"
      using i t(2) by (auto simp: oai_on_item_def split: option.splits sse_line.splits sum.splits prod.splits)
    then show ?thesis
    proof cases
      case err
      then show ?thesis by (rule finish_with_sound[OF t(1), rotated]) (simp add: event_error_def)
    next
      case sentinel
      then show ?thesis by (rule done_emitted[OF t])
    next
      case (chunk chunk evs1 s1 e)
      have "is_terminal e" "oai_closed s1" using chunk_sound(2)[OF r chunk(1)] chunk(2) by (simp_all add: chunk_done_def)
      then show ?thesis
        unfolding chunk(3) by (intro accepted_append[OF chunk_sound(1)[OF r chunk(1)]] closed_terminal) simp_all
    qed
  qed
  show "accepted from_str tol (oai_on_cancel s) a acc_saw_terminal" if "oai_ready s a" for s a from_str tol
    unfolding oai_on_cancel_def
    by (rule accepted_append[OF soundD[OF finalize_sound(1)]], use that in \<open>simp add: oai_ready_def\<close>)
       (rule closed_terminal[OF _ finalize_sound(2)], simp_all add: cancelled_event_def)
  show "\<exists>evs s'. oai_on_item parse_chunk provider opts None s = (ActDone evs, s')" for s
    using fw(3) by (simp add: oai_on_item_def split: option.split)
qed

text \<open>A stream ends, and its events are a message, whatever the server sends.\<close>

lemma openai_stream_ends:
  assumes "length (sse_data_lines response) + 2 \<le> k"
  shows "snd (parse_oai_sse_stream parse_chunk provider opts cancelled k response)
    \<and> is_message (accumulate_message from_str now (fst (parse_oai_sse_stream parse_chunk provider opts cancelled k response)) provider' model)"
  unfolding parse_oai_sse_stream_def by (rule oai.stream_is_message[OF assms inputs_ok_True])

end
