(* ===== verification/Adapter_Base.thy ===== *)
theory Adapter_Base
  imports Errors_Retry Block_Accumulator
begin

text \<open>
  What the adapters share before a stream starts: the classification of HTTP failures
  (\<^verbatim>\<open>adapters/src/classify.rs\<close>) and the pure parts of
  \<^verbatim>\<open>adapters/src/base.rs\<close>. A status code is its number. Reading header values and
  dates belongs to libraries: \<open>parse_f64\<close> and \<open>parse_rfc2822\<close> are parameters.
\<close>

section \<open>Classification of a response\<close>

datatype http_error_kind = HttpAuth | HttpThrottled | HttpNetwork

definition classify_http_status :: "nat \<Rightarrow> http_error_kind option" where
  "classify_http_status code =
     (if code = 401 \<or> code = 403 then Some HttpAuth
      else if code = 429 then Some HttpThrottled
      else if code = 408 \<or> (500 \<le> code \<and> code \<le> 599) then Some HttpNetwork
      else None)"

fun classify_with_overrides :: "nat \<Rightarrow> (nat \<times> http_error_kind) list \<Rightarrow> http_error_kind option" where
  "classify_with_overrides code [] = classify_http_status code"
| "classify_with_overrides code ((override_code, kind) # overrides) =
     (if code = override_code then Some kind else classify_with_overrides code overrides)"

definition is_context_overflow_message :: "string \<Rightarrow> bool" where
  "is_context_overflow_message message =
     contains_any (to_lowercase message)
       [''prompt is too long'', ''exceed context limit'', ''input is too long'', ''too many input tokens'',
        ''maximum context length'', ''context_length_exceeded'', ''context length exceeded'', ''exceeds the context window'',
        ''exceeds the maximum number of tokens'', ''too large for model'', ''maximum prompt length'']"

definition is_model_retired_response :: "nat \<Rightarrow> string \<Rightarrow> bool" where
  "is_model_retired_response status body =
     ((status = 400 \<or> status = 404 \<or> status = 410) \<and>
      (let body = to_lowercase body in
         contains_any body [''model_not_found'', ''model_decommissioned'']
       \<or> (str_contains body ''model'' \<and>
          contains_any body [''decommission'', ''deprecated'', ''deprecation'', ''retired'', ''no longer supported'', ''not found'', ''does not exist''])))"

definition is_rate_limit_limit_header :: "string \<Rightarrow> bool" where
  "is_rate_limit_limit_header name =
     ((str_contains name ''ratelimit'' \<or> str_contains name ''rate-limit'')
      \<and> str_contains name ''limit'' \<and> \<not> str_contains name ''remaining'' \<and> \<not> str_contains name ''reset'')"

text \<open>A number is \<open>None\<close> when it is not finite.\<close>

definition rate_limit_header_value_is_zero :: "(string \<Rightarrow> real option option) \<Rightarrow> string \<Rightarrow> bool" where
  "rate_limit_header_value_is_zero parse_f64 v = (parse_f64 (str_trim v) = Some (Some 0))"

definition has_zero_rate_limit_allowance :: "(string \<Rightarrow> real option option) \<Rightarrow> (string \<times> string option) list \<Rightarrow> bool" where
  "has_zero_rate_limit_allowance parse_f64 headers =
     list_ex (\<lambda>(name, v). is_rate_limit_limit_header (to_lowercase name)
        \<and> (case v of Some s \<Rightarrow> rate_limit_header_value_is_zero parse_f64 s | None \<Rightarrow> False)) headers"

definition error_event_from_status_with_overrides ::
  "nat \<Rightarrow> string \<Rightarrow> string \<Rightarrow> (nat \<times> http_error_kind) list \<Rightarrow> assistant_message_event" where
  "error_event_from_status_with_overrides status body provider overrides =
     (case classify_with_overrides status overrides of
        Some HttpAuth \<Rightarrow> event_error (provider @ '' auth error (HTTP '' @ show_nat status @ ''): '' @ body) (Some AuthKind)
      | Some HttpThrottled \<Rightarrow> event_error (provider @ '' rate limit (HTTP '' @ show_nat status @ ''): '' @ body) (Some Throttled)
      | Some HttpNetwork \<Rightarrow> event_error (provider @ '' server error (HTTP '' @ show_nat status @ ''): '' @ body) (Some NetworkKind)
      | None \<Rightarrow>
          if is_model_retired_response status body
          then event_error (provider @ '' model retired or unavailable (HTTP '' @ show_nat status @ ''): '' @ body) (Some ModelRetiredKind)
          else if 400 \<le> status \<and> status < 500
          then event_error (provider @ '' client error (HTTP '' @ show_nat status @ ''): '' @ body) None
          else event_error (provider @ '' HTTP '' @ show_nat status @ '': '' @ body) None)"

definition error_event_from_status :: "nat \<Rightarrow> string \<Rightarrow> string \<Rightarrow> assistant_message_event" where
  "error_event_from_status status body provider = error_event_from_status_with_overrides status body provider []"

fun with_retry_after :: "assistant_message_event \<Rightarrow> duration option \<Rightarrow> assistant_message_event" where
  "with_retry_after (Error sr em u ek _) retry_after = Error sr em u ek retry_after"
| "with_retry_after ev _ = ev"

text \<open>A duration in nanoseconds; \<open>parse_rfc2822\<close> answers the instant, \<open>now\<close> is the clock.\<close>

definition is_digit :: "char \<Rightarrow> bool" where
  "is_digit c = (let n = of_char c :: nat in 48 \<le> n \<and> n \<le> 57)"

definition parse_u64 :: "string \<Rightarrow> nat option" where
  "parse_u64 s =
     (let ds = (case s of c # cs \<Rightarrow> if c = CHR ''+'' then cs else s | [] \<Rightarrow> []);
          n = fold (\<lambda>c n. n * 10 + (of_char c - 48)) ds (0::nat)
      in if ds \<noteq> [] \<and> list_all is_digit ds \<and> n < 2 ^ 64 then Some n else None)"

definition parse_retry_after_value :: "(string \<Rightarrow> int option) \<Rightarrow> int \<Rightarrow> string \<Rightarrow> duration option" where
  "parse_retry_after_value parse_rfc2822 now v =
     (let v = str_trim v in
      case parse_u64 v of
        Some seconds \<Rightarrow> Some (seconds * 10 ^ 9)
      | None \<Rightarrow> (case parse_rfc2822 v of None \<Rightarrow> None | Some target \<Rightarrow> Some (nat (target - now))))"

section \<open>Before the stream\<close>

definition pre_stream_error :: "assistant_message_event \<Rightarrow> assistant_message_event list" where
  "pre_stream_error event = [Start, event]"

definition cancelled_error :: "string \<Rightarrow> assistant_message_event" where
  "cancelled_error message = Error SrAborted message None None None"

definition prefix_start_if_unstarted :: "assistant_message_event \<Rightarrow> bool \<Rightarrow> assistant_message_event list \<times> bool" where
  "prefix_start_if_unstarted event started = (if started then ([event], True) else (pre_stream_error event, True))"

definition trim_end_slashes :: "string \<Rightarrow> string" where
  "trim_end_slashes s = rev (dropWhile (\<lambda>c. c = CHR ''/'') (rev s))"

definition merge_extra :: "(string \<times> json) list \<Rightarrow> (string \<times> json) list \<Rightarrow> string list \<Rightarrow> (string \<times> json) list" where
  "merge_extra body extra typed_keys =
     fold (\<lambda>(key, v) body. if key \<in> set typed_keys then body else hm_insert key v body) extra body"

text \<open>
  Reading the body of an error response: the chunks that arrive, each poll looking at the token
  first; \<open>None\<close> is the end of the body or a transport error. \<open>lossy\<close> stands for
  \<^verbatim>\<open>String::from_utf8_lossy\<close>.
\<close>

fun read_error_body :: "(string \<Rightarrow> string) \<Rightarrow> (nat \<Rightarrow> bool) \<Rightarrow> string \<Rightarrow> nat \<Rightarrow> nat \<Rightarrow> string list \<Rightarrow> string
    \<Rightarrow> (assistant_message_event, string) result" where
  "read_error_body lossy cancelled cancelled_message cap n [] bytes =
     (if cancelled n then Inl (cancelled_error cancelled_message) else Inr (lossy bytes))"
| "read_error_body lossy cancelled cancelled_message cap n (chunk # chunks) bytes =
     (if cancelled n then Inl (cancelled_error cancelled_message)
      else let remaining = cap - length bytes in
        if remaining = 0 then Inr (lossy bytes @ ''...[truncated]'')
        else let bytes = bytes @ take (min remaining (length chunk)) chunk in
          if remaining < length chunk then Inr (lossy bytes @ ''...[truncated]'')
          else read_error_body lossy cancelled cancelled_message cap (n + 1) chunks bytes)"

definition MAX_ERROR_BODY_BYTES :: nat where
  "MAX_ERROR_BODY_BYTES = 64 * 1024"

definition read_error_body_or_cancelled :: "(string \<Rightarrow> string) \<Rightarrow> (nat \<Rightarrow> bool) \<Rightarrow> string \<Rightarrow> string list \<Rightarrow> (assistant_message_event, string) result" where
  "read_error_body_or_cancelled lossy cancelled cancelled_message chunks =
     read_error_body lossy cancelled cancelled_message MAX_ERROR_BODY_BYTES 0 chunks []"

section \<open>What the agent loop makes of a failed response\<close>

text \<open>
  The loop retries by the kind of the error event and, when it has none, by the words of its
  message. So the status decides, except that the text of a client error can talk the loop into
  retrying.
\<close>

definition throttle_words :: "string \<Rightarrow> bool" where
  "throttle_words message =
     (\<not> contains_any (to_lowercase message) [''context window'', ''context_length_exceeded'']
      \<and> contains_any (to_lowercase message) [''rate limit'', ''429'', ''throttl''])"

lemma untyped_retryable:
  "is_retryable (classify_stream_error_for_model model message SrError None) \<longleftrightarrow> throttle_words message"
  by (simp add: classify_stream_error_for_model_def throttle_words_def Let_def)

lemma typed_retryable:
  "is_retryable (classify_stream_error_for_model model message SrError (Some kind)) \<longleftrightarrow> kind = Throttled \<or> kind = NetworkKind"
  by (cases kind) (simp_all add: classify_stream_error_for_model_def)

text \<open>
  A failed response is retried exactly for the statuses 408, 429 and 5xx; and for every other
  status that has no class of its own when the message, with the body of the response in it,
  happens to contain \<open>429\<close>, \<open>rate limit\<close> or \<open>throttl\<close> anywhere.
\<close>

theorem http_failure_retried:
  assumes "error_event_from_status status body provider = Error sr message u kind ra"
  shows "is_retryable (classify_stream_error_for_model model message sr kind) \<longleftrightarrow>
     status = 408 \<or> status = 429 \<or> (500 \<le> status \<and> status \<le> 599)
     \<or> (classify_http_status status = None \<and> \<not> is_model_retired_response status body \<and> throttle_words message)"
proof (cases "classify_http_status status")
  case None
  with assms show ?thesis
    by (auto simp: error_event_from_status_def error_event_from_status_with_overrides_def event_error_def untyped_retryable typed_retryable
        classify_http_status_def split: if_splits)
next
  case (Some k)
  with assms show ?thesis
    by (cases k) (auto simp: error_event_from_status_def error_event_from_status_with_overrides_def event_error_def typed_retryable
        classify_http_status_def split: if_splits)
qed

text \<open>A malformed request whose trace id contains the digits 429 is retried as if throttled.\<close>

theorem http_failure_retried_witness:
  "is_retryable (classify_stream_error_for_model ''m''
     ''OpenAI client error (HTTP 400): bad schema, request req_c429e1'' SrError None)"
proof -
  let ?body = "''bad schema, request req_c429e1''"
  let ?m = "''OpenAI client error (HTTP 400): bad schema, request req_c429e1''"
  have "error_event_from_status 400 ?body ''OpenAI'' = Error SrError ?m None None None" by code_simp
  moreover have "throttle_words ?m" "classify_http_status 400 = None" "\<not> is_model_retired_response 400 ?body" by code_simp+
  ultimately show ?thesis using http_failure_retried[of 400 ?body "''OpenAI''" SrError ?m None None None "''m''"] by blast
qed

end
