(* ===== verification/Oai_Transport.thy ===== *)
theory Oai_Transport
  imports OpenAI_Compat Adapter_Base
begin

text \<open>
  One call of an OpenAI-compatible provider (\<^verbatim>\<open>adapters/src/oai_transport.rs\<close>): what
  becomes of a request that cannot be sent, of an error response and of a stream. The HTTP library
  answers an \<open>oai_response\<close>.
\<close>

section \<open>Error responses\<close>

definition source_suffix :: "string \<Rightarrow> string \<Rightarrow> string" where
  "source_suffix source detail = source @ '': '' @ detail"

definition classify_oai_error_fields :: "string option \<Rightarrow> string option \<Rightarrow> string \<Rightarrow> string \<Rightarrow> string \<Rightarrow> assistant_message_event option" where
  "classify_oai_error_fields code message provider source detail =
     (let code = to_lowercase (case code of Some c \<Rightarrow> c | None \<Rightarrow> []);
          message = (case message of Some m \<Rightarrow> m | None \<Rightarrow> detail);
          classified = (\<lambda>what kind. Some (event_error (provider @ what @ source_suffix source detail) (Some kind)))
      in if code = ''context_length_exceeded'' \<or> is_context_overflow_message message
         then classified '' context window exceeded'' ContextWindowExceeded
         else if code = ''content_filter'' then classified '' content filter'' ContentFilteredKind
         else if code \<in> set [''rate_limit_exceeded'', ''rate_limit_error''] then classified '' rate limit'' Throttled
         else if code \<in> set [''authentication_error'', ''invalid_api_key'', ''permission_error'', ''permission_denied'']
         then classified '' auth error'' AuthKind
         else if code \<in> set [''server_error'', ''api_error'', ''internal_error''] then classified '' server error'' NetworkKind
         else if code \<in> set [''model_not_found'', ''model_decommissioned''] then classified '' model retired or unavailable'' ModelRetiredKind
         else None)"

definition error_fields :: "json \<Rightarrow> string option \<times> string option" where
  "error_fields v =
     (case json_get v ''error'' of
        Some (JString message) \<Rightarrow> (None, Some message)
      | Some e \<Rightarrow> (json_as_str (json_get e ''code''), json_as_str (json_get e ''message''))
      | None \<Rightarrow> (json_as_str (json_get v ''code''), json_as_str (json_get v ''message'')))"

definition classify_oai_error_body :: "json_parser \<Rightarrow> nat \<Rightarrow> string \<Rightarrow> string \<Rightarrow> assistant_message_event option" where
  "classify_oai_error_body from_str status body provider =
     (if \<not> (400 \<le> status \<and> status < 500) then None
      else case from_str body of
             Inl _ \<Rightarrow> None
           | Inr v \<Rightarrow>
               let (code, message) = error_fields v;
                   message = (case message of Some m \<Rightarrow> m | None \<Rightarrow> body)
               in classify_oai_error_fields code (Some message) provider ('' (HTTP '' @ show_nat status @ '')'') message)"

section \<open>A call\<close>

datatype oai_response =
    CannotSend string
  | CancelledBefore
  | Responded nat "(string \<times> string option) list" byte_stream

text \<open>
  \<open>error_cancelled\<close> is the token as the reading of an error body sees it, \<open>body_chunks\<close> the
  chunks of that body.
\<close>

definition body_chunks :: "byte_stream \<Rightarrow> string list" where
  "body_chunks bytes = map projr (takeWhile (\<lambda>b. \<not> isl b) bytes)"

definition is_success :: "nat \<Rightarrow> bool" where
  "is_success status = (200 \<le> status \<and> status < 300)"

definition zero_allowance_error :: "string \<Rightarrow> string option \<Rightarrow> nat \<Rightarrow> string \<Rightarrow> assistant_message_event" where
  "zero_allowance_error provider model_id code body =
     event_error (provider @ '' model unavailable for current plan (HTTP '' @ show_nat code @ '', zero rate-limit allowance for ''
         @ (case model_id of Some m \<Rightarrow> m | None \<Rightarrow> ''requested model'') @ ''): '' @ body) (Some ModelRetiredKind)"

definition oai_error_events :: "(string \<Rightarrow> real option option) \<Rightarrow> (nat \<Rightarrow> string \<Rightarrow> assistant_message_event option) \<Rightarrow> string \<Rightarrow> string option
    \<Rightarrow> nat \<Rightarrow> (string \<times> string option) list \<Rightarrow> string \<Rightarrow> assistant_message_event list" where
  "oai_error_events parse_f64 classify_error provider model_id code headers body =
     (case classify_error code body of
        Some event \<Rightarrow> [Start, event]
      | None \<Rightarrow>
          if code = 429 \<and> has_zero_rate_limit_allowance parse_f64 headers
          then [Start, zero_allowance_error provider model_id code body]
          else [Start, error_event_from_status code body provider])"

definition oai_send_and_parse :: "(string \<Rightarrow> real option option) \<Rightarrow> (string \<Rightarrow> string) \<Rightarrow> (string \<Rightarrow> (string, oai_chunk) result)
    \<Rightarrow> (nat \<Rightarrow> string \<Rightarrow> assistant_message_event option) \<Rightarrow> string \<Rightarrow> string option \<Rightarrow> oai_parser_options \<Rightarrow> (nat \<Rightarrow> bool) \<Rightarrow> nat
    \<Rightarrow> oai_response \<Rightarrow> assistant_message_event list \<times> bool" where
  "oai_send_and_parse parse_f64 lossy parse_chunk classify_error provider model_id opts cancelled k response =
     (case response of
        CancelledBefore \<Rightarrow> (pre_stream_error (cancelled_error ''operation cancelled''), True)
      | CannotSend e \<Rightarrow> ([Start, event_error (provider @ '' connection error: '' @ e) (Some NetworkKind)], True)
      | Responded code headers bytes \<Rightarrow>
          if is_success code then parse_oai_sse_stream parse_chunk provider opts cancelled k bytes
          else (case read_error_body_or_cancelled lossy cancelled ''operation cancelled'' (body_chunks bytes) of
                  Inl event \<Rightarrow> (pre_stream_error event, True)
                | Inr body \<Rightarrow> (oai_error_events parse_f64 classify_error provider model_id code headers body, True)))"

definition oai_call_events :: "json_parser \<Rightarrow> (string \<Rightarrow> real option option) \<Rightarrow> (string \<Rightarrow> string) \<Rightarrow> (string \<Rightarrow> (string, oai_chunk) result)
    \<Rightarrow> string \<Rightarrow> string option \<Rightarrow> oai_parser_options \<Rightarrow> (nat \<Rightarrow> bool) \<Rightarrow> nat \<Rightarrow> oai_response \<Rightarrow> assistant_message_event list \<times> bool" where
  "oai_call_events from_str parse_f64 lossy parse_chunk provider model_id opts =
     oai_send_and_parse parse_f64 lossy parse_chunk (\<lambda>status body. classify_oai_error_body from_str status body provider) provider model_id opts"

section \<open>What a call amounts to\<close>

lemmas call_defs = oai_call_events_def oai_send_and_parse_def

lemma start_terminal_is_message:
  assumes "is_terminal ev"
  shows "is_message (accumulate_message from_str now [Start, ev] provider model)"
proof (rule accepted_message)
  show "accepted from_str tol [ev] acc_started acc_saw_terminal" for tol
    by (rule terminal_accepted[OF tracks_started _ assms]) (simp add: ba_new_def ba_indices_def)
qed

lemma read_error_body_cancelled: "read_error_body lossy cancelled m cap n chunks bytes = Inl ev \<Longrightarrow> ev = cancelled_error m"
  by (induction chunks arbitrary: n bytes) (auto simp: Let_def split: if_splits)

lemma status_error_terminal: "is_terminal (error_event_from_status code body provider)"
  by (simp add: error_event_from_status_def error_event_from_status_with_overrides_def event_error_def split: option.split http_error_kind.split)

lemma classified_terminal: "classify_oai_error_body from_str status body provider = Some ev \<Longrightarrow> is_terminal ev"
  unfolding classify_oai_error_body_def classify_oai_error_fields_def Let_def event_error_def
  by (auto simp only: is_terminal.simps option.inject option.distinct split: if_splits sum.splits prod.splits)

lemma error_response_terminal:
  obtains ev where
    "oai_error_events parse_f64 (\<lambda>status body. classify_oai_error_body from_str status body provider) provider model_id code headers body = [Start, ev]"
    "is_terminal ev"
proof (cases "classify_oai_error_body from_str code body provider")
  case (Some ev)
  with that[of ev] classified_terminal[OF Some] show thesis by (simp add: oai_error_events_def)
next
  case None
  have "is_terminal (zero_allowance_error provider model_id code body)" by (simp add: zero_allowance_error_def event_error_def)
  with None that status_error_terminal show thesis
    by (cases "code = 429 \<and> has_zero_rate_limit_allowance parse_f64 headers") (simp_all add: oai_error_events_def)
qed

lemma openai_call_ends:
  assumes "\<And>code headers bytes. response = Responded code headers bytes \<Longrightarrow> length (sse_data_lines bytes) + 2 \<le> k"
  shows "snd (oai_call_events from_str parse_f64 lossy parse_chunk provider model_id opts cancelled k response)
    \<and> is_message (accumulate_message from_str' now
        (fst (oai_call_events from_str parse_f64 lossy parse_chunk provider model_id opts cancelled k response)) provider' model)"
proof (cases response)
  case (Responded code headers bytes)
  show ?thesis
  proof (cases "is_success code")
    case True
    with Responded openai_stream_ends[OF assms[OF Responded]] show ?thesis by (simp add: call_defs)
  next
    case False
    show ?thesis
    proof (cases "read_error_body_or_cancelled lossy cancelled ''operation cancelled'' (body_chunks bytes)")
      case (Inl ev)
      then have "is_terminal ev"
        by (auto simp: read_error_body_or_cancelled_def cancelled_error_def dest: read_error_body_cancelled)
      with Responded False Inl show ?thesis
        by (simp add: call_defs pre_stream_error_def start_terminal_is_message)
    next
      case (Inr body)
      let ?classify = "\<lambda>status body. classify_oai_error_body from_str status body provider"
      obtain ev where "oai_error_events parse_f64 ?classify provider model_id code headers body = [Start, ev]" "is_terminal ev"
        by (rule error_response_terminal)
      with Responded False Inr show ?thesis
        by (simp add: call_defs start_terminal_is_message)
    qed
  qed
qed (simp_all add: call_defs pre_stream_error_def cancelled_error_def event_error_def start_terminal_is_message)

text \<open>
  C30. A whole call of an OpenAI-compatible provider, whether the request cannot be sent, is refused
  with an error response, streams anything at all, breaks off or is cancelled, ends and yields
  events that are accepted as one message (or fail for tool arguments that are not JSON).
\<close>

theorem openai_call_is_message:
  assumes "\<And>code headers bytes. response = Responded code headers bytes \<Longrightarrow> length (sse_data_lines bytes) + 2 \<le> k"
  shows "snd (oai_call_events from_str parse_f64 lossy parse_chunk provider model_id opts cancelled k response)
    \<and> is_message (accumulate_message from_str' now
        (fst (oai_call_events from_str parse_f64 lossy parse_chunk provider model_id opts cancelled k response)) provider' model)"
  by (rule openai_call_ends[OF assms])

theorem openai_call_is_message_witness:
  "snd (oai_call_events Inl (\<lambda>_. None) id (\<lambda>_. Inl ''bad'') ''OpenAI'' None
      \<lparr>po_detect_content_filter_results = True, po_error_finish_reason_is_error = False\<rparr> (\<lambda>n. n = 2) 4
      (Responded 200 [] [Inr ''data: {}'', Inr [nl], Inr ''data: [DONE]'']))
   \<and> is_message (accumulate_message Inl 0 (fst (oai_call_events Inl (\<lambda>_. None) id (\<lambda>_. Inl ''bad'') ''OpenAI'' None
      \<lparr>po_detect_content_filter_results = True, po_error_finish_reason_is_error = False\<rparr> (\<lambda>n. n = 2) 4
      (Responded 200 [] [Inr ''data: {}'', Inr [nl], Inr ''data: [DONE]'']))) ''openai'' ''gpt'')"
proof -
  have "length (sse_data_lines [Inr ''data: {}'', Inr [nl], Inr ''data: [DONE]'']) + 2 = 4" by code_simp
  then show ?thesis by (intro openai_call_is_message) simp
qed

text \<open>
  A 429 whose headers grant nothing at all is meant to retire the model for this plan; the usual
  body of a 429, with the code \<open>rate_limit_exceeded\<close>, is classified before the headers are looked
  at and makes the same failure a throttled call.
\<close>

lemma usual_429_is_throttled:
  assumes "from_str body = Inr v" "json_get v ''error'' = Some e" "json_as_str (json_get e ''code'') = Some ''rate_limit_exceeded''"
    "json_as_str (json_get e ''message'') = Some m" "\<not> is_context_overflow_message m" "e \<noteq> JString s"
  shows "oai_error_events parse_f64 (\<lambda>status body. classify_oai_error_body from_str status body provider) provider model_id 429 headers body
    = [Start, event_error (provider @ '' rate limit'' @ source_suffix ('' (HTTP '' @ show_nat 429 @ '')'') m) (Some Throttled)]"
proof -
  have "to_lowercase ''rate_limit_exceeded'' = ''rate_limit_exceeded''" by code_simp
  moreover have "error_fields v = (Some ''rate_limit_exceeded'', Some m)"
    using assms by (cases e) (simp_all add: error_fields_def)
  ultimately show ?thesis
    using assms(1,5) by (simp add: oai_error_events_def classify_oai_error_body_def classify_oai_error_fields_def Let_def)
qed

end
