(* ===== verification/Message_Convert.thy ===== *)
theory Message_Convert
  imports Agent_Types
begin

text \<open>
  Message conversion of the adapters (\<^verbatim>\<open>src/convert.rs\<close>): the shared walk over a
  conversation, and the converters whose message types are close to the harness's own, those of
  OpenAI-compatible providers (\<^verbatim>\<open>adapters/src/openai_compat.rs\<close>) and of Ollama
  (\<^verbatim>\<open>adapters/src/ollama.rs\<close>). \<open>print\<close> stands for \<^verbatim>\<open>Value::to_string\<close>.
\<close>

section \<open>The shared walk\<close>

text \<open>The trait \<^verbatim>\<open>MessageConverter\<close> with its four callbacks.\<close>

record 'm message_converter =
  mc_system_message :: "string \<Rightarrow> 'm option"
  mc_user_message :: "user_message \<Rightarrow> 'm"
  mc_assistant_message :: "assistant_message \<Rightarrow> 'm"
  mc_tool_result_message :: "tool_result_message \<Rightarrow> 'm"

fun convert_message :: "'m message_converter \<Rightarrow> agent_message \<Rightarrow> 'm option" where
  "convert_message C (Llm (User user)) = Some (mc_user_message C user)"
| "convert_message C (Llm (Assistant assistant)) = Some (mc_assistant_message C assistant)"
| "convert_message C (Llm (ToolResult r)) = Some (mc_tool_result_message C r)"
| "convert_message C (Custom _) = None"

definition convert_messages :: "'m message_converter \<Rightarrow> agent_message list \<Rightarrow> string \<Rightarrow> 'm list" where
  "convert_messages C messages system_prompt =
     (if system_prompt = [] then [] else (case mc_system_message C system_prompt of Some sys \<Rightarrow> [sys] | None \<Rightarrow> []))
     @ List.map_filter (convert_message C) messages"

record tool_schema =
  ts_name :: string
  ts_description :: string
  ts_parameters :: json

section \<open>OpenAI-compatible messages\<close>

record oai_function_call_request =
  ofc_name :: string
  ofc_arguments :: string

record oai_tool_call_request =
  otc_id :: string
  otc_type :: string
  otc_function :: oai_function_call_request

record oai_message =
  om_role :: string
  om_content :: "string option"
  om_tool_calls :: "oai_tool_call_request list option"
  om_tool_call_id :: "string option"

definition concat_text :: "content_block list \<Rightarrow> string" where
  "concat_text bs = concat (List.map_filter (\<lambda>b. case b of Text t \<Rightarrow> Some t | _ \<Rightarrow> None) bs)"

definition oai_call :: "(json \<Rightarrow> string) \<Rightarrow> content_block \<Rightarrow> oai_tool_call_request option" where
  "oai_call print b = (case b of
     ToolCall cid name arguments _ \<Rightarrow>
       Some \<lparr>otc_id = cid, otc_type = ''function'', otc_function = \<lparr>ofc_name = name, ofc_arguments = print arguments\<rparr>\<rparr>
   | _ \<Rightarrow> None)"

definition unless_empty :: "'a list \<Rightarrow> 'a list option" where
  "unless_empty xs = (if xs = [] then None else Some xs)"

definition oai_system_message :: "string \<Rightarrow> oai_message option" where
  "oai_system_message system_prompt =
     Some \<lparr>om_role = ''system'', om_content = Some system_prompt, om_tool_calls = None, om_tool_call_id = None\<rparr>"

definition oai_user_message :: "user_message \<Rightarrow> oai_message" where
  "oai_user_message user =
     \<lparr>om_role = ''user'', om_content = Some (extract_text (um_content user)), om_tool_calls = None, om_tool_call_id = None\<rparr>"

definition oai_assistant_message :: "(json \<Rightarrow> string) \<Rightarrow> assistant_message \<Rightarrow> oai_message" where
  "oai_assistant_message print m =
     \<lparr>om_role = ''assistant'', om_content = unless_empty (concat_text (am_content m)),
      om_tool_calls = unless_empty (List.map_filter (oai_call print) (am_content m)), om_tool_call_id = None\<rparr>"

definition oai_tool_result_message :: "tool_result_message \<Rightarrow> oai_message" where
  "oai_tool_result_message r =
     \<lparr>om_role = ''tool'', om_content = Some (extract_text (tr_content r)), om_tool_calls = None,
      om_tool_call_id = Some (tr_tool_call_id r)\<rparr>"

definition oai_converter :: "(json \<Rightarrow> string) \<Rightarrow> oai_message message_converter" where
  "oai_converter print =
     \<lparr>mc_system_message = oai_system_message, mc_user_message = oai_user_message,
      mc_assistant_message = oai_assistant_message print, mc_tool_result_message = oai_tool_result_message\<rparr>"

record oai_tool =
  ot_type :: string
  ot_function :: tool_schema

definition build_oai_tools :: "tool_schema list \<Rightarrow> oai_tool list \<times> string option" where
  "build_oai_tools tools =
     (let oai_tools = map (\<lambda>s. \<lparr>ot_type = ''function'', ot_function = s\<rparr>) tools
      in (oai_tools, if oai_tools = [] then None else Some ''auto''))"

section \<open>Ollama messages\<close>

record ollama_message =
  lm_role :: string
  lm_content :: string
  lm_tool_calls :: "(string \<times> json) list option"

definition ollama_converter :: "ollama_message message_converter" where
  "ollama_converter =
     \<lparr>mc_system_message = (\<lambda>p. Some \<lparr>lm_role = ''system'', lm_content = p, lm_tool_calls = None\<rparr>),
      mc_user_message = (\<lambda>user. \<lparr>lm_role = ''user'', lm_content = extract_text (um_content user), lm_tool_calls = None\<rparr>),
      mc_assistant_message = (\<lambda>m. \<lparr>lm_role = ''assistant'', lm_content = concat_text (am_content m),
         lm_tool_calls = unless_empty (List.map_filter
           (\<lambda>b. case b of ToolCall _ name arguments _ \<Rightarrow> Some (name, arguments) | _ \<Rightarrow> None) (am_content m))\<rparr>),
      mc_tool_result_message = (\<lambda>r. \<lparr>lm_role = ''tool'', lm_content = extract_text (tr_content r), lm_tool_calls = None\<rparr>)\<rparr>"

end
