(* ===== verification/Gemini.thy ===== *)
theory Gemini
  imports Sse Adapter_Base
begin

text \<open>
  The Google Gemini adapter (\<^verbatim>\<open>adapters/src/google.rs\<close>): the contents of a request, and
  the stream whose tool calls arrive as snapshots and are handed out at the end.

  \<open>parse_chunk\<close> stands for \<^verbatim>\<open>serde_json::from_str::<GeminiChunk>\<close> and
  \<open>print\<close> for \<^verbatim>\<open>Value::to_string\<close>. The \<^verbatim>\<open>debug_assert\<close>s and the
  log lines are left out.
\<close>

section \<open>Requests\<close>

record gemini_function_call =
  gf_id :: "string option"
  gf_name :: string
  gf_args :: json

record gemini_part =
  gp_text :: "string option"
  gp_thought :: "bool option"
  gp_thought_signature :: "string option"
  gp_inline_data :: "(string \<times> string) option"
  gp_file_data :: "(string \<times> string) option"
  gp_function_call :: "gemini_function_call option"
  gp_function_response :: "(string \<times> json) option"

definition empty_part :: gemini_part where
  "empty_part = \<lparr>gp_text = None, gp_thought = None, gp_thought_signature = None, gp_inline_data = None, gp_file_data = None,
     gp_function_call = None, gp_function_response = None\<rparr>"

record gemini_content =
  gn_role :: string
  gn_parts :: "gemini_part list"

fun user_part :: "content_block \<Rightarrow> gemini_part option" where
  "user_part (Text t) = (if t \<noteq> [] then Some (empty_part\<lparr>gp_text := Some t\<rparr>) else None)"
| "user_part (Image (Base64 media_type d)) = Some (empty_part\<lparr>gp_inline_data := Some (media_type, d)\<rparr>)"
| "user_part (Image (Url url media_type)) = Some (empty_part\<lparr>gp_file_data := Some (media_type, url)\<rparr>)"
| "user_part _ = None"

fun assistant_part :: "content_block \<Rightarrow> gemini_part option" where
  "assistant_part (Text t) = (if t \<noteq> [] then Some (empty_part\<lparr>gp_text := Some t\<rparr>) else None)"
| "assistant_part (Thinking thinking signature) =
     (if thinking \<noteq> [] \<or> signature \<noteq> None
      then Some (empty_part\<lparr>gp_text := (if thinking \<noteq> [] then Some thinking else None), gp_thought := Some True,
                  gp_thought_signature := signature\<rparr>)
      else None)"
| "assistant_part (ToolCall cid name arguments _) =
     Some (empty_part\<lparr>gp_function_call := Some \<lparr>gf_id = Some cid, gf_name = name, gf_args = arguments\<rparr>\<rparr>)"
| "assistant_part _ = None"

definition learn_names :: "content_block list \<Rightarrow> (string, string) hashmap \<Rightarrow> (string, string) hashmap" where
  "learn_names bs names = fold (\<lambda>b m. case b of ToolCall cid name _ _ \<Rightarrow> hm_insert cid name m | _ \<Rightarrow> m) bs names"

definition tool_result_part :: "tool_result_message \<Rightarrow> (string, string) hashmap \<Rightarrow> gemini_part" where
  "tool_result_part r names =
     (let name = (case hm_get names (tr_tool_call_id r) of Some n \<Rightarrow> n | None \<Rightarrow> tr_tool_call_id r)
      in empty_part\<lparr>gp_function_response := Some (name, JObject [(''toolCallId'', JString (tr_tool_call_id r)),
           (''content'', JString (extract_text (tr_content r))), (''isError'', JBool (tr_is_error r))])\<rparr>)"

fun gemini_convert :: "(string, string) hashmap \<Rightarrow> agent_message list \<Rightarrow> gemini_content list" where
  "gemini_convert names [] = []"
| "gemini_convert names (Custom _ # ms) = gemini_convert names ms"
| "gemini_convert names (Llm (User user) # ms) =
     (let parts = List.map_filter user_part (um_content user)
      in (if parts \<noteq> [] then [\<lparr>gn_role = ''user'', gn_parts = parts\<rparr>] else []) @ gemini_convert names ms)"
| "gemini_convert names (Llm (Assistant m) # ms) =
     (let parts = List.map_filter assistant_part (am_content m)
      in (if parts \<noteq> [] then [\<lparr>gn_role = ''model'', gn_parts = parts\<rparr>] else [])
         @ gemini_convert (learn_names (am_content m) names) ms)"
| "gemini_convert names (Llm (ToolResult r) # ms) =
     \<lparr>gn_role = ''user'', gn_parts = [tool_result_part r names]\<rparr> # gemini_convert names ms"

definition gemini_convert_messages :: "agent_message list \<Rightarrow> gemini_content list" where
  "gemini_convert_messages ms = gemini_convert [] ms"

fun contains_thinking :: "agent_message \<Rightarrow> bool" where
  "contains_thinking (Llm (Assistant m)) = list_ex is_thinking_block (am_content m)"
| "contains_thinking _ = False"

fun contains_tool_call :: "agent_message \<Rightarrow> bool" where
  "contains_tool_call (Llm (Assistant m)) = list_ex is_tool_call_block (am_content m)"
| "contains_tool_call _ = False"

section \<open>The stream\<close>

record gemini_response_part =
  gr_text :: "string option"
  gr_thought :: "bool option"
  gr_thought_signature :: "string option"
  gr_function_call :: "gemini_function_call option"

record gemini_candidate =
  gc_content :: "gemini_response_part list option"
  gc_finish_reason :: "string option"

record gemini_usage_metadata =
  gu_prompt_token_count :: u64
  gu_candidates_token_count :: u64
  gu_total_token_count :: u64

record gemini_chunk =
  gk_candidates :: "gemini_candidate list"
  gk_usage_metadata :: "gemini_usage_metadata option"

record gemini_tool_call_state =
  gt_content_index :: usize
  gt_name :: string
  gt_arguments :: string

record gemini_state =
  gs_blocks :: block_accumulator
  gs_tool_calls :: "(string, gemini_tool_call_state) hashmap"
  gs_keys_by_part_index :: "(usize, string) hashmap"
  gs_next_generated_tool_call :: usize
  gs_saw_tool_call :: bool
  gs_usage :: usage
  gs_stop_reason :: "stop_reason option"
  gs_terminated :: bool

definition gemini_new :: gemini_state where
  "gemini_new = \<lparr>gs_blocks = ba_new, gs_tool_calls = [], gs_keys_by_part_index = [], gs_next_generated_tool_call = 0,
     gs_saw_tool_call = False, gs_usage = usage_default, gs_stop_reason = None, gs_terminated = False\<rparr>"

definition gemini_finalize :: "gemini_state emitter" where
  "gemini_finalize st = (let (evs, b) = finalize_blocks (gs_blocks st) in (evs, st\<lparr>gs_blocks := b, gs_tool_calls := []\<rparr>))"

definition emit_final_tool_deltas :: "gemini_state \<Rightarrow> assistant_message_event list" where
  "emit_final_tool_deltas st =
     map (\<lambda>tc. ToolCallDelta (gt_content_index tc) (gt_arguments tc))
       (sort_key gt_content_index (filter (\<lambda>tc. gt_arguments tc \<noteq> []) (map snd (gs_tool_calls st))))"

text \<open>The deltas of the buffered calls, the ends of the open blocks, and the terminal event.\<close>

definition gemini_close_with :: "assistant_message_event \<Rightarrow> gemini_state emitter" where
  "gemini_close_with ev st = (let (evs, st') = gemini_finalize st in (emit_final_tool_deltas st @ evs @ [ev], st'))"

fun gemini_map_finish_reason :: "string \<Rightarrow> bool \<Rightarrow> stop_reason" where
  "gemini_map_finish_reason finish_reason saw_tool_call =
     (if finish_reason = ''MAX_TOKENS'' then SrLength else if saw_tool_call then SrToolUse else SrStop)"

definition terminal_error_for_finish_reason :: "string \<Rightarrow> assistant_message_event option" where
  "terminal_error_for_finish_reason finish_reason =
     (let message = ''Google Gemini: terminal finish reason '' @ finish_reason in
      if finish_reason = ''SAFETY'' then Some (event_error ''Google Gemini: response blocked by safety filter'' (Some ContentFilteredKind))
      else if finish_reason \<in> set [''RECITATION'', ''BLOCKLIST'', ''PROHIBITED_CONTENT'', ''SPII'', ''IMAGE_SAFETY'',
                                    ''IMAGE_PROHIBITED_CONTENT'', ''IMAGE_RECITATION'']
      then Some (event_error message (Some ContentFilteredKind))
      else if finish_reason \<in> set [''MALFORMED_FUNCTION_CALL'', ''LANGUAGE'', ''OTHER'', ''IMAGE_OTHER'', ''NO_IMAGE'']
      then Some (event_error message None)
      else None)"

definition tool_call_identity :: "usize \<Rightarrow> gemini_function_call \<Rightarrow> gemini_state \<Rightarrow> (string \<times> string) \<times> gemini_state" where
  "tool_call_identity part_index fc st =
     (case gf_id fc of
        Some i \<Rightarrow> ((''provider:'' @ i, i), st)
      | None \<Rightarrow>
          let existing = (case hm_get (gs_keys_by_part_index st) part_index of
                            Some key \<Rightarrow> (case hm_get (gs_tool_calls st) key of
                                           Some tc \<Rightarrow> if gt_name tc = gf_name fc then Some key else None | None \<Rightarrow> None)
                          | None \<Rightarrow> None)
          in case existing of
               Some key \<Rightarrow> ((key, case strip_prefix ''generated:'' key of Some sequence \<Rightarrow> ''gemini-tool-'' @ sequence | None \<Rightarrow> key), st)
             | None \<Rightarrow>
                 let sequence = gs_next_generated_tool_call st; key = ''generated:'' @ show_nat sequence
                 in ((key, ''gemini-tool-'' @ show_nat sequence),
                     st\<lparr>gs_next_generated_tool_call := sequence + 1,
                        gs_keys_by_part_index := hm_insert part_index key (gs_keys_by_part_index st)\<rparr>))"

definition unnamed_call_error :: assistant_message_event where
  "unnamed_call_error = event_error ''Google Gemini function_call payload is missing a non-empty name'' None"

definition open_gemini_call :: "string \<Rightarrow> string \<Rightarrow> string \<Rightarrow> gemini_state emitter" where
  "open_gemini_call key cid name st =
     (if hm_get (gs_tool_calls st) key = None
      then let (content_index, start_ev, b) = open_tool_call cid name (gs_blocks st)
           in ([start_ev], st\<lparr>gs_saw_tool_call := True, gs_blocks := b,
                gs_tool_calls := hm_insert key \<lparr>gt_content_index = content_index, gt_name = name, gt_arguments = []\<rparr> (gs_tool_calls st)\<rparr>)
      else ([], st))"

definition process_function_call :: "(json \<Rightarrow> string) \<Rightarrow> usize \<Rightarrow> gemini_function_call \<Rightarrow> gemini_state emitter" where
  "process_function_call print part_index fc st =
     (if str_trim (gf_name fc) = []
      then let (evs, st) = gemini_close_with unnamed_call_error st in (evs, st\<lparr>gs_terminated := True\<rparr>)
      else let ((key, cid), st) = tool_call_identity part_index fc st;
               (evs, st) = open_gemini_call key cid (gf_name fc) st;
               entry = the (hm_get (gs_tool_calls st) key);
               args = (if gf_args fc = JNull then [] else print (gf_args fc))
           in (evs, st\<lparr>gs_tool_calls := hm_insert key (entry\<lparr>gt_arguments := args\<rparr>) (gs_tool_calls st)\<rparr>))"

definition gemini_blocks :: "block_accumulator emitter \<Rightarrow> gemini_state emitter" where
  "gemini_blocks f st = (let (evs, b) = f (gs_blocks st) in (evs, st\<lparr>gs_blocks := b\<rparr>))"

definition nonempty :: "string option \<Rightarrow> string option" where
  "nonempty s = (if s = Some [] then None else s)"

definition part_thought :: "gemini_response_part \<Rightarrow> block_accumulator emitter" where
  "part_thought part =
     both close_text (both ensure_thinking_open
       (\<lambda>b. (case nonempty (gr_text part) of Some t \<Rightarrow> thinking_delta b t | None \<Rightarrow> [],
             case gr_thought_signature part of Some sg \<Rightarrow> set_thinking_signature sg b | None \<Rightarrow> b)))"

definition process_part :: "(json \<Rightarrow> string) \<Rightarrow> usize \<Rightarrow> gemini_response_part \<Rightarrow> gemini_state emitter" where
  "process_part print part_index part =
     (if gr_thought part = Some True then gemini_blocks (part_thought part)
      else case gr_function_call part of
        Some fc \<Rightarrow> both (gemini_blocks (both close_text (close_thinking None))) (process_function_call print part_index fc)
      | None \<Rightarrow>
          (case nonempty (gr_text part) of
             Some t \<Rightarrow> gemini_blocks (both (close_thinking None) (both ensure_text_open (emits (\<lambda>b. text_delta b t))))
           | None \<Rightarrow> Pair []))"

fun process_parts :: "(json \<Rightarrow> string) \<Rightarrow> usize \<Rightarrow> gemini_response_part list \<Rightarrow> gemini_state emitter" where
  "process_parts print i [] = Pair []"
| "process_parts print i (p # ps) = both (process_part print i p) (process_parts print (i + 1) ps)"

definition finish_candidate :: "gemini_candidate \<Rightarrow> gemini_state emitter" where
  "finish_candidate c st =
     (case gc_finish_reason c of
        None \<Rightarrow> ([], st)
      | Some finish_reason \<Rightarrow>
          (case terminal_error_for_finish_reason finish_reason of
             Some e \<Rightarrow> (let (evs, st) = gemini_close_with e st in (evs, st\<lparr>gs_terminated := True\<rparr>))
           | None \<Rightarrow> ([], st\<lparr>gs_stop_reason := Some (gemini_map_finish_reason finish_reason (gs_saw_tool_call st))\<rparr>)))"

definition process_gemini_chunk :: "(json \<Rightarrow> string) \<Rightarrow> gemini_chunk \<Rightarrow> gemini_state emitter" where
  "process_gemini_chunk print chunk st =
     (let st = (case gk_usage_metadata chunk of
                  None \<Rightarrow> st
                | Some u \<Rightarrow> st\<lparr>gs_usage := usage_default\<lparr>u_input := gu_prompt_token_count u, u_output := gu_candidates_token_count u,
                                            u_total := gu_total_token_count u\<rparr>\<rparr>)
      in case gk_candidates chunk of
           [] \<Rightarrow> ([], st)
         | candidate # _ \<Rightarrow>
             both (case gc_content candidate of Some parts \<Rightarrow> process_parts print 0 parts | None \<Rightarrow> Pair []) (finish_candidate candidate) st)"

definition gemini_done :: "assistant_message_event \<Rightarrow> gemini_state \<Rightarrow> sse_action \<times> gemini_state" where
  "gemini_done ev st = (let (evs, st) = gemini_close_with ev st in (ActDone evs, st))"

definition gemini_on_item :: "(string \<Rightarrow> (string, gemini_chunk) result) \<Rightarrow> (json \<Rightarrow> string) \<Rightarrow> sse_line option \<Rightarrow> gemini_state
    \<Rightarrow> sse_action \<times> gemini_state" where
  "gemini_on_item parse_chunk print item st =
     (case item of
        None \<Rightarrow>
          if gs_terminated st then (ActDone [], st)
          else (case gs_stop_reason st of
                  None \<Rightarrow> gemini_done (event_error ''Google stream ended unexpectedly'' (Some NetworkKind)) st
                | Some r \<Rightarrow> gemini_done (Done r (gs_usage st) cost_default) st)
      | Some SseDone \<Rightarrow>
          if gs_terminated st then (ActDone [], st)
          else gemini_done (Done (case gs_stop_reason st of Some r \<Rightarrow> r | None \<Rightarrow> if gs_saw_tool_call st then SrToolUse else SrStop)
                              (gs_usage st) cost_default) st
      | Some (SseData line) \<Rightarrow>
          if gs_terminated st then (ActDone [], st)
          else (case parse_chunk line of
                  Inr chunk \<Rightarrow>
                    (let (evs, st) = process_gemini_chunk print chunk st
                     in (if gs_terminated st then ActDone evs else ActContinue evs, st))
                | Inl e \<Rightarrow> gemini_done (event_error (''Google JSON parse error: '' @ e) None) st)
      | Some (SseTransportError m) \<Rightarrow> gemini_done (event_error (''Google '' @ m) (Some NetworkKind)) st
      | Some (SseProtocolError m) \<Rightarrow> gemini_done (event_error (''Google '' @ m) None) st
      | Some _ \<Rightarrow> (ActSkip, st))"

definition gemini_on_cancel :: "gemini_state \<Rightarrow> assistant_message_event list" where
  "gemini_on_cancel st = fst (gemini_close_with (cancelled_event ''Google request cancelled'') st)"

definition gemini_stream :: "(string \<Rightarrow> (string, gemini_chunk) result) \<Rightarrow> (json \<Rightarrow> string) \<Rightarrow> (nat \<Rightarrow> bool) \<Rightarrow> nat \<Rightarrow> byte_stream
    \<Rightarrow> assistant_message_event list \<times> bool" where
  "gemini_stream parse_chunk print cancelled k response =
     sse_adapter_stream (gemini_on_item parse_chunk print) gemini_on_cancel cancelled k (sse_data_lines response) gemini_new"

section \<open>Every stream is a message\<close>

definition gemini_tracks :: "gemini_state \<Rightarrow> acc \<Rightarrow> bool" where
  "gemini_tracks st a \<longleftrightarrow> ba_tracks (gs_blocks st) a
     \<and> (\<forall>e \<in> snd ` set (gs_tool_calls st). gt_content_index e \<in> set (ba_open_tool_calls (gs_blocks st))) \<and> \<not> gs_terminated st"

lemma gemini_tracks_simps [simp]:
  "gemini_tracks (st\<lparr>gs_usage := u\<rparr>) = gemini_tracks st" "gemini_tracks (st\<lparr>gs_stop_reason := r\<rparr>) = gemini_tracks st"
  by (simp_all add: gemini_tracks_def fun_eq_iff)

lemma set_hm_insert: "set (hm_insert k v m) \<subseteq> insert (k, v) (set m)"
  by (induction m) auto

lemma gemini_blocks_sound:
  assumes "sound ba_tracks f" "keeps_calls f"
  shows "sound gemini_tracks (gemini_blocks f)"
proof (rule soundI)
  fix from_str tol st a
  assume st: "gemini_tracks st a"
  then have "accepted from_str tol (fst (f (gs_blocks st))) a (ba_tracks (snd (f (gs_blocks st))))"
    using assms(1) by (auto simp: gemini_tracks_def intro: soundD)
  then show "accepted from_str tol (fst (gemini_blocks f st)) a (gemini_tracks (snd (gemini_blocks f st)))"
    using st keeps_callsD[OF assms(2)]
    by (auto simp: gemini_blocks_def case_prod_beta gemini_tracks_def elim!: accepted_mono)
qed

lemma signature_keeps_calls [simp]: "ba_open_tool_calls (set_thinking_signature sg b) = ba_open_tool_calls b"
  by (auto simp: set_thinking_signature_def split: option.split)

lemma thinking_text_sound:
  "sound ba_tracks (\<lambda>b. (case nonempty t of Some t \<Rightarrow> thinking_delta b t | None \<Rightarrow> [],
      case sg of Some sg \<Rightarrow> set_thinking_signature sg b | None \<Rightarrow> b))"
  "keeps_calls (\<lambda>b. (case nonempty t of Some t \<Rightarrow> thinking_delta b t | None \<Rightarrow> [],
      case sg of Some sg \<Rightarrow> set_thinking_signature sg b | None \<Rightarrow> b))"
  by (auto simp: sound_def keeps_calls_def thinking_deltas split: option.split)

lemma part_thought_sound: "sound gemini_tracks (gemini_blocks (part_thought part))"
  unfolding part_thought_def by (intro gemini_blocks_sound block_ops thinking_text_sound)

text \<open>A named function call opens a call or takes a new snapshot of its arguments.\<close>

lemma tool_call_identity_keeps:
  "gs_blocks (snd (tool_call_identity i fc st)) = gs_blocks st" "gs_tool_calls (snd (tool_call_identity i fc st)) = gs_tool_calls st"
  "gs_terminated (snd (tool_call_identity i fc st)) = gs_terminated st"
  by (simp_all add: tool_call_identity_def Let_def split: option.split)

lemma open_gemini_call_sound: "sound gemini_tracks (open_gemini_call key cid name)"
proof (rule soundI)
  fix from_str tol st a
  assume st: "gemini_tracks st a"
  show "accepted from_str tol (fst (open_gemini_call key cid name st)) a (gemini_tracks (snd (open_gemini_call key cid name st)))"
  proof (cases "hm_get (gs_tool_calls st) key")
    case None
    have "accepted from_str tol [ToolCallStart (ba_next_index (gs_blocks st)) cid name] a
        (ba_tracks (snd (snd (open_tool_call cid name (gs_blocks st)))))"
      using st by (intro tool_call_opens) (simp add: gemini_tracks_def)
    then have "accepted from_str tol [ToolCallStart (ba_next_index (gs_blocks st)) cid name] a
        (gemini_tracks (snd (open_gemini_call key cid name st)))"
      by (rule accepted_mono)
         (use st None set_hm_insert in \<open>fastforce simp: gemini_tracks_def open_gemini_call_def open_tool_call_def alloc_index_def\<close>)
    then show ?thesis by (simp add: open_gemini_call_def open_tool_call_def alloc_index_def None)
  qed (use st in \<open>simp add: open_gemini_call_def\<close>)
qed

lemma function_call_sound:
  assumes "str_trim (gf_name fc) \<noteq> []"
  shows "sound gemini_tracks (process_function_call print i fc)"
proof (rule soundI)
  fix from_str tol st a
  assume st: "gemini_tracks st a"
  obtain key cid st1 where id: "tool_call_identity i fc st = ((key, cid), st1)" by (cases "tool_call_identity i fc st") auto
  obtain evs st2 where op: "open_gemini_call key cid (gf_name fc) st1 = (evs, st2)" by fastforce
  let ?entry = "the (hm_get (gs_tool_calls st2) key)" and ?args = "if gf_args fc = JNull then [] else print (gf_args fc)"
  have "gemini_tracks st1 a" using st tool_call_identity_keeps[of i fc st] by (simp add: id gemini_tracks_def)
  then have acc: "accepted from_str tol evs a (gemini_tracks st2)"
    using soundD[OF open_gemini_call_sound, of st1 a from_str tol key cid "gf_name fc"] op by simp
  obtain e where "hm_get (gs_tool_calls st2) key = Some e"
    using op by (auto simp: open_gemini_call_def case_prod_beta Let_def hm.get_ins split: if_splits)
  then have "?entry \<in> snd ` set (gs_tool_calls st2)" by (force dest: map_of_SomeD)
  then have "gemini_tracks (st2\<lparr>gs_tool_calls := hm_insert key (?entry\<lparr>gt_arguments := ?args\<rparr>) (gs_tool_calls st2)\<rparr>) a'"
    if "gemini_tracks st2 a'" for a'
    using that set_hm_insert[of key "?entry\<lparr>gt_arguments := ?args\<rparr>" "gs_tool_calls st2"]
    unfolding gemini_tracks_def by fastforce
  with acc have "accepted from_str tol evs a
      (gemini_tracks (st2\<lparr>gs_tool_calls := hm_insert key (?entry\<lparr>gt_arguments := ?args\<rparr>) (gs_tool_calls st2)\<rparr>))"
    by (rule accepted_mono)
  then show "accepted from_str tol (fst (process_function_call print i fc st)) a
      (gemini_tracks (snd (process_function_call print i fc st)))"
    using assms by (simp add: process_function_call_def id op)
qed

fun part_named :: "gemini_response_part \<Rightarrow> bool" where
  "part_named p = (gr_thought p = Some True \<or> (case gr_function_call p of None \<Rightarrow> True | Some fc \<Rightarrow> str_trim (gf_name fc) \<noteq> []))"

lemma process_part_sound: "part_named p \<Longrightarrow> sound gemini_tracks (process_part print i p)"
proof -
  assume named: "part_named p"
  consider (thought) "gr_thought p = Some True"
    | (call) fc where "gr_thought p \<noteq> Some True" "gr_function_call p = Some fc" "str_trim (gf_name fc) \<noteq> []"
    | (said) t where "gr_thought p \<noteq> Some True" "gr_function_call p = None" "nonempty (gr_text p) = Some t"
    | (nothing) "gr_thought p \<noteq> Some True" "gr_function_call p = None" "nonempty (gr_text p) = None"
    using named by (auto split: option.splits)
  then show ?thesis
  proof cases
    case thought
    then show ?thesis using part_thought_sound by (simp add: process_part_def[abs_def])
  next
    case call
    then show ?thesis
      by (simp add: process_part_def[abs_def]) (intro sound_both gemini_blocks_sound block_ops function_call_sound)
  next
    case said
    then show ?thesis by (simp add: process_part_def[abs_def]) (intro gemini_blocks_sound block_ops)
  next
    case nothing
    then show ?thesis by (simp add: process_part_def[abs_def])
  qed
qed

lemma process_parts_sound: "list_all part_named ps \<Longrightarrow> sound gemini_tracks (process_parts print i ps)"
proof (induction ps arbitrary: i)
  case (Cons p ps)
  then show ?case using process_part_sound[of p print i] by (simp del: part_named.simps) (rule sound_both)
qed simp

text \<open>Closing: the buffered arguments go to calls that are open, and the terminal event comes last.\<close>

lemma deltas_accepted:
  "ba_tracks b a \<Longrightarrow> \<forall>tc \<in> set tcs. gt_content_index tc \<in> set (ba_open_tool_calls b)
     \<Longrightarrow> accepted from_str tol (map (\<lambda>tc. ToolCallDelta (gt_content_index tc) (gt_arguments tc)) tcs) a (ba_tracks b)"
proof (induction tcs arbitrary: a)
  case (Cons tc tcs)
  then show ?case by (auto intro: accepted_Cons[OF tool_call_deltas])
qed simp

lemma final_deltas_accepted: "gemini_tracks st a \<Longrightarrow> accepted from_str tol (emit_final_tool_deltas st) a (ba_tracks (gs_blocks st))"
  unfolding emit_final_tool_deltas_def by (rule deltas_accepted) (auto simp: gemini_tracks_def)

lemma close_with_accepted:
  assumes "gemini_tracks st a" "is_terminal ev" "gemini_close_with ev st = (evs, st')"
  shows "accepted from_str tol evs a acc_saw_terminal"
proof -
  let ?f = "finalize_blocks (gs_blocks st)"
  have evs: "evs = emit_final_tool_deltas st @ fst ?f @ [ev]"
    using assms(3) by (auto simp: gemini_close_with_def gemini_finalize_def case_prod_beta)
  have "accepted from_str tol (fst ?f @ [ev]) a' acc_saw_terminal" if "ba_tracks (gs_blocks st) a'" for a'
    by (rule accepted_append[OF blocks_finalized[OF that]]) (rule terminal_accepted[OF _ finalized_empty assms(2)])
  then show ?thesis unfolding evs by (rule accepted_append[OF final_deltas_accepted[OF assms(1)]])
qed

definition named_calls :: "gemini_chunk \<Rightarrow> bool" where
  "named_calls chunk = (case gk_candidates chunk of [] \<Rightarrow> True | c # _ \<Rightarrow>
     (case gc_content c of None \<Rightarrow> True | Some parts \<Rightarrow> list_all part_named parts))"

definition closes_or :: "(gemini_state \<Rightarrow> acc \<Rightarrow> bool) \<Rightarrow> gemini_state \<Rightarrow> acc \<Rightarrow> bool" where
  "closes_or R st a \<longleftrightarrow> (if gs_terminated st then acc_saw_terminal a else R st a)"

lemma three_cases: "(if b then Some x else if c then Some y else if d then Some z else None) = Some e \<Longrightarrow> e = x \<or> e = y \<or> e = z"
  by (auto split: if_splits)

lemma finish_error_terminal: "terminal_error_for_finish_reason r = Some e \<Longrightarrow> is_terminal e"
  unfolding terminal_error_for_finish_reason_def Let_def
  by (drule three_cases) (auto simp only: event_error_def is_terminal.simps)

lemma finish_candidate_accepted:
  assumes "gemini_tracks st a"
  shows "accepted from_str tol (fst (finish_candidate c st)) a (closes_or gemini_tracks (snd (finish_candidate c st)))"
proof -
  have going: "\<not> gs_terminated st" using assms by (simp add: gemini_tracks_def)
  consider (none) "gc_finish_reason c = None"
    | (fails) r e where "gc_finish_reason c = Some r" "terminal_error_for_finish_reason r = Some e"
    | (stops) r where "gc_finish_reason c = Some r" "terminal_error_for_finish_reason r = None"
    by (cases "gc_finish_reason c") auto
  then show ?thesis
  proof cases
    case fails
    note t = finish_error_terminal[OF fails(2)]
    obtain evs st' where cl: "gemini_close_with e st = (evs, st')" by fastforce
    show ?thesis
      using accepted_mono[OF close_with_accepted[OF assms t cl], where Q = "closes_or gemini_tracks (st'\<lparr>gs_terminated := True\<rparr>)"] fails cl
      by (simp add: finish_candidate_def closes_or_def)
  qed (use assms going in \<open>simp_all add: finish_candidate_def closes_or_def\<close>)
qed

lemma chunk_accepted:
  assumes "gemini_tracks st a" "named_calls chunk" "process_gemini_chunk print chunk st = (evs, st')"
  shows "accepted from_str tol evs a (closes_or gemini_tracks st')"
proof -
  let ?st = "case gk_usage_metadata chunk of None \<Rightarrow> st
     | Some u \<Rightarrow> st\<lparr>gs_usage := usage_default\<lparr>u_input := gu_prompt_token_count u, u_output := gu_candidates_token_count u,
                                            u_total := gu_total_token_count u\<rparr>\<rparr>"
  have st: "gemini_tracks ?st a" "gs_terminated ?st = gs_terminated st" using assms(1) by (simp_all split: option.split)
  show ?thesis
  proof (cases "gk_candidates chunk")
    case Nil
    with assms(3) st show ?thesis by (auto simp: process_gemini_chunk_def closes_or_def gemini_tracks_def)
  next
    case (Cons c cs)
    let ?f = "case gc_content c of Some parts \<Rightarrow> process_parts print 0 parts | None \<Rightarrow> Pair []"
    have "sound gemini_tracks ?f"
      using assms(2) Cons by (auto simp: named_calls_def intro: process_parts_sound split: option.split)
    then have "accepted from_str tol (fst (?f ?st) @ fst (finish_candidate c (snd (?f ?st)))) a
        (closes_or gemini_tracks (snd (finish_candidate c (snd (?f ?st)))))"
      by (rule accepted_append[OF soundD[where R = gemini_tracks, OF _ st(1)] finish_candidate_accepted])
    moreover have "evs = fst (?f ?st) @ fst (finish_candidate c (snd (?f ?st)))" "st' = snd (finish_candidate c (snd (?f ?st)))"
      using assms(3) Cons by (auto simp: process_gemini_chunk_def both_def case_prod_beta Let_def)
    ultimately show ?thesis by simp
  qed
qed

definition gemini_ok :: "(string \<Rightarrow> (string, gemini_chunk) result) \<Rightarrow> gemini_state \<Rightarrow> sse_line option \<Rightarrow> bool" where
  "gemini_ok parse_chunk st item =
     (case item of Some (SseData line) \<Rightarrow> (case parse_chunk line of Inr chunk \<Rightarrow> named_calls chunk | Inl _ \<Rightarrow> True) | _ \<Rightarrow> True)"

lemma gemini_done_accepted:
  "gemini_tracks st a \<Longrightarrow> is_terminal ev \<Longrightarrow> gemini_done ev st = (ActDone evs, st') \<Longrightarrow> accepted from_str tol evs a acc_saw_terminal"
  by (auto simp: gemini_done_def split: prod.splits intro: close_with_accepted)

lemma gemini_done_is: "fst (gemini_done ev st) \<noteq> ActContinue evs" "fst (gemini_done ev st) \<noteq> ActSkip"
  "\<exists>evs st'. gemini_done ev st = (ActDone evs, st')"
  by (auto simp: gemini_done_def split: prod.splits)

interpretation gemini: line_handler "gemini_on_item parse_chunk print" gemini_on_cancel gemini_new gemini_tracks "gemini_ok parse_chunk"
proof
  note dn = gemini_done_is
  show "gemini_tracks gemini_new acc_started"
    using tracks_started by (simp add: gemini_tracks_def gemini_new_def)
  show "accepted from_str tol evs a (gemini_tracks s')"
    if r: "gemini_tracks s a" and k: "gemini_ok parse_chunk s x" and i: "gemini_on_item parse_chunk print x s = (ActContinue evs, s')"
    for s a x evs s' from_str tol
  proof -
    obtain d chunk where c: "x = Some (SseData d)" "parse_chunk d = Inr chunk" "process_gemini_chunk print chunk s = (evs, s')"
      "\<not> gs_terminated s'"
      using i dn(1)
      by (auto simp: gemini_on_item_def split: option.splits sse_line.splits sum.splits prod.splits if_splits dest: arg_cong[where f = fst])
    have "named_calls chunk" using k c by (simp add: gemini_ok_def)
    from accepted_mono[OF chunk_accepted[OF r this c(3)]] c(4) show ?thesis by (simp add: closes_or_def)
  qed
  show "gemini_tracks s' a" if "gemini_tracks s a" "gemini_ok parse_chunk s x" "gemini_on_item parse_chunk print x s = (ActSkip, s')" for s a x s'
    using that dn(2)
    by (auto simp: gemini_on_item_def split: option.splits sse_line.splits sum.splits prod.splits if_splits dest: arg_cong[where f = fst])
  show "accepted from_str tol evs a acc_saw_terminal"
    if r: "gemini_tracks s a" and k: "gemini_ok parse_chunk s x" and i: "gemini_on_item parse_chunk print x s = (ActDone evs, s')"
    for s a x evs s' from_str tol
  proof -
    have going: "\<not> gs_terminated s" using r by (simp add: gemini_tracks_def)
    consider (finished) ev where "gemini_done ev s = (ActDone evs, s')" "is_terminal ev"
      | (chunk) d chunk where "x = Some (SseData d)" "parse_chunk d = Inr chunk" "process_gemini_chunk print chunk s = (evs, s')" "gs_terminated s'"
      using i going
      by (auto simp: gemini_on_item_def event_error_def split: option.splits sse_line.splits sum.splits prod.splits if_splits)
    then show ?thesis
    proof cases
      case finished
      then show ?thesis by (auto intro: gemini_done_accepted[OF r])
    next
      case chunk
      have "named_calls chunk" using k chunk by (simp add: gemini_ok_def)
      from accepted_mono[OF chunk_accepted[OF r this chunk(3)]] chunk(4) show ?thesis by (simp add: closes_or_def)
    qed
  qed
  show "accepted from_str tol (gemini_on_cancel s) a acc_saw_terminal" if "gemini_tracks s a" for s a from_str tol
    using close_with_accepted[OF that, of "cancelled_event ''Google request cancelled''"]
    by (cases "gemini_close_with (cancelled_event ''Google request cancelled'') s") (simp add: gemini_on_cancel_def cancelled_event_def)
  show "\<exists>evs s'. gemini_on_item parse_chunk print None s = (ActDone evs, s')" for s
    using dn(3) by (simp add: gemini_on_item_def split: option.split)
qed


definition calls_named :: "(string \<Rightarrow> (string, gemini_chunk) result) \<Rightarrow> sse_line \<Rightarrow> bool" where
  "calls_named parse_chunk l = gemini_ok parse_chunk gemini_new (Some l)"

text \<open>Every stream with named calls ends and is a message.\<close>

lemma gemini_stream_ends:
  assumes "list_all (calls_named parse_chunk) (sse_data_lines response)" "length (sse_data_lines response) + 2 \<le> k"
  shows "snd (gemini_stream parse_chunk print cancelled k response)
    \<and> is_message (accumulate_message from_str now (fst (gemini_stream parse_chunk print cancelled k response)) provider model)"
proof -
  have "inputs_ok (gemini_ok parse_chunk) (gemini_on_item parse_chunk print) ls st" if "list_all (calls_named parse_chunk) ls" for ls st
    using that
    by (induction ls arbitrary: st) (auto simp: calls_named_def gemini_ok_def split: prod.split sse_action.split)
  with assms show ?thesis unfolding gemini_stream_def by (intro gemini.stream_is_message) simp_all
qed

section \<open>Examples\<close>

definition call_part :: "string \<Rightarrow> gemini_response_part" where
  "call_part name = \<lparr>gr_text = None, gr_thought = None, gr_thought_signature = None,
     gr_function_call = Some \<lparr>gf_id = None, gf_name = name, gf_args = JObject []\<rparr>\<rparr>"

definition text_part :: "string \<Rightarrow> gemini_response_part" where
  "text_part t = \<lparr>gr_text = Some t, gr_thought = None, gr_thought_signature = None, gr_function_call = None\<rparr>"

definition parts_chunk :: "gemini_response_part list \<Rightarrow> gemini_chunk" where
  "parts_chunk ps = \<lparr>gk_candidates = [\<lparr>gc_content = Some ps, gc_finish_reason = Some ''STOP''\<rparr>], gk_usage_metadata = None\<rparr>"

text \<open>
  A call without a name emits its terminal error, but the loop over the parts of the chunk
  goes on: any text after it in the same chunk follows the terminal event, and the accumulation
  refuses the whole message, error included.
\<close>

theorem unnamed_call_then_text_fails:
  assumes "str_trim name = []" "t \<noteq> []" "parse_chunk d = Inr (parts_chunk [call_part name, text_part t])"
  shows "fst (sse_adapter_stream (gemini_on_item parse_chunk print) gemini_on_cancel (\<lambda>_. False) 3 [SseData d] gemini_new)
      = [Start, unnamed_call_error, TextStart 0, TextDelta 0 t]
    \<and> accumulate_message from_str now
        (fst (sse_adapter_stream (gemini_on_item parse_chunk print) gemini_on_cancel (\<lambda>_. False) 3 [SseData d] gemini_new)) provider model
      = Inl ''content event after terminal event''"
proof -
  have "fst (sse_adapter_stream (gemini_on_item parse_chunk print) gemini_on_cancel (\<lambda>_. False) 3 [SseData d] gemini_new)
      = [Start, unnamed_call_error, TextStart 0, TextDelta 0 t]"
    using assms
    by (simp add: sse_adapter_stream_def numeral_3_eq_3 gemini_on_item_def process_gemini_chunk_def parts_chunk_def call_part_def text_part_def
        process_part_def both_def gemini_blocks_def close_text_def close_thinking_def gemini_new_def ba_new_def process_function_call_def
        gemini_close_with_def gemini_finalize_def finalize_blocks_def drain_open_blocks_def emit_final_tool_deltas_def nonempty_def
        ensure_text_open_def alloc_index_def emits_def text_delta_def finish_candidate_def terminal_error_for_finish_reason_def Let_def)
  then show ?thesis
    by (simp add: accumulate_message_def unnamed_call_error_def event_error_def acc_event_def acc_init_def
        on_start_def on_error_def validate_terminal_open_blocks_def)
qed

theorem unnamed_call_then_text_fails_witness:
  "accumulate_message Inl 0 (fst (sse_adapter_stream (gemini_on_item (\<lambda>_. Inr (parts_chunk [call_part '' '', text_part ''x''])) (\<lambda>_. [])) gemini_on_cancel
     (\<lambda>_. False) 3 [SseData ''{}''] gemini_new)) ''google'' ''gemini'' = Inl ''content event after terminal event''"
proof -
  have "str_trim '' '' = []" by code_simp
  then show ?thesis by (intro unnamed_call_then_text_fails[where t = "''x''", THEN conjunct2]) simp_all
qed

end
