(* ===== verification/Request_Bodies.thy ===== *)
theory Request_Bodies
  imports Message_Convert Gemini
begin

text \<open>
  The bodies of the requests: stream and serving options (\<^verbatim>\<open>src/stream.rs\<close>), and the
  bodies built from them for OpenAI-compatible providers
  (\<^verbatim>\<open>adapters/src/oai_transport.rs\<close>), Mistral, Ollama and Gemini. Numbers are those of
  the options; HTTP clients and headers are library calls.
\<close>

section \<open>Options\<close>

datatype response_format = FormatJson | FormatSchema json

record serving_options =
  so_context_length :: "u64 option"
  so_top_p :: "real option"
  so_keep_alive :: "string option"
  so_format :: "response_format option"
  so_extra :: "(string \<times> json) list"

record stream_options =
  st_temperature :: "real option"
  st_max_tokens :: "u64 option"
  st_session_id :: "string option"
  st_api_key :: "string option"
  st_serving :: serving_options

definition json_u64 :: "u64 \<Rightarrow> json" where
  "json_u64 n = JNumber (real (unat n))"

section \<open>OpenAI-compatible bodies\<close>

record oai_chat_request =
  oq_model :: string
  oq_messages :: "oai_message list"
  oq_stream :: bool
  oq_include_usage :: "bool option"
  oq_temperature :: "real option"
  oq_max_tokens :: "u64 option"
  oq_top_p :: "real option"
  oq_response_format :: "json option"
  oq_tools :: "oai_tool list"
  oq_tool_choice :: "string option"
  oq_extra :: "(string \<times> json) list"

definition oai_response_format :: "stream_options \<Rightarrow> json option" where
  "oai_response_format options =
     map_option (\<lambda>format. case format of
         FormatJson \<Rightarrow> JObject [(''type'', JString ''json_object'')]
       | FormatSchema schema \<Rightarrow> JObject [(''type'', JString ''json_schema''),
           (''json_schema'', JObject [(''name'', JString ''response''), (''strict'', JBool True), (''schema'', schema)])])
       (so_format (st_serving options))"

definition OAI_TYPED_KEYS :: "string list" where
  "OAI_TYPED_KEYS = [''model'', ''messages'', ''stream'', ''stream_options'', ''temperature'', ''max_tokens'', ''top_p'',
     ''response_format'', ''tools'', ''tool_choice'']"

definition prepare_oai_request :: "(json \<Rightarrow> string) \<Rightarrow> string \<Rightarrow> agent_message list \<Rightarrow> string \<Rightarrow> tool_schema list \<Rightarrow> stream_options
    \<Rightarrow> oai_chat_request" where
  "prepare_oai_request print model_id messages system_prompt tools options =
     (let (oai_tools, tool_choice) = build_oai_tools tools in
      \<lparr>oq_model = model_id, oq_messages = convert_messages (oai_converter print) messages system_prompt, oq_stream = True,
       oq_include_usage = Some True, oq_temperature = st_temperature options, oq_max_tokens = st_max_tokens options,
       oq_top_p = so_top_p (st_serving options), oq_response_format = oai_response_format options,
       oq_tools = oai_tools, oq_tool_choice = tool_choice, oq_extra = merge_extra [] (so_extra (st_serving options)) OAI_TYPED_KEYS\<rparr>)"

section \<open>Ollama bodies\<close>

definition ollama_response_format :: "stream_options \<Rightarrow> json option" where
  "ollama_response_format options =
     map_option (\<lambda>format. case format of FormatJson \<Rightarrow> JString ''json'' | FormatSchema schema \<Rightarrow> schema) (so_format (st_serving options))"

definition ollama_typed :: "stream_options \<Rightarrow> (string \<times> json option) list" where
  "ollama_typed options =
     [(''temperature'', map_option JNumber (st_temperature options)), (''num_predict'', map_option json_u64 (st_max_tokens options)),
      (''top_p'', map_option JNumber (so_top_p (st_serving options))),
      (''num_ctx'', map_option json_u64 (so_context_length (st_serving options)))]"

definition insert_typed :: "(string \<times> json option) list \<Rightarrow> (string \<times> json) list \<Rightarrow> (string \<times> json) list" where
  "insert_typed typed m = fold (\<lambda>(key, v) m. case v of Some v \<Rightarrow> hm_insert key v m | None \<Rightarrow> m) typed m"

definition generation_options :: "stream_options \<Rightarrow> (string \<times> json) list option" where
  "generation_options options =
     (let typed = ollama_typed options;
          set_keys = map fst (filter (\<lambda>(_, v). v \<noteq> None) typed);
          m = insert_typed typed (merge_extra [] (so_extra (st_serving options)) set_keys)
      in if m = [] then None else Some m)"

record ollama_chat_request =
  lq_model :: string
  lq_messages :: "ollama_message list"
  lq_stream :: bool
  lq_options :: "(string \<times> json) list option"
  lq_keep_alive :: "string option"
  lq_format :: "json option"
  lq_tools :: "oai_tool list"
  lq_think :: "bool option"

definition ollama_request :: "string \<Rightarrow> bool \<Rightarrow> agent_message list \<Rightarrow> string \<Rightarrow> tool_schema list \<Rightarrow> stream_options \<Rightarrow> ollama_chat_request" where
  "ollama_request model_id thinking_off messages system_prompt tools options =
     \<lparr>lq_model = model_id, lq_messages = convert_messages ollama_converter messages system_prompt, lq_stream = True,
      lq_options = generation_options options, lq_keep_alive = so_keep_alive (st_serving options),
      lq_format = ollama_response_format options, lq_tools = map (\<lambda>s. \<lparr>ot_type = ''function'', ot_function = s\<rparr>) tools,
      lq_think = (if thinking_off then None else Some True)\<rparr>"

section \<open>Gemini bodies\<close>

record gemini_generation_config =
  gg_temperature :: "real option"
  gg_max_output_tokens :: "u64 option"
  gg_include_thoughts :: "bool option"

record gemini_request =
  gq_system_instruction :: "gemini_content option"
  gq_contents :: "gemini_content list"
  gq_tools :: "tool_schema list list"
  gq_mode :: "string option"
  gq_generation_config :: "gemini_generation_config option"

definition gemini_build_tools :: "tool_schema list \<Rightarrow> tool_schema list list" where
  "gemini_build_tools tools = (if tools = [] then [] else [tools])"

definition gemini_convert_request :: "agent_message list \<Rightarrow> string \<Rightarrow> tool_schema list \<Rightarrow> stream_options \<Rightarrow> gemini_request" where
  "gemini_convert_request messages system_prompt tools options =
     (let include_thoughts = (list_ex contains_thinking messages \<or> list_ex contains_tool_call messages \<or> tools \<noteq> [])
      in \<lparr>gq_system_instruction =
            (if system_prompt = [] then None
             else Some \<lparr>gn_role = ''user'', gn_parts = [empty_part\<lparr>gp_text := Some system_prompt\<rparr>]\<rparr>),
          gq_contents = gemini_convert_messages messages, gq_tools = gemini_build_tools tools,
          gq_mode = (if gemini_build_tools tools = [] then None else Some ''AUTO''),
          gq_generation_config = Some \<lparr>gg_temperature = st_temperature options, gg_max_output_tokens = st_max_tokens options,
            gg_include_thoughts = (if include_thoughts then Some True else None)\<rparr>\<rparr>)"

definition classify_google_error_body :: "(string \<Rightarrow> (string, json) result) \<Rightarrow> nat \<Rightarrow> string \<Rightarrow> assistant_message_event option" where
  "classify_google_error_body from_str status body =
     (if status \<noteq> 400 then None
      else case from_str body of
             Inl _ \<Rightarrow> None
           | Inr v \<Rightarrow>
               (case json_as_str (Option.bind (json_get v ''error'') (\<lambda>e. json_get e ''message'')) of
                  None \<Rightarrow> None
                | Some message \<Rightarrow>
                    if is_context_overflow_message message
                    then Some (event_error (''Google context window exceeded: '' @ message) (Some ContextWindowExceeded)) else None))"

section \<open>Typed fields and extras\<close>

text \<open>
  Extra fields never replace a typed one: a typed option that is set decides its key, and every
  other key is the extra's.
\<close>

lemma merge_extra_get:
  "hm_get (merge_extra body extra typed_keys) k = (if k \<in> set typed_keys then hm_get body k
     else case map_of (rev extra) k of Some v \<Rightarrow> Some v | None \<Rightarrow> hm_get body k)"
proof (induction extra arbitrary: body)
  case (Cons e extra)
  obtain key v where e: "e = (key, v)" by (cases e)
  have "merge_extra body (e # extra) typed_keys
      = merge_extra (if key \<in> set typed_keys then body else hm_insert key v body) extra typed_keys"
    by (simp add: merge_extra_def e)
  then show ?case using Cons by (auto simp: e hm.get_ins map_add_def split: option.split)
qed (simp add: merge_extra_def)

lemma insert_typed_get:
  "distinct (map fst typed) \<Longrightarrow>
     hm_get (insert_typed typed m) k = (case map_of typed k of Some (Some v) \<Rightarrow> Some v | _ \<Rightarrow> hm_get m k)"
proof (induction typed arbitrary: m)
  case (Cons e typed)
  obtain key v where e: "e = (key, v)" by (cases e)
  have step: "insert_typed (e # typed) m = insert_typed typed (case v of Some v \<Rightarrow> hm_insert key v m | None \<Rightarrow> m)"
    by (simp add: insert_typed_def e)
  have "map_of typed key = None" using Cons.prems by (force simp: e map_of_eq_None_iff)
  then show ?case
    unfolding step using Cons
    by (auto simp: e hm.get_ins split: option.split)
qed (simp add: insert_typed_def)

definition option_of :: "stream_options \<Rightarrow> string \<Rightarrow> json option" where
  "option_of options k = (case generation_options options of None \<Rightarrow> None | Some m \<Rightarrow> hm_get m k)"

theorem typed_options_win:
  "option_of options k = (case map_of (ollama_typed options) k of
       Some (Some v) \<Rightarrow> Some v
     | _ \<Rightarrow> map_of (rev (so_extra (st_serving options))) k)"
proof -
  let ?typed = "ollama_typed options"
  let ?keys = "map fst (filter (\<lambda>(_, v). v \<noteq> None) ?typed)"
  let ?m = "insert_typed ?typed (merge_extra [] (so_extra (st_serving options)) ?keys)"
  have d: "distinct (map fst ?typed)" by (simp add: ollama_typed_def)
  have keys: "k \<in> set ?keys \<longleftrightarrow> (\<exists>v. map_of ?typed k = Some (Some v))"
    using d by (force simp: map_of_eq_Some_iff image_iff)
  have "option_of options k = hm_get ?m k" by (simp add: option_of_def generation_options_def Let_def)
  also have "\<dots> = (case map_of ?typed k of Some (Some v) \<Rightarrow> Some v
      | _ \<Rightarrow> hm_get (merge_extra [] (so_extra (st_serving options)) ?keys) k)" by (rule insert_typed_get[OF d])
  also have "\<dots> = (case map_of ?typed k of Some (Some v) \<Rightarrow> Some v | _ \<Rightarrow> map_of (rev (so_extra (st_serving options))) k)"
  proof (cases "k \<in> set ?keys")
    case True
    with keys obtain v where "map_of ?typed k = Some (Some v)" by blast
    then show ?thesis by simp
  next
    case False
    then have "hm_get (merge_extra [] (so_extra (st_serving options)) ?keys) k = map_of (rev (so_extra (st_serving options))) k"
      unfolding merge_extra_get by (simp split: option.split)
    then show ?thesis by (simp only:)
  qed
  finally show ?thesis .
qed

text \<open>The extras of an OpenAI-compatible body never repeat a typed key, so no key occurs twice.\<close>

lemma oai_extra_keys: "k \<in> set OAI_TYPED_KEYS \<Longrightarrow>
   hm_get (oq_extra (prepare_oai_request print model_id messages system_prompt tools options)) k = None"
  by (simp add: prepare_oai_request_def case_prod_beta merge_extra_get)

end
