(* ===== verification/Anthropic.thy ===== *)
theory Anthropic
  imports Sse Adapter_Base
begin

text \<open>
  The Anthropic adapter (\<^verbatim>\<open>adapters/src/anthropic.rs\<close>): how a conversation becomes a
  request, how the paired server events become assistant events, and how errors end the stream.

  \<open>from_str\<close> stands for \<^verbatim>\<open>serde_json::from_str::<Value>\<close>. The \<^verbatim>\<open>debug_assert\<close>s
  of the source are those of a release build, that is, absent. Log lines are left out.
\<close>

section \<open>Requests\<close>

datatype anthropic_block =
    ABText string
  | ABToolUse string string json
  | ABToolResult string string

record anthropic_message =
  anm_role :: string
  anm_content :: "anthropic_block list"

definition assistant_blocks :: "content_block list \<Rightarrow> anthropic_block list" where
  "assistant_blocks bs = List.map_filter (\<lambda>b. case b of
      Text t \<Rightarrow> if t \<noteq> [] then Some (ABText t) else None
    | ToolCall cid name arguments _ \<Rightarrow> Some (ABToolUse cid name arguments)
    | _ \<Rightarrow> None) bs"

fun is_result_block :: "anthropic_block \<Rightarrow> bool" where
  "is_result_block (ABToolResult _ _) = True"
| "is_result_block _ = False"

definition convert_one :: "anthropic_message list \<Rightarrow> agent_message \<Rightarrow> anthropic_message list" where
  "convert_one result msg =
     (case msg of
        Custom _ \<Rightarrow> result
      | Llm (User user) \<Rightarrow> result @ [\<lparr>anm_role = ''user'', anm_content = [ABText (extract_text (um_content user))]\<rparr>]
      | Llm (Assistant m) \<Rightarrow>
          (let content = assistant_blocks (am_content m)
           in if content \<noteq> [] then result @ [\<lparr>anm_role = ''assistant'', anm_content = content\<rparr>] else result)
      | Llm (ToolResult tr) \<Rightarrow>
          (let block = ABToolResult (tr_tool_call_id tr) (extract_text (tr_content tr))
           in if result \<noteq> [] \<and> anm_role (List.last result) = ''user'' \<and> list_all is_result_block (anm_content (List.last result))
              then butlast result @ [(List.last result)\<lparr>anm_content := anm_content (List.last result) @ [block]\<rparr>]
              else result @ [\<lparr>anm_role = ''user'', anm_content = [block]\<rparr>]))"

definition anthropic_convert_messages :: "agent_message list \<Rightarrow> string \<Rightarrow> string option \<times> anthropic_message list" where
  "anthropic_convert_messages messages system_prompt =
     ((if system_prompt = [] then None else Some system_prompt), foldl convert_one [] messages)"

definition default_budget :: "thinking_level \<Rightarrow> u64" where
  "default_budget level =
     (case level of TlMinimal \<Rightarrow> 1024 | TlLow \<Rightarrow> 2048 | TlHigh \<Rightarrow> 10000 | TlExtraHigh \<Rightarrow> 20000 | _ \<Rightarrow> 5000)"

text \<open>The budget of an \<^verbatim>\<open>AnthropicThinking\<close> of type \<open>enabled\<close>.\<close>

definition resolve_thinking :: "model_spec \<Rightarrow> u64 \<Rightarrow> u64 option" where
  "resolve_thinking model max_tokens =
     (if ms_thinking_level model = TlOff then None
      else let budget = (case Option.bind (ms_thinking_budgets model) (\<lambda>b. hm_get b (ms_thinking_level model)) of
                           Some b \<Rightarrow> b | None \<Rightarrow> default_budget (ms_thinking_level model))
           in Some (min budget (if max_tokens = 0 then 0 else max_tokens - 1)))"

section \<open>State of a stream\<close>

datatype block_type = BtText | BtThinking | BtToolUse

record anthropic_state =
  ans_blocks :: block_accumulator
  ans_provider_blocks :: "(usize, block_type \<times> usize) hashmap"
  ans_usage :: usage
  ans_stop_reason :: "stop_reason option"

definition anthropic_new :: anthropic_state where
  "anthropic_new = \<lparr>ans_blocks = ba_new, ans_provider_blocks = [], ans_usage = usage_default, ans_stop_reason = None\<rparr>"

definition anthropic_finalize :: "anthropic_state \<Rightarrow> assistant_message_event list \<times> anthropic_state" where
  "anthropic_finalize st =
     (let (evs, b) = finalize_blocks (ans_blocks st) in (evs, st\<lparr>ans_blocks := b, ans_provider_blocks := []\<rparr>))"

fun pointer :: "json \<Rightarrow> string list \<Rightarrow> json option" where
  "pointer v [] = Some v"
| "pointer v (k # ks) = (case json_get v k of None \<Rightarrow> None | Some w \<Rightarrow> pointer w ks)"

definition pointer_str :: "json \<Rightarrow> string list \<Rightarrow> string option" where
  "pointer_str v ks = json_as_str (pointer v ks)"

definition pointer_u64 :: "json \<Rightarrow> string list \<Rightarrow> u64 option" where
  "pointer_u64 v ks = map_option of_nat (json_as_u64 (pointer v ks))"

definition required_index :: "json \<Rightarrow> (string, usize) result" where
  "required_index parsed =
     (case json_get parsed ''index'' of
        None \<Rightarrow> Inl ''missing required field `index`''
      | Some i \<Rightarrow> (case json_as_u64 (Some i) of
                     None \<Rightarrow> Inl ''required field `index` must be a non-negative integer''
                   | Some n \<Rightarrow> Inr n))"

definition slashed :: "string list \<Rightarrow> string" where
  "slashed ks = concat (map (\<lambda>k. CHR ''/'' # k) ks)"

definition required_non_empty_str :: "json \<Rightarrow> string list \<Rightarrow> (string, string) result" where
  "required_non_empty_str parsed ks =
     (case pointer_str parsed ks of
        None \<Rightarrow> Inl (''missing required field `'' @ slashed ks @ ''`'')
      | Some v \<Rightarrow> if v = [] then Inl (''required field `'' @ slashed ks @ ''` must not be empty'') else Inr v)"

text \<open>An arm of \<^verbatim>\<open>process_sse_event\<close>: the events, the new state, and whether the stream is done.\<close>

type_synonym arm = "assistant_message_event list \<times> anthropic_state \<times> bool"

definition end_with :: "assistant_message_event \<Rightarrow> anthropic_state \<Rightarrow> arm" where
  "end_with ev st = (let (evs, st) = anthropic_finalize st in (evs @ [ev], st, True))"

definition malformed_event_parse_error :: "string \<Rightarrow> string \<Rightarrow> anthropic_state \<Rightarrow> arm" where
  "malformed_event_parse_error event_type e = end_with (event_error (''Anthropic '' @ event_type @ '' JSON parse error: '' @ e) None)"

definition malformed_event_protocol_error :: "string \<Rightarrow> string \<Rightarrow> anthropic_state \<Rightarrow> arm" where
  "malformed_event_protocol_error event_type m = end_with (event_error (''Anthropic '' @ event_type @ '' protocol error: '' @ m) None)"

definition with_parsed :: "json_parser \<Rightarrow> string \<Rightarrow> string \<Rightarrow> (json \<Rightarrow> anthropic_state \<Rightarrow> arm) \<Rightarrow> anthropic_state \<Rightarrow> arm" where
  "with_parsed from_str event_type d f st =
     (case from_str d of Inl e \<Rightarrow> malformed_event_parse_error event_type e st | Inr parsed \<Rightarrow> f parsed st)"

definition with_index :: "string \<Rightarrow> (json \<Rightarrow> usize \<Rightarrow> anthropic_state \<Rightarrow> arm) \<Rightarrow> json \<Rightarrow> anthropic_state \<Rightarrow> arm" where
  "with_index event_type f parsed st =
     (case required_index parsed of Inl e \<Rightarrow> malformed_event_protocol_error event_type e st | Inr i \<Rightarrow> f parsed i st)"

definition set_opt :: "('a \<Rightarrow> 'b \<Rightarrow> 'b) \<Rightarrow> 'a option \<Rightarrow> 'b \<Rightarrow> 'b" where
  "set_opt f x b = (case x of Some a \<Rightarrow> f a b | None \<Rightarrow> b)"

definition on_message_start :: "json \<Rightarrow> anthropic_state \<Rightarrow> arm" where
  "on_message_start parsed st =
     (let u = ans_usage st;
          u = set_opt (\<lambda>n u. u\<lparr>u_input := n\<rparr>) (pointer_u64 parsed [''message'', ''usage'', ''input_tokens'']) u;
          u = set_opt (\<lambda>n u. u\<lparr>u_cache_read := n\<rparr>) (pointer_u64 parsed [''message'', ''usage'', ''cache_read_input_tokens'']) u;
          u = set_opt (\<lambda>n u. u\<lparr>u_cache_write := n\<rparr>) (pointer_u64 parsed [''message'', ''usage'', ''cache_creation_input_tokens'']) u
      in ([], st\<lparr>ans_usage := u\<rparr>, False))"

definition map_block :: "usize \<Rightarrow> block_type \<Rightarrow> usize \<Rightarrow> anthropic_state \<Rightarrow> anthropic_state" where
  "map_block index bt content_index st =
     st\<lparr>ans_provider_blocks := hm_insert index (bt, content_index) (ans_provider_blocks st)\<rparr>"

definition start_text :: "usize \<Rightarrow> anthropic_state \<Rightarrow> arm" where
  "start_text index st =
     (let (evs, b) = ensure_text_open (ans_blocks st); st = st\<lparr>ans_blocks := b\<rparr>
      in (evs, set_opt (map_block index BtText) (ba_text_index b) st, False))"

definition start_thinking :: "usize \<Rightarrow> anthropic_state \<Rightarrow> arm" where
  "start_thinking index st =
     (let (evs, b) = ensure_thinking_open (ans_blocks st); st = st\<lparr>ans_blocks := b\<rparr>
      in (evs, set_opt (map_block index BtThinking) (map_option fst (ba_thinking_index b)) st, False))"

definition start_tool_use :: "string \<Rightarrow> json \<Rightarrow> usize \<Rightarrow> anthropic_state \<Rightarrow> arm" where
  "start_tool_use event_type parsed index st =
     (case required_non_empty_str parsed [''content_block'', ''id''] of
        Inl e \<Rightarrow> malformed_event_protocol_error event_type e st
      | Inr cid \<Rightarrow>
          (case required_non_empty_str parsed [''content_block'', ''name''] of
             Inl e \<Rightarrow> malformed_event_protocol_error event_type e st
           | Inr name \<Rightarrow>
               (let (content_index, start_ev, b) = open_tool_call cid name (ans_blocks st)
                in ([start_ev], map_block index BtToolUse content_index (st\<lparr>ans_blocks := b\<rparr>), False))))"

definition string_or_empty :: "string option \<Rightarrow> string" where
  "string_or_empty s = (case s of Some x \<Rightarrow> x | None \<Rightarrow> [])"

definition on_block_start :: "string \<Rightarrow> json \<Rightarrow> usize \<Rightarrow> anthropic_state \<Rightarrow> arm" where
  "on_block_start event_type parsed index st =
     (let block_type = string_or_empty (pointer_str parsed [''content_block'', ''type''])
      in if block_type = ''text'' then start_text index st
         else if block_type = ''thinking'' then start_thinking index st
         else if block_type = ''tool_use'' then start_tool_use event_type parsed index st
         else ([], st, False))"

definition on_block_delta :: "json \<Rightarrow> usize \<Rightarrow> anthropic_state \<Rightarrow> arm" where
  "on_block_delta parsed index st =
     (let delta_type = string_or_empty (pointer_str parsed [''delta'', ''type''])
      in case hm_get (ans_provider_blocks st) index of
           None \<Rightarrow> ([], st, False)
         | Some (bt, content_index) \<Rightarrow>
             if delta_type = ''text_delta'' then
               ((case pointer_str parsed [''delta'', ''text''] of Some t \<Rightarrow> [TextDelta content_index t] | None \<Rightarrow> []), st, False)
             else if delta_type = ''thinking_delta'' then
               ((case pointer_str parsed [''delta'', ''thinking''] of Some t \<Rightarrow> [ThinkingDelta content_index t] | None \<Rightarrow> []), st, False)
             else if delta_type = ''signature_delta'' then
               ([], (if bt = BtThinking
                     then set_opt (\<lambda>sg st. st\<lparr>ans_blocks := set_thinking_signature sg (ans_blocks st)\<rparr>)
                            (pointer_str parsed [''delta'', ''signature'']) st
                     else st), False)
             else if delta_type = ''input_json_delta'' then
               ((case pointer_str parsed [''delta'', ''partial_json''] of Some t \<Rightarrow> [ToolCallDelta content_index t] | None \<Rightarrow> []), st, False)
             else ([], st, False))"

definition on_block_stop :: "json \<Rightarrow> usize \<Rightarrow> anthropic_state \<Rightarrow> arm" where
  "on_block_stop parsed index st =
     (case hm_get (ans_provider_blocks st) index of
        None \<Rightarrow> ([], st, False)
      | Some (bt, content_index) \<Rightarrow>
          (let (evs, b) = (case bt of
                  BtText \<Rightarrow> close_text (ans_blocks st)
                | BtThinking \<Rightarrow> close_thinking (pointer_str parsed [''signature'']) (ans_blocks st)
                | BtToolUse \<Rightarrow> close_tool_call content_index (ans_blocks st))
           in (evs, st\<lparr>ans_provider_blocks := hm_remove index (ans_provider_blocks st), ans_blocks := b\<rparr>, False)))"

definition on_message_delta :: "json \<Rightarrow> anthropic_state \<Rightarrow> arm" where
  "on_message_delta parsed st =
     (let st = set_opt (\<lambda>reason st. st\<lparr>ans_stop_reason := Some (if reason = ''tool_use'' then SrToolUse
                                          else if reason = ''max_tokens'' then SrLength else SrStop)\<rparr>)
                 (pointer_str parsed [''delta'', ''stop_reason'']) st;
          st = set_opt (\<lambda>n st. st\<lparr>ans_usage := (ans_usage st)\<lparr>u_output := n\<rparr>\<rparr>) (pointer_u64 parsed [''usage'', ''output_tokens'']) st
      in ([], st, False))"

definition on_message_stop :: "anthropic_state \<Rightarrow> arm" where
  "on_message_stop st =
     (let (evs, st) = anthropic_finalize st;
          u = ans_usage st;
          u = u\<lparr>u_total := u_input u + u_output u + u_cache_read u + u_cache_write u\<rparr>
      in (evs @ [Done (case ans_stop_reason st of Some r \<Rightarrow> r | None \<Rightarrow> SrStop) u cost_default], st\<lparr>ans_usage := u\<rparr>, True))"

definition stream_error_event :: "string option \<Rightarrow> string \<Rightarrow> assistant_message_event" where
  "stream_error_event error_type msg =
     (if error_type = Some ''authentication_error'' \<or> error_type = Some ''permission_error'' then event_error msg (Some AuthKind)
      else if error_type = Some ''rate_limit_error'' then event_error msg (Some Throttled)
      else if error_type = Some ''invalid_request_error'' then
        (if is_context_overflow_message msg then event_error msg (Some ContextWindowExceeded) else event_error msg None)
      else if error_type = Some ''overloaded_error'' \<or> error_type = Some ''api_error'' \<or> error_type = Some ''server_error''
      then event_error msg (Some NetworkKind)
      else event_error msg None)"

definition on_stream_error :: "string \<Rightarrow> json \<Rightarrow> anthropic_state \<Rightarrow> arm" where
  "on_stream_error d parsed =
     end_with (stream_error_event (pointer_str parsed [''error'', ''type''])
       (case pointer_str parsed [''error'', ''message''] of Some m \<Rightarrow> m | None \<Rightarrow> ''Anthropic stream error: '' @ d))"

definition process_sse_event :: "json_parser \<Rightarrow> string \<Rightarrow> string \<Rightarrow> anthropic_state \<Rightarrow> arm" where
  "process_sse_event from_str event_type d st =
     (if event_type = ''message_start'' then with_parsed from_str event_type d on_message_start st
      else if event_type = ''content_block_start'' then
        with_parsed from_str event_type d (with_index event_type (on_block_start event_type)) st
      else if event_type = ''content_block_delta'' then with_parsed from_str event_type d (with_index event_type on_block_delta) st
      else if event_type = ''content_block_stop'' then with_parsed from_str event_type d (with_index event_type on_block_stop) st
      else if event_type = ''message_delta'' then with_parsed from_str event_type d on_message_delta st
      else if event_type = ''message_stop'' then on_message_stop st
      else if event_type = ''error'' then with_parsed from_str event_type d (on_stream_error d) st
      else ([], st, False))"

definition to_action :: "arm \<Rightarrow> sse_action \<times> anthropic_state" where
  "to_action r = (case r of (evs, st, over) \<Rightarrow> ((if over then ActDone evs else ActContinue evs), st))"

definition anthropic_on_item :: "json_parser \<Rightarrow> sse_event option \<Rightarrow> anthropic_state \<Rightarrow> sse_action \<times> anthropic_state" where
  "anthropic_on_item from_str item st =
     to_action (case item of
        None \<Rightarrow> end_with (event_error ''Anthropic stream ended unexpectedly'' (Some NetworkKind)) st
      | Some ev \<Rightarrow>
          if se_event_type ev = SSE_TRANSPORT_ERROR_EVENT then end_with (event_error (''Anthropic '' @ se_data ev) (Some NetworkKind)) st
          else if se_event_type ev = SSE_PROTOCOL_ERROR_EVENT then end_with (event_error (''Anthropic '' @ se_data ev) None) st
          else process_sse_event from_str (se_event_type ev) (se_data ev) st)"

definition anthropic_on_cancel :: "anthropic_state \<Rightarrow> assistant_message_event list" where
  "anthropic_on_cancel st = fst (anthropic_finalize st) @ [cancelled_event ''operation cancelled'']"

definition anthropic_stream :: "json_parser \<Rightarrow> (nat \<Rightarrow> bool) \<Rightarrow> nat \<Rightarrow> byte_stream \<Rightarrow> assistant_message_event list \<times> bool" where
  "anthropic_stream from_str cancelled k response =
     sse_adapter_stream (anthropic_on_item from_str) anthropic_on_cancel cancelled k (sse_paired_events response) anthropic_new"

definition classify_anthropic_error_body :: "json_parser \<Rightarrow> string \<Rightarrow> assistant_message_event option" where
  "classify_anthropic_error_body from_str body =
     (case from_str body of
        Inl _ \<Rightarrow> None
      | Inr v \<Rightarrow>
          (case (pointer_str v [''error'', ''type''], pointer_str v [''error'', ''message'']) of
             (Some error_type, Some message) \<Rightarrow>
               if error_type = ''invalid_request_error'' \<and> is_context_overflow_message message
               then Some (event_error (''Anthropic context window exceeded: '' @ message) (Some ContextWindowExceeded)) else None
           | _ \<Rightarrow> None))"

section \<open>Well-behaved servers\<close>

text \<open>
  The protocol the Messages API documents: blocks come one at a time, and the deltas of a text,
  thinking or tool-use block are of its kind. Other kinds of blocks and deltas are free.
\<close>

datatype block_view = StartsBlock usize string | DeltaOfBlock usize string | StopsBlock usize | NoBlock

definition view :: "json_parser \<Rightarrow> sse_event \<Rightarrow> block_view" where
  "view from_str ev =
     (case from_str (se_data ev) of
        Inl _ \<Rightarrow> NoBlock
      | Inr v \<Rightarrow>
          (case required_index v of
             Inl _ \<Rightarrow> NoBlock
           | Inr i \<Rightarrow>
               if se_event_type ev = ''content_block_start'' then StartsBlock i (string_or_empty (pointer_str v [''content_block'', ''type'']))
               else if se_event_type ev = ''content_block_delta'' then DeltaOfBlock i (string_or_empty (pointer_str v [''delta'', ''type'']))
               else if se_event_type ev = ''content_block_stop'' then StopsBlock i
               else NoBlock))"

definition delta_fits :: "string \<Rightarrow> string \<Rightarrow> bool" where
  "delta_fits ty d \<longleftrightarrow>
     (ty = ''text'' \<longrightarrow> d \<noteq> ''thinking_delta'' \<and> d \<noteq> ''input_json_delta'')
     \<and> (ty = ''thinking'' \<longrightarrow> d \<noteq> ''text_delta'' \<and> d \<noteq> ''input_json_delta'')
     \<and> (ty = ''tool_use'' \<longrightarrow> d \<noteq> ''text_delta'' \<and> d \<noteq> ''thinking_delta'')"

fun one_block_at_a_time :: "(usize \<times> string) option \<Rightarrow> block_view list \<Rightarrow> bool" where
  "one_block_at_a_time cur [] = True"
| "one_block_at_a_time None (StartsBlock i ty # vs) = one_block_at_a_time (Some (i, ty)) vs"
| "one_block_at_a_time (Some _) (StartsBlock _ _ # vs) = False"
| "one_block_at_a_time None (DeltaOfBlock _ _ # vs) = False"
| "one_block_at_a_time (Some (i, ty)) (DeltaOfBlock j d # vs) = (j = i \<and> delta_fits ty d \<and> one_block_at_a_time (Some (i, ty)) vs)"
| "one_block_at_a_time None (StopsBlock _ # vs) = False"
| "one_block_at_a_time (Some (i, ty)) (StopsBlock j # vs) = (j = i \<and> one_block_at_a_time None vs)"
| "one_block_at_a_time cur (NoBlock # vs) = one_block_at_a_time cur vs"

section \<open>Events of a well-behaved server are a message\<close>

fun role :: "block_accumulator \<Rightarrow> block_type \<Rightarrow> usize \<Rightarrow> bool" where
  "role b BtText i = (ba_text_index b = Some i)"
| "role b BtThinking i = (map_option fst (ba_thinking_index b) = Some i)"
| "role b BtToolUse i = (i \<in> set (ba_open_tool_calls b))"

definition roles_kept :: "block_accumulator \<Rightarrow> (usize, block_type \<times> usize) hashmap \<Rightarrow> bool" where
  "roles_kept b m \<longleftrightarrow> (\<forall>i bt c. hm_get m i = Some (bt, c) \<longrightarrow> role b bt c)
     \<and> (\<forall>i j x. hm_get m i = Some x \<longrightarrow> hm_get m j = Some x \<longrightarrow> i = j)"

definition anthropic_tracks :: "anthropic_state \<Rightarrow> acc \<Rightarrow> bool" where
  "anthropic_tracks st a \<longleftrightarrow> ba_tracks (ans_blocks st) a \<and> roles_kept (ans_blocks st) (ans_provider_blocks st)"

fun type_name_of :: "block_type \<Rightarrow> string" where
  "type_name_of BtText = ''text''"
| "type_name_of BtThinking = ''thinking''"
| "type_name_of BtToolUse = ''tool_use''"

fun view_ok :: "anthropic_state \<Rightarrow> block_view \<Rightarrow> bool" where
  "view_ok st (StartsBlock i ty) = ((ty = ''text'' \<longrightarrow> ba_text_index (ans_blocks st) = None)
     \<and> (ty = ''thinking'' \<longrightarrow> ba_thinking_index (ans_blocks st) = None))"
| "view_ok st (DeltaOfBlock i d) = (\<forall>bt c. hm_get (ans_provider_blocks st) i = Some (bt, c) \<longrightarrow> delta_fits (type_name_of bt) d)"
| "view_ok st _ = True"

definition arm_sound :: "json_parser \<Rightarrow> bool \<Rightarrow> acc \<Rightarrow> arm \<Rightarrow> bool" where
  "arm_sound from_str tol a r =
     (case r of (evs, st, over) \<Rightarrow> accepted from_str tol evs a (if over then acc_saw_terminal else anthropic_tracks st))"

lemma arm_soundI [intro]:
  "accepted from_str tol evs a (anthropic_tracks st) \<Longrightarrow> arm_sound from_str tol a (evs, st, False)"
  by (simp add: arm_sound_def)

lemma arm_sound_if:
  "(c \<Longrightarrow> arm_sound from_str tol a r) \<Longrightarrow> (\<not> c \<Longrightarrow> arm_sound from_str tol a r') \<Longrightarrow> arm_sound from_str tol a (if c then r else r')"
  by simp

lemma tracks_fields [simp]:
  "anthropic_tracks (st\<lparr>ans_usage := u\<rparr>) = anthropic_tracks st"
  "anthropic_tracks (st\<lparr>ans_stop_reason := r\<rparr>) = anthropic_tracks st"
  by (simp_all add: anthropic_tracks_def fun_eq_iff)

lemma tracks_set_opt [simp]:
  "(\<And>x st. anthropic_tracks (f x st) = anthropic_tracks st) \<Longrightarrow> anthropic_tracks (set_opt f v st) = anthropic_tracks st"
  by (cases v) (simp_all add: set_opt_def)

lemma anthropic_finalize_sound:
  assumes "anthropic_tracks st a"
  shows "accepted from_str tol (fst (anthropic_finalize st)) a (\<lambda>a'. ba_tracks (snd (finalize_blocks (ans_blocks st))) a')"
  using assms soundD[OF block_ops_sound(8)] by (auto simp: anthropic_finalize_def case_prod_beta anthropic_tracks_def)

lemma end_with_sound:
  assumes "anthropic_tracks st a" "is_terminal ev"
  shows "arm_sound from_str tol a (end_with ev st)"
proof -
  have "accepted from_str tol (fst (anthropic_finalize st) @ [ev]) a acc_saw_terminal"
    by (rule accepted_append[OF anthropic_finalize_sound[OF assms(1)]]) (rule terminal_accepted[OF _ finalized_empty assms(2)])
  then show ?thesis by (simp add: arm_sound_def end_with_def case_prod_beta)
qed

lemma event_error_terminal [simp]: "is_terminal (event_error m k)"
  by (simp add: event_error_def)

lemma with_parsed_sound:
  "anthropic_tracks st a \<Longrightarrow> (\<And>v. from_str d = Inr v \<Longrightarrow> arm_sound fs tol a (f v st)) \<Longrightarrow> arm_sound fs tol a (with_parsed from_str ty d f st)"
  by (cases "from_str d") (auto simp: with_parsed_def malformed_event_parse_error_def intro!: end_with_sound)

lemma with_index_sound:
  "anthropic_tracks st a \<Longrightarrow> (\<And>i. required_index v = Inr i \<Longrightarrow> arm_sound fs tol a (f v i st)) \<Longrightarrow> arm_sound fs tol a (with_index ty f v st)"
  by (cases "required_index v") (auto simp: with_index_def malformed_event_protocol_error_def intro!: end_with_sound)

text \<open>A new block is mapped; the mappings of the others stay.\<close>

lemma roles_kept_new:
  assumes "roles_kept b m" "role b' bt c" "\<not> role b bt c" "\<And>bt c. role b bt c \<Longrightarrow> role b' bt c"
  shows "roles_kept b' (hm_insert i (bt, c) m)"
  using assms unfolding roles_kept_def by (auto simp: hm.get_ins split: if_splits)

lemma roles_kept_rem:
  assumes "roles_kept b m" "hm_get m i = Some (bt, c)" "\<And>bt' c'. role b bt' c' \<Longrightarrow> (bt', c') \<noteq> (bt, c) \<Longrightarrow> role b' bt' c'"
  shows "roles_kept b' (hm_remove i m)"
proof -
  have "hm_get m j = Some (bt, c) \<Longrightarrow> j = i" for j using assms(1,2) unfolding roles_kept_def by blast
  then show ?thesis
    using assms unfolding roles_kept_def by (auto simp: hm.get_rem split: if_splits) metis+
qed

lemma start_text_sound:
  assumes "anthropic_tracks st a" "ba_text_index (ans_blocks st) = None"
  shows "arm_sound from_str tol a (start_text i st)"
proof -
  let ?b = "snd (ensure_text_open (ans_blocks st))"
  have b: "ba_text_index ?b = Some (ba_next_index (ans_blocks st))" "\<And>bt c. role (ans_blocks st) bt c \<Longrightarrow> role ?b bt c"
  proof -
    show "ba_text_index ?b = Some (ba_next_index (ans_blocks st))"
      using assms(2) by (simp add: ensure_text_open_def alloc_index_def)
    show "role ?b bt c" if "role (ans_blocks st) bt c" for bt c
      using that assms(2) by (cases bt) (auto simp: ensure_text_open_def alloc_index_def)
  qed
  have "accepted from_str tol (fst (ensure_text_open (ans_blocks st))) a (ba_tracks ?b)"
    using assms(1) text_opens by (simp add: anthropic_tracks_def)
  moreover have "roles_kept ?b (hm_insert i (BtText, ba_next_index (ans_blocks st)) (ans_provider_blocks st))"
    using assms b by (intro roles_kept_new[where b = "ans_blocks st"]) (simp_all add: anthropic_tracks_def)
  ultimately show ?thesis
    using b(1) by (auto simp: start_text_def case_prod_beta arm_sound_def set_opt_def map_block_def anthropic_tracks_def Let_def elim!: accepted_mono)
qed

lemma start_thinking_sound:
  assumes "anthropic_tracks st a" "ba_thinking_index (ans_blocks st) = None"
  shows "arm_sound from_str tol a (start_thinking i st)"
proof -
  let ?b = "snd (ensure_thinking_open (ans_blocks st))"
  have b: "map_option fst (ba_thinking_index ?b) = Some (ba_next_index (ans_blocks st))" "\<And>bt c. role (ans_blocks st) bt c \<Longrightarrow> role ?b bt c"
  proof -
    show "map_option fst (ba_thinking_index ?b) = Some (ba_next_index (ans_blocks st))"
      using assms(2) by (simp add: ensure_thinking_open_def alloc_index_def)
    show "role ?b bt c" if "role (ans_blocks st) bt c" for bt c
      using that assms(2) by (cases bt) (auto simp: ensure_thinking_open_def alloc_index_def)
  qed
  have "accepted from_str tol (fst (ensure_thinking_open (ans_blocks st))) a (ba_tracks ?b)"
    using assms(1) thinking_opens by (simp add: anthropic_tracks_def)
  moreover have "roles_kept ?b (hm_insert i (BtThinking, ba_next_index (ans_blocks st)) (ans_provider_blocks st))"
    using assms b by (intro roles_kept_new[where b = "ans_blocks st"]) (simp_all add: anthropic_tracks_def)
  ultimately show ?thesis
    using b(1) by (auto simp: start_thinking_def case_prod_beta arm_sound_def set_opt_def map_block_def anthropic_tracks_def Let_def elim!: accepted_mono)
qed

lemma start_tool_use_sound:
  assumes "anthropic_tracks st a"
  shows "arm_sound from_str tol a (start_tool_use ty v i st)"
proof (cases "required_non_empty_str v [''content_block'', ''id'']")
  case (Inr cid)
  show ?thesis
  proof (cases "required_non_empty_str v [''content_block'', ''name'']")
    case (Inr name)
    let ?b = "ans_blocks st" and ?b' = "snd (snd (open_tool_call cid name (ans_blocks st)))"
    have t: "ba_tracks ?b a" "roles_kept ?b (ans_provider_blocks st)" using assms by (simp_all add: anthropic_tracks_def)
    have "ba_next_index ?b \<notin> set (ba_open_tool_calls ?b)" using next_unused[OF t(1)] by (auto simp: ba_indices_def)
    moreover have "role ?b' BtToolUse (ba_next_index ?b)" "\<And>bt c. role ?b bt c \<Longrightarrow> role ?b' bt c"
    proof -
      show "role ?b' BtToolUse (ba_next_index ?b)" by (simp add: open_tool_call_def alloc_index_def)
      show "role ?b' bt c" if "role ?b bt c" for bt c using that by (cases bt) (auto simp: open_tool_call_def alloc_index_def)
    qed
    ultimately have "roles_kept ?b' (hm_insert i (BtToolUse, ba_next_index ?b) (ans_provider_blocks st))"
      by (intro roles_kept_new[OF t(2)]) simp_all
    moreover have "accepted from_str tol [ToolCallStart (ba_next_index ?b) cid name] a (ba_tracks ?b')"
      by (rule tool_call_opens[OF t(1)])
    ultimately have "accepted from_str tol [ToolCallStart (ba_next_index ?b) cid name] a
        (anthropic_tracks (map_block i BtToolUse (ba_next_index ?b) (st\<lparr>ans_blocks := ?b'\<rparr>)))"
      by (auto simp: anthropic_tracks_def map_block_def elim!: accepted_mono)
    then show ?thesis
      using \<open>required_non_empty_str v [''content_block'', ''id''] = Inr cid\<close> Inr
      by (simp add: start_tool_use_def open_tool_call_def alloc_index_def Let_def arm_soundI)
  qed (use Inr in \<open>simp add: start_tool_use_def malformed_event_protocol_error_def end_with_sound[OF assms]\<close>)
qed (simp add: start_tool_use_def malformed_event_protocol_error_def end_with_sound[OF assms])

lemma block_start_sound:
  assumes "anthropic_tracks st a" "view_ok st (StartsBlock i (string_or_empty (pointer_str v [''content_block'', ''type''])))"
  shows "arm_sound from_str tol a (on_block_start ty v i st)"
  using assms start_text_sound start_thinking_sound start_tool_use_sound
  by (auto simp: on_block_start_def Let_def arm_sound_def)

lemma block_delta_sound:
  assumes "anthropic_tracks st a" "view_ok st (DeltaOfBlock i (string_or_empty (pointer_str v [''delta'', ''type''])))"
  shows "arm_sound from_str tol a (on_block_delta v i st)"
proof (cases "hm_get (ans_provider_blocks st) i")
  case None
  then show ?thesis using assms(1) by (simp add: on_block_delta_def Let_def arm_sound_def)
next
  case (Some p)
  obtain bt c where p: "p = (bt, c)" by (cases p)
  have t: "ba_tracks (ans_blocks st) a" "role (ans_blocks st) bt c"
    using assms(1) Some p by (auto simp: anthropic_tracks_def roles_kept_def)
  have same: "accepted from_str tol evs a (anthropic_tracks st)" if "accepted from_str tol evs a (ba_tracks (ans_blocks st))" for evs
    using that assms(1) by (auto simp: anthropic_tracks_def elim!: accepted_mono)
  have tx: "accepted from_str tol [TextDelta c d] a (anthropic_tracks st)" if "bt = BtText" for d
    using same[OF text_deltas[OF t(1), of from_str tol d]] t(2) that by (simp add: text_delta_def)
  have think: "accepted from_str tol [ThinkingDelta c d] a (anthropic_tracks st)" if "bt = BtThinking" for d
    using same[OF thinking_deltas[OF t(1), of from_str tol d]] t(2) that by (auto simp: thinking_delta_def)
  have tool: "accepted from_str tol [ToolCallDelta c d] a (anthropic_tracks st)" if "bt = BtToolUse" for d
    using same[OF tool_call_deltas[OF t(1)]] t(2) that by simp
  have sig: "anthropic_tracks (st\<lparr>ans_blocks := set_thinking_signature sg (ans_blocks st)\<rparr>) a" for sg
  proof -
    have "role (set_thinking_signature sg b) bt c = role b bt c" for b bt c
      by (cases bt) (auto simp: set_thinking_signature_def split: option.splits)
    then have "roles_kept (set_thinking_signature sg (ans_blocks st)) m = roles_kept (ans_blocks st) m" for m
      by (simp add: roles_kept_def)
    with assms(1) show ?thesis by (simp add: anthropic_tracks_def)
  qed
  let ?d = "string_or_empty (pointer_str v [''delta'', ''type''])"
  have fits: "delta_fits (type_name_of bt) ?d" using assms(2) Some p by simp
  show ?thesis
    using fits Some p tx think tool sig assms(1)
    by (cases bt; cases "?d = ''text_delta''"; cases "?d = ''thinking_delta''"; cases "?d = ''input_json_delta''")
       (auto simp: on_block_delta_def Let_def arm_sound_def delta_fits_def set_opt_def split: option.split)
qed

lemma block_stop_sound:
  assumes "anthropic_tracks st a"
  shows "arm_sound from_str tol a (on_block_stop v i st)"
proof (cases "hm_get (ans_provider_blocks st) i")
  case None
  then show ?thesis using assms by (simp add: on_block_stop_def arm_sound_def)
next
  case (Some p)
  obtain bt c where p: "p = (bt, c)" by (cases p)
  define f where "f = (case bt of BtText \<Rightarrow> close_text | BtThinking \<Rightarrow> close_thinking (pointer_str v [''signature'']) | BtToolUse \<Rightarrow> close_tool_call c)"
  let ?b = "ans_blocks st" and ?b' = "snd (f (ans_blocks st))"
  have t: "ba_tracks ?b a" "roles_kept ?b (ans_provider_blocks st)" "role ?b bt c"
    using assms Some p by (auto simp: anthropic_tracks_def roles_kept_def)
  have "accepted from_str tol (fst (f ?b)) a (ba_tracks ?b')"
    using t(1) by (cases bt) (simp_all add: f_def text_closes thinking_closes tool_call_closes)
  moreover have "role ?b' bt' c'" if "role ?b bt' c'" "(bt', c') \<noteq> (bt, c)" for bt' c'
    using that t(3) tracks_distinct[OF t(1)]
    by (cases bt; cases bt')
       (auto simp: f_def close_text_def close_thinking_def close_tool_call_def in_set_remove1 split: option.splits prod.splits)
  then have "roles_kept ?b' (hm_remove i (ans_provider_blocks st))"
    by (intro roles_kept_rem[OF t(2) Some[unfolded p]]) blast
  ultimately have "accepted from_str tol (fst (f ?b)) a
      (anthropic_tracks (st\<lparr>ans_provider_blocks := hm_remove i (ans_provider_blocks st), ans_blocks := ?b'\<rparr>))"
    by (auto simp: anthropic_tracks_def elim!: accepted_mono)
  then show ?thesis
    using Some p by (cases bt) (simp_all add: on_block_stop_def f_def case_prod_beta arm_soundI)
qed

definition anthropic_ok :: "json_parser \<Rightarrow> anthropic_state \<Rightarrow> sse_event option \<Rightarrow> bool" where
  "anthropic_ok from_str st item = (case item of None \<Rightarrow> True | Some ev \<Rightarrow> view_ok st (view from_str ev))"

lemma process_sound:
  assumes "anthropic_tracks st a" "view_ok st (view from_str ev)"
  shows "arm_sound fs tol a (process_sse_event from_str (se_event_type ev) (se_data ev) st)"
proof -
  let ?ty = "se_event_type ev"
  have plain: "arm_sound fs tol a (on_message_start v st)" "arm_sound fs tol a (on_message_delta v st)" for v
    using assms(1) by (simp_all add: on_message_start_def on_message_delta_def arm_sound_def Let_def)
  have stop: "arm_sound fs tol a (on_message_stop st)"
  proof -
    have "accepted fs tol (fst (anthropic_finalize st) @ [Done r u c]) a acc_saw_terminal" for r u c
      by (rule accepted_append[OF anthropic_finalize_sound[OF assms(1)]]) (rule terminal_accepted[OF _ finalized_empty], simp_all)
    then show ?thesis by (simp add: arm_sound_def on_message_stop_def case_prod_beta Let_def)
  qed
  have err: "arm_sound fs tol a (on_stream_error d v st)" for d v
    by (simp add: on_stream_error_def end_with_sound[OF assms(1)] stream_error_event_def)
  have start: "arm_sound fs tol a (on_block_start ty v i st)"
    if "from_str (se_data ev) = Inr v" "required_index v = Inr i" "?ty = ''content_block_start''" for v i ty
    by (rule block_start_sound[OF assms(1)]) (use assms(2) that in \<open>simp add: view_def\<close>)
  have delta: "arm_sound fs tol a (on_block_delta v i st)"
    if "from_str (se_data ev) = Inr v" "required_index v = Inr i" "?ty = ''content_block_delta''" for v i
    by (rule block_delta_sound[OF assms(1)]) (use assms(2) that in \<open>simp add: view_def\<close>)
  have none: "arm_sound fs tol a ([], st, False)" using assms(1) by auto
  show ?thesis
    unfolding process_sse_event_def
    by (intro arm_sound_if with_parsed_sound[OF assms(1)] with_index_sound[OF assms(1)])
       (simp_all add: plain stop err none block_stop_sound[OF assms(1)] start delta)
qed

lemma on_item_sound:
  assumes "anthropic_tracks st a" "anthropic_ok from_str st x" "anthropic_on_item from_str x st = (act, st')"
  shows "(\<exists>evs. act = ActDone evs \<and> accepted fs tol evs a acc_saw_terminal)
     \<or> (\<exists>evs. act = ActContinue evs \<and> accepted fs tol evs a (anthropic_tracks st'))"
proof -
  have err: "arm_sound fs tol a (end_with (event_error m k) st)" for m k
    by (rule end_with_sound[OF assms(1)]) simp
  have ev: "arm_sound fs tol a (process_sse_event from_str (se_event_type e) (se_data e) st)" if "x = Some e" for e
    by (rule process_sound[OF assms(1)]) (use assms(2) that in \<open>simp add: anthropic_ok_def\<close>)
  define r where "r = (case x of
        None \<Rightarrow> end_with (event_error ''Anthropic stream ended unexpectedly'' (Some NetworkKind)) st
      | Some ev \<Rightarrow>
          if se_event_type ev = SSE_TRANSPORT_ERROR_EVENT then end_with (event_error (''Anthropic '' @ se_data ev) (Some NetworkKind)) st
          else if se_event_type ev = SSE_PROTOCOL_ERROR_EVENT then end_with (event_error (''Anthropic '' @ se_data ev) None) st
          else process_sse_event from_str (se_event_type ev) (se_data ev) st)"
  have "arm_sound fs tol a r"
    by (cases x) (simp_all only: r_def option.case err ev if_split simp_thms)
  moreover have "to_action r = (act, st')"
    using assms(3) unfolding anthropic_on_item_def r_def .
  ultimately show ?thesis
    by (auto simp: to_action_def arm_sound_def split: prod.splits if_splits)
qed

interpretation anthropic: line_handler "anthropic_on_item from_str" anthropic_on_cancel anthropic_new anthropic_tracks "anthropic_ok from_str"
proof
  show "anthropic_tracks anthropic_new acc_started"
    using tracks_started by (simp add: anthropic_tracks_def anthropic_new_def roles_kept_def)
  show "accepted fs tol evs a (anthropic_tracks s')"
    if "anthropic_tracks s a" "anthropic_ok from_str s x" "anthropic_on_item from_str x s = (ActContinue evs, s')" for s a x evs s' fs tol
    using on_item_sound[OF that, of fs tol] by simp
  show "anthropic_tracks s' a"
    if "anthropic_tracks s a" "anthropic_ok from_str s x" "anthropic_on_item from_str x s = (ActSkip, s')" for s a x s'
    using on_item_sound[OF that] by simp
  show "accepted fs tol evs a acc_saw_terminal"
    if "anthropic_tracks s a" "anthropic_ok from_str s x" "anthropic_on_item from_str x s = (ActDone evs, s')" for s a x evs s' fs tol
    using on_item_sound[OF that, of fs tol] by simp
  show "accepted fs tol (anthropic_on_cancel s) a acc_saw_terminal" if "anthropic_tracks s a" for s a fs tol
    unfolding anthropic_on_cancel_def
    by (rule accepted_append[OF anthropic_finalize_sound[OF that]])
       (rule terminal_accepted[OF _ finalized_empty], simp_all add: cancelled_event_def)
  show "\<exists>evs s'. anthropic_on_item from_str None s = (ActDone evs, s')" for s
    by (simp add: anthropic_on_item_def to_action_def end_with_def case_prod_beta)
qed

text \<open>A server that sends one block at a time stays within what the handler expects.\<close>

definition follows :: "(usize \<times> string) option \<Rightarrow> anthropic_state \<Rightarrow> bool" where
  "follows cur st \<longleftrightarrow>
     (\<forall>j bt c. hm_get (ans_provider_blocks st) j = Some (bt, c) \<longrightarrow>
        cur = Some (j, type_name_of bt))
     \<and> (ba_text_index (ans_blocks st) \<noteq> None \<longrightarrow> (\<exists>j c. hm_get (ans_provider_blocks st) j = Some (BtText, c)))
     \<and> (map_option fst (ba_thinking_index (ans_blocks st)) \<noteq> None \<longrightarrow> (\<exists>j c. hm_get (ans_provider_blocks st) j = Some (BtThinking, c)))"

lemma followsD: "follows cur st \<Longrightarrow> hm_get (ans_provider_blocks st) j = Some (bt, c) \<Longrightarrow> cur = Some (j, type_name_of bt)"
  by (simp add: follows_def)

lemma follows_only:
  assumes "follows (Some (i, ty)) st" "j \<noteq> i"
  shows "hm_get (ans_provider_blocks st) j = None"
proof (rule ccontr)
  assume "hm_get (ans_provider_blocks st) j \<noteq> None"
  then obtain bt c where "hm_get (ans_provider_blocks st) j = Some (bt, c)" by (metis not_Some_eq prod.exhaust)
  with followsD[OF assms(1) this] assms(2) show False by simp
qed

lemma follows_ok: "follows cur st \<Longrightarrow> one_block_at_a_time cur (v # vs) \<Longrightarrow> view_ok st v"
  by (cases v; cases cur) (fastforce simp: follows_def)+

fun next_block :: "(usize \<times> string) option \<Rightarrow> block_view \<Rightarrow> (usize \<times> string) option" where
  "next_block cur (StartsBlock i ty) = Some (i, ty)"
| "next_block cur (StopsBlock i) = None"
| "next_block cur _ = cur"

lemma one_block_next: "one_block_at_a_time cur (v # vs) \<Longrightarrow> one_block_at_a_time (next_block cur v) vs"
  by (cases v; cases cur) auto

lemma follows_same:
  "follows cur st \<Longrightarrow> ans_provider_blocks st' = ans_provider_blocks st \<Longrightarrow> ba_text_index (ans_blocks st') = ba_text_index (ans_blocks st)
     \<Longrightarrow> map_option fst (ba_thinking_index (ans_blocks st')) = map_option fst (ba_thinking_index (ans_blocks st)) \<Longrightarrow> follows cur st'"
  by (auto simp: follows_def)

lemma follows_start:
  assumes "follows None st" "on_block_start ety v i st = (evs, st', False)"
  shows "follows (Some (i, string_or_empty (pointer_str v [''content_block'', ''type'']))) st'"
proof -
  have none: "hm_get (ans_provider_blocks st) = Map.empty" "ba_text_index (ans_blocks st) = None" "ba_thinking_index (ans_blocks st) = None"
    using assms(1) by (auto simp: follows_def fun_eq_iff)
  show ?thesis
    using assms(2) none
    by (auto simp: on_block_start_def Let_def start_text_def start_thinking_def start_tool_use_def ensure_text_open_def
        ensure_thinking_open_def open_tool_call_def alloc_index_def set_opt_def map_block_def follows_def hm.get_ins
        malformed_event_protocol_error_def end_with_def case_prod_beta split: if_splits sum.splits)
qed

lemma follows_delta:
  assumes "follows cur st" "on_block_delta v i st = (evs, st', False)"
  shows "follows cur st'"
proof (rule follows_same[OF assms(1)])
  show "ans_provider_blocks st' = ans_provider_blocks st" "ba_text_index (ans_blocks st') = ba_text_index (ans_blocks st)"
    "map_option fst (ba_thinking_index (ans_blocks st')) = map_option fst (ba_thinking_index (ans_blocks st))"
    using assms(2)
    by (auto simp: on_block_delta_def Let_def set_opt_def set_thinking_signature_def split: option.splits if_splits prod.splits)
qed

lemma follows_stop:
  assumes "follows (Some (i, ty)) st" "on_block_stop v i st = (evs, st', False)"
  shows "follows None st'"
proof (cases "hm_get (ans_provider_blocks st) i")
  case None
  have "hm_get (ans_provider_blocks st) j = None" for j using follows_only[OF assms(1), of j] None by metis
  with None show ?thesis using assms by (auto simp: on_block_stop_def follows_def)
next
  case (Some p)
  obtain bt c where p: "p = (bt, c)" by (cases p)
  have "hm_get (hm_remove i (ans_provider_blocks st)) j = None" for j
    using follows_only[OF assms(1), of j] by (simp add: hm.get_rem)
  moreover have "ba_text_index (ans_blocks st) \<noteq> None \<longrightarrow> bt = BtText" "ba_thinking_index (ans_blocks st) \<noteq> None \<longrightarrow> bt = BtThinking"
    using assms(1) Some p by (fastforce simp: follows_def)+
  ultimately show ?thesis
    using assms(2) Some p
    by (cases bt) (auto simp: on_block_stop_def follows_def close_text_def close_thinking_def close_tool_call_def case_prod_beta
        split: option.splits if_splits)
qed

lemma follows_step:
  assumes "follows cur st" "one_block_at_a_time cur (view from_str ev # vs)"
    "process_sse_event from_str (se_event_type ev) (se_data ev) st = (evs, st', False)"
  shows "follows (next_block cur (view from_str ev)) st'"
proof -
  have mal: "\<not> (\<exists>evs st'. end_with e st = (evs, st', False))" for e by (simp add: end_with_def case_prod_beta)
  have msg: "follows cur st'" if "on_message_start v st = (evs, st', False) \<or> on_message_delta v st = (evs, st', False)" for v
    by (rule follows_same[OF assms(1)])
       (use that in \<open>auto simp: on_message_start_def on_message_delta_def set_opt_def Let_def split: option.splits\<close>)
  have parsed: "\<exists>v. from_str (se_data ev) = Inr v \<and> f v st = (evs, st', False)"
    if "with_parsed from_str ty (se_data ev) f st = (evs, st', False)" for f ty
    using that mal by (cases "from_str (se_data ev)") (auto simp: with_parsed_def malformed_event_parse_error_def)
  have indexed: "\<exists>v i. from_str (se_data ev) = Inr v \<and> required_index v = Inr i \<and> f v i st = (evs, st', False)"
    if w: "with_parsed from_str ty (se_data ev) (with_index ty f) st = (evs, st', False)" for f ty
  proof -
    obtain v where v: "from_str (se_data ev) = Inr v" "with_index ty f v st = (evs, st', False)" using parsed[OF w] by blast
    with mal show ?thesis by (cases "required_index v") (auto simp: with_index_def malformed_event_protocol_error_def)
  qed
  consider (start) v i where "view from_str ev = StartsBlock i (string_or_empty (pointer_str v [''content_block'', ''type'']))"
      "on_block_start ''content_block_start'' v i st = (evs, st', False)"
    | (delta) v i d where "view from_str ev = DeltaOfBlock i d" "on_block_delta v i st = (evs, st', False)"
    | (stop) v i where "view from_str ev = StopsBlock i" "on_block_stop v i st = (evs, st', False)"
    | (msg) v where "view from_str ev = NoBlock" "on_message_start v st = (evs, st', False) \<or> on_message_delta v st = (evs, st', False)"
    | (none) "view from_str ev = NoBlock" "st' = st"
  proof -
    show thesis
    proof (cases "se_event_type ev = ''content_block_start'' \<or> se_event_type ev = ''content_block_delta'' \<or> se_event_type ev = ''content_block_stop''")
      case True
      with assms(3) indexed[of "''content_block_start''" "on_block_start ''content_block_start''"]
        indexed[of "''content_block_delta''" on_block_delta] indexed[of "''content_block_stop''" on_block_stop]
      show thesis
        by (elim disjE) (fastforce simp: process_sse_event_def view_def intro: start delta stop)+
    next
      case False
      then have v: "view from_str ev = NoBlock" by (auto simp: view_def split: sum.split)
      have "(\<exists>ty. with_parsed from_str ty (se_data ev) on_message_start st = (evs, st', False))
          \<or> (\<exists>ty. with_parsed from_str ty (se_data ev) on_message_delta st = (evs, st', False))
          \<or> (\<exists>ty. with_parsed from_str ty (se_data ev) (on_stream_error (se_data ev)) st = (evs, st', False)) \<or> st' = st"
        using assms(3) False by (auto simp: process_sse_event_def on_message_stop_def Let_def case_prod_beta split: if_splits)
      then show thesis
        using parsed[of _ on_message_start] parsed[of _ on_message_delta] parsed[of _ "on_stream_error (se_data ev)"] mal msg[OF v] none[OF v]
        by (fastforce simp: on_stream_error_def)
    qed
  qed
  then show ?thesis
  proof cases
    case (start v i)
    with assms(2) have "cur = None" by (cases cur) auto
    with start follows_start[of st] assms(1) show ?thesis by simp
  next
    case (stop v i)
    with assms(2) obtain ty where "cur = Some (i, ty)" by (cases cur) auto
    with stop follows_stop[of i ty st] assms(1) show ?thesis by simp
  next
    case (msg v)
    then show ?thesis using \<open>\<And>v. on_message_start v st = (evs, st', False) \<or> on_message_delta v st = (evs, st', False) \<Longrightarrow> follows cur st'\<close>[of v] by simp
  qed (use assms(1) follows_delta in auto)
qed

lemma anthropic_ok_Some: "anthropic_ok from_str st (Some ev) = view_ok st (view from_str ev)"
  by (simp add: anthropic_ok_def)

lemma server_inputs_ok:
  "follows cur st \<Longrightarrow> one_block_at_a_time cur (map (view from_str) evs) \<Longrightarrow> inputs_ok (anthropic_ok from_str) (anthropic_on_item from_str) evs st"
proof (induction evs arbitrary: cur st)
  case (Cons ev evs)
  have "view_ok st (view from_str ev)" using follows_ok[OF Cons.prems(1)] Cons.prems(2) by simp
  moreover have "inputs_ok (anthropic_ok from_str) (anthropic_on_item from_str) evs st'"
    if "anthropic_on_item from_str (Some ev) st = (ActContinue out, st')" for out st'
  proof -
    have proc: "process_sse_event from_str (se_event_type ev) (se_data ev) st = (out, st', False)"
      using that by (cases "process_sse_event from_str (se_event_type ev) (se_data ev) st")
        (auto simp: anthropic_on_item_def to_action_def end_with_def split: if_splits prod.splits)
    have prem: "one_block_at_a_time cur (view from_str ev # map (view from_str) evs)" using Cons.prems(2) by simp
    show ?thesis by (rule Cons.IH[OF follows_step[OF Cons.prems(1) prem proc] one_block_next[OF prem]])
  qed
  moreover have "fst (anthropic_on_item from_str (Some ev) st) \<noteq> ActSkip"
    by (simp add: anthropic_on_item_def to_action_def split: prod.split)
  ultimately show ?case
    by (auto simp: anthropic_ok_Some split: prod.split sse_action.split)
qed (simp add: anthropic_ok_def)

text \<open>Every stream that keeps the protocol ends and is a message.\<close>

lemma anthropic_stream_ends:
  assumes "one_block_at_a_time None (map (view from_str) (sse_paired_events response))"
    and "length (sse_paired_events response) + 2 \<le> k"
  shows "snd (anthropic_stream from_str cancelled k response)
    \<and> is_message (accumulate_message from_str' now (fst (anthropic_stream from_str cancelled k response)) provider model)"
proof -
  have "follows None anthropic_new" by (simp add: follows_def anthropic_new_def ba_new_def)
  from server_inputs_ok[OF this assms(1)] show ?thesis
    unfolding anthropic_stream_def by (rule anthropic.stream_is_message[OF assms(2)])
qed

section \<open>Examples\<close>

text \<open>A parser for the data of a few server events.\<close>

definition block_json :: "nat \<Rightarrow> (string \<times> json) list \<Rightarrow> (string, json) result" where
  "block_json i kvs = Inr (JObject ((''index'', JNumber (real i)) # kvs))"

definition start_json :: "nat \<Rightarrow> (string, json) result" where
  "start_json i = block_json i [(''content_block'', JObject [(''type'', JString ''text'')])]"

definition text_json :: "nat \<Rightarrow> string \<Rightarrow> (string, json) result" where
  "text_json i t = block_json i [(''delta'', JObject [(''type'', JString ''text_delta''), (''text'', JString t)])]"

definition ex_parser :: json_parser where
  "ex_parser d = (if d = ''start0'' then start_json 0 else if d = ''start1'' then start_json 1
     else if d = ''text0'' then text_json 0 ''a'' else if d = ''text1'' then text_json 1 ''b''
     else if d = ''stop0'' then block_json 0 [] else if d = ''stop1'' then block_json 1 [] else Inl ''bad'')"

definition server_event :: "string \<Rightarrow> string \<Rightarrow> sse_event" where
  "server_event ty d = \<lparr>se_event_type = ty, se_data = d\<rparr>"

definition run_events :: "json_parser \<Rightarrow> sse_event list \<Rightarrow> assistant_message_event list" where
  "run_events from_str evs =
     fst (sse_adapter_stream (anthropic_on_item from_str) anthropic_on_cancel (\<lambda>_. False) (length evs + 2) evs anthropic_new)"

lemma index_simps [simp]: "json_as_u64 (Some (JNumber 0)) = Some 0" "json_as_u64 (Some (JNumber 1)) = Some 1"
  by simp_all

lemmas anthropic_eval = run_events_def sse_adapter_stream_def anthropic_on_item_def server_event_def process_sse_event_def
  with_parsed_def with_index_def required_index_def on_block_start_def on_block_delta_def on_block_stop_def on_message_stop_def
  start_text_def ensure_text_open_def alloc_index_def anthropic_new_def ba_new_def ex_parser_def start_json_def text_json_def
  block_json_def pointer_str_def string_or_empty_def set_opt_def map_block_def close_text_def anthropic_finalize_def
  finalize_blocks_def drain_open_blocks_def to_action_def SSE_TRANSPORT_ERROR_EVENT_def SSE_PROTOCOL_ERROR_EVENT_def Let_def


end
