(* ===== verification/Ollama.thy ===== *)
theory Ollama
  imports Sse Message_Convert
begin

text \<open>
  The streams of Ollama (\<^verbatim>\<open>adapters/src/ollama.rs\<close>): newline-delimited JSON, and the
  handler of one chunk.

  \<open>from_str\<close> and \<open>parse_chunk\<close> stand for \<^verbatim>\<open>serde_json::from_str\<close> at
  \<^verbatim>\<open>Value\<close> and \<^verbatim>\<open>OllamaChatChunk\<close>, \<open>utf8_message\<close> for the text
  of a UTF-8 error, \<open>uuid\<close> for the identifiers drawn one after the other.
\<close>

section \<open>Lines\<close>

definition ascii_whitespace :: "char \<Rightarrow> bool" where
  "ascii_whitespace c = (c \<in> {blank, CHR 0x09, nl, CHR 0x0C, cr})"

definition trim_ascii :: "string \<Rightarrow> string" where
  "trim_ascii s = rev (dropWhile ascii_whitespace (rev (dropWhile ascii_whitespace s)))"

text \<open>The lines that are complete in the buffer; \<open>None\<close> in place of the rest after an error.\<close>

function ndjson_drain :: "(string \<Rightarrow> string) \<Rightarrow> string \<Rightarrow> (string, string) result list \<times> string option" where
  "ndjson_drain utf8_message buf =
     (if nl \<in> set buf
      then let line = strip_cr (takeWhile (\<lambda>c. c \<noteq> nl) buf); rest = tl (dropWhile (\<lambda>c. c \<noteq> nl) buf) in
        if line = [] then ndjson_drain utf8_message rest
        else if valid_utf8 line then (let (out, r) = ndjson_drain utf8_message rest in (Inr line # out, r))
        else ([Inl (''invalid UTF-8 in NDJSON line: '' @ utf8_message line)], None)
      else ([], Some buf))"
  by auto
termination by (relation "measure (length \<circ> snd)") (simp_all add: drop_line_shorter del: length_tl)

declare ndjson_drain.simps [simp del]

definition ndjson_trailing :: "json_parser \<Rightarrow> (string \<Rightarrow> string) \<Rightarrow> string \<Rightarrow> (string, string) result list" where
  "ndjson_trailing from_str utf8_message buf =
     (let line = trim_ascii buf in
      if line = [] then []
      else if \<not> valid_utf8 line then [Inl (''invalid UTF-8 in trailing NDJSON line: '' @ utf8_message line)]
      else case from_str line of
             Inl err \<Rightarrow> [Inl (''incomplete trailing NDJSON frame: '' @ err)]
           | Inr _ \<Rightarrow> [Inr line])"

fun ndjson_lines_from :: "json_parser \<Rightarrow> (string \<Rightarrow> string) \<Rightarrow> byte_stream \<Rightarrow> string \<Rightarrow> (string, string) result list" where
  "ndjson_lines_from from_str utf8_message [] buf = ndjson_trailing from_str utf8_message buf"
| "ndjson_lines_from from_str utf8_message (Inr bytes # items) buf =
     (let (out, r) = ndjson_drain utf8_message (buf @ bytes)
      in out @ (case r of None \<Rightarrow> [] | Some buf \<Rightarrow> ndjson_lines_from from_str utf8_message items buf))"
| "ndjson_lines_from from_str utf8_message (Inl err # items) buf = [Inl (''transport error: '' @ err)]"

definition ndjson_lines :: "json_parser \<Rightarrow> (string \<Rightarrow> string) \<Rightarrow> byte_stream \<Rightarrow> (string, string) result list" where
  "ndjson_lines from_str utf8_message items = ndjson_lines_from from_str utf8_message items []"

section \<open>Chunks do not matter\<close>

fun emit_lines :: "(string \<Rightarrow> string) \<Rightarrow> string list \<Rightarrow> string \<Rightarrow> (string, string) result list \<times> string option" where
  "emit_lines utf8_message [] rest = ([], Some rest)"
| "emit_lines utf8_message (l # ls) rest =
     (if l = [] then emit_lines utf8_message ls rest
      else if valid_utf8 l then (let (out, r) = emit_lines utf8_message ls rest in (Inr l # out, r))
      else ([Inl (''invalid UTF-8 in NDJSON line: '' @ utf8_message l)], None))"

lemma ndjson_drain_eq: "ndjson_drain utf8_message buf = emit_lines utf8_message (finished_lines buf) (unfinished_line buf)"
proof (induction utf8_message buf rule: ndjson_drain.induct)
  case (1 utf8_message buf)
  show ?case
  proof (cases "nl \<in> set buf")
    case True
    with 1 show ?thesis by (subst ndjson_drain.simps) (simp add: lines_step(1,2)[OF True] Let_def)
  next
    case False
    then have "split_lines buf = [buf]" by (rule split_lines_one)
    with False show ?thesis by (subst ndjson_drain.simps) (simp add: finished_lines_def unfinished_line_def)
  qed
qed

lemma emit_lines_append:
  "emit_lines utf8_message (ls @ ls') rest = (let (out, r) = emit_lines utf8_message ls [] in
     case r of None \<Rightarrow> (out, None) | Some _ \<Rightarrow> (let (out', r) = emit_lines utf8_message ls' rest in (out @ out', r)))"
  by (induction ls) (auto split: prod.split option.split)

lemma emit_lines_rest: "emit_lines utf8_message ls rest = (fst (emit_lines utf8_message ls []),
   case snd (emit_lines utf8_message ls []) of None \<Rightarrow> None | Some _ \<Rightarrow> Some rest)"
  by (induction ls) (auto simp: case_prod_beta)

lemma ndjson_drain_append:
  "ndjson_drain utf8_message (a @ b) = (let (out, r) = ndjson_drain utf8_message a in
     case r of None \<Rightarrow> (out, None) | Some buf \<Rightarrow> (let (out', r) = ndjson_drain utf8_message (buf @ b) in (out @ out', r)))"
  unfolding ndjson_drain_eq lines_append[of a b] emit_lines_append
  by (subst (3) emit_lines_rest) (auto simp: case_prod_beta split: option.split)

text \<open>The lines of a byte string read at once.\<close>

definition reference_ndjson :: "json_parser \<Rightarrow> (string \<Rightarrow> string) \<Rightarrow> string \<Rightarrow> (string, string) result list" where
  "reference_ndjson from_str utf8_message bytes =
     (let (out, r) = emit_lines utf8_message (finished_lines bytes) (unfinished_line bytes)
      in out @ (case r of None \<Rightarrow> [] | Some rest \<Rightarrow> ndjson_trailing from_str utf8_message rest))"

lemma ndjson_from_reference:
  "unfinished_line buf = buf \<Longrightarrow> finished_lines buf = [] \<Longrightarrow>
     ndjson_lines_from from_str utf8_message (map Inr chunks) buf = reference_ndjson from_str utf8_message (buf @ concat chunks)"
proof (induction chunks arbitrary: buf)
  case Nil
  then show ?case by (simp add: reference_ndjson_def)
next
  case (Cons c cs)
  show ?case
  proof (cases "snd (ndjson_drain utf8_message (buf @ c))")
    case None
    then show ?thesis
      using ndjson_drain_append[of utf8_message "buf @ c" "concat cs"]
      by (simp add: reference_ndjson_def ndjson_drain_eq[symmetric] case_prod_beta Let_def)
  next
    case (Some rest)
    have un: "rest = unfinished_line (buf @ c)"
      using Some by (simp add: ndjson_drain_eq) (subst (asm) emit_lines_rest, auto split: option.splits)
    have "nl \<notin> set rest"
      unfolding un unfinished_line_def by (rule split_lines_no_nl[of _ "buf @ c"]) simp
    then have "unfinished_line rest = rest" "finished_lines rest = []"
      by (simp_all add: unfinished_line_def finished_lines_def split_lines_one)
    from Cons.IH[OF this] show ?thesis
      using Some ndjson_drain_append[of utf8_message "buf @ c" "concat cs"]
      by (simp add: reference_ndjson_def ndjson_drain_eq[symmetric] case_prod_beta Let_def)
  qed
qed

text \<open>
  However the bytes of a response are cut into chunks, the lines are those of the bytes read at
  once.
\<close>

theorem ndjson_chunks_do_not_matter:
  "ndjson_lines from_str utf8_message (map Inr chunks) = reference_ndjson from_str utf8_message (concat chunks)"
  using ndjson_from_reference[of "[]"] by (simp add: ndjson_lines_def unfinished_line_def finished_lines_def)

section \<open>The stream\<close>

record ollama_tool_call =
  lt_name :: string
  lt_arguments :: json

record ollama_chunk =
  lc_content :: string
  lc_thinking :: "string option"
  lc_tool_calls :: "ollama_tool_call list option"
  lc_done :: bool
  lc_done_reason :: "string option"
  lc_prompt_eval_count :: "u64 option"
  lc_eval_count :: "u64 option"

text \<open>The state of a stream, with the number of identifiers drawn so far.\<close>

record ollama_state =
  ls_blocks :: block_accumulator
  ls_drawn :: nat

definition ollama_new :: ollama_state where
  "ollama_new = \<lparr>ls_blocks = ba_new, ls_drawn = 0\<rparr>"

definition ollama_blocks :: "block_accumulator emitter \<Rightarrow> ollama_state emitter" where
  "ollama_blocks f st = (let (evs, b) = f (ls_blocks st) in (evs, st\<lparr>ls_blocks := b\<rparr>))"

definition emit_one_call :: "(json \<Rightarrow> string) \<Rightarrow> string \<Rightarrow> ollama_tool_call \<Rightarrow> block_accumulator emitter" where
  "emit_one_call print cid tc b =
     (let (ci, start_ev, b) = open_tool_call cid (lt_name tc) b;
          delta_ev = ToolCallDelta ci (print (lt_arguments tc));
          (evs, b) = close_tool_call ci b
      in ([start_ev, delta_ev] @ evs, b))"

fun emit_calls :: "(nat \<Rightarrow> string) \<Rightarrow> (json \<Rightarrow> string) \<Rightarrow> ollama_tool_call list \<Rightarrow> ollama_state emitter" where
  "emit_calls uuid print [] st = ([], st)"
| "emit_calls uuid print (tc # tcs) st =
     (let (evs, st) = ollama_blocks (emit_one_call print (''tc_'' @ uuid (ls_drawn st)) tc) st;
          (evs', st) = emit_calls uuid print tcs (st\<lparr>ls_drawn := ls_drawn st + 1\<rparr>)
      in (evs @ evs', st))"

definition emit_tool_calls :: "(nat \<Rightarrow> string) \<Rightarrow> (json \<Rightarrow> string) \<Rightarrow> ollama_tool_call list \<Rightarrow> ollama_state emitter" where
  "emit_tool_calls uuid print tcs = both (ollama_blocks close_text) (emit_calls uuid print tcs)"

definition chunk_content :: "ollama_chunk \<Rightarrow> block_accumulator emitter" where
  "chunk_content chunk =
     both (case lc_thinking chunk of
             Some t \<Rightarrow> if t \<noteq> [] then both ensure_thinking_open (emits (\<lambda>b. thinking_delta b t)) else Pair []
           | None \<Rightarrow> Pair [])
          (if lc_content chunk \<noteq> []
           then both (close_thinking None) (both ensure_text_open (emits (\<lambda>b. text_delta b (lc_content chunk)))) else Pair [])"

definition chunk_events :: "(nat \<Rightarrow> string) \<Rightarrow> (json \<Rightarrow> string) \<Rightarrow> ollama_chunk \<Rightarrow> ollama_state emitter" where
  "chunk_events uuid print chunk =
     both (ollama_blocks (chunk_content chunk))
          (case lc_tool_calls chunk of Some tcs \<Rightarrow> emit_tool_calls uuid print tcs | None \<Rightarrow> Pair [])"

definition ollama_stop_reason :: "string option \<Rightarrow> stop_reason" where
  "ollama_stop_reason r =
     (if r = Some ''tool_calls'' then SrToolUse else if r = Some ''length'' then SrLength else SrStop)"

definition done_event :: "ollama_chunk \<Rightarrow> assistant_message_event" where
  "done_event chunk =
     (let input_tokens = (case lc_prompt_eval_count chunk of Some n \<Rightarrow> n | None \<Rightarrow> 0);
          output_tokens = (case lc_eval_count chunk of Some n \<Rightarrow> n | None \<Rightarrow> 0)
      in Done (ollama_stop_reason (lc_done_reason chunk))
           (usage_default\<lparr>u_input := input_tokens, u_output := output_tokens, u_total := input_tokens + output_tokens\<rparr>) cost_default)"

definition close_all :: "assistant_message_event \<Rightarrow> ollama_state emitter" where
  "close_all ev = both (ollama_blocks finalize_blocks) (emits (\<lambda>_. [ev]))"

definition ollama_done :: "ollama_state emitter \<Rightarrow> ollama_state \<Rightarrow> sse_action \<times> ollama_state" where
  "ollama_done f st = (let (evs, st) = f st in (ActDone evs, st))"

definition ollama_on_item :: "(string \<Rightarrow> (string, ollama_chunk) result) \<Rightarrow> (nat \<Rightarrow> string) \<Rightarrow> (json \<Rightarrow> string)
    \<Rightarrow> (string, string) result option \<Rightarrow> ollama_state \<Rightarrow> sse_action \<times> ollama_state" where
  "ollama_on_item parse_chunk uuid print item st =
     (case item of
        None \<Rightarrow> ollama_done (close_all (event_error ''Ollama stream ended unexpectedly'' (Some NetworkKind))) st
      | Some (Inl err) \<Rightarrow> ollama_done (close_all (event_error (''Ollama '' @ err) (Some NetworkKind))) st
      | Some (Inr line) \<Rightarrow>
          (case parse_chunk line of
             Inl e \<Rightarrow> ollama_done (close_all (event_error (''Ollama JSON parse error: '' @ e) None)) st
           | Inr chunk \<Rightarrow>
               if lc_done chunk then ollama_done (both (chunk_events uuid print chunk) (close_all (done_event chunk))) st
               else (let (evs, st) = chunk_events uuid print chunk st
                     in (if evs = [] then ActSkip else ActContinue evs, st))))"

definition ollama_on_cancel :: "ollama_state \<Rightarrow> assistant_message_event list" where
  "ollama_on_cancel st = fst (close_all (cancelled_event ''Ollama request cancelled'') st)"

definition parse_ndjson_stream :: "json_parser \<Rightarrow> (string \<Rightarrow> string) \<Rightarrow> (string \<Rightarrow> (string, ollama_chunk) result) \<Rightarrow> (nat \<Rightarrow> string)
    \<Rightarrow> (json \<Rightarrow> string) \<Rightarrow> (nat \<Rightarrow> bool) \<Rightarrow> nat \<Rightarrow> byte_stream \<Rightarrow> assistant_message_event list \<times> bool" where
  "parse_ndjson_stream from_str utf8_message parse_chunk uuid print cancelled k response =
     sse_adapter_stream (ollama_on_item parse_chunk uuid print) ollama_on_cancel cancelled k
       (ndjson_lines from_str utf8_message response) ollama_new"

section \<open>Every stream is a message\<close>

definition ollama_tracks :: "ollama_state \<Rightarrow> acc \<Rightarrow> bool" where
  "ollama_tracks st = ba_tracks (ls_blocks st)"

lemma ollama_tracks_drawn [simp]: "ollama_tracks (st\<lparr>ls_drawn := n\<rparr>) = ollama_tracks st"
  by (simp add: ollama_tracks_def)

lemma ollama_blocks_sound: "sound ba_tracks f \<Longrightarrow> sound ollama_tracks (ollama_blocks f)"
  by (rule soundI) (auto simp: ollama_blocks_def case_prod_beta ollama_tracks_def dest: soundD)

lemma emit_one_call_sound: "sound ba_tracks (emit_one_call print cid tc)"
proof (rule soundI)
  fix from_str tol b a
  assume b: "ba_tracks b a"
  let ?i = "ba_next_index b" and ?b' = "snd (snd (open_tool_call cid (lt_name tc) b))"
  have i: "?i \<in> set (ba_open_tool_calls ?b')" by (simp add: open_tool_call_def alloc_index_def)
  have "accepted from_str tol ([ToolCallStart ?i cid (lt_name tc)] @ [ToolCallDelta ?i (print (lt_arguments tc))] @ fst (close_tool_call ?i ?b'))
      a (ba_tracks (snd (close_tool_call ?i ?b')))"
    by (rule accepted_append[OF tool_call_opens[OF b]], rule accepted_append[OF tool_call_deltas])
       (use i tool_call_closes in auto)
  then show "accepted from_str tol (fst (emit_one_call print cid tc b)) a (ba_tracks (snd (emit_one_call print cid tc b)))"
    by (simp add: emit_one_call_def open_tool_call_def alloc_index_def case_prod_beta Let_def)
qed

lemma emit_calls_sound: "sound ollama_tracks (emit_calls uuid print tcs)"
proof (induction tcs)
  case (Cons tc tcs)
  show ?case
  proof (rule soundI)
    fix from_str tol st a
    assume st: "ollama_tracks st a"
    let ?one = "ollama_blocks (emit_one_call print (''tc_'' @ uuid (ls_drawn st)) tc) st"
    let ?st = "snd ?one\<lparr>ls_drawn := ls_drawn (snd ?one) + 1\<rparr>"
    have "accepted from_str tol (fst ?one @ fst (emit_calls uuid print tcs ?st)) a (ollama_tracks (snd (emit_calls uuid print tcs ?st)))"
      by (rule accepted_append[OF soundD[OF ollama_blocks_sound[OF emit_one_call_sound] st] soundD[OF Cons]]) simp
    then show "accepted from_str tol (fst (emit_calls uuid print (tc # tcs) st)) a (ollama_tracks (snd (emit_calls uuid print (tc # tcs) st)))"
      by (simp add: case_prod_beta Let_def)
  qed
qed (simp add: sound_def)

lemma chunk_events_sound: "sound ollama_tracks (chunk_events uuid print chunk)"
proof -
  have "sound ba_tracks (chunk_content chunk)"
    unfolding chunk_content_def by (cases "lc_thinking chunk") (auto intro!: block_ops)
  moreover have "sound ollama_tracks (emit_tool_calls uuid print tcs)" for tcs
    unfolding emit_tool_calls_def by (intro sound_both ollama_blocks_sound block_ops emit_calls_sound)
  ultimately show ?thesis
    unfolding chunk_events_def by (auto intro!: sound_both ollama_blocks_sound split: option.split)
qed

lemma close_all_accepted: "ollama_tracks st a \<Longrightarrow> is_terminal ev \<Longrightarrow> accepted from_str tol (fst (close_all ev st)) a acc_saw_terminal"
  unfolding close_all_def both_def emits_def ollama_blocks_def case_prod_beta Let_def ollama_tracks_def fst_conv
  by (rule accepted_append[OF blocks_finalized]) (auto intro: terminal_accepted simp: finalized_empty)

lemma then_close_accepted:
  "ollama_tracks st a \<Longrightarrow> is_terminal ev \<Longrightarrow> accepted from_str tol (fst (both (chunk_events uuid print chunk) (close_all ev) st)) a acc_saw_terminal"
  unfolding both_def case_prod_beta Let_def fst_conv by (rule accepted_append[OF soundD[OF chunk_events_sound]]) (auto intro: close_all_accepted)

lemma ollama_done_is: "ollama_done f st = (ActDone (fst (f st)), snd (f st))"
  by (simp add: ollama_done_def case_prod_beta)

interpretation ollama: line_handler "ollama_on_item parse_chunk uuid print" ollama_on_cancel ollama_new ollama_tracks "\<lambda>_ _. True"
proof
  show "ollama_tracks ollama_new acc_started" using tracks_started by (simp add: ollama_tracks_def ollama_new_def)
  show "\<exists>evs s'. ollama_on_item parse_chunk uuid print None s = (ActDone evs, s')" for s
    by (simp add: ollama_on_item_def ollama_done_is)
  fix s a and x :: "(string, string) result option" and evs s' from_str tol
  assume r: "ollama_tracks s a"
  note ch = soundD[OF chunk_events_sound r]
  show "accepted from_str tol evs a (ollama_tracks s')" if "ollama_on_item parse_chunk uuid print x s = (ActContinue evs, s')"
    using that ch
    by (auto simp: ollama_on_item_def ollama_done_is case_prod_beta split: option.splits sum.splits if_splits)
  show "ollama_tracks s' a" if skip: "ollama_on_item parse_chunk uuid print x s = (ActSkip, s')"
  proof -
    obtain chunk where c: "fst (chunk_events uuid print chunk s) = []" "s' = snd (chunk_events uuid print chunk s)"
      using skip by (auto simp: ollama_on_item_def ollama_done_is case_prod_beta split: option.splits sum.splits if_splits)
    with ch[of from_str tol uuid print chunk] show ?thesis by simp
  qed
  show "accepted from_str tol evs a acc_saw_terminal" if fin: "ollama_on_item parse_chunk uuid print x s = (ActDone evs, s')"
  proof -
    consider (closed) ev where "evs = fst (close_all ev s)" "is_terminal ev"
      | (chunk) chunk where "evs = fst (both (chunk_events uuid print chunk) (close_all (done_event chunk)) s)"
      using fin by (auto simp: ollama_on_item_def ollama_done_is case_prod_beta event_error_def split: option.splits sum.splits if_splits)
    then show ?thesis
      by cases (use r in \<open>auto intro: close_all_accepted then_close_accepted simp: done_event_def Let_def\<close>)
  qed
  show "accepted from_str tol (ollama_on_cancel s) a acc_saw_terminal"
    unfolding ollama_on_cancel_def by (rule close_all_accepted[OF r]) (simp add: cancelled_event_def)
qed

text \<open>Every stream ends and is a message.\<close>

lemma ollama_stream_ends:
  assumes "length (ndjson_lines from_str utf8_message response) + 2 \<le> k"
  shows "snd (parse_ndjson_stream from_str utf8_message parse_chunk uuid print cancelled k response)
    \<and> is_message (accumulate_message from_str' now
        (fst (parse_ndjson_stream from_str utf8_message parse_chunk uuid print cancelled k response)) provider model)"
  unfolding parse_ndjson_stream_def by (rule ollama.stream_is_message[OF assms inputs_ok_True])

definition ex_ollama_chunk :: ollama_chunk where
  "ex_ollama_chunk = \<lparr>lc_content = ''x'', lc_thinking = None, lc_tool_calls = Some [\<lparr>lt_name = ''f'', lt_arguments = JObject []\<rparr>],
     lc_done = True, lc_done_reason = Some ''tool_calls'', lc_prompt_eval_count = Some 3, lc_eval_count = None\<rparr>"

end
