(* ===== verification/Proxy.thy ===== *)
theory Proxy
  imports Sse Adapter_Base
begin

text \<open>
  The proxy adapter (\<^verbatim>\<open>adapters/src/proxy.rs\<close>): events that arrive ready-made from an
  HTTP proxy are passed on one by one, and a stream that breaks off is closed on behalf of the
  server. \<open>parse\<close> stands for \<^verbatim>\<open>serde_json::from_str::<SseEventData>\<close>.
\<close>

section \<open>Events\<close>

datatype sse_event_data =
    PxStart
  | PxTextStart usize
  | PxTextDelta usize string
  | PxTextEnd usize
  | PxThinkingStart usize
  | PxThinkingDelta usize string
  | PxThinkingEnd usize "string option"
  | PxToolCallStart usize string string
  | PxToolCallDelta usize string
  | PxToolCallEnd usize
  | PxDone stop_reason usage cost
  | PxError stop_reason string "usage option" "stream_error_kind option"

fun convert_sse_event :: "sse_event_data \<Rightarrow> assistant_message_event" where
  "convert_sse_event PxStart = Start"
| "convert_sse_event (PxTextStart i) = TextStart i"
| "convert_sse_event (PxTextDelta i d) = TextDelta i d"
| "convert_sse_event (PxTextEnd i) = TextEnd i"
| "convert_sse_event (PxThinkingStart i) = ThinkingStart i"
| "convert_sse_event (PxThinkingDelta i d) = ThinkingDelta i d"
| "convert_sse_event (PxThinkingEnd i signature) = ThinkingEnd i signature"
| "convert_sse_event (PxToolCallStart i cid name) = ToolCallStart i cid name"
| "convert_sse_event (PxToolCallDelta i d) = ToolCallDelta i d"
| "convert_sse_event (PxToolCallEnd i) = ToolCallEnd i"
| "convert_sse_event (PxDone sr u c) = Done sr u c"
| "convert_sse_event (PxError sr m u k) = Error sr m u k None"

definition parse_sse_event_data :: "(string \<Rightarrow> (string, sse_event_data) result) \<Rightarrow> string \<Rightarrow> assistant_message_event" where
  "parse_sse_event_data parse d =
     (case parse d of Inr ev \<Rightarrow> convert_sse_event ev | Inl e \<Rightarrow> event_error (''malformed SSE event JSON: '' @ e) None)"

section \<open>Open blocks\<close>

text \<open>The ordered sets of the code are ascending lists.\<close>

record proxy_stream_state =
  px_text :: "usize list"
  px_thinking :: "usize list"
  px_tool_calls :: "usize list"

definition proxy_new :: proxy_stream_state where
  "proxy_new = \<lparr>px_text = [], px_thinking = [], px_tool_calls = []\<rparr>"

fun observe :: "assistant_message_event \<Rightarrow> proxy_stream_state \<Rightarrow> proxy_stream_state" where
  "observe (TextStart i) st = st\<lparr>px_text := insort_insert i (px_text st)\<rparr>"
| "observe (TextEnd i) st = st\<lparr>px_text := remove1 i (px_text st)\<rparr>"
| "observe (ThinkingStart i) st = st\<lparr>px_thinking := insort_insert i (px_thinking st)\<rparr>"
| "observe (ThinkingEnd i _) st = st\<lparr>px_thinking := remove1 i (px_thinking st)\<rparr>"
| "observe (ToolCallStart i _ _) st = st\<lparr>px_tool_calls := insort_insert i (px_tool_calls st)\<rparr>"
| "observe (ToolCallEnd i) st = st\<lparr>px_tool_calls := remove1 i (px_tool_calls st)\<rparr>"
| "observe _ st = st"

definition px_drain :: "proxy_stream_state \<Rightarrow> (usize \<times> assistant_message_event) list" where
  "px_drain st = sort_key fst
     (map (\<lambda>i. (i, TextEnd i)) (px_text st) @ map (\<lambda>i. (i, ThinkingEnd i None)) (px_thinking st)
      @ map (\<lambda>i. (i, ToolCallEnd i)) (px_tool_calls st))"

definition prepare_stream_event :: "assistant_message_event \<Rightarrow> bool \<Rightarrow> proxy_stream_state
    \<Rightarrow> assistant_message_event list \<times> bool \<times> bool \<times> proxy_stream_state" where
  "prepare_stream_event event started st =
     (if is_terminal event \<and> \<not> started
      then (let (events, started) = prefix_start_if_unstarted event started in (events, started, True, st))
      else let started = (started \<or> event = Start) in
        if is_terminal event then (map snd (px_drain st) @ [event], started, True, proxy_new)
        else ([event], started, False, observe event st))"

section \<open>The stream\<close>

definition next_event :: "(string \<Rightarrow> (string, sse_event_data) result) \<Rightarrow> sse_line option \<Rightarrow> assistant_message_event" where
  "next_event parse item =
     (case item of
        None \<Rightarrow> event_error ''network error: SSE stream ended unexpectedly'' (Some NetworkKind)
      | Some SseDone \<Rightarrow> event_error ''proxy SSE transport ended before protocol terminal event'' None
      | Some (SseData d) \<Rightarrow> parse_sse_event_data parse d
      | Some (SseTransportError m) \<Rightarrow> event_error (''network error: '' @ m) (Some NetworkKind)
      | Some (SseProtocolError m) \<Rightarrow> event_error (''proxy SSE protocol error: '' @ m) None
      | Some _ \<Rightarrow> event_error ''unexpected non-data SSE line'' None)"

text \<open>The events prepared by the first \<open>k\<close> reads of the line stream, and whether it is over.\<close>

fun proxy_reads :: "(string \<Rightarrow> (string, sse_event_data) result) \<Rightarrow> (nat \<Rightarrow> bool) \<Rightarrow> nat \<Rightarrow> nat \<Rightarrow> sse_line list \<Rightarrow> bool
    \<Rightarrow> proxy_stream_state \<Rightarrow> assistant_message_event list \<times> bool" where
  "proxy_reads parse cancelled 0 n ls started st = ([], False)"
| "proxy_reads parse cancelled (Suc k) n ls started st =
     (let (event, ls) = (if cancelled n then (cancelled_error ''operation cancelled'', ls)
                         else (let (item, ls) = next_item ls in (next_event parse item, ls)));
          (events, started, over, st) = prepare_stream_event event started st
      in if over then (events, True)
         else let (evs, over) = proxy_reads parse cancelled k (n + 1) ls started st in (events @ evs, over))"

definition proxy_stream :: "(string \<Rightarrow> (string, sse_event_data) result) \<Rightarrow> (nat \<Rightarrow> bool) \<Rightarrow> nat \<Rightarrow> byte_stream
    \<Rightarrow> assistant_message_event list \<times> bool" where
  "proxy_stream parse cancelled k response = proxy_reads parse cancelled k 0 (sse_data_lines response) False proxy_new"

section \<open>What the proxy knows of the accumulation\<close>

definition px_open :: "proxy_stream_state \<Rightarrow> usize set" where
  "px_open st = set (px_text st) \<union> set (px_thinking st) \<union> set (px_tool_calls st)"

definition px_kinds :: "proxy_stream_state \<Rightarrow> usize \<Rightarrow> content_block \<Rightarrow> bool" where
  "px_kinds st i c \<longleftrightarrow> (i \<in> set (px_text st) \<longleftrightarrow> is_text_block c) \<and> (i \<in> set (px_thinking st) \<longleftrightarrow> is_thinking_block c)
     \<and> (i \<in> set (px_tool_calls st) \<longleftrightarrow> is_pending_call c)"

definition px_tracks :: "proxy_stream_state \<Rightarrow> acc \<Rightarrow> bool" where
  "px_tracks st s \<longleftrightarrow> \<not> acc_saw_terminal s \<and> acc_saw_start s \<and> distinct (px_text st) \<and> distinct (px_thinking st) \<and> distinct (px_tool_calls st)
     \<and> (\<exists>blocks. acc_content s = Some blocks \<and> length (acc_open s) = length blocks
         \<and> (\<forall>i < length blocks. acc_open s ! i \<longleftrightarrow> i \<in> px_open st)
         \<and> (\<forall>i \<in> px_open st. i < length blocks \<and> px_kinds st i (blocks ! i)))"

definition px_rel :: "bool \<Rightarrow> proxy_stream_state \<Rightarrow> acc \<Rightarrow> bool" where
  "px_rel started st s \<longleftrightarrow> (if started then px_tracks st s else st = proxy_new \<and> s = acc_init)"

lemma insort_insert_distinct: "distinct xs \<Longrightarrow> distinct (insort_insert x xs)"
  by (simp add: insort_insert_key_def distinct_insort)

text \<open>Whatever event the accumulation accepts, observing it keeps the books right.\<close>

lemma px_opens:
  assumes "px_tracks st s" "block_start name i c s = Inr s'"
    "set (px_text st') = set (px_text st) \<union> (if is_text_block c then {i} else {})"
    "set (px_thinking st') = set (px_thinking st) \<union> (if is_thinking_block c then {i} else {})"
    "set (px_tool_calls st') = set (px_tool_calls st) \<union> (if is_pending_call c then {i} else {})"
    "is_text_block c \<or> is_thinking_block c \<or> is_pending_call c"
    "distinct (px_text st')" "distinct (px_thinking st')" "distinct (px_tool_calls st')"
  shows "px_tracks st' s'"
proof -
  obtain blocks where b: "acc_content s = Some blocks" "length (acc_open s) = length blocks"
    "\<forall>i < length blocks. acc_open s ! i \<longleftrightarrow> i \<in> px_open st" "\<forall>i \<in> px_open st. i < length blocks \<and> px_kinds st i (blocks ! i)"
    "\<not> acc_saw_terminal s" "acc_saw_start s" using assms(1) by (auto simp: px_tracks_def)
  have i: "i = length blocks" and s': "s' = s\<lparr>acc_content := Some (blocks @ [c]), acc_open := acc_open s @ [True]\<rparr>"
    using assms(2) b(1) by (auto simp: block_start_def split: if_splits)
  have op: "px_open st' = insert i (px_open st)" using assms(3-6) by (auto simp: px_open_def split: if_splits)
  have new: "i \<notin> px_open st" using b(4) i by auto
  have "px_kinds st' i c" using assms(3-5) new by (auto simp: px_kinds_def px_open_def)
  moreover have "px_kinds st' j x = px_kinds st j x" if "j \<noteq> i" for j x using assms(3-5) that by (auto simp: px_kinds_def)
  moreover have "j \<noteq> i" if "j \<in> px_open st" for j using that new by auto
  ultimately show ?thesis
    using b assms(7-9) unfolding px_tracks_def s' op
    by (auto simp: nth_append less_Suc_eq i)
qed

lemma px_adds:
  assumes "px_tracks st s" "acc_content s = Some blocks" "i < length blocks" "acc_open s ! i"
    "is_text_block c = is_text_block (blocks ! i)" "is_thinking_block c = is_thinking_block (blocks ! i)"
    "is_pending_call c = is_pending_call (blocks ! i)"
  shows "px_tracks st (put_block i blocks c s)"
  using assms by (auto simp: px_tracks_def put_block_def px_kinds_def nth_list_update)

lemma px_closes:
  assumes "px_tracks st s" "acc_content s = Some blocks" "i < length blocks" "acc_open s ! i"
    "set (px_text st') = set (px_text st) - {i}" "set (px_thinking st') = set (px_thinking st) - {i}"
    "set (px_tool_calls st') = set (px_tool_calls st) - {i}"
    "distinct (px_text st')" "distinct (px_thinking st')" "distinct (px_tool_calls st')"
  shows "px_tracks st' (close_block i (put_block i blocks c s))"
proof -
  have op: "px_open st' = px_open st - {i}" using assms(5-7) by (auto simp: px_open_def)
  have kinds: "px_kinds st' j x = px_kinds st j x" if "j \<noteq> i" for j x using assms(5-7) that by (auto simp: px_kinds_def)
  show ?thesis
    using assms(1-4,8-10) kinds unfolding px_tracks_def op
    by (auto simp: close_block_def put_block_def nth_list_update)
qed

lemma px_open_block:
  assumes "px_tracks st s" "acc_content s = Some blocks" "slice_get (acc_open s) i \<noteq> Some False" "i < length blocks"
  shows "acc_open s ! i" "is_text_block (blocks ! i) \<longleftrightarrow> i \<in> set (px_text st)" "is_thinking_block (blocks ! i) \<longleftrightarrow> i \<in> set (px_thinking st)"
    "is_pending_call (blocks ! i) \<longleftrightarrow> i \<in> set (px_tool_calls st)"
proof -
  show op: "acc_open s ! i"
    using assms by (auto simp: px_tracks_def ensure_block_open_def slice_get_def split: if_splits)
  then have "px_kinds st i (blocks ! i)" using assms(1,2,4) by (auto simp: px_tracks_def)
  then show "is_text_block (blocks ! i) \<longleftrightarrow> i \<in> set (px_text st)" "is_thinking_block (blocks ! i) \<longleftrightarrow> i \<in> set (px_thinking st)"
    "is_pending_call (blocks ! i) \<longleftrightarrow> i \<in> set (px_tool_calls st)" by (simp_all add: px_kinds_def)
qed

lemma put_same: "acc_content s = Some blocks \<Longrightarrow> put_block i blocks (blocks ! i) s = s"
  by (cases s) (simp add: put_block_def)

lemma px_end:
  assumes "px_tracks st s" "acc_content s = Some blocks" "i < length blocks" "acc_open s ! i"
    "ev = TextEnd i \<and> is_text_block (blocks ! i) \<or> (\<exists>sg. ev = ThinkingEnd i sg) \<and> is_thinking_block (blocks ! i)
      \<or> ev = ToolCallEnd i \<and> is_pending_call (blocks ! i)"
  shows "px_tracks (observe ev st) (close_block i (put_block i blocks c s))"
proof -
  have d: "distinct (px_text st)" "distinct (px_thinking st)" "distinct (px_tool_calls st)" and k: "px_kinds st i (blocks ! i)"
    using assms(1-4) by (auto simp: px_tracks_def)
  show ?thesis
    by (rule px_closes[OF assms(1-4)]) (use assms(5) d k in \<open>cases "blocks ! i"; auto simp: px_kinds_def\<close>)+
qed

lemma px_event:
  assumes "px_tracks st s" "acc_event from_str tol ev s = Inr s'" "\<not> is_terminal ev"
  shows "px_tracks (observe ev st) s'"
proof -
  have s: "\<not> acc_saw_terminal s" "acc_saw_start s" and d: "distinct (px_text st)" "distinct (px_thinking st)" "distinct (px_tool_calls st)"
    using assms(1) by (auto simp: px_tracks_def)
  have ev: "dispatch_event from_str tol ev s = Inr s'" using assms(2) s by (simp add: acc_event_def)
  show ?thesis
  proof (cases ev)
    case Start
    then show ?thesis using ev s by (simp add: on_start_def)
  next
    case (TextStart i)
    show ?thesis
      by (rule px_opens[OF assms(1), of "''TextStart''" i "Text []"])
         (use TextStart ev d in \<open>auto simp: set_insort_insert insort_insert_distinct\<close>)
  next
    case (ThinkingStart i)
    show ?thesis
      by (rule px_opens[OF assms(1), of "''ThinkingStart''" i "Thinking [] None"])
         (use ThinkingStart ev d in \<open>auto simp: set_insort_insert insort_insert_distinct\<close>)
  next
    case (ToolCallStart i cid name)
    show ?thesis
      by (rule px_opens[OF assms(1), of "''ToolCallStart''" i "ToolCall cid name JNull (Some [])"])
         (use ToolCallStart ev d in \<open>auto simp: set_insort_insert insort_insert_distinct\<close>)
  next
    case (TextDelta i dl)
    with ev obtain blocks t where b: "acc_content s = Some blocks" "slice_get (acc_open s) i \<noteq> Some False" "i < length blocks"
      "blocks ! i = Text t" "s' = put_block i blocks (Text (t @ dl)) s"
      by (auto simp: on_text_delta_Inr)
    show ?thesis
      using px_adds[OF assms(1) b(1,3) px_open_block(1)[OF assms(1) b(1,2,3)], of "Text (t @ dl)"] b(4,5) TextDelta by simp
  next
    case (ThinkingDelta i dl)
    with ev obtain blocks t sg where b: "acc_content s = Some blocks" "slice_get (acc_open s) i \<noteq> Some False" "i < length blocks"
      "blocks ! i = Thinking t sg" "s' = put_block i blocks (Thinking (t @ dl) sg) s"
      by (auto simp: on_thinking_delta_Inr)
    show ?thesis
      using px_adds[OF assms(1) b(1,3) px_open_block(1)[OF assms(1) b(1,2,3)], of "Thinking (t @ dl) sg"] b(4,5) ThinkingDelta by simp
  next
    case (ToolCallDelta i dl)
    with ev obtain blocks cid name args pj where b: "acc_content s = Some blocks" "slice_get (acc_open s) i \<noteq> Some False"
      "i < length blocks" "blocks ! i = ToolCall cid name args (Some pj)" "s' = put_block i blocks (ToolCall cid name args (Some (pj @ dl))) s"
      by (auto simp: on_tool_call_delta_Inr)
    show ?thesis
      using px_adds[OF assms(1) b(1,3) px_open_block(1)[OF assms(1) b(1,2,3)], of "ToolCall cid name args (Some (pj @ dl))"] b(4,5) ToolCallDelta by simp
  next
    case (TextEnd i)
    with ev obtain blocks t where b: "acc_content s = Some blocks" "slice_get (acc_open s) i \<noteq> Some False" "i < length blocks"
      "blocks ! i = Text t" "s' = close_block i s"
      by (auto simp: on_text_end_Inr)
    show ?thesis
      using px_end[OF assms(1) b(1,3) px_open_block(1)[OF assms(1) b(1,2,3)], of ev "Text t"] b(4,5) TextEnd put_same[OF b(1), of i] by simp
  next
    case (ThinkingEnd i sg)
    with ev obtain blocks t sg' where b: "acc_content s = Some blocks" "slice_get (acc_open s) i \<noteq> Some False" "i < length blocks"
      "blocks ! i = Thinking t sg'" "s' = close_block i (put_block i blocks (Thinking t sg) s)"
      by (auto simp: on_thinking_end_Inr)
    show ?thesis
      using px_end[OF assms(1) b(1,3) px_open_block(1)[OF assms(1) b(1,2,3)], of ev "Thinking t sg"] b(4,5) ThinkingEnd by simp
  next
    case (ToolCallEnd i)
    with ev obtain blocks cid name args pj c where b: "acc_content s = Some blocks" "slice_get (acc_open s) i \<noteq> Some False"
      "i < length blocks" "blocks ! i = ToolCall cid name args (Some pj)" "s' = close_block i (put_block i blocks c s)"
      by (auto simp: on_tool_call_end_Inr)
    show ?thesis
      using px_end[OF assms(1) b(1,3) px_open_block(1)[OF assms(1) b(1,2,3)], of ev c] b(4,5) ToolCallEnd by simp
  qed (use assms(3) in simp_all)
qed

text \<open>Draining closes everything, in the order of the indices.\<close>

definition px_entries :: "proxy_stream_state \<Rightarrow> (usize \<times> assistant_message_event) set" where
  "px_entries st = (\<lambda>i. (i, TextEnd i)) ` set (px_text st) \<union> (\<lambda>i. (i, ThinkingEnd i None)) ` set (px_thinking st)
     \<union> (\<lambda>i. (i, ToolCallEnd i)) ` set (px_tool_calls st)"

lemma px_one_end:
  assumes "px_tracks st s" "(i, ev) \<in> px_entries st"
  shows "accepted from_str tol [ev] s (px_tracks (observe ev st))" "px_entries (observe ev st) = px_entries st - {(i, ev)}"
proof -
  obtain blocks where b: "acc_content s = Some blocks" "length (acc_open s) = length blocks"
    "\<forall>i < length blocks. acc_open s ! i \<longleftrightarrow> i \<in> px_open st" "\<forall>i \<in> px_open st. i < length blocks \<and> px_kinds st i (blocks ! i)"
    and d: "\<not> acc_saw_terminal s" "distinct (px_text st)" "distinct (px_thinking st)" "distinct (px_tool_calls st)"
    using assms(1) by (auto simp: px_tracks_def)
  have i: "i \<in> px_open st" using assms(2) by (auto simp: px_entries_def px_open_def)
  then have io: "i < length blocks" "acc_open s ! i" "px_kinds st i (blocks ! i)" using b by auto
  have sl: "slice_get (acc_open s) i \<noteq> Some False" using io(2) b(2) by simp
  consider (t) "ev = TextEnd i" "is_text_block (blocks ! i)" | (th) "ev = ThinkingEnd i None" "is_thinking_block (blocks ! i)"
    | (tc) "ev = ToolCallEnd i" "is_pending_call (blocks ! i)"
    using assms(2) io(3) by (auto simp: px_entries_def px_kinds_def)
  then have "(\<exists>s'. acc_event from_str tol ev s = Inr s') \<or> (\<exists>e. acc_event from_str tol ev s = Inl e \<and> arguments_error e)"
  proof cases
    case t
    with b(1) io(1) sl d(1) have "acc_event from_str tol ev s = Inr (close_block i s)" by (auto simp: acc_event_def on_text_end_Inr)
    then show ?thesis by blast
  next
    case th
    then obtain x sg where "blocks ! i = Thinking x sg" by auto
    with th b(1) io(1) sl d(1) have "acc_event from_str tol ev s = Inr (close_block i (put_block i blocks (Thinking x None) s))"
      by (auto simp: acc_event_def on_thinking_end_Inr)
    then show ?thesis by blast
  next
    case tc
    then obtain cid name args pj where c: "blocks ! i = ToolCall cid name args (Some pj)" by auto
    have eq: "acc_event from_str tol ev s = rbind (finish_arguments from_str tol args pj)
        (\<lambda>(args, pj). Inr (close_block i (put_block i blocks (ToolCall cid name args pj) s)))"
      using tc(1) c b(1,2) io(1,2) d(1) by (simp add: acc_event_def on_tool_call_end_def ensure_block_open_def slice_get_def)
    show ?thesis
      unfolding eq by (auto simp: finish_arguments_def arguments_error_def split: sum.split)
  qed
  moreover have "\<not> is_terminal ev" using assms(2) by (auto simp: px_entries_def)
  ultimately show "accepted from_str tol [ev] s (px_tracks (observe ev st))"
    using px_event[OF assms(1), of from_str tol ev]
    by (cases "acc_event from_str tol ev s") (auto simp: accepted_def)
  show "px_entries (observe ev st) = px_entries st - {(i, ev)}"
    using assms(2) d(2-4) by (auto simp: px_entries_def)
qed

lemma px_drain_accepted:
  "px_tracks st s \<Longrightarrow> distinct ps \<Longrightarrow> set ps = px_entries st \<Longrightarrow> accepted from_str tol (map snd ps) s (px_tracks proxy_new)"
proof (induction ps arbitrary: st s)
  case Nil
  then have "px_text st = []" "px_thinking st = []" "px_tool_calls st = []" by (auto simp: px_entries_def)
  then have "st = proxy_new" by (cases st) (simp add: proxy_new_def)
  with Nil show ?case by simp
next
  case (Cons p ps)
  obtain i ev where p: "p = (i, ev)" by (cases p)
  with Cons.prems have mem: "(i, ev) \<in> px_entries st" by auto
  note one = px_one_end[OF Cons.prems(1) mem]
  have "set ps = px_entries (observe ev st)" using Cons.prems(2,3) p one(2) by auto
  with Cons show ?case using accepted_Cons[OF one(1)] p by simp
qed

lemma px_drain_props: "px_tracks st s \<Longrightarrow> distinct (px_drain st) \<and> set (px_drain st) = px_entries st"
  by (auto simp: px_drain_def px_tracks_def px_entries_def distinct_map inj_on_def)

definition px_finished :: "acc \<Rightarrow> bool" where
  "px_finished s \<longleftrightarrow> acc_saw_terminal s \<and> acc_content s \<noteq> None \<and> acc_stop_reason s \<noteq> None"

lemma px_terminal:
  assumes "px_tracks proxy_new s" "is_terminal ev"
  shows "accepted from_str tol [ev] s px_finished"
proof -
  have "first_open (acc_open s) 0 = None" "acc_content s \<noteq> None" "\<not> acc_saw_terminal s"
    using assms(1) by (auto simp: first_open_None_iff in_set_conv_nth px_tracks_def px_open_def proxy_new_def)
  with assms(2) show ?thesis
    by (cases ev) (auto simp: accepted_def acc_event_def on_done_def on_error_def validate_terminal_open_blocks_def px_finished_def)
qed

lemma px_last:
  assumes "px_tracks st s" "is_terminal ev"
  shows "accepted from_str tol (map snd (px_drain st) @ [ev]) s px_finished"
  by (rule accepted_append[OF px_drain_accepted[OF assms(1)] px_terminal]) (use px_drain_props[OF assms(1)] assms(2) in simp_all)

lemma px_started: "px_tracks proxy_new acc_started"
  by (simp add: px_tracks_def proxy_new_def px_open_def acc_started_def acc_init_def)

section \<open>Broken streams are closed\<close>

text \<open>
  What the proxy server sends before its first terminal event or failure; a proper server sends
  events the accumulation accepts.
\<close>

definition server_events :: "(string \<Rightarrow> (string, sse_event_data) result) \<Rightarrow> sse_line list \<Rightarrow> assistant_message_event list" where
  "server_events parse ls = takeWhile (\<lambda>ev. \<not> is_terminal ev) (map (\<lambda>l. next_event parse (Some l)) ls)"

definition proper_server :: "json_parser \<Rightarrow> assistant_message_event list \<Rightarrow> bool" where
  "proper_server from_str evs \<longleftrightarrow> (\<forall>tol. accepted from_str tol evs acc_init (\<lambda>_. True))"

lemma accepted_ConsD:
  "accepted from_str tol (ev # evs) s (\<lambda>_. True) \<Longrightarrow>
     (\<exists>s'. acc_event from_str tol ev s = Inr s' \<and> accepted from_str tol evs s' (\<lambda>_. True))
   \<or> (\<exists>e. acc_event from_str tol ev s = Inl e \<and> arguments_error e)"
  by (cases "acc_event from_str tol ev s") (auto simp: accepted_def)

lemma before_start:
  assumes "ev \<noteq> Start" "\<not> is_terminal ev"
  shows "\<not> accepted from_str tol (ev # evs) acc_init (\<lambda>_. True)"
  using assms
  by (cases ev) (simp_all add: accepted_def acc_event_def acc_init_def block_start_def on_text_delta_def on_text_end_def on_thinking_delta_def
      on_thinking_end_def on_tool_call_delta_def on_tool_call_end_def arguments_error_def)

lemma px_first:
  assumes "is_terminal ev"
  shows "accepted from_str tol [Start, ev] acc_init px_finished"
proof (rule accepted_Cons)
  show "accepted from_str tol [Start] acc_init (px_tracks proxy_new)" by (simp add: accepted_def start_accepted px_started)
qed (rule px_terminal[OF _ assms])

lemma read_event_cases:
  "prepare_stream_event event started st =
     (if is_terminal event then (if started then (map snd (px_drain st) @ [event], True, True, proxy_new) else ([Start, event], True, True, st))
      else ([event], started \<or> event = Start, False, observe event st))"
  by (auto simp: prepare_stream_event_def prefix_start_if_unstarted_def pre_stream_error_def)

lemma reads_accepted:
  "px_rel started st s \<Longrightarrow> accepted from_str tol (server_events parse ls) s (\<lambda>_. True) \<Longrightarrow>
     accepted from_str tol (fst (proxy_reads parse cancelled k n ls started st)) s
       (\<lambda>s'. snd (proxy_reads parse cancelled k n ls started st) \<longrightarrow> px_finished s')"
proof (induction k arbitrary: n ls started st s)
  case (Suc k)
  have last: "accepted from_str tol (if started then map snd (px_drain st) @ [ev] else [Start, ev]) s px_finished" if "is_terminal ev" for ev
    using Suc.prems(1) px_last[OF _ that, of st s] px_first[OF that] by (auto simp: px_rel_def)
  show ?case
  proof (cases "cancelled n")
    case True
    have "is_terminal (cancelled_error ''operation cancelled'')" by (simp add: cancelled_error_def)
    with True last[OF this] show ?thesis by (cases started) (simp_all add: read_event_cases)
  next
    case False
    obtain item ls' where it: "next_item ls = (item, ls')" by fastforce
    let ?ev = "next_event parse item"
    show ?thesis
    proof (cases "is_terminal ?ev")
      case True
      with False it last[OF this] show ?thesis by (cases started) (simp_all add: read_event_cases)
    next
      case nt: False
      obtain l where ls: "ls = l # ls'" "item = Some l"
        using it nt by (cases ls) (auto simp: next_event_def event_error_def)
      then have evs: "server_events parse ls = ?ev # server_events parse ls'" using nt by (simp add: server_events_def)
      let ?rest = "proxy_reads parse cancelled k (n + 1) ls' (started \<or> ?ev = Start) (observe ?ev st)"
      have eq: "proxy_reads parse cancelled (Suc k) n ls started st = (?ev # fst ?rest, snd ?rest)"
        using False it nt by (simp add: read_event_cases case_prod_beta)
      have "accepted from_str tol (?ev # fst ?rest) s (\<lambda>s'. snd ?rest \<longrightarrow> px_finished s')"
        using accepted_ConsD[OF Suc.prems(2)[unfolded evs]]
      proof (elim disjE exE conjE)
        fix s'
        assume s': "acc_event from_str tol ?ev s = Inr s'" "accepted from_str tol (server_events parse ls') s' (\<lambda>_. True)"
        have "px_rel (started \<or> ?ev = Start) (observe ?ev st) s'"
        proof (cases started)
          case True
          then show ?thesis using px_event[OF _ s'(1) nt] Suc.prems(1) by (simp add: px_rel_def)
        next
          case not: False
          then have st: "st = proxy_new" "s = acc_init" using Suc.prems(1) by (simp_all add: px_rel_def)
          then have "?ev = Start" using before_start[OF _ nt] Suc.prems(2) evs by metis
          with st s'(1) show ?thesis by (simp add: px_rel_def start_accepted px_started)
        qed
        from Suc.IH[OF this s'(2)] s'(1) show ?thesis by (simp add: accepted_def)
      qed (simp add: accepted_def)
      then show ?thesis by (simp only: eq fst_conv snd_conv)
    qed
  qed
qed simp

lemma reads_end: "length ls < k \<Longrightarrow> snd (proxy_reads parse cancelled k n ls started st)"
proof (induction k arbitrary: n ls started st)
  case (Suc k)
  show ?case
  proof (cases ls)
    case Nil
    then show ?thesis by (simp add: read_event_cases next_event_def event_error_def cancelled_error_def case_prod_beta)
  next
    case (Cons l ls')
    with Suc.prems have "length ls' < k" by simp
    from Suc.IH[OF this] Cons show ?thesis by (simp add: read_event_cases case_prod_beta cancelled_error_def)
  qed
qed simp

lemma finished_message:
  assumes "\<And>tol. accepted from_str tol evs acc_init px_finished"
  shows "is_message (accumulate_message from_str now evs provider model)"
  using assms[of "list_ex is_done_length evs"]
  by (auto simp: accumulate_message_def is_message_def accepted_def acc_finish_def px_finished_def split: sum.splits)

text \<open>Every stream of a proper server ends and is a message.\<close>

lemma proxy_stream_ends:
  assumes "length (sse_data_lines response) < k" "proper_server from_str (server_events parse (sse_data_lines response))"
  shows "snd (proxy_stream parse cancelled k response)
    \<and> is_message (accumulate_message from_str now (fst (proxy_stream parse cancelled k response)) provider model)"
proof -
  note over = reads_end[OF assms(1), of parse cancelled 0 False proxy_new]
  have "accepted from_str tol (fst (proxy_stream parse cancelled k response)) acc_init px_finished" for tol
    using reads_accepted[of False proxy_new acc_init from_str tol parse "sse_data_lines response" cancelled k 0] assms(2) over
    by (simp add: px_rel_def proper_server_def proxy_stream_def)
  then show ?thesis using over by (simp add: proxy_stream_def finished_message)
qed

definition ex_proxy_parser :: "string \<Rightarrow> (string, sse_event_data) result" where
  "ex_proxy_parser d = (if d = ''s'' then Inr PxStart else if d = ''t'' then Inr (PxTextStart 0) else Inl ''bad'')"

text \<open>A server that breaks off inside a text block.\<close>

end
