(* ===== verification/Adapter_Calls.thy ===== *)
theory Adapter_Calls
  imports Oai_Transport Request_Bodies Anthropic Ollama Proxy
begin

text \<open>
  Whole calls of the adapters: the request that cannot be sent or is cancelled, the error response,
  and the stream (\<^verbatim>\<open>anthropic_stream\<close>, \<^verbatim>\<open>gemini_stream\<close>,
  \<^verbatim>\<open>ollama_stream\<close> and \<^verbatim>\<open>proxy_stream\<close> of
  \<^verbatim>\<open>adapters/src\<close>). The HTTP library answers an \<open>oai_response\<close>;
  \<open>retry_after\<close> is what the headers say of it.
\<close>

section \<open>Calls\<close>

definition adapter_call :: "(string \<Rightarrow> string) \<Rightarrow> (nat \<Rightarrow> bool) \<Rightarrow> string \<Rightarrow> (string \<Rightarrow> assistant_message_event) \<Rightarrow> (nat \<Rightarrow> string \<Rightarrow> assistant_message_event)
    \<Rightarrow> (byte_stream \<Rightarrow> assistant_message_event list \<times> bool) \<Rightarrow> oai_response \<Rightarrow> assistant_message_event list \<times> bool" where
  "adapter_call lossy cancelled cancelled_message unsent refused stream response =
     (case response of
        CancelledBefore \<Rightarrow> (pre_stream_error (cancelled_error cancelled_message), True)
      | CannotSend e \<Rightarrow> (pre_stream_error (unsent e), True)
      | Responded code headers bytes \<Rightarrow>
          if is_success code then stream bytes
          else (case read_error_body_or_cancelled lossy cancelled cancelled_message (body_chunks bytes) of
                  Inl event \<Rightarrow> (pre_stream_error event, True)
                | Inr body \<Rightarrow> (pre_stream_error (refused code body), True)))"

definition network_error :: "string \<Rightarrow> string \<Rightarrow> assistant_message_event" where
  "network_error what e = event_error (what @ e) (Some NetworkKind)"

definition anthropic_refused :: "json_parser \<Rightarrow> duration option \<Rightarrow> nat \<Rightarrow> string \<Rightarrow> assistant_message_event" where
  "anthropic_refused from_str retry_after code body =
     (case classify_anthropic_error_body from_str body of
        Some event \<Rightarrow> event
      | None \<Rightarrow> with_retry_after (error_event_from_status_with_overrides code body ''Anthropic'' [(529, HttpNetwork), (504, HttpNetwork)]) retry_after)"

definition anthropic_call :: "json_parser \<Rightarrow> (string \<Rightarrow> string) \<Rightarrow> duration option \<Rightarrow> (nat \<Rightarrow> bool) \<Rightarrow> nat \<Rightarrow> oai_response
    \<Rightarrow> assistant_message_event list \<times> bool" where
  "anthropic_call from_str lossy retry_after cancelled k =
     adapter_call lossy cancelled ''operation cancelled'' (network_error ''Anthropic connection error: '')
       (anthropic_refused from_str retry_after) (anthropic_stream from_str cancelled k)"

definition gemini_refused :: "json_parser \<Rightarrow> nat \<Rightarrow> string \<Rightarrow> assistant_message_event" where
  "gemini_refused from_str code body =
     (case classify_google_error_body from_str code body of
        Some event \<Rightarrow> event | None \<Rightarrow> error_event_from_status code body ''Google'')"

definition gemini_call :: "json_parser \<Rightarrow> (string \<Rightarrow> string) \<Rightarrow> (string \<Rightarrow> (string, gemini_chunk) result) \<Rightarrow> (json \<Rightarrow> string) \<Rightarrow> (nat \<Rightarrow> bool) \<Rightarrow> nat
    \<Rightarrow> oai_response \<Rightarrow> assistant_message_event list \<times> bool" where
  "gemini_call from_str lossy parse_chunk print cancelled k =
     adapter_call lossy cancelled ''Google request cancelled'' (network_error ''Google connection error: '') (gemini_refused from_str)
       (gemini_stream parse_chunk print cancelled k)"

definition ollama_call :: "json_parser \<Rightarrow> (string \<Rightarrow> string) \<Rightarrow> (string \<Rightarrow> string) \<Rightarrow> (string \<Rightarrow> (string, ollama_chunk) result) \<Rightarrow> (nat \<Rightarrow> string)
    \<Rightarrow> (json \<Rightarrow> string) \<Rightarrow> (nat \<Rightarrow> bool) \<Rightarrow> nat \<Rightarrow> oai_response \<Rightarrow> assistant_message_event list \<times> bool" where
  "ollama_call from_str lossy utf8_message parse_chunk uuid print cancelled k =
     adapter_call lossy cancelled ''Ollama request cancelled'' (network_error ''Ollama connection error: '')
       (\<lambda>code body. error_event_from_status code body ''Ollama'')
       (parse_ndjson_stream from_str utf8_message parse_chunk uuid print cancelled k)"

definition proxy_call :: "(string \<Rightarrow> string) \<Rightarrow> (string \<Rightarrow> (string, sse_event_data) result) \<Rightarrow> (nat \<Rightarrow> bool) \<Rightarrow> nat \<Rightarrow> oai_response
    \<Rightarrow> assistant_message_event list \<times> bool" where
  "proxy_call lossy parse cancelled k =
     adapter_call lossy cancelled ''operation cancelled'' (network_error ''network error: '')
       (\<lambda>code body. error_event_from_status code body ''Proxy'') (proxy_stream parse cancelled k)"

section \<open>Every call is a message\<close>

lemma adapter_call_is_message:
  assumes "\<And>e. is_terminal (unsent e)" "\<And>code body. is_terminal (refused code body)"
    and "\<And>code headers bytes. response = Responded code headers bytes \<Longrightarrow>
           snd (stream bytes) \<and> is_message (accumulate_message from_str now (fst (stream bytes)) provider model)"
  shows "snd (adapter_call lossy cancelled m unsent refused stream response)
    \<and> is_message (accumulate_message from_str now (fst (adapter_call lossy cancelled m unsent refused stream response)) provider model)"
proof (cases response)
  case (Responded code headers bytes)
  show ?thesis
  proof (cases "is_success code")
    case True
    with Responded assms(3) show ?thesis by (simp add: adapter_call_def)
  next
    case False
    show ?thesis
    proof (cases "read_error_body_or_cancelled lossy cancelled m (body_chunks bytes)")
      case (Inl ev)
      then have "is_terminal ev"
        by (auto simp: read_error_body_or_cancelled_def cancelled_error_def dest: read_error_body_cancelled)
      with Responded False Inl show ?thesis by (simp add: adapter_call_def pre_stream_error_def start_terminal_is_message)
    next
      case (Inr body)
      with Responded False assms(2) show ?thesis by (simp add: adapter_call_def pre_stream_error_def start_terminal_is_message)
    qed
  qed
qed (use assms(1) in \<open>simp_all add: adapter_call_def pre_stream_error_def cancelled_error_def start_terminal_is_message\<close>)

lemma network_error_terminal [simp]: "is_terminal (network_error what e)"
  by (simp add: network_error_def event_error_def)

lemma override_error_terminal: "is_terminal (error_event_from_status_with_overrides code body provider overrides)"
  by (simp add: error_event_from_status_with_overrides_def event_error_def split: option.split http_error_kind.split)

lemma refused_terminal: "is_terminal (anthropic_refused from_str retry_after code body)" "is_terminal (gemini_refused from_str code body)"
proof -
  have "is_terminal (with_retry_after ev retry_after)" if "is_terminal ev" for ev
    using that by (cases ev) simp_all
  moreover have "classify_anthropic_error_body from_str body = Some ev \<Longrightarrow> is_terminal ev" for ev
    by (auto simp: classify_anthropic_error_body_def event_error_def split: sum.splits option.splits if_splits)
  ultimately show "is_terminal (anthropic_refused from_str retry_after code body)"
    using override_error_terminal by (auto simp: anthropic_refused_def split: option.split)
  have "classify_google_error_body from_str code body = Some ev \<Longrightarrow> is_terminal ev" for ev
    by (auto simp: classify_google_error_body_def event_error_def split: sum.splits option.splits if_splits)
  then show "is_terminal (gemini_refused from_str code body)"
    using status_error_terminal by (auto simp: gemini_refused_def split: option.split)
qed

text \<open>
  C31. When the Messages API keeps its documented protocol, blocks one at a time with deltas of
  their kind, a call ends and its events are accepted as one message, whether the request is
  cancelled, cannot be sent or is refused, and wherever the response breaks off or becomes
  unreadable; only arguments that are not JSON can make the message fail.
\<close>

theorem anthropic_call_is_message:
  assumes "\<And>code headers bytes. response = Responded code headers bytes \<Longrightarrow>
      one_block_at_a_time None (map (view from_str) (sse_paired_events bytes)) \<and> length (sse_paired_events bytes) + 2 \<le> k"
  shows "snd (anthropic_call from_str lossy retry_after cancelled k response)
    \<and> is_message (accumulate_message from_str' now (fst (anthropic_call from_str lossy retry_after cancelled k response)) provider model)"
  unfolding anthropic_call_def
  by (rule adapter_call_is_message) (use assms anthropic_stream_ends refused_terminal in simp_all)

text \<open>
  As long as the function calls of a response have names, a Gemini call ends and its events
  are accepted as one message, whatever else the server sends, refuses or breaks off and whenever
  the call is cancelled; only tool arguments that are not JSON can fail it.
\<close>

theorem gemini_call_is_message:
  assumes "\<And>code headers bytes. response = Responded code headers bytes \<Longrightarrow>
      list_all (calls_named parse_chunk) (sse_data_lines bytes) \<and> length (sse_data_lines bytes) + 2 \<le> k"
  shows "snd (gemini_call from_str lossy parse_chunk print cancelled k response)
    \<and> is_message (accumulate_message from_str' now (fst (gemini_call from_str lossy parse_chunk print cancelled k response)) provider model)"
  unfolding gemini_call_def
  by (rule adapter_call_is_message) (use assms gemini_stream_ends refused_terminal in simp_all)

text \<open>
  Whatever bytes Ollama sends, in whatever chunks, whether it refuses the request and whenever
  the call is cancelled, the call ends and its events are accepted as one message; only arguments
  that do not parse as JSON after they were printed could fail it.
\<close>

theorem ollama_call_is_message:
  assumes "\<And>code headers bytes. response = Responded code headers bytes \<Longrightarrow> length (ndjson_lines from_str utf8_message bytes) + 2 \<le> k"
  shows "snd (ollama_call from_str lossy utf8_message parse_chunk uuid print cancelled k response)
    \<and> is_message (accumulate_message from_str' now
        (fst (ollama_call from_str lossy utf8_message parse_chunk uuid print cancelled k response)) provider model)"
  unfolding ollama_call_def
  by (rule adapter_call_is_message) (use assms ollama_stream_ends status_error_terminal in simp_all)


section \<open>Examples\<close>

theorem anthropic_call_is_message_witness:
  "snd (anthropic_call ex_parser id None (\<lambda>n. n = 3) 9
      (Responded 200 [] [Inr ''event: content_block_start'', Inr (nl # ''data: start0''), Inr [nl, nl]]))
   \<and> is_message (accumulate_message Inl 0 (fst (anthropic_call ex_parser id None (\<lambda>n. n = 3) 9
      (Responded 200 [] [Inr ''event: content_block_start'', Inr (nl # ''data: start0''), Inr [nl, nl]]))) ''anthropic'' ''claude'')"
proof -
  let ?r = "[Inr ''event: content_block_start'', Inr (nl # ''data: start0''), Inr [nl, nl]]"
  have "sse_paired_events ?r = [server_event ''content_block_start'' ''start0'']" by code_simp
  then have "one_block_at_a_time None (map (view ex_parser) (sse_paired_events ?r)) \<and> length (sse_paired_events ?r) + 2 \<le> 9"
    by (simp add: view_def server_event_def ex_parser_def start_json_def block_json_def required_index_def)
  then show ?thesis by (intro anthropic_call_is_message) simp
qed

theorem gemini_call_is_message_witness:
  "snd (gemini_call Inl id (\<lambda>_. Inr (parts_chunk [call_part ''f'', text_part ''x''])) (\<lambda>_. ''{}'') (\<lambda>n. n = 2) 4
      (Responded 200 [] [Inr ''data: {}'', Inr [nl], Inr ''data: [DONE]'']))
   \<and> is_message (accumulate_message Inl 0
       (fst (gemini_call Inl id (\<lambda>_. Inr (parts_chunk [call_part ''f'', text_part ''x''])) (\<lambda>_. ''{}'') (\<lambda>n. n = 2) 4
         (Responded 200 [] [Inr ''data: {}'', Inr [nl], Inr ''data: [DONE]'']))) ''google'' ''gemini'')"
proof -
  let ?r = "[Inr ''data: {}'', Inr [nl], Inr ''data: [DONE]'']" and ?p = "\<lambda>_. Inr (parts_chunk [call_part ''f'', text_part ''x''])"
  have l: "length (sse_data_lines ?r) = 2" by code_simp
  have "str_trim ''f'' \<noteq> []" by code_simp
  then have named: "list_all (calls_named ?p) ls" for ls
    by (simp add: list_all_iff calls_named_def gemini_ok_def named_calls_def parts_chunk_def call_part_def text_part_def split: sse_line.split)
  have "list_all (calls_named ?p) (sse_data_lines ?r) \<and> length (sse_data_lines ?r) + 2 \<le> 4" using named by (simp add: l)
  then show ?thesis by (intro gemini_call_is_message) simp
qed

theorem ollama_call_is_message_witness:
  "snd (ollama_call (\<lambda>_. Inr JNull) id (\<lambda>_. []) (\<lambda>_. Inr ex_ollama_chunk) show_nat (\<lambda>_. ''{}'') (\<lambda>n. n = 1) 4
      (Responded 200 [] [Inr ''{a'', Inr (''}'' @ [nl, cr, nl]), Inr ''b'']))
   \<and> is_message (accumulate_message Inl 0
      (fst (ollama_call (\<lambda>_. Inr JNull) id (\<lambda>_. []) (\<lambda>_. Inr ex_ollama_chunk) show_nat (\<lambda>_. ''{}'') (\<lambda>n. n = 1) 4
        (Responded 200 [] [Inr ''{a'', Inr (''}'' @ [nl, cr, nl]), Inr ''b'']))) ''ollama'' ''llama'')"
proof -
  have "ndjson_lines (\<lambda>_. Inr JNull) (\<lambda>_. []) [Inr ''{a'', Inr (''}'' @ [nl, cr, nl]), Inr ''b''] = [Inr ''{a}'', Inr ''b'']" by code_simp
  then have "length (ndjson_lines (\<lambda>_. Inr JNull) (\<lambda>_. []) [Inr ''{a'', Inr (''}'' @ [nl, cr, nl]), Inr ''b'']) + 2 \<le> 4" by simp
  then show ?thesis by (intro ollama_call_is_message) simp
qed


end
