(* ===== verification/Mistral.thy ===== *)
theory Mistral
  imports Oai_Transport Message_Convert
begin

text \<open>
  The Mistral adapter (\<^verbatim>\<open>adapters/src/mistral.rs\<close>): the map between the tool-call
  identifiers of the harness and those Mistral accepts, the conversion of a conversation, and the
  stream whose identifiers are mapped back.

  \<open>uuid\<close> stands for the sixteen bytes of the identifiers drawn one after the other.
\<close>

section \<open>Identifiers\<close>

record mistral_id_map =
  mi_harness_to_mistral :: "(string, string) hashmap"
  mi_mistral_to_harness :: "(string, string) hashmap"
  mi_drawn :: nat

definition mistral_ids_new :: mistral_id_map where
  "mistral_ids_new = \<lparr>mi_harness_to_mistral = [], mi_mistral_to_harness = [], mi_drawn = 0\<rparr>"

definition MISTRAL_ID_CHARSET :: string where
  "MISTRAL_ID_CHARSET = ''abcdefghijklmnopqrstuvwxyzABCDEFGHIJKLMNOPQRSTUVWXYZ0123456789''"

definition generate_mistral_id :: "nat list \<Rightarrow> string" where
  "generate_mistral_id bytes = map (\<lambda>b. MISTRAL_ID_CHARSET ! (b mod length MISTRAL_ID_CHARSET)) (take 9 bytes)"

definition remap_to_mistral :: "(nat \<Rightarrow> nat list) \<Rightarrow> string \<Rightarrow> mistral_id_map \<Rightarrow> string \<times> mistral_id_map" where
  "remap_to_mistral uuid harness_id m =
     (case hm_get (mi_harness_to_mistral m) harness_id of
        Some mid \<Rightarrow> (mid, m)
      | None \<Rightarrow>
          let mid = generate_mistral_id (uuid (mi_drawn m))
          in (mid, m\<lparr>mi_drawn := mi_drawn m + 1, mi_harness_to_mistral := hm_insert harness_id mid (mi_harness_to_mistral m),
                     mi_mistral_to_harness := hm_insert mid harness_id (mi_mistral_to_harness m)\<rparr>))"

definition remap_to_harness :: "string \<Rightarrow> mistral_id_map \<Rightarrow> string \<times> mistral_id_map" where
  "remap_to_harness mistral_id m =
     (case hm_get (mi_mistral_to_harness m) mistral_id of
        Some hid \<Rightarrow> (hid, m)
      | None \<Rightarrow>
          let hid = ''call_'' @ mistral_id
          in (hid, m\<lparr>mi_mistral_to_harness := hm_insert mistral_id hid (mi_mistral_to_harness m),
                     mi_harness_to_mistral := hm_insert hid mistral_id (mi_harness_to_mistral m)\<rparr>))"

section \<open>Requests\<close>

fun remap_calls :: "(nat \<Rightarrow> nat list) \<Rightarrow> oai_tool_call_request list \<Rightarrow> mistral_id_map \<Rightarrow> oai_tool_call_request list \<times> mistral_id_map" where
  "remap_calls uuid [] m = ([], m)"
| "remap_calls uuid (tc # tcs) m =
     (let (mid, m) = remap_to_mistral uuid (otc_id tc) m; (tcs, m) = remap_calls uuid tcs m
      in (tc\<lparr>otc_id := mid\<rparr> # tcs, m))"

definition filler_message :: oai_message where
  "filler_message = \<lparr>om_role = ''assistant'', om_content = Some [], om_tool_calls = None, om_tool_call_id = None\<rparr>"

definition remap_message :: "(nat \<Rightarrow> nat list) \<Rightarrow> oai_message \<Rightarrow> mistral_id_map \<Rightarrow> oai_message \<times> mistral_id_map" where
  "remap_message uuid msg m =
     (let (msg, m) =
            (case om_tool_calls msg of
               Some tcs \<Rightarrow>
                 if om_role msg = ''assistant''
                 then (let (tcs, m) = remap_calls uuid tcs m in (msg\<lparr>om_tool_calls := Some tcs\<rparr>, m)) else (msg, m)
             | None \<Rightarrow> (msg, m))
      in case om_tool_call_id msg of
           Some i \<Rightarrow>
             if om_role msg = ''tool''
             then (let (mid, m) = remap_to_mistral uuid i m in (msg\<lparr>om_tool_call_id := Some mid\<rparr>, m)) else (msg, m)
         | None \<Rightarrow> (msg, m))"

fun mistral_messages :: "(nat \<Rightarrow> nat list) \<Rightarrow> bool \<Rightarrow> oai_message list \<Rightarrow> mistral_id_map \<Rightarrow> oai_message list \<times> mistral_id_map" where
  "mistral_messages uuid prev_was_tool [] m = ([], m)"
| "mistral_messages uuid prev_was_tool (msg # msgs) m =
     (let filler = (if prev_was_tool \<and> om_role msg = ''user'' then [filler_message] else []);
          (msg', m) = remap_message uuid msg m;
          (rest, m) = mistral_messages uuid (om_role msg' = ''tool'') msgs m
      in (filler @ msg' # rest, m))"

definition convert_messages_for_mistral :: "(json \<Rightarrow> string) \<Rightarrow> (nat \<Rightarrow> nat list) \<Rightarrow> agent_message list \<Rightarrow> string
    \<Rightarrow> oai_message list \<times> mistral_id_map" where
  "convert_messages_for_mistral print uuid messages system_prompt =
     mistral_messages uuid False (convert_messages (oai_converter print) messages system_prompt) mistral_ids_new"

section \<open>Responses\<close>

fun normalize_event :: "assistant_message_event \<Rightarrow> mistral_id_map \<Rightarrow> assistant_message_event \<times> mistral_id_map" where
  "normalize_event (ToolCallStart i cid name) m = (let (hid, m) = remap_to_harness cid m in (ToolCallStart i hid name, m))"
| "normalize_event ev m = (ev, m)"

fun normalize_response_stream :: "assistant_message_event list \<Rightarrow> mistral_id_map \<Rightarrow> assistant_message_event list \<times> mistral_id_map" where
  "normalize_response_stream [] m = ([], m)"
| "normalize_response_stream (ev # evs) m =
     (let (ev, m) = normalize_event ev m; (evs, m) = normalize_response_stream evs m in (ev # evs, m))"

definition mistral_call_events :: "(json \<Rightarrow> string) \<Rightarrow> (nat \<Rightarrow> nat list) \<Rightarrow> agent_message list \<Rightarrow> string \<Rightarrow> json_parser \<Rightarrow> (string \<Rightarrow> real option option)
    \<Rightarrow> (string \<Rightarrow> string) \<Rightarrow> (string \<Rightarrow> (string, oai_chunk) result) \<Rightarrow> string \<Rightarrow> (nat \<Rightarrow> bool) \<Rightarrow> nat \<Rightarrow> oai_response
    \<Rightarrow> assistant_message_event list \<times> bool" where
  "mistral_call_events print uuid messages system_prompt from_str parse_f64 lossy parse_chunk model_id cancelled k response =
     (let (_, id_map) = convert_messages_for_mistral print uuid messages system_prompt;
          (raw, over) = oai_call_events from_str parse_f64 lossy parse_chunk ''Mistral'' (Some model_id)
            \<lparr>po_detect_content_filter_results = False, po_error_finish_reason_is_error = True\<rparr> cancelled k response
      in (fst (normalize_response_stream raw id_map), over))"

section \<open>Mapping the identifiers back changes nothing else\<close>

fun rename_event :: "(string \<Rightarrow> string) \<Rightarrow> assistant_message_event \<Rightarrow> assistant_message_event" where
  "rename_event r (ToolCallStart i cid name) = ToolCallStart i (r cid) name"
| "rename_event r ev = ev"

fun rename_block :: "(string \<Rightarrow> string) \<Rightarrow> content_block \<Rightarrow> content_block" where
  "rename_block r (ToolCall cid name arguments pj) = ToolCall (r cid) name arguments pj"
| "rename_block r b = b"

definition rename_acc :: "(string \<Rightarrow> string) \<Rightarrow> acc \<Rightarrow> acc" where
  "rename_acc r s = s\<lparr>acc_content := map_option (map (rename_block r)) (acc_content s)\<rparr>"

lemma rename_acc_fields [simp]:
  "acc_content (rename_acc r s) = map_option (map (rename_block r)) (acc_content s)"
  "acc_open (rename_acc r s) = acc_open s" "acc_saw_start (rename_acc r s) = acc_saw_start s"
  "acc_saw_terminal (rename_acc r s) = acc_saw_terminal s"
  by (simp_all add: rename_acc_def)

lemma rename_acc_updates:
  "rename_acc r (put_block i blocks b s) = put_block i (map (rename_block r) blocks) (rename_block r b) (rename_acc r s)"
  "rename_acc r (close_block i s) = close_block i (rename_acc r s)"
  "rename_acc r (s\<lparr>acc_content := Some bs, acc_open := bools\<rparr>) = rename_acc r s\<lparr>acc_content := Some (map (rename_block r) bs), acc_open := bools\<rparr>"
  "rename_acc r (s\<lparr>acc_saw_start := x, acc_content := Some []\<rparr>) = rename_acc r s\<lparr>acc_saw_start := x, acc_content := Some []\<rparr>"
  by (simp_all add: rename_acc_def put_block_def close_block_def map_update)

lemma slice_get_map: "slice_get (map f xs) i = map_option f (slice_get xs i)"
  by (simp add: slice_get_def)

lemma rename_tool_calls: "all_open_blocks_are_tool_calls (map (rename_block r) bs) bools = all_open_blocks_are_tool_calls bs bools"
proof -
  have "is_tool_call_block (rename_block r b) = is_tool_call_block b" for b by (cases b) auto
  then have "is_tool_call_block \<circ> rename_block r = is_tool_call_block" by (simp add: comp_def)
  then show ?thesis unfolding all_open_blocks_are_tool_calls_def slice_get_map case_map_option by (simp only:)
qed

lemma rbind_case: "rbind (ok_or x e) f = (case x of None \<Rightarrow> Inl e | Some a \<Rightarrow> f a)"
  "rbind (if c then Inl e else Inr a) f = (if c then Inl e else f a)"
  "rbind (case y of None \<Rightarrow> Inr a | Some b \<Rightarrow> g b) f = (case y of None \<Rightarrow> f a | Some b \<Rightarrow> rbind (g b) f)"
  by (simp_all split: option.split)

lemma acc_event_rename:
  "acc_event from_str tol (rename_event r ev) (rename_acc r s) = map_sum id (rename_acc r) (acc_event from_str tol ev s)"
proof (cases "acc_saw_terminal s")
  case True
  then show ?thesis by (cases ev) (simp_all add: acc_event_def)
next
  case False
  note eval = acc_event_def rename_acc_updates slice_get_def rbind_case False
  show ?thesis
  proof (cases ev)
    case Start
    then show ?thesis by (simp add: eval on_start_def)
  next
    case (TextStart i)
    then show ?thesis by (cases "acc_content s") (simp_all add: eval block_start_def)
  next
    case (TextDelta i d)
    then show ?thesis
      by (auto simp: eval on_text_delta_def ensure_block_open_def split: option.split content_block.split sum.split)
  next
    case (TextEnd i)
    then show ?thesis
      by (auto simp: eval on_text_end_def ensure_block_open_def split: option.split content_block.split sum.split)
  next
    case (ThinkingStart i)
    then show ?thesis by (cases "acc_content s") (simp_all add: eval block_start_def)
  next
    case (ThinkingDelta i d)
    then show ?thesis
      by (auto simp: eval on_thinking_delta_def ensure_block_open_def split: option.split content_block.split sum.split)
  next
    case (ThinkingEnd i sg)
    then show ?thesis
      by (auto simp: eval on_thinking_end_def ensure_block_open_def split: option.split content_block.split sum.split)
  next
    case (ToolCallStart i cid name)
    then show ?thesis by (cases "acc_content s") (simp_all add: eval block_start_def)
  next
    case (ToolCallDelta i d)
    then show ?thesis
      by (auto simp: eval on_tool_call_delta_def ensure_block_open_def split: option.split content_block.split sum.split)
  next
    case (ToolCallEnd i)
    then show ?thesis
      by (auto simp: eval on_tool_call_end_def ensure_block_open_def finish_arguments_def split: option.split content_block.split sum.split)
  next
    case (Done sr u c)
    then show ?thesis
      by (auto simp: eval on_done_def validate_terminal_open_blocks_def rename_tool_calls rename_acc_def split: option.split sum.split)
  next
    case (Error sr em u k ra)
    then show ?thesis
      by (auto simp: eval on_error_def validate_terminal_open_blocks_def rename_tool_calls rename_acc_def split: option.split sum.split)
  qed
qed

lemma acc_events_rename:
  "acc_events from_str tol (map (rename_event r) evs) (rename_acc r s) = map_sum id (rename_acc r) (acc_events from_str tol evs s)"
proof (induction evs arbitrary: s)
  case (Cons ev evs)
  then show ?case
    by (cases "acc_event from_str tol ev s") (simp_all add: acc_event_rename)
qed simp

lemma accumulate_rename:
  "accumulate_message from_str now (map (rename_event r) evs) provider model =
     map_sum id (\<lambda>m. m\<lparr>am_content := map (rename_block r) (am_content m)\<rparr>) (accumulate_message from_str now evs provider model)"
proof -
  have len: "is_done_length (rename_event r ev) = is_done_length ev" for ev by (cases ev) auto
  have init: "rename_acc r acc_init = acc_init" by (simp add: rename_acc_def acc_init_def)
  have fin: "acc_finish provider model now (rename_acc r s) =
      map_sum id (\<lambda>m. m\<lparr>am_content := map (rename_block r) (am_content m)\<rparr>) (acc_finish provider model now s)" for s
    by (cases "acc_content s"; cases "acc_stop_reason s") (simp_all add: acc_finish_def rename_acc_def)
  show ?thesis
    unfolding accumulate_message_def
    using acc_events_rename[of from_str "list_ex is_done_length evs" r evs acc_init]
    by (cases "acc_events from_str (list_ex is_done_length evs) evs acc_init")
       (simp_all add: list_ex_iff len init fin)
qed

lemma remap_to_harness_get:
  "hm_get (mi_mistral_to_harness (snd (remap_to_harness i m))) i = Some (fst (remap_to_harness i m))"
  by (auto simp: remap_to_harness_def Let_def hm.get_ins split: option.split)

text \<open>The map back only grows, so one function renames the whole stream.\<close>

definition id_of :: "mistral_id_map \<Rightarrow> string \<Rightarrow> string" where
  "id_of m i = the (hm_get (mi_mistral_to_harness m) i)"

lemma normalize_keeps:
  "hm_get (mi_mistral_to_harness m) i = Some h \<Longrightarrow> hm_get (mi_mistral_to_harness (snd (normalize_response_stream evs m))) i = Some h"
proof (induction evs arbitrary: m)
  case (Cons ev evs)
  have "hm_get (mi_mistral_to_harness (snd (normalize_event ev m))) i = Some h"
    using Cons.prems by (cases ev) (auto simp: remap_to_harness_def Let_def hm.get_ins split: option.split)
  with Cons.IH show ?case by (simp add: case_prod_beta)
qed simp

lemma normalize_is_rename:
  "fst (normalize_response_stream evs m) = map (rename_event (id_of (snd (normalize_response_stream evs m)))) evs"
proof (induction evs arbitrary: m)
  case (Cons ev evs)
  let ?m = "snd (normalize_event ev m)"
  have "fst (normalize_event ev m) = rename_event (id_of (snd (normalize_response_stream evs ?m))) ev"
  proof (cases ev)
    case (ToolCallStart i cid name)
    have "hm_get (mi_mistral_to_harness ?m) cid = Some (fst (remap_to_harness cid m))"
      using remap_to_harness_get[of cid m] by (simp add: ToolCallStart case_prod_beta)
    from normalize_keeps[OF this] show ?thesis by (simp add: ToolCallStart id_of_def case_prod_beta)
  qed simp_all
  with Cons.IH[of ?m] show ?case by (simp add: case_prod_beta)
qed simp

text \<open>
  A call of Mistral ends, whatever the server does, with events that are accepted as one message;
  it is the message of the OpenAI-compatible events with its tool-call identifiers mapped to those
  of the harness.
\<close>

theorem mistral_call_is_message:
  assumes "\<And>code headers bytes. response = Responded code headers bytes \<Longrightarrow> length (sse_data_lines bytes) + 2 \<le> k"
  shows "snd (mistral_call_events print uuid messages system_prompt from_str parse_f64 lossy parse_chunk model_id cancelled k response)
    \<and> is_message (accumulate_message from_str' now
        (fst (mistral_call_events print uuid messages system_prompt from_str parse_f64 lossy parse_chunk model_id cancelled k response)) provider model)"
proof -
  let ?call = "oai_call_events from_str parse_f64 lossy parse_chunk ''Mistral'' (Some model_id)
            \<lparr>po_detect_content_filter_results = False, po_error_finish_reason_is_error = True\<rparr> cancelled k response"
  have call: "snd ?call \<and> is_message (accumulate_message from_str' now (fst ?call) provider model)"
    by (rule openai_call_ends[OF assms])
  have renamed: "is_message (accumulate_message from_str' now (map (rename_event r) (fst ?call)) provider model)" for r
    using call unfolding accumulate_rename
    by (cases "accumulate_message from_str' now (fst ?call) provider model") (simp_all add: is_message_def)
  show ?thesis
    using call renamed by (simp add: mistral_call_events_def case_prod_beta normalize_is_rename)
qed

end
