(* ===== verification/Chat_Requests.thy ===== *)
theory Chat_Requests
  imports Mistral Turn_History
begin

text \<open>
  From the histories of the loop to the requests of the chat-completions APIs: the conversion keeps
  every answer right after its call, and Mistral's further demands on identifiers and on the order
  of roles are met as well.
\<close>

section \<open>Answered requests\<close>

definition chat_result_id :: "oai_message \<Rightarrow> string option" where
  "chat_result_id m = (if om_role m = ''tool'' then om_tool_call_id m else None)"

definition chat_call_ids :: "oai_message \<Rightarrow> string list" where
  "chat_call_ids m = (if om_role m = ''assistant'' then (case om_tool_calls m of Some tcs \<Rightarrow> map otc_id tcs | None \<Rightarrow> []) else [])"

text \<open>Every tool message answers a call of the message before the results, and every call is answered there.\<close>

fun settle_chat :: "open_calls \<Rightarrow> oai_message list \<Rightarrow> open_calls option" where
  "settle_chat s [] = Some s"
| "settle_chat (ids, waiting) (m # ms) =
     (case chat_result_id m of
        Some i \<Rightarrow> if i \<in> set ids then settle_chat (ids, waiting - {i}) ms else None
      | None \<Rightarrow> if waiting = {} then settle_chat (chat_call_ids m, set (chat_call_ids m)) ms else None)"

definition answered_chat :: "oai_message list \<Rightarrow> bool" where
  "answered_chat ms = (case settle_chat ([], {}) ms of Some (_, waiting) \<Rightarrow> waiting = {} | None \<Rightarrow> False)"

lemma oai_call_ids: "map otc_id (List.map_filter (oai_call print) bs) = List.map_filter block_call_id bs"
  by (induction bs) (auto simp: List.map_filter_simps oai_call_def split: content_block.split)

lemma assistant_call_ids: "chat_call_ids (oai_assistant_message print m) = call_ids_of (Llm (Assistant m))"
  using oai_call_ids[of print "am_content m"]
  by (auto simp: chat_call_ids_def oai_assistant_message_def unless_empty_def call_ids_of_def Let_def)

lemma convert_settles:
  "settle (ids, w) ms = Some (ids', w') \<Longrightarrow> set ids \<subseteq> set jds \<Longrightarrow>
     \<exists>jds'. settle_chat (jds, w) (List.map_filter (convert_message (oai_converter print)) ms) = Some (jds', w') \<and> set ids' \<subseteq> set jds'"
proof (induction ms arbitrary: ids w jds)
  case Nil
  then show ?case by (auto simp: List.map_filter_simps)
next
  case (Cons m ms)
  show ?case
  proof (cases m)
    case (Custom c)
    with Cons.prems have "w = {}" "settle ([], {}) ms = Some (ids', w')" by (auto simp: call_ids_of_def split: if_splits)
    with Cons.IH[of "[]" "{}" jds] Custom show ?thesis by (simp add: List.map_filter_simps)
  next
    case (Llm l)
    show ?thesis
    proof (cases l)
      case (User u)
      with Llm Cons.prems have "w = {}" "settle ([], {}) ms = Some (ids', w')" by (auto simp: call_ids_of_def split: if_splits)
      with Cons.IH[of "[]" "{}" "[]"] Llm User show ?thesis
        by (simp add: List.map_filter_simps oai_converter_def oai_user_message_def chat_result_id_def chat_call_ids_def)
    next
      case (Assistant a)
      let ?ids = "call_ids_of m"
      from Llm Assistant Cons.prems have "w = {}" "settle (?ids, set ?ids) ms = Some (ids', w')" by (auto split: if_splits)
      with Cons.IH[of ?ids "set ?ids" ?ids] Llm Assistant assistant_call_ids[of print a] show ?thesis
        by (simp add: List.map_filter_simps oai_converter_def chat_result_id_def oai_assistant_message_def)
    next
      case (ToolResult r)
      let ?i = "tr_tool_call_id r"
      from Llm ToolResult Cons.prems have "?i \<in> set ids" "settle (ids, w - {?i}) ms = Some (ids', w')" by (auto split: if_splits)
      with Cons.IH[of ids "w - {?i}" jds] Cons.prems(2) Llm ToolResult show ?thesis
        by (auto simp: List.map_filter_simps oai_converter_def chat_result_id_def oai_tool_result_message_def)
    qed
  qed
qed

theorem chat_request_answered:
  assumes "answered_history ms"
  shows "answered_chat (convert_messages (oai_converter print) ms system_prompt)"
proof -
  obtain ids where "settle ([], {}) ms = Some (ids, {})" using assms by (rule answered_obtains)
  from convert_settles[OF this, of "[]" print]
  obtain jds where "settle_chat ([], {}) (List.map_filter (convert_message (oai_converter print)) ms) = Some (jds, {})" by auto
  then show ?thesis
    by (simp add: answered_chat_def convert_messages_def oai_converter_def oai_system_message_def chat_result_id_def chat_call_ids_def)
qed

section \<open>What Mistral's conversion does\<close>

definition rename_call :: "(string \<Rightarrow> string) \<Rightarrow> oai_tool_call_request \<Rightarrow> oai_tool_call_request" where
  "rename_call r tc = tc\<lparr>otc_id := r (otc_id tc)\<rparr>"

definition rename_chat :: "(string \<Rightarrow> string) \<Rightarrow> oai_message \<Rightarrow> oai_message" where
  "rename_chat r m = m\<lparr>om_tool_calls := (if om_role m = ''assistant'' then map_option (map (rename_call r)) (om_tool_calls m) else om_tool_calls m),
     om_tool_call_id := (if om_role m = ''tool'' then map_option r (om_tool_call_id m) else om_tool_call_id m)\<rparr>"

fun with_fillers :: "bool \<Rightarrow> oai_message list \<Rightarrow> oai_message list" where
  "with_fillers prev_was_tool [] = []"
| "with_fillers prev_was_tool (m # ms) =
     (if prev_was_tool \<and> om_role m = ''user'' then [filler_message] else []) @ m # with_fillers (om_role m = ''tool'') ms"

definition to_mistral :: "mistral_id_map \<Rightarrow> string \<Rightarrow> string" where
  "to_mistral m i = the (hm_get (mi_harness_to_mistral m) i)"

definition chat_ids :: "oai_message \<Rightarrow> string set" where
  "chat_ids m = set (chat_call_ids m) \<union> set_option (chat_result_id m)"

text \<open>What every draw keeps is kept by the whole conversion.\<close>

definition kept_by_draws :: "(nat \<Rightarrow> nat list) \<Rightarrow> (mistral_id_map \<Rightarrow> bool) \<Rightarrow> bool" where
  "kept_by_draws uuid P \<longleftrightarrow> (\<forall>i m. P m \<longrightarrow> P (snd (remap_to_mistral uuid i m)))"

lemma kept_calls: "kept_by_draws uuid P \<Longrightarrow> P m \<Longrightarrow> P (snd (remap_calls uuid tcs m))"
  by (induction tcs arbitrary: m) (auto simp: kept_by_draws_def case_prod_beta)

lemma kept_message: "kept_by_draws uuid P \<Longrightarrow> P m \<Longrightarrow> P (snd (remap_message uuid msg m))"
  using kept_calls[of uuid P m] by (auto simp: remap_message_def kept_by_draws_def case_prod_beta split: option.split)

lemma kept_messages: "kept_by_draws uuid P \<Longrightarrow> P m \<Longrightarrow> P (snd (mistral_messages uuid prev msgs m))"
  by (induction msgs arbitrary: prev m) (auto simp: case_prod_beta Let_def intro: kept_message)

lemma kept_entry: "kept_by_draws uuid (\<lambda>m. hm_get (mi_harness_to_mistral m) i = Some v)"
  by (auto simp: kept_by_draws_def remap_to_mistral_def Let_def hm.get_ins split: option.split)

lemma remap_get: "hm_get (mi_harness_to_mistral (snd (remap_to_mistral uuid i m))) i = Some (fst (remap_to_mistral uuid i m))"
  by (auto simp: remap_to_mistral_def Let_def hm.get_ins split: option.split)

definition later :: "mistral_id_map \<Rightarrow> mistral_id_map \<Rightarrow> bool" where
  "later m M \<longleftrightarrow> (\<forall>i v. hm_get (mi_harness_to_mistral m) i = Some v \<longrightarrow> hm_get (mi_harness_to_mistral M) i = Some v)"

lemma later_steps:
  "later m (snd (remap_calls uuid tcs m))" "later m (snd (mistral_messages uuid prev msgs m))" "later m (snd (remap_message uuid msg m))"
  "later m (snd (remap_to_mistral uuid i m))" "later m m'' \<Longrightarrow> later m'' M \<Longrightarrow> later m M"
  using kept_calls[OF kept_entry] kept_messages[OF kept_entry] kept_message[OF kept_entry] kept_entry
  by (auto simp: later_def kept_by_draws_def)

lemma remap_later: "later (snd (remap_to_mistral uuid i m)) M \<Longrightarrow> hm_get (mi_harness_to_mistral M) i = Some (fst (remap_to_mistral uuid i m))"
  using remap_get[of uuid i m] by (simp add: later_def)

lemma remap_calls_eq:
  "later (snd (remap_calls uuid tcs m)) M \<Longrightarrow>
     fst (remap_calls uuid tcs m) = map (rename_call (to_mistral M)) tcs \<and> (\<forall>tc \<in> set tcs. hm_get (mi_harness_to_mistral M) (otc_id tc) \<noteq> None)"
proof (induction tcs arbitrary: m)
  case (Cons tc tcs)
  let ?m = "snd (remap_to_mistral uuid (otc_id tc) m)"
  have "later ?m M" using Cons.prems later_steps(1,5) by (simp add: case_prod_beta) blast
  from remap_later[OF this] Cons show ?case by (simp add: case_prod_beta rename_call_def to_mistral_def)
qed simp

lemma remap_message_eq:
  assumes "later (snd (remap_message uuid msg m)) M"
  shows "fst (remap_message uuid msg m) = rename_chat (to_mistral M) msg"
    "i \<in> chat_ids msg \<Longrightarrow> hm_get (mi_harness_to_mistral M) i \<noteq> None"
proof -
  consider (assistant) tcs where "om_role msg = ''assistant''" "om_tool_calls msg = Some tcs"
    | (tool) j where "om_role msg = ''tool''" "om_tool_call_id msg = Some j"
    | (other) "om_role msg = ''assistant'' \<longrightarrow> om_tool_calls msg = None" "om_role msg = ''tool'' \<longrightarrow> om_tool_call_id msg = None"
    by (cases "om_tool_calls msg"; cases "om_tool_call_id msg") auto
  then have "fst (remap_message uuid msg m) = rename_chat (to_mistral M) msg
      \<and> (i \<in> chat_ids msg \<longrightarrow> hm_get (mi_harness_to_mistral M) i \<noteq> None)"
  proof cases
    case assistant
    have eq: "remap_message uuid msg m = (msg\<lparr>om_tool_calls := Some (fst (remap_calls uuid tcs m))\<rparr>, snd (remap_calls uuid tcs m))"
      using assistant by (simp add: remap_message_def case_prod_beta split: option.split)
    have "later (snd (remap_calls uuid tcs m)) M" using assms eq by simp
    from remap_calls_eq[OF this] assistant show ?thesis
      by (auto simp: eq rename_chat_def chat_ids_def chat_call_ids_def chat_result_id_def)
  next
    case tool
    have eq: "remap_message uuid msg m = (msg\<lparr>om_tool_call_id := Some (fst (remap_to_mistral uuid j m))\<rparr>, snd (remap_to_mistral uuid j m))"
      using tool by (simp add: remap_message_def case_prod_beta split: option.split)
    have "later (snd (remap_to_mistral uuid j m)) M" using assms eq by simp
    from remap_later[OF this] tool show ?thesis
      by (auto simp: eq rename_chat_def chat_ids_def chat_call_ids_def chat_result_id_def to_mistral_def)
  next
    case other
    have "chat_call_ids msg = []" "chat_result_id msg = None"
      using other by (auto simp: chat_call_ids_def chat_result_id_def)
    then have "chat_ids msg = {}" by (simp add: chat_ids_def)
    moreover have "remap_message uuid msg m = (msg, m)"
      using other by (cases "om_tool_calls msg"; cases "om_tool_call_id msg") (auto simp: remap_message_def)
    moreover have "(if om_role msg = ''assistant'' then map_option (map (rename_call (to_mistral M))) (om_tool_calls msg) else om_tool_calls msg)
        = om_tool_calls msg" using other(1) by auto
    moreover have "(if om_role msg = ''tool'' then map_option (to_mistral M) (om_tool_call_id msg) else om_tool_call_id msg) = om_tool_call_id msg"
      using other(2) by auto
    ultimately show ?thesis by (simp add: rename_chat_def)
  qed
  then show "fst (remap_message uuid msg m) = rename_chat (to_mistral M) msg"
    "i \<in> chat_ids msg \<Longrightarrow> hm_get (mi_harness_to_mistral M) i \<noteq> None" by blast+
qed

lemma rename_chat_role [simp]: "om_role (rename_chat r m) = om_role m"
  by (simp add: rename_chat_def)

lemma mistral_messages_eq:
  "later (snd (mistral_messages uuid prev msgs m)) M \<Longrightarrow>
     fst (mistral_messages uuid prev msgs m) = with_fillers prev (map (rename_chat (to_mistral M)) msgs)
   \<and> (\<forall>msg \<in> set msgs. \<forall>i \<in> chat_ids msg. hm_get (mi_harness_to_mistral M) i \<noteq> None)"
proof (induction msgs arbitrary: prev m)
  case (Cons msg msgs)
  let ?m = "snd (remap_message uuid msg m)"
  have "later ?m M" using Cons.prems later_steps(2,5) by (simp add: case_prod_beta Let_def) blast
  from remap_message_eq[OF this] Cons show ?case by (auto simp: case_prod_beta Let_def)
qed simp

section \<open>Mistral accepts the request\<close>

text \<open>Renaming and fillers keep an answered request answered.\<close>

lemma rename_ids: "chat_result_id (rename_chat r m) = map_option r (chat_result_id m)"
  "chat_call_ids (rename_chat r m) = map r (chat_call_ids m)"
  by (auto simp: chat_result_id_def chat_call_ids_def rename_chat_def rename_call_def split: option.split)

lemma filler_ids [simp]: "chat_result_id filler_message = None" "chat_call_ids filler_message = []" "chat_ids filler_message = {}"
  by (simp_all add: chat_ids_def chat_result_id_def chat_call_ids_def filler_message_def)

lemma fillers_settle:
  "settle_chat (ids, w) ms = Some (ids', w') \<Longrightarrow> r ` set ids \<subseteq> set jds \<Longrightarrow> v \<subseteq> r ` w \<Longrightarrow>
     \<exists>jds' v'. settle_chat (jds, v) (with_fillers prev (map (rename_chat r) ms)) = Some (jds', v') \<and> r ` set ids' \<subseteq> set jds' \<and> v' \<subseteq> r ` w'"
proof (induction ms arbitrary: ids w jds v prev)
  case (Cons m ms)
  show ?case
  proof (cases "chat_result_id m")
    case (Some i)
    then have tool: "om_role m \<noteq> ''user''" by (auto simp: chat_result_id_def split: if_splits)
    from Some Cons.prems have "i \<in> set ids" "settle_chat (ids, w - {i}) ms = Some (ids', w')" by (auto split: if_splits)
    moreover have "v - {r i} \<subseteq> r ` (w - {i})" using Cons.prems(3) by blast
    ultimately have "\<exists>jds' v'. settle_chat (jds, v - {r i}) (with_fillers (om_role m = ''tool'') (map (rename_chat r) ms)) = Some (jds', v')
        \<and> r ` set ids' \<subseteq> set jds' \<and> v' \<subseteq> r ` w'"
      using Cons.IH[of ids "w - {i}" jds "v - {r i}"] Cons.prems(2) by blast
    moreover have "r i \<in> set jds" using \<open>i \<in> set ids\<close> Cons.prems(2) by blast
    ultimately show ?thesis using Some tool by (simp add: rename_ids)
  next
    case None
    let ?ids = "chat_call_ids m"
    from None Cons.prems have w: "w = {}" "v = {}" "settle_chat (?ids, set ?ids) ms = Some (ids', w')" by (auto split: if_splits)
    have "\<exists>jds' v'. settle_chat (map r ?ids, set (map r ?ids)) (with_fillers (om_role m = ''tool'') (map (rename_chat r) ms)) = Some (jds', v')
        \<and> r ` set ids' \<subseteq> set jds' \<and> v' \<subseteq> r ` w'"
      using Cons.IH[OF w(3), of "map r ?ids" "set (map r ?ids)" "om_role m = ''tool''"] by simp
    then show ?thesis using None w(1,2)
      by (cases prev; cases "om_role m = ''user''") (simp_all add: rename_ids)
  qed
qed auto

fun no_user_after_tool :: "bool \<Rightarrow> oai_message list \<Rightarrow> bool" where
  "no_user_after_tool prev_was_tool [] = True"
| "no_user_after_tool prev_was_tool (m # ms) = (\<not> (prev_was_tool \<and> om_role m = ''user'') \<and> no_user_after_tool (om_role m = ''tool'') ms)"

lemma fillers_order: "no_user_after_tool prev (with_fillers prev ms)"
  by (induction ms arbitrary: prev) (auto simp: filler_message_def)

lemma fillers_removed: "filler_message \<notin> set ms \<Longrightarrow> filter (\<lambda>m. m \<noteq> filler_message) (with_fillers prev ms) = ms"
  by (induction ms arbitrary: prev) auto

text \<open>Identifiers have the form Mistral demands, and different ones stay different.\<close>

definition mistral_id :: "string \<Rightarrow> bool" where
  "mistral_id i \<longleftrightarrow> length i = 9 \<and> set i \<subseteq> set MISTRAL_ID_CHARSET"

lemma generated_id: "length bytes = 16 \<Longrightarrow> mistral_id (generate_mistral_id bytes)"
proof -
  have "MISTRAL_ID_CHARSET ! (b mod length MISTRAL_ID_CHARSET) \<in> set MISTRAL_ID_CHARSET" for b :: nat
  proof (rule nth_mem)
    have "0 < length MISTRAL_ID_CHARSET" by (simp add: MISTRAL_ID_CHARSET_def)
    then show "b mod length MISTRAL_ID_CHARSET < length MISTRAL_ID_CHARSET" by (rule mod_less_divisor)
  qed
  then show "length bytes = 16 \<Longrightarrow> mistral_id (generate_mistral_id bytes)"
    by (auto simp: mistral_id_def generate_mistral_id_def)
qed

definition drawn_ids :: "(nat \<Rightarrow> nat list) \<Rightarrow> mistral_id_map \<Rightarrow> bool" where
  "drawn_ids uuid m \<longleftrightarrow> (\<exists>f. inj_on f (dom (hm_get (mi_harness_to_mistral m)))
     \<and> (\<forall>i v. hm_get (mi_harness_to_mistral m) i = Some v \<longrightarrow> f i < mi_drawn m \<and> v = generate_mistral_id (uuid (f i))))"

lemma drawn_kept: "kept_by_draws uuid (drawn_ids uuid)"
  unfolding kept_by_draws_def
proof (intro allI impI)
  fix i m
  assume d: "drawn_ids uuid m"
  show "drawn_ids uuid (snd (remap_to_mistral uuid i m))"
  proof (cases "hm_get (mi_harness_to_mistral m) i")
    case None
    obtain f where f: "inj_on f (dom (hm_get (mi_harness_to_mistral m)))"
      "\<And>i v. hm_get (mi_harness_to_mistral m) i = Some v \<Longrightarrow> f i < mi_drawn m \<and> v = generate_mistral_id (uuid (f i))"
      using d by (auto simp: drawn_ids_def)
    let ?m = "snd (remap_to_mistral uuid i m)" and ?f = "f(i := mi_drawn m)"
    have get: "hm_get (mi_harness_to_mistral ?m) = (hm_get (mi_harness_to_mistral m))(i \<mapsto> generate_mistral_id (uuid (mi_drawn m)))"
      "mi_drawn ?m = mi_drawn m + 1"
      using None by (auto simp: remap_to_mistral_def Let_def hm.get_ins)
    have "inj_on ?f (dom (hm_get (mi_harness_to_mistral ?m)))"
      using f None by (fastforce simp: get inj_on_def dom_def)
    moreover have "\<forall>j v. hm_get (mi_harness_to_mistral ?m) j = Some v \<longrightarrow> ?f j < mi_drawn ?m \<and> v = generate_mistral_id (uuid (?f j))"
      using f(2) by (fastforce simp: get)
    ultimately show ?thesis unfolding drawn_ids_def by blast
  qed (use d in \<open>simp add: remap_to_mistral_def\<close>)
qed

lemma drawn_apart:
  assumes "drawn_ids uuid m" "inj_on (\<lambda>n. generate_mistral_id (uuid n)) {..<mi_drawn m}" "\<And>n. length (uuid n) = 16"
  shows "inj_on (to_mistral m) (dom (hm_get (mi_harness_to_mistral m)))" "hm_get (mi_harness_to_mistral m) i = Some v \<Longrightarrow> mistral_id v"
proof -
  obtain f where f: "inj_on f (dom (hm_get (mi_harness_to_mistral m)))"
    "\<And>i v. hm_get (mi_harness_to_mistral m) i = Some v \<Longrightarrow> f i < mi_drawn m \<and> v = generate_mistral_id (uuid (f i))"
    using assms(1) by (auto simp: drawn_ids_def)
  show "inj_on (to_mistral m) (dom (hm_get (mi_harness_to_mistral m)))"
  proof (rule inj_onI)
    fix i j
    assume ij: "i \<in> dom (hm_get (mi_harness_to_mistral m))" "j \<in> dom (hm_get (mi_harness_to_mistral m))" "to_mistral m i = to_mistral m j"
    then obtain v w where "hm_get (mi_harness_to_mistral m) i = Some v" "hm_get (mi_harness_to_mistral m) j = Some w" by auto
    with ij(3) f(2) have "f i < mi_drawn m" "f j < mi_drawn m" "generate_mistral_id (uuid (f i)) = generate_mistral_id (uuid (f j))"
      by (auto simp: to_mistral_def)
    with assms(2) have "f i = f j" by (auto dest: inj_onD)
    with f(1) ij(1,2) show "i = j" by (auto dest: inj_onD)
  qed
  show "mistral_id v" if "hm_get (mi_harness_to_mistral m) i = Some v"
    using f(2)[OF that] generated_id[OF assms(3)] by auto
qed

lemma conversion_no_filler: "filler_message \<notin> set (map (rename_chat r) (convert_messages (oai_converter print) ms system_prompt))"
proof -
  have "rename_chat r m \<noteq> filler_message" if "m \<in> set (convert_messages (oai_converter print) ms system_prompt)" for m
  proof
    assume eq: "rename_chat r m = filler_message"
    then have "om_role (rename_chat r m) = om_role filler_message" "om_content (rename_chat r m) = om_content filler_message" by simp_all
    then have m: "om_role m = ''assistant''" "om_content m = Some []" by (simp_all add: filler_message_def rename_chat_def)
    from that show False
      unfolding convert_messages_def set_append Un_iff
    proof (elim disjE)
      assume "m \<in> set (if system_prompt = [] then [] else case mc_system_message (oai_converter print) system_prompt of None \<Rightarrow> [] | Some sys \<Rightarrow> [sys])"
      with m show False by (auto simp: oai_converter_def oai_system_message_def split: if_splits)
    next
      assume "m \<in> set (List.map_filter (convert_message (oai_converter print)) ms)"
      then obtain msg where "convert_message (oai_converter print) msg = Some m" by (auto simp: List.map_filter_def)
      with m show False
        by (cases "(oai_converter print, msg)" rule: convert_message.cases)
           (auto simp: oai_converter_def oai_user_message_def oai_assistant_message_def oai_tool_result_message_def unless_empty_def split: if_splits)
    qed
  qed
  then show ?thesis by (metis imageE list.set_map)
qed


definition chat_history :: "agent_message list" where
  "chat_history =
     [Llm (User \<lparr>um_content = [Text ''hi''], um_timestamp = 0, um_cache_hint = None\<rparr>),
      Llm (Assistant (example_assistant [ToolCall ''call_1'' ''a'' (JObject []) None, ToolCall ''call_2'' ''b'' (JObject []) None])),
      Llm (ToolResult \<lparr>tr_tool_call_id = ''call_2'', tr_content = [], tr_is_error = False, tr_timestamp = 0, tr_details = JNull, tr_cache_hint = None\<rparr>),
      Llm (ToolResult \<lparr>tr_tool_call_id = ''call_1'', tr_content = [], tr_is_error = False, tr_timestamp = 0, tr_details = JNull, tr_cache_hint = None\<rparr>),
      Llm (User \<lparr>um_content = [Text ''go on''], um_timestamp = 0, um_cache_hint = None\<rparr>)]"

definition chat_uuid :: "nat \<Rightarrow> nat list" where
  "chat_uuid n = n # replicate 15 0"


end
