(* ===== verification/Request_Pairing.thy ===== *)
theory Request_Pairing
  imports Anthropic Turn_History
begin

text \<open>
  From the histories of the loop to the requests of the Messages API: the conversion of
  \<^verbatim>\<open>adapters/src/anthropic.rs\<close> leaves out messages and merges tool results, and the API
  refuses a request whose tool uses are not answered by the very next message.
\<close>

section \<open>Answered requests\<close>

definition use_ids :: "anthropic_message \<Rightarrow> string list" where
  "use_ids m = List.map_filter (\<lambda>b. case b of ABToolUse i _ _ \<Rightarrow> Some i | _ \<Rightarrow> None) (anm_content m)"

definition result_ids :: "anthropic_message \<Rightarrow> string list" where
  "result_ids m = List.map_filter (\<lambda>b. case b of ABToolResult i _ \<Rightarrow> Some i | _ \<Rightarrow> None) (anm_content m)"

text \<open>The tool uses of each message are answered, all of them and no others, by the next one.\<close>

fun answer_run :: "string set \<Rightarrow> anthropic_message list \<Rightarrow> string set option" where
  "answer_run waiting [] = Some waiting"
| "answer_run waiting (m # ms) =
     (if set (result_ids m) = waiting \<and> (waiting \<noteq> {} \<longrightarrow> anm_role m = ''user'' \<and> list_all is_result_block (anm_content m))
      then answer_run (set (use_ids m)) ms else None)"

definition answered_request :: "anthropic_message list \<Rightarrow> bool" where
  "answered_request ms \<longleftrightarrow> answer_run {} ms = Some {}"

lemma answer_run_append: "answer_run w (xs @ ys) = Option.bind (answer_run w xs) (\<lambda>v. answer_run v ys)"
  by (induction xs arbitrary: w) auto

lemma results_use_nothing: "list_all is_result_block (anm_content m) \<Longrightarrow> use_ids m = []"
proof -
  have "list_all is_result_block bs \<Longrightarrow> List.map_filter (\<lambda>b. case b of ABToolUse i _ _ \<Rightarrow> Some i | _ \<Rightarrow> None) bs = []" for bs
    by (induction bs) (auto simp: List.map_filter_simps elim: is_result_block.elims)
  then show "list_all is_result_block (anm_content m) \<Longrightarrow> use_ids m = []" by (simp add: use_ids_def)
qed

lemma assistant_blocks_ids:
  "List.map_filter (\<lambda>b. case b of ABToolUse i _ _ \<Rightarrow> Some i | _ \<Rightarrow> None) (assistant_blocks bs)
     = List.map_filter (\<lambda>b. case b of ToolCall i _ _ _ \<Rightarrow> Some i | _ \<Rightarrow> None) bs"
  "List.map_filter (\<lambda>b. case b of ABToolResult i _ \<Rightarrow> Some i | _ \<Rightarrow> None) (assistant_blocks bs) = []"
  by (induction bs) (auto simp: assistant_blocks_def List.map_filter_simps split: content_block.split)

section \<open>The conversion keeps answers together\<close>

text \<open>
  Reading the history with \<open>settle\<close> and converting it go in step: the calls of the last answer
  are still waiting, all of them, or some results have been merged into the message after it.
\<close>

definition converted :: "open_calls \<Rightarrow> anthropic_message list \<Rightarrow> bool" where
  "converted s res \<longleftrightarrow> (case s of (ids, waiting) \<Rightarrow>
     (waiting = {} \<longrightarrow> answer_run {} res = Some {})
     \<and> (ids \<noteq> [] \<longrightarrow> (\<exists>res0 m. answer_run {} res0 = Some {} \<and> anm_role m = ''assistant'' \<and> result_ids m = [] \<and> set (use_ids m) = set ids
          \<and> (res = res0 @ [m] \<and> waiting = set ids
             \<or> (\<exists>u. res = res0 @ [m, u] \<and> anm_role u = ''user'' \<and> list_all is_result_block (anm_content u)
                  \<and> set (result_ids u) \<subseteq> set ids \<and> waiting = set ids - set (result_ids u))))))"

lemma call_ids_assistant: "call_ids_of (Llm (Assistant m)) = use_ids \<lparr>anm_role = r, anm_content = assistant_blocks (am_content m)\<rparr>"
proof -
  have "block_call_id = (\<lambda>b. case b of ToolCall i _ _ _ \<Rightarrow> Some i | _ \<Rightarrow> None)"
    by (rule ext) (simp split: content_block.split)
  then show ?thesis by (simp add: call_ids_of_def use_ids_def assistant_blocks_ids Let_def)
qed

lemma converted_other:
  assumes "converted (ids, {}) res" "tool_result_id msg = None"
  shows "converted (call_ids_of msg, set (call_ids_of msg)) (convert_one res msg)"
proof -
  have run: "answer_run {} res = Some {}" using assms(1) by (simp add: converted_def)
  show ?thesis
  proof (cases msg)
    case (Custom c)
    then show ?thesis using run by (simp add: convert_one_def converted_def call_ids_of_def)
  next
    case (Llm llm)
    show ?thesis
    proof (cases llm)
      case (User u)
      with Llm run show ?thesis
        by (simp add: convert_one_def converted_def call_ids_of_def answer_run_append result_ids_def use_ids_def List.map_filter_simps)
    next
      case (Assistant m)
      define am where "am = \<lparr>anm_role = ''assistant'', anm_content = assistant_blocks (am_content m)\<rparr>"
      have am: "result_ids am = []" "use_ids am = call_ids_of msg" "anm_role am = ''assistant''"
        using Llm Assistant by (simp_all add: am_def result_ids_def assistant_blocks_ids call_ids_assistant[of m "''assistant''"])
      have res: "convert_one res msg = (if assistant_blocks (am_content m) = [] then res else res @ [am])"
        using Llm Assistant by (simp add: convert_one_def Let_def am_def)
      show ?thesis
      proof (cases "assistant_blocks (am_content m) = []")
        case True
        then have "call_ids_of msg = []" using am(2) by (simp add: am_def use_ids_def List.map_filter_simps)
        with True run res show ?thesis by (simp add: converted_def)
      next
        case False
        with run res am show ?thesis by (auto simp: converted_def answer_run_append)
      qed
    next
      case (ToolResult r)
      with Llm assms(2) show ?thesis by simp
    qed
  qed
qed

lemma converted_result:
  assumes "converted (ids, waiting) res" "tool_result_id msg = Some i" "i \<in> set ids"
  shows "converted (ids, waiting - {i}) (convert_one res msg)"
proof -
  obtain r where msg: "msg = Llm (ToolResult r)" and i: "i = tr_tool_call_id r"
    using assms(2) by (cases msg rule: tool_result_id.cases) auto
  define blk where "blk = ABToolResult i (extract_text (tr_content r))"
  have "ids \<noteq> []" using assms(3) by auto
  with assms(1) obtain res0 m where m: "answer_run {} res0 = Some {}" "anm_role m = ''assistant''" "result_ids m = []" "set (use_ids m) = set ids"
    and alt: "res = res0 @ [m] \<and> waiting = set ids
             \<or> (\<exists>u. res = res0 @ [m, u] \<and> anm_role u = ''user'' \<and> list_all is_result_block (anm_content u)
                  \<and> set (result_ids u) \<subseteq> set ids \<and> waiting = set ids - set (result_ids u))"
    by (auto simp: converted_def)
  obtain u where u: "convert_one res msg = res0 @ [m, u]" "anm_role u = ''user''" "list_all is_result_block (anm_content u)"
    "set (result_ids u) \<subseteq> set ids" "waiting - {i} = set ids - set (result_ids u)"
    using alt
  proof (elim disjE exE conjE)
    assume a: "res = res0 @ [m]" "waiting = set ids"
    show thesis
    proof (rule that[of "\<lparr>anm_role = ''user'', anm_content = [blk]\<rparr>"])
      show "convert_one res msg = res0 @ [m, \<lparr>anm_role = ''user'', anm_content = [blk]\<rparr>]"
        using a m(2) msg i by (simp add: convert_one_def Let_def blk_def)
    qed (use a assms(3) in \<open>auto simp: blk_def result_ids_def List.map_filter_simps\<close>)
  next
    fix u
    assume a: "res = res0 @ [m, u]" "anm_role u = ''user''" "list_all is_result_block (anm_content u)"
      "set (result_ids u) \<subseteq> set ids" "waiting = set ids - set (result_ids u)"
    show thesis
    proof (rule that[of "u\<lparr>anm_content := anm_content u @ [blk]\<rparr>"])
      show "convert_one res msg = res0 @ [m, u\<lparr>anm_content := anm_content u @ [blk]\<rparr>]"
        using a msg i by (simp add: convert_one_def Let_def blk_def butlast_append)
    qed (use a assms(3) in \<open>auto simp: blk_def result_ids_def List.map_filter_def\<close>)
  qed
  moreover have "answer_run {} (res0 @ [m, u]) = Some {}" if "waiting - {i} = {}"
    using m u that results_use_nothing[OF u(3)] by (auto simp: answer_run_append)
  ultimately show ?thesis
    using m by (auto simp: converted_def)
qed

lemma converted_settle:
  "settle s ms = Some s' \<Longrightarrow> converted s res \<Longrightarrow> converted s' (foldl convert_one res ms)"
proof (induction s ms arbitrary: res rule: settle.induct)
  case (2 ids waiting m ms)
  show ?case
  proof (cases "tool_result_id m")
    case None
    with 2(3) have "waiting = {}" by (auto split: if_splits)
    with 2 None converted_other[of ids res m] show ?thesis by auto
  next
    case (Some i)
    with 2(3) have "i \<in> set ids" by (auto split: if_splits)
    with 2 Some converted_result[of ids waiting res m i] show ?thesis by auto
  qed
qed simp

text \<open>
  C33. A history whose tool calls are all answered becomes a request the Messages API accepts: the
  tool uses of each assistant message are answered, all of them and nothing else, by the single
  user message right after it, although custom and empty messages disappear on the way.
\<close>

theorem anthropic_request_answered:
  assumes "answered_history ms"
  shows "answered_request (snd (anthropic_convert_messages ms system_prompt))"
proof -
  obtain ids where "settle ([], {}) ms = Some (ids, {})" using assms by (rule answered_obtains)
  then have "converted (ids, {}) (foldl convert_one [] ms)"
    by (rule converted_settle) (simp add: converted_def)
  then show ?thesis by (simp add: converted_def answered_request_def anthropic_convert_messages_def)
qed

definition ex_history :: "agent_message list" where
  "ex_history =
     [Llm (User \<lparr>um_content = [Text ''hi''], um_timestamp = 0, um_cache_hint = None\<rparr>),
      Llm (Assistant (example_assistant [Thinking ''hm'' None, ToolCall ''1'' ''a'' (JObject []) None, ToolCall ''2'' ''b'' (JObject []) None])),
      Llm (ToolResult \<lparr>tr_tool_call_id = ''2'', tr_content = [Text ''y''], tr_is_error = False, tr_timestamp = 0, tr_details = JNull, tr_cache_hint = None\<rparr>),
      Llm (ToolResult \<lparr>tr_tool_call_id = ''1'', tr_content = [Text ''x''], tr_is_error = False, tr_timestamp = 0, tr_details = JNull, tr_cache_hint = None\<rparr>),
      Llm (Assistant (example_assistant []))]"

theorem anthropic_request_answered_witness:
  "answered_request (snd (anthropic_convert_messages ex_history ''be brief''))
   \<and> length (snd (anthropic_convert_messages ex_history ''be brief'')) = 3"
proof -
  have "answered_history ex_history" by (simp add: answered_history_def ex_history_def example_assistant_def call_ids_of_def
      List.map_filter_simps insert_Diff_if)
  from anthropic_request_answered[OF this] show ?thesis
    by (simp add: anthropic_convert_messages_def ex_history_def convert_one_def example_assistant_def assistant_blocks_def
        List.map_filter_simps)
qed

end
