(* ===== verification/Orchestration.thy ===== *)
theory Orchestration
  imports Agent_Prompt Agent_Build
begin

text \<open>
  Agents behind names: the orchestrator with its hierarchy and the task it spawns for each agent
  (\<^verbatim>\<open>orchestrator.rs\<close>), the task core and handles of \<^verbatim>\<open>task_core.rs\<close> and
  \<^verbatim>\<open>handle.rs\<close>, the registry and messages of \<^verbatim>\<open>registry.rs\<close> and
  \<^verbatim>\<open>messaging.rs\<close>, and the sub-agent tool of \<^verbatim>\<open>sub_agent.rs\<close>.

  What reaches the loop of a spawned task is a list of \<open>task_input\<close>s, one for each pass: the
  outcome of its two \<^verbatim>\<open>select!\<close>s, which ask the cancellation token first. A reply channel is
  a number, and a reply goes to the list of replies whether or not its receiver is still there. A
  panic of the task ends it without the code after the loop.
\<close>

section \<open>Status and the task core\<close>

datatype agent_status = Running | Completed | Failed | Cancelled

type_synonym agent_answer = "(agent_error, agent_result) result"

fun resolve_status :: "agent_answer \<Rightarrow> agent_status" where
  "resolve_status (Inr _) = Completed"
| "resolve_status (Inl Aborted) = Cancelled"
| "resolve_status (Inl _) = Failed"

text \<open>How a spawned task ended; the string of a panic is the text of its \<^verbatim>\<open>JoinError\<close>.\<close>

datatype task_outcome = Returns agent_answer | Panics string

text \<open>
  The core of a handle: whether it still holds the join handle, how its task ended when it has,
  the token and the status shared with the task.
\<close>

record task_core =
  tc_join_handle :: bool
  tc_finished :: "task_outcome option"
  tc_cancelled :: bool
  tc_status :: agent_status

definition task_core_new :: "task_outcome option \<Rightarrow> agent_status \<Rightarrow> task_core" where
  "task_core_new ended status =
     \<lparr>tc_join_handle = True, tc_finished = ended, tc_cancelled = False, tc_status = status\<rparr>"

definition is_done :: "task_core \<Rightarrow> bool" where
  "is_done c = (tc_status c \<noteq> Running)"

definition task_cancel :: "task_core \<Rightarrow> task_core" where
  "task_cancel c = c\<lparr>tc_cancelled := True\<rparr>"

fun joined :: "task_outcome \<Rightarrow> agent_answer" where
  "joined (Returns r) = r"
| "joined (Panics message) = Inl (StreamError [message])"

text \<open>Awaiting the result of a task that has not ended does not return: \<open>None\<close>.\<close>

definition task_result :: "task_core \<Rightarrow> agent_answer option" where
  "task_result c = (if tc_join_handle c then map_option joined (tc_finished c) else Some (Inl Aborted))"

definition try_result :: "task_core \<Rightarrow> agent_answer option \<times> task_core" where
  "try_result c =
     (if tc_join_handle c \<and> tc_finished c \<noteq> None
      then (map_option joined (tc_finished c), c\<lparr>tc_join_handle := False\<rparr>)
      else (None, c))"

section \<open>Spawned agents\<close>

text \<open>
  The task of \<open>AgentHandle::spawn\<close>: either the prompt comes back or the token fires first. The
  agent is dropped with the task, so only the result and the status remain.
\<close>

datatype handle_run = PromptWins run_env bool | CancelWins

definition handle_task :: "handle_run \<Rightarrow> agent_message list \<Rightarrow> agent \<Rightarrow> (task_outcome \<times> agent_status) option" where
  "handle_task run input a =
     map_option (\<lambda>r. (Returns r, resolve_status r))
       (case run of
          PromptWins env unique \<Rightarrow> map_option fst (prompt_async env unique input a)
        | CancelWins \<Rightarrow> (let a = abort a in Some (Inl Aborted)))"

definition handle_spawn :: "handle_run \<Rightarrow> agent_message list \<Rightarrow> agent \<Rightarrow> task_core" where
  "handle_spawn run input a =
     (case handle_task run input a of
        None \<Rightarrow> task_core_new None Running
      | Some (outcome, status) \<Rightarrow> task_core_new (Some outcome) status)"

definition handle_spawn_text :: "u64 \<Rightarrow> handle_run \<Rightarrow> string \<Rightarrow> agent \<Rightarrow> task_core" where
  "handle_spawn_text now run s a = handle_spawn run [user_prompt now s []] a"

section \<open>Supervision\<close>

datatype supervisor_action = Restart | StopAgent | Escalate

type_synonym supervisor_policy = "string \<Rightarrow> agent_error \<Rightarrow> supervisor_action"

record default_supervisor =
  ds_max_restarts :: u32

definition default_supervisor :: default_supervisor where
  "default_supervisor = \<lparr>ds_max_restarts = 3\<rparr>"

definition default_on_agent_error :: "default_supervisor \<Rightarrow> supervisor_policy" where
  "default_on_agent_error ds name e = (if is_retryable e then Restart else StopAgent)"

section \<open>The loop of a spawned agent\<close>

record agent_request =
  aq_messages :: "agent_message list"
  aq_reply :: nat

record orch_task =
  ot_agent :: agent
  ot_restarts :: u32
  ot_spawned :: nat
  ot_replies :: "(nat \<times> agent_answer) list"
  ot_status :: agent_status

text \<open>
  One pass: the token was cancelled, the channel is closed, a request was cancelled before its
  prompt came back, or a request runs its prompt in an environment.
\<close>

datatype task_input = TokenCancelled | ChannelClosed | CancelledDuring agent_request | Serve agent_request run_env bool

datatype pass = PassOn orch_task | PassEnd task_outcome orch_task

type_synonym options_factory = "nat \<Rightarrow> agent_options"

definition send_agent_reply :: "agent_request \<Rightarrow> agent_answer \<Rightarrow> orch_task \<Rightarrow> orch_task" where
  "send_agent_reply req r t = t\<lparr>ot_replies := ot_replies t @ [(aq_reply req, r)]\<rparr>"

definition stopped_by_supervisor :: "string \<Rightarrow> agent_error" where
  "stopped_by_supervisor name = PluginError ''orchestrator'' [''agent '' @ [CHR 0x27] @ name @ [CHR 0x27] @ '' stopped by supervisor'']"

definition supervise :: "supervisor_policy option \<Rightarrow> string \<Rightarrow> agent_error \<Rightarrow> supervisor_action" where
  "supervise policy name e = (case policy of None \<Rightarrow> Escalate | Some s \<Rightarrow> s name e)"

text \<open>A new agent from the factory, which is asked once more each time.\<close>

definition respawn :: "options_factory \<Rightarrow> orch_task \<Rightarrow> pass option" where
  "respawn factory t =
     map_option (\<lambda>r. case r of
         Inl message \<Rightarrow> PassEnd (Panics message) (t\<lparr>ot_spawned := ot_spawned t + 1\<rparr>)
       | Inr a \<Rightarrow> PassOn (t\<lparr>ot_agent := a, ot_spawned := ot_spawned t + 1\<rparr>))
       (agent_new (factory (ot_spawned t)))"

definition on_failure :: "supervisor_policy option \<Rightarrow> u32 \<Rightarrow> options_factory \<Rightarrow> string \<Rightarrow> agent_request \<Rightarrow> agent_error
    \<Rightarrow> orch_task \<Rightarrow> pass option" where
  "on_failure policy max_restarts factory name req e t =
     (case supervise policy name e of
        Restart \<Rightarrow>
          (if ot_restarts t < max_restarts
           then respawn factory (send_agent_reply req (Inl e) (t\<lparr>ot_restarts := ot_restarts t + 1\<rparr>))
           else Some (PassEnd (Returns (Inl (stopped_by_supervisor name))) (send_agent_reply req (Inl e) t)))
      | Escalate \<Rightarrow> Some (PassOn (send_agent_reply req (Inl e) t))
      | StopAgent \<Rightarrow> Some (PassEnd (Returns (Inl (stopped_by_supervisor name))) (send_agent_reply req (Inl e) t)))"

fun agent_pass :: "supervisor_policy option \<Rightarrow> u32 \<Rightarrow> options_factory \<Rightarrow> string \<Rightarrow> task_input \<Rightarrow> orch_task \<Rightarrow> pass option" where
  "agent_pass policy max_restarts factory name TokenCancelled t =
     Some (PassEnd (Returns (Inl Aborted)) (t\<lparr>ot_agent := abort (ot_agent t)\<rparr>))"
| "agent_pass policy max_restarts factory name ChannelClosed t = Some (PassEnd (Returns (Inr agent_result_init)) t)"
| "agent_pass policy max_restarts factory name (CancelledDuring req) t =
     Some (PassEnd (Returns (Inl Aborted)) (send_agent_reply req (Inl Aborted) (t\<lparr>ot_agent := abort (ot_agent t)\<rparr>)))"
| "agent_pass policy max_restarts factory name (Serve req env unique) t =
     (case prompt_async env unique (aq_messages req) (ot_agent t) of
        None \<Rightarrow> None
      | Some (Inr r, a) \<Rightarrow> Some (PassOn ((send_agent_reply req (Inr r) (t\<lparr>ot_agent := a\<rparr>))\<lparr>ot_restarts := 0\<rparr>))
      | Some (Inl e, a) \<Rightarrow> on_failure policy max_restarts factory name req e (t\<lparr>ot_agent := a\<rparr>))"

text \<open>
  The passes up to the one that breaks. After the inputs the task waits for the next one, which is
  the outcome \<open>None\<close>; the whole value is \<open>None\<close> when a prompt or a constructor does not return.
\<close>

fun agent_passes :: "supervisor_policy option \<Rightarrow> u32 \<Rightarrow> options_factory \<Rightarrow> string \<Rightarrow> task_input list \<Rightarrow> orch_task
    \<Rightarrow> (task_outcome option \<times> orch_task) option" where
  "agent_passes policy max_restarts factory name [] t = Some (None, t)"
| "agent_passes policy max_restarts factory name (i # is) t =
     (case agent_pass policy max_restarts factory name i t of
        None \<Rightarrow> None
      | Some (PassOn t) \<Rightarrow> agent_passes policy max_restarts factory name is t
      | Some (PassEnd outcome t) \<Rightarrow> Some (Some outcome, t))"

definition settle :: "task_outcome option \<times> orch_task \<Rightarrow> task_outcome option \<times> orch_task" where
  "settle r = (case r of (Some (Returns res), t) \<Rightarrow> (Some (Returns res), t\<lparr>ot_status := resolve_status res\<rparr>) | _ \<Rightarrow> r)"

text \<open>The outcome of the task, the replies it sent, its status and the calls of the factory.\<close>

definition task_report :: "task_outcome option \<times> orch_task \<Rightarrow> task_outcome option \<times> (nat \<times> agent_answer) list \<times> agent_status \<times> nat" where
  "task_report r = (case r of (outcome, t) \<Rightarrow> (outcome, ot_replies t, ot_status t, ot_spawned t))"

definition run_agent_loop :: "supervisor_policy option \<Rightarrow> u32 \<Rightarrow> options_factory \<Rightarrow> string \<Rightarrow> task_input list
    \<Rightarrow> (task_outcome option \<times> (nat \<times> agent_answer) list \<times> agent_status \<times> nat) option" where
  "run_agent_loop policy max_restarts factory name inputs =
     (case agent_new (factory 0) of
        None \<Rightarrow> None
      | Some (Inl message) \<Rightarrow> Some (Some (Panics message), [], Running, 1)
      | Some (Inr a) \<Rightarrow>
          map_option (task_report \<circ> settle)
            (agent_passes policy max_restarts factory name inputs
               \<lparr>ot_agent = a, ot_restarts = 0, ot_spawned = 1, ot_replies = [], ot_status = Running\<rparr>))"

text \<open>
  What a caller of \<^verbatim>\<open>send_messages\<close> gets: the channel may be closed already, and a request
  that was still queued when the task ended loses its reply channel.
\<close>

definition send_messages :: "bool \<Rightarrow> nat \<Rightarrow> (nat \<times> agent_answer) list \<Rightarrow> agent_answer" where
  "send_messages channel_open reply replies =
     (if \<not> channel_open then Inl (PluginError ''orchestrator'' [''agent channel closed''])
      else case map_of replies reply of
             Some r \<Rightarrow> r
           | None \<Rightarrow> Inl (PluginError ''orchestrator'' [''agent reply dropped'']))"

section \<open>The orchestrator\<close>

record agent_entry =
  ent_factory :: options_factory
  ent_parent :: "string option"
  ent_children :: "string list"
  ent_max_restarts :: u32

record orchestrator =
  or_entries :: "(string, agent_entry) hashmap"
  or_supervisor :: "supervisor_policy option"
  or_channel_buffer :: usize
  or_default_max_restarts :: u32

definition orchestrator_new :: orchestrator where
  "orchestrator_new = \<lparr>or_entries = [], or_supervisor = None, or_channel_buffer = 32, or_default_max_restarts = 3\<rparr>"

definition with_supervisor :: "supervisor_policy \<Rightarrow> orchestrator \<Rightarrow> orchestrator" where
  "with_supervisor policy o' = o'\<lparr>or_supervisor := Some policy\<rparr>"

definition with_channel_buffer :: "usize \<Rightarrow> orchestrator \<Rightarrow> orchestrator" where
  "with_channel_buffer n o' = o'\<lparr>or_channel_buffer := n\<rparr>"

definition with_max_restarts :: "u32 \<Rightarrow> orchestrator \<Rightarrow> orchestrator" where
  "with_max_restarts n o' = o'\<lparr>or_default_max_restarts := n\<rparr>"

definition already_registered :: "string \<Rightarrow> string" where
  "already_registered name = ''agent '' @ [CHR 0x27] @ name @ [CHR 0x27] @ '' already registered''"

text \<open>Registrations panic on a name that is taken and on an unknown parent.\<close>

definition add_agent :: "string \<Rightarrow> options_factory \<Rightarrow> orchestrator \<Rightarrow> (string, orchestrator) result" where
  "add_agent name factory o' =
     (if hm_get (or_entries o') name \<noteq> None then Inl (already_registered name)
      else Inr (o'\<lparr>or_entries := hm_insert name
        \<lparr>ent_factory = factory, ent_parent = None, ent_children = [], ent_max_restarts = or_default_max_restarts o'\<rparr>
        (or_entries o')\<rparr>))"

definition add_child :: "string \<Rightarrow> string \<Rightarrow> options_factory \<Rightarrow> orchestrator \<Rightarrow> (string, orchestrator) result" where
  "add_child name parent factory o' =
     (case hm_get (or_entries o') parent of
        None \<Rightarrow> Inl (''parent agent '' @ [CHR 0x27] @ parent @ [CHR 0x27] @ '' not registered'')
      | Some p \<Rightarrow>
          if hm_get (or_entries o') name \<noteq> None then Inl (already_registered name)
          else Inr (o'\<lparr>or_entries := hm_insert name
            \<lparr>ent_factory = factory, ent_parent = Some parent, ent_children = [], ent_max_restarts = or_default_max_restarts o'\<rparr>
            (hm_insert parent (p\<lparr>ent_children := ent_children p @ [name]\<rparr>) (or_entries o'))\<rparr>))"

definition parent_of :: "orchestrator \<Rightarrow> string \<Rightarrow> string option" where
  "parent_of o' name = Option.bind (hm_get (or_entries o') name) ent_parent"

definition children_of :: "orchestrator \<Rightarrow> string \<Rightarrow> string list option" where
  "children_of o' name = map_option ent_children (hm_get (or_entries o') name)"

definition orch_names :: "orchestrator \<Rightarrow> string list" where
  "orch_names o' = map fst (or_entries o')"

definition orch_contains :: "orchestrator \<Rightarrow> string \<Rightarrow> bool" where
  "orch_contains o' name = (hm_get (or_entries o') name \<noteq> None)"

text \<open>
  \<^verbatim>\<open>spawn\<close>, with the inputs its task will see. A bounded channel of \<^verbatim>\<open>tokio\<close>
  panics on the capacity zero: that is the left value.
\<close>

definition orch_spawn :: "string \<Rightarrow> task_input list \<Rightarrow> orchestrator \<Rightarrow>
    (string, (agent_error, (task_outcome option \<times> (nat \<times> agent_answer) list \<times> agent_status \<times> nat) option) result) result" where
  "orch_spawn name inputs o' =
     (case hm_get (or_entries o') name of
        None \<Rightarrow> Inr (Inl (PluginError ''orchestrator'' [''agent not registered: '' @ name]))
      | Some entry \<Rightarrow>
          if or_channel_buffer o' = 0 then Inl ''mpsc bounded channel requires buffer > 0''
          else Inr (Inr (run_agent_loop (or_supervisor o') (ent_max_restarts entry) (ent_factory entry) name inputs)))"

section \<open>Registry and messages\<close>

type_synonym agent_registry = "(string, agent) hashmap"

definition agents_register :: "string \<Rightarrow> agent \<Rightarrow> agent_registry \<Rightarrow> agent_registry" where
  "agents_register name a r = hm_insert name a r"

definition agents_get :: "agent_registry \<Rightarrow> string \<Rightarrow> agent option" where
  "agents_get r name = hm_get r name"

definition agents_remove :: "string \<Rightarrow> agent_registry \<Rightarrow> agent option \<times> agent_registry" where
  "agents_remove name r = (hm_get r name, hm_remove name r)"

definition agents_names :: "agent_registry \<Rightarrow> string list" where
  "agents_names r = map fst r"

type_synonym mailbox = "agent_message list"

definition mailbox_send :: "agent_message \<Rightarrow> mailbox \<Rightarrow> mailbox" where
  "mailbox_send m box = box @ [m]"

definition mailbox_drain :: "mailbox \<Rightarrow> agent_message list \<times> mailbox" where
  "mailbox_drain box = (box, [])"

definition send_to :: "string \<Rightarrow> agent_message \<Rightarrow> agent_registry \<Rightarrow> (agent_error, agent_registry) result" where
  "send_to name m r =
     (case hm_get r name of
        None \<Rightarrow> Inl (PluginError ''messaging'' [''agent not found: '' @ name])
      | Some a \<Rightarrow> Inr (hm_insert name (steer m a) r))"

section \<open>Sub-agents\<close>

fun answer_text :: "agent_message \<Rightarrow> string option" where
  "answer_text (Llm (Assistant a)) = (let t = extract_text (am_content a) in if t = [] then None else Some t)"
| "answer_text _ = None"

fun find_answer :: "agent_message list \<Rightarrow> string option" where
  "find_answer [] = None"
| "find_answer (m # ms) = (case answer_text m of None \<Rightarrow> find_answer ms | Some t \<Rightarrow> Some t)"

definition default_map_result :: "agent_result \<Rightarrow> agent_tool_result" where
  "default_map_result r =
     (if res_stop_reason r = SrError
      then result_error (case res_error r of None \<Rightarrow> ''sub-agent ended with error'' | Some e \<Rightarrow> e)
      else result_text (case find_answer (rev (res_messages r)) of None \<Rightarrow> ''sub-agent produced no text output'' | Some t \<Rightarrow> t))"

text \<open>What runs the tool: the token wins the \<^verbatim>\<open>select!\<close>, or the prompt does.\<close>

definition sub_agent_execute :: "(unit \<Rightarrow> agent_options) option \<Rightarrow> (agent_result \<Rightarrow> agent_tool_result) \<Rightarrow> u64 \<Rightarrow> json \<Rightarrow> handle_run
    \<Rightarrow> (string, agent_tool_result) result option" where
  "sub_agent_execute factory map_result now params run =
     (case factory of
        None \<Rightarrow> Some (Inr (result_error ''Sub-agent options were not configured; call with_options() or simple().''))
      | Some options \<Rightarrow>
          (case agent_new (options ()) of
             None \<Rightarrow> None
           | Some (Inl message) \<Rightarrow> Some (Inl message)
           | Some (Inr a) \<Rightarrow>
               (let prompt = (case json_as_str (json_get params ''prompt'') of None \<Rightarrow> [] | Some s \<Rightarrow> s) in
                case run of
                  CancelWins \<Rightarrow> (let a = abort a in Some (Inr (result_error ''Sub-agent cancelled.'')))
                | PromptWins env unique \<Rightarrow>
                    map_option (\<lambda>(r, _). case r of
                        Inr res \<Rightarrow> Inr (map_result res)
                      | Inl e \<Rightarrow> Inr (result_error (''Sub-agent error: '' @ error_to_string e)))
                      (prompt_text env unique now prompt a))))"

section \<open>What a spawned agent does\<close>

text \<open>
  The conversation a task holds, without supervision: every request is a prompt to the same agent,
  answered before the next one, until the channel closes or the token is cancelled.
\<close>

fun conversation :: "task_input list \<Rightarrow> agent \<Rightarrow> (task_outcome option \<times> (nat \<times> agent_answer) list \<times> agent_status) option" where
  "conversation [] a = Some (None, [], Running)"
| "conversation (TokenCancelled # _) a = Some (Some (Returns (Inl Aborted)), [], Cancelled)"
| "conversation (ChannelClosed # _) a = Some (Some (Returns (Inr agent_result_init)), [], Completed)"
| "conversation (CancelledDuring req # _) a =
     Some (Some (Returns (Inl Aborted)), [(aq_reply req, Inl Aborted)], Cancelled)"
| "conversation (Serve req env unique # is) a =
     Option.bind (prompt_async env unique (aq_messages req) a)
       (\<lambda>(r, a). map_option (\<lambda>(outcome, replies, status). (outcome, (aq_reply req, r) # replies, status)) (conversation is a))"

lemma idle_prompt_answers:
  assumes "\<not> ag_loop_active a" "prompt_async env unique input a = Some (r, b)"
  obtains res where "r = Inr res" "\<not> ag_loop_active b"
  using prompt_returns_history[OF assms] that by blast

lemma new_agent_idle: "agent_new o' = Some (Inr a) \<Longrightarrow> \<not> ag_loop_active a"
  by (auto simp: agent_new_def assemble_def available_models_and_stream_fns_def rbind_Inr_iff)

lemma send_agent_reply_simps [simp]:
  "ot_agent (send_agent_reply req r t) = ot_agent t" "ot_spawned (send_agent_reply req r t) = ot_spawned t"
  "ot_replies (send_agent_reply req r t) = ot_replies t @ [(aq_reply req, r)]" "ot_status (send_agent_reply req r t) = ot_status t"
  by (simp_all add: send_agent_reply_def)

definition follows :: "orch_task \<Rightarrow> (task_outcome option \<times> (nat \<times> agent_answer) list \<times> agent_status)
    \<Rightarrow> task_outcome option \<times> (nat \<times> agent_answer) list \<times> agent_status \<times> nat" where
  "follows t c = (case c of (outcome, replies, status) \<Rightarrow> (outcome, ot_replies t @ replies, status, ot_spawned t))"

lemma passes_are_conversation:
  assumes "\<not> ag_loop_active (ot_agent t)" "ot_status t = Running"
  shows "map_option (task_report \<circ> settle) (agent_passes policy max_restarts factory name inputs t)
       = map_option (follows t) (conversation inputs (ot_agent t))"
  using assms
proof (induction inputs arbitrary: t)
  case Nil
  then show ?case by (simp add: task_report_def settle_def follows_def)
next
  case (Cons i inputs)
  show ?case
  proof (cases i)
    case (Serve req env unique)
    show ?thesis
    proof (cases "prompt_async env unique (aq_messages req) (ot_agent t)")
      case None
      then show ?thesis by (simp add: Serve)
    next
      case (Some p)
      obtain r b where p: "p = (r, b)" by fastforce
      with Some Cons.prems obtain res where r: "r = Inr res" "\<not> ag_loop_active b"
        using idle_prompt_answers[of "ot_agent t" env unique "aq_messages req" r b] by metis
      let ?t = "(send_agent_reply req (Inr res) (t\<lparr>ot_agent := b\<rparr>))\<lparr>ot_restarts := 0\<rparr>"
      have "follows ?t c = follows t (case c of (outcome, replies, status) \<Rightarrow> (outcome, (aq_reply req, Inr res) # replies, status))" for c
        by (cases c) (simp add: follows_def)
      with Cons.IH[of ?t] Cons.prems r show ?thesis
        by (simp add: Serve Some p option.map_comp comp_def split: prod.splits cong: map_option_cong)
    qed
  qed (use Cons.prems in \<open>simp_all add: task_report_def settle_def follows_def\<close>)
qed

lemma run_is_conversation:
  assumes "agent_new (factory 0) = Some (Inr a)"
  shows "run_agent_loop policy max_restarts factory name inputs =
    map_option (\<lambda>(outcome, replies, status). (outcome, replies, status, 1)) (conversation inputs a)"
proof -
  let ?t = "\<lparr>ot_agent = a, ot_restarts = 0, ot_spawned = 1, ot_replies = [], ot_status = Running\<rparr>"
  have "\<not> ag_loop_active (ot_agent ?t)" using new_agent_idle assms by simp
  from passes_are_conversation[OF this, of policy max_restarts factory name inputs] assms show ?thesis
    by (simp add: run_agent_loop_def follows_def cong: map_option_cong)
qed

text \<open>
  C36. A supervisor never acts. Whatever the supervisor answers and however many restarts it is
  allowed, the task of a spawned agent is the plain conversation with the first agent its factory
  built: \<^verbatim>\<open>prompt_async\<close> of an idle agent reports a failed model inside its result and never
  as an error, so the supervisor is not asked, no agent is built a second time, and no request is
  answered with an error except the one a cancellation interrupts.
\<close>

theorem supervisor_never_acts:
  "run_agent_loop policy max_restarts factory name inputs =
     (case agent_new (factory 0) of
        None \<Rightarrow> None
      | Some (Inl message) \<Rightarrow> Some (Some (Panics message), [], Running, 1)
      | Some (Inr a) \<Rightarrow> map_option (\<lambda>(outcome, replies, status). (outcome, replies, status, 1)) (conversation inputs a))"
proof (cases "agent_new (factory 0)")
  case (Some r)
  then show ?thesis by (cases r) (simp_all add: run_is_conversation, simp add: run_agent_loop_def)
qed (simp add: run_agent_loop_def)

section \<open>Requests are answered\<close>

fun takes_request :: "task_input \<Rightarrow> agent_request option" where
  "takes_request (CancelledDuring req) = Some req"
| "takes_request (Serve req _ _) = Some req"
| "takes_request _ = None"

fun goes_on :: "task_input \<Rightarrow> bool" where
  "goes_on (Serve _ _ _) = True"
| "goes_on _ = False"

text \<open>The inputs the task looks at: the requests it serves and the input after them.\<close>

definition seen_inputs :: "task_input list \<Rightarrow> task_input list" where
  "seen_inputs inputs = takeWhile goes_on inputs @ take 1 (dropWhile goes_on inputs)"

lemma seen_inputs_simps [simp]:
  "seen_inputs [] = []" "goes_on i \<Longrightarrow> seen_inputs (i # is) = i # seen_inputs is" "\<not> goes_on i \<Longrightarrow> seen_inputs (i # is) = [i]"
  by (simp_all add: seen_inputs_def)

lemma conversation_answers:
  assumes "conversation inputs a = Some (outcome, replies, status)"
  shows "map fst replies = map aq_reply (List.map_filter takes_request (seen_inputs inputs))
    \<and> (outcome = None \<longleftrightarrow> list_all goes_on inputs) \<and> (outcome = None \<longleftrightarrow> status = Running)"
  using assms
proof (induction inputs a arbitrary: outcome replies status rule: conversation.induct)
  case (5 req env unique inputs a)
  then obtain r b rs where "prompt_async env unique (aq_messages req) a = Some (r, b)"
    "conversation inputs b = Some (outcome, rs, status)" "replies = (aq_reply req, r) # rs"
    by (auto simp: bind_eq_Some_conv)
  with "5.IH"[of "(r, b)" r b outcome rs status] show ?case by (auto simp: List.map_filter_def)
qed (auto simp: List.map_filter_def)

lemma conversation_returns:
  assumes "capped a" "\<not> ag_loop_active a"
  shows "\<exists>outcome replies status. conversation inputs a = Some (outcome, replies, status)"
  using assms
proof (induction inputs arbitrary: a)
  case (Cons i inputs)
  show ?case
  proof (cases i)
    case (Serve req env unique)
    from collected_when_capped[OF Cons.prems(1) prompt_runs_as[OF Cons.prems(2), where env = env and input = "aq_messages req"],
        where unique = unique]
    obtain res b where b: "prompt_async env unique (aq_messages req) a = Some (Inr res, b)" "\<not> ag_loop_active b"
      "ag_settings b = ag_settings a" by (auto simp: prompt_async_def)
    with Cons.IH[of b] Cons.prems(1) capped_cong[of b a] show ?thesis by (auto simp: Serve)
  qed simp_all
qed simp

text \<open>
  C37. Requests to a spawned agent are answered. When the factory's agent is built and capped, the
  task handles any requests without getting stuck: each request it received has exactly one
  reply, in the order they arrived, none is made up, and the task has left the status
  \<open>Running\<close> exactly when it met a closed channel or a cancellation.
\<close>

theorem spawned_agent_answers:
  assumes "agent_new (factory 0) = Some (Inr a)" "capped a"
  shows "\<exists>outcome replies status. run_agent_loop policy max_restarts factory name inputs = Some (outcome, replies, status, 1)
    \<and> map fst replies = map aq_reply (List.map_filter takes_request (seen_inputs inputs))
    \<and> (status = Running \<longleftrightarrow> list_all goes_on inputs) \<and> (outcome = None \<longleftrightarrow> status = Running)"
proof -
  obtain outcome replies status where c: "conversation inputs a = Some (outcome, replies, status)"
    using conversation_returns[OF assms(2) new_agent_idle[OF assms(1)]] by blast
  with conversation_answers[OF c] assms(1) show ?thesis by (auto simp: run_is_conversation[where factory = factory, OF assms(1)])
qed

text \<open>A factory of agents with the maximum-turns policy.\<close>

definition capped_options :: agent_options where
  "capped_options =
     (let o' = options_new_simple example_run_cfg ''sys'' (model_spec_new ''p'' ''m'') (\<lambda>_ _ _ _. [])
      in o'\<lparr>opt_settings := (opt_settings o')\<lparr>cfg_pre_turn_policies := [max_turns_pre 3]\<rparr>\<rparr>)"

lemma capped_options_agent: "\<exists>a. agent_new capped_options = Some (Inr a) \<and> capped a"
proof -
  have m: "\<exists>o'. merge_plugin_contributions capped_options = Some o' \<and> opt_tools o' = []
      \<and> cfg_pre_turn_policies (opt_settings o') = [max_turns_pre 3]
      \<and> cfg_retry_strategy (opt_settings o') = \<lparr>retry_should = \<lambda>_ e a. should_retry default_retry e a,
          retry_delay_of = retry_delay_of (cfg_retry_strategy example_run_cfg)\<rparr>"
    by (simp add: merge_plugin_contributions_def capped_options_def options_new_simple_def options_new_def contributed_tools_def Let_def)
  then obtain o' where o': "merge_plugin_contributions capped_options = Some o'" "opt_tools o' = []"
    "cfg_pre_turn_policies (opt_settings o') = [max_turns_pre 3]"
    "cfg_retry_strategy (opt_settings o') = \<lparr>retry_should = \<lambda>_ e a. should_retry default_retry e a,
       retry_delay_of = retry_delay_of (cfg_retry_strategy example_run_cfg)\<rparr>" by blast
  have s: "ag_settings (assemble o') = (opt_settings o')\<lparr>cfg_transform_context := effective_transformer o'\<rparr>"
    by (simp add: assemble_def available_models_and_stream_fns_def)
  have "ag_settings (assemble o') = with_default_retry default_retry (retry_delay_of (cfg_retry_strategy example_run_cfg)) (ag_settings (assemble o'))"
    using o'(4) by (simp add: s with_default_retry_def)
  then have "capped (assemble o')" unfolding capped_def using o'(3) s by fastforce
  moreover have "agent_new capped_options = Some (Inr (assemble o'))"
    using o'(1,2) assert_unique[of "[]"] by (simp add: agent_new_def)
  ultimately show ?thesis by blast
qed

theorem spawned_agent_answers_witness:
  "\<exists>outcome replies. run_agent_loop (Some (default_on_agent_error default_supervisor)) 3 (\<lambda>_. capped_options) ''planner''
       [Serve \<lparr>aq_messages = [user_text ''hi''], aq_reply = 0\<rparr> example_env True, CancelledDuring \<lparr>aq_messages = [], aq_reply = 1\<rparr>,
        ChannelClosed] = Some (outcome, replies, Cancelled, 1)
     \<and> map fst replies = [0, 1]"
proof -
  let ?inputs = "[Serve \<lparr>aq_messages = [user_text ''hi''], aq_reply = 0\<rparr> example_env True,
      CancelledDuring \<lparr>aq_messages = [], aq_reply = 1\<rparr>, ChannelClosed]"
  obtain a where a: "agent_new ((\<lambda>_. capped_options) (0::nat)) = Some (Inr a)" "capped a" using capped_options_agent by blast
  from spawned_agent_answers [OF a, of "Some (default_on_agent_error default_supervisor)" 3 "''planner''" ?inputs]
  obtain outcome replies status where r: "run_agent_loop (Some (default_on_agent_error default_supervisor)) 3 (\<lambda>_. capped_options)
      ''planner'' ?inputs = Some (outcome, replies, status, 1)" "map fst replies = [0, 1]"
    by (auto simp: List.map_filter_def)
  obtain c where c: "conversation ?inputs a = Some c" "c = (outcome, replies, status)"
    using r(1) by (auto simp: run_is_conversation[where factory = "\<lambda>_. capped_options", OF a(1)])
  then have "status = Cancelled" by (auto simp: bind_eq_Some_conv)
  with r show ?thesis by auto
qed

text \<open>A factory whose options are refused: the task dies before its loop and is \<open>Running\<close> for ever.\<close>

lemma panicked_agent_looks_running:
  assumes "agent_new (factory 0) = Some (Inl message)"
  shows "run_agent_loop policy max_restarts factory name inputs = Some (Some (Panics message), [], Running, 1)"
    "\<not> is_done (task_core_new (Some (Panics message)) Running)"
    "task_result (task_core_new (Some (Panics message)) Running) = Some (Inl (StreamError [message]))"
  using assms by (simp_all add: run_agent_loop_def is_done_def task_core_new_def task_result_def)

section \<open>Handles\<close>

text \<open>A handle whose task has ended is done, and gives its result once.\<close>

lemma handle_gives_result_once:
  assumes "handle_task run input a = Some (outcome, status)"
  shows "is_done (handle_spawn run input a)" "try_result (handle_spawn run input a) = (Some (joined outcome), c)
     \<Longrightarrow> fst (try_result c) = None \<and> task_result c = Some (Inl Aborted)"
proof -
  from assms obtain r where "outcome = Returns r" "status = resolve_status r" by (auto simp: handle_task_def)
  then show "is_done (handle_spawn run input a)"
    using assms by (cases r rule: resolve_status.cases) (auto simp: handle_spawn_def is_done_def task_core_new_def)
qed (use assms in \<open>auto simp: handle_spawn_def try_result_def task_result_def task_core_new_def\<close>)

lemma handle_of_capped_agent_is_done:
  assumes "capped a" "\<not> ag_loop_active a"
  shows "is_done (handle_spawn run input a)"
proof -
  have "\<exists>p. handle_task run input a = Some p"
  proof (cases run)
    case (PromptWins env unique)
    from collected_when_capped[OF assms(1) prompt_runs_as[OF assms(2), where env = env and input = input], where unique = unique]
    obtain res b where "collect_started env unique (prompt_stream env input a) = Some (Inr res, b)" by metis
    then show ?thesis by (simp add: prompt_async_def handle_task_def PromptWins)
  qed (simp add: handle_task_def)
  then show ?thesis using handle_gives_result_once(1) by (metis prod.exhaust)
qed

section \<open>The hierarchy\<close>

datatype registration = AddAgent string options_factory | AddChild string string options_factory | SetMaxRestarts u32
  | SetSupervisor supervisor_policy | SetChannelBuffer usize

fun registers :: "registration \<Rightarrow> orchestrator \<Rightarrow> (string, orchestrator) result" where
  "registers (AddAgent name factory) o' = add_agent name factory o'"
| "registers (AddChild name parent factory) o' = add_child name parent factory o'"
| "registers (SetMaxRestarts n) o' = Inr (with_max_restarts n o')"
| "registers (SetSupervisor policy) o' = Inr (with_supervisor policy o')"
| "registers (SetChannelBuffer n) o' = Inr (with_channel_buffer n o')"

text \<open>A registration that panics leaves the orchestrator as it was.\<close>

definition register_all :: "registration list \<Rightarrow> orchestrator \<Rightarrow> orchestrator" where
  "register_all = fold (\<lambda>r o'. case registers r o' of Inl _ \<Rightarrow> o' | Inr o' \<Rightarrow> o')"

definition hierarchy :: "orchestrator \<Rightarrow> (string \<times> string) set" where
  "hierarchy o' = {(child, parent). parent_of o' child = Some parent}"

definition forest :: "orchestrator \<Rightarrow> bool" where
  "forest o' = (hm_ok (or_entries o') \<and> acyclic (hierarchy o')
     \<and> (\<forall>child parent. parent_of o' child = Some parent \<longleftrightarrow> (\<exists>cs. children_of o' parent = Some cs \<and> child \<in> set cs))
     \<and> (\<forall>name. pred_option distinct (children_of o' name)))"

lemma forest_cong: "or_entries o1 = or_entries o2 \<Longrightarrow> forest o1 = forest o2"
  by (simp add: forest_def hierarchy_def parent_of_def children_of_def)

lemma forest_new: "forest orchestrator_new"
  by (simp add: forest_def hierarchy_def parent_of_def children_of_def orchestrator_new_def hm_ok_def acyclic_def)

lemma unregistered:
  assumes "forest o'" "hm_get (or_entries o') name = None"
  shows "parent_of o' name = None" "children_of o' name = None" "parent_of o' c \<noteq> Some name"
    "children_of o' p = Some cs \<Longrightarrow> name \<notin> set cs"
proof -
  show a: "parent_of o' name = None" "children_of o' name = None"
    using assms(2) by (simp_all add: parent_of_def children_of_def)
  show "parent_of o' c \<noteq> Some name" "children_of o' p = Some cs \<Longrightarrow> name \<notin> set cs"
    using assms(1) a unfolding forest_def by (metis option.distinct(1))+
qed

lemma acyclic_fresh_child:
  assumes "acyclic h" "\<forall>c. (c, name) \<notin> h" "p \<noteq> name"
  shows "acyclic (insert (name, p) h)"
proof -
  have "(p, name) \<notin> h\<^sup>*" using assms(2,3) by (metis rtranclE)
  with assms(1) show ?thesis by simp
qed

lemma forest_add_agent:
  assumes "forest o'" "add_agent name factory o' = Inr o2"
  shows "forest o2"
proof -
  from assms(2) have none: "hm_get (or_entries o') name = None"
    and o2: "o2 = o'\<lparr>or_entries := hm_insert name \<lparr>ent_factory = factory, ent_parent = None, ent_children = [],
        ent_max_restarts = or_default_max_restarts o'\<rparr> (or_entries o')\<rparr>" by (auto simp: add_agent_def split: if_splits)
  note u = unregistered[OF assms(1) none]
  have p: "parent_of o2 c = parent_of o' c" for c using u(1) by (simp add: o2 parent_of_def hm.get_ins)
  have ch: "children_of o2 n = (if n = name then Some [] else children_of o' n)" for n
    by (simp add: o2 children_of_def hm.get_ins)
  have "hierarchy o2 = hierarchy o'" by (simp add: hierarchy_def p)
  moreover have "hm_ok (or_entries o2)" using assms(1) by (simp add: o2 forest_def hm.ok_ins)
  moreover have "parent_of o2 c = Some q \<longleftrightarrow> (\<exists>cs. children_of o2 q = Some cs \<and> c \<in> set cs)" for c q
    using assms(1) u(2,3) unfolding p ch forest_def by auto
  moreover have "pred_option distinct (children_of o2 n)" for n using assms(1) by (simp add: ch forest_def)
  ultimately show ?thesis using assms(1) by (auto simp: forest_def)
qed

lemma forest_add_child:
  assumes "forest o'" "add_child name parent factory o' = Inr o2"
  shows "forest o2"
proof -
  from assms(2) obtain e where e: "hm_get (or_entries o') parent = Some e" and none: "hm_get (or_entries o') name = None"
    and o2: "o2 = o'\<lparr>or_entries := hm_insert name \<lparr>ent_factory = factory, ent_parent = Some parent, ent_children = [],
        ent_max_restarts = or_default_max_restarts o'\<rparr>
        (hm_insert parent (e\<lparr>ent_children := ent_children e @ [name]\<rparr>) (or_entries o'))\<rparr>"
    by (auto simp: add_child_def split: option.splits if_splits)
  note u = unregistered[OF assms(1) none]
  have ne: "parent \<noteq> name" using e none by auto
  have p: "parent_of o2 c = (if c = name then Some parent else parent_of o' c)" for c
    using e ne by (simp add: o2 parent_of_def hm.get_ins)
  have ch: "children_of o2 n = (if n = name then Some [] else if n = parent then Some (ent_children e @ [name]) else children_of o' n)" for n
    by (simp add: o2 children_of_def hm.get_ins)
  have ce: "children_of o' parent = Some (ent_children e)" using e by (simp add: children_of_def)
  have "hierarchy o2 = insert (name, parent) (hierarchy o')" using u(1) by (auto simp: hierarchy_def p split: if_splits)
  moreover have "\<forall>c. (c, name) \<notin> hierarchy o'" using u(3) by (simp add: hierarchy_def)
  ultimately have "acyclic (hierarchy o2)" using acyclic_fresh_child[of "hierarchy o'" name parent] assms(1) ne by (simp add: forest_def)
  moreover have "hm_ok (or_entries o2)" using assms(1) by (simp add: o2 forest_def hm.ok_ins)
  moreover have "parent_of o2 c = Some q \<longleftrightarrow> (\<exists>cs. children_of o2 q = Some cs \<and> c \<in> set cs)" for c q
  proof -
    have "parent_of o' c = Some q \<longleftrightarrow> (\<exists>cs. children_of o' q = Some cs \<and> c \<in> set cs)" using assms(1) by (simp add: forest_def)
    then show ?thesis using u(1,2) u(3)[of c] u(3)[of name] u(4)[of q] ce ne by (auto simp: p ch)
  qed
  moreover have "pred_option distinct (children_of o2 n)" for n
  proof -
    have "pred_option distinct (children_of o' n)" using assms(1) by (simp add: forest_def)
    then show ?thesis using u(4)[OF ce] ce by (auto simp: ch)
  qed
  ultimately show ?thesis by (auto simp: forest_def)
qed

lemma forest_registers: "forest o' \<Longrightarrow> registers r o' = Inr o2 \<Longrightarrow> forest o2"
proof (cases r)
  case (SetMaxRestarts n)
  assume "forest o'" "registers r o' = Inr o2"
  with SetMaxRestarts show ?thesis using forest_cong[of o' o2] by (auto simp: with_max_restarts_def)
next
  case (SetSupervisor s)
  assume "forest o'" "registers r o' = Inr o2"
  with SetSupervisor show ?thesis using forest_cong[of o' o2] by (auto simp: with_supervisor_def)
next
  case (SetChannelBuffer n)
  assume "forest o'" "registers r o' = Inr o2"
  with SetChannelBuffer show ?thesis using forest_cong[of o' o2] by (auto simp: with_channel_buffer_def)
qed (auto intro: forest_add_agent forest_add_child)

text \<open>
  C38. The orchestrator's agents form a forest. After any sequence of registrations, panicking ones
  included, every name has one entry, an agent is listed among the children of exactly the agent
  it names as its parent, once, every parent is registered, and no agent is its own ancestor.
\<close>

theorem orchestrator_forest: "forest (register_all rs orchestrator_new)"
proof -
  have "forest o' \<Longrightarrow> forest (register_all rs o')" for o'
    by (induction rs arbitrary: o')
      (auto simp: register_all_def dest: forest_registers split: sum.splits)
  then show ?thesis using forest_new by blast
qed

section \<open>Messages and sub-agents\<close>

lemma send_to_steers:
  assumes "send_to name m r = Inr r'"
  shows "\<exists>a. agents_get r name = Some a \<and> agents_get r' name = Some (steer m a)
    \<and> ag_steering_queue (steer m a) = ag_steering_queue a @ [m] \<and> (other \<noteq> name \<longrightarrow> agents_get r' other = agents_get r other)"
  using assms by (auto simp: send_to_def agents_get_def hm.get_ins steer_def split: option.splits)

text \<open>A sub-agent whose agent is built and capped answers its tool call.\<close>

lemma sub_agent_answers:
  assumes "agent_new (options ()) = Some (Inr a)" "capped a"
  shows "\<exists>r. sub_agent_execute (Some options) map_result now params run = Some (Inr r)"
proof (cases run)
  case (PromptWins env unique)
  let ?input = "[user_prompt now (case json_as_str (json_get params ''prompt'') of None \<Rightarrow> [] | Some s \<Rightarrow> s) []]"
  from collected_when_capped[OF assms(2) prompt_runs_as[OF new_agent_idle[OF assms(1)], where env = env and input = ?input],
      where unique = unique]
  obtain res b where "collect_started env unique (prompt_stream env ?input a) = Some (Inr res, b)" by metis
  then show ?thesis using assms(1) by (simp add: prompt_async_def sub_agent_execute_def PromptWins prompt_text_def Let_def)
qed (use assms(1) in \<open>simp add: sub_agent_execute_def Let_def\<close>)

end
