(* ===== verification/Context_Versions.thy ===== *)
theory Context_Versions
  imports Compaction "HOL-Library.Multiset"
begin

text \<open>
  What becomes of the messages a compaction drops: the versioning transformer and its store
  (\<^verbatim>\<open>src/src/context_version.rs\<close>), and the compactor that puts a summary in their place
  (\<^verbatim>\<open>memory/src/compaction.rs\<close>). The summarizer and the clock are arguments; the state
  behind the mutexes is passed along.
\<close>

section \<open>Versions and their store\<close>

record context_version =
  cv_version :: u64
  cv_turn :: u64
  cv_timestamp :: u64
  cv_messages :: "llm_message list"
  cv_summary :: "string option"

definition context_version_new :: "u64 \<Rightarrow> u64 \<Rightarrow> u64 \<Rightarrow> llm_message list \<Rightarrow> context_version" where
  "context_version_new version turn timestamp messages =
     \<lparr>cv_version = version, cv_turn = turn, cv_timestamp = timestamp, cv_messages = messages, cv_summary = None\<rparr>"

definition with_summary :: "string \<Rightarrow> context_version \<Rightarrow> context_version" where
  "with_summary s v = v\<lparr>cv_summary := Some s\<rparr>"

record context_version_meta =
  vm_version :: u64
  vm_turn :: u64
  vm_timestamp :: u64
  vm_message_count :: usize
  vm_has_summary :: bool

type_synonym version_store = "context_version list"

definition save_version :: "context_version \<Rightarrow> version_store \<Rightarrow> version_store" where
  "save_version v store = store @ [v]"

definition load_version :: "version_store \<Rightarrow> u64 \<Rightarrow> context_version option" where
  "load_version store n = find (\<lambda>v. cv_version v = n) store"

definition version_meta :: "context_version \<Rightarrow> context_version_meta" where
  "version_meta v =
     \<lparr>vm_version = cv_version v, vm_turn = cv_turn v, vm_timestamp = cv_timestamp v,
      vm_message_count = length (cv_messages v), vm_has_summary = (cv_summary v \<noteq> None)\<rparr>"

definition list_versions :: "version_store \<Rightarrow> context_version_meta list" where
  "list_versions store = map version_meta store"

definition latest_version :: "version_store \<Rightarrow> context_version option" where
  "latest_version store =
     (if list_versions store = [] then None else load_version store (vm_version (last (list_versions store))))"

section \<open>The versioning transformer\<close>

record versioning_transformer =
  vt_store :: version_store
  vt_next_version :: u64
  vt_turn_counter :: u64

definition versioning_new :: "version_store \<Rightarrow> versioning_transformer" where
  "versioning_new store = \<lparr>vt_store = store, vt_next_version = 1, vt_turn_counter = 0\<rparr>"

type_synonym transformer = "agent_message list \<Rightarrow> bool \<Rightarrow> agent_message list \<times> compaction_report option"

definition versioning_transform :: "transformer \<Rightarrow> (llm_message list \<Rightarrow> string option) option \<Rightarrow> u64 \<Rightarrow> versioning_transformer
    \<Rightarrow> agent_message list \<Rightarrow> bool \<Rightarrow> (agent_message list \<times> compaction_report option) \<times> versioning_transformer" where
  "versioning_transform inner summarizer now vt ms overflow =
     (case inner ms overflow of
        (ms', None) \<Rightarrow> ((ms', None), vt)
      | (ms', Some report) \<Rightarrow>
          if cr_dropped_messages report = [] then ((ms', Some report), vt)
          else
            let vt = vt\<lparr>vt_turn_counter := vt_turn_counter vt + 1\<rparr>;
                summary = Option.bind summarizer (\<lambda>s. s (cr_dropped_messages report));
                version = \<lparr>cv_version = vt_next_version vt, cv_turn = vt_turn_counter vt, cv_timestamp = now,
                   cv_messages = cr_dropped_messages report, cv_summary = summary\<rparr>;
                vt = vt\<lparr>vt_next_version := vt_next_version vt + 1\<rparr>
            in ((ms', Some report), vt\<lparr>vt_store := save_version version (vt_store vt)\<rparr>))"

section \<open>Summaries in place of dropped messages\<close>

record summarizing_compactor =
  sc_summary :: "string option"
  sc_normal_budget :: usize
  sc_overflow_budget :: usize
  sc_anchor :: usize

definition compactor_new :: "usize \<Rightarrow> usize \<Rightarrow> usize \<Rightarrow> summarizing_compactor" where
  "compactor_new normal_budget overflow_budget anchor =
     \<lparr>sc_summary = None, sc_normal_budget = normal_budget, sc_overflow_budget = overflow_budget, sc_anchor = anchor\<rparr>"

definition set_summary :: "string \<Rightarrow> summarizing_compactor \<Rightarrow> summarizing_compactor" where
  "set_summary s sc = sc\<lparr>sc_summary := Some s\<rparr>"

definition clear_summary :: "summarizing_compactor \<Rightarrow> summarizing_compactor" where
  "clear_summary sc = sc\<lparr>sc_summary := None\<rparr>"

definition has_summary :: "summarizing_compactor \<Rightarrow> bool" where
  "has_summary sc = (sc_summary sc \<noteq> None)"

definition summary_message :: "string \<Rightarrow> agent_message" where
  "summary_message s = Llm (Assistant
     \<lparr>am_content = [Text (''[Context summary of earlier conversation]'' @ [CHR 0x0A] @ s)], am_provider = [], am_model_id = [],
      am_usage = usage_default, am_cost = cost_default, am_stop_reason = SrStop, am_error_message = None, am_error_kind = None,
      am_timestamp = 0, am_cache_hint = None\<rparr>)"

definition list_insert :: "nat \<Rightarrow> 'a \<Rightarrow> 'a list \<Rightarrow> 'a list" where
  "list_insert i x xs = take i xs @ x # drop i xs"

definition compaction_fn :: "(json \<Rightarrow> nat) \<Rightarrow> summarizing_compactor \<Rightarrow> agent_message list \<Rightarrow> bool
    \<Rightarrow> agent_message list \<times> summarizing_compactor" where
  "compaction_fn json_len sc ms overflow =
     (let ms' = sliding_window json_len (sc_normal_budget sc) (sc_overflow_budget sc) (sc_anchor sc) ms overflow in
      if length ms' < length ms
      then (case sc_summary sc of
              None \<Rightarrow> (ms', sc)
            | Some s \<Rightarrow> (list_insert (min (sc_anchor sc) (length ms')) (summary_message s) ms', sc\<lparr>sc_summary := None\<rparr>))
      else (ms', sc))"

text \<open>The compactor in the loop: its closure under the blanket implementation, which compares lengths.\<close>

definition compactor_transform :: "(json \<Rightarrow> nat) \<Rightarrow> summarizing_compactor \<Rightarrow> transformer" where
  "compactor_transform json_len sc = closure_transform (\<lambda>ms overflow. fst (compaction_fn json_len sc ms overflow))"

section \<open>Nothing is lost\<close>

text \<open>The numbers of a store that started empty: the \<open>i\<close>th version has number \<open>i\<close>, which is also its turn.\<close>

definition numbered :: "versioning_transformer \<Rightarrow> bool" where
  "numbered vt = (map cv_version (vt_store vt) = map (\<lambda>i. of_nat (Suc i)) [0..<length (vt_store vt)]
     \<and> map cv_turn (vt_store vt) = map cv_version (vt_store vt)
     \<and> vt_next_version vt = of_nat (Suc (length (vt_store vt))) \<and> vt_turn_counter vt = of_nat (length (vt_store vt))
     \<and> list_all (\<lambda>v. cv_messages v \<noteq> []) (vt_store vt))"

lemma numbered_new: "numbered (versioning_new [])"
  by (simp add: numbered_def versioning_new_def)

lemma numbered_transform:
  assumes "numbered vt" "versioning_transform inner summarizer now vt ms overflow = (r, vt')"
  shows "numbered vt'"
  using assms by (auto simp: versioning_transform_def numbered_def save_version_def Let_def split: prod.splits option.splits if_splits)

definition archived :: "versioning_transformer \<Rightarrow> llm_message list" where
  "archived vt = concat (map cv_messages (vt_store vt))"

text \<open>An inner transformer that reports exactly the model messages it drops.\<close>

definition reports_drops :: "transformer \<Rightarrow> bool" where
  "reports_drops inner = (\<forall>ms overflow. case inner ms overflow of
     (ms', report) \<Rightarrow> mset (llm_of ms) = mset (llm_of ms') + mset (case report of None \<Rightarrow> [] | Some r \<Rightarrow> cr_dropped_messages r))"

lemma archived_transform:
  assumes "reports_drops inner" "versioning_transform inner summarizer now vt ms overflow = ((ms', r), vt')"
  shows "mset (llm_of ms) + mset (archived vt) = mset (llm_of ms') + mset (archived vt')"
proof -
  obtain ms1 r1 where i: "inner ms overflow = (ms1, r1)" by fastforce
  with assms(1) have "mset (llm_of ms) = mset (llm_of ms1) + mset (case r1 of None \<Rightarrow> [] | Some r \<Rightarrow> cr_dropped_messages r)"
    using spec[OF spec[OF assms(1)[unfolded reports_drops_def], of ms], of overflow] by simp
  with assms(2) i show ?thesis
    by (cases r1) (auto simp: versioning_transform_def archived_def save_version_def Let_def split: if_splits)
qed

lemma sliding_window_reports_drops: "reports_drops (sw_transform json_len sw)"
  unfolding reports_drops_def
proof (intro allI)
  fix ms overflow
  let ?c = "case sw_token_counter sw of None \<Rightarrow> default_count_tokens json_len | Some c \<Rightarrow> c"
  let ?b = "if overflow then sw_overflow_budget sw else sw_normal_budget sw"
  let ?a = "max (sw_anchor sw) (effective_cached_prefix_len sw)"
  obtain ms' r where c: "compact_sliding_window_with ?c ms ?b ?a = (ms', r)" by fastforce
  have t: "sw_transform json_len sw ms overflow = (ms', map_option (\<lambda>r. r\<lparr>cr_overflow := overflow\<rparr>) r)"
    using c by (cases r) (simp_all add: sw_transform_def Let_def)
  show "case sw_transform json_len sw ms overflow of
     (ms', report) \<Rightarrow> mset (llm_of ms) = mset (llm_of ms') + mset (case report of None \<Rightarrow> [] | Some r \<Rightarrow> cr_dropped_messages r)"
  proof (cases r)
    case None
    with c compact_None have "ms' = ms" by blast
    with t None show ?thesis by simp
  next
    case (Some report)
    with c obtain a b where ab: "a < b" "ms' = take a ms @ drop b ms" "cr_dropped_messages report = llm_of (drop a (take b ms))"
      by (auto elim!: compact_Some)
    have "ms = take a ms @ drop a (take b ms) @ drop b ms" using ab(1) by (simp add: take_append_drop_mid)
    then have "llm_of ms = llm_of (take a ms) @ llm_of (drop a (take b ms)) @ llm_of (drop b ms)" by (metis llm_of_append)
    then show ?thesis using t Some ab by simp
  qed
qed

text \<open>A conversation over many turns: messages arrive, then the transformer runs.\<close>

type_synonym turn_input = "agent_message list \<times> bool \<times> u64"

definition versioned_turn :: "transformer \<Rightarrow> (llm_message list \<Rightarrow> string option) option \<Rightarrow> turn_input
    \<Rightarrow> agent_message list \<times> versioning_transformer \<Rightarrow> agent_message list \<times> versioning_transformer" where
  "versioned_turn inner summarizer t s = (case t of (new, overflow, now) \<Rightarrow> case s of (ms, vt) \<Rightarrow>
     case versioning_transform inner summarizer now vt (ms @ new) overflow of ((ms', _), vt') \<Rightarrow> (ms', vt'))"

lemma versioned_turns:
  assumes "reports_drops inner" "numbered vt" "fold (versioned_turn inner summarizer) turns (ms, vt) = (ms', vt')"
  shows "numbered vt' \<and> length (vt_store vt') \<le> length (vt_store vt) + length turns
    \<and> mset (llm_of ms) + mset (archived vt) + mset (llm_of (concat (map fst turns))) = mset (llm_of ms') + mset (archived vt')"
  using assms(2,3)
proof (induction turns arbitrary: ms vt)
  case (Cons t turns)
  obtain new overflow now where t: "t = (new, overflow, now)" by (cases t)
  obtain m1 r v1 where v: "versioning_transform inner summarizer now vt (ms @ new) overflow = ((m1, r), v1)"
    by (metis prod.exhaust)
  have n: "numbered v1" using numbered_transform[OF Cons.prems(1) v] .
  have l: "length (vt_store v1) \<le> Suc (length (vt_store vt))"
    using v by (auto simp: versioning_transform_def save_version_def Let_def split: prod.splits option.splits if_splits)
  have "versioned_turn inner summarizer t (ms, vt) = (m1, v1)" using t v by (simp add: versioned_turn_def)
  with Cons.prems(2) have "fold (versioned_turn inner summarizer) turns (m1, v1) = (ms', vt')" by simp
  note ih = Cons.IH[OF n this]
  have "mset (llm_of ms) + mset (archived vt) + mset (llm_of (concat (map fst (t # turns))))
      = mset (llm_of (ms @ new)) + mset (archived vt) + mset (llm_of (concat (map fst turns)))"
    by (simp add: t ac_simps)
  also have "\<dots> = mset (llm_of m1) + mset (archived v1) + mset (llm_of (concat (map fst turns)))"
    using archived_transform[OF assms(1) v] by simp
  finally show ?case using ih l by simp
qed simp

lemma numbered_nth:
  assumes "numbered vt" "i < length (vt_store vt)"
  shows "cv_version (vt_store vt ! i) = of_nat (Suc i)" "cv_messages (vt_store vt ! i) \<noteq> []"
proof -
  from assms(1) have v: "map cv_version (vt_store vt) = map (\<lambda>i. of_nat (Suc i)) [0..<length (vt_store vt)]"
    and m: "list_all (\<lambda>v. cv_messages v \<noteq> []) (vt_store vt)" unfolding numbered_def by blast+
  from arg_cong[OF v, of "\<lambda>l. l ! i"] assms(2) show "cv_version (vt_store vt ! i) = of_nat (Suc i)" by simp
  from m assms(2) show "cv_messages (vt_store vt ! i) \<noteq> []" by (simp add: list_all_length)
qed

lemma numbered_lookup:
  assumes "numbered vt" "length (vt_store vt) < 2 ^ 64" "i < length (vt_store vt)"
  shows "load_version (vt_store vt) (of_nat (Suc i)) = Some (vt_store vt ! i)"
proof -
  have "cv_version (vt_store vt ! j) \<noteq> of_nat (Suc i)" if "j < i" for j
  proof
    assume "cv_version (vt_store vt ! j) = of_nat (Suc i)"
    with numbered_nth(1)[OF assms(1), of j] that assms(3) have "(of_nat (Suc j) :: u64) = of_nat (Suc i)" by simp
    moreover have "Suc i < 2 ^ LENGTH(64)" "Suc j < 2 ^ LENGTH(64)" using assms(2,3) that by simp_all
    ultimately have "Suc j = Suc i" by (simp only: word_unat_eq_iff unat_of_nat mod_less)
    with that show False by simp
  qed
  moreover have "cv_version (vt_store vt ! i) = of_nat (Suc i)" using numbered_nth(1)[OF assms(1,3)] .
  ultimately show ?thesis using assms(3) unfolding load_version_def find_Some_iff by blast
qed

text \<open>
  C39. No message of a versioned conversation is lost. Whatever messages arrive and whenever the
  sliding window overflows, every model message is either still in the context or in exactly one stored version;
  the versions are numbered from one without gaps, each loads by its number, the newest is the
  latest, and none is empty.
\<close>

theorem versions_keep_messages:
  assumes "fold (versioned_turn (sw_transform json_len sw) summarizer) turns ([], versioning_new []) = (ms, vt)"
    "length turns < 2 ^ 64"
  shows "mset (llm_of (concat (map fst turns))) = mset (llm_of ms) + mset (concat (map cv_messages (vt_store vt)))
    \<and> map vm_version (list_versions (vt_store vt)) = map (\<lambda>i. of_nat (Suc i)) [0..<length (vt_store vt)]
    \<and> (\<forall>i<length (vt_store vt). load_version (vt_store vt) (of_nat (Suc i)) = Some (vt_store vt ! i) \<and> cv_messages (vt_store vt ! i) \<noteq> [])
    \<and> latest_version (vt_store vt) = (if vt_store vt = [] then None else Some (last (vt_store vt)))"
proof -
  have v: "numbered vt" "length (vt_store vt) \<le> length turns"
    "mset (llm_of (concat (map fst turns))) = mset (llm_of ms) + mset (archived vt)"
    using versioned_turns[OF sliding_window_reports_drops numbered_new assms(1)]
    by (simp_all add: versioning_new_def archived_def)
  note load = numbered_lookup[OF v(1) order_le_less_trans[OF v(2) assms(2)]]
  have "latest_version (vt_store vt) = Some (last (vt_store vt))" if "vt_store vt \<noteq> []"
  proof -
    let ?n = "length (vt_store vt) - 1"
    have n: "?n < length (vt_store vt)" using that by simp
    from numbered_nth(1)[OF v(1) n] load[OF n] that show ?thesis
      by (simp add: latest_version_def list_versions_def last_map version_meta_def last_conv_nth)
  qed
  moreover have "cv_messages (vt_store vt ! i) \<noteq> []" if "i < length (vt_store vt)" for i
    using numbered_nth(2)[OF v(1) that] .
  moreover have "map vm_version (list_versions (vt_store vt)) = map (\<lambda>i. of_nat (Suc i)) [0..<length (vt_store vt)]"
  proof -
    have "map vm_version (list_versions (vt_store vt)) = map cv_version (vt_store vt)"
      by (simp add: list_versions_def version_meta_def)
    then show ?thesis using v(1) unfolding numbered_def by metis
  qed
  ultimately show ?thesis using v(3) load unfolding archived_def by (simp add: latest_version_def list_versions_def)
qed

theorem versions_keep_messages_witness:
  "\<exists>ms vt. fold (versioned_turn (sw_transform (\<lambda>_. 0) ((sw_new 8 8 1)\<lparr>sw_token_counter := Some (\<lambda>_. 4)\<rparr>)) None)
       [([user_text ''a'', user_text ''b''], False, 0), ([user_text ''c''], False, 1)] ([], versioning_new []) = (ms, vt)
     \<and> vt_store vt \<noteq> []
     \<and> mset (llm_of [user_text ''a'', user_text ''b'', user_text ''c'']) = mset (llm_of ms) + mset (concat (map cv_messages (vt_store vt)))"
proof -
  let ?sw = "(sw_new 8 8 1)\<lparr>sw_token_counter := Some (\<lambda>_. 4)\<rparr>"
  let ?turns = "[([user_text ''a'', user_text ''b''], False, 0), ([user_text ''c''], False, 1)]"
  obtain ms vt where f: "fold (versioned_turn (sw_transform (\<lambda>_. 0) ?sw) None) ?turns ([], versioning_new []) = (ms, vt)"
    by fastforce
  then have "vt_store vt \<noteq> []"
    by (auto simp: versioned_turn_def versioning_transform_def versioning_new_def sw_transform_def sw_new_def compact_eval
        effective_cached_prefix_len_def example_msgs eval_nat_numeral save_version_def)
  moreover have "length ?turns < 2 ^ 64" by simp
  ultimately show ?thesis using versions_keep_messages [OF f] f by simp
qed

text \<open>
  The turn of a version is its number and not the turn of the conversation: the counter only counts
  the turns that dropped something.
\<close>

lemma turn_is_version:
  assumes "numbered vt" "v \<in> set (vt_store vt)"
  shows "cv_turn v = cv_version v"
proof -
  from assms(1) have "map cv_turn (vt_store vt) = map cv_version (vt_store vt)" unfolding numbered_def by blast
  with assms(2) show ?thesis by (simp only: map_eq_conv)
qed

text \<open>Around a bare closure, such as the summarizing compactor, nothing is ever stored.\<close>

lemma closures_store_nothing:
  "snd (versioning_transform (closure_transform f) summarizer now vt ms overflow) = vt"
  by (simp add: versioning_transform_def closure_transform_def Let_def)

section \<open>Where the summary goes\<close>

lemma list_insert_length [simp]: "length (list_insert i x xs) = Suc (length xs)"
  by (simp add: list_insert_def)

lemma summary_not_result [simp]: "tool_result_id (summary_message s) = None" "call_ids_of (summary_message s) = []"
  by (simp_all add: summary_message_def call_ids_of_def)

lemma insert_summary_paired:
  assumes "well_paired ms"
  shows "well_paired (list_insert i (summary_message s) ms) \<longleftrightarrow> \<not> is_tool_result ms i"
proof -
  have p: "well_paired (take i ms)" using assms by (metis append_take_drop_id paired_from_append)
  have "paired_from [] (drop i ms) \<longleftrightarrow> \<not> is_tool_result ms i"
  proof (cases "is_tool_result ms i")
    case True
    then have "i < length ms" "tool_result_id (ms ! i) \<noteq> None" by (simp_all add: is_tool_result_iff)
    then show ?thesis using True by (auto simp: Cons_nth_drop_Suc[symmetric] split: option.splits)
  next
    case False
    then have "drop i ms = [] \<or> tool_result_id (hd (drop i ms)) = None"
      by (cases "i < length ms") (auto simp: is_tool_result_iff hd_drop_conv_nth)
    moreover have "paired_from (open_ids [] (take i ms)) (drop i ms)"
      using assms by (metis append_take_drop_id paired_from_append)
    ultimately show ?thesis using False paired_from_boundary by blast
  qed
  with p show ?thesis by (simp add: list_insert_def paired_from_append)
qed

lemma sliding_window_paired:
  assumes "well_paired ms"
  shows "well_paired (sliding_window json_len normal overflow_budget anchor ms overflow)"
proof -
  obtain ms' r where c: "compact_sliding_window_with (default_count_tokens json_len) ms (if overflow then overflow_budget else normal) anchor
      = (ms', r)" by fastforce
  have s: "sliding_window json_len normal overflow_budget anchor ms overflow = ms'"
    by (simp add: sliding_window_def compact_sliding_window_def c)
  show ?thesis
  proof (cases r)
    case None
    with c compact_None assms s show ?thesis by metis
  next
    case (Some report)
    with compacted_paired[OF assms c[unfolded Some]] s show ?thesis by simp
  qed
qed

text \<open>
  C40. Where a summary breaks a conversation. The compactor cuts at the end of a tool-call group that
  straddles its anchor, but inserts the summary at the anchor itself: when it compacts a well-paired
  history, the result is well paired exactly when the anchor does not fall on a tool result, and
  otherwise the summary stands between a call and its answer.
\<close>

theorem summary_splits_group:
  assumes "well_paired ms" "sc_summary sc = Some s"
    "length (sliding_window json_len (sc_normal_budget sc) (sc_overflow_budget sc) (sc_anchor sc) ms overflow) < length ms"
  shows "well_paired (fst (compaction_fn json_len sc ms overflow)) \<longleftrightarrow>
      \<not> is_tool_result (sliding_window json_len (sc_normal_budget sc) (sc_overflow_budget sc) (sc_anchor sc) ms overflow) (sc_anchor sc)"
proof -
  let ?ms = "sliding_window json_len (sc_normal_budget sc) (sc_overflow_budget sc) (sc_anchor sc) ms overflow"
  have "is_tool_result ?ms (min (sc_anchor sc) (length ?ms)) = is_tool_result ?ms (sc_anchor sc)"
    by (auto simp: is_tool_result_iff min_def)
  then show ?thesis using insert_summary_paired[OF sliding_window_paired[OF assms(1)]] assms(2,3)
    by (simp add: compaction_fn_def Let_def)
qed

theorem summary_splits_group_witness:
  "let sc = set_summary ''s'' (compactor_new 0 0 2);
       ms = [user_text ''abcd'', calling ''i'', answering ''i'', user_text ''efgh'']
   in well_paired ms \<and> \<not> well_paired (fst (compaction_fn (\<lambda>_. 0) sc ms False))
      \<and> fst (compaction_fn (\<lambda>_. 0) sc ms False) = [user_text ''abcd'', calling ''i'', summary_message ''s'', answering ''i'']"
proof -
  let ?sc = "set_summary ''s'' (compactor_new 0 0 2)"
  let ?ms = "[user_text ''abcd'', calling ''i'', answering ''i'', user_text ''efgh'']"
  have sc: "sc_summary ?sc = Some ''s''" "sc_normal_budget ?sc = 0" "sc_overflow_budget ?sc = 0" "sc_anchor ?sc = 2"
    by (simp_all add: set_summary_def compactor_new_def)
  have p: "well_paired ?ms" by (simp add: example_msgs call_ids_of_def)
  have ids: "tool_call_ids (calling ''i'') = Some [''i'']" "tool_result_id (answering ''i'') = Some ''i''"
    "tool_result_id (user_text t) = None" "tool_result_id (calling ''i'') = None" for t
    by (simp_all add: example_msgs List.map_filter_def)
  have g: "group_end ?ms [''i''] 2 = 3"
    by (simp add: group_end.simps[of ?ms "[''i'']" 2] group_end.simps[of ?ms "[''i'']" 3] ids)
  have a: "extend_anchor_for_tool_results ?ms 2 = 3"
    by (simp add: extend_anchor_for_tool_results_def is_tool_result_iff ids g[unfolded numeral_2_eq_2])
  have c: "default_count_tokens (\<lambda>_. 0) (user_text ''efgh'') = 1"
    by (simp add: user_text_def)
  have t: "tail_walk (default_count_tokens (\<lambda>_. 0)) ?ms 3 0 4 0 4 = 4"
    using c by (simp add: eval_nat_numeral)
  have w: "sliding_window (\<lambda>_. 0) 0 0 2 ?ms False = [user_text ''abcd'', calling ''i'', answering ''i'']"
    using c t a by (simp add: sliding_window_def compact_sliding_window_def compact_sliding_window_with_def Let_def eval_nat_numeral)
  have "length (sliding_window (\<lambda>_. 0) (sc_normal_budget ?sc) (sc_overflow_budget ?sc) (sc_anchor ?sc) ?ms False) < length ?ms"
    by (simp add: sc w)
  from summary_splits_group [OF p sc(1) this]
  have "\<not> well_paired (fst (compaction_fn (\<lambda>_. 0) ?sc ?ms False))"
    by (simp add: sc w is_tool_result_iff ids)
  moreover have "fst (compaction_fn (\<lambda>_. 0) ?sc ?ms False) = [user_text ''abcd'', calling ''i'', summary_message ''s'', answering ''i'']"
    by (simp add: compaction_fn_def sc w list_insert_def Let_def)
  ultimately show ?thesis using p by (simp add: Let_def)
qed

text \<open>
  A summary that takes the place of one dropped message hides the compaction: the history is as long
  as before, so the loop gets no report and announces nothing.
\<close>

lemma single_drop_unreported:
  assumes "sc_summary sc = Some s"
    "Suc (length (sliding_window json_len (sc_normal_budget sc) (sc_overflow_budget sc) (sc_anchor sc) ms overflow)) = length ms"
  shows "snd (compactor_transform json_len sc ms overflow) = None"
  using assms by (simp add: compactor_transform_def closure_transform_def compaction_fn_def Let_def)

end
