(* ===== verification/Spec2Isabelle.thy ===== *)
theory Spec2Isabelle
  imports Run_Liveness Turn_Effects Agent_Resume Agent_Build Pipelines File_Checkpoints Session_Saves
    Adapter_Calls Chat_Requests Request_Pairing Orchestration Context_Versions
begin

text \<open>
  Swink-Agent: a verification development for the agent library of this repository. The program is a
  Rust workspace; the crates treated here are the core (\<^verbatim>\<open>src/src\<close>), the persistence crate
  (\<^verbatim>\<open>memory/src\<close>), the policies (\<^verbatim>\<open>policies/src\<close>), the pipelines (\<^verbatim>\<open>patterns/src\<close>) and the provider
  adapters (\<^verbatim>\<open>adapters/src\<close>). Paths below are relative to \<^verbatim>\<open>src/\<close>.

  \<^bold>\<open>What the program does.\<close>  An \<^verbatim>\<open>Agent\<close> holds a conversation, tools, policies and queues. A prompt starts
  a run: the loop (\<^verbatim>\<open>src/src/loop_/mod.rs\<close>) takes turns until nothing is left to do. A turn injects
  pending messages, runs transformers (among them the sliding-window compaction), asks the pre-turn
  policies, calls the model through a stream function with retries and fallback models, accumulates
  the streamed events into one message, dispatches the tool calls of the answer, and asks the
  post-turn policies. All of it is reported as a sequence of events, from which the agent rebuilds
  its own state. A stream function is one of the adapters: it converts the conversation to the wire
  format of a provider and turns the bytes of the response back into stream events. Conversations
  are stored by checkpoints and by the session store, an append-friendly file of lines.

  \<^bold>\<open>Theories and the code they model.\<close>

  Foundations. \<open>Prelude\<close> holds JSON values, the string functions of the Rust standard library,
  integers at their width, hash maps with unique keys and the generic lemmas; \<open>Agent_Types\<close> the
  content blocks and messages of \<^verbatim>\<open>src/src/types\<close>; \<open>Session_State\<close> the key-value store of \<^verbatim>\<open>state.rs\<close>;
  \<open>Errors_Retry\<close> the errors, their classification and the default retry strategy (\<^verbatim>\<open>error.rs\<close>,
  \<^verbatim>\<open>retry.rs\<close>); \<open>Compaction\<close> the sliding window of \<^verbatim>\<open>context.rs\<close>; \<open>Context_Messages\<close> the history of
  \<^verbatim>\<open>loop_/types.rs\<close> with its mirror and the provider cache of \<^verbatim>\<open>context_cache.rs\<close>; \<open>Stream_Accumulate\<close> the
  stream events and \<^verbatim>\<open>accumulate_message\<close> of \<^verbatim>\<open>stream.rs\<close>; \<open>Agent_Transfer\<close> tool results and hand-off
  (\<^verbatim>\<open>tool.rs\<close>, \<^verbatim>\<open>transfer.rs\<close>); \<open>Policy_Slots\<close> and \<open>Policies\<close> the slot runners of \<^verbatim>\<open>policy.rs\<close> and the
  policies of the \<^verbatim>\<open>policies\<close> crate; \<open>Tool_Names\<close> \<^verbatim>\<open>tool_name.rs\<close>.

  The loop. \<open>Loop_World\<close> has the configuration and the shared world of \<^verbatim>\<open>loop_/config.rs\<close> and
  \<^verbatim>\<open>loop_/event.rs\<close>: the events sent so far, the session, and a clock that ticks at every call of code
  outside the repository. That code (stream functions, tools, policies, approval callbacks,
  cancellation tokens) is a function of the tick in the record \<open>loop_config\<close>, so it may answer
  differently each time; a panic that the code catches is a value of its result. \<open>Stream_Retry\<close> models
  \<^verbatim>\<open>loop_/stream.rs\<close> and \<^verbatim>\<open>fallback.rs\<close>, \<open>Tool_Preprocess\<close> and \<open>Tool_Execute\<close> \<^verbatim>\<open>loop_/tool_dispatch\<close>, \<open>Turn\<close>
  \<^verbatim>\<open>loop_/turn.rs\<close> and \<^verbatim>\<open>loop_/overflow.rs\<close>, \<open>Agent_Loop\<close> \<^verbatim>\<open>run_loop_inner\<close>. The tasks of one group of
  tool calls run in any interleaving: an argument of the model picks the order in which they finish.

  The agent. \<open>Message_Codec\<close> and \<open>Checkpoint\<close> model \<^verbatim>\<open>types/message_codec.rs\<close> and \<^verbatim>\<open>checkpoint.rs\<close>,
  \<open>Agent_State\<close>, \<open>Agent_Runs\<close> and \<open>Agent_Prompt\<close> the files of \<^verbatim>\<open>src/src/agent\<close>: the state and its queues, the runs and
  the streams their callers hold, and whole prompts including structured output. \<open>Agent_Build\<close> models the
  constructor with the merge of plugin tools (\<^verbatim>\<open>agent.rs\<close>, \<^verbatim>\<open>agent_options.rs\<close>, \<^verbatim>\<open>plugin.rs\<close>), and
  \<open>Pipelines\<close> the multi-agent pipelines of \<^verbatim>\<open>patterns/src/pipeline\<close>. \<open>Orchestration\<close> models named agents that
  answer requests in tasks of their own, with their hierarchy, supervisor and handles, the registry and the
  sub-agent tool (\<^verbatim>\<open>orchestrator.rs\<close>, \<^verbatim>\<open>task_core.rs\<close>, \<^verbatim>\<open>handle.rs\<close>, \<^verbatim>\<open>sub_agent.rs\<close>); \<open>Context_Versions\<close> what becomes of
  the messages a compaction drops (\<^verbatim>\<open>context_version.rs\<close>, \<^verbatim>\<open>memory/src/compaction.rs\<close>).

  Persistence. \<open>Byte_Lines\<close> holds bytes, UTF-8 and lines; \<open>Session_Log\<close> the reading of a session file
  and its tail window, \<open>Session_Store\<close> every operation of \<^verbatim>\<open>memory/src/jsonl.rs\<close>; \<open>File_Checkpoints\<close> the
  checkpoint files of \<^verbatim>\<open>memory/src/checkpoint_store.rs\<close> and the two checkpoint policies.

  The adapters. \<open>Block_Accumulator\<close> models \<^verbatim>\<open>src/src/block_accumulator.rs\<close>, \<open>Sse\<close> the byte parser and the
  polling scaffold of \<^verbatim>\<open>adapters/src/sse.rs\<close>, \<open>Adapter_Base\<close> \<^verbatim>\<open>classify.rs\<close> and \<^verbatim>\<open>base.rs\<close>. The protocols are
  \<open>OpenAI_Compat\<close>, \<open>Anthropic\<close>, \<open>Gemini\<close> (\<^verbatim>\<open>google.rs\<close>), \<open>Ollama\<close>, \<open>Mistral\<close> and \<open>Proxy\<close>, each a handler of the lines or
  events of its provider. \<open>Oai_Transport\<close> (\<^verbatim>\<open>oai_transport.rs\<close>) and \<open>Adapter_Calls\<close> put the request, the classification of
  a refusal and the stream together into whole calls. \<open>Message_Convert\<close> (\<^verbatim>\<open>convert.rs\<close>) and \<open>Request_Bodies\<close> build what
  is sent; \<open>Chat_Requests\<close> and \<open>Request_Pairing\<close> follow a history into that request.

  Records carry the fields of the Rust structs under a prefix of their own, datatypes the variants of
  the enums, and a definition has the name of its function where that name is free. A mutating method
  returns the new state; \<^verbatim>\<open>Result\<close> is the sum type \<open>result\<close> with \<open>Inl\<close> the error, and a panic that is
  not caught is a value too where the caller can see it. The loop of \<^verbatim>\<open>run_loop_inner\<close> and the runs
  built on it are \<^theory_text>\<open>partial_function (option)\<close>, so a run that does not return is \<open>None\<close> and that a run
  returns is a theorem.

  \<^bold>\<open>What the lemmas show.\<close>

  \<open>Turn_Protocol\<close>, \<open>Turn_History\<close>, \<open>Turn_Effects\<close> and \<open>Run_Liveness\<close> are about the loop: its events follow the
  documented order in every run, every request sent to a provider has exactly one result for each
  tool call, a capped or cancelled run ends. The invariant of the histories (\<open>answered\<close>) is carried
  through compaction, policies that rewrite the answer, interrupted batches, rejected transfers and
  the overflow recovery; \<open>Request_Pairing\<close> and \<open>Chat_Requests\<close> carry it on through the conversions of the Anthropic, chat
  and Mistral adapters, whose further demands (no user message after a tool message, short identifiers)
  are met too.

  \<open>Agent_Runs\<close>, \<open>Agent_Prompt\<close> and \<open>Agent_Resume\<close> lift this to the agent: the state is the fold of the
  events, idle waiters return, structured output ends, a pause or a checkpoint keeps the conversation.
  \<open>Orchestration\<close> compares the loop of a spawned agent with the plain conversation it holds: its supervisor
  is never consulted, and every request is answered.

  \<open>Session_Crash\<close> and \<open>Session_Saves\<close> refine the session file, a list of bytes, to the session it stands
  for: round trips, sequence numbers, appends that patch the file or rewrite it, and a crash at any
  byte of an append.

  The adapter theories share the locale \<open>line_handler\<close>: a handler of lines that keeps a relation between its
  state and the accumulation of the message yields a stream that ends and is accepted as one message.
  Each adapter interprets it on its own handler, and a call of OpenAI-compatible providers, Anthropic,
  Gemini, Ollama or the proxy ends with one message whatever bytes arrive. The other locales (slots of policies, lookups,
  compaction and event protocols) are used in the same way: a client proves its lemmas from
  the contract, the theory of the provider interprets it.

  Some properties show what goes wrong: calls cut off by the token limit are answered twice, a stale
  run frees a busy agent, two text blocks of one Anthropic message end each other, an unnamed Gemini call
  emits content after its error, a checkpoint is pruned by its own save, a summary is put between a
  tool call and its result. They are kept as theorems with the input that shows it.

  \<^bold>\<open>Bounds and fuel.\<close>  A loop that the code bounds by data is structural recursion. The attempts of a model
  call are bounded by the configured retries and fallback models. The polling scaffold of the
  adapters takes the number of polls: the theorems ask for two more than the number of lines (one for
  the opening event, one for the end of the input), after which a stream has ended. Everything else that could run
  forever is a partial function.

  \<^bold>\<open>External code.\<close>  JSON parsing and printing (\<^verbatim>\<open>serde_json\<close>), schema validation, hashing of custom data,
  clocks and random numbers are arguments of the definitions; what a theorem relies on (that
  printing is undone by parsing, that a printed value has no newline) is a named hypothesis, and its
  witness instantiates the argument.

  \<^bold>\<open>Not modelled.\<close>  Log lines, metrics and tracing throughout; channel capacities and task
  scheduling beyond the interleavings above; file system errors (the model's
  directory always answers). Whole parts left out: the terminal and remote user interfaces (\<^verbatim>\<open>tui\<close>, \<^verbatim>\<open>tui-remote\<close>),
  the evaluation crates (\<^verbatim>\<open>eval\<close>, \<^verbatim>\<open>eval-judges\<close>, \<^verbatim>\<open>evolve\<close>), local inference (\<^verbatim>\<open>local-llm\<close>), and the clients of network
  protocols (\<^verbatim>\<open>mcp\<close>, \<^verbatim>\<open>rpc\<close>, \<^verbatim>\<open>auth\<close>, \<^verbatim>\<open>plugins/web\<close>), most of whose code is I/O, rendering or calls of third-party
  libraries; artifacts and the search index, which are thin layers over the file system and SQLite; the adapters Bedrock and Responses,
  whose streams are built from the same accumulator, and the thin wrappers OpenAI, Azure, xAI and Codex; and the policies that are
  regular expressions or touch the file system.
\<close>

end
